(* ===== verification/Prelude.thy ===== *)
theory Prelude
  imports Main "HOL-Library.Word"
begin

text \<open>
  Shared vocabulary of the development: the byte and machine-integer types, the byte-order
  lemmas every codec needs, and the three interfaces the components are proved against.

  \<^item> \<open>int_codec\<close>: a fixed-width integer packer and the reader that goes with it.
    Every source file has its own private pair (\<open>pack32Le\<close>/\<open>read32Le\<close>, \<open>packBe32\<close>/
    \<open>readBe32\<close>, \<open>writeU16Le\<close>/\<open>readU16Le\<close>, ...); each pair is an interpretation.
  \<^item> \<open>stream_parser\<close>: a \<open>tryParse...\<close> function over a growing receive buffer. It consumes
    a positive number of bytes that are present, and its answer depends on those bytes only.
  \<^item> \<open>frame_loop\<close>: the \<open>drainInbox\<close> loop of a session over such parsers. Its lemmas
    say how the loop reacts to the peer's bytes arriving in several reads.
\<close>

unbundle bit_operations_syntax

section \<open>Types\<close>

type_synonym byte = "8 word"
type_synonym bytes = "byte list"
type_synonym u16 = "16 word"
type_synonym u32 = "32 word"
type_synonym u64 = "64 word"

text \<open>A \<open>QString\<close> is its sequence of UTF-16 code units.\<close>

type_synonym qchar = "16 word"
type_synonym qstring = "qchar list"

text \<open>An ASCII literal of the source as a \<open>QString\<close> or as raw bytes.\<close>

definition qlit :: "string \<Rightarrow> qstring" where
  "qlit s = map of_char s"

definition blit :: "string \<Rightarrow> bytes" where
  "blit s = map of_char s"

lemma length_qlit [simp]: "length (qlit s) = length s"
  by (simp add: qlit_def)

lemma length_blit [simp]: "length (blit s) = length s"
  by (simp add: blit_def)

named_theorems codec_defs "definitions of packers, readers and frame builders"
named_theorems parse_defs "definitions of the tryParse functions"

section \<open>Values of machine words\<close>

lemma unat_bound: "unat (x :: 'a::len word) < 2 ^ LENGTH('a)"
  by (rule unsigned_less)

lemma unat_ucast_up: "LENGTH('a) \<le> LENGTH('b) \<Longrightarrow> unat (ucast (x :: 'a::len word) :: 'b::len word) = unat x"
  by (simp add: unsigned_ucast_eq take_bit_nat_eq_self_iff order_less_le_trans [OF unat_bound])

section \<open>Bytes of a machine word\<close>

lemma and_FF: "(x :: 'a::len word) AND 0xFF = take_bit 8 x"
proof -
  have "(0xFF :: 'a word) = mask 8"
    by (simp add: mask_eq_exp_minus_1)
  then show ?thesis
    by (simp add: take_bit_eq_mask)
qed

lemma ucast_take_byte: "(ucast (take_bit 8 x) :: byte) = ucast (x :: 'a::len word)"
  by (rule bit_word_eqI) (auto simp: bit_simps)

lemma word16_of_bytes:
  "(ucast (ucast v :: byte) OR push_bit 8 (ucast (ucast (drop_bit 8 v) :: byte)) :: u16) = v"
proof (rule bit_word_eqI)
  fix n :: nat
  assume "n < LENGTH(16)"
  then show "bit (ucast (ucast v :: byte) OR push_bit 8 (ucast (ucast (drop_bit 8 v) :: byte)) :: u16) n = bit v n"
    by (cases "n < 8") (auto simp: bit_simps not_less)
qed

lemma word32_of_bytes:
  "(ucast (ucast v :: byte) OR push_bit 8 (ucast (ucast (drop_bit 8 v) :: byte))
     OR push_bit 16 (ucast (ucast (drop_bit 16 v) :: byte))
     OR push_bit 24 (ucast (ucast (drop_bit 24 v) :: byte)) :: u32) = v"
proof (rule bit_word_eqI)
  fix n :: nat
  assume "n < LENGTH(32)"
  then show "bit (ucast (ucast v :: byte) OR push_bit 8 (ucast (ucast (drop_bit 8 v) :: byte))
     OR push_bit 16 (ucast (ucast (drop_bit 16 v) :: byte))
     OR push_bit 24 (ucast (ucast (drop_bit 24 v) :: byte)) :: u32) n = bit v n"
    by (cases "n < 8"; cases "n < 16"; cases "n < 24") (auto simp: bit_simps not_less)
qed

text \<open>The big-endian readers of the source combine the same bytes in the opposite order.\<close>

lemma word16_of_bytes_be:
  "(push_bit 8 (ucast (ucast (drop_bit 8 v) :: byte)) OR ucast (ucast v :: byte) :: u16) = v"
  using word16_of_bytes [of v] by (simp only: or.commute)

lemma word32_of_bytes_be:
  "(push_bit 24 (ucast (ucast (drop_bit 24 v) :: byte)) OR push_bit 16 (ucast (ucast (drop_bit 16 v) :: byte))
     OR push_bit 8 (ucast (ucast (drop_bit 8 v) :: byte)) OR ucast (ucast v :: byte) :: u32) = v"
  using word32_of_bytes [of v] by (simp only: ac_simps)

lemmas byte_order_simps =
  and_FF ucast_take_byte word16_of_bytes word32_of_bytes word16_of_bytes_be word32_of_bytes_be

section \<open>Reading a buffer\<close>

text \<open>\<open>QByteArray::mid(pos, len)\<close>: at most \<open>len\<close> bytes from \<open>pos\<close>.\<close>

definition mid :: "'a list \<Rightarrow> nat \<Rightarrow> nat \<Rightarrow> 'a list" where
  "mid xs p n = take n (drop p xs)"

lemma mid_append [simp]: "p + n \<le> length xs \<Longrightarrow> mid (xs @ ys) p n = mid xs p n"
  by (simp add: mid_def)

lemma mid_take: "p + n \<le> k \<Longrightarrow> mid (take k xs) p n = mid xs p n"
  by (simp add: mid_def drop_take min_def)

lemma length_mid: "p + n \<le> length xs \<Longrightarrow> length (mid xs p n) = n"
  by (simp add: mid_def)

lemma mid_hit: "length pre = p \<Longrightarrow> length ys = n \<Longrightarrow> mid (pre @ ys @ post) p n = ys"
  by (auto simp: mid_def)

section \<open>Integer codecs\<close>

locale int_codec =
  fixes pack :: "'w::len word \<Rightarrow> bytes"
    and read :: "bytes \<Rightarrow> nat \<Rightarrow> 'w word"
    and width :: nat
  assumes pack_length: "length (pack v) = width"
    and read_pack: "read (pre @ pack v @ post) (length pre) = v"
    and read_append: "i + width \<le> length xs \<Longrightarrow> read (xs @ ys) i = read xs i"
begin

lemma pack_inj: "pack v = pack w \<longleftrightarrow> v = w"
  by (metis read_pack)

lemma read_hit: "length pre = i \<Longrightarrow> read (pre @ pack v @ post) i = v"
  using read_pack [of pre v post] by simp

lemma read_take:
  assumes "i + width \<le> k" and "k \<le> length xs"
  shows "read (take k xs) i = read xs i"
proof -
  have "i + width \<le> length (take k xs)"
    using assms by simp
  then have "read (take k xs @ drop k xs) i = read (take k xs) i"
    by (rule read_append)
  then show ?thesis by simp
qed

end

section \<open>Stream parsers\<close>

locale stream_parser =
  fixes parse :: "bytes \<Rightarrow> ('a \<times> nat) option"
  assumes parse_consumes: "parse b = Some (x, n) \<Longrightarrow> 0 < n \<and> n \<le> length b"
    and parse_append: "parse b = Some r \<Longrightarrow> parse (b @ c) = Some r"
    and parse_take: "parse b = Some (x, n) \<Longrightarrow> parse (take n b) = Some (x, n)"
begin

text \<open>What is left in the buffer after the frame is removed only grows at its end.\<close>

lemma rest_append: "parse b = Some (x, n) \<Longrightarrow> drop n (b @ c) = drop n b @ c"
  using parse_consumes by fastforce

lemma parse_append_Cons: "parse (t # b) = Some r \<Longrightarrow> parse (t # b @ c) = Some r"
  using parse_append [of "t # b"] by simp

text \<open>The frame is the only thing that decides: two buffers that start with it parse alike.\<close>

lemma parse_frame: "parse b = Some (x, n) \<Longrightarrow> parse (take n b @ c) = Some (x, n)"
  by (rule parse_append) (rule parse_take)

text \<open>No frame is a proper prefix of another one.\<close>

lemma prefix_free:
  assumes "parse b = Some (x, n)" and "parse c = Some (y, m)" and "take m c = take m b"
    and "m \<le> length b"
  shows "n = m \<and> x = y"
proof -
  have "parse (take m c @ drop m b) = Some (y, m)"
    using assms(2) by (rule parse_frame)
  moreover have "take m c @ drop m b = b"
    using assms(3) by simp
  ultimately show ?thesis
    using assms(1) by simp
qed

end

section \<open>Receive loops\<close>

text \<open>
  One iteration of a \<open>drainInbox\<close> loop either finds too few bytes and returns with nothing
  changed (\<open>Wait\<close>), returns for good with a new state (\<open>Halt\<close>), or processes a frame and
  goes round again (\<open>Next\<close>).
\<close>

datatype 's loop = Wait | Halt 's | Next 's

text \<open>
  How one iteration \<open>h\<close> reacts to a longer buffer: what it decided for the short one stands.
\<close>

definition feeds_through ::
  "(bytes \<Rightarrow> 's \<Rightarrow> 's) \<Rightarrow> (bytes \<Rightarrow> 's \<Rightarrow> 's) \<Rightarrow> ('s \<Rightarrow> 'o) \<Rightarrow> ('s \<Rightarrow> 's loop) \<Rightarrow> 's \<Rightarrow> bytes \<Rightarrow> bool" where
  "feeds_through feed late obs h s b =
     (case h s of
        Wait \<Rightarrow> True
      | Next t \<Rightarrow> h (feed b s) = Next (feed b t)
      | Halt t \<Rightarrow> (\<exists>u. h (feed b s) = Halt u \<and> obs u = obs (late b t)))"

lemma feeds_through_wait: "h s = Wait \<Longrightarrow> feeds_through feed late obs h s b"
  by (simp add: feeds_through_def)

lemma feeds_through_eq:
  assumes "feeds_through feed late obs g t b" and "h s = g t" and "h (feed b s) = g (feed b t)"
  shows "feeds_through feed late obs h s b"
  using assms by (auto simp: feeds_through_def split: loop.splits)

lemma feeds_through_map:
  assumes "h s \<noteq> Wait \<Longrightarrow> h (feed b s) = map_loop (feed b) (h s)"
  shows "feeds_through feed feed id h s b"
  using assms by (cases "h s") (simp_all add: feeds_through_def)

text \<open>
  \<open>feed b\<close> appends a read to the buffer of a running loop and \<open>late b\<close> is what the
  component does with a read that arrives after the loop has halted. \<open>obs\<close> is what an observer
  can tell of a state.
\<close>

locale frame_loop =
  fixes step :: "'s \<Rightarrow> 's loop"
    and inbox :: "'s \<Rightarrow> bytes"
    and feed :: "bytes \<Rightarrow> 's \<Rightarrow> 's"
    and drain :: "'s \<Rightarrow> 's"
    and late :: "bytes \<Rightarrow> 's \<Rightarrow> 's"
    and obs :: "'s \<Rightarrow> 'o"
  assumes drain_unfold: "drain s = (case step s of Wait \<Rightarrow> s | Halt t \<Rightarrow> t | Next t \<Rightarrow> drain t)"
    and step_consumes: "step s = Next t \<Longrightarrow> length (inbox t) < length (inbox s)"
    and step_feeds: "feeds_through feed late obs step s b"
begin

lemma step_feed: "step s = Next t \<Longrightarrow> step (feed b s) = Next (feed b t)"
  using step_feeds [of s b] by (simp add: feeds_through_def)

lemma halt_feed: "step s = Halt t \<Longrightarrow> \<exists>u. step (feed b s) = Halt u \<and> obs u = obs (late b t)"
  using step_feeds [of s b] by (simp add: feeds_through_def)

text \<open>The runs that stop because the next frame is not complete yet.\<close>

inductive quiet :: "'s \<Rightarrow> bool" where
  quiet_wait: "step s = Wait \<Longrightarrow> quiet s"
| quiet_next: "step s = Next t \<Longrightarrow> quiet t \<Longrightarrow> quiet s"

lemma drain_quiet_waits: "quiet s \<Longrightarrow> step (drain s) = Wait"
proof (induction rule: quiet.induct)
  case (quiet_wait s)
  then show ?case by (simp add: drain_unfold [of s])
next
  case (quiet_next s t)
  then show ?case by (simp add: drain_unfold [of s])
qed

text \<open>Draining before the next read changes nothing.\<close>

lemma drain_feed_drain: "quiet s \<Longrightarrow> drain (feed b (drain s)) = drain (feed b s)"
proof (induction rule: quiet.induct)
  case (quiet_wait s)
  then show ?case by (simp add: drain_unfold [of s])
next
  case (quiet_next s t)
  have "drain (feed b s) = drain (feed b t)"
    using step_feed [OF quiet_next.hyps(1)] by (simp add: drain_unfold [of "feed b s"])
  then show ?case
    using quiet_next by (simp add: drain_unfold [of s])
qed

text \<open>A run that is not quiet halts, and later bytes do not change what it did before.\<close>

lemma not_quiet_halts:
  "\<not> quiet s \<Longrightarrow> \<exists>u. step u = Halt (drain s) \<and> obs (drain (feed b s)) = obs (late b (drain s))"
proof (induction "length (inbox s)" arbitrary: s rule: less_induct)
  case less
  show ?case
  proof (cases "step s")
    case Wait
    then have "quiet s" by (rule quiet_wait)
    with less.prems show ?thesis by simp
  next
    case (Halt t)
    then obtain u where "step (feed b s) = Halt u" "obs u = obs (late b t)"
      using halt_feed by blast
    with Halt have "obs (drain (feed b s)) = obs (late b t)" "drain s = t"
      by (simp_all add: drain_unfold [of s] drain_unfold [of "feed b s"])
    with Halt show ?thesis by blast
  next
    case (Next t)
    with less.prems have "\<not> quiet t"
      by (blast intro: quiet_next)
    moreover have "drain (feed b s) = drain (feed b t)" "drain s = drain t"
      using step_feed [OF Next] Next
      by (simp_all add: drain_unfold [of s] drain_unfold [of "feed b s"])
    ultimately show ?thesis
      using less.hyps step_consumes [OF Next] by simp
  qed
qed

lemma quiet_iff_waits: "step (drain s) = Wait \<Longrightarrow> (\<And>u. step u \<noteq> Halt (drain s)) \<Longrightarrow> quiet s"
  using not_quiet_halts by blast

text \<open>What every iteration keeps holds after the loop.\<close>

lemma drain_invariant:
  assumes inv: "P s" and keep_next: "\<And>u t. P u \<Longrightarrow> step u = Next t \<Longrightarrow> P t"
    and keep_halt: "\<And>u t. P u \<Longrightarrow> step u = Halt t \<Longrightarrow> P t"
  shows "P (drain s)"
  using inv
proof (induction "length (inbox s)" arbitrary: s rule: less_induct)
  case less
  show ?case
  proof (cases "step s")
    case Wait
    with less.prems show ?thesis by (simp add: drain_unfold [of s])
  next
    case (Halt t)
    with less.prems keep_halt show ?thesis by (simp add: drain_unfold [of s])
  next
    case (Next t)
    with less keep_next step_consumes [OF Next] have "P (drain t)"
      by blast
    with Next show ?thesis by (simp add: drain_unfold [of s])
  qed
qed

end

text \<open>
  When a read only extends the buffer, a run that stays quiet gives the same result for every way
  of cutting the stream into reads.
\<close>

locale stream_loop = frame_loop +
  assumes feed_append: "feed (a @ b) s = feed b (feed a s)"
    and feed_nil: "feed [] s = s"
begin

lemma quiet_prefix: "quiet (feed b s) \<Longrightarrow> quiet s"
proof (rule ccontr)
  assume "\<not> quiet s"
  then show "quiet (feed b s) \<Longrightarrow> False"
  proof (induction "length (inbox s)" arbitrary: s rule: less_induct)
    case less
    show ?case
    proof (cases "step s")
      case Wait
      with less.prems show ?thesis by (blast intro: quiet_wait)
    next
      case (Halt t)
      with halt_feed [of s t b] less.prems(1) show ?thesis by (auto elim: quiet.cases)
    next
      case (Next t)
      with less.prems have "\<not> quiet t" by (blast intro: quiet_next)
      moreover have "quiet (feed b t)"
        using less.prems(1) step_feed [OF Next, of b] by (auto elim: quiet.cases)
      ultimately show ?thesis
        using less.hyps step_consumes [OF Next] by blast
    qed
  qed
qed

lemma reads_drained:
  "quiet (feed (concat bs) s) \<Longrightarrow> fold (\<lambda>b s. drain (feed b s)) bs (drain s) = drain (feed (concat bs) s)"
proof (induction bs arbitrary: s)
  case Nil
  then show ?case by (simp add: feed_nil)
next
  case (Cons b bs)
  then have "quiet (feed (concat bs) (feed b s))"
    by (simp add: feed_append)
  moreover from this have "quiet (feed b s)"
    by (rule quiet_prefix)
  then have "quiet s"
    by (rule quiet_prefix)
  ultimately show ?case
    using Cons.IH [of "feed b s"] by (simp add: drain_feed_drain feed_append)
qed

lemma reads_concat:
  assumes "quiet (feed (concat bs) s)" and "bs \<noteq> []"
  shows "fold (\<lambda>b s. drain (feed b s)) bs s = drain (feed (concat bs) s)"
proof (cases bs)
  case (Cons b bs')
  with assms(1) show ?thesis
    using reads_drained [of bs' "feed b s"] by (simp add: feed_append)
qed (use assms(2) in simp)

end

section \<open>Decimal output\<close>

text \<open>\<open>QByteArray::number\<close> of a non-negative number.\<close>

fun dec_digits :: "nat \<Rightarrow> bytes" where
  "dec_digits n = (if n < 10 then [of_nat (48 + n)] else dec_digits (n div 10) @ [of_nat (48 + n mod 10)])"

declare dec_digits.simps [simp del]

section \<open>Hexadecimal output\<close>

text \<open>\<open>QByteArray::toHex\<close> and \<open>QString::arg(v, 16, 16, '0')\<close>: lower-case digits.\<close>

definition hex_digit :: "nat \<Rightarrow> byte" where
  "hex_digit n = (if n < 10 then of_nat (48 + n) else of_nat (87 + n))"

definition toHex :: "bytes \<Rightarrow> bytes" where
  "toHex bs = concat (map (\<lambda>b. [hex_digit (unat b div 16), hex_digit (unat b mod 16)]) bs)"

lemma length_toHex [simp]: "length (toHex bs) = 2 * length bs"
  by (induction bs) (simp_all add: toHex_def)

text \<open>\<open>QString::fromLatin1\<close>: every byte is the code unit of the same value.\<close>

definition fromLatin1 :: "bytes \<Rightarrow> qstring" where
  "fromLatin1 bs = map ucast bs"

lemma length_fromLatin1 [simp]: "length (fromLatin1 bs) = length bs"
  by (simp add: fromLatin1_def)

end
