(* ===== verification/Redir_Codec.thy ===== *)
theory Redir_Codec
  imports Prelude
begin

text \<open>
  The wire format of Intel's redirection port, \<open>redir/src/redir_codec.cpp\<close>: the session
  selector (0x10) and its reply (0x11), the digest authentication exchange (0x13/0x14) and the
  Serial-over-LAN frames (0x20, 0x21, 0x27, 0x28, 0x2A, 0x2B).

  \<open>QString::toUtf8\<close>, \<open>QString::fromUtf8\<close>, the MD5 function and the random generator are
  parameters. A \<open>tryParse\<close> function of the source returns a flag and writes through two
  out-pointers, which every caller passes; here it is \<open>None\<close> for \<open>false\<close> and
  \<open>Some (reply, consumed)\<close> for \<open>true\<close>.
\<close>

section \<open>Protocol selectors and enumerations\<close>

datatype Protocol = Sol | Kvm | Ider

datatype StartSessionStatus = Success | Busy | Unsupported | UnknownError | OtherStatus byte

definition StartSessionStatus_of :: "byte \<Rightarrow> StartSessionStatus" where
  "StartSessionStatus_of b =
     (if b = 0 then Success else if b = 2 then Busy else if b = 3 then Unsupported
      else if b = 0xFF then UnknownError else OtherStatus b)"

datatype AuthType = Query | Basic | Kerberos | DigestNoQop | DigestWithQop | OtherAuth byte

definition AuthType_of :: "byte \<Rightarrow> AuthType" where
  "AuthType_of b =
     (if b = 0 then Query else if b = 1 then Basic else if b = 2 then Kerberos
      else if b = 3 then DigestNoQop else if b = 4 then DigestWithQop else OtherAuth b)"

fun AuthType_byte :: "AuthType \<Rightarrow> byte" where
  "AuthType_byte Query = 0"
| "AuthType_byte Basic = 1"
| "AuthType_byte Kerberos = 2"
| "AuthType_byte DigestNoQop = 3"
| "AuthType_byte DigestWithQop = 4"
| "AuthType_byte (OtherAuth b) = b"

record StartSessionReply =
  ssr_status :: StartSessionStatus
  ssr_oemData :: bytes

record AuthCapabilities =
  hasBasic :: bool
  hasKerberos :: bool
  hasDigestNoQop :: bool
  hasDigestWithQop :: bool

definition noCaps :: AuthCapabilities where
  "noCaps = \<lparr>hasBasic = False, hasKerberos = False, hasDigestNoQop = False, hasDigestWithQop = False\<rparr>"

record AuthReply =
  ar_status :: byte
  ar_authType :: AuthType
  ar_caps :: AuthCapabilities
  ar_realm :: qstring
  ar_nonce :: qstring
  ar_qop :: qstring

section \<open>Integers\<close>

definition pack32Le :: "u32 \<Rightarrow> bytes" where
  "pack32Le v = [ucast (v AND 0xFF), ucast (drop_bit 8 v AND 0xFF),
                 ucast (drop_bit 16 v AND 0xFF), ucast (drop_bit 24 v AND 0xFF)]"

definition read32Le :: "bytes \<Rightarrow> nat \<Rightarrow> u32" where
  "read32Le v off = ucast (v ! off) OR push_bit 8 (ucast (v ! (off + 1)))
                    OR push_bit 16 (ucast (v ! (off + 2))) OR push_bit 24 (ucast (v ! (off + 3)))"

definition pack16Le :: "u16 \<Rightarrow> bytes" where
  "pack16Le v = [ucast (v AND 0xFF), ucast (drop_bit 8 v AND 0xFF)]"

definition read16Le :: "bytes \<Rightarrow> nat \<Rightarrow> u16" where
  "read16Le v off = ucast (v ! off) OR push_bit 8 (ucast (v ! (off + 1)))"

interpretation le32: int_codec pack32Le read32Le 4
  by unfold_locales
    (simp_all add: pack32Le_def read32Le_def nth_append byte_order_simps)

interpretation le16: int_codec pack16Le read16Le 2
  by unfold_locales
    (simp_all add: pack16Le_def read16Le_def nth_append byte_order_simps)

section \<open>Session selector\<close>

definition kSolSelector :: bytes where
  "kSolSelector = [0x10, 0x00, 0x00, 0x00, 0x53, 0x4F, 0x4C, 0x20]"

definition kKvmSelector :: bytes where
  "kKvmSelector = [0x10, 0x01, 0x00, 0x00, 0x4B, 0x56, 0x4D, 0x52]"

definition kIderSelector :: bytes where
  "kIderSelector = [0x10, 0x00, 0x00, 0x00, 0x49, 0x44, 0x45, 0x52]"

fun buildSelector :: "Protocol \<Rightarrow> bytes" where
  "buildSelector Sol = kSolSelector"
| "buildSelector Kvm = kKvmSelector"
| "buildSelector Ider = kIderSelector"

definition kStartReplyFixedSize :: nat where "kStartReplyFixedSize = 13"

definition tryParseStartSessionReply :: "bytes \<Rightarrow> (StartSessionReply \<times> nat) option" where
  "tryParseStartSessionReply buffer =
     (if length buffer < 1 then None
      else if buffer ! 0 \<noteq> 0x11 then None
      else if length buffer < kStartReplyFixedSize then None
      else let oemLen = unat (buffer ! 12) in
        if length buffer < kStartReplyFixedSize + oemLen then None
        else Some (\<lparr>ssr_status = StartSessionStatus_of (buffer ! 1),
                    ssr_oemData = mid buffer kStartReplyFixedSize oemLen\<rparr>,
                   kStartReplyFixedSize + oemLen))"

section \<open>Authentication frames\<close>

text \<open>
  \<open>appendLp\<close> asserts that the field has at most 255 bytes; in a release build a longer field
  is appended whole after the low byte of its size.
\<close>

definition appendLp :: "(qstring \<Rightarrow> bytes) \<Rightarrow> bytes \<Rightarrow> qstring \<Rightarrow> bytes" where
  "appendLp toUtf8 buf s = (let b = toUtf8 s in buf @ [of_nat (length b)] @ b)"

definition buildAuthFrame :: "AuthType \<Rightarrow> bytes \<Rightarrow> bytes" where
  "buildAuthFrame type authData =
     [0x13, 0x00, 0x00, 0x00, AuthType_byte type] @ pack32Le (of_nat (length authData)) @ authData"

definition buildAuthQuery :: bytes where
  "buildAuthQuery = buildAuthFrame Query []"

definition buildDigestQuery :: "(qstring \<Rightarrow> bytes) \<Rightarrow> qstring \<Rightarrow> qstring \<Rightarrow> bytes" where
  "buildDigestQuery toUtf8 user authUri =
     (let data = appendLp toUtf8 [] user;
          data = appendLp toUtf8 data [];
          data = appendLp toUtf8 data [];
          data = appendLp toUtf8 data authUri;
          data = appendLp toUtf8 data [];
          data = appendLp toUtf8 data [];
          data = appendLp toUtf8 data [];
          data = appendLp toUtf8 data []
      in buildAuthFrame DigestWithQop data)"

definition buildDigestResponse ::
  "(qstring \<Rightarrow> bytes) \<Rightarrow> qstring \<Rightarrow> qstring \<Rightarrow> qstring \<Rightarrow> qstring \<Rightarrow> qstring \<Rightarrow> qstring \<Rightarrow> qstring
     \<Rightarrow> qstring \<Rightarrow> bytes" where
  "buildDigestResponse toUtf8 user realm nonce authUri cnonce nc response qop =
     (let data = appendLp toUtf8 [] user;
          data = appendLp toUtf8 data realm;
          data = appendLp toUtf8 data nonce;
          data = appendLp toUtf8 data authUri;
          data = appendLp toUtf8 data cnonce;
          data = appendLp toUtf8 data nc;
          data = appendLp toUtf8 data response;
          data = appendLp toUtf8 data qop
      in buildAuthFrame DigestWithQop data)"

definition kAuthReplyFixedSize :: nat where "kAuthReplyFixedSize = 9"

definition kAuthReplyMaxData :: u32 where "kAuthReplyMaxData = 64 * 1024"

fun readCaps :: "bytes \<Rightarrow> AuthCapabilities \<Rightarrow> AuthCapabilities" where
  "readCaps [] caps = caps"
| "readCaps (b # bs) caps =
     readCaps bs
       (if b = 1 then caps\<lparr>hasBasic := True\<rparr>
        else if b = 2 then caps\<lparr>hasKerberos := True\<rparr>
        else if b = 3 then caps\<lparr>hasDigestNoQop := True\<rparr>
        else if b = 4 then caps\<lparr>hasDigestWithQop := True\<rparr>
        else caps)"

text \<open>The lambda \<open>readLp\<close> of \<open>tryParseAuthReply\<close>: a length-prefixed field at \<open>p\<close>.\<close>

definition readLp :: "bytes \<Rightarrow> nat \<Rightarrow> (bytes \<times> nat) option" where
  "readLp data p =
     (if length data \<le> p then None
      else let n = unat (data ! p); p = p + 1 in
        if length data - p < n then None
        else Some (mid data p n, p + n))"

definition parseChallenge ::
  "(bytes \<Rightarrow> qstring) \<Rightarrow> AuthType \<Rightarrow> bytes \<Rightarrow> (qstring \<times> qstring \<times> qstring) option" where
  "parseChallenge fromUtf8 type data =
     (case readLp data 0 of
        None \<Rightarrow> None
      | Some (realm, p) \<Rightarrow>
          (case readLp data p of
             None \<Rightarrow> None
           | Some (nonce, p') \<Rightarrow>
               (if type = DigestWithQop then
                  (case readLp data p' of
                     None \<Rightarrow> Some (fromUtf8 realm, fromUtf8 nonce, [])
                   | Some (qop, _) \<Rightarrow> Some (fromUtf8 realm, fromUtf8 nonce, fromUtf8 qop))
                else Some (fromUtf8 realm, fromUtf8 nonce, []))))"

text \<open>The fields of the reply, filled in from the status byte, the type byte and the body.\<close>

definition readAuthReply :: "(bytes \<Rightarrow> qstring) \<Rightarrow> byte \<Rightarrow> AuthType \<Rightarrow> bytes \<Rightarrow> AuthReply option" where
  "readAuthReply fromUtf8 status type data =
     (let reply = \<lparr>ar_status = status, ar_authType = type, ar_caps = noCaps,
                   ar_realm = [], ar_nonce = [], ar_qop = []\<rparr>
      in if type = Query then Some (reply\<lparr>ar_caps := readCaps data noCaps\<rparr>)
         else if (type = DigestWithQop \<or> type = DigestNoQop) \<and> status = 1 then
           (case parseChallenge fromUtf8 type data of
              None \<Rightarrow> None
            | Some (realm, nonce, qop) \<Rightarrow>
                Some (reply\<lparr>ar_realm := realm, ar_nonce := nonce, ar_qop := qop\<rparr>))
         else Some reply)"

definition tryParseAuthReply :: "(bytes \<Rightarrow> qstring) \<Rightarrow> bytes \<Rightarrow> (AuthReply \<times> nat) option" where
  "tryParseAuthReply fromUtf8 buffer =
     (if length buffer < 1 then None
      else if buffer ! 0 \<noteq> 0x14 then None
      else if length buffer < kAuthReplyFixedSize then None
      else let dataLen = read32Le buffer 5 in
        if dataLen > kAuthReplyMaxData then None
        else if length buffer < kAuthReplyFixedSize + unat dataLen then None
        else
          (case readAuthReply fromUtf8 (buffer ! 1) (AuthType_of (buffer ! 4))
                  (mid buffer kAuthReplyFixedSize (unat dataLen)) of
             None \<Rightarrow> None
           | Some reply \<Rightarrow> Some (reply, kAuthReplyFixedSize + unat dataLen)))"

section \<open>Digest\<close>

definition md5Hex :: "(bytes \<Rightarrow> bytes) \<Rightarrow> bytes \<Rightarrow> qstring" where
  "md5Hex md5 b = fromLatin1 (toHex (md5 b))"

definition computeDigest ::
  "(qstring \<Rightarrow> bytes) \<Rightarrow> (bytes \<Rightarrow> bytes) \<Rightarrow> qstring \<Rightarrow> qstring \<Rightarrow> qstring \<Rightarrow> qstring \<Rightarrow> qstring
     \<Rightarrow> qstring \<Rightarrow> qstring \<Rightarrow> qstring \<Rightarrow> qstring" where
  "computeDigest toUtf8 md5 user realm pass nonce nc cnonce qop authUri =
     (let colon = qlit '':'';
          ha1 = md5Hex md5 (toUtf8 (user @ colon @ realm @ colon @ pass));
          ha2 = md5Hex md5 (toUtf8 (qlit ''POST:'' @ authUri))
      in md5Hex md5 (toUtf8 (ha1 @ colon @ nonce @ colon @ nc @ colon @ cnonce @ colon
                             @ qop @ colon @ ha2)))"

text \<open>\<open>arg(r, 16, 16, '0')\<close>: sixteen hexadecimal digits, most significant first.\<close>

definition hex64 :: "u64 \<Rightarrow> qstring" where
  "hex64 r = map (\<lambda>i. ucast (hex_digit (unat (drop_bit (4 * i) r AND 0xF)))) (rev [0..<16])"

definition makeClientNonce :: "u64 \<Rightarrow> u64 \<Rightarrow> qstring" where
  "makeClientNonce r1 r2 = hex64 r1 @ hex64 r2"

section \<open>Serial-over-LAN frames\<close>

record SolOpenParams =
  maxTxBuffer :: u16
  txTimeoutMs :: u16
  txOverflowTimeoutMs :: u16
  rxTimeoutMs :: u16
  rxFlushTimeoutMs :: u16
  heartbeatMs :: u16

definition defaultSolOpenParams :: SolOpenParams where
  "defaultSolOpenParams = \<lparr>maxTxBuffer = 10000, txTimeoutMs = 100, txOverflowTimeoutMs = 0,
                           rxTimeoutMs = 10000, rxFlushTimeoutMs = 100, heartbeatMs = 0\<rparr>"

definition buildSolOpen :: "u32 \<Rightarrow> SolOpenParams \<Rightarrow> bytes" where
  "buildSolOpen sequence params =
     [0x20, 0x00, 0x00, 0x00] @ pack32Le sequence
     @ pack16Le (maxTxBuffer params) @ pack16Le (txTimeoutMs params)
     @ pack16Le (txOverflowTimeoutMs params) @ pack16Le (rxTimeoutMs params)
     @ pack16Le (rxFlushTimeoutMs params) @ pack16Le (heartbeatMs params) @ pack32Le 0"

text \<open>The reply carries one field, the status byte at offset 9.\<close>

definition tryParseSolOpenReply :: "bytes \<Rightarrow> (byte \<times> nat) option" where
  "tryParseSolOpenReply buffer =
     (if length buffer < 1 then None
      else if buffer ! 0 \<noteq> 0x21 then None
      else if length buffer < 23 then None
      else Some (buffer ! 9, 23))"

definition buildSolSettings :: "u32 \<Rightarrow> bytes" where
  "buildSolSettings sequence =
     [0x27, 0x00, 0x00, 0x00] @ pack32Le sequence @ [0x00, 0x00, 0x1B, 0x00, 0x00, 0x00]"

definition buildSolDataToHost :: "bytes \<Rightarrow> bytes" where
  "buildSolDataToHost data =
     [0x28] @ replicate 7 0 @ pack16Le (of_nat (length data)) @ data"

definition tryParseSolDisplayData :: "bytes \<Rightarrow> (bytes \<times> nat) option" where
  "tryParseSolDisplayData buffer =
     (if length buffer < 1 then None
      else if buffer ! 0 \<noteq> 0x2A then None
      else if length buffer < 10 then None
      else let n = unat (read16Le buffer 8) in
        if length buffer < 10 + n then None
        else Some (mid buffer 10 n, 10 + n))"

definition buildSolKeepalive :: bytes where
  "buildSolKeepalive = [0x2B] @ replicate 7 0"

lemmas redir_builders [codec_defs] =
  buildAuthFrame_def buildAuthQuery_def buildDigestQuery_def buildDigestResponse_def
  buildSolOpen_def buildSolSettings_def buildSolDataToHost_def buildSolKeepalive_def

lemmas redir_parsers [parse_defs] =
  tryParseStartSessionReply_def tryParseAuthReply_def tryParseSolOpenReply_def
  tryParseSolDisplayData_def kStartReplyFixedSize_def kAuthReplyFixedSize_def
  kAuthReplyMaxData_def Let_def

section \<open>The parsers are stream parsers\<close>

interpretation start_reply: stream_parser tryParseStartSessionReply
  by unfold_locales
    (auto simp: parse_defs nth_append mid_take split: if_splits)

interpretation auth_reply: stream_parser "tryParseAuthReply fromUtf8" for fromUtf8
  by unfold_locales
    (auto simp: parse_defs nth_append mid_take le32.read_append le32.read_take
          split: if_splits option.splits)

interpretation sol_open_reply: stream_parser tryParseSolOpenReply
  by unfold_locales (auto simp: parse_defs nth_append split: if_splits)

interpretation sol_display: stream_parser tryParseSolDisplayData
  by unfold_locales
    (auto simp: parse_defs nth_append mid_take le16.read_append le16.read_take split: if_splits)

section \<open>Length-prefixed fields\<close>

text \<open>
  The device's side of \<open>appendLp\<close>: exactly \<open>k\<close> consecutive fields that fill the rest of the
  body. It is the specification the digest frames are checked against.
\<close>

fun lp_fields :: "nat \<Rightarrow> bytes \<Rightarrow> nat \<Rightarrow> bytes list option" where
  "lp_fields 0 data p = (if p = length data then Some [] else None)"
| "lp_fields (Suc k) data p =
     (case readLp data p of
        None \<Rightarrow> None
      | Some (f, q) \<Rightarrow> map_option (\<lambda>fs. f # fs) (lp_fields k data q))"

definition lp_field :: "bytes \<Rightarrow> bytes" where
  "lp_field f = of_nat (length f) # f"

lemma appendLp_eq: "appendLp toUtf8 buf s = buf @ lp_field (toUtf8 s)"
  by (simp add: appendLp_def lp_field_def Let_def)

lemma unat_of_length [simp]: "length f \<le> 255 \<Longrightarrow> unat (of_nat (length f) :: byte) = length f"
  by (simp add: unat_of_nat)

lemma readLp_field:
  assumes "length f \<le> 255"
  shows "readLp (pre @ lp_field f @ post) (length pre) = Some (f, length pre + length (lp_field f))"
  using assms by (simp add: readLp_def lp_field_def Let_def nth_append mid_def)

lemma lp_fields_concat:
  assumes "\<forall>f \<in> set fs. length f \<le> 255"
  shows "lp_fields (length fs) (pre @ concat (map lp_field fs)) (length pre) = Some fs"
  using assms
proof (induction fs arbitrary: pre)
  case Nil
  then show ?case by simp
next
  case (Cons f fs)
  have "lp_fields (length fs) ((pre @ lp_field f) @ concat (map lp_field fs)) (length (pre @ lp_field f))
          = Some fs"
    by (rule Cons.IH) (use Cons.prems in simp)
  then show ?case
    using Cons.prems readLp_field [of f pre "concat (map lp_field fs)"] by simp
qed

lemma buildDigestResponse_body:
  "buildDigestResponse toUtf8 user realm nonce authUri cnonce nc response qop =
     buildAuthFrame DigestWithQop
       (concat (map lp_field (map toUtf8 [user, realm, nonce, authUri, cnonce, nc, response, qop])))"
  by (simp add: buildDigestResponse_def appendLp_eq Let_def)

lemma buildDigestQuery_body:
  "buildDigestQuery toUtf8 user authUri =
     buildAuthFrame DigestWithQop
       (concat (map lp_field (map toUtf8 [user, [], [], authUri, [], [], [], []])))"
  by (simp add: buildDigestQuery_def appendLp_eq Let_def)

lemma length_buildAuthFrame: "length (buildAuthFrame t d) = 9 + length d"
  by (simp add: buildAuthFrame_def le32.pack_length)

lemma buildAuthFrame_header:
  "take 5 (buildAuthFrame t d) = [0x13, 0, 0, 0, AuthType_byte t]"
  "read32Le (buildAuthFrame t d) 5 = of_nat (length d)"
  "drop 9 (buildAuthFrame t d) = d"
  using le32.read_hit [of "[0x13, 0, 0, 0, AuthType_byte t]" 5 "of_nat (length d)" d]
  by (simp_all add: buildAuthFrame_def le32.pack_length)

section \<open>Capability lists\<close>

lemma readCaps_flags:
  "hasBasic (readCaps bs c) \<longleftrightarrow> hasBasic c \<or> 1 \<in> set bs"
  "hasKerberos (readCaps bs c) \<longleftrightarrow> hasKerberos c \<or> 2 \<in> set bs"
  "hasDigestNoQop (readCaps bs c) \<longleftrightarrow> hasDigestNoQop c \<or> 3 \<in> set bs"
  "hasDigestWithQop (readCaps bs c) \<longleftrightarrow> hasDigestWithQop c \<or> 4 \<in> set bs"
  by (induction bs arbitrary: c) auto

section \<open>Replies of the device\<close>

text \<open>The 0x14 frame as the device writes it: status, type, little-endian body length, body.\<close>

definition auth_reply_frame :: "byte \<Rightarrow> byte \<Rightarrow> bytes \<Rightarrow> bytes" where
  "auth_reply_frame status type data =
     [0x14, status, 0, 0, type] @ pack32Le (of_nat (length data)) @ data"

lemma length_auth_reply_frame [simp]: "length (auth_reply_frame s t d) = 9 + length d"
  by (simp add: auth_reply_frame_def le32.pack_length)

lemma auth_reply_frame_bytes:
  "auth_reply_frame s t d ! 0 = 0x14" "auth_reply_frame s t d ! Suc 0 = s"
  "auth_reply_frame s t d ! 4 = t"
  "mid (auth_reply_frame s t d) 9 (length d) = d"
  by (simp_all add: auth_reply_frame_def mid_def le32.pack_length)

lemma auth_reply_frame_len:
  "read32Le (auth_reply_frame s t d) 5 = of_nat (length d)"
  unfolding auth_reply_frame_def by (rule le32.read_hit) simp

lemma tryParseAuthReply_frame:
  assumes "length d \<le> 65536"
  shows "tryParseAuthReply fromUtf8 (auth_reply_frame s t d @ rest) =
           map_option (\<lambda>r. (r, 9 + length d)) (readAuthReply fromUtf8 s (AuthType_of t) d)"
proof -
  have len: "unat (of_nat (length d) :: u32) = length d"
    using assms by (simp add: unat_of_nat)
  then have le: "\<not> (of_nat (length d) :: u32) > 65536"
    using assms by (simp add: word_less_nat_alt)
  have parse: "tryParseAuthReply fromUtf8 (auth_reply_frame s t d) =
          map_option (\<lambda>r. (r, 9 + length d)) (readAuthReply fromUtf8 s (AuthType_of t) d)"
    using len le
    by (simp add: parse_defs auth_reply_frame_bytes auth_reply_frame_len split: option.splits)
  have "readAuthReply fromUtf8 s (AuthType_of t) d = None \<Longrightarrow>
          tryParseAuthReply fromUtf8 (auth_reply_frame s t d @ rest) = None"
    using len le by (simp add: parse_defs nth_append auth_reply_frame_bytes auth_reply_frame_len
        le32.read_append)
  with parse show ?thesis
    by (cases "readAuthReply fromUtf8 s (AuthType_of t) d") (simp_all add: auth_reply.parse_append)
qed

lemma parseChallenge_fields:
  assumes "length realm \<le> 255" and "length nonce \<le> 255" and "length qop \<le> 255"
  shows "parseChallenge fromUtf8 DigestWithQop (lp_field realm @ lp_field nonce @ lp_field qop)
           = Some (fromUtf8 realm, fromUtf8 nonce, fromUtf8 qop)"
    and "parseChallenge fromUtf8 DigestWithQop (lp_field realm @ lp_field nonce)
           = Some (fromUtf8 realm, fromUtf8 nonce, [])"
proof -
  have 1: "readLp (lp_field realm @ post) 0 = Some (realm, length (lp_field realm))" for post
    using readLp_field [OF assms(1), of "[]" post] by simp
  have 2: "readLp (lp_field realm @ lp_field nonce @ post) (length (lp_field realm))
             = Some (nonce, length (lp_field realm @ lp_field nonce))" for post
    using readLp_field [OF assms(2), of "lp_field realm" post] by simp
  have 3: "readLp (lp_field realm @ lp_field nonce @ lp_field qop) (length (lp_field realm @ lp_field nonce))
             = Some (qop, length (lp_field realm @ lp_field nonce @ lp_field qop))"
    using readLp_field [OF assms(3), of "lp_field realm @ lp_field nonce" "[]"] by simp
  have 4: "readLp (lp_field realm @ lp_field nonce) (length (lp_field realm @ lp_field nonce)) = None"
    by (simp add: readLp_def)
  show "parseChallenge fromUtf8 DigestWithQop (lp_field realm @ lp_field nonce @ lp_field qop)
           = Some (fromUtf8 realm, fromUtf8 nonce, fromUtf8 qop)"
    by (simp only: parseChallenge_def 1 2 3 option.case prod.case simp_thms if_True)
  show "parseChallenge fromUtf8 DigestWithQop (lp_field realm @ lp_field nonce)
           = Some (fromUtf8 realm, fromUtf8 nonce, [])"
    using 2 [of "[]"] by (simp only: parseChallenge_def 1 4 append_Nil2 option.case prod.case simp_thms if_True)
qed

text \<open>
  A length over the cap, or a challenge body that does not split into its fields, is not an
  answer: whatever arrives later, the parser keeps asking for more bytes.
\<close>

lemma tryParseAuthReply_oversize:
  assumes "9 \<le> length buffer" and "read32Le buffer 5 > kAuthReplyMaxData"
  shows "tryParseAuthReply fromUtf8 (buffer @ rest) = None"
  using assms by (simp add: tryParseAuthReply_def kAuthReplyFixedSize_def le32.read_append Let_def)

section \<open>Client nonces\<close>

lemma nibble_bound: "unat ((x :: u64) AND 0xF) < 16"
proof -
  have "unat (x AND 0xF) \<le> unat (0xF :: u64)"
    by (rule word_and_le1 [THEN word_le_nat_alt [THEN iffD1]])
  then show ?thesis by simp
qed

definition hex_value :: "byte \<Rightarrow> nat" where
  "hex_value b = (if unat b < 58 then unat b - 48 else unat b - 87)"

lemma less_16_cases: "(n :: nat) < 16 \<Longrightarrow> n \<in> set [0, 1, 2, 3, 4, 5, 6, 7, 8, 9, 10, 11, 12, 13, 14, 15]"
  by simp arith

lemma hex_value_digit: "n < 16 \<Longrightarrow> hex_value (hex_digit n) = n"
  by (drule less_16_cases) (auto simp: hex_value_def hex_digit_def)

lemma hex_digit_inj: "m < 16 \<Longrightarrow> n < 16 \<Longrightarrow> hex_digit m = hex_digit n \<longleftrightarrow> m = n"
  by (metis hex_value_digit)

lemma ucast_byte_inj: "(ucast (a :: byte) :: u16) = ucast b \<longleftrightarrow> a = b"
proof -
  have "(ucast (ucast x :: u16) :: byte) = x" for x :: byte
    by (rule bit_word_eqI) (simp add: bit_simps)
  then show ?thesis by metis
qed

lemma word64_nibbles:
  assumes "\<And>i. i < 16 \<Longrightarrow> drop_bit (4 * i) (r :: u64) AND 0xF = drop_bit (4 * i) r' AND 0xF"
  shows "r = r'"
proof (rule bit_word_eqI)
  fix n :: nat
  assume n: "n < LENGTH(64)"
  have mask: "(0xF :: u64) = mask 4"
    by (simp add: mask_eq_exp_minus_1)
  have "bit (drop_bit (4 * (n div 4)) r AND 0xF) (n mod 4) = bit (drop_bit (4 * (n div 4)) r' AND 0xF) (n mod 4)"
    using assms [of "n div 4"] n by simp
  then show "bit r n = bit r' n"
    using n by (auto simp: mask bit_simps)
qed

lemma length_hex64 [simp]: "length (hex64 r) = 16"
  by (simp add: hex64_def)

lemma hex64_inj: "hex64 r = hex64 r' \<longleftrightarrow> r = r'"
proof
  assume eq: "hex64 r = hex64 r'"
  show "r = r'"
  proof (rule word64_nibbles)
    fix i :: nat
    assume "i < 16"
    then have "i \<in> set (rev [0..<16])" by simp
    with eq have "(ucast (hex_digit (unat (drop_bit (4 * i) r AND 0xF))) :: u16)
          = ucast (hex_digit (unat (drop_bit (4 * i) r' AND 0xF)))"
      unfolding hex64_def map_eq_conv by blast
    then have "unat (drop_bit (4 * i) r AND 0xF) = unat (drop_bit (4 * i) r' AND 0xF)"
      by (simp only: ucast_byte_inj hex_digit_inj nibble_bound)
    then show "drop_bit (4 * i) r AND 0xF = drop_bit (4 * i) r' AND 0xF"
      by (simp only: word_unat_eq_iff)
  qed
qed simp

section \<open>Properties\<close>

text \<open>The final digest frame reaches the device intact: its type byte is 4, its length field
  is the size of the body, and the device splits the body into exactly the eight fields
  user, realm, nonce, uri, cnonce, nc, response, qop, provided each is at most 255 bytes.\<close>

theorem digest_response_roundtrip:
  assumes "\<forall>f \<in> set [user, realm, nonce, authUri, cnonce, nc, response, qop]. length (toUtf8 f) \<le> 255"
  shows "let frame = buildDigestResponse toUtf8 user realm nonce authUri cnonce nc response qop in
           take 5 frame = [0x13, 0, 0, 0, 4] \<and>
           unat (read32Le frame 5) = length (drop 9 frame) \<and>
           lp_fields 8 (drop 9 frame) 0 =
             Some (map toUtf8 [user, realm, nonce, authUri, cnonce, nc, response, qop])"
proof -
  let ?fs = "map toUtf8 [user, realm, nonce, authUri, cnonce, nc, response, qop]"
  let ?body = "concat (map lp_field ?fs)"
  have "lp_fields (length ?fs) ([] @ ?body) (length ([] :: bytes)) = Some ?fs"
    by (rule lp_fields_concat) (use assms in auto)
  then have fields: "lp_fields 8 ?body 0 = Some ?fs"
    by (simp add: eval_nat_numeral del: lp_fields.simps)
  have "length ?body \<le> 8 * 256"
    using assms by (simp add: lp_field_def)
  then have "unat (of_nat (length ?body) :: u32) = length ?body"
    by (simp only: unat_of_nat) (simp add: mod_less del: length_concat)
  with fields show ?thesis
    by (simp only: Let_def buildDigestResponse_body buildAuthFrame_header AuthType_byte.simps simp_thms)
qed

theorem digest_response_roundtrip_witness:
  "lp_fields 8 (drop 9 (buildDigestResponse (map ucast) [97] [] [98, 99] [47] [] [] [] [])) 0
     = Some [[97], [], [98, 99], [47], [], [], [], []]"
  using digest_response_roundtrip [where ?toUtf8.0 = "map ucast" and user = "[97]" and realm = "[]"
      and nonce = "[98, 99]" and authUri = "[47]" and cnonce = "[]" and nc = "[]"
      and response = "[]" and qop = "[]"]
  by (simp add: Let_def)

text \<open>A digest challenge written by the device is decoded to its own realm, nonce and qop,
  whatever follows it in the buffer, and exactly the frame is consumed; a challenge without the
  optional qop field is accepted with an empty qop.\<close>

theorem auth_challenge_roundtrip:
  assumes "length realm \<le> 255" and "length nonce \<le> 255" and "length qop \<le> 255"
  shows "tryParseAuthReply fromUtf8
           (auth_reply_frame 1 4 (lp_field realm @ lp_field nonce @ lp_field qop) @ rest) =
           Some (\<lparr>ar_status = 1, ar_authType = DigestWithQop, ar_caps = noCaps,
                  ar_realm = fromUtf8 realm, ar_nonce = fromUtf8 nonce, ar_qop = fromUtf8 qop\<rparr>,
                 12 + length realm + length nonce + length qop)
       \<and> tryParseAuthReply fromUtf8 (auth_reply_frame 1 4 (lp_field realm @ lp_field nonce) @ rest) =
           Some (\<lparr>ar_status = 1, ar_authType = DigestWithQop, ar_caps = noCaps,
                  ar_realm = fromUtf8 realm, ar_nonce = fromUtf8 nonce, ar_qop = []\<rparr>,
                 11 + length realm + length nonce)"
  using assms parseChallenge_fields [OF assms, of fromUtf8]
  by (simp add: tryParseAuthReply_frame readAuthReply_def AuthType_of_def lp_field_def Let_def)

theorem auth_challenge_roundtrip_witness:
  "tryParseAuthReply (map ucast) (auth_reply_frame 1 4 (lp_field [7] @ lp_field [8, 9]) @ [1, 2]) =
     Some (\<lparr>ar_status = 1, ar_authType = DigestWithQop, ar_caps = noCaps,
            ar_realm = [7], ar_nonce = [8, 9], ar_qop = []\<rparr>, 14)"
  using auth_challenge_roundtrip [of "[7]" "[8, 9]" "[]" "map ucast" "[1, 2]"] by simp

text \<open>Client nonces are 32 lower-case hexadecimal digits, and two draws of the generator
  give the same nonce only if they are the same draw.\<close>

theorem client_nonce_format:
  "length (makeClientNonce r1 r2) = 32
   \<and> set (makeClientNonce r1 r2) \<subseteq> set (qlit ''0123456789abcdef'')
   \<and> (makeClientNonce r1 r2 = makeClientNonce r1' r2' \<longleftrightarrow> r1 = r1' \<and> r2 = r2')"
proof (intro conjI)
  have digit: "(ucast (hex_digit n) :: u16) \<in> set (qlit ''0123456789abcdef'')" if "n < 16" for n
  proof -
    from less_16_cases [OF that] show ?thesis
      by (auto simp: hex_digit_def qlit_def)
  qed
  have "set (hex64 r) \<subseteq> set (qlit ''0123456789abcdef'')" for r
    by (auto simp: hex64_def intro!: digit nibble_bound)
  then show "set (makeClientNonce r1 r2) \<subseteq> set (qlit ''0123456789abcdef'')"
    by (simp add: makeClientNonce_def)
  show "makeClientNonce r1 r2 = makeClientNonce r1' r2' \<longleftrightarrow> r1 = r1' \<and> r2 = r2'"
    by (simp add: makeClientNonce_def hex64_inj)
  show "length (makeClientNonce r1 r2) = 32"
    by (simp add: makeClientNonce_def)
qed

end
