(* ===== verification/Redir_Client.thy ===== *)
theory Redir_Client
  imports Redir_Codec
begin

text \<open>
  The redirection transport, \<open>redir/src/redir_client.cpp\<close>: connecting (directly, over TLS with
  pinned fingerprints, or through an SSH tunnel's descriptor), the selector, the digest handshake,
  the extra KVM round trip, and the hand-over of the stream to a session.

  The object's members are the record \<open>client\<close>. What the object does to the outside, signals it
  emits and calls it makes on its socket, is appended to the member \<open>outs\<close> in program order.
  Calls that answer something take the answer from the environment record \<open>qtenv\<close>: the result
  of \<open>QAbstractSocket::write\<close> and the random numbers may depend on everything done so far.
\<close>

section \<open>State\<close>

datatype State = Disconnected | Connecting | SelectorSent | SessionOpened | AuthQuerying
  | AuthChallenging | AuthResponding | KvmStarting | Authenticated | Failed

record PeerCertSummary =
  pc_subject :: qstring
  pc_issuer :: qstring
  pc_fingerprintSha256 :: qstring
  pc_notBefore :: qstring
  pc_notAfter :: qstring
  pc_der :: bytes

text \<open>A non-null \<open>QSslCertificate\<close>: what \<open>summarize\<close> asks it for.\<close>

record SslCertificate =
  cert_subjects :: "qstring list"
  cert_issuers :: "qstring list"
  cert_der :: bytes
  cert_effective :: qstring
  cert_expiry :: qstring

datatype redir_error =
    NoError
  | ErrorText qstring
  | TunnelNotOpened qstring u16
  | SetDescriptorFailed qstring
  | SelectorWriteFailed qstring
  | StartRefused qstring
  | NoDigestWithQopOffered
  | AuthenticationRejected
  | AuthenticationFailed byte
  | UnexpectedAuthFrame State
  | UnexpectedFrame byte State
  | ClosedDuringSetup
  | ClosedDuringAuthentication
  | ClosedDuringKvmStart
  | NoPeerCertificate

datatype redir_out =
    StateChanged State
  | SessionOpenedSignal
  | AuthenticatedSignal
  | FailedSignal redir_error
  | RemoteClosedSignal
  | RawBytes bytes
  | TrustPromptRequired PeerCertSummary
  | PeerCertVerifiedByPin qstring
  | Wrote bytes
  | SocketConnect bool qstring u16
  | SocketAdopt int
  | StartClientEncryption
  | SocketAbort
  | SocketDisconnect
  | SocketDropped
  | QueuedHandleConnected
  | OpenTunnel qstring u16

datatype sock_kind = TcpSocket | SslSocket

record client =
  m_protocol :: Protocol
  m_tls :: bool
  m_tunnelOpener :: bool
  m_user :: qstring
  m_pass :: qstring
  m_authUri :: qstring
  m_socket :: "sock_kind option"
  m_inbox :: bytes
  m_state :: State
  m_lastError :: redir_error
  m_startStatus :: StartSessionStatus
  m_oemData :: bytes
  m_trustedFingerprints :: "qstring list"
  m_pendingPeerCert :: "PeerCertSummary option"
  m_awaitingTrust :: bool
  outs :: "redir_out list"

record qtenv =
  e_toUtf8 :: "qstring \<Rightarrow> bytes"
  e_fromUtf8 :: "bytes \<Rightarrow> qstring"
  e_md5 :: "bytes \<Rightarrow> bytes"
  e_sha256 :: "bytes \<Rightarrow> bytes"
  e_write :: "redir_out list \<Rightarrow> bytes \<Rightarrow> int"
  e_random :: "redir_out list \<Rightarrow> u64 \<times> u64"
  e_errorString :: "redir_out list \<Rightarrow> qstring"

definition initialClient :: client where
  "initialClient = \<lparr>m_protocol = Sol, m_tls = False, m_tunnelOpener = False, m_user = [], m_pass = [],
     m_authUri = qlit ''/RedirectionService'', m_socket = None, m_inbox = [],
     m_state = Disconnected, m_lastError = NoError, m_startStatus = UnknownError, m_oemData = [],
     m_trustedFingerprints = [], m_pendingPeerCert = None, m_awaitingTrust = False, outs = []\<rparr>"

section \<open>Helpers\<close>

definition emit :: "redir_out \<Rightarrow> client \<Rightarrow> client" where
  "emit x c = c\<lparr>outs := outs c @ [x]\<rparr>"

fun describe :: "StartSessionStatus \<Rightarrow> qstring" where
  "describe Success = qlit ''Success''"
| "describe Busy = qlit ''device is busy with another session''"
| "describe Unsupported = qlit ''device does not support this redirection protocol''"
| "describe UnknownError = qlit ''device reported an unknown error''"
| "describe (OtherStatus b) = qlit ''unknown status '' @ fromLatin1 (dec_digits (unat b))"

definition setState :: "State \<Rightarrow> client \<Rightarrow> client" where
  "setState s c = (if m_state c = s then c else emit (StateChanged s) (c\<lparr>m_state := s\<rparr>))"

definition fail :: "redir_error \<Rightarrow> client \<Rightarrow> client" where
  "fail error c =
     (let c = c\<lparr>m_lastError := error\<rparr>;
          c = (if m_socket c \<noteq> None then emit SocketAbort c else c);
          c = setState Failed c
      in emit (FailedSignal error) c)"

text \<open>\<open>m_socket->write\<close>: the answer of the socket and the client that made the call.\<close>

definition sockWrite :: "qtenv \<Rightarrow> bytes \<Rightarrow> client \<Rightarrow> int \<times> client" where
  "sockWrite env b c = (e_write env (outs c) b, emit (Wrote b) c)"

definition writeRaw :: "qtenv \<Rightarrow> bytes \<Rightarrow> client \<Rightarrow> int \<times> client" where
  "writeRaw env b c = (if m_socket c = None then (-1, c) else sockWrite env b c)"

definition setCredentials :: "qstring \<Rightarrow> qstring \<Rightarrow> client \<Rightarrow> client" where
  "setCredentials user pass c = c\<lparr>m_user := user, m_pass := pass\<rparr>"

section \<open>Connecting\<close>

definition handleConnected :: "qtenv \<Rightarrow> client \<Rightarrow> client" where
  "handleConnected env c =
     (let selector = buildSelector (m_protocol c);
          (n, c) = sockWrite env selector c
      in if n \<noteq> int (length selector)
         then fail (SelectorWriteFailed (e_errorString env (outs c))) c
         else setState SelectorSent c)"

definition resetConnection :: "client \<Rightarrow> client" where
  "resetConnection c =
     (let c = c\<lparr>m_inbox := [], m_lastError := NoError, m_startStatus := UnknownError,
               m_oemData := [], m_pendingPeerCert := None, m_awaitingTrust := False\<rparr>
      in if m_socket c \<noteq> None then emit SocketDropped (c\<lparr>m_socket := None\<rparr>) else c)"

definition connectTo :: "qstring \<Rightarrow> u16 \<Rightarrow> client \<Rightarrow> client" where
  "connectTo host port c =
     (if m_tunnelOpener c then emit (OpenTunnel host port) (setState Connecting c)
      else
        let c = resetConnection c;
            c = c\<lparr>m_socket := Some (if m_tls c then SslSocket else TcpSocket)\<rparr>;
            c = setState Connecting c
        in emit (SocketConnect (m_tls c) host port) c)"

text \<open>\<open>ok\<close> is the answer of \<open>setSocketDescriptor\<close>.\<close>

definition connectViaSocketDescriptor :: "qtenv \<Rightarrow> int \<Rightarrow> bool \<Rightarrow> client \<Rightarrow> client" where
  "connectViaSocketDescriptor env fd ok c =
     (let c = resetConnection c;
          c = c\<lparr>m_socket := Some (if m_tls c then SslSocket else TcpSocket)\<rparr>;
          c = emit (SocketAdopt fd) c
      in if \<not> ok then fail (SetDescriptorFailed (e_errorString env (outs c))) c
         else
           let c = setState Connecting c
           in if m_tls c then emit StartClientEncryption c else emit QueuedHandleConnected c)"

text \<open>The completion callback of the tunnel opener, for a client that still exists.\<close>

definition tunnelOpened :: "qtenv \<Rightarrow> qstring \<Rightarrow> u16 \<Rightarrow> int \<Rightarrow> qstring \<Rightarrow> bool \<Rightarrow> client \<Rightarrow> client" where
  "tunnelOpened env host port fd error ok c =
     (if fd < 0 then fail (if error = [] then TunnelNotOpened host port else ErrorText error) c
      else connectViaSocketDescriptor env fd ok c)"

definition disconnectFromHost :: "client \<Rightarrow> client" where
  "disconnectFromHost c =
     setState Disconnected (if m_socket c \<noteq> None then emit SocketDisconnect c else c)"

section \<open>Certificate pinning\<close>

definition upper_hex_digit :: "nat \<Rightarrow> byte" where
  "upper_hex_digit n = (if n < 10 then of_nat (48 + n) else of_nat (55 + n))"

fun fingerprint :: "bytes \<Rightarrow> bytes" where
  "fingerprint [] = []"
| "fingerprint [b] = [upper_hex_digit (unat b div 16), upper_hex_digit (unat b mod 16)]"
| "fingerprint (b # bs) =
     [upper_hex_digit (unat b div 16), upper_hex_digit (unat b mod 16), 58] @ fingerprint bs"

definition summarize :: "qtenv \<Rightarrow> SslCertificate \<Rightarrow> PeerCertSummary" where
  "summarize env cert =
     \<lparr>pc_subject = (case cert_subjects cert of [] \<Rightarrow> [] | s # _ \<Rightarrow> s),
      pc_issuer = (case cert_issuers cert of [] \<Rightarrow> [] | s # _ \<Rightarrow> s),
      pc_fingerprintSha256 = fromLatin1 (fingerprint (e_sha256 env (cert_der cert))),
      pc_notBefore = cert_effective cert, pc_notAfter = cert_expiry cert,
      pc_der = cert_der cert\<rparr>"

definition handleEncrypted :: "qtenv \<Rightarrow> SslCertificate option \<Rightarrow> client \<Rightarrow> client" where
  "handleEncrypted env peer c =
     (case peer of
        None \<Rightarrow> fail NoPeerCertificate c
      | Some cert \<Rightarrow>
          let summary = summarize env cert
          in if pc_fingerprintSha256 summary \<in> set (m_trustedFingerprints c)
             then handleConnected env (emit (PeerCertVerifiedByPin (pc_fingerprintSha256 summary)) c)
             else emit (TrustPromptRequired summary)
                    (c\<lparr>m_pendingPeerCert := Some summary, m_awaitingTrust := True\<rparr>))"

definition trustPendingPeerCert :: "qtenv \<Rightarrow> client \<Rightarrow> client" where
  "trustPendingPeerCert env c =
     (if m_socket c \<noteq> Some SslSocket \<or> \<not> m_awaitingTrust c then c
      else
        let fp = (case m_pendingPeerCert c of None \<Rightarrow> [] | Some s \<Rightarrow> pc_fingerprintSha256 s);
            c = (if fp \<noteq> [] \<and> fp \<notin> set (m_trustedFingerprints c)
                 then c\<lparr>m_trustedFingerprints := m_trustedFingerprints c @ [fp]\<rparr> else c)
        in handleConnected env (c\<lparr>m_awaitingTrust := False\<rparr>))"

section \<open>The receive loop\<close>

definition onStartSessionReply :: "qtenv \<Rightarrow> StartSessionReply \<Rightarrow> client \<Rightarrow> client loop" where
  "onStartSessionReply env reply c =
     (let c = c\<lparr>m_startStatus := ssr_status reply, m_oemData := ssr_oemData reply\<rparr>
      in if ssr_status reply \<noteq> Success then Halt (fail (StartRefused (describe (ssr_status reply))) c)
         else
           let c = setState SessionOpened (emit SessionOpenedSignal c)
           in if m_user c \<noteq> [] then
                let (n, c) = sockWrite env buildAuthQuery c
                in if n < 0 then Halt (fail (ErrorText (e_errorString env (outs c))) c)
                   else Next (setState AuthQuerying c)
              else Next c)"

definition kKvmStart :: bytes where
  "kKvmStart = [0x40, 0x00, 0x00, 0x00, 0x00, 0x00, 0x00, 0x00]"

definition onAuthQuerying :: "qtenv \<Rightarrow> AuthReply \<Rightarrow> client \<Rightarrow> client loop" where
  "onAuthQuerying env reply c =
     (if \<not> hasDigestWithQop (ar_caps reply) then Halt (fail NoDigestWithQopOffered c)
      else let (n, c) = sockWrite env (buildDigestQuery (e_toUtf8 env) (m_user c) (m_authUri c)) c
           in if n < 0 then Halt (fail (ErrorText (e_errorString env (outs c))) c)
              else Next (setState AuthChallenging c))"

definition onAuthChallenging :: "qtenv \<Rightarrow> AuthReply \<Rightarrow> client \<Rightarrow> client loop" where
  "onAuthChallenging env reply c =
     (if ar_status reply \<noteq> 1 \<or> ar_realm reply = [] \<or> ar_nonce reply = []
      then Halt (fail AuthenticationRejected c)
      else
        let qop = (if ar_qop reply = [] then qlit ''auth'' else ar_qop reply);
            nc = qlit ''00000001'';
            cnonce = (case e_random env (outs c) of (r1, r2) \<Rightarrow> makeClientNonce r1 r2);
            response = computeDigest (e_toUtf8 env) (e_md5 env) (m_user c) (ar_realm reply) (m_pass c)
                         (ar_nonce reply) nc cnonce qop (m_authUri c);
            (n, c) = sockWrite env (buildDigestResponse (e_toUtf8 env) (m_user c) (ar_realm reply)
                         (ar_nonce reply) (m_authUri c) cnonce nc response qop) c
        in if n < 0 then Halt (fail (ErrorText (e_errorString env (outs c))) c)
           else Next (setState AuthResponding c))"

definition onAuthResponding :: "qtenv \<Rightarrow> AuthReply \<Rightarrow> client \<Rightarrow> client loop" where
  "onAuthResponding env reply c =
     (if ar_status reply \<noteq> 0 then Halt (fail (AuthenticationFailed (ar_status reply)) c)
      else if m_protocol c = Kvm then
        let (n, c) = sockWrite env kKvmStart c
        in if n < 0 then Halt (fail (ErrorText (e_errorString env (outs c))) c)
           else Next (setState KvmStarting c)
      else
        let c = emit AuthenticatedSignal (setState Authenticated c)
        in if m_inbox c \<noteq> [] then Halt (emit (RawBytes (m_inbox c)) (c\<lparr>m_inbox := []\<rparr>)) else Halt c)"

definition onAuthReply :: "qtenv \<Rightarrow> AuthReply \<Rightarrow> client \<Rightarrow> client loop" where
  "onAuthReply env reply c =
     (case m_state c of
        AuthQuerying \<Rightarrow> onAuthQuerying env reply c
      | AuthChallenging \<Rightarrow> onAuthChallenging env reply c
      | AuthResponding \<Rightarrow> onAuthResponding env reply c
      | _ \<Rightarrow> Halt (fail (UnexpectedAuthFrame (m_state c)) c))"

definition onKvmStarted :: "client \<Rightarrow> client loop" where
  "onKvmStarted c =
     (if length (m_inbox c) < 8 then Wait
      else
        let leftover = drop 8 (m_inbox c);
            c = emit AuthenticatedSignal (setState Authenticated (c\<lparr>m_inbox := []\<rparr>))
        in Halt (if leftover \<noteq> [] then emit (RawBytes leftover) c else c))"

definition drainStep :: "qtenv \<Rightarrow> client \<Rightarrow> client loop" where
  "drainStep env c =
     (case m_inbox c of
        [] \<Rightarrow> Wait
      | tag # _ \<Rightarrow>
          if m_state c = KvmStarting \<and> tag = 0x41 then onKvmStarted c
          else if tag = 0x11 then
            (case tryParseStartSessionReply (m_inbox c) of
               None \<Rightarrow> Wait
             | Some (reply, consumed) \<Rightarrow>
                 onStartSessionReply env reply (c\<lparr>m_inbox := drop consumed (m_inbox c)\<rparr>))
          else if tag = 0x14 then
            (case tryParseAuthReply (e_fromUtf8 env) (m_inbox c) of
               None \<Rightarrow> Wait
             | Some (reply, consumed) \<Rightarrow>
                 onAuthReply env reply (c\<lparr>m_inbox := drop consumed (m_inbox c)\<rparr>))
          else Halt (fail (UnexpectedFrame tag (m_state c)) c))"

lemma inbox_emit [simp]: "m_inbox (emit x c) = m_inbox c"
  by (simp add: emit_def)

lemma inbox_setState [simp]: "m_inbox (setState s c) = m_inbox c"
  by (simp add: setState_def)

lemma inbox_fail [simp]: "m_inbox (fail e c) = m_inbox c"
  by (simp add: fail_def Let_def)

lemmas redir_handlers =
  onStartSessionReply_def onAuthQuerying_def onAuthChallenging_def onAuthResponding_def
  sockWrite_def Let_def

lemma handler_inbox:
  "onStartSessionReply env r c = Next t \<Longrightarrow> m_inbox t = m_inbox c"
  "onAuthReply env a c = Next t \<Longrightarrow> m_inbox t = m_inbox c"
  by (auto simp: redir_handlers onAuthReply_def split: if_splits State.splits)

lemma drainStep_consumes:
  assumes "drainStep env c = Next t"
  shows "length (m_inbox t) < length (m_inbox c)"
  using assms
  by (auto simp: drainStep_def onKvmStarted_def Let_def dest!: handler_inbox
      dest: start_reply.parse_consumes auth_reply.parse_consumes
      split: list.splits if_splits option.splits)

function drainInbox :: "qtenv \<Rightarrow> client \<Rightarrow> client" where
  "drainInbox env c =
     (case drainStep env c of Wait \<Rightarrow> c | Halt t \<Rightarrow> t | Next t \<Rightarrow> drainInbox env t)"
  by pat_completeness auto
termination
  by (relation "measure (\<lambda>(env, c). length (m_inbox c))") (simp_all add: drainStep_consumes)

declare drainInbox.simps [simp del]

definition handleReadyRead :: "qtenv \<Rightarrow> bytes \<Rightarrow> client \<Rightarrow> client" where
  "handleReadyRead env chunk c =
     (if m_state c = Authenticated then emit (RawBytes chunk) c
      else drainInbox env (c\<lparr>m_inbox := m_inbox c @ chunk\<rparr>))"

section \<open>Socket errors\<close>

datatype SocketError = RemoteHostClosedError | OtherSocketError

definition describeSocketFailure :: "SocketError \<Rightarrow> qstring \<Rightarrow> client \<Rightarrow> redir_error" where
  "describeSocketFailure err fallback c =
     (if err \<noteq> RemoteHostClosedError then ErrorText fallback
      else case m_state c of
          Connecting \<Rightarrow> ClosedDuringSetup
        | SelectorSent \<Rightarrow> ClosedDuringSetup
        | SessionOpened \<Rightarrow> ClosedDuringAuthentication
        | AuthQuerying \<Rightarrow> ClosedDuringAuthentication
        | AuthChallenging \<Rightarrow> ClosedDuringAuthentication
        | AuthResponding \<Rightarrow> ClosedDuringAuthentication
        | KvmStarting \<Rightarrow> ClosedDuringKvmStart
        | _ \<Rightarrow> ErrorText fallback)"

definition handleSocketError :: "qtenv \<Rightarrow> SocketError \<Rightarrow> client \<Rightarrow> client" where
  "handleSocketError env err c =
     (if err = RemoteHostClosedError \<and> m_state c = Authenticated
      then emit RemoteClosedSignal (setState Disconnected c)
      else fail (describeSocketFailure err (e_errorString env (outs c)) c) c)"

section \<open>What a session relies on\<close>

text \<open>
  A session writes through \<open>writeRaw\<close>. What it needs of it: a write to an open transport puts
  exactly those bytes on the wire and leaves the transport open.
\<close>

locale transport =
  fixes put :: "bytes \<Rightarrow> 'c \<Rightarrow> int \<times> 'c"
    and wire :: "'c \<Rightarrow> bytes"
    and up :: "'c \<Rightarrow> bool"
  assumes write_wire: "up c \<Longrightarrow> wire (snd (put b c)) = wire c @ b"
    and write_up: "up (snd (put b c)) \<longleftrightarrow> up c"
begin

lemma writes_wire:
  "up c \<Longrightarrow> wire (fold (\<lambda>b c. snd (put b c)) bs c) = wire c @ concat bs"
  by (induction bs arbitrary: c) (simp_all add: write_wire write_up)

end

definition wire :: "client \<Rightarrow> bytes" where
  "wire c = concat (map (\<lambda>x. case x of Wrote b \<Rightarrow> b | _ \<Rightarrow> []) (outs c))"

definition connected_client :: "client \<Rightarrow> bool" where
  "connected_client c \<longleftrightarrow> m_socket c \<noteq> None"

interpretation redir_transport: transport "writeRaw env" wire connected_client for env
  by unfold_locales (auto simp: writeRaw_def sockWrite_def wire_def connected_client_def emit_def)

text \<open>A socket that takes every write whole.\<close>

definition writes_complete :: "qtenv \<Rightarrow> bool" where
  "writes_complete env \<longleftrightarrow> (\<forall>os b. e_write env os b = int (length b))"

section \<open>Segmentation of the byte stream\<close>

text \<open>
  A read that arrives while the loop runs extends the inbox; one that arrives after the hand-over
  goes to the session as it is. Two clients look the same to an observer when they agree on
  everything but how the bytes handed to the session are cut into \<open>rawBytes\<close> signals.
\<close>

definition feed :: "bytes \<Rightarrow> client \<Rightarrow> client" where
  "feed b c = c\<lparr>m_inbox := m_inbox c @ b\<rparr>"

definition late :: "bytes \<Rightarrow> client \<Rightarrow> client" where
  "late b c = (if m_state c = Authenticated then emit (RawBytes b) c else feed b c)"

fun explode :: "redir_out \<Rightarrow> redir_out list" where
  "explode (RawBytes bs) = map (\<lambda>x. RawBytes [x]) bs"
| "explode x = [x]"

definition obs :: "client \<Rightarrow> client" where
  "obs c = c\<lparr>outs := concat (map explode (outs c))\<rparr>"

lemma feed_simps [simp]:
  "feed b (emit x c) = emit x (feed b c)"
  "feed b (setState s c) = setState s (feed b c)"
  "feed b (fail e c) = fail e (feed b c)"
  "outs (feed b c) = outs c" "m_state (feed b c) = m_state c" "m_user (feed b c) = m_user c"
  "m_pass (feed b c) = m_pass c" "m_authUri (feed b c) = m_authUri c"
  "m_protocol (feed b c) = m_protocol c" "m_inbox (feed b c) = m_inbox c @ b"
  by (simp_all add: feed_def emit_def setState_def fail_def Let_def)

lemma feed_update [simp]:
  "(feed b c)\<lparr>m_startStatus := s, m_oemData := d\<rparr> = feed b (c\<lparr>m_startStatus := s, m_oemData := d\<rparr>)"
  by (simp add: feed_def)

lemma feed_drop:
  "n \<le> length (t # ys) \<Longrightarrow>
     (feed b c)\<lparr>m_inbox := drop n (t # ys @ b)\<rparr> = feed b (c\<lparr>m_inbox := drop n (t # ys)\<rparr>)"
  using drop_append [of n "t # ys" b] by (simp add: feed_def)

lemma emit_user [simp]:
  "m_user (emit x c) = m_user c" "m_state (emit x c) = m_state c" "m_socket (emit x c) = m_socket c"
  "outs (emit x c) = outs c @ [x]" "m_protocol (emit x c) = m_protocol c"
  "m_awaitingTrust (emit x c) = m_awaitingTrust c"
  by (simp_all add: emit_def)

lemma setState_fields [simp]:
  "m_user (setState s c) = m_user c" "m_state (setState s c) = s"
  "m_socket (setState s c) = m_socket c" "m_protocol (setState s c) = m_protocol c"
  "outs (setState s c) = outs c @ (if m_state c = s then [] else [StateChanged s])"
  "m_awaitingTrust (setState s c) = m_awaitingTrust c"
  by (simp_all add: setState_def)

lemma fail_state [simp]: "m_state (fail e c) = Failed"
  by (simp add: fail_def Let_def)

lemma start_feed:
  "onStartSessionReply env r (feed b c) = map_loop (feed b) (onStartSessionReply env r c)"
  by (simp add: onStartSessionReply_def sockWrite_def Let_def)

lemma querying_feed: "onAuthQuerying env r (feed b c) = map_loop (feed b) (onAuthQuerying env r c)"
  by (simp add: onAuthQuerying_def sockWrite_def Let_def)

lemma challenging_feed:
  "onAuthChallenging env r (feed b c) = map_loop (feed b) (onAuthChallenging env r c)"
  by (simp add: onAuthChallenging_def sockWrite_def Let_def split: prod.split)

lemma handed_over:
  "obs (emit (RawBytes (xs @ ys)) c) = obs (emit (RawBytes ys) (emit (RawBytes xs) c))"
  "obs (emit (RawBytes []) c) = obs c"
  by (simp_all add: obs_def emit_def)

lemma emit_nothing: "obs (emit y (emit (RawBytes []) c)) = obs (emit y c)"
  by (simp add: obs_def emit_def)

lemma feed_nil [simp]: "feed [] c = c"
  by (simp add: feed_def)

lemma inbox_cleared: "m_inbox c = [] \<Longrightarrow> c\<lparr>m_inbox := []\<rparr> = c"
  by simp

lemma clear_feed: "(feed b c)\<lparr>m_inbox := []\<rparr> = c\<lparr>m_inbox := []\<rparr>"
  by (simp add: feed_def)

lemma inbox_update_simps:
  "(emit x c)\<lparr>m_inbox := b\<rparr> = emit x (c\<lparr>m_inbox := b\<rparr>)"
  "(setState s c)\<lparr>m_inbox := b\<rparr> = setState s (c\<lparr>m_inbox := b\<rparr>)"
  by (simp_all add: emit_def setState_def)

abbreviation feeds :: "(client \<Rightarrow> client loop) \<Rightarrow> client \<Rightarrow> bytes \<Rightarrow> bool" where
  "feeds \<equiv> feeds_through feed late obs"

lemma responding_feeds: "feeds (onAuthResponding env r) c b"
  by (auto simp: feeds_through_def onAuthResponding_def sockWrite_def Let_def late_def clear_feed
      inbox_update_simps handed_over emit_nothing inbox_cleared split: if_splits)

lemma halts_failed:
  "onStartSessionReply env r c = Halt t \<Longrightarrow> m_state t = Failed"
  "onAuthQuerying env a c = Halt t \<Longrightarrow> m_state t = Failed"
  "onAuthChallenging env a c = Halt t \<Longrightarrow> m_state t = Failed"
  by (auto simp: redir_handlers split: if_splits prod.splits)

lemma map_loop_feeds:
  assumes "h (feed b c) = map_loop (feed b) (h c)" and "\<And>t. h c = Halt t \<Longrightarrow> m_state t = Failed"
  shows "feeds h c b"
  using assms by (auto simp: feeds_through_def late_def split: loop.splits)

lemma start_feeds: "feeds (onStartSessionReply env r) c b"
  by (rule map_loop_feeds) (simp_all add: start_feed halts_failed)

lemma auth_feeds: "feeds (onAuthReply env r) c b"
proof -
  have q: "feeds (onAuthQuerying env r) c b"
    by (rule map_loop_feeds) (simp_all add: querying_feed halts_failed)
  have h: "feeds (onAuthChallenging env r) c b"
    by (rule map_loop_feeds) (simp_all add: challenging_feed halts_failed)
  have u: "feeds (\<lambda>c. Halt (fail (UnexpectedAuthFrame (m_state c)) c)) c b"
    by (simp add: feeds_through_def late_def)
  show ?thesis
    by (cases "m_state c")
      (auto simp: onAuthReply_def intro: feeds_through_eq [OF q] feeds_through_eq [OF h]
        feeds_through_eq [OF responding_feeds] feeds_through_eq [OF u])
qed

lemma kvm_started_feeds: "feeds onKvmStarted c b"
  by (auto simp: feeds_through_def onKvmStarted_def Let_def late_def clear_feed handed_over
      emit_nothing split: if_splits)

lemma drainStep_feeds: "feeds (drainStep env) c b"
proof (cases "m_inbox c")
  case Nil
  then show ?thesis by (simp add: feeds_through_wait drainStep_def)
next
  case (Cons tag rest)
  consider (kvm) "m_state c = KvmStarting" "tag = 0x41"
    | (start) "tag = 0x11" | (auth) "tag = 0x14"
    | (other) "tag \<noteq> 0x11" "tag \<noteq> 0x14" "\<not> (m_state c = KvmStarting \<and> tag = 0x41)"
    by blast
  then show ?thesis
  proof cases
    case kvm
    then show ?thesis
      by (intro feeds_through_eq [OF kvm_started_feeds]) (simp_all add: drainStep_def Cons)
  next
    case start
    show ?thesis
    proof (cases "tryParseStartSessionReply (tag # rest)")
      case None
      with start Cons show ?thesis by (simp add: feeds_through_wait drainStep_def)
    next
      case (Some p)
      then obtain reply n where p: "p = (reply, n)" and "n \<le> length (tag # rest)"
        using start_reply.parse_consumes by (cases p) blast
      then have drop: "(feed b c)\<lparr>m_inbox := drop n (tag # rest @ b)\<rparr>
          = feed b (c\<lparr>m_inbox := drop n (tag # rest)\<rparr>)"
        by (intro feed_drop)
      show ?thesis
        using Some p drop start Cons
        by (intro feeds_through_eq [OF start_feeds [of env reply "c\<lparr>m_inbox := drop n (tag # rest)\<rparr>"]])
          (simp_all add: drainStep_def start_reply.parse_append_Cons)
    qed
  next
    case auth
    show ?thesis
    proof (cases "tryParseAuthReply (e_fromUtf8 env) (tag # rest)")
      case None
      with auth Cons show ?thesis by (simp add: feeds_through_wait drainStep_def)
    next
      case (Some p)
      then obtain reply n where p: "p = (reply, n)" and "n \<le> length (tag # rest)"
        using auth_reply.parse_consumes by (cases p) blast
      then have drop: "(feed b c)\<lparr>m_inbox := drop n (tag # rest @ b)\<rparr>
          = feed b (c\<lparr>m_inbox := drop n (tag # rest)\<rparr>)"
        by (intro feed_drop)
      show ?thesis
        using Some p drop auth Cons
        by (intro feeds_through_eq [OF auth_feeds [of env reply "c\<lparr>m_inbox := drop n (tag # rest)\<rparr>"]])
          (simp_all add: drainStep_def auth_reply.parse_append_Cons)
    qed
  next
    case other
    with Cons show ?thesis
      by (auto simp: feeds_through_def drainStep_def late_def)
  qed
qed

interpretation redir_loop: frame_loop "drainStep env" m_inbox feed "drainInbox env" late obs for env
proof
  show "drainInbox env s = (case drainStep env s of Wait \<Rightarrow> s | Halt t \<Rightarrow> t | Next t \<Rightarrow> drainInbox env t)"
    for s by (rule drainInbox.simps)
qed (fact drainStep_consumes drainStep_feeds)+

lemma halts_final:
  "drainStep env c = Halt t \<Longrightarrow> m_state t = Failed \<or> m_state t = Authenticated"
  by (auto simp: drainStep_def onKvmStarted_def onAuthReply_def onAuthResponding_def sockWrite_def
      Let_def dest!: halts_failed split: list.splits if_splits option.splits State.splits)

lemma next_not_authenticated:
  "drainStep env c = Next t \<Longrightarrow> m_state c \<noteq> Authenticated \<Longrightarrow> m_state t \<noteq> Authenticated"
  by (auto simp: drainStep_def onKvmStarted_def onAuthReply_def redir_handlers
      split: list.splits if_splits option.splits State.splits prod.splits)

lemma quiet_not_authenticated:
  "redir_loop.quiet env c \<Longrightarrow> m_state c \<noteq> Authenticated \<Longrightarrow> m_state (drainInbox env c) \<noteq> Authenticated"
proof (induction rule: redir_loop.quiet.induct)
  case (quiet_wait s)
  then show ?case by (simp add: drainInbox.simps [of env s])
next
  case (quiet_next s t)
  then show ?case
    by (simp add: drainInbox.simps [of env s] next_not_authenticated)
qed

lemma feed_feed [simp]: "feed b (feed a c) = feed (a @ b) c"
  by (simp add: feed_def)

lemma handleReadyRead_feed:
  "m_state c \<noteq> Authenticated \<Longrightarrow> handleReadyRead env b c = drainInbox env (feed b c)"
  by (simp add: handleReadyRead_def feed_def)

lemma handleReadyRead_raw:
  "m_state c = Authenticated \<Longrightarrow> handleReadyRead env b c = emit (RawBytes b) c"
  by (simp add: handleReadyRead_def)

section \<open>Reachable states\<close>

text \<open>
  Every way the rest of the program and the network drive a client: its configuration setters,
  the calls of the controller, the socket's signals and the writes of a session on top of it.
\<close>

inductive client_step :: "qtenv \<Rightarrow> client \<Rightarrow> client \<Rightarrow> bool" for env where
  set_protocol: "client_step env c (c\<lparr>m_protocol := p\<rparr>)"
| set_credentials: "client_step env c (setCredentials user pass c)"
| set_uri: "client_step env c (c\<lparr>m_authUri := uri\<rparr>)"
| set_tls: "client_step env c (c\<lparr>m_tls := enabled\<rparr>)"
| set_trusted: "client_step env c (c\<lparr>m_trustedFingerprints := fps\<rparr>)"
| set_opener: "client_step env c (c\<lparr>m_tunnelOpener := o'\<rparr>)"
| connect: "client_step env c (connectTo host port c)"
| tunnel: "client_step env c (tunnelOpened env host port fd error ok c)"
| adopt: "client_step env c (connectViaSocketDescriptor env fd ok c)"
| disconnect: "client_step env c (disconnectFromHost c)"
| trust: "client_step env c (trustPendingPeerCert env c)"
| connected: "m_socket c \<noteq> None \<Longrightarrow> client_step env c (handleConnected env c)"
| encrypted: "m_socket c = Some SslSocket \<Longrightarrow> client_step env c (handleEncrypted env cert c)"
| ready_read: "m_socket c \<noteq> None \<Longrightarrow> client_step env c (handleReadyRead env chunk c)"
| socket_error: "m_socket c \<noteq> None \<Longrightarrow> client_step env c (handleSocketError env err c)"
| session_write: "client_step env c (snd (writeRaw env b c))"

inductive reachable :: "qtenv \<Rightarrow> client \<Rightarrow> bool" for env where
  reachable_init: "reachable env initialClient"
| reachable_step: "reachable env c \<Longrightarrow> client_step env c c' \<Longrightarrow> reachable env c'"

text \<open>What happened since the client last entered \<open>Connecting\<close>.\<close>

definition epoch :: "redir_out list \<Rightarrow> redir_out list" where
  "epoch os = rev (takeWhile (\<lambda>x. x \<noteq> StateChanged Connecting) (rev os))"

lemma epoch_snoc: "epoch (os @ [x]) = (if x = StateChanged Connecting then [] else epoch os @ [x])"
  by (simp add: epoch_def)

lemma epoch_append: "StateChanged Connecting \<notin> set xs \<Longrightarrow> epoch (os @ xs) = epoch os @ xs"
  by (simp add: epoch_def) (subst takeWhile_append2, auto)

text \<open>A final digest frame with a response computed from some password for a non-empty challenge.\<close>

definition digest_frame :: "qtenv \<Rightarrow> bytes \<Rightarrow> bool" where
  "digest_frame env f \<longleftrightarrow>
     (\<exists>user pass realm nonce uri cnonce qop.
        realm \<noteq> [] \<and> nonce \<noteq> [] \<and>
        f = buildDigestResponse (e_toUtf8 env) user realm nonce uri cnonce (qlit ''00000001'')
          (computeDigest (e_toUtf8 env) (e_md5 env) user realm pass nonce (qlit ''00000001'') cnonce qop uri)
          qop)"

lemma digest_frameI:
  "realm \<noteq> [] \<Longrightarrow> nonce \<noteq> [] \<Longrightarrow>
   digest_frame env (buildDigestResponse (e_toUtf8 env) user realm nonce uri cnonce (qlit ''00000001'')
     (computeDigest (e_toUtf8 env) (e_md5 env) user realm pass nonce (qlit ''00000001'') cnonce qop uri)
     qop)"
  unfolding digest_frame_def by blast

definition digest_sent :: "qtenv \<Rightarrow> redir_out list \<Rightarrow> bool" where
  "digest_sent env os \<longleftrightarrow> (\<exists>f. digest_frame env f \<and> Wrote f \<in> set os)"

lemma digest_sent_simps [simp]:
  "digest_sent env (xs @ ys) \<longleftrightarrow> digest_sent env xs \<or> digest_sent env ys"
  "digest_sent env (Wrote f # xs) \<longleftrightarrow> digest_frame env f \<or> digest_sent env xs"
  by (auto simp: digest_sent_def)

definition proven :: "State \<Rightarrow> bool" where
  "proven s \<longleftrightarrow> s \<in> {AuthResponding, KvmStarting, Authenticated}"

definition auth_inv :: "qtenv \<Rightarrow> client \<Rightarrow> bool" where
  "auth_inv env c \<longleftrightarrow> (proven (m_state c) \<longrightarrow> digest_sent env (epoch (outs c)))"

lemma auth_inv_unproven: "\<not> proven (m_state c) \<Longrightarrow> auth_inv env c"
  by (simp add: auth_inv_def)

lemma auth_inv_emit: "auth_inv env c \<Longrightarrow> x \<noteq> StateChanged Connecting \<Longrightarrow> auth_inv env (emit x c)"
  by (auto simp: auth_inv_def epoch_snoc)

lemma auth_inv_setState:
  assumes "auth_inv env c" and "proven (m_state c)" and "s \<noteq> Connecting"
  shows "auth_inv env (setState s c)"
  using assms by (auto simp: auth_inv_def epoch_snoc)

lemma unproven [simp]:
  "\<not> proven Disconnected" "\<not> proven Connecting" "\<not> proven SelectorSent" "\<not> proven SessionOpened"
  "\<not> proven AuthQuerying" "\<not> proven AuthChallenging" "\<not> proven Failed"
  "proven AuthResponding" "proven KvmStarting" "proven Authenticated"
  by (simp_all add: proven_def)

lemma auth_inv_fail [simp]: "auth_inv env (fail e c)"
  by (rule auth_inv_unproven) simp

lemma auth_inv_inbox [simp]: "auth_inv env (c\<lparr>m_inbox := b\<rparr>) = auth_inv env c"
  by (simp add: auth_inv_def)

lemma handleConnected_inv [simp]: "auth_inv env (handleConnected env c)"
  by (simp add: handleConnected_def sockWrite_def Let_def auth_inv_unproven)

lemma start_inv:
  "onStartSessionReply env r c = Next t \<Longrightarrow> auth_inv env t"
  "onStartSessionReply env r c = Halt t \<Longrightarrow> auth_inv env t"
  by (auto simp: redir_handlers auth_inv_unproven split: if_splits)

lemma challenging_digest:
  "onAuthChallenging env r c = Next t \<Longrightarrow> auth_inv env t"
  by (auto simp: onAuthChallenging_def sockWrite_def Let_def auth_inv_def epoch_append
      digest_frameI split: if_splits prod.splits)

text \<open>What one iteration of the loop leaves behind, if it did anything.\<close>

definition after :: "('s \<Rightarrow> bool) \<Rightarrow> 's loop \<Rightarrow> bool" where
  "after P l = (case l of Wait \<Rightarrow> True | Halt t \<Rightarrow> P t | Next t \<Rightarrow> P t)"

lemma after_simps [simp]: "after P Wait" "after P (Halt t) = P t" "after P (Next t) = P t"
  by (simp_all add: after_def)

lemma after_start: "after (auth_inv env) (onStartSessionReply env r c)"
  using start_inv [of env r c] by (auto simp: after_def split: loop.splits)

lemma after_querying: "after (auth_inv env) (onAuthQuerying env r c)"
  by (simp add: onAuthQuerying_def sockWrite_def Let_def auth_inv_unproven)

lemma after_challenging: "after (auth_inv env) (onAuthChallenging env r c)"
  using challenging_digest [of env r c] halts_failed(3) [of env r c]
  by (auto simp: after_def auth_inv_unproven split: loop.splits)

lemma after_responding:
  "auth_inv env c \<Longrightarrow> m_state c = AuthResponding \<Longrightarrow> after (auth_inv env) (onAuthResponding env r c)"
  by (simp add: onAuthResponding_def sockWrite_def Let_def auth_inv_emit auth_inv_setState)

lemma after_auth: "auth_inv env c \<Longrightarrow> after (auth_inv env) (onAuthReply env r c)"
  by (simp add: onAuthReply_def after_querying after_challenging after_responding split: State.split)

lemma after_kvm: "auth_inv env c \<Longrightarrow> m_state c = KvmStarting \<Longrightarrow> after (auth_inv env) (onKvmStarted c)"
  by (simp add: onKvmStarted_def Let_def auth_inv_emit auth_inv_setState)

lemma after_step: "auth_inv env c \<Longrightarrow> after (auth_inv env) (drainStep env c)"
  unfolding drainStep_def
  by (simp add: after_start after_auth after_kvm split: list.split option.split)

lemma drainStep_inv:
  assumes "auth_inv env c"
  shows "drainStep env c = Next t \<Longrightarrow> auth_inv env t"
    and "drainStep env c = Halt t \<Longrightarrow> auth_inv env t"
  using after_step [OF assms] by (simp_all add: after_def)

lemma drainInbox_inv: "auth_inv env c \<Longrightarrow> auth_inv env (drainInbox env c)"
  by (rule redir_loop.drain_invariant [where P = "auth_inv env"]) (auto intro: drainStep_inv)

lemma reset_inv:
  "\<not> proven (m_state c) \<Longrightarrow> \<not> proven (m_state (resetConnection c))"
  by (simp add: resetConnection_def Let_def)

lemma auth_inv_adopt: "auth_inv env (connectViaSocketDescriptor env fd ok c)"
  by (simp add: connectViaSocketDescriptor_def Let_def auth_inv_unproven)

lemma client_step_inv:
  assumes "client_step env c c'" and "auth_inv env c"
  shows "auth_inv env c'"
  using assms
proof cases
  case ready_read
  with assms(2) show ?thesis
    by (simp add: handleReadyRead_def auth_inv_emit drainInbox_inv)
next
  case trust
  with assms(2) show ?thesis
    by (simp add: trustPendingPeerCert_def Let_def)
next
  case tunnel
  with assms(2) show ?thesis
    by (simp add: tunnelOpened_def auth_inv_adopt)
next
  case adopt
  then show ?thesis by (simp add: auth_inv_adopt)
next
  case connected
  then show ?thesis by simp
next
  case (encrypted cert)
  have "auth_inv env (c\<lparr>m_pendingPeerCert := p, m_awaitingTrust := w\<rparr>)" for p w
    using assms(2) by (simp add: auth_inv_def)
  with encrypted show ?thesis
    by (cases cert) (simp_all add: handleEncrypted_def Let_def auth_inv_emit)
next
  case session_write
  with assms(2) show ?thesis
    by (simp add: writeRaw_def sockWrite_def auth_inv_emit)
qed (simp_all add: auth_inv_def setCredentials_def connectTo_def disconnectFromHost_def
      handleSocketError_def Let_def)

lemma reachable_inv: "reachable env c \<Longrightarrow> auth_inv env c"
proof (induction rule: reachable.induct)
  case reachable_init
  show ?case by (simp add: auth_inv_def initialClient_def)
next
  case (reachable_step c c')
  then show ?case by (blast intro: client_step_inv)
qed

section \<open>The handshake with a conforming device\<close>

definition start_reply_frame :: "byte \<Rightarrow> bytes \<Rightarrow> bytes" where
  "start_reply_frame status oem =
     [0x11, status] @ replicate 10 0 @ [of_nat (length oem)] @ oem"

definition kvm_started_frame :: bytes where
  "kvm_started_frame = 0x41 # replicate 7 0"

lemma parse_start_reply_frame:
  "length oem \<le> 255 \<Longrightarrow>
     tryParseStartSessionReply (start_reply_frame s oem @ rest)
       = Some (\<lparr>ssr_status = StartSessionStatus_of s, ssr_oemData = oem\<rparr>, 13 + length oem)"
  by (simp add: parse_defs start_reply_frame_def mid_def nth_append eval_nat_numeral)

lemma frame_tags:
  "\<exists>r. start_reply_frame s oem @ rest = 0x11 # r" "\<exists>r. auth_reply_frame s t d @ rest = 0x14 # r"
  by (simp_all add: start_reply_frame_def auth_reply_frame_def)

lemma length_start_reply_frame [simp]: "length (start_reply_frame s oem) = 13 + length oem"
  by (simp add: start_reply_frame_def)

lemma drain_start:
  assumes "m_inbox c = start_reply_frame s oem @ rest" and "length oem \<le> 255"
  shows "drainStep env c = onStartSessionReply env
           \<lparr>ssr_status = StartSessionStatus_of s, ssr_oemData = oem\<rparr> (c\<lparr>m_inbox := rest\<rparr>)"
  using assms frame_tags(1) [of s oem rest]
  by (auto simp: drainStep_def parse_start_reply_frame split: list.split)

lemma drain_auth:
  assumes "m_inbox c = auth_reply_frame s t d @ rest" and "length d \<le> 65536"
    and "readAuthReply (e_fromUtf8 env) s (AuthType_of t) d = Some reply"
  shows "drainStep env c = onAuthReply env reply (c\<lparr>m_inbox := rest\<rparr>)"
  using assms frame_tags(2) [of s t d rest]
  by (auto simp: drainStep_def tryParseAuthReply_frame split: list.split)

lemma drain_next: "drainStep env c = Next t \<Longrightarrow> drainInbox env c = drainInbox env t"
  by (simp add: drainInbox.simps [of env c])

lemma drain_halt: "drainStep env c = Halt t \<Longrightarrow> drainInbox env c = t"
  by (simp add: drainInbox.simps [of env c])

text \<open>A socket that accepts every write.\<close>

definition writes_succeed :: "qtenv \<Rightarrow> bool" where
  "writes_succeed env \<longleftrightarrow> (\<forall>os b. 0 \<le> e_write env os b)"

lemma writes_succeedD [dest]: "writes_succeed env \<Longrightarrow> \<not> e_write env os b < 0"
  by (simp add: writes_succeed_def not_less)

definition digest_answer :: "qtenv \<Rightarrow> client \<Rightarrow> redir_out list \<Rightarrow> qstring \<Rightarrow> qstring \<Rightarrow> qstring \<Rightarrow> bytes" where
  "digest_answer env c os realm nonce qop =
     (let cnonce = (case e_random env os of (r1, r2) \<Rightarrow> makeClientNonce r1 r2);
          nc = qlit ''00000001''
      in buildDigestResponse (e_toUtf8 env) (m_user c) realm nonce (m_authUri c) cnonce nc
           (computeDigest (e_toUtf8 env) (e_md5 env) (m_user c) realm (m_pass c) nonce nc cnonce qop
              (m_authUri c)) qop)"

lemma shake_start:
  assumes "m_inbox c = start_reply_frame 0 oem @ rest" and "length oem \<le> 255"
    and "m_state c \<in> {Connecting, SelectorSent}" and "m_user c \<noteq> []" and "writes_succeed env"
  shows "drainInbox env c = drainInbox env (c\<lparr>m_inbox := rest, m_startStatus := Success,
           m_oemData := oem, m_state := AuthQuerying,
           outs := outs c @ [SessionOpenedSignal, StateChanged SessionOpened, Wrote buildAuthQuery,
                             StateChanged AuthQuerying]\<rparr>)"
proof (rule drain_next)
  have "m_state c \<noteq> SessionOpened"
    using assms(3) by auto
  then show "drainStep env c = Next (c\<lparr>m_inbox := rest, m_startStatus := Success,
           m_oemData := oem, m_state := AuthQuerying,
           outs := outs c @ [SessionOpenedSignal, StateChanged SessionOpened, Wrote buildAuthQuery,
                             StateChanged AuthQuerying]\<rparr>)"
    using assms(4) writes_succeedD [OF assms(5)]
    by (simp add: drain_start [OF assms(1,2)] onStartSessionReply_def StartSessionStatus_of_def
        sockWrite_def Let_def setState_def emit_def)
qed

lemma shake_caps:
  assumes "m_inbox c = auth_reply_frame s 0 caps @ rest" and "length caps \<le> 65536"
    and "m_state c = AuthQuerying" and "4 \<in> set caps" and "writes_succeed env"
  shows "drainInbox env c = drainInbox env (c\<lparr>m_inbox := rest, m_state := AuthChallenging,
           outs := outs c @ [Wrote (buildDigestQuery (e_toUtf8 env) (m_user c) (m_authUri c)),
                             StateChanged AuthChallenging]\<rparr>)"
proof (rule drain_next)
  have "readAuthReply (e_fromUtf8 env) s (AuthType_of 0) caps =
          Some \<lparr>ar_status = s, ar_authType = Query, ar_caps = readCaps caps noCaps,
                ar_realm = [], ar_nonce = [], ar_qop = []\<rparr>"
    by (simp add: readAuthReply_def AuthType_of_def)
  from drain_auth [OF assms(1,2) this] assms(3-5)
  show "drainStep env c = Next (c\<lparr>m_inbox := rest, m_state := AuthChallenging,
           outs := outs c @ [Wrote (buildDigestQuery (e_toUtf8 env) (m_user c) (m_authUri c)),
                             StateChanged AuthChallenging]\<rparr>)"
    using writes_succeedD [OF assms(5)]
    by (simp add: onAuthReply_def onAuthQuerying_def readCaps_flags sockWrite_def Let_def
        setState_def emit_def)
qed

lemma shake_challenge:
  assumes "m_inbox c = auth_reply_frame 1 4 (lp_field realm @ lp_field nonce @ lp_field qop) @ rest"
    and "length realm \<le> 255" and "length nonce \<le> 255" and "length qop \<le> 255"
    and "m_state c = AuthChallenging" and "e_fromUtf8 env realm \<noteq> []" and "e_fromUtf8 env nonce \<noteq> []"
    and "e_fromUtf8 env qop \<noteq> []" and "writes_succeed env"
  shows "drainInbox env c = drainInbox env (c\<lparr>m_inbox := rest, m_state := AuthResponding,
           outs := outs c @ [Wrote (digest_answer env c (outs c) (e_fromUtf8 env realm)
                               (e_fromUtf8 env nonce) (e_fromUtf8 env qop)),
                             StateChanged AuthResponding]\<rparr>)"
proof (rule drain_next)
  let ?d = "lp_field realm @ lp_field nonce @ lp_field qop"
  have "readAuthReply (e_fromUtf8 env) 1 (AuthType_of 4) ?d =
          Some \<lparr>ar_status = 1, ar_authType = DigestWithQop, ar_caps = noCaps,
                ar_realm = e_fromUtf8 env realm, ar_nonce = e_fromUtf8 env nonce,
                ar_qop = e_fromUtf8 env qop\<rparr>"
    using parseChallenge_fields(1) [OF assms(2-4), of "e_fromUtf8 env"]
    by (simp add: readAuthReply_def AuthType_of_def)
  moreover have "length ?d \<le> 65536"
    using assms(2-4) by (simp add: lp_field_def)
  ultimately show "drainStep env c = Next (c\<lparr>m_inbox := rest, m_state := AuthResponding,
           outs := outs c @ [Wrote (digest_answer env c (outs c) (e_fromUtf8 env realm)
                               (e_fromUtf8 env nonce) (e_fromUtf8 env qop)),
                             StateChanged AuthResponding]\<rparr>)"
    using drain_auth [OF assms(1)] assms(5-) writes_succeedD [OF assms(9)]
    by (simp add: onAuthReply_def onAuthChallenging_def digest_answer_def sockWrite_def Let_def
        setState_def emit_def split: prod.split)
qed

lemma shake_accept:
  assumes "m_inbox c = auth_reply_frame 0 4 [] @ rest" and "m_state c = AuthResponding"
    and "writes_succeed env"
  shows "m_protocol c \<noteq> Kvm \<Longrightarrow> drainInbox env c = c\<lparr>m_inbox := [], m_state := Authenticated,
           outs := outs c @ [StateChanged Authenticated, AuthenticatedSignal]
                     @ (if rest = [] then [] else [RawBytes rest])\<rparr>"
    and "m_protocol c = Kvm \<Longrightarrow> drainInbox env c = drainInbox env (c\<lparr>m_inbox := rest,
           m_state := KvmStarting, outs := outs c @ [Wrote kKvmStart, StateChanged KvmStarting]\<rparr>)"
proof -
  have "readAuthReply (e_fromUtf8 env) 0 (AuthType_of 4) [] =
          Some \<lparr>ar_status = 0, ar_authType = DigestWithQop, ar_caps = noCaps,
                ar_realm = [], ar_nonce = [], ar_qop = []\<rparr>"
    by (simp add: readAuthReply_def AuthType_of_def)
  note step = drain_auth [OF assms(1) _ this]
  show "m_protocol c \<noteq> Kvm \<Longrightarrow> drainInbox env c = c\<lparr>m_inbox := [], m_state := Authenticated,
           outs := outs c @ [StateChanged Authenticated, AuthenticatedSignal]
                     @ (if rest = [] then [] else [RawBytes rest])\<rparr>"
    using step assms(2)
    by (intro drain_halt) (simp add: onAuthReply_def onAuthResponding_def Let_def setState_def emit_def)
  show "m_protocol c = Kvm \<Longrightarrow> drainInbox env c = drainInbox env (c\<lparr>m_inbox := rest,
           m_state := KvmStarting, outs := outs c @ [Wrote kKvmStart, StateChanged KvmStarting]\<rparr>)"
    using step assms(2) writes_succeedD [OF assms(3)]
    by (intro drain_next)
      (simp add: onAuthReply_def onAuthResponding_def sockWrite_def Let_def setState_def emit_def)
qed

lemma shake_kvm:
  assumes "m_inbox c = kvm_started_frame @ rest" and "m_state c = KvmStarting"
  shows "drainInbox env c = c\<lparr>m_inbox := [], m_state := Authenticated,
           outs := outs c @ [StateChanged Authenticated, AuthenticatedSignal]
                     @ (if rest = [] then [] else [RawBytes rest])\<rparr>"
  using assms
  by (intro drain_halt)
    (simp add: drainStep_def onKvmStarted_def kvm_started_frame_def Let_def setState_def emit_def)

text \<open>The device's side of a successful handshake, and what the client does in answer.\<close>

definition device_handshake :: "Protocol \<Rightarrow> bytes \<Rightarrow> bytes \<Rightarrow> bytes \<Rightarrow> bytes \<Rightarrow> bytes \<Rightarrow> bytes" where
  "device_handshake p oem caps realm nonce qop =
     start_reply_frame 0 oem @ auth_reply_frame 0 0 caps
     @ auth_reply_frame 1 4 (lp_field realm @ lp_field nonce @ lp_field qop)
     @ auth_reply_frame 0 4 [] @ (if p = Kvm then kvm_started_frame else [])"

definition client_handshake :: "qtenv \<Rightarrow> client \<Rightarrow> qstring \<Rightarrow> qstring \<Rightarrow> qstring \<Rightarrow> redir_out list" where
  "client_handshake env c realm nonce qop =
     (let os = [SessionOpenedSignal, StateChanged SessionOpened, Wrote buildAuthQuery,
                StateChanged AuthQuerying,
                Wrote (buildDigestQuery (e_toUtf8 env) (m_user c) (m_authUri c)),
                StateChanged AuthChallenging]
      in os @ [Wrote (digest_answer env c (outs c @ os) realm nonce qop), StateChanged AuthResponding]
         @ (if m_protocol c = Kvm then [Wrote kKvmStart, StateChanged KvmStarting] else [])
         @ [StateChanged Authenticated, AuthenticatedSignal])"

lemma digest_answer_cong:
  "m_user c = m_user d \<Longrightarrow> m_pass c = m_pass d \<Longrightarrow> m_authUri c = m_authUri d \<Longrightarrow>
     digest_answer env c os realm nonce qop = digest_answer env d os realm nonce qop"
  by (simp add: digest_answer_def)

text \<open>The digest is written in answer to the first three frames, also by a client that still waits
  for the user's decision about the peer's certificate.\<close>

definition before_digest :: "qtenv \<Rightarrow> client \<Rightarrow> redir_out list" where
  "before_digest env c =
     outs c @ [SessionOpenedSignal, StateChanged SessionOpened, Wrote buildAuthQuery,
       StateChanged AuthQuerying, Wrote (buildDigestQuery (e_toUtf8 env) (m_user c) (m_authUri c)),
       StateChanged AuthChallenging]"

lemma handshake_to_digest:
  assumes "m_state c \<in> {Connecting, SelectorSent}" and "m_inbox c = []" and "m_user c \<noteq> []"
    and "writes_succeed env"
    and "length oem \<le> 255" and "length caps \<le> 65536" and "4 \<in> set caps"
    and "length realm \<le> 255" and "length nonce \<le> 255" and "length qop \<le> 255"
    and "e_fromUtf8 env realm \<noteq> []" and "e_fromUtf8 env nonce \<noteq> []" and "e_fromUtf8 env qop \<noteq> []"
  shows "handleReadyRead env (start_reply_frame 0 oem @ auth_reply_frame 0 0 caps
            @ auth_reply_frame 1 4 (lp_field realm @ lp_field nonce @ lp_field qop) @ rest) c
         = drainInbox env (c\<lparr>m_startStatus := Success, m_oemData := oem, m_inbox := rest,
             m_state := AuthResponding,
             outs := before_digest env c @ [Wrote (digest_answer env c (before_digest env c)
               (e_fromUtf8 env realm) (e_fromUtf8 env nonce) (e_fromUtf8 env qop)),
               StateChanged AuthResponding]\<rparr>)"
proof -
  let ?chal = "auth_reply_frame 1 4 (lp_field realm @ lp_field nonce @ lp_field qop) @ rest"
  let ?c0 = "c\<lparr>m_inbox := start_reply_frame 0 oem @ auth_reply_frame 0 0 caps @ ?chal\<rparr>"
  define c1 where "c1 = ?c0\<lparr>m_inbox := auth_reply_frame 0 0 caps @ ?chal, m_startStatus := Success,
    m_oemData := oem, m_state := AuthQuerying, outs := outs ?c0 @ [SessionOpenedSignal,
      StateChanged SessionOpened, Wrote buildAuthQuery, StateChanged AuthQuerying]\<rparr>"
  define c2 where "c2 = c1\<lparr>m_inbox := ?chal, m_state := AuthChallenging, outs := outs c1
      @ [Wrote (buildDigestQuery (e_toUtf8 env) (m_user c1) (m_authUri c1)), StateChanged AuthChallenging]\<rparr>"
  define c3 where "c3 = c2\<lparr>m_inbox := rest, m_state := AuthResponding, outs := outs c2
      @ [Wrote (digest_answer env c2 (outs c2) (e_fromUtf8 env realm) (e_fromUtf8 env nonce)
           (e_fromUtf8 env qop)), StateChanged AuthResponding]\<rparr>"
  have "drainInbox env ?c0 = drainInbox env c1"
    unfolding c1_def by (rule shake_start [OF _ assms(5) _ _ assms(4)]) (use assms(1,3) in simp_all)
  also have "\<dots> = drainInbox env c2"
    unfolding c2_def by (rule shake_caps [OF _ assms(6) _ assms(7,4)]) (simp_all add: c1_def)
  also have "\<dots> = drainInbox env c3"
    unfolding c3_def by (rule shake_challenge [OF _ assms(8-10) _ assms(11-13,4)]) (simp_all add: c2_def)
  finally show ?thesis
    using assms(1,2)
    by (auto simp: handleReadyRead_def c3_def c2_def c1_def before_digest_def digest_answer_def)
qed

text \<open>A stand-in for the Qt environment: Latin-1 text, constant hashes, a socket that takes all.\<close>

definition demo_env :: qtenv where
  "demo_env = \<lparr>e_toUtf8 = map ucast, e_fromUtf8 = map ucast, e_md5 = (\<lambda>b. replicate 16 0),
     e_sha256 = (\<lambda>b. replicate 32 0), e_write = (\<lambda>os b. int (length b)),
     e_random = (\<lambda>os. (1, 2)), e_errorString = (\<lambda>os. [])\<rparr>"

definition demo_client :: client where
  "demo_client = initialClient\<lparr>m_state := SelectorSent, m_user := [97], m_pass := [98],
     m_socket := Some TcpSocket\<rparr>"

lemma demo_simps [simp]:
  "writes_succeed demo_env" "e_fromUtf8 demo_env = map ucast" "m_state demo_client = SelectorSent"
  "m_inbox demo_client = []" "m_user demo_client = [97]" "m_protocol demo_client = Sol"
  "outs demo_client = []"
  by (simp_all add: writes_succeed_def demo_env_def demo_client_def initialClient_def)

section \<open>Properties\<close>

text \<open>C1: No client believes a session authenticated on the peer's word alone. In every reachable
  state that is \<open>Authenticated\<close>, a digest frame computed for a non-empty realm and nonce was
  written since the client last started connecting.\<close>

theorem authenticated_needs_digest:
  assumes "reachable env c" and "m_state c = Authenticated"
  shows "digest_sent env (epoch (outs c))"
  using reachable_inv [OF assms(1)] assms(2) by (simp add: auth_inv_def)

theorem authenticated_needs_digest_witness:
  "\<exists>c :: client. m_state c = Authenticated \<and> digest_sent demo_env (epoch (outs c))"
proof -
  let ?auth = "device_handshake Sol [] [4] [7] [8] [9]"
  define c where "c = handleReadyRead demo_env ?auth
    (handleConnected demo_env (connectTo [] 16994 (setCredentials [97] [98] initialClient)))"
  have "reachable demo_env c"
    unfolding c_def
    by (intro reachable_step [OF _ ready_read] reachable_step [OF _ connected]
        reachable_step [OF _ connect] reachable_step [OF _ set_credentials] reachable_init)
      (simp_all add: connectTo_def resetConnection_def handleConnected_def sockWrite_def
        setCredentials_def initialClient_def demo_env_def fail_def Let_def)
  moreover have "m_state c = Authenticated"
    unfolding c_def by code_simp
  ultimately show ?thesis
    using authenticated_needs_digest by blast
qed

text \<open>C2: The handshake does not depend on how TCP cuts the device's bytes into reads: as long as
  the first part does not make the client fail, reading two parts is the same as reading them at
  once, up to how the bytes handed to the session are grouped. No byte is lost, duplicated or
  reordered at the hand-over.\<close>

theorem redir_segmentation:
  assumes "m_state (handleReadyRead env a c) \<noteq> Failed"
  shows "obs (handleReadyRead env b (handleReadyRead env a c)) = obs (handleReadyRead env (a @ b) c)"
proof (cases "m_state c = Authenticated")
  case True
  then show ?thesis by (simp add: handleReadyRead_raw handed_over)
next
  case False
  let ?s = "feed a c"
  have s: "handleReadyRead env a c = drainInbox env ?s"
    and ab: "handleReadyRead env (a @ b) c = drainInbox env (feed b ?s)"
    using False by (simp_all add: handleReadyRead_feed)
  show ?thesis
  proof (cases "redir_loop.quiet env ?s")
    case True
    then have "m_state (drainInbox env ?s) \<noteq> Authenticated"
      using False by (intro quiet_not_authenticated) simp_all
    then show ?thesis
      using redir_loop.drain_feed_drain [OF True, of b] by (simp add: s ab handleReadyRead_feed)
  next
    case False
    then obtain u where "drainStep env u = Halt (drainInbox env ?s)"
      and "obs (drainInbox env (feed b ?s)) = obs (late b (drainInbox env ?s))"
      using redir_loop.not_quiet_halts by blast
    moreover have "m_state (drainInbox env ?s) = Authenticated"
      using halts_final [OF calculation(1)] assms s by simp
    ultimately show ?thesis
      by (simp add: s ab late_def handleReadyRead_raw)
  qed
qed

theorem redir_segmentation_witness:
  "obs (handleReadyRead demo_env [0] (handleReadyRead demo_env [0x11] demo_client))
     = obs (handleReadyRead demo_env [0x11, 0] demo_client)"
proof -
  have "handleReadyRead demo_env [0x11] demo_client = demo_client\<lparr>m_inbox := [0x11]\<rparr>"
    by (simp add: handleReadyRead_def drainInbox.simps drainStep_def parse_defs)
  then show ?thesis
    using redir_segmentation [of demo_env "[0x11]" demo_client "[0]"] by simp
qed

lemma handshake_result:
  assumes "m_state c \<in> {Connecting, SelectorSent}" and "m_inbox c = []" and "m_user c \<noteq> []"
    and "writes_succeed env"
    and "length oem \<le> 255" and "length caps \<le> 65536" and "4 \<in> set caps"
    and "length realm \<le> 255" and "length nonce \<le> 255" and "length qop \<le> 255"
    and "e_fromUtf8 env realm \<noteq> []" and "e_fromUtf8 env nonce \<noteq> []" and "e_fromUtf8 env qop \<noteq> []"
  shows "handleReadyRead env (device_handshake (m_protocol c) oem caps realm nonce qop @ tail) c
     = c\<lparr>m_inbox := [], m_startStatus := Success, m_oemData := oem, m_state := Authenticated,
         outs := outs c
           @ client_handshake env c (e_fromUtf8 env realm) (e_fromUtf8 env nonce) (e_fromUtf8 env qop)
           @ (if tail = [] then [] else [RawBytes tail])\<rparr>"
proof -
  define c3 where "c3 = c\<lparr>m_startStatus := Success, m_oemData := oem,
    m_inbox := auth_reply_frame 0 4 [] @ (if m_protocol c = Kvm then kvm_started_frame else []) @ tail,
    m_state := AuthResponding,
    outs := before_digest env c @ [Wrote (digest_answer env c (before_digest env c)
      (e_fromUtf8 env realm) (e_fromUtf8 env nonce) (e_fromUtf8 env qop)), StateChanged AuthResponding]\<rparr>"
  note run = handshake_to_digest [OF assms]
  have read: "handleReadyRead env (device_handshake (m_protocol c) oem caps realm nonce qop @ tail) c
     = drainInbox env c3"
    by (simp add: device_handshake_def run c3_def)
  have c3: "m_inbox c3 = auth_reply_frame 0 4 [] @ (if m_protocol c = Kvm then kvm_started_frame else []) @ tail"
    "m_state c3 = AuthResponding" "m_protocol c3 = m_protocol c"
    by (simp_all add: c3_def)
  note accept = shake_accept [OF c3(1,2) assms(4)]
  show ?thesis
    unfolding read
    by (cases "m_protocol c = Kvm")
      (simp_all add: accept c3(3) shake_kvm Let_def,
       simp_all add: c3_def client_handshake_def before_digest_def Let_def)
qed

text \<open>C5: The handshake succeeds against a conforming device. A client with credentials that has
  sent its selector, and a device that opens the session, offers digest-with-qop, sends a
  challenge and accepts the answer (and, for KVM, answers the extra start frame): the client ends
  authenticated, having written exactly the authentication query, the digest query, the
  digest response computed from the device's own realm, nonce and qop, and for KVM the start
  frame, in that order, and every byte after the handshake goes to the session.\<close>

theorem handshake_completes:
  assumes "m_state c = SelectorSent" and "m_inbox c = []" and "m_user c \<noteq> []"
    and "writes_succeed env"
    and "length oem \<le> 255" and "length caps \<le> 65536" and "4 \<in> set caps"
    and "length realm \<le> 255" and "length nonce \<le> 255" and "length qop \<le> 255"
    and "e_fromUtf8 env realm \<noteq> []" and "e_fromUtf8 env nonce \<noteq> []" and "e_fromUtf8 env qop \<noteq> []"
  shows "let c' = handleReadyRead env (device_handshake (m_protocol c) oem caps realm nonce qop @ tail) c in
           m_state c' = Authenticated \<and> m_inbox c' = [] \<and>
           outs c' = outs c
             @ client_handshake env c (e_fromUtf8 env realm) (e_fromUtf8 env nonce) (e_fromUtf8 env qop)
             @ (if tail = [] then [] else [RawBytes tail])"
proof -
  have "m_state c \<in> {Connecting, SelectorSent}"
    using assms(1) by simp
  note handshake_result [OF this assms(2-)]
  then show ?thesis by (simp add: Let_def)
qed

theorem handshake_completes_witness:
  "m_state (handleReadyRead demo_env (device_handshake Sol [5] [1, 4] [7] [8] [9] @ [1]) demo_client)
     = Authenticated"
  using handshake_completes [of demo_client demo_env "[5]" "[1, 4]" "[7]" "[8]" "[9]" "[1]"]
  by (simp add: Let_def)

text \<open>The certificate decision does not guard the credentials. While the client waits for the
  user's answer about an unknown TLS certificate (it is still \<open>Connecting\<close> and no selector went
  out), a peer that starts talking first is answered all the same: it is sent the user name and
  the digest of the password for a challenge of its own choosing, and the prompt stays open.\<close>

theorem digest_sent_before_trust:
  assumes "m_state c = Connecting" and "m_awaitingTrust c" and "m_inbox c = []" and "m_user c \<noteq> []"
    and "writes_succeed env"
    and "length realm \<le> 255" and "length nonce \<le> 255" and "length qop \<le> 255"
    and "e_fromUtf8 env realm \<noteq> []" and "e_fromUtf8 env nonce \<noteq> []" and "e_fromUtf8 env qop \<noteq> []"
  shows "let c' = handleReadyRead env (start_reply_frame 0 [] @ auth_reply_frame 0 0 [4]
                    @ auth_reply_frame 1 4 (lp_field realm @ lp_field nonce @ lp_field qop)) c in
           m_awaitingTrust c' \<and>
           Wrote (digest_answer env c (before_digest env c) (e_fromUtf8 env realm)
             (e_fromUtf8 env nonce) (e_fromUtf8 env qop)) \<in> set (outs c')"
proof -
  have "m_state c \<in> {Connecting, SelectorSent}"
    using assms(1) by simp
  then show ?thesis
    using assms(2) handshake_to_digest [OF _ assms(3-5) _ _ _ assms(6-11), of "[]" "[4]" "[]"]
    by (simp add: Let_def drainInbox.simps drainStep_def)
qed

theorem digest_sent_before_trust_witness:
  "m_awaitingTrust (handleReadyRead demo_env (start_reply_frame 0 [] @ auth_reply_frame 0 0 [4]
      @ auth_reply_frame 1 4 (lp_field [7] @ lp_field [8] @ lp_field [9]))
      (demo_client\<lparr>m_state := Connecting, m_awaitingTrust := True\<rparr>))"
  using digest_sent_before_trust [of "demo_client\<lparr>m_state := Connecting, m_awaitingTrust := True\<rparr>"
      demo_env "[7]" "[8]" "[9]"]
  by (simp add: Let_def)

text \<open>An authentication reply whose length field exceeds the 64 KiB cap is never refused: from
  then on every read only grows the inbox, with no signal and no state change, however much the
  device sends.\<close>

theorem oversize_reply_stalls:
  assumes "m_state c \<noteq> Authenticated" and "9 \<le> length (m_inbox c)" and "m_inbox c ! 0 = 0x14"
    and "read32Le (m_inbox c) 5 > kAuthReplyMaxData"
  shows "fold (handleReadyRead env) chunks c = c\<lparr>m_inbox := m_inbox c @ concat chunks\<rparr>"
  using assms
proof (induction chunks arbitrary: c)
  case Nil
  then show ?case by simp
next
  case (Cons b chunks)
  let ?c = "c\<lparr>m_inbox := m_inbox c @ b\<rparr>"
  have "drainStep env ?c = Wait"
    using Cons.prems tryParseAuthReply_oversize [OF Cons.prems(2,4), of "e_fromUtf8 env" b]
    by (cases "m_inbox c") (simp_all add: drainStep_def)
  then have "handleReadyRead env b c = ?c"
    using Cons.prems(1) by (simp add: handleReadyRead_def drainInbox.simps [of env ?c])
  moreover have "m_inbox c \<noteq> []"
    using Cons.prems(2) by auto
  ultimately show ?case
    using Cons.prems Cons.IH [of ?c] by (simp add: le32.read_append nth_append)
qed

theorem oversize_reply_stalls_witness:
  "fold (handleReadyRead demo_env) [[1, 2], [3]]
     (demo_client\<lparr>m_inbox := [0x14, 1, 0, 0, 4, 0, 0, 2, 0]\<rparr>)
   = demo_client\<lparr>m_inbox := [0x14, 1, 0, 0, 4, 0, 0, 2, 0, 1, 2, 3]\<rparr>"
  using oversize_reply_stalls [of "demo_client\<lparr>m_inbox := [0x14, 1, 0, 0, 4, 0, 0, 2, 0]\<rparr>"
      demo_env "[[1, 2], [3]]"]
  by (simp add: kAuthReplyMaxData_def read32Le_def)

end
