(* ===== verification/Sol_Session.thy ===== *)
theory Sol_Session
  imports Redir_Client
begin

text \<open>
  The Serial-over-LAN session, \<open>redir/src/sol_session.cpp\<close>: the open and settings exchange, the
  receive loop, keystrokes cut into frames, and the keepalive timer. The session holds its
  transport, a \<open>client\<close>; its own signals are recorded in \<open>sol_outs\<close>.
\<close>

section \<open>State\<close>

datatype sol_error =
    SolNoError
  | ClientNotAuthenticated
  | SolOpenNotWritten redir_error
  | SolOpenReplyStatus byte
  | UnexpectedSolFrame byte
  | SolClientFailed redir_error

datatype sol_out = SolSessionOpened | SolData bytes | SolClosed sol_error

record sol_session =
  sol_client :: client
  sol_keepalive :: bool
  sol_inbox :: bytes
  sol_sequence :: u32
  sol_open :: bool
  sol_settingsSent :: bool
  sol_lastError :: sol_error
  sol_outs :: "sol_out list"

definition newSolSession :: "client \<Rightarrow> sol_session" where
  "newSolSession c = \<lparr>sol_client = c, sol_keepalive = False, sol_inbox = [], sol_sequence = 1,
     sol_open = False, sol_settingsSent = False, sol_lastError = SolNoError, sol_outs = []\<rparr>"

section \<open>Operations\<close>

definition sol_emit :: "sol_out \<Rightarrow> sol_session \<Rightarrow> sol_session" where
  "sol_emit x s = s\<lparr>sol_outs := sol_outs s @ [x]\<rparr>"

definition sol_write :: "qtenv \<Rightarrow> bytes \<Rightarrow> sol_session \<Rightarrow> int \<times> sol_session" where
  "sol_write env b s = (case writeRaw env b (sol_client s) of (n, c) \<Rightarrow> (n, s\<lparr>sol_client := c\<rparr>))"

definition sol_fail :: "sol_error \<Rightarrow> sol_session \<Rightarrow> sol_session" where
  "sol_fail reason s =
     sol_emit (SolClosed reason) (s\<lparr>sol_lastError := reason, sol_open := False, sol_keepalive := False\<rparr>)"

definition sol_start :: "qtenv \<Rightarrow> sol_session \<Rightarrow> sol_session" where
  "sol_start env s =
     (if m_state (sol_client s) \<noteq> Authenticated then sol_fail ClientNotAuthenticated s
      else
        let open_frame = buildSolOpen (sol_sequence s) defaultSolOpenParams;
            s = s\<lparr>sol_sequence := sol_sequence s + 1\<rparr>;
            (n, s) = sol_write env open_frame s
        in if n \<noteq> int (length open_frame) then sol_fail (SolOpenNotWritten (m_lastError (sol_client s))) s
           else s)"

definition kChunk :: nat where "kChunk = 0xFFFF"

function sendInputFrom :: "qtenv \<Rightarrow> bytes \<Rightarrow> nat \<Rightarrow> sol_session \<Rightarrow> sol_session" where
  "sendInputFrom env input off s =
     (if off < length input then
        let n = min kChunk (length input - off);
            frame = buildSolDataToHost (mid input off n);
            s = snd (sol_write env frame s)
        in sendInputFrom env input (off + kChunk) s
      else s)"
  by pat_completeness auto
termination
  by (relation "measure (\<lambda>(env, input, off, s). length input - off)") (auto simp: kChunk_def)

declare sendInputFrom.simps [simp del]

definition sendInput :: "qtenv \<Rightarrow> bytes \<Rightarrow> sol_session \<Rightarrow> sol_session" where
  "sendInput env input s = (if \<not> sol_open s then s else sendInputFrom env input 0 s)"

definition onClientFailed :: "redir_error \<Rightarrow> sol_session \<Rightarrow> sol_session" where
  "onClientFailed reason s = sol_fail (SolClientFailed reason) s"

definition onSolOpenReply :: "qtenv \<Rightarrow> byte \<Rightarrow> sol_session \<Rightarrow> sol_session loop" where
  "onSolOpenReply env status s =
     (if status \<noteq> 0 then Halt (sol_fail (SolOpenReplyStatus status) s)
      else if \<not> sol_settingsSent s then
        let frame = buildSolSettings (sol_sequence s);
            s = s\<lparr>sol_sequence := sol_sequence s + 1\<rparr>;
            s = snd (sol_write env frame s);
            s = s\<lparr>sol_settingsSent := True, sol_open := True, sol_keepalive := True\<rparr>
        in Next (sol_emit SolSessionOpened s)
      else Next s)"

definition solStep :: "qtenv \<Rightarrow> sol_session \<Rightarrow> sol_session loop" where
  "solStep env s =
     (case sol_inbox s of
        [] \<Rightarrow> Wait
      | tag # _ \<Rightarrow>
          if tag = 0x21 then
            (case tryParseSolOpenReply (sol_inbox s) of
               None \<Rightarrow> Wait
             | Some (status, consumed) \<Rightarrow>
                 onSolOpenReply env status (s\<lparr>sol_inbox := drop consumed (sol_inbox s)\<rparr>))
          else if tag = 0x2A then
            (case tryParseSolDisplayData (sol_inbox s) of
               None \<Rightarrow> Wait
             | Some (payload, consumed) \<Rightarrow>
                 let s = s\<lparr>sol_inbox := drop consumed (sol_inbox s)\<rparr>
                 in Next (if payload \<noteq> [] then sol_emit (SolData payload) s else s))
          else if tag = 0x2B then
            (if length (sol_inbox s) < 8 then Wait else Next (s\<lparr>sol_inbox := drop 8 (sol_inbox s)\<rparr>))
          else if tag = 0x29 then
            (if length (sol_inbox s) < 10 then Wait else Next (s\<lparr>sol_inbox := drop 10 (sol_inbox s)\<rparr>))
          else Halt (sol_fail (UnexpectedSolFrame tag) s))"

lemma sol_fields [simp]:
  "sol_inbox (sol_emit x s) = sol_inbox s" "sol_outs (sol_emit x s) = sol_outs s @ [x]"
  "sol_inbox (snd (sol_write env b s)) = sol_inbox s" "sol_outs (snd (sol_write env b s)) = sol_outs s"
  "sol_inbox (sol_fail e s) = sol_inbox s" "sol_outs (sol_fail e s) = sol_outs s @ [SolClosed e]"
  "sol_client (snd (sol_write env b s)) = snd (writeRaw env b (sol_client s))"
  by (simp_all add: sol_emit_def sol_write_def sol_fail_def split: prod.split)

lemma open_reply_inbox: "onSolOpenReply env st s = Next t \<Longrightarrow> sol_inbox t = sol_inbox s"
  by (auto simp: onSolOpenReply_def Let_def split: if_splits)

lemma solStep_consumes:
  assumes "solStep env s = Next t"
  shows "length (sol_inbox t) < length (sol_inbox s)"
  using assms
  by (auto simp: solStep_def Let_def dest!: open_reply_inbox
      dest: sol_open_reply.parse_consumes sol_display.parse_consumes
      split: list.splits if_splits option.splits)

function sol_drainInbox :: "qtenv \<Rightarrow> sol_session \<Rightarrow> sol_session" where
  "sol_drainInbox env s =
     (case solStep env s of Wait \<Rightarrow> s | Halt t \<Rightarrow> t | Next t \<Rightarrow> sol_drainInbox env t)"
  by pat_completeness auto
termination
  by (relation "measure (\<lambda>(env, s). length (sol_inbox s))") (simp_all add: solStep_consumes)

declare sol_drainInbox.simps [simp del]

definition sol_onRawBytes :: "qtenv \<Rightarrow> bytes \<Rightarrow> sol_session \<Rightarrow> sol_session" where
  "sol_onRawBytes env chunk s = sol_drainInbox env (s\<lparr>sol_inbox := sol_inbox s @ chunk\<rparr>)"

definition sendKeepalive :: "qtenv \<Rightarrow> sol_session \<Rightarrow> sol_session" where
  "sendKeepalive env s = snd (sol_write env buildSolKeepalive s)"

section \<open>The receive loop\<close>

definition sol_feed :: "bytes \<Rightarrow> sol_session \<Rightarrow> sol_session" where
  "sol_feed b s = s\<lparr>sol_inbox := sol_inbox s @ b\<rparr>"

lemma sol_feed_simps [simp]:
  "sol_feed b (sol_emit x s) = sol_emit x (sol_feed b s)"
  "sol_feed b (sol_fail e s) = sol_fail e (sol_feed b s)"
  "snd (sol_write env d (sol_feed b s)) = sol_feed b (snd (sol_write env d s))"
  "sol_inbox (sol_feed b s) = sol_inbox s @ b" "sol_outs (sol_feed b s) = sol_outs s"
  "sol_settingsSent (sol_feed b s) = sol_settingsSent s" "sol_sequence (sol_feed b s) = sol_sequence s"
  by (simp_all add: sol_feed_def sol_emit_def sol_fail_def sol_write_def split: prod.split)

lemma sol_feed_update [simp]:
  "(sol_feed b s)\<lparr>sol_sequence := n\<rparr> = sol_feed b (s\<lparr>sol_sequence := n\<rparr>)"
  "(sol_feed b s)\<lparr>sol_keepalive := k\<rparr> = sol_feed b (s\<lparr>sol_keepalive := k\<rparr>)"
  "(sol_feed b s)\<lparr>sol_open := k\<rparr> = sol_feed b (s\<lparr>sol_open := k\<rparr>)"
  "(sol_feed b s)\<lparr>sol_settingsSent := k\<rparr> = sol_feed b (s\<lparr>sol_settingsSent := k\<rparr>)"
  by (simp_all add: sol_feed_def)

lemma sol_feed_drop:
  "n \<le> length (t # ys) \<Longrightarrow>
     (sol_feed b s)\<lparr>sol_inbox := drop n (t # ys @ b)\<rparr> = sol_feed b (s\<lparr>sol_inbox := drop n (t # ys)\<rparr>)"
  using drop_append [of n "t # ys" b] by (simp add: sol_feed_def)

lemma open_reply_feed: "onSolOpenReply env st (sol_feed b s) = map_loop (sol_feed b) (onSolOpenReply env st s)"
  by (simp add: onSolOpenReply_def Let_def)

lemma solStep_feed:
  assumes "solStep env s \<noteq> Wait"
  shows "solStep env (sol_feed b s) = map_loop (sol_feed b) (solStep env s)"
proof (cases "sol_inbox s")
  case Nil
  with assms show ?thesis by (simp add: solStep_def)
next
  case (Cons tag rest)
  consider "tag = 0x21" | "tag = 0x2A" | "tag \<noteq> 0x21" "tag \<noteq> 0x2A" by blast
  then show ?thesis
  proof cases
    case 1
    with assms Cons obtain st n where p: "tryParseSolOpenReply (0x21 # rest) = Some (st, n)"
      by (auto simp: solStep_def split: option.splits)
    then have "n \<le> length (0x21 # rest)"
      using sol_open_reply.parse_consumes by blast
    from sol_feed_drop [OF this] p 1 Cons show ?thesis
      by (simp add: solStep_def sol_open_reply.parse_append_Cons open_reply_feed)
  next
    case 2
    with assms Cons obtain d n where p: "tryParseSolDisplayData (0x2A # rest) = Some (d, n)"
      by (auto simp: solStep_def split: option.splits)
    then have "n \<le> length (0x2A # rest)"
      using sol_display.parse_consumes by blast
    from sol_feed_drop [OF this] p 2 Cons show ?thesis
      by (simp add: solStep_def Let_def sol_display.parse_append_Cons)
  next
    case 3
    have "8 \<le> length (tag # rest) \<Longrightarrow> drop 8 (tag # rest @ b) = drop 8 (tag # rest) @ b"
      "10 \<le> length (tag # rest) \<Longrightarrow> drop 10 (tag # rest @ b) = drop 10 (tag # rest) @ b"
      using drop_append [of _ "tag # rest" b] by simp_all
    with 3 assms Cons show ?thesis
      by (auto simp: solStep_def sol_feed_def sol_fail_def sol_emit_def split: if_splits)
  qed
qed

interpretation sol_loop: stream_loop "solStep env" sol_inbox sol_feed "sol_drainInbox env" sol_feed id for env
proof
  show "sol_drainInbox env s = (case solStep env s of Wait \<Rightarrow> s | Halt t \<Rightarrow> t | Next t \<Rightarrow> sol_drainInbox env t)"
    for s by (rule sol_drainInbox.simps)
  show "feeds_through sol_feed sol_feed id (solStep env) s b" for s b
    by (rule feeds_through_map) (rule solStep_feed)
  show "sol_feed (a @ b) s = sol_feed b (sol_feed a s)" for a b s
    by (simp add: sol_feed_def)
  show "sol_feed [] s = s" for s
    by (simp add: sol_feed_def)
qed (rule solStep_consumes)

lemma sol_onRawBytes_feed: "sol_onRawBytes env = (\<lambda>b s. sol_drainInbox env (sol_feed b s))"
  by (simp add: fun_eq_iff sol_onRawBytes_def sol_feed_def)

text \<open>A run that closes the session is the only one that is not quiet.\<close>

definition closes :: "sol_out list \<Rightarrow> nat" where
  "closes os = length (filter (\<lambda>x. case x of SolClosed _ \<Rightarrow> True | _ \<Rightarrow> False) os)"

lemma closes_simps [simp]:
  "closes (xs @ ys) = closes xs + closes ys" "closes [SolClosed e] = 1" "closes [SolSessionOpened] = 0"
  "closes [SolData d] = 0" "closes [] = 0"
  by (simp_all add: closes_def)

lemma open_reply_closes:
  "onSolOpenReply env st s = Next t \<Longrightarrow> closes (sol_outs t) = closes (sol_outs s)"
  "onSolOpenReply env st s = Halt t \<Longrightarrow> closes (sol_outs t) = Suc (closes (sol_outs s))"
  by (auto simp: onSolOpenReply_def Let_def split: if_splits)

lemma solStep_closes:
  "solStep env s = Next t \<Longrightarrow> closes (sol_outs t) = closes (sol_outs s)"
  "solStep env s = Halt t \<Longrightarrow> closes (sol_outs t) = Suc (closes (sol_outs s))"
  by (auto simp: solStep_def Let_def dest!: open_reply_closes
      split: list.splits if_splits option.splits)

lemma sol_quiet_or_closes:
  "\<not> sol_loop.quiet env s \<Longrightarrow> closes (sol_outs (sol_drainInbox env s)) = Suc (closes (sol_outs s))"
proof (induction "length (sol_inbox s)" arbitrary: s rule: less_induct)
  case less
  show ?case
  proof (cases "solStep env s")
    case Wait
    with less.prems show ?thesis by (blast intro: sol_loop.quiet_wait)
  next
    case (Halt t)
    then show ?thesis by (simp add: sol_drainInbox.simps [of env s] solStep_closes)
  next
    case (Next t)
    with less.prems have "\<not> sol_loop.quiet env t" by (blast intro: sol_loop.quiet_next)
    with less.hyps [OF solStep_consumes [OF Next]] Next show ?thesis
      by (simp add: sol_drainInbox.simps [of env s] solStep_closes)
  qed
qed

section \<open>Display data\<close>

text \<open>A display frame as the device sends it: tag, seven bytes the session ignores, length, text.\<close>

definition sol_display_frame :: "bytes \<Rightarrow> bytes \<Rightarrow> bytes" where
  "sol_display_frame h p = [0x2A] @ h @ pack16Le (of_nat (length p)) @ p"

lemma parse_display_frame:
  assumes "length h = 7" and "length p \<le> 65535"
  shows "tryParseSolDisplayData (sol_display_frame h p @ rest) = Some (p, 10 + length p)"
proof -
  have "read16Le (([0x2A] @ h) @ pack16Le (of_nat (length p)) @ p @ rest) 8 = of_nat (length p)"
    by (rule le16.read_hit) (simp add: assms)
  then have "read16Le (sol_display_frame h p @ rest) 8 = of_nat (length p)"
    by (simp add: sol_display_frame_def)
  moreover have "unat (of_nat (length p) :: u16) = length p"
    using assms(2) by (simp add: unat_of_nat)
  moreover have "mid (sol_display_frame h p @ rest) 10 (length p) = p"
    by (simp add: mid_def sol_display_frame_def assms(1) le16.pack_length)
  moreover have "sol_display_frame h p @ rest = 0x2A # (h @ pack16Le (of_nat (length p)) @ p @ rest)"
    by (simp add: sol_display_frame_def)
  ultimately show ?thesis
    using assms(1) by (simp add: tryParseSolDisplayData_def le16.pack_length Let_def)
qed

definition sol_text :: "sol_out list \<Rightarrow> bytes" where
  "sol_text os = concat (map (\<lambda>x. case x of SolData d \<Rightarrow> d | _ \<Rightarrow> []) os)"

lemma sol_text_simps [simp]:
  "sol_text (xs @ ys) = sol_text xs @ sol_text ys" "sol_text (SolData d # xs) = d @ sol_text xs" "sol_text [] = []"
  by (simp_all add: sol_text_def)

lemma length_display_frame: "length h = 7 \<Longrightarrow> length (sol_display_frame h p) = 10 + length p"
  by (simp add: sol_display_frame_def le16.pack_length)

lemma display_step:
  assumes "sol_inbox s = sol_display_frame h p @ rest" and "length h = 7" and "length p \<le> 65535"
  shows "solStep env s = Next (s\<lparr>sol_inbox := rest,
           sol_outs := sol_outs s @ (if p = [] then [] else [SolData p])\<rparr>)"
proof -
  obtain r where r: "sol_inbox s = 0x2A # r"
    using assms(1) by (simp add: sol_display_frame_def)
  have "tryParseSolDisplayData (0x2A # r) = Some (p, 10 + length p)"
    using parse_display_frame [OF assms(2,3), of rest] assms(1) r by simp
  moreover have "drop (10 + length p) (0x2A # r) = rest"
    using assms(1,2) r length_display_frame [of h p] by (metis append_eq_conv_conj)
  ultimately show ?thesis
    using r by (cases p) (auto simp: solStep_def Let_def sol_emit_def)
qed

lemma display_run:
  assumes "sol_inbox s = concat (map (\<lambda>(h, p). sol_display_frame h p) fs)"
    and "\<forall>(h, p) \<in> set fs. length h = 7 \<and> length p \<le> 65535"
  shows "sol_loop.quiet env s \<and> (\<exists>os. sol_drainInbox env s = s\<lparr>sol_inbox := [], sol_outs := sol_outs s @ os\<rparr>
           \<and> sol_text os = concat (map snd fs))"
  using assms
proof (induction fs arbitrary: s)
  case Nil
  then have "solStep env s = Wait" by (simp add: solStep_def)
  moreover from this have "sol_drainInbox env s = s\<lparr>sol_inbox := [], sol_outs := sol_outs s @ []\<rparr>"
    using Nil by (simp add: sol_drainInbox.simps [of env s])
  ultimately show ?case
    by (auto intro: sol_loop.quiet_wait intro!: exI [of _ "[]"])
next
  case (Cons f fs)
  obtain h p where f: "f = (h, p)" by (cases f)
  let ?os = "if p = [] then [] else [SolData p]"
  let ?t = "s\<lparr>sol_inbox := concat (map (\<lambda>(h, p). sol_display_frame h p) fs), sol_outs := sol_outs s @ ?os\<rparr>"
  have step: "solStep env s = Next ?t"
    using Cons.prems f by (intro display_step [of s h p]) auto
  from Cons.IH [of ?t] Cons.prems(2) obtain os where
    "sol_loop.quiet env ?t" and "sol_drainInbox env ?t = ?t\<lparr>sol_inbox := [], sol_outs := sol_outs ?t @ os\<rparr>"
    and "sol_text os = concat (map snd fs)"
    by auto
  with step f show ?case
    by (auto intro: sol_loop.quiet_next simp: sol_drainInbox.simps [of env s]
        intro!: exI [of _ "?os @ os"])
qed

section \<open>Keystrokes\<close>

text \<open>The device's side: it takes the payloads of consecutive 0x28 frames.\<close>

function host_input :: "bytes \<Rightarrow> bytes option" where
  "host_input b =
     (if b = [] then Some []
      else if b ! 0 \<noteq> 0x28 \<or> length b < 10 then None
      else let n = unat (read16Le b 8) in
        if length b < 10 + n then None
        else map_option (\<lambda>r. mid b 10 n @ r) (host_input (drop (10 + n) b)))"
  by pat_completeness auto
termination
  by (relation "measure length") auto

declare host_input.simps [simp del]

lemma host_input_frame:
  assumes "length d \<le> 65535"
  shows "host_input (buildSolDataToHost d @ rest) = map_option (\<lambda>r. d @ r) (host_input rest)"
proof -
  let ?b = "buildSolDataToHost d @ rest"
  have "read16Le (([0x28] @ replicate 7 0) @ pack16Le (of_nat (length d)) @ d @ rest) 8 = of_nat (length d)"
    by (rule le16.read_hit) simp
  then have "read16Le ?b 8 = of_nat (length d)"
    by (simp add: buildSolDataToHost_def)
  moreover have "unat (of_nat (length d) :: u16) = length d"
    using assms by (simp add: unat_of_nat)
  moreover have "mid ?b 10 (length d) = d" "drop (10 + length d) ?b = rest" "?b ! 0 = 0x28" "?b \<noteq> []"
    "length ?b = 10 + length d + length rest"
    by (simp_all add: mid_def buildSolDataToHost_def le16.pack_length eval_nat_numeral)
  ultimately show ?thesis
    by (simp add: host_input.simps [of ?b] Let_def del: append_is_Nil_conv)
qed

lemma sendInputFrom_wire:
  "connected_client (sol_client s) \<Longrightarrow>
     \<exists>w. wire (sol_client (sendInputFrom env input off s)) = wire (sol_client s) @ w
         \<and> host_input w = Some (drop off input)"
proof (induction env input off s rule: sendInputFrom.induct)
  case (1 env input off s)
  show ?case
  proof (cases "off < length input")
    case False
    then show ?thesis
      by (auto simp: sendInputFrom.simps [of env input off] host_input.simps [of "[]"])
  next
    case True
    define d where "d = mid input off (min kChunk (length input - off))"
    define s1 where "s1 = snd (sol_write env (buildSolDataToHost d) s)"
    have "connected_client (sol_client s1)"
      using 1 by (simp add: s1_def redir_transport.write_up)
    with "1.IH" [OF True refl refl] obtain w where
      w: "wire (sol_client (sendInputFrom env input (off + kChunk) s1)) = wire (sol_client s1) @ w"
      "host_input w = Some (drop (off + kChunk) input)"
      by (auto simp: s1_def d_def)
    have "wire (sol_client s1) = wire (sol_client s) @ buildSolDataToHost d"
      using 1 by (simp add: s1_def redir_transport.write_wire)
    moreover have "d @ drop (off + kChunk) input = drop off input"
      by (simp add: d_def mid_def min_def add.commute flip: drop_drop)
    moreover have "length d \<le> 65535"
      by (simp add: d_def mid_def kChunk_def)
    ultimately show ?thesis
      using w True
      by (auto simp: sendInputFrom.simps [of env input off s] Let_def host_input_frame
          simp flip: d_def s1_def)
  qed
qed

section \<open>Properties\<close>

text \<open>Everything typed reaches the host. For an open session on a connected transport, whatever
  the length of the input, the bytes put on the wire are 0x28 frames whose payloads, read by the
  device one frame after the other, are exactly the input.\<close>

theorem sol_input_reaches_host:
  assumes "sol_open s" and "connected_client (sol_client s)"
  shows "\<exists>w. wire (sol_client (sendInput env input s)) = wire (sol_client s) @ w
           \<and> host_input w = Some input"
  using sendInputFrom_wire [OF assms(2), of env input 0] assms(1) by (simp add: sendInput_def)

definition demo_sol :: sol_session where
  "demo_sol = newSolSession (demo_client\<lparr>m_state := Authenticated\<rparr>)"

theorem sol_input_reaches_host_witness:
  "\<exists>w. wire (sol_client (sendInput demo_env [104, 105] (demo_sol\<lparr>sol_open := True\<rparr>)))
         = wire (sol_client demo_sol) @ w \<and> host_input w = Some [104, 105]"
  using sol_input_reaches_host [of "demo_sol\<lparr>sol_open := True\<rparr>" demo_env "[104, 105]"]
  by (simp add: demo_sol_def newSolSession_def connected_client_def demo_client_def)

text \<open>How TCP cuts the stream does not matter to a session that is not closed by it: any
  sequence of reads leaves the session, and all it emitted and wrote, exactly as one read of the
  concatenated bytes.\<close>

theorem sol_segmentation:
  assumes "closes (sol_outs (sol_onRawBytes env (concat bs) s)) = closes (sol_outs s)" and "bs \<noteq> []"
  shows "fold (sol_onRawBytes env) bs s = sol_onRawBytes env (concat bs) s"
proof -
  have "sol_loop.quiet env (sol_feed (concat bs) s)"
    using assms(1) sol_quiet_or_closes [of env "sol_feed (concat bs) s"]
    by (auto simp: sol_onRawBytes_feed)
  then show ?thesis
    using assms(2) by (simp add: sol_onRawBytes_feed sol_loop.reads_concat)
qed

theorem sol_segmentation_witness:
  "fold (sol_onRawBytes demo_env) [[0x2B, 0, 0, 0], [0, 0, 0, 0]] demo_sol
     = sol_onRawBytes demo_env [0x2B, 0, 0, 0, 0, 0, 0, 0] demo_sol"
proof -
  have "sol_onRawBytes demo_env [0x2B, 0, 0, 0, 0, 0, 0, 0] demo_sol = demo_sol"
    by (simp add: sol_onRawBytes_def sol_drainInbox.simps solStep_def demo_sol_def newSolSession_def)
  then show ?thesis
    using sol_segmentation [of demo_env "[[0x2B, 0, 0, 0], [0, 0, 0, 0]]" demo_sol] by simp
qed

text \<open>Console output is delivered complete and in order: when the device's display frames
  arrive, cut into reads in any way, the text the session emits is the concatenation of the frame
  payloads, and nothing else of the session changes.\<close>

theorem sol_output_delivered:
  assumes "sol_inbox s = []" and "bs \<noteq> []"
    and "concat bs = concat (map (\<lambda>(h, p). sol_display_frame h p) fs)"
    and "\<forall>(h, p) \<in> set fs. length h = 7 \<and> length p \<le> 65535"
  shows "\<exists>os. fold (sol_onRawBytes env) bs s = s\<lparr>sol_outs := sol_outs s @ os\<rparr>
           \<and> sol_text os = concat (map snd fs)"
proof -
  have "sol_inbox (sol_feed (concat bs) s) = concat (map (\<lambda>(h, p). sol_display_frame h p) fs)"
    using assms(1,3) by simp
  note run = display_run [OF this assms(4), of env]
  then have "fold (sol_onRawBytes env) bs s = sol_drainInbox env (sol_feed (concat bs) s)"
    using assms(2) by (simp add: sol_onRawBytes_feed sol_loop.reads_concat)
  moreover have "(sol_feed (concat bs) s)\<lparr>sol_inbox := [], sol_outs := x\<rparr> = s\<lparr>sol_outs := x\<rparr>" for x
    using assms(1) by (simp add: sol_feed_def)
  ultimately show ?thesis
    using run by auto
qed

theorem sol_output_delivered_witness:
  "\<exists>os. fold (sol_onRawBytes demo_env) [[0x2A, 0, 0, 0, 0], [0, 0, 0, 1, 0, 65]] demo_sol
         = demo_sol\<lparr>sol_outs := sol_outs demo_sol @ os\<rparr> \<and> sol_text os = [65]"
  using sol_output_delivered [of demo_sol "[[0x2A, 0, 0, 0, 0], [0, 0, 0, 1, 0, 65]]"
      "[([0, 0, 0, 0, 0, 0, 0], [65])]" demo_env]
  by (simp add: demo_sol_def newSolSession_def sol_display_frame_def pack16Le_def)

end
