(* ===== verification/Terminal_Screen.thy ===== *)
theory Terminal_Screen
  imports Prelude
begin

text \<open>
  The character grid behind the serial console, \<open>terminal/src/terminalscreen.cpp\<close> and
  \<open>terminal/include/terminal/terminalscreen.h\<close>: cells, cursor, pen, the mutators the VT100 parser
  drives, and the rendering of a row as HTML.

  Rows, columns and cursor are natural numbers; arguments that may be negative are integers and
  are clamped as in the source. Every access to the cell vector checks its index: an access
  outside the vector sets \<open>scr_oob\<close>, the outcome the invariant rules out.
\<close>

section \<open>State\<close>

definition AttrNone :: byte where "AttrNone = 0x00"
definition AttrBold :: byte where "AttrBold = 0x01"
definition AttrUnderline :: byte where "AttrUnderline = 0x02"
definition AttrReverse :: byte where "AttrReverse = 0x04"

record Cell =
  cell_ch :: qchar
  cell_low :: qchar
  cell_fg :: byte
  cell_bg :: byte
  cell_attrs :: byte

definition emptyCell :: Cell where
  "emptyCell = \<lparr>cell_ch = 32, cell_low = 0, cell_fg = 0xFF, cell_bg = 0xFF, cell_attrs = AttrNone\<rparr>"

datatype screen_signal = GeometryChanged | CursorMoved | ScreenUpdated | Bell | Respond bytes

record screen =
  scr_rows :: nat
  scr_columns :: nat
  scr_cursorRow :: nat
  scr_cursorColumn :: nat
  scr_savedRow :: nat
  scr_savedColumn :: nat
  scr_version :: nat
  scr_pen :: Cell
  scr_cells :: "Cell list"
  scr_signals :: "screen_signal list"
  scr_oob :: bool

definition newScreen :: screen where
  "newScreen = \<lparr>scr_rows = 24, scr_columns = 80, scr_cursorRow = 0, scr_cursorColumn = 0,
     scr_savedRow = 0, scr_savedColumn = 0, scr_version = 0, scr_pen = emptyCell,
     scr_cells = replicate (24 * 80) emptyCell, scr_signals = [], scr_oob = False\<rparr>"

section \<open>Access\<close>

definition scr_emit :: "screen_signal \<Rightarrow> screen \<Rightarrow> screen" where
  "scr_emit x s = s\<lparr>scr_signals := scr_signals s @ [x]\<rparr>"

definition touch :: "screen \<Rightarrow> screen" where
  "touch s = scr_emit ScreenUpdated (s\<lparr>scr_version := scr_version s + 1\<rparr>)"

definition emitResponse :: "bytes \<Rightarrow> screen \<Rightarrow> screen" where
  "emitResponse b s = (if b = [] then s else scr_emit (Respond b) s)"

definition cellAt :: "int \<Rightarrow> int \<Rightarrow> screen \<Rightarrow> Cell" where
  "cellAt row column s =
     (if row < 0 \<or> row \<ge> int (scr_rows s) \<or> column < 0 \<or> column \<ge> int (scr_columns s) then emptyCell
      else scr_cells s ! (nat row * scr_columns s + nat column))"

text \<open>Assignment through \<open>cellMut(row, column)\<close>.\<close>

definition setCell :: "nat \<Rightarrow> nat \<Rightarrow> Cell \<Rightarrow> screen \<Rightarrow> screen" where
  "setCell row column c s =
     (let i = row * scr_columns s + column
      in if i < length (scr_cells s) then s\<lparr>scr_cells := (scr_cells s)[i := c]\<rparr>
         else s\<lparr>scr_oob := True\<rparr>)"

text \<open>\<open>m_cells[dst] = m_cells.at(src)\<close> with both cells given by row and column.\<close>

definition copyCell :: "nat \<Rightarrow> nat \<Rightarrow> nat \<Rightarrow> nat \<Rightarrow> screen \<Rightarrow> screen" where
  "copyCell row column row' column' s =
     (let j = row' * scr_columns s + column'
      in if j < length (scr_cells s) then setCell row column (scr_cells s ! j) s
         else s\<lparr>scr_oob := True\<rparr>)"

section \<open>Geometry\<close>

definition resize :: "int \<Rightarrow> int \<Rightarrow> screen \<Rightarrow> screen" where
  "resize newRows newColumns s =
     (if newRows \<le> 0 \<or> newColumns \<le> 0 then s
      else if newRows = int (scr_rows s) \<and> newColumns = int (scr_columns s) then s
      else
        let rows = nat newRows; columns = nat newColumns;
            copyRows = min (scr_rows s) rows; copyCols = min (scr_columns s) columns;
            next = map (\<lambda>i. if i div columns < copyRows \<and> i mod columns < copyCols
                            then scr_cells s ! (i div columns * scr_columns s + i mod columns)
                            else emptyCell) [0..<rows * columns];
            s = s\<lparr>scr_cells := next, scr_rows := rows, scr_columns := columns,
                  scr_cursorRow := min (scr_cursorRow s) (rows - 1),
                  scr_cursorColumn := min (scr_cursorColumn s) (columns - 1)\<rparr>
        in touch (scr_emit CursorMoved (scr_emit GeometryChanged s)))"

definition clear :: "screen \<Rightarrow> screen" where
  "clear s =
     touch (scr_emit CursorMoved
       (s\<lparr>scr_cells := map (\<lambda>_. emptyCell) (scr_cells s), scr_cursorRow := 0, scr_cursorColumn := 0,
          scr_pen := emptyCell\<rparr>))"

section \<open>Cursor\<close>

definition clampTo :: "int \<Rightarrow> nat \<Rightarrow> nat" where
  "clampTo v hi = nat (max 0 (min v (int hi)))"

definition setCursor :: "int \<Rightarrow> int \<Rightarrow> screen \<Rightarrow> screen" where
  "setCursor row column s =
     scr_emit CursorMoved (s\<lparr>scr_cursorRow := clampTo row (scr_rows s - 1),
                            scr_cursorColumn := clampTo column (scr_columns s - 1)\<rparr>)"

definition moveCursor :: "int \<Rightarrow> int \<Rightarrow> screen \<Rightarrow> screen" where
  "moveCursor rowDelta columnDelta s =
     setCursor (int (scr_cursorRow s) + rowDelta) (int (scr_cursorColumn s) + columnDelta) s"

definition carriageReturn :: "screen \<Rightarrow> screen" where
  "carriageReturn s = scr_emit CursorMoved (s\<lparr>scr_cursorColumn := 0\<rparr>)"

definition clearCells :: "nat \<Rightarrow> nat \<Rightarrow> nat \<Rightarrow> screen \<Rightarrow> screen" where
  "clearCells row a b s = fold (\<lambda>c. setCell row c emptyCell) [a..<b] s"

definition scrollUp :: "screen \<Rightarrow> screen" where
  "scrollUp s =
     (let s = fold (\<lambda>r. fold (\<lambda>c. copyCell r c (r + 1) c) [0..<scr_columns s]) [0..<scr_rows s - 1] s
      in clearCells (scr_rows s - 1) 0 (scr_columns s) s)"

definition lineFeed :: "screen \<Rightarrow> screen" where
  "lineFeed s =
     scr_emit CursorMoved
       (if scr_cursorRow s + 1 \<ge> scr_rows s then scrollUp s
        else s\<lparr>scr_cursorRow := scr_cursorRow s + 1\<rparr>)"

definition backspace :: "screen \<Rightarrow> screen" where
  "backspace s =
     (if scr_cursorColumn s > 0 then scr_emit CursorMoved (s\<lparr>scr_cursorColumn := scr_cursorColumn s - 1\<rparr>) else s)"

definition tab :: "screen \<Rightarrow> screen" where
  "tab s =
     (let next = (scr_cursorColumn s div 8 + 1) * 8;
          next = (if next \<ge> scr_columns s then scr_columns s - 1 else next)
      in scr_emit CursorMoved (s\<lparr>scr_cursorColumn := next\<rparr>))"

definition saveCursor :: "screen \<Rightarrow> screen" where
  "saveCursor s = s\<lparr>scr_savedRow := scr_cursorRow s, scr_savedColumn := scr_cursorColumn s\<rparr>"

definition restoreCursor :: "screen \<Rightarrow> screen" where
  "restoreCursor s = setCursor (int (scr_savedRow s)) (int (scr_savedColumn s)) s"

section \<open>Cells\<close>

definition isHighSurrogate :: "qchar \<Rightarrow> bool" where
  "isHighSurrogate c \<longleftrightarrow> c AND 0xFC00 = 0xD800"

definition isLowSurrogate :: "qchar \<Rightarrow> bool" where
  "isLowSurrogate c \<longleftrightarrow> c AND 0xFC00 = 0xDC00"

definition putCellAtCursor :: "qstring \<Rightarrow> screen \<Rightarrow> screen" where
  "putCellAtCursor fragment s =
     (case fragment of
        [] \<Rightarrow> s
      | ch # rest \<Rightarrow>
          let s = (if scr_cursorColumn s \<ge> scr_columns s then s\<lparr>scr_cursorColumn := scr_columns s - 1\<rparr> else s);
              low = (case rest of
                       [] \<Rightarrow> 0
                     | l # _ \<Rightarrow> if isHighSurrogate ch \<and> isLowSurrogate l then l else 0);
              s = setCell (scr_cursorRow s) (scr_cursorColumn s) ((scr_pen s)\<lparr>cell_ch := ch, cell_low := low\<rparr>) s;
              s = (if scr_cursorColumn s < scr_columns s - 1
                   then s\<lparr>scr_cursorColumn := scr_cursorColumn s + 1\<rparr>
                   else s\<lparr>scr_cursorColumn := scr_columns s\<rparr>)
          in scr_emit CursorMoved s)"

definition eraseInLine :: "int \<Rightarrow> screen \<Rightarrow> screen" where
  "eraseInLine mode s =
     (if mode = 0 then clearCells (scr_cursorRow s) (scr_cursorColumn s) (scr_columns s) s
      else if mode = 1 then clearCells (scr_cursorRow s) 0 (min (scr_cursorColumn s + 1) (scr_columns s)) s
      else if mode = 2 then clearCells (scr_cursorRow s) 0 (scr_columns s) s
      else s)"

definition clearRows :: "nat \<Rightarrow> nat \<Rightarrow> screen \<Rightarrow> screen" where
  "clearRows a b s = fold (\<lambda>r. clearCells r 0 (scr_columns s)) [a..<b] s"

definition eraseInDisplay :: "int \<Rightarrow> screen \<Rightarrow> screen" where
  "eraseInDisplay mode s =
     (if mode = 0 then
        clearRows (scr_cursorRow s + 1) (scr_rows s)
          (clearCells (scr_cursorRow s) (scr_cursorColumn s) (scr_columns s) s)
      else if mode = 1 then
        clearCells (scr_cursorRow s) 0 (min (scr_cursorColumn s + 1) (scr_columns s))
          (clearRows 0 (scr_cursorRow s) s)
      else clearRows 0 (scr_rows s) s)"

section \<open>Pen\<close>

definition resetAttributes :: "screen \<Rightarrow> screen" where
  "resetAttributes s = s\<lparr>scr_pen := emptyCell\<rparr>"

definition setFg :: "byte \<Rightarrow> screen \<Rightarrow> screen" where
  "setFg idx s = s\<lparr>scr_pen := (scr_pen s)\<lparr>cell_fg := idx\<rparr>\<rparr>"

definition setBg :: "byte \<Rightarrow> screen \<Rightarrow> screen" where
  "setBg idx s = s\<lparr>scr_pen := (scr_pen s)\<lparr>cell_bg := idx\<rparr>\<rparr>"

definition setAttr :: "byte \<Rightarrow> bool \<Rightarrow> screen \<Rightarrow> screen" where
  "setAttr bit_mask on s =
     s\<lparr>scr_pen := (scr_pen s)\<lparr>cell_attrs :=
        if on then cell_attrs (scr_pen s) OR bit_mask else cell_attrs (scr_pen s) AND NOT bit_mask\<rparr>\<rparr>"

section \<open>Rendering\<close>

definition upperHex :: "nat \<Rightarrow> qchar" where
  "upperHex n = (if n < 10 then of_nat (48 + n) else of_nat (55 + n))"

text \<open>\<open>snprintf("#%02X%02X%02X")\<close>.\<close>

definition hexColour :: "nat \<Rightarrow> nat \<Rightarrow> nat \<Rightarrow> qstring" where
  "hexColour r g b = 35 # concat (map (\<lambda>v. [upperHex (v div 16), upperHex (v mod 16)]) [r, g, b])"

definition kBase :: "qstring list" where
  "kBase = map qlit
     [''#0E0F12'', ''#E25555'', ''#5EE08A'', ''#E0C46C'', ''#5BB1F0'', ''#C58CF0'', ''#5EE0D8'', ''#C8CBD1'',
      ''#3A3D45'', ''#FF7878'', ''#7CF4A8'', ''#FFD888'', ''#7DC8FF'', ''#D9A8FF'', ''#7CFFF4'', ''#FFFFFF'']"

definition kSteps :: "nat list" where
  "kSteps = [0, 95, 135, 175, 215, 255]"

definition palette :: "byte \<Rightarrow> qstring" where
  "palette idx =
     (let i = unat idx
      in if i < 16 then kBase ! i
         else if i < 232 then
           let k = i - 16 in hexColour (kSteps ! (k div 36)) (kSteps ! (k div 6 mod 6)) (kSteps ! (k mod 6))
         else let v = 8 + (i - 232) * 10 in hexColour v v v)"

definition escapeHtml :: "Cell \<Rightarrow> qstring" where
  "escapeHtml c =
     (if cell_low c \<noteq> 0 then [cell_ch c, cell_low c]
      else if cell_ch c = 60 then qlit ''&lt;''
      else if cell_ch c = 62 then qlit ''&gt;''
      else if cell_ch c = 38 then qlit ''&amp;''
      else if cell_ch c = 32 then qlit ''&nbsp;''
      else [cell_ch c])"

definition runStyles :: "Cell \<Rightarrow> qstring" where
  "runStyles c0 =
     (let rev = (cell_attrs c0 AND AttrReverse \<noteq> 0);
          fgIdx = (if rev then cell_bg c0 else cell_fg c0);
          bgIdx = (if rev then cell_fg c0 else cell_bg c0)
      in (if fgIdx \<noteq> 0xFF then qlit ''color:'' @ palette fgIdx @ qlit '';'' else [])
         @ (if bgIdx \<noteq> 0xFF then qlit ''background-color:'' @ palette bgIdx @ qlit '';'' else [])
         @ (if cell_attrs c0 AND AttrBold \<noteq> 0 then qlit ''font-weight:bold;'' else [])
         @ (if cell_attrs c0 AND AttrUnderline \<noteq> 0 then qlit ''text-decoration:underline;'' else []))"

text \<open>A QString literal that contains double quotes: 34 is the quote.\<close>

definition spanOpen :: "qstring \<Rightarrow> qstring" where
  "spanOpen styles = qlit ''<span style='' @ [34] @ styles @ [34] @ qlit ''>''"

definition flushRun :: "Cell list \<Rightarrow> qstring" where
  "flushRun cells =
     (case cells of
        [] \<Rightarrow> []
      | c0 # _ \<Rightarrow>
          let styles = runStyles c0
          in (if styles \<noteq> [] then spanOpen styles else [])
             @ concat (map escapeHtml cells)
             @ (if styles \<noteq> [] then qlit ''</span>'' else []))"

definition sameRun :: "Cell \<Rightarrow> Cell \<Rightarrow> bool" where
  "sameRun x y \<longleftrightarrow> cell_fg x = cell_fg y \<and> cell_bg x = cell_bg y \<and> cell_attrs x = cell_attrs y"

text \<open>The loop over the columns: the cells of the run so far, and those to come.\<close>

fun lineLoop :: "Cell list \<Rightarrow> Cell list \<Rightarrow> qstring" where
  "lineLoop run [] = flushRun run"
| "lineLoop run (c # cs) =
     (if run = [] \<or> sameRun (hd run) c then lineLoop (run @ [c]) cs else flushRun run @ lineLoop [c] cs)"

definition lineHtml :: "int \<Rightarrow> screen \<Rightarrow> qstring" where
  "lineHtml row s =
     (if row < 0 \<or> row \<ge> int (scr_rows s) then []
      else lineLoop [] (mid (scr_cells s) (nat row * scr_columns s) (scr_columns s)))"

section \<open>The grid invariant\<close>

definition cell_ok :: "Cell \<Rightarrow> bool" where
  "cell_ok c \<longleftrightarrow> (cell_low c \<noteq> 0 \<longrightarrow> isHighSurrogate (cell_ch c) \<and> isLowSurrogate (cell_low c))"

definition grid_inv :: "screen \<Rightarrow> bool" where
  "grid_inv s \<longleftrightarrow> 0 < scr_rows s \<and> 0 < scr_columns s \<and> scr_cursorRow s < scr_rows s
     \<and> scr_cursorColumn s \<le> scr_columns s \<and> length (scr_cells s) = scr_rows s * scr_columns s
     \<and> (\<forall>c \<in> set (scr_cells s). cell_ok c) \<and> \<not> scr_oob s"

lemma cell_ok_empty [simp]: "cell_ok emptyCell"
  by (simp add: cell_ok_def emptyCell_def)

lemma index_bound:
  assumes "r < rows" and "c < columns"
  shows "r * columns + c < rows * (columns :: nat)"
proof -
  have "r * columns + c < Suc r * columns"
    using assms(2) by simp
  also have "\<dots> \<le> rows * columns"
    using assms(1) by (intro mult_le_mono1) simp
  finally show ?thesis .
qed

lemma grid_inv_emit [simp]: "grid_inv (scr_emit x s) = grid_inv s"
  by (simp add: grid_inv_def scr_emit_def)

lemma grid_inv_touch [simp]: "grid_inv (touch s) = grid_inv s"
  by (simp add: touch_def) (simp add: grid_inv_def)

lemma setCell_fields [simp]:
  "scr_rows (setCell r c x s) = scr_rows s" "scr_columns (setCell r c x s) = scr_columns s"
  "scr_cursorRow (setCell r c x s) = scr_cursorRow s" "scr_cursorColumn (setCell r c x s) = scr_cursorColumn s"
  by (simp_all add: setCell_def Let_def)

lemma setCell_in: "grid_inv s \<Longrightarrow> r < scr_rows s \<Longrightarrow> c < scr_columns s \<Longrightarrow>
    setCell r c x s = s\<lparr>scr_cells := (scr_cells s)[r * scr_columns s + c := x]\<rparr>"
  by (simp add: setCell_def grid_inv_def index_bound Let_def)

lemma setCell_inv:
  assumes "grid_inv s" and "r < scr_rows s" and "c < scr_columns s" and "cell_ok x"
  shows "grid_inv (setCell r c x s)"
  using assms set_update_subset_insert [of "scr_cells s" "r * scr_columns s + c" x]
  by (auto simp: setCell_in) (auto simp: grid_inv_def)

lemma copyCell_in:
  assumes "grid_inv s" and "r < scr_rows s" and "c < scr_columns s" and "r' < scr_rows s" and "c' < scr_columns s"
  shows "copyCell r c r' c' s
           = s\<lparr>scr_cells := (scr_cells s)[r * scr_columns s + c := scr_cells s ! (r' * scr_columns s + c')]\<rparr>"
proof -
  have "r' * scr_columns s + c' < length (scr_cells s)"
    using assms index_bound [of r' "scr_rows s" c'] by (simp add: grid_inv_def)
  then show ?thesis
    using assms by (simp add: copyCell_def setCell_in Let_def)
qed

lemma copyCell_inv:
  assumes "grid_inv s" and "r < scr_rows s" and "c < scr_columns s" and "r' < scr_rows s" and "c' < scr_columns s"
  shows "grid_inv (copyCell r c r' c' s)"
proof -
  have "r' * scr_columns s + c' < length (scr_cells s)"
    using assms index_bound [of r' "scr_rows s" c'] by (simp add: grid_inv_def)
  then have "cell_ok (scr_cells s ! (r' * scr_columns s + c'))"
    using assms(1) by (simp add: grid_inv_def)
  then show ?thesis
    using setCell_inv [OF assms(1-3)] assms by (simp add: copyCell_in setCell_in)
qed

text \<open>A loop over columns or rows keeps what each of its iterations keeps.\<close>

lemma fold_keeps:
  assumes "P s" and "\<And>i t. i \<in> set is \<Longrightarrow> P t \<Longrightarrow> P (f i t)"
  shows "P (fold f is s)"
  using assms by (induction "is" arbitrary: s) auto

definition same_shape :: "screen \<Rightarrow> screen \<Rightarrow> bool" where
  "same_shape s t \<longleftrightarrow> grid_inv t \<and> scr_rows t = scr_rows s \<and> scr_columns t = scr_columns s
     \<and> scr_cursorRow t = scr_cursorRow s \<and> scr_cursorColumn t = scr_cursorColumn s"

lemma clearCells_shape:
  assumes "same_shape u s" and "r < scr_rows u" and "b \<le> scr_columns u"
  shows "same_shape u (clearCells r a b s)"
  unfolding clearCells_def using assms
  by (intro fold_keeps [where P = "same_shape u"]) (auto simp: same_shape_def setCell_inv)

lemma clearRows_shape:
  assumes "same_shape u s" and "b \<le> scr_rows u"
  shows "same_shape u (clearRows a b s)"
proof -
  have "scr_columns s = scr_columns u" using assms(1) by (simp add: same_shape_def)
  then show ?thesis
    unfolding clearRows_def using assms
    by (intro fold_keeps [where P = "same_shape u"]) (auto intro: clearCells_shape)
qed

lemma copyCell_shape:
  assumes "same_shape u s" and "r < scr_rows u" and "c < scr_columns u" and "r' < scr_rows u" and "c' < scr_columns u"
  shows "same_shape u (copyCell r c r' c' s)"
  using assms copyCell_inv [of s r c r' c'] by (auto simp: same_shape_def copyCell_in)

lemma scrollUp_shape:
  assumes "grid_inv s"
  shows "same_shape s (scrollUp s)"
proof -
  define t where "t = fold (\<lambda>r. fold (\<lambda>c. copyCell r c (r + 1) c) [0..<scr_columns s]) [0..<scr_rows s - 1] s"
  have s: "same_shape s s" using assms by (simp add: same_shape_def)
  have t: "same_shape s t"
    unfolding t_def by (intro fold_keeps [where P = "same_shape s"] s copyCell_shape) auto
  then have "scr_rows t = scr_rows s" "scr_columns t = scr_columns s" "0 < scr_rows s"
    by (auto simp: same_shape_def grid_inv_def)
  then have "same_shape s (clearCells (scr_rows t - 1) 0 (scr_columns t) t)"
    by (intro clearCells_shape t) auto
  then show ?thesis
    by (simp only: scrollUp_def Let_def t_def)
qed


text \<open>Operations that move the cursor or touch the pen only.\<close>

lemma clampTo_bound: "clampTo v hi \<le> hi"
  by (auto simp: clampTo_def)

lemma setCursor_inv [simp]:
  assumes "grid_inv s"
  shows "grid_inv (setCursor row column s)"
proof -
  have "clampTo row (scr_rows s - 1) < scr_rows s" "clampTo column (scr_columns s - 1) \<le> scr_columns s"
    using assms clampTo_bound [of row "scr_rows s - 1"] clampTo_bound [of column "scr_columns s - 1"]
    by (auto simp: grid_inv_def)
  then show ?thesis
    using assms unfolding setCursor_def grid_inv_emit by (simp add: grid_inv_def)
qed

lemma moveCursor_inv [simp]: "grid_inv s \<Longrightarrow> grid_inv (moveCursor a b s)"
  by (simp add: moveCursor_def)

lemma restoreCursor_inv [simp]: "grid_inv s \<Longrightarrow> grid_inv (restoreCursor s)"
  by (simp add: restoreCursor_def)

lemma saveCursor_inv [simp]: "grid_inv (saveCursor s) = grid_inv s"
  by (simp add: saveCursor_def grid_inv_def)

lemma carriageReturn_inv [simp]: "grid_inv s \<Longrightarrow> grid_inv (carriageReturn s)"
  unfolding carriageReturn_def grid_inv_emit by (simp add: grid_inv_def)

lemma backspace_inv [simp]: "grid_inv s \<Longrightarrow> grid_inv (backspace s)"
  by (simp add: backspace_def) (auto simp: grid_inv_def)

lemma tab_inv [simp]: "grid_inv s \<Longrightarrow> grid_inv (tab s)"
  by (simp add: tab_def Let_def) (auto simp: grid_inv_def)

lemma pen_inv [simp]:
  "grid_inv (resetAttributes s) = grid_inv s" "grid_inv (setFg i s) = grid_inv s"
  "grid_inv (setBg i s) = grid_inv s" "grid_inv (setAttr m on s) = grid_inv s"
  by (simp_all add: resetAttributes_def setFg_def setBg_def setAttr_def grid_inv_def)

text \<open>Operations that write cells.\<close>

lemma same_shape_refl [simp]: "same_shape s s = grid_inv s"
  by (simp add: same_shape_def)

lemma same_shape_inv: "same_shape s t \<Longrightarrow> grid_inv t"
  by (simp add: same_shape_def)

lemma lineFeed_inv [simp]: "grid_inv s \<Longrightarrow> grid_inv (lineFeed s)"
  using same_shape_inv [OF scrollUp_shape, of s]
  by (simp add: lineFeed_def) (simp add: grid_inv_def)

lemma cursorRow_bound: "grid_inv s \<Longrightarrow> scr_cursorRow s < scr_rows s"
  by (simp add: grid_inv_def)

lemma eraseInLine_shape: "grid_inv s \<Longrightarrow> same_shape s (eraseInLine mode s)"
  using cursorRow_bound [of s] by (simp add: eraseInLine_def clearCells_shape)

lemma eraseInDisplay_shape: "grid_inv s \<Longrightarrow> same_shape s (eraseInDisplay mode s)"
  using cursorRow_bound [of s] by (simp add: eraseInDisplay_def clearCells_shape clearRows_shape)

lemmas erase_inv [simp] = eraseInLine_shape [THEN same_shape_inv] eraseInDisplay_shape [THEN same_shape_inv]

lemma putCellAtCursor_inv [simp]:
  assumes "grid_inv s"
  shows "grid_inv (putCellAtCursor fragment s)"
proof (cases fragment)
  case (Cons ch rest)
  define low where
    "low = (case rest of [] \<Rightarrow> 0 | l # _ \<Rightarrow> if isHighSurrogate ch \<and> isLowSurrogate l then l else 0)"
  define t where
    "t = (if scr_cursorColumn s \<ge> scr_columns s then s\<lparr>scr_cursorColumn := scr_columns s - 1\<rparr> else s)"
  define c where "c = (scr_pen t)\<lparr>cell_ch := ch, cell_low := low\<rparr>"
  have t: "grid_inv t" "scr_cursorRow t < scr_rows t" "scr_cursorColumn t < scr_columns t"
    using assms by (auto simp: t_def grid_inv_def)
  have "cell_ok c"
    by (auto simp: c_def cell_ok_def low_def split: list.splits if_splits)
  then have "grid_inv (setCell (scr_cursorRow t) (scr_cursorColumn t) c t)"
    by (intro setCell_inv t)
  then show ?thesis
    unfolding putCellAtCursor_def Cons Let_def list.case t_def [symmetric] low_def [symmetric] c_def [symmetric]
      grid_inv_emit
    by (auto simp: grid_inv_def)
qed (use assms in \<open>simp add: putCellAtCursor_def\<close>)

lemma clear_inv [simp]: "grid_inv s \<Longrightarrow> grid_inv (clear s)"
  by (simp add: clear_def) (auto simp: grid_inv_def)

lemma resized_cell_ok:
  assumes "grid_inv s" and "r < scr_rows s" and "c < scr_columns s"
  shows "cell_ok (scr_cells s ! (r * scr_columns s + c))"
  using assms index_bound [OF assms(2,3)] by (simp add: grid_inv_def)

lemma resize_inv [simp]:
  assumes "grid_inv s"
  shows "grid_inv (resize newRows newColumns s)"
proof (cases "newRows \<le> 0 \<or> newColumns \<le> 0 \<or> newRows = int (scr_rows s) \<and> newColumns = int (scr_columns s)")
  case True
  then show ?thesis using assms by (auto simp: resize_def)
next
  case False
  then show ?thesis
    using assms resized_cell_ok [OF assms]
    unfolding resize_def Let_def
    by (auto simp: grid_inv_def touch_def scr_emit_def)
qed

lemma newScreen_inv: "grid_inv newScreen"
  by (simp add: grid_inv_def newScreen_def)

section \<open>Contents\<close>

text \<open>Resizing the console keeps every character that is inside both geometries at its row and
  column, and every other cell of the new grid is blank.
\<close>

theorem resize_keeps_content:
  assumes "grid_inv s" and "0 < R" and "0 < C" and "0 \<le> r" and "r < R" and "0 \<le> c" and "c < C"
  shows "cellAt r c (resize R C s) = cellAt r c s"
proof (cases "R = int (scr_rows s) \<and> C = int (scr_columns s)")
  case False
  define i where "i = nat r * nat C + nat c"
  define nx where "nx = (\<lambda>i. if i div nat C < min (scr_rows s) (nat R) \<and> i mod nat C < min (scr_columns s) (nat C)
                                 then scr_cells s ! (i div nat C * scr_columns s + i mod nat C) else emptyCell)"
  have cells: "scr_cells (resize R C s) = map nx [0..<nat R * nat C]"
      "scr_rows (resize R C s) = nat R" "scr_columns (resize R C s) = nat C"
    using assms(2,3) False by (auto simp: resize_def Let_def touch_def scr_emit_def nx_def)
  have "nat c < nat C" "nat r < nat R" using assms by auto
  then have "i < nat R * nat C" "i div nat C = nat r" "i mod nat C = nat c"
    by (auto simp: i_def index_bound)
  then have "cellAt r c (resize R C s) = nx i"
    using assms by (simp add: cellAt_def cells i_def)
  also have "\<dots> = cellAt r c s"
    using assms \<open>i div nat C = nat r\<close> \<open>i mod nat C = nat c\<close> by (auto simp: nx_def cellAt_def)
  finally show ?thesis .
qed (use assms in \<open>simp add: resize_def\<close>)

theorem resize_keeps_content_witness:
  "cellAt 1 2 (resize 30 3 newScreen) = cellAt 1 2 newScreen"
  by (rule resize_keeps_content [OF newScreen_inv]) simp_all

text \<open>
  The loops over cells, in closed form: a range of the row-major vector is blanked, and scrolling
  shifts the vector by one row.
\<close>

definition blanked :: "nat \<Rightarrow> nat \<Rightarrow> Cell list \<Rightarrow> Cell list" where
  "blanked i j xs = take i xs @ replicate (j - i) emptyCell @ drop j xs"

lemma length_blanked [simp]: "i \<le> j \<Longrightarrow> j \<le> length xs \<Longrightarrow> length (blanked i j xs) = length xs"
  by (simp add: blanked_def)

lemma blanked_self [simp]: "blanked i i xs = xs"
  by (simp add: blanked_def)

lemma blanked_Suc:
  assumes "i \<le> j" and "j < length xs"
  shows "(blanked i j xs)[j := emptyCell] = blanked i (Suc j) xs"
proof -
  have "drop j xs = xs ! j # drop (Suc j) xs" using assms(2) by (rule Cons_nth_drop_Suc [symmetric])
  then show ?thesis
    using assms by (simp add: blanked_def list_update_append Suc_diff_le replicate_append_same flip: replicate_Suc)
qed

lemma blanked_join: "i \<le> j \<Longrightarrow> j \<le> k \<Longrightarrow> k \<le> length xs \<Longrightarrow> blanked j k (blanked i j xs) = blanked i k xs"
  by (simp add: blanked_def flip: replicate_add)

lemma clearCells_blank:
  assumes "grid_inv s" and "r < scr_rows s" and "a \<le> b" and "b \<le> scr_columns s"
  shows "clearCells r a b s = s\<lparr>scr_cells := blanked (r * scr_columns s + a) (r * scr_columns s + b) (scr_cells s)\<rparr>"
  using assms(3,4)
proof (induction b rule: dec_induct)
  case base
  then show ?case by (simp add: clearCells_def)
next
  case (step b)
  have i: "r * scr_columns s + b < length (scr_cells s)"
    using assms(1,2) step index_bound [of r "scr_rows s" b "scr_columns s"] by (simp add: grid_inv_def)
  have "clearCells r a (Suc b) s = setCell r b emptyCell (clearCells r a b s)"
    using step by (simp add: clearCells_def)
  then show ?case
    using step i by (simp add: setCell_def Let_def blanked_Suc)
qed

lemma clearRows_blank:
  assumes "grid_inv s" and "a \<le> b" and "b \<le> scr_rows s"
  shows "clearRows a b s = s\<lparr>scr_cells := blanked (a * scr_columns s) (b * scr_columns s) (scr_cells s)\<rparr>"
  using assms(2,3)
proof (induction b rule: dec_induct)
  case base
  then show ?case by (simp add: clearRows_def)
next
  case (step b)
  define t where "t = clearRows a b s"
  have t: "t = s\<lparr>scr_cells := blanked (a * scr_columns s) (b * scr_columns s) (scr_cells s)\<rparr>"
    using step by (simp add: t_def)
  have "same_shape s t" unfolding t_def by (rule clearRows_shape) (use assms(1) step in auto)
  then have inv: "grid_inv t" by (rule same_shape_inv)
  have len: "a * scr_columns s \<le> b * scr_columns s" "b * scr_columns s + scr_columns s \<le> length (scr_cells s)"
    using assms(1) step mult_le_mono1 [of "Suc b" "scr_rows s" "scr_columns s"]
    by (auto simp: grid_inv_def mult_le_mono1)
  have "clearRows a (Suc b) s = clearCells b 0 (scr_columns s) t"
    using step by (simp add: clearRows_def t_def)
  also have "\<dots> = t\<lparr>scr_cells := blanked (b * scr_columns s) (b * scr_columns s + scr_columns s) (scr_cells t)\<rparr>"
    using clearCells_blank [OF inv, of b 0 "scr_columns s"] step by (simp add: t)
  also have "\<dots> = s\<lparr>scr_cells := blanked (a * scr_columns s) (Suc b * scr_columns s) (scr_cells s)\<rparr>"
    using len by (simp add: t blanked_join add.commute)
  finally show ?case .
qed

text \<open>ED (erase in display) blanks a contiguous range of the row-major grid: from the cursor to
  the end, from the start through the cursor, or everything. It changes nothing else, neither
  cursor nor pen nor geometry.
\<close>

theorem eraseInDisplay_range:
  assumes "grid_inv s"
  shows "eraseInDisplay mode s =
     s\<lparr>scr_cells :=
         (if mode = 0
          then blanked (scr_cursorRow s * scr_columns s + scr_cursorColumn s) (length (scr_cells s)) (scr_cells s)
          else if mode = 1
          then blanked 0 (scr_cursorRow s * scr_columns s + min (scr_cursorColumn s + 1) (scr_columns s)) (scr_cells s)
          else replicate (length (scr_cells s)) emptyCell)\<rparr>"
proof -
  define n r c where "n = scr_columns s" and "r = scr_cursorRow s" and "c = scr_cursorColumn s"
  have b: "r < scr_rows s" "c \<le> n" "length (scr_cells s) = scr_rows s * n"
    using assms by (auto simp: grid_inv_def n_def r_def c_def)
  have m: "r * n + n \<le> scr_rows s * n"
    using mult_le_mono1 [of "Suc r" "scr_rows s" n] b(1) by simp
  have sub: "blanked 0 (length (scr_cells s)) (scr_cells s) = replicate (length (scr_cells s)) emptyCell"
    by (simp add: blanked_def)
  consider "mode = 0" | "mode = 1" | "mode \<noteq> 0" "mode \<noteq> 1" by blast
  then show ?thesis
  proof cases
    case 1
    define t where "t = clearCells r c n s"
    have t: "t = s\<lparr>scr_cells := blanked (r * n + c) (r * n + n) (scr_cells s)\<rparr>" "grid_inv t"
      using clearCells_blank [OF assms, of r c n] b same_shape_inv [OF clearCells_shape, of s s r n c] assms
      by (auto simp: t_def n_def)
    have "eraseInDisplay mode s = clearRows (r + 1) (scr_rows s) t"
      using 1 by (simp add: eraseInDisplay_def t_def r_def c_def n_def)
    also have "\<dots> = t\<lparr>scr_cells := blanked (r * n + n) (scr_rows s * n) (scr_cells t)\<rparr>"
      using clearRows_blank [OF t(2), of "r + 1" "scr_rows s"] b t(1) by (simp add: add.commute n_def)
    finally show ?thesis
      using 1 b m by (simp add: t(1) blanked_join flip: n_def r_def c_def)
  next
    case 2
    define t where "t = clearRows 0 r s"
    have t: "t = s\<lparr>scr_cells := blanked 0 (r * n) (scr_cells s)\<rparr>" "grid_inv t"
      using clearRows_blank [OF assms, of 0 r] b same_shape_inv [OF clearRows_shape, of s s r 0] assms
      by (auto simp: t_def n_def)
    have "eraseInDisplay mode s = clearCells r 0 (min (c + 1) n) t"
      using 2 t(1) by (simp add: eraseInDisplay_def t_def r_def c_def n_def)
    also have "\<dots> = t\<lparr>scr_cells := blanked (r * n) (r * n + min (c + 1) n) (scr_cells t)\<rparr>"
      using clearCells_blank [OF t(2), of r 0 "min (c + 1) n"] b t(1) by (simp add: n_def)
    finally show ?thesis
      using 2 b m by (simp add: t(1) blanked_join flip: n_def r_def c_def)
  next
    case 3
    then show ?thesis
      using clearRows_blank [OF assms, of 0 "scr_rows s"] b sub by (simp add: eraseInDisplay_def n_def)
  qed
qed

theorem eraseInDisplay_range_witness:
  "eraseInDisplay 2 newScreen = newScreen\<lparr>scr_cells := replicate (24 * 80) emptyCell\<rparr>"
  using eraseInDisplay_range [OF newScreen_inv, of 2] by (simp add: newScreen_def)

text \<open>The first \<open>k\<close> cells replaced by the cells one row further down.\<close>

definition shifted :: "nat \<Rightarrow> nat \<Rightarrow> Cell list \<Rightarrow> Cell list" where
  "shifted n k xs = take k (drop n xs) @ drop k xs"

lemma shifted_Suc:
  assumes "k + n < length xs"
  shows "(shifted n k xs)[k := shifted n k xs ! (k + n)] = shifted n (Suc k) xs"
proof -
  have "take (Suc k) (drop n xs) = take k (drop n xs) @ [xs ! (n + k)]"
    using assms by (simp add: take_Suc_conv_app_nth)
  moreover have "drop k xs = xs ! k # drop (Suc k) xs"
    using assms by (intro Cons_nth_drop_Suc [symmetric]) simp
  moreover have "shifted n k xs ! (k + n) = xs ! (n + k)"
    using assms by (simp add: shifted_def nth_append min_def add.commute)
  moreover have "length (take k (drop n xs)) = k" using assms by simp
  ultimately show ?thesis
    by (simp add: shifted_def list_update_append)
qed

lemma length_shifted [simp]: "k + n \<le> length xs \<Longrightarrow> length (shifted n k xs) = length xs"
  by (auto simp: shifted_def min_def)

lemma copyCell_shift:
  assumes "grid_inv s" and "Suc r < scr_rows s" and "c < scr_columns s"
  defines "n \<equiv> scr_columns s"
  shows "copyCell r c (r + 1) c (s\<lparr>scr_cells := shifted n (r * n + c) (scr_cells s)\<rparr>)
           = s\<lparr>scr_cells := shifted n (Suc (r * n + c)) (scr_cells s)\<rparr>"
proof -
  have "Suc r * n + c < length (scr_cells s)"
    using assms index_bound [of "Suc r" "scr_rows s" c n] by (simp add: grid_inv_def)
  then have i: "r * n + c + n < length (scr_cells s)" by simp
  show ?thesis
    using i shifted_Suc [OF i] by (simp add: copyCell_def setCell_def Let_def add.commute add.left_commute flip: n_def)
qed

lemma copyRow_shift:
  assumes "grid_inv s" and "Suc r < scr_rows s" and "m \<le> scr_columns s"
  defines "n \<equiv> scr_columns s"
  shows "fold (\<lambda>c. copyCell r c (r + 1) c) [0..<m] (s\<lparr>scr_cells := shifted n (r * n) (scr_cells s)\<rparr>)
           = s\<lparr>scr_cells := shifted n (r * n + m) (scr_cells s)\<rparr>"
  using assms(3)
proof (induction m)
  case (Suc m)
  then show ?case
    using copyCell_shift [OF assms(1,2), of m] by (simp add: n_def)
qed simp

lemma copyRows_shift:
  assumes "grid_inv s" and "m < scr_rows s"
  defines "n \<equiv> scr_columns s"
  shows "fold (\<lambda>r. fold (\<lambda>c. copyCell r c (r + 1) c) [0..<n]) [0..<m] s
           = s\<lparr>scr_cells := shifted n (m * n) (scr_cells s)\<rparr>"
  using assms(2)
proof (induction m)
  case 0
  then show ?case by (simp add: shifted_def)
next
  case (Suc m)
  then show ?case
    using copyRow_shift [OF assms(1), of m n] by (simp add: n_def add.commute)
qed

lemma scrollUp_shift:
  assumes "grid_inv s"
  shows "scrollUp s = s\<lparr>scr_cells := drop (scr_columns s) (scr_cells s) @ replicate (scr_columns s) emptyCell\<rparr>"
proof -
  define n R where "n = scr_columns s" and "R = scr_rows s - 1"
  have "scr_rows s = Suc R" using assms by (simp add: grid_inv_def R_def)
  with assms have R: "scr_rows s = Suc R" "length (scr_cells s) = R * n + n"
    by (auto simp: grid_inv_def n_def)
  define t where "t = s\<lparr>scr_cells := shifted n (R * n) (scr_cells s)\<rparr>"
  have copied: "fold (\<lambda>r. fold (\<lambda>c. copyCell r c (r + 1) c) [0..<n]) [0..<R] s = t"
    using copyRows_shift [OF assms, of R] R by (simp add: t_def n_def)
  have "same_shape s t"
    unfolding copied [symmetric] using assms R
    by (intro fold_keeps [where P = "same_shape s"] copyCell_shape) (auto simp: n_def)
  then have "grid_inv t" by (rule same_shape_inv)
  have "scrollUp s = clearCells R 0 n t"
    using copied by (simp add: scrollUp_def R_def n_def t_def)
  also have "\<dots> = t\<lparr>scr_cells := blanked (R * n) (R * n + n) (scr_cells t)\<rparr>"
    using clearCells_blank [OF \<open>grid_inv t\<close>, of R 0 n] R by (simp add: t_def n_def)
  finally show ?thesis
    using R by (simp add: t_def blanked_def shifted_def flip: n_def)
qed

text \<open>A line feed above the bottom row moves the cursor down and touches no cell; on the bottom
  row the cursor stays and the grid scrolls: the top row is dropped, every other row moves up
  by one, and the new bottom row is blank.
\<close>

theorem lineFeed_scrolls:
  assumes "grid_inv s"
  shows "lineFeed s = scr_emit CursorMoved
     (if scr_cursorRow s + 1 < scr_rows s then s\<lparr>scr_cursorRow := scr_cursorRow s + 1\<rparr>
      else s\<lparr>scr_cells := drop (scr_columns s) (scr_cells s) @ replicate (scr_columns s) emptyCell\<rparr>)"
  using assms by (auto simp: lineFeed_def scrollUp_shift)

theorem lineFeed_scrolls_witness:
  "scr_cells (lineFeed (resize 1 2 newScreen)) = [emptyCell, emptyCell]
     \<and> scr_cursorRow (lineFeed (resize 3 2 newScreen)) = 1"
  using lineFeed_scrolls [OF resize_inv [OF newScreen_inv], of 1 2]
    lineFeed_scrolls [OF resize_inv [OF newScreen_inv], of 3 2]
  by (simp add: resize_def newScreen_def touch_def scr_emit_def numeral_2_eq_2)

section \<open>Reading the rendered row back\<close>

text \<open>
  What an HTML reader makes of a rendered row: the characters it shows, each with the style of the spans around it. The reader
  knows \<open>span\<close> elements with a style and the four entities, and refuses any other markup, an end tag without a start tag, and
  a row that ends inside a tag or inside a span. \<open>open\<close> is the stack of the styles of the spans it is in.
\<close>

definition entity :: "qstring \<Rightarrow> qchar option" where
  "entity name =
     (if name = qlit ''lt'' then Some 60 else if name = qlit ''gt'' then Some 62
      else if name = qlit ''amp'' then Some 38 else if name = qlit ''nbsp'' then Some 160 else None)"

definition spanStyle :: "qstring \<Rightarrow> qstring option" where
  "spanStyle tag =
     (let quoted = drop 12 tag
      in if take 12 tag = qlit ''span style='' @ [34] \<and> quoted \<noteq> [] \<and> List.last quoted = 34 \<and> 34 \<notin> set (butlast quoted)
         then Some (butlast quoted) else None)"

function html_read :: "qstring list \<Rightarrow> qstring \<Rightarrow> (qstring \<times> qchar) list option" where
  "html_read spans [] = (if spans = [] then Some [] else None)"
| "html_read spans (c # cs) =
     (if c = 60 then
        let tag = takeWhile (\<lambda>x. x \<noteq> 62) cs; rest = dropWhile (\<lambda>x. x \<noteq> 62) cs
        in if rest = [] then None
           else if tag = qlit ''/span'' then (if spans = [] then None else html_read (tl spans) (tl rest))
           else (case spanStyle tag of None \<Rightarrow> None | Some style \<Rightarrow> html_read (style # spans) (tl rest))
      else if c = 38 then
        let name = takeWhile (\<lambda>x. x \<noteq> 59) cs; rest = dropWhile (\<lambda>x. x \<noteq> 59) cs
        in if rest = [] then None
           else (case entity name of None \<Rightarrow> None | Some ch \<Rightarrow> map_option (Cons (concat (rev spans), ch)) (html_read spans (tl rest)))
      else map_option (Cons (concat (rev spans), c)) (html_read spans cs))"
  by pat_completeness auto
termination
  by (relation "measure (\<lambda>(spans, cs). length cs)")
    (auto simp: less_Suc_eq_le intro: le_trans [OF diff_le_self length_dropWhile_le])

declare html_read.simps(2) [simp del]

definition cellText :: "Cell \<Rightarrow> qstring" where
  "cellText c = (if cell_low c \<noteq> 0 then [cell_ch c, cell_low c] else if cell_ch c = 32 then [160] else [cell_ch c])"

text \<open>Inside the spans given, the markup \<open>w\<close> shows \<open>ts\<close> and leaves the reader in the same spans.\<close>

definition reads_as :: "qstring list \<Rightarrow> qstring \<Rightarrow> (qstring \<times> qchar) list \<Rightarrow> bool" where
  "reads_as spans w ts \<longleftrightarrow> (\<forall>rest. html_read spans (w @ rest) = map_option (\<lambda>us. ts @ us) (html_read spans rest))"

lemma reads_as_Nil: "reads_as spans [] []"
  by (simp add: reads_as_def option.map_ident)

lemma reads_as_append: "reads_as spans v ts \<Longrightarrow> reads_as spans w us \<Longrightarrow> reads_as spans (v @ w) (ts @ us)"
  by (simp add: reads_as_def option.map_comp comp_def)

lemma reads_as_concat:
  "(\<And>x. x \<in> set xs \<Longrightarrow> reads_as spans (f x) (g x)) \<Longrightarrow> reads_as spans (concat (map f xs)) (concat (map g xs))"
  by (induction xs) (auto intro: reads_as_Nil reads_as_append)

lemma scan_until:
  assumes "a \<notin> set w"
  shows "dropWhile (\<lambda>x. x \<noteq> a) (w @ a # r) = a # r" "takeWhile (\<lambda>x. x \<noteq> a) (w @ a # r) = w"
  using assms by (induction w) auto

lemma spanStyle_attr:
  assumes "34 \<notin> set style"
  shows "spanStyle (qlit ''span style='' @ [34] @ style @ [34]) = Some style"
proof -
  have "take 12 (qlit ''span style='' @ [34] @ style @ [34]) = qlit ''span style='' @ [34]"
    "drop 12 (qlit ''span style='' @ [34] @ style @ [34]) = style @ [34]" by (simp_all add: qlit_def)
  then show ?thesis using assms by (simp add: spanStyle_def Let_def)
qed

lemma reads_as_span:
  assumes "34 \<notin> set style" and "62 \<notin> set style" and "reads_as (style # spans) w ts"
  shows "reads_as spans (spanOpen style @ w @ qlit ''</span>'') ts"
proof -
  have open_tag: "html_read spans (spanOpen style @ r) = html_read (style # spans) r" for r
  proof -
    let ?tag = "qlit ''span style='' @ [34] @ style @ [34]"
    have "62 \<notin> set ?tag" using assms(2) by (simp add: qlit_def)
    moreover have "?tag \<noteq> qlit ''/span''" by (simp add: qlit_def)
    moreover have "spanOpen style @ r = 60 # ?tag @ 62 # r" by (simp add: spanOpen_def qlit_def)
    ultimately show ?thesis
      using spanStyle_attr [OF assms(1)] scan_until [of 62 ?tag r] by (simp only: html_read.simps(2) Let_def) simp
  qed
  have close_tag: "html_read (style # spans) (qlit ''</span>'' @ r) = html_read spans r" for r
  proof -
    have "62 \<notin> set (qlit ''/span'')" "qlit ''</span>'' @ r = 60 # qlit ''/span'' @ 62 # r" by (simp_all add: qlit_def)
    then show ?thesis using scan_until [of 62 "qlit ''/span''" r] by (simp only: html_read.simps(2) Let_def) simp
  qed
  show ?thesis
    using assms(3) by (simp add: reads_as_def open_tag close_tag)
qed

lemma reads_as_entity:
  assumes "59 \<notin> set w" and "entity w = Some ch"
  shows "reads_as spans (38 # w @ [59]) [(concat (rev spans), ch)]"
  using assms by (simp add: reads_as_def html_read.simps(2) scan_until)

lemma reads_as_char: "c \<noteq> 60 \<Longrightarrow> c \<noteq> 38 \<Longrightarrow> reads_as spans [c] [(concat (rev spans), c)]"
  by (simp add: reads_as_def html_read.simps(2))

lemma surrogate_not_special:
  "isHighSurrogate c \<Longrightarrow> c \<noteq> 60 \<and> c \<noteq> 38" "isLowSurrogate c \<Longrightarrow> c \<noteq> 60 \<and> c \<noteq> 38"
  by (auto simp: isHighSurrogate_def isLowSurrogate_def)

lemma reads_as_cell:
  assumes "cell_ok c"
  shows "reads_as spans (escapeHtml c) (map (Pair (concat (rev spans))) (cellText c))"
proof (cases "cell_low c = 0")
  case True
  then show ?thesis
    using reads_as_entity [of "qlit ''lt''" 60] reads_as_entity [of "qlit ''gt''" 62]
      reads_as_entity [of "qlit ''amp''" 38] reads_as_entity [of "qlit ''nbsp''" 160]
    by (auto simp: escapeHtml_def cellText_def entity_def qlit_def reads_as_char)
next
  case False
  then show ?thesis
    using assms surrogate_not_special
      reads_as_append [OF reads_as_char [of "cell_ch c"] reads_as_char [of "cell_low c"]]
    by (auto simp: escapeHtml_def cellText_def cell_ok_def)
qed

text \<open>No style string contains the quote or the bracket that would end its attribute or its tag.\<close>

abbreviation in_quotes :: "qchar \<Rightarrow> bool" where
  "in_quotes x \<equiv> x \<noteq> 34 \<and> x \<noteq> 62"

lemma upperHex_tag:
  assumes "n < 16"
  shows "in_quotes (upperHex n)"
proof -
  have "unat (of_nat m :: qchar) = m" if "m < 256" for m
    using that by (simp add: unat_of_nat)
  then have "unat (upperHex n) \<noteq> 62 \<and> unat (upperHex n) \<noteq> 34"
    using assms by (auto simp: upperHex_def simp del: of_nat_add)
  then show ?thesis by auto
qed

lemma hexColour_tag:
  assumes "r < 256" and "g < 256" and "b < 256"
  shows "\<forall>x \<in> set (hexColour r g b). in_quotes x"
proof -
  have "in_quotes (upperHex (v div 16))" "in_quotes (upperHex (v mod 16))" if "v < 256" for v
    using that upperHex_tag [of "v div 16"] upperHex_tag [of "v mod 16"] by auto
  then show ?thesis
    using assms unfolding hexColour_def by auto
qed

lemma kSteps_bound: "i < 6 \<Longrightarrow> kSteps ! i < 256"
proof -
  have "\<forall>v \<in> set kSteps. v < 256" by (simp add: kSteps_def)
  moreover have "length kSteps = 6" by (simp add: kSteps_def)
  ultimately show "i < 6 \<Longrightarrow> kSteps ! i < 256" by simp
qed

lemma kBase_tag: "i < 16 \<Longrightarrow> \<forall>x \<in> set (kBase ! i). in_quotes x"
proof -
  have "\<forall>w \<in> set kBase. \<forall>x \<in> set w. in_quotes x" by (simp add: kBase_def qlit_def)
  moreover have "length kBase = 16" by (simp add: kBase_def)
  ultimately show "i < 16 \<Longrightarrow> ?thesis" by (metis nth_mem)
qed

lemma palette_tag: "\<forall>x \<in> set (palette idx). in_quotes x"
proof -
  have "unat idx < 256" using unat_bound [of idx] by simp
  then show ?thesis
    unfolding palette_def Let_def using kBase_tag [of "unat idx"]
    by (simp del: not_less) (intro conjI impI hexColour_tag kSteps_bound; simp)
qed

lemma runStyles_tag: "34 \<notin> set (runStyles c)" "62 \<notin> set (runStyles c)"
  using palette_tag by (fastforce simp: runStyles_def Let_def qlit_def)+

definition cellShown :: "Cell \<Rightarrow> (qstring \<times> qchar) list" where
  "cellShown c = map (Pair (runStyles c)) (cellText c)"

lemma reads_as_flushRun:
  assumes "\<forall>c \<in> set cells. cell_ok c \<and> sameRun (hd cells) c"
  shows "reads_as [] (flushRun cells) (concat (map cellShown cells))"
proof (cases cells)
  case (Cons c0 cs)
  let ?style = "runStyles c0"
  have "runStyles c = ?style" if "c \<in> set cells" for c
    using assms that Cons unfolding sameRun_def runStyles_def by (metis list.sel(1))
  then have shown: "map cellShown cells = map (\<lambda>c. map (Pair ?style) (cellText c)) cells"
    by (auto simp: cellShown_def)
  have content: "reads_as spans (concat (map escapeHtml cells)) (concat (map cellShown cells))" if "concat (rev spans) = ?style" for spans
    unfolding shown using assms reads_as_cell [of _ spans] that by (intro reads_as_concat) simp
  show ?thesis
  proof (cases "?style = []")
    case True
    then show ?thesis using content [of "[]"] Cons by (simp add: flushRun_def Let_def)
  next
    case False
    then show ?thesis
      using reads_as_span [OF runStyles_tag [of c0] content [of "[?style]"]] Cons by (simp add: flushRun_def Let_def)
  qed
qed (simp add: flushRun_def reads_as_Nil)

lemma reads_as_lineLoop:
  "(\<forall>c \<in> set run \<union> set cells. cell_ok c) \<Longrightarrow> (\<forall>c \<in> set run. sameRun (hd run) c) \<Longrightarrow>
     reads_as [] (lineLoop run cells) (concat (map cellShown (run @ cells)))"
proof (induction run cells rule: lineLoop.induct)
  case (1 run)
  then show ?case using reads_as_flushRun [of run] by simp
next
  case (2 run c cs)
  have f: "reads_as [] (flushRun run) (concat (map cellShown run))" using 2(3,4) by (intro reads_as_flushRun) simp
  show ?case
  proof (cases "run = [] \<or> sameRun (hd run) c")
    case True
    have "reads_as [] (lineLoop (run @ [c]) cs) (concat (map cellShown ((run @ [c]) @ cs)))"
    proof (rule 2(1) [OF True])
      show "\<forall>x \<in> set (run @ [c]). sameRun (hd (run @ [c])) x"
        using 2(4) True by (cases run) (auto simp: sameRun_def)
    qed (use 2(3) in auto)
    then show ?thesis using True by simp
  next
    case False
    have "reads_as [] (lineLoop [c] cs) (concat (map cellShown ([c] @ cs)))"
      by (rule 2(2) [OF False]) (use 2(3) in \<open>auto simp: sameRun_def\<close>)
    then show ?thesis using False reads_as_append [OF f] by simp
  qed
qed

text \<open>C38: A row of the console rendered as rich text is well formed and reads back as exactly the characters of its
  cells, whatever the host printed, each in the style of its own cell: no character of the host is taken for
  markup, every span the renderer opens is closed, and attribute runs neither drop nor repeat a cell.
\<close>

theorem lineHtml_faithful:
  assumes "grid_inv s" and "0 \<le> row" and "row < int (scr_rows s)"
  shows "html_read [] (lineHtml row s)
     = Some (concat (map (\<lambda>c. let cell = cellAt row (int c) s in map (\<lambda>ch. (runStyles cell, ch)) (cellText cell)) [0..<scr_columns s]))"
proof -
  define cells where "cells = mid (scr_cells s) (nat row * scr_columns s) (scr_columns s)"
  have "nat row < scr_rows s" using assms by auto
  then have "nat row * scr_columns s + scr_columns s \<le> length (scr_cells s)"
    using assms(1) mult_le_mono1 [of "Suc (nat row)" "scr_rows s" "scr_columns s"] by (simp add: grid_inv_def)
  then have cells: "cells = map (\<lambda>c. cellAt row (int c) s) [0..<scr_columns s]"
    using assms by (intro nth_equalityI) (auto simp: cells_def mid_def cellAt_def)
  have "\<forall>c \<in> set cells. cell_ok c"
    using assms(1) by (auto simp: cells_def mid_def grid_inv_def dest: in_set_takeD in_set_dropD)
  then have "reads_as [] (lineHtml row s) (concat (map cellShown cells))"
    using reads_as_lineLoop [of "[]" cells] assms by (simp add: lineHtml_def cells_def)
  then have "html_read [] (lineHtml row s @ []) = map_option (\<lambda>us. concat (map cellShown cells) @ us) (html_read [] [])"
    unfolding reads_as_def by blast
  then show ?thesis
    by (simp add: cells comp_def cellShown_def Let_def)
qed

theorem lineHtml_faithful_witness:
  "html_read [] (lineHtml 0 (putCellAtCursor [60] (setFg 1 (resize 1 2 newScreen)))) = Some [(qlit ''color:#E25555;'', 60), ([], 160)]"
proof -
  have "grid_inv (putCellAtCursor [60] (setFg 1 (resize 1 2 newScreen)))"
    by (simp add: newScreen_inv)
  moreover have "[0..<2] = [0, 1 :: nat]" by (simp add: upt_rec)
  ultimately show ?thesis
    using lineHtml_faithful [of "putCellAtCursor [60] (setFg 1 (resize 1 2 newScreen))" 0]
    by (simp add: putCellAtCursor_def setCell_def setFg_def resize_def newScreen_def touch_def scr_emit_def
        cellAt_def cellText_def emptyCell_def runStyles_def palette_def kBase_def qlit_def AttrNone_def Let_def)
qed

end
