(* ===== verification/Vt100_Parser.thy ===== *)
theory Vt100_Parser
  imports Terminal_Screen
begin

text \<open>
  The escape-sequence parser of the serial console, \<open>terminal/src/vt100parser.cpp\<close>, and
  \<open>TerminalScreen::feed\<close>, which runs it. The parser holds a pointer to its screen; here the
  screen is a field of the parser's state.

  \<open>QString::fromUtf8\<close> is Qt's: it is the parameter \<open>fromUtf8\<close> of the definitions that decode.
\<close>

section \<open>State\<close>

datatype vt_state = Ground | Escape | Csi | Osc

record vt =
  vt_state :: vt_state
  vt_seq :: bytes
  vt_utf8 :: bytes
  vt_utf8Remaining :: nat
  vt_csiPrivate :: bool
  vt_screen :: screen

definition newVt :: "screen \<Rightarrow> vt" where
  "newVt s = \<lparr>vt_state = Ground, vt_seq = [], vt_utf8 = [], vt_utf8Remaining = 0, vt_csiPrivate = False,
     vt_screen = s\<rparr>"

definition vt_reset :: "vt \<Rightarrow> vt" where
  "vt_reset p = p\<lparr>vt_state := Ground, vt_seq := [], vt_utf8 := [], vt_utf8Remaining := 0, vt_csiPrivate := False\<rparr>"

definition on_screen :: "(screen \<Rightarrow> screen) \<Rightarrow> vt \<Rightarrow> vt" where
  "on_screen f p = p\<lparr>vt_screen := f (vt_screen p)\<rparr>"

definition kEsc :: byte where "kEsc = 0x1B"
definition kBel :: byte where "kBel = 0x07"
definition kCsiMaxBytes :: nat where "kCsiMaxBytes = 4096"

definition isCsiFinal :: "byte \<Rightarrow> bool" where
  "isCsiFinal b \<longleftrightarrow> b \<ge> 0x40 \<and> b \<le> 0x7E"

section \<open>CSI parameters\<close>

text \<open>
  The loop of \<open>parseParams\<close>: \<open>n\<close> is -1 until the first digit of a parameter; digits past 100000
  are dropped. The list is what the loop and the final \<open>push_back\<close> append.
\<close>

fun paramsLoop :: "int \<Rightarrow> bytes \<Rightarrow> int list" where
  "paramsLoop n [] = [if n < 0 then 0 else n]"
| "paramsLoop n (b # bs) =
     (if b = 0x3B then (if n < 0 then 0 else n) # paramsLoop (-1) bs
      else if b \<ge> 0x30 \<and> b \<le> 0x39 then
        let n = (if n < 0 then 0 else n)
        in if n \<ge> 100000 then paramsLoop n bs else paramsLoop (n * 10 + (uint b - 0x30)) bs
      else [if n < 0 then 0 else n])"

definition parseParams :: "bytes \<Rightarrow> int list \<times> nat" where
  "parseParams body =
     (paramsLoop (-1) body, length (takeWhile (\<lambda>b. b = 0x3B \<or> b \<ge> 0x30 \<and> b \<le> 0x39) body))"

text \<open>\<open>QVector::value(i, 0)\<close> and the helper \<open>p\<close> of \<open>handleCsi\<close>.\<close>

definition param_value :: "int list \<Rightarrow> nat \<Rightarrow> int" where
  "param_value ps i = (if i < length ps then ps ! i else 0)"

definition param_or :: "int list \<Rightarrow> nat \<Rightarrow> int \<Rightarrow> int" where
  "param_or ps i d = (if i < length ps \<and> ps ! i > 0 then ps ! i else d)"

section \<open>Colours and attributes\<close>

definition cube_step :: "int \<Rightarrow> int" where
  "cube_step v = (if v < 48 then 0 else if v < 115 then 1 else (v - 35) div 40)"

definition clamp :: "int \<Rightarrow> int \<Rightarrow> int \<Rightarrow> int" where
  "clamp v lo hi = (if v < lo then lo else if hi < v then hi else v)"

definition quantizeRgbTo256 :: "int \<Rightarrow> int \<Rightarrow> int \<Rightarrow> byte" where
  "quantizeRgbTo256 r g b =
     (let ri = clamp (cube_step r) 0 5; gi = clamp (cube_step g) 0 5; bi = clamp (cube_step b) 0 5
      in word_of_int (16 + 36 * ri + 6 * gi + bi))"

text \<open>
  \<open>consumeExtendedColor\<close> on the parameters after the 38 or 48: the colour, and the parameters the
  outer loop goes on with.
\<close>

fun consumeExtendedColor :: "int list \<Rightarrow> byte option \<times> int list" where
  "consumeExtendedColor [] = (None, [])"
| "consumeExtendedColor (mode # ps) =
     (if mode = 5 then
        (case ps of
           idx # rest \<Rightarrow> (Some (word_of_int (clamp idx 0 255)), rest)
         | _ \<Rightarrow> (None, []))
      else if mode = 2 then
        (case ps of
           r # g # b # rest \<Rightarrow> (Some (quantizeRgbTo256 r g b), rest)
         | _ \<Rightarrow> (None, []))
      else (None, ps))"

definition maybe :: "('a \<Rightarrow> 'b \<Rightarrow> 'b) \<Rightarrow> 'a option \<Rightarrow> 'b \<Rightarrow> 'b" where
  "maybe f x = (case x of None \<Rightarrow> (\<lambda>s. s) | Some y \<Rightarrow> f y)"

lemma consumeExtendedColor_length: "length (snd (consumeExtendedColor ps)) \<le> length ps"
  by (cases ps) (auto split: list.splits)

text \<open>The branches of the SGR loop that consume one parameter.\<close>

definition sgrSimple :: "int \<Rightarrow> screen \<Rightarrow> screen" where
  "sgrSimple code =
     (if code = 0 then resetAttributes
      else if code = 1 then setAttr AttrBold True
      else if code = 4 then setAttr AttrUnderline True
      else if code = 7 then setAttr AttrReverse True
      else if code = 22 then setAttr AttrBold False
      else if code = 24 then setAttr AttrUnderline False
      else if code = 27 then setAttr AttrReverse False
      else if code \<ge> 30 \<and> code \<le> 37 then setFg (word_of_int (code - 30))
      else if code = 39 then setFg 0xFF
      else if code \<ge> 40 \<and> code \<le> 47 then setBg (word_of_int (code - 40))
      else if code = 49 then setBg 0xFF
      else if code \<ge> 90 \<and> code \<le> 97 then setFg (word_of_int (code - 90 + 8))
      else if code \<ge> 100 \<and> code \<le> 107 then setBg (word_of_int (code - 100 + 8))
      else (\<lambda>s. s))"

function sgrLoop :: "int list \<Rightarrow> screen \<Rightarrow> screen" where
  "sgrLoop [] s = s"
| "sgrLoop (code # ps) s =
     (if code = 38 then
        let (idx, rest) = consumeExtendedColor ps in sgrLoop rest (maybe setFg idx s)
      else if code = 48 then
        let (idx, rest) = consumeExtendedColor ps in sgrLoop rest (maybe setBg idx s)
      else sgrLoop ps (sgrSimple code s))"
  by pat_completeness auto
termination
proof (relation "measure (length \<circ> fst)")
  fix code :: int and ps idx rest and s :: screen and x
  assume "x = consumeExtendedColor ps" and "(idx, rest) = x"
  then have "length rest \<le> length ps" using consumeExtendedColor_length [of ps] by (metis snd_conv)
  then show "((rest, maybe setFg idx s), code # ps, s) \<in> measure (length \<circ> fst)"
    and "((rest, maybe setBg idx s), code # ps, s) \<in> measure (length \<circ> fst)"
    by simp_all
qed simp_all

definition handleSgr :: "int list \<Rightarrow> screen \<Rightarrow> screen" where
  "handleSgr ps s = (if ps = [] then resetAttributes s else sgrLoop ps s)"

section \<open>Window operations\<close>

definition window_reply :: "int \<Rightarrow> nat \<Rightarrow> nat \<Rightarrow> bytes option" where
  "window_reply op rows cols =
     (if op = 14 then Some ([kEsc] @ blit ''[4;'' @ dec_digits (rows * 16) @ [0x3B] @ dec_digits (cols * 8) @ [0x74])
      else if op = 18 then Some ([kEsc] @ blit ''[8;'' @ dec_digits rows @ [0x3B] @ dec_digits cols @ [0x74])
      else if op = 19 then Some ([kEsc] @ blit ''[9;'' @ dec_digits rows @ [0x3B] @ dec_digits cols @ [0x74])
      else None)"

definition handleWindowOps :: "int list \<Rightarrow> screen \<Rightarrow> screen" where
  "handleWindowOps ps s =
     (case window_reply (param_value ps 0) (scr_rows s) (scr_columns s) of
        None \<Rightarrow> s
      | Some reply \<Rightarrow> emitResponse reply s)"

section \<open>Control characters and CSI sequences\<close>

definition handleC0 :: "byte \<Rightarrow> screen \<Rightarrow> screen" where
  "handleC0 b =
     (if b = 0x07 then scr_emit Bell
      else if b = 0x08 then backspace
      else if b = 0x09 then tab
      else if b = 0x0A \<or> b = 0x0B \<or> b = 0x0C then lineFeed
      else if b = 0x0D then carriageReturn
      else (\<lambda>s. s))"

definition csiAction :: "byte \<Rightarrow> int list \<Rightarrow> screen \<Rightarrow> screen" where
  "csiAction final ps s =
     (if final = 0x41 then moveCursor (- param_or ps 0 1) 0 s
      else if final = 0x42 then moveCursor (param_or ps 0 1) 0 s
      else if final = 0x43 then moveCursor 0 (param_or ps 0 1) s
      else if final = 0x44 then moveCursor 0 (- param_or ps 0 1) s
      else if final = 0x45 then setCursor (int (scr_cursorRow s) + param_or ps 0 1) 0 s
      else if final = 0x46 then setCursor (int (scr_cursorRow s) - param_or ps 0 1) 0 s
      else if final = 0x47 then setCursor (int (scr_cursorRow s)) (param_or ps 0 1 - 1) s
      else if final = 0x48 \<or> final = 0x66 then setCursor (param_or ps 0 1 - 1) (param_or ps 1 1 - 1) s
      else if final = 0x4A then eraseInDisplay (param_value ps 0) s
      else if final = 0x4B then eraseInLine (param_value ps 0) s
      else if final = 0x6D then handleSgr ps s
      else if final = 0x73 then saveCursor s
      else if final = 0x74 then handleWindowOps ps s
      else if final = 0x75 then restoreCursor s
      else s)"

definition handleCsi :: "vt \<Rightarrow> vt" where
  "handleCsi p =
     (if vt_seq p = [] then p
      else
        let final = List.last (vt_seq p);
            (ps, _) = parseParams (butlast (vt_seq p))
        in if vt_csiPrivate p then p else on_screen (csiAction final ps) p)"

section \<open>UTF-8\<close>

text \<open>The decoded fragment is empty while bytes are still being collected.\<close>

definition consumeUtf8 :: "(bytes \<Rightarrow> qstring) \<Rightarrow> byte \<Rightarrow> vt \<Rightarrow> qstring \<times> vt" where
  "consumeUtf8 fromUtf8 b p =
     (if vt_utf8Remaining p = 0 then
        (let start = (\<lambda>n. ([], p\<lparr>vt_utf8Remaining := n, vt_utf8 := [b]\<rparr>))
         in if b AND 0xE0 = 0xC0 then start 1
            else if b AND 0xF0 = 0xE0 then start 2
            else if b AND 0xF8 = 0xF0 then start 3
            else (qlit ''?'', p))
      else
        let p = p\<lparr>vt_utf8 := vt_utf8 p @ [b], vt_utf8Remaining := vt_utf8Remaining p - 1\<rparr>
        in if vt_utf8Remaining p = 0
           then (let s = fromUtf8 (vt_utf8 p) in (if s = [] then qlit ''?'' else s, p\<lparr>vt_utf8 := []\<rparr>))
           else ([], p))"

section \<open>The byte loop\<close>

definition groundByte :: "(bytes \<Rightarrow> qstring) \<Rightarrow> byte \<Rightarrow> vt \<Rightarrow> vt" where
  "groundByte fromUtf8 b p =
     (if b = kEsc then p\<lparr>vt_state := Escape, vt_seq := [], vt_csiPrivate := False\<rparr>
      else if b < 0x20 then on_screen (handleC0 b) p
      else if b < 0x80 then on_screen (putCellAtCursor [ucast b]) p
      else
        let (s, p) = consumeUtf8 fromUtf8 b p
        in if s \<noteq> [] then on_screen (putCellAtCursor s) p else p)"

definition escapeByte :: "byte \<Rightarrow> vt \<Rightarrow> vt" where
  "escapeByte b p =
     (if b = 0x5B then p\<lparr>vt_state := Csi\<rparr>
      else if b = 0x5D then p\<lparr>vt_state := Osc\<rparr>
      else if b = 0x63 then (on_screen clear p)\<lparr>vt_state := Ground\<rparr>
      else if b = 0x37 then (on_screen saveCursor p)\<lparr>vt_state := Ground\<rparr>
      else if b = 0x38 then (on_screen restoreCursor p)\<lparr>vt_state := Ground\<rparr>
      else p\<lparr>vt_state := Ground\<rparr>)"

definition csiByte :: "byte \<Rightarrow> vt \<Rightarrow> vt" where
  "csiByte b p =
     (if vt_seq p = [] \<and> b = 0x3F then p\<lparr>vt_csiPrivate := True\<rparr>
      else if length (vt_seq p) \<ge> kCsiMaxBytes then
        p\<lparr>vt_seq := [], vt_csiPrivate := False, vt_state := Ground\<rparr>
      else
        let p = p\<lparr>vt_seq := vt_seq p @ [b]\<rparr>
        in if isCsiFinal b
           then (handleCsi p)\<lparr>vt_seq := [], vt_csiPrivate := False, vt_state := Ground\<rparr>
           else p)"

definition oscByte :: "byte \<Rightarrow> vt \<Rightarrow> vt" where
  "oscByte b p =
     (if b = kBel then p\<lparr>vt_state := Ground\<rparr>
      else if b = kEsc then p\<lparr>vt_state := Escape\<rparr>
      else p)"

definition vt_byte :: "(bytes \<Rightarrow> qstring) \<Rightarrow> byte \<Rightarrow> vt \<Rightarrow> vt" where
  "vt_byte fromUtf8 b p =
     (case vt_state p of
        Ground \<Rightarrow> groundByte fromUtf8 b p
      | Escape \<Rightarrow> escapeByte b p
      | Csi \<Rightarrow> csiByte b p
      | Osc \<Rightarrow> oscByte b p)"

definition vt_feed :: "(bytes \<Rightarrow> qstring) \<Rightarrow> bytes \<Rightarrow> vt \<Rightarrow> vt" where
  "vt_feed fromUtf8 bs p = fold (vt_byte fromUtf8) bs p"

text \<open>\<open>TerminalScreen::feed\<close>.\<close>

definition screen_feed :: "(bytes \<Rightarrow> qstring) \<Rightarrow> bytes \<Rightarrow> vt \<Rightarrow> vt" where
  "screen_feed fromUtf8 bs p = on_screen touch (vt_feed fromUtf8 bs p)"

section \<open>What the parser keeps of the screen\<close>

text \<open>
  The parser reaches the screen through its mutators only. A property each mutator keeps is
  therefore kept by any byte stream, whatever the parser makes of it.
\<close>

locale screen_contract =
  fixes keeps :: "screen \<Rightarrow> bool"
  assumes put: "keeps s \<Longrightarrow> keeps (putCellAtCursor w s)"
    and bell: "keeps s \<Longrightarrow> keeps (scr_emit Bell s)"
    and moves: "keeps s \<Longrightarrow> keeps (setCursor i j s)"
    and controls: "keeps s \<Longrightarrow> keeps (backspace s)" "keeps s \<Longrightarrow> keeps (tab s)"
      "keeps s \<Longrightarrow> keeps (lineFeed s)" "keeps s \<Longrightarrow> keeps (carriageReturn s)"
    and saves: "keeps s \<Longrightarrow> keeps (saveCursor s)"
    and erases: "keeps s \<Longrightarrow> keeps (eraseInDisplay i s)" "keeps s \<Longrightarrow> keeps (eraseInLine i s)"
      "keeps s \<Longrightarrow> keeps (clear s)"
    and pen: "keeps s \<Longrightarrow> keeps (resetAttributes s)" "keeps s \<Longrightarrow> keeps (setFg c s)"
      "keeps s \<Longrightarrow> keeps (setBg c s)" "keeps s \<Longrightarrow> keeps (setAttr c on s)"
    and replies: "keeps s \<Longrightarrow> window_reply op (scr_rows s) (scr_columns s) = Some b \<Longrightarrow> keeps (emitResponse b s)"
    and touches: "keeps s \<Longrightarrow> keeps (touch s)"
begin

lemma restore: "keeps s \<Longrightarrow> keeps (restoreCursor s)"
  by (simp add: restoreCursor_def moves)

lemma move: "keeps s \<Longrightarrow> keeps (moveCursor i j s)"
  by (simp add: moveCursor_def moves)

lemmas contract = put bell moves controls saves erases pen touches restore move

lemma c0: "keeps s \<Longrightarrow> keeps (handleC0 b s)"
  by (simp add: handleC0_def contract)

lemma colour:
  "keeps s \<Longrightarrow> keeps (maybe setFg idx s)" "keeps s \<Longrightarrow> keeps (maybe setBg idx s)"
  by (cases idx; simp add: maybe_def contract)+

lemma sgr_simple: "keeps s \<Longrightarrow> keeps (sgrSimple code s)"
  unfolding sgrSimple_def by (simp add: contract)

lemma sgr_loop: "keeps s \<Longrightarrow> keeps (sgrLoop ps s)"
  by (induction ps s rule: sgrLoop.induct) (auto simp: Let_def colour sgr_simple split: prod.splits)

lemma sgr: "keeps s \<Longrightarrow> keeps (handleSgr ps s)"
  by (simp add: handleSgr_def contract sgr_loop)

lemma window_ops: "keeps s \<Longrightarrow> keeps (handleWindowOps ps s)"
  by (auto simp: handleWindowOps_def replies split: option.split)

lemma csi_action: "keeps s \<Longrightarrow> keeps (csiAction final ps s)"
  unfolding csiAction_def by (simp add: contract sgr window_ops)

lemma csi: "keeps (vt_screen p) \<Longrightarrow> keeps (vt_screen (handleCsi p))"
  by (simp add: handleCsi_def parseParams_def Let_def on_screen_def csi_action)

lemma utf8: "vt_screen (snd (consumeUtf8 u b p)) = vt_screen p"
  by (simp add: consumeUtf8_def Let_def)

lemma ground: "keeps (vt_screen p) \<Longrightarrow> keeps (vt_screen (groundByte u b p))"
  using utf8 [of u b p] by (auto simp: groundByte_def on_screen_def c0 contract split: prod.splits)

lemma one_byte: "keeps (vt_screen p) \<Longrightarrow> keeps (vt_screen (vt_byte u b p))"
  by (cases "vt_state p")
    (simp_all add: vt_byte_def ground escapeByte_def csiByte_def oscByte_def on_screen_def contract csi Let_def)

lemma feed: "keeps (vt_screen p) \<Longrightarrow> keeps (vt_screen (vt_feed u bs p))"
  unfolding vt_feed_def by (rule fold_keeps [where P = "\<lambda>p. keeps (vt_screen p)"]) (simp_all add: one_byte)

lemma feed_touch: "keeps (vt_screen p) \<Longrightarrow> keeps (vt_screen (screen_feed u bs p))"
  using feed [of p u bs] by (simp add: screen_feed_def on_screen_def contract)

end

lemma emitResponse_inv [simp]: "grid_inv (emitResponse b s) = grid_inv s"
  by (simp add: emitResponse_def)

interpretation vt_grid: screen_contract grid_inv
  by unfold_locales simp_all

text \<open>C19: Whatever bytes the managed machine sends, the console stays well formed: the grid has
  exactly one cell per row and column, the cursor is on a row of the grid and at most one past
  its last column, no cell holds half a surrogate pair as a second unit, and no access to the
  cell vector was outside it.
\<close>

theorem feed_grid_safe:
  assumes "grid_inv (vt_screen p)"
  shows "grid_inv (vt_screen (screen_feed fromUtf8 bs p))"
  using assms by (rule vt_grid.feed_touch)

theorem feed_grid_safe_witness:
  "grid_inv (vt_screen (screen_feed fromLatin1 (blit ''boot'' @ [0x1B] @ blit ''[99;99Hx'' @ [10, 10, 13]) (newVt newScreen)))"
  by (rule feed_grid_safe) (simp add: newVt_def newScreen_inv)

section \<open>Geometry and replies\<close>

text \<open>
  What no byte of the host can change: the geometry, and the form of what is sent back. The
  record of signals only ever gains replies that \<open>window_reply\<close> builds for that geometry.
\<close>

definition answers :: "nat \<Rightarrow> nat \<Rightarrow> bytes set \<Rightarrow> screen \<Rightarrow> bool" where
  "answers r c A s \<longleftrightarrow> scr_rows s = r \<and> scr_columns s = c
     \<and> (\<forall>b. Respond b \<in> set (scr_signals s) \<longrightarrow> b \<in> A \<or> (\<exists>op \<in> {14, 18, 19}. window_reply op r c = Some b))"

lemma answers_emit [simp]: "(\<And>b. x \<noteq> Respond b) \<Longrightarrow> answers r c A (scr_emit x s) = answers r c A s"
  by (auto simp: answers_def scr_emit_def)

lemma answers_cong:
  "scr_rows s = scr_rows t \<Longrightarrow> scr_columns s = scr_columns t \<Longrightarrow> scr_signals s = scr_signals t \<Longrightarrow>
     answers r c A s = answers r c A t"
  by (simp add: answers_def)

lemma answers_update [simp]:
  "answers r c A (s\<lparr>scr_cells := x\<rparr>) = answers r c A s" "answers r c A (s\<lparr>scr_oob := o'\<rparr>) = answers r c A s"
  "answers r c A (s\<lparr>scr_cursorRow := i\<rparr>) = answers r c A s" "answers r c A (s\<lparr>scr_cursorColumn := i\<rparr>) = answers r c A s"
  "answers r c A (s\<lparr>scr_savedRow := i\<rparr>) = answers r c A s" "answers r c A (s\<lparr>scr_savedColumn := i\<rparr>) = answers r c A s"
  "answers r c A (s\<lparr>scr_pen := q\<rparr>) = answers r c A s" "answers r c A (s\<lparr>scr_version := i\<rparr>) = answers r c A s"
  by (simp_all add: answers_def)

lemma answers_setCell [simp]: "answers r c A (setCell i j x s) = answers r c A s"
  by (simp add: setCell_def Let_def)

lemma answers_copyCell [simp]: "answers r c A (copyCell i j i' j' s) = answers r c A s"
  by (simp add: copyCell_def Let_def)

lemma answers_clearCells: "answers r c A s \<Longrightarrow> answers r c A (clearCells i a b s)"
  unfolding clearCells_def by (rule fold_keeps [where P = "answers r c A"]) simp_all

lemma answers_clearRows: "answers r c A s \<Longrightarrow> answers r c A (clearRows a b s)"
  unfolding clearRows_def by (rule fold_keeps [where P = "answers r c A"]) (simp_all add: answers_clearCells)

lemma answers_scrollUp: "answers r c A s \<Longrightarrow> answers r c A (scrollUp s)"
  unfolding scrollUp_def Let_def
  by (intro answers_clearCells fold_keeps [where P = "answers r c A"]) simp_all

lemma answers_reply:
  assumes "answers r c A s" and "window_reply op (scr_rows s) (scr_columns s) = Some b"
  shows "answers r c A (emitResponse b s)"
proof -
  have "op \<in> {14, 18, 19}" using assms(2) by (auto simp: window_reply_def split: if_splits)
  then show ?thesis
    using assms by (auto simp: answers_def emitResponse_def scr_emit_def)
qed

interpretation vt_answers: screen_contract "answers r c A" for r c A
  by unfold_locales
    (simp_all add: answers_clearCells answers_clearRows answers_scrollUp answers_reply putCellAtCursor_def
      setCursor_def backspace_def tab_def lineFeed_def carriageReturn_def saveCursor_def eraseInDisplay_def
      eraseInLine_def clear_def resetAttributes_def setFg_def setBg_def setAttr_def touch_def Let_def split: list.split)

text \<open>No byte stream makes the console type host-chosen bytes back into the session. Every reply
  a feed adds is one of the three XTWINOPS size reports for the current geometry, and the geometry
  itself is out of the host's reach.
\<close>

theorem feed_replies_fixed:
  assumes "s = vt_screen p" and "t = vt_screen (screen_feed fromUtf8 bs p)"
  shows "scr_rows t = scr_rows s \<and> scr_columns t = scr_columns s
     \<and> (\<forall>b. Respond b \<in> set (scr_signals t) \<longrightarrow> Respond b \<in> set (scr_signals s)
           \<or> (\<exists>op \<in> {14, 18, 19}. window_reply op (scr_rows s) (scr_columns s) = Some b))"
proof -
  have "answers (scr_rows s) (scr_columns s) {b. Respond b \<in> set (scr_signals s)} (vt_screen p)"
    using assms(1) by (simp add: answers_def)
  then show ?thesis
    using vt_answers.feed_touch assms(2) unfolding answers_def by blast
qed

theorem feed_replies_fixed_witness:
  "scr_rows (vt_screen (screen_feed fromLatin1 ([kEsc] @ blit ''[18t'') (newVt newScreen))) = 24"
  using feed_replies_fixed [of newScreen "newVt newScreen", OF _ refl, of fromLatin1 "[kEsc] @ blit ''[18t''"]
  by (simp add: newVt_def newScreen_def)

section \<open>Bounds of the parser's buffers\<close>

definition vt_ok :: "vt \<Rightarrow> bool" where
  "vt_ok p \<longleftrightarrow> length (vt_seq p) \<le> kCsiMaxBytes
     \<and> (vt_state p \<noteq> Csi \<longrightarrow> vt_seq p = [] \<and> \<not> vt_csiPrivate p)
     \<and> (if vt_utf8Remaining p = 0 then vt_utf8 p = []
        else vt_utf8 p \<noteq> [] \<and> length (vt_utf8 p) + vt_utf8Remaining p \<le> 4)"

lemma on_screen_fields [simp]:
  "vt_state (on_screen f p) = vt_state p" "vt_seq (on_screen f p) = vt_seq p" "vt_utf8 (on_screen f p) = vt_utf8 p"
  "vt_utf8Remaining (on_screen f p) = vt_utf8Remaining p" "vt_csiPrivate (on_screen f p) = vt_csiPrivate p"
  "vt_screen (on_screen f p) = f (vt_screen p)"
  by (simp_all add: on_screen_def)

lemma handleCsi_fields [simp]:
  "vt_state (handleCsi p) = vt_state p" "vt_seq (handleCsi p) = vt_seq p" "vt_utf8 (handleCsi p) = vt_utf8 p"
  "vt_utf8Remaining (handleCsi p) = vt_utf8Remaining p" "vt_csiPrivate (handleCsi p) = vt_csiPrivate p"
  by (simp_all add: handleCsi_def parseParams_def Let_def)

lemma vt_ok_on_screen [simp]: "vt_ok (on_screen f p) = vt_ok p"
  by (simp add: vt_ok_def)

lemma vt_ok_utf8: "vt_ok p \<Longrightarrow> vt_ok (snd (consumeUtf8 u b p))"
  by (auto simp: consumeUtf8_def vt_ok_def Let_def split: if_splits)

lemma vt_ok_byte:
  assumes "vt_ok p"
  shows "vt_ok (vt_byte u b p)"
proof (cases "vt_state p")
  case Ground
  then show ?thesis
    using assms vt_ok_utf8 [OF assms, of u b]
    by (auto simp: vt_byte_def groundByte_def split: prod.splits) (auto simp: vt_ok_def)
next
  case Escape
  then show ?thesis using assms by (simp add: vt_byte_def escapeByte_def vt_ok_def)
next
  case Csi
  then show ?thesis using assms by (simp add: vt_byte_def csiByte_def vt_ok_def Let_def)
next
  case Osc
  then show ?thesis using assms by (simp add: vt_byte_def oscByte_def vt_ok_def)
qed

lemma paramsLoop_range: "n < 1000000 \<Longrightarrow> v \<in> set (paramsLoop n bs) \<Longrightarrow> 0 \<le> v \<and> v < 1000000"
proof (induction n bs rule: paramsLoop.induct)
  case (2 n b bs)
  have "b \<le> 0x39 \<Longrightarrow> uint b \<le> 57" by (simp add: word_le_def)
  then show ?case
    using 2 by (auto simp: Let_def split: if_splits)
qed (auto split: if_splits)

text \<open>No byte stream makes the parser's buffers grow: the CSI accumulator never holds more than
  4096 bytes, the UTF-8 carry with what it waits for never more than four, and both are empty
  when nothing is pending. The numbers the screen receives from a CSI sequence are between 0 and
  999999, so the cursor arithmetic cannot overflow an \<open>int\<close>.
\<close>

theorem vt_buffers_bounded:
  assumes "vt_ok p"
  shows "vt_ok (vt_feed fromUtf8 bs p)
     \<and> (\<forall>n \<in> set (fst (parseParams (vt_seq (vt_feed fromUtf8 bs p)))). 0 \<le> n \<and> n < 1000000)"
proof
  show "vt_ok (vt_feed fromUtf8 bs p)"
    unfolding vt_feed_def by (rule fold_keeps [where P = vt_ok]) (simp_all add: assms vt_ok_byte)
qed (auto simp: parseParams_def dest: paramsLoop_range [rotated])

theorem vt_buffers_bounded_witness:
  "vt_ok (vt_feed fromLatin1 ([kEsc, 0x5B] @ replicate 10000 0x39) (newVt newScreen))"
  using vt_buffers_bounded [of "newVt newScreen" fromLatin1 "[kEsc, 0x5B] @ replicate 10000 0x39"]
  by (simp add: newVt_def vt_ok_def)

section \<open>Complete sequences\<close>

lemma vt_feed_simps [simp]:
  "vt_feed u [] p = p" "vt_feed u (b # bs) p = vt_feed u bs (vt_byte u b p)"
  "vt_feed u (as @ bs) p = vt_feed u bs (vt_feed u as p)"
  by (simp_all add: vt_feed_def)

definition param_byte :: "byte \<Rightarrow> bool" where
  "param_byte b \<longleftrightarrow> b = 0x3B \<or> b \<ge> 0x30 \<and> b \<le> 0x39"

lemma param_byte_collected: "param_byte b \<Longrightarrow> b \<noteq> 0x3F \<and> \<not> isCsiFinal b"
  by (auto simp: param_byte_def isCsiFinal_def word_le_nat_alt)

lemma csi_collect:
  assumes "vt_state p = Csi" and "\<forall>b \<in> set bs. param_byte b" and "length (vt_seq p) + length bs \<le> kCsiMaxBytes"
  shows "vt_feed u bs p = p\<lparr>vt_seq := vt_seq p @ bs\<rparr>"
  using assms
proof (induction bs arbitrary: p)
  case (Cons b bs)
  have "vt_byte u b p = p\<lparr>vt_seq := vt_seq p @ [b]\<rparr>"
    using Cons.prems param_byte_collected [of b] by (simp add: vt_byte_def csiByte_def)
  then show ?case
    using Cons.IH [of "p\<lparr>vt_seq := vt_seq p @ [b]\<rparr>"] Cons.prems by simp
qed simp

lemma csi_sequence:
  assumes "vt_ok p" and "vt_state p = Ground" and "\<forall>b \<in> set body. param_byte b" and "length body < kCsiMaxBytes"
    and "isCsiFinal final"
  shows "vt_feed u ([kEsc, 0x5B] @ body @ [final]) p = on_screen (csiAction final (fst (parseParams body))) p"
proof -
  have fields: "vt_seq p = []" "\<not> vt_csiPrivate p" using assms by (simp_all add: vt_ok_def)
  define q where "q = p\<lparr>vt_state := Csi, vt_seq := body\<rparr>"
  have "vt_feed u [kEsc, 0x5B] p = p\<lparr>vt_state := Csi\<rparr>"
    using assms(2) fields by (cases p) (simp add: vt_byte_def groundByte_def escapeByte_def)
  moreover have "vt_feed u body (p\<lparr>vt_state := Csi\<rparr>) = q"
    using csi_collect [of "p\<lparr>vt_state := Csi\<rparr>" body u] assms fields by (simp add: q_def)
  ultimately have "vt_feed u ([kEsc, 0x5B] @ body @ [final]) p = vt_byte u final q" by simp
  also have "\<dots> = on_screen (csiAction final (fst (parseParams body))) p"
  proof -
    have "final \<noteq> 0x3F" using assms(5) by (auto simp: isCsiFinal_def)
    then show ?thesis
      using assms fields
      by (cases p) (simp add: q_def vt_byte_def csiByte_def handleCsi_def on_screen_def Let_def parseParams_def)
  qed
  finally show ?thesis .
qed

lemma dec_digit_byte:
  assumes "d < 10"
  shows "param_byte (of_nat (48 + d))" "(of_nat (48 + d) :: byte) \<noteq> 0x3B"
    "(of_nat (48 + d) :: byte) \<ge> 0x30" "(of_nat (48 + d) :: byte) \<le> 0x39" "uint (of_nat (48 + d) :: byte) = 48 + int d"
proof -
  have u: "unat (of_nat (48 + d) :: byte) = 48 + d"
    using assms by (simp add: unat_of_nat del: of_nat_add)
  show le: "(of_nat (48 + d) :: byte) \<ge> 0x30" "(of_nat (48 + d) :: byte) \<le> 0x39"
    unfolding word_le_nat_alt u using assms by simp_all
  then show "param_byte (of_nat (48 + d))" by (simp add: param_byte_def)
  show "uint (of_nat (48 + d) :: byte) = 48 + int d"
    using arg_cong [OF u, of int] by simp
  show "(of_nat (48 + d) :: byte) \<noteq> 0x3B"
    using le(2) by (auto simp del: of_nat_add)
qed

lemma paramsLoop_dec:
  "m < 1000000 \<Longrightarrow> paramsLoop (-1) (dec_digits m @ rest) = paramsLoop (int m) rest"
proof (induction m arbitrary: rest rule: dec_digits.induct)
  case (1 m)
  show ?case
  proof (cases "m < 10")
    case True
    then show ?thesis
      using dec_digit_byte [of m] by (simp add: dec_digits.simps [of m] Let_def del: of_nat_add)
  next
    case False
    define d where "d = m mod 10"
    have "d < 10" "m div 10 < 100000" using "1.prems" by (auto simp: d_def)
    have "paramsLoop (-1) (dec_digits m @ rest) = paramsLoop (int (m div 10)) (of_nat (48 + d) # rest)"
      using False "1.IH" [OF False, of "of_nat (48 + d) # rest"] "1.prems"
      by (simp add: dec_digits.simps [of m] d_def del: of_nat_add paramsLoop.simps)
    also have "\<dots> = paramsLoop (int (m div 10) * 10 + int d) rest"
      using dec_digit_byte [OF \<open>d < 10\<close>] \<open>m div 10 < 100000\<close> by (simp add: Let_def del: of_nat_add of_nat_div)
    also have "int (m div 10) * 10 + int d = int m"
      by (simp add: d_def zdiv_int zmod_int)
    finally show ?thesis .
  qed
qed

lemma dec_digits_params: "b \<in> set (dec_digits m) \<Longrightarrow> param_byte b"
proof (induction m rule: dec_digits.induct)
  case (1 m)
  show ?case
  proof (cases "m < 10")
    case True
    then show ?thesis using 1 dec_digit_byte(1) [of m] by (simp add: dec_digits.simps [of m])
  next
    case False
    then show ?thesis using 1 dec_digit_byte(1) [of "m mod 10"] by (auto simp: dec_digits.simps [of m])
  qed
qed

lemma dec_digits_length: "m < 10 ^ k \<Longrightarrow> 0 < k \<Longrightarrow> length (dec_digits m) \<le> k"
proof (induction k arbitrary: m)
  case (Suc k)
  show ?case
  proof (cases "m < 10")
    case False
    then have "m div 10 < 10 ^ k" "0 < k"
      using Suc.prems by (auto simp: less_mult_imp_div_less mult.commute intro!: gr0I)
    then show ?thesis
      using Suc.IH [of "m div 10"] False by (simp add: dec_digits.simps [of m])
  qed (simp add: dec_digits.simps [of m])
qed simp

text \<open>The cursor address an application prints is the one the console goes to. Printing
  \<open>ESC [ row ; column H\<close> in decimal, with one-based coordinates, puts the cursor at that row and
  column, clamped to the grid, changes no cell, and leaves the parser ready for the next byte.
\<close>

theorem cursor_address_roundtrip:
  assumes "vt_ok p" and "vt_state p = Ground" and "0 < row" and "row < 1000000" and "0 < column" and "column < 1000000"
  shows "vt_feed fromUtf8 ([kEsc, 0x5B] @ (dec_digits row @ [0x3B] @ dec_digits column) @ [0x48]) p
           = on_screen (setCursor (int row - 1) (int column - 1)) p"
proof -
  define body where "body = dec_digits row @ [0x3B] @ dec_digits column"
  have pb: "\<forall>b \<in> set body. param_byte b"
    by (auto simp: body_def dec_digits_params) (simp add: param_byte_def)
  have "length body \<le> 13"
    using dec_digits_length [of row 6] dec_digits_length [of column 6] assms by (simp add: body_def)
  then have len: "length body < kCsiMaxBytes" by (simp add: kCsiMaxBytes_def)
  have "paramsLoop (-1) body = [int row, int column]"
    using paramsLoop_dec [of column "[]"] assms by (simp add: body_def paramsLoop_dec)
  then have "csiAction 0x48 (fst (parseParams body)) = setCursor (int row - 1) (int column - 1)"
    using assms by (intro ext) (simp add: csiAction_def parseParams_def param_or_def)
  then show ?thesis
    using csi_sequence [OF assms(1,2) pb len, of "0x48" fromUtf8] by (simp add: isCsiFinal_def body_def)
qed

theorem cursor_address_roundtrip_witness:
  "vt_feed fromLatin1 ([kEsc, 0x5B] @ (dec_digits 12 @ [0x3B] @ dec_digits 40) @ [0x48]) (newVt newScreen)
     = on_screen (setCursor 11 39) (newVt newScreen)"
  using cursor_address_roundtrip [of "newVt newScreen" 12 40 fromLatin1] by (simp add: newVt_def vt_ok_def)

text \<open>A size query is answered with the geometry: \<open>ESC [ 18 t\<close> in the ground state sends back
  \<open>ESC [ 8 ; rows ; columns t\<close> and changes nothing else.
\<close>

theorem size_query_answered:
  assumes "vt_ok p" and "vt_state p = Ground"
  shows "vt_feed fromUtf8 ([kEsc, 0x5B] @ blit ''18'' @ [0x74]) p
           = on_screen (scr_emit (Respond ([kEsc, 0x5B, 0x38, 0x3B] @ dec_digits (scr_rows (vt_screen p)) @ [0x3B]
                                           @ dec_digits (scr_columns (vt_screen p)) @ [0x74]))) p"
proof -
  have "fst (parseParams (blit ''18'')) = [18]" by (simp add: parseParams_def blit_def Let_def)
  moreover have "\<forall>b \<in> set (blit ''18''). param_byte b" by (simp add: blit_def param_byte_def)
  ultimately show ?thesis
    using csi_sequence [OF assms, of "blit ''18''" "0x74" fromUtf8]
    by (simp add: isCsiFinal_def kCsiMaxBytes_def on_screen_def csiAction_def handleWindowOps_def param_value_def
        window_reply_def emitResponse_def) (simp add: blit_def)
qed

theorem size_query_answered_witness:
  "scr_signals (vt_screen (vt_feed fromLatin1 ([kEsc, 0x5B] @ blit ''18'' @ [0x74]) (newVt newScreen)))
     = [Respond ([kEsc] @ blit ''[8;24;80t'')]"
proof -
  have "dec_digits 24 = blit ''24''" "dec_digits 80 = blit ''80''"
    by (simp_all add: dec_digits.simps blit_def)
  then show ?thesis
    using size_query_answered [of "newVt newScreen" fromLatin1]
    by (simp add: newVt_def newScreen_def vt_ok_def on_screen_def scr_emit_def) (simp add: blit_def)
qed

section \<open>Text\<close>

definition written :: "Cell \<Rightarrow> byte \<Rightarrow> Cell" where
  "written q b = q\<lparr>cell_ch := ucast b, cell_low := 0\<rparr>"

definition printed :: "bytes \<Rightarrow> screen \<Rightarrow> screen" where
  "printed w s =
     (let k = scr_cursorRow s * scr_columns s + scr_cursorColumn s
      in s\<lparr>scr_cells := take k (scr_cells s) @ map (written (scr_pen s)) w @ drop (k + length w) (scr_cells s),
           scr_cursorColumn := scr_cursorColumn s + length w,
           scr_signals := scr_signals s @ replicate (length w) CursorMoved\<rparr>)"

lemma put_char:
  assumes "grid_inv s" and "scr_cursorColumn s < scr_columns s"
  shows "putCellAtCursor [ucast b] s = printed [b] s"
proof -
  have k: "scr_cursorRow s * scr_columns s + scr_cursorColumn s < length (scr_cells s)"
    using assms index_bound [of "scr_cursorRow s" "scr_rows s" "scr_cursorColumn s" "scr_columns s"]
    by (simp add: grid_inv_def)
  then show ?thesis
    using assms(2) by (cases s)
      (auto simp: putCellAtCursor_def printed_def setCell_def written_def scr_emit_def Let_def upd_conv_take_nth_drop)
qed

lemma printed_Cons:
  assumes "scr_cursorRow s * scr_columns s + scr_cursorColumn s < length (scr_cells s)"
  shows "printed w (printed [b] s) = printed (b # w) s"
  using assms by (cases s) (simp add: printed_def Let_def min_def ac_simps)

text \<open>Printable text in the ground state appears as typed: the bytes fill consecutive cells from
  the cursor on, in the current colours and attributes, the cursor ends behind the last of them,
  and every other cell, row and mode is as before.
\<close>

theorem text_printed:
  assumes "grid_inv (vt_screen p)" and "vt_state p = Ground" and "\<forall>b \<in> set w. 0x20 \<le> b \<and> b < 0x80"
    and "scr_cursorColumn (vt_screen p) + length w \<le> scr_columns (vt_screen p)"
  shows "vt_feed fromUtf8 w p = on_screen (printed w) p"
  using assms
proof (induction w arbitrary: p)
  case Nil
  then show ?case by (simp add: on_screen_def printed_def)
next
  case (Cons b w)
  define s where "s = vt_screen p"
  have s: "grid_inv s" "scr_cursorColumn s < scr_columns s" using Cons.prems by (auto simp: s_def)
  have "b \<noteq> kEsc" "\<not> b < 0x20" "b < 0x80" using Cons.prems(3) by (auto simp: kEsc_def)
  then have step: "vt_byte fromUtf8 b p = on_screen (printed [b]) p"
    using Cons.prems put_char [OF s, of b] by (simp add: vt_byte_def groundByte_def on_screen_def s_def)
  have "grid_inv (printed [b] s)"
    using putCellAtCursor_inv [OF s(1), of "[ucast b]"] put_char [OF s, of b] by simp
  then have "vt_feed fromUtf8 w (on_screen (printed [b]) p) = on_screen (printed w) (on_screen (printed [b]) p)"
    using Cons.prems by (intro Cons.IH) (auto simp: s_def printed_def Let_def)
  moreover have "scr_cursorRow s * scr_columns s + scr_cursorColumn s < length (scr_cells s)"
    using s index_bound [of "scr_cursorRow s" "scr_rows s" "scr_cursorColumn s" "scr_columns s"]
    by (simp add: grid_inv_def)
  ultimately show ?case
    using step printed_Cons [of s w b] by (simp add: on_screen_def s_def)
qed

theorem text_printed_witness:
  "vt_feed fromLatin1 (blit ''login:'') (newVt newScreen) = on_screen (printed (blit ''login:'')) (newVt newScreen)"
  by (rule text_printed) (simp_all add: newVt_def newScreen_inv, simp_all add: blit_def newScreen_def)

section \<open>Colour quantisation\<close>

definition nearest_step :: "int \<Rightarrow> nat \<Rightarrow> bool" where
  "nearest_step v a \<longleftrightarrow> a \<in> set kSteps \<and> (\<forall>a' \<in> set kSteps. abs (v - int a) \<le> abs (v - int a'))"

lemma cube_step_nearest:
  assumes "0 \<le> v" and "v \<le> 255"
  obtains i where "clamp (cube_step v) 0 5 = int i" "i < 6" "nearest_step v (kSteps ! i)"
proof -
  consider "v < 48" | "48 \<le> v" "v < 115" | "115 \<le> v" "v < 155" | "155 \<le> v" "v < 195"
    | "195 \<le> v" "v < 235" | "235 \<le> v"
    by linarith
  then have "\<exists>i < 6. clamp (cube_step v) 0 5 = int i \<and> nearest_step v (kSteps ! i)"
  proof cases
    case 1
    then show ?thesis
      using assms by (intro exI [of _ 0]) (simp add: clamp_def cube_step_def nearest_step_def kSteps_def abs_if)
  next
    case 2
    then show ?thesis
      by (intro exI [of _ 1]) (simp add: clamp_def cube_step_def nearest_step_def kSteps_def abs_if)
  next
    case 3
    then have "(v - 35) div 40 = 2" by simp
    with 3 show ?thesis by (intro exI [of _ 2]) (simp add: clamp_def cube_step_def nearest_step_def kSteps_def abs_if)
  next
    case 4
    then have "(v - 35) div 40 = 3" by simp
    with 4 show ?thesis by (intro exI [of _ 3]) (simp add: clamp_def cube_step_def nearest_step_def kSteps_def abs_if)
  next
    case 5
    then have "(v - 35) div 40 = 4" by simp
    with 5 show ?thesis by (intro exI [of _ 4]) (simp add: clamp_def cube_step_def nearest_step_def kSteps_def abs_if)
  next
    case 6
    then have "(v - 35) div 40 = 5" using assms by simp
    with 6 assms show ?thesis by (intro exI [of _ 5]) (simp add: clamp_def cube_step_def nearest_step_def kSteps_def abs_if)
  qed
  then show ?thesis using that by blast
qed

lemma palette_cube:
  assumes "i < 6" and "j < 6" and "k < 6"
  shows "palette (word_of_int (16 + 36 * int i + 6 * int j + int k)) = hexColour (kSteps ! i) (kSteps ! j) (kSteps ! k)"
proof -
  define m where "m = (i * 6 + j) * 6 + k"
  have m: "m mod 6 = k" "m div 6 = i * 6 + j"
    using assms(3) unfolding m_def by (simp_all only: mod_mult_self3 mod_less div_mult_self3 div_less)
  have "m div 36 = m div 6 div 6" by (simp add: div_mult2_eq [symmetric])
  then have "m div 36 = i" "m div 6 mod 6 = j" "m < 216" using assms m by (auto simp: m_def)
  moreover have "unat (of_nat (16 + m) :: byte) = 16 + m"
    using \<open>m < 216\<close> by (simp add: unat_of_nat del: of_nat_add)
  ultimately have "palette (of_nat (16 + m)) = hexColour (kSteps ! i) (kSteps ! j) (kSteps ! k)"
    using m by (simp add: palette_def Let_def del: of_nat_add)
  then show ?thesis by (simp add: m_def add.assoc mult.commute)
qed

text \<open>A true-colour request gets the nearest colour the console can show: the palette entry that
  \<open>quantizeRgbTo256\<close> selects is rendered with, in every channel, a step of the 6x6x6 cube no
  other step is closer than.
\<close>

theorem quantize_nearest:
  assumes "0 \<le> r" and "r \<le> 255" and "0 \<le> g" and "g \<le> 255" and "0 \<le> b" and "b \<le> 255"
  shows "\<exists>R G B. palette (quantizeRgbTo256 r g b) = hexColour R G B
           \<and> nearest_step r R \<and> nearest_step g G \<and> nearest_step b B"
proof -
  obtain i j k where "clamp (cube_step r) 0 5 = int i" "i < 6" "nearest_step r (kSteps ! i)"
    and "clamp (cube_step g) 0 5 = int j" "j < 6" "nearest_step g (kSteps ! j)"
    and "clamp (cube_step b) 0 5 = int k" "k < 6" "nearest_step b (kSteps ! k)"
    using assms by (metis cube_step_nearest)
  then show ?thesis
    using palette_cube [of i j k] unfolding quantizeRgbTo256_def Let_def by metis
qed

theorem quantize_nearest_witness:
  "\<exists>R G B. palette (quantizeRgbTo256 255 94 0) = hexColour R G B
     \<and> nearest_step 255 R \<and> nearest_step 94 G \<and> nearest_step 0 B"
  by (rule quantize_nearest) simp_all

section \<open>A truncated UTF-8 sequence\<close>

text \<open>A lead byte whose continuation never arrives is not given up when ASCII text follows. The
  next accented character is lost: after \<open>C3\<close>, the letter A and the two bytes of a correctly encoded
  character, the console decodes the two lead bytes together and shows a question mark for
  the character's second byte.
\<close>

theorem utf8_carry_not_resynchronised:
  assumes "fromUtf8 [0xC3, 0xC3] = c # cs"
  shows "map (\<lambda>i. cell_ch (cellAt 0 i (vt_screen (vt_feed fromUtf8 [0xC3, 0x41, 0xC3, 0xA9] (newVt newScreen))))) [0, 1, 2]
           = [0x41, c, 0x3F]"
  using assms
  by (simp add: vt_byte_def groundByte_def consumeUtf8_def newVt_def newScreen_def kEsc_def on_screen_def Let_def
      putCellAtCursor_def setCell_def scr_emit_def cellAt_def qlit_def)

theorem utf8_carry_not_resynchronised_witness:
  "map (\<lambda>i. cell_ch (cellAt 0 i (vt_screen (vt_feed (\<lambda>bs. replicate (length bs) 0xFFFD) [0xC3, 0x41, 0xC3, 0xA9]
     (newVt newScreen))))) [0, 1, 2] = [0x41, 0xFFFD, 0x3F]"
  by (rule utf8_carry_not_resynchronised [where cs = "[0xFFFD]"]) (simp add: numeral_2_eq_2)

end
