(* ===== verification/Recorders.thy ===== *)
theory Recorders
  imports Prelude
begin

text \<open>
  What the application writes to disk while a session runs: the asciicast recording of the serial
  console (\<open>app/src/asciicast_recorder.cpp\<close>), the QuickTime file of the KVM picture
  (\<open>app/src/mjpeg_mov_recorder.cpp\<close>) and the proposed file names (\<open>app/src/filename_formatter.cpp\<close>).

  A file is the list of its bytes; how many bytes of a write reach it is a parameter, and so are
  Qt's UTF-8 decoder, JSON writer, JPEG encoder and locale.
\<close>

section \<open>Asciicast\<close>

record cast_env =
  ce_fromUtf8 :: "bytes \<Rightarrow> qstring"
  ce_header :: "int \<Rightarrow> int \<Rightarrow> qstring \<Rightarrow> bytes"
  ce_event :: "nat \<Rightarrow> qstring \<Rightarrow> bytes"
  ce_open :: "qstring \<Rightarrow> bool"
  ce_write :: "bytes \<Rightarrow> bytes \<Rightarrow> nat"

text \<open>
  \<open>cast_decoded\<close> records what was handed to the UTF-8 decoder, in order; the program keeps no such list.
\<close>

record cast =
  cast_open :: bool
  cast_file :: bytes
  cast_tail :: bytes
  cast_decoded :: "bytes list"

definition newCast :: cast where
  "newCast = \<lparr>cast_open = False, cast_file = [], cast_tail = [], cast_decoded = []\<rparr>"

text \<open>The bytes a sequence needs, by its lead byte; 0 for a byte that cannot lead.\<close>

definition sequenceLength :: "byte \<Rightarrow> nat" where
  "sequenceLength b =
     (if b AND 0xE0 = 0xC0 then 2 else if b AND 0xF0 = 0xE0 then 3 else if b AND 0xF8 = 0xF0 then 4 else 0)"

text \<open>The loop of \<open>incompleteUtf8TailLen\<close>, on the bytes from the last one backwards.\<close>

fun tailScan :: "nat \<Rightarrow> bytes \<Rightarrow> nat" where
  "tailScan back [] = 0"
| "tailScan back (b # bs) =
     (if back > 3 then 0
      else if b AND 0x80 = 0 then 0
      else if b AND 0xC0 = 0x80 then tailScan (back + 1) bs
      else if sequenceLength b = 0 then 0
      else if back < sequenceLength b then back else 0)"

definition incompleteUtf8TailLen :: "bytes \<Rightarrow> nat" where
  "incompleteUtf8TailLen b = tailScan 1 (rev b)"

definition fileWrite :: "(bytes \<Rightarrow> bytes \<Rightarrow> nat) \<Rightarrow> bytes \<Rightarrow> bytes \<Rightarrow> nat \<times> bytes" where
  "fileWrite w file data = (min (w file data) (length data), file @ take (w file data) data)"

definition cast_event :: "cast_env \<Rightarrow> nat \<Rightarrow> bytes \<Rightarrow> cast \<Rightarrow> cast" where
  "cast_event env time buf c =
     (let line = ce_event env time (ce_fromUtf8 env buf) @ [10]
      in c\<lparr>cast_file := snd (fileWrite (ce_write env) (cast_file c) line), cast_decoded := cast_decoded c @ [buf]\<rparr>)"

definition cast_stop :: "cast_env \<Rightarrow> nat \<Rightarrow> cast \<Rightarrow> cast" where
  "cast_stop env time c =
     (if \<not> cast_open c then c\<lparr>cast_tail := []\<rparr>
      else
        let c = (if cast_tail c \<noteq> [] then (cast_event env time (cast_tail c) c)\<lparr>cast_tail := []\<rparr> else c)
        in c\<lparr>cast_open := False\<rparr>)"

definition cast_start :: "cast_env \<Rightarrow> nat \<Rightarrow> qstring \<Rightarrow> int \<Rightarrow> int \<Rightarrow> qstring \<Rightarrow> cast \<Rightarrow> bool \<times> cast" where
  "cast_start env time path cols rows title c =
     (let c = (if cast_open c then cast_stop env time c else c)
      in if path = [] \<or> cols \<le> 0 \<or> rows \<le> 0 then (False, c)
         else if \<not> ce_open env path then (False, c)
         else
           let line = ce_header env cols rows title @ [10];
               (n, file) = fileWrite (ce_write env) [] line
           in if n \<noteq> length line then (False, c\<lparr>cast_file := file, cast_open := False\<rparr>)
              else (True, c\<lparr>cast_file := file, cast_open := True, cast_tail := [], cast_decoded := []\<rparr>))"

definition pushBytes :: "cast_env \<Rightarrow> nat \<Rightarrow> bytes \<Rightarrow> cast \<Rightarrow> cast" where
  "pushBytes env time b c =
     (if \<not> cast_open c \<or> b = [] then c
      else
        let buf = cast_tail c @ b;
            tailLen = incompleteUtf8TailLen buf;
            c = c\<lparr>cast_tail := drop (length buf - tailLen) buf\<rparr>;
            buf = take (length buf - tailLen) buf
        in if buf = [] then c else cast_event env time buf c)"

section \<open>QuickTime\<close>

definition appendU16 :: "u16 \<Rightarrow> bytes" where
  "appendU16 v = [ucast (drop_bit 8 v), ucast v]"

definition appendU32 :: "u32 \<Rightarrow> bytes" where
  "appendU32 v = [ucast (drop_bit 24 v), ucast (drop_bit 16 v), ucast (drop_bit 8 v), ucast v]"

definition atom :: "string \<Rightarrow> bytes \<Rightarrow> bytes" where
  "atom fourcc payload = appendU32 (of_nat (8 + length payload)) @ blit fourcc @ payload"

definition buildFtypPayload :: bytes where
  "buildFtypPayload = blit ''qt  '' @ appendU32 0x00000200 @ blit ''qt  ''"

definition mov_matrix :: bytes where
  "mov_matrix = concat (map appendU32 [0x00010000, 0, 0, 0, 0x00010000, 0, 0, 0, 0x40000000])"

definition buildMvhdPayload :: "u32 \<Rightarrow> u32 \<Rightarrow> bytes" where
  "buildMvhdPayload timescale duration =
     appendU32 0 @ appendU32 0 @ appendU32 0 @ appendU32 timescale @ appendU32 duration @ appendU32 0x00010000
     @ appendU16 0x0100 @ replicate 10 0 @ mov_matrix @ replicate 24 0 @ appendU32 2"

definition buildTkhdPayload :: "u32 \<Rightarrow> u32 \<Rightarrow> int \<Rightarrow> int \<Rightarrow> bytes" where
  "buildTkhdPayload trackId duration width height =
     appendU32 0x00000007 @ appendU32 0 @ appendU32 0 @ appendU32 trackId @ appendU32 0 @ appendU32 duration
     @ replicate 8 0 @ appendU16 0 @ appendU16 0 @ appendU16 0 @ appendU16 0 @ mov_matrix
     @ appendU32 (push_bit 16 (word_of_int width)) @ appendU32 (push_bit 16 (word_of_int height))"

definition buildMdhdPayload :: "u32 \<Rightarrow> u32 \<Rightarrow> bytes" where
  "buildMdhdPayload timescale duration =
     appendU32 0 @ appendU32 0 @ appendU32 0 @ appendU32 timescale @ appendU32 duration @ appendU16 0x55C4 @ appendU16 0"

definition buildHdlrPayload :: bytes where
  "buildHdlrPayload = appendU32 0 @ appendU32 0 @ blit ''vide'' @ replicate 12 0 @ blit ''VideoHandler'' @ [0]"

definition buildVmhdPayload :: bytes where
  "buildVmhdPayload = appendU32 0x00000001 @ appendU16 0 @ appendU16 0 @ appendU16 0 @ appendU16 0"

definition buildDrefPayload :: bytes where
  "buildDrefPayload = appendU32 0 @ appendU32 1 @ atom ''url '' (appendU32 0x00000001)"

definition buildStsdPayloadJpeg :: "int \<Rightarrow> int \<Rightarrow> bytes" where
  "buildStsdPayloadJpeg width height =
     (let entry = appendU32 0 @ appendU16 0 @ appendU16 1 @ appendU16 0 @ appendU16 0
            @ appendU32 0 @ appendU32 0 @ appendU32 0 @ appendU16 (word_of_int width) @ appendU16 (word_of_int height)
            @ appendU32 0x00480000 @ appendU32 0x00480000 @ appendU32 0 @ appendU16 1
            @ [11] @ blit ''Motion JPEG'' @ replicate 20 0 @ appendU16 24 @ appendU16 0xFFFF
      in appendU32 0 @ appendU32 1 @ atom ''jpeg'' entry)"

definition buildSttsPayload :: "u32 \<Rightarrow> bytes" where
  "buildSttsPayload sampleCount = appendU32 0 @ appendU32 1 @ appendU32 sampleCount @ appendU32 1"

definition buildStscPayload :: "u32 \<Rightarrow> bytes" where
  "buildStscPayload sampleCount = appendU32 0 @ appendU32 1 @ appendU32 1 @ appendU32 sampleCount @ appendU32 1"

definition buildStszPayload :: "u32 list \<Rightarrow> bytes" where
  "buildStszPayload sampleSizes =
     appendU32 0 @ appendU32 0 @ appendU32 (of_nat (length sampleSizes)) @ concat (map appendU32 sampleSizes)"

definition buildStcoPayload :: "u32 \<Rightarrow> bytes" where
  "buildStcoPayload chunkOffset = appendU32 0 @ appendU32 1 @ appendU32 chunkOffset"

text \<open>
  \<open>me_jpeg\<close> is the JPEG encoder on a picture scaled to the size of the recording, \<open>None\<close> when it fails
  or the picture is null.
\<close>

record 'i mov_env =
  me_open :: "qstring \<Rightarrow> bool"
  me_write :: "bytes \<Rightarrow> bytes \<Rightarrow> nat"
  me_jpeg :: "int \<Rightarrow> int \<Rightarrow> 'i \<Rightarrow> int \<Rightarrow> bytes option"

record Sample =
  sample_size :: u32
  sample_offset :: u32

record mov =
  mov_open :: bool
  mov_file :: bytes
  mov_width :: int
  mov_height :: int
  mov_fps :: int
  mov_mdatSizeOffset :: nat
  mov_mdatPayloadStart :: nat
  mov_frames :: "Sample list"

definition newMov :: mov where
  "newMov = \<lparr>mov_open = False, mov_file = [], mov_width = 0, mov_height = 0, mov_fps = 5, mov_mdatSizeOffset = 0,
     mov_mdatPayloadStart = 0, mov_frames = []\<rparr>"

definition mov_write :: "'i mov_env \<Rightarrow> bytes \<Rightarrow> mov \<Rightarrow> nat \<times> mov" where
  "mov_write env data m = (let (n, file) = fileWrite (me_write env) (mov_file m) data in (n, m\<lparr>mov_file := file\<rparr>))"

definition writeFtyp :: "'i mov_env \<Rightarrow> mov \<Rightarrow> bool \<times> mov" where
  "writeFtyp env m =
     (let box = atom ''ftyp'' buildFtypPayload; (n, m) = mov_write env box m in (n = length box, m))"

definition beginMdat :: "'i mov_env \<Rightarrow> mov \<Rightarrow> bool \<times> mov" where
  "beginMdat env m =
     (let m = m\<lparr>mov_mdatSizeOffset := length (mov_file m)\<rparr>;
          m = snd (mov_write env (appendU32 0) m);
          m = snd (mov_write env (blit ''mdat'') m)
      in (True, m\<lparr>mov_mdatPayloadStart := length (mov_file m)\<rparr>))"

definition patchU32At :: "nat \<Rightarrow> u32 \<Rightarrow> mov \<Rightarrow> mov" where
  "patchU32At off v m = m\<lparr>mov_file := take off (mov_file m) @ appendU32 v @ drop (off + 4) (mov_file m)\<rparr>"

definition moovPayload :: "mov \<Rightarrow> bytes" where
  "moovPayload m =
     (let nSamples = of_nat (length (mov_frames m)); timescale = word_of_int (mov_fps m); duration = nSamples;
          stbl = atom ''stsd'' (buildStsdPayloadJpeg (mov_width m) (mov_height m)) @ atom ''stts'' (buildSttsPayload nSamples)
            @ atom ''stsc'' (buildStscPayload nSamples) @ atom ''stsz'' (buildStszPayload (map sample_size (mov_frames m)))
            @ atom ''stco'' (buildStcoPayload (if nSamples = 0 then 0 else of_nat (mov_mdatPayloadStart m)));
          dinf = atom ''dref'' buildDrefPayload;
          minf = atom ''vmhd'' buildVmhdPayload @ atom ''dinf'' dinf @ atom ''stbl'' stbl;
          mdia = atom ''mdhd'' (buildMdhdPayload timescale duration) @ atom ''hdlr'' buildHdlrPayload @ atom ''minf'' minf;
          trak = atom ''tkhd'' (buildTkhdPayload 1 duration (mov_width m) (mov_height m)) @ atom ''mdia'' mdia
      in atom ''mvhd'' (buildMvhdPayload timescale duration) @ atom ''trak'' trak)"

definition writeMoov :: "'i mov_env \<Rightarrow> mov \<Rightarrow> mov" where
  "writeMoov env m = snd (mov_write env (atom ''moov'' (moovPayload m)) m)"

definition mov_stop :: "'i mov_env \<Rightarrow> mov \<Rightarrow> mov" where
  "mov_stop env m =
     (if \<not> mov_open m then m
      else
        let m = patchU32At (mov_mdatSizeOffset m) (of_nat (length (mov_file m) - mov_mdatSizeOffset m)) m;
            m = writeMoov env m
        in m\<lparr>mov_open := False, mov_frames := []\<rparr>)"

definition mov_start :: "'i mov_env \<Rightarrow> qstring \<Rightarrow> int \<Rightarrow> int \<Rightarrow> int \<Rightarrow> mov \<Rightarrow> bool \<times> mov" where
  "mov_start env path width height fps m =
     (let m = (if mov_open m then mov_stop env m else m)
      in if path = [] \<or> width \<le> 0 \<or> height \<le> 0 \<or> fps \<le> 0 then (False, m)
         else if \<not> me_open env path then (False, m)
         else
           let m = m\<lparr>mov_open := True, mov_file := [], mov_width := width, mov_height := height, mov_fps := fps, mov_frames := []\<rparr>;
               (ok, m) = writeFtyp env m
           in if \<not> ok then (False, m\<lparr>mov_open := False\<rparr>)
              else
                let (ok, m) = beginMdat env m
                in if \<not> ok then (False, m\<lparr>mov_open := False\<rparr>) else (True, m))"

definition pushFrame :: "'i mov_env \<Rightarrow> 'i \<Rightarrow> int \<Rightarrow> mov \<Rightarrow> bool \<times> mov" where
  "pushFrame env img quality m =
     (if \<not> mov_open m then (False, m)
      else case me_jpeg env (mov_width m) (mov_height m) img quality of
          None \<Rightarrow> (False, m)
        | Some jpeg \<Rightarrow>
            let s = \<lparr>sample_size = of_nat (length jpeg), sample_offset = of_nat (length (mov_file m))\<rparr>;
                (n, m) = mov_write env jpeg m
            in if n \<noteq> length jpeg then (False, m) else (True, m\<lparr>mov_frames := mov_frames m @ [s]\<rparr>))"

section \<open>File names\<close>

definition kBad :: qstring where
  "kBad = [92, 47, 58, 42, 63, 34, 60, 62, 124]"

definition sanitize :: "qstring \<Rightarrow> qstring" where
  "sanitize s = map (\<lambda>c. if c \<in> set kBad then 46 else c) s"

text \<open>The date, the localised time and the translated connector are Qt's.\<close>

definition formatName :: "qstring \<Rightarrow> qstring \<Rightarrow> qstring \<Rightarrow> (qstring \<Rightarrow> qstring) \<Rightarrow> qstring \<Rightarrow> qstring \<Rightarrow> qstring" where
  "formatName prefix ext date toTime shortPattern at =
     (let is12Hour = (104 \<in> set shortPattern);
          timePattern = (if is12Hour then qlit ''h.mm.ss AP'' else qlit ''HH.mm.ss'');
          time = sanitize (toTime timePattern)
      in (if prefix \<noteq> [] then sanitize prefix @ [32] else []) @ date @ [32] @ at @ [32] @ time
         @ (if ext \<noteq> [] then [46] @ ext else []))"

section \<open>The recording holds whole characters\<close>

text \<open>The framing of UTF-8: an ASCII byte, or a lead byte followed by the continuation bytes it announces.\<close>

definition continuation :: "byte \<Rightarrow> bool" where
  "continuation b \<longleftrightarrow> b AND 0xC0 = 0x80"

definition charLength :: "byte \<Rightarrow> nat" where
  "charLength b = (if b AND 0x80 = 0 then 1 else sequenceLength b)"

definition utf8_char :: "bytes \<Rightarrow> bool" where
  "utf8_char c \<longleftrightarrow> c \<noteq> [] \<and> length c = charLength (hd c) \<and> list_all continuation (tl c)"

definition whole_chars :: "bytes \<Rightarrow> bool" where
  "whole_chars b \<longleftrightarrow> (\<exists>cs. list_all utf8_char cs \<and> b = concat cs)"

lemma continuation_not_ascii: "continuation b \<Longrightarrow> b AND 0x80 \<noteq> 0"
proof
  assume "continuation b" and "b AND 0x80 = 0"
  moreover have "b AND 0x80 = (b AND 0xC0) AND 0x80" by (simp add: and.assoc)
  ultimately show False by (simp add: continuation_def)
qed

lemma sequenceLength_le: "sequenceLength b \<le> 4"
  by (simp add: sequenceLength_def)

lemma sequenceLength_lead:
  assumes "sequenceLength b \<noteq> 0"
  shows "b AND 0x80 \<noteq> 0" and "\<not> continuation b"
proof -
  have e: "b AND 0xC0 = (b AND 0xE0) AND 0xC0" "b AND 0xC0 = (b AND 0xF0) AND 0xC0" "b AND 0xC0 = (b AND 0xF8) AND 0xC0"
    by (simp_all add: and.assoc)
  have "b AND 0xC0 = 0xC0"
    using assms e by (cases "b AND 0xE0 = 0xC0"; cases "b AND 0xF0 = 0xE0") (simp_all add: sequenceLength_def split: if_splits)
  moreover have "b AND 0x80 = (b AND 0xC0) AND 0x80" by (simp add: and.assoc)
  ultimately show "b AND 0x80 \<noteq> 0" and "\<not> continuation b" by (simp_all add: continuation_def)
qed

lemma tailScan_continuations:
  "list_all continuation cs \<Longrightarrow> k + length cs \<le> 4 \<Longrightarrow> 0 < k \<Longrightarrow>
   tailScan k (cs @ bs) = tailScan (k + length cs) bs"
proof (induction cs arbitrary: k)
  case (Cons c cs)
  have "k \<le> 3" using Cons.prems by simp
  then have "tailScan k ((c # cs) @ bs) = tailScan (k + 1) (cs @ bs)"
    using Cons.prems continuation_not_ascii[of c] by (simp add: continuation_def)
  also have "\<dots> = tailScan (k + 1 + length cs) bs"
    using Cons.prems by (intro Cons.IH) simp_all
  finally show ?case by simp
qed simp

lemma tailScan_lead:
  "sequenceLength b \<noteq> 0 \<Longrightarrow> tailScan k (b # bs) = (if k \<le> 3 \<and> k < sequenceLength b then k else 0)"
  using sequenceLength_lead[of b] by (simp add: continuation_def)

lemma rev_continuations [simp]: "list_all continuation (rev cs) = list_all continuation cs"
  by (simp add: list_all_iff)

lemma tail_of_char: "utf8_char c \<Longrightarrow> tailScan 1 (rev c @ bs) = 0"
proof (cases c)
  case (Cons b cs)
  assume "utf8_char c"
  then have len: "length c = charLength b" and cont: "list_all continuation cs"
    using Cons by (simp_all add: utf8_char_def)
  show ?thesis
  proof (cases "b AND 0x80 = 0")
    case True
    then show ?thesis using len Cons by (simp add: charLength_def)
  next
    case False
    then have n: "sequenceLength b = 1 + length cs" using len Cons by (simp add: charLength_def)
    have "tailScan 1 (rev cs @ b # bs) = tailScan (1 + length cs) (b # bs)"
      using tailScan_continuations[of "rev cs" 1 "b # bs"] cont n sequenceLength_le[of b] by simp
    also have "\<dots> = 0" using n by (subst tailScan_lead) simp_all
    finally show ?thesis using Cons by simp
  qed
qed (simp add: utf8_char_def)

lemma tail_of_partial:
  assumes "p = b # cs" and "list_all continuation cs" and "length p < sequenceLength b"
  shows "tailScan 1 (rev p @ bs) = length p"
proof -
  have "tailScan 1 (rev cs @ b # bs) = tailScan (1 + length cs) (b # bs)"
    using tailScan_continuations[of "rev cs" 1 "b # bs"] assms sequenceLength_le[of b] by simp
  also have "\<dots> = length p" using assms sequenceLength_le[of b] by (subst tailScan_lead) simp_all
  finally show ?thesis using assms(1) by simp
qed

text \<open>A prefix of a well-framed stream is whole characters and the beginning of one more.\<close>

lemma whole_prefix:
  assumes "list_all utf8_char cs" and "buf @ rest = concat cs"
  shows "\<exists>ds p es. list_all utf8_char ds \<and> list_all utf8_char es \<and> buf = concat ds @ p \<and> p @ rest = concat es
           \<and> (p = [] \<or> (\<exists>e es'. es = e # es' \<and> length p < length e))"
  using assms
proof (induction cs arbitrary: buf)
  case Nil
  then show ?case by (intro exI[of _ "[]"]) simp
next
  case (Cons c cs)
  show ?case
  proof (cases "length buf < length c")
    case True
    then show ?thesis using Cons.prems by (intro exI[of _ "[]"] exI[of _ buf] exI[of _ "c # cs"]) simp
  next
    case False
    then obtain buf' where b: "buf = c @ buf'" "buf' @ rest = concat cs"
      using Cons.prems(2) by (auto simp: append_eq_append_conv2)
    then obtain ds p es where "list_all utf8_char ds" "list_all utf8_char es" "buf' = concat ds @ p"
        "p @ rest = concat es" "p = [] \<or> (\<exists>e es'. es = e # es' \<and> length p < length e)"
      using Cons.IH[of buf'] Cons.prems(1) by (metis list.pred_inject(2))
    then show ?thesis
      using Cons.prems(1) b(1) by (intro exI[of _ "c # ds"] exI[of _ p] exI[of _ es]) simp
  qed
qed

lemma whole_chars_append [intro]: "whole_chars a \<Longrightarrow> whole_chars b \<Longrightarrow> whole_chars (a @ b)"
  unfolding whole_chars_def by (metis concat_append list_all_append)

lemma tailLen_partial:
  assumes "list_all utf8_char ds" and "p = [] \<or> (\<exists>e es'. es = e # es' \<and> length p < length e)"
    and "list_all utf8_char es" and "p @ rest = concat es"
  shows "incompleteUtf8TailLen (concat ds @ p) = length p \<and> length p \<le> 3"
proof (cases p)
  case Nil
  then show ?thesis
    using assms(1) tail_of_char by (cases ds rule: rev_cases) (simp_all add: incompleteUtf8TailLen_def)
next
  case (Cons b cs)
  then obtain e es' where e: "es = e # es'" "length p < length e" "utf8_char e" using assms(2,3) by auto
  then have "p = take (length p) e" using assms(4) by (simp add: append_eq_append_conv_if)
  then obtain c where c: "e = p @ c" by (metis append_take_drop_id)
  then have "length e = charLength b" "list_all continuation cs" using e Cons by (simp_all add: utf8_char_def)
  then have k: "length p < charLength b" "list_all continuation cs" using e(2) by simp_all
  then have "charLength b \<noteq> 1" using Cons by simp
  then have "charLength b = sequenceLength b" by (simp add: charLength_def split: if_splits)
  then show ?thesis
    using k tail_of_partial[OF Cons, of "rev (concat ds)"] sequenceLength_le[of b] by (simp add: incompleteUtf8TailLen_def)
qed

text \<open>What a push hands to the decoder, and what it keeps.\<close>

lemma pushBytes_split:
  assumes "cast_open c" and "whole_chars (cast_tail c @ b @ rest)"
  shows "\<exists>w. whole_chars w \<and> cast_tail c @ b = w @ cast_tail (pushBytes env t b c)
           \<and> cast_open (pushBytes env t b c)
           \<and> concat (cast_decoded (pushBytes env t b c)) = concat (cast_decoded c) @ w
           \<and> (list_all whole_chars (cast_decoded c) \<longrightarrow> list_all whole_chars (cast_decoded (pushBytes env t b c)))
           \<and> (b \<noteq> [] \<longrightarrow> length (cast_tail (pushBytes env t b c)) \<le> 3)
           \<and> whole_chars (cast_tail (pushBytes env t b c) @ rest)"
proof (cases "b = []")
  case True
  then show ?thesis
    using assms by (intro exI[of _ "[]"]) (auto simp: pushBytes_def whole_chars_def intro: exI[of _ "[]"])
next
  case False
  obtain cs where "list_all utf8_char cs" "(cast_tail c @ b) @ rest = concat cs"
    using assms(2) by (auto simp: whole_chars_def)
  from whole_prefix[OF this] obtain ds p es where d: "list_all utf8_char ds" "list_all utf8_char es"
      "cast_tail c @ b = concat ds @ p" "p @ rest = concat es" "p = [] \<or> (\<exists>e es'. es = e # es' \<and> length p < length e)"
    by blast
  have l: "incompleteUtf8TailLen (cast_tail c @ b) = length p" "length p \<le> 3"
    using tailLen_partial[OF d(1) d(5) d(2) d(4)] d(3) by simp_all
  have w: "whole_chars (concat ds)" "whole_chars (p @ rest)" using d by (auto simp: whole_chars_def)
  have "pushBytes env t b c
      = (if concat ds = [] then c\<lparr>cast_tail := p\<rparr> else cast_event env t (concat ds) (c\<lparr>cast_tail := p\<rparr>))"
    using assms(1) False l(1) by (simp add: pushBytes_def d(3) Let_def)
  then show ?thesis
    using d(3) w l(2) assms(1) by (intro exI[of _ "concat ds"]) (simp add: cast_event_def Let_def)
qed

definition push_all :: "cast_env \<Rightarrow> (nat \<times> bytes) list \<Rightarrow> cast \<Rightarrow> cast" where
  "push_all env chunks c = fold (\<lambda>(t, b). pushBytes env t b) chunks c"

lemma push_all_split:
  assumes "cast_open c" and "whole_chars (cast_tail c @ concat (map snd chunks) @ rest)"
    and "list_all whole_chars (cast_decoded c)" and "length (cast_tail c) \<le> 3"
  shows "concat (cast_decoded (push_all env chunks c)) @ cast_tail (push_all env chunks c)
           = concat (cast_decoded c) @ cast_tail c @ concat (map snd chunks)
       \<and> list_all whole_chars (cast_decoded (push_all env chunks c)) \<and> length (cast_tail (push_all env chunks c)) \<le> 3"
  using assms
proof (induction chunks arbitrary: c)
  case (Cons x chunks)
  obtain t b where x: "x = (t, b)" by fastforce
  let ?c = "pushBytes env t b c"
  have pa: "push_all env (x # chunks) c = push_all env chunks ?c" by (simp add: push_all_def x)
  obtain w where w: "cast_tail c @ b = w @ cast_tail ?c" "cast_open ?c" "concat (cast_decoded ?c) = concat (cast_decoded c) @ w"
      "list_all whole_chars (cast_decoded ?c)" "b \<noteq> [] \<Longrightarrow> length (cast_tail ?c) \<le> 3"
      "whole_chars (cast_tail ?c @ concat (map snd chunks) @ rest)"
    using pushBytes_split[of c b "concat (map snd chunks) @ rest" env t] Cons.prems x by auto
  have "length (cast_tail ?c) \<le> 3"
    using w(5) Cons.prems(4) by (cases "b = []") (simp_all add: pushBytes_def)
  note ih = Cons.IH[OF w(2,6,4) this]
  have "concat (cast_decoded ?c) @ cast_tail ?c = concat (cast_decoded c) @ cast_tail c @ b"
    using w(1,3) by simp
  then have "concat (cast_decoded ?c) @ cast_tail ?c @ concat (map snd chunks)
      = concat (cast_decoded c) @ cast_tail c @ concat (map snd (x # chunks))"
    unfolding x by (metis append.assoc concat.simps(2) list.map(2) snd_conv)
  then show ?case using ih unfolding pa by metis
qed (simp add: push_all_def)

text \<open>The console's bytes arrive in reads that cut characters anywhere. Whatever the cuts, as long as
  the stream is framed as UTF-8, every text the recorder hands to the decoder is made of whole characters,
  no byte is lost, duplicated or reordered, and at most three bytes wait for the next read.\<close>

theorem cast_whole_characters:
  assumes "cast_start env t0 path cols rows title c0 = (True, c)"
    and "whole_chars (concat (map snd chunks) @ rest)"
  shows "list_all whole_chars (cast_decoded (push_all env chunks c))
       \<and> concat (cast_decoded (push_all env chunks c)) @ cast_tail (push_all env chunks c) = concat (map snd chunks)
       \<and> length (cast_tail (push_all env chunks c)) \<le> 3"
proof -
  have "cast_open c \<and> cast_tail c = [] \<and> cast_decoded c = []"
    using assms(1) by (auto simp: cast_start_def Let_def split: if_splits prod.splits)
  then show ?thesis using push_all_split[of c chunks rest env] assms(2) by simp
qed

definition exCastEnv :: cast_env where
  "exCastEnv = \<lparr>ce_fromUtf8 = map ucast, ce_header = (\<lambda>c r t. [123, 125]), ce_event = (\<lambda>t s. map ucast s),
     ce_open = (\<lambda>p. True), ce_write = (\<lambda>f d. length d)\<rparr>"

lemma cast_whole_characters_witness:
  "cast_decoded (push_all exCastEnv [(1, [104, 0xE2, 0x82]), (2, [0xAC, 0xC3])]
      (snd (cast_start exCastEnv 0 [97] 80 24 [] newCast))) = [[104], [0xE2, 0x82, 0xAC]]
   \<and> list_all whole_chars (cast_decoded (push_all exCastEnv [(1, [104, 0xE2, 0x82]), (2, [0xAC, 0xC3])]
      (snd (cast_start exCastEnv 0 [97] 80 24 [] newCast))))"
proof
  let ?c = "snd (cast_start exCastEnv 0 [97] 80 24 [] newCast)"
  have s: "cast_start exCastEnv 0 [97] 80 24 [] newCast = (True, ?c)"
    by (simp add: cast_start_def exCastEnv_def newCast_def fileWrite_def)
  show "cast_decoded (push_all exCastEnv [(1, [104, 0xE2, 0x82]), (2, [0xAC, 0xC3])] ?c) = [[104], [0xE2, 0x82, 0xAC]]"
    by (simp add: push_all_def pushBytes_def cast_start_def exCastEnv_def newCast_def fileWrite_def cast_event_def
        incompleteUtf8TailLen_def sequenceLength_def)
  have "list_all utf8_char [[104], [0xE2, 0x82, 0xAC], [0xC3, 0xA9]]"
    by (simp add: utf8_char_def charLength_def sequenceLength_def continuation_def)
  then have "whole_chars (concat (map snd [(1 :: nat, [104, 0xE2, 0x82]), (2, [0xAC, 0xC3])]) @ [0xA9])"
    unfolding whole_chars_def by (intro exI[of _ "[[104], [0xE2, 0x82, 0xAC], [0xC3, 0xA9]]"]) simp
  from cast_whole_characters[OF s this]
  show "list_all whole_chars (cast_decoded (push_all exCastEnv [(1, [104, 0xE2, 0x82]), (2, [0xAC, 0xC3])] ?c))"
    by simp
qed

section \<open>The QuickTime file\<close>

lemma length_appendU32 [simp]: "length (appendU32 v) = 4"
  by (simp add: appendU32_def)

lemma length_appendU16 [simp]: "length (appendU16 v) = 2"
  by (simp add: appendU16_def)

lemma length_atom [simp]: "length (atom f p) = 4 + length f + length p"
  by (simp add: atom_def)

text \<open>A writer that takes every byte it is given.\<close>

definition writes_fully :: "'i mov_env \<Rightarrow> bool" where
  "writes_fully env \<longleftrightarrow> (\<forall>f d. length d \<le> me_write env f d)"

lemma mov_write_full: "writes_fully env \<Longrightarrow> mov_write env d m = (length d, m\<lparr>mov_file := mov_file m @ d\<rparr>)"
  by (simp add: mov_write_def fileWrite_def writes_fully_def)

definition push_frames :: "'i mov_env \<Rightarrow> ('i \<times> int) list \<Rightarrow> mov \<Rightarrow> mov" where
  "push_frames env frames m = fold (\<lambda>(img, quality) m. snd (pushFrame env img quality m)) frames m"

text \<open>The pictures of a recording, as the encoder made them; a picture it refuses is skipped.\<close>

definition jpegs :: "'i mov_env \<Rightarrow> int \<Rightarrow> int \<Rightarrow> ('i \<times> int) list \<Rightarrow> bytes list" where
  "jpegs env w h frames = List.map_filter (\<lambda>(img, quality). me_jpeg env w h img quality) frames"

text \<open>A player cuts the samples of the one chunk one after the other, by the sizes of \<open>stsz\<close>.\<close>

fun slices :: "nat \<Rightarrow> nat list \<Rightarrow> bytes \<Rightarrow> bytes list" where
  "slices off [] file = []"
| "slices off (n # ns) file = mid file off n # slices (off + n) ns file"

lemma slices_concat:
  "length pre = off \<Longrightarrow> slices off (map length js) (pre @ concat js @ post) = js"
proof (induction js arbitrary: off pre)
  case (Cons j js)
  have "slices (off + length j) (map length js) ((pre @ j) @ concat js @ post) = js"
    using Cons.prems by (intro Cons.IH) simp
  then show ?case using Cons.prems mid_hit[of pre off j "length j" "concat js @ post"] by simp
qed simp

text \<open>The state of an open recording that holds the pictures \<open>js\<close>.\<close>

definition mov_header :: bytes where
  "mov_header = atom ''ftyp'' buildFtypPayload"

definition recording :: "int \<Rightarrow> int \<Rightarrow> bytes list \<Rightarrow> mov \<Rightarrow> bool" where
  "recording w h js m \<longleftrightarrow> mov_open m \<and> mov_width m = w \<and> mov_height m = h
     \<and> mov_file m = mov_header @ appendU32 0 @ blit ''mdat'' @ concat js
     \<and> mov_mdatSizeOffset m = length mov_header \<and> mov_mdatPayloadStart m = length mov_header + 8
     \<and> map sample_size (mov_frames m) = map (of_nat \<circ> length) js"

lemma start_recording:
  assumes "writes_fully env" and "mov_start env path w h fps m0 = (True, m)"
  shows "recording w h [] m"
  using assms
  by (auto simp: mov_start_def recording_def mov_header_def writeFtyp_def beginMdat_def mov_write_full Let_def split: if_splits)

lemma push_recording:
  assumes "writes_fully env" and "recording w h js m"
  shows "recording w h (js @ jpegs env w h [(img, quality)]) (snd (pushFrame env img quality m))"
  using assms
  by (auto simp: pushFrame_def recording_def mov_write_full jpegs_def List.map_filter_def Let_def split: option.splits)

lemma jpegs_append: "jpegs env w h (xs @ ys) = jpegs env w h xs @ jpegs env w h ys"
  by (simp add: jpegs_def List.map_filter_def)

lemma push_frames_recording:
  "writes_fully env \<Longrightarrow> recording w h js m \<Longrightarrow> recording w h (js @ jpegs env w h frames) (push_frames env frames m)"
proof (induction frames arbitrary: js m)
  case Nil
  then show ?case by (simp add: push_frames_def jpegs_def List.map_filter_def)
next
  case (Cons x frames)
  obtain img quality where x: "x = (img, quality)" by fastforce
  show ?case
    using Cons.IH[OF Cons.prems(1) push_recording[OF Cons.prems]] jpegs_append[of env w h "[x]" frames]
    by (simp add: push_frames_def x)
qed

lemma stop_recording:
  assumes "writes_fully env" and "recording w h js m"
  shows "mov_file (mov_stop env m) = mov_header @ atom ''mdat'' (concat js)
           @ atom ''moov'' (moovPayload (m\<lparr>mov_file := mov_header @ atom ''mdat'' (concat js)\<rparr>))"
  using assms
  by (simp add: mov_stop_def recording_def writeMoov_def patchU32At_def mov_write_full Let_def atom_def add.commute)

subsection \<open>A player\<close>

text \<open>
  A QuickTime reader, written from the file format and not from the recorder. A file is a sequence of atoms, each with its size,
  big endian, and its name before its payload; an atom that does not fit what is left makes the file unreadable. The sample table is
  at \<open>moov/trak/mdia/minf/stbl\<close>: \<open>stsz\<close> has the sizes of the samples, \<open>stco\<close> the offsets of the chunks in the file, and
  \<open>stsc\<close>, here with one entry for all chunks, the number of samples in a chunk.
\<close>

definition qt_u32 :: "bytes \<Rightarrow> nat \<Rightarrow> u32" where
  "qt_u32 b off = push_bit 24 (ucast (b ! off)) OR push_bit 16 (ucast (b ! (off + 1)))
     OR push_bit 8 (ucast (b ! (off + 2))) OR ucast (b ! (off + 3))"

interpretation qt32: int_codec appendU32 qt_u32 4
  by unfold_locales (simp_all add: appendU32_def qt_u32_def nth_append byte_order_simps)

function qt_boxes :: "bytes \<Rightarrow> (bytes \<times> bytes) list option" where
  "qt_boxes b =
     (if b = [] then Some []
      else if length b < 8 then None
      else let n = unat (qt_u32 b 0)
           in if n < 8 \<or> length b < n then None
              else map_option (Cons (mid b 4 4, mid b 8 (n - 8))) (qt_boxes (drop n b)))"
  by pat_completeness auto
termination
  by (relation "measure length") auto

declare qt_boxes.simps [simp del]

definition qt_child :: "string \<Rightarrow> bytes \<Rightarrow> bytes option" where
  "qt_child nm b = Option.bind (qt_boxes b) (\<lambda>bs. map_of bs (blit nm))"

definition qt_table :: "bytes \<Rightarrow> nat \<Rightarrow> nat \<Rightarrow> nat list option" where
  "qt_table b off n = (if off + 4 * n \<le> length b then Some (map (\<lambda>i. unat (qt_u32 b (off + 4 * i))) [0..<n]) else None)"

definition qt_sizes :: "bytes \<Rightarrow> nat list option" where
  "qt_sizes b =
     (if length b < 12 then None
      else if qt_u32 b 4 \<noteq> 0 then Some (replicate (unat (qt_u32 b 8)) (unat (qt_u32 b 4)))
      else qt_table b 12 (unat (qt_u32 b 8)))"

definition qt_offsets :: "bytes \<Rightarrow> nat list option" where
  "qt_offsets b = (if length b < 8 then None else qt_table b 8 (unat (qt_u32 b 4)))"

definition qt_perChunk :: "bytes \<Rightarrow> nat option" where
  "qt_perChunk b = (if length b < 20 \<or> qt_u32 b 4 \<noteq> 1 \<or> qt_u32 b 8 \<noteq> 1 then None else Some (unat (qt_u32 b 12)))"

fun qt_chunks :: "nat \<Rightarrow> nat list \<Rightarrow> nat list \<Rightarrow> bytes \<Rightarrow> bytes list" where
  "qt_chunks k [] sizes file = []"
| "qt_chunks k (off # offs) sizes file = slices off (take k sizes) file @ qt_chunks k offs (drop k sizes) file"

definition qt_play :: "bytes \<Rightarrow> bytes list option" where
  "qt_play file =
     Option.bind (qt_child ''moov'' file) (\<lambda>moov. Option.bind (qt_child ''trak'' moov) (\<lambda>trak.
     Option.bind (qt_child ''mdia'' trak) (\<lambda>mdia. Option.bind (qt_child ''minf'' mdia) (\<lambda>minf.
     Option.bind (qt_child ''stbl'' minf) (\<lambda>stbl.
     Option.bind (Option.bind (qt_child ''stsz'' stbl) qt_sizes) (\<lambda>sizes.
     Option.bind (Option.bind (qt_child ''stco'' stbl) qt_offsets) (\<lambda>offsets.
     Option.bind (Option.bind (qt_child ''stsc'' stbl) qt_perChunk) (\<lambda>k.
       Some (qt_chunks k offsets sizes file)))))))))"

lemma qt_boxes_Nil [simp]: "qt_boxes [] = Some []"
  by (simp add: qt_boxes.simps)

lemma qt_boxes_atom [simp]:
  assumes "length f = 4" and "8 + length p < 2 ^ 32"
  shows "qt_boxes (atom f p @ r) = map_option (Cons (blit f, p)) (qt_boxes r)"
proof -
  have n: "unat (of_nat (8 + length p) :: u32) = 8 + length p"
    using assms(2) by (simp only: unat_of_nat) simp
  have u: "qt_u32 (atom f p @ r) 0 = of_nat (8 + length p)"
    unfolding atom_def append_assoc using qt32.read_hit [of "[]"] by simp
  have f: "length (blit f) = 4" using assms(1) by (simp add: blit_def)
  have "mid (atom f p @ r) 4 4 = blit f" "mid (atom f p @ r) 8 (length p) = p" "drop (8 + length p) (atom f p @ r) = r"
    using f by (simp_all add: atom_def mid_def)
  moreover have "8 \<le> length (atom f p @ r)" "8 + length p \<le> length (atom f p @ r)" "atom f p @ r \<noteq> []"
    using assms(1) by (simp_all add: atom_def appendU32_def)
  ultimately show ?thesis
    by (subst qt_boxes.simps) (simp add: u n del: of_nat_add)
qed

lemma qt_boxes_last [simp]: "length f = 4 \<Longrightarrow> 8 + length p < 2 ^ 32 \<Longrightarrow> qt_boxes (atom f p) = Some [(blit f, p)]"
  using qt_boxes_atom [of f p "[]"] by simp

lemma concat_appendU32_read: "i < length vs \<Longrightarrow> length pre = off \<Longrightarrow> qt_u32 (pre @ concat (map appendU32 vs)) (off + 4 * i) = vs ! i"
proof (induction vs arbitrary: i pre off)
  case (Cons v vs)
  show ?case
  proof (cases i)
    case 0
    then show ?thesis using Cons.prems qt32.read_hit [of pre off v] by simp
  next
    case (Suc j)
    then show ?thesis using Cons.IH [of j "pre @ appendU32 v" "off + 4"] Cons.prems by (simp add: ac_simps)
  qed
qed simp

lemma stsz_read:
  assumes "length vs < 2 ^ 32"
  shows "qt_sizes (buildStszPayload vs) = Some (map unat vs)"
proof -
  let ?b = "buildStszPayload vs" and ?pre = "appendU32 0 @ appendU32 0 @ appendU32 (of_nat (length vs))"
  have "qt_u32 ?b 4 = 0" "qt_u32 ?b 8 = of_nat (length vs)"
    unfolding buildStszPayload_def using qt32.read_hit [of "appendU32 0" 4 0] qt32.read_hit [of "appendU32 0 @ appendU32 0" 8] by simp_all
  moreover have "unat (of_nat (length vs) :: u32) = length vs" using assms by (simp add: unat_of_nat)
  moreover have "map (\<lambda>i. unat (qt_u32 ?b (12 + 4 * i))) [0..<length vs] = map unat vs"
    by (rule nth_equalityI) (use concat_appendU32_read [of _ vs ?pre 12] in \<open>simp_all add: buildStszPayload_def\<close>)
  moreover have "length ?b = 12 + 4 * length vs" by (simp add: buildStszPayload_def length_concat comp_def sum_list_triv)
  ultimately show ?thesis by (simp add: qt_sizes_def qt_table_def)
qed

lemma stco_read: "qt_offsets (buildStcoPayload v) = Some [unat v]"
proof -
  have "qt_u32 (buildStcoPayload v) 4 = 1" "qt_u32 (buildStcoPayload v) 8 = v"
    unfolding buildStcoPayload_def
    using qt32.read_hit [of "appendU32 0" 4 1 "appendU32 v"] qt32.read_hit [of "appendU32 0 @ appendU32 1" 8 v "[]"] by simp_all
  then show ?thesis by (simp add: qt_offsets_def qt_table_def buildStcoPayload_def)
qed

lemma stsc_read: "qt_perChunk (buildStscPayload v) = Some (unat v)"
proof -
  have "qt_u32 (buildStscPayload v) 4 = 1" "qt_u32 (buildStscPayload v) 8 = 1" "qt_u32 (buildStscPayload v) 12 = v"
    unfolding buildStscPayload_def
    using qt32.read_hit [of "appendU32 0" 4 1] qt32.read_hit [of "appendU32 0 @ appendU32 1" 8 1]
      qt32.read_hit [of "appendU32 0 @ appendU32 1 @ appendU32 1" 12 v] by simp_all
  then show ?thesis by (simp add: qt_perChunk_def buildStscPayload_def)
qed

lemma length_payloads [simp]:
  "length buildFtypPayload = 12" "length mov_matrix = 36" "length (buildMvhdPayload t d) = 100" "length (buildTkhdPayload i d w h) = 84"
  "length (buildMdhdPayload t d) = 24" "length buildHdlrPayload = 37" "length buildVmhdPayload = 12" "length buildDrefPayload = 20"
  "length (buildStsdPayloadJpeg w h) = 94" "length (buildSttsPayload n) = 16" "length (buildStscPayload n) = 20"
  "length (buildStcoPayload n) = 12" "length (buildStszPayload vs) = 12 + 4 * length vs"
  by (simp_all add: buildFtypPayload_def mov_matrix_def buildMvhdPayload_def buildTkhdPayload_def buildMdhdPayload_def buildHdlrPayload_def
      buildVmhdPayload_def buildDrefPayload_def buildStsdPayloadJpeg_def buildSttsPayload_def buildStscPayload_def buildStcoPayload_def
      buildStszPayload_def blit_def Let_def length_concat comp_def sum_list_triv)

lemma blit_inject: "blit a = blit b \<longleftrightarrow> a = b"
proof -
  have "inj (of_char :: char \<Rightarrow> byte)"
  proof (rule injI)
    fix c d assume "(of_char c :: byte) = of_char d"
    then have "unat (of_nat (of_char c) :: byte) = unat (of_nat (of_char d) :: byte)" by (simp only: of_nat_of_char)
    then have "(of_char c :: nat) = of_char d"
      using nat_of_char_less_256 [of c] nat_of_char_less_256 [of d] by (simp only: unat_of_nat) simp
    then show "c = d" by simp
  qed
  then show ?thesis by (auto simp: blit_def inj_map_eq_map)
qed

lemma qt_child_skip: "length f = 4 \<Longrightarrow> 8 + length p < 2 ^ 32 \<Longrightarrow> f \<noteq> nm \<Longrightarrow> qt_child nm (atom f p @ r) = qt_child nm r"
  by (cases "qt_boxes r") (simp_all add: qt_child_def blit_inject)

lemma qt_child_here: "length nm = 4 \<Longrightarrow> 8 + length p < 2 ^ 32 \<Longrightarrow> qt_boxes r = Some bs \<Longrightarrow> qt_child nm (atom nm p @ r) = Some p"
  by (simp add: qt_child_def)

lemma qt_child_last: "length nm = 4 \<Longrightarrow> 8 + length p < 2 ^ 32 \<Longrightarrow> qt_child nm (atom nm p) = Some p"
  using qt_child_here [of nm p "[]" "[]"] by simp

lemmas qt_child_simps = qt_child_skip qt_child_here qt_child_last

text \<open>What the reader finds in the \<open>moov\<close> of a recording.\<close>

lemma moov_read:
  assumes "8 + length (moovPayload m) < 2 ^ 32"
  shows "\<exists>trak mdia minf stbl. qt_child ''trak'' (moovPayload m) = Some trak \<and> qt_child ''mdia'' trak = Some mdia
     \<and> qt_child ''minf'' mdia = Some minf \<and> qt_child ''stbl'' minf = Some stbl
     \<and> qt_child ''stsz'' stbl = Some (buildStszPayload (map sample_size (mov_frames m)))
     \<and> qt_child ''stsc'' stbl = Some (buildStscPayload (of_nat (length (mov_frames m))))
     \<and> qt_child ''stco'' stbl = Some (buildStcoPayload (if mov_frames m = [] then 0 else of_nat (mov_mdatPayloadStart m)))"
proof -
  let ?n = "of_nat (length (mov_frames m)) :: u32" and ?t = "word_of_int (mov_fps m) :: u32"
  let ?off = "if mov_frames m = [] then 0 else of_nat (mov_mdatPayloadStart m)"
  have l: "length (moovPayload m) = 4 * length (mov_frames m) + 559" by (simp add: moovPayload_def Let_def)
  then have "unat ?n = length (mov_frames m)" using assms by (simp add: unat_of_nat)
  then have nz: "?n = 0 \<longleftrightarrow> mov_frames m = []" by (metis length_0_conv unat_eq_0)
  define stbl where "stbl = atom ''stsd'' (buildStsdPayloadJpeg (mov_width m) (mov_height m)) @ atom ''stts'' (buildSttsPayload ?n)
    @ atom ''stsc'' (buildStscPayload ?n) @ atom ''stsz'' (buildStszPayload (map sample_size (mov_frames m))) @ atom ''stco'' (buildStcoPayload ?off)"
  define minf where "minf = atom ''vmhd'' buildVmhdPayload @ atom ''dinf'' (atom ''dref'' buildDrefPayload) @ atom ''stbl'' stbl"
  define mdia where "mdia = atom ''mdhd'' (buildMdhdPayload ?t ?n) @ atom ''hdlr'' buildHdlrPayload @ atom ''minf'' minf"
  define trak where "trak = atom ''tkhd'' (buildTkhdPayload 1 ?n (mov_width m) (mov_height m)) @ atom ''mdia'' mdia"
  have moov: "moovPayload m = atom ''mvhd'' (buildMvhdPayload ?t ?n) @ atom ''trak'' trak"
    by (simp add: moovPayload_def Let_def nz trak_def mdia_def minf_def stbl_def)
  have len: "length stbl = 4 * length (mov_frames m) + 194" "length minf = 4 * length (mov_frames m) + 258"
    "length mdia = 4 * length (mov_frames m) + 343" "length trak = 4 * length (mov_frames m) + 443"
    by (simp_all add: trak_def mdia_def minf_def stbl_def)
  have s: "4 * length (mov_frames m) + 567 < 2 ^ 32" using assms l by simp
  have "qt_child ''trak'' (moovPayload m) = Some trak" unfolding moov using s len by (simp add: qt_child_simps)
  moreover have "qt_child ''mdia'' trak = Some mdia" using s len unfolding trak_def by (simp add: qt_child_simps)
  moreover have "qt_child ''minf'' mdia = Some minf" using s len unfolding mdia_def by (simp add: qt_child_simps)
  moreover have "qt_child ''stbl'' minf = Some stbl" using s len unfolding minf_def by (simp add: qt_child_simps)
  moreover have "qt_child ''stsz'' stbl = Some (buildStszPayload (map sample_size (mov_frames m)))"
    "qt_child ''stsc'' stbl = Some (buildStscPayload ?n)" "qt_child ''stco'' stbl = Some (buildStcoPayload ?off)"
    using s unfolding stbl_def by (simp_all add: qt_child_simps)
  ultimately show ?thesis by blast
qed

text \<open>C39: When no write falls short and the file stays below 4 GiB, a finished KVM recording is a QuickTime file that a player
  can read: it finds the \<open>moov\<close> behind the \<open>ftyp\<close> and the \<open>mdat\<close>, whose size was patched in afterwards, takes the number of
  samples per chunk, the chunk offset and the sample sizes from \<open>stsc\<close>, \<open>stco\<close> and \<open>stsz\<close> in the file's own bytes, and cuts
  out every picture the encoder produced, in order, and nothing else.\<close>

theorem mov_frames_recovered:
  assumes "writes_fully env" and "mov_start env path w h fps m0 = (True, m1)"
    and "length (mov_file (mov_stop env (push_frames env frames m1))) < 2 ^ 32"
  shows "qt_play (mov_file (mov_stop env (push_frames env frames m1))) = Some (jpegs env w h frames)"
proof -
  let ?m = "push_frames env frames m1" and ?js = "jpegs env w h frames"
  define m where "m = ?m\<lparr>mov_file := mov_header @ atom ''mdat'' (concat ?js)\<rparr>"
  define mv where "mv = mov_file (mov_stop env ?m)"
  have rec: "recording w h ?js ?m"
    using push_frames_recording[OF assms(1) start_recording[OF assms(1,2)], of frames] by simp
  have layout: "mv = atom ''ftyp'' buildFtypPayload @ atom ''mdat'' (concat ?js) @ atom ''moov'' (moovPayload m)"
    using stop_recording[OF assms(1) rec] by (simp add: mv_def m_def mov_header_def)
  have small: "8 + length (concat ?js) < 2 ^ 32" "8 + length (moovPayload m) < 2 ^ 32" using assms(3) layout by (simp_all add: mv_def)
  have frames: "map sample_size (mov_frames m) = map (of_nat \<circ> length) ?js" "mov_mdatPayloadStart m = 28"
    using rec by (simp_all add: m_def recording_def mov_header_def)
  have count: "length (mov_frames m) = length ?js" using arg_cong [OF frames(1), of length] by simp
  have "length (mov_frames m) < 2 ^ 32" using small(2) by (simp add: moovPayload_def Let_def)
  then have n: "unat (of_nat (length (mov_frames m)) :: u32) = length ?js" "length (map sample_size (mov_frames m)) < 2 ^ 32"
    using count by (simp_all add: unat_of_nat)
  have "length j < 2 ^ 32" if "j \<in> set ?js" for j
  proof -
    have "length j \<le> length (concat ?js)" using that by (simp add: length_concat member_le_sum_list)
    then show ?thesis using small(1) by simp
  qed
  then have sizes: "map unat (map sample_size (mov_frames m)) = map length ?js" unfolding frames(1) by (simp add: unat_of_nat)
  have moov: "qt_child ''moov'' mv = Some (moovPayload m)"
    unfolding layout using small by (simp add: qt_child_simps)
  obtain sz r where "mv = (atom ''ftyp'' buildFtypPayload @ appendU32 sz @ blit ''mdat'') @ concat ?js @ r"
    using layout by (simp add: atom_def [of "''mdat''"])
  then have cut: "slices 28 (map length ?js) mv = ?js"
    using slices_concat[of "atom ''ftyp'' buildFtypPayload @ appendU32 sz @ blit ''mdat''" 28 ?js r] by (simp add: blit_def)
  have "qt_play mv = Some (slices (if mov_frames m = [] then 0 else 28) (map length ?js) mv)"
    using moov_read [OF small(2)] moov stsz_read [OF n(2)] frames(2)
    by (elim exE conjE) (simp add: qt_play_def stco_read stsc_read n(1) sizes del: map_map)
  moreover have "slices (if mov_frames m = [] then 0 else 28) (map length ?js) mv = ?js"
    using cut count by (cases ?js) auto
  ultimately show ?thesis by (simp add: mv_def)
qed

definition exMovEnv :: "bytes mov_env" where
  "exMovEnv = \<lparr>me_open = (\<lambda>p. True), me_write = (\<lambda>f d. length d), me_jpeg = (\<lambda>w h i q. if i = [] then None else Some i)\<rparr>"

lemma mov_frames_recovered_witness:
  "qt_play (mov_file (mov_stop exMovEnv (push_frames exMovEnv [([1, 2], 75), ([], 75), ([3, 4, 5], 75)]
      (snd (mov_start exMovEnv [97] 640 480 5 newMov))))) = Some [[1, 2], [3, 4, 5]]"
proof -
  let ?m1 = "snd (mov_start exMovEnv [97] 640 480 5 newMov)" and ?frames = "[([1, 2], 75), ([], 75), ([3, 4, 5], 75)] :: (bytes \<times> int) list"
  have start: "mov_start exMovEnv [97] 640 480 5 newMov = (True, ?m1)"
    by (simp add: mov_start_def exMovEnv_def newMov_def writeFtyp_def beginMdat_def mov_write_def fileWrite_def Let_def)
  have full: "writes_fully exMovEnv" by (simp add: writes_fully_def exMovEnv_def)
  have js: "jpegs exMovEnv 640 480 ?frames = [[1, 2], [3, 4, 5]]" by (simp add: jpegs_def exMovEnv_def List.map_filter_def)
  have rec: "recording 640 480 [[1, 2], [3, 4, 5]] (push_frames exMovEnv ?frames ?m1)"
    using push_frames_recording[OF full start_recording[OF full start], of ?frames] js by simp
  then have "length (mov_frames (push_frames exMovEnv ?frames ?m1)) = 2" by (auto simp: recording_def dest: arg_cong [of _ _ length])
  then have "length (mov_file (mov_stop exMovEnv (push_frames exMovEnv ?frames ?m1))) < 2 ^ 32"
    using stop_recording[OF full rec] by (simp add: mov_header_def moovPayload_def Let_def)
  from mov_frames_recovered[OF full start this] js show ?thesis by simp
qed

text \<open>The bytes of a frame that did not fit stay in the file, and no later frame knows: the sample table
  holds sizes only, and the offset kept with each sample is never written. After a short write of \<open>k\<close> bytes
  the next picture is cut \<open>k\<close> bytes too early, from the remains of the lost one.\<close>

theorem mov_short_write_misaligned:
  assumes "recording w h [] m" and "me_jpeg env w h img1 q1 = Some j1" and "me_write env (mov_file m) j1 = k" and "k < length j1"
    and "me_jpeg env w h img2 q2 = Some j2" and "\<And>f. length j2 \<le> me_write env f j2" and "length j2 < 2 ^ 32"
  shows "(let m = snd (pushFrame env img2 q2 (snd (pushFrame env img1 q1 m)))
     in map (unat \<circ> sample_size) (mov_frames m) = [length j2]
      \<and> slices (mov_mdatPayloadStart m) [length j2] (mov_file m) = [take (length j2) (take k j1 @ j2)])"
proof -
  let ?m1 = "m\<lparr>mov_file := mov_file m @ take k j1\<rparr>"
  let ?m2 = "?m1\<lparr>mov_file := mov_file m @ take k j1 @ j2,
      mov_frames := [\<lparr>sample_size = of_nat (length j2), sample_offset = of_nat (length (mov_file ?m1))\<rparr>]\<rparr>"
  have "snd (pushFrame env img1 q1 m) = ?m1"
    using assms(1-4) by (simp add: pushFrame_def recording_def mov_write_def fileWrite_def)
  moreover have "snd (pushFrame env img2 q2 ?m1) = ?m2"
    using assms(1,5,6) by (simp add: pushFrame_def recording_def mov_write_def fileWrite_def)
  moreover have "mid (mov_file m @ take k j1 @ j2) (mov_mdatPayloadStart m) (length j2) = take (length j2) (take k j1 @ j2)"
    using assms(1) by (simp add: recording_def mid_def)
  ultimately show ?thesis using assms(7) by (simp add: unat_of_nat)
qed

definition exShortEnv :: "bytes mov_env" where
  "exShortEnv = \<lparr>me_open = (\<lambda>p. True), me_write = (\<lambda>f d. if length d = 3 then 2 else length d),
     me_jpeg = (\<lambda>w h i q. Some i)\<rparr>"

lemma mov_short_write_misaligned_witness:
  "(let m = snd (pushFrame exShortEnv [9, 10] 75
              (snd (pushFrame exShortEnv [1, 2, 3] 75 (snd (mov_start exShortEnv [97] 8 8 5 newMov)))))
    in slices (mov_mdatPayloadStart m) [length [9 :: byte, 10]] (mov_file m) = [[1, 2]])"
proof -
  let ?m = "snd (mov_start exShortEnv [97] 8 8 5 newMov)"
  have "recording 8 8 [] ?m"
    by (simp add: mov_start_def recording_def mov_header_def writeFtyp_def beginMdat_def mov_write_def fileWrite_def exShortEnv_def
        atom_def buildFtypPayload_def)
  moreover have "\<And>img. me_jpeg exShortEnv 8 8 img 75 = Some img" and "\<And>f. me_write exShortEnv f [1, 2, 3] = 2"
    and "\<And>f. length [9, 10 :: byte] \<le> me_write exShortEnv f [9, 10]"
    by (simp_all add: exShortEnv_def)
  moreover have "take (length [9, 10 :: byte]) (take 2 [1, 2, 3] @ [9, 10]) = [1, 2 :: byte]" by simp
  ultimately show ?thesis
    using mov_short_write_misaligned[of 8 8 ?m exShortEnv "[1, 2, 3]" 75 "[1, 2, 3]" 2 "[9, 10]" 75 "[9, 10]"]
    unfolding Let_def by simp
qed

end
