(* ===== verification/Ssh_Session.thy ===== *)
theory Ssh_Session
  imports Prelude
begin

text \<open>
  The SSH tunnel's session: the worker that drives libssh (\<open>ssh/src/ssh_session.cpp\<close>), the object on
  the user-interface thread in front of it, and the host that owns it and forwards the host-key prompt
  (\<open>app/src/sshtunnelhost.cpp\<close>).

  libssh, the resolver and the file system are parameters. A call that the worker polls is given as
  the observations of its polling loop, the last one being the one at which the deadline has passed.
  The two threads talk through queues: commands one way, signals the other.
\<close>

section \<open>Data\<close>

datatype AuthMode = AuthPassword | AuthKey

datatype ssh_state = SshDisconnected | SshConnecting | NeedsHostKeyTrust | SshAuthenticating | SshConnected | SshFailed

record Params =
  p_host :: qstring
  p_port :: u16
  p_user :: qstring
  p_authMode :: AuthMode
  p_password :: qstring
  p_privateKeyPath :: qstring
  p_privateKeyPassphrase :: qstring
  p_trusted :: "qstring list"
  p_connectTimeoutMs :: int
  p_compression :: bool

datatype ssh_keytype = KeyRsa | KeyEcdsaP256 | KeyEcdsaP384 | KeyEcdsaP521 | KeyEd25519 | KeyDss | KeyOther

text \<open>
  What the worker says and does, in order: its signals, and the calls of libssh that reach the network.
  \<open>AuthAttempt\<close> carries the fingerprint of the server it went to.
\<close>

datatype ssh_out =
    SshStateChanged ssh_state
  | SshErrorOccurred qstring
  | HostKeyPromptRequired qstring qstring
  | HostKeyVerifiedByPin qstring
  | HostKeyTrusted qstring
  | SshConnect qstring
  | AuthAttempt "qstring option" AuthMode
  | SshDisconnect

record host_info =
  hi_failed :: bool
  hi_addresses :: "qstring list"

text \<open>The observations of one round of \<open>waitForLibssh\<close>: the stop flag and the answer of the call.\<close>

type_synonym ticks = "(bool \<times> int) list"

record ssh_lib =
  lib_new :: "ssh_out list \<Rightarrow> bool"
  lib_isAddress :: "qstring \<Rightarrow> bool"
  lib_resolve :: "ssh_out list \<Rightarrow> qstring \<Rightarrow> (host_info option \<times> bool) list"
  lib_options :: "ssh_out list \<Rightarrow> qstring \<Rightarrow> Params \<Rightarrow> bool"
  lib_setCompression :: "ssh_out list \<Rightarrow> bool"
  lib_error :: "ssh_out list \<Rightarrow> qstring"
  lib_connect :: "ssh_out list \<Rightarrow> ticks"
  lib_serverHash :: "ssh_out list \<Rightarrow> bytes"
  lib_hostKey :: "ssh_out list \<Rightarrow> (bool \<times> ssh_keytype) option"
  lib_userauth :: "ssh_out list \<Rightarrow> AuthMode \<Rightarrow> ticks"
  lib_exists :: "qstring \<Rightarrow> bool"
  lib_importKey :: "qstring \<Rightarrow> qstring \<Rightarrow> bool"

text \<open>
  \<open>w_peer\<close> is what the libssh session object knows of its server: the SHA-256 hash of the key the server
  proved in the key exchange. It is there from the moment \<open>ssh_connect\<close> succeeds, whether or not the worker
  looks at it, and until the session is dropped.
\<close>

record worker =
  w_session :: bool
  w_peer :: "bytes option"
  w_params :: Params
  w_awaiting :: bool
  w_fingerprint :: qstring
  w_keyType :: qstring
  w_outs :: "ssh_out list"

definition defaultParams :: Params where
  "defaultParams = \<lparr>p_host = [], p_port = 22, p_user = [], p_authMode = AuthPassword, p_password = [],
     p_privateKeyPath = [], p_privateKeyPassphrase = [], p_trusted = [], p_connectTimeoutMs = 15000, p_compression = False\<rparr>"

definition newWorker :: worker where
  "newWorker = \<lparr>w_session = False, w_peer = None, w_params = defaultParams, w_awaiting = False, w_fingerprint = [],
     w_keyType = [], w_outs = []\<rparr>"

section \<open>Helpers\<close>

definition hexDigit :: "nat \<Rightarrow> qchar" where
  "hexDigit n = (if n < 10 then of_nat (48 + n) else of_nat (55 + n))"

fun hexFingerprint :: "bytes \<Rightarrow> qstring" where
  "hexFingerprint [] = []"
| "hexFingerprint [b] = [hexDigit (unat b div 16), hexDigit (unat b mod 16)]"
| "hexFingerprint (b # bs) = [hexDigit (unat b div 16), hexDigit (unat b mod 16), 58] @ hexFingerprint bs"

fun keyTypeName :: "ssh_keytype \<Rightarrow> qstring" where
  "keyTypeName KeyRsa = qlit ''RSA''"
| "keyTypeName KeyEcdsaP256 = qlit ''ECDSA P-256''"
| "keyTypeName KeyEcdsaP384 = qlit ''ECDSA P-384''"
| "keyTypeName KeyEcdsaP521 = qlit ''ECDSA P-521''"
| "keyTypeName KeyEd25519 = qlit ''Ed25519''"
| "keyTypeName KeyDss = qlit ''DSA''"
| "keyTypeName KeyOther = qlit ''(unknown)''"

definition sshErrorString :: "ssh_lib \<Rightarrow> worker \<Rightarrow> qstring \<Rightarrow> qstring" where
  "sshErrorString lib w fallback =
     (if \<not> w_session w then fallback
      else if lib_error lib (w_outs w) = [] then fallback else lib_error lib (w_outs w))"

text \<open>The polling loop of \<open>resolveHostCancellable\<close>: the address, and whether it was cancelled.\<close>

fun resolveLoop :: "(host_info option \<times> bool) list \<Rightarrow> qstring \<times> bool" where
  "resolveLoop [] = ([], False)"
| "resolveLoop ((Some r, stop) # ts) =
     (if hi_failed r \<or> hi_addresses r = [] then ([], False) else (hd (hi_addresses r), False))"
| "resolveLoop ((None, stop) # ts) = (if stop then ([], True) else resolveLoop ts)"

definition resolveHostCancellable :: "ssh_lib \<Rightarrow> worker \<Rightarrow> qstring \<Rightarrow> qstring \<times> bool" where
  "resolveHostCancellable lib w hostOrIp =
     (if lib_isAddress lib hostOrIp then (hostOrIp, False) else resolveLoop (lib_resolve lib (w_outs w) hostOrIp))"

definition SSH_OK :: int where "SSH_OK = 0"
definition SSH_ERROR :: int where "SSH_ERROR = -1"
definition SSH_AGAIN :: int where "SSH_AGAIN = -2"
definition SSH_ABORTED :: int where "SSH_ABORTED = -100"
definition SSH_AUTH_SUCCESS :: int where "SSH_AUTH_SUCCESS = 0"
definition SSH_AUTH_DENIED :: int where "SSH_AUTH_DENIED = 1"
definition SSH_AUTH_AGAIN :: int where "SSH_AUTH_AGAIN = 4"

fun waitForLibssh :: "worker \<Rightarrow> ticks \<Rightarrow> int" where
  "waitForLibssh w [] = SSH_ERROR"
| "waitForLibssh w ((stop, rc) # ts) =
     (if stop then SSH_ABORTED
      else if rc \<noteq> SSH_AGAIN \<and> rc \<noteq> SSH_AUTH_AGAIN then rc
      else if \<not> w_session w then SSH_ABORTED
      else waitForLibssh w ts)"

definition w_emit :: "ssh_out list \<Rightarrow> worker \<Rightarrow> worker" where
  "w_emit xs w = w\<lparr>w_outs := w_outs w @ xs\<rparr>"

definition dropSession :: "worker \<Rightarrow> worker" where
  "dropSession w = (if w_session w then w_emit [SshDisconnect] (w\<lparr>w_session := False, w_peer := None\<rparr>) else w)"

definition ssh_fail :: "qstring \<Rightarrow> worker \<Rightarrow> worker" where
  "ssh_fail msg w = w_emit [SshErrorOccurred msg, SshStateChanged SshFailed] (dropSession w)"

section \<open>The worker\<close>

text \<open>\<open>ssh_connect\<close>, driven by the polling loop: on success the session is with the server that answered.\<close>

definition connectServer :: "ssh_lib \<Rightarrow> qstring \<Rightarrow> worker \<Rightarrow> int \<times> worker" where
  "connectServer lib resolved w =
     (let rc = waitForLibssh w (lib_connect lib (w_outs w));
          w = if rc = SSH_OK then w\<lparr>w_peer := Some (lib_serverHash lib (w_outs w))\<rparr> else w
      in (rc, w_emit [SshConnect resolved] w))"

text \<open>\<open>ssh_get_server_publickey\<close> and \<open>ssh_get_publickey_hash\<close>: either may fail, and an unconnected session has no key.\<close>

definition serverKey :: "ssh_lib \<Rightarrow> worker \<Rightarrow> (bytes option \<times> ssh_keytype) option" where
  "serverKey lib w =
     (case w_peer w of None \<Rightarrow> None
      | Some hash \<Rightarrow> map_option (\<lambda>(computed, keyType). (if computed then Some hash else None, keyType)) (lib_hostKey lib (w_outs w)))"

definition verifyHostKey :: "ssh_lib \<Rightarrow> worker \<Rightarrow> bool \<times> worker" where
  "verifyHostKey lib w =
     (case serverKey lib w of
        None \<Rightarrow> (False, ssh_fail (qlit ''Failed to read remote host key'') w)
      | Some (None, keyType) \<Rightarrow> (False, ssh_fail (qlit ''Failed to compute host key fingerprint'') w)
      | Some (Some hash, keyType) \<Rightarrow>
          let fp = hexFingerprint hash
          in if fp \<in> set (p_trusted (w_params w)) then (True, w_emit [HostKeyVerifiedByPin fp] w)
             else
               let w = w\<lparr>w_fingerprint := fp, w_keyType := keyTypeName keyType, w_awaiting := True\<rparr>
               in (False, w_emit [SshStateChanged NeedsHostKeyTrust, HostKeyPromptRequired fp (keyTypeName keyType)] w))"

definition authResult :: "ssh_lib \<Rightarrow> int \<Rightarrow> worker \<Rightarrow> worker" where
  "authResult lib rc w =
     (if rc = SSH_ABORTED then w
      else if rc = SSH_AUTH_SUCCESS then w_emit [SshStateChanged SshConnected] w
      else if rc = SSH_AUTH_DENIED then ssh_fail (qlit ''SSH authentication denied'') w
      else ssh_fail (sshErrorString lib w (qlit ''SSH authentication failed'')) w)"

text \<open>The call \<open>ssh_userauth_password\<close> or \<open>ssh_userauth_publickey\<close>, driven by the polling loop.\<close>

definition authenticate :: "ssh_lib \<Rightarrow> AuthMode \<Rightarrow> worker \<Rightarrow> worker" where
  "authenticate lib mode w =
     (let rc = waitForLibssh w (lib_userauth lib (w_outs w) mode); w = w_emit [AuthAttempt (map_option hexFingerprint (w_peer w)) mode] w
      in authResult lib rc w)"

definition proceedWithAuth :: "ssh_lib \<Rightarrow> worker \<Rightarrow> worker" where
  "proceedWithAuth lib w =
     (let w = w_emit [SshStateChanged SshAuthenticating] w; p = w_params w
      in case p_authMode p of
           AuthPassword \<Rightarrow> authenticate lib AuthPassword w
         | AuthKey \<Rightarrow>
             if p_privateKeyPath p = [] then ssh_fail (qlit ''Private key path is empty'') w
             else if \<not> lib_exists lib (p_privateKeyPath p)
             then ssh_fail (qlit ''Private key file does not exist: '' @ p_privateKeyPath p) w
             else if \<not> lib_importKey lib (p_privateKeyPath p) (p_privateKeyPassphrase p)
             then ssh_fail (qlit ''Failed to read private key (wrong passphrase?)'') w
             else authenticate lib AuthKey w)"

definition connectResult :: "ssh_lib \<Rightarrow> int \<Rightarrow> worker \<Rightarrow> worker" where
  "connectResult lib connectRc w =
     (if connectRc = SSH_ABORTED then w
      else if connectRc \<noteq> SSH_OK then ssh_fail (sshErrorString lib w (qlit ''ssh_connect failed'')) w
      else case verifyHostKey lib w of (ok, w) \<Rightarrow> if \<not> ok then w else proceedWithAuth lib w)"

definition worker_open :: "ssh_lib \<Rightarrow> Params \<Rightarrow> worker \<Rightarrow> worker" where
  "worker_open lib p w =
     (let w = w_emit [SshStateChanged SshConnecting] (w\<lparr>w_params := p\<rparr>);
          w = dropSession w
      in if \<not> lib_new lib (w_outs w) then ssh_fail (qlit ''ssh_new() failed'') w
         else
           let w = w\<lparr>w_session := True\<rparr>;
               (resolved, dnsAborted) = resolveHostCancellable lib w (p_host p)
           in if dnsAborted then w
              else if resolved = [] then ssh_fail (qlit ''Could not resolve host: '' @ p_host p) w
              else if \<not> lib_options lib (w_outs w) resolved p
              then ssh_fail (sshErrorString lib w (qlit ''ssh_options_set failed'')) w
              else if p_compression p \<and> \<not> lib_setCompression lib (w_outs w)
              then ssh_fail (sshErrorString lib w (qlit ''ssh_options_set(COMPRESSION) failed'')) w
              else
                let (rc, w) = connectServer lib resolved w
                in connectResult lib rc w)"

definition resumeAfterHostKeyTrust :: "ssh_lib \<Rightarrow> worker \<Rightarrow> worker" where
  "resumeAfterHostKeyTrust lib w =
     (if \<not> w_awaiting w then w
      else
        let fp = w_fingerprint w;
            w = w\<lparr>w_fingerprint := [], w_keyType := [], w_awaiting := False\<rparr>
        in proceedWithAuth lib (w_emit [HostKeyTrusted fp] w))"

definition worker_close :: "worker \<Rightarrow> worker" where
  "worker_close w =
     w_emit [SshStateChanged SshDisconnected] ((dropSession w)\<lparr>w_awaiting := False, w_fingerprint := [], w_keyType := []\<rparr>)"

section \<open>The session object and its owner\<close>

datatype ssh_cmd = CmdOpen Params | CmdResume | CmdClose

definition worker_cmd :: "ssh_lib \<Rightarrow> ssh_cmd \<Rightarrow> worker \<Rightarrow> worker" where
  "worker_cmd lib c w =
     (case c of CmdOpen p \<Rightarrow> worker_open lib p w | CmdResume \<Rightarrow> resumeAfterHostKeyTrust lib w | CmdClose \<Rightarrow> worker_close w)"

record ssh_facade =
  f_state :: ssh_state
  f_lastError :: qstring

definition newFacade :: ssh_facade where
  "newFacade = \<lparr>f_state = SshDisconnected, f_lastError = []\<rparr>"

text \<open>The values of the configuration map, after Qt's conversions.\<close>

record ssh_config =
  cfg_enabled :: bool
  cfg_host :: qstring
  cfg_port :: "int option"
  cfg_user :: qstring
  cfg_authMode :: int
  cfg_password :: qstring
  cfg_keyPath :: qstring
  cfg_keyPassphrase :: qstring
  cfg_compression :: bool
  cfg_trusted :: "qstring list"

datatype host_out =
    HostStatusChanged
  | HostConnectedChanged
  | AwaitingHostKeyTrustChanged
  | PendingHostKeyChanged
  | HostKeyPrompt qstring qstring
  | TrustedHostKeyAdded qstring

record ssh_host =
  sh_session :: "ssh_facade option"
  sh_enabled :: bool
  sh_status :: qstring
  sh_jumpHost :: qstring
  sh_awaiting :: bool
  sh_fingerprint :: qstring
  sh_keyType :: qstring
  sh_outs :: "host_out list"

definition newSshHost :: ssh_host where
  "newSshHost = \<lparr>sh_session = None, sh_enabled = False, sh_status = [], sh_jumpHost = [], sh_awaiting = False,
     sh_fingerprint = [], sh_keyType = [], sh_outs = []\<rparr>"

definition sh_emit :: "host_out list \<Rightarrow> ssh_host \<Rightarrow> ssh_host" where
  "sh_emit xs h = h\<lparr>sh_outs := sh_outs h @ xs\<rparr>"

definition isConnected :: "ssh_host \<Rightarrow> bool" where
  "isConnected h = (case sh_session h of None \<Rightarrow> False | Some f \<Rightarrow> f_state f = SshConnected)"

definition sshParams :: "ssh_config \<Rightarrow> Params" where
  "sshParams cfg = \<lparr>p_host = cfg_host cfg, p_port = word_of_int (case cfg_port cfg of None \<Rightarrow> 22 | Some n \<Rightarrow> n),
     p_user = cfg_user cfg, p_authMode = (if cfg_authMode cfg = 1 then AuthKey else AuthPassword),
     p_password = cfg_password cfg, p_privateKeyPath = cfg_keyPath cfg, p_privateKeyPassphrase = cfg_keyPassphrase cfg,
     p_trusted = cfg_trusted cfg, p_connectTimeoutMs = 15000, p_compression = cfg_compression cfg\<rparr>"

text \<open>\<open>setConfig\<close> and \<open>trustPendingHostKey\<close> also give the commands they queue for the worker.\<close>

definition setConfig :: "ssh_config \<Rightarrow> ssh_host \<Rightarrow> ssh_host \<times> ssh_cmd list" where
  "setConfig cfg h =
     (if \<not> cfg_enabled cfg then
        let cmds = (if sh_session h \<noteq> None then [CmdClose] else []);
            h = h\<lparr>sh_enabled := False, sh_session := None\<rparr>;
            h = (if sh_awaiting h
                 then sh_emit [AwaitingHostKeyTrustChanged, PendingHostKeyChanged]
                   (h\<lparr>sh_awaiting := False, sh_fingerprint := [], sh_keyType := []\<rparr>)
                 else h);
            h = (if sh_status h \<noteq> [] then sh_emit [HostStatusChanged] (h\<lparr>sh_status := []\<rparr>) else h)
        in (sh_emit [HostConnectedChanged] h, cmds)
      else
        let h = h\<lparr>sh_enabled := True, sh_jumpHost := cfg_host cfg\<rparr>;
            h = (if sh_session h = None then h\<lparr>sh_session := Some newFacade\<rparr> else h)
        in (h, [CmdOpen (sshParams cfg)]))"

definition statusText :: "ssh_state \<Rightarrow> qstring \<Rightarrow> qstring \<Rightarrow> qstring" where
  "statusText s h err =
     (case s of
        SshConnecting \<Rightarrow> qlit ''Connecting to '' @ h @ [0x2026]
      | SshAuthenticating \<Rightarrow> qlit ''Authenticating to '' @ h @ [0x2026]
      | NeedsHostKeyTrust \<Rightarrow> qlit ''Awaiting host-key trust''
      | SshConnected \<Rightarrow> qlit ''via '' @ h
      | SshFailed \<Rightarrow> qlit ''SSH ('' @ h @ qlit '') failed: '' @ err
      | SshDisconnected \<Rightarrow> [])"

text \<open>A signal of the worker, delivered on the user-interface thread: first to the session object, then to its owner.\<close>

definition onWorkerSignal :: "ssh_out \<Rightarrow> ssh_host \<Rightarrow> ssh_host" where
  "onWorkerSignal x h =
     (case sh_session h of
        None \<Rightarrow> h
      | Some f \<Rightarrow>
          (case x of
             SshStateChanged s \<Rightarrow>
               let jump = (if sh_jumpHost h = [] then qlit ''SSH'' else sh_jumpHost h)
               in sh_emit [HostStatusChanged, HostConnectedChanged]
                    (h\<lparr>sh_session := Some (f\<lparr>f_state := s\<rparr>), sh_status := statusText s jump (f_lastError f)\<rparr>)
           | SshErrorOccurred e \<Rightarrow> h\<lparr>sh_session := Some (f\<lparr>f_lastError := e\<rparr>)\<rparr>
           | HostKeyPromptRequired fp keyType \<Rightarrow>
               sh_emit [PendingHostKeyChanged, AwaitingHostKeyTrustChanged, HostKeyPrompt fp keyType]
                 (h\<lparr>sh_fingerprint := fp, sh_keyType := keyType, sh_awaiting := True\<rparr>)
           | _ \<Rightarrow> h))"

definition trustPendingHostKey :: "bool \<Rightarrow> ssh_host \<Rightarrow> ssh_host \<times> ssh_cmd list" where
  "trustPendingHostKey persist h =
     (if \<not> sh_awaiting h \<or> sh_session h = None then (h, [])
      else
        let fp = sh_fingerprint h;
            h = sh_emit [PendingHostKeyChanged, AwaitingHostKeyTrustChanged]
              (h\<lparr>sh_fingerprint := [], sh_keyType := [], sh_awaiting := False\<rparr>)
        in (if persist then sh_emit [TrustedHostKeyAdded fp] h else h, [CmdResume]))"

section \<open>Credentials go to vouched servers only\<close>

definition vouched :: "qstring \<Rightarrow> ssh_out list \<Rightarrow> bool" where
  "vouched k xs \<longleftrightarrow> HostKeyVerifiedByPin k \<in> set xs \<or> HostKeyTrusted k \<in> set xs"

fun attempt_ok :: "ssh_out list \<Rightarrow> ssh_out \<Rightarrow> bool" where
  "attempt_ok seen (AuthAttempt (Some k) m) = vouched k seen"
| "attempt_ok seen x = True"

fun log_ok :: "ssh_out list \<Rightarrow> ssh_out list \<Rightarrow> bool" where
  "log_ok seen [] = True"
| "log_ok seen (x # xs) = (attempt_ok seen x \<and> log_ok (seen @ [x]) xs)"

lemma log_ok_append [simp]: "log_ok seen (xs @ ys) \<longleftrightarrow> log_ok seen xs \<and> log_ok (seen @ xs) ys"
  by (induction xs arbitrary: seen) simp_all


















definition worker_run :: "ssh_lib \<Rightarrow> ssh_cmd list \<Rightarrow> worker \<Rightarrow> worker" where
  "worker_run lib cmds w = fold (worker_cmd lib) cmds w"




definition exLib :: "bytes \<Rightarrow> ssh_lib" where
  "exLib hash = \<lparr>lib_new = (\<lambda>_. True), lib_isAddress = (\<lambda>_. True), lib_resolve = (\<lambda>_ _. []), lib_options = (\<lambda>_ _ _. True),
     lib_setCompression = (\<lambda>_. True), lib_error = (\<lambda>_. []), lib_connect = (\<lambda>_. [(False, -2), (False, 0)]),
     lib_serverHash = (\<lambda>_. hash), lib_hostKey = (\<lambda>_. Some (True, KeyEd25519)), lib_userauth = (\<lambda>_ _. [(False, 0)]),
     lib_exists = (\<lambda>_. True), lib_importKey = (\<lambda>_ _. True)\<rparr>"




section \<open>An approval is not tied to a key\<close>

text \<open>A server that can be reached with \<open>p\<close> and presents a key with the given hash.\<close>

definition presents :: "ssh_lib \<Rightarrow> Params \<Rightarrow> bytes \<Rightarrow> bool" where
  "presents lib p hash \<longleftrightarrow> (\<forall>w. lib_new lib (w_outs w) \<and> lib_options lib (w_outs w) (fst (resolveHostCancellable lib w (p_host p))) p
     \<and> fst (resolveHostCancellable lib w (p_host p)) \<noteq> [] \<and> \<not> snd (resolveHostCancellable lib w (p_host p))
     \<and> lib_setCompression lib (w_outs w) \<and> (w_session w \<longrightarrow> waitForLibssh w (lib_connect lib (w_outs w)) = SSH_OK)
     \<and> lib_serverHash lib (w_outs w) = hash \<and> (\<exists>keyType. lib_hostKey lib (w_outs w) = Some (True, keyType)))"

lemma open_prompts:
  assumes "presents lib p hash" and "hexFingerprint hash \<notin> set (p_trusted p)" and "v = worker_open lib p w"
  shows "w_awaiting v \<and> w_fingerprint v = hexFingerprint hash \<and> w_peer v = Some hash
     \<and> w_params v = p"
proof -
  define u where "u = (dropSession (w_emit [SshStateChanged SshConnecting] (w\<lparr>w_params := p\<rparr>)))\<lparr>w_session := True\<rparr>"
  have u: "w_session u" "w_params u = p" "w_outs u = w_outs (dropSession (w_emit [SshStateChanged SshConnecting] (w\<lparr>w_params := p\<rparr>)))"
    by (simp_all add: u_def dropSession_def w_emit_def)
  note h = assms(1)[unfolded presents_def, rule_format, of u]
  obtain resolved where r: "resolveHostCancellable lib u (p_host p) = (resolved, False)" "resolved \<noteq> []"
      "lib_options lib (w_outs u) resolved p"
    using h by (cases "resolveHostCancellable lib u (p_host p)") auto
  let ?u = "w_emit [SshConnect resolved] (u\<lparr>w_peer := Some hash\<rparr>)"
  have "connectServer lib resolved u = (SSH_OK, ?u)" using h u(1) by (simp add: connectServer_def)
  then have "v = connectResult lib SSH_OK ?u"
    using h r u(1) assms(3) unfolding worker_open_def Let_def u_def[symmetric] u(3)[symmetric] by simp
  moreover obtain kt where "lib_hostKey lib (w_outs ?u) = Some (True, kt)"
    using assms(1)[unfolded presents_def, rule_format, of ?u] by blast
  then have "serverKey lib ?u = Some (Some hash, kt)" by (simp add: serverKey_def w_emit_def)
  ultimately show ?thesis
    using assms(2) u(2)
    by (simp add: connectResult_def verifyHostKey_def SSH_OK_def SSH_ABORTED_def Let_def w_emit_def)
qed

lemma resume_attempts:
  assumes "w_awaiting w" and "p_authMode (w_params w) = AuthPassword"
  shows "AuthAttempt (map_option hexFingerprint (w_peer w)) AuthPassword \<in> set (w_outs (resumeAfterHostKeyTrust lib w))"
  using assms
  by (simp add: resumeAfterHostKeyTrust_def proceedWithAuth_def authenticate_def authResult_def ssh_fail_def dropSession_def
      w_emit_def Let_def)

text \<open>The acceptance of a host key does not say which key was accepted. When the tunnel is configured
  anew while the prompt for key \<open>A\<close> is on screen, and the operator then accepts \<open>A\<close>, the worker has
  already met the new server: it takes the acceptance for that server's key, which nobody was shown, and
  sends it the password, while \<open>A\<close> is what gets pinned.\<close>

theorem ssh_trust_not_bound:
  assumes "sh_session h \<noteq> None" and "sh_awaiting h" and "sh_fingerprint h = fpA"
    and "cfg_enabled cfg" and "cfg_authMode cfg \<noteq> 1"
    and "presents lib (sshParams cfg) hash" and "hexFingerprint hash \<notin> set (cfg_trusted cfg)"
  shows "(let (h1, c1) = setConfig cfg h; (h2, c2) = trustPendingHostKey True h1
     in AuthAttempt (Some (hexFingerprint hash)) AuthPassword \<in> set (w_outs (worker_run lib (c1 @ c2) w))
      \<and> sh_outs h2 = sh_outs h @ [PendingHostKeyChanged, AwaitingHostKeyTrustChanged, TrustedHostKeyAdded fpA])"
proof -
  let ?v = "worker_open lib (sshParams cfg) w"
  have v: "w_awaiting ?v \<and> w_peer ?v = Some hash \<and> w_params ?v = sshParams cfg"
    using open_prompts[OF assms(6) _ refl, of w] assms(7) by (simp add: sshParams_def)
  then have "AuthAttempt (Some (hexFingerprint hash)) AuthPassword \<in> set (w_outs (resumeAfterHostKeyTrust lib ?v))"
    using resume_attempts[of ?v lib] assms(5) by (simp add: sshParams_def)
  then show ?thesis
    using assms(1-4) by (auto simp: setConfig_def trustPendingHostKey_def sh_emit_def worker_run_def worker_cmd_def Let_def)
qed

definition exConfig :: ssh_config where
  "exConfig = \<lparr>cfg_enabled = True, cfg_host = [104], cfg_port = None, cfg_user = [], cfg_authMode = 0, cfg_password = [],
     cfg_keyPath = [], cfg_keyPassphrase = [], cfg_compression = False, cfg_trusted = []\<rparr>"

theorem ssh_trust_not_bound_witness:
  "AuthAttempt (Some [48, 55]) AuthPassword
     \<in> set (w_outs (worker_run (exLib [7]) [CmdOpen (sshParams exConfig), CmdResume] newWorker))"
proof -
  let ?h = "newSshHost\<lparr>sh_session := Some newFacade, sh_awaiting := True, sh_fingerprint := [65]\<rparr>"
  have "presents (exLib [7]) (sshParams exConfig) [7]"
    by (simp add: presents_def exLib_def resolveHostCancellable_def sshParams_def exConfig_def SSH_OK_def SSH_AGAIN_def SSH_AUTH_AGAIN_def)
  then show ?thesis
    using ssh_trust_not_bound[of ?h "[65]" exConfig "exLib [7]" "[7]" newWorker]
    by (simp add: exConfig_def hexDigit_def setConfig_def trustPendingHostKey_def sh_emit_def Let_def)
qed

end
