(* ===== verification/Sol_Controller.thy ===== *)
theory Sol_Controller
  imports Sol_Session Vt100_Parser Recorders Ssh_Session
begin

text \<open>
  The serial console as the user meets it, \<open>app/src/solcontroller.cpp\<close>: the controller that owns the
  redirection client, the session, the terminal and the recorder, and connects their signals.

  The objects talk by direct signals, so a handler runs at the point where the signal is emitted. Here
  an operation of the client is run first and its new signals are handled after it, in order; no
  operation of the client reads anything that a handler changes once it has emitted. The session's
  receive loop does read what a handler changes (the terminal's answers are sent from inside it), so
  its signals are handled after every step of the loop.
\<close>

section \<open>State\<close>

datatype ctl_state = CtlDisconnected | CtlConnecting | CtlAuthenticating | CtlAwaitingTrust | CtlOpening | CtlConnected | CtlFailed

datatype ctl_error = CtlNoError | CtlHostEmpty | CtlRedir redir_error | CtlSol sol_error

datatype ctl_out =
    CtlHostChanged | CtlUserChanged | CtlPasswordChanged | CtlTlsChanged | CtlTrustedChanged
  | CtlStateChanged | CtlLastErrorChanged | CtlPendingCertChanged | CtlAwaitingTrustChanged
  | CtlTrustedAdded qstring
  | CtlSshPromptRequired qstring qstring
  | CtlSshPromptChanged
  | CtlTrustedSshAdded qstring
  | CtlVerifiedByPin qstring
  | CtlRecordingChanged

definition noCert :: PeerCertSummary where
  "noCert = \<lparr>pc_subject = [], pc_issuer = [], pc_fingerprintSha256 = [], pc_notBefore = [], pc_notAfter = [], pc_der = []\<rparr>"

text \<open>
  The client is the one its session holds: both are made in \<open>open\<close> and dropped in \<open>teardown\<close>.
  The commands for the SSH worker are kept in \<open>sc_sshCmds\<close>.
\<close>

record sol_controller =
  sc_host :: qstring
  sc_portOverride :: u16
  sc_user :: qstring
  sc_password :: qstring
  sc_loggedFirstData :: bool
  sc_tls :: bool
  sc_trusted :: "qstring list"
  sc_state :: ctl_state
  sc_lastError :: ctl_error
  sc_pendingCert :: PeerCertSummary
  sc_screen :: vt
  sc_session :: "sol_session option"
  sc_sshSession :: bool
  sc_sshHost :: "ssh_host option"
  sc_openDeferred :: bool
  sc_recorder :: "cast option"
  sc_pendingSshKey :: qstring
  sc_pendingSshKeyType :: qstring
  sc_awaitingSsh :: bool
  sc_sshCmds :: "ssh_cmd list"
  sc_outs :: "ctl_out list"

definition newSolController :: sol_controller where
  "newSolController = \<lparr>sc_host = [], sc_portOverride = 0, sc_user = [], sc_password = [], sc_loggedFirstData = False,
     sc_tls = False, sc_trusted = [], sc_state = CtlDisconnected, sc_lastError = CtlNoError, sc_pendingCert = noCert,
     sc_screen = newVt newScreen, sc_session = None, sc_sshSession = False, sc_sshHost = None, sc_openDeferred = False,
     sc_recorder = None, sc_pendingSshKey = [], sc_pendingSshKeyType = [], sc_awaitingSsh = False, sc_sshCmds = [], sc_outs = []\<rparr>"

text \<open>What surrounds the console: Qt, and the recorder's files and clock.\<close>

record con_env =
  ce_qt :: qtenv
  ce_cast :: cast_env
  ce_now :: nat

section \<open>Properties\<close>

definition sc_emit :: "ctl_out list \<Rightarrow> sol_controller \<Rightarrow> sol_controller" where
  "sc_emit xs c = c\<lparr>sc_outs := sc_outs c @ xs\<rparr>"

definition sc_setHost :: "qstring \<Rightarrow> sol_controller \<Rightarrow> sol_controller" where
  "sc_setHost v c = (if v = sc_host c then c else sc_emit [CtlHostChanged] (c\<lparr>sc_host := v\<rparr>))"

definition sc_setUser :: "qstring \<Rightarrow> sol_controller \<Rightarrow> sol_controller" where
  "sc_setUser v c = (if v = sc_user c then c else sc_emit [CtlUserChanged] (c\<lparr>sc_user := v\<rparr>))"

definition sc_setPassword :: "qstring \<Rightarrow> sol_controller \<Rightarrow> sol_controller" where
  "sc_setPassword v c = (if v = sc_password c then c else sc_emit [CtlPasswordChanged] (c\<lparr>sc_password := v\<rparr>))"

definition sc_setTls :: "bool \<Rightarrow> sol_controller \<Rightarrow> sol_controller" where
  "sc_setTls v c = (if v = sc_tls c then c else sc_emit [CtlTlsChanged] (c\<lparr>sc_tls := v\<rparr>))"

definition sc_setTrustedFingerprints :: "qstring list \<Rightarrow> sol_controller \<Rightarrow> sol_controller" where
  "sc_setTrustedFingerprints v c = (if v = sc_trusted c then c else sc_emit [CtlTrustedChanged] (c\<lparr>sc_trusted := v\<rparr>))"

definition sc_setState :: "ctl_state \<Rightarrow> sol_controller \<Rightarrow> sol_controller" where
  "sc_setState s c =
     (if s = sc_state c then c
      else
        let wasAwaiting = (sc_state c = CtlAwaitingTrust)
        in sc_emit ([CtlStateChanged] @ (if wasAwaiting \<noteq> (s = CtlAwaitingTrust) then [CtlAwaitingTrustChanged] else []))
             (c\<lparr>sc_state := s\<rparr>))"

definition sc_setLastError :: "ctl_error \<Rightarrow> sol_controller \<Rightarrow> sol_controller" where
  "sc_setLastError e c = (if e = sc_lastError c then c else sc_emit [CtlLastErrorChanged] (c\<lparr>sc_lastError := e\<rparr>))"

section \<open>Recording\<close>

definition sc_isRecording :: "sol_controller \<Rightarrow> bool" where
  "sc_isRecording c = (case sc_recorder c of None \<Rightarrow> False | Some r \<Rightarrow> cast_open r)"

definition sc_stopRecording :: "con_env \<Rightarrow> sol_controller \<Rightarrow> sol_controller" where
  "sc_stopRecording env c =
     (if \<not> sc_isRecording c then c
      else sc_emit [CtlRecordingChanged] (c\<lparr>sc_recorder := map_option (cast_stop (ce_cast env) (ce_now env)) (sc_recorder c)\<rparr>))"

definition sc_beginRecording :: "con_env \<Rightarrow> qstring \<Rightarrow> qstring \<Rightarrow> sol_controller \<Rightarrow> bool \<times> sol_controller" where
  "sc_beginRecording env path title c =
     (let r = (case sc_recorder c of None \<Rightarrow> newCast | Some r \<Rightarrow> r);
          scr = vt_screen (sc_screen c);
          cols = (if scr_columns scr > 0 then int (scr_columns scr) else 80);
          rows = (if scr_rows scr > 0 then int (scr_rows scr) else 24);
          (ok, r) = cast_start (ce_cast env) (ce_now env) path cols rows title r;
          c = c\<lparr>sc_recorder := Some r\<rparr>
      in if \<not> ok then (False, c) else (True, sc_emit [CtlRecordingChanged] c))"

definition sc_startRecording :: "con_env \<Rightarrow> qstring \<Rightarrow> qstring \<Rightarrow> sol_controller \<Rightarrow> bool \<times> sol_controller" where
  "sc_startRecording env path title c =
     sc_beginRecording env path title (if sc_isRecording c then sc_stopRecording env c else c)"

section \<open>The session's signals\<close>

text \<open>The answers the terminal gave to the bytes just fed, sent to the host if a session is open.\<close>

fun sc_respond :: "con_env \<Rightarrow> screen_signal list \<Rightarrow> sol_controller \<Rightarrow> sol_controller" where
  "sc_respond env [] c = c"
| "sc_respond env (Respond b # xs) c = sc_respond env xs (c\<lparr>sc_session := map_option (sendInput (ce_qt env) b) (sc_session c)\<rparr>)"
| "sc_respond env (x # xs) c = sc_respond env xs c"

definition sc_onData :: "con_env \<Rightarrow> bytes \<Rightarrow> sol_controller \<Rightarrow> sol_controller" where
  "sc_onData env bs c =
     (let c = c\<lparr>sc_loggedFirstData := True\<rparr>;
          old = scr_signals (vt_screen (sc_screen c));
          c = c\<lparr>sc_screen := screen_feed (e_fromUtf8 (ce_qt env)) bs (sc_screen c)\<rparr>;
          c = sc_respond env (drop (length old) (scr_signals (vt_screen (sc_screen c)))) c
      in if sc_isRecording c
         then c\<lparr>sc_recorder := map_option (pushBytes (ce_cast env) (ce_now env) bs) (sc_recorder c)\<rparr> else c)"

text \<open>A failure of the client reaches the controller through the session with the same text.\<close>

fun sol_reason :: "sol_error \<Rightarrow> ctl_error" where
  "sol_reason (SolClientFailed r) = CtlRedir r"
| "sol_reason e = CtlSol e"

definition sc_onSolOut :: "con_env \<Rightarrow> sol_out \<Rightarrow> sol_controller \<Rightarrow> sol_controller" where
  "sc_onSolOut env x c =
     (case x of
        SolSessionOpened \<Rightarrow> sc_setState CtlConnected c
      | SolData bs \<Rightarrow> sc_onData env bs c
      | SolClosed reason \<Rightarrow> sc_setState CtlFailed (sc_setLastError (sol_reason reason) c))"

text \<open>Install the session an operation left, then handle what it emitted.\<close>

definition sc_install :: "con_env \<Rightarrow> sol_session \<Rightarrow> sol_session \<Rightarrow> sol_controller \<Rightarrow> sol_controller" where
  "sc_install env s t c =
     fold (sc_onSolOut env) (drop (length (sol_outs s)) (sol_outs t)) (c\<lparr>sc_session := Some t\<rparr>)"

text \<open>Handlers reach the session only to send input, which touches nothing but its client.\<close>

definition same_session :: "sol_session \<Rightarrow> sol_session \<Rightarrow> bool" where
  "same_session s t \<longleftrightarrow> t = s\<lparr>sol_client := sol_client t\<rparr>"

lemma same_session_refl [simp]: "same_session s s"
  by (simp add: same_session_def)

lemma same_session_trans: "same_session s t \<Longrightarrow> same_session t u \<Longrightarrow> same_session s u"
  unfolding same_session_def by (metis sol_session.surjective sol_session.update_convs(1))

lemma same_session_fields:
  assumes "same_session s t"
  shows "sol_inbox t = sol_inbox s" "sol_outs t = sol_outs s" "sol_open t = sol_open s"
    "sol_settingsSent t = sol_settingsSent s" "sol_sequence t = sol_sequence s"
  using assms unfolding same_session_def by (metis sol_session.select_convs sol_session.surjective sol_session.update_convs(1))+

lemma sol_write_same: "same_session s (snd (sol_write env b s))"
  by (simp add: same_session_def sol_write_def split: prod.split)

lemma sendInputFrom_same: "same_session s (sendInputFrom env input off s)"
proof (induction env input off s rule: sendInputFrom.induct)
  case (1 env input off s)
  let ?t = "snd (sol_write env (buildSolDataToHost (mid input off (min kChunk (length input - off)))) s)"
  have "off < length input \<Longrightarrow> same_session ?t (sendInputFrom env input (off + kChunk) ?t)"
    by (rule "1.IH" [OF _ refl refl refl])
  then have "off < length input \<Longrightarrow> same_session s (sendInputFrom env input (off + kChunk) ?t)"
    by (blast intro: same_session_trans [OF sol_write_same])
  then show ?case by (subst sendInputFrom.simps) (simp add: Let_def)
qed

lemma sendInput_same: "same_session s (sendInput env input s)"
  by (simp add: sendInput_def sendInputFrom_same)

definition keeps_session :: "sol_controller \<Rightarrow> sol_controller \<Rightarrow> bool" where
  "keeps_session c d \<longleftrightarrow> rel_option same_session (sc_session c) (sc_session d)"

lemma keeps_refl [simp]: "keeps_session c c"
  by (cases "sc_session c") (simp_all add: keeps_session_def)

lemma keeps_trans: "keeps_session c d \<Longrightarrow> keeps_session d e \<Longrightarrow> keeps_session c e"
  unfolding keeps_session_def
  by (cases "sc_session c"; cases "sc_session d"; cases "sc_session e") (auto intro: same_session_trans)

lemma keeps_eq: "sc_session d = sc_session c \<Longrightarrow> keeps_session c d"
  by (metis keeps_refl keeps_session_def)

lemma controller_session [simp]:
  "sc_session (sc_emit xs c) = sc_session c" "sc_session (sc_setState st c) = sc_session c"
  "sc_session (sc_setLastError e c) = sc_session c"
  by (simp_all add: sc_emit_def sc_setState_def sc_setLastError_def Let_def)

lemma respond_keeps: "keeps_session c (sc_respond env xs c)"
proof (induction env xs c rule: sc_respond.induct)
  case (2 env b xs c)
  have "keeps_session c (c\<lparr>sc_session := map_option (sendInput (ce_qt env) b) (sc_session c)\<rparr>)"
    by (cases "sc_session c") (simp_all add: keeps_session_def sendInput_same)
  then show ?case using 2 keeps_trans by (metis sc_respond.simps(2))
qed simp_all

lemma onData_keeps: "keeps_session c (sc_onData env bs c)"
proof -
  let ?c = "c\<lparr>sc_loggedFirstData := True, sc_screen := screen_feed (e_fromUtf8 (ce_qt env)) bs (sc_screen c)\<rparr>"
  let ?d = "sc_respond env (drop (length (scr_signals (vt_screen (sc_screen c)))) (scr_signals (vt_screen (sc_screen ?c)))) ?c"
  have "sc_session (sc_onData env bs c) = sc_session ?d"
    by (simp add: sc_onData_def Let_def)
  moreover have "keeps_session ?c ?d" by (rule respond_keeps)
  ultimately show ?thesis by (simp add: keeps_session_def)
qed

lemma onSolOut_keeps: "keeps_session c (sc_onSolOut env x c)"
  by (cases x) (simp_all add: sc_onSolOut_def onData_keeps keeps_eq)

lemma onSolOuts_keep: "keeps_session c (fold (sc_onSolOut env) xs c)"
  by (induction xs arbitrary: c) (auto intro: keeps_trans onSolOut_keeps)

lemma install_session:
  obtains u where "sc_session (sc_install env s t c) = Some u" and "same_session t u"
proof -
  have "keeps_session (c\<lparr>sc_session := Some t\<rparr>) (sc_install env s t c)"
    unfolding sc_install_def by (rule onSolOuts_keep)
  then show ?thesis
    using that by (cases "sc_session (sc_install env s t c)") (simp_all add: keeps_session_def)
qed

text \<open>The session's receive loop, with the handlers run at each signal.\<close>

function sc_drain :: "con_env \<Rightarrow> sol_controller \<Rightarrow> sol_controller" where
  "sc_drain env c =
     (case sc_session c of
        None \<Rightarrow> c
      | Some s \<Rightarrow>
          (case solStep (ce_qt env) s of
             Wait \<Rightarrow> c
           | Halt t \<Rightarrow> sc_install env s t c
           | Next t \<Rightarrow> sc_drain env (sc_install env s t c)))"
  by pat_completeness auto
termination
proof (relation "measure (\<lambda>(env, c). case sc_session c of None \<Rightarrow> 0 | Some s \<Rightarrow> length (sol_inbox s))")
  fix env :: con_env and c :: sol_controller and s t
  assume "sc_session c = Some s" and "solStep (ce_qt env) s = Next t"
  moreover obtain u where "sc_session (sc_install env s t c) = Some u" and "same_session t u"
    by (rule install_session)
  ultimately show "((env, sc_install env s t c), env, c)
      \<in> measure (\<lambda>(env, c). case sc_session c of None \<Rightarrow> 0 | Some s \<Rightarrow> length (sol_inbox s))"
    using solStep_consumes by (simp add: same_session_fields)
qed simp

declare sc_drain.simps [simp del]

definition sc_onRawBytes :: "con_env \<Rightarrow> bytes \<Rightarrow> sol_controller \<Rightarrow> sol_controller" where
  "sc_onRawBytes env chunk c =
     sc_drain env (c\<lparr>sc_session := map_option (\<lambda>s. s\<lparr>sol_inbox := sol_inbox s @ chunk\<rparr>) (sc_session c)\<rparr>)"

section \<open>The client's signals\<close>

fun sc_clientState :: "State \<Rightarrow> ctl_state option" where
  "sc_clientState Disconnected = Some CtlDisconnected"
| "sc_clientState Connecting = Some CtlConnecting"
| "sc_clientState SelectorSent = Some CtlAuthenticating"
| "sc_clientState SessionOpened = Some CtlAuthenticating"
| "sc_clientState AuthQuerying = Some CtlAuthenticating"
| "sc_clientState AuthChallenging = Some CtlAuthenticating"
| "sc_clientState AuthResponding = Some CtlAuthenticating"
| "sc_clientState KvmStarting = None"
| "sc_clientState Authenticated = Some CtlOpening"
| "sc_clientState Failed = Some CtlFailed"

definition sc_onSession :: "con_env \<Rightarrow> (sol_session \<Rightarrow> sol_session) \<Rightarrow> sol_controller \<Rightarrow> sol_controller" where
  "sc_onSession env f c = (case sc_session c of None \<Rightarrow> c | Some s \<Rightarrow> sc_install env s (f s) c)"

definition sc_onClientOut :: "con_env \<Rightarrow> redir_out \<Rightarrow> sol_controller \<Rightarrow> sol_controller" where
  "sc_onClientOut env x c =
     (case x of
        StateChanged s \<Rightarrow> (case sc_clientState s of None \<Rightarrow> c | Some st \<Rightarrow> sc_setState st c)
      | AuthenticatedSignal \<Rightarrow> sc_onSession env (sol_start (ce_qt env)) c
      | RawBytes b \<Rightarrow> sc_onRawBytes env b c
      | FailedSignal r \<Rightarrow>
          sc_setState CtlFailed (sc_setLastError (CtlRedir r) (sc_onSession env (onClientFailed r) c))
      | TrustPromptRequired summary \<Rightarrow>
          sc_setState CtlAwaitingTrust (sc_emit [CtlPendingCertChanged] (c\<lparr>sc_pendingCert := summary\<rparr>))
      | PeerCertVerifiedByPin fp \<Rightarrow> sc_emit [CtlVerifiedByPin fp] c
      | _ \<Rightarrow> c)"

text \<open>An operation of the client and what follows from its signals.\<close>

definition sc_clientOp :: "con_env \<Rightarrow> (client \<Rightarrow> client) \<Rightarrow> sol_controller \<Rightarrow> sol_controller" where
  "sc_clientOp env f c =
     (case sc_session c of
        None \<Rightarrow> c
      | Some s \<Rightarrow>
          let cl = f (sol_client s)
          in fold (sc_onClientOut env) (drop (length (outs (sol_client s))) (outs cl))
               (c\<lparr>sc_session := Some (s\<lparr>sol_client := cl\<rparr>)\<rparr>))"

section \<open>Operations\<close>

definition sc_teardown :: "con_env \<Rightarrow> sol_controller \<Rightarrow> sol_controller" where
  "sc_teardown env c =
     (let c = (if sc_isRecording c then sc_stopRecording env c else c);
          c = c\<lparr>sc_session := None\<rparr>
      in if pc_fingerprintSha256 (sc_pendingCert c) \<noteq> [] then sc_emit [CtlPendingCertChanged] (c\<lparr>sc_pendingCert := noCert\<rparr>) else c)"

definition sc_waitsForSsh :: "sol_controller \<Rightarrow> bool" where
  "sc_waitsForSsh c = (case sc_sshHost c of None \<Rightarrow> False | Some h \<Rightarrow> sh_enabled h \<and> \<not> isConnected h)"

definition sc_newClient :: "sol_controller \<Rightarrow> client" where
  "sc_newClient c =
     (let cl = initialClient\<lparr>m_protocol := Sol\<rparr>;
          cl = setCredentials (sc_user c) (sc_password c) cl;
          cl = cl\<lparr>m_tls := sc_tls c, m_trustedFingerprints := sc_trusted c\<rparr>
      in if sc_sshSession c then cl\<lparr>m_tunnelOpener := True\<rparr> else cl)"

text \<open>The part of \<open>open\<close> after its guards: a fresh client and session, their signals connected, and the dial.\<close>

definition sc_freshSession :: "sol_controller \<Rightarrow> sol_controller" where
  "sc_freshSession c =
     (let c = c\<lparr>sc_screen := on_screen clear (sc_screen c), sc_loggedFirstData := False\<rparr>
      in c\<lparr>sc_session := Some (newSolSession (sc_newClient c))\<rparr>)"

definition sc_dial :: "con_env \<Rightarrow> sol_controller \<Rightarrow> sol_controller" where
  "sc_dial env c =
     (let c = sc_setState CtlConnecting (sc_setLastError CtlNoError (sc_freshSession c));
          port = (if sc_portOverride c \<noteq> 0 then sc_portOverride c else if sc_tls c then 16995 else 16994)
      in sc_clientOp env (connectTo (sc_host c) port) c)"

definition sc_open :: "con_env \<Rightarrow> sol_controller \<Rightarrow> sol_controller" where
  "sc_open env c =
     (if sc_waitsForSsh c then sc_setState CtlConnecting (sc_setLastError CtlNoError (c\<lparr>sc_openDeferred := True\<rparr>))
      else
        let c = sc_teardown env (c\<lparr>sc_openDeferred := False\<rparr>)
        in if sc_host c = [] then sc_setState CtlFailed (sc_setLastError CtlHostEmpty c)
           else sc_dial env c)"

definition sc_close :: "con_env \<Rightarrow> sol_controller \<Rightarrow> sol_controller" where
  "sc_close env c = sc_setState CtlDisconnected (sc_teardown env c)"

definition sc_trustPendingCert :: "con_env \<Rightarrow> bool \<Rightarrow> sol_controller \<Rightarrow> sol_controller" where
  "sc_trustPendingCert env persist c =
     (if sc_session c = None \<or> sc_state c \<noteq> CtlAwaitingTrust then c
      else
        let fp = pc_fingerprintSha256 (sc_pendingCert c);
            c = sc_clientOp env (trustPendingPeerCert (ce_qt env)) c;
            c = (if fp \<notin> set (sc_trusted c) then sc_emit [CtlTrustedChanged] (c\<lparr>sc_trusted := sc_trusted c @ [fp]\<rparr>) else c);
            c = sc_setState CtlAuthenticating c
        in if persist \<and> fp \<noteq> [] then sc_emit [CtlTrustedAdded fp] c else c)"

definition sc_sendBytes :: "con_env \<Rightarrow> bytes \<Rightarrow> sol_controller \<Rightarrow> sol_controller" where
  "sc_sendBytes env b c = c\<lparr>sc_session := map_option (sendInput (ce_qt env) b) (sc_session c)\<rparr>"

definition sc_sendText :: "con_env \<Rightarrow> qstring \<Rightarrow> sol_controller \<Rightarrow> sol_controller" where
  "sc_sendText env t c = sc_sendBytes env (e_toUtf8 (ce_qt env) t) c"

section \<open>The SSH tunnel\<close>

definition sc_onHostOut :: "con_env \<Rightarrow> host_out \<Rightarrow> sol_controller \<Rightarrow> sol_controller" where
  "sc_onHostOut env x c =
     (case x of
        TrustedHostKeyAdded fp \<Rightarrow> sc_emit [CtlTrustedSshAdded fp] c
      | HostKeyPrompt fp keyType \<Rightarrow>
          sc_emit [CtlSshPromptChanged, CtlSshPromptRequired fp keyType]
            (c\<lparr>sc_pendingSshKey := fp, sc_pendingSshKeyType := keyType, sc_awaitingSsh := True\<rparr>)
      | HostConnectedChanged \<Rightarrow>
          if sc_openDeferred c \<and> (case sc_sshHost c of None \<Rightarrow> False | Some h \<Rightarrow> isConnected h)
          then sc_open env (c\<lparr>sc_openDeferred := False\<rparr>) else c
      | _ \<Rightarrow> c)"

text \<open>Install the host an operation left, then handle what it emitted.\<close>

definition sc_onHost :: "con_env \<Rightarrow> (ssh_host \<Rightarrow> ssh_host \<times> ssh_cmd list) \<Rightarrow> sol_controller \<Rightarrow> sol_controller" where
  "sc_onHost env f c =
     (case sc_sshHost c of
        None \<Rightarrow> c
      | Some h \<Rightarrow>
          (case f h of (h', cmds) \<Rightarrow>
             fold (sc_onHostOut env) (drop (length (sh_outs h)) (sh_outs h'))
               (c\<lparr>sc_sshHost := Some h', sc_sshCmds := sc_sshCmds c @ cmds\<rparr>)))"

definition sc_setSshConfig :: "con_env \<Rightarrow> ssh_config \<Rightarrow> sol_controller \<Rightarrow> sol_controller" where
  "sc_setSshConfig env cfg c =
     (let c = (if sc_sshHost c = None then c\<lparr>sc_sshHost := Some newSshHost\<rparr> else c);
          c = (if sc_awaitingSsh c \<and> \<not> cfg_enabled cfg
               then sc_emit [CtlSshPromptChanged]
                 (c\<lparr>sc_pendingSshKey := [], sc_pendingSshKeyType := [], sc_awaitingSsh := False\<rparr>)
               else c);
          c = sc_onHost env (setConfig cfg) c
      in c\<lparr>sc_sshSession := (case sc_sshHost c of None \<Rightarrow> False | Some h \<Rightarrow> sh_session h \<noteq> None)\<rparr>)"

definition sc_trustPendingSshHostKey :: "con_env \<Rightarrow> bool \<Rightarrow> sol_controller \<Rightarrow> sol_controller" where
  "sc_trustPendingSshHostKey env persist c =
     (if \<not> sc_awaitingSsh c \<or> sc_sshHost c = None then c
      else
        sc_onHost env (trustPendingHostKey persist)
          (sc_emit [CtlSshPromptChanged] (c\<lparr>sc_pendingSshKey := [], sc_pendingSshKeyType := [], sc_awaitingSsh := False\<rparr>)))"

text \<open>A signal of the SSH worker.\<close>

definition sc_onSshSignal :: "con_env \<Rightarrow> ssh_out \<Rightarrow> sol_controller \<Rightarrow> sol_controller" where
  "sc_onSshSignal env x c = sc_onHost env (\<lambda>h. (onWorkerSignal x h, [])) c"

section \<open>The console implements its specification\<close>

text \<open>
  What the console promises on incoming bytes, stated without the wiring: the session alone turns the
  bytes into console data; the terminal shows exactly that data, and a running recorder gets it too.
  The answers the terminal sends back while it is being fed do not enter.
\<close>

definition sol_payloads :: "sol_out list \<Rightarrow> bytes list" where
  "sol_payloads os = concat (map (\<lambda>x. case x of SolData d \<Rightarrow> [d] | _ \<Rightarrow> []) os)"

definition forget :: "sol_session \<Rightarrow> sol_session" where
  "forget s = s\<lparr>sol_client := initialClient\<rparr>"

definition show_all :: "con_env \<Rightarrow> sol_out list \<Rightarrow> vt \<times> cast option \<Rightarrow> vt \<times> cast option" where
  "show_all env os d =
     (fold (screen_feed (e_fromUtf8 (ce_qt env))) (sol_payloads os) (fst d),
      map_option (fold (pushBytes (ce_cast env) (ce_now env)) (sol_payloads os)) (snd d))"

definition console_spec :: "con_env \<Rightarrow> bytes \<Rightarrow> sol_session \<times> vt \<times> cast option \<Rightarrow> sol_session \<times> vt \<times> cast option" where
  "console_spec env b x =
     (case x of (s, d) \<Rightarrow>
        let t = sol_onRawBytes (ce_qt env) b s
        in (forget t, show_all env (drop (length (sol_outs s)) (sol_outs t)) d))"

definition displayed :: "sol_controller \<Rightarrow> vt \<times> cast option" where
  "displayed c = (sc_screen c, sc_recorder c)"

lemma same_session_forget: "same_session s t \<longleftrightarrow> forget s = forget t"
  by (cases s, cases t) (auto simp: same_session_def forget_def)

lemma payloads_simps [simp]:
  "sol_payloads (xs @ ys) = sol_payloads xs @ sol_payloads ys" "sol_payloads [] = []"
  "sol_payloads (SolData d # xs) = d # sol_payloads xs" "sol_payloads (SolClosed e # xs) = sol_payloads xs"
  "sol_payloads (SolSessionOpened # xs) = sol_payloads xs"
  by (simp_all add: sol_payloads_def)

lemma show_all_append: "show_all env (xs @ ys) d = show_all env ys (show_all env xs d)"
  by (cases "snd d") (simp_all add: show_all_def)

lemma show_all_silent: "sol_payloads os = [] \<Longrightarrow> show_all env os d = d"
  by (cases "snd d"; cases d) (simp_all add: show_all_def)

lemma show_all_Nil [simp]: "show_all env [] d = d"
  by (simp add: show_all_silent)

lemma displayed_simps [simp]:
  "displayed (sc_emit xs c) = displayed c" "displayed (sc_setState st c) = displayed c"
  "displayed (sc_setLastError e c) = displayed c" "displayed (c\<lparr>sc_session := x\<rparr>) = displayed c"
  by (simp_all add: displayed_def sc_emit_def sc_setState_def sc_setLastError_def Let_def)

lemma respond_displayed: "displayed (sc_respond env xs c) = displayed c"
  by (induction env xs c rule: sc_respond.induct) simp_all

lemma pushBytes_closed: "\<not> cast_open r \<Longrightarrow> pushBytes env t b r = r"
  by (simp add: pushBytes_def)

lemma onSolOut_displayed: "displayed (sc_onSolOut env x c) = show_all env [x] (displayed c)"
proof (cases x)
  case (SolData d)
  let ?c = "c\<lparr>sc_loggedFirstData := True, sc_screen := screen_feed (e_fromUtf8 (ce_qt env)) d (sc_screen c)\<rparr>"
  let ?r = "sc_respond env (drop (length (scr_signals (vt_screen (sc_screen c)))) (scr_signals (vt_screen (sc_screen ?c)))) ?c"
  have "sc_screen ?r = sc_screen ?c" "sc_recorder ?r = sc_recorder c"
    using respond_displayed[of env _ ?c] by (simp_all add: displayed_def)
  then show ?thesis
    by (cases "sc_recorder c")
      (simp_all add: SolData sc_onSolOut_def sc_onData_def sc_isRecording_def show_all_def displayed_def pushBytes_closed Let_def)
qed (simp_all add: sc_onSolOut_def show_all_silent)

lemma onSolOuts_displayed: "displayed (fold (sc_onSolOut env) xs c) = show_all env xs (displayed c)"
proof (induction xs arbitrary: c)
  case (Cons x xs)
  then show ?case using show_all_append[of env "[x]" xs "displayed c"] by (simp add: onSolOut_displayed)
qed simp

lemma install_displayed:
  "displayed (sc_install env s t c) = show_all env (drop (length (sol_outs s)) (sol_outs t)) (displayed c)"
  by (simp add: sc_install_def onSolOuts_displayed)

text \<open>The client plays no part in what a step of the session does.\<close>

lemma solStep_forget:
  assumes "forget s = forget t"
  shows "map_loop forget (solStep env s) = map_loop forget (solStep env t)"
proof -
  obtain k where t: "t = s\<lparr>sol_client := k\<rparr>"
    using assms by (cases s, cases t) (auto simp: forget_def)
  have "map_loop forget (onSolOpenReply env st (u\<lparr>sol_client := k\<rparr>)) = map_loop forget (onSolOpenReply env st u)" for st u
    by (cases u) (simp add: onSolOpenReply_def forget_def sol_fail_def sol_emit_def sol_write_def Let_def split: prod.split)
  note this [of _ "s\<lparr>sol_inbox := i\<rparr>" for i]
  then show ?thesis
    unfolding t
    by (cases s) (simp add: solStep_def forget_def sol_fail_def sol_emit_def Let_def split: list.split option.split)
qed

lemma solStep_outs:
  "solStep env s = Next t \<Longrightarrow> \<exists>os. sol_outs t = sol_outs s @ os" "solStep env s = Halt t \<Longrightarrow> \<exists>os. sol_outs t = sol_outs s @ os"
  by (auto simp: solStep_def onSolOpenReply_def Let_def split: list.splits if_splits option.splits)

text \<open>Both loops run in step, whatever the handlers write in between.\<close>

lemma drain_refines:
  assumes "sc_session c = Some u" and "forget u = forget s"
  shows "\<exists>v. sc_session (sc_drain env c) = Some v \<and> forget v = forget (sol_drainInbox (ce_qt env) s)
     \<and> displayed (sc_drain env c)
         = show_all env (drop (length (sol_outs s)) (sol_outs (sol_drainInbox (ce_qt env) s))) (displayed c)
     \<and> (\<exists>os. sol_outs (sol_drainInbox (ce_qt env) s) = sol_outs s @ os)"
  using assms
proof (induction "length (sol_inbox s)" arbitrary: s c u rule: less_induct)
  case less
  note step = solStep_forget [OF less.prems(2), of "ce_qt env"]
  have outs: "sol_outs u = sol_outs s"
    using less.prems(2) by (cases u, cases s) (simp add: forget_def)
  show ?case
  proof (cases "solStep (ce_qt env) s")
    case Wait
    then have "solStep (ce_qt env) u = Wait" using step by (cases "solStep (ce_qt env) u") simp_all
    then show ?thesis
      using less.prems Wait by (simp add: sc_drain.simps [of env c] sol_drainInbox.simps [of _ s])
  next
    case (Halt t)
    then obtain t' where t': "solStep (ce_qt env) u = Halt t'" "forget t' = forget t"
      using step by (cases "solStep (ce_qt env) u") simp_all
    obtain v where v: "sc_session (sc_install env u t' c) = Some v" "same_session t' v"
      by (rule install_session)
    have "sol_outs t' = sol_outs t" using t'(2) by (cases t', cases t) (simp add: forget_def)
    then show ?thesis
      using less.prems Halt t' v outs solStep_outs(2) [OF Halt]
      by (simp add: sc_drain.simps [of env c] sol_drainInbox.simps [of _ s] install_displayed same_session_forget)
  next
    case (Next t)
    then obtain t' where t': "solStep (ce_qt env) u = Next t'" "forget t' = forget t"
      using step by (cases "solStep (ce_qt env) u") simp_all
    obtain v where v: "sc_session (sc_install env u t' c) = Some v" "same_session t' v"
      by (rule install_session)
    have fv: "forget v = forget t" using v(2) t'(2) by (simp add: same_session_forget)
    have ot: "sol_outs t' = sol_outs t" using t'(2) by (cases t', cases t) (simp add: forget_def)
    note ih = less.hyps [OF solStep_consumes [OF Next] v(1) fv]
    obtain os where os: "sol_outs t = sol_outs s @ os" using solStep_outs(1) [OF Next] by blast
    have "sc_drain env c = sc_drain env (sc_install env u t' c)"
      and "sol_drainInbox (ce_qt env) s = sol_drainInbox (ce_qt env) t"
      using less.prems(1) t'(1) Next by (simp_all add: sc_drain.simps [of env c] sol_drainInbox.simps [of _ s])
    then show ?thesis
      using ih os outs ot by (auto simp: install_displayed show_all_append)
  qed
qed

text \<open>C3: The console implements its specification. Whatever bytes the transport delivers, and although
  the terminal answers queries in the middle of the receive loop, the controller ends with the session
  the protocol alone would end with (its transport apart), a terminal that was fed exactly the console
  data of those bytes in order, and a recording of exactly the same data.\<close>

theorem console_refines_spec:
  assumes "sc_session c = Some s"
  shows "(map_option forget (sc_session (sc_onRawBytes env b c)), displayed (sc_onRawBytes env b c))
           = (case console_spec env b (s, displayed c) of (t, d) \<Rightarrow> (Some t, d))"
proof -
  let ?c = "c\<lparr>sc_session := Some (s\<lparr>sol_inbox := sol_inbox s @ b\<rparr>)\<rparr>"
  have "sc_onRawBytes env b c = sc_drain env ?c" using assms by (simp add: sc_onRawBytes_def)
  then show ?thesis
    using drain_refines [of ?c "s\<lparr>sol_inbox := sol_inbox s @ b\<rparr>" "s\<lparr>sol_inbox := sol_inbox s @ b\<rparr>" env]
    by (auto simp: console_spec_def sol_onRawBytes_def Let_def)
qed

definition exConEnv :: con_env where
  "exConEnv = \<lparr>ce_qt = demo_env, ce_cast = exCastEnv, ce_now = 0\<rparr>"

definition exConsole :: sol_controller where
  "exConsole = newSolController\<lparr>sc_session := Some (newSolSession demo_client), sc_state := CtlConnected\<rparr>"

theorem console_refines_spec_witness:
  "displayed (sc_onRawBytes exConEnv (sol_display_frame (replicate 7 0) [65]) exConsole)
     = snd (console_spec exConEnv (sol_display_frame (replicate 7 0) [65]) (newSolSession demo_client, displayed exConsole))"
  using console_refines_spec [of exConsole "newSolSession demo_client" exConEnv "sol_display_frame (replicate 7 0) [65]"]
  by (auto simp: exConsole_def split: prod.splits)

section \<open>Every reachable console is well formed\<close>

text \<open>What holds while a session exists, and between the operations.\<close>

definition grid_ok :: "sol_controller \<Rightarrow> bool" where
  "grid_ok c \<longleftrightarrow> grid_inv (vt_screen (sc_screen c))"

definition live :: "sol_controller \<Rightarrow> bool" where
  "live c \<longleftrightarrow> grid_ok c \<and> sc_session c \<noteq> None"

definition con_inv :: "sol_controller \<Rightarrow> bool" where
  "con_inv c \<longleftrightarrow> grid_ok c
     \<and> (sc_session c = None \<longrightarrow> sc_state c \<in> {CtlDisconnected, CtlFailed} \<or> sc_state c = CtlConnecting \<and> sc_openDeferred c)"

lemma con_inv_grid: "con_inv c \<Longrightarrow> grid_ok c"
  by (simp add: con_inv_def)

lemma live_inv: "live c \<Longrightarrow> con_inv c"
  by (auto simp: live_def con_inv_def)

lemma live_simps [simp]:
  "live (sc_emit xs c) = live c" "live (sc_setState st c) = live c" "live (sc_setLastError e c) = live c"
  by (simp_all add: live_def grid_ok_def sc_emit_def sc_setState_def sc_setLastError_def Let_def)

lemma show_grid: "grid_inv (vt_screen (fst d)) \<Longrightarrow> grid_inv (vt_screen (fst (show_all env os d)))"
  unfolding show_all_def fst_conv
  by (rule fold_keeps [where P = "\<lambda>p. grid_inv (vt_screen p)"]) (simp_all add: vt_grid.feed_touch)

lemma grid_displayed: "grid_ok c \<longleftrightarrow> grid_inv (vt_screen (fst (displayed c)))"
  by (simp add: grid_ok_def displayed_def)

lemma install_live: "grid_ok c \<Longrightarrow> live (sc_install env s t c)"
  unfolding live_def grid_displayed install_displayed using show_grid install_session
  by (metis option.distinct(1))

lemma drain_live: "live c \<Longrightarrow> live (sc_drain env c)"
  using drain_refines [of c _ _ env] show_grid unfolding live_def grid_displayed by (metis not_None_eq option.distinct(1))

lemma onRawBytes_live: "live c \<Longrightarrow> live (sc_onRawBytes env b c)"
  unfolding sc_onRawBytes_def by (rule drain_live) (auto simp: live_def grid_ok_def)

lemma onSession_live: "live c \<Longrightarrow> live (sc_onSession env f c)"
  using install_live by (auto simp: sc_onSession_def live_def split: option.split)

lemma onClientOut_live: "live c \<Longrightarrow> live (sc_onClientOut env x c)"
  by (cases x) (auto simp: sc_onClientOut_def onRawBytes_live onSession_live split: option.split, auto simp: live_def grid_ok_def)

lemma clientOp_live:
  assumes "live c"
  shows "live (sc_clientOp env f c)"
proof -
  obtain s where s: "sc_session c = Some s" using assms by (auto simp: live_def)
  have "live (c\<lparr>sc_session := Some (s\<lparr>sol_client := f (sol_client s)\<rparr>)\<rparr>)" using assms by (simp add: live_def grid_ok_def)
  then show ?thesis
    unfolding sc_clientOp_def s by (simp add: Let_def fold_keeps [where P = live] onClientOut_live)
qed

lemma clientOp_inv:
  assumes "con_inv c"
  shows "con_inv (sc_clientOp env f c)"
proof (cases "sc_session c")
  case (Some s)
  then have "live c" using assms by (simp add: live_def con_inv_def)
  then show ?thesis by (intro live_inv clientOp_live)
qed (use assms in \<open>simp add: sc_clientOp_def\<close>)

lemma emit_fields [simp]:
  "sc_state (sc_emit xs c) = sc_state c" "sc_openDeferred (sc_emit xs c) = sc_openDeferred c" "grid_ok (sc_emit xs c) = grid_ok c"
  "sc_host (sc_emit xs c) = sc_host c"
  by (simp_all add: sc_emit_def grid_ok_def)

lemma set_fields [simp]:
  "sc_state (sc_setState st c) = st" "sc_openDeferred (sc_setState st c) = sc_openDeferred c" "grid_ok (sc_setState st c) = grid_ok c"
  "sc_state (sc_setLastError e c) = sc_state c" "sc_openDeferred (sc_setLastError e c) = sc_openDeferred c"
  "grid_ok (sc_setLastError e c) = grid_ok c"
  by (simp_all add: sc_setState_def sc_setLastError_def Let_def) (simp_all add: grid_ok_def sc_emit_def)

lemma emit_inv_con [simp]: "con_inv (sc_emit xs c) = con_inv c"
  by (simp add: con_inv_def)

lemma stopRecording_fields [simp]:
  "sc_session (sc_stopRecording env c) = sc_session c" "sc_state (sc_stopRecording env c) = sc_state c"
  "grid_ok (sc_stopRecording env c) = grid_ok c" "sc_openDeferred (sc_stopRecording env c) = sc_openDeferred c"
  by (simp_all add: sc_stopRecording_def) (simp add: grid_ok_def)

lemma beginRecording_fields [simp]:
  "sc_session (snd (sc_beginRecording env path title c)) = sc_session c"
  "sc_state (snd (sc_beginRecording env path title c)) = sc_state c"
  "sc_screen (snd (sc_beginRecording env path title c)) = sc_screen c"
  "sc_openDeferred (snd (sc_beginRecording env path title c)) = sc_openDeferred c"
  by (simp_all add: sc_beginRecording_def sc_emit_def Let_def split: prod.split)

lemma startRecording_fields [simp]:
  "sc_session (snd (sc_startRecording env path title c)) = sc_session c"
  "sc_state (snd (sc_startRecording env path title c)) = sc_state c"
  "grid_ok (snd (sc_startRecording env path title c)) = grid_ok c"
  "sc_openDeferred (snd (sc_startRecording env path title c)) = sc_openDeferred c"
  by (simp_all add: sc_startRecording_def) (simp add: grid_ok_def sc_stopRecording_def sc_emit_def)

lemma teardown_fields [simp]:
  "sc_session (sc_teardown env c) = None" "grid_ok (sc_teardown env c) = grid_ok c"
  "sc_openDeferred (sc_teardown env c) = sc_openDeferred c"
  by (simp_all add: sc_teardown_def Let_def) (simp_all add: grid_ok_def sc_stopRecording_def sc_emit_def)

lemma dial_live:
  assumes "grid_ok c"
  shows "live (sc_dial env c)"
proof -
  have "live (sc_freshSession c)"
    using assms by (simp add: live_def grid_ok_def sc_freshSession_def on_screen_def Let_def)
  then show ?thesis by (simp add: sc_dial_def Let_def clientOp_live)
qed

lemma has_session:
  assumes "sc_session c \<noteq> None"
  shows "sc_session (sc_onRawBytes env b c) \<noteq> None" "sc_session (sc_onSession env f c) \<noteq> None"
    "sc_session (sc_onClientOut env x c) \<noteq> None"
proof -
  obtain s where s: "sc_session c = Some s" using assms by blast
  show raw: "sc_session (sc_onRawBytes env b c) \<noteq> None" for b
    using drain_refines [of "c\<lparr>sc_session := Some (s\<lparr>sol_inbox := sol_inbox s @ b\<rparr>)\<rparr>" _ _ env] s
    by (auto simp: sc_onRawBytes_def)
  show ses: "sc_session (sc_onSession env f c) \<noteq> None" for f
    using install_session [of env s "f s" c] s by (auto simp: sc_onSession_def)
  show "sc_session (sc_onClientOut env x c) \<noteq> None"
    using assms raw ses by (cases x) (simp_all add: sc_onClientOut_def split: option.split)
qed

lemma dial_session: "sc_session (sc_dial env c) \<noteq> None"
proof -
  have "sc_session (fold (sc_onClientOut env) xs d) \<noteq> None" if "sc_session d \<noteq> None" for xs d
    using fold_keeps [where P = "\<lambda>d. sc_session d \<noteq> None", OF that] has_session(3) by metis
  then show ?thesis by (simp add: sc_dial_def sc_clientOp_def sc_freshSession_def Let_def)
qed

lemma open_inv_con:
  assumes "grid_ok c"
  shows "con_inv (sc_open env c)"
proof (cases "sc_waitsForSsh c")
  case True
  then show ?thesis using assms by (simp add: sc_open_def con_inv_def) (simp add: grid_ok_def)
next
  case False
  let ?c = "sc_teardown env (c\<lparr>sc_openDeferred := False\<rparr>)"
  have g: "grid_ok ?c" using assms by simp (simp add: grid_ok_def)
  then have "con_inv (sc_dial env ?c)" by (intro live_inv dial_live)
  moreover have "con_inv (sc_setState CtlFailed (sc_setLastError CtlHostEmpty ?c))" using g by (simp add: con_inv_def)
  ultimately show ?thesis using False by (simp add: sc_open_def Let_def)
qed

lemma onHost_inv:
  assumes "con_inv c"
  shows "con_inv (sc_onHost env f c)"
proof -
  have "con_inv (sc_onHostOut env x c)" if "con_inv c" for x c
  proof (cases x)
    case HostConnectedChanged
    have "grid_ok (c\<lparr>sc_openDeferred := False\<rparr>)" using that by (simp add: con_inv_def grid_ok_def)
    then show ?thesis using that HostConnectedChanged by (simp add: sc_onHostOut_def open_inv_con)
  qed (use that in \<open>simp_all add: sc_onHostOut_def, simp_all add: con_inv_def grid_ok_def\<close>)
  then have "con_inv (fold (sc_onHostOut env) xs d)" if "con_inv d" for xs d
    using that by (simp add: fold_keeps [where P = con_inv])
  moreover have "con_inv (c\<lparr>sc_sshHost := h, sc_sshCmds := cmds\<rparr>)" for h cmds
    using assms by (simp add: con_inv_def grid_ok_def)
  ultimately show ?thesis using assms by (auto simp: sc_onHost_def split: option.split prod.split)
qed

lemma setSshConfig_inv:
  assumes "con_inv c"
  shows "con_inv (sc_setSshConfig env cfg c)"
proof -
  let ?c1 = "if sc_sshHost c = None then c\<lparr>sc_sshHost := Some newSshHost\<rparr> else c"
  let ?c2 = "if sc_awaitingSsh ?c1 \<and> \<not> cfg_enabled cfg
     then sc_emit [CtlSshPromptChanged] (?c1\<lparr>sc_pendingSshKey := [], sc_pendingSshKeyType := [], sc_awaitingSsh := False\<rparr>) else ?c1"
  have "con_inv ?c2" using assms by simp (simp add: con_inv_def grid_ok_def)
  then have "con_inv (sc_onHost env (setConfig cfg) ?c2)" by (rule onHost_inv)
  then show ?thesis
    unfolding sc_setSshConfig_def Let_def by (simp add: con_inv_def grid_ok_def)
qed

lemma trustSsh_inv: "con_inv c \<Longrightarrow> con_inv (sc_trustPendingSshHostKey env persist c)"
  unfolding sc_trustPendingSshHostKey_def by (auto intro!: onHost_inv) (simp add: con_inv_def grid_ok_def)

lemma trustCert_inv:
  assumes "con_inv c"
  shows "con_inv (sc_trustPendingCert env persist c)"
proof (cases "sc_session c = None \<or> sc_state c \<noteq> CtlAwaitingTrust")
  case False
  then have "live (sc_clientOp env (trustPendingPeerCert (ce_qt env)) c)"
    using assms by (intro clientOp_live) (simp add: live_def con_inv_def)
  then have "live (sc_clientOp env (trustPendingPeerCert (ce_qt env)) c\<lparr>sc_trusted := v\<rparr>)" for v
    by (simp add: live_def grid_ok_def)
  then show ?thesis
    using False \<open>live (sc_clientOp env (trustPendingPeerCert (ce_qt env)) c)\<close>
    by (intro live_inv) (auto simp: sc_trustPendingCert_def Let_def)
qed (use assms in \<open>simp add: sc_trustPendingCert_def\<close>)

lemma close_inv_con: "con_inv c \<Longrightarrow> con_inv (sc_close env c)"
  by (simp add: sc_close_def con_inv_def)

lemma setters_inv:
  "con_inv (sc_setHost v c) = con_inv c" "con_inv (sc_setUser v c) = con_inv c" "con_inv (sc_setPassword v c) = con_inv c"
  "con_inv (sc_setTls b c) = con_inv c" "con_inv (sc_setTrustedFingerprints vs c) = con_inv c"
  by (simp_all add: sc_setHost_def sc_setUser_def sc_setPassword_def sc_setTls_def sc_setTrustedFingerprints_def,
      simp_all add: con_inv_def grid_ok_def)

lemma sendBytes_inv: "con_inv c \<Longrightarrow> con_inv (sc_sendBytes env b c)"
  by (cases "sc_session c") (simp_all add: sc_sendBytes_def con_inv_def grid_ok_def)

lemma recording_inv:
  "con_inv c \<Longrightarrow> con_inv (snd (sc_startRecording env path title c))" "con_inv c \<Longrightarrow> con_inv (sc_stopRecording env c)"
  by (simp_all add: con_inv_def)

text \<open>
  The terminal view holds the console's screen and resizes it when it is laid out and whenever its size or
  its font changes: at least 20 columns and 4 rows, and nothing when the size is the one the screen has or the
  font is not measured yet (\<open>Terminal.qml\<close>, \<open>_retileGrid\<close>). The sizes of a cell and of the viewport are those
  of the layout, in units that make all four whole numbers.
\<close>

definition sc_retileGrid :: "int \<Rightarrow> int \<Rightarrow> int \<Rightarrow> int \<Rightarrow> sol_controller \<Rightarrow> sol_controller" where
  "sc_retileGrid cellWidth cellHeight width height c =
     (if cellWidth \<le> 0 \<or> cellHeight \<le> 0 then c
      else
        let cols = max 20 (width div cellWidth); rows = max 4 (height div cellHeight); s = vt_screen (sc_screen c)
        in if rows \<noteq> int (scr_rows s) \<or> cols \<noteq> int (scr_columns s)
           then c\<lparr>sc_screen := on_screen (resize rows cols) (sc_screen c)\<rparr> else c)"

lemma retile_inv: "con_inv c \<Longrightarrow> con_inv (sc_retileGrid cw ch w h c)"
  by (simp add: sc_retileGrid_def con_inv_def grid_ok_def on_screen_def Let_def)

lemma retile_size:
  assumes "0 < cw" and "0 < ch"
  shows "scr_rows (vt_screen (sc_screen (sc_retileGrid cw ch w h c))) = nat (max 4 (h div ch))
    \<and> scr_columns (vt_screen (sc_screen (sc_retileGrid cw ch w h c))) = nat (max 20 (w div cw))"
  using assms by (auto simp: sc_retileGrid_def on_screen_def resize_def touch_def scr_emit_def Let_def)

text \<open>
  Everything that can happen to a console: what the user interface calls on the controller and on its
  screen, what the socket reports to the client, the session's timer, and the signals of the SSH worker.
\<close>

inductive sc_step :: "sol_controller \<Rightarrow> sol_controller \<Rightarrow> bool" where
  step_host: "sc_step c (sc_setHost v c)"
| step_user: "sc_step c (sc_setUser v c)"
| step_password: "sc_step c (sc_setPassword v c)"
| step_tls: "sc_step c (sc_setTls b c)"
| step_pins: "sc_step c (sc_setTrustedFingerprints vs c)"
| step_open: "sc_step c (sc_open env c)"
| step_close: "sc_step c (sc_close env c)"
| step_trust: "sc_step c (sc_trustPendingCert env persist c)"
| step_text: "sc_step c (sc_sendText env t c)"
| step_bytes: "sc_step c (sc_sendBytes env b c)"
| step_record: "sc_step c (snd (sc_startRecording env path title c))"
| step_recorded: "sc_step c (sc_stopRecording env c)"
| step_ssh: "sc_step c (sc_setSshConfig env cfg c)"
| step_sshTrust: "sc_step c (sc_trustPendingSshHostKey env persist c)"
| step_sshSignal: "sc_step c (sc_onSshSignal env x c)"
| step_connected: "sc_step c (sc_clientOp env (handleConnected (ce_qt env)) c)"
| step_encrypted: "sc_step c (sc_clientOp env (handleEncrypted (ce_qt env) peer) c)"
| step_tunnel: "sc_step c (sc_clientOp env (tunnelOpened (ce_qt env) host port fd error ok) c)"
| step_read: "sc_step c (sc_clientOp env (handleReadyRead (ce_qt env) b) c)"
| step_error: "sc_step c (sc_clientOp env (handleSocketError (ce_qt env) err) c)"
| step_timer: "sc_step c (sc_onSession env (sendKeepalive (ce_qt env)) c)"
| step_retile: "sc_step c (sc_retileGrid cellWidth cellHeight width height c)"

inductive sc_reachable :: "sol_controller \<Rightarrow> bool" where
  sc_init: "sc_reachable newSolController"
| sc_next: "sc_reachable c \<Longrightarrow> sc_step c d \<Longrightarrow> sc_reachable d"

lemmas sc_ops_inv = retile_inv setters_inv close_inv_con trustCert_inv sendBytes_inv recording_inv setSshConfig_inv trustSsh_inv
  onHost_inv clientOp_inv

lemma onSession_inv: "con_inv c \<Longrightarrow> con_inv (sc_onSession env f c)"
proof (cases "sc_session c")
  case (Some s)
  assume "con_inv c"
  then show ?thesis using Some by (intro live_inv onSession_live) (simp add: live_def con_inv_def)
qed (simp add: sc_onSession_def)

lemma sc_step_inv: "sc_step c d \<Longrightarrow> con_inv c \<Longrightarrow> con_inv d"
  by (induction rule: sc_step.induct)
    (simp_all add: sc_ops_inv onSession_inv sc_sendText_def sc_onSshSignal_def open_inv_con con_inv_grid)

text \<open>C4: A console in any reachable state, however the view resized its screen on the way, is well formed: its
  terminal grid is intact (as many cells as rows times columns, the cursor inside), and a console that
  has no session does not claim to be authenticating, awaiting trust, opening or connected; it is
  disconnected, failed, or still waiting for its SSH tunnel.\<close>

theorem console_reachable_safe:
  assumes "sc_reachable c"
  shows "grid_inv (vt_screen (sc_screen c))
     \<and> (sc_session c = None \<longrightarrow> sc_state c \<in> {CtlDisconnected, CtlFailed} \<or> sc_state c = CtlConnecting \<and> sc_openDeferred c)"
proof -
  have "con_inv c"
    using assms
  proof induction
    case sc_init
    then show ?case by (simp add: con_inv_def grid_ok_def newSolController_def newVt_def newScreen_inv)
  qed (rule sc_step_inv)
  then show ?thesis by (simp add: con_inv_def grid_ok_def)
qed

theorem console_reachable_safe_witness:
  "(let c = sc_retileGrid 8 16 60 480 (sc_open exConEnv (sc_setHost [104] (sc_retileGrid 8 16 1056 40 newSolController)))
    in grid_inv (vt_screen (sc_screen c)) \<and> scr_rows (vt_screen (sc_screen c)) = 30 \<and> scr_columns (vt_screen (sc_screen c)) = 20)"
  unfolding Let_def
  using console_reachable_safe [OF sc_next [OF sc_next [OF sc_next [OF sc_next [OF sc_init step_retile] step_host] step_open]
      step_retile], of 8 16 60 480 exConEnv "[104]" 8 16 1056 40] retile_size [of 8 16 60 480] by simp

section \<open>Trust is decided too late\<close>

definition sol_open_reply_frame :: bytes where
  "sol_open_reply_frame = 0x21 # replicate 22 0"

text \<open>The signals of a handshake leave everything but the state shown and the log as it was.\<close>

definition shown :: "ctl_state \<Rightarrow> sol_controller \<Rightarrow> sol_controller \<Rightarrow> bool" where
  "shown st c d \<longleftrightarrow> (\<exists>xs. d = c\<lparr>sc_state := st, sc_outs := xs\<rparr>)"

lemma setState_shown: "shown st (c :: sol_controller) (sc_setState st c)"
  unfolding shown_def
  by (rule exI [of _ "sc_outs (sc_setState st c)"], cases c) (simp add: sc_setState_def sc_emit_def Let_def)

lemma shown_trans: "shown st c d \<Longrightarrow> shown st' d e \<Longrightarrow> shown st' c e"
  unfolding shown_def by (cases c) auto

lemma shown_refl: "shown (sc_state c) c c"
  unfolding shown_def by (cases c) (auto intro: exI)

lemma handshake_shown:
  assumes "m_protocol cl = Sol"
  shows "\<exists>d. shown CtlOpening c d
     \<and> fold (sc_onClientOut env) (client_handshake (ce_qt env) cl realm nonce qop) c
         = sc_onSession env (sol_start (ce_qt env)) d"
proof -
  let ?d1 = "sc_setState CtlAuthenticating c"
  let ?d2 = "sc_setState CtlAuthenticating (sc_setState CtlAuthenticating (sc_setState CtlAuthenticating ?d1))"
  have "shown CtlOpening c (sc_setState CtlOpening ?d2)"
    by (rule shown_trans [OF setState_shown shown_trans [OF setState_shown shown_trans [OF setState_shown
          shown_trans [OF setState_shown setState_shown]]]])
  then show ?thesis
    using assms by (intro exI [of _ "sc_setState CtlOpening ?d2"]) (simp add: client_handshake_def sc_onClientOut_def Let_def)
qed

lemma start_opens:
  assumes "writes_complete env" and "m_state (sol_client s) = Authenticated" and "m_socket (sol_client s) \<noteq> None"
  shows "\<exists>t. sol_start env s = t \<and> sol_outs t = sol_outs s \<and> sol_inbox t = sol_inbox s \<and> sol_settingsSent t = sol_settingsSent s"
  using assms by (simp add: sol_start_def sol_write_def writeRaw_def sockWrite_def writes_complete_def Let_def)

lemma open_reply_opens:
  assumes "sol_inbox s = sol_open_reply_frame" and "\<not> sol_settingsSent s"
  shows "\<exists>t. solStep env s = Next t \<and> sol_outs t = sol_outs s @ [SolSessionOpened] \<and> sol_inbox t = [] \<and> sol_open t"
  using assms by (simp add: solStep_def sol_open_reply_frame_def tryParseSolOpenReply_def onSolOpenReply_def sol_emit_def Let_def)

lemma console_opens:
  assumes "sc_session c = Some s" and "sol_inbox s = []" and "\<not> sol_settingsSent s"
  shows "\<exists>t. sc_session (sc_onRawBytes env sol_open_reply_frame c) = Some t \<and> sol_open t
     \<and> shown CtlConnected (c\<lparr>sc_session := Some t\<rparr>) (sc_onRawBytes env sol_open_reply_frame c)"
proof -
  let ?s = "s\<lparr>sol_inbox := sol_open_reply_frame\<rparr>" and ?c = "c\<lparr>sc_session := Some (s\<lparr>sol_inbox := sol_open_reply_frame\<rparr>)\<rparr>"
  obtain t where t: "solStep (ce_qt env) ?s = Next t" "sol_outs t = sol_outs s @ [SolSessionOpened]" "sol_inbox t = []" "sol_open t"
    using open_reply_opens [of ?s "ce_qt env"] assms(3) by auto
  have i: "sc_install env ?s t ?c = sc_setState CtlConnected (c\<lparr>sc_session := Some t\<rparr>)"
    using t(2) by (simp add: sc_install_def sc_onSolOut_def)
  have "solStep (ce_qt env) t = Wait" using t(3) by (simp add: solStep_def)
  then have "sc_onRawBytes env sol_open_reply_frame c = sc_setState CtlConnected (c\<lparr>sc_session := Some t\<rparr>)"
    using assms(1,2) t(1) i by (simp add: sc_onRawBytes_def sc_drain.simps [of env ?c] sc_drain.simps [of env "sc_setState CtlConnected (c\<lparr>sc_session := Some t\<rparr>)"])
  then show ?thesis using t(4) setState_shown by simp
qed

text \<open>C40: An unknown certificate does not keep the console closed. While the operator is asked whether to
  trust the peer's certificate, a peer that simply plays the device's part is taken through the whole
  handshake: the prompt disappears, the console is shown as connected and its session takes keystrokes,
  though the certificate was never accepted.\<close>

theorem untrusted_console_opens:
  assumes "sc_session c = Some s" and "sol_inbox s = []" and "\<not> sol_settingsSent s" and "sc_state c = CtlAwaitingTrust"
    and "m_state (sol_client s) = Connecting" and "m_awaitingTrust (sol_client s)" and "m_inbox (sol_client s) = []"
    and "m_user (sol_client s) \<noteq> []" and "m_protocol (sol_client s) = Sol" and "m_socket (sol_client s) \<noteq> None"
    and "writes_complete (ce_qt env)"
    and "length realm \<le> 255" and "length nonce \<le> 255" and "length qop \<le> 255"
    and "e_fromUtf8 (ce_qt env) realm \<noteq> []" and "e_fromUtf8 (ce_qt env) nonce \<noteq> []" and "e_fromUtf8 (ce_qt env) qop \<noteq> []"
  shows "(let d = sc_clientOp env (handleReadyRead (ce_qt env)
                    (device_handshake Sol [] [4] realm nonce qop @ sol_open_reply_frame)) c
     in sc_state d = CtlConnected \<and> (\<exists>t. sc_session d = Some t \<and> sol_open t)
      \<and> sc_trusted d = sc_trusted c \<and> sc_trustPendingCert env True d = d)"
proof -
  let ?cl = "sol_client s" and ?bytes = "device_handshake Sol [] [4] realm nonce qop @ sol_open_reply_frame"
  let ?hs = "client_handshake (ce_qt env) ?cl (e_fromUtf8 (ce_qt env) realm) (e_fromUtf8 (ce_qt env) nonce) (e_fromUtf8 (ce_qt env) qop)"
  define cl where "cl = handleReadyRead (ce_qt env) ?bytes ?cl"
  have "writes_succeed (ce_qt env)" using assms(11) by (simp add: writes_succeed_def writes_complete_def)
  then have cl: "m_state cl = Authenticated" "m_socket cl \<noteq> None"
      "outs cl = outs ?cl @ ?hs @ [RawBytes sol_open_reply_frame]"
    using handshake_result [of ?cl "ce_qt env" "[]" "[4]" realm nonce qop sol_open_reply_frame] assms
    by (simp_all add: cl_def sol_open_reply_frame_def)
  let ?c = "c\<lparr>sc_session := Some (s\<lparr>sol_client := cl\<rparr>)\<rparr>"
  obtain d where d: "shown CtlOpening ?c d"
      "fold (sc_onClientOut env) ?hs ?c = sc_onSession env (sol_start (ce_qt env)) d"
    using handshake_shown [OF assms(9)] by blast
  define t where "t = sol_start (ce_qt env) (s\<lparr>sol_client := cl\<rparr>)"
  have t: "sol_outs t = sol_outs s" "sol_inbox t = []" "\<not> sol_settingsSent t"
    using start_opens [OF assms(11), of "s\<lparr>sol_client := cl\<rparr>"] cl assms(2,3) by (simp_all add: t_def)
  have sd: "sc_session d = Some (s\<lparr>sol_client := cl\<rparr>)" "sc_trusted d = sc_trusted c" using d(1) by (auto simp: shown_def)
  have "sc_onSession env (sol_start (ce_qt env)) d = d\<lparr>sc_session := Some t\<rparr>"
    using t(1) by (simp add: sc_onSession_def sd sc_install_def flip: t_def)
  then have run: "sc_clientOp env (handleReadyRead (ce_qt env) ?bytes) c
      = sc_onRawBytes env sol_open_reply_frame (d\<lparr>sc_session := Some t\<rparr>)"
    using d(2) cl(3) by (simp add: sc_clientOp_def assms(1) sc_onClientOut_def Let_def flip: cl_def)
  obtain u where u: "sc_session (sc_onRawBytes env sol_open_reply_frame (d\<lparr>sc_session := Some t\<rparr>)) = Some u" "sol_open u"
      "shown CtlConnected (d\<lparr>sc_session := Some t, sc_session := Some u\<rparr>) (sc_onRawBytes env sol_open_reply_frame (d\<lparr>sc_session := Some t\<rparr>))"
    using console_opens [of "d\<lparr>sc_session := Some t\<rparr>" t env] t by auto
  then show ?thesis
    unfolding run Let_def using sd(2) by (auto simp: shown_def sc_trustPendingCert_def)
qed

definition exUntrusted :: sol_controller where
  "exUntrusted = newSolController\<lparr>sc_state := CtlAwaitingTrust,
     sc_session := Some (newSolSession (demo_client\<lparr>m_state := Connecting, m_socket := Some SslSocket, m_awaitingTrust := True\<rparr>))\<rparr>"

theorem untrusted_console_opens_witness:
  "sc_state (sc_clientOp exConEnv (handleReadyRead demo_env (device_handshake Sol [] [4] [7] [8] [9] @ sol_open_reply_frame)) exUntrusted)
     = CtlConnected"
  using untrusted_console_opens [of exUntrusted _ exConEnv "[7]" "[8]" "[9]"]
  by (simp add: exUntrusted_def exConEnv_def newSolSession_def writes_complete_def demo_env_def demo_client_def initialClient_def Let_def)

section \<open>Closing and reopening\<close>

text \<open>Closing does not cancel an opening that waits for its SSH tunnel. A console opened while the tunnel
  is still negotiating and then closed by the user is shown as disconnected; when the tunnel comes up the
  controller dials all the same, with a client and a session nobody asked for.\<close>

theorem close_keeps_deferred_open:
  assumes "sc_sshHost c = Some h" and "sh_session h = Some f" and "sh_enabled h" and "f_state f \<noteq> SshConnected"
    and "sc_host c \<noteq> []"
  shows "(let d = sc_close env (sc_open env c); e = sc_onSshSignal env (SshStateChanged SshConnected) d
     in sc_state d = CtlDisconnected \<and> sc_session d = None \<and> sc_session e \<noteq> None)"
proof -
  define d where "d = sc_close env (sc_open env c)"
  have "sc_waitsForSsh c" using assms by (simp add: sc_waitsForSsh_def isConnected_def)
  then have o: "sc_open env c = sc_setState CtlConnecting (sc_setLastError CtlNoError (c\<lparr>sc_openDeferred := True\<rparr>))"
    by (simp add: sc_open_def)
  have d: "sc_state d = CtlDisconnected" "sc_session d = None" "sc_openDeferred d" by (simp_all add: d_def sc_close_def o)
  have host: "sc_sshHost d = Some h" "sc_host d = sc_host c"
    unfolding d_def sc_close_def o
    by (simp_all add: sc_setState_def sc_setLastError_def sc_teardown_def sc_stopRecording_def sc_emit_def assms(1) Let_def)
  let ?h = "onWorkerSignal (SshStateChanged SshConnected) h"
  have h: "isConnected ?h" "drop (length (sh_outs h)) (sh_outs ?h) = [HostStatusChanged, HostConnectedChanged]"
    using assms(2) by (simp_all add: onWorkerSignal_def isConnected_def sh_emit_def Let_def)
  let ?d = "d\<lparr>sc_sshHost := Some ?h\<rparr>"
  have tear: "sc_host (sc_teardown env x) = sc_host x" for x
    by (simp add: sc_teardown_def sc_stopRecording_def sc_emit_def Let_def)
  have "sc_session (sc_open env (?d\<lparr>sc_openDeferred := False\<rparr>)) \<noteq> None"
    using h(1) host(2) assms(5) dial_session by (simp add: sc_open_def sc_waitsForSsh_def Let_def tear)
  then have "sc_session (sc_onSshSignal env (SshStateChanged SshConnected) d) \<noteq> None"
    using d(3) h host(1) by (simp add: sc_onSshSignal_def sc_onHost_def sc_onHostOut_def)
  then show ?thesis using d by (simp add: Let_def flip: d_def)
qed

theorem close_keeps_deferred_open_witness:
  "sc_session (sc_onSshSignal exConEnv (SshStateChanged SshConnected) (sc_close exConEnv (sc_open exConEnv
     (newSolController\<lparr>sc_host := [104], sc_sshHost := Some (newSshHost\<lparr>sh_session := Some newFacade, sh_enabled := True\<rparr>)\<rparr>)))) \<noteq> None"
  using close_keeps_deferred_open [of "newSolController\<lparr>sc_host := [104],
      sc_sshHost := Some (newSshHost\<lparr>sh_session := Some newFacade, sh_enabled := True\<rparr>)\<rparr>" _ newFacade exConEnv]
  by (simp add: newFacade_def Let_def)

definition silent :: "redir_out set" where
  "silent = range Wrote \<union> {SocketAbort, StateChanged Failed}"

lemma selector_fails:
  assumes "\<And>os b. e_write env os b = -1"
  shows "\<exists>e xs. outs (handleConnected env c) = outs c @ xs @ [FailedSignal e] \<and> m_state (handleConnected env c) = Failed
     \<and> set xs \<subseteq> silent"
  using assms by (auto simp: handleConnected_def sockWrite_def fail_def silent_def Let_def)

lemma accept_fails:
  assumes "\<And>os b. e_write env os b = -1" and "m_socket c = Some SslSocket" and "m_awaitingTrust c"
  shows "\<exists>e xs. outs (trustPendingPeerCert env c) = outs c @ xs @ [FailedSignal e]
     \<and> m_state (trustPendingPeerCert env c) = Failed \<and> set xs \<subseteq> silent"
proof -
  obtain d where d: "trustPendingPeerCert env c = handleConnected env d" "outs d = outs c"
    using assms(2,3) by (simp add: trustPendingPeerCert_def Let_def split: if_splits)
  then show ?thesis using selector_fails [OF assms(1), of d] by simp
qed

text \<open>A failure while a certificate is being accepted is not shown. The controller reports that it is
  authenticating as the last act of accepting a certificate, also when accepting it made the client fail
  because the first write went wrong: the client is dead, and the console waits.\<close>

theorem trust_failure_forgotten:
  assumes "sc_session c = Some s" and "sc_state c = CtlAwaitingTrust"
    and "m_socket (sol_client s) = Some SslSocket" and "m_awaitingTrust (sol_client s)"
    and "\<And>os b. e_write (ce_qt env) os b = -1"
  shows "(let d = sc_trustPendingCert env persist c
     in sc_state d = CtlAuthenticating \<and> (\<exists>t. sc_session d = Some t \<and> m_state (sol_client t) = Failed))"
proof -
  let ?f = "trustPendingPeerCert (ce_qt env)"
  obtain e xs where x: "outs (?f (sol_client s)) = outs (sol_client s) @ xs @ [FailedSignal e]"
      "m_state (?f (sol_client s)) = Failed" "set xs \<subseteq> silent"
    using accept_fails [OF assms(5,3,4)] by blast
  define cl where "cl = ?f (sol_client s)"
  note cl = x [folded cl_def]
  have quiet: "sc_session (fold (sc_onClientOut env) ys d) = sc_session d"
    if "set ys \<subseteq> silent" for ys d
    using that by (induction ys arbitrary: d) (auto simp: sc_onClientOut_def silent_def)
  let ?t = "onClientFailed e (s\<lparr>sol_client := cl\<rparr>)"
  have "sc_session (sc_clientOp env ?f c) = Some ?t"
    using cl quiet [OF cl(3), of "c\<lparr>sc_session := Some (s\<lparr>sol_client := cl\<rparr>)\<rparr>"]
    by (simp add: sc_clientOp_def assms(1) sc_onClientOut_def sc_onSession_def sc_install_def sc_onSolOut_def onClientFailed_def
        flip: cl_def)
  moreover have "m_state (sol_client ?t) = Failed" using cl(2) by (simp add: onClientFailed_def sol_fail_def sol_emit_def)
  ultimately show ?thesis
    using assms(1,2) by (simp add: sc_trustPendingCert_def Let_def)
qed

theorem trust_failure_forgotten_witness:
  "sc_state (sc_trustPendingCert (exConEnv\<lparr>ce_qt := demo_env\<lparr>e_write := \<lambda>os b. -1\<rparr>\<rparr>) False exUntrusted) = CtlAuthenticating"
  using trust_failure_forgotten [of exUntrusted _ "exConEnv\<lparr>ce_qt := demo_env\<lparr>e_write := \<lambda>os b. -1\<rparr>\<rparr>" False]
  by (simp add: exUntrusted_def newSolSession_def Let_def)

text \<open>A console that is opened again does not start clean: the grid is cleared but the parser is not
  reset. When the previous session ended inside an operating system command string, everything the new
  session prints is swallowed until a BEL or an escape character happens to come.\<close>

theorem reopen_swallows_output:
  assumes "vt_state (sc_screen c) = Osc" and "kBel \<notin> set bs" and "kEsc \<notin> set bs"
  shows "(let d = sc_freshSession c; p = screen_feed u bs (sc_screen d)
     in vt_state p = Osc \<and> scr_cells (vt_screen p) = map (\<lambda>_. emptyCell) (scr_cells (vt_screen (sc_screen c))))"
proof -
  have "vt_feed u bs p = p" if "vt_state p = Osc" for p
    using assms(2,3) that unfolding vt_feed_def
    by (induction bs) (auto simp: vt_byte_def oscByte_def)
  then show ?thesis
    using assms(1) by (simp add: sc_freshSession_def screen_feed_def on_screen_def clear_def touch_def scr_emit_def Let_def)
qed

theorem reopen_swallows_output_witness:
  "vt_state (screen_feed fromLatin1 (blit ''login: '')
     (sc_screen (sc_freshSession (newSolController\<lparr>sc_screen := (newVt newScreen)\<lparr>vt_state := Osc\<rparr>\<rparr>)))) = Osc"
  using reopen_swallows_output [of "newSolController\<lparr>sc_screen := (newVt newScreen)\<lparr>vt_state := Osc\<rparr>\<rparr>" "blit ''login: ''" fromLatin1]
  by (simp add: blit_def kBel_def kEsc_def Let_def)

end
