(* ===== verification/Kvm_Codec.thy ===== *)
theory Kvm_Codec
  imports Prelude
begin

text \<open>
  The RFB variant of AMT's remote desktop, \<open>kvm/src/kvm_codec.cpp\<close> and
  \<open>kvm/include/kvm/kvm_codec.h\<close>: messages, the handshake parsers, the pixel formats and the
  tile decoder. The C++ decoder writes through raw pointers; where a write or read outside its
  buffer, or a signed overflow, is possible, the model has the outcome \<open>Undefined\<close>.

  zlib is a parameter: a stream is the list of blocks it was given since its last reset, and
  \<open>inflate history block\<close> is what zlib makes of the next block, \<open>None\<close> for an error.
\<close>

section \<open>Messages and formats\<close>

datatype ClientMsg = MsgSetPixelFormat | MsgSetEncodings | MsgFramebufferUpdateRequest
  | MsgKeyEvent | MsgPointerEvent | MsgClientCutText

primrec ClientMsg_byte :: "ClientMsg \<Rightarrow> byte" where
  "ClientMsg_byte MsgSetPixelFormat = 0"
| "ClientMsg_byte MsgSetEncodings = 2"
| "ClientMsg_byte MsgFramebufferUpdateRequest = 3"
| "ClientMsg_byte MsgKeyEvent = 4"
| "ClientMsg_byte MsgPointerEvent = 5"
| "ClientMsg_byte MsgClientCutText = 6"

datatype ServerMsg = MsgFramebufferUpdate | MsgBell | MsgServerCutText

primrec ServerMsg_byte :: "ServerMsg \<Rightarrow> byte" where
  "ServerMsg_byte MsgFramebufferUpdate = 0"
| "ServerMsg_byte MsgBell = 2"
| "ServerMsg_byte MsgServerCutText = 3"

datatype Encoding = EncRaw | EncRle | EncInband | EncDesktopSize

primrec Encoding_value :: "Encoding \<Rightarrow> u32" where
  "Encoding_value EncRaw = 0"
| "Encoding_value EncRle = 16"
| "Encoding_value EncInband = 1092"
| "Encoding_value EncDesktopSize = 0xFFFFFF21"

record ServerInit =
  sv_width :: u16
  sv_height :: u16
  sv_name :: bytes

datatype PixelFormat = Rgb565 | Rgb332

definition bytesPerPixel :: "PixelFormat \<Rightarrow> nat" where
  "bytesPerPixel f = (if f = Rgb565 then 2 else 1)"

definition kMaxDisplayBufferBytes :: nat where "kMaxDisplayBufferBytes = 9216000"

definition displayBufferBytes :: "PixelFormat \<Rightarrow> nat \<Rightarrow> nat \<Rightarrow> nat" where
  "displayBufferBytes f w h = bytesPerPixel f * w * h"

definition chooseFormatFor :: "nat \<Rightarrow> nat \<Rightarrow> PixelFormat" where
  "chooseFormatFor w h =
     (if displayBufferBytes Rgb565 w h \<le> kMaxDisplayBufferBytes then Rgb565 else Rgb332)"

record RectHeader =
  rect_x :: u16
  rect_y :: u16
  rect_w :: u16
  rect_h :: u16
  rect_encoding :: u32

text \<open>A \<open>QImage\<close>: width, height and the rows of ARGB pixels one after the other.\<close>

record image =
  img_w :: nat
  img_h :: nat
  img_pixels :: "u32 list"

record DecodedRect =
  dr_image :: "image option"
  dr_isDesktopSize :: bool

section \<open>Integers\<close>

definition pack16Be :: "u16 \<Rightarrow> bytes" where
  "pack16Be v = [ucast (drop_bit 8 v AND 0xFF), ucast (v AND 0xFF)]"

definition pack32Be :: "u32 \<Rightarrow> bytes" where
  "pack32Be v = [ucast (drop_bit 24 v AND 0xFF), ucast (drop_bit 16 v AND 0xFF),
                 ucast (drop_bit 8 v AND 0xFF), ucast (v AND 0xFF)]"

definition read16Be :: "bytes \<Rightarrow> nat \<Rightarrow> u16" where
  "read16Be b off = push_bit 8 (ucast (b ! off)) OR ucast (b ! (off + 1))"

text \<open>A \<open>qint32\<close>; its value is \<open>sint\<close> of the word.\<close>

definition read32Be :: "bytes \<Rightarrow> nat \<Rightarrow> u32" where
  "read32Be b off = push_bit 24 (ucast (b ! off)) OR push_bit 16 (ucast (b ! (off + 1)))
     OR push_bit 8 (ucast (b ! (off + 2))) OR ucast (b ! (off + 3))"

interpretation kvm_be16: int_codec pack16Be read16Be 2
  by unfold_locales (simp_all add: pack16Be_def read16Be_def nth_append byte_order_simps)

interpretation kvm_be32: int_codec pack32Be read32Be 4
  by unfold_locales (simp_all add: pack32Be_def read32Be_def nth_append byte_order_simps)

definition rgb565ToArgb :: "u16 \<Rightarrow> u32" where
  "rgb565ToArgb v =
     (let r = ucast (drop_bit 8 v AND 0xF8); g = ucast (drop_bit 3 v AND 0xFC);
          b = ucast (push_bit 3 (v AND 0x1F))
      in 0xFF000000 OR push_bit 16 r OR push_bit 8 g OR b)"

definition rgb332ToArgb :: "byte \<Rightarrow> u32" where
  "rgb332ToArgb v =
     (let r = ucast (drop_bit 5 v AND 0x07) * 255 div 7; g = ucast (drop_bit 2 v AND 0x07) * 255 div 7;
          b = ucast (v AND 0x03) * 255 div 3
      in 0xFF000000 OR push_bit 16 r OR push_bit 8 g OR b)"

section \<open>Handshake\<close>

definition kVersionMessageSize :: nat where "kVersionMessageSize = 12"
definition kSecurityResultSize :: nat where "kSecurityResultSize = 4"
definition kServerInitFixedSize :: nat where "kServerInitFixedSize = 24"
definition kRectHeaderSize :: nat where "kRectHeaderSize = 12"

definition buildVersionResponse :: bytes where
  "buildVersionResponse = blit ''RFB 003.008'' @ [10]"

text \<open>Zero means that more bytes are needed.\<close>

definition tryParseSecurityTypes :: "bytes \<Rightarrow> nat" where
  "tryParseSecurityTypes buffer =
     (if length buffer < 1 then 0
      else let total = 1 + unat (buffer ! 0)
           in if length buffer < total then 0 else total)"

definition buildSecurityChoice :: bytes where
  "buildSecurityChoice = [0x01]"

text \<open>The result of the call and \<open>*consumed\<close>.\<close>

definition tryParseSecurityResult :: "bytes \<Rightarrow> bool \<times> nat" where
  "tryParseSecurityResult buffer =
     (if length buffer < kSecurityResultSize then (False, 0)
      else (read32Be buffer 0 = 0, kSecurityResultSize))"

definition buildClientInit :: bytes where
  "buildClientInit = [0x01]"

text \<open>The name is kept as the bytes handed to \<open>QString::fromUtf8\<close>.\<close>

definition tryParseServerInit :: "bytes \<Rightarrow> (ServerInit \<times> nat) option" where
  "tryParseServerInit buffer =
     (if length buffer < kServerInitFixedSize then None
      else
        let namelen = sint (read32Be buffer 20)
        in if namelen < 0 \<or> namelen > 2 ^ 20 then None
           else if length buffer < kServerInitFixedSize + nat namelen then None
           else Some (\<lparr>sv_width = read16Be buffer 0, sv_height = read16Be buffer 2,
                       sv_name = mid buffer kServerInitFixedSize (nat namelen)\<rparr>,
                      kServerInitFixedSize + nat namelen))"

section \<open>Messages sent\<close>

definition buildSetPixelFormat :: "PixelFormat \<Rightarrow> bytes" where
  "buildSetPixelFormat f =
     (let wide = (f = Rgb565)
      in [ClientMsg_byte MsgSetPixelFormat, 0, 0, 0,
          if wide then 16 else 8, if wide then 16 else 8, 0, 1]
         @ pack16Be (if wide then 31 else 7) @ pack16Be (if wide then 63 else 7)
         @ pack16Be (if wide then 31 else 3)
         @ [if wide then 11 else 5, if wide then 5 else 2, 0, 0, 0, 0])"

definition buildSetEncodings :: bytes where
  "buildSetEncodings =
     [ClientMsg_byte MsgSetEncodings, 0] @ pack16Be 3 @ pack32Be (Encoding_value EncRle)
     @ pack32Be (Encoding_value EncRaw) @ pack32Be (Encoding_value EncDesktopSize)"

definition buildKvmExtCmd :: "byte \<Rightarrow> byte \<Rightarrow> bytes" where
  "buildKvmExtCmd cmd val =
     (let kTag = [0] @ blit ''KvmExtCmd'' @ [0];
          bodyLen = (of_nat (length kTag + 2) :: u32)
      in [6, 0, 0, 0, ucast (drop_bit 24 bodyLen AND 0xFF), ucast (drop_bit 16 bodyLen AND 0xFF),
          ucast (drop_bit 8 bodyLen AND 0xFF), ucast (bodyLen AND 0xFF)] @ kTag @ [cmd, val])"

definition buildFramebufferUpdateRequest :: "bool \<Rightarrow> u16 \<Rightarrow> u16 \<Rightarrow> u16 \<Rightarrow> u16 \<Rightarrow> bytes" where
  "buildFramebufferUpdateRequest incremental x y w h =
     [ClientMsg_byte MsgFramebufferUpdateRequest, if incremental then 1 else 0]
     @ pack16Be x @ pack16Be y @ pack16Be w @ pack16Be h"

definition buildKeyEvent :: "u32 \<Rightarrow> bool \<Rightarrow> bytes" where
  "buildKeyEvent keysym down =
     [ClientMsg_byte MsgKeyEvent, if down then 1 else 0, 0, 0] @ pack32Be keysym"

definition buildPointerEvent :: "byte \<Rightarrow> u16 \<Rightarrow> u16 \<Rightarrow> bytes" where
  "buildPointerEvent buttonMask x y =
     [ClientMsg_byte MsgPointerEvent, buttonMask] @ pack16Be x @ pack16Be y"

section \<open>Frame parsing\<close>

text \<open>The header carries one field, the number of rectangles.\<close>

definition tryParseFrameUpdate :: "bytes \<Rightarrow> (u16 \<times> nat) option" where
  "tryParseFrameUpdate buffer =
     (if length buffer < 4 then None
      else if buffer ! 0 \<noteq> ServerMsg_byte MsgFramebufferUpdate then None
      else Some (read16Be buffer 2, 4))"

definition tryParseRectHeader :: "bytes \<Rightarrow> (RectHeader \<times> nat) option" where
  "tryParseRectHeader buffer =
     (if length buffer < kRectHeaderSize then None
      else Some (\<lparr>rect_x = read16Be buffer 0, rect_y = read16Be buffer 2, rect_w = read16Be buffer 4,
                  rect_h = read16Be buffer 6, rect_encoding = read32Be buffer 8\<rparr>, kRectHeaderSize))"

lemmas kvm_parsers [parse_defs] =
  tryParseServerInit_def tryParseFrameUpdate_def tryParseRectHeader_def kServerInitFixedSize_def
  kRectHeaderSize_def kSecurityResultSize_def Let_def

interpretation server_init: stream_parser tryParseServerInit
  by unfold_locales
    (auto simp: parse_defs mid_take kvm_be16.read_append kvm_be16.read_take kvm_be32.read_append
      kvm_be32.read_take split: if_splits)

interpretation frame_update: stream_parser tryParseFrameUpdate
  by unfold_locales
    (auto simp: parse_defs nth_append kvm_be16.read_append kvm_be16.read_take split: if_splits)

interpretation rect_header: stream_parser tryParseRectHeader
  by unfold_locales
    (auto simp: parse_defs kvm_be16.read_append kvm_be16.read_take kvm_be32.read_append
      kvm_be32.read_take split: if_splits)

section \<open>Pixels\<close>

definition makeArgbImage :: "nat \<Rightarrow> nat \<Rightarrow> u32 list \<Rightarrow> image" where
  "makeArgbImage w h argb = \<lparr>img_w = w, img_h = h, img_pixels = take (w * h) argb\<rparr>"

definition rect_pixels :: "RectHeader \<Rightarrow> nat" where
  "rect_pixels rect = unat (rect_w rect) * unat (rect_h rect)"

text \<open>The lambda \<open>pullPixel\<close>: one wire pixel and what is left of the data.\<close>

fun pullPixel :: "PixelFormat \<Rightarrow> bytes \<Rightarrow> (u32 \<times> bytes) option" where
  "pullPixel Rgb565 (a # b # rest) = Some (rgb565ToArgb (ucast a OR push_bit 8 (ucast b)), rest)"
| "pullPixel Rgb332 (a # rest) = Some (rgb332ToArgb a, rest)"
| "pullPixel _ _ = None"

text \<open>\<open>n\<close> pixels in a row, as for a palette or a raw tile.\<close>

fun pullPixels :: "PixelFormat \<Rightarrow> nat \<Rightarrow> bytes \<Rightarrow> (u32 list \<times> bytes) option" where
  "pullPixels f 0 data = Some ([], data)"
| "pullPixels f (Suc n) data =
     (case pullPixel f data of
        None \<Rightarrow> None
      | Some (c, rest) \<Rightarrow> map_option (\<lambda>(cs, r). (c # cs, r)) (pullPixels f n rest))"

datatype DecodeStatus = StatusOk DecodedRect nat | NeedMore | UnsupportedEncoding
  | UnsupportedSubencoding | Malformed | UndefinedBehaviour

definition decodeRaw :: "bytes \<Rightarrow> RectHeader \<Rightarrow> PixelFormat \<Rightarrow> DecodeStatus" where
  "decodeRaw payload rect format =
     (let pixels = rect_pixels rect; needed = pixels * bytesPerPixel format
      in if length payload < needed then NeedMore
         else case pullPixels format pixels payload of
             None \<Rightarrow> UndefinedBehaviour
           | Some (argb, _) \<Rightarrow>
               StatusOk \<lparr>dr_image = Some (makeArgbImage (unat (rect_w rect)) (unat (rect_h rect)) argb),
                         dr_isDesktopSize = False\<rparr> needed)"

section \<open>Run-length decoding\<close>

text \<open>The pixels still to paint, or why there are none: the data is refused (\<open>return false\<close>), or
  the C++ code leaves the defined behaviour of the language.\<close>

datatype inner = Pixels "u32 list" | Reject | Undefined

primrec paint :: "u32 list \<Rightarrow> inner \<Rightarrow> inner" where
  "paint cs (Pixels ds) = Pixels (cs @ ds)"
| "paint cs Reject = Reject"
| "paint cs Undefined = Undefined"

definition intMax :: nat where "intMax = 2147483647"

datatype run = Run nat bytes | NoRun | RunOverflow

text \<open>The inner \<open>for (;;)\<close>: \<open>run\<close> grows by each byte until one is not 255. \<open>run\<close> is an \<open>int\<close>.\<close>

fun readRun :: "nat \<Rightarrow> bytes \<Rightarrow> run" where
  "readRun n [] = NoRun"
| "readRun n (d # ds) =
     (let n = n + unat d
      in if n > intMax then RunOverflow
         else if d \<noteq> 0xFF then Run n ds else readRun n ds)"

lemma readRun_length: "readRun n ds = Run m r \<Longrightarrow> length r < length ds"
proof (induction n ds rule: readRun.induct)
  case (2 n d ds)
  then show ?case
    by (fastforce simp: Let_def split: if_splits)
qed simp

lemma pullPixel_length: "pullPixel f d = Some (c, r) \<Longrightarrow> length d = bytesPerPixel f + length r"
  by (induction f d rule: pullPixel.induct) (auto simp: bytesPerPixel_def)

text \<open>The shifts of the packed-palette loop, by \<open>br\<close>.\<close>

definition packedShifts :: "nat \<Rightarrow> nat list" where
  "packedShifts br = (if br = 1 then [7, 6, 5, 4, 3, 2, 1, 0] else if br = 2 then [6, 4, 2, 0] else [4, 0])"

fun packedLoop :: "nat \<Rightarrow> byte \<Rightarrow> u32 list \<Rightarrow> nat \<Rightarrow> bytes \<Rightarrow> inner" where
  "packedLoop br bm palette 0 data = Pixels []"
| "packedLoop br bm palette n [] = Reject"
| "packedLoop br bm palette n (v # data) =
     (let ixs = map (\<lambda>shift. unat (drop_bit shift v AND bm)) (take n (packedShifts br))
      in if \<exists>ix \<in> set ixs. ix \<ge> length palette then Undefined
         else paint (map (\<lambda>ix. palette ! ix) ixs) (packedLoop br bm palette (n - length ixs) data))"

text \<open>Clipping a run of \<open>run\<close> pixels at position \<open>i\<close> of \<open>s\<close>; \<open>i + run\<close> is computed in \<open>int\<close>.\<close>

definition clipRun :: "nat \<Rightarrow> nat \<Rightarrow> nat \<Rightarrow> nat option" where
  "clipRun s i run = (if i + run > intMax then None else Some (if i + run > s then s - i else run))"

function rleLoop :: "PixelFormat \<Rightarrow> nat \<Rightarrow> nat \<Rightarrow> bytes \<Rightarrow> inner" where
  "rleLoop f s i data =
     (if \<not> i < s then Pixels []
      else case pullPixel f data of
          None \<Rightarrow> Reject
        | Some (c, rest) \<Rightarrow>
            (case readRun 1 rest of
               NoRun \<Rightarrow> Reject
             | RunOverflow \<Rightarrow> Undefined
             | Run run rest' \<Rightarrow>
                 (case clipRun s i run of
                    None \<Rightarrow> Undefined
                  | Some n \<Rightarrow> paint (replicate n c) (rleLoop f s (i + n) rest'))))"
  by pat_completeness auto
termination
  by (relation "measure (\<lambda>(f, s, i, data). length data)")
    (auto dest!: pullPixel_length readRun_length)

declare rleLoop.simps [simp del]

function paletteLoop :: "u32 list \<Rightarrow> nat \<Rightarrow> nat \<Rightarrow> bytes \<Rightarrow> inner" where
  "paletteLoop palette s i data =
     (if \<not> i < s then Pixels []
      else case data of
          [] \<Rightarrow> Reject
        | index # rest \<Rightarrow>
            let paletteIx = unat (index AND 0x7F)
            in if paletteIx \<ge> length palette then Reject
               else
                 (case (if index AND 0x80 \<noteq> 0 then readRun 1 rest else Run 1 rest) of
                    NoRun \<Rightarrow> Reject
                  | RunOverflow \<Rightarrow> Undefined
                  | Run run rest' \<Rightarrow>
                      (case clipRun s i run of
                         None \<Rightarrow> Undefined
                       | Some n \<Rightarrow>
                           paint (replicate n (palette ! paletteIx)) (paletteLoop palette s (i + n) rest'))))"
  by pat_completeness auto
termination
  by (relation "measure (\<lambda>(palette, s, i, data). length data)")
    (auto dest!: readRun_length split: if_splits)

declare paletteLoop.simps [simp del]

definition decodeRleInner :: "bytes \<Rightarrow> byte \<Rightarrow> RectHeader \<Rightarrow> PixelFormat \<Rightarrow> inner" where
  "decodeRleInner data subenc rect format =
     (let s = rect_pixels rect; bpp = bytesPerPixel format
      in if subenc = 0 then
           (if length data < s * bpp then Reject
            else case pullPixels format s data of None \<Rightarrow> Reject | Some (argb, _) \<Rightarrow> Pixels argb)
         else if subenc = 1 then
           (case pullPixel format data of None \<Rightarrow> Reject | Some (c, _) \<Rightarrow> Pixels (replicate s c))
         else if 2 \<le> subenc \<and> subenc \<le> 16 then
           (case pullPixels format (unat subenc) data of
              None \<Rightarrow> Reject
            | Some (palette, rest) \<Rightarrow>
                (if subenc = 2 then packedLoop 1 0x01 palette s rest
                 else if subenc \<le> 4 then packedLoop 2 0x03 palette s rest
                 else packedLoop 4 0x0F palette s rest))
         else if subenc = 128 then rleLoop format s 0 data
         else if 130 \<le> subenc then
           (case pullPixels format (unat subenc - 128) data of
              None \<Rightarrow> Reject
            | Some (palette, rest) \<Rightarrow> paletteLoop palette s 0 rest)
         else Reject)"

section \<open>Rectangles\<close>

definition uncompressedMarker :: "bytes \<Rightarrow> bool" where
  "uncompressedMarker block \<longleftrightarrow>
     length block \<ge> 6 \<and> block ! 0 = 0x00
     \<and> (ucast (block ! 1) OR push_bit 8 (ucast (block ! 2)) :: u16) = of_nat (length block - 5)"

definition maxRleBlock :: "RectHeader \<Rightarrow> PixelFormat \<Rightarrow> nat" where
  "maxRleBlock rect format =
     (let maxInner = 1 + rect_pixels rect * (bytesPerPixel format + 1) + 127 * 2
      in maxInner + maxInner div 1024 + 1024)"

text \<open>The outcome for a tile whose subencoding byte and inner data are known.\<close>

definition finishRle :: "byte \<Rightarrow> bytes \<Rightarrow> RectHeader \<Rightarrow> PixelFormat \<Rightarrow> nat \<Rightarrow> DecodeStatus" where
  "finishRle sub inner rect format consumed =
     (case decodeRleInner inner sub rect format of
        Reject \<Rightarrow> UnsupportedSubencoding
      | Undefined \<Rightarrow> UndefinedBehaviour
      | Pixels argb \<Rightarrow>
          StatusOk \<lparr>dr_image = Some (makeArgbImage (unat (rect_w rect)) (unat (rect_h rect)) argb),
                    dr_isDesktopSize = False\<rparr> consumed)"

type_synonym inflater = "bytes list \<Rightarrow> bytes \<Rightarrow> bytes option"

text \<open>The second component is the history of the inflate stream after the call.\<close>

definition decodeRle ::
  "bytes \<Rightarrow> RectHeader \<Rightarrow> inflater option \<Rightarrow> bytes list \<Rightarrow> PixelFormat \<Rightarrow> DecodeStatus \<times> bytes list" where
  "decodeRle payload rect inflate hist format =
     (if length payload < 4 then (NeedMore, hist)
      else
        let dataLen = sint (read32Be payload 0)
        in if dataLen < 1 then (Malformed, hist)
           else if dataLen > int (maxRleBlock rect format) then (Malformed, hist)
           else if length payload < 4 + nat dataLen then (NeedMore, hist)
           else
             let block = mid payload 4 (nat dataLen)
             in if uncompressedMarker block
                then (finishRle (block ! 5) (drop 6 block) rect format (4 + nat dataLen), hist)
                else case inflate of
                    None \<Rightarrow> (UnsupportedSubencoding, hist)
                  | Some z \<Rightarrow>
                      (case z hist block of
                         None \<Rightarrow> (Malformed, hist @ [block])
                       | Some [] \<Rightarrow> (Malformed, hist @ [block])
                       | Some (sub # inner) \<Rightarrow>
                           (finishRle sub inner rect format (4 + nat dataLen), hist @ [block])))"

definition noRect :: DecodedRect where
  "noRect = \<lparr>dr_image = None, dr_isDesktopSize = False\<rparr>"

definition tryDecodeRect ::
  "bytes \<Rightarrow> RectHeader \<Rightarrow> inflater option \<Rightarrow> bytes list \<Rightarrow> PixelFormat \<Rightarrow> DecodeStatus \<times> bytes list" where
  "tryDecodeRect payload rect inflate hist format =
     (if rect_encoding rect = Encoding_value EncDesktopSize
      then (StatusOk (noRect\<lparr>dr_isDesktopSize := True\<rparr>) 0, hist)
      else if rect_w rect = 0 \<or> rect_h rect = 0 then (StatusOk noRect 0, hist)
      else if rect_w rect > 4096 \<or> rect_h rect > 4096 then (Malformed, hist)
      else if rect_encoding rect = Encoding_value EncRaw then (decodeRaw payload rect format, hist)
      else if rect_encoding rect = Encoding_value EncRle then decodeRle payload rect inflate hist format
      else (UnsupportedEncoding, hist))"

section \<open>Tiles are complete\<close>

lemma pullPixels_length:
  "pullPixels f n d = Some (cs, r) \<Longrightarrow> length cs = n \<and> length d = n * bytesPerPixel f + length r"
  by (induction n arbitrary: d cs r) (fastforce dest: pullPixel_length split: option.splits)+

lemma pullPixel_enough: "bytesPerPixel f \<le> length d \<Longrightarrow> \<exists>c r. pullPixel f d = Some (c, r)"
  by (cases f; cases d; cases "tl d") (auto simp: bytesPerPixel_def)

lemma pullPixels_enough: "n * bytesPerPixel f \<le> length d \<Longrightarrow> \<exists>cs r. pullPixels f n d = Some (cs, r)"
proof (induction n arbitrary: d)
  case (Suc n)
  then obtain c r where c: "pullPixel f d = Some (c, r)"
    using pullPixel_enough [of f d] by auto
  then have "n * bytesPerPixel f \<le> length r"
    using Suc.prems pullPixel_length [OF c] by simp
  with Suc.IH c show ?case by fastforce
qed simp

lemma paint_Pixels: "paint cs x = Pixels ps \<longleftrightarrow> (\<exists>ds. x = Pixels ds \<and> ps = cs @ ds)"
  by (cases x) auto

lemma paint_Undefined: "paint cs x = Undefined \<longleftrightarrow> x = Undefined"
  by (cases x) auto

lemma packedLoop_length: "packedLoop br bm palette n data = Pixels ps \<Longrightarrow> length ps = n"
  by (induction br bm palette n data arbitrary: ps rule: packedLoop.induct)
    (auto simp: Let_def paint_Pixels split: if_splits)

lemma clipRun_le: "clipRun s i run = Some n \<Longrightarrow> i < s \<Longrightarrow> i + n \<le> s"
  by (auto simp: clipRun_def split: if_splits)

lemma rleLoop_length: "i \<le> s \<Longrightarrow> rleLoop f s i data = Pixels ps \<Longrightarrow> length ps = s - i"
proof (induction f s i data arbitrary: ps rule: rleLoop.induct)
  case (1 f s i data)
  show ?case
  proof (cases "i < s")
    case True
    with "1.prems" obtain c rest run rest' n ds where
      step: "pullPixel f data = Some (c, rest)" "readRun 1 rest = Run run rest'" "clipRun s i run = Some n"
      and ds: "rleLoop f s (i + n) rest' = Pixels ds" "ps = replicate n c @ ds"
      by (auto simp: rleLoop.simps [of f s i data] paint_Pixels split: option.splits run.splits)
    with "1.IH" [of "(c, rest)" c rest run rest' n] True clipRun_le [OF step(3) True] show ?thesis
      by simp
  qed (use "1.prems" in \<open>simp add: rleLoop.simps\<close>)
qed

lemma paletteLoop_length: "i \<le> s \<Longrightarrow> paletteLoop palette s i data = Pixels ps \<Longrightarrow> length ps = s - i"
proof (induction palette s i data arbitrary: ps rule: paletteLoop.induct)
  case (1 palette s i data)
  show ?case
  proof (cases "i < s")
    case True
    with "1.prems" obtain index rest run rest' n ds where
      step: "data = index # rest" "\<not> unat (index AND 0x7F) \<ge> length palette"
        "(if index AND 0x80 \<noteq> 0 then readRun 1 rest else Run 1 rest) = Run run rest'"
        "clipRun s i run = Some n"
      and ds: "paletteLoop palette s (i + n) rest' = Pixels ds"
        "ps = replicate n (palette ! unat (index AND 0x7F)) @ ds"
      by (auto simp: paletteLoop.simps [of palette s i data] paint_Pixels Let_def
          split: list.splits option.splits run.splits if_splits)
    with "1.IH" [of index rest _ run rest' n] True clipRun_le [OF step(4) True] show ?thesis
      by simp
  qed (use "1.prems" in \<open>simp add: paletteLoop.simps\<close>)
qed

lemma decodeRleInner_length:
  "decodeRleInner data subenc rect format = Pixels ps \<Longrightarrow> length ps = rect_pixels rect"
  by (auto simp: decodeRleInner_def Let_def dest: pullPixels_length packedLoop_length
      rleLoop_length [of 0, simplified] paletteLoop_length [of 0, simplified]
      split: if_splits option.splits)

section \<open>Decisions are final\<close>

lemma finishRle_consumed:
  "finishRle sub inner rect f k = StatusOk dr n \<Longrightarrow> n = k \<and>
     (\<exists>ps. dr = \<lparr>dr_image = Some (makeArgbImage (unat (rect_w rect)) (unat (rect_h rect)) ps),
                dr_isDesktopSize = False\<rparr> \<and> length ps = rect_pixels rect)"
  by (auto simp: finishRle_def dest: decodeRleInner_length split: inner.splits)

lemma pullPixel_append: "pullPixel f d = Some (c, r) \<Longrightarrow> pullPixel f (d @ e) = Some (c, r @ e)"
  by (induction f d rule: pullPixel.induct) auto

lemma pullPixels_append: "pullPixels f n d = Some (cs, r) \<Longrightarrow> pullPixels f n (d @ e) = Some (cs, r @ e)"
proof (induction n arbitrary: d cs r)
  case (Suc n)
  then obtain c rest where c: "pullPixel f d = Some (c, rest)"
    by (auto split: option.splits)
  with Suc.prems obtain cs' where "pullPixels f n rest = Some (cs', r)" "cs = c # cs'"
    by auto
  with Suc.IH [of rest cs' r] pullPixel_append [OF c, of e] show ?case by simp
qed simp

lemma decodeRaw_append:
  assumes "decodeRaw payload rect f \<noteq> NeedMore"
  shows "decodeRaw (payload @ extra) rect f = decodeRaw payload rect f"
proof -
  have len: "rect_pixels rect * bytesPerPixel f \<le> length payload"
    using assms by (auto simp: decodeRaw_def Let_def split: if_splits)
  then obtain cs r where "pullPixels f (rect_pixels rect) payload = Some (cs, r)"
    using pullPixels_enough by blast
  with len show ?thesis
    by (simp add: decodeRaw_def Let_def pullPixels_append)
qed

lemma decodeRle_append:
  assumes "fst (decodeRle payload rect z hist f) \<noteq> NeedMore"
  shows "decodeRle (payload @ extra) rect z hist f = decodeRle payload rect z hist f"
proof -
  have len: "4 \<le> length payload"
    using assms by (auto simp: decodeRle_def split: if_splits)
  then have read: "read32Be (payload @ extra) 0 = read32Be payload 0"
    by (simp add: kvm_be32.read_append)
  show ?thesis
  proof (cases "sint (read32Be payload 0) < 1 \<or> sint (read32Be payload 0) > int (maxRleBlock rect f)")
    case True
    with len read show ?thesis by (auto simp: decodeRle_def Let_def)
  next
    case False
    then have "4 + nat (sint (read32Be payload 0)) \<le> length payload"
      using assms len by (auto simp: decodeRle_def Let_def not_less split: if_splits)
    with len read show ?thesis
      by (simp add: decodeRle_def Let_def not_less)
  qed
qed

lemma decodeRle_ok:
  assumes "fst (decodeRle payload rect z hist f) = StatusOk dr n"
  shows "n \<le> length payload \<and> (\<exists>ps. dr_image dr = Some (makeArgbImage (unat (rect_w rect)) (unat (rect_h rect)) ps)
           \<and> length ps = rect_pixels rect)"
  using assms
  by (auto simp: decodeRle_def Let_def dest!: finishRle_consumed split: if_splits option.splits list.splits)

lemma decodeRaw_ok:
  assumes "decodeRaw payload rect f = StatusOk dr n"
  shows "n \<le> length payload \<and> (\<exists>ps. dr_image dr = Some (makeArgbImage (unat (rect_w rect)) (unat (rect_h rect)) ps)
           \<and> length ps = rect_pixels rect)"
  using assms
  by (auto simp: decodeRaw_def Let_def dest: pullPixels_length split: if_splits option.splits)

section \<open>Undefined behaviour\<close>

lemma readRun_bounded:
  "n + 255 * length ds \<le> intMax \<Longrightarrow>
     readRun n ds \<noteq> RunOverflow \<and> (\<forall>m r. readRun n ds = Run m r \<longrightarrow> m + 255 * length r \<le> n + 255 * length ds)"
proof (induction n ds rule: readRun.induct)
  case (2 n d ds)
  have d: "unat d \<le> 255"
    using unat_bound [of d] by simp
  then have "n + unat d + 255 * length ds \<le> intMax"
    using "2.prems" by simp
  with "2.IH" [OF refl] d show ?case
    by (cases "d = 0xFF") (auto simp: Let_def)
qed simp

lemma rleLoop_defined: "i \<le> s \<Longrightarrow> s + 255 * length data < intMax \<Longrightarrow> rleLoop f s i data \<noteq> Undefined"
proof (induction f s i data rule: rleLoop.induct)
  case (1 f s i data)
  show ?case
  proof (cases "i < s")
    case True
    show ?thesis
    proof (cases "pullPixel f data")
      case (Some p)
      obtain c rest where p: "p = (c, rest)" by (cases p)
      have rest: "length rest < length data"
        using Some p pullPixel_length [of f data c rest] by (simp add: bytesPerPixel_def split: if_splits)
      then have bound: "1 + 255 * length rest \<le> intMax"
        using "1.prems" by simp
      note run = readRun_bounded [OF bound]
      show ?thesis
      proof (cases "readRun 1 rest")
        case (Run m r)
        have m: "m + 255 * length r \<le> 1 + 255 * length rest" and r: "length r < length rest"
          using run Run readRun_length by (blast, blast)
        then have "i + m \<le> intMax"
          using "1.prems" True rest by linarith
        then obtain n where n: "clipRun s i m = Some n"
          by (simp add: clipRun_def)
        have "s + 255 * length r < intMax"
          using r rest "1.prems" by linarith
        then show ?thesis
          using "1.IH" [OF _ Some p [symmetric] Run n] clipRun_le [OF n True] True Some p Run n
          by (simp add: rleLoop.simps [of f s i data] paint_Undefined)
      qed (use run True Some p in \<open>simp_all add: rleLoop.simps [of f s i data]\<close>)
    qed (use True in \<open>simp add: rleLoop.simps [of f s i data]\<close>)
  qed (simp add: rleLoop.simps [of f s i data])
qed

lemma paletteLoop_defined:
  "i \<le> s \<Longrightarrow> s + 255 * length data < intMax \<Longrightarrow> paletteLoop palette s i data \<noteq> Undefined"
proof (induction palette s i data rule: paletteLoop.induct)
  case (1 palette s i data)
  show ?case
  proof (cases "i < s \<and> data \<noteq> [] \<and> unat (hd data AND 0x7F) < length palette")
    case True
    then obtain index rest where data: "data = index # rest" and ix: "unat (index AND 0x7F) < length palette"
      and i: "i < s"
      by (cases data) auto
    have bound: "1 + 255 * length rest \<le> intMax"
      using "1.prems" data by simp
    note run = readRun_bounded [OF bound]
    define rr where "rr = (if index AND 0x80 \<noteq> 0 then readRun 1 rest else Run 1 rest)"
    show ?thesis
    proof (cases rr)
      case (Run m r)
      have m: "m + 255 * length r \<le> 1 + 255 * length rest" and r: "length r \<le> length rest"
        using run Run readRun_length [of 1 rest m r] by (auto simp: rr_def split: if_splits)
      then have "i + m \<le> intMax"
        using "1.prems" i data by simp
      then obtain n where n: "clipRun s i m = Some n"
        by (simp add: clipRun_def)
      have "s + 255 * length r < intMax"
        using r "1.prems" data by simp
      then show ?thesis
        using "1.IH" [OF _ data refl _ Run [unfolded rr_def] n] clipRun_le [OF n i] i data ix
          Run [unfolded rr_def] n
        by (auto simp: paletteLoop.simps [of palette s i "index # rest"] paint_Undefined Let_def
            split: if_splits)
    qed (use run i data ix in \<open>auto simp: paletteLoop.simps [of palette s i "index # rest"] Let_def rr_def
          split: if_splits\<close>)
  qed (auto simp: paletteLoop.simps [of palette s i data] Let_def split: list.splits)
qed

lemma packedLoop_defined:
  assumes "\<And>v shift. unat (drop_bit shift v AND bm) < length palette"
  shows "packedLoop br bm palette n data \<noteq> Undefined"
  using assms
  by (induction br bm palette n data rule: packedLoop.induct) (auto simp: Let_def paint_Undefined not_le)

lemma mask_bound: "unat ((x :: byte) AND m) \<le> unat m"
  by (rule word_and_le1 [THEN word_le_nat_alt [THEN iffD1]])

lemma mask_bounds:
  "unat ((x :: byte) AND 0x01) < 2" "unat (x AND 0x03) < 4" "unat (x AND 0x0F) < 16"
  using mask_bound [of x 1] mask_bound [of x 3] mask_bound [of x 15] by simp_all

lemma readRun_overflow:
  "n \<le> intMax \<Longrightarrow> intMax < n + 255 * k \<Longrightarrow> readRun n (replicate k 0xFF @ ds) = RunOverflow"
  by (induction k arbitrary: n) (auto simp: Let_def)

section \<open>A run-length encoder\<close>

text \<open>What a firmware may send as subencoding 128: for every run the wire pixel and its length.\<close>

definition run_bytes :: "nat \<Rightarrow> bytes" where
  "run_bytes n = replicate ((n - 1) div 255) 0xFF @ [of_nat ((n - 1) mod 255)]"

definition encode_runs :: "(bytes \<times> nat) list \<Rightarrow> bytes" where
  "encode_runs runs = concat (map (\<lambda>(px, n). px @ run_bytes n) runs)"

definition wire_colour :: "PixelFormat \<Rightarrow> bytes \<Rightarrow> u32" where
  "wire_colour f px = (case pullPixel f px of None \<Rightarrow> 0 | Some (c, _) \<Rightarrow> c)"

definition runs_pixels :: "PixelFormat \<Rightarrow> (bytes \<times> nat) list \<Rightarrow> u32 list" where
  "runs_pixels f runs = concat (map (\<lambda>(px, n). replicate n (wire_colour f px)) runs)"

lemma readRun_replicate:
  "m < 255 \<Longrightarrow> n + 255 * k + m \<le> intMax \<Longrightarrow>
     readRun n (replicate k 0xFF @ of_nat m # ds) = Run (n + 255 * k + m) ds"
proof (induction k arbitrary: n)
  case 0
  have "unat (of_nat m :: byte) = m"
    using 0 by (simp add: unat_of_nat)
  moreover from this have "(of_nat m :: byte) \<noteq> 0xFF"
    using 0 by auto
  ultimately show ?case using 0 by (simp add: Let_def)
next
  case (Suc k)
  then show ?case by (simp add: Let_def)
qed

lemma readRun_run_bytes: "0 < n \<Longrightarrow> n \<le> intMax \<Longrightarrow> readRun 1 (run_bytes n @ ds) = Run n ds"
  using readRun_replicate [of "(n - 1) mod 255" 1 "(n - 1) div 255" ds]
  by (simp add: run_bytes_def)

lemma pull_wire_pixel:
  assumes "length px = bytesPerPixel f"
  shows "pullPixel f (px @ ds) = Some (wire_colour f px, ds)"
proof -
  obtain c r where c: "pullPixel f px = Some (c, r)"
    using assms pullPixel_enough [of f px] by auto
  then have "r = []"
    using pullPixel_length [OF c] assms by simp
  with c pullPixel_append [OF c, of ds] show ?thesis
    by (simp add: wire_colour_def)
qed

lemma rleLoop_encode:
  assumes "\<forall>(px, n) \<in> set runs. length px = bytesPerPixel f \<and> 0 < n"
    and "i + length (runs_pixels f runs) = s" and "s \<le> intMax"
  shows "rleLoop f s i (encode_runs runs) = Pixels (runs_pixels f runs)"
  using assms
proof (induction runs arbitrary: i)
  case Nil
  then show ?case by (simp add: rleLoop.simps encode_runs_def runs_pixels_def)
next
  case (Cons pn runs)
  obtain px n where pn: "pn = (px, n)" by (cases pn)
  have n: "0 < n" and px: "length px = bytesPerPixel f"
    using Cons.prems(1) pn by auto
  have len: "i + n + length (runs_pixels f runs) = s"
    using Cons.prems(2) pn by (simp add: runs_pixels_def)
  have "rleLoop f s (i + n) (encode_runs runs) = Pixels (runs_pixels f runs)"
    by (rule Cons.IH) (use Cons.prems(1,3) len in auto)
  moreover have "encode_runs (pn # runs) = px @ run_bytes n @ encode_runs runs"
    by (simp add: encode_runs_def pn)
  moreover have "clipRun s i n = Some n"
    using len Cons.prems(3) by (simp add: clipRun_def)
  moreover have "readRun (Suc 0) (run_bytes n @ ds) = Run n ds" for ds
    using readRun_run_bytes [of n ds] n len Cons.prems(3) by simp
  ultimately show ?case
    using n len
    by (simp add: rleLoop.simps [of f s i] pull_wire_pixel [OF px] pn) (simp add: runs_pixels_def)
qed

section \<open>Properties\<close>

text \<open>The decoder's verdict on a rectangle is final and in bounds. Any answer other than "need
  more bytes" stays the same whatever arrives behind the payload; an accepted rectangle uses no
  more bytes than there are, and its image, when it has one, has exactly width times height pixels.\<close>

theorem decode_rect_final:
  assumes "fst (tryDecodeRect payload rect z hist f) \<noteq> NeedMore"
  shows "tryDecodeRect (payload @ extra) rect z hist f = tryDecodeRect payload rect z hist f
         \<and> (fst (tryDecodeRect payload rect z hist f) = StatusOk dr n \<longrightarrow>
           n \<le> length payload \<and> (\<forall>img. dr_image dr = Some img \<longrightarrow>
             length (img_pixels img) = unat (rect_w rect) * unat (rect_h rect)))"
  using assms decodeRle_append [of payload rect z hist f extra] decodeRle_ok [of payload rect z hist f dr n]
    decodeRaw_append [of payload rect f extra] decodeRaw_ok [of payload rect f dr n]
  by (auto simp: tryDecodeRect_def makeArgbImage_def rect_pixels_def noRect_def split: if_splits)

theorem decode_rect_final_witness:
  "tryDecodeRect ([0xFF] @ [1, 2]) \<lparr>rect_x = 0, rect_y = 0, rect_w = 1, rect_h = 1, rect_encoding = 0\<rparr> None [] Rgb332
     = tryDecodeRect [0xFF] \<lparr>rect_x = 0, rect_y = 0, rect_w = 1, rect_h = 1, rect_encoding = 0\<rparr> None [] Rgb332"
  by (rule decode_rect_final [THEN conjunct1]) (simp add: tryDecodeRect_def decodeRaw_def rect_pixels_def bytesPerPixel_def Let_def)

text \<open>C20: Decoding inverts run-length encoding. A tile sent as subencoding 128, as any sequence of
  non-empty runs that together fill the rectangle, is decoded to exactly those runs of pixels, in
  both pixel formats and for runs of any length.\<close>

theorem rle_roundtrip:
  assumes "\<forall>(px, n) \<in> set runs. length px = bytesPerPixel f \<and> 0 < n"
    and "length (runs_pixels f runs) = rect_pixels rect" and "rect_pixels rect \<le> intMax"
  shows "decodeRleInner (encode_runs runs) 128 rect f = Pixels (runs_pixels f runs)"
  using rleLoop_encode [OF assms(1), of 0] assms(2,3) by (simp add: decodeRleInner_def Let_def)

definition demo_rect :: RectHeader where
  "demo_rect = \<lparr>rect_x = 0, rect_y = 0, rect_w = 2, rect_h = 3, rect_encoding = 16\<rparr>"

theorem rle_roundtrip_witness:
  "decodeRleInner (encode_runs [([0xFF], 4), ([0x00], 2)]) 128 demo_rect Rgb332
     = Pixels (runs_pixels Rgb332 [([0xFF], 4), ([0x00], 2)])"
  by (rule rle_roundtrip)
    (simp_all add: bytesPerPixel_def runs_pixels_def rect_pixels_def demo_rect_def intMax_def)

text \<open>Outside the two cases below, the tile decoder stays within defined behaviour: for every
  subencoding except 3 and 5 to 15, and inner data short enough that no run length can reach the
  range of \<open>int\<close>, no byte sequence makes it read outside the palette or overflow.\<close>

theorem rle_decoder_defined:
  assumes "subenc \<noteq> 3" and "\<not> (5 \<le> subenc \<and> subenc \<le> 15)"
    and "rect_pixels rect + 255 * length data < intMax"
  shows "decodeRleInner data subenc rect f \<noteq> Undefined"
proof -
  have packed: "packedLoop 4 0x0F palette s rest \<noteq> Undefined" if "length palette = 16" for palette s rest
    using that mask_bounds(3) by (intro packedLoop_defined) simp
  have two: "packedLoop 1 0x01 palette s rest \<noteq> Undefined" if "length palette = 2" for palette s rest
    using that mask_bounds(1) by (intro packedLoop_defined) simp
  have four: "packedLoop 2 0x03 palette s rest \<noteq> Undefined" if "length palette = 4" for palette s rest
    using that mask_bounds(2) by (intro packedLoop_defined) simp
  have cases: "subenc = 2 \<or> subenc = 4 \<or> subenc = 16" if "2 \<le> subenc" "subenc \<le> 16"
  proof -
    have "2 \<le> unat subenc" "unat subenc \<le> 16" "unat subenc \<noteq> 3" "\<not> (5 \<le> unat subenc \<and> unat subenc \<le> 15)"
      using that assms(1,2) by (simp_all add: word_le_nat_alt word_unat_eq_iff)
    then have "unat subenc = 2 \<or> unat subenc = 4 \<or> unat subenc = 16" by arith
    then show ?thesis by (simp add: word_unat_eq_iff)
  qed
  have rest: "rect_pixels rect + 255 * length r < intMax" if "pullPixels f k data = Some (cs, r)" for k cs r
    using pullPixels_length [OF that] assms(3) by simp
  show ?thesis
    using assms cases packed two four rest
    by (auto simp: decodeRleInner_def Let_def rleLoop_defined paletteLoop_defined
        dest!: pullPixels_length split: option.split)
qed

theorem rle_decoder_defined_witness:
  "decodeRleInner [1, 2, 3] 128 demo_rect Rgb332 \<noteq> Undefined"
  by (rule rle_decoder_defined) (simp_all add: rect_pixels_def demo_rect_def intMax_def)

text \<open>A packed palette of three colours is read out of bounds: its indices have two bits, so
  the wire can select a fourth entry, and the first pixel already does.\<close>

theorem packed_palette_overread:
  assumes "0 < rect_pixels rect"
  shows "decodeRleInner ([a, b, c] @ 0xC0 # rest) 3 rect Rgb332 = Undefined"
proof -
  obtain n where "rect_pixels rect = Suc n"
    using assms by (cases "rect_pixels rect") auto
  moreover have "pullPixels Rgb332 3 (a # b # c # 0xC0 # rest)
      = Some ([rgb332ToArgb a, rgb332ToArgb b, rgb332ToArgb c], 0xC0 # rest)"
    by (simp add: numeral_3_eq_3)
  ultimately show ?thesis
    by (simp add: decodeRleInner_def Let_def packedShifts_def)
qed

theorem packed_palette_overread_witness: "decodeRleInner [1, 2, 3, 0xC0] 3 demo_rect Rgb332 = Undefined"
  using packed_palette_overread [of demo_rect 1 2 3 "[]"] by (simp add: rect_pixels_def demo_rect_def)

text \<open>A run length can overflow \<open>int\<close>. A 4096 by 4096 rectangle admits a block of eight
  megabytes, the marker for uncompressed blocks compares lengths modulo 65536, and a run
  that keeps being extended by 255 leaves the range of \<open>int\<close> before the block ends.\<close>

theorem run_length_overflow:
  assumes "rect_w rect = 4096" and "rect_h rect = 4096" and "rect_encoding rect = 16"
  shows "fst (tryDecodeRect ([0x00, 0x80, 0x80, 0x88] @ [0, 0x83, 0x80, 0, 0, 128, colour]
           @ replicate 8421505 0xFF) rect z hist Rgb332) = UndefinedBehaviour"
proof -
  let ?ff = "replicate 8421505 0xFF :: bytes"
  let ?block = "[0, 0x83, 0x80, 0, 0, 128, colour] @ ?ff"
  let ?p = "[0x00, 0x80, 0x80, 0x88] @ ?block"
  have pixels: "rect_pixels rect = 16777216"
    using assms by (simp add: rect_pixels_def)
  have len: "read32Be ?p 0 = 8421512"
    by (simp add: read32Be_def)
  have size: "length ?block = 8421512"
    by simp
  have block: "mid ?p 4 8421512 = ?block"
    unfolding mid_def using size by (simp del: replicate.simps)
  have marker: "uncompressedMarker ?block"
    by (simp add: uncompressedMarker_def)
  have "readRun 1 (?ff @ []) = RunOverflow"
    by (rule readRun_overflow) (simp_all add: intMax_def)
  then have "decodeRleInner (colour # ?ff) 128 rect Rgb332 = Undefined"
    by (simp add: decodeRleInner_def pixels rleLoop.simps [of _ 16777216 0] Let_def)
  then have "finishRle 128 (colour # ?ff) rect Rgb332 n = UndefinedBehaviour" for n
    by (simp add: finishRle_def)
  moreover have "maxRleBlock rect Rgb332 \<ge> 8421512"
    by (simp add: maxRleBlock_def pixels bytesPerPixel_def)
  ultimately show ?thesis
    using assms len block marker
    by (simp add: tryDecodeRect_def decodeRle_def Let_def)
qed

theorem run_length_overflow_witness:
  "fst (tryDecodeRect ([0x00, 0x80, 0x80, 0x88] @ [0, 0x83, 0x80, 0, 0, 128, 7] @ replicate 8421505 0xFF)
     \<lparr>rect_x = 0, rect_y = 0, rect_w = 4096, rect_h = 4096, rect_encoding = 16\<rparr> None [] Rgb332) = UndefinedBehaviour"
  by (rule run_length_overflow) simp_all

text \<open>The automatic colour depth is the best one AMT's display buffer allows: the chosen format
  fits whenever any format fits, and it is 16-bit exactly when 16-bit fits.\<close>

theorem choose_format_optimal:
  "(displayBufferBytes (chooseFormatFor w h) w h \<le> kMaxDisplayBufferBytes
      \<longleftrightarrow> (\<exists>f. displayBufferBytes f w h \<le> kMaxDisplayBufferBytes))
   \<and> (chooseFormatFor w h = Rgb565 \<longleftrightarrow> displayBufferBytes Rgb565 w h \<le> kMaxDisplayBufferBytes)"
proof -
  have "displayBufferBytes Rgb332 w h \<le> displayBufferBytes f w h" for f
    by (cases f) (simp_all add: displayBufferBytes_def bytesPerPixel_def)
  then show ?thesis
    by (auto simp: chooseFormatFor_def intro: order_trans)
qed

end
