(* ===== verification/Kvm_Session.thy ===== *)
theory Kvm_Session
  imports Kvm_Codec Redir_Client
begin

text \<open>
  The KVM session, \<open>kvm/src/kvm_session.cpp\<close>: the RFB handshake, the choice of the pixel format
  within AMT's display buffer, the framebuffer-update loop with at most sixteen steps per call, and
  the input events. \<open>kvm_queued\<close> counts the queued invocations of \<open>drainInbox\<close>.
  \<open>kvm_undefined\<close> is set when the tile decoder left the defined behaviour of C++; nothing is
  claimed of the program from then on.
\<close>

section \<open>State\<close>

datatype KvmState = KIdle | KVersion | KSecurity | KAuthResult | KServerInit | KFrameLoop | KFailed

datatype kvm_error =
    KvmNoError
  | KvmClientNotAuthenticated
  | KvmAuthResultFailed
  | UnsupportedKvmEncoding u32
  | UnsupportedRleSubencoding
  | MalformedRect u32
  | CutTextTooLarge u32
  | UnknownServerMessage byte
  | DisplayBufferExceeded nat nat
  | KvmWriteFailed redir_error
  | KvmClientFailed redir_error

datatype kvm_out =
    KvmStateChanged KvmState
  | DesktopResized u16 u16
  | PixelFormatChanged PixelFormat
  | TileUpdated u16 u16 image
  | BellSignal
  | KvmClosed kvm_error

record kvm_session =
  kvm_client :: client
  kvm_inbox :: bytes
  kvm_state :: KvmState
  kvm_lastError :: kvm_error
  kvm_width :: u16
  kvm_height :: u16
  kvm_format :: PixelFormat
  kvm_preferredFormat :: "PixelFormat option"
  kvm_pendingRects :: nat
  kvm_inflate :: "bytes list"
  kvm_compressionEnabled :: bool
  kvm_queued :: nat
  kvm_undefined :: bool
  kvm_outs :: "kvm_out list"

definition newKvmSession :: "client \<Rightarrow> kvm_session" where
  "newKvmSession c = \<lparr>kvm_client = c, kvm_inbox = [], kvm_state = KIdle, kvm_lastError = KvmNoError,
     kvm_width = 0, kvm_height = 0, kvm_format = Rgb565, kvm_preferredFormat = None,
     kvm_pendingRects = 0, kvm_inflate = [], kvm_compressionEnabled = True, kvm_queued = 0,
     kvm_undefined = False, kvm_outs = []\<rparr>"

section \<open>Helpers\<close>

definition isSpace :: "byte \<Rightarrow> bool" where
  "isSpace b \<longleftrightarrow> b \<in> {9, 10, 11, 12, 13, 32}"

definition trimmed :: "bytes \<Rightarrow> bytes" where
  "trimmed b = rev (dropWhile isSpace (rev (dropWhile isSpace b)))"

definition toLower :: "bytes \<Rightarrow> bytes" where
  "toLower = map (\<lambda>b. if 65 \<le> b \<and> b \<le> 90 then b + 32 else b)"

text \<open>The argument is the environment variable, \<open>None\<close> when it is not set.\<close>

definition readCompressionEnabled :: "bytes option \<Rightarrow> bool" where
  "readCompressionEnabled var =
     (case var of
        None \<Rightarrow> True
      | Some v \<Rightarrow>
          let raw = toLower (trimmed v)
          in \<not> (raw = blit ''0'' \<or> raw = blit ''false'' \<or> raw = blit ''off''))"

definition kvm_emit :: "kvm_out \<Rightarrow> kvm_session \<Rightarrow> kvm_session" where
  "kvm_emit x s = s\<lparr>kvm_outs := kvm_outs s @ [x]\<rparr>"

definition kvm_setState :: "KvmState \<Rightarrow> kvm_session \<Rightarrow> kvm_session" where
  "kvm_setState st s =
     (if st = kvm_state s then s else kvm_emit (KvmStateChanged st) (s\<lparr>kvm_state := st\<rparr>))"

definition kvm_fail :: "kvm_error \<Rightarrow> kvm_session \<Rightarrow> kvm_session" where
  "kvm_fail reason s = kvm_emit (KvmClosed reason) (kvm_setState KFailed (s\<lparr>kvm_lastError := reason\<rparr>))"

definition kvm_writeFrame :: "qtenv \<Rightarrow> bytes \<Rightarrow> kvm_session \<Rightarrow> kvm_session" where
  "kvm_writeFrame env frame s =
     (let (n, c) = writeRaw env frame (kvm_client s);
          s = s\<lparr>kvm_client := c\<rparr>
      in if n \<le> 0 then kvm_fail (KvmWriteFailed (m_lastError c)) s else s)"

section \<open>Operations\<close>

definition kvm_start :: "bytes option \<Rightarrow> kvm_session \<Rightarrow> kvm_session" where
  "kvm_start var s =
     (if m_state (kvm_client s) \<noteq> Authenticated then kvm_fail KvmClientNotAuthenticated s
      else kvm_setState KVersion
             (s\<lparr>kvm_inflate := [], kvm_format := Rgb565,
                kvm_compressionEnabled := readCompressionEnabled var\<rparr>))"

definition negotiatePixelFormat :: "qtenv \<Rightarrow> u16 \<Rightarrow> u16 \<Rightarrow> kvm_session \<Rightarrow> bool \<times> kvm_session" where
  "negotiatePixelFormat env w h s =
     (if w = 0 \<or> h = 0 then (True, s)
      else
        let wanted = (case kvm_preferredFormat s of Some f \<Rightarrow> f | None \<Rightarrow> chooseFormatFor (unat w) (unat h));
            needed = displayBufferBytes wanted (unat w) (unat h)
        in if needed > kMaxDisplayBufferBytes
           then (False, kvm_fail (DisplayBufferExceeded (unat w) (unat h)) s)
           else
             let changed = (wanted \<noteq> kvm_format s);
                 s = kvm_writeFrame env (buildSetPixelFormat wanted) (s\<lparr>kvm_format := wanted\<rparr>)
             in (True, if changed then kvm_emit (PixelFormatChanged wanted) s else s))"

definition requestIncremental :: "qtenv \<Rightarrow> kvm_session \<Rightarrow> kvm_session" where
  "requestIncremental env s =
     kvm_writeFrame env (buildFramebufferUpdateRequest True 0 0 (kvm_width s) (kvm_height s)) s"

definition kvm_pop :: "nat \<Rightarrow> kvm_session \<Rightarrow> kvm_session" where
  "kvm_pop n s = s\<lparr>kvm_inbox := drop n (kvm_inbox s)\<rparr>"

definition stepVersion :: "qtenv \<Rightarrow> kvm_session \<Rightarrow> bool \<times> kvm_session" where
  "stepVersion env s =
     (if length (kvm_inbox s) < 12 then (False, s)
      else (True, kvm_setState KSecurity (kvm_writeFrame env buildVersionResponse (kvm_pop 12 s))))"

definition stepSecurity :: "qtenv \<Rightarrow> kvm_session \<Rightarrow> bool \<times> kvm_session" where
  "stepSecurity env s =
     (let n = tryParseSecurityTypes (kvm_inbox s)
      in if n = 0 then (False, s)
         else (True, kvm_setState KAuthResult (kvm_writeFrame env buildSecurityChoice (kvm_pop n s))))"

definition stepAuthResult :: "qtenv \<Rightarrow> kvm_session \<Rightarrow> bool \<times> kvm_session" where
  "stepAuthResult env s =
     (case tryParseSecurityResult (kvm_inbox s) of
        (ok, consumed) \<Rightarrow>
          if consumed = 0 then (False, s)
          else if \<not> ok then (False, kvm_fail KvmAuthResultFailed s)
          else (True, kvm_setState KServerInit (kvm_writeFrame env buildClientInit (kvm_pop consumed s))))"

definition stepServerInit :: "qtenv \<Rightarrow> kvm_session \<Rightarrow> bool \<times> kvm_session" where
  "stepServerInit env s =
     (case tryParseServerInit (kvm_inbox s) of
        None \<Rightarrow> (False, s)
      | Some (info, consumed) \<Rightarrow>
          let s = (kvm_pop consumed s)\<lparr>kvm_width := sv_width info, kvm_height := sv_height info\<rparr>;
              s = kvm_emit (DesktopResized (kvm_width s) (kvm_height s)) s;
              (ok, s) = negotiatePixelFormat env (kvm_width s) (kvm_height s) s
          in if \<not> ok then (False, s)
             else
               let s = kvm_writeFrame env buildSetEncodings s;
                   s = kvm_writeFrame env (buildKvmExtCmd 4 (if kvm_compressionEnabled s then 1 else 0)) s;
                   s = kvm_writeFrame env
                         (buildFramebufferUpdateRequest False 0 0 (kvm_width s) (kvm_height s)) s
               in (True, kvm_setState KFrameLoop s))"

definition stepHandshake :: "qtenv \<Rightarrow> kvm_session \<Rightarrow> bool \<times> kvm_session" where
  "stepHandshake env s =
     (case kvm_state s of
        KVersion \<Rightarrow> stepVersion env s
      | KSecurity \<Rightarrow> stepSecurity env s
      | KAuthResult \<Rightarrow> stepAuthResult env s
      | KServerInit \<Rightarrow> stepServerInit env s
      | _ \<Rightarrow> (False, s))"

text \<open>What follows a decoded rectangle whose header and payload take \<open>n\<close> bytes.\<close>

definition rectDone :: "qtenv \<Rightarrow> RectHeader \<Rightarrow> DecodedRect \<Rightarrow> nat \<Rightarrow> kvm_session \<Rightarrow> bool \<times> kvm_session" where
  "rectDone env rect dr n s =
     (if dr_isDesktopSize dr then
        let s = s\<lparr>kvm_width := rect_w rect, kvm_height := rect_h rect\<rparr>;
            s = kvm_emit (DesktopResized (kvm_width s) (kvm_height s)) s;
            (ok, s) = negotiatePixelFormat env (kvm_width s) (kvm_height s) s
        in if \<not> ok then (False, s)
           else
             let s = (kvm_pop n s)\<lparr>kvm_pendingRects := kvm_pendingRects s - 1\<rparr>
             in (True, if kvm_pendingRects s = 0
                       then kvm_writeFrame env
                              (buildFramebufferUpdateRequest False 0 0 (kvm_width s) (kvm_height s)) s
                       else s)
      else
        let s = (case dr_image dr of
                   None \<Rightarrow> s
                 | Some img \<Rightarrow> kvm_emit (TileUpdated (rect_x rect) (rect_y rect) img) s);
            s = (kvm_pop n s)\<lparr>kvm_pendingRects := kvm_pendingRects s - 1\<rparr>
        in (True, if kvm_pendingRects s = 0 then requestIncremental env s else s))"

definition stepRect :: "qtenv \<Rightarrow> inflater \<Rightarrow> kvm_session \<Rightarrow> bool \<times> kvm_session" where
  "stepRect env z s =
     (case tryParseRectHeader (kvm_inbox s) of
        None \<Rightarrow> (False, s)
      | Some (rect, rectConsumed) \<Rightarrow>
          (case tryDecodeRect (drop rectConsumed (kvm_inbox s)) rect (Some z) (kvm_inflate s) (kvm_format s) of
             (status, hist) \<Rightarrow>
               let s = s\<lparr>kvm_inflate := hist\<rparr>
               in case status of
                   NeedMore \<Rightarrow> (False, s)
                 | UnsupportedEncoding \<Rightarrow> (False, kvm_fail (UnsupportedKvmEncoding (rect_encoding rect)) s)
                 | UnsupportedSubencoding \<Rightarrow> (False, kvm_fail UnsupportedRleSubencoding s)
                 | Malformed \<Rightarrow> (False, kvm_fail (MalformedRect (rect_encoding rect)) s)
                 | UndefinedBehaviour \<Rightarrow> (False, s\<lparr>kvm_undefined := True\<rparr>)
                 | StatusOk dr payloadConsumed \<Rightarrow> rectDone env rect dr (rectConsumed + payloadConsumed) s))"

definition kServerCutTextMax :: u32 where "kServerCutTextMax = 1 * 1024 * 1024"

definition stepMessage :: "kvm_session \<Rightarrow> bool \<times> kvm_session" where
  "stepMessage s =
     (case kvm_inbox s of
        [] \<Rightarrow> (False, s)
      | tag # _ \<Rightarrow>
          if tag = ServerMsg_byte MsgFramebufferUpdate then
            (case tryParseFrameUpdate (kvm_inbox s) of
               None \<Rightarrow> (False, s)
             | Some (numRects, consumed) \<Rightarrow> (True, (kvm_pop consumed s)\<lparr>kvm_pendingRects := unat numRects\<rparr>))
          else if tag = ServerMsg_byte MsgBell then (True, kvm_emit BellSignal (kvm_pop 1 s))
          else if tag = ServerMsg_byte MsgServerCutText then
            (if length (kvm_inbox s) < 8 then (False, s)
             else
               let len = read32Be (kvm_inbox s) 4
               in if len > kServerCutTextMax then (False, kvm_fail (CutTextTooLarge len) s)
                  else if length (kvm_inbox s) < 8 + unat len then (False, s)
                  else (True, kvm_pop (8 + unat len) s))
          else (False, kvm_fail (UnknownServerMessage tag) s))"

definition stepFrameLoop :: "qtenv \<Rightarrow> inflater \<Rightarrow> kvm_session \<Rightarrow> bool \<times> kvm_session" where
  "stepFrameLoop env z s = (if kvm_pendingRects s > 0 then stepRect env z s else stepMessage s)"

definition kMaxStepsPerCall :: nat where "kMaxStepsPerCall = 16"

text \<open>One turn of the loop of \<open>drainInbox\<close>: whether it goes on, and the session.\<close>

definition kvm_step :: "qtenv \<Rightarrow> inflater \<Rightarrow> kvm_session \<Rightarrow> bool \<times> kvm_session" where
  "kvm_step env z s =
     (if kvm_state s = KVersion \<or> kvm_state s = KSecurity \<or> kvm_state s = KAuthResult \<or> kvm_state s = KServerInit
      then stepHandshake env s
      else if kvm_state s = KFrameLoop then stepFrameLoop env z s
      else (False, s))"

fun kvm_drainFor :: "nat \<Rightarrow> qtenv \<Rightarrow> inflater \<Rightarrow> kvm_session \<Rightarrow> kvm_session" where
  "kvm_drainFor 0 env z s = (if kvm_inbox s \<noteq> [] then s\<lparr>kvm_queued := kvm_queued s + 1\<rparr> else s)"
| "kvm_drainFor (Suc n) env z s =
     (case kvm_step env z s of (go, t) \<Rightarrow> if go then kvm_drainFor n env z t else t)"

definition kvm_drainInbox :: "qtenv \<Rightarrow> inflater \<Rightarrow> kvm_session \<Rightarrow> kvm_session" where
  "kvm_drainInbox env z = kvm_drainFor kMaxStepsPerCall env z"

definition kvm_onRawBytes :: "qtenv \<Rightarrow> inflater \<Rightarrow> bytes \<Rightarrow> kvm_session \<Rightarrow> kvm_session" where
  "kvm_onRawBytes env z chunk s = kvm_drainInbox env z (s\<lparr>kvm_inbox := kvm_inbox s @ chunk\<rparr>)"

definition kvm_onClientFailed :: "redir_error \<Rightarrow> kvm_session \<Rightarrow> kvm_session" where
  "kvm_onClientFailed reason = kvm_fail (KvmClientFailed reason)"

definition setPreferredPixelFormat :: "PixelFormat option \<Rightarrow> kvm_session \<Rightarrow> kvm_session" where
  "setPreferredPixelFormat f s = s\<lparr>kvm_preferredFormat := f\<rparr>"

definition sendKey :: "qtenv \<Rightarrow> u32 \<Rightarrow> bool \<Rightarrow> kvm_session \<Rightarrow> kvm_session" where
  "sendKey env keysym down s =
     (if kvm_state s \<noteq> KFrameLoop then s else kvm_writeFrame env (buildKeyEvent keysym down) s)"

definition sendPointer :: "qtenv \<Rightarrow> byte \<Rightarrow> u16 \<Rightarrow> u16 \<Rightarrow> kvm_session \<Rightarrow> kvm_session" where
  "sendPointer env buttonMask x y s =
     (if kvm_state s \<noteq> KFrameLoop then s else kvm_writeFrame env (buildPointerEvent buttonMask x y) s)"

definition sendCtrlAltDel :: "qtenv \<Rightarrow> kvm_session \<Rightarrow> kvm_session" where
  "sendCtrlAltDel env s =
     (let s = sendKey env 0xFFE3 True s;
          s = sendKey env 0xFFE9 True s;
          s = sendKey env 0xFFFF True s;
          s = sendKey env 0xFFFF False s;
          s = sendKey env 0xFFE9 False s
      in sendKey env 0xFFE3 False s)"

definition requestFullRefresh :: "qtenv \<Rightarrow> kvm_session \<Rightarrow> kvm_session" where
  "requestFullRefresh env s =
     (if kvm_state s \<noteq> KFrameLoop then s
      else kvm_writeFrame env (buildFramebufferUpdateRequest False 0 0 (kvm_width s) (kvm_height s)) s)"

section \<open>What the helpers keep\<close>

lemma kvm_emit_fields [simp]:
  "kvm_client (kvm_emit x s) = kvm_client s" "kvm_inbox (kvm_emit x s) = kvm_inbox s"
  "kvm_state (kvm_emit x s) = kvm_state s" "kvm_width (kvm_emit x s) = kvm_width s"
  "kvm_height (kvm_emit x s) = kvm_height s" "kvm_format (kvm_emit x s) = kvm_format s"
  "kvm_pendingRects (kvm_emit x s) = kvm_pendingRects s" "kvm_queued (kvm_emit x s) = kvm_queued s"
  "kvm_preferredFormat (kvm_emit x s) = kvm_preferredFormat s"
  "kvm_outs (kvm_emit x s) = kvm_outs s @ [x]"
  by (simp_all add: kvm_emit_def)

lemma kvm_setState_fields [simp]:
  "kvm_client (kvm_setState st s) = kvm_client s" "kvm_inbox (kvm_setState st s) = kvm_inbox s"
  "kvm_state (kvm_setState st s) = st" "kvm_width (kvm_setState st s) = kvm_width s"
  "kvm_height (kvm_setState st s) = kvm_height s" "kvm_format (kvm_setState st s) = kvm_format s"
  "kvm_pendingRects (kvm_setState st s) = kvm_pendingRects s" "kvm_queued (kvm_setState st s) = kvm_queued s"
  by (simp_all add: kvm_setState_def)

lemma kvm_fail_fields [simp]:
  "kvm_client (kvm_fail e s) = kvm_client s" "kvm_inbox (kvm_fail e s) = kvm_inbox s"
  "kvm_state (kvm_fail e s) = KFailed" "kvm_width (kvm_fail e s) = kvm_width s"
  "kvm_height (kvm_fail e s) = kvm_height s" "kvm_format (kvm_fail e s) = kvm_format s"
  "kvm_pendingRects (kvm_fail e s) = kvm_pendingRects s" "kvm_queued (kvm_fail e s) = kvm_queued s"
  by (simp_all add: kvm_fail_def)

lemma kvm_write_fields [simp]:
  "kvm_client (kvm_writeFrame env b s) = snd (writeRaw env b (kvm_client s))"
  "kvm_inbox (kvm_writeFrame env b s) = kvm_inbox s"
  "kvm_width (kvm_writeFrame env b s) = kvm_width s" "kvm_height (kvm_writeFrame env b s) = kvm_height s"
  "kvm_format (kvm_writeFrame env b s) = kvm_format s"
  "kvm_pendingRects (kvm_writeFrame env b s) = kvm_pendingRects s"
  "kvm_queued (kvm_writeFrame env b s) = kvm_queued s"
  by (simp_all add: kvm_writeFrame_def Let_def split: prod.split)

lemma kvm_write_state:
  "kvm_state (kvm_writeFrame env b s) = kvm_state s \<or> kvm_state (kvm_writeFrame env b s) = KFailed"
  by (simp add: kvm_writeFrame_def Let_def split: prod.split)

lemma kvm_pop_fields [simp]:
  "kvm_client (kvm_pop n s) = kvm_client s" "kvm_state (kvm_pop n s) = kvm_state s"
  "kvm_width (kvm_pop n s) = kvm_width s" "kvm_height (kvm_pop n s) = kvm_height s"
  "kvm_format (kvm_pop n s) = kvm_format s" "kvm_pendingRects (kvm_pop n s) = kvm_pendingRects s"
  "kvm_queued (kvm_pop n s) = kvm_queued s" "kvm_inbox (kvm_pop n s) = drop n (kvm_inbox s)"
  by (simp_all add: kvm_pop_def)

section \<open>The display buffer\<close>

definition kvm_fits :: "kvm_session \<Rightarrow> bool" where
  "kvm_fits s \<longleftrightarrow> displayBufferBytes (kvm_format s) (unat (kvm_width s)) (unat (kvm_height s)) \<le> kMaxDisplayBufferBytes"

definition fit_inv :: "kvm_session \<Rightarrow> bool" where
  "fit_inv s \<longleftrightarrow> (kvm_state s = KFrameLoop \<longrightarrow> kvm_fits s)"

lemma kvm_fits_same [simp]:
  "kvm_fits (kvm_emit x s) = kvm_fits s" "kvm_fits (kvm_setState st s) = kvm_fits s"
  "kvm_fits (kvm_fail e s) = kvm_fits s" "kvm_fits (kvm_writeFrame env b s) = kvm_fits s"
  "kvm_fits (kvm_pop n s) = kvm_fits s"
  by (simp_all add: kvm_fits_def)

lemma fit_inv_failed [simp]: "fit_inv (kvm_fail e s)"
  by (simp add: fit_inv_def)

lemma fit_inv_write [simp]: "fit_inv s \<Longrightarrow> fit_inv (kvm_writeFrame env b s)"
  using kvm_write_state [of env b s] by (auto simp: fit_inv_def)

lemma fit_inv_emit [simp]: "fit_inv (kvm_emit x s) = fit_inv s"
  by (simp add: fit_inv_def)

lemma kvm_fits_empty: "kvm_width s = 0 \<or> kvm_height s = 0 \<Longrightarrow> kvm_fits s"
  by (auto simp: kvm_fits_def displayBufferBytes_def)

lemma negotiate_fits:
  assumes "negotiatePixelFormat env w h s = (ok, t)" and "kvm_width s = w" and "kvm_height s = h"
  shows "ok \<Longrightarrow> kvm_fits t" and "\<not> ok \<Longrightarrow> kvm_state t = KFailed" and "kvm_queued t = kvm_queued s"
    and "kvm_pendingRects t = kvm_pendingRects s" and "kvm_width t = w" and "kvm_height t = h"
    and "kvm_inbox t = kvm_inbox s"
  using assms
  by (auto simp: negotiatePixelFormat_def Let_def kvm_fits_empty split: if_splits)
    (auto simp: kvm_fits_def not_less)

lemma serverInit_fit:
  assumes "stepServerInit env s = (go, t)" and "kvm_state t = KFrameLoop" and "kvm_state s \<noteq> KFrameLoop"
  shows "kvm_fits t"
proof (cases "tryParseServerInit (kvm_inbox s)")
  case None
  with assms show ?thesis by (simp add: stepServerInit_def)
next
  case (Some p)
  obtain info n where p: "p = (info, n)" by (cases p)
  define u where "u = kvm_emit (DesktopResized (sv_width info) (sv_height info))
    ((kvm_pop n s)\<lparr>kvm_width := sv_width info, kvm_height := sv_height info\<rparr>)"
  obtain ok v where v: "negotiatePixelFormat env (sv_width info) (sv_height info) u = (ok, v)"
    by (cases "negotiatePixelFormat env (sv_width info) (sv_height info) u")
  have u: "kvm_width u = sv_width info" "kvm_height u = sv_height info"
    by (simp_all add: u_def)
  note n = negotiate_fits [OF v u]
  show ?thesis
    using assms Some p v n(1,2) by (cases ok) (auto simp: stepServerInit_def Let_def u_def)
qed

lemma handshake_fit:
  assumes "stepHandshake env s = (go, t)" and "kvm_state s \<noteq> KFrameLoop"
  shows "fit_inv t"
  using assms
  by (auto simp: stepHandshake_def stepVersion_def stepSecurity_def stepAuthResult_def Let_def fit_inv_def
      intro: serverInit_fit split: KvmState.splits if_splits option.splits prod.splits)

lemma rectDone_fit:
  assumes "rectDone env rect dr n s = (go, t)" and "fit_inv s"
  shows "fit_inv t"
proof (cases "dr_isDesktopSize dr")
  case False
  with assms show ?thesis
    by (auto simp: rectDone_def Let_def requestIncremental_def split: option.splits if_splits intro!: fit_inv_write)
      (auto simp: fit_inv_def kvm_fits_def)
next
  case True
  define u where "u = kvm_emit (DesktopResized (rect_w rect) (rect_h rect))
    (s\<lparr>kvm_width := rect_w rect, kvm_height := rect_h rect\<rparr>)"
  obtain ok v where v: "negotiatePixelFormat env (rect_w rect) (rect_h rect) u = (ok, v)"
    by (cases "negotiatePixelFormat env (rect_w rect) (rect_h rect) u")
  have u: "kvm_width u = rect_w rect" "kvm_height u = rect_h rect"
    by (simp_all add: u_def)
  note n = negotiate_fits [OF v u]
  show ?thesis
  proof (cases ok)
    case False
    with n(2) assms True v show ?thesis
      by (simp add: rectDone_def Let_def fit_inv_def flip: u_def)
  next
    case ok: True
    then have "fit_inv ((kvm_pop k v)\<lparr>kvm_pendingRects := m\<rparr>)" for k m
      using n(1) by (simp add: fit_inv_def kvm_fits_def)
    with ok assms True v show ?thesis
      by (auto simp: rectDone_def Let_def simp flip: u_def)
  qed
qed

lemma frameLoop_fit:
  assumes "stepFrameLoop env z s = (go, t)" and "fit_inv s"
  shows "fit_inv t"
proof -
  have same: "fit_inv (s\<lparr>kvm_inflate := h\<rparr>)" "fit_inv (s\<lparr>kvm_inflate := h, kvm_undefined := b\<rparr>)"
    "fit_inv (kvm_pop k s)" "fit_inv ((kvm_pop k s)\<lparr>kvm_pendingRects := m\<rparr>)" for h b k m
    using assms(2) by (simp_all add: fit_inv_def kvm_fits_def)
  have rect: "stepRect env z s = (go, t) \<Longrightarrow> fit_inv t"
    using assms(2)
    by (auto simp: stepRect_def Let_def same dest!: rectDone_fit [OF _ same(1)]
        split: option.splits prod.splits DecodeStatus.splits)
  have msg: "stepMessage s = (go, t) \<Longrightarrow> fit_inv t"
    using assms(2) by (auto simp: stepMessage_def Let_def same split: list.splits if_splits option.splits)
  show ?thesis
    using assms(1) rect msg by (auto simp: stepFrameLoop_def split: if_splits)
qed

lemma kvm_step_fit: "kvm_step env z s = (go, t) \<Longrightarrow> fit_inv s \<Longrightarrow> fit_inv t"
  by (auto simp: kvm_step_def split: if_splits dest: handshake_fit frameLoop_fit)

lemma drainFor_fit: "fit_inv s \<Longrightarrow> fit_inv (kvm_drainFor n env z s)"
proof (induction n arbitrary: s)
  case 0
  then show ?case by (simp add: fit_inv_def kvm_fits_def)
next
  case (Suc n)
  then show ?case by (auto split: prod.split dest: kvm_step_fit)
qed

text \<open>Everything that happens to a session.\<close>

inductive kvm_event :: "qtenv \<Rightarrow> inflater \<Rightarrow> kvm_session \<Rightarrow> kvm_session \<Rightarrow> bool" for env z where
  kvm_prefer: "kvm_event env z s (setPreferredPixelFormat f s)"
| kvm_begin: "kvm_event env z s (kvm_start var s)"
| kvm_raw: "kvm_event env z s (kvm_onRawBytes env z b s)"
| kvm_resume: "0 < kvm_queued s \<Longrightarrow>
    kvm_event env z s (kvm_drainInbox env z (s\<lparr>kvm_queued := kvm_queued s - 1\<rparr>))"
| kvm_key: "kvm_event env z s (sendKey env keysym down s)"
| kvm_pointer: "kvm_event env z s (sendPointer env buttons x y s)"
| kvm_cad: "kvm_event env z s (sendCtrlAltDel env s)"
| kvm_refresh: "kvm_event env z s (requestFullRefresh env s)"
| kvm_lost: "kvm_event env z s (kvm_onClientFailed e s)"

inductive kvm_reachable :: "qtenv \<Rightarrow> inflater \<Rightarrow> kvm_session \<Rightarrow> bool" for env z where
  kvm_init: "kvm_reachable env z (newKvmSession c)"
| kvm_next: "kvm_reachable env z s \<Longrightarrow> kvm_event env z s t \<Longrightarrow> kvm_reachable env z t"

lemma fit_inv_update [simp]:
  "fit_inv (s\<lparr>kvm_preferredFormat := f\<rparr>) = fit_inv s" "fit_inv (s\<lparr>kvm_inbox := b\<rparr>) = fit_inv s"
  "fit_inv (s\<lparr>kvm_queued := n\<rparr>) = fit_inv s"
  by (simp_all add: fit_inv_def kvm_fits_def)

lemma sendKey_fit: "fit_inv s \<Longrightarrow> fit_inv (sendKey env k d s)"
  by (simp add: sendKey_def)

lemma kvm_event_fit: "kvm_event env z s t \<Longrightarrow> fit_inv s \<Longrightarrow> fit_inv t"
proof (induction rule: kvm_event.induct)
  case (kvm_begin s var)
  then show ?case by (simp add: kvm_start_def fit_inv_def)
qed (simp_all add: setPreferredPixelFormat_def kvm_onRawBytes_def kvm_drainInbox_def drainFor_fit sendKey_fit sendPointer_def
    sendCtrlAltDel_def requestFullRefresh_def kvm_onClientFailed_def Let_def)

lemma kvm_reachable_fit: "kvm_reachable env z s \<Longrightarrow> fit_inv s"
proof (induction rule: kvm_reachable.induct)
  case (kvm_init c)
  show ?case by (simp add: newKvmSession_def fit_inv_def)
next
  case (kvm_next s t)
  then show ?case by (blast intro: kvm_event_fit)
qed

section \<open>Nothing decodable is left behind\<close>

definition kvm_settled :: "qtenv \<Rightarrow> inflater \<Rightarrow> kvm_session \<Rightarrow> bool" where
  "kvm_settled env z s \<longleftrightarrow> kvm_step env z s = (False, s) \<or> kvm_state s = KFailed \<or> kvm_undefined s"

lemma decode_needmore: "tryDecodeRect p rect z hist f = (NeedMore, h) \<Longrightarrow> h = hist"
  by (auto simp: tryDecodeRect_def decodeRle_def Let_def finishRle_def
      split: if_splits option.splits list.splits inner.splits)

lemma negotiate_queued: "negotiatePixelFormat env w h s = (ok, t) \<Longrightarrow> kvm_queued t = kvm_queued s"
  "negotiatePixelFormat env w h s = (False, t) \<Longrightarrow> kvm_state t = KFailed"
  by (auto simp: negotiatePixelFormat_def Let_def split: if_splits)

lemma handshake_stops:
  assumes "stepHandshake env s = (go, t)"
  shows "kvm_queued t = kvm_queued s" and "\<not> go \<Longrightarrow> t = s \<or> kvm_state t = KFailed"
  using assms
  by (auto simp: stepHandshake_def stepVersion_def stepSecurity_def stepAuthResult_def stepServerInit_def
      Let_def dest: negotiate_queued split: KvmState.splits if_splits option.splits prod.splits)

lemma rectDone_stops:
  assumes "rectDone env rect dr n s = (go, t)"
  shows "kvm_queued t = kvm_queued s" and "\<not> go \<Longrightarrow> kvm_state t = KFailed"
  using assms
  by (auto simp: rectDone_def Let_def requestIncremental_def dest: negotiate_queued
      split: if_splits option.splits prod.splits)

lemma stepRect_stops:
  assumes "stepRect env z s = (go, t)"
  shows "kvm_queued t = kvm_queued s" and "\<not> go \<Longrightarrow> t = s \<or> kvm_state t = KFailed \<or> kvm_undefined t"
proof -
  show "kvm_queued t = kvm_queued s"
    using assms by (auto simp: stepRect_def Let_def dest!: rectDone_stops(1)
        split: option.splits prod.splits DecodeStatus.splits)
  show "\<not> go \<Longrightarrow> t = s \<or> kvm_state t = KFailed \<or> kvm_undefined t"
    using assms by (auto simp: stepRect_def Let_def dest: rectDone_stops(2) decode_needmore
        split: option.splits prod.splits DecodeStatus.splits)
qed

lemma stepMessage_stops:
  assumes "stepMessage s = (go, t)"
  shows "kvm_queued t = kvm_queued s" and "\<not> go \<Longrightarrow> t = s \<or> kvm_state t = KFailed"
  using assms by (auto simp: stepMessage_def Let_def split: list.splits if_splits option.splits)

lemma kvm_step_stops:
  assumes "kvm_step env z s = (go, t)"
  shows "kvm_queued t = kvm_queued s" and "\<not> go \<Longrightarrow> kvm_settled env z t"
proof -
  show "kvm_queued t = kvm_queued s"
    using assms handshake_stops(1) stepRect_stops(1) stepMessage_stops(1)
    by (auto simp: kvm_step_def stepFrameLoop_def split: if_splits)
  assume go: "\<not> go"
  then have "t = s \<or> kvm_state t = KFailed \<or> kvm_undefined t"
    using assms handshake_stops(2) stepRect_stops(2) stepMessage_stops(2)
    by (fastforce simp: kvm_step_def stepFrameLoop_def split: if_splits)
  then show "kvm_settled env z t"
    using assms go by (auto simp: kvm_settled_def)
qed

lemma empty_inbox_settled: "kvm_inbox s = [] \<Longrightarrow> kvm_settled env z s"
  by (auto simp: kvm_settled_def kvm_step_def stepHandshake_def stepVersion_def stepSecurity_def
      stepAuthResult_def stepServerInit_def stepFrameLoop_def stepRect_def stepMessage_def
      tryParseSecurityTypes_def tryParseSecurityResult_def parse_defs)

lemma drainFor_settled:
  "kvm_queued (kvm_drainFor n env z s) = Suc (kvm_queued s) \<or> kvm_settled env z (kvm_drainFor n env z s)"
proof (induction n arbitrary: s)
  case 0
  then show ?case by (simp add: empty_inbox_settled)
next
  case (Suc n)
  obtain go t where t: "kvm_step env z s = (go, t)" by (cases "kvm_step env z s")
  with Suc.IH [of t] kvm_step_stops [OF t] show ?case by (cases go) auto
qed

section \<open>The handshake with a conforming server\<close>

definition server_init_frame :: "u16 \<Rightarrow> u16 \<Rightarrow> bytes \<Rightarrow> bytes \<Rightarrow> bytes" where
  "server_init_frame w h pf name = pack16Be w @ pack16Be h @ pf @ pack32Be (of_nat (length name)) @ name"

lemma parse_server_init_frame:
  assumes "length pf = 16" and "length name \<le> 2 ^ 20"
  shows "tryParseServerInit (server_init_frame w h pf name @ rest)
           = Some (\<lparr>sv_width = w, sv_height = h, sv_name = name\<rparr>, 24 + length name)"
proof -
  let ?b = "server_init_frame w h pf name @ rest"
  have w: "read16Be ?b 0 = w"
    using kvm_be16.read_hit [of "[]" 0 w] by (simp add: server_init_frame_def)
  have h: "read16Be ?b 2 = h"
    using kvm_be16.read_hit [of "pack16Be w" 2 h] by (simp add: server_init_frame_def kvm_be16.pack_length)
  have "read32Be ((pack16Be w @ pack16Be h @ pf) @ pack32Be (of_nat (length name)) @ name @ rest) 20
          = of_nat (length name)"
    by (rule kvm_be32.read_hit) (simp add: assms kvm_be16.pack_length)
  then have n: "read32Be ?b 20 = of_nat (length name)"
    by (simp add: server_init_frame_def)
  have "int (length name) < 2 ^ 31"
    using assms(2) by simp
  then have si: "sint (of_nat (length name) :: u32) = int (length name)"
    by (simp add: signed_of_nat signed_take_bit_int_eq_self)
  have "mid ?b 24 (length name) = name"
    by (simp add: mid_def server_init_frame_def assms kvm_be16.pack_length kvm_be32.pack_length)
  with w h n si assms show ?thesis
    by (simp add: parse_defs server_init_frame_def kvm_be16.pack_length kvm_be32.pack_length)
qed

lemma length_server_init_frame [simp]: "length pf = 16 \<Longrightarrow> length (server_init_frame w h pf name) = 24 + length name"
  by (simp add: server_init_frame_def kvm_be16.pack_length kvm_be32.pack_length)

definition kvm_put :: "qtenv \<Rightarrow> bytes \<Rightarrow> kvm_session \<Rightarrow> kvm_session" where
  "kvm_put env b s = s\<lparr>kvm_client := snd (writeRaw env b (kvm_client s))\<rparr>"

lemma kvm_write_ok:
  "writes_complete env \<Longrightarrow> connected_client (kvm_client s) \<Longrightarrow> b \<noteq> [] \<Longrightarrow> kvm_writeFrame env b s = kvm_put env b s"
  by (auto simp: kvm_writeFrame_def kvm_put_def writes_complete_def writeRaw_def sockWrite_def
      connected_client_def)

lemma kvm_put_fields [simp]:
  "kvm_inbox (kvm_put env b s) = kvm_inbox s" "kvm_state (kvm_put env b s) = kvm_state s"
  "kvm_width (kvm_put env b s) = kvm_width s" "kvm_height (kvm_put env b s) = kvm_height s"
  "kvm_compressionEnabled (kvm_put env b s) = kvm_compressionEnabled s"
  "kvm_pendingRects (kvm_put env b s) = kvm_pendingRects s"
  "kvm_preferredFormat (kvm_put env b s) = kvm_preferredFormat s"
  "connected_client (kvm_client (kvm_put env b s)) = connected_client (kvm_client s)"
  by (simp_all add: kvm_put_def redir_transport.write_up)

lemma kvm_put_wire: "connected_client (kvm_client s) \<Longrightarrow> wire (kvm_client (kvm_put env b s)) = wire (kvm_client s) @ b"
  by (simp add: kvm_put_def redir_transport.write_wire)

lemma frames_nonempty [simp]:
  "buildVersionResponse \<noteq> []" "buildSecurityChoice \<noteq> []" "buildClientInit \<noteq> []" "buildSetPixelFormat f \<noteq> []"
  "buildSetEncodings \<noteq> []" "buildKvmExtCmd a v \<noteq> []" "buildFramebufferUpdateRequest i x y w h \<noteq> []"
  by (simp_all add: buildVersionResponse_def buildSecurityChoice_def buildClientInit_def buildSetPixelFormat_def
      buildSetEncodings_def buildKvmExtCmd_def buildFramebufferUpdateRequest_def Let_def)

lemma setState_more [simp]:
  "kvm_compressionEnabled (kvm_setState st s) = kvm_compressionEnabled s"
  "kvm_preferredFormat (kvm_setState st s) = kvm_preferredFormat s"
  "kvm_compressionEnabled (kvm_emit x s) = kvm_compressionEnabled s"
  "kvm_compressionEnabled (kvm_pop n s) = kvm_compressionEnabled s"
  "kvm_preferredFormat (kvm_pop n s) = kvm_preferredFormat s"
  by (simp_all add: kvm_setState_def kvm_emit_def kvm_pop_def)

lemma drainFor_go: "kvm_step env z s = (True, t) \<Longrightarrow> kvm_drainFor (Suc n) env z s = kvm_drainFor n env z t"
  by simp

lemma shake_version:
  assumes "writes_complete env" and "connected_client (kvm_client s)" and "kvm_state s = KVersion"
    and "kvm_inbox s = ver @ rest" and "length ver = 12"
  shows "kvm_step env z s = (True, kvm_setState KSecurity (kvm_put env buildVersionResponse (kvm_pop 12 s)))"
  using assms by (simp add: kvm_step_def stepHandshake_def stepVersion_def kvm_write_ok)

lemma shake_security:
  assumes "writes_complete env" and "connected_client (kvm_client s)" and "kvm_state s = KSecurity"
    and "kvm_inbox s = (of_nat (length types) # types) @ rest" and "length types \<le> 255"
  shows "kvm_step env z s = (True, kvm_setState KAuthResult
           (kvm_put env buildSecurityChoice (kvm_pop (1 + length types) s)))"
proof -
  have "tryParseSecurityTypes (kvm_inbox s) = 1 + length types"
    using assms(4,5) by (simp add: tryParseSecurityTypes_def Let_def unat_of_nat)
  with assms show ?thesis
    by (simp add: kvm_step_def stepHandshake_def stepSecurity_def kvm_write_ok Let_def)
qed

lemma shake_result:
  assumes "writes_complete env" and "connected_client (kvm_client s)" and "kvm_state s = KAuthResult"
    and "kvm_inbox s = [0, 0, 0, 0] @ rest"
  shows "kvm_step env z s = (True, kvm_setState KServerInit (kvm_put env buildClientInit (kvm_pop 4 s)))"
  using assms
  by (simp add: kvm_step_def stepHandshake_def stepAuthResult_def tryParseSecurityResult_def
      kSecurityResultSize_def read32Be_def kvm_write_ok)

text \<open>What the session sends once it knows the desktop.\<close>

definition display_setup :: "PixelFormat \<Rightarrow> bool \<Rightarrow> u16 \<Rightarrow> u16 \<Rightarrow> bytes" where
  "display_setup f compression w h = buildSetPixelFormat f @ buildSetEncodings
     @ buildKvmExtCmd 4 (if compression then 1 else 0) @ buildFramebufferUpdateRequest False 0 0 w h"

lemma shake_init:
  assumes "writes_complete env" and "connected_client (kvm_client s)" and "kvm_state s = KServerInit"
    and "kvm_inbox s = server_init_frame w h pf name @ rest" and "length pf = 16" and "length name \<le> 2 ^ 20"
    and "kvm_preferredFormat s = None" and "w \<noteq> 0" and "h \<noteq> 0"
    and "displayBufferBytes Rgb332 (unat w) (unat h) \<le> kMaxDisplayBufferBytes"
  shows "\<exists>t. kvm_step env z s = (True, t) \<and> kvm_state t = KFrameLoop \<and> kvm_inbox t = rest
           \<and> kvm_format t = chooseFormatFor (unat w) (unat h) \<and> kvm_width t = w \<and> kvm_height t = h
           \<and> kvm_pendingRects t = kvm_pendingRects s
           \<and> wire (kvm_client t) = wire (kvm_client s)
               @ display_setup (chooseFormatFor (unat w) (unat h)) (kvm_compressionEnabled s) w h"
proof -
  define f where "f = chooseFormatFor (unat w) (unat h)"
  have fits: "\<not> displayBufferBytes f (unat w) (unat h) > kMaxDisplayBufferBytes"
    using assms(10) by (auto simp: f_def chooseFormatFor_def)
  define u where "u = kvm_emit (DesktopResized w h) ((kvm_pop (24 + length name) s)\<lparr>kvm_width := w, kvm_height := h\<rparr>)"
  define v where "v = (if f \<noteq> kvm_format s then kvm_emit (PixelFormatChanged f)
    (kvm_put env (buildSetPixelFormat f) (u\<lparr>kvm_format := f\<rparr>))
    else kvm_put env (buildSetPixelFormat f) (u\<lparr>kvm_format := f\<rparr>))"
  have u: "connected_client (kvm_client u)" "kvm_preferredFormat u = None" "kvm_format u = kvm_format s"
    "kvm_inbox u = rest" "kvm_client u = kvm_client s"
    using assms(2,4,5,7) by (simp_all add: u_def)
  then have neg: "negotiatePixelFormat env w h u = (True, v)"
    using assms(1,8,9) fits
    by (simp add: negotiatePixelFormat_def v_def kvm_write_ok Let_def flip: f_def)
  have v: "connected_client (kvm_client v)" "kvm_inbox v = rest" "kvm_format v = f" "kvm_width v = w"
    "kvm_height v = h" "kvm_compressionEnabled v = kvm_compressionEnabled s" "kvm_pendingRects v = kvm_pendingRects s"
    "wire (kvm_client v) = wire (kvm_client s) @ buildSetPixelFormat f"
    using u kvm_put_wire [of "u\<lparr>kvm_format := f\<rparr>" env "buildSetPixelFormat f"]
    by (simp_all add: v_def) (auto simp: u_def kvm_put_def)
  show ?thesis
    using assms(1,3) v neg parse_server_init_frame [OF assms(5,6), of w h rest]
    by (simp add: assms(4) kvm_step_def stepHandshake_def stepServerInit_def Let_def kvm_write_ok
        kvm_put_wire display_setup_def flip: u_def f_def) (simp add: kvm_put_def)
qed

lemma handshake_run:
  assumes "writes_complete env" and "connected_client (kvm_client s)" and "kvm_state s = KVersion"
    and "kvm_inbox s = []" and "kvm_pendingRects s = 0" and "kvm_preferredFormat s = None"
    and "length ver = 12" and "length types \<le> 255" and "length pf = 16" and "length name \<le> 2 ^ 20"
    and "w \<noteq> 0" and "h \<noteq> 0" and "unat w * unat h \<le> kMaxDisplayBufferBytes"
  shows "let t = kvm_onRawBytes env z (ver @ (of_nat (length types) # types) @ [0, 0, 0, 0]
                   @ server_init_frame w h pf name) s in
           kvm_state t = KFrameLoop \<and> kvm_width t = w \<and> kvm_height t = h
           \<and> kvm_format t = chooseFormatFor (unat w) (unat h) \<and> kvm_inbox t = []
           \<and> wire (kvm_client t) = wire (kvm_client s) @ buildVersionResponse @ buildSecurityChoice
               @ buildClientInit
               @ display_setup (chooseFormatFor (unat w) (unat h)) (kvm_compressionEnabled s) w h"
proof -
  let ?init = "server_init_frame w h pf name"
  let ?sec = "(of_nat (length types) # types) @ [0, 0, 0, 0] @ ?init"
  define s0 where "s0 = s\<lparr>kvm_inbox := ver @ ?sec\<rparr>"
  define s1 where "s1 = kvm_setState KSecurity (kvm_put env buildVersionResponse (kvm_pop 12 s0))"
  define s2 where "s2 = kvm_setState KAuthResult (kvm_put env buildSecurityChoice (kvm_pop (1 + length types) s1))"
  define s3 where "s3 = kvm_setState KServerInit (kvm_put env buildClientInit (kvm_pop 4 s2))"
  have 0: "kvm_step env z s0 = (True, s1)"
    unfolding s1_def by (rule shake_version [OF assms(1), of _ ver ?sec]) (use assms in \<open>simp_all add: s0_def\<close>)
  have 1: "kvm_step env z s1 = (True, s2)"
    unfolding s2_def by (rule shake_security [OF assms(1), of _ types "[0, 0, 0, 0] @ ?init"])
      (use assms in \<open>simp_all add: s1_def s0_def\<close>)
  have 2: "kvm_step env z s2 = (True, s3)"
    unfolding s3_def by (rule shake_result [OF assms(1), of _ ?init]) (use assms in \<open>simp_all add: s2_def s1_def s0_def\<close>)
  have fit: "displayBufferBytes Rgb332 (unat w) (unat h) \<le> kMaxDisplayBufferBytes"
    using assms(13) by (simp add: displayBufferBytes_def bytesPerPixel_def)
  have s3: "connected_client (kvm_client s3)" "kvm_inbox s3 = ?init @ []" "kvm_preferredFormat s3 = None"
    "kvm_state s3 = KServerInit" "kvm_pendingRects s3 = 0" "kvm_compressionEnabled s3 = kvm_compressionEnabled s"
    "wire (kvm_client s3) = wire (kvm_client s) @ buildVersionResponse @ buildSecurityChoice @ buildClientInit"
    using assms by (simp_all add: s3_def s2_def s1_def s0_def kvm_put_wire)
  obtain t where t: "kvm_step env z s3 = (True, t)" "kvm_state t = KFrameLoop" "kvm_inbox t = []"
    "kvm_format t = chooseFormatFor (unat w) (unat h)" "kvm_width t = w" "kvm_height t = h" "kvm_pendingRects t = 0"
    "wire (kvm_client t) = wire (kvm_client s3)
       @ display_setup (chooseFormatFor (unat w) (unat h)) (kvm_compressionEnabled s3) w h"
    using shake_init [OF assms(1) s3(1,4,2) assms(9,10) s3(3) assms(11,12) fit] s3(5) by auto
  have "kvm_step env z t = (False, t)"
    using t(2,3,7) by (simp add: kvm_step_def stepFrameLoop_def stepMessage_def)
  then have "kvm_drainFor 16 env z s0 = t"
    using 0 1 2 t(1) by (simp add: numeral_eq_Suc)
  then show ?thesis
    using t s3 assms(4) by (simp add: kvm_onRawBytes_def kvm_drainInbox_def kMaxStepsPerCall_def s0_def Let_def)
qed

section \<open>Properties\<close>

text \<open>C22: The display-buffer limit is respected in every reachable state: whenever the session runs
  its frame loop, the format it negotiated for the current desktop size, initial or after any
  sequence of resizes, needs no more than AMT's 9,216,000 bytes.\<close>

theorem kvm_display_buffer_safe:
  assumes "kvm_reachable env z s" and "kvm_state s = KFrameLoop"
  shows "displayBufferBytes (kvm_format s) (unat (kvm_width s)) (unat (kvm_height s)) \<le> kMaxDisplayBufferBytes"
  using kvm_reachable_fit [OF assms(1)] assms(2) by (simp add: fit_inv_def kvm_fits_def)

text \<open>No decodable byte is left waiting. When a run of \<open>drainInbox\<close> ends it has either
  queued itself again or reached a point where the next step cannot proceed with the bytes
  there are (or the session has failed), so the sixteen-step bound never loses a wake-up.\<close>

theorem kvm_no_lost_wakeup:
  "kvm_queued (kvm_drainInbox env z s) = Suc (kvm_queued s) \<or> kvm_settled env z (kvm_drainInbox env z s)"
  unfolding kvm_drainInbox_def by (rule drainFor_settled)

text \<open>The RFB handshake succeeds against a conforming server: after a version banner, any list
  of security types, a zero result and a ServerInit whose desktop fits the display buffer, arriving
  in one read, the session is in its frame loop with the best format that fits and has written
  exactly the version 3.8 response, security type None, the shared ClientInit, SetPixelFormat,
  SetEncodings, the compression switch and one full update request, in this order.\<close>

theorem kvm_handshake_completes:
  assumes "writes_complete env" and "connected_client (kvm_client s)" and "kvm_state s = KVersion"
    and "kvm_inbox s = []" and "kvm_pendingRects s = 0" and "kvm_preferredFormat s = None"
    and "length ver = 12" and "length types \<le> 255" and "length pf = 16" and "length name \<le> 2 ^ 20"
    and "w \<noteq> 0" and "h \<noteq> 0" and "unat w * unat h \<le> kMaxDisplayBufferBytes"
  shows "let t = kvm_onRawBytes env z (ver @ (of_nat (length types) # types) @ [0, 0, 0, 0]
                   @ server_init_frame w h pf name) s in
           kvm_state t = KFrameLoop \<and> kvm_width t = w \<and> kvm_height t = h
           \<and> kvm_format t = chooseFormatFor (unat w) (unat h) \<and> kvm_inbox t = []
           \<and> wire (kvm_client t) = wire (kvm_client s) @ buildVersionResponse @ buildSecurityChoice
               @ buildClientInit
               @ display_setup (chooseFormatFor (unat w) (unat h)) (kvm_compressionEnabled s) w h"
  by (rule handshake_run [OF assms])

lemma negotiate_wire:
  assumes "negotiatePixelFormat env w h s = (True, t)" and "writes_complete env" and "connected_client (kvm_client s)"
  shows "wire (kvm_client t) \<in> {wire (kvm_client s), wire (kvm_client s) @ buildSetPixelFormat (kvm_format t)}
         \<and> connected_client (kvm_client t) \<and> kvm_state t = kvm_state s"
  using assms
  by (auto simp: negotiatePixelFormat_def kvm_write_ok kvm_put_wire Let_def split: if_splits)
    (simp_all add: kvm_put_def redir_transport.write_wire)

definition demo_kvm :: kvm_session where
  "demo_kvm = (newKvmSession (demo_client\<lparr>m_state := Authenticated\<rparr>))\<lparr>kvm_state := KVersion\<rparr>"

definition demo_inflate :: inflater where
  "demo_inflate h b = None"

lemma demo_kvm_simps:
  "writes_complete demo_env" "connected_client (kvm_client demo_kvm)" "kvm_state demo_kvm = KVersion"
  "kvm_inbox demo_kvm = []" "kvm_pendingRects demo_kvm = 0" "kvm_preferredFormat demo_kvm = None"
  by (simp_all add: writes_complete_def demo_env_def demo_kvm_def newKvmSession_def connected_client_def
      demo_client_def)

theorem kvm_handshake_completes_witness:
  "kvm_state (kvm_onRawBytes demo_env demo_inflate (replicate 12 0 @ (of_nat (length [1]) # [1]) @ [0, 0, 0, 0]
     @ server_init_frame 640 480 (replicate 16 0) []) demo_kvm) = KFrameLoop"
  using kvm_handshake_completes [OF demo_kvm_simps, of "replicate 12 0" "[1]" "replicate 16 0" "[]" 640 480 demo_inflate]
  by (simp add: kMaxDisplayBufferBytes_def Let_def)

text \<open>The picture keeps coming. Whenever the last outstanding rectangle of an update is
  processed, the last thing written is a new update request for the current desktop, a full one
  if the desktop was resized (after the new pixel format) and an incremental one otherwise.\<close>

theorem kvm_update_rearms:
  assumes "writes_complete env" and "connected_client (kvm_client s)" and "kvm_state s = KFrameLoop"
    and "0 < kvm_pendingRects s" and "kvm_step env z s = (True, t)" and "kvm_pendingRects t = 0"
  shows "\<exists>pre incremental. wire (kvm_client t) = wire (kvm_client s) @ pre
           @ buildFramebufferUpdateRequest incremental 0 0 (kvm_width t) (kvm_height t)
         \<and> pre \<in> {[], buildSetPixelFormat (kvm_format t)} \<and> (incremental \<longrightarrow> pre = [])"
proof -
  have step: "stepRect env z s = (True, t)"
    using assms(3-5) by (simp add: kvm_step_def stepFrameLoop_def)
  obtain rect dr n hist where dn: "rectDone env rect dr n (s\<lparr>kvm_inflate := hist\<rparr>) = (True, t)"
    using step by (auto simp: stepRect_def Let_def split: option.splits prod.splits DecodeStatus.splits)
  show ?thesis
  proof (cases "dr_isDesktopSize dr")
    case False
    with dn assms show ?thesis
      by (intro exI [of _ "[]"] exI [of _ True])
        (auto simp: rectDone_def requestIncremental_def kvm_write_ok kvm_put_wire Let_def
          split: option.splits if_splits)
  next
    case True
    define u where "u = kvm_emit (DesktopResized (rect_w rect) (rect_h rect))
      (s\<lparr>kvm_inflate := hist, kvm_width := rect_w rect, kvm_height := rect_h rect\<rparr>)"
    obtain ok v where v: "negotiatePixelFormat env (rect_w rect) (rect_h rect) u = (ok, v)"
      by (cases "negotiatePixelFormat env (rect_w rect) (rect_h rect) u")
    have ok: "ok"
      using dn True v by (auto simp: rectDone_def Let_def u_def split: if_splits)
    have up: "connected_client (kvm_client u)" and wu: "wire (kvm_client u) = wire (kvm_client s)"
      using assms(2) by (simp_all add: u_def)
    note w = negotiate_wire [OF _ assms(1) up, of "rect_w rect" "rect_h rect" v]
    define pre where "pre = drop (length (wire (kvm_client u))) (wire (kvm_client v))"
    have "wire (kvm_client v) = wire (kvm_client s) @ pre" "pre \<in> {[], buildSetPixelFormat (kvm_format v)}"
      "connected_client (kvm_client v)"
      using w v ok wu by (auto simp: pre_def)
    moreover have "t = kvm_writeFrame env (buildFramebufferUpdateRequest False 0 0 (kvm_width v) (kvm_height v))
        ((kvm_pop n v)\<lparr>kvm_pendingRects := kvm_pendingRects v - 1\<rparr>)"
      using dn True v ok assms(6) by (auto simp: rectDone_def Let_def u_def split: if_splits)
    ultimately show ?thesis
      by (intro exI [of _ pre] exI [of _ False]) (auto simp: redir_transport.write_wire)
  qed
qed

theorem kvm_update_rearms_witness:
  "\<exists>pre incremental. wire (kvm_client (snd (kvm_step demo_env demo_inflate
        (demo_kvm\<lparr>kvm_state := KFrameLoop, kvm_pendingRects := 1, kvm_inbox := replicate 12 0\<rparr>))))
     = wire (kvm_client demo_kvm) @ pre @ buildFramebufferUpdateRequest incremental 0 0 0 0"
proof -
  let ?s = "demo_kvm\<lparr>kvm_state := KFrameLoop, kvm_pendingRects := 1, kvm_inbox := replicate 12 0\<rparr>"
  let ?t = "kvm_put demo_env (buildFramebufferUpdateRequest True 0 0 0 0)
    ((kvm_pop 12 (?s\<lparr>kvm_inflate := []\<rparr>))\<lparr>kvm_pendingRects := 0\<rparr>)"
  have dims: "kvm_width demo_kvm = 0" "kvm_height demo_kvm = 0" "kvm_inflate demo_kvm = []"
    by (simp_all add: demo_kvm_def newKvmSession_def)
  have rect: "tryParseRectHeader (replicate 12 0)
      = Some (\<lparr>rect_x = 0, rect_y = 0, rect_w = 0, rect_h = 0, rect_encoding = 0\<rparr>, 12)"
    by (simp add: parse_defs read16Be_def read32Be_def)
  have "kvm_step demo_env demo_inflate ?s = (True, ?t)"
    using demo_kvm_simps
    by (simp add: kvm_step_def stepFrameLoop_def stepRect_def rect tryDecodeRect_def noRect_def rectDone_def
        requestIncremental_def kvm_write_ok dims Let_def)
  then show ?thesis
    using kvm_update_rearms [of demo_env ?s demo_inflate ?t] demo_kvm_simps dims by auto
qed

theorem kvm_display_buffer_safe_witness:
  "displayBufferBytes (kvm_format (kvm_onRawBytes demo_env demo_inflate (replicate 12 0 @ [1, 1] @ [0, 0, 0, 0]
     @ server_init_frame 640 480 (replicate 16 0) []) (kvm_start None (newKvmSession (demo_client\<lparr>m_state := Authenticated\<rparr>)))))
     640 480 \<le> kMaxDisplayBufferBytes"
proof -
  let ?b = "replicate 12 0 @ [1, 1] @ [0, 0, 0, 0] @ server_init_frame 640 480 (replicate 16 0) []"
  let ?n = "newKvmSession (demo_client\<lparr>m_state := Authenticated\<rparr>)"
  let ?t = "kvm_onRawBytes demo_env demo_inflate ?b (kvm_start None ?n)"
  have "kvm_reachable demo_env demo_inflate ?t"
    by (rule kvm_next [OF kvm_next [OF kvm_init kvm_begin] kvm_raw])
  moreover have "kvm_state ?t = KFrameLoop" "kvm_width ?t = 640" "kvm_height ?t = 480"
    using handshake_run [of demo_env "kvm_start None ?n" "replicate 12 0" "[1]" "replicate 16 0" "[]" 640 480 demo_inflate]
    by (simp_all add: kvm_start_def kvm_setState_def kvm_emit_def newKvmSession_def connected_client_def
        demo_client_def demo_kvm_simps kMaxDisplayBufferBytes_def Let_def)
  ultimately show ?thesis
    using kvm_display_buffer_safe [of demo_env demo_inflate ?t] by simp
qed

text \<open>A failed write during the handshake is forgotten. When the version response cannot be
  written, the session reports itself closed, and then moves on to the next handshake state as if
  nothing had happened instead of staying failed.\<close>

theorem kvm_failure_forgotten:
  assumes "kvm_state s = KVersion" and "12 \<le> length (kvm_inbox s)"
    and "fst (writeRaw env buildVersionResponse (kvm_client s)) \<le> 0"
  shows "\<exists>t e. kvm_step env z s = (True, t) \<and> KvmClosed e \<in> set (kvm_outs t) \<and> kvm_state t = KSecurity"
  using assms
  by (auto simp: kvm_step_def stepHandshake_def stepVersion_def kvm_writeFrame_def kvm_setState_def kvm_fail_def
      Let_def split: prod.split)

theorem kvm_failure_forgotten_witness:
  "\<exists>t e. kvm_step demo_env demo_inflate
       (demo_kvm\<lparr>kvm_inbox := replicate 12 0, kvm_client := initialClient\<rparr>) = (True, t)
     \<and> KvmClosed e \<in> set (kvm_outs t) \<and> kvm_state t = KSecurity"
  by (rule kvm_failure_forgotten)
    (simp_all add: demo_kvm_simps writeRaw_def initialClient_def)

end
