(* ===== verification/Kvm_Controller.thy ===== *)
theory Kvm_Controller
  imports Kvm_Session Recorders Ssh_Session
begin

text \<open>
  The remote screen as the user meets it: the framebuffer that tiles are painted into
  (\<open>app/src/kvmframebuffer.cpp\<close>) and the controller that owns it together with the client, the session,
  the film recorder and the SSH tunnel (\<open>app/src/kvmcontroller.cpp\<close>).

  Signals are handled as in the serial console: those of a client operation after it, those of the
  session's receive loop after each of its steps. How a pixel is painted over another is Qt's business.
\<close>

section \<open>The framebuffer\<close>

datatype fb_out = FbResized | FbVersionChanged | FbTileApplied nat nat nat nat

record framebuffer =
  fb_image :: image
  fb_version :: nat
  fb_outs :: "fb_out list"

definition nullImage :: image where
  "nullImage = \<lparr>img_w = 0, img_h = 0, img_pixels = []\<rparr>"

definition isNull :: "image \<Rightarrow> bool" where
  "isNull i \<longleftrightarrow> img_w i = 0 \<or> img_h i = 0"

definition black :: u32 where "black = 0xFF000000"

definition newFramebuffer :: framebuffer where
  "newFramebuffer = \<lparr>fb_image = nullImage, fb_version = 0, fb_outs = []\<rparr>"

text \<open>A \<open>QImage\<close> of no extent is the null image.\<close>

definition blackImage :: "nat \<Rightarrow> nat \<Rightarrow> image" where
  "blackImage w h = (if w = 0 \<or> h = 0 then nullImage else \<lparr>img_w = w, img_h = h, img_pixels = replicate (w * h) black\<rparr>)"

definition fb_emit :: "fb_out list \<Rightarrow> framebuffer \<Rightarrow> framebuffer" where
  "fb_emit xs f = f\<lparr>fb_outs := fb_outs f @ xs\<rparr>"

definition fb_resize :: "nat \<Rightarrow> nat \<Rightarrow> framebuffer \<Rightarrow> framebuffer" where
  "fb_resize w h f =
     (if w = img_w (fb_image f) \<and> h = img_h (fb_image f) then f
      else fb_emit [FbResized, FbVersionChanged, FbTileApplied 0 0 w h]
             (f\<lparr>fb_image := blackImage w h, fb_version := fb_version f + 1\<rparr>))"

text \<open>\<open>drawImage\<close>: the part of the tile inside the picture is painted pixel over pixel.\<close>

definition drawImage :: "(u32 \<Rightarrow> u32 \<Rightarrow> u32) \<Rightarrow> nat \<Rightarrow> nat \<Rightarrow> image \<Rightarrow> image \<Rightarrow> image" where
  "drawImage over x y tile img =
     img\<lparr>img_pixels := map (\<lambda>k.
         let i = k mod img_w img; j = k div img_w img
         in if x \<le> i \<and> i < x + img_w tile \<and> y \<le> j \<and> j < y + img_h tile
            then over (img_pixels tile ! ((j - y) * img_w tile + (i - x))) (img_pixels img ! k) else img_pixels img ! k)
       [0..<img_w img * img_h img]\<rparr>"

definition applyTile :: "(u32 \<Rightarrow> u32 \<Rightarrow> u32) \<Rightarrow> nat \<Rightarrow> nat \<Rightarrow> image \<Rightarrow> framebuffer \<Rightarrow> framebuffer" where
  "applyTile over x y tile f =
     (if isNull (fb_image f) \<or> isNull tile then f
      else fb_emit [FbVersionChanged, FbTileApplied x y (img_w tile) (img_h tile)]
             (f\<lparr>fb_image := drawImage over x y tile (fb_image f), fb_version := fb_version f + 1\<rparr>))"

definition fb_clear :: "framebuffer \<Rightarrow> framebuffer" where
  "fb_clear f =
     (if isNull (fb_image f) then f
      else fb_emit [FbVersionChanged, FbTileApplied 0 0 (img_w (fb_image f)) (img_h (fb_image f))]
             (f\<lparr>fb_image := (fb_image f)\<lparr>img_pixels := replicate (img_w (fb_image f) * img_h (fb_image f)) black\<rparr>,
                fb_version := fb_version f + 1\<rparr>))"

section \<open>State\<close>

datatype kc_state = KcDisconnected | KcConnecting | KcAuthenticating | KcAwaitingTrust | KcNegotiating | KcConnected | KcFailed

datatype kc_error = KcNoError | KcHostEmpty | KcRedir redir_error | KcKvm kvm_error

datatype kc_out =
    KcHostChanged | KcUserChanged | KcPasswordChanged | KcTlsChanged | KcTrustedChanged
  | KcStateChanged | KcLastErrorChanged | KcDesktopResized | KcPendingCertChanged | KcAwaitingTrustChanged
  | KcTrustedAdded qstring
  | KcSshPromptRequired qstring qstring
  | KcSshPromptChanged
  | KcTrustedSshAdded qstring
  | KcVerifiedByPin qstring
  | KcRecordingChanged
  | KcColorDepthChanged

text \<open>Clients that were let go are kept in \<open>kc_gone\<close>, as they were when dropped.\<close>

record kvm_controller =
  kc_host :: qstring
  kc_portOverride :: u16
  kc_user :: qstring
  kc_password :: qstring
  kc_state :: kc_state
  kc_lastError :: kc_error
  kc_colorDepthMode :: int
  kc_eightBitColor :: bool
  kc_width :: nat
  kc_height :: nat
  kc_tls :: bool
  kc_trusted :: "qstring list"
  kc_pendingCert :: PeerCertSummary
  kc_framebuffer :: framebuffer
  kc_session :: "kvm_session option"
  kc_sshSession :: bool
  kc_sshHost :: "ssh_host option"
  kc_openDeferred :: bool
  kc_recorder :: "mov option"
  kc_recordTimer :: "int option"
  kc_dirty :: bool
  kc_pendingSshKey :: qstring
  kc_pendingSshKeyType :: qstring
  kc_awaitingSsh :: bool
  kc_sshCmds :: "ssh_cmd list"
  kc_gone :: "client list"
  kc_outs :: "kc_out list"

definition kc_noCert :: PeerCertSummary where
  "kc_noCert = \<lparr>pc_subject = [], pc_issuer = [], pc_fingerprintSha256 = [], pc_notBefore = [], pc_notAfter = [], pc_der = []\<rparr>"

definition newKvmController :: kvm_controller where
  "newKvmController = \<lparr>kc_host = [], kc_portOverride = 0, kc_user = [], kc_password = [], kc_state = KcDisconnected,
     kc_lastError = KcNoError, kc_colorDepthMode = 0, kc_eightBitColor = False, kc_width = 0, kc_height = 0, kc_tls = False,
     kc_trusted = [], kc_pendingCert = kc_noCert, kc_framebuffer = newFramebuffer, kc_session = None, kc_sshSession = False,
     kc_sshHost = None, kc_openDeferred = False, kc_recorder = None, kc_recordTimer = None, kc_dirty = False,
     kc_pendingSshKey = [], kc_pendingSshKeyType = [], kc_awaitingSsh = False, kc_sshCmds = [], kc_gone = [], kc_outs = []\<rparr>"

record kvm_env =
  ke_qt :: qtenv
  ke_inflate :: inflater
  ke_compression :: "bytes option"
  ke_over :: "u32 \<Rightarrow> u32 \<Rightarrow> u32"
  ke_mov :: "image mov_env"

section \<open>Properties\<close>

definition kc_emit :: "kc_out list \<Rightarrow> kvm_controller \<Rightarrow> kvm_controller" where
  "kc_emit xs c = c\<lparr>kc_outs := kc_outs c @ xs\<rparr>"

definition kc_setHost :: "qstring \<Rightarrow> kvm_controller \<Rightarrow> kvm_controller" where
  "kc_setHost v c = (if v = kc_host c then c else kc_emit [KcHostChanged] (c\<lparr>kc_host := v\<rparr>))"

definition kc_setUser :: "qstring \<Rightarrow> kvm_controller \<Rightarrow> kvm_controller" where
  "kc_setUser v c = (if v = kc_user c then c else kc_emit [KcUserChanged] (c\<lparr>kc_user := v\<rparr>))"

definition kc_setPassword :: "qstring \<Rightarrow> kvm_controller \<Rightarrow> kvm_controller" where
  "kc_setPassword v c = (if v = kc_password c then c else kc_emit [KcPasswordChanged] (c\<lparr>kc_password := v\<rparr>))"

definition kc_setTls :: "bool \<Rightarrow> kvm_controller \<Rightarrow> kvm_controller" where
  "kc_setTls v c = (if v = kc_tls c then c else kc_emit [KcTlsChanged] (c\<lparr>kc_tls := v\<rparr>))"

definition kc_setTrustedFingerprints :: "qstring list \<Rightarrow> kvm_controller \<Rightarrow> kvm_controller" where
  "kc_setTrustedFingerprints v c = (if v = kc_trusted c then c else kc_emit [KcTrustedChanged] (c\<lparr>kc_trusted := v\<rparr>))"

definition kc_setColorDepthMode :: "int \<Rightarrow> kvm_controller \<Rightarrow> kvm_controller" where
  "kc_setColorDepthMode v c =
     (if v < 0 \<or> v > 2 \<or> v = kc_colorDepthMode c then c else kc_emit [KcColorDepthChanged] (c\<lparr>kc_colorDepthMode := v\<rparr>))"

definition preferredPixelFormat :: "kvm_controller \<Rightarrow> PixelFormat option" where
  "preferredPixelFormat c =
     (if kc_colorDepthMode c = 1 then Some Rgb565 else if kc_colorDepthMode c = 2 then Some Rgb332 else None)"

definition kc_setState :: "kc_state \<Rightarrow> kvm_controller \<Rightarrow> kvm_controller" where
  "kc_setState s c =
     (if s = kc_state c then c
      else
        let wasAwaiting = (kc_state c = KcAwaitingTrust)
        in kc_emit ([KcStateChanged] @ (if wasAwaiting \<noteq> (s = KcAwaitingTrust) then [KcAwaitingTrustChanged] else []))
             (c\<lparr>kc_state := s\<rparr>))"

definition kc_setLastError :: "kc_error \<Rightarrow> kvm_controller \<Rightarrow> kvm_controller" where
  "kc_setLastError e c = (if e = kc_lastError c then c else kc_emit [KcLastErrorChanged] (c\<lparr>kc_lastError := e\<rparr>))"

section \<open>Recording\<close>

definition kc_isRecording :: "kvm_controller \<Rightarrow> bool" where
  "kc_isRecording c = (case kc_recorder c of None \<Rightarrow> False | Some r \<Rightarrow> mov_open r)"

definition kc_stopRecording :: "kvm_env \<Rightarrow> kvm_controller \<Rightarrow> kvm_controller" where
  "kc_stopRecording env c =
     (if \<not> kc_isRecording c then c
      else kc_emit [KcRecordingChanged]
             (c\<lparr>kc_recordTimer := None, kc_recorder := map_option (mov_stop (ke_mov env)) (kc_recorder c)\<rparr>))"

definition kc_beginRecording :: "kvm_env \<Rightarrow> qstring \<Rightarrow> int \<Rightarrow> kvm_controller \<Rightarrow> bool \<times> kvm_controller" where
  "kc_beginRecording env path fps c =
     (let img = fb_image (kc_framebuffer c)
      in if isNull img then (False, c)
         else
           let fps = (if fps \<le> 0 \<or> fps > 60 then 5 else fps);
               r = (case kc_recorder c of None \<Rightarrow> newMov | Some r \<Rightarrow> r);
               (ok, r) = mov_start (ke_mov env) path (int (img_w img)) (int (img_h img)) fps r
           in if \<not> ok then (False, c\<lparr>kc_recorder := Some r\<rparr>)
              else
                let r = snd (pushFrame (ke_mov env) img 85 r)
                in (True, kc_emit [KcRecordingChanged]
                     (c\<lparr>kc_recorder := Some r, kc_dirty := False, kc_recordTimer := Some (1000 div fps)\<rparr>)))"

definition kc_startRecording :: "kvm_env \<Rightarrow> qstring \<Rightarrow> int \<Rightarrow> kvm_controller \<Rightarrow> bool \<times> kvm_controller" where
  "kc_startRecording env path fps c = kc_beginRecording env path fps (if kc_isRecording c then kc_stopRecording env c else c)"

text \<open>The recording timer.\<close>

definition kc_onRecordTimer :: "kvm_env \<Rightarrow> kvm_controller \<Rightarrow> kvm_controller" where
  "kc_onRecordTimer env c =
     (if \<not> kc_isRecording c \<or> \<not> kc_dirty c \<or> isNull (fb_image (kc_framebuffer c)) then c
      else c\<lparr>kc_recorder := map_option (\<lambda>r. snd (pushFrame (ke_mov env) (fb_image (kc_framebuffer c)) 85 r)) (kc_recorder c),
             kc_dirty := False\<rparr>)"

text \<open>\<open>png\<close> is whether the picture could be saved.\<close>

definition saveScreenshot :: "(qstring \<Rightarrow> image \<Rightarrow> bool) \<Rightarrow> qstring \<Rightarrow> kvm_controller \<Rightarrow> bool" where
  "saveScreenshot png path c =
     (if path = [] then False
      else let img = fb_image (kc_framebuffer c) in if isNull img then False else png path img)"

section \<open>The session's signals\<close>

definition fb_applied :: "framebuffer \<Rightarrow> framebuffer \<Rightarrow> bool" where
  "fb_applied f g \<longleftrightarrow> list_ex (\<lambda>x. case x of FbTileApplied _ _ _ _ \<Rightarrow> True | _ \<Rightarrow> False) (drop (length (fb_outs f)) (fb_outs g))"

text \<open>An operation of the framebuffer; a tile it reports marks the picture as changed.\<close>

definition kc_onFramebuffer :: "(framebuffer \<Rightarrow> framebuffer) \<Rightarrow> kvm_controller \<Rightarrow> kvm_controller" where
  "kc_onFramebuffer op c =
     (let f = kc_framebuffer c; g = op f
      in c\<lparr>kc_framebuffer := g, kc_dirty := kc_dirty c \<or> fb_applied f g\<rparr>)"

fun kc_clientState :: "State \<Rightarrow> kc_state option" where
  "kc_clientState Disconnected = Some KcDisconnected"
| "kc_clientState Connecting = Some KcConnecting"
| "kc_clientState SelectorSent = Some KcAuthenticating"
| "kc_clientState SessionOpened = Some KcAuthenticating"
| "kc_clientState AuthQuerying = Some KcAuthenticating"
| "kc_clientState AuthChallenging = Some KcAuthenticating"
| "kc_clientState AuthResponding = Some KcAuthenticating"
| "kc_clientState KvmStarting = None"
| "kc_clientState Authenticated = Some KcNegotiating"
| "kc_clientState Failed = Some KcFailed"

definition kc_onClientState :: "State \<Rightarrow> kvm_controller \<Rightarrow> kvm_controller" where
  "kc_onClientState s c = (case kc_clientState s of None \<Rightarrow> c | Some st \<Rightarrow> kc_setState st c)"

text \<open>\<open>disconnectFromHost\<close>, whose only signal is the change of state.\<close>

definition kc_disconnectClient :: "kvm_controller \<Rightarrow> kvm_controller" where
  "kc_disconnectClient c =
     (case kc_session c of
        None \<Rightarrow> c
      | Some s \<Rightarrow>
          let cl = disconnectFromHost (kvm_client s);
              c = c\<lparr>kc_session := Some (s\<lparr>kvm_client := cl\<rparr>)\<rparr>
          in if m_state (kvm_client s) = Disconnected then c else kc_onClientState Disconnected c)"

fun kvm_reason :: "kvm_error \<Rightarrow> kc_error" where
  "kvm_reason (KvmClientFailed r) = KcRedir r"
| "kvm_reason e = KcKvm e"

definition kc_onKvmOut :: "kvm_env \<Rightarrow> kvm_out \<Rightarrow> kvm_controller \<Rightarrow> kvm_controller" where
  "kc_onKvmOut env x c =
     (case x of
        KvmStateChanged s \<Rightarrow> if s = KFrameLoop then kc_setState KcConnected c else c
      | DesktopResized w h \<Rightarrow>
          kc_emit [KcDesktopResized] (kc_onFramebuffer (fb_resize (unat w) (unat h)) (c\<lparr>kc_width := unat w, kc_height := unat h\<rparr>))
      | PixelFormatChanged f \<Rightarrow> kc_emit [KcColorDepthChanged] (c\<lparr>kc_eightBitColor := (f = Rgb332)\<rparr>)
      | TileUpdated x y tile \<Rightarrow> kc_onFramebuffer (applyTile (ke_over env) (unat x) (unat y) tile) c
      | BellSignal \<Rightarrow> c
      | KvmClosed reason \<Rightarrow> kc_disconnectClient (kc_setState KcFailed (kc_setLastError (kvm_reason reason) c)))"

definition kc_install :: "kvm_env \<Rightarrow> kvm_session \<Rightarrow> kvm_session \<Rightarrow> kvm_controller \<Rightarrow> kvm_controller" where
  "kc_install env s t c =
     fold (kc_onKvmOut env) (drop (length (kvm_outs s)) (kvm_outs t)) (c\<lparr>kc_session := Some t\<rparr>)"

definition kc_onSession :: "kvm_env \<Rightarrow> (kvm_session \<Rightarrow> kvm_session) \<Rightarrow> kvm_controller \<Rightarrow> kvm_controller" where
  "kc_onSession env f c = (case kc_session c of None \<Rightarrow> c | Some s \<Rightarrow> kc_install env s (f s) c)"

text \<open>The bounded receive loop, with the handlers run at each step.\<close>

fun kc_drainFor :: "nat \<Rightarrow> kvm_env \<Rightarrow> kvm_controller \<Rightarrow> kvm_controller" where
  "kc_drainFor 0 env c = kc_onSession env (\<lambda>s. if kvm_inbox s \<noteq> [] then s\<lparr>kvm_queued := kvm_queued s + 1\<rparr> else s) c"
| "kc_drainFor (Suc n) env c =
     (case kc_session c of
        None \<Rightarrow> c
      | Some s \<Rightarrow>
          (case kvm_step (ke_qt env) (ke_inflate env) s of
             (go, t) \<Rightarrow> let c = kc_install env s t c in if go then kc_drainFor n env c else c))"

definition kc_onRawBytes :: "kvm_env \<Rightarrow> bytes \<Rightarrow> kvm_controller \<Rightarrow> kvm_controller" where
  "kc_onRawBytes env chunk c =
     kc_drainFor kMaxStepsPerCall env (c\<lparr>kc_session := map_option (\<lambda>s. s\<lparr>kvm_inbox := kvm_inbox s @ chunk\<rparr>) (kc_session c)\<rparr>)"

text \<open>A queued continuation of the loop.\<close>

definition kc_onQueued :: "kvm_env \<Rightarrow> kvm_controller \<Rightarrow> kvm_controller" where
  "kc_onQueued env c =
     (case kc_session c of
        None \<Rightarrow> c
      | Some s \<Rightarrow>
          if kvm_queued s = 0 then c
          else kc_drainFor kMaxStepsPerCall env (c\<lparr>kc_session := Some (s\<lparr>kvm_queued := kvm_queued s - 1\<rparr>)\<rparr>))"

section \<open>The client's signals\<close>

definition kc_onClientOut :: "kvm_env \<Rightarrow> redir_out \<Rightarrow> kvm_controller \<Rightarrow> kvm_controller" where
  "kc_onClientOut env x c =
     (case x of
        StateChanged s \<Rightarrow> kc_onClientState s c
      | AuthenticatedSignal \<Rightarrow> kc_onSession env (kvm_start (ke_compression env)) c
      | RawBytes b \<Rightarrow> kc_onRawBytes env b c
      | FailedSignal r \<Rightarrow>
          kc_setState KcFailed (kc_setLastError (KcRedir r) (kc_onSession env (kvm_onClientFailed r) c))
      | RemoteClosedSignal \<Rightarrow> if kc_lastError c = KcNoError then kc_setState KcDisconnected c else c
      | TrustPromptRequired summary \<Rightarrow>
          kc_setState KcAwaitingTrust (kc_emit [KcPendingCertChanged] (c\<lparr>kc_pendingCert := summary\<rparr>))
      | PeerCertVerifiedByPin fp \<Rightarrow> kc_emit [KcVerifiedByPin fp] c
      | _ \<Rightarrow> c)"

definition kc_clientOp :: "kvm_env \<Rightarrow> (client \<Rightarrow> client) \<Rightarrow> kvm_controller \<Rightarrow> kvm_controller" where
  "kc_clientOp env f c =
     (case kc_session c of
        None \<Rightarrow> c
      | Some s \<Rightarrow>
          let cl = f (kvm_client s)
          in fold (kc_onClientOut env) (drop (length (outs (kvm_client s))) (outs cl))
               (c\<lparr>kc_session := Some (s\<lparr>kvm_client := cl\<rparr>)\<rparr>))"

section \<open>Operations\<close>

text \<open>The client is disconnected at once, after its signals were cut off.\<close>

definition kc_dropSession :: "kvm_controller \<Rightarrow> kvm_controller" where
  "kc_dropSession c =
     (case kc_session c of
        None \<Rightarrow> c
      | Some s \<Rightarrow> c\<lparr>kc_session := None, kc_gone := kc_gone c @ [disconnectFromHost (kvm_client s)]\<rparr>)"

definition kc_teardown :: "kvm_env \<Rightarrow> kvm_controller \<Rightarrow> kvm_controller" where
  "kc_teardown env c =
     (let c = (if kc_isRecording c then kc_stopRecording env c else c);
          c = kc_dropSession c
      in if pc_fingerprintSha256 (kc_pendingCert c) \<noteq> [] then kc_emit [KcPendingCertChanged] (c\<lparr>kc_pendingCert := kc_noCert\<rparr>) else c)"

definition kc_waitsForSsh :: "kvm_controller \<Rightarrow> bool" where
  "kc_waitsForSsh c = (case kc_sshHost c of None \<Rightarrow> False | Some h \<Rightarrow> sh_enabled h \<and> \<not> isConnected h)"

definition kc_newClient :: "kvm_controller \<Rightarrow> client" where
  "kc_newClient c =
     (let cl = initialClient\<lparr>m_protocol := Kvm\<rparr>;
          cl = setCredentials (kc_user c) (kc_password c) cl;
          cl = cl\<lparr>m_tls := kc_tls c, m_trustedFingerprints := kc_trusted c\<rparr>
      in if kc_sshSession c then cl\<lparr>m_tunnelOpener := True\<rparr> else cl)"

definition kc_freshSession :: "kvm_controller \<Rightarrow> kvm_controller" where
  "kc_freshSession c =
     (let c = kc_onFramebuffer fb_clear c;
          s = setPreferredPixelFormat (preferredPixelFormat c) (newKvmSession (kc_newClient c))
      in kc_emit [KcColorDepthChanged] (c\<lparr>kc_session := Some s, kc_eightBitColor := False\<rparr>))"

definition kc_dial :: "kvm_env \<Rightarrow> kvm_controller \<Rightarrow> kvm_controller" where
  "kc_dial env c =
     (let c = kc_setState KcConnecting (kc_setLastError KcNoError (kc_freshSession c));
          port = (if kc_portOverride c \<noteq> 0 then kc_portOverride c else if kc_tls c then 16995 else 16994)
      in kc_clientOp env (connectTo (kc_host c) port) c)"

definition kc_open :: "kvm_env \<Rightarrow> kvm_controller \<Rightarrow> kvm_controller" where
  "kc_open env c =
     (if kc_waitsForSsh c then kc_setState KcConnecting (kc_setLastError KcNoError (c\<lparr>kc_openDeferred := True\<rparr>))
      else
        let c = kc_teardown env (c\<lparr>kc_openDeferred := False\<rparr>)
        in if kc_host c = [] then kc_setState KcFailed (kc_setLastError KcHostEmpty c) else kc_dial env c)"

definition kc_close :: "kvm_env \<Rightarrow> kvm_controller \<Rightarrow> kvm_controller" where
  "kc_close env c = kc_setState KcDisconnected (kc_teardown env c)"

definition kc_trustPendingCert :: "kvm_env \<Rightarrow> bool \<Rightarrow> kvm_controller \<Rightarrow> kvm_controller" where
  "kc_trustPendingCert env persist c =
     (if kc_session c = None \<or> kc_state c \<noteq> KcAwaitingTrust then c
      else
        let fp = pc_fingerprintSha256 (kc_pendingCert c);
            c = kc_clientOp env (trustPendingPeerCert (ke_qt env)) c;
            c = (if fp \<notin> set (kc_trusted c) then kc_emit [KcTrustedChanged] (c\<lparr>kc_trusted := kc_trusted c @ [fp]\<rparr>) else c);
            c = kc_setState KcAuthenticating c
        in if persist \<and> fp \<noteq> [] then kc_emit [KcTrustedAdded fp] c else c)"

definition kc_sendCtrlAltDel :: "kvm_env \<Rightarrow> kvm_controller \<Rightarrow> kvm_controller" where
  "kc_sendCtrlAltDel env c = kc_onSession env (sendCtrlAltDel (ke_qt env)) c"

definition kc_sendKey :: "kvm_env \<Rightarrow> u32 \<Rightarrow> bool \<Rightarrow> kvm_controller \<Rightarrow> kvm_controller" where
  "kc_sendKey env keysym down c = kc_onSession env (sendKey (ke_qt env) keysym down) c"

definition kc_sendKeyTap :: "kvm_env \<Rightarrow> u32 \<Rightarrow> kvm_controller \<Rightarrow> kvm_controller" where
  "kc_sendKeyTap env keysym c = kc_sendKey env keysym False (kc_sendKey env keysym True c)"

definition kc_sendPointer :: "kvm_env \<Rightarrow> int \<Rightarrow> int \<Rightarrow> int \<Rightarrow> kvm_controller \<Rightarrow> kvm_controller" where
  "kc_sendPointer env buttonMask x y c =
     kc_onSession env (sendPointer (ke_qt env) (word_of_int buttonMask)
       (word_of_int (max 0 (min 65535 x))) (word_of_int (max 0 (min 65535 y)))) c"

section \<open>The SSH tunnel\<close>

definition kc_onHostOut :: "kvm_env \<Rightarrow> host_out \<Rightarrow> kvm_controller \<Rightarrow> kvm_controller" where
  "kc_onHostOut env x c =
     (case x of
        TrustedHostKeyAdded fp \<Rightarrow> kc_emit [KcTrustedSshAdded fp] c
      | HostKeyPrompt fp keyType \<Rightarrow>
          kc_emit [KcSshPromptChanged, KcSshPromptRequired fp keyType]
            (c\<lparr>kc_pendingSshKey := fp, kc_pendingSshKeyType := keyType, kc_awaitingSsh := True\<rparr>)
      | HostConnectedChanged \<Rightarrow>
          if kc_openDeferred c \<and> (case kc_sshHost c of None \<Rightarrow> False | Some h \<Rightarrow> isConnected h)
          then kc_open env (c\<lparr>kc_openDeferred := False\<rparr>) else c
      | _ \<Rightarrow> c)"

definition kc_onHost :: "kvm_env \<Rightarrow> (ssh_host \<Rightarrow> ssh_host \<times> ssh_cmd list) \<Rightarrow> kvm_controller \<Rightarrow> kvm_controller" where
  "kc_onHost env f c =
     (case kc_sshHost c of
        None \<Rightarrow> c
      | Some h \<Rightarrow>
          (case f h of (h', cmds) \<Rightarrow>
             fold (kc_onHostOut env) (drop (length (sh_outs h)) (sh_outs h'))
               (c\<lparr>kc_sshHost := Some h', kc_sshCmds := kc_sshCmds c @ cmds\<rparr>)))"

definition kc_setSshConfig :: "kvm_env \<Rightarrow> ssh_config \<Rightarrow> kvm_controller \<Rightarrow> kvm_controller" where
  "kc_setSshConfig env cfg c =
     (let c = (if kc_sshHost c = None then c\<lparr>kc_sshHost := Some newSshHost\<rparr> else c);
          c = (if kc_awaitingSsh c \<and> \<not> cfg_enabled cfg
               then kc_emit [KcSshPromptChanged]
                 (c\<lparr>kc_pendingSshKey := [], kc_pendingSshKeyType := [], kc_awaitingSsh := False\<rparr>)
               else c);
          c = kc_onHost env (setConfig cfg) c
      in c\<lparr>kc_sshSession := (case kc_sshHost c of None \<Rightarrow> False | Some h \<Rightarrow> sh_session h \<noteq> None)\<rparr>)"

definition kc_trustPendingSshHostKey :: "kvm_env \<Rightarrow> bool \<Rightarrow> kvm_controller \<Rightarrow> kvm_controller" where
  "kc_trustPendingSshHostKey env persist c =
     (if \<not> kc_awaitingSsh c \<or> kc_sshHost c = None then c
      else
        kc_onHost env (trustPendingHostKey persist)
          (kc_emit [KcSshPromptChanged] (c\<lparr>kc_pendingSshKey := [], kc_pendingSshKeyType := [], kc_awaitingSsh := False\<rparr>)))"

definition kc_onSshSignal :: "kvm_env \<Rightarrow> ssh_out \<Rightarrow> kvm_controller \<Rightarrow> kvm_controller" where
  "kc_onSshSignal env x c = kc_onHost env (\<lambda>h. (onWorkerSignal x h, [])) c"

section \<open>The session's log tells its size\<close>

text \<open>
  A session that changes its idea of the desktop's size says so. So the size is what a replay of its
  signals gives; \<open>grown os s\<close> says that of a session whose log extends \<open>os\<close>.
\<close>

fun resized :: "kvm_out \<Rightarrow> u16 \<times> u16 \<Rightarrow> u16 \<times> u16" where
  "resized (DesktopResized w h) d = (w, h)"
| "resized x d = d"

definition grown :: "kvm_out list \<Rightarrow> kvm_session \<Rightarrow> bool" where
  "grown os s \<longleftrightarrow> (\<exists>xs. kvm_outs s = os @ xs) \<and> (kvm_width s, kvm_height s) = fold resized (kvm_outs s) (0, 0)"

lemma grown_update [simp]:
  "grown os (s\<lparr>kvm_client := a\<rparr>) = grown os s" "grown os (s\<lparr>kvm_inbox := b\<rparr>) = grown os s"
  "grown os (s\<lparr>kvm_state := st\<rparr>) = grown os s" "grown os (s\<lparr>kvm_lastError := e\<rparr>) = grown os s"
  "grown os (s\<lparr>kvm_format := f\<rparr>) = grown os s" "grown os (s\<lparr>kvm_preferredFormat := pf\<rparr>) = grown os s"
  "grown os (s\<lparr>kvm_pendingRects := n\<rparr>) = grown os s" "grown os (s\<lparr>kvm_inflate := i\<rparr>) = grown os s"
  "grown os (s\<lparr>kvm_compressionEnabled := k\<rparr>) = grown os s" "grown os (s\<lparr>kvm_queued := q\<rparr>) = grown os s"
  "grown os (s\<lparr>kvm_undefined := u\<rparr>) = grown os s"
  by (simp_all add: grown_def)

lemma grown_emit: "grown os s \<Longrightarrow> (\<And>d. resized x d = d) \<Longrightarrow> grown os (kvm_emit x s)"
  by (auto simp: grown_def)

lemma grown_resize [intro]: "grown os s \<Longrightarrow> grown os (kvm_emit (DesktopResized w h) (s\<lparr>kvm_width := w, kvm_height := h\<rparr>))"
  by (auto simp: grown_def)

lemma grown_setState: "grown os s \<Longrightarrow> grown os (kvm_setState st s)"
  by (simp add: kvm_setState_def grown_emit)

lemma grown_fail: "grown os s \<Longrightarrow> grown os (kvm_fail e s)"
  by (simp add: kvm_fail_def grown_setState grown_emit)

lemma grown_write: "grown os s \<Longrightarrow> grown os (kvm_writeFrame env b s)"
  by (auto simp: kvm_writeFrame_def Let_def grown_fail split: prod.split)

lemma grown_pop: "grown os (kvm_pop n s) = grown os s"
  by (simp add: kvm_pop_def)

lemmas grown_prims = grown_setState grown_fail grown_write grown_pop grown_resize

lemma negotiate_grown:
  assumes "grown os s"
  shows "grown os (snd (negotiatePixelFormat env w h s))"
proof -
  have "grown os (kvm_writeFrame env b (s\<lparr>kvm_format := f\<rparr>))" for b f using assms by (intro grown_write) simp
  then show ?thesis
    using assms by (auto simp: negotiatePixelFormat_def Let_def grown_fail grown_write intro!: grown_emit)
qed

lemma handshake_grown:
  assumes "grown os s"
  shows "grown os (snd (stepHandshake env s))"
proof (cases "kvm_state s")
  case KServerInit
  show ?thesis
  proof (cases "tryParseServerInit (kvm_inbox s)")
    case (Some r)
    obtain info n where r: "r = (info, n)" by (cases r)
    define u where "u = kvm_emit (DesktopResized (sv_width info) (sv_height info))
      ((kvm_pop n s)\<lparr>kvm_width := sv_width info, kvm_height := sv_height info\<rparr>)"
    have u: "grown os u" unfolding u_def using assms by (intro grown_resize) (simp add: grown_pop)
    obtain ok t where t: "negotiatePixelFormat env (sv_width info) (sv_height info) u = (ok, t)" by fastforce
    then have "grown os t" using negotiate_grown [OF u, of env "sv_width info" "sv_height info"] by simp
    then show ?thesis
      using KServerInit Some r t
      by (auto simp: stepHandshake_def stepServerInit_def Let_def intro!: grown_setState grown_write simp flip: u_def)
  qed (use assms KServerInit in \<open>simp add: stepHandshake_def stepServerInit_def\<close>)
qed (use assms in \<open>auto simp: stepHandshake_def stepVersion_def stepSecurity_def stepAuthResult_def Let_def grown_pop
      intro!: grown_setState grown_write grown_fail split: prod.split\<close>)

lemma rectDone_grown:
  assumes "grown os s"
  shows "grown os (snd (rectDone env rect dr n s))"
proof (cases "dr_isDesktopSize dr")
  case True
  define u where "u = kvm_emit (DesktopResized (rect_w rect) (rect_h rect)) (s\<lparr>kvm_width := rect_w rect, kvm_height := rect_h rect\<rparr>)"
  have u: "grown os u" unfolding u_def using assms by (rule grown_resize)
  obtain ok t where t: "negotiatePixelFormat env (rect_w rect) (rect_h rect) u = (ok, t)" by fastforce
  then have "grown os t" using negotiate_grown [OF u, of env "rect_w rect" "rect_h rect"] by simp
  then show ?thesis
    using True t by (auto simp: rectDone_def Let_def grown_pop intro!: grown_write simp flip: u_def)
next
  case False
  have "grown os (kvm_emit (TileUpdated x y img) s)" for x y img using assms by (simp add: grown_emit)
  then show ?thesis
    using False assms by (auto simp: rectDone_def requestIncremental_def Let_def grown_pop intro!: grown_write split: option.split)
qed

lemma step_grown:
  assumes "grown os s"
  shows "grown os (snd (kvm_step env z s))"
proof -
  have "grown os (snd (stepMessage s))"
    using assms by (auto simp: stepMessage_def Let_def grown_pop intro!: grown_fail grown_emit split: list.split option.split)
  moreover have "grown os (snd (stepRect env z s))"
    using assms by (auto simp: stepRect_def Let_def intro!: grown_fail rectDone_grown split: option.split prod.split DecodeStatus.split)
  ultimately show ?thesis
    using assms handshake_grown by (simp add: kvm_step_def stepFrameLoop_def)
qed

lemma start_grown: "grown os s \<Longrightarrow> grown os (kvm_start var s)"
  by (simp add: kvm_start_def grown_fail grown_setState)

lemma send_grown: "grown os s \<Longrightarrow> grown os (sendKey env k d s)" "grown os s \<Longrightarrow> grown os (sendPointer env m x y s)"
  by (simp_all add: sendKey_def sendPointer_def grown_write)

lemma cad_grown: "grown os s \<Longrightarrow> grown os (sendCtrlAltDel env s)"
  by (simp add: sendCtrlAltDel_def Let_def send_grown)

section \<open>The picture has the size of the desktop\<close>

definition image_ok :: "image \<Rightarrow> bool" where
  "image_ok i \<longleftrightarrow> length (img_pixels i) = img_w i * img_h i \<and> (img_w i = 0 \<longleftrightarrow> img_h i = 0)"

definition matches :: "u16 \<times> u16 \<Rightarrow> image \<Rightarrow> bool" where
  "matches d i \<longleftrightarrow> image_ok i \<and> (fst d \<noteq> 0 \<longrightarrow> snd d \<noteq> 0 \<longrightarrow> img_w i = unat (fst d) \<and> img_h i = unat (snd d))"

abbreviation picture :: "kvm_controller \<Rightarrow> image" where
  "picture c \<equiv> fb_image (kc_framebuffer c)"

definition kc_ok :: "kvm_controller \<Rightarrow> bool" where
  "kc_ok c \<longleftrightarrow> image_ok (picture c)
     \<and> (\<forall>s. kc_session c = Some s \<longrightarrow> grown [] s \<and> matches (kvm_width s, kvm_height s) (picture c))"

lemma fb_emit_image [simp]: "fb_image (fb_emit xs f) = fb_image f"
  by (simp add: fb_emit_def)

lemma draw_matches: "matches d i \<Longrightarrow> matches d (drawImage over x y tile i)"
  by (simp add: matches_def image_ok_def drawImage_def)

lemma resize_matches: "image_ok (fb_image f) \<Longrightarrow> matches (w, h) (fb_image (fb_resize (unat w) (unat h) f))"
  by (auto simp: matches_def image_ok_def fb_resize_def blackImage_def nullImage_def unat_eq_0)

lemma tile_matches: "matches d (fb_image f) \<Longrightarrow> matches d (fb_image (applyTile over x y tile f))"
  by (simp add: applyTile_def draw_matches)

lemma clear_ok: "image_ok (fb_image f) \<Longrightarrow> image_ok (fb_image (fb_clear f))"
  by (simp add: fb_clear_def image_ok_def)

lemma kc_fields [simp]:
  "picture (kc_emit xs c) = picture c" "kc_session (kc_emit xs c) = kc_session c"
  "picture (kc_setState st c) = picture c" "kc_session (kc_setState st c) = kc_session c"
  "picture (kc_setLastError e c) = picture c" "kc_session (kc_setLastError e c) = kc_session c"
  "picture (kc_onClientState cs c) = picture c" "kc_session (kc_onClientState cs c) = kc_session c"
  by (simp_all add: kc_emit_def kc_setState_def kc_setLastError_def kc_onClientState_def Let_def split: option.split)

lemma onFramebuffer_fields [simp]:
  "picture (kc_onFramebuffer op c) = fb_image (op (kc_framebuffer c))" "kc_session (kc_onFramebuffer op c) = kc_session c"
  by (simp_all add: kc_onFramebuffer_def Let_def)

lemma disconnect_fields:
  "picture (kc_disconnectClient c) = picture c"
  "kc_session c = Some s \<Longrightarrow> \<exists>cl. kc_session (kc_disconnectClient c) = Some (s\<lparr>kvm_client := cl\<rparr>)"
  by (auto simp: kc_disconnectClient_def Let_def split: option.split)

lemma onKvmOut_picture:
  assumes "matches d (picture c)"
  shows "matches (resized x d) (picture (kc_onKvmOut env x c))"
proof (cases x)
  case (DesktopResized w h)
  then show ?thesis
    using assms resize_matches [of "kc_framebuffer c" w h] by (simp add: kc_onKvmOut_def matches_def)
qed (use assms in \<open>simp_all add: kc_onKvmOut_def tile_matches disconnect_fields(1)\<close>)

lemma onKvmOut_session:
  "kc_session c = Some s \<Longrightarrow> \<exists>cl. kc_session (kc_onKvmOut env x c) = Some (s\<lparr>kvm_client := cl\<rparr>)"
proof (cases x)
  case (KvmClosed e)
  assume "kc_session c = Some s"
  then show ?thesis
    using disconnect_fields(2) [of "kc_setState KcFailed (kc_setLastError (kvm_reason e) c)" s] by (simp add: KvmClosed kc_onKvmOut_def)
qed (cases s; simp add: kc_onKvmOut_def; metis kvm_session.update_convs(1))+

lemma onKvmOuts:
  "kc_session c = Some s \<Longrightarrow> matches d (picture c) \<Longrightarrow>
     (\<exists>cl. kc_session (fold (kc_onKvmOut env) xs c) = Some (s\<lparr>kvm_client := cl\<rparr>))
     \<and> matches (fold resized xs d) (picture (fold (kc_onKvmOut env) xs c))"
proof (induction xs arbitrary: c d s)
  case Nil
  then show ?case by (cases s) auto
next
  case (Cons x xs)
  obtain cl where "kc_session (kc_onKvmOut env x c) = Some (s\<lparr>kvm_client := cl\<rparr>)"
    using onKvmOut_session [OF Cons.prems(1)] by blast
  from Cons.IH [OF this onKvmOut_picture [OF Cons.prems(2)]] show ?case by simp
qed

lemma install_ok:
  assumes "kc_ok c" and "kc_session c = Some s" and "grown (kvm_outs s) t"
  shows "kc_ok (kc_install env s t c) \<and> kc_session (kc_install env s t c) \<noteq> None"
proof -
  let ?d = "(kvm_width s, kvm_height s)"
  obtain xs where xs: "kvm_outs t = kvm_outs s @ xs" "(kvm_width t, kvm_height t) = fold resized (kvm_outs t) (0, 0)"
    using assms(3) by (auto simp: grown_def)
  have s: "?d = fold resized (kvm_outs s) (0, 0)" "matches ?d (picture c)"
    using assms(1,2) by (auto simp: kc_ok_def grown_def)
  have t: "(kvm_width t, kvm_height t) = fold resized xs ?d" using xs s(1) by simp
  have "matches ?d (picture (c\<lparr>kc_session := Some t\<rparr>))" using s(2) by simp
  from onKvmOuts [OF _ this, of t env xs] obtain cl where
    "kc_session (kc_install env s t c) = Some (t\<lparr>kvm_client := cl\<rparr>)" "matches (kvm_width t, kvm_height t) (picture (kc_install env s t c))"
    using xs(1) t by (auto simp: kc_install_def)
  moreover from this(2) have "image_ok (picture (kc_install env s t c))" by (simp add: matches_def)
  moreover have "grown [] t" using assms(3) by (simp add: grown_def)
  ultimately show ?thesis by (simp add: kc_ok_def)
qed

lemma grown_self: "grown [] s \<Longrightarrow> grown (kvm_outs s) s"
  by (simp add: grown_def)

lemma onSession_ok:
  assumes "kc_ok c" and "\<And>os s. grown os s \<Longrightarrow> grown os (f s)"
  shows "kc_ok (kc_onSession env f c)"
proof (cases "kc_session c")
  case (Some s)
  then have "grown (kvm_outs s) (f s)" using assms by (simp add: kc_ok_def grown_self)
  then show ?thesis using install_ok [OF assms(1) Some] Some by (simp add: kc_onSession_def)
qed (use assms(1) in \<open>simp add: kc_onSession_def\<close>)

lemma drainFor_ok: "kc_ok c \<Longrightarrow> kc_ok (kc_drainFor n env c)"
proof (induction n arbitrary: c)
  case 0
  then show ?case by (auto intro!: onSession_ok)
next
  case (Suc n)
  show ?case
  proof (cases "kc_session c")
    case (Some s)
    obtain go t where t: "kvm_step (ke_qt env) (ke_inflate env) s = (go, t)" by fastforce
    have "grown (kvm_outs s) t"
      using step_grown [OF grown_self, of s "ke_qt env" "ke_inflate env"] Suc.prems Some t by (simp add: kc_ok_def)
    then have "kc_ok (kc_install env s t c)" using install_ok [OF Suc.prems Some] by blast
    then show ?thesis using Some t Suc.IH by (simp add: Let_def)
  qed (use Suc.prems in simp)
qed

lemma onRawBytes_ok: "kc_ok c \<Longrightarrow> kc_ok (kc_onRawBytes env b c)"
  unfolding kc_onRawBytes_def
  by (rule drainFor_ok) (auto simp: kc_ok_def)

lemma onQueued_ok: "kc_ok c \<Longrightarrow> kc_ok (kc_onQueued env c)"
  unfolding kc_onQueued_def by (auto split: option.split intro!: drainFor_ok) (simp add: kc_ok_def)

lemma kc_ok_simps [simp]:
  "kc_ok (kc_emit xs c) = kc_ok c" "kc_ok (kc_setState st c) = kc_ok c" "kc_ok (kc_setLastError e c) = kc_ok c"
  "kc_ok (kc_onClientState cs c) = kc_ok c"
  by (simp_all add: kc_ok_def)

lemma kc_ok_image: "kc_ok c \<Longrightarrow> image_ok (picture c)"
  by (simp add: kc_ok_def)

lemma onClientOut_ok: "kc_ok c \<Longrightarrow> kc_ok (kc_onClientOut env x c)"
proof (cases x)
  case AuthenticatedSignal
  assume "kc_ok c"
  then show ?thesis by (simp add: AuthenticatedSignal kc_onClientOut_def onSession_ok start_grown)
next
  case (FailedSignal r)
  assume "kc_ok c"
  then show ?thesis by (simp add: FailedSignal kc_onClientOut_def onSession_ok kvm_onClientFailed_def grown_fail)
next
  case (RawBytes b)
  assume "kc_ok c"
  then show ?thesis by (simp add: RawBytes kc_onClientOut_def onRawBytes_ok)
qed (simp_all add: kc_onClientOut_def, simp_all add: kc_ok_def)

lemma clientOp_ok:
  assumes "kc_ok c"
  shows "kc_ok (kc_clientOp env f c)"
proof (cases "kc_session c")
  case (Some s)
  have "kc_ok (c\<lparr>kc_session := Some (s\<lparr>kvm_client := f (kvm_client s)\<rparr>)\<rparr>)" using assms Some by (simp add: kc_ok_def)
  moreover have "kc_ok (fold (kc_onClientOut env) xs d)" if "kc_ok d" for xs d
    using that by (induction xs arbitrary: d) (simp_all add: onClientOut_ok)
  ultimately show ?thesis using Some by (simp add: kc_clientOp_def Let_def)
qed (use assms in \<open>simp add: kc_clientOp_def\<close>)

lemma teardown_ok: "image_ok (picture c) \<Longrightarrow> kc_ok (kc_teardown env c) \<and> picture (kc_teardown env c) = picture c"
  by (auto simp: kc_teardown_def kc_dropSession_def kc_stopRecording_def Let_def kc_ok_def split: option.split)

lemma dial_ok:
  assumes "image_ok (picture c)"
  shows "kc_ok (kc_dial env c)"
proof -
  have "kc_ok (kc_freshSession c)"
    using clear_ok [OF assms]
    by (simp add: kc_freshSession_def Let_def) (simp add: kc_ok_def matches_def grown_def setPreferredPixelFormat_def newKvmSession_def)
  then show ?thesis by (simp add: kc_dial_def Let_def clientOp_ok)
qed

lemma open_ok:
  assumes "kc_ok c"
  shows "kc_ok (kc_open env c)"
proof -
  have p: "image_ok (picture c)" using assms by (simp add: kc_ok_def)
  let ?c = "kc_teardown env (c\<lparr>kc_openDeferred := False\<rparr>)"
  have "kc_ok ?c" "picture ?c = picture c" using teardown_ok [of "c\<lparr>kc_openDeferred := False\<rparr>" env] p by simp_all
  moreover have "kc_ok (c\<lparr>kc_openDeferred := True\<rparr>)" using assms by (simp add: kc_ok_def)
  ultimately show ?thesis using p by (simp add: kc_open_def Let_def dial_ok)
qed

lemma onHost_ok:
  assumes "kc_ok c"
  shows "kc_ok (kc_onHost env f c)"
proof -
  have "kc_ok (kc_onHostOut env x c)" if "kc_ok c" for x c
  proof (cases x)
    case HostConnectedChanged
    have "kc_ok (c\<lparr>kc_openDeferred := False\<rparr>)" using that by (simp add: kc_ok_def)
    then show ?thesis using that HostConnectedChanged by (simp add: kc_onHostOut_def open_ok)
  qed (use that in \<open>simp_all add: kc_onHostOut_def, simp_all add: kc_ok_def\<close>)
  then have "kc_ok (fold (kc_onHostOut env) xs d)" if "kc_ok d" for xs d
    using that by (induction xs arbitrary: d) simp_all
  moreover have "kc_ok (c\<lparr>kc_sshHost := h, kc_sshCmds := cmds\<rparr>)" for h cmds using assms by (simp add: kc_ok_def)
  ultimately show ?thesis using assms by (auto simp: kc_onHost_def split: option.split prod.split)
qed

lemma setSshConfig_ok:
  assumes "kc_ok c"
  shows "kc_ok (kc_setSshConfig env cfg c)"
proof -
  let ?c1 = "if kc_sshHost c = None then c\<lparr>kc_sshHost := Some newSshHost\<rparr> else c"
  let ?c2 = "if kc_awaitingSsh ?c1 \<and> \<not> cfg_enabled cfg
     then kc_emit [KcSshPromptChanged] (?c1\<lparr>kc_pendingSshKey := [], kc_pendingSshKeyType := [], kc_awaitingSsh := False\<rparr>) else ?c1"
  have "kc_ok ?c2" using assms by simp (simp add: kc_ok_def)
  then have "kc_ok (kc_onHost env (setConfig cfg) ?c2)" by (rule onHost_ok)
  then show ?thesis unfolding kc_setSshConfig_def Let_def by (simp add: kc_ok_def)
qed

lemma trustSsh_ok: "kc_ok c \<Longrightarrow> kc_ok (kc_trustPendingSshHostKey env persist c)"
  unfolding kc_trustPendingSshHostKey_def by (auto intro!: onHost_ok) (simp add: kc_ok_def)

lemma trustCert_ok:
  assumes "kc_ok c"
  shows "kc_ok (kc_trustPendingCert env persist c)"
proof -
  let ?d = "kc_clientOp env (trustPendingPeerCert (ke_qt env)) c"
  have "kc_ok ?d" using assms by (rule clientOp_ok)
  moreover have "kc_ok (?d\<lparr>kc_trusted := v\<rparr>)" for v using calculation by (simp add: kc_ok_def)
  ultimately show ?thesis using assms by (auto simp: kc_trustPendingCert_def Let_def)
qed

lemma close_ok: "kc_ok c \<Longrightarrow> kc_ok (kc_close env c)"
  unfolding kc_close_def kc_ok_simps using teardown_ok [of c env] by (blast dest: kc_ok_image)

lemma setters_ok:
  "kc_ok (kc_setHost v c) = kc_ok c" "kc_ok (kc_setUser v c) = kc_ok c" "kc_ok (kc_setPassword v c) = kc_ok c"
  "kc_ok (kc_setTls b c) = kc_ok c" "kc_ok (kc_setTrustedFingerprints vs c) = kc_ok c" "kc_ok (kc_setColorDepthMode n c) = kc_ok c"
  by (simp_all add: kc_setHost_def kc_setUser_def kc_setPassword_def kc_setTls_def kc_setTrustedFingerprints_def kc_setColorDepthMode_def,
      simp_all add: kc_ok_def)

lemma kc_beginRecording_fields:
  "picture (snd (kc_beginRecording env path fps c)) = picture c"
  "kc_session (snd (kc_beginRecording env path fps c)) = kc_session c"
  by (simp_all add: kc_beginRecording_def Let_def split: prod.split)

lemma recording_ok:
  assumes "kc_ok c"
  shows "kc_ok (kc_stopRecording env c)" "kc_ok (snd (kc_startRecording env path fps c))" "kc_ok (kc_onRecordTimer env c)"
proof -
  show stop: "kc_ok (kc_stopRecording env c)"
    using assms by (simp add: kc_stopRecording_def) (simp add: kc_ok_def)
  show "kc_ok (snd (kc_startRecording env path fps c))"
    unfolding kc_startRecording_def using stop assms
    by (cases "kc_isRecording c") (simp_all add: kc_ok_def kc_beginRecording_fields)
  show "kc_ok (kc_onRecordTimer env c)"
    using assms by (simp add: kc_onRecordTimer_def kc_ok_def)
qed

lemma input_ok:
  assumes "kc_ok c"
  shows "kc_ok (kc_sendCtrlAltDel env c)" "kc_ok (kc_sendKey env k d c)" "kc_ok (kc_sendPointer env m x y c)"
    "kc_ok (kc_sendKeyTap env k c)"
  using assms
  by (simp_all add: kc_sendCtrlAltDel_def kc_sendKey_def kc_sendPointer_def kc_sendKeyTap_def onSession_ok cad_grown send_grown)

inductive kc_step :: "kvm_controller \<Rightarrow> kvm_controller \<Rightarrow> bool" where
  kstep_host: "kc_step c (kc_setHost v c)"
| kstep_user: "kc_step c (kc_setUser v c)"
| kstep_password: "kc_step c (kc_setPassword v c)"
| kstep_tls: "kc_step c (kc_setTls b c)"
| kstep_pins: "kc_step c (kc_setTrustedFingerprints vs c)"
| kstep_depth: "kc_step c (kc_setColorDepthMode n c)"
| kstep_open: "kc_step c (kc_open env c)"
| kstep_close: "kc_step c (kc_close env c)"
| kstep_trust: "kc_step c (kc_trustPendingCert env persist c)"
| kstep_cad: "kc_step c (kc_sendCtrlAltDel env c)"
| kstep_key: "kc_step c (kc_sendKey env k d c)"
| kstep_tap: "kc_step c (kc_sendKeyTap env k c)"
| kstep_pointer: "kc_step c (kc_sendPointer env m x y c)"
| kstep_record: "kc_step c (snd (kc_startRecording env path fps c))"
| kstep_recorded: "kc_step c (kc_stopRecording env c)"
| kstep_timer: "kc_step c (kc_onRecordTimer env c)"
| kstep_queued: "kc_step c (kc_onQueued env c)"
| kstep_ssh: "kc_step c (kc_setSshConfig env cfg c)"
| kstep_sshTrust: "kc_step c (kc_trustPendingSshHostKey env persist c)"
| kstep_sshSignal: "kc_step c (kc_onSshSignal env x c)"
| kstep_connected: "kc_step c (kc_clientOp env (handleConnected (ke_qt env)) c)"
| kstep_encrypted: "kc_step c (kc_clientOp env (handleEncrypted (ke_qt env) peer) c)"
| kstep_tunnel: "kc_step c (kc_clientOp env (tunnelOpened (ke_qt env) host port fd error ok) c)"
| kstep_read: "kc_step c (kc_clientOp env (handleReadyRead (ke_qt env) b) c)"
| kstep_error: "kc_step c (kc_clientOp env (handleSocketError (ke_qt env) err) c)"

inductive kc_reachable :: "kvm_controller \<Rightarrow> bool" where
  kc_init: "kc_reachable newKvmController"
| kc_next: "kc_reachable c \<Longrightarrow> kc_step c d \<Longrightarrow> kc_reachable d"

lemmas kc_ops_ok = setters_ok open_ok close_ok trustCert_ok input_ok recording_ok onQueued_ok setSshConfig_ok trustSsh_ok
  onHost_ok clientOp_ok

lemma kc_step_ok: "kc_step c d \<Longrightarrow> kc_ok c \<Longrightarrow> kc_ok d"
  by (induction rule: kc_step.induct) (simp_all add: kc_ops_ok kc_onSshSignal_def)

lemma kc_reachable_ok: "kc_reachable c \<Longrightarrow> kc_ok c"
proof (induction rule: kc_reachable.induct)
  case kc_init
  show ?case by (simp add: kc_ok_def newKvmController_def newFramebuffer_def nullImage_def image_ok_def)
qed (rule kc_step_ok)

text \<open>C23: The remote picture always has the size of the remote desktop. In every reachable state of the
  viewer, however often the desktop was resized, whatever tiles arrived and whatever the user did, the
  picture has exactly one pixel per position, and once the session knows a desktop its width and height
  are the picture's.\<close>

theorem kvm_picture_size:
  assumes "kc_reachable c"
  shows "length (img_pixels (fb_image (kc_framebuffer c))) = img_w (fb_image (kc_framebuffer c)) * img_h (fb_image (kc_framebuffer c))
     \<and> (\<forall>s. kc_session c = Some s \<longrightarrow> kvm_width s \<noteq> 0 \<longrightarrow> kvm_height s \<noteq> 0 \<longrightarrow>
          img_w (fb_image (kc_framebuffer c)) = unat (kvm_width s) \<and> img_h (fb_image (kc_framebuffer c)) = unat (kvm_height s))"
  using kc_reachable_ok [OF assms] by (simp add: kc_ok_def matches_def image_ok_def)

definition exKvmEnv :: kvm_env where
  "exKvmEnv = \<lparr>ke_qt = demo_env, ke_inflate = demo_inflate, ke_compression = None, ke_over = (\<lambda>s d. s),
     ke_mov = \<lparr>me_open = (\<lambda>p. True), me_write = (\<lambda>f d. length d), me_jpeg = (\<lambda>w h i q. None)\<rparr>\<rparr>"

theorem kvm_picture_size_witness:
  "length (img_pixels (fb_image (kc_framebuffer (kc_open exKvmEnv (kc_setHost [104] newKvmController)))))
     = img_w (fb_image (kc_framebuffer (kc_open exKvmEnv (kc_setHost [104] newKvmController))))
       * img_h (fb_image (kc_framebuffer (kc_open exKvmEnv (kc_setHost [104] newKvmController))))"
  using kvm_picture_size [OF kc_next [OF kc_next [OF kc_init kstep_host] kstep_open]] by blast

section \<open>A failure is shown as an ordinary end\<close>

lemma closed_shown:
  assumes "kc_session c = Some s" and "m_state (kvm_client s) \<noteq> Disconnected"
  shows "kc_state (kc_onKvmOut env (KvmClosed e) c) = KcDisconnected \<and> kc_lastError (kc_onKvmOut env (KvmClosed e) c) = kvm_reason e"
  using assms
  by (simp add: kc_onKvmOut_def kc_disconnectClient_def kc_onClientState_def kc_setState_def kc_setLastError_def kc_emit_def Let_def)

text \<open>A KVM session that fails is not shown as failed. When the session gives up, here on a message it
  does not know, the controller sets the state \<open>Failed\<close> and then drops the transport, whose change of state
  sets \<open>Disconnected\<close>: the user sees a normal disconnect, with the reason stored but not shown.\<close>

theorem kvm_failure_hidden:
  assumes "kc_session c = Some s" and "kvm_state s = KFrameLoop" and "kvm_pendingRects s = 0" and "kvm_inbox s = []"
    and "m_state (kvm_client s) = Authenticated" and "tag \<notin> {0, 2, 3}"
  shows "kc_state (kc_onRawBytes env (tag # rest) c) = KcDisconnected
     \<and> kc_lastError (kc_onRawBytes env (tag # rest) c) = KcKvm (UnknownServerMessage tag)"
proof -
  let ?s = "s\<lparr>kvm_inbox := tag # rest\<rparr>" and ?c = "c\<lparr>kc_session := Some (s\<lparr>kvm_inbox := tag # rest\<rparr>)\<rparr>"
  let ?t = "kvm_fail (UnknownServerMessage tag) ?s"
  have step: "kvm_step (ke_qt env) (ke_inflate env) ?s = (False, ?t)"
    using assms(2,3,6) by (simp add: kvm_step_def stepFrameLoop_def stepMessage_def)
  have outs: "drop (length (kvm_outs ?s)) (kvm_outs ?t) = [KvmStateChanged KFailed, KvmClosed (UnknownServerMessage tag)]"
    using assms(2) by (simp add: kvm_fail_def kvm_setState_def)
  have "kc_onRawBytes env (tag # rest) c = kc_install env ?s ?t ?c"
    using assms(1,4) step by (simp add: kc_onRawBytes_def kMaxStepsPerCall_def eval_nat_numeral Let_def)
  also have "\<dots> = kc_onKvmOut env (KvmClosed (UnknownServerMessage tag)) (?c\<lparr>kc_session := Some ?t\<rparr>)"
    unfolding kc_install_def outs by (simp add: kc_onKvmOut_def)
  finally show ?thesis
    using closed_shown [of "?c\<lparr>kc_session := Some ?t\<rparr>" ?t env "UnknownServerMessage tag"] assms(5) by simp
qed

theorem kvm_failure_hidden_witness:
  "kc_state (kc_onRawBytes exKvmEnv [9] (newKvmController\<lparr>kc_state := KcConnected,
     kc_session := Some ((newKvmSession (demo_client\<lparr>m_state := Authenticated\<rparr>))\<lparr>kvm_state := KFrameLoop\<rparr>)\<rparr>)) = KcDisconnected"
  using kvm_failure_hidden [of "newKvmController\<lparr>kc_state := KcConnected,
     kc_session := Some ((newKvmSession (demo_client\<lparr>m_state := Authenticated\<rparr>))\<lparr>kvm_state := KFrameLoop\<rparr>)\<rparr>" _ 9 exKvmEnv "[]"]
  by (simp add: newKvmSession_def)

end
