(* ===== verification/Ider_Codec.thy ===== *)
theory Ider_Codec
  imports Redir_Client
begin

text \<open>
  The IDE-R wire format (\<open>ider/src/ider_codec.cpp\<close>, \<open>ider/include/ider/ider_codec.h\<close>) and the
  SCSI constants, canned tables and big-endian helpers (\<open>ider/src/scsi.cpp\<close>,
  \<open>ider/include/ider/scsi.h\<close>). The inbound parsers are interpretations of \<open>stream_parser\<close>.
\<close>

section \<open>Commands and constants\<close>

datatype Command = CmdOpenSession | CmdOpenSessionReply | CmdClose | CmdKeepAlivePing | CmdKeepAlivePong
  | CmdResetOccurred | CmdResetResponse | CmdEnableFeatures | CmdStatusData | CmdErrorOccurred | CmdHeartbeat
  | CmdCommandWritten | CmdCommandEndResponse | CmdGetDataFromHost | CmdDataFromHost | CmdSendDataToHost

primrec Command_byte :: "Command \<Rightarrow> byte" where
  "Command_byte CmdOpenSession = 0x40"
| "Command_byte CmdOpenSessionReply = 0x41"
| "Command_byte CmdClose = 0x43"
| "Command_byte CmdKeepAlivePing = 0x44"
| "Command_byte CmdKeepAlivePong = 0x45"
| "Command_byte CmdResetOccurred = 0x46"
| "Command_byte CmdResetResponse = 0x47"
| "Command_byte CmdEnableFeatures = 0x48"
| "Command_byte CmdStatusData = 0x49"
| "Command_byte CmdErrorOccurred = 0x4A"
| "Command_byte CmdHeartbeat = 0x4B"
| "Command_byte CmdCommandWritten = 0x50"
| "Command_byte CmdCommandEndResponse = 0x51"
| "Command_byte CmdGetDataFromHost = 0x52"
| "Command_byte CmdDataFromHost = 0x53"
| "Command_byte CmdSendDataToHost = 0x54"

definition kDeviceFloppy :: byte where [simp]: "kDeviceFloppy = 0xA0"

definition kDeviceCdRom :: byte where [simp]: "kDeviceCdRom = 0xB0"

definition kStatusRegsAvail :: byte where [simp]: "kStatusRegsAvail = 1"

definition kStatusRegsStatus :: byte where [simp]: "kStatusRegsStatus = 2"

definition kStatusRegsToggle :: byte where [simp]: "kStatusRegsToggle = 3"

definition kStartOnReboot :: byte where [simp]: "kStartOnReboot = 0x08"

definition kStartGraceful :: byte where [simp]: "kStartGraceful = 0x10"

definition kStartImmediate :: byte where [simp]: "kStartImmediate = 0x18"

section \<open>Integers\<close>

definition ider_pack16Le :: "u16 \<Rightarrow> bytes" where
  "ider_pack16Le v = [ucast (v AND 0xFF), ucast (drop_bit 8 v AND 0xFF)]"

definition ider_pack32Le :: "u32 \<Rightarrow> bytes" where
  "ider_pack32Le v = [ucast (v AND 0xFF), ucast (drop_bit 8 v AND 0xFF),
                      ucast (drop_bit 16 v AND 0xFF), ucast (drop_bit 24 v AND 0xFF)]"

definition ider_read16Le :: "bytes \<Rightarrow> nat \<Rightarrow> u16" where
  "ider_read16Le v off = ucast (v ! off) OR push_bit 8 (ucast (v ! (off + 1)))"

definition ider_read32Le :: "bytes \<Rightarrow> nat \<Rightarrow> u32" where
  "ider_read32Le v off = ucast (v ! off) OR push_bit 8 (ucast (v ! (off + 1)))
     OR push_bit 16 (ucast (v ! (off + 2))) OR push_bit 24 (ucast (v ! (off + 3)))"

definition readBe16 :: "bytes \<Rightarrow> nat \<Rightarrow> u16" where
  "readBe16 b off = push_bit 8 (ucast (b ! off)) OR ucast (b ! (off + 1))"

definition readBe32 :: "bytes \<Rightarrow> nat \<Rightarrow> u32" where
  "readBe32 b off = push_bit 24 (ucast (b ! off)) OR push_bit 16 (ucast (b ! (off + 1)))
     OR push_bit 8 (ucast (b ! (off + 2))) OR ucast (b ! (off + 3))"

definition packBe32 :: "u32 \<Rightarrow> bytes" where
  "packBe32 v = [ucast (drop_bit 24 v AND 0xFF), ucast (drop_bit 16 v AND 0xFF),
                 ucast (drop_bit 8 v AND 0xFF), ucast (v AND 0xFF)]"

interpretation ider_le16: int_codec ider_pack16Le ider_read16Le 2
  by unfold_locales (simp_all add: ider_pack16Le_def ider_read16Le_def nth_append byte_order_simps)

interpretation ider_le32: int_codec ider_pack32Le ider_read32Le 4
  by unfold_locales (simp_all add: ider_pack32Le_def ider_read32Le_def nth_append byte_order_simps)

interpretation be32: int_codec packBe32 readBe32 4
  by unfold_locales (simp_all add: packBe32_def readBe32_def nth_append byte_order_simps)

section \<open>Frames sent\<close>

definition packHeader :: "Command \<Rightarrow> u32 \<Rightarrow> byte \<Rightarrow> bytes" where
  "packHeader cmd sequence attrs = [Command_byte cmd, 0x00, 0x00, attrs] @ ider_pack32Le sequence"

definition readSequence :: "bytes \<Rightarrow> u32" where
  "readSequence frame = (if length frame < 8 then 0 else ider_read32Le frame 4)"

definition buildOpenSession :: "u32 \<Rightarrow> u16 \<Rightarrow> u16 \<Rightarrow> u16 \<Rightarrow> u32 \<Rightarrow> bytes" where
  "buildOpenSession sequence rx tx hb version =
     packHeader CmdOpenSession sequence 0 @ ider_pack16Le rx @ ider_pack16Le tx
     @ ider_pack16Le hb @ ider_pack32Le version"

definition buildKeepAlivePong :: "u32 \<Rightarrow> bytes" where
  "buildKeepAlivePong sequence = packHeader CmdKeepAlivePong sequence 0"

definition buildResetResponse :: "u32 \<Rightarrow> bytes" where
  "buildResetResponse sequence = packHeader CmdResetResponse sequence 0"

definition buildEnableFeatures :: "u32 \<Rightarrow> byte \<Rightarrow> bytes \<Rightarrow> bytes" where
  "buildEnableFeatures sequence type data = packHeader CmdEnableFeatures sequence 0 @ [type] @ data"

definition buildHeartbeat :: "u32 \<Rightarrow> bytes" where
  "buildHeartbeat sequence = packHeader CmdHeartbeat sequence 0"

definition buildCommandEndResponse :: "u32 \<Rightarrow> bool \<Rightarrow> byte \<Rightarrow> byte \<Rightarrow> byte \<Rightarrow> byte \<Rightarrow> bytes" where
  "buildCommandEndResponse sequence error sense device asc asq =
     (let body = replicate 23 0;
          body = (if error then body[12 := 0xC5, 14 := 0x03, 18 := device, 19 := 0x50]
                  else body[12 := 0x87, 13 := push_bit 4 sense, 14 := 0x03, 18 := device,
                            19 := 0x51, 20 := sense, 21 := asc, 22 := asq])
      in packHeader CmdCommandEndResponse sequence 0x02 @ body)"

definition buildSendDataToHost :: "u32 \<Rightarrow> byte \<Rightarrow> bool \<Rightarrow> bytes \<Rightarrow> bool \<Rightarrow> bytes" where
  "buildSendDataToHost sequence device completed data dma =
     (let attrs = (if completed then 0x02 else 0x00);
          attrs = (if dma then attrs OR 0x01 else attrs);
          n = (of_nat (length data) :: u16);
          dmalen = (if dma then 0 else n);
          body = (replicate 26 0)[1 := ucast (n AND 0xFF), 2 := ucast (drop_bit 8 n AND 0xFF),
                    4 := (if dma then 0xB4 else 0xB5), 6 := 0x02,
                    8 := ucast (dmalen AND 0xFF), 9 := ucast (drop_bit 8 dmalen AND 0xFF),
                    10 := device, 11 := 0x58];
          body = (if completed then body[12 := 0x85, 14 := 0x03, 18 := device, 19 := 0x50] else body)
      in packHeader CmdSendDataToHost sequence attrs @ body @ data)"

section \<open>Frames received\<close>

record SessionInfo =
  si_major :: byte
  si_minor :: byte
  si_fwMajor :: byte
  si_fwMinor :: byte
  si_readBuffer :: u16
  si_writeBuffer :: u16
  si_proto :: byte
  si_iana :: u32
  si_oemData :: bytes

record ScsiCommand =
  sc_deviceFlags :: byte
  sc_featureRegister :: byte
  sc_cdb :: bytes

record StatusData =
  sd_type :: byte
  sd_value :: u32

definition peekTag :: "bytes \<Rightarrow> byte" where
  "peekTag buffer = (if buffer = [] then 0 else buffer ! 0)"

definition tryParseOpenSessionReply :: "bytes \<Rightarrow> (SessionInfo \<times> nat) option" where
  "tryParseOpenSessionReply buffer =
     (if length buffer < 30 then None
      else if peekTag buffer \<noteq> Command_byte CmdOpenSessionReply then None
      else let oemLen = unat (buffer ! 29) in
        if length buffer < 30 + oemLen then None
        else Some (\<lparr>si_major = buffer ! 8, si_minor = buffer ! 9, si_fwMajor = buffer ! 10,
                    si_fwMinor = buffer ! 11, si_readBuffer = ider_read16Le buffer 16,
                    si_writeBuffer = ider_read16Le buffer 18, si_proto = buffer ! 21,
                    si_iana = ider_read32Le buffer 25, si_oemData = mid buffer 30 oemLen\<rparr>,
                   30 + oemLen))"

definition tryParseCommandWritten :: "bytes \<Rightarrow> (ScsiCommand \<times> nat) option" where
  "tryParseCommandWritten buffer =
     (if length buffer < 28 then None
      else if peekTag buffer \<noteq> Command_byte CmdCommandWritten then None
      else Some (\<lparr>sc_deviceFlags = buffer ! 14, sc_featureRegister = buffer ! 9,
                  sc_cdb = mid buffer 16 12\<rparr>, 28))"

definition tryParseFixed :: "byte \<Rightarrow> nat \<Rightarrow> bytes \<Rightarrow> (unit \<times> nat) option" where
  "tryParseFixed expectedTag totalSize buffer =
     (if length buffer < totalSize then None
      else if peekTag buffer \<noteq> expectedTag then None
      else Some ((), totalSize))"

definition tryParseStatusData :: "bytes \<Rightarrow> (StatusData \<times> nat) option" where
  "tryParseStatusData buffer =
     (if length buffer < 13 then None
      else if peekTag buffer \<noteq> Command_byte CmdStatusData then None
      else Some (\<lparr>sd_type = buffer ! 8, sd_value = ider_read32Le buffer 9\<rparr>, 13))"

lemmas ider_parsers [parse_defs] =
  tryParseOpenSessionReply_def tryParseCommandWritten_def tryParseFixed_def tryParseStatusData_def
  peekTag_def

interpretation open_session_reply: stream_parser tryParseOpenSessionReply
  by unfold_locales
    (auto simp: parse_defs nth_append mid_take ider_le16.read_append ider_le16.read_take
      ider_le32.read_append ider_le32.read_take split: if_splits)

interpretation command_written: stream_parser tryParseCommandWritten
  by unfold_locales (auto simp: parse_defs nth_append mid_take split: if_splits)

interpretation status_data: stream_parser tryParseStatusData
  by unfold_locales
    (auto simp: parse_defs nth_append ider_le32.read_append ider_le32.read_take split: if_splits)

interpretation fixed_frame: stream_parser "tryParseFixed tag (Suc n)" for tag n
  by unfold_locales (auto simp: parse_defs nth_append split: if_splits)

section \<open>SCSI\<close>

definition kTestUnitReady :: byte where [simp]: "kTestUnitReady = 0x00"

definition kRead6 :: byte where [simp]: "kRead6 = 0x08"

definition kWrite6 :: byte where [simp]: "kWrite6 = 0x0A"

definition kModeSense6 :: byte where [simp]: "kModeSense6 = 0x1A"

definition kStartStop :: byte where [simp]: "kStartStop = 0x1B"

definition kAllowMediumRemoval :: byte where [simp]: "kAllowMediumRemoval = 0x1E"

definition kReadFormatCapacities :: byte where [simp]: "kReadFormatCapacities = 0x23"

definition kReadCapacity :: byte where [simp]: "kReadCapacity = 0x25"

definition kRead10 :: byte where [simp]: "kRead10 = 0x28"

definition kWrite10 :: byte where [simp]: "kWrite10 = 0x2A"

definition kWriteAndVerify :: byte where [simp]: "kWriteAndVerify = 0x2E"

definition kReadToc :: byte where [simp]: "kReadToc = 0x43"

definition kGetConfiguration :: byte where [simp]: "kGetConfiguration = 0x46"

definition kGetEventStatus :: byte where [simp]: "kGetEventStatus = 0x4A"

definition kModeSelect10 :: byte where [simp]: "kModeSelect10 = 0x55"

definition kModeSense10 :: byte where [simp]: "kModeSense10 = 0x5A"

definition kReadDiscInfo :: byte where [simp]: "kReadDiscInfo = 0x51"

definition kSenseNoSense :: byte where [simp]: "kSenseNoSense = 0x00"

definition kSenseNotReady :: byte where [simp]: "kSenseNotReady = 0x02"

definition kSenseIllegalRequest :: byte where [simp]: "kSenseIllegalRequest = 0x05"

definition kSenseUnitAttention :: byte where [simp]: "kSenseUnitAttention = 0x06"

definition modeSenseCd1A :: bytes where
  "modeSenseCd1A =
     [0x00, 0x12, 0x01, 0x80, 0x00, 0x00, 0x00, 0x00, 0x1A, 0x0A, 0x00, 0x00,
      0x00, 0x00, 0x00, 0x00, 0x00, 0x00, 0x00, 0x00]"

definition modeSenseCd1D :: bytes where
  "modeSenseCd1D =
     [0x00, 0x12, 0x01, 0x80, 0x00, 0x00, 0x00, 0x00, 0x1D, 0x0A, 0x00, 0x00,
      0x00, 0x00, 0x00, 0x00, 0x00, 0x00, 0x00, 0x00]"

definition modeSenseCd2A :: bytes where
  "modeSenseCd2A =
     [0x00, 0x20, 0x01, 0x80, 0x00, 0x00, 0x00, 0x00, 0x2A, 0x18, 0x00, 0x00,
      0x00, 0x00, 0x20, 0x00, 0x00, 0x00, 0x00, 0x00, 0x00, 0x80, 0x00, 0x00,
      0x00, 0x00, 0x00, 0x00, 0x00, 0x00, 0x00, 0x00, 0x00, 0x00]"

definition modeSenseCd3F :: bytes where
  "modeSenseCd3F =
     [0x00, 0x28, 0x01, 0x80, 0x00, 0x00, 0x00, 0x00, 0x01, 0x06, 0x00, 0xFF,
      0x00, 0x00, 0x00, 0x00, 0x2A, 0x18, 0x00, 0x00, 0x00, 0x00, 0x02, 0x00,
      0x00, 0x00, 0x00, 0x00, 0x00, 0x80, 0x00, 0x00, 0x00, 0x00, 0x00, 0x00,
      0x00, 0x00, 0x00, 0x00, 0x00, 0x00]"

definition modeSenseCdErrorRecovery :: bytes where
  "modeSenseCdErrorRecovery =
     [0x00, 0x0E, 0x01, 0x80, 0x00, 0x00, 0x00, 0x00, 0x01, 0x06, 0x00, 0xFF,
      0x00, 0x00, 0x00, 0x00]"

definition configProfileList :: bytes where
  "configProfileList =
     [0x00, 0x00, 0x03, 0x04, 0x00, 0x08, 0x01, 0x00]"

definition configCore :: bytes where
  "configCore =
     [0x00, 0x01, 0x03, 0x04, 0x00, 0x00, 0x00, 0x02]"

definition configMorphing :: bytes where
  "configMorphing =
     [0x00, 0x02, 0x03, 0x04, 0x00, 0x00, 0x00, 0x00]"

definition configRemovable :: bytes where
  "configRemovable =
     [0x00, 0x03, 0x03, 0x04, 0x29, 0x00, 0x00, 0x02]"

definition configRandom :: bytes where
  "configRandom =
     [0x00, 0x10, 0x01, 0x08, 0x00, 0x00, 0x08, 0x00, 0x00, 0x01, 0x00, 0x00]"

definition configRead :: bytes where
  "configRead =
     [0x00, 0x1E, 0x03, 0x00]"

definition configPowerManagement :: bytes where
  "configPowerManagement =
     [0x01, 0x00, 0x03, 0x00]"

definition configTimeout :: bytes where
  "configTimeout =
     [0x01, 0x05, 0x03, 0x00]"

lemma length_packHeader [simp]: "length (packHeader c q a) = 8"
  by (simp add: packHeader_def ider_le32.pack_length)

lemma length_buildSendDataToHost [simp]: "length (buildSendDataToHost q dev c d dma) = 34 + length d"
  by (simp add: buildSendDataToHost_def Let_def)

lemma cdb_length: "tryParseCommandWritten b = Some (cmd, n) \<Longrightarrow> length (sc_cdb cmd) = 12"
  by (auto simp: parse_defs mid_def split: if_splits)

end
