(* ===== verification/Ider_Session.thy ===== *)
theory Ider_Session
  imports Ider_Codec
begin

text \<open>
  The IDE-R session, \<open>ider/src/ider_session.cpp\<close>: it opens the redirected CD-ROM, answers the
  firmware's frames and SCSI commands, and serves sectors of the ISO file in chunks, one chunk per
  turn of the event loop.

  \<open>ide_pending\<close> counts the queued \<open>QTimer::singleShot(0, sendNextScsiChunk)\<close> calls. The ISO
  file is the environment record \<open>filesys\<close>. \<open>statsChanged\<close> is not recorded among the signals:
  it carries the two byte counters, which are members.
\<close>

section \<open>State\<close>

datatype StartOption = OnReboot | Graceful | Immediate

primrec StartOption_byte :: "StartOption \<Rightarrow> byte" where
  "StartOption_byte OnReboot = kStartOnReboot"
| "StartOption_byte Graceful = kStartGraceful"
| "StartOption_byte Immediate = kStartImmediate"

datatype ider_error =
    IderNoError
  | IderClientNotAuthenticated
  | CannotOpenIso qstring
  | ClosedByAmt
  | UnknownIderCommand byte
  | UnsupportedProto byte
  | IllegalBufferSizes u16 u16
  | InterleavedRead
  | IderWriteFailed redir_error
  | IderClientFailed redir_error

datatype ider_out = IderSessionOpened SessionInfo | EnabledChanged bool | IderClosed ider_error

record ider_session =
  ide_client :: client
  ide_isoPath :: qstring
  ide_isoOpen :: bool
  ide_isoPos :: nat
  ide_isoSize :: u64
  ide_startOption :: StartOption
  ide_info :: SessionInfo
  ide_inbox :: bytes
  ide_outSequence :: u32
  ide_bytesSent :: u64
  ide_bytesReceived :: u64
  ide_opened :: bool
  ide_enabled :: bool
  ide_cdReady :: bool
  ide_remaining :: u64
  ide_chunkDev :: byte
  ide_chunkFeature :: byte
  ide_chunkSize :: u64
  ide_inFlight :: bool
  ide_pending :: nat
  ide_lastError :: ider_error
  ide_outs :: "ider_out list"

text \<open>What \<open>QFile\<close> and \<open>QFileInfo\<close> answer for a path.\<close>

record filesys =
  f_open :: "qstring \<Rightarrow> bool"
  f_size :: "qstring \<Rightarrow> u64"
  f_seek :: "qstring \<Rightarrow> nat \<Rightarrow> bool"
  f_read :: "qstring \<Rightarrow> nat \<Rightarrow> nat \<Rightarrow> bytes"

definition emptyInfo :: SessionInfo where
  "emptyInfo = \<lparr>si_major = 0, si_minor = 0, si_fwMajor = 0, si_fwMinor = 0, si_readBuffer = 0,
     si_writeBuffer = 0, si_proto = 0, si_iana = 0, si_oemData = []\<rparr>"

definition newIderSession :: "client \<Rightarrow> ider_session" where
  "newIderSession c = \<lparr>ide_client = c, ide_isoPath = [], ide_isoOpen = False, ide_isoPos = 0,
     ide_isoSize = 0, ide_startOption = Graceful, ide_info = emptyInfo, ide_inbox = [],
     ide_outSequence = 0, ide_bytesSent = 0, ide_bytesReceived = 0, ide_opened = False,
     ide_enabled = False, ide_cdReady = False, ide_remaining = 0, ide_chunkDev = 0,
     ide_chunkFeature = 0, ide_chunkSize = 0, ide_inFlight = False, ide_pending = 0,
     ide_lastError = IderNoError, ide_outs = []\<rparr>"

definition kRxTimeoutMs :: u16 where "kRxTimeoutMs = 30000"
definition kTxTimeoutMs :: u16 where "kTxTimeoutMs = 0"
definition kHeartbeatMs :: u16 where "kHeartbeatMs = 20000"
definition kProtocolVersion :: u32 where "kProtocolVersion = 1"
definition kMaxReadCap :: u64 where "kMaxReadCap = 8192"

section \<open>Low-level senders\<close>

definition ide_emit :: "ider_out \<Rightarrow> ider_session \<Rightarrow> ider_session" where
  "ide_emit x s = s\<lparr>ide_outs := ide_outs s @ [x]\<rparr>"

definition ide_fail :: "ider_error \<Rightarrow> ider_session \<Rightarrow> ider_session" where
  "ide_fail reason s =
     (let s = s\<lparr>ide_lastError := reason, ide_isoOpen := False\<rparr>;
          s = (if ide_opened s \<or> ide_enabled s
               then ide_emit (EnabledChanged False) (s\<lparr>ide_opened := False, ide_enabled := False\<rparr>) else s)
      in ide_emit (IderClosed reason) s)"

definition writeFrame :: "qtenv \<Rightarrow> bytes \<Rightarrow> ider_session \<Rightarrow> ider_session" where
  "writeFrame env frame s =
     (let (n, c) = writeRaw env frame (ide_client s);
          s = s\<lparr>ide_client := c\<rparr>
      in if n \<le> 0 then ide_fail (IderWriteFailed (m_lastError c)) s
         else s\<lparr>ide_bytesSent := ide_bytesSent s + of_nat (length frame)\<rparr>)"

text \<open>The idiom \<open>writeFrame(build...(m_outSequence++, ...))\<close>.\<close>

definition writeNext :: "qtenv \<Rightarrow> (u32 \<Rightarrow> bytes) \<Rightarrow> ider_session \<Rightarrow> ider_session" where
  "writeNext env build s =
     writeFrame env (build (ide_outSequence s)) (s\<lparr>ide_outSequence := ide_outSequence s + 1\<rparr>)"

definition sendData :: "qtenv \<Rightarrow> byte \<Rightarrow> bool \<Rightarrow> bytes \<Rightarrow> bool \<Rightarrow> ider_session \<Rightarrow> ider_session" where
  "sendData env dev completed data dma =
     writeNext env (\<lambda>q. buildSendDataToHost q dev completed data dma)"

definition sendOk :: "qtenv \<Rightarrow> byte \<Rightarrow> ider_session \<Rightarrow> ider_session" where
  "sendOk env dev = writeNext env (\<lambda>q. buildCommandEndResponse q False kSenseNoSense dev 0x00 0x00)"

definition sendError :: "qtenv \<Rightarrow> byte \<Rightarrow> byte \<Rightarrow> byte \<Rightarrow> byte \<Rightarrow> ider_session \<Rightarrow> ider_session" where
  "sendError env dev sense asc asq =
     writeNext env (\<lambda>q. buildCommandEndResponse q False sense dev asc asq)"

definition dmaBit :: "byte \<Rightarrow> bool" where
  "dmaBit feature \<longleftrightarrow> feature AND 0x01 \<noteq> 0"

section \<open>Opening\<close>

definition ide_start :: "qtenv \<Rightarrow> filesys \<Rightarrow> ider_session \<Rightarrow> ider_session" where
  "ide_start env fs s =
     (if m_state (ide_client s) \<noteq> Authenticated then ide_fail IderClientNotAuthenticated s
      else if ide_isoPath s \<noteq> [] \<and> \<not> f_open fs (ide_isoPath s)
      then ide_fail (CannotOpenIso (ide_isoPath s)) (s\<lparr>ide_isoOpen := False\<rparr>)
      else
        let s = (if ide_isoPath s \<noteq> []
                 then s\<lparr>ide_isoOpen := True, ide_isoPos := 0, ide_isoSize := f_size fs (ide_isoPath s)\<rparr>
                 else s)
        in writeNext env (\<lambda>q. buildOpenSession q kRxTimeoutMs kTxTimeoutMs kHeartbeatMs kProtocolVersion) s)"

definition enablePayload :: "StartOption \<Rightarrow> bytes" where
  "enablePayload option =
     (let v = (0x01 :: u32) OR ucast (StartOption_byte option)
      in [ucast (v AND 0xFF), ucast (drop_bit 8 v AND 0xFF), ucast (drop_bit 16 v AND 0xFF),
          ucast (drop_bit 24 v AND 0xFF)])"

definition onOpenSessionReply :: "qtenv \<Rightarrow> SessionInfo \<Rightarrow> ider_session \<Rightarrow> ider_session" where
  "onOpenSessionReply env info s =
     (if si_proto info \<noteq> 0 then ide_fail (UnsupportedProto (si_proto info)) s
      else if ucast (si_readBuffer info) > kMaxReadCap \<or> ucast (si_writeBuffer info) > kMaxReadCap
      then ide_fail (IllegalBufferSizes (si_readBuffer info) (si_writeBuffer info)) s
      else
        let s = ide_emit (IderSessionOpened info) (s\<lparr>ide_info := info, ide_opened := True\<rparr>)
        in writeNext env (\<lambda>q. buildEnableFeatures q kStatusRegsToggle (enablePayload (ide_startOption s))) s)"

definition onStatusData :: "qtenv \<Rightarrow> byte \<Rightarrow> u32 \<Rightarrow> ider_session \<Rightarrow> ider_session" where
  "onStatusData env type val s =
     (if type = kStatusRegsAvail then
        (if val AND 0x01 \<noteq> 0
         then writeNext env (\<lambda>q. buildEnableFeatures q kStatusRegsToggle (enablePayload (ide_startOption s))) s
         else s)
      else if type = kStatusRegsStatus then
        let en = (val AND 0x02 \<noteq> 0)
        in if en \<noteq> ide_enabled s then ide_emit (EnabledChanged en) (s\<lparr>ide_enabled := en\<rparr>) else s
      else s)"

section \<open>SCSI handlers\<close>

definition scsiTestUnitReady :: "qtenv \<Rightarrow> byte \<Rightarrow> ider_session \<Rightarrow> ider_session" where
  "scsiTestUnitReady env dev s =
     (if dev \<noteq> kDeviceCdRom \<or> \<not> ide_isoOpen s then sendError env dev kSenseNotReady 0x3A 0x00 s
      else if \<not> ide_cdReady s
      then sendError env dev kSenseUnitAttention 0x28 0x00 (s\<lparr>ide_cdReady := True\<rparr>)
      else sendOk env dev s)"

definition scsiModeSense6 :: "qtenv \<Rightarrow> bytes \<Rightarrow> byte \<Rightarrow> byte \<Rightarrow> ider_session \<Rightarrow> ider_session" where
  "scsiModeSense6 env cdb dev feature s =
     (if length cdb < 4 then sendError env dev kSenseIllegalRequest 0x20 0x00 s
      else if cdb ! 2 = 0x3F \<and> cdb ! 3 = 0x00 then
        (if dev = kDeviceCdRom \<and> ide_isoOpen s
         then sendData env dev True [0, 0x05, 0x80, 0] (dmaBit feature) s
         else sendError env dev kSenseNotReady 0x3A 0x00 s)
      else sendError env dev kSenseIllegalRequest 0x24 0x00 s)"

definition modePage :: "byte \<Rightarrow> bytes" where
  "modePage pageCode =
     (if pageCode = 0x01 then modeSenseCdErrorRecovery
      else if pageCode = 0x1A then modeSenseCd1A
      else if pageCode = 0x1D then modeSenseCd1D
      else if pageCode = 0x2A then modeSenseCd2A
      else if pageCode = 0x3F then modeSenseCd3F
      else [])"

text \<open>The guard lets a CDB of eight bytes through although \<open>readBe16(cdb, 7)\<close> reads the ninth;
  every CDB that reaches this handler has twelve.\<close>

definition scsiModeSense10 :: "qtenv \<Rightarrow> bytes \<Rightarrow> byte \<Rightarrow> byte \<Rightarrow> ider_session \<Rightarrow> ider_session" where
  "scsiModeSense10 env cdb dev feature s =
     (if length cdb < 8 then sendError env dev kSenseIllegalRequest 0x20 0x00 s
      else
        let buflen = readBe16 cdb 7
        in if buflen = 0
           then sendData env dev True (packBe32 0x003C0000 @ packBe32 0x00000008) (dmaBit feature) s
           else
             let pageCode = cdb ! 2 AND 0x3F;
                 r = (if dev = kDeviceCdRom then modePage pageCode else [])
             in if r = [] then sendError env dev kSenseIllegalRequest 0x20 0x00 s
                else
                  let r = (if length r > unat buflen then take (unat buflen) r else r)
                  in sendData env dev True r (dmaBit feature) s)"

definition scsiAllowMediumRemoval :: "qtenv \<Rightarrow> byte \<Rightarrow> ider_session \<Rightarrow> ider_session" where
  "scsiAllowMediumRemoval env dev s =
     (if dev = kDeviceCdRom \<and> \<not> ide_isoOpen s then sendError env dev kSenseNotReady 0x3A 0x00 s
      else sendOk env dev s)"

definition scsiStartStop :: "qtenv \<Rightarrow> byte \<Rightarrow> ider_session \<Rightarrow> ider_session" where
  "scsiStartStop env dev s = sendOk env dev s"

definition scsiReadCapacity :: "qtenv \<Rightarrow> byte \<Rightarrow> byte \<Rightarrow> ider_session \<Rightarrow> ider_session" where
  "scsiReadCapacity env dev feature s =
     (if dev \<noteq> kDeviceCdRom \<or> \<not> ide_isoOpen s \<or> ide_isoSize s < 2048
      then sendError env dev kSenseNotReady 0x3A 0x00 s
      else
        let lastLba = (ucast (drop_bit 11 (ide_isoSize s) - 1) :: u32)
        in sendData env dev True (packBe32 lastLba @ [0x00, 0x00, 0x08, 0x00]) (dmaBit feature) s)"

text \<open>The address and length fields of READ(10) and READ(6); \<open>None\<close> when the CDB is too short.\<close>

definition readExtent :: "bytes \<Rightarrow> bool \<Rightarrow> (u32 \<times> u32) option" where
  "readExtent cdb isRead10 =
     (if isRead10 then
        (if length cdb < 9 then None else Some (readBe32 cdb 2, ucast (readBe16 cdb 7)))
      else if length cdb < 5 then None
      else
        let lba = push_bit 16 (ucast (cdb ! 1 AND 0x1F)) OR push_bit 8 (ucast (cdb ! 2)) OR ucast (cdb ! 3);
            len = ucast (cdb ! 4)
        in Some (lba, if len = 0 then 256 else len))"

definition scsiRead :: "qtenv \<Rightarrow> filesys \<Rightarrow> bytes \<Rightarrow> byte \<Rightarrow> byte \<Rightarrow> bool \<Rightarrow> ider_session \<Rightarrow> ider_session" where
  "scsiRead env fs cdb dev feature isRead10 s =
     (if dev \<noteq> kDeviceCdRom \<or> \<not> ide_isoOpen s then sendError env dev kSenseNotReady 0x3A 0x00 s
      else case readExtent cdb isRead10 of
        None \<Rightarrow> sendError env dev kSenseIllegalRequest 0x20 0x00 s
      | Some (lba, len) \<Rightarrow>
          let totalBlocks = drop_bit 11 (ide_isoSize s)
          in if (ucast lba :: u64) + ucast len > totalBlocks
             then sendError env dev kSenseIllegalRequest 0x21 0x00 s
             else if len = 0 then sendOk env dev s
             else if ide_inFlight s then ide_fail InterleavedRead s
             else
               let byteOffset = push_bit 11 (ucast lba :: u64);
                   remaining = push_bit 11 (ucast len :: u64);
                   chunk = (if si_readBuffer (ide_info s) > 0 then ucast (si_readBuffer (ide_info s))
                            else kMaxReadCap)
               in if \<not> f_seek fs (ide_isoPath s) (unat byteOffset)
                  then sendError env dev kSenseIllegalRequest 0x21 0x00 s
                  else s\<lparr>ide_isoPos := unat byteOffset, ide_remaining := remaining,
                         ide_chunkDev := dev, ide_chunkFeature := feature, ide_chunkSize := chunk,
                         ide_inFlight := True, ide_pending := ide_pending s + 1\<rparr>)"

text \<open>A firing of the single-shot timer.\<close>

definition sendNextScsiChunk :: "qtenv \<Rightarrow> filesys \<Rightarrow> ider_session \<Rightarrow> ider_session" where
  "sendNextScsiChunk env fs s =
     (let s = s\<lparr>ide_pending := ide_pending s - 1\<rparr>
      in if \<not> ide_isoOpen s \<or> ide_remaining s = 0 then s\<lparr>ide_inFlight := False\<rparr>
         else
           let want = min (ide_remaining s) (ide_chunkSize s);
               data = f_read fs (ide_isoPath s) (ide_isoPos s) (unat want);
               s = s\<lparr>ide_isoPos := ide_isoPos s + length data\<rparr>
           in if length data \<noteq> unat want
              then (sendError env (ide_chunkDev s) kSenseIllegalRequest 0x21 0x00 s)
                     \<lparr>ide_remaining := 0, ide_inFlight := False\<rparr>
              else
                let s = s\<lparr>ide_remaining := ide_remaining s - want\<rparr>;
                    completed = (ide_remaining s = 0);
                    s = sendData env (ide_chunkDev s) completed data (dmaBit (ide_chunkFeature s)) s
                in if ide_remaining s > 0 then s\<lparr>ide_pending := ide_pending s + 1\<rparr>
                   else s\<lparr>ide_inFlight := False\<rparr>)"

definition tocFormat :: "bytes \<Rightarrow> byte" where
  "tocFormat cdb =
     (let format = (if length cdb > 2 then cdb ! 2 AND 0x07 else 0)
      in if format = 0 \<and> length cdb > 9 then drop_bit 6 (cdb ! 9) else format)"

definition scsiReadToc :: "qtenv \<Rightarrow> bytes \<Rightarrow> byte \<Rightarrow> byte \<Rightarrow> ider_session \<Rightarrow> ider_session" where
  "scsiReadToc env cdb dev feature s =
     (if dev \<noteq> kDeviceCdRom then sendError env dev kSenseIllegalRequest 0x20 0x00 s
      else
        let msf = (length cdb > 1 \<and> cdb ! 1 AND 0x02 \<noteq> 0);
            format = tocFormat cdb
        in if format = 1 then
             sendData env dev True
               [0x00, 0x0A, 0x01, 0x01, 0x00, 0x14, 0x01, 0x00, 0x00, 0x00, 0x00, 0x00] (dmaBit feature) s
           else if format = 0 then
             (if msf then
                sendData env dev True
                  [0x00, 0x12, 0x01, 0x01, 0x00, 0x14, 0x01, 0x00, 0x00, 0x00, 0x02, 0x00,
                   0x00, 0x14, 0xAA, 0x00, 0x00, 0x00, 0x34, 0x13] (dmaBit feature) s
              else
                sendData env dev True
                  [0x00, 0x12, 0x01, 0x01, 0x00, 0x14, 0x01, 0x00, 0x00, 0x00, 0x00, 0x00,
                   0x00, 0x14, 0xAA, 0x00, 0x00, 0x00, 0x00, 0x00] (dmaBit feature) s)
           else sendError env dev kSenseIllegalRequest 0x20 0x00 s)"

definition configBody :: "bool \<Rightarrow> u16 \<Rightarrow> bytes" where
  "configBody sendAll firstCode =
     (let include = (\<lambda>code. firstCode = code \<or> (sendAll \<and> firstCode < code))
      in packBe32 0x00000008
         @ (if firstCode = 0 then configProfileList else [])
         @ (if include 0x1 then configCore else [])
         @ (if include 0x2 then configMorphing else [])
         @ (if include 0x3 then configRemovable else [])
         @ (if include 0x10 then configRandom else [])
         @ (if include 0x1E then configRead else [])
         @ (if include 0x100 then configPowerManagement else [])
         @ (if include 0x105 then configTimeout else []))"

definition scsiGetConfiguration :: "qtenv \<Rightarrow> bytes \<Rightarrow> byte \<Rightarrow> byte \<Rightarrow> ider_session \<Rightarrow> ider_session" where
  "scsiGetConfiguration env cdb dev feature s =
     (if length cdb < 9 then sendError env dev kSenseIllegalRequest 0x20 0x00 s
      else
        let sendAll = (cdb ! 1 \<noteq> 2);
            firstCode = readBe16 cdb 2;
            buflen = readBe16 cdb 7
        in if buflen = 0
           then sendData env dev True (packBe32 0x003C0000 @ packBe32 0x00000008) (dmaBit feature) s
           else
             let body = configBody sendAll firstCode;
                 r = packBe32 (of_nat (length body)) @ body;
                 r = (if length r > unat buflen then take (unat buflen) r else r)
             in sendData env dev True r (dmaBit feature) s)"

definition scsiGetEventStatus :: "qtenv \<Rightarrow> bytes \<Rightarrow> byte \<Rightarrow> byte \<Rightarrow> ider_session \<Rightarrow> ider_session" where
  "scsiGetEventStatus env cdb dev feature s =
     (if length cdb < 10 \<or> (cdb ! 1 \<noteq> 0x01 \<and> cdb ! 4 \<noteq> 0x10)
      then sendError env dev kSenseIllegalRequest 0x26 0x01 s
      else
        let present = (if dev = kDeviceCdRom \<and> ide_isoOpen s then 0x02 else 0x00)
        in sendData env dev True [0, present, 0x80, 0] (dmaBit feature) s)"

definition scsiReadFormatCapacities :: "qtenv \<Rightarrow> byte \<Rightarrow> byte \<Rightarrow> ider_session \<Rightarrow> ider_session" where
  "scsiReadFormatCapacities env dev feature s =
     (if dev \<noteq> kDeviceCdRom \<or> \<not> ide_isoOpen s \<or> ide_isoSize s = 0
      then sendError env dev kSenseIllegalRequest 0x24 0x00 s
      else sendData env dev True
             [0x00, 0x00, 0x00, 0x08, 0x00, 0x00, 0x0B, 0x40, 0x02, 0x00, 0x02, 0x00] (dmaBit feature) s)"

definition handleScsi :: "qtenv \<Rightarrow> filesys \<Rightarrow> ScsiCommand \<Rightarrow> ider_session \<Rightarrow> ider_session" where
  "handleScsi env fs cmd s =
     (let cdb = sc_cdb cmd
      in if cdb = [] then s
         else
           let opcode = cdb ! 0;
               dev = (if sc_deviceFlags cmd AND 0x10 \<noteq> 0 then kDeviceCdRom else kDeviceFloppy);
               fr = sc_featureRegister cmd
           in if opcode = kTestUnitReady then scsiTestUnitReady env dev s
              else if opcode = kModeSense6 then scsiModeSense6 env cdb dev fr s
              else if opcode = kModeSense10 then scsiModeSense10 env cdb dev fr s
              else if opcode = kAllowMediumRemoval then scsiAllowMediumRemoval env dev s
              else if opcode = kStartStop then scsiStartStop env dev s
              else if opcode = kReadCapacity then scsiReadCapacity env dev fr s
              else if opcode = kRead6 then scsiRead env fs cdb dev fr False s
              else if opcode = kRead10 then scsiRead env fs cdb dev fr True s
              else if opcode = kReadToc then scsiReadToc env cdb dev fr s
              else if opcode = kGetConfiguration then scsiGetConfiguration env cdb dev fr s
              else if opcode = kGetEventStatus then scsiGetEventStatus env cdb dev fr s
              else if opcode = kReadFormatCapacities then scsiReadFormatCapacities env dev fr s
              else if opcode = kWrite6 \<or> opcode = kWrite10 \<or> opcode = kWriteAndVerify
              then sendError env dev kSenseNotReady 0x3A 0x00 s
              else sendError env dev kSenseIllegalRequest 0x20 0x00 s)"

section \<open>The receive loop\<close>

definition popFrame :: "nat \<Rightarrow> ider_session \<Rightarrow> ider_session" where
  "popFrame consumed s = s\<lparr>ide_inbox := drop consumed (ide_inbox s)\<rparr>"

text \<open>A frame without payload: wait for its bytes, remove it and do \<open>act\<close>.\<close>

definition onFixed :: "Command \<Rightarrow> nat \<Rightarrow> (ider_session \<Rightarrow> ider_session) \<Rightarrow> ider_session \<Rightarrow> ider_session loop" where
  "onFixed cmd n act s =
     (case tryParseFixed (Command_byte cmd) n (ide_inbox s) of
        None \<Rightarrow> Wait
      | Some (_, consumed) \<Rightarrow> Next (act (popFrame consumed s)))"

text \<open>The body of the loop, run while the inbox is not empty.\<close>

definition iderDispatch :: "qtenv \<Rightarrow> filesys \<Rightarrow> ider_session \<Rightarrow> ider_session loop" where
  "iderDispatch env fs =
     (\<lambda>s. let tag = peekTag (ide_inbox s)
        in if tag = Command_byte CmdOpenSessionReply then
             (case tryParseOpenSessionReply (ide_inbox s) of
                None \<Rightarrow> Wait
              | Some (info, consumed) \<Rightarrow> Next (onOpenSessionReply env info (popFrame consumed s)))
           else if tag = Command_byte CmdClose then
             (case tryParseFixed (Command_byte CmdClose) 8 (ide_inbox s) of
                None \<Rightarrow> Wait
              | Some (_, consumed) \<Rightarrow> Halt (ide_fail ClosedByAmt (popFrame consumed s)))
           else if tag = Command_byte CmdKeepAlivePing then
             onFixed CmdKeepAlivePing 8 (writeNext env buildKeepAlivePong) s
           else if tag = Command_byte CmdKeepAlivePong then onFixed CmdKeepAlivePong 8 (\<lambda>s. s) s
           else if tag = Command_byte CmdResetOccurred then
             onFixed CmdResetOccurred 9 (writeNext env buildResetResponse) s
           else if tag = Command_byte CmdStatusData then
             (case tryParseStatusData (ide_inbox s) of
                None \<Rightarrow> Wait
              | Some (sd, consumed) \<Rightarrow> Next (onStatusData env (sd_type sd) (sd_value sd) (popFrame consumed s)))
           else if tag = Command_byte CmdErrorOccurred then onFixed CmdErrorOccurred 11 (\<lambda>s. s) s
           else if tag = Command_byte CmdHeartbeat then onFixed CmdHeartbeat 8 (\<lambda>s. s) s
           else if tag = Command_byte CmdCommandWritten then
             (case tryParseCommandWritten (ide_inbox s) of
                None \<Rightarrow> Wait
              | Some (cmd, consumed) \<Rightarrow> Next (handleScsi env fs cmd (popFrame consumed s)))
           else Halt (ide_fail (UnknownIderCommand tag) s))"

definition iderStep :: "qtenv \<Rightarrow> filesys \<Rightarrow> ider_session \<Rightarrow> ider_session loop" where
  "iderStep env fs s = (if ide_inbox s = [] then Wait else iderDispatch env fs s)"

text \<open>
  None of the handlers looks at the inbox or at the counter of received bytes: replacing both
  before a handler is the same as replacing them after it.
\<close>

definition set_in :: "bytes \<Rightarrow> u64 \<Rightarrow> ider_session \<Rightarrow> ider_session" where
  "set_in x r s = s\<lparr>ide_inbox := x, ide_bytesReceived := r\<rparr>"

lemma set_in_fields [simp]:
  "ide_client (set_in x r s) = ide_client s"
  "ide_isoPath (set_in x r s) = ide_isoPath s"
  "ide_isoOpen (set_in x r s) = ide_isoOpen s"
  "ide_isoPos (set_in x r s) = ide_isoPos s"
  "ide_isoSize (set_in x r s) = ide_isoSize s"
  "ide_startOption (set_in x r s) = ide_startOption s"
  "ide_info (set_in x r s) = ide_info s"
  "ide_outSequence (set_in x r s) = ide_outSequence s"
  "ide_bytesSent (set_in x r s) = ide_bytesSent s"
  "ide_opened (set_in x r s) = ide_opened s"
  "ide_enabled (set_in x r s) = ide_enabled s"
  "ide_cdReady (set_in x r s) = ide_cdReady s"
  "ide_remaining (set_in x r s) = ide_remaining s"
  "ide_chunkDev (set_in x r s) = ide_chunkDev s"
  "ide_chunkFeature (set_in x r s) = ide_chunkFeature s"
  "ide_chunkSize (set_in x r s) = ide_chunkSize s"
  "ide_inFlight (set_in x r s) = ide_inFlight s"
  "ide_pending (set_in x r s) = ide_pending s"
  "ide_lastError (set_in x r s) = ide_lastError s"
  "ide_outs (set_in x r s) = ide_outs s"
  "ide_inbox (set_in x r s) = x" "ide_bytesReceived (set_in x r s) = r"
  by (simp_all add: set_in_def)

lemma set_in_update [simp]:
  "(set_in x r s)\<lparr>ide_client := v0\<rparr> = set_in x r (s\<lparr>ide_client := v0\<rparr>)"
  "(set_in x r s)\<lparr>ide_isoPath := v1\<rparr> = set_in x r (s\<lparr>ide_isoPath := v1\<rparr>)"
  "(set_in x r s)\<lparr>ide_isoOpen := v2\<rparr> = set_in x r (s\<lparr>ide_isoOpen := v2\<rparr>)"
  "(set_in x r s)\<lparr>ide_isoPos := v3\<rparr> = set_in x r (s\<lparr>ide_isoPos := v3\<rparr>)"
  "(set_in x r s)\<lparr>ide_isoSize := v4\<rparr> = set_in x r (s\<lparr>ide_isoSize := v4\<rparr>)"
  "(set_in x r s)\<lparr>ide_startOption := v5\<rparr> = set_in x r (s\<lparr>ide_startOption := v5\<rparr>)"
  "(set_in x r s)\<lparr>ide_info := v6\<rparr> = set_in x r (s\<lparr>ide_info := v6\<rparr>)"
  "(set_in x r s)\<lparr>ide_outSequence := v7\<rparr> = set_in x r (s\<lparr>ide_outSequence := v7\<rparr>)"
  "(set_in x r s)\<lparr>ide_bytesSent := v8\<rparr> = set_in x r (s\<lparr>ide_bytesSent := v8\<rparr>)"
  "(set_in x r s)\<lparr>ide_opened := v9\<rparr> = set_in x r (s\<lparr>ide_opened := v9\<rparr>)"
  "(set_in x r s)\<lparr>ide_enabled := v10\<rparr> = set_in x r (s\<lparr>ide_enabled := v10\<rparr>)"
  "(set_in x r s)\<lparr>ide_cdReady := v11\<rparr> = set_in x r (s\<lparr>ide_cdReady := v11\<rparr>)"
  "(set_in x r s)\<lparr>ide_remaining := v12\<rparr> = set_in x r (s\<lparr>ide_remaining := v12\<rparr>)"
  "(set_in x r s)\<lparr>ide_chunkDev := v13\<rparr> = set_in x r (s\<lparr>ide_chunkDev := v13\<rparr>)"
  "(set_in x r s)\<lparr>ide_chunkFeature := v14\<rparr> = set_in x r (s\<lparr>ide_chunkFeature := v14\<rparr>)"
  "(set_in x r s)\<lparr>ide_chunkSize := v15\<rparr> = set_in x r (s\<lparr>ide_chunkSize := v15\<rparr>)"
  "(set_in x r s)\<lparr>ide_inFlight := v16\<rparr> = set_in x r (s\<lparr>ide_inFlight := v16\<rparr>)"
  "(set_in x r s)\<lparr>ide_pending := v17\<rparr> = set_in x r (s\<lparr>ide_pending := v17\<rparr>)"
  "(set_in x r s)\<lparr>ide_lastError := v18\<rparr> = set_in x r (s\<lparr>ide_lastError := v18\<rparr>)"
  "(set_in x r s)\<lparr>ide_outs := v19\<rparr> = set_in x r (s\<lparr>ide_outs := v19\<rparr>)"
  by (simp_all add: set_in_def)

lemma set_in_self: "set_in (ide_inbox s) (ide_bytesReceived s) s = s"
  by (simp add: set_in_def)

lemma set_in_senders [simp]:
  "ide_emit e (set_in x r s) = set_in x r (ide_emit e s)"
  "ide_fail err (set_in x r s) = set_in x r (ide_fail err s)"
  "writeFrame env f (set_in x r s) = set_in x r (writeFrame env f s)"
  "writeNext env b (set_in x r s) = set_in x r (writeNext env b s)"
  "sendData env dev c d dma (set_in x r s) = set_in x r (sendData env dev c d dma s)"
  "sendOk env dev (set_in x r s) = set_in x r (sendOk env dev s)"
  "sendError env dev k a q (set_in x r s) = set_in x r (sendError env dev k a q s)"
proof -
  show e: "ide_emit e (set_in x r s) = set_in x r (ide_emit e s)" for e s
    by (simp add: ide_emit_def)
  show f: "ide_fail err (set_in x r s) = set_in x r (ide_fail err s)" for err s
    by (simp add: ide_fail_def Let_def e)
  show w: "writeFrame env f (set_in x r s) = set_in x r (writeFrame env f s)" for f s
    by (simp add: writeFrame_def Let_def f split: prod.split)
  show n: "writeNext env b (set_in x r s) = set_in x r (writeNext env b s)" for b s
    by (simp add: writeNext_def w)
  show "sendData env dev c d dma (set_in x r s) = set_in x r (sendData env dev c d dma s)"
    "sendOk env dev (set_in x r s) = set_in x r (sendOk env dev s)"
    "sendError env dev k a q (set_in x r s) = set_in x r (sendError env dev k a q s)"
    by (simp_all add: sendData_def sendOk_def sendError_def n)
qed

lemmas scsi_handlers =
  scsiTestUnitReady_def scsiModeSense6_def scsiModeSense10_def scsiAllowMediumRemoval_def
  scsiStartStop_def scsiReadCapacity_def scsiReadToc_def scsiGetConfiguration_def
  scsiGetEventStatus_def scsiReadFormatCapacities_def

lemma set_in_read [simp]:
  "scsiRead env fs cdb dev fr ten (set_in x r s) = set_in x r (scsiRead env fs cdb dev fr ten s)"
  by (simp add: scsiRead_def Let_def split: option.split)

lemma set_in_scsi [simp]:
  "scsiTestUnitReady env dev (set_in x r s) = set_in x r (scsiTestUnitReady env dev s)"
  "scsiModeSense6 env cdb dev fr (set_in x r s) = set_in x r (scsiModeSense6 env cdb dev fr s)"
  "scsiModeSense10 env cdb dev fr (set_in x r s) = set_in x r (scsiModeSense10 env cdb dev fr s)"
  "scsiAllowMediumRemoval env dev (set_in x r s) = set_in x r (scsiAllowMediumRemoval env dev s)"
  "scsiStartStop env dev (set_in x r s) = set_in x r (scsiStartStop env dev s)"
  "scsiReadCapacity env dev fr (set_in x r s) = set_in x r (scsiReadCapacity env dev fr s)"
  "scsiReadToc env cdb dev fr (set_in x r s) = set_in x r (scsiReadToc env cdb dev fr s)"
  "scsiGetConfiguration env cdb dev fr (set_in x r s) = set_in x r (scsiGetConfiguration env cdb dev fr s)"
  "scsiGetEventStatus env cdb dev fr (set_in x r s) = set_in x r (scsiGetEventStatus env cdb dev fr s)"
  "scsiReadFormatCapacities env dev fr (set_in x r s) = set_in x r (scsiReadFormatCapacities env dev fr s)"
  by (simp_all add: scsi_handlers Let_def)

lemma set_in_handlers [simp]:
  "onOpenSessionReply env info (set_in x r s) = set_in x r (onOpenSessionReply env info s)"
  "onStatusData env ty v (set_in x r s) = set_in x r (onStatusData env ty v s)"
  "handleScsi env fs cmd (set_in x r s) = set_in x r (handleScsi env fs cmd s)"
  by (simp_all add: onOpenSessionReply_def onStatusData_def handleScsi_def Let_def)

definition inbox_free :: "(ider_session \<Rightarrow> ider_session) \<Rightarrow> bool" where
  "inbox_free h \<longleftrightarrow> (\<forall>x r s. h (set_in x r s) = set_in x r (h s))"

lemma inbox_freeI [intro]: "(\<And>x r s. h (set_in x r s) = set_in x r (h s)) \<Longrightarrow> inbox_free h"
  by (simp add: inbox_free_def)

lemma inbox_free_keeps:
  assumes "inbox_free h"
  shows "ide_inbox (h s) = ide_inbox s" and "ide_bytesReceived (h s) = ide_bytesReceived s"
proof -
  have "h s = set_in (ide_inbox s) (ide_bytesReceived s) (h s)"
    using assms set_in_self [of s] unfolding inbox_free_def by metis
  then show "ide_inbox (h s) = ide_inbox s" "ide_bytesReceived (h s) = ide_bytesReceived s"
    by (metis set_in_fields(21), metis set_in_fields(22))
qed

definition ide_feed :: "bytes \<Rightarrow> ider_session \<Rightarrow> ider_session" where
  "ide_feed b s = set_in (ide_inbox s @ b) (ide_bytesReceived s + of_nat (length b)) s"

lemma inbox_free_feed: "inbox_free h \<Longrightarrow> h (ide_feed b s) = ide_feed b (h s)"
  using inbox_free_keeps [of h s] by (simp add: ide_feed_def inbox_free_def)

lemma popFrame_feed: "n \<le> length (ide_inbox s) \<Longrightarrow> popFrame n (ide_feed b s) = ide_feed b (popFrame n s)"
  by (simp add: popFrame_def ide_feed_def set_in_def)

text \<open>One branch of the loop: it removes a frame, and a longer inbox does not change its decision.\<close>

definition good_branch :: "(ider_session \<Rightarrow> ider_session loop) \<Rightarrow> bool" where
  "good_branch f \<longleftrightarrow>
     (\<forall>b s. ide_inbox s \<noteq> [] \<longrightarrow> f s \<noteq> Wait \<longrightarrow> f (ide_feed b s) = map_loop (ide_feed b) (f s)) \<and>
     (\<forall>s t. f s = Next t \<longrightarrow> length (ide_inbox t) < length (ide_inbox s))"

lemma good_branch_parse:
  assumes "stream_parser p" and "\<And>x. inbox_free (h x)"
    and "\<And>s x n. p (ide_inbox s) = Some (x, n) \<Longrightarrow> f s = k (h x (popFrame n s))"
    and "\<And>s. p (ide_inbox s) = None \<Longrightarrow> f s = Wait" and "k = Next \<or> k = Halt"
  shows "good_branch f"
  unfolding good_branch_def
proof (intro conjI allI impI)
  fix b s
  assume "f s \<noteq> Wait"
  then obtain x n where p: "p (ide_inbox s) = Some (x, n)"
    using assms(4) by fastforce
  moreover from this have "p (ide_inbox (ide_feed b s)) = Some (x, n)"
    by (simp add: ide_feed_def stream_parser.parse_append [OF assms(1)])
  moreover have "n \<le> length (ide_inbox s)"
    using stream_parser.parse_consumes [OF assms(1) p] by simp
  ultimately show "f (ide_feed b s) = map_loop (ide_feed b) (f s)"
    using assms(3) [of s x n] assms(3) [of "ide_feed b s" x n] assms(5)
    by (auto simp: popFrame_feed inbox_free_feed [OF assms(2)])
next
  fix s t
  assume t: "f s = Next t"
  then obtain x n where p: "p (ide_inbox s) = Some (x, n)"
    using assms(4) by fastforce
  with t assms(3) [OF p] assms(5) have "t = h x (popFrame n s)"
    by auto
  then show "length (ide_inbox t) < length (ide_inbox s)"
    using stream_parser.parse_consumes [OF assms(1) p] inbox_free_keeps(1) [OF assms(2)]
    by (auto simp: popFrame_def)
qed

lemma good_branch_onFixed:
  assumes "0 < n" and "inbox_free act"
  shows "good_branch (onFixed cmd n act)"
proof (rule good_branch_parse [where p = "tryParseFixed (Command_byte cmd) n" and h = "\<lambda>_. act" and k = Next])
  show "stream_parser (tryParseFixed (Command_byte cmd) n)"
    using assms(1) fixed_frame.stream_parser_axioms [of "Command_byte cmd" "n - 1"] by simp
qed (simp_all add: onFixed_def assms(2))

lemma good_branch_open_reply:
  "good_branch (\<lambda>s. case tryParseOpenSessionReply (ide_inbox s) of None \<Rightarrow> Wait
     | Some (info, n) \<Rightarrow> Next (onOpenSessionReply env info (popFrame n s)))"
  by (rule good_branch_parse [OF open_session_reply.stream_parser_axioms,
        where h = "onOpenSessionReply env" and k = Next]) auto

lemma good_branch_close:
  "good_branch (\<lambda>s. case tryParseFixed (Command_byte CmdClose) 8 (ide_inbox s) of None \<Rightarrow> Wait
     | Some (_, n) \<Rightarrow> Halt (ide_fail ClosedByAmt (popFrame n s)))"
  using fixed_frame.stream_parser_axioms [of "Command_byte CmdClose" 7]
  by (intro good_branch_parse [where p = "tryParseFixed (Command_byte CmdClose) 8"
        and h = "\<lambda>_. ide_fail ClosedByAmt" and k = Halt]) auto

lemma good_branch_status:
  "good_branch (\<lambda>s. case tryParseStatusData (ide_inbox s) of None \<Rightarrow> Wait
     | Some (sd, n) \<Rightarrow> Next (onStatusData env (sd_type sd) (sd_value sd) (popFrame n s)))"
  by (rule good_branch_parse [OF status_data.stream_parser_axioms,
        where h = "\<lambda>sd. onStatusData env (sd_type sd) (sd_value sd)" and k = Next]) auto

lemma good_branch_scsi:
  "good_branch (\<lambda>s. case tryParseCommandWritten (ide_inbox s) of None \<Rightarrow> Wait
     | Some (cmd, n) \<Rightarrow> Next (handleScsi env fs cmd (popFrame n s)))"
  by (rule good_branch_parse [OF command_written.stream_parser_axioms,
        where h = "handleScsi env fs" and k = Next]) auto

lemma good_branch_answered:
  "good_branch (onFixed CmdKeepAlivePing 8 (writeNext env buildKeepAlivePong))"
  "good_branch (onFixed CmdResetOccurred 9 (writeNext env buildResetResponse))"
  by (rule good_branch_onFixed; auto)+

lemma good_branch_ignored:
  "good_branch (onFixed CmdKeepAlivePong 8 (\<lambda>s. s))"
  "good_branch (onFixed CmdErrorOccurred 11 (\<lambda>s. s))"
  "good_branch (onFixed CmdHeartbeat 8 (\<lambda>s. s))"
  by (rule good_branch_onFixed; auto)+

lemmas good_branches =
  good_branch_open_reply [of env] good_branch_close good_branch_status [of env]
  good_branch_scsi [of env fs] good_branch_answered [of env] good_branch_ignored for env fs

lemma good_branch_if:
  assumes "good_branch f" and "good_branch g"
  shows "good_branch (\<lambda>s. if peekTag (ide_inbox s) = k then f s else g s)"
proof -
  have "peekTag (ide_inbox (ide_feed b s)) = peekTag (ide_inbox s)" if "ide_inbox s \<noteq> []" for b s
    using that by (simp add: ide_feed_def peekTag_def nth_append)
  then show ?thesis
    using assms by (simp add: good_branch_def)
qed

lemma good_branch_unknown: "good_branch (\<lambda>s. Halt (ide_fail (UnknownIderCommand (peekTag (ide_inbox s))) s))"
proof -
  have "peekTag (ide_inbox (ide_feed b s)) = peekTag (ide_inbox s)" if "ide_inbox s \<noteq> []" for b s
    using that by (simp add: ide_feed_def peekTag_def nth_append)
  then show ?thesis
    by (simp add: good_branch_def inbox_free_feed [OF inbox_freeI])
qed

lemma good_dispatch: "good_branch (iderDispatch env fs)"
  unfolding iderDispatch_def Let_def
  by (intro good_branch_if good_branches good_branch_unknown)

lemma iderStep_feed:
  "iderStep env fs s \<noteq> Wait \<Longrightarrow> iderStep env fs (ide_feed b s) = map_loop (ide_feed b) (iderStep env fs s)"
  using good_dispatch [of env fs] by (auto simp: iderStep_def good_branch_def ide_feed_def split: if_splits)

lemma iderStep_consumes:
  "iderStep env fs s = Next t \<Longrightarrow> length (ide_inbox t) < length (ide_inbox s)"
  using good_dispatch [of env fs] by (simp add: iderStep_def good_branch_def split: if_splits)

function ide_drainInbox :: "qtenv \<Rightarrow> filesys \<Rightarrow> ider_session \<Rightarrow> ider_session" where
  "ide_drainInbox env fs s =
     (case iderStep env fs s of Wait \<Rightarrow> s | Halt t \<Rightarrow> t | Next t \<Rightarrow> ide_drainInbox env fs t)"
  by pat_completeness auto
termination
  by (relation "measure (\<lambda>(env, fs, s). length (ide_inbox s))") (simp_all add: iderStep_consumes)

declare ide_drainInbox.simps [simp del]

definition ide_onRawBytes :: "qtenv \<Rightarrow> filesys \<Rightarrow> bytes \<Rightarrow> ider_session \<Rightarrow> ider_session" where
  "ide_onRawBytes env fs chunk s =
     ide_drainInbox env fs (s\<lparr>ide_bytesReceived := ide_bytesReceived s + of_nat (length chunk),
                              ide_inbox := ide_inbox s @ chunk\<rparr>)"

definition ide_onClientFailed :: "redir_error \<Rightarrow> ider_session \<Rightarrow> ider_session" where
  "ide_onClientFailed reason = ide_fail (IderClientFailed reason)"

interpretation ide_loop:
  stream_loop "iderStep env fs" ide_inbox ide_feed "ide_drainInbox env fs" ide_feed id for env fs
proof
  show "ide_drainInbox env fs s =
          (case iderStep env fs s of Wait \<Rightarrow> s | Halt t \<Rightarrow> t | Next t \<Rightarrow> ide_drainInbox env fs t)" for s
    by (rule ide_drainInbox.simps)
  show "feeds_through ide_feed ide_feed id (iderStep env fs) s b" for s b
    by (rule feeds_through_map) (rule iderStep_feed)
  show "ide_feed (a @ b) s = ide_feed b (ide_feed a s)" for a b s
    by (simp add: ide_feed_def set_in_def add.assoc)
  show "ide_feed [] s = s" for s
    by (simp add: ide_feed_def set_in_def)
qed (rule iderStep_consumes)

lemma ide_onRawBytes_feed: "ide_onRawBytes env fs = (\<lambda>b s. ide_drainInbox env fs (ide_feed b s))"
proof (intro ext)
  fix b s
  have "s\<lparr>ide_bytesReceived := r, ide_inbox := x\<rparr> = set_in x r s" for x r
    by (cases s) (simp add: set_in_def)
  then show "ide_onRawBytes env fs b s = ide_drainInbox env fs (ide_feed b s)"
    by (simp only: ide_onRawBytes_def ide_feed_def)
qed

section \<open>What a SCSI command can do\<close>

text \<open>
  Whatever the firmware asks, a command does one of five things: nothing, write one frame, note
  that the medium was announced and write one frame, refuse an interleaved read, or arm a read.
\<close>

inductive scsi_effect :: "qtenv \<Rightarrow> ider_session \<Rightarrow> ider_session \<Rightarrow> bool" for env s where
  idle: "scsi_effect env s s"
| answer: "scsi_effect env s (writeNext env b s)"
| announce: "scsi_effect env s (writeNext env b (s\<lparr>ide_cdReady := True\<rparr>))"
| refuse: "ide_inFlight s \<Longrightarrow> scsi_effect env s (ide_fail InterleavedRead s)"
| arm: "\<not> ide_inFlight s \<Longrightarrow> ide_isoOpen s \<Longrightarrow>
    scsi_effect env s (s\<lparr>ide_isoPos := pos, ide_remaining := rem, ide_chunkDev := dev,
      ide_chunkFeature := fr, ide_chunkSize := chunk, ide_inFlight := True,
      ide_pending := Suc (ide_pending s)\<rparr>)"

lemma send_effect [simp]:
  "scsi_effect env s (sendData env dev c d dma s)" "scsi_effect env s (sendOk env dev s)"
  "scsi_effect env s (sendError env dev k a q s)"
  "scsi_effect env s (sendError env dev k a q (s\<lparr>ide_cdReady := True\<rparr>))"
  unfolding sendData_def sendOk_def sendError_def
  by (rule scsi_effect.answer scsi_effect.announce)+

lemma read_effect: "scsi_effect env s (scsiRead env fs cdb dev fr ten s)"
  by (auto simp: scsiRead_def Let_def intro: scsi_effect.refuse scsi_effect.arm split: option.split)

lemma handler_effects:
  "scsi_effect env s (scsiTestUnitReady env dev s)"
  "scsi_effect env s (scsiModeSense6 env cdb dev fr s)"
  "scsi_effect env s (scsiModeSense10 env cdb dev fr s)"
  "scsi_effect env s (scsiAllowMediumRemoval env dev s)"
  "scsi_effect env s (scsiStartStop env dev s)"
  "scsi_effect env s (scsiReadCapacity env dev fr s)"
  "scsi_effect env s (scsiReadToc env cdb dev fr s)"
  "scsi_effect env s (scsiGetConfiguration env cdb dev fr s)"
  "scsi_effect env s (scsiGetEventStatus env cdb dev fr s)"
  "scsi_effect env s (scsiReadFormatCapacities env dev fr s)"
  by (simp_all add: scsi_handlers Let_def)

lemma handleScsi_effect: "scsi_effect env s (handleScsi env fs cmd s)"
  by (simp add: handleScsi_def Let_def handler_effects read_effect scsi_effect.idle)

section \<open>One read at a time\<close>

definition read_inv :: "ider_session \<Rightarrow> bool" where
  "read_inv s \<longleftrightarrow> ide_pending s = (if ide_inFlight s then 1 else 0)"

lemma read_inv_senders [simp]:
  "ide_pending (ide_emit x s) = ide_pending s" "ide_inFlight (ide_emit x s) = ide_inFlight s"
  "ide_pending (ide_fail e s) = ide_pending s" "ide_inFlight (ide_fail e s) = ide_inFlight s"
  "ide_pending (writeFrame env f s) = ide_pending s" "ide_inFlight (writeFrame env f s) = ide_inFlight s"
  "ide_pending (writeNext env b s) = ide_pending s" "ide_inFlight (writeNext env b s) = ide_inFlight s"
  "ide_remaining (ide_emit x s) = ide_remaining s" "ide_remaining (ide_fail e s) = ide_remaining s"
  "ide_remaining (writeFrame env f s) = ide_remaining s"
  "ide_remaining (writeNext env b s) = ide_remaining s"
  by (simp_all add: ide_emit_def ide_fail_def writeFrame_def writeNext_def Let_def split: prod.split)

lemma read_inv_effect: "scsi_effect env s t \<Longrightarrow> read_inv s \<Longrightarrow> read_inv t"
  by (induction rule: scsi_effect.induct) (simp_all add: read_inv_def)

lemma read_inv_pop [simp]: "read_inv (popFrame n s) = read_inv s" "read_inv (ide_feed b s) = read_inv s"
  by (simp_all add: read_inv_def popFrame_def ide_feed_def)

lemma read_inv_step:
  assumes "read_inv s"
  shows "iderStep env fs s = Next t \<Longrightarrow> read_inv t" and "iderStep env fs s = Halt t \<Longrightarrow> read_inv t"
proof -
  have scsi: "read_inv (handleScsi env fs cmd (popFrame n s))" for cmd n
    using assms by (simp add: read_inv_effect [OF handleScsi_effect])
  have open_reply: "read_inv (onOpenSessionReply env info (popFrame n s))" for info n
    using assms by (simp add: onOpenSessionReply_def Let_def read_inv_def popFrame_def)
  have status: "read_inv (onStatusData env ty v (popFrame n s))" for ty v n
    using assms by (simp add: onStatusData_def Let_def read_inv_def popFrame_def)
  have act: "read_inv (writeNext env b (popFrame n s))" "read_inv (popFrame n s)"
    "read_inv (ide_fail e (popFrame n s))" "read_inv (ide_fail e s)" for b n e
    using assms by (simp_all add: read_inv_def popFrame_def)
  show "iderStep env fs s = Next t \<Longrightarrow> read_inv t" "iderStep env fs s = Halt t \<Longrightarrow> read_inv t"
    by (auto simp: assms iderStep_def iderDispatch_def onFixed_def Let_def scsi open_reply status act
        split: if_split_asm option.split_asm)
qed

lemma read_inv_chunk:
  assumes "read_inv s" and "0 < ide_pending s"
  shows "read_inv (sendNextScsiChunk env fs s)"
  using assms
  by (auto simp: read_inv_def sendNextScsiChunk_def sendError_def sendData_def Let_def split: if_splits)

inductive ider_step :: "qtenv \<Rightarrow> filesys \<Rightarrow> ider_session \<Rightarrow> ider_session \<Rightarrow> bool" for env fs where
  set_path: "ider_step env fs s (s\<lparr>ide_isoPath := path\<rparr>)"
| set_option: "ider_step env fs s (s\<lparr>ide_startOption := opt\<rparr>)"
| start: "ider_step env fs s (ide_start env fs s)"
| raw_bytes: "ider_step env fs s (ide_onRawBytes env fs b s)"
| timer: "0 < ide_pending s \<Longrightarrow> ider_step env fs s (sendNextScsiChunk env fs s)"
| client_failed: "ider_step env fs s (ide_onClientFailed e s)"

inductive ider_reachable :: "qtenv \<Rightarrow> filesys \<Rightarrow> ider_session \<Rightarrow> bool" for env fs where
  ider_init: "ider_reachable env fs (newIderSession c)"
| ider_next: "ider_reachable env fs s \<Longrightarrow> ider_step env fs s t \<Longrightarrow> ider_reachable env fs t"

lemma ider_step_inv: "ider_step env fs s t \<Longrightarrow> read_inv s \<Longrightarrow> read_inv t"
proof (induction rule: ider_step.induct)
  case (raw_bytes s b)
  then have "read_inv (ide_feed b s)" by simp
  then show ?case
    unfolding ide_onRawBytes_feed
    by (rule ide_loop.drain_invariant [where P = read_inv]) (auto intro: read_inv_step)
qed (simp_all add: read_inv_chunk, simp_all add: read_inv_def ide_start_def ide_onClientFailed_def Let_def)

lemma ider_reachable_inv: "ider_reachable env fs s \<Longrightarrow> read_inv s"
proof (induction rule: ider_reachable.induct)
  case (ider_init c)
  show ?case by (simp add: newIderSession_def read_inv_def)
next
  case (ider_next s t)
  then show ?case by (blast intro: ider_step_inv)
qed

section \<open>Serving a read\<close>

text \<open>
  The firmware's side of a read: consecutive 0x54 frames with consecutive sequence numbers, each
  announcing its own length, which must fit the firmware's read buffer of \<open>cap\<close> bytes, up to the one with
  the completion bit, which must be the last.
\<close>

function host_read :: "nat \<Rightarrow> u32 \<Rightarrow> bytes \<Rightarrow> bytes option" where
  "host_read cap q w =
     (if length w < 34 \<or> w ! 0 \<noteq> 0x54 \<or> ider_read32Le w 4 \<noteq> q then None
      else
        let n = unat (ider_read16Le w 9); d = mid w 34 n
        in if n > cap \<or> length w < 34 + n then None
           else if w ! 3 AND 0x02 \<noteq> 0 then (if length w = 34 + n then Some d else None)
           else map_option (\<lambda>r. d @ r) (host_read cap (q + 1) (drop (34 + n) w)))"
  by pat_completeness auto
termination
  by (relation "measure (\<lambda>(cap, q, w). length w)") auto

declare host_read.simps [simp del]

lemma data_frame_bytes:
  shows "buildSendDataToHost q dev c d dma ! 0 = 0x54" "buildSendDataToHost q dev c d dma ! 3 AND 0x02 \<noteq> 0 \<longleftrightarrow> c" "ider_read32Le (buildSendDataToHost q dev c d dma) 4 = q"
    "ider_read16Le (buildSendDataToHost q dev c d dma) 9 = of_nat (length d)" "drop 34 (buildSendDataToHost q dev c d dma) = d"
proof -
  show "buildSendDataToHost q dev c d dma ! 0 = 0x54"
    by (simp add: buildSendDataToHost_def packHeader_def Let_def)
  show "buildSendDataToHost q dev c d dma ! 3 AND 0x02 \<noteq> 0 \<longleftrightarrow> c"
    by (simp add: buildSendDataToHost_def packHeader_def Let_def)
  show "drop 34 (buildSendDataToHost q dev c d dma) = d"
    by (simp add: buildSendDataToHost_def Let_def)
  show "ider_read32Le (buildSendDataToHost q dev c d dma) 4 = q"
    unfolding buildSendDataToHost_def packHeader_def Let_def append_assoc
    by (rule ider_le32.read_hit) simp
  have "buildSendDataToHost q dev c d dma ! 9 = ucast (of_nat (length d) :: u16)" "buildSendDataToHost q dev c d dma ! 10 = ucast (drop_bit 8 (of_nat (length d) :: u16))"
    by (simp_all add: buildSendDataToHost_def Let_def nth_append nth_list_update and_FF ucast_take_byte)
  then show "ider_read16Le (buildSendDataToHost q dev c d dma) 9 = of_nat (length d)"
    by (simp add: ider_read16Le_def word16_of_bytes)
qed

lemma host_read_frame:
  assumes "length d \<le> cap" and "cap \<le> 65535"
  shows "host_read cap q (buildSendDataToHost q dev True d dma) = Some d"
    and "host_read cap q (buildSendDataToHost q dev False d dma @ w) = map_option (\<lambda>r. d @ r) (host_read cap (q + 1) w)"
proof -
  note frame = data_frame_bytes [of q dev _ d dma]
  have len: "unat (of_nat (length d) :: u16) = length d"
    using assms by (simp add: unat_of_nat)
  have d: "mid (buildSendDataToHost q dev c d dma) 34 (length d) = d" for c
    by (simp add: mid_def frame(5))
  have app: "(buildSendDataToHost q dev c d dma @ w) ! 0 = 0x54"
    "(buildSendDataToHost q dev c d dma @ w) ! 3 = buildSendDataToHost q dev c d dma ! 3"
    "ider_read32Le (buildSendDataToHost q dev c d dma @ w) 4 = q"
    "ider_read16Le (buildSendDataToHost q dev c d dma @ w) 9 = of_nat (length d)" for c
    using frame(1,3,4) [of c] by (simp_all add: nth_append ider_le32.read_append ider_le16.read_append)
  show "host_read cap q (buildSendDataToHost q dev True d dma) = Some d"
    using frame(1-4) [of True] len d [of True] assms(1)
    by (subst host_read.simps) (simp add: Let_def)
  show "host_read cap q (buildSendDataToHost q dev False d dma @ w) = map_option (\<lambda>r. d @ r) (host_read cap (q + 1) w)"
    using frame(2) [of False] len d [of False] app [of False] assms(1)
    by (subst host_read.simps) (simp add: Let_def)
qed

text \<open>What the session needs of the environment: a socket that takes whole frames, and a file that
  can be positioned and returns its own bytes.\<close>

definition serves :: "filesys \<Rightarrow> qstring \<Rightarrow> bytes \<Rightarrow> bool" where
  "serves fs path content \<longleftrightarrow>
     (\<forall>p. p \<le> length content \<longrightarrow> f_seek fs path p) \<and> (\<forall>p n. f_read fs path p n = mid content p n)"

lemma writeNext_ok:
  assumes "writes_complete env" and "connected_client (ide_client s)" and "build (ide_outSequence s) \<noteq> []"
  shows "writeNext env build s =
           s\<lparr>ide_client := snd (writeRaw env (build (ide_outSequence s)) (ide_client s)),
             ide_outSequence := ide_outSequence s + 1,
             ide_bytesSent := ide_bytesSent s + of_nat (length (build (ide_outSequence s)))\<rparr>"
  using assms
  by (cases s) (auto simp: writeNext_def writeFrame_def writes_complete_def writeRaw_def sockWrite_def
      connected_client_def Let_def)

definition reading :: "bytes \<Rightarrow> ider_session \<Rightarrow> bool" where
  "reading content s \<longleftrightarrow> ide_isoOpen s \<and> ide_inFlight s \<and> ide_pending s = 1
     \<and> connected_client (ide_client s) \<and> 0 < unat (ide_chunkSize s) \<and> unat (ide_chunkSize s) \<le> 65535
     \<and> 0 < unat (ide_remaining s) \<and> ide_isoPos s + unat (ide_remaining s) \<le> length content"

lemma chunk_sent:
  assumes "writes_complete env" and "serves fs (ide_isoPath s) content" and "reading content s"
  defines "want \<equiv> min (ide_remaining s) (ide_chunkSize s)"
  defines "data \<equiv> mid content (ide_isoPos s) (unat want)"
  defines "fin \<equiv> ide_remaining s = want"
  defines "frame \<equiv> buildSendDataToHost (ide_outSequence s) (ide_chunkDev s) fin data (dmaBit (ide_chunkFeature s))"
  shows "sendNextScsiChunk env fs s = s\<lparr>ide_isoPos := ide_isoPos s + unat want,
           ide_client := snd (writeRaw env frame (ide_client s)),
           ide_outSequence := ide_outSequence s + 1,
           ide_bytesSent := ide_bytesSent s + of_nat (length frame),
           ide_remaining := ide_remaining s - want, ide_inFlight := \<not> fin,
           ide_pending := (if fin then 0 else 1)\<rparr>"
proof -
  have r: "ide_isoOpen s" "ide_inFlight s" "ide_pending s = 1" "connected_client (ide_client s)"
    "0 < unat (ide_remaining s)" "ide_isoPos s + unat (ide_remaining s) \<le> length content"
    using assms(3) by (simp_all add: reading_def)
  have "want \<le> ide_remaining s"
    by (simp add: want_def)
  then have le: "unat want \<le> unat (ide_remaining s)"
    by (simp add: word_le_nat_alt)
  have nz: "ide_remaining s \<noteq> 0"
    using r(5) by auto
  have read: "f_read fs (ide_isoPath s) (ide_isoPos s) (unat want) = data" and len: "length data = unat want"
    using assms(2) r(6) le by (simp_all add: serves_def data_def length_mid)
  have frame: "buildSendDataToHost q dev c data dma \<noteq> []" for q dev c dma
    using length_buildSendDataToHost [of q dev c data dma] by (metis add_is_0 length_0_conv zero_neq_numeral)
  have diff: "ide_remaining s - want = 0 \<longleftrightarrow> fin"
    by (simp add: fin_def)
  have mw: "min want (ide_chunkSize s) = want"
    by (simp add: want_def min_def)
  have gt: "(0 :: u64) < x \<longleftrightarrow> x \<noteq> 0" for x
    by (simp add: word_neq_0_conv)
  show ?thesis
    unfolding sendNextScsiChunk_def sendData_def Let_def
    by (cases fin)
      (use r nz read len diff mw in \<open>simp_all add: writeNext_ok [OF assms(1)] frame frame_def gt
         flip: want_def\<close>)
qed

lemma chunk_reading:
  assumes "writes_complete env" and "serves fs (ide_isoPath s) content" and "reading content s"
    and "ide_remaining s \<noteq> min (ide_remaining s) (ide_chunkSize s)"
  shows "reading content (sendNextScsiChunk env fs s)"
    and "unat (ide_remaining (sendNextScsiChunk env fs s)) < unat (ide_remaining s)"
proof -
  define want where "want = min (ide_remaining s) (ide_chunkSize s)"
  have r: "0 < unat (ide_chunkSize s)" "ide_isoPos s + unat (ide_remaining s) \<le> length content"
    "0 < unat (ide_remaining s)"
    using assms(3) by (simp_all add: reading_def)
  have "want \<le> ide_remaining s" by (simp add: want_def)
  then have u: "unat (ide_remaining s - want) = unat (ide_remaining s) - unat want"
    "unat want \<le> unat (ide_remaining s)"
    by (simp_all add: unat_sub word_le_nat_alt)
  moreover have "unat want \<noteq> unat (ide_remaining s)"
    using assms(4) by (simp add: want_def word_unat_eq_iff)
  moreover have "0 < unat want"
    using r(1,3) by (simp add: want_def min_def)
  ultimately show "reading content (sendNextScsiChunk env fs s)"
    "unat (ide_remaining (sendNextScsiChunk env fs s)) < unat (ide_remaining s)"
    using assms(3,4) r(2)
    by (simp_all add: chunk_sent [OF assms(1-3)] reading_def redir_transport.write_up flip: want_def)
qed

lemma read_completes:
  assumes "writes_complete env"
  shows "serves fs (ide_isoPath s) content \<Longrightarrow> reading content s \<Longrightarrow>
    \<exists>k w. let t = (sendNextScsiChunk env fs ^^ k) s in
      ide_pending t = 0 \<and> \<not> ide_inFlight t \<and> wire (ide_client t) = wire (ide_client s) @ w
      \<and> host_read (unat (ide_chunkSize s)) (ide_outSequence s) w = Some (mid content (ide_isoPos s) (unat (ide_remaining s)))"
proof (induction "unat (ide_remaining s)" arbitrary: s rule: less_induct)
  case less
  define want where "want = min (ide_remaining s) (ide_chunkSize s)"
  define data where "data = mid content (ide_isoPos s) (unat want)"
  define fin where "fin = (ide_remaining s = want)"
  define t where "t = sendNextScsiChunk env fs s"
  define frame where "frame = buildSendDataToHost (ide_outSequence s) (ide_chunkDev s) fin data
    (dmaBit (ide_chunkFeature s))"
  note sent = chunk_sent [OF assms less.prems, folded want_def, folded data_def fin_def, folded frame_def]
  have up: "connected_client (ide_client s)"
    using less.prems by (simp add: reading_def)
  have wire: "wire (ide_client t) = wire (ide_client s) @ frame"
    by (simp add: t_def sent redir_transport.write_wire [OF up])
  have "unat want \<le> unat (ide_chunkSize s)"
    by (simp add: want_def flip: word_le_nat_alt)
  then have short: "length data \<le> unat (ide_chunkSize s)" "unat (ide_chunkSize s) \<le> 65535"
    using less.prems by (auto simp: data_def mid_def reading_def)
  show ?case
  proof (cases fin)
    case True
    then have "frame = buildSendDataToHost (ide_outSequence s) (ide_chunkDev s) True data
        (dmaBit (ide_chunkFeature s))" and "data = mid content (ide_isoPos s) (unat (ide_remaining s))"
      by (simp_all add: frame_def data_def fin_def)
    with True show ?thesis
      using host_read_frame(1) [OF short] wire
      by (intro exI [of _ 1] exI [of _ frame]) (simp add: sent t_def)
  next
    case False
    then have ne: "ide_remaining s \<noteq> min (ide_remaining s) (ide_chunkSize s)"
      by (simp add: fin_def want_def)
    note rd = chunk_reading [OF assms less.prems ne, folded t_def]
    have path: "ide_isoPath t = ide_isoPath s" "ide_chunkSize t = ide_chunkSize s"
      by (simp_all add: t_def sent)
    with less.hyps [OF rd(2) _ rd(1)] less.prems(1) obtain k w where
      kw: "let u = (sendNextScsiChunk env fs ^^ k) t in
        ide_pending u = 0 \<and> \<not> ide_inFlight u \<and> wire (ide_client u) = wire (ide_client t) @ w
        \<and> host_read (unat (ide_chunkSize s)) (ide_outSequence t) w = Some (mid content (ide_isoPos t) (unat (ide_remaining t)))"
      by auto
    have "want \<le> ide_remaining s" by (simp add: want_def)
    then have "unat (ide_remaining s - want) = unat (ide_remaining s) - unat want"
      and "unat want \<le> unat (ide_remaining s)"
      by (simp_all add: unat_sub word_le_nat_alt)
    then have split: "data @ mid content (ide_isoPos t) (unat (ide_remaining t))
        = mid content (ide_isoPos s) (unat (ide_remaining s))"
      using take_add [of "unat want" "unat (ide_remaining s) - unat want" "drop (ide_isoPos s) content"]
      by (simp add: data_def t_def sent mid_def add.commute)
    have "frame = buildSendDataToHost (ide_outSequence s) (ide_chunkDev s) False data
        (dmaBit (ide_chunkFeature s))" and "ide_outSequence t = ide_outSequence s + 1"
      using False by (simp_all add: frame_def t_def sent)
    with kw wire split show ?thesis
      by (intro exI [of _ "Suc k"] exI [of _ "frame @ w"])
        (simp add: host_read_frame(2) [OF short] Let_def funpow_Suc_right t_def del: funpow.simps)
  qed
qed

lemma unat_push_sector: "unat (push_bit 11 (ucast (x :: u32) :: u64)) = 2048 * unat x"
proof -
  have "unat x < 2 ^ 32"
    using unat_bound [of x] by simp
  moreover have "unat (ucast x :: u64) = unat x"
    by (simp add: unat_ucast_up)
  ultimately show ?thesis
    by (simp add: push_bit_eq_mult unat_word_ariths)
qed

lemma unat_extent: "unat ((ucast (x :: u32) :: u64) + ucast (y :: u32)) = unat x + unat y"
proof -
  have "unat x < 2 ^ 32" "unat y < 2 ^ 32"
    using unat_bound [of x] unat_bound [of y] by simp_all
  then show ?thesis
    by (simp add: unat_word_ariths unat_ucast_up)
qed

lemma unat_of_size:
  assumes "n < 2 ^ 63"
  shows "unat (drop_bit 11 (of_nat n :: u64)) = n div 2048"
proof -
  have "unat (of_nat n :: u64) = n"
    using assms by (simp add: unat_of_nat)
  then show ?thesis
    by (simp add: drop_bit_eq_div unat_div)
qed

section \<open>Properties\<close>

text \<open>C24: A READ serves exactly the sectors asked for. For a CD-ROM read inside an ISO file that
  returns its bytes, over a transport that takes whole frames, the timer continuation comes to an
  end, and what it put on the wire is a sequence of 0x54 frames with consecutive sequence numbers,
  only the last one marked complete, whose payloads are exactly the bytes of those sectors. No payload
  is larger than the read buffer the firmware announced in the negotiation, or than 8192 bytes when it
  announced none.\<close>

theorem ider_read_served:
  assumes "writes_complete env" and "connected_client (ide_client s)"
    and "serves fs (ide_isoPath s) content" and "ide_isoOpen s"
    and "ide_isoSize s = of_nat (length content)" and "length content < 2 ^ 63"
    and "\<not> ide_inFlight s" and "ide_pending s = 0"
    and "readExtent cdb ten = Some (lba, len)" and "len \<noteq> 0"
    and "unat lba + unat len \<le> length content div 2048"
  shows "\<exists>k w. let t = (sendNextScsiChunk env fs ^^ k) (scsiRead env fs cdb kDeviceCdRom fr ten s) in
           ide_pending t = 0 \<and> \<not> ide_inFlight t \<and> wire (ide_client t) = wire (ide_client s) @ w
           \<and> host_read (let n = unat (si_readBuffer (ide_info s)) in if n = 0 then 8192 else n) (ide_outSequence s) w
               = Some (mid content (2048 * unat lba) (2048 * unat len))"
proof -
  define r where "r = scsiRead env fs cdb kDeviceCdRom fr ten s"
  have "unat len \<noteq> 0"
    using assms(10) by (simp add: unat_eq_0)
  moreover have "2048 * unat lba + 2048 * unat len \<le> length content"
    using assms(11) by linarith
  moreover have "\<not> drop_bit 11 (ide_isoSize s) < (ucast lba :: u64) + ucast len"
    using assms(5,6,11) by (simp add: word_less_nat_alt unat_extent unat_of_size not_less)
  moreover have "unat (ucast b :: u64) = unat b \<and> unat b \<le> 65535" for b :: u16
    using unat_bound [of b] by (simp add: unat_ucast_up)
  moreover have "(ucast b :: u64) = 0 \<longleftrightarrow> b = 0" for b :: u16
    by (simp add: unat_ucast_up flip: unat_eq_0)
  moreover have "f_seek fs (ide_isoPath s) (2048 * unat lba)"
    using assms(3) calculation(2) by (simp add: serves_def)
  ultimately have "reading content r" "ide_isoPos r = 2048 * unat lba" "unat (ide_remaining r) = 2048 * unat len"
    "ide_isoPath r = ide_isoPath s" "ide_client r = ide_client s" "ide_outSequence r = ide_outSequence s"
    "unat (ide_chunkSize r) = (let n = unat (si_readBuffer (ide_info s)) in if n = 0 then 8192 else n)"
    using assms
    by (simp_all add: r_def scsiRead_def Let_def reading_def unat_push_sector kMaxReadCap_def word_gt_0
        unat_gt_0)
  with read_completes [OF assms(1), of fs r content] assms(3) show ?thesis
    by (simp add: r_def)
qed

definition demo_fs :: filesys where
  "demo_fs = \<lparr>f_open = (\<lambda>p. True), f_size = (\<lambda>p. 4096), f_seek = (\<lambda>p n. True),
     f_read = (\<lambda>p. mid (replicate 2048 1 @ replicate 2048 2))\<rparr>"

definition demo_ider :: ider_session where
  "demo_ider = (newIderSession (demo_client\<lparr>m_state := Authenticated\<rparr>))
     \<lparr>ide_isoPath := [105], ide_isoOpen := True, ide_isoSize := 4096, ide_info := emptyInfo\<lparr>si_readBuffer := 512\<rparr>\<rparr>"

theorem ider_read_served_witness:
  "\<exists>k w. let t = (sendNextScsiChunk demo_env demo_fs ^^ k)
               (scsiRead demo_env demo_fs [0x28, 0, 0, 0, 0, 1, 0, 0, 1, 0, 0, 0] kDeviceCdRom 0 True demo_ider) in
     ide_pending t = 0 \<and> \<not> ide_inFlight t \<and> wire (ide_client t) = wire (ide_client demo_ider) @ w
     \<and> host_read 512 0 w = Some (replicate 2048 2)"
proof -
  let ?c = "replicate 2048 1 @ replicate 2048 2 :: bytes"
  let ?cdb = "[0x28, 0, 0, 0, 0, 1, 0, 0, 1, 0, 0, 0] :: bytes"
  have "readExtent ?cdb True = Some (1, 1)"
    by (simp add: readExtent_def readBe32_def readBe16_def)
  moreover have "serves demo_fs (ide_isoPath demo_ider) ?c" "writes_complete demo_env"
    by (simp_all add: serves_def demo_fs_def writes_complete_def demo_env_def)
  moreover have "connected_client (ide_client demo_ider)" "ide_isoOpen demo_ider" "\<not> ide_inFlight demo_ider"
    "unat (si_readBuffer (ide_info demo_ider)) = 512" "ide_isoSize demo_ider = of_nat (length ?c)" "ide_pending demo_ider = 0" "ide_outSequence demo_ider = 0"
    by (simp_all add: demo_ider_def newIderSession_def connected_client_def demo_client_def)
  moreover have "mid ?c 2048 2048 = replicate 2048 2"
    by (simp add: mid_def)
  ultimately show ?thesis
    using ider_read_served [of demo_env demo_ider demo_fs ?c ?cdb True 1 1 0] by simp
qed

text \<open>A read that does not fit the medium is refused and leaves no trace: when the extent
  reaches past the last whole sector of the ISO, the session answers with one frame,
  CHECK CONDITION with ILLEGAL REQUEST and LOGICAL BLOCK ADDRESS OUT OF RANGE (05h/21h/00h), and
  neither the file position nor any chunk of a running read is touched.\<close>

theorem ider_read_out_of_range:
  assumes "writes_complete env" and "connected_client (ide_client s)" and "ide_isoOpen s"
    and "readExtent cdb ten = Some (lba, len)"
    and "unat (ide_isoSize s) div 2048 < unat lba + unat len"
  shows "let t = scsiRead env fs cdb kDeviceCdRom fr ten s in
           wire (ide_client t) = wire (ide_client s)
             @ buildCommandEndResponse (ide_outSequence s) False 0x05 kDeviceCdRom 0x21 0x00
           \<and> ide_isoPos t = ide_isoPos s \<and> ide_remaining t = ide_remaining s
           \<and> ide_inFlight t = ide_inFlight s \<and> ide_pending t = ide_pending s
           \<and> ide_outSequence t = ide_outSequence s + 1"
proof -
  have "drop_bit 11 (ide_isoSize s) < (ucast lba :: u64) + ucast len"
    using assms(5) by (simp add: word_less_nat_alt unat_extent drop_bit_eq_div unat_div)
  moreover have "buildCommandEndResponse q e k d a b \<noteq> []" for q e k d a b
    by (simp add: buildCommandEndResponse_def packHeader_def Let_def)
  ultimately show ?thesis
    using assms
    by (simp add: scsiRead_def sendError_def writeNext_ok [OF assms(1)] redir_transport.write_wire Let_def)
qed

theorem ider_read_out_of_range_witness:
  "ide_outSequence (scsiRead demo_env demo_fs [0x28, 0, 0, 0, 0, 2, 0, 0, 1, 0, 0, 0] kDeviceCdRom 0 True demo_ider) = 1"
proof -
  let ?cdb = "[0x28, 0, 0, 0, 0, 2, 0, 0, 1, 0, 0, 0] :: bytes"
  have "readExtent ?cdb True = Some (2, 1)"
    by (simp add: readExtent_def readBe32_def readBe16_def)
  moreover have "writes_complete demo_env"
    by (simp add: writes_complete_def demo_env_def)
  moreover have "connected_client (ide_client demo_ider)" "ide_isoOpen demo_ider"
    "ide_isoSize demo_ider = 4096" "ide_outSequence demo_ider = 0"
    by (simp_all add: demo_ider_def newIderSession_def connected_client_def demo_client_def)
  ultimately show ?thesis
    using ider_read_out_of_range [of demo_env demo_ider ?cdb True 2 1 demo_fs 0] by (simp add: Let_def)
qed

text \<open>C25: Reads are never interleaved. In every reachable session a chunk continuation is queued
  exactly when a read is in flight, and never more than one; so no event can make two
  continuations run on the same file position.\<close>

theorem ider_single_read:
  assumes "ider_reachable env fs s"
  shows "ide_pending s = (if ide_inFlight s then 1 else 0)"
  using ider_reachable_inv [OF assms] by (simp add: read_inv_def)

theorem ider_single_read_witness:
  "ide_pending (ide_start demo_env demo_fs (newIderSession demo_client)) = 0"
proof -
  let ?s = "ide_start demo_env demo_fs (newIderSession demo_client)"
  have "ider_reachable demo_env demo_fs ?s"
    by (rule ider_next [OF ider_init ider_step.start])
  moreover have "\<not> ide_inFlight ?s"
    by (simp add: ide_start_def newIderSession_def ide_fail_def ide_emit_def)
  ultimately show ?thesis
    using ider_single_read [of demo_env demo_fs ?s] by simp
qed

end
