(* ===== verification/Setup_Bin.thy ===== *)
theory Setup_Bin
  imports Prelude "HOL-Library.Multiset" "HOL-Library.Product_Lexorder"
begin

text \<open>
  The provisioning file MEBx reads from a USB stick: \<open>wsman/src/setupbin.cpp\<close> and
  \<open>wsman/include/wsman/setupbin.h\<close>, with its catalog of variables, the encoder, the decoder and the
  validator.

  Module and variable numbers are C++ \<open>int\<close>s and therefore integers here; the casts to 16 bits of
  the encoder are written out. The loops over positions of a buffer are recursions over what is
  left of it.
\<close>

section \<open>Data\<close>

datatype SetupBinVarType = TyBinary | TyU8 | TyU16 | TyU32 | TyGuid

record SetupBinVarSpec =
  spec_moduleId :: int
  spec_varId :: int
  spec_type :: SetupBinVarType
  spec_name :: string
  spec_enumValues :: "(int \<times> string) list"

record SetupBinVariable =
  sbv_moduleId :: int
  sbv_varId :: int
  sbv_value :: bytes

record SetupBinRecord =
  sbr_flags :: u32
  sbr_variables :: "SetupBinVariable list"

record SetupBinFile =
  sbf_version :: int
  sbf_flags :: u16
  sbf_dataRecordsConsumed :: u32
  sbf_records :: "SetupBinRecord list"

definition defaultSetupBinFile :: SetupBinFile where
  "defaultSetupBinFile = \<lparr>sbf_version = 2, sbf_flags = 0, sbf_dataRecordsConsumed = 0, sbf_records = []\<rparr>"

definition kHeaderSize :: nat where "kHeaderSize = 512"
definition kRecordSize :: nat where "kRecordSize = 512"
definition kRecordHeaderSize :: nat where "kRecordHeaderSize = 24"
definition kRecordBodySize :: nat where "kRecordBodySize = kRecordSize - kRecordHeaderSize"
definition kRecordFlagScrambled :: u32 where "kRecordFlagScrambled = 0x2"

definition kFileTypeGuids :: "bytes list" where
  "kFileTypeGuids =
    [[0xb5, 0x16, 0xfb, 0x71, 0x87, 0xcb, 0xf9, 0x4a, 0xb4, 0x41, 0xca, 0x7b, 0x38, 0x35, 0x78, 0xf9],
     [0x96, 0xb2, 0x81, 0x58, 0xcf, 0x6b, 0x72, 0x4c, 0x8b, 0x91, 0xa1, 0x5e, 0x51, 0x2e, 0x99, 0xc4],
     [0xa7, 0xf7, 0xf6, 0xc6, 0x89, 0xc4, 0xf6, 0x47, 0x93, 0xed, 0xe2, 0xe5, 0x02, 0x0d, 0xa5, 0x1d],
     [0xaa, 0xa9, 0x34, 0x52, 0xe1, 0x29, 0xa9, 0x44, 0x8d, 0x4d, 0x08, 0x1c, 0x07, 0xb9, 0x63, 0x53]]"

section \<open>The catalog\<close>

text \<open>The labels of the enumerated variables, without the end marker of the C++ arrays.\<close>

definition kManageabilityFeatureValues :: "(int \<times> string) list" where
  "kManageabilityFeatureValues = [(0, ''None''), (1, ''Intel AMT'')]"

definition kFirmwareLocalUpdateValues :: "(int \<times> string) list" where
  "kFirmwareLocalUpdateValues = [(0, ''Disabled''), (1, ''Enabled''), (2, ''Password Protected'')]"

definition kFirmwareUpdateQualifierValues :: "(int \<times> string) list" where
  "kFirmwareUpdateQualifierValues = [(0, ''Always''), (1, ''Never''), (2, ''Restricted'')]"

definition kOnOffValues :: "(int \<times> string) list" where
  "kOnOffValues = [(0, ''Off''), (1, ''On'')]"

definition kUserCertConfigValues :: "(int \<times> string) list" where
  "kUserCertConfigValues = [(0, ''Disabled''), (1, ''Enabled''), (2, ''Delete'')]"

definition kSolIderMaskValues :: "(int \<times> string) list" where
  "kSolIderMaskValues = [(0, ''None''), (1, ''SOL only - User/Pass Disabled''), (2, ''IDER only - User/Pass Disabled''), (3, ''SOL+IDER - User/Pass Disabled''), (4, ''None - User/Pass Enabled''), (5, ''SOL only - User/Pass Enabled''), (6, ''IDER only - User/Pass Enabled''), (7, ''SOL+IDER - User/Pass Enabled'')]"

definition kDhcpValues :: "(int \<times> string) list" where
  "kDhcpValues = [(1, ''Disabled''), (2, ''Enabled'')]"

definition kEnabledDisabledValues :: "(int \<times> string) list" where
  "kEnabledDisabledValues = [(0, ''Disabled''), (1, ''Enabled'')]"

definition kProvisioningModeValues :: "(int \<times> string) list" where
  "kProvisioningModeValues = [(0, ''Enterprise''), (1, ''Small Business'')]"

definition kSharedDedicatedValues :: "(int \<times> string) list" where
  "kSharedDedicatedValues = [(0, ''Dedicated''), (1, ''Shared'')]"

definition kOptInConsentValues :: "(int \<times> string) list" where
  "kOptInConsentValues = [(0, ''Disabled''), (1, ''KVM''), (255, ''All'')]"

definition kMeHaltActiveValues :: "(int \<times> string) list" where
  "kMeHaltActiveValues = [(0, ''Stop''), (1, ''Start'')]"

definition kManualSetupValues :: "(int \<times> string) list" where
  "kManualSetupValues = [(0, ''Automated''), (1, ''Manual'')]"

definition var_spec :: "int \<Rightarrow> int \<Rightarrow> SetupBinVarType \<Rightarrow> string \<Rightarrow> (int \<times> string) list \<Rightarrow> SetupBinVarSpec" where
  "var_spec m v ty n e = \<lparr>spec_moduleId = m, spec_varId = v, spec_type = ty, spec_name = n, spec_enumValues = e\<rparr>"

definition kVarSpecs :: "SetupBinVarSpec list" where
  "kVarSpecs =
    [var_spec 1 1 TyBinary ''Current MEBx Password'' [],
     var_spec 1 2 TyBinary ''New MEBx Password'' [],
     var_spec 1 3 TyU8 ''Manageability Feature Selection'' kManageabilityFeatureValues,
     var_spec 1 4 TyU8 ''Firmware Local Update'' kFirmwareLocalUpdateValues,
     var_spec 1 5 TyU8 ''Firmware Update Qualifier'' kFirmwareUpdateQualifierValues,
     var_spec 1 6 TyGuid ''Power Package'' [],
     var_spec 2 1 TyBinary ''Provisioning Preshared Key ID (PID)'' [],
     var_spec 2 2 TyBinary ''Provisioning Preshared Key (PPS)'' [],
     var_spec 2 3 TyBinary ''PKI DNS Suffix'' [],
     var_spec 2 4 TyBinary ''Configuration Server FQDN'' [],
     var_spec 2 5 TyU8 ''Remote Configuration Enabled (RCFG)'' kOnOffValues,
     var_spec 2 6 TyU8 ''Pre-Installed Certificates Enabled'' kOnOffValues,
     var_spec 2 7 TyU8 ''User Defined Certificate Configuration'' kUserCertConfigValues,
     var_spec 2 8 TyBinary ''User Defined Certificate Addition'' [],
     var_spec 2 10 TyU8 ''SOL/IDER Redirection Configuration'' kSolIderMaskValues,
     var_spec 2 11 TyBinary ''Hostname'' [],
     var_spec 2 12 TyBinary ''Domain Name'' [],
     var_spec 2 13 TyU8 ''DHCP'' kDhcpValues,
     var_spec 2 14 TyU8 ''Secure Firmware Update (SFWU)'' kEnabledDisabledValues,
     var_spec 2 15 TyBinary ''ITO'' [],
     var_spec 2 16 TyU8 ''Provisioning Mode (PM)'' kProvisioningModeValues,
     var_spec 2 17 TyBinary ''Provisioning Server Address'' [],
     var_spec 2 18 TyU16 ''Provision Server Port Number (PSPO)'' [],
     var_spec 2 19 TyBinary ''Static IPv4 Parameters'' [],
     var_spec 2 20 TyBinary ''VLAN'' [],
     var_spec 2 21 TyBinary ''PASS Policy Flag'' [],
     var_spec 2 22 TyBinary ''IPv6'' [],
     var_spec 2 23 TyU8 ''Shared/Dedicated FQDN'' kSharedDedicatedValues,
     var_spec 2 24 TyU8 ''Dynamic DNS Update'' kEnabledDisabledValues,
     var_spec 2 25 TyU8 ''Remote Desktop (KVM) State'' kEnabledDisabledValues,
     var_spec 2 26 TyU8 ''Opt-in User Consent Option'' kOptInConsentValues,
     var_spec 2 27 TyU8 ''Opt-in Remote IT Consent Policy'' kEnabledDisabledValues,
     var_spec 2 28 TyU8 ''ME Provision Halt/Active'' kMeHaltActiveValues,
     var_spec 2 29 TyU8 ''Manual Setup and Configuration'' kManualSetupValues,
     var_spec 2 30 TyU32 ''Support Channel Identifier'' [],
     var_spec 2 31 TyBinary ''Support Channel Description'' [],
     var_spec 2 32 TyBinary ''Service Account Number'' [],
     var_spec 2 33 TyBinary ''Enrollment Passcode'' [],
     var_spec 2 34 TyU32 ''Service Type'' [],
     var_spec 2 35 TyGuid ''Service Provider Identifier'' []]"

definition findSetupBinVarSpec :: "int \<Rightarrow> int \<Rightarrow> SetupBinVarSpec option" where
  "findSetupBinVarSpec moduleId varId =
     List.find (\<lambda>spec. spec_moduleId spec = moduleId \<and> spec_varId spec = varId) kVarSpecs"

definition allSetupBinVarSpecs :: "SetupBinVarSpec list" where
  "allSetupBinVarSpecs = kVarSpecs"

section \<open>Integers\<close>

definition writeU16Le :: "u16 \<Rightarrow> bytes" where
  "writeU16Le v = [ucast (v AND 0xFF), ucast (drop_bit 8 v AND 0xFF)]"

definition writeU32Le :: "u32 \<Rightarrow> bytes" where
  "writeU32Le v = [ucast (v AND 0xFF), ucast (drop_bit 8 v AND 0xFF), ucast (drop_bit 16 v AND 0xFF),
     ucast (drop_bit 24 v AND 0xFF)]"

definition readU16Le :: "bytes \<Rightarrow> nat \<Rightarrow> u16" where
  "readU16Le b off = ucast (b ! off) OR push_bit 8 (ucast (b ! (off + 1)))"

definition readU32Le :: "bytes \<Rightarrow> nat \<Rightarrow> u32" where
  "readU32Le b off = ucast (b ! off) OR push_bit 8 (ucast (b ! (off + 1)))
     OR push_bit 16 (ucast (b ! (off + 2))) OR push_bit 24 (ucast (b ! (off + 3)))"

interpretation sb16: int_codec writeU16Le readU16Le 2
  by unfold_locales (simp_all add: writeU16Le_def readU16Le_def nth_append byte_order_simps)

interpretation sb32: int_codec writeU32Le readU32Le 4
  by unfold_locales (simp_all add: writeU32Le_def readU32Le_def nth_append byte_order_simps)

section \<open>Scrambling\<close>

definition scrambleSetupBinBody :: "bytes \<Rightarrow> bytes" where
  "scrambleSetupBinBody body = map (\<lambda>b. b + 0x11) body"

definition descrambleSetupBinBody :: "bytes \<Rightarrow> bytes" where
  "descrambleSetupBinBody body = map (\<lambda>b. b + 0xEF) body"

section \<open>Decoder\<close>

fun guidIndex :: "nat \<Rightarrow> bytes list \<Rightarrow> bytes \<Rightarrow> int" where
  "guidIndex i [] b = 0"
| "guidIndex i (g # gs) b = (if take 16 b = g then int (i + 1) else guidIndex (i + 1) gs b)"

definition fileVersionForUuid :: "bytes \<Rightarrow> int" where
  "fileVersionForUuid b = (if length b < kHeaderSize then 0 else guidIndex 0 kFileTypeGuids b)"

text \<open>The inner loop, on what is left of the body at \<open>pos\<close>.\<close>

function decodeVars :: "bytes \<Rightarrow> SetupBinVariable list" where
  "decodeVars rest =
     (if length rest < 8 then []
      else
        let moduleId = uint (readU16Le rest 0); varId = uint (readU16Le rest 2)
        in if moduleId = 0 \<or> varId = 0 then []
           else
             let len = unat (readU16Le rest 4)
             in if len > length rest - 8 then []
                else
                  (if findSetupBinVarSpec moduleId varId \<noteq> None
                   then [\<lparr>sbv_moduleId = moduleId, sbv_varId = varId, sbv_value = mid rest 8 len\<rparr>] else [])
                  @ decodeVars (drop (8 + (len + 3) div 4 * 4) rest))"
  by pat_completeness auto
termination
  by (relation "measure length") auto

declare decodeVars.simps [simp del]

text \<open>One record, and the loop over the records of what is left of the file.\<close>

definition decodeRecord :: "bytes \<Rightarrow> SetupBinRecord" where
  "decodeRecord b =
     (let flags = readU32Le b 4;
          body = mid b kRecordHeaderSize kRecordBodySize;
          body = (if flags AND kRecordFlagScrambled \<noteq> 0 then descrambleSetupBinBody body else body)
      in \<lparr>sbr_flags = flags, sbr_variables = decodeVars body\<rparr>)"

function decodeRecords :: "bytes \<Rightarrow> SetupBinRecord list" where
  "decodeRecords rest =
     (if length rest < kRecordSize then [] else decodeRecord rest # decodeRecords (drop kRecordSize rest))"
  by pat_completeness auto
termination
  by (relation "measure length") (auto simp: kRecordSize_def)

declare decodeRecords.simps [simp del]

text \<open>The file, and what \<open>*ok\<close> is set to.\<close>

definition decodeSetupBin :: "bytes \<Rightarrow> SetupBinFile \<times> bool" where
  "decodeSetupBin b =
     (let version = fileVersionForUuid b
      in if version = 0 then (defaultSetupBinFile, False)
         else
           let records = decodeRecords (drop kHeaderSize b)
           in if sint (readU32Le b 28) \<noteq> int (length records) then (defaultSetupBinFile, False)
              else (\<lparr>sbf_version = version, sbf_flags = readU16Le b 26,
                     sbf_dataRecordsConsumed = readU32Le b 32, sbf_records = records\<rparr>, True))"

section \<open>Encoder\<close>

text \<open>
  \<open>std::sort\<close> by module and variable number. The standard leaves the order of equal elements
  open; \<open>sort_key\<close> is one admissible outcome, and the only one when no variable occurs twice.
\<close>

definition var_key :: "SetupBinVariable \<Rightarrow> int \<times> int" where
  "var_key v = (sbv_moduleId v, sbv_varId v)"

definition sortedVariables :: "SetupBinVariable list \<Rightarrow> SetupBinVariable list" where
  "sortedVariables input = sort_key var_key input"

definition addModule :: "u16 list \<Rightarrow> u16 \<Rightarrow> u16 list" where
  "addModule ms m = (if m \<in> set ms then ms else ms @ [m])"

definition modulesInUse :: "SetupBinRecord list \<Rightarrow> u16 list" where
  "modulesInUse records =
     foldl addModule [] (concat (map (\<lambda>rec. map (\<lambda>v. word_of_int (sbv_moduleId v)) (sbr_variables rec)) records))"

text \<open>\<open>while (out.size() < n) out.append(0)\<close>.\<close>

definition padTo :: "nat \<Rightarrow> bytes \<Rightarrow> bytes" where
  "padTo n b = b @ replicate (n - length b) 0"

definition encodeHeader :: "SetupBinFile \<Rightarrow> bytes" where
  "encodeHeader f =
     (let ms = modulesInUse (sbf_records f)
      in padTo kHeaderSize
           (kFileTypeGuids ! nat (sbf_version f - 1)
            @ writeU16Le 0 @ writeU16Le (of_nat (42 + length ms * 2)) @ writeU32Le 0
            @ [word_of_int (sbf_version f)] @ [0] @ writeU16Le (sbf_flags f)
            @ writeU32Le (of_nat (length (sbf_records f))) @ writeU32Le (sbf_dataRecordsConsumed f)
            @ writeU16Le 1 @ writeU16Le 0 @ concat (map writeU16Le ms)))"

definition encodeVar :: "SetupBinVariable \<Rightarrow> bytes" where
  "encodeVar v =
     (let entry = writeU16Le (word_of_int (sbv_moduleId v)) @ writeU16Le (word_of_int (sbv_varId v))
                  @ writeU16Le (of_nat (length (sbv_value v))) @ writeU16Le 0 @ sbv_value v
      in padTo ((length entry + 3) div 4 * 4) entry)"

definition encodeBody :: "SetupBinRecord \<Rightarrow> bytes" where
  "encodeBody rec =
     (let body = take kRecordBodySize
                   (padTo kRecordBodySize (concat (map encodeVar (sortedVariables (sbr_variables rec)))))
      in if sbr_flags rec AND kRecordFlagScrambled \<noteq> 0 then scrambleSetupBinBody body else body)"

definition encodeRecord :: "u32 \<Rightarrow> SetupBinRecord \<Rightarrow> bytes" where
  "encodeRecord recordNumber rec =
     writeU32Le 1 @ writeU32Le (sbr_flags rec) @ writeU32Le 0 @ writeU32Le 0 @ writeU16Le 1
     @ writeU16Le (of_nat kRecordHeaderSize) @ writeU32Le recordNumber @ encodeBody rec"

fun encodeRecords :: "u32 \<Rightarrow> SetupBinRecord list \<Rightarrow> bytes" where
  "encodeRecords n [] = []"
| "encodeRecords n (rec # recs) = encodeRecord (n + 1) rec @ encodeRecords (n + 1) recs"

definition encodeSetupBin :: "SetupBinFile \<Rightarrow> bytes" where
  "encodeSetupBin f =
     (if sbf_version f < 1 \<or> sbf_version f > int (length kFileTypeGuids) then []
      else encodeHeader f @ encodeRecords 0 (sbf_records f))"

section \<open>Validator\<close>

datatype sb_error =
    BadVersion int
  | DuplicateVariable nat int int
  | UnknownVariable nat int int
  | WrongWidth string nat
  | TooLong string nat nat
  | AdminNeedsNewPassword
  | CertAddNeedsConfig
  | CertAddAfterDelete

definition packKey :: "SetupBinVariable \<Rightarrow> u32" where
  "packKey v = push_bit 16 (word_of_int (sbv_moduleId v)) OR (word_of_int (sbv_varId v) AND 0xFFFF)"

definition typeWidth :: "SetupBinVarType \<Rightarrow> nat option" where
  "typeWidth ty = (case ty of TyU8 \<Rightarrow> Some 1 | TyU16 \<Rightarrow> Some 2 | TyU32 \<Rightarrow> Some 4 | TyGuid \<Rightarrow> Some 16 | TyBinary \<Rightarrow> None)"

text \<open>The length cap of a binary variable, if it has one.\<close>

definition lengthCap :: "SetupBinVariable \<Rightarrow> nat option" where
  "lengthCap v =
     (if sbv_moduleId v = 2 \<and> sbv_varId v = 11 then Some 63
      else if sbv_moduleId v = 2 \<and> (sbv_varId v = 3 \<or> sbv_varId v = 4 \<or> sbv_varId v = 12) then Some 255
      else if sbv_moduleId v = 2 \<and> sbv_varId v = 31 then Some 60
      else if sbv_moduleId v = 2 \<and> (sbv_varId v = 32 \<or> sbv_varId v = 33) then Some 32
      else None)"

definition checkValue :: "SetupBinVarSpec \<Rightarrow> SetupBinVariable \<Rightarrow> sb_error option" where
  "checkValue spec v =
     (case typeWidth (spec_type spec) of
        Some w \<Rightarrow> if length (sbv_value v) \<noteq> w then Some (WrongWidth (spec_name spec) w) else None
      | None \<Rightarrow>
          (case lengthCap v of
             Some cap \<Rightarrow> if length (sbv_value v) > cap then Some (TooLong (spec_name spec) cap (length (sbv_value v))) else None
           | None \<Rightarrow> None))"

text \<open>
  The locals of the loop over the variables: the keys seen, the variables the later checks look
  at, and the two locals that live across records.
\<close>

record sb_scan =
  sc_seen :: "u32 set"
  sc_current :: "bytes option"
  sc_new :: bool
  sc_certAdd :: bool
  sc_sawConfig :: bool
  sc_configValue :: int

definition scanVar :: "SetupBinVariable \<Rightarrow> sb_scan \<Rightarrow> sb_scan" where
  "scanVar v c =
     (let c = c\<lparr>sc_seen := insert (packKey v) (sc_seen c)\<rparr>;
          c = (if var_key v = (1, 1) then c\<lparr>sc_current := Some (sbv_value v)\<rparr> else c);
          c = (if var_key v = (1, 2) then c\<lparr>sc_new := True\<rparr> else c);
          c = (if var_key v = (2, 7)
               then c\<lparr>sc_sawConfig := True,
                      sc_configValue := (if length (sbv_value v) = 1 then uint (sbv_value v ! 0) else sc_configValue c)\<rparr>
               else c)
      in if var_key v = (2, 8) then c\<lparr>sc_certAdd := True\<rparr> else c)"

fun checkVars :: "nat \<Rightarrow> SetupBinVariable list \<Rightarrow> sb_scan \<Rightarrow> sb_error + sb_scan" where
  "checkVars i [] c = Inr c"
| "checkVars i (v # vs) c =
     (if packKey v \<in> sc_seen c then Inl (DuplicateVariable (i + 1) (sbv_moduleId v) (sbv_varId v))
      else case findSetupBinVarSpec (sbv_moduleId v) (sbv_varId v) of
          None \<Rightarrow> Inl (UnknownVariable (i + 1) (sbv_moduleId v) (sbv_varId v))
        | Some spec \<Rightarrow>
            (case checkValue spec v of
               Some e \<Rightarrow> Inl e
             | None \<Rightarrow> checkVars i vs (scanVar v c)))"

definition checkCross :: "int \<Rightarrow> sb_scan \<Rightarrow> sb_error option" where
  "checkCross version c =
     (if version = 2 \<and> sc_current c = Some (blit ''admin'') \<and> \<not> sc_new c then Some AdminNeedsNewPassword
      else if sc_certAdd c \<and> \<not> sc_sawConfig c then Some CertAddNeedsConfig
      else if sc_certAdd c \<and> sc_configValue c = 2 then Some CertAddAfterDelete
      else None)"

fun checkRecords :: "int \<Rightarrow> nat \<Rightarrow> SetupBinRecord list \<Rightarrow> bool \<Rightarrow> int \<Rightarrow> sb_error option" where
  "checkRecords version i [] saw cfg = None"
| "checkRecords version i (rec # recs) saw cfg =
     (case checkVars i (sbr_variables rec)
             \<lparr>sc_seen = {}, sc_current = None, sc_new = False, sc_certAdd = False, sc_sawConfig = saw, sc_configValue = cfg\<rparr> of
        Inl e \<Rightarrow> Some e
      | Inr c \<Rightarrow>
          (case checkCross version c of
             Some e \<Rightarrow> Some e
           | None \<Rightarrow> checkRecords version (i + 1) recs (sc_sawConfig c) (sc_configValue c)))"

text \<open>The first failing rule, or \<open>None\<close> for the empty string.\<close>

definition validateSetupBin :: "SetupBinFile \<Rightarrow> sb_error option" where
  "validateSetupBin f =
     (if sbf_version f < 1 \<or> sbf_version f > int (length kFileTypeGuids) then Some (BadVersion (sbf_version f))
      else checkRecords (sbf_version f) 0 (sbf_records f) False (-1))"

section \<open>The catalog and the codec of one variable\<close>

lemma descramble_scramble [simp]: "descrambleSetupBinBody (scrambleSetupBinBody b) = b"
proof -
  have "x + 0x11 + 0xEF = x" for x :: byte
  proof -
    have "(0x11 :: byte) + 0xEF = 0" by simp
    then show ?thesis by (metis add.assoc add.right_neutral)
  qed
  then show ?thesis
    unfolding descrambleSetupBinBody_def scrambleSetupBinBody_def map_map comp_def by (simp only: map_ident)
qed

lemma catalog_range: "\<forall>spec \<in> set kVarSpecs. 1 \<le> spec_moduleId spec \<and> spec_moduleId spec \<le> 2
    \<and> 1 \<le> spec_varId spec \<and> spec_varId spec \<le> 35"
  by (simp add: kVarSpecs_def var_spec_def)

definition known :: "SetupBinVariable \<Rightarrow> bool" where
  "known v \<longleftrightarrow> findSetupBinVarSpec (sbv_moduleId v) (sbv_varId v) \<noteq> None"

lemma known_range:
  assumes "known v"
  shows "1 \<le> sbv_moduleId v" "sbv_moduleId v \<le> 2" "1 \<le> sbv_varId v" "sbv_varId v \<le> 35"
proof -
  obtain spec where "spec \<in> set kVarSpecs" "spec_moduleId spec = sbv_moduleId v" "spec_varId spec = sbv_varId v"
    using assms by (auto simp: known_def findSetupBinVarSpec_def find_Some_iff in_set_conv_nth)
  then show "1 \<le> sbv_moduleId v" "sbv_moduleId v \<le> 2" "1 \<le> sbv_varId v" "sbv_varId v \<le> 35"
    using catalog_range by auto
qed

lemma uint_word_of_int16: "0 \<le> n \<Longrightarrow> n < 65536 \<Longrightarrow> uint (word_of_int n :: u16) = n"
  by (simp add: uint_word_of_int)

text \<open>The size of a variable's entry, before padding.\<close>

definition entrySize :: "SetupBinVariable \<Rightarrow> nat" where
  "entrySize v = 8 + length (sbv_value v)"

definition paddedSize :: "SetupBinVariable \<Rightarrow> nat" where
  "paddedSize v = 8 + (length (sbv_value v) + 3) div 4 * 4"

lemma length_encodeVar [simp]: "length (encodeVar v) = paddedSize v"
  by (simp add: encodeVar_def padTo_def paddedSize_def sb16.pack_length Let_def) presburger

lemma encodeVar_shape:
  obtains pad where "encodeVar v = writeU16Le (word_of_int (sbv_moduleId v)) @ writeU16Le (word_of_int (sbv_varId v))
    @ writeU16Le (of_nat (length (sbv_value v))) @ writeU16Le 0 @ sbv_value v @ pad"
  by (simp add: encodeVar_def padTo_def Let_def)

lemma encodeVar_fields:
  assumes "length (sbv_value v) < 65536"
  shows "readU16Le (encodeVar v @ r) 0 = word_of_int (sbv_moduleId v)"
    and "readU16Le (encodeVar v @ r) 2 = word_of_int (sbv_varId v)"
    and "unat (readU16Le (encodeVar v @ r) 4) = length (sbv_value v)"
    and "mid (encodeVar v @ r) 8 (length (sbv_value v)) = sbv_value v"
proof -
  obtain pad where e: "encodeVar v = writeU16Le (word_of_int (sbv_moduleId v)) @ writeU16Le (word_of_int (sbv_varId v))
    @ writeU16Le (of_nat (length (sbv_value v))) @ writeU16Le 0 @ sbv_value v @ pad"
    by (rule encodeVar_shape)
  let ?m = "writeU16Le (word_of_int (sbv_moduleId v))" and ?v = "writeU16Le (word_of_int (sbv_varId v))"
    and ?n = "writeU16Le (of_nat (length (sbv_value v)))"
  show "readU16Le (encodeVar v @ r) 0 = word_of_int (sbv_moduleId v)"
    using sb16.read_hit [of "[]" 0] by (simp add: e)
  show "readU16Le (encodeVar v @ r) 2 = word_of_int (sbv_varId v)"
    using sb16.read_hit [of ?m 2] by (simp add: e sb16.pack_length)
  have "readU16Le (encodeVar v @ r) 4 = of_nat (length (sbv_value v))"
    using sb16.read_hit [of "?m @ ?v" 4] by (simp add: e sb16.pack_length)
  then show "unat (readU16Le (encodeVar v @ r) 4) = length (sbv_value v)"
    using assms by (simp add: unat_of_nat)
  show "mid (encodeVar v @ r) 8 (length (sbv_value v)) = sbv_value v"
    using mid_hit [of "?m @ ?v @ ?n @ writeU16Le 0" 8 "sbv_value v" _ "pad @ r"] by (simp add: e sb16.pack_length)
qed

lemma decodeVars_encodeVar:
  assumes "known v" and "length (sbv_value v) < 65536"
  shows "decodeVars (encodeVar v @ r) = v # decodeVars r"
proof -
  have "uint (word_of_int (sbv_moduleId v) :: u16) = sbv_moduleId v" "uint (word_of_int (sbv_varId v) :: u16) = sbv_varId v"
    using known_range [OF assms(1)] by (simp_all add: uint_word_of_int16)
  moreover have "findSetupBinVarSpec (sbv_moduleId v) (sbv_varId v) \<noteq> None" "sbv_moduleId v \<noteq> 0" "sbv_varId v \<noteq> 0"
    using assms(1) known_range [OF assms(1)] by (auto simp: known_def)
  moreover have "length (sbv_value v) \<le> paddedSize v - 8" "8 \<le> paddedSize v"
    by (simp_all add: paddedSize_def)
  ultimately show ?thesis
    using encodeVar_fields [OF assms(2), of r]
    by (subst decodeVars.simps) (simp add: Let_def paddedSize_def [symmetric])
qed

lemma decodeVars_zeros: "decodeVars (replicate n 0) = []"
  by (subst decodeVars.simps) (simp add: readU16Le_def Let_def)

lemma decodeVars_encoded:
  assumes "\<forall>v \<in> set vs. known v \<and> length (sbv_value v) < 65536"
  shows "decodeVars (concat (map encodeVar vs) @ replicate n 0) = vs"
  using assms by (induction vs) (simp_all add: decodeVars_zeros decodeVars_encodeVar)

text \<open>What the decoder returns never takes more room than the body it came from.\<close>

lemma decodeVars_size: "sum_list (map entrySize (decodeVars b)) \<le> length b"
proof (induction b rule: decodeVars.induct)
  case (1 b)
  show ?case
  proof (cases "decodeVars b = []")
    case False
    define n where "n = unat (readU16Le b 4)"
    have h: "\<not> length b < 8" "\<not> (uint (readU16Le b 0) = 0 \<or> uint (readU16Le b 2) = 0)" "\<not> n > length b - 8"
      using False by (auto simp: decodeVars.simps [of b] n_def Let_def split: if_splits)
    define r where "r = drop (8 + (n + 3) div 4 * 4) b"
    have "sum_list (map entrySize (decodeVars r)) \<le> length r"
      using "1.IH" [OF h(1) refl refl h(2) refl] h(3) by (simp add: n_def r_def)
    moreover have "sum_list (map entrySize (decodeVars b)) \<le> 8 + n + sum_list (map entrySize (decodeVars r))"
      using h by (subst decodeVars.simps) (simp add: Let_def entrySize_def length_mid r_def flip: n_def)
    moreover have "length r + (8 + n) \<le> length b"
      using h by (simp add: r_def)
    ultimately show ?thesis by linarith
  qed simp
qed

section \<open>Records\<close>

definition recordFits :: "SetupBinRecord \<Rightarrow> bool" where
  "recordFits rec \<longleftrightarrow> sum_list (map paddedSize (sbr_variables rec)) \<le> kRecordBodySize"

text \<open>The record as it comes back: its variables in the order of their numbers.\<close>

definition canonicalRecord :: "SetupBinRecord \<Rightarrow> SetupBinRecord" where
  "canonicalRecord rec = rec\<lparr>sbr_variables := sortedVariables (sbr_variables rec)\<rparr>"

definition canonicalFile :: "SetupBinFile \<Rightarrow> SetupBinFile" where
  "canonicalFile f = f\<lparr>sbf_records := map canonicalRecord (sbf_records f)\<rparr>"

lemma mset_sortedVariables [simp]: "mset (sortedVariables vs) = mset vs"
  by (simp add: sortedVariables_def)

lemma set_sortedVariables [simp]: "set (sortedVariables vs) = set vs"
  by (simp add: sortedVariables_def)

lemma sum_sortedVariables [simp]: "sum_list (map f (sortedVariables vs)) = sum_list (map (f :: _ \<Rightarrow> nat) vs)"
  by (simp flip: sum_mset_sum_list)

lemma length_encodeBody [simp]: "length (encodeBody rec) = kRecordBodySize"
  by (auto simp: encodeBody_def padTo_def scrambleSetupBinBody_def Let_def)

lemma length_encodeRecord [simp]: "length (encodeRecord n rec) = kRecordSize"
  by (simp add: encodeRecord_def sb16.pack_length sb32.pack_length kRecordBodySize_def kRecordSize_def kRecordHeaderSize_def)

lemma paddedSize_sum: "length (concat (map encodeVar vs)) = sum_list (map paddedSize vs)"
  by (simp add: length_concat comp_def)

lemma member_sum_list: "x \<in> set xs \<Longrightarrow> f x \<le> sum_list (map (f :: _ \<Rightarrow> nat) xs)"
  by (simp add: member_le_sum_list)

lemma encodeBody_fits:
  assumes "recordFits rec"
  obtains n where "take kRecordBodySize (padTo kRecordBodySize (concat (map encodeVar (sortedVariables (sbr_variables rec)))))
    = concat (map encodeVar (sortedVariables (sbr_variables rec))) @ replicate n 0"
  using assms by (simp add: padTo_def recordFits_def paddedSize_sum)

lemma record_header:
  "readU32Le (encodeRecord n rec @ r) 4 = sbr_flags rec"
  "mid (encodeRecord n rec @ r) kRecordHeaderSize kRecordBodySize = encodeBody rec"
proof -
  show "readU32Le (encodeRecord n rec @ r) 4 = sbr_flags rec"
    using sb32.read_hit [of "writeU32Le 1" 4] by (simp add: encodeRecord_def sb32.pack_length)
  show "mid (encodeRecord n rec @ r) kRecordHeaderSize kRecordBodySize = encodeBody rec"
    using mid_hit [of "writeU32Le 1 @ writeU32Le (sbr_flags rec) @ writeU32Le 0 @ writeU32Le 0 @ writeU16Le 1
      @ writeU16Le (of_nat kRecordHeaderSize) @ writeU32Le n" kRecordHeaderSize "encodeBody rec" kRecordBodySize r]
    by (simp add: encodeRecord_def sb32.pack_length sb16.pack_length kRecordHeaderSize_def)
qed

lemma decodeRecord_encode:
  assumes "recordFits rec" and "\<forall>v \<in> set (sbr_variables rec). known v"
  shows "decodeRecord (encodeRecord n rec @ r) = canonicalRecord rec"
proof -
  have "\<forall>v \<in> set (sbr_variables rec). length (sbv_value v) < 65536"
  proof
    fix v assume "v \<in> set (sbr_variables rec)"
    then have "paddedSize v \<le> kRecordBodySize"
      using assms(1) member_sum_list [of v "sbr_variables rec" paddedSize] by (simp add: recordFits_def)
    then show "length (sbv_value v) < 65536"
      by (simp add: paddedSize_def kRecordBodySize_def kRecordSize_def kRecordHeaderSize_def)
  qed
  moreover obtain m where "take kRecordBodySize (padTo kRecordBodySize (concat (map encodeVar (sortedVariables (sbr_variables rec)))))
    = concat (map encodeVar (sortedVariables (sbr_variables rec))) @ replicate m 0"
    using assms(1) by (rule encodeBody_fits)
  ultimately show ?thesis
    using assms(2)
    by (simp add: decodeRecord_def record_header encodeBody_def decodeVars_encoded canonicalRecord_def Let_def)
qed

lemma decodeRecords_Cons: "length a = kRecordSize \<Longrightarrow> decodeRecords (a @ r) = decodeRecord (a @ r) # decodeRecords r"
  by (subst decodeRecords.simps) simp

lemma decodeRecords_Nil: "decodeRecords [] = []"
  by (subst decodeRecords.simps) (simp add: kRecordSize_def)

lemma decodeRecords_encode:
  assumes "\<forall>rec \<in> set recs. recordFits rec \<and> (\<forall>v \<in> set (sbr_variables rec). known v)"
  shows "decodeRecords (encodeRecords n recs) = map canonicalRecord recs"
  using assms
  by (induction recs arbitrary: n) (simp_all add: decodeRecords_Nil decodeRecords_Cons decodeRecord_encode)

section \<open>The header\<close>

lemma modules_collected:
  "distinct ms \<Longrightarrow> distinct (foldl addModule ms xs) \<and> set (foldl addModule ms xs) = set ms \<union> set xs"
  by (induction xs arbitrary: ms) (auto simp: addModule_def)

lemma modulesInUse_bound:
  assumes "\<forall>rec \<in> set recs. \<forall>v \<in> set (sbr_variables rec). known v"
  shows "length (modulesInUse recs) \<le> 2"
proof -
  define xs where "xs = concat (map (\<lambda>rec. map (\<lambda>v. word_of_int (sbv_moduleId v) :: u16) (sbr_variables rec)) recs)"
  have "sbv_moduleId v = 1 \<or> sbv_moduleId v = 2" if "known v" for v
    using known_range [OF that] by linarith
  then have "set xs \<subseteq> {1, 2}"
    using assms by (auto simp: xs_def) force
  moreover have "distinct (modulesInUse recs)" "set (modulesInUse recs) = set xs"
    using modules_collected [of "[]" xs] by (simp_all add: modulesInUse_def xs_def)
  ultimately have "length (modulesInUse recs) \<le> card ({1, 2} :: u16 set)"
    by (metis distinct_card card_mono finite.emptyI finite.insertI)
  then show ?thesis by simp
qed

lemma length_writes [simp]: "length (concat (map writeU16Le ms)) = 2 * length ms"
  by (induction ms) (simp_all add: sb16.pack_length)

lemma guid_length: "g \<in> set kFileTypeGuids \<Longrightarrow> length g = 16"
  by (auto simp: kFileTypeGuids_def)

definition versionOk :: "SetupBinFile \<Rightarrow> bool" where
  "versionOk f \<longleftrightarrow> 1 \<le> sbf_version f \<and> sbf_version f \<le> 4"

lemma versionOk_guid:
  assumes "versionOk f"
  shows "length (kFileTypeGuids ! nat (sbf_version f - 1)) = 16"
proof -
  have "nat (sbf_version f - 1) < length kFileTypeGuids"
    using assms by (auto simp: versionOk_def kFileTypeGuids_def)
  then show ?thesis by (simp add: guid_length)
qed

lemma header_fields:
  assumes "versionOk f"
  shows "take 16 (encodeHeader f @ r) = kFileTypeGuids ! nat (sbf_version f - 1)"
    and "readU16Le (encodeHeader f @ r) 26 = sbf_flags f"
    and "readU32Le (encodeHeader f @ r) 28 = of_nat (length (sbf_records f))"
    and "readU32Le (encodeHeader f @ r) 32 = sbf_dataRecordsConsumed f"
proof -
  define g where "g = kFileTypeGuids ! nat (sbf_version f - 1)"
  define a where "a = g @ writeU16Le 0 @ writeU16Le (of_nat (42 + length (modulesInUse (sbf_records f)) * 2))
    @ writeU32Le 0 @ [word_of_int (sbf_version f)] @ [0]"
  obtain z where e: "encodeHeader f @ r = a @ writeU16Le (sbf_flags f) @ writeU32Le (of_nat (length (sbf_records f)))
    @ writeU32Le (sbf_dataRecordsConsumed f) @ z"
    by (simp add: encodeHeader_def padTo_def a_def g_def Let_def)
  have g: "length g = 16" using versionOk_guid [OF assms] by (simp add: g_def)
  then have a: "length a = 26" by (simp add: a_def sb16.pack_length sb32.pack_length)
  show "take 16 (encodeHeader f @ r) = kFileTypeGuids ! nat (sbf_version f - 1)"
    using g by (simp add: e a_def flip: g_def)
  show "readU16Le (encodeHeader f @ r) 26 = sbf_flags f"
    using sb16.read_hit [of a 26] a by (simp add: e)
  show "readU32Le (encodeHeader f @ r) 28 = of_nat (length (sbf_records f))"
    using sb32.read_hit [of "a @ writeU16Le (sbf_flags f)" 28] a by (simp add: e sb16.pack_length)
  show "readU32Le (encodeHeader f @ r) 32 = sbf_dataRecordsConsumed f"
    using sb32.read_hit [of "a @ writeU16Le (sbf_flags f) @ writeU32Le (of_nat (length (sbf_records f)))" 32] a
    by (simp add: e sb16.pack_length sb32.pack_length)
qed

lemma length_encodeHeader:
  assumes "versionOk f" and "length (modulesInUse (sbf_records f)) \<le> 2"
  shows "length (encodeHeader f) = kHeaderSize"
  using versionOk_guid [OF assms(1)] assms(2)
  by (simp add: encodeHeader_def padTo_def kHeaderSize_def sb16.pack_length sb32.pack_length Let_def)

lemma encoded_version:
  assumes "versionOk f" and "length (encodeHeader f) = kHeaderSize"
  shows "fileVersionForUuid (encodeHeader f @ r) = sbf_version f"
proof -
  have "sbf_version f \<in> {1, 2, 3, 4}" using assms(1) by (auto simp: versionOk_def)
  then show ?thesis
    using header_fields(1) [OF assms(1), of r] assms(2)
    by (auto simp: fileVersionForUuid_def kFileTypeGuids_def)
qed

lemma length_encodeRecords: "length (encodeRecords n recs) = length recs * kRecordSize"
  by (induction recs arbitrary: n) simp_all

lemma decode_encoded:
  assumes "versionOk f" and "length (sbf_records f) < 2 ^ 31"
    and "\<forall>rec \<in> set (sbf_records f). \<forall>v \<in> set (sbr_variables rec). known v"
    and "length (decodeRecords (encodeRecords 0 (sbf_records f))) = length (sbf_records f)"
  shows "decodeSetupBin (encodeSetupBin f) = (f\<lparr>sbf_records := decodeRecords (encodeRecords 0 (sbf_records f))\<rparr>, True)"
proof -
  define n where "n = length (sbf_records f)"
  have h: "length (encodeHeader f) = kHeaderSize"
    by (rule length_encodeHeader [OF assms(1) modulesInUse_bound [OF assms(3)]])
  have "sint (of_nat n :: u32) = int n"
    using assms(2) by (simp add: n_def sint_uint unsigned_of_nat take_bit_nat_eq_self signed_take_bit_int_eq_self)
  moreover have "sbf_version f \<noteq> 0" "\<not> (sbf_version f < 1 \<or> sbf_version f > int (length kFileTypeGuids))"
    using assms(1) by (auto simp: versionOk_def kFileTypeGuids_def)
  moreover note encoded_version [OF assms(1) h]
  ultimately show ?thesis
    using header_fields(2-4) [OF assms(1)] assms(4) h
    by (cases f) (simp add: decodeSetupBin_def encodeSetupBin_def n_def Let_def)
qed

section \<open>What the validator checks\<close>

lemma same_packKey: "var_key v = var_key w \<Longrightarrow> packKey v = packKey w"
  by (simp add: var_key_def packKey_def)

text \<open>
  The variables of the format by the size of their value, written out apart from the catalog and from
  the code of the validator: one byte, two, four, sixteen (a GUID), text up to a limit, and free.
\<close>

definition byteVars :: "(int \<times> int) set" where
  "byteVars = {(1, 3), (1, 4), (1, 5), (2, 5), (2, 6), (2, 7), (2, 10), (2, 13), (2, 14), (2, 16), (2, 23), (2, 24), (2, 25),
     (2, 26), (2, 27), (2, 28), (2, 29)}"

definition freeVars :: "(int \<times> int) set" where
  "freeVars = {(1, 1), (1, 2), (2, 1), (2, 2), (2, 8), (2, 15), (2, 17), (2, 19), (2, 20), (2, 21), (2, 22)}"

inductive valueOk :: "int \<times> int \<Rightarrow> bytes \<Rightarrow> bool" where
  one_byte: "k \<in> byteVars \<Longrightarrow> length b = 1 \<Longrightarrow> valueOk k b"
| server_port: "length b = 2 \<Longrightarrow> valueOk (2, 18) b"
| four_bytes: "k \<in> {(2, 30), (2, 34)} \<Longrightarrow> length b = 4 \<Longrightarrow> valueOk k b"
| guid: "k \<in> {(1, 6), (2, 35)} \<Longrightarrow> length b = 16 \<Longrightarrow> valueOk k b"
| hostname: "length b \<le> 63 \<Longrightarrow> valueOk (2, 11) b"
| domain_name: "k \<in> {(2, 3), (2, 4), (2, 12)} \<Longrightarrow> length b \<le> 255 \<Longrightarrow> valueOk k b"
| channel_text: "length b \<le> 60 \<Longrightarrow> valueOk (2, 31) b"
| account_or_passcode: "k \<in> {(2, 32), (2, 33)} \<Longrightarrow> length b \<le> 32 \<Longrightarrow> valueOk k b"
| free: "k \<in> freeVars \<Longrightarrow> valueOk k b"

definition varOk :: "SetupBinVariable \<Rightarrow> bool" where
  "varOk v \<longleftrightarrow> valueOk (var_key v) (sbv_value v)"

lemma valueOk_iff:
  "valueOk k b \<longleftrightarrow> k \<in> byteVars \<and> length b = 1 \<or> k = (2, 18) \<and> length b = 2 \<or> k \<in> {(2, 30), (2, 34)} \<and> length b = 4
     \<or> k \<in> {(1, 6), (2, 35)} \<and> length b = 16 \<or> k = (2, 11) \<and> length b \<le> 63 \<or> k \<in> {(2, 3), (2, 4), (2, 12)} \<and> length b \<le> 255
     \<or> k = (2, 31) \<and> length b \<le> 60 \<or> k \<in> {(2, 32), (2, 33)} \<and> length b \<le> 32 \<or> k \<in> freeVars"
  by (subst valueOk.simps) simp

definition formatVars :: "(int \<times> int) set" where
  "formatVars = byteVars \<union> freeVars \<union> {(2, 18), (2, 30), (2, 34), (1, 6), (2, 35), (2, 11), (2, 3), (2, 4), (2, 12), (2, 31), (2, 32), (2, 33)}"

lemma valueOk_format: "valueOk k b \<Longrightarrow> k \<in> formatVars"
  by (cases rule: valueOk.cases) (simp_all add: formatVars_def, blast+)

lemma format_catalogued: "\<forall>k \<in> formatVars. findSetupBinVarSpec (fst k) (snd k) \<noteq> None"
  by (simp add: formatVars_def byteVars_def freeVars_def findSetupBinVarSpec_def kVarSpecs_def var_spec_def)

lemma catalog_checks:
  "\<forall>spec \<in> set kVarSpecs. sbv_moduleId v = spec_moduleId spec \<and> sbv_varId v = spec_varId spec \<longrightarrow>
     (checkValue spec v = None \<longleftrightarrow> valueOk (spec_moduleId spec, spec_varId spec) (sbv_value v))"
  by (simp add: kVarSpecs_def var_spec_def checkValue_def typeWidth_def lengthCap_def valueOk_iff byteVars_def freeVars_def not_less)

lemma find_in_catalog: "findSetupBinVarSpec m i = Some spec \<Longrightarrow> spec \<in> set kVarSpecs \<and> m = spec_moduleId spec \<and> i = spec_varId spec"
  by (auto simp: findSetupBinVarSpec_def find_Some_iff)

lemma varOk_iff:
  "varOk v \<longleftrightarrow> (\<exists>spec. findSetupBinVarSpec (sbv_moduleId v) (sbv_varId v) = Some spec \<and> checkValue spec v = None)"
proof (cases "findSetupBinVarSpec (sbv_moduleId v) (sbv_varId v)")
  case None
  then have "var_key v \<notin> formatVars" using format_catalogued by (fastforce simp: var_key_def)
  then show ?thesis using None valueOk_format [of "var_key v" "sbv_value v"] by (auto simp: varOk_def)
next
  case (Some spec)
  note f = find_in_catalog [OF Some]
  then have "checkValue spec v = None \<longleftrightarrow> valueOk (spec_moduleId spec, spec_varId spec) (sbv_value v)"
    using catalog_checks [of v] by blast
  then show ?thesis using Some f by (simp add: varOk_def var_key_def)
qed

lemma valueOk_range: "valueOk k b \<Longrightarrow> 1 \<le> fst k \<and> fst k \<le> 2 \<and> 1 \<le> snd k \<and> snd k \<le> 35"
proof -
  have "\<forall>k \<in> formatVars. 1 \<le> fst k \<and> fst k \<le> 2 \<and> 1 \<le> snd k \<and> snd k \<le> 35"
    by (simp add: formatVars_def byteVars_def freeVars_def)
  then show "valueOk k b \<Longrightarrow> ?thesis" using valueOk_format by blast
qed

text \<open>On the variables of the format, the packed key of the duplicate check loses nothing.\<close>

lemma low_mask: "(0xFFFF :: u32) = mask 16"
  by (simp add: mask_eq_exp_minus_1)

lemma packed_low: "take_bit 16 (push_bit 16 a OR take_bit 16 b) = take_bit 16 (b :: u32)"
  by (rule bit_word_eqI) (auto simp: bit_simps)

lemma packKey_low:
  assumes "varOk v"
  shows "uint (packKey v AND 0xFFFF) = sbv_varId v"
proof -
  have "0 \<le> sbv_varId v" "sbv_varId v < 2 ^ 16"
    using assms valueOk_range [of "var_key v" "sbv_value v"] by (auto simp: varOk_def var_key_def)
  then show ?thesis
    by (simp only: packKey_def low_mask packed_low flip: take_bit_eq_mask)
      (simp add: take_bit_int_eq_self uint_word_of_int_eq unsigned_take_bit_eq)
qed

lemma packKey_high:
  assumes "varOk v"
  shows "uint (drop_bit 16 (packKey v)) = sbv_moduleId v"
proof -
  have "sbv_moduleId v = 1 \<or> sbv_moduleId v = 2"
    using assms valueOk_range [of "var_key v" "sbv_value v"] by (auto simp: varOk_def var_key_def)
  then show ?thesis by (auto simp: packKey_def)
qed

lemma packKey_parts:
  assumes "varOk v"
  shows "var_key v = (uint (drop_bit 16 (packKey v)), uint (packKey v AND 0xFFFF))"
  using packKey_low [OF assms] packKey_high [OF assms] by (simp add: var_key_def)

lemma distinct_keys:
  assumes "\<forall>v \<in> set vs. varOk v"
  shows "distinct (map packKey vs) \<longleftrightarrow> distinct (map var_key vs)"
proof -
  have "packKey v = packKey w \<longleftrightarrow> var_key v = var_key w" if "v \<in> set vs" "w \<in> set vs" for v w
    using that assms packKey_parts by (metis same_packKey)
  then show ?thesis by (simp add: distinct_map inj_on_def)
qed

definition configs :: "SetupBinVariable list \<Rightarrow> SetupBinVariable list" where
  "configs vs = filter (\<lambda>v. var_key v = (2, 7)) vs"

text \<open>
  The rules of one record, given all variables up to its end: no variable twice, every variable in
  the catalog with a value of the right size, a new password beside the factory one in version 2,
  and a certificate only after a configuration that is not "delete".
\<close>

definition recordOk :: "int \<Rightarrow> SetupBinVariable list \<Rightarrow> SetupBinVariable list \<Rightarrow> bool" where
  "recordOk version earlier vs \<longleftrightarrow>
     distinct (map var_key vs) \<and> (\<forall>v \<in> set vs. varOk v)
     \<and> (version = 2 \<and> (\<exists>v \<in> set vs. var_key v = (1, 1) \<and> sbv_value v = blit ''admin'')
          \<longrightarrow> (\<exists>v \<in> set vs. var_key v = (1, 2)))
     \<and> ((\<exists>v \<in> set vs. var_key v = (2, 8))
          \<longrightarrow> configs (earlier @ vs) \<noteq> [] \<and> sbv_value (List.last (configs (earlier @ vs))) \<noteq> [2])"

fun recordsOk :: "int \<Rightarrow> SetupBinVariable list \<Rightarrow> SetupBinRecord list \<Rightarrow> bool" where
  "recordsOk version earlier [] = True"
| "recordsOk version earlier (rec # recs) =
     (recordOk version earlier (sbr_variables rec) \<and> recordsOk version (earlier @ sbr_variables rec) recs)"

lemma checkVars_scan:
  "checkVars i vs c = Inr d \<longleftrightarrow>
     (\<forall>v \<in> set vs. varOk v) \<and> distinct (map packKey vs) \<and> sc_seen c \<inter> packKey ` set vs = {} \<and> d = fold scanVar vs c"
proof (induction vs arbitrary: c)
  case (Cons v vs)
  have "sc_seen (scanVar v c) = insert (packKey v) (sc_seen c)"
    by (simp add: scanVar_def Let_def)
  then show ?case
    using Cons.IH [of "scanVar v c"] by (auto simp: varOk_iff split: option.splits)
qed auto

lemma checkVars_total: "(\<exists>e. checkVars i vs c = Inl e) \<longleftrightarrow> \<not> (\<exists>d. checkVars i vs c = Inr d)"
  by (cases "checkVars i vs c") auto

text \<open>What the scan holds, in terms of the variables seen so far.\<close>

lemma scan_flags:
  "sc_new (fold scanVar vs c) \<longleftrightarrow> sc_new c \<or> (\<exists>v \<in> set vs. var_key v = (1, 2))"
  "sc_certAdd (fold scanVar vs c) \<longleftrightarrow> sc_certAdd c \<or> (\<exists>v \<in> set vs. var_key v = (2, 8))"
  "sc_sawConfig (fold scanVar vs c) \<longleftrightarrow> sc_sawConfig c \<or> configs vs \<noteq> []"
  by (induction vs arbitrary: c) (auto simp: scanVar_def configs_def Let_def)

lemma scan_current:
  assumes "distinct (map packKey vs)"
  shows "sc_current (fold scanVar vs c) = Some x \<longleftrightarrow>
     (\<exists>v \<in> set vs. var_key v = (1, 1) \<and> sbv_value v = x) \<or> (\<forall>v \<in> set vs. var_key v \<noteq> (1, 1)) \<and> sc_current c = Some x"
  using assms
proof (induction vs arbitrary: c)
  case (Cons v vs)
  have "sc_current (scanVar v c) = (if var_key v = (1, 1) then Some (sbv_value v) else sc_current c)"
    by (simp add: scanVar_def Let_def)
  moreover have "var_key w \<noteq> var_key v" if "w \<in> set vs" for w
    using that Cons.prems same_packKey [of w v] by (auto simp: image_iff)
  ultimately show ?case
    using Cons.IH [of "scanVar v c"] Cons.prems by auto
qed simp

lemma config_width:
  assumes "varOk v" and "var_key v = (2, 7)"
  shows "length (sbv_value v) = 1"
proof -
  have "findSetupBinVarSpec 2 7 = Some (var_spec 2 7 TyU8 ''User Defined Certificate Configuration'' kUserCertConfigValues)"
    by (simp add: findSetupBinVarSpec_def kVarSpecs_def var_spec_def)
  then show ?thesis
    using assms by (auto simp: varOk_iff var_key_def checkValue_def typeWidth_def var_spec_def split: if_splits)
qed

definition configValue :: "SetupBinVariable list \<Rightarrow> int" where
  "configValue vs = (if configs vs = [] then -1 else uint (sbv_value (List.last (configs vs)) ! 0))"

lemma scan_configValue:
  assumes "\<forall>v \<in> set vs. varOk v" and "sc_configValue c = configValue earlier"
  shows "sc_configValue (fold scanVar vs c) = configValue (earlier @ vs)"
  using assms
proof (induction vs arbitrary: c earlier)
  case (Cons v vs)
  have "sc_configValue (scanVar v c) = configValue (earlier @ [v])"
    using Cons.prems config_width [of v] by (auto simp: scanVar_def Let_def configValue_def configs_def)
  then show ?case
    using Cons.IH [of "scanVar v c" "earlier @ [v]"] Cons.prems by simp
qed simp

lemma configValue_delete:
  assumes "\<forall>v \<in> set vs. varOk v" and "configs vs \<noteq> []"
  shows "configValue vs = 2 \<longleftrightarrow> sbv_value (List.last (configs vs)) = [2]"
proof -
  have "List.last (configs vs) \<in> set (configs vs)" using assms(2) by simp
  then have "length (sbv_value (List.last (configs vs))) = 1"
    using assms(1) config_width by (auto simp: configs_def)
  then obtain b where "sbv_value (List.last (configs vs)) = [b]"
    by (auto simp: length_Suc_conv)
  then show ?thesis
    using assms(2) word_uint_eq_iff [of b 2] by (simp add: configValue_def)
qed

lemma checkCross_scan:
  assumes "\<forall>v \<in> set (earlier @ vs). varOk v" and "distinct (map packKey vs)"
    and "c = \<lparr>sc_seen = {}, sc_current = None, sc_new = False, sc_certAdd = False,
              sc_sawConfig = (configs earlier \<noteq> []), sc_configValue = configValue earlier\<rparr>"
  shows "checkCross version (fold scanVar vs c) = None \<longleftrightarrow> recordOk version earlier vs"
proof -
  have v: "\<forall>v \<in> set vs. varOk v" using assms(1) by simp
  have "sc_configValue (fold scanVar vs c) = configValue (earlier @ vs)"
    using v by (rule scan_configValue) (simp add: assms(3))
  moreover have "configs (earlier @ vs) = [] \<longleftrightarrow> configs earlier = [] \<and> configs vs = []"
    by (simp add: configs_def)
  ultimately show ?thesis
    using configValue_delete [OF assms(1)] assms(2) v
    by (auto simp: checkCross_def recordOk_def distinct_keys [OF v] scan_flags scan_current assms(3))
qed

lemma checkRecords_ok:
  assumes "\<forall>v \<in> set earlier. varOk v"
  shows "checkRecords version i recs (configs earlier \<noteq> []) (configValue earlier) = None \<longleftrightarrow> recordsOk version earlier recs"
  using assms
proof (induction recs arbitrary: earlier i)
  case (Cons rec recs)
  define vs where "vs = sbr_variables rec"
  define c where "c = \<lparr>sc_seen = {}, sc_current = None, sc_new = False, sc_certAdd = False,
    sc_sawConfig = (configs earlier \<noteq> []), sc_configValue = configValue earlier\<rparr>"
  have c0: "sc_seen c = {}" by (simp add: c_def)
  show ?case
  proof (cases "(\<forall>v \<in> set vs. varOk v) \<and> distinct (map packKey vs)")
    case False
    then have "\<not> (\<exists>d. checkVars i vs c = Inr d)" by (auto simp: checkVars_scan)
    then obtain e where "checkVars i vs c = Inl e" using checkVars_total by blast
    then show ?thesis using False distinct_keys [of vs] by (auto simp: recordOk_def vs_def c_def)
  next
    case True
    define d where "d = fold scanVar vs c"
    have "checkVars i vs c = Inr d" using True c0 by (simp add: checkVars_scan d_def)
    moreover have "checkCross version d = None \<longleftrightarrow> recordOk version earlier vs"
      unfolding d_def using True Cons.prems by (intro checkCross_scan) (auto simp: c_def)
    moreover have "sc_configValue d = configValue (earlier @ vs)"
      unfolding d_def using True by (intro scan_configValue) (simp_all add: c_def)
    moreover have "sc_sawConfig d \<longleftrightarrow> configs (earlier @ vs) \<noteq> []"
      by (simp add: d_def scan_flags c_def configs_def)
    ultimately show ?thesis
      using Cons.IH [of "earlier @ vs" "i + 1"] True Cons.prems by (auto simp: vs_def c_def split: option.splits)
  qed
qed simp

lemma validate_ok_iff:
  "validateSetupBin f = None \<longleftrightarrow> versionOk f \<and> recordsOk (sbf_version f) [] (sbf_records f)"
  using checkRecords_ok [of "[]" "sbf_version f" 0 "sbf_records f"]
  by (auto simp: validateSetupBin_def versionOk_def configs_def configValue_def kFileTypeGuids_def)

lemma recordsOk_vars:
  "recordsOk version earlier recs \<Longrightarrow> rec \<in> set recs \<Longrightarrow>
     distinct (map packKey (sbr_variables rec)) \<and> (\<forall>v \<in> set (sbr_variables rec). varOk v)"
  by (induction recs arbitrary: earlier) (auto simp: recordOk_def distinct_keys)

lemma validated:
  assumes "validateSetupBin f = None"
  shows "versionOk f" and "\<forall>rec \<in> set (sbf_records f). \<forall>v \<in> set (sbr_variables rec). known v"
    and "rec \<in> set (sbf_records f) \<Longrightarrow> distinct (map packKey (sbr_variables rec))"
proof -
  have ok: "versionOk f" "recordsOk (sbf_version f) [] (sbf_records f)" using assms by (simp_all add: validate_ok_iff)
  show "versionOk f" by (rule ok(1))
  show "\<forall>rec \<in> set (sbf_records f). \<forall>v \<in> set (sbr_variables rec). known v"
    using recordsOk_vars [OF ok(2)] by (fastforce simp: known_def varOk_iff)
  show "rec \<in> set (sbf_records f) \<Longrightarrow> distinct (map packKey (sbr_variables rec))"
    using recordsOk_vars [OF ok(2)] by simp
qed

text \<open>
  On a validated file \<open>sortedVariables\<close> is what any correct sort gives: no two variables of a
  record have equal numbers.
\<close>

lemma sort_determined:
  assumes "distinct (map packKey vs)" and "mset ws = mset vs" and "sorted (map var_key ws)"
  shows "ws = sortedVariables vs"
proof -
  have "inj_on packKey (set vs)" using assms(1) by (simp add: distinct_map)
  then have "inj_on var_key (set vs)" by (meson inj_on_def same_packKey)
  moreover have "set ws = set vs" using assms(2) by (metis set_mset_mset)
  moreover have "map var_key ws = map var_key (sortedVariables vs)"
  proof -
    have "mset (map var_key ws) = mset (map var_key vs)" using assms(2) by simp
    then have "sort (map var_key vs) = map var_key ws" using assms(3) by (intro properties_for_sort) simp_all
    moreover have "sort (map var_key vs) = map var_key (sortedVariables vs)"
      by (intro properties_for_sort) (simp_all add: sortedVariables_def)
    ultimately show ?thesis by simp
  qed
  ultimately show ?thesis
    by (intro map_inj_on [of var_key]) simp_all
qed

section \<open>Properties\<close>

text \<open>C26: Round trip of the provisioning file. A file that passes validation and whose records fit
  their 488-byte bodies is decoded from its encoding exactly as it was, flags, consumed count and
  every variable, scrambled records included; the variables of each record come back in the order
  of their numbers.\<close>

theorem setupbin_roundtrip:
  assumes "validateSetupBin f = None" and "length (sbf_records f) < 2 ^ 31"
    and "\<forall>rec \<in> set (sbf_records f). recordFits rec"
  shows "decodeSetupBin (encodeSetupBin f) = (canonicalFile f, True)"
proof -
  note v = validated [OF assms(1)]
  have "decodeRecords (encodeRecords 0 (sbf_records f)) = map canonicalRecord (sbf_records f)"
    using assms(3) v(2) by (intro decodeRecords_encode) blast
  then show ?thesis
    using decode_encoded [OF v(1) assms(2) v(2)] by (simp add: canonicalFile_def)
qed

definition demo_setup :: SetupBinFile where
  "demo_setup = \<lparr>sbf_version = 2, sbf_flags = 1, sbf_dataRecordsConsumed = 0, sbf_records =
     [\<lparr>sbr_flags = 3, sbr_variables =
        [\<lparr>sbv_moduleId = 2, sbv_varId = 18, sbv_value = [0x60, 0x42]\<rparr>,
         \<lparr>sbv_moduleId = 1, sbv_varId = 2, sbv_value = blit ''P@ssw0rd''\<rparr>,
         \<lparr>sbv_moduleId = 1, sbv_varId = 1, sbv_value = blit ''admin''\<rparr>]\<rparr>]\<rparr>"

lemma demo_setup_valid: "validateSetupBin demo_setup = None"
  by (simp add: validateSetupBin_def demo_setup_def kFileTypeGuids_def findSetupBinVarSpec_def kVarSpecs_def var_spec_def
      checkValue_def typeWidth_def lengthCap_def scanVar_def var_key_def checkCross_def packKey_def Let_def blit_def)

theorem setupbin_roundtrip_witness:
  "decodeSetupBin (encodeSetupBin demo_setup) = (canonicalFile demo_setup, True)"
  by (rule setupbin_roundtrip [OF demo_setup_valid])
    (simp_all add: demo_setup_def recordFits_def paddedSize_def kRecordBodySize_def kRecordSize_def kRecordHeaderSize_def)

text \<open>C27: The validator accepts exactly the files that follow the rules of the format: a version from 1
  to 4; in every record no variable twice and only variables of the format, with one, two, four or
  sixteen bytes for the numbers, switches and GUIDs, at most 63 bytes for the hostname, 255 for the
  domain names, 60 for the channel description, 32 for the account number and the passcode, and any
  value for the others (the table \<open>valueOk\<close>, which does not refer to the validator); a new MEBx password wherever version 2 presents the factory
  one; a user certificate only after a certificate configuration, in this or an earlier record,
  the last of which is not "delete".\<close>

theorem setupbin_validator_exact:
  "validateSetupBin f = None \<longleftrightarrow> versionOk f \<and> recordsOk (sbf_version f) [] (sbf_records f)"
  by (rule validate_ok_iff)

lemma decodeRecord_size:
  "sum_list (map entrySize (sbr_variables (decodeRecord (encodeRecord n rec @ r)))) \<le> kRecordBodySize"
  using decodeVars_size [of "encodeBody rec"] decodeVars_size [of "descrambleSetupBinBody (encodeBody rec)"]
  by (simp add: decodeRecord_def record_header Let_def descrambleSetupBinBody_def)

lemma decodeRecords_sizes:
  "length (decodeRecords (encodeRecords n recs)) = length recs
   \<and> (\<forall>d \<in> set (decodeRecords (encodeRecords n recs)). sum_list (map entrySize (sbr_variables d)) \<le> kRecordBodySize)"
  by (induction recs arbitrary: n) (simp_all add: decodeRecords_Nil decodeRecords_Cons decodeRecord_size)

text \<open>A validated record that does not fit is cut without a word. When the variables of a
  record take more than the 488 bytes of its body, the file still validates and encodes, the
  encoding still decodes with success, and what comes back is not what was written.\<close>

theorem setupbin_overflow_lost:
  assumes "validateSetupBin f = None" and "length (sbf_records f) < 2 ^ 31"
    and "rec \<in> set (sbf_records f)" and "sum_list (map entrySize (sbr_variables rec)) > kRecordBodySize"
  shows "snd (decodeSetupBin (encodeSetupBin f)) \<and> fst (decodeSetupBin (encodeSetupBin f)) \<noteq> canonicalFile f"
proof -
  note v = validated [OF assms(1)]
  note sizes = decodeRecords_sizes [of 0 "sbf_records f"]
  have "sum_list (map entrySize (sbr_variables (canonicalRecord rec))) > kRecordBodySize"
    using assms(4) by (simp add: canonicalRecord_def)
  then have "decodeRecords (encodeRecords 0 (sbf_records f)) \<noteq> map canonicalRecord (sbf_records f)"
    using sizes assms(3) by (metis image_eqI list.set_map not_le)
  then show ?thesis
    using decode_encoded [OF v(1) assms(2) v(2) conjunct1 [OF sizes]] by (cases f) (simp add: canonicalFile_def)
qed

definition demo_overflow :: SetupBinFile where
  "demo_overflow = \<lparr>sbf_version = 4, sbf_flags = 0, sbf_dataRecordsConsumed = 0, sbf_records =
     [\<lparr>sbr_flags = 1, sbr_variables =
        [\<lparr>sbv_moduleId = 2, sbv_varId = 3, sbv_value = replicate 255 0x61\<rparr>,
         \<lparr>sbv_moduleId = 2, sbv_varId = 4, sbv_value = replicate 255 0x62\<rparr>]\<rparr>]\<rparr>"

theorem setupbin_overflow_lost_witness:
  "validateSetupBin demo_overflow = None \<and> fst (decodeSetupBin (encodeSetupBin demo_overflow)) \<noteq> canonicalFile demo_overflow"
proof -
  have v: "validateSetupBin demo_overflow = None"
    by (simp add: validateSetupBin_def demo_overflow_def kFileTypeGuids_def findSetupBinVarSpec_def kVarSpecs_def var_spec_def
        checkValue_def typeWidth_def lengthCap_def scanVar_def var_key_def checkCross_def packKey_def Let_def)
  show ?thesis
    using setupbin_overflow_lost [OF v, of "hd (sbf_records demo_overflow)"] v
    by (simp add: demo_overflow_def entrySize_def kRecordBodySize_def kRecordSize_def kRecordHeaderSize_def)
qed

end
