(* ===== verification/Rmcp.thy ===== *)
theory Rmcp
  imports Prelude
begin

text \<open>
  Discovery of AMT machines on the network: the presence ping and pong (\<open>rmcp/src/pong.cpp\<close>), the
  target specification (\<open>rmcp/src/target_range.cpp\<close>) and the paced scan (\<open>rmcp/src/scanner.cpp\<close>).

  An IPv4 \<open>QHostAddress\<close> is its 32-bit number. The string functions of Qt that read addresses and
  numbers are a parameter, and so are the outcome of \<open>bind\<close> and the random tag of a scan. Timers
  are fields of the scanner: a timer fires only while it is armed.
\<close>

section \<open>Ping and pong\<close>

datatype ProvisioningState = PreProvisioning | InProcess | PostProvisioning

record PongMessage =
  pong_tag :: byte
  pong_versionMajor :: byte
  pong_versionMinor :: byte
  pong_provisioning :: ProvisioningState
  pong_dualPorts :: bool
  pong_openPort :: u16

definition kRmcpVersion :: byte where "kRmcpVersion = 0x06"
definition kRmcpMsgClassAsf :: byte where "kRmcpMsgClassAsf = 0x06"
definition kAsfMsgTypePing :: byte where "kAsfMsgTypePing = 0x80"
definition kAsfMsgTypePong :: byte where "kAsfMsgTypePong = 0x40"
definition kIntelEnt :: bytes where "kIntelEnt = [0x00, 0x00, 0x11, 0xBE]"

definition buildPing :: "byte \<Rightarrow> bytes" where
  "buildPing tag = [kRmcpVersion, 0, 0, kRmcpMsgClassAsf] @ kIntelEnt @ [kAsfMsgTypePing, tag, 0, 0]"

definition provisioningOf :: "byte \<Rightarrow> ProvisioningState option" where
  "provisioningOf p =
     (if p = 0 then Some PreProvisioning else if p = 1 then Some InProcess
      else if p = 2 then Some PostProvisioning else None)"

definition parsePong :: "bytes \<Rightarrow> PongMessage option" where
  "parsePong b =
     (if length b < 22 then None
      else if b ! 3 \<noteq> kRmcpMsgClassAsf then None
      else if b ! 4 \<noteq> kIntelEnt ! 0 \<or> b ! 5 \<noteq> kIntelEnt ! 1 \<or> b ! 6 \<noteq> kIntelEnt ! 2 \<or> b ! 7 \<noteq> kIntelEnt ! 3 then None
      else if b ! 8 \<noteq> kAsfMsgTypePong then None
      else
        (case provisioningOf (b ! 19 AND 0x03) of
           None \<Rightarrow> None
         | Some prov \<Rightarrow>
             Some \<lparr>pong_tag = b ! 9, pong_versionMajor = drop_bit 4 (b ! 18) AND 0x0F,
                   pong_versionMinor = b ! 18 AND 0x0F, pong_provisioning = prov,
                   pong_dualPorts = (b ! 19 AND 0x04 \<noteq> 0),
                   pong_openPort = push_bit 8 (ucast (b ! 16)) OR ucast (b ! 17)\<rparr>))"

section \<open>Targets\<close>

record qt_text =
  t_trimmed :: "qstring \<Rightarrow> qstring"
  t_toInt :: "qstring \<Rightarrow> int option"
  t_ipv4 :: "qstring \<Rightarrow> u32 option"

datatype target_error =
    TargetEmpty
  | CidrShape
  | CidrBase
  | CidrMask
  | CidrTooBroad int
  | RangeShape
  | RangeEndpoints
  | RangeReversed
  | RangeTooLarge nat
  | NotATarget

text \<open>\<open>setAddress\<close> on the trimmed text, then \<open>toIPv4Address\<close>.\<close>

definition parseIPv4 :: "qt_text \<Rightarrow> qstring \<Rightarrow> u32 option" where
  "parseIPv4 q s = t_ipv4 q (t_trimmed q s)"

text \<open>\<open>QString::split\<close> on one character.\<close>

fun qsplit :: "qchar \<Rightarrow> qstring \<Rightarrow> qstring list" where
  "qsplit c [] = [[]]"
| "qsplit c (x # xs) =
     (if x = c then [] # qsplit c xs
      else case qsplit c xs of [] \<Rightarrow> [[x]] | w # ws \<Rightarrow> (x # w) # ws)"

definition cidrHosts :: "u32 \<Rightarrow> nat \<Rightarrow> u32 list" where
  "cidrHosts base mask_bits =
     (let hostBits = 32 - mask_bits;
          netmask = (if mask_bits = 0 then 0 else push_bit hostBits (NOT 0));
          network = base AND netmask
      in map (\<lambda>i. network + of_nat i) [0..<2 ^ hostBits])"

definition rangeHosts :: "u32 \<Rightarrow> u32 \<Rightarrow> u32 list" where
  "rangeHosts lo hi = map of_nat [unat lo..<unat hi + 1]"

definition parseCidr :: "qt_text \<Rightarrow> qstring \<Rightarrow> target_error + u32 list" where
  "parseCidr q s =
     (case qsplit 47 s of
        [addr, m] \<Rightarrow>
          (case parseIPv4 q addr of
             None \<Rightarrow> Inl CidrBase
           | Some base \<Rightarrow>
               (case t_toInt q m of
                  None \<Rightarrow> Inl CidrMask
                | Some k \<Rightarrow>
                    if k < 0 \<or> k > 32 then Inl CidrMask
                    else if k < 16 then Inl (CidrTooBroad k)
                    else Inr (cidrHosts base (nat k))))
      | _ \<Rightarrow> Inl CidrShape)"

definition parseRange :: "qt_text \<Rightarrow> qstring \<Rightarrow> target_error + u32 list" where
  "parseRange q s =
     (case qsplit 45 s of
        [a, b] \<Rightarrow>
          (case (parseIPv4 q a, parseIPv4 q b) of
             (Some lo, Some hi) \<Rightarrow>
               if hi < lo then Inl RangeReversed
               else if unat hi - unat lo + 1 > 65536 then Inl (RangeTooLarge (unat hi - unat lo + 1))
               else Inr (rangeHosts lo hi)
           | _ \<Rightarrow> Inl RangeEndpoints)
      | _ \<Rightarrow> Inl RangeShape)"

definition parseTargets :: "qt_text \<Rightarrow> qstring \<Rightarrow> target_error + u32 list" where
  "parseTargets q spec =
     (let s = t_trimmed q spec
      in if s = [] then Inl TargetEmpty
         else if 47 \<in> set s then parseCidr q s
         else if 45 \<in> set s then parseRange q s
         else case parseIPv4 q s of None \<Rightarrow> Inl NotATarget | Some only \<Rightarrow> Inr [only])"

section \<open>The scan\<close>

datatype scan_out =
    Datagram bytes u32 u16
  | LookupHost u32
  | PongReceived PongMessage u32 qstring
  | ScanFinished

datatype scan_error = ScanNoError | NoTargets | BindFailed

text \<open>
  \<open>scan_lookups\<close> are the reverse lookups under way, each with the pong and the sender its callback
  captured. \<open>scan_sendTimer\<close> is \<open>None\<close> for the null pointer, else whether the timer runs.
\<close>

record scanner =
  scan_socket :: bool
  scan_sendTimer :: "bool option"
  scan_waitTimer :: bool
  scan_pending :: "u32 list"
  scan_nextIndex :: nat
  scan_tag :: byte
  scan_lastError :: scan_error
  scan_lookups :: "(PongMessage \<times> u32) list"
  scan_outs :: "scan_out list"

definition newScanner :: scanner where
  "newScanner = \<lparr>scan_socket = False, scan_sendTimer = None, scan_waitTimer = False, scan_pending = [],
     scan_nextIndex = 0, scan_tag = 0, scan_lastError = ScanNoError, scan_lookups = [], scan_outs = []\<rparr>"

definition kAmtRmcpPort :: u16 where "kAmtRmcpPort = 623"
definition kBurstSize :: nat where "kBurstSize = 32"

definition scan_emit :: "scan_out list \<Rightarrow> scanner \<Rightarrow> scanner" where
  "scan_emit xs s = s\<lparr>scan_outs := scan_outs s @ xs\<rparr>"

definition teardownTimers :: "scanner \<Rightarrow> scanner" where
  "teardownTimers s = s\<lparr>scan_sendTimer := None, scan_waitTimer := False\<rparr>"

definition scan_stop :: "scanner \<Rightarrow> scanner" where
  "scan_stop s =
     (let s = (teardownTimers s)\<lparr>scan_socket := False\<rparr>
      in if scan_pending s \<noteq> [] then scan_emit [ScanFinished] (s\<lparr>scan_pending := [], scan_nextIndex := 0\<rparr>) else s)"

definition onSendBurst :: "scanner \<Rightarrow> scanner" where
  "onSendBurst s =
     (if \<not> scan_socket s then s
      else
        let end' = min (scan_nextIndex s + kBurstSize) (length (scan_pending s));
            s = scan_emit (map (\<lambda>i. Datagram (buildPing (scan_tag s)) (scan_pending s ! i) kAmtRmcpPort)
                             [scan_nextIndex s..<end']) s;
            s = s\<lparr>scan_nextIndex := end'\<rparr>
        in if scan_nextIndex s \<ge> length (scan_pending s)
           then s\<lparr>scan_sendTimer := None, scan_waitTimer := True\<rparr> else s)"

text \<open>\<open>bound\<close> is the outcome of \<open>bind\<close>, \<open>tag\<close> the random tag.\<close>

definition scan_start :: "bool \<Rightarrow> byte \<Rightarrow> u32 list \<Rightarrow> scanner \<Rightarrow> bool \<times> scanner" where
  "scan_start bound tag targets s =
     (let s = scan_stop s
      in if targets = [] then (False, s\<lparr>scan_lastError := NoTargets\<rparr>)
         else if \<not> bound then (False, s\<lparr>scan_lastError := BindFailed, scan_socket := False\<rparr>)
         else
           let s = s\<lparr>scan_socket := True, scan_pending := targets, scan_nextIndex := 0, scan_tag := tag,
                     scan_lastError := ScanNoError, scan_sendTimer := Some False\<rparr>;
               s = onSendBurst s
           in (True, if scan_nextIndex s < length (scan_pending s) then s\<lparr>scan_sendTimer := Some True\<rparr> else s))"

text \<open>One datagram of the loop of \<open>onReadyRead\<close>: its bytes (empty for a failed read) and its sender.\<close>

definition onDatagram :: "bytes \<times> u32 \<Rightarrow> scanner \<Rightarrow> scanner" where
  "onDatagram d s =
     (if fst d = [] then s
      else case parsePong (fst d) of
          None \<Rightarrow> s
        | Some pong \<Rightarrow>
            if pong_tag pong \<noteq> scan_tag s then s
            else scan_emit [LookupHost (snd d)] (s\<lparr>scan_lookups := scan_lookups s @ [(pong, snd d)]\<rparr>))"

definition onReadyRead :: "(bytes \<times> u32) list \<Rightarrow> scanner \<Rightarrow> scanner" where
  "onReadyRead datagrams s = (if \<not> scan_socket s then s else fold onDatagram datagrams s)"

text \<open>
  The callback of the \<open>i\<close>-th lookup: \<open>hostName\<close> is the host name of a lookup without error, and
  \<open>text\<close> the address as text.
\<close>

definition onLookup :: "nat \<Rightarrow> qstring option \<Rightarrow> (u32 \<Rightarrow> qstring) \<Rightarrow> scanner \<Rightarrow> scanner" where
  "onLookup i hostName as_text s =
     (if i < length (scan_lookups s) then
        (case scan_lookups s ! i of
           (pong, src) \<Rightarrow>
             let name = (case hostName of None \<Rightarrow> [] | Some n \<Rightarrow> if n \<noteq> [] \<and> n \<noteq> as_text src then n else [])
             in scan_emit [PongReceived pong src name]
                  (s\<lparr>scan_lookups := take i (scan_lookups s) @ drop (Suc i) (scan_lookups s)\<rparr>))
      else s)"

definition onWaitElapsed :: "scanner \<Rightarrow> scanner" where
  "onWaitElapsed s =
     scan_emit [ScanFinished] (s\<lparr>scan_waitTimer := False, scan_socket := False, scan_pending := [], scan_nextIndex := 0\<rparr>)"

section \<open>Pongs\<close>

text \<open>A presence pong as firmware sends it, with any values in the fields the scan does not use.\<close>

definition provisioning_bits :: "ProvisioningState \<Rightarrow> byte" where
  "provisioning_bits p = (case p of PreProvisioning \<Rightarrow> 0 | InProcess \<Rightarrow> 1 | PostProvisioning \<Rightarrow> 2)"

definition pong_frame :: "bytes \<Rightarrow> bytes \<Rightarrow> bytes \<Rightarrow> PongMessage \<Rightarrow> bytes" where
  "pong_frame version middle rest m =
     version @ [0x06, 0x00, 0x00, 0x11, 0xBE, 0x40, pong_tag m] @ middle
     @ [ucast (drop_bit 8 (pong_openPort m)), ucast (pong_openPort m),
        push_bit 4 (pong_versionMajor m) OR pong_versionMinor m,
        provisioning_bits (pong_provisioning m) OR (if pong_dualPorts m then 4 else 0)] @ rest"

lemma nibbles:
  assumes "(a :: byte) < 16" and "b < 16"
  shows "drop_bit 4 (push_bit 4 a OR b) AND 0x0F = a" "(push_bit 4 a OR b) AND 0x0F = b"
proof -
  have small: "\<not> bit x n" if "x < 16" and "4 \<le> n" for x :: byte and n
  proof -
    have "take_bit 4 x = x" using that(1) by (simp add: word_less_nat_alt take_bit_eq_mod unat_mod word_unat_eq_iff)
    then show ?thesis using that(2) by (metis bit_take_bit_iff not_less)
  qed
  have m: "(0x0F :: byte) = mask 4" by (simp add: mask_eq_exp_minus_1)
  show "drop_bit 4 (push_bit 4 a OR b) AND 0x0F = a" "(push_bit 4 a OR b) AND 0x0F = b"
    unfolding m using small assms by (auto intro!: bit_word_eqI simp: bit_simps) (metis not_less)+
qed

text \<open>A presence pong is understood: whatever firmware puts into the fields that are not read,
  the tag, version, provisioning state, port and dual-port flag it announces are what the scan
  reports.\<close>

theorem pong_roundtrip:
  assumes "length version = 3" and "length middle = 6" and "2 \<le> length rest"
    and "pong_versionMajor m < 16" and "pong_versionMinor m < 16"
  shows "parsePong (pong_frame version middle rest m) = Some m"
proof -
  obtain a b c where v: "version = [a, b, c]" using assms(1) by (auto simp: length_Suc_conv numeral_3_eq_3)
  have mid6: "\<exists>m0 m1 m2 m3 m4 m5. middle = [m0, m1, m2, m3, m4, m5]"
    using assms(2) by (auto simp: length_Suc_conv eval_nat_numeral)
  then obtain m0 m1 m2 m3 m4 m5 where mm: "middle = [m0, m1, m2, m3, m4, m5]" by blast
  have prov: "provisioningOf ((provisioning_bits (pong_provisioning m) OR (if pong_dualPorts m then 4 else 0)) AND 0x03)
      = Some (pong_provisioning m)"
    "((provisioning_bits (pong_provisioning m) OR (if pong_dualPorts m then 4 else 0)) AND 0x04 \<noteq> 0) = pong_dualPorts m"
    by (cases "pong_provisioning m"; simp add: provisioning_bits_def provisioningOf_def)+
  show ?thesis
    using assms(3) prov nibbles [OF assms(4,5)] word16_of_bytes_be [of "pong_openPort m"]
    by (simp add: parsePong_def pong_frame_def v mm kRmcpMsgClassAsf_def kIntelEnt_def kAsfMsgTypePong_def)
qed

theorem pong_roundtrip_witness:
  "parsePong (pong_frame [6, 0, 0] [0, 0, 0, 0, 0, 0] [0, 1]
     \<lparr>pong_tag = 77, pong_versionMajor = 11, pong_versionMinor = 8, pong_provisioning = PostProvisioning,
      pong_dualPorts = True, pong_openPort = 16992\<rparr>)
   = Some \<lparr>pong_tag = 77, pong_versionMajor = 11, pong_versionMinor = 8, pong_provisioning = PostProvisioning,
      pong_dualPorts = True, pong_openPort = 16992\<rparr>"
  by (rule pong_roundtrip) simp_all

section \<open>Targets\<close>

lemma network_number:
  assumes "h < 32"
  shows "unat ((base :: u32) AND push_bit h (NOT 0)) = unat base div 2 ^ h * 2 ^ h"
proof -
  have "base AND push_bit h (NOT 0) = push_bit h (drop_bit h base)"
    by (rule bit_word_eqI) (auto simp: bit_simps)
  moreover have "unat base mod 2 ^ 32 = unat base" using unat_bound [of base] by simp
  ultimately have "unat (base AND push_bit h (NOT 0)) = push_bit h (drop_bit h (unat base)) mod 2 ^ 32"
    by (simp add: unsigned_push_bit_eq unsigned_drop_bit_eq take_bit_eq_mod)
  moreover have "unat base div 2 ^ h * 2 ^ h < 2 ^ 32"
    by (rule le_less_trans [OF div_times_less_eq_dividend]) (use unat_bound [of base] in simp)
  ultimately show ?thesis
    by (simp add: push_bit_eq_mult drop_bit_eq_div)
qed

lemma cidr_host:
  assumes "16 \<le> k" and "k \<le> 32" and "i < 2 ^ (32 - k)"
  shows "unat ((base AND push_bit (32 - k) (NOT 0)) + of_nat i :: u32) = unat base div 2 ^ (32 - k) * 2 ^ (32 - k) + i"
proof -
  define h where "h = 32 - k"
  have h: "h < 32" "i < 2 ^ h" using assms by (auto simp: h_def)
  have "unat base < 2 ^ (32 - h) * 2 ^ h"
    using unat_bound [of base] h by (simp flip: power_add)
  then have "unat base div 2 ^ h < 2 ^ (32 - h)" by (simp add: less_mult_imp_div_less)
  then have "(unat base div 2 ^ h + 1) * 2 ^ h \<le> 2 ^ (32 - h) * 2 ^ h" by (intro mult_le_mono1) simp
  then have le: "unat base div 2 ^ h * 2 ^ h + 2 ^ h \<le> 2 ^ 32" using h by (simp flip: power_add)
  then have "unat (of_nat i :: u32) = i" using h by (simp add: unat_of_nat)
  then show ?thesis
    using le h network_number [OF h(1), of base] unfolding h_def [symmetric]
    by (simp add: unat_word_ariths)
qed

lemma cidrHosts_unat:
  assumes "16 \<le> k" and "k \<le> 32"
  shows "map unat (cidrHosts base k) = map (\<lambda>i. unat base div 2 ^ (32 - k) * 2 ^ (32 - k) + i) [0..<2 ^ (32 - k)]"
  using assms cidr_host [OF assms, of _ base] by (simp add: cidrHosts_def Let_def)

lemma rangeHosts_unat: "map unat (rangeHosts lo hi) = [unat lo..<unat hi + 1]"
proof -
  have "unat (of_nat n :: u32) = n" if "n < unat hi + 1" for n
  proof -
    have "n < 2 ^ 32" using that unat_bound [of hi] by simp
    then show ?thesis by (simp add: unat_of_nat)
  qed
  then have "map (\<lambda>n. unat (of_nat n :: u32)) [unat lo..<unat hi + 1] = [unat lo..<unat hi + 1]"
    by (intro map_idI) (metis atLeastLessThan_iff atLeastLessThan_upt)
  then show ?thesis by (simp only: rangeHosts_def map_map comp_def)
qed

lemma cidrHosts_exact:
  assumes "16 \<le> k" and "k \<le> 32"
  shows "set (cidrHosts base k) = {a. drop_bit (32 - k) a = drop_bit (32 - k) base}
     \<and> distinct (cidrHosts base k) \<and> sorted (cidrHosts base k) \<and> length (cidrHosts base k) = 2 ^ (32 - k)"
proof -
  define h n where "h = 32 - k" and "n = unat base div 2 ^ h * 2 ^ h"
  have m: "map unat (cidrHosts base k) = map (\<lambda>i. n + i) [0..<2 ^ h]"
    using cidrHosts_unat [OF assms, of base] by (simp add: h_def n_def)
  have "a \<in> set (cidrHosts base k) \<longleftrightarrow> drop_bit h a = drop_bit h base" for a
  proof -
    have "a \<in> set (cidrHosts base k) \<longleftrightarrow> unat a \<in> set (map unat (cidrHosts base k))"
      by (auto dest: word_unat_eq_iff [THEN iffD2])
    also have "\<dots> \<longleftrightarrow> n \<le> unat a \<and> unat a < n + 2 ^ h"
      by (auto simp: m image_iff)
    also have "\<dots> \<longleftrightarrow> unat a div 2 ^ h = unat base div 2 ^ h"
      unfolding n_def by (metis div_nat_eqI div_times_less_eq_dividend dividend_less_div_times mult.commute mult_Suc
        add.commute zero_less_power zero_less_numeral)
    also have "\<dots> \<longleftrightarrow> drop_bit h a = drop_bit h base"
      using unat_bound [of a] unat_bound [of base]
      by (simp add: word_unat_eq_iff unsigned_drop_bit_eq take_bit_nat_eq_self flip: drop_bit_eq_div)
    finally show ?thesis .
  qed
  moreover have "distinct (map unat (cidrHosts base k))" "sorted (map unat (cidrHosts base k))"
    by (simp_all add: m distinct_map sorted_iff_nth_mono)
  then have "distinct (cidrHosts base k)" "sorted (cidrHosts base k)"
    by (auto simp: distinct_map sorted_iff_nth_mono word_le_nat_alt)
  moreover have "length (cidrHosts base k) = 2 ^ h" using arg_cong [OF m, of length] by simp
  ultimately show ?thesis
    by (auto simp: h_def)
qed

text \<open>A block of addresses is scanned completely and nothing else is. The hosts of a CIDR block
  are exactly the addresses that agree with the base on the first \<open>k\<close> bits, each once and in
  ascending order, the network and broadcast addresses included.\<close>

theorem cidr_exact:
  assumes "16 \<le> k" and "k \<le> 32"
  shows "set (cidrHosts base k) = {a. drop_bit (32 - k) a = drop_bit (32 - k) base}
     \<and> distinct (cidrHosts base k) \<and> sorted (cidrHosts base k) \<and> length (cidrHosts base k) = 2 ^ (32 - k)"
  using assms by (rule cidrHosts_exact)

theorem cidr_exact_witness:
  "length (cidrHosts 0x0A000005 24) = 256 \<and> sorted (cidrHosts 0x0A000005 24)"
  using cidr_exact [of 24 "0x0A000005"] by simp

lemma rangeHosts_exact:
  "set (rangeHosts lo hi) = {lo..hi}" "distinct (rangeHosts lo hi)" "length (rangeHosts lo hi) = unat hi + 1 - unat lo"
proof -
  note m = rangeHosts_unat [of lo hi]
  have "a \<in> set (rangeHosts lo hi) \<longleftrightarrow> a \<in> {lo..hi}" for a
  proof -
    have "a \<in> set (rangeHosts lo hi) \<longleftrightarrow> unat a \<in> set (map unat (rangeHosts lo hi))"
      by (auto dest: word_unat_eq_iff [THEN iffD2])
    then show ?thesis unfolding m by (auto simp: word_le_nat_alt)
  qed
  then show "set (rangeHosts lo hi) = {lo..hi}" by blast
  have "distinct (map unat (rangeHosts lo hi))" unfolding m by simp
  then show "distinct (rangeHosts lo hi)" by (simp add: distinct_map)
  show "length (rangeHosts lo hi) = unat hi + 1 - unat lo" by (auto simp: rangeHosts_def)
qed

text \<open>Whatever the operator types, a scan has at least one and at most 65536 targets, none of
  them twice. A specification that would exceed the limit is refused with an error.\<close>

theorem targets_bounded:
  assumes "parseTargets q spec = Inr hosts"
  shows "hosts \<noteq> [] \<and> length hosts \<le> 65536 \<and> distinct hosts"
proof -
  define s where "s = t_trimmed q spec"
  consider (cidr) "parseCidr q s = Inr hosts" | (range) "parseRange q s = Inr hosts" | (one) a where "hosts = [a]"
    using assms by (auto simp: parseTargets_def s_def Let_def split: if_splits option.splits)
  then show ?thesis
  proof cases
    case cidr
    then obtain base k where k: "hosts = cidrHosts base (nat k)" "16 \<le> nat k" "nat k \<le> 32"
      by (auto simp: parseCidr_def split: list.splits option.splits if_splits)
    have "(2 :: nat) ^ (32 - nat k) \<le> 2 ^ 16" using k(2) by (intro power_increasing) auto
    moreover have "length hosts = 2 ^ (32 - nat k)" "distinct hosts" using cidrHosts_exact [OF k(2,3), of base] k(1) by simp_all
    ultimately show ?thesis by auto
  next
    case range
    then obtain lo hi where h: "hosts = rangeHosts lo hi" "\<not> hi < lo" "unat hi - unat lo + 1 \<le> 65536"
      by (auto simp: parseRange_def split: list.splits option.splits if_splits)
    then have "unat lo \<le> unat hi" by (simp add: word_less_nat_alt)
    then show ?thesis using h rangeHosts_exact [of lo hi] by auto
  next
    case one
    then show ?thesis by simp
  qed
qed

definition demo_text :: qt_text where
  "demo_text = \<lparr>t_trimmed = (\<lambda>s. s), t_toInt = (\<lambda>s. None), t_ipv4 = (\<lambda>s. Some (of_nat (length s)))\<rparr>"

theorem targets_bounded_witness:
  "parseTargets demo_text (qlit ''a-bcd'') = Inr [1, 2, 3] \<and> length ([1, 2, 3] :: u32 list) \<le> 65536"
proof -
  have "parseTargets demo_text (qlit ''a-bcd'') = Inr [1, 2, 3]"
    by (simp add: parseTargets_def parseRange_def parseIPv4_def demo_text_def qlit_def rangeHosts_def Let_def upt_rec)
  from this targets_bounded [OF this] show ?thesis by simp
qed

section \<open>The scan as a state machine\<close>

text \<open>What can happen to a scanner. A timer fires only while it is armed.\<close>

inductive scan_step :: "scanner \<Rightarrow> scanner \<Rightarrow> bool" where
  step_start: "scan_step s (snd (scan_start bound tag targets s))"
| step_stop: "scan_step s (scan_stop s)"
| step_burst: "scan_sendTimer s = Some True \<Longrightarrow> scan_step s (onSendBurst s)"
| step_read: "scan_step s (onReadyRead datagrams s)"
| step_lookup: "scan_step s (onLookup i hostName as_text s)"
| step_wait: "scan_waitTimer s \<Longrightarrow> scan_step s (onWaitElapsed s)"

inductive scan_reachable :: "scanner \<Rightarrow> bool" where
  scan_init: "scan_reachable newScanner"
| scan_next: "scan_reachable s \<Longrightarrow> scan_step s t \<Longrightarrow> scan_reachable t"

text \<open>
  A scan under way has exactly one armed timer: the send timer while addresses are left, the quiet
  window afterwards. Without a scan there is neither socket nor timer.
\<close>

definition scan_inv :: "scanner \<Rightarrow> bool" where
  "scan_inv s \<longleftrightarrow>
     (if scan_pending s = [] then \<not> scan_socket s \<and> scan_sendTimer s = None \<and> \<not> scan_waitTimer s \<and> scan_nextIndex s = 0
      else scan_socket s \<and> scan_nextIndex s \<le> length (scan_pending s)
           \<and> (if scan_nextIndex s < length (scan_pending s) then scan_sendTimer s = Some True \<and> \<not> scan_waitTimer s
              else scan_sendTimer s = None \<and> scan_waitTimer s))"

lemma scan_inv_emit [simp]: "scan_inv (scan_emit xs s) = scan_inv s"
  by (simp add: scan_inv_def scan_emit_def)

lemma scan_inv_stop: "scan_inv s \<Longrightarrow> scan_inv (scan_stop s)"
  by (simp add: scan_stop_def teardownTimers_def Let_def) (simp add: scan_inv_def)

lemma scan_stop_idle: "scan_inv s \<Longrightarrow> scan_pending (scan_stop s) = [] \<and> \<not> scan_socket (scan_stop s)
    \<and> \<not> scan_waitTimer (scan_stop s) \<and> scan_sendTimer (scan_stop s) = None \<and> scan_nextIndex (scan_stop s) = 0"
  by (auto simp: scan_stop_def teardownTimers_def Let_def scan_emit_def scan_inv_def)

lemma scan_inv_start: "scan_inv s \<Longrightarrow> scan_inv (snd (scan_start bound tag targets s))"
  using scan_stop_idle [of s]
  by (auto simp: scan_start_def onSendBurst_def kBurstSize_def scan_emit_def Let_def scan_inv_def)

lemma scan_inv_burst: "scan_inv s \<Longrightarrow> scan_sendTimer s = Some True \<Longrightarrow> scan_inv (onSendBurst s)"
  by (auto simp: onSendBurst_def scan_emit_def scan_inv_def Let_def split: if_splits)

lemma onDatagram_inv: "scan_inv (onDatagram d s) = scan_inv s"
  by (auto simp: onDatagram_def scan_emit_def scan_inv_def split: option.split)

lemma scan_inv_read: "scan_inv s \<Longrightarrow> scan_inv (onReadyRead ds s)"
proof -
  have "scan_inv (fold onDatagram ds t) = scan_inv t" for t
    by (induction ds arbitrary: t) (simp_all add: onDatagram_inv)
  then show "scan_inv s \<Longrightarrow> scan_inv (onReadyRead ds s)" by (simp add: onReadyRead_def)
qed

lemma scan_inv_lookup: "scan_inv s \<Longrightarrow> scan_inv (onLookup i n a s)"
  by (auto simp: onLookup_def Let_def scan_emit_def scan_inv_def split: prod.split)

lemma scan_reachable_inv: "scan_reachable s \<Longrightarrow> scan_inv s"
proof (induction rule: scan_reachable.induct)
  case scan_init
  show ?case by (simp add: scan_inv_def newScanner_def)
next
  case (scan_next s t)
  from scan_next(2,3) show ?case
    by (cases rule: scan_step.cases)
      (auto simp: scan_inv_start scan_inv_stop scan_inv_burst scan_inv_read scan_inv_lookup onWaitElapsed_def,
       auto simp: scan_inv_def split: if_splits)
qed

text \<open>A scan never gets stuck. In every reachable state with a scan under way exactly one timer
  is armed, the send timer as long as an address is left and the quiet window from then on; with
  no scan there is neither a socket nor a timer.\<close>

theorem scan_never_stuck:
  assumes "scan_reachable s"
  shows "scan_inv s"
  using assms by (rule scan_reachable_inv)

theorem scan_never_stuck_witness:
  "scan_inv (snd (scan_start True 7 [0x0A000001] newScanner))"
  by (rule scan_never_stuck [OF scan_next [OF scan_init step_start]])

section \<open>Every target is probed\<close>

definition pings :: "byte \<Rightarrow> u32 list \<Rightarrow> scan_out list" where
  "pings tag targets = map (\<lambda>a. Datagram (buildPing tag) a kAmtRmcpPort) targets"

text \<open>
  What happens while a scan is left alone: the send timer and the quiet window fire, which has an effect only while they are
  armed, datagrams arrive and lookups come back, in any order.
\<close>

datatype scan_event =
    SendTick
  | WaitTick
  | Readable "(bytes \<times> u32) list"
  | LookedUp nat "qstring option" "u32 \<Rightarrow> qstring"

fun on_event :: "scan_event \<Rightarrow> scanner \<Rightarrow> scanner" where
  "on_event SendTick s = (if scan_sendTimer s = Some True then onSendBurst s else s)"
| "on_event WaitTick s = (if scan_waitTimer s then onWaitElapsed s else s)"
| "on_event (Readable datagrams) s = onReadyRead datagrams s"
| "on_event (LookedUp i hostName as_text) s = onLookup i hostName as_text s"

fun isPing :: "scan_out \<Rightarrow> bool" where
  "isPing (Datagram d a port) = True"
| "isPing x = False"

lemma burst_pings:
  "map (\<lambda>i. Datagram (buildPing tag) (ts ! i) kAmtRmcpPort) [i..<min (i + n) (length ts)] = pings tag (take n (drop i ts))"
proof -
  have "map ((!) ts) [i..<min (i + n) (length ts)] = take n (drop i ts)"
  proof (rule nth_equalityI)
    fix k assume "k < length (map ((!) ts) [i..<min (i + n) (length ts)])"
    then have "k < n" "i + k < length ts" by auto
    then show "map ((!) ts) [i..<min (i + n) (length ts)] ! k = take n (drop i ts) ! k" by simp
  qed auto
  then have "take n (drop i ts) = map ((!) ts) [i..<min (i + n) (length ts)]" by (rule sym)
  then show ?thesis by (simp only: pings_def map_map comp_def)
qed

text \<open>
  \<open>probed k\<close> holds of a scan of \<open>targets\<close> that has sent the first \<open>k\<close> pings since its log was \<open>outs\<close>: while
  targets are left the send timer is armed, and afterwards the quiet window is, until it has elapsed.
\<close>

definition probed :: "byte \<Rightarrow> u32 list \<Rightarrow> scan_out list \<Rightarrow> nat \<Rightarrow> scanner \<Rightarrow> bool" where
  "probed tag targets outs k s \<longleftrightarrow>
     (\<exists>xs. scan_outs s = outs @ xs \<and> filter isPing xs = pings tag (take k targets)
        \<and> (if k < length targets
           then scan_socket s \<and> scan_tag s = tag \<and> scan_pending s = targets \<and> scan_nextIndex s = k
                \<and> scan_sendTimer s = Some True \<and> \<not> scan_waitTimer s
           else scan_sendTimer s = None \<and> (scan_waitTimer s \<or> ScanFinished \<in> set xs)))"

lemma filter_pings [simp]: "filter isPing (pings tag ts) = pings tag ts"
  by (auto simp: pings_def intro: filter_True)

lemma pings_append: "pings tag xs @ pings tag ys = pings tag (xs @ ys)"
  by (simp add: pings_def)

lemma onDatagram_fields:
  "scan_socket (onDatagram d s) = scan_socket s \<and> scan_tag (onDatagram d s) = scan_tag s \<and> scan_pending (onDatagram d s) = scan_pending s
   \<and> scan_nextIndex (onDatagram d s) = scan_nextIndex s \<and> scan_sendTimer (onDatagram d s) = scan_sendTimer s
   \<and> scan_waitTimer (onDatagram d s) = scan_waitTimer s
   \<and> (\<exists>ys. scan_outs (onDatagram d s) = scan_outs s @ ys \<and> filter isPing ys = [])"
  by (auto simp: onDatagram_def scan_emit_def split: option.split)

text \<open>A step that keeps the scan's fields and logs no ping keeps how far the scan is.\<close>

lemma probed_same:
  assumes "probed tag targets outs k s" and "scan_socket t = scan_socket s" "scan_tag t = scan_tag s" "scan_pending t = scan_pending s"
    "scan_nextIndex t = scan_nextIndex s" "scan_sendTimer t = scan_sendTimer s" "scan_waitTimer t = scan_waitTimer s"
    and "scan_outs t = scan_outs s @ ys" and "filter isPing ys = []"
  shows "probed tag targets outs k t"
proof -
  obtain xs where "scan_outs s = outs @ xs" "filter isPing xs = pings tag (take k targets)"
    "if k < length targets
     then scan_socket s \<and> scan_tag s = tag \<and> scan_pending s = targets \<and> scan_nextIndex s = k
          \<and> scan_sendTimer s = Some True \<and> \<not> scan_waitTimer s
     else scan_sendTimer s = None \<and> (scan_waitTimer s \<or> ScanFinished \<in> set xs)"
    using assms(1) unfolding probed_def by blast
  then show ?thesis
    unfolding probed_def using assms(2-9) by (intro exI [of _ "xs @ ys"]) (auto split: if_splits)
qed

lemma burst_probed:
  assumes "scan_outs s = outs @ xs" and "filter isPing xs = pings tag (take k targets)" and "k \<le> length targets"
    and "scan_socket s" "scan_tag s = tag" "scan_pending s = targets" "scan_nextIndex s = k" "\<not> scan_waitTimer s"
    and "scan_sendTimer s = Some True \<or> length targets \<le> k + kBurstSize"
  shows "probed tag targets outs (k + kBurstSize) (onSendBurst s)"
proof -
  let ?ys = "pings tag (take kBurstSize (drop k targets))"
  have outs: "scan_outs (onSendBurst s) = outs @ (xs @ ?ys)"
    using assms(1,4-7) by (simp add: onSendBurst_def scan_emit_def Let_def flip: burst_pings)
  moreover have "filter isPing (xs @ ?ys) = pings tag (take (k + kBurstSize) targets)"
    using assms(2) by (simp add: take_add pings_append)
  moreover have "k + kBurstSize < length targets \<Longrightarrow> min (k + kBurstSize) (length targets) = k + kBurstSize" by simp
  ultimately show ?thesis
    unfolding probed_def using assms(4-9)
    by (intro exI [of _ "xs @ ?ys"]) (auto simp: onSendBurst_def scan_emit_def Let_def)
qed

lemma tick_probed:
  assumes "probed tag targets outs k s"
  shows "probed tag targets outs (if k < length targets then k + kBurstSize else k) (on_event SendTick s)"
proof (cases "k < length targets")
  case True
  then show ?thesis using assms burst_probed [of s outs _ tag k targets] by (auto simp: probed_def [of _ _ _ k])
next
  case False
  then show ?thesis using assms by (auto simp: probed_def)
qed

lemma event_probed:
  assumes "probed tag targets outs k s" and "ev \<noteq> SendTick"
  shows "probed tag targets outs k (on_event ev s)"
proof (cases ev)
  case WaitTick
  obtain xs where "scan_outs s = outs @ xs" "filter isPing xs = pings tag (take k targets)" using assms(1) by (auto simp: probed_def)
  then show ?thesis
    using assms(1) WaitTick unfolding probed_def
    by (cases "scan_waitTimer s") (auto simp: onWaitElapsed_def scan_emit_def intro!: exI [of _ "xs @ [ScanFinished]"] split: if_splits)
next
  case (Readable datagrams)
  have "probed tag targets outs k (fold onDatagram datagrams s)"
    using assms(1)
  proof (induction datagrams arbitrary: s)
    case (Cons d ds)
    then have "probed tag targets outs k (onDatagram d s)" using onDatagram_fields [of d s] probed_same [OF Cons.prems] by metis
    then show ?case using Cons.IH by simp
  qed simp
  then show ?thesis using Readable assms(1) by (simp add: onReadyRead_def)
next
  case (LookedUp i hostName as_text)
  have "\<exists>ys. scan_outs (onLookup i hostName as_text s) = scan_outs s @ ys \<and> filter isPing ys = []"
    by (cases "scan_lookups s ! i"; cases "i < length (scan_lookups s)") (simp_all add: onLookup_def scan_emit_def Let_def)
  then obtain ys where "scan_outs (onLookup i hostName as_text s) = scan_outs s @ ys" "filter isPing ys = []" by blast
  then show ?thesis
    using LookedUp by (intro probed_same [OF assms(1)]) (auto simp: onLookup_def scan_emit_def Let_def split: prod.split)
qed (use assms(2) in simp)

lemma events_probed:
  assumes "probed tag targets outs k s"
  shows "\<exists>m. probed tag targets outs m (fold on_event es s) \<and> min (length targets) (k + length (filter (\<lambda>ev. ev = SendTick) es) * kBurstSize) \<le> m"
  using assms
proof (induction es arbitrary: k s)
  case (Cons ev es)
  let ?n = "length (filter (\<lambda>ev. ev = SendTick) es) * kBurstSize"
  show ?case
  proof (cases "ev = SendTick")
    case True
    from Cons.IH [OF tick_probed [OF Cons.prems]] obtain m where
      "probed tag targets outs m (fold on_event es (on_event SendTick s))"
      "min (length targets) ((if k < length targets then k + kBurstSize else k) + ?n) \<le> m" by blast
    then show ?thesis using True by (intro exI [of _ m]) (auto split: if_splits)
  next
    case False
    from Cons.IH [OF event_probed [OF Cons.prems False]] show ?thesis using False by simp
  qed
qed auto

lemma start_probed:
  assumes "targets \<noteq> []"
  shows "probed tag targets (scan_outs (scan_stop s)) kBurstSize (snd (scan_start True tag targets s))"
proof -
  define u where "u = (scan_stop s)\<lparr>scan_socket := True, scan_pending := targets, scan_nextIndex := 0, scan_tag := tag,
    scan_lastError := ScanNoError, scan_sendTimer := Some False\<rparr>"
  let ?v = "onSendBurst u"
  have w: "\<not> scan_waitTimer u" by (simp add: u_def scan_stop_def teardownTimers_def scan_emit_def Let_def)
  have start: "snd (scan_start True tag targets s) = (if scan_nextIndex ?v < length (scan_pending ?v) then ?v\<lparr>scan_sendTimer := Some True\<rparr> else ?v)"
    using assms by (simp add: scan_start_def u_def Let_def)
  have "scan_nextIndex ?v = min kBurstSize (length targets)" "scan_pending ?v = targets"
    by (simp_all add: onSendBurst_def scan_emit_def u_def Let_def)
  moreover have "probed tag targets (scan_outs (scan_stop s)) (0 + kBurstSize) (onSendBurst (u\<lparr>scan_sendTimer := Some True\<rparr>))"
    by (rule burst_probed [where xs = "[]"]) (use w in \<open>simp_all add: u_def pings_def\<close>)
  moreover have "(onSendBurst (u\<lparr>scan_sendTimer := Some True\<rparr>)) = (if kBurstSize < length targets then ?v\<lparr>scan_sendTimer := Some True\<rparr> else ?v)"
    by (simp add: onSendBurst_def scan_emit_def u_def Let_def)
  ultimately show ?thesis using start by (simp split: if_splits)
qed

text \<open>C37: A scan probes every target. From the start of a scan of \<open>n\<close> targets on, let the timers fire, datagrams arrive and
  lookups come back in any order, a timer having an effect only while the scanner has armed it. Once the send timer was due
  \<open>(n - 1) div 32\<close> times, the scanner has sent exactly one presence ping to each target, in their order, and no other; and the end
  of the scan is announced when the quiet window elapses, if it was not before.\<close>

theorem scan_probes_all:
  assumes "targets \<noteq> []" and "(length targets - 1) div 32 \<le> length (filter (\<lambda>ev. ev = SendTick) es)"
    and "t = fold on_event es (snd (scan_start True tag targets s))"
  shows "\<exists>xs. scan_outs t = scan_outs (scan_stop s) @ xs
     \<and> filter isPing xs = map (\<lambda>a. Datagram (buildPing tag) a 623) targets
     \<and> (ScanFinished \<in> set xs \<or> scan_outs (on_event WaitTick t) = scan_outs t @ [ScanFinished])"
proof -
  obtain m where m: "probed tag targets (scan_outs (scan_stop s)) m t"
      "min (length targets) (kBurstSize + length (filter (\<lambda>ev. ev = SendTick) es) * kBurstSize) \<le> m"
    using events_probed [OF start_probed [OF assms(1)], of tag s es] assms(3) by blast
  have "length targets \<le> kBurstSize + length (filter (\<lambda>ev. ev = SendTick) es) * kBurstSize"
    using assms(1,2) dividend_less_div_times [of 32 "length targets - 1"] by (cases targets) (auto simp: kBurstSize_def)
  then have "length targets \<le> m" using m(2) by simp
  then show ?thesis
    using m(1) by (auto simp: probed_def pings_def kAmtRmcpPort_def onWaitElapsed_def scan_emit_def)
qed

theorem scan_probes_all_witness:
  "filter isPing (scan_outs (fold on_event [Readable [], SendTick, WaitTick] (snd (scan_start True 7 (map of_nat [1..<41]) newScanner))))
     = map (\<lambda>a. Datagram (buildPing 7) a 623) (map of_nat [1..<41])"
proof -
  have "scan_outs (scan_stop newScanner) = []" by (simp add: scan_stop_def newScanner_def teardownTimers_def)
  then show ?thesis
    using scan_probes_all [of "map of_nat [1..<41]" "[Readable [], SendTick, WaitTick]" _ 7 newScanner, OF _ _ refl] by auto
qed

text \<open>A reply that does not carry the tag of the running scan is ignored: reading it changes
  nothing, starts no lookup and reports no machine.\<close>

theorem stale_reply_dropped:
  assumes "\<forall>d \<in> set datagrams. \<forall>m. parsePong (fst d) = Some m \<longrightarrow> pong_tag m \<noteq> scan_tag s"
  shows "onReadyRead datagrams s = s"
proof -
  have "fold onDatagram datagrams s = s"
    using assms by (induction datagrams) (auto simp: onDatagram_def split: option.split)
  then show ?thesis by (simp add: onReadyRead_def)
qed

theorem stale_reply_dropped_witness:
  "onReadyRead [(buildPing 3, 0x0A000009)] newScanner = newScanner"
  by (rule stale_reply_dropped) (simp add: buildPing_def parsePong_def kIntelEnt_def)

end
