(* ===== verification/Batch_Runner.thy ===== *)
theory Batch_Runner
  imports Prelude "HOL-Library.Multiset"
begin

text \<open>
  The engine that runs one action on many machines, \<open>app/src/batchrunner.cpp\<close> and
  \<open>app/src/batchrunner.h\<close>.

  The dispatcher is the caller's: a parameter that either answers within the call (\<open>Some\<close>) or later
  (\<open>None\<close>), in which case the row of the callback is kept in \<open>batch_calls\<close> until it is invoked. An
  answer within the call re-enters the queue, so \<open>pumpQueue\<close> and the callback are mutually recursive;
  the first argument of \<open>pumpFrom\<close> and \<open>replyTo\<close> bounds the depth of that recursion, and
  \<open>pump_total\<close> below shows that the bound \<open>pumpQueue\<close> and \<open>reply\<close> use always suffices.
\<close>

section \<open>State\<close>

datatype BatchStatus = JobPending | JobRunning | JobDoneOk | JobDoneFailed | JobSkipped

record Reply =
  reply_status :: BatchStatus
  reply_detail :: qstring

record Job =
  job_row :: int
  job_status :: BatchStatus
  job_detail :: qstring

datatype batch_out =
    JobChanged int BatchStatus qstring
  | JobsChanged
  | RunningChanged
  | BatchFinished

record 'p batch =
  batch_dispatcher :: bool
  batch_maxConcurrency :: int
  batch_jobs :: "Job list"
  batch_action :: int
  batch_params :: 'p
  batch_inflight :: int
  batch_running :: bool
  batch_calls :: "int list"
  batch_outs :: "batch_out list"

definition newBatch :: "'p \<Rightarrow> 'p batch" where
  "newBatch p = \<lparr>batch_dispatcher = False, batch_maxConcurrency = 8, batch_jobs = [], batch_action = 1,
     batch_params = p, batch_inflight = 0, batch_running = False, batch_calls = [], batch_outs = []\<rparr>"

type_synonym 'p dispatcher = "int \<Rightarrow> int \<Rightarrow> 'p \<Rightarrow> Reply option"

definition batch_emit :: "batch_out list \<Rightarrow> 'p batch \<Rightarrow> 'p batch" where
  "batch_emit xs b = b\<lparr>batch_outs := batch_outs b @ xs\<rparr>"

definition setDispatcher :: "'p batch \<Rightarrow> 'p batch" where
  "setDispatcher b = b\<lparr>batch_dispatcher := True\<rparr>"

definition setMaxConcurrency :: "int \<Rightarrow> 'p batch \<Rightarrow> 'p batch" where
  "setMaxConcurrency n b = b\<lparr>batch_maxConcurrency := max 1 (min n 64)\<rparr>"

definition emitJobChanged :: "nat \<Rightarrow> 'p batch \<Rightarrow> 'p batch" where
  "emitJobChanged i b =
     (if i < length (batch_jobs b)
      then batch_emit [JobChanged (job_row (batch_jobs b ! i)) (job_status (batch_jobs b ! i)) (job_detail (batch_jobs b ! i)),
                       JobsChanged] b
      else b)"

section \<open>The queue\<close>

definition activeJob :: "Job \<Rightarrow> bool" where
  "activeJob j \<longleftrightarrow> job_status j = JobPending \<or> job_status j = JobRunning"

text \<open>The end of \<open>pumpQueue\<close>: the batch is over when no job is pending or running.\<close>

definition finishCheck :: "'p batch \<Rightarrow> 'p batch" where
  "finishCheck b =
     (if \<not> list_ex activeJob (batch_jobs b) \<and> batch_running b
      then batch_emit [RunningChanged, BatchFinished] (b\<lparr>batch_running := False\<rparr>) else b)"

definition markRunning :: "nat \<Rightarrow> 'p batch \<Rightarrow> 'p batch" where
  "markRunning i b =
     emitJobChanged i (b\<lparr>batch_jobs := (batch_jobs b)[i := (batch_jobs b ! i)\<lparr>job_status := JobRunning\<rparr>],
                         batch_inflight := batch_inflight b + 1\<rparr>)"

definition normalizeReply :: "Reply \<Rightarrow> Reply" where
  "normalizeReply r =
     (if reply_status r = JobPending \<or> reply_status r = JobRunning
      then \<lparr>reply_status = JobDoneFailed,
            reply_detail = (if reply_detail r = [] then qlit ''dispatcher returned non-terminal status'' else reply_detail r)\<rparr>
      else r)"

text \<open>\<open>completeOne\<close> up to the point where it goes back to the queue.\<close>

definition finishJob :: "nat \<Rightarrow> Reply \<Rightarrow> 'p batch \<Rightarrow> 'p batch" where
  "finishJob k r b =
     (let r = normalizeReply r
      in emitJobChanged k
           (b\<lparr>batch_jobs := (batch_jobs b)[k := (batch_jobs b ! k)\<lparr>job_status := reply_status r, job_detail := reply_detail r\<rparr>],
              batch_inflight := batch_inflight b - 1\<rparr>))"

text \<open>The scan of the callback for the first running job of its row.\<close>

fun runningIndex :: "int \<Rightarrow> Job list \<Rightarrow> nat option" where
  "runningIndex row [] = None"
| "runningIndex row (j # js) =
     (if job_row j = row \<and> job_status j = JobRunning then Some 0 else map_option Suc (runningIndex row js))"

text \<open>
  \<open>pumpFrom\<close> is the loop of \<open>pumpQueue\<close> at index \<open>i\<close>, \<open>replyTo\<close> the callback of a dispatched row.
\<close>

fun pumpFrom :: "nat \<Rightarrow> 'p dispatcher \<Rightarrow> nat \<Rightarrow> 'p batch \<Rightarrow> 'p batch option"
  and replyTo :: "nat \<Rightarrow> 'p dispatcher \<Rightarrow> int \<Rightarrow> Reply \<Rightarrow> 'p batch \<Rightarrow> 'p batch option" where
  "pumpFrom 0 d i b = None"
| "pumpFrom (Suc fuel) d i b =
     (if i < length (batch_jobs b) \<and> batch_inflight b < batch_maxConcurrency b then
        if job_status (batch_jobs b ! i) \<noteq> JobPending then pumpFrom fuel d (i + 1) b
        else
          let row = job_row (batch_jobs b ! i);
              b = markRunning i b
          in case d row (batch_action b) (batch_params b) of
              None \<Rightarrow> pumpFrom fuel d (i + 1) (b\<lparr>batch_calls := batch_calls b @ [row]\<rparr>)
            | Some r \<Rightarrow>
                (case replyTo fuel d row r b of
                   None \<Rightarrow> None
                 | Some b \<Rightarrow> pumpFrom fuel d (i + 1) b)
      else Some (finishCheck b))"
| "replyTo 0 d row r b = None"
| "replyTo (Suc fuel) d row r b =
     (case runningIndex row (batch_jobs b) of
        None \<Rightarrow> Some b
      | Some k \<Rightarrow>
          let b = finishJob k r b
          in if batch_running b then pumpFrom fuel d 0 b else Some b)"

section \<open>Operations\<close>

definition pending :: "'p batch \<Rightarrow> nat" where
  "pending b = length (filter (\<lambda>j. job_status j = JobPending) (batch_jobs b))"

definition pumpFuel :: "'p batch \<Rightarrow> nat" where
  "pumpFuel b = (pending b + 1) * (length (batch_jobs b) + 3)"

definition pumpQueue :: "'p dispatcher \<Rightarrow> 'p batch \<Rightarrow> 'p batch option" where
  "pumpQueue d b = pumpFrom (pumpFuel b) d 0 b"

text \<open>The result and the runner; \<open>None\<close> would be a recursion deeper than the bound.\<close>

definition batch_start :: "'p dispatcher \<Rightarrow> int list \<Rightarrow> int \<Rightarrow> 'p \<Rightarrow> 'p batch \<Rightarrow> (bool \<times> 'p batch) option" where
  "batch_start d rows action p b =
     (if batch_running b \<or> \<not> batch_dispatcher b \<or> rows = [] then Some (False, b)
      else
        let b = b\<lparr>batch_jobs := map (\<lambda>row. \<lparr>job_row = row, job_status = JobPending, job_detail = []\<rparr>) rows,
                  batch_action := action, batch_params := p, batch_inflight := 0, batch_running := True\<rparr>;
            b = batch_emit [RunningChanged, JobsChanged] b
        in map_option (Pair True) (pumpQueue d b))"

definition retryJob :: "Job \<Rightarrow> Job" where
  "retryJob j = (if job_status j = JobDoneFailed then j\<lparr>job_status := JobPending, job_detail := []\<rparr> else j)"

definition retryFailed :: "'p dispatcher \<Rightarrow> 'p batch \<Rightarrow> (bool \<times> 'p batch) option" where
  "retryFailed d b =
     (if batch_running b \<or> \<not> batch_dispatcher b then Some (False, b)
      else if \<not> list_ex (\<lambda>j. job_status j = JobDoneFailed) (batch_jobs b) then Some (False, b)
      else
        let b = b\<lparr>batch_jobs := map retryJob (batch_jobs b), batch_inflight := 0, batch_running := True\<rparr>;
            b = batch_emit [RunningChanged, JobsChanged] b
        in map_option (Pair True) (pumpQueue d b))"

text \<open>A callback kept from an earlier dispatch is invoked.\<close>

definition reply :: "'p dispatcher \<Rightarrow> int \<Rightarrow> Reply \<Rightarrow> 'p batch \<Rightarrow> 'p batch option" where
  "reply d row r b = replyTo (pumpFuel b + 1) d row r (b\<lparr>batch_calls := remove1 row (batch_calls b)\<rparr>)"

definition doneCount :: "'p batch \<Rightarrow> nat" where
  "doneCount b = length (filter (\<lambda>j. job_status j = JobDoneOk) (batch_jobs b))"

definition failedCount :: "'p batch \<Rightarrow> nat" where
  "failedCount b = length (filter (\<lambda>j. job_status j = JobDoneFailed) (batch_jobs b))"

definition skippedCount :: "'p batch \<Rightarrow> nat" where
  "skippedCount b = length (filter (\<lambda>j. job_status j = JobSkipped) (batch_jobs b))"

section \<open>Jobs\<close>

definition runningRows :: "Job list \<Rightarrow> int multiset" where
  "runningRows js = mset (map job_row (filter (\<lambda>j. job_status j = JobRunning) js))"

definition pendingCount :: "Job list \<Rightarrow> nat" where
  "pendingCount js = length (filter (\<lambda>j. job_status j = JobPending) js)"

definition activeCount :: "Job list \<Rightarrow> nat" where
  "activeCount js = length (filter activeJob js)"

lemma pending_eq: "pending b = pendingCount (batch_jobs b)"
  by (simp add: pending_def pendingCount_def)

lemma size_runningRows: "size (runningRows js) = length (filter (\<lambda>j. job_status j = JobRunning) js)"
  by (simp only: runningRows_def size_mset length_map)

lemma activeCount_split: "activeCount js = pendingCount js + size (runningRows js)"
  unfolding size_runningRows by (induction js) (auto simp: activeCount_def pendingCount_def activeJob_def)

lemma active_iff: "list_ex activeJob js \<longleftrightarrow> 0 < activeCount js"
  by (auto simp: activeCount_def list_ex_iff filter_empty_conv)

lemma start_job:
  assumes "i < length js" and "job_status (js ! i) = JobPending"
  shows "runningRows (js[i := (js ! i)\<lparr>job_status := JobRunning\<rparr>]) = add_mset (job_row (js ! i)) (runningRows js)"
    and "pendingCount js = Suc (pendingCount (js[i := (js ! i)\<lparr>job_status := JobRunning\<rparr>]))"
  using assms
proof (induction js arbitrary: i)
  case (Cons j js)
  case 1
  then show ?case using Cons(1) [of "i - 1"] by (cases i) (auto simp: runningRows_def)
next
  case (Cons j js)
  case 2
  then show ?case using Cons(2) [of "i - 1"] by (cases i) (auto simp: pendingCount_def)
qed simp_all

lemma finish_job:
  assumes "k < length js" and "job_status (js ! k) = JobRunning" and "st \<noteq> JobRunning" and "st \<noteq> JobPending"
  shows "runningRows js = add_mset (job_row (js ! k)) (runningRows (js[k := (js ! k)\<lparr>job_status := st, job_detail := x\<rparr>]))"
    and "pendingCount (js[k := (js ! k)\<lparr>job_status := st, job_detail := x\<rparr>]) = pendingCount js"
  using assms
proof (induction js arbitrary: k)
  case (Cons j js)
  case 1
  then show ?case using Cons(1) [of "k - 1"] by (cases k) (auto simp: runningRows_def)
next
  case (Cons j js)
  case 2
  then show ?case using Cons(2) [of "k - 1"] by (cases k) (auto simp: pendingCount_def)
qed simp_all

lemma runningIndex_Some:
  "runningIndex row js = Some k \<Longrightarrow> k < length js \<and> job_row (js ! k) = row \<and> job_status (js ! k) = JobRunning"
  by (induction js arbitrary: k) (auto split: if_splits)

lemma runningIndex_found: "row \<in># runningRows js \<Longrightarrow> \<exists>k. runningIndex row js = Some k"
  by (induction js) (auto simp: runningRows_def split: if_splits)

section \<open>The invariant\<close>

text \<open>
  \<open>batch_inv X b\<close>: the counter of calls in flight is the number of running jobs, and the callbacks that
  are still to be invoked, with those of \<open>X\<close> that are being invoked, are for exactly the running rows.
  An idle runner has no active job, and every batch so far was announced as finished once.
\<close>

definition batch_inv :: "int multiset \<Rightarrow> 'p batch \<Rightarrow> bool" where
  "batch_inv X b \<longleftrightarrow> 1 \<le> batch_maxConcurrency b \<and> batch_maxConcurrency b \<le> 64
     \<and> batch_inflight b = int (size (runningRows (batch_jobs b)))
     \<and> mset (batch_calls b) + X = runningRows (batch_jobs b)
     \<and> (\<not> batch_running b \<longrightarrow> activeCount (batch_jobs b) = 0)
     \<and> count_list (batch_outs b) RunningChanged
         = 2 * count_list (batch_outs b) BatchFinished + (if batch_running b then 1 else 0)"

text \<open>No job waits while there is room, and a batch that is not over has an active job.\<close>

definition drained :: "'p batch \<Rightarrow> bool" where
  "drained b \<longleftrightarrow> (batch_inflight b \<ge> batch_maxConcurrency b \<or> pending b = 0)
     \<and> (batch_running b \<longrightarrow> 0 < activeCount (batch_jobs b))"

definition settles :: "'p batch \<Rightarrow> 'p batch \<Rightarrow> bool" where
  "settles b b' \<longleftrightarrow> batch_inv {#} b' \<and> drained b' \<and> length (batch_jobs b') = length (batch_jobs b)
     \<and> batch_maxConcurrency b' = batch_maxConcurrency b \<and> pending b' \<le> pending b
     \<and> activeCount (batch_jobs b') \<le> activeCount (batch_jobs b)
     \<and> (batch_inflight b \<le> batch_maxConcurrency b \<longrightarrow> batch_inflight b' \<le> batch_maxConcurrency b')"

definition scanned :: "nat \<Rightarrow> 'p batch \<Rightarrow> bool" where
  "scanned i b \<longleftrightarrow> batch_inflight b \<ge> batch_maxConcurrency b
     \<or> (\<forall>j < i. j < length (batch_jobs b) \<longrightarrow> job_status (batch_jobs b ! j) \<noteq> JobPending)"

definition pump_spec :: "'p dispatcher \<Rightarrow> nat \<Rightarrow> bool" where
  "pump_spec d fuel \<longleftrightarrow> (\<forall>i b. batch_inv {#} b \<longrightarrow> scanned i b
     \<longrightarrow> pending b * (length (batch_jobs b) + 3) + (length (batch_jobs b) - i) + 1 \<le> fuel
     \<longrightarrow> (\<exists>b'. pumpFrom fuel d i b = Some b' \<and> settles b b'))"

definition reply_spec :: "'p dispatcher \<Rightarrow> nat \<Rightarrow> bool" where
  "reply_spec d fuel \<longleftrightarrow> (\<forall>row r b. batch_inv {#row#} b \<longrightarrow> batch_running b
     \<longrightarrow> pending b * (length (batch_jobs b) + 3) + length (batch_jobs b) + 2 \<le> fuel
     \<longrightarrow> (\<exists>b'. replyTo fuel d row r b = Some b' \<and> settles b b'
            \<and> activeCount (batch_jobs b') < activeCount (batch_jobs b)))"

lemma markRunning_fields:
  assumes "i < length (batch_jobs b)"
  shows "batch_jobs (markRunning i b) = (batch_jobs b)[i := (batch_jobs b ! i)\<lparr>job_status := JobRunning\<rparr>]"
    "batch_inflight (markRunning i b) = batch_inflight b + 1"
    "batch_maxConcurrency (markRunning i b) = batch_maxConcurrency b" "batch_running (markRunning i b) = batch_running b"
    "batch_calls (markRunning i b) = batch_calls b" "batch_action (markRunning i b) = batch_action b"
    "batch_params (markRunning i b) = batch_params b"
    "count_list (batch_outs (markRunning i b)) RunningChanged = count_list (batch_outs b) RunningChanged"
    "count_list (batch_outs (markRunning i b)) BatchFinished = count_list (batch_outs b) BatchFinished"
  using assms by (simp_all add: markRunning_def emitJobChanged_def batch_emit_def)

lemma finishJob_fields:
  assumes "k < length (batch_jobs b)"
  shows "batch_jobs (finishJob k r b) = (batch_jobs b)[k := (batch_jobs b ! k)
      \<lparr>job_status := reply_status (normalizeReply r), job_detail := reply_detail (normalizeReply r)\<rparr>]"
    "batch_inflight (finishJob k r b) = batch_inflight b - 1"
    "batch_maxConcurrency (finishJob k r b) = batch_maxConcurrency b" "batch_running (finishJob k r b) = batch_running b"
    "batch_calls (finishJob k r b) = batch_calls b"
    "count_list (batch_outs (finishJob k r b)) RunningChanged = count_list (batch_outs b) RunningChanged"
    "count_list (batch_outs (finishJob k r b)) BatchFinished = count_list (batch_outs b) BatchFinished"
  using assms by (simp_all add: finishJob_def emitJobChanged_def batch_emit_def Let_def)

lemma normalizeReply_terminal:
  "reply_status (normalizeReply r) \<noteq> JobPending" "reply_status (normalizeReply r) \<noteq> JobRunning"
  by (auto simp: normalizeReply_def)

lemma markRunning_inv:
  assumes "batch_inv {#} b" and "i < length (batch_jobs b)" and "job_status (batch_jobs b ! i) = JobPending"
  shows "batch_inv {#job_row (batch_jobs b ! i)#} (markRunning i b)" and "batch_running b"
    and "pending b = Suc (pending (markRunning i b))"
    and "activeCount (batch_jobs (markRunning i b)) = activeCount (batch_jobs b)"
proof -
  note j = start_job [OF assms(2,3)]
  have "0 < activeCount (batch_jobs b)" unfolding activeCount_split j(2) by simp
  then show run: "batch_running b" using assms(1) by (auto simp: batch_inv_def)
  show "batch_inv {#job_row (batch_jobs b ! i)#} (markRunning i b)"
    using assms(1) j(1) run by (simp add: batch_inv_def markRunning_fields [OF assms(2)])
  show "pending b = Suc (pending (markRunning i b))" "activeCount (batch_jobs (markRunning i b)) = activeCount (batch_jobs b)"
    using j by (simp_all add: pending_eq activeCount_split markRunning_fields [OF assms(2)])
qed

lemma finishCheck_settles:
  assumes "batch_inv {#} b" and "batch_inflight b \<ge> batch_maxConcurrency b \<or> pending b = 0"
  shows "settles b (finishCheck b)"
  using assms by (auto simp: settles_def finishCheck_def batch_inv_def drained_def batch_emit_def active_iff pending_eq)

lemma no_pending: "pending b = 0 \<longleftrightarrow> (\<forall>j < length (batch_jobs b). job_status (batch_jobs b ! j) \<noteq> JobPending)"
  by (auto simp: pending_def filter_empty_conv all_set_conv_all_nth)

lemma scanned_all: "scanned i b \<Longrightarrow> length (batch_jobs b) \<le> i \<Longrightarrow> batch_inflight b \<ge> batch_maxConcurrency b \<or> pending b = 0"
  by (auto simp: scanned_def no_pending)

lemma settles_scanned: "settles a b \<Longrightarrow> scanned i b"
  by (auto simp: settles_def drained_def scanned_def no_pending)

lemma settles_after:
  assumes "settles b c" and "length (batch_jobs b) = length (batch_jobs a)"
    and "batch_maxConcurrency b = batch_maxConcurrency a" and "pending b \<le> pending a"
    and "activeCount (batch_jobs b) \<le> activeCount (batch_jobs a)"
    and "batch_inflight a \<le> batch_maxConcurrency a \<longrightarrow> batch_inflight b \<le> batch_maxConcurrency b"
  shows "settles a c"
  using assms by (auto simp: settles_def)

section \<open>The recursion ends\<close>

lemma pump_step:
  fixes d :: "'p dispatcher"
  assumes "pump_spec d fuel" and "reply_spec d fuel"
  shows "pump_spec d (Suc fuel)"
  unfolding pump_spec_def
proof (intro allI impI)
  fix i and b :: "'p batch"
  assume inv: "batch_inv {#} b" and sc: "scanned i b"
    and fu: "pending b * (length (batch_jobs b) + 3) + (length (batch_jobs b) - i) + 1 \<le> Suc fuel"
  define N where "N = length (batch_jobs b)"
  show "\<exists>b'. pumpFrom (Suc fuel) d i b = Some b' \<and> settles b b'"
  proof (cases "i < N \<and> batch_inflight b < batch_maxConcurrency b")
    case False
    then have "settles b (finishCheck b)"
      using inv scanned_all [OF sc] by (intro finishCheck_settles) (auto simp: N_def)
    then show ?thesis using False by (auto simp: N_def)
  next
    case room: True
    show ?thesis
    proof (cases "job_status (batch_jobs b ! i) = JobPending")
      case False
      then have "scanned (i + 1) b" using sc room by (auto simp: scanned_def less_Suc_eq)
      moreover have "pending b * (N + 3) + (N - (i + 1)) + 1 \<le> fuel"
        using fu room unfolding N_def by linarith
      ultimately have "\<exists>b'. pumpFrom fuel d (i + 1) b = Some b' \<and> settles b b'"
        using assms(1) inv unfolding pump_spec_def N_def by blast
      then show ?thesis using room False by (simp add: N_def)
    next
      case True
      define row b1 where "row = job_row (batch_jobs b ! i)" and "b1 = markRunning i b"
      have i: "i < length (batch_jobs b)" using room by (simp add: N_def)
      note m = markRunning_inv [OF inv i True, folded b1_def] and f = markRunning_fields [OF i, folded b1_def]
      have N: "length (batch_jobs b1) = N" by (simp add: f N_def)
      have fu1: "pending b1 * (N + 3) + N + 2 \<le> fuel" using fu m(3) by (simp add: N_def)
      have after1: "settles b c" if "settles b2 c" "length (batch_jobs b2) = N" "batch_maxConcurrency b2 = batch_maxConcurrency b"
        "pending b2 \<le> pending b1" "activeCount (batch_jobs b2) \<le> activeCount (batch_jobs b)"
        "batch_inflight b2 \<le> batch_maxConcurrency b2" for b2 c
        using that m(3) by (intro settles_after [OF that(1)]) (simp_all add: N_def)
      show ?thesis
      proof (cases "d row (batch_action b1) (batch_params b1)")
        case None
        define b2 where "b2 = b1\<lparr>batch_calls := batch_calls b1 @ [row]\<rparr>"
        have "batch_inv {#} b2" using m(1) by (simp add: batch_inv_def b2_def row_def)
        moreover have "scanned (i + 1) b2"
          using sc room by (auto simp: scanned_def b2_def f nth_list_update less_Suc_eq)
        moreover have "pending b2 * (length (batch_jobs b2) + 3) + (length (batch_jobs b2) - (i + 1)) + 1 \<le> fuel"
          using fu1 N by (simp add: b2_def pending_def)
        ultimately obtain b' where "pumpFrom fuel d (i + 1) b2 = Some b'" "settles b2 b'"
          using assms(1) unfolding pump_spec_def by blast
        moreover have "settles b b'"
          by (rule after1 [OF \<open>settles b2 b'\<close>]) (use room N m f in \<open>auto simp: b2_def pending_def\<close>)
        ultimately show ?thesis
          using room True None by (simp add: N_def b2_def Let_def flip: row_def b1_def)
      next
        case (Some r)
        have "pending b1 * (length (batch_jobs b1) + 3) + length (batch_jobs b1) + 2 \<le> fuel" using fu1 N by simp
        then obtain b3 where b3: "replyTo fuel d row r b1 = Some b3" "settles b1 b3"
          using assms(2) m(1,2) f(4) unfolding reply_spec_def row_def by metis
        have p3: "pending b3 \<le> pending b1" "length (batch_jobs b3) = N" "batch_inv {#} b3" using b3(2) N by (simp_all add: settles_def)
        have "pending b3 * (N + 3) \<le> pending b1 * (N + 3)" using p3(1) by (rule mult_le_mono1)
        then have "pending b3 * (length (batch_jobs b3) + 3) + (length (batch_jobs b3) - (i + 1)) + 1 \<le> fuel"
          unfolding p3(2) using fu1 by linarith
        then obtain b' where "pumpFrom fuel d (i + 1) b3 = Some b'" "settles b3 b'"
          using assms(1) p3(3) settles_scanned [OF b3(2), of "i + 1"] unfolding pump_spec_def by blast
        moreover have "settles b b'"
          by (rule after1 [OF \<open>settles b3 b'\<close>]) (use room b3(2) p3 m f in \<open>auto simp: settles_def\<close>)
        ultimately show ?thesis
          using room True Some b3(1) by (simp add: N_def Let_def flip: row_def b1_def)
      qed
    qed
  qed
qed

lemma reply_step:
  fixes d :: "'p dispatcher"
  assumes "pump_spec d fuel"
  shows "reply_spec d (Suc fuel)"
  unfolding reply_spec_def
proof (intro allI impI)
  fix row r and b :: "'p batch"
  assume inv: "batch_inv {#row#} b" and run: "batch_running b"
    and fu: "pending b * (length (batch_jobs b) + 3) + length (batch_jobs b) + 2 \<le> Suc fuel"
  have "row \<in># runningRows (batch_jobs b)" using inv by (simp add: batch_inv_def) (metis union_single_eq_member add.commute)
  then obtain k where k: "runningIndex row (batch_jobs b) = Some k" using runningIndex_found by blast
  note kk = runningIndex_Some [OF k]
  define b1 where "b1 = finishJob k r b"
  have kl: "k < length (batch_jobs b)" "job_status (batch_jobs b ! k) = JobRunning" using kk by simp_all
  note f = finishJob_fields [OF kl(1), folded b1_def, of r]
  note j = finish_job [OF kl normalizeReply_terminal(2,1), of "reply_detail (normalizeReply r)" r]
  have rows: "runningRows (batch_jobs b) = add_mset row (runningRows (batch_jobs b1))" using j(1) kk by (simp add: f b1_def)
  have pend: "pending b1 = pending b" using j(2) by (simp add: pending_eq f b1_def)
  have inv1: "batch_inv {#} b1" using inv run rows f(2-) by (simp add: batch_inv_def b1_def)
  have act: "activeCount (batch_jobs b) = Suc (activeCount (batch_jobs b1))"
    using rows pend by (simp add: activeCount_split pending_eq)
  have "pending b1 * (length (batch_jobs b1) + 3) + (length (batch_jobs b1) - 0) + 1 \<le> fuel"
    using fu pend f(1) by (simp add: b1_def)
  moreover have "scanned 0 b1" by (simp add: scanned_def)
  ultimately obtain b' where b': "pumpFrom fuel d 0 b1 = Some b'" "settles b1 b'"
    using assms inv1 unfolding pump_spec_def by blast
  have "settles b b'"
    by (rule settles_after [OF b'(2)]) (use f pend act in \<open>auto simp: b1_def\<close>)
  moreover have "activeCount (batch_jobs b') < activeCount (batch_jobs b)"
    using b'(2) act by (simp add: settles_def)
  ultimately show "\<exists>b'. replyTo (Suc fuel) d row r b = Some b' \<and> settles b b'
      \<and> activeCount (batch_jobs b') < activeCount (batch_jobs b)"
    using b'(1) k run f(4) by (simp add: Let_def flip: b1_def)
qed

lemma pump_total: "pump_spec d fuel \<and> reply_spec d fuel"
proof (induction fuel)
  case 0
  show ?case by (simp add: pump_spec_def reply_spec_def)
next
  case (Suc fuel)
  then show ?case by (simp add: pump_step reply_step)
qed

lemma pumpQueue_settles:
  assumes "batch_inv {#} b"
  obtains b' where "pumpQueue d b = Some b'" "settles b b'"
proof -
  have "pending b * (length (batch_jobs b) + 3) + (length (batch_jobs b) - 0) + 1 \<le> pumpFuel b"
    by (simp add: pumpFuel_def)
  then show ?thesis
    using that assms pump_total [of d "pumpFuel b"] unfolding pump_spec_def pumpQueue_def scanned_def by blast
qed

lemma reply_settles:
  assumes "batch_inv {#} b" and "row \<in> set (batch_calls b)"
  obtains b' where "reply d row r b = Some b'" "settles b b'" "activeCount (batch_jobs b') < activeCount (batch_jobs b)"
proof -
  define c where "c = b\<lparr>batch_calls := remove1 row (batch_calls b)\<rparr>"
  have rows: "mset (batch_calls b) = runningRows (batch_jobs b)" using assms(1) by (simp add: batch_inv_def)
  then have "row \<in># runningRows (batch_jobs b)" using assms(2) by (metis set_mset_mset)
  then have "0 < activeCount (batch_jobs b)" by (auto simp: activeCount_split)
  then have run: "batch_running c" using assms(1) by (auto simp: batch_inv_def c_def)
  have inv: "batch_inv {#row#} c"
    using assms(1) \<open>row \<in># runningRows (batch_jobs b)\<close> rows by (simp add: batch_inv_def c_def)
  have "pending c * (length (batch_jobs c) + 3) + length (batch_jobs c) + 2 \<le> pumpFuel b + 1"
    by (simp add: pumpFuel_def c_def pending_def)
  then obtain b' where "replyTo (pumpFuel b + 1) d row r c = Some b'" "settles c b'"
      "activeCount (batch_jobs b') < activeCount (batch_jobs c)"
    using inv run pump_total [of d "pumpFuel b + 1"] unfolding reply_spec_def by blast
  moreover from this have "settles b b'" by (intro settles_after [of c b' b]) (simp_all add: c_def pending_def)
  ultimately show ?thesis using that by (simp add: reply_def c_def)
qed

section \<open>Reachable states\<close>

text \<open>Everything that happens to a runner. A callback is invoked once, after its dispatch.\<close>

inductive batch_step :: "'p dispatcher \<Rightarrow> 'p batch \<Rightarrow> 'p batch \<Rightarrow> bool" for d where
  step_plug: "batch_step d b (setDispatcher b)"
| step_limit: "batch_step d b (setMaxConcurrency n b)"
| step_begin: "batch_start d rows action p b = Some (ok, c) \<Longrightarrow> batch_step d b c"
| step_retry: "retryFailed d b = Some (ok, c) \<Longrightarrow> batch_step d b c"
| step_reply: "row \<in> set (batch_calls b) \<Longrightarrow> reply d row r b = Some c \<Longrightarrow> batch_step d b c"

inductive batch_reachable :: "'p dispatcher \<Rightarrow> 'p batch \<Rightarrow> bool" for d where
  batch_init: "batch_reachable d (newBatch p)"
| batch_next: "batch_reachable d b \<Longrightarrow> batch_step d b c \<Longrightarrow> batch_reachable d c"

definition batch_live :: "'p batch \<Rightarrow> bool" where
  "batch_live b \<longleftrightarrow> batch_inv {#} b \<and> (batch_running b \<longrightarrow> batch_calls b \<noteq> [])"

lemma settles_live:
  assumes "settles b c"
  shows "batch_live c"
proof -
  have inv: "batch_inv {#} c" "drained c" using assms by (simp_all add: settles_def)
  have "batch_calls c \<noteq> []" if "batch_running c"
  proof
    assume "batch_calls c = []"
    then have "runningRows (batch_jobs c) = {#}" using inv(1) by (simp add: batch_inv_def)
    then show False
      using that inv by (auto simp: batch_inv_def drained_def activeCount_split pending_eq)
  qed
  with inv(1) show ?thesis by (simp add: batch_live_def)
qed

lemma idle_rows: "batch_inv {#} b \<Longrightarrow> \<not> batch_running b \<Longrightarrow> batch_calls b = [] \<and> runningRows (batch_jobs b) = {#}"
  by (auto simp: batch_inv_def activeCount_split)

lemma fresh_inv:
  assumes "batch_inv {#} b" and "\<not> batch_running b" and "runningRows js = {#}" and "0 < activeCount js"
  shows "batch_inv {#} (batch_emit [RunningChanged, JobsChanged]
    (b\<lparr>batch_jobs := js, batch_inflight := 0, batch_running := True\<rparr>))"
  using assms idle_rows [OF assms(1,2)] by (simp add: batch_inv_def batch_emit_def)

lemma start_live:
  assumes "batch_live b" and "batch_start d rows action p b = Some (ok, c)"
  shows "batch_live c"
proof (cases "batch_running b \<or> \<not> batch_dispatcher b \<or> rows = []")
  case True
  then show ?thesis using assms by (auto simp: batch_start_def)
next
  case False
  define js where "js = map (\<lambda>row. \<lparr>job_row = row, job_status = JobPending, job_detail = []\<rparr>) rows"
  define b1 where "b1 = batch_emit [RunningChanged, JobsChanged]
    (b\<lparr>batch_jobs := js, batch_action := action, batch_params := p, batch_inflight := 0, batch_running := True\<rparr>)"
  have "runningRows js = {#}" "0 < activeCount js"
    using False by (auto simp: js_def runningRows_def activeCount_def activeJob_def filter_map comp_def)
  from fresh_inv [OF _ _ this, of b] have "batch_inv {#} b1"
    using assms(1) False by (simp add: batch_live_def b1_def batch_inv_def batch_emit_def)
  then obtain b' where "pumpQueue d b1 = Some b'" "settles b1 b'" by (rule pumpQueue_settles)
  then show ?thesis
    using assms(2) False settles_live by (auto simp: batch_start_def Let_def b1_def js_def)
qed

lemma retry_live:
  assumes "batch_live b" and "retryFailed d b = Some (ok, c)"
  shows "batch_live c"
proof (cases "batch_running b \<or> \<not> batch_dispatcher b \<or> \<not> list_ex (\<lambda>j. job_status j = JobDoneFailed) (batch_jobs b)")
  case True
  then show ?thesis using assms by (auto simp: retryFailed_def split: if_splits)
next
  case False
  define b1 where "b1 = batch_emit [RunningChanged, JobsChanged]
    (b\<lparr>batch_jobs := map retryJob (batch_jobs b), batch_inflight := 0, batch_running := True\<rparr>)"
  have inv: "batch_inv {#} b" "\<not> batch_running b" using assms(1) False by (simp_all add: batch_live_def)
  have "runningRows (map retryJob js) = runningRows js" for js
    by (induction js) (auto simp: runningRows_def retryJob_def)
  moreover have "list_ex activeJob (map retryJob (batch_jobs b))"
  proof -
    obtain j where "j \<in> set (batch_jobs b)" "job_status j = JobDoneFailed" using False by (auto simp: list_ex_iff)
    then have "retryJob j \<in> set (map retryJob (batch_jobs b))" "activeJob (retryJob j)"
      by (simp_all add: retryJob_def activeJob_def)
    then show ?thesis unfolding list_ex_iff by blast
  qed
  ultimately have "batch_inv {#} b1"
    unfolding b1_def using idle_rows [OF inv] inv by (intro fresh_inv) (auto simp: active_iff)
  then obtain b' where "pumpQueue d b1 = Some b'" "settles b1 b'" by (rule pumpQueue_settles)
  then show ?thesis
    using assms(2) False settles_live by (auto simp: retryFailed_def Let_def b1_def)
qed

lemma batch_step_live: "batch_step d b c \<Longrightarrow> batch_live b \<Longrightarrow> batch_live c"
proof (induction rule: batch_step.induct)
  case (step_reply row b r c)
  then obtain b' where "reply d row r b = Some b'" "settles b b'"
    using reply_settles [of b row d r] by (auto simp: batch_live_def)
  then show ?case using step_reply settles_live [of b b'] by simp
next
  case (step_plug b)
  then show ?case by (simp add: setDispatcher_def batch_live_def batch_inv_def)
next
  case (step_limit b n)
  then show ?case by (simp add: setMaxConcurrency_def batch_live_def batch_inv_def)
next
  case (step_begin rows action p b ok c)
  then show ?case by (blast intro: start_live)
next
  case (step_retry b ok c)
  then show ?case by (blast intro: retry_live)
qed

lemma batch_reachable_live: "batch_reachable d b \<Longrightarrow> batch_live b"
proof (induction rule: batch_reachable.induct)
  case (batch_init p)
  show ?case by (simp add: batch_live_def batch_inv_def newBatch_def runningRows_def activeCount_def)
next
  case (batch_next b c)
  then show ?case by (simp add: batch_step_live)
qed

section \<open>Properties\<close>

definition demo_dispatcher :: "unit dispatcher" where
  "demo_dispatcher row action p = (if row = 2 then Some \<lparr>reply_status = JobDoneOk, reply_detail = []\<rparr> else None)"

text \<open>A batch on two machines: the first call stays out, the second is answered within the call.\<close>

definition demo_batch :: "unit batch" where
  "demo_batch = \<lparr>batch_dispatcher = True, batch_maxConcurrency = 8,
     batch_jobs = [\<lparr>job_row = 1, job_status = JobRunning, job_detail = []\<rparr>, \<lparr>job_row = 2, job_status = JobDoneOk, job_detail = []\<rparr>],
     batch_action = 1, batch_params = (), batch_inflight = 1, batch_running = True, batch_calls = [1],
     batch_outs = [RunningChanged, JobsChanged, JobChanged 1 JobRunning [], JobsChanged, JobChanged 2 JobRunning [], JobsChanged,
       JobChanged 2 JobDoneOk [], JobsChanged]\<rparr>"

lemma demo_start: "batch_start demo_dispatcher [1, 2] 1 () (setDispatcher (newBatch ())) = Some (True, demo_batch)"
  by (simp add: batch_start_def setDispatcher_def newBatch_def batch_emit_def pumpQueue_def pumpFuel_def pending_def
      markRunning_def emitJobChanged_def demo_dispatcher_def finishJob_def normalizeReply_def finishCheck_def activeJob_def
      demo_batch_def Let_def numeral_eq_Suc)

lemma demo_reachable: "batch_reachable demo_dispatcher demo_batch"
  by (rule batch_next [OF batch_next [OF batch_init step_plug] step_begin [OF demo_start]])

text \<open>C35: A batch never stalls. In every reachable state the counter of calls in flight is the number
  of running jobs, the callbacks still to come are for exactly those jobs, a batch that is not over
  is waiting for at least one of them, an idle runner has no pending or running job, and the end of
  every batch was announced exactly once.\<close>

theorem batch_never_stalls:
  assumes "batch_reachable d b"
  shows "batch_inflight b = int (length (filter (\<lambda>j. job_status j = JobRunning) (batch_jobs b)))
     \<and> mset (batch_calls b) = mset (map job_row (filter (\<lambda>j. job_status j = JobRunning) (batch_jobs b)))
     \<and> (batch_running b \<longrightarrow> batch_calls b \<noteq> []) \<and> (\<not> batch_running b \<longrightarrow> \<not> list_ex activeJob (batch_jobs b))
     \<and> count_list (batch_outs b) RunningChanged
         = 2 * count_list (batch_outs b) BatchFinished + (if batch_running b then 1 else 0)"
proof -
  have "batch_inv {#} b" "batch_running b \<longrightarrow> batch_calls b \<noteq> []"
    using batch_reachable_live [OF assms] by (auto simp: batch_live_def)
  then show ?thesis
    unfolding batch_inv_def size_runningRows by (simp add: active_iff runningRows_def)
qed

theorem batch_never_stalls_witness:
  "batch_inflight demo_batch = 1 \<and> mset (batch_calls demo_batch) = {#1#}"
  using batch_never_stalls [OF demo_reachable] by (simp add: demo_batch_def)

text \<open>C36: Every reply moves the batch on. Whatever the dispatcher answers, within the call or later, and
  however deep its answers re-enter the queue, invoking a callback returns, and the number of jobs
  that are pending or running goes down; so a batch of \<open>n\<close> machines ends after at most \<open>n\<close> replies.\<close>

theorem batch_reply_progress:
  assumes "batch_reachable d b" and "row \<in> set (batch_calls b)"
  shows "\<exists>c. reply d row r b = Some c \<and> activeCount (batch_jobs c) < activeCount (batch_jobs b)
     \<and> length (batch_jobs c) = length (batch_jobs b) \<and> batch_reachable d c"
proof -
  have "batch_inv {#} b" using batch_reachable_live [OF assms(1)] by (simp add: batch_live_def)
  from reply_settles [OF this assms(2)] obtain c where c: "reply d row r b = Some c" "settles b c"
    "activeCount (batch_jobs c) < activeCount (batch_jobs b)" by blast
  moreover have "batch_reachable d c" using assms(1) step_reply [OF assms(2) c(1)] by (rule batch_next)
  ultimately show ?thesis by (auto simp: settles_def)
qed

theorem batch_reply_progress_witness:
  "\<exists>c. reply demo_dispatcher 1 \<lparr>reply_status = JobDoneFailed, reply_detail = []\<rparr> demo_batch = Some c
     \<and> activeCount (batch_jobs c) < activeCount (batch_jobs demo_batch)"
  using batch_reply_progress [OF demo_reachable, of 1 "\<lparr>reply_status = JobDoneFailed, reply_detail = []\<rparr>"]
  by (auto simp: demo_batch_def)

text \<open>The concurrency cap holds. A batch started with any list of machines has at most
  \<open>maxConcurrency\<close> calls in flight after the start and after every reply, and as long as a machine
  waits, exactly that many.\<close>

theorem batch_cap_respected:
  assumes "batch_reachable d b" and "row \<in> set (batch_calls b)" and "batch_inflight b \<le> batch_maxConcurrency b"
    and "reply d row r b = Some c"
  shows "batch_inflight c \<le> batch_maxConcurrency c \<and> (0 < pending c \<longrightarrow> batch_inflight c = batch_maxConcurrency c)"
proof -
  have "batch_inv {#} b" using batch_reachable_live [OF assms(1)] by (simp add: batch_live_def)
  from reply_settles [OF this assms(2)] assms(4) have "settles b c" by (metis option.inject)
  then show ?thesis using assms(3) by (auto simp: settles_def drained_def)
qed

theorem batch_cap_respected_witness:
  "\<exists>c. reply demo_dispatcher 1 \<lparr>reply_status = JobDoneOk, reply_detail = []\<rparr> demo_batch = Some c \<and> batch_inflight c \<le> 8"
proof -
  have call: "1 \<in> set (batch_calls demo_batch)" by (simp add: demo_batch_def)
  have "batch_inv {#} demo_batch" using batch_reachable_live [OF demo_reachable] by (simp add: batch_live_def)
  then obtain c where c: "reply demo_dispatcher 1 \<lparr>reply_status = JobDoneOk, reply_detail = []\<rparr> demo_batch = Some c"
      "settles demo_batch c"
    using call by (rule reply_settles)
  have "batch_inflight c \<le> batch_maxConcurrency c"
    using batch_cap_respected [OF demo_reachable call _ c(1)] by (simp add: demo_batch_def)
  moreover have "batch_maxConcurrency c = 8" using c(2) by (simp add: settles_def demo_batch_def)
  ultimately show ?thesis using c(1) by auto
qed

end
