(* ===== verification/Wsman_Http.thy ===== *)
theory Wsman_Http
  imports Prelude
begin

text \<open>
  The HTTP side of \<open>wsman_client.cpp\<close>: the byte-string functions it uses, the digest challenge parser,
  the \<open>Authorization\<close> header, the request it writes and the header block it reads. Texts are bytes. MD5 is a
  parameter. The second half shows that a challenge printed by a device is read back, and that a reader that
  follows RFC 7616 finds in the \<open>Authorization\<close> header exactly the values the client put there.
\<close>

section \<open>Byte strings\<close>

text \<open>\<open>QByteArray::bytesToLower\<close>, \<open>bytesTrimmed\<close>, \<open>split\<close> and \<open>indexOf\<close>.\<close>

definition lowerByte :: "byte \<Rightarrow> byte" where
  "lowerByte b = (if 65 \<le> b \<and> b \<le> 90 then b + 32 else b)"

definition bytesToLower :: "bytes \<Rightarrow> bytes" where
  "bytesToLower = map lowerByte"

definition isAsciiSpace :: "byte \<Rightarrow> bool" where
  "isAsciiSpace b \<longleftrightarrow> b = 32 \<or> 9 \<le> b \<and> b \<le> 13"

definition bytesTrimmed :: "bytes \<Rightarrow> bytes" where
  "bytesTrimmed xs = rev (dropWhile isAsciiSpace (rev (dropWhile isAsciiSpace xs)))"

fun splitOn :: "byte \<Rightarrow> bytes \<Rightarrow> bytes list" where
  "splitOn c [] = [[]]"
| "splitOn c (x # xs) =
     (if x = c then [] # splitOn c xs
      else (case splitOn c xs of [] \<Rightarrow> [[x]] | w # ws \<Rightarrow> (x # w) # ws))"

fun indexOf :: "bytes \<Rightarrow> bytes \<Rightarrow> nat option" where
  "indexOf pat [] = (if pat = [] then Some 0 else None)"
| "indexOf pat (x # xs) =
     (if take (length pat) (x # xs) = pat then Some 0 else map_option Suc (indexOf pat xs))"

text \<open>\<open>QByteArray::toLongLong(&ok, base)\<close>: surrounding white space, a sign, for base 16 an optional \<open>0x\<close>, digits; \<open>None\<close> is
  a failed conversion, which includes a value outside 64 bits.\<close>

definition digitVal :: "byte \<Rightarrow> nat" where
  "digitVal b =
     (if 48 \<le> b \<and> b \<le> 57 then unat b - 48
      else if 65 \<le> b \<and> b \<le> 90 then unat b - 55
      else if 97 \<le> b \<and> b \<le> 122 then unat b - 87 else 99)"

fun digitsFrom :: "nat \<Rightarrow> nat \<Rightarrow> bytes \<Rightarrow> nat option" where
  "digitsFrom base acc [] = Some acc"
| "digitsFrom base acc (b # bs) =
     (if digitVal b < base then digitsFrom base (base * acc + digitVal b) bs else None)"

definition unsignedVal :: "nat \<Rightarrow> bytes \<Rightarrow> nat option" where
  "unsignedVal base xs =
     (let ys = (if base = 16 \<and> take 2 (bytesToLower xs) = [48, 120] then drop 2 xs else xs)
      in if ys = [] then None else digitsFrom base 0 ys)"

definition rangeChecked :: "int \<Rightarrow> int option" where
  "rangeChecked v = (if - (2 ^ 63) \<le> v \<and> v < 2 ^ 63 then Some v else None)"

definition toLongLong :: "nat \<Rightarrow> bytes \<Rightarrow> int option" where
  "toLongLong base xs =
     (let t = bytesTrimmed xs
      in if take 1 t = [45] then Option.bind (unsignedVal base (drop 1 t)) (\<lambda>n. rangeChecked (- int n))
         else if take 1 t = [43] then Option.bind (unsignedVal base (drop 1 t)) (\<lambda>n. rangeChecked (int n))
         else Option.bind (unsignedVal base t) (\<lambda>n. rangeChecked (int n)))"

text \<open>\<open>toLongLong()\<close> and \<open>toInt()\<close> without \<open>ok\<close>: a failed conversion gives 0.\<close>

definition longOrZero :: "bytes \<Rightarrow> int" where
  "longOrZero xs = (case toLongLong 10 xs of None \<Rightarrow> 0 | Some v \<Rightarrow> v)"

definition intOrZero :: "bytes \<Rightarrow> int" where
  "intOrZero xs =
     (case toLongLong 10 xs of None \<Rightarrow> 0 | Some v \<Rightarrow> if - (2 ^ 31) \<le> v \<and> v < 2 ^ 31 then v else 0)"

text \<open>\<open>QByteArray::number(n, 16)\<close> and \<open>rightJustified(8, '0')\<close>.\<close>

fun hexNumber :: "nat \<Rightarrow> bytes" where
  "hexNumber n = (if n < 16 then [hex_digit n] else hexNumber (n div 16) @ [hex_digit (n mod 16)])"

declare hexNumber.simps [simp del]

definition rightJustified8 :: "bytes \<Rightarrow> bytes" where
  "rightJustified8 xs = replicate (8 - length xs) 48 @ xs"

section \<open>The digest challenge\<close>

text \<open>The loop of \<open>parseDigestChallenge\<close>: skip blanks and commas, a key up to \<open>=\<close>, a quoted or a bare value.\<close>

definition quotedRest :: "bytes \<Rightarrow> bytes \<times> bytes" where
  "quotedRest ws = (takeWhile (\<lambda>b. b \<noteq> 34) ws, drop 1 (dropWhile (\<lambda>b. b \<noteq> 34) ws))"

definition directiveValue :: "bytes \<Rightarrow> bytes \<times> bytes" where
  "directiveValue vs =
     (if take 1 vs = [34] then quotedRest (drop 1 vs)
      else (bytesTrimmed (takeWhile (\<lambda>b. b \<noteq> 44) vs), dropWhile (\<lambda>b. b \<noteq> 44) vs))"

lemma length_directiveValue: "length (snd (directiveValue vs)) \<le> length vs"
proof -
  have "length (dropWhile (\<lambda>b. b \<noteq> 34) (drop 1 vs)) \<le> length (drop 1 vs)"
    by (rule length_dropWhile_le)
  then show ?thesis
    by (auto simp: directiveValue_def quotedRest_def length_dropWhile_le)
qed

text \<open>Skipping to a value leaves less than there was.\<close>

lemma value_rest_shorter:
  assumes "c \<in> set (dropWhile P xs)"
    and "length r \<le> length (drop (Suc 0) (dropWhile (\<lambda>b. b \<noteq> c) (dropWhile P xs)))"
  shows "length r < length xs"
proof -
  have "length (dropWhile (\<lambda>b. b \<noteq> c) (dropWhile P xs)) \<le> length (dropWhile P xs)" "length (dropWhile P xs) \<le> length xs"
    by (rule length_dropWhile_le)+
  moreover have "dropWhile (\<lambda>b. b \<noteq> c) (dropWhile P xs) \<noteq> []"
    using assms(1) by auto
  ultimately show ?thesis
    using assms(2) by (cases "dropWhile (\<lambda>b. b \<noteq> c) (dropWhile P xs)") auto
qed

function digestLoop :: "bytes \<Rightarrow> (bytes \<rightharpoonup> bytes) \<Rightarrow> (bytes \<rightharpoonup> bytes)" where
  "digestLoop xs m =
     (let ys = dropWhile (\<lambda>b. b = 32 \<or> b = 44) xs;
          key = bytesToLower (bytesTrimmed (takeWhile (\<lambda>b. b \<noteq> 61) ys));
          zs = dropWhile (\<lambda>b. b \<noteq> 61) ys
      in if zs = [] then m
         else digestLoop (snd (directiveValue (drop 1 zs)))
                (if key \<noteq> [] then m(key \<mapsto> fst (directiveValue (drop 1 zs))) else m))"
  by pat_completeness auto

termination
  by (relation "measure (\<lambda>(xs, m). length xs)")
    (simp_all add: value_rest_shorter [OF _ length_directiveValue])

declare digestLoop.simps [simp del]

definition parseDigestChallenge :: "bytes \<Rightarrow> (bytes \<rightharpoonup> bytes)" where
  "parseDigestChallenge v =
     (if length v \<le> 6 \<or> bytesToLower (take 6 v) \<noteq> blit ''digest'' then Map.empty
      else if v ! 6 \<noteq> 32 \<and> v ! 6 \<noteq> 9 then Map.empty
      else digestLoop (drop 7 v) Map.empty)"

text \<open>\<open>QHash::value\<close>: an absent key reads as the empty byte array.\<close>

definition valueOf :: "(bytes \<rightharpoonup> bytes) \<Rightarrow> string \<Rightarrow> bytes" where
  "valueOf m k = (case m (blit k) of None \<Rightarrow> [] | Some v \<Rightarrow> v)"

text \<open>The \<open>qop\<close> the client answers with: \<open>auth\<close> when it is offered or nothing is, else the first one offered.\<close>

definition chooseQop :: "bytes \<Rightarrow> bytes" where
  "chooseQop raw =
     (if raw = [] \<or> blit ''auth'' \<in> set (map bytesTrimmed (splitOn 44 raw)) then blit ''auth''
      else bytesTrimmed (hd (splitOn 44 raw)))"

section \<open>The request\<close>

definition computeDigestResponse ::
  "(bytes \<Rightarrow> bytes) \<Rightarrow> bytes \<Rightarrow> bytes \<Rightarrow> bytes \<Rightarrow> bytes \<Rightarrow> bytes \<Rightarrow> bytes \<Rightarrow> bytes \<Rightarrow> bytes \<Rightarrow> bytes \<Rightarrow> bytes" where
  "computeDigestResponse md5 user realm pass nonce cnonce nc qop meth uri =
     (let md5Hex = (\<lambda>x. toHex (md5 x));
          ha1 = md5Hex (user @ [58] @ realm @ [58] @ pass);
          ha2 = md5Hex (meth @ [58] @ uri)
      in md5Hex (ha1 @ [58] @ nonce @ [58] @ nc @ [58] @ cnonce @ [58] @ qop @ [58] @ ha2))"

fun quotedStringEscape :: "bytes \<Rightarrow> bytes" where
  "quotedStringEscape [] = []"
| "quotedStringEscape (c # cs) =
     (if c = 92 \<or> c = 34 then [92, c] else [c]) @ quotedStringEscape cs"

text \<open>The part of \<open>WsmanClient::Private\<close> that remembers the device's challenge.\<close>

record challenge =
  haveDigestChallenge :: bool
  digestRealm :: bytes
  digestNonce :: bytes
  digestQop :: bytes
  digestAlgorithm :: bytes
  digestOpaque :: bytes

definition noChallenge :: challenge where
  "noChallenge = \<lparr>haveDigestChallenge = False, digestRealm = [], digestNonce = [], digestQop = [],
                  digestAlgorithm = [], digestOpaque = []\<rparr>"

text \<open>\<open>randomCnonce\<close>: the sixteen random bytes in hexadecimal.\<close>

definition randomCnonce :: "bytes \<Rightarrow> bytes" where
  "randomCnonce rnd = toHex rnd"

definition ncBytes :: "u64 \<Rightarrow> bytes" where
  "ncBytes nc = rightJustified8 (hexNumber (unat nc))"

text \<open>A directive with a quoted value.\<close>

definition quotedField :: "string \<Rightarrow> bytes \<Rightarrow> bytes" where
  "quotedField k v = blit k @ [61, 34] @ quotedStringEscape v @ [34]"

definition buildDigestHeader ::
  "(bytes \<Rightarrow> bytes) \<Rightarrow> bytes \<Rightarrow> challenge \<Rightarrow> bytes \<Rightarrow> bytes \<Rightarrow> bytes \<Rightarrow> bytes \<Rightarrow> u64 \<Rightarrow> bytes" where
  "buildDigestHeader md5 rnd c meth uri user pass nc =
     (let cnonce = randomCnonce rnd;
          qop = (if digestQop c = [] then blit ''auth'' else digestQop c);
          response = computeDigestResponse md5 user (digestRealm c) pass (digestNonce c) cnonce (ncBytes nc) qop meth uri
      in blit ''Digest ''
         @ quotedField ''username'' user @ blit '', ''
         @ quotedField ''realm'' (digestRealm c) @ blit '', ''
         @ quotedField ''nonce'' (digestNonce c) @ blit '', ''
         @ quotedField ''uri'' uri @ blit '', ''
         @ blit ''response='' @ [34] @ response @ [34] @ blit '', ''
         @ blit ''algorithm='' @ (if digestAlgorithm c \<noteq> [] then digestAlgorithm c else blit ''MD5'') @ blit '', ''
         @ blit ''qop='' @ qop @ blit '', ''
         @ blit ''nc='' @ ncBytes nc @ blit '', ''
         @ blit ''cnonce='' @ [34] @ cnonce @ [34]
         @ (if digestOpaque c \<noteq> [] then blit '', '' @ quotedField ''opaque'' (digestOpaque c) else []))"

definition crlf :: bytes where
  "crlf = [13, 10]"

definition writeRequestBytes :: "bytes \<Rightarrow> bytes \<Rightarrow> bytes \<Rightarrow> bytes \<Rightarrow> bytes \<Rightarrow> bytes \<Rightarrow> bytes" where
  "writeRequestBytes meth path hostHeader soapAction body authHeader =
     meth @ [32] @ path @ blit '' HTTP/1.1'' @ crlf
     @ blit ''Host: '' @ hostHeader @ crlf
     @ blit ''Content-Type: application/soap+xml;charset=UTF-8'' @ crlf
     @ (if soapAction \<noteq> [] then blit ''SOAPAction: '' @ [34] @ soapAction @ [34] @ crlf else [])
     @ blit ''User-Agent: QuMesh/0.1'' @ crlf
     @ blit ''Accept: */*'' @ crlf
     @ blit ''Connection: close'' @ crlf
     @ (if authHeader \<noteq> [] then blit ''Authorization: '' @ authHeader @ crlf else [])
     @ blit ''Content-Length: '' @ dec_digits (length body) @ crlf @ crlf
     @ body"

section \<open>The header block of a response\<close>

definition chopCr :: "bytes \<Rightarrow> bytes" where
  "chopCr xs = (if xs \<noteq> [] \<and> List.last xs = 13 then butlast xs else xs)"

text \<open>One header line: the part before the first colon, lower case, and the rest; a line without one is skipped.\<close>

definition headerLine :: "bytes \<Rightarrow> (bytes \<rightharpoonup> bytes) \<Rightarrow> (bytes \<rightharpoonup> bytes)" where
  "headerLine raw m =
     (let line = chopCr raw
      in case indexOf [58] line of
           None \<Rightarrow> m
         | Some colon \<Rightarrow> m(bytesToLower (bytesTrimmed (take colon line)) \<mapsto> bytesTrimmed (drop (colon + 1) line)))"

text \<open>The status line and the headers; \<open>Inl\<close> is the error text of a malformed block.\<close>

definition parseHeaders :: "bytes \<Rightarrow> string + (int \<times> (bytes \<rightharpoonup> bytes))" where
  "parseHeaders raw =
     (case splitOn 10 raw of
        [] \<Rightarrow> Inl ''Empty response''
      | first # rest \<Rightarrow>
          let parts = splitOn 32 (chopCr first)
          in if length parts < 2 then Inl ''Malformed status line''
             else Inr (intOrZero (parts ! 1), fold headerLine rest Map.empty))"

section \<open>Reading a challenge back\<close>

text \<open>
  A challenge as a device prints it: directives separated by a comma and a blank, each with its name, its value and whether the value
  is in quotes.
\<close>

type_synonym directive = "bytes \<times> bytes \<times> bool"

fun printDirectives :: "directive list \<Rightarrow> bytes" where
  "printDirectives [] = []"
| "printDirectives ((k, v, q) # kvs) =
     k @ [61] @ (if q then [34] @ v @ [34] else v) @ (if kvs = [] then [] else [44, 32]) @ printDirectives kvs"

definition printChallenge :: "directive list \<Rightarrow> bytes" where
  "printChallenge kvs = blit ''Digest '' @ printDirectives kvs"

definition directiveMap :: "directive list \<Rightarrow> (bytes \<rightharpoonup> bytes)" where
  "directiveMap kvs = map_of (map (\<lambda>(k, v, q). (k, v)) kvs)"

text \<open>A directive name: lower case, without blanks, commas and equal signs.\<close>

definition plainKey :: "bytes \<Rightarrow> bool" where
  "plainKey k \<longleftrightarrow> k \<noteq> [] \<and> (\<forall>b \<in> set k. \<not> isAsciiSpace b \<and> b \<noteq> 44 \<and> b \<noteq> 61 \<and> lowerByte b = b)"

text \<open>A value that can be printed so: in quotes anything without a quote, bare a token.\<close>

fun directiveOk :: "directive \<Rightarrow> bool" where
  "directiveOk (k, v, q) \<longleftrightarrow> plainKey k \<and>
     (if q then 34 \<notin> set v else v \<noteq> [] \<and> (\<forall>b \<in> set v. \<not> isAsciiSpace b \<and> b \<noteq> 44 \<and> b \<noteq> 34))"

lemma dropWhile_none: "(\<forall>b \<in> set xs. \<not> P b) \<Longrightarrow> dropWhile P xs = xs"
  by (cases xs) auto

lemma trimmed_plain: "(\<forall>b \<in> set xs. \<not> isAsciiSpace b) \<Longrightarrow> bytesTrimmed xs = xs"
  by (simp add: bytesTrimmed_def dropWhile_none)

lemma toLower_plain: "(\<forall>b \<in> set xs. lowerByte b = b) \<Longrightarrow> bytesToLower xs = xs"
  by (simp add: bytesToLower_def map_idI)

lemma takeWhile_until: "(\<forall>b \<in> set xs. P b) \<Longrightarrow> \<not> P y \<Longrightarrow> takeWhile P (xs @ y # ys) = xs"
  by (simp add: takeWhile_append)

lemma dropWhile_until: "(\<forall>b \<in> set xs. P b) \<Longrightarrow> \<not> P y \<Longrightarrow> dropWhile P (xs @ y # ys) = y # ys"
  by (simp add: dropWhile_append)

lemma plainKey_head: "plainKey k \<Longrightarrow> dropWhile (\<lambda>b. b = 32 \<or> b = 44) (k @ xs) = k @ xs"
  by (cases k) (auto simp: plainKey_def isAsciiSpace_def)

lemma digestLoop_blank: "digestLoop (44 # 32 # xs) m = digestLoop xs m"
  by (simp add: digestLoop.simps [of "44 # 32 # xs"] digestLoop.simps [of xs])

lemma digestLoop_field:
  assumes "plainKey k" and "34 \<notin> set v"
  shows "digestLoop (k @ [61, 34] @ v @ [34] @ rest) m = digestLoop rest (m(k \<mapsto> v))"
proof -
  have k: "\<forall>b \<in> set k. b \<noteq> 61" "bytesToLower (bytesTrimmed k) = k" "k \<noteq> []"
    using assms(1) by (auto simp: plainKey_def trimmed_plain toLower_plain)
  have v: "\<forall>b \<in> set v. b \<noteq> 34"
    using assms(2) by auto
  show ?thesis
    using assms(1) k
    by (simp add: digestLoop.simps [of "k @ 61 # 34 # v @ 34 # rest"] plainKey_head takeWhile_until dropWhile_until
        directiveValue_def quotedRest_def takeWhile_until [OF v] dropWhile_until [OF v])
qed

lemma digestLoop_token:
  assumes "plainKey k" and "v \<noteq> []" and "\<forall>b \<in> set v. \<not> isAsciiSpace b \<and> b \<noteq> 44 \<and> b \<noteq> 34" and "rest = [] \<or> hd rest = 44"
  shows "digestLoop (k @ [61] @ v @ rest) m = digestLoop rest (m(k \<mapsto> v))"
proof -
  have k: "\<forall>b \<in> set k. b \<noteq> 61" "bytesToLower (bytesTrimmed k) = k" "k \<noteq> []"
    using assms(1) by (auto simp: plainKey_def trimmed_plain toLower_plain)
  have "takeWhile (\<lambda>b. b \<noteq> 44) (v @ rest) = v" "dropWhile (\<lambda>b. b \<noteq> 44) (v @ rest) = rest"
    using assms(3,4) by (cases rest; auto simp: takeWhile_append dropWhile_append takeWhile_eq_all_conv)+
  moreover have "take 1 (v @ rest) \<noteq> [34]" using assms(2,3) by (cases v) auto
  moreover have "bytesTrimmed v = v" using assms(3) by (simp add: trimmed_plain)
  ultimately have "directiveValue (v @ rest) = (v, rest)" by (simp add: directiveValue_def)
  then show ?thesis
    using assms(1) k by (simp add: digestLoop.simps [of "k @ 61 # v @ rest"] plainKey_head takeWhile_until dropWhile_until)
qed

lemma digestLoop_nil [simp]: "digestLoop [] m = m"
  by (simp add: digestLoop.simps)

lemma digestLoop_print:
  assumes "\<forall>d \<in> set kvs. directiveOk d"
  shows "digestLoop (printDirectives kvs) m = m ++ directiveMap (rev kvs)"
  using assms
proof (induction kvs arbitrary: m rule: printDirectives.induct)
  case (2 k v q kvs)
  let ?rest = "(if kvs = [] then [] else [44, 32]) @ printDirectives kvs"
  have "digestLoop ?rest n = digestLoop (printDirectives kvs) n" for n
    by (simp add: digestLoop_blank)
  moreover have "digestLoop (printDirectives ((k, v, q) # kvs)) m = digestLoop ?rest (m(k \<mapsto> v))"
    using "2.prems" digestLoop_field [of k v ?rest m] digestLoop_token [of k v ?rest m] by (cases q) auto
  ultimately show ?case
    using 2 by (auto simp: directiveMap_def map_add_def fun_eq_iff split: option.splits)
qed (simp add: directiveMap_def)

lemma parse_printChallenge:
  assumes "\<forall>d \<in> set kvs. directiveOk d" and "kvs \<noteq> []"
  shows "parseDigestChallenge (printChallenge kvs) = directiveMap (rev kvs)"
proof -
  have "0 < length (printDirectives kvs)"
    using assms(2) by (cases kvs rule: printDirectives.cases) auto
  then show ?thesis
    using digestLoop_print [OF assms(1), of Map.empty]
    by (simp add: parseDigestChallenge_def printChallenge_def blit_def bytesToLower_def lowerByte_def)
qed

lemma challenge_roundtrip':
  assumes "\<forall>d \<in> set kvs. directiveOk d" and "distinct (map fst kvs)" and "kvs \<noteq> []"
  shows "parseDigestChallenge (printChallenge kvs) = directiveMap kvs"
proof -
  let ?kv = "\<lambda>(k, v, q). (k, v)"
  have "map fst (map ?kv kvs) = map fst kvs" by auto
  then have d: "distinct (map fst (map ?kv kvs))" using assms(2) by (simp only:)
  then have "distinct (map fst (rev (map ?kv kvs)))" by (simp add: rev_map [symmetric] del: map_map)
  then have "map_of (rev (map ?kv kvs)) = map_of (map ?kv kvs)"
    using d by (simp add: map_of_inject_set del: map_map)
  with assms show ?thesis
    by (simp add: parse_printChallenge directiveMap_def rev_map)
qed

text \<open>
  The challenge of a device is understood. When the device prints a digest challenge with quoted values that
  contain no quote and bare values that are tokens, in any order and with any further directives, the client reads every directive
  back with exactly the value the device sent.
\<close>

theorem challenge_roundtrip:
  assumes "\<forall>d \<in> set kvs. directiveOk d" and "distinct (map fst kvs)" and "kvs \<noteq> []"
  shows "parseDigestChallenge (printChallenge kvs) = directiveMap kvs"
  using assms by (rule challenge_roundtrip')

theorem challenge_roundtrip_witness:
  "parseDigestChallenge (printChallenge [(blit ''realm'', blit ''Digest:A, B'', True), (blit ''algorithm'', blit ''MD5'', False)])
     = [blit ''realm'' \<mapsto> blit ''Digest:A, B'', blit ''algorithm'' \<mapsto> blit ''MD5'']"
  using challenge_roundtrip [of "[(blit ''realm'', blit ''Digest:A, B'', True), (blit ''algorithm'', blit ''MD5'', False)]"]
  by (simp add: directiveMap_def blit_def plainKey_def isAsciiSpace_def lowerByte_def fun_upd_twist)

section \<open>The header as the device reads it\<close>

text \<open>A quoted string of RFC 7616: a backslash takes the next byte literally, a bare quote ends it.\<close>

fun readQuoted :: "bytes \<Rightarrow> bytes \<times> bytes" where
  "readQuoted [] = ([], [])"
| "readQuoted (b # bs) =
     (if b = 34 then ([], bs)
      else if b = 92 then (case bs of [] \<Rightarrow> ([], []) | c # cs \<Rightarrow> (c # fst (readQuoted cs), snd (readQuoted cs)))
      else (b # fst (readQuoted bs), snd (readQuoted bs)))"

lemma readQuoted_escape: "readQuoted (quotedStringEscape v @ 34 # rest) = (v, rest)"
  by (induction v rule: quotedStringEscape.induct) auto

lemma length_readQuoted: "length (snd (readQuoted bs)) \<le> length bs"
proof (induction bs rule: readQuoted.induct)
  case (2 b bs)
  then show ?case by (cases bs) auto
qed simp

text \<open>The directives of a header: names up to the equal sign, values quoted or up to the next comma.\<close>

definition readValue :: "bytes \<Rightarrow> bytes \<times> bytes" where
  "readValue vs =
     (if take 1 vs = [34] then readQuoted (drop 1 vs)
      else (takeWhile (\<lambda>b. b \<noteq> 44) vs, dropWhile (\<lambda>b. b \<noteq> 44) vs))"

lemma length_readValue: "length (snd (readValue vs)) \<le> length vs"
proof -
  have "length (snd (readQuoted (drop 1 vs))) \<le> length (drop 1 vs)"
    by (rule length_readQuoted)
  then show ?thesis
    by (auto simp: readValue_def length_dropWhile_le)
qed

function readDirectives :: "bytes \<Rightarrow> (bytes \<times> bytes) list" where
  "readDirectives xs =
     (let ys = dropWhile (\<lambda>b. b = 32 \<or> b = 44) xs;
          zs = dropWhile (\<lambda>b. b \<noteq> 61) ys
      in if zs = [] then []
         else (takeWhile (\<lambda>b. b \<noteq> 61) ys, fst (readValue (drop 1 zs))) # readDirectives (snd (readValue (drop 1 zs))))"
  by pat_completeness auto

termination
  by (relation "measure length") (simp_all add: value_rest_shorter [OF _ length_readValue])

declare readDirectives.simps [simp del]

lemma readDirectives_blank: "readDirectives (44 # 32 # xs) = readDirectives xs"
  by (simp add: readDirectives.simps [of "44 # 32 # xs"] readDirectives.simps [of xs])

lemma readDirectives_key:
  "plainKey k \<Longrightarrow> readDirectives (k @ 61 # vs) = (k, fst (readValue vs)) # readDirectives (snd (readValue vs))"
  by (simp add: readDirectives.simps [of "k @ 61 # vs"] plainKey_head takeWhile_until dropWhile_until plainKey_def)

lemma readDirectives_quoted:
  "plainKey (blit k) \<Longrightarrow> readDirectives (quotedField k v @ rest) = (blit k, v) # readDirectives rest"
  using readDirectives_key [of "blit k" "34 # quotedStringEscape v @ 34 # rest"]
  by (simp add: quotedField_def readValue_def readQuoted_escape)

text \<open>A value that is sent without quotes must not contain a comma or start with a quote.\<close>

definition tokenValue :: "bytes \<Rightarrow> bool" where
  "tokenValue v \<longleftrightarrow> 44 \<notin> set v \<and> take 1 v \<noteq> [34]"

lemma readDirectives_token:
  assumes "plainKey k" and "tokenValue v"
  shows "readDirectives (k @ 61 # v @ 44 # rest) = (k, v) # readDirectives (44 # rest)"
proof -
  have "\<forall>b \<in> set v. b \<noteq> 44"
    using assms(2) by (auto simp: tokenValue_def)
  moreover have "take 1 (v @ 44 # rest) \<noteq> [34]"
    using assms(2) by (cases v) (auto simp: tokenValue_def)
  ultimately show ?thesis
    by (simp add: readDirectives_key assms(1) readValue_def takeWhile_until dropWhile_until)
qed

text \<open>A fact about the digits is checked digit by digit.\<close>

lemma hex_digits_all: "\<forall>n \<in> set [0..<16]. P n \<Longrightarrow> n < 16 \<Longrightarrow> P n"
  by simp

lemma hex_digit_plain: "n < 16 \<Longrightarrow> hex_digit n \<noteq> 34 \<and> hex_digit n \<noteq> 92 \<and> hex_digit n \<noteq> 44"
  by (rule hex_digits_all) (simp_all add: upt_rec hex_digit_def)

lemma byte_nibbles: "unat (b :: byte) div 16 < 16" "unat b mod 16 < 16"
  using unat_bound [of b] by auto

lemma toHex_plain: "b \<in> set (toHex bs) \<Longrightarrow> b \<noteq> 34 \<and> b \<noteq> 92 \<and> b \<noteq> 44"
  by (induction bs) (auto simp: toHex_def hex_digit_plain byte_nibbles)

lemma hexNumber_plain: "b \<in> set (hexNumber n) \<Longrightarrow> b \<noteq> 34 \<and> b \<noteq> 92 \<and> b \<noteq> 44"
proof (induction n rule: hexNumber.induct)
  case (1 n)
  show ?case
  proof (cases "n < 16")
    case True
    with "1.prems" show ?thesis by (auto simp: hexNumber.simps [of n] hex_digit_plain)
  next
    case False
    with "1.prems" have "b \<in> set (hexNumber (n div 16)) \<or> b = hex_digit (n mod 16)"
      by (auto simp: hexNumber.simps [of n])
    then show ?thesis
      using "1.IH" False hex_digit_plain [of "n mod 16"] by auto
  qed
qed

lemma tokenValue_ncBytes: "tokenValue (ncBytes nc)"
proof -
  have "\<forall>b \<in> set (ncBytes nc). b \<noteq> 34 \<and> b \<noteq> 44"
    by (auto simp: ncBytes_def rightJustified8_def dest: hexNumber_plain)
  then show ?thesis
    unfolding tokenValue_def by (cases "ncBytes nc") auto
qed

lemma quotedStringEscape_plain: "(\<forall>b \<in> set v. b \<noteq> 34 \<and> b \<noteq> 92) \<Longrightarrow> quotedStringEscape v = v"
  by (induction v) auto

lemma quotedField_hex: "blit k @ 61 # 34 # toHex v @ 34 # rest = quotedField k (toHex v) @ rest"
  by (simp add: quotedField_def quotedStringEscape_plain toHex_plain)

lemma readDirectives_hex:
  "plainKey (blit k) \<Longrightarrow> readDirectives (blit k @ 61 # 34 # toHex v @ 34 # rest) = (blit k, toHex v) # readDirectives rest"
  by (simp only: quotedField_hex readDirectives_quoted)

lemma blit_append: "blit (s @ t) = blit s @ blit t"
  by (simp add: blit_def)

lemma blit_key: "blit (k @ ''='') = blit k @ [61]"
  by (simp add: blit_append) (simp add: blit_def)

lemma readDirectives_nil [simp]: "readDirectives [] = []"
  by (simp add: readDirectives.simps)

lemma readDirectives_sep: "readDirectives (blit '', '' @ xs) = readDirectives xs"
  by (simp add: blit_def readDirectives_blank)

lemma digest_keys_plain:
  "plainKey (blit ''username'')" "plainKey (blit ''realm'')" "plainKey (blit ''nonce'')" "plainKey (blit ''uri'')"
  "plainKey (blit ''response'')" "plainKey (blit ''algorithm'')" "plainKey (blit ''qop'')" "plainKey (blit ''nc'')"
  "plainKey (blit ''cnonce'')" "plainKey (blit ''opaque'')"
  by (simp_all add: plainKey_def blit_def isAsciiSpace_def lowerByte_def)

lemma readDirectives_bare:
  "plainKey (blit k) \<Longrightarrow> tokenValue v \<Longrightarrow>
     readDirectives (blit k @ 61 # v @ blit '', '' @ rest) = (blit k, v) # readDirectives rest"
  using readDirectives_token [of "blit k" v "32 # rest"] by (simp add: blit_def readDirectives_blank)

lemma computeDigestResponse_hex: "\<exists>h. computeDigestResponse md5 u r p n cn nc q m uri = toHex h"
  by (simp add: computeDigestResponse_def Let_def) blast

lemma key_literals:
  "blit ''response='' = blit ''response'' @ [61]" "blit ''algorithm='' = blit ''algorithm'' @ [61]"
  "blit ''qop='' = blit ''qop'' @ [61]" "blit ''nc='' = blit ''nc'' @ [61]" "blit ''cnonce='' = blit ''cnonce'' @ [61]"
  by (simp_all add: blit_def)

text \<open>What the client answers a challenge with.\<close>

definition answerQop :: "challenge \<Rightarrow> bytes" where
  "answerQop c = (if digestQop c = [] then blit ''auth'' else digestQop c)"

definition answerAlgorithm :: "challenge \<Rightarrow> bytes" where
  "answerAlgorithm c = (if digestAlgorithm c \<noteq> [] then digestAlgorithm c else blit ''MD5'')"

definition answerFields ::
  "(bytes \<Rightarrow> bytes) \<Rightarrow> bytes \<Rightarrow> challenge \<Rightarrow> bytes \<Rightarrow> bytes \<Rightarrow> bytes \<Rightarrow> bytes \<Rightarrow> u64 \<Rightarrow> (bytes \<times> bytes) list" where
  "answerFields md5 rnd c meth uri user pass nc =
     [(blit ''username'', user), (blit ''realm'', digestRealm c), (blit ''nonce'', digestNonce c), (blit ''uri'', uri),
      (blit ''response'', computeDigestResponse md5 user (digestRealm c) pass (digestNonce c) (toHex rnd) (ncBytes nc)
                            (answerQop c) meth uri),
      (blit ''algorithm'', answerAlgorithm c), (blit ''qop'', answerQop c), (blit ''nc'', ncBytes nc),
      (blit ''cnonce'', toHex rnd)]
     @ (if digestOpaque c \<noteq> [] then [(blit ''opaque'', digestOpaque c)] else [])"

text \<open>C30: The \<open>Authorization\<close> header says what the client means, whatever the user name, the realm, the nonce and the URI
  contain. A device that reads the header by RFC 7616 finds exactly these values, quotes and backslashes included,
  the counter, and the response computed from them; no value can end its quotes early or add a directive. The
  algorithm and the quality of protection travel without quotes and must be tokens.
\<close>

theorem authorization_reads_back:
  assumes "tokenValue (answerAlgorithm c)" and "tokenValue (answerQop c)"
  shows "readDirectives (drop 7 (buildDigestHeader md5 rnd c meth uri user pass nc)) = answerFields md5 rnd c meth uri user pass nc"
proof -
  obtain h where h: "computeDigestResponse md5 user (digestRealm c) pass (digestNonce c) (toHex rnd) (ncBytes nc)
      (answerQop c) meth uri = toHex h"
    using computeDigestResponse_hex by blast
  have "drop 7 (blit ''Digest '' @ xs) = xs" for xs
    by (simp add: blit_def)
  then show ?thesis
    using assms
    by (simp add: buildDigestHeader_def answerFields_def randomCnonce_def Let_def answerQop_def [symmetric]
        answerAlgorithm_def [symmetric] h readDirectives_quoted digest_keys_plain readDirectives_sep key_literals
        readDirectives_hex readDirectives_bare tokenValue_ncBytes
        readDirectives_quoted [where rest = "[]", simplified])
qed

theorem authorization_reads_back_witness:
  "readDirectives (drop 7 (buildDigestHeader rev [1, 2] noChallenge (blit ''POST'') (blit ''/wsman'')
       [34, 92, 44] (blit ''pw'') 1))
     = answerFields rev [1, 2] noChallenge (blit ''POST'') (blit ''/wsman'') [34, 92, 44] (blit ''pw'') 1"
  using authorization_reads_back [of noChallenge rev "[1, 2]" "blit ''POST''" "blit ''/wsman''" "[34, 92, 44]" "blit ''pw''" 1]
  by (simp add: answerAlgorithm_def answerQop_def noChallenge_def tokenValue_def blit_def)

end
