(* ===== verification/Wsman_Client.thy ===== *)
theory Wsman_Client
  imports Wsman_Http
begin

text \<open>
  \<open>wsman_client.cpp\<close>: the HTTP client that carries every WS-Man request. \<open>wsman_client\<close> is \<open>WsmanClient::Private\<close> with
  the heap of its replies, \<open>wsman_reply\<close> is \<open>WsmanReply::Private\<close>, \<open>wsock\<close> is what the code has set up on a
  \<open>QSslSocket\<close>. A reply that was destroyed has no entry in the heap, which is what a null \<open>QPointer\<close> sees. One function
  per slot: \<open>onConnected\<close>, \<open>onEncrypted\<close>, \<open>onSslErrors\<close>, \<open>onSockError\<close>, \<open>readMore\<close>, \<open>onFactory\<close>, \<open>onTimeout\<close>, and the
  public calls \<open>sendEnvelope\<close>, \<open>reply_abort\<close>, \<open>wsman_trustPendingPeerCert\<close> and the setters. What the client does to the outside,
  the signals included, is appended to \<open>wlog\<close>. The world answers through \<open>net\<close>: the hash functions, the random
  bytes of a client nonce, what the socket factory says before it returns (\<open>None\<close>: it calls back later), and
  whether a descriptor can be adopted.
\<close>

section \<open>State\<close>

datatype rstate =
    R_Idle | R_Connecting | R_TlsHandshaking | R_WritingRequest | R_ReadingHeaders
  | R_ReadingBodyContentLength | R_ReadingBodyChunked | R_Done | R_Failed

record endpoint =
  ep_scheme :: bytes
  ep_host :: bytes
  ep_port :: int
  ep_path :: bytes

definition isTls :: "endpoint \<Rightarrow> bool" where
  "isTls ep \<longleftrightarrow> bytesToLower (ep_scheme ep) = blit ''https''"

text \<open>\<open>QUrl::port(default)\<close>: a URL without a port has port -1.\<close>

definition endpointPort :: "endpoint \<Rightarrow> int" where
  "endpointPort ep = (if ep_port ep = -1 then (if isTls ep then 16993 else 16992) else ep_port ep)"

record certificate =
  x_subjects :: "bytes list"
  x_issuers :: "bytes list"
  x_notBefore :: bytes
  x_notAfter :: bytes
  x_der :: bytes

record WsmanPeerCertSummary =
  pc_subject :: bytes
  pc_issuer :: bytes
  pc_fingerprintSha256 :: bytes
  pc_notBefore :: bytes
  pc_notAfter :: bytes
  pc_der :: bytes

definition noPeerCert :: WsmanPeerCertSummary where
  "noPeerCert = \<lparr>pc_subject = [], pc_issuer = [], pc_fingerprintSha256 = [], pc_notBefore = [], pc_notAfter = [], pc_der = []\<rparr>"

text \<open>
  A socket of a reply. \<open>sk_tls\<close> and \<open>sk_auth\<close> are what its handlers captured, \<open>sk_wired\<close> whether \<open>sslErrors\<close> is
  connected, \<open>sk_prompts\<close> whether an unknown certificate asks the operator. \<open>sk_refused\<close>: the handshake reported errors
  that nobody ignored; \<open>sk_ignored\<close>: they were ignored for this fingerprint.
\<close>

record wsock =
  sk_tls :: bool
  sk_wired :: bool
  sk_prompts :: bool
  sk_auth :: bytes
  sk_factory :: bool
  sk_connected :: bool
  sk_encrypted :: bool
  sk_refused :: bool
  sk_ignored :: "bytes option"
  sk_queued :: bool

text \<open>
  \<open>rp_timer\<close>: no timer, a stopped one, a running one. \<open>rp_asked\<close>: the callback a socket factory still holds, with the
  captured TLS flag and \<open>Authorization\<close> header. \<open>rp_slot\<close>: the queue drainer is connected to \<open>finished\<close>.
\<close>

record wsman_reply =
  rp_socket :: "wsock option"
  rp_timer :: "bool option"
  rp_errorString :: bytes
  rp_httpStatus :: int
  rp_body :: bytes
  rp_requestPath :: bytes
  rp_hostHeader :: bytes
  rp_envelope :: bytes
  rp_soapAction :: bytes
  rp_responseBuffer :: bytes
  rp_responseHeaders :: "bytes \<rightharpoonup> bytes"
  rp_digestRetries :: nat
  rp_state :: rstate
  rp_expectedBody :: int
  rp_finished :: bool
  rp_currentChunkRemaining :: int
  rp_readingChunkSize :: bool
  rp_asked :: "(bool \<times> bytes) option"
  rp_slot :: bool

datatype wsout =
    Finished nat
  | Returned nat
  | Wrote nat wsock bytes
  | Dialed nat bytes u16
  | FactoryAsked nat
  | FdClosed int
  | TrustPrompt WsmanPeerCertSummary
  | VerifiedByPin bytes
  | NonceInstalled bytes
  | HeaderMade nat bytes u64
  | Pinned "bytes list"
  | SockAborted nat

record wsman_client =
  wc_endpoint :: endpoint
  wc_user :: bytes
  wc_pass :: bytes
  wc_trustedFingerprints :: "bytes list"
  wc_pendingPeerCert :: WsmanPeerCertSummary
  wc_awaitingTrust :: bool
  wc_timeoutMs :: int
  wc_socketFactory :: bool
  wc_challenge :: challenge
  wc_nc :: u64
  wc_serializeRequests :: bool
  wc_currentRequest :: "nat option"
  wc_pendingQueue :: "nat list"
  wc_replies :: "nat \<rightharpoonup> wsman_reply"
  wc_nextReply :: nat
  wc_log :: "wsout list"

record net =
  n_md5 :: "bytes \<Rightarrow> bytes"
  n_sha256 :: "bytes \<Rightarrow> bytes"
  n_random :: "nat \<Rightarrow> bytes"
  n_factory :: "nat \<Rightarrow> (int \<times> bytes) option"
  n_descriptor :: "nat \<Rightarrow> bytes option"

definition newClient :: wsman_client where
  "newClient = \<lparr>wc_endpoint = \<lparr>ep_scheme = [], ep_host = [], ep_port = -1, ep_path = []\<rparr>, wc_user = [], wc_pass = [],
     wc_trustedFingerprints = [], wc_pendingPeerCert = noPeerCert, wc_awaitingTrust = False, wc_timeoutMs = 30000,
     wc_socketFactory = False, wc_challenge = noChallenge, wc_nc = 0, wc_serializeRequests = False, wc_currentRequest = None,
     wc_pendingQueue = [], wc_replies = Map.empty, wc_nextReply = 0, wc_log = []\<rparr>"

definition newReply :: wsman_reply where
  "newReply = \<lparr>rp_socket = None, rp_timer = None, rp_errorString = [], rp_httpStatus = 0, rp_body = [], rp_requestPath = [],
     rp_hostHeader = [], rp_envelope = [], rp_soapAction = [], rp_responseBuffer = [], rp_responseHeaders = Map.empty,
     rp_digestRetries = 0, rp_state = R_Idle, rp_expectedBody = -1, rp_finished = False, rp_currentChunkRemaining = 0,
     rp_readingChunkSize = True, rp_asked = None, rp_slot = False\<rparr>"

definition kWsmanMaxBodyBytes :: int where
  "kWsmanMaxBodyBytes = 32 * 1024 * 1024"

definition hasError :: "wsman_reply \<Rightarrow> bool" where
  "hasError r \<longleftrightarrow> rp_errorString r \<noteq> []"

text \<open>Changing one reply, and appending to the log.\<close>

definition onReply :: "nat \<Rightarrow> (wsman_reply \<Rightarrow> wsman_reply) \<Rightarrow> wsman_client \<Rightarrow> wsman_client" where
  "onReply rid f c = c\<lparr>wc_replies := (wc_replies c)(rid := map_option f (wc_replies c rid))\<rparr>"

definition say :: "wsout \<Rightarrow> wsman_client \<Rightarrow> wsman_client" where
  "say e c = c\<lparr>wc_log := wc_log c @ [e]\<rparr>"

section \<open>Certificates\<close>

definition upperHexDigit :: "nat \<Rightarrow> byte" where
  "upperHexDigit n = (if n < 10 then of_nat (48 + n) else of_nat (55 + n))"

fun colonHex :: "bytes \<Rightarrow> bytes" where
  "colonHex [] = []"
| "colonHex [b] = [upperHexDigit (unat b div 16), upperHexDigit (unat b mod 16)]"
| "colonHex (b # bs) = [upperHexDigit (unat b div 16), upperHexDigit (unat b mod 16), 58] @ colonHex bs"

definition fingerprintFor :: "net \<Rightarrow> certificate \<Rightarrow> bytes" where
  "fingerprintFor n cert = colonHex (n_sha256 n (x_der cert))"

definition firstOf :: "bytes list \<Rightarrow> bytes" where
  "firstOf xs = (case xs of [] \<Rightarrow> [] | x # _ \<Rightarrow> x)"

definition summaryOf :: "net \<Rightarrow> certificate \<Rightarrow> WsmanPeerCertSummary" where
  "summaryOf n cert = \<lparr>pc_subject = firstOf (x_subjects cert), pc_issuer = firstOf (x_issuers cert),
     pc_fingerprintSha256 = fingerprintFor n cert, pc_notBefore = x_notBefore cert, pc_notAfter = x_notAfter cert,
     pc_der = x_der cert\<rparr>"

definition wsman_trustPendingPeerCert :: "wsman_client \<Rightarrow> wsman_client" where
  "wsman_trustPendingPeerCert c =
     (let fp = pc_fingerprintSha256 (wc_pendingPeerCert c)
      in if \<not> wc_awaitingTrust c \<or> fp = [] then c
         else let fps = (if fp \<in> set (wc_trustedFingerprints c) then wc_trustedFingerprints c
                         else wc_trustedFingerprints c @ [fp])
              in say (Pinned fps) (c\<lparr>wc_trustedFingerprints := fps, wc_pendingPeerCert := noPeerCert, wc_awaitingTrust := False\<rparr>))"

text \<open>The \<open>sslErrors\<close> slot: an empty chain or an unknown certificate leaves the errors unignored.\<close>

definition refuse :: "nat \<Rightarrow> wsman_client \<Rightarrow> wsman_client" where
  "refuse rid = onReply rid (\<lambda>r. r\<lparr>rp_socket := map_option (\<lambda>s. s\<lparr>sk_refused := True\<rparr>) (rp_socket r)\<rparr>)"

definition ignoreErrors :: "nat \<Rightarrow> bytes \<Rightarrow> wsman_client \<Rightarrow> wsman_client" where
  "ignoreErrors rid fp = onReply rid (\<lambda>r. r\<lparr>rp_socket := map_option (\<lambda>s. s\<lparr>sk_ignored := Some fp\<rparr>) (rp_socket r)\<rparr>)"

definition onSslErrors :: "net \<Rightarrow> nat \<Rightarrow> wsock \<Rightarrow> certificate list \<Rightarrow> wsman_client \<Rightarrow> wsman_client" where
  "onSslErrors n rid s chain c =
     (if \<not> sk_wired s then refuse rid c
      else case chain of
        [] \<Rightarrow> refuse rid c
      | leaf # _ \<Rightarrow>
          let fp = fingerprintFor n leaf
          in if fp \<in> set (wc_trustedFingerprints c) then ignoreErrors rid fp (say (VerifiedByPin fp) c)
             else if \<not> sk_prompts s then refuse rid c
             else refuse rid (say (TrustPrompt (summaryOf n leaf))
                    (c\<lparr>wc_pendingPeerCert := summaryOf n leaf, wc_awaitingTrust := True\<rparr>)))"

section \<open>Opening a connection\<close>

definition closeOrphanFd :: "int \<Rightarrow> wsman_client \<Rightarrow> wsman_client" where
  "closeOrphanFd fd c = (if fd < 0 then c else say (FdClosed fd) c)"

definition armTimeout :: "nat \<Rightarrow> wsman_client \<Rightarrow> wsman_client" where
  "armTimeout rid c =
     onReply rid (\<lambda>r. if rp_timer r \<noteq> None \<or> wc_timeoutMs c \<le> 0 then r else r\<lparr>rp_timer := Some True\<rparr>) c"

definition requestBytes :: "wsman_reply \<Rightarrow> bytes \<Rightarrow> bytes" where
  "requestBytes r auth =
     writeRequestBytes (blit ''POST'') (rp_requestPath r) (rp_hostHeader r) (rp_soapAction r) (rp_envelope r) auth"

text \<open>Writing the request on the socket of the reply; the slots that call it look at \<open>finished\<close> first.\<close>

definition doWrite :: "nat \<Rightarrow> wsman_client \<Rightarrow> wsman_client" where
  "doWrite rid c =
     (case wc_replies c rid of
        None \<Rightarrow> c
      | Some r \<Rightarrow>
          if rp_finished r then c
          else case rp_socket r of
            None \<Rightarrow> c
          | Some s \<Rightarrow> onReply rid (\<lambda>r. r\<lparr>rp_state := R_ReadingHeaders\<rparr>)
                         (say (Wrote rid s (requestBytes r (sk_auth s))) c))"

definition stopTimer :: "wsman_reply \<Rightarrow> wsman_reply" where
  "stopTimer r = r\<lparr>rp_timer := map_option (\<lambda>_. False) (rp_timer r)\<rparr>"

text \<open>What \<open>finishReply\<close> and the other ends of a reply store; emitting \<open>finished\<close> is a separate step.\<close>

definition conclude :: "bytes \<Rightarrow> wsman_reply \<Rightarrow> wsman_reply" where
  "conclude err r =
     stopTimer (r\<lparr>rp_errorString := (if err \<noteq> [] then err else rp_errorString r),
                 rp_state := (if err \<noteq> [] then R_Failed else R_Done), rp_finished := True\<rparr>)"

text \<open>
  The callback of the socket factory. \<open>auth\<close> is empty on the first attempt, which reads the endpoint when it
  runs; a retry uses the flag it captured. The boolean says that the reply has ended here, so \<open>finished\<close> is due.
\<close>

definition factorySocket :: "bool \<Rightarrow> bytes \<Rightarrow> wsman_client \<Rightarrow> wsock" where
  "factorySocket tls auth c =
     \<lparr>sk_tls = (if auth = [] then isTls (wc_endpoint c) else tls), sk_wired = isTls (wc_endpoint c), sk_prompts = (auth = []),
      sk_auth = auth, sk_factory = True, sk_connected = True, sk_encrypted = False, sk_refused = False, sk_ignored = None,
      sk_queued = False\<rparr>"

definition adoptSocket :: "nat \<Rightarrow> wsock \<Rightarrow> wsman_client \<Rightarrow> wsman_client" where
  "adoptSocket rid s c =
     (let c1 = onReply rid (\<lambda>r. r\<lparr>rp_socket := Some s\<rparr>) c
      in if sk_tls s then onReply rid (\<lambda>r. r\<lparr>rp_state := R_TlsHandshaking\<rparr>) c1 else doWrite rid c1)"

definition descriptorError :: "bytes \<Rightarrow> bytes \<Rightarrow> bytes" where
  "descriptorError auth msg =
     (if auth = [] then blit ''setSocketDescriptor failed: '' @ msg else blit ''setSocketDescriptor failed'')"

definition factoryDone :: "net \<Rightarrow> nat \<Rightarrow> bool \<Rightarrow> bytes \<Rightarrow> int \<Rightarrow> bytes \<Rightarrow> wsman_client \<Rightarrow> wsman_client \<times> bool" where
  "factoryDone n rid tls auth fd err c =
     (case wc_replies c rid of
        None \<Rightarrow> (closeOrphanFd fd c, False)
      | Some r \<Rightarrow>
          if rp_finished r then (closeOrphanFd fd c, False)
          else if fd < 0
          then (onReply rid (conclude (if err = [] then blit ''SSH tunnel socket could not be opened'' else err)) c, True)
          else case n_descriptor n rid of
            Some msg \<Rightarrow> (onReply rid (conclude (descriptorError auth msg)) c, True)
          | None \<Rightarrow> (adoptSocket rid (factorySocket tls auth c) c, False))"

definition askFactory :: "net \<Rightarrow> nat \<Rightarrow> bool \<Rightarrow> bytes \<Rightarrow> wsman_client \<Rightarrow> wsman_client \<times> bool" where
  "askFactory n rid tls auth c =
     (let c1 = say (FactoryAsked rid) (onReply rid (\<lambda>r. r\<lparr>rp_state := R_Connecting\<rparr>) c)
      in case n_factory n rid of
           None \<Rightarrow> (onReply rid (\<lambda>r. r\<lparr>rp_asked := Some (tls, auth)\<rparr>) c1, False)
         | Some (fd, err) \<Rightarrow> factoryDone n rid tls auth fd err c1)"

definition directSocket :: "bytes \<Rightarrow> wsman_client \<Rightarrow> wsock" where
  "directSocket auth c =
     \<lparr>sk_tls = isTls (wc_endpoint c), sk_wired = isTls (wc_endpoint c), sk_prompts = (auth = []), sk_auth = auth,
      sk_factory = False, sk_connected = False, sk_encrypted = False, sk_refused = False, sk_ignored = None, sk_queued = False\<rparr>"

definition dial :: "nat \<Rightarrow> bytes \<Rightarrow> wsman_client \<Rightarrow> wsman_client" where
  "dial rid auth c =
     say (Dialed rid (ep_host (wc_endpoint c)) (of_int (endpointPort (wc_endpoint c))))
       (onReply rid (\<lambda>r. r\<lparr>rp_socket := Some (directSocket auth c), rp_state := R_Connecting\<rparr>) c)"

definition openConnection :: "net \<Rightarrow> nat \<Rightarrow> bytes \<Rightarrow> wsman_client \<Rightarrow> wsman_client \<times> bool" where
  "openConnection n rid auth c =
     (if wc_socketFactory c then askFactory n rid (isTls (wc_endpoint c)) auth c else (dial rid auth c, False))"

definition startTransport :: "net \<Rightarrow> nat \<Rightarrow> wsman_client \<Rightarrow> wsman_client \<times> bool" where
  "startTransport n rid c = openConnection n rid [] (armTimeout rid c)"

text \<open>\<open>retryWithDigest\<close>: forget the previous answer, count up, and dial again with an \<open>Authorization\<close> header.\<close>

definition forgetAnswer :: "wsman_reply \<Rightarrow> wsman_reply" where
  "forgetAnswer r =
     r\<lparr>rp_socket := None, rp_responseBuffer := [], rp_responseHeaders := Map.empty, rp_body := [], rp_httpStatus := 0,
       rp_expectedBody := -1, rp_currentChunkRemaining := 0, rp_readingChunkSize := True\<rparr>"

definition authHeaderFor :: "net \<Rightarrow> nat \<Rightarrow> wsman_client \<Rightarrow> bytes" where
  "authHeaderFor n rid c =
     buildDigestHeader (n_md5 n) (n_random n rid) (wc_challenge c) (blit ''POST'')
       (case wc_replies c rid of None \<Rightarrow> [] | Some r \<Rightarrow> rp_requestPath r) (wc_user c) (wc_pass c) (wc_nc c)"

definition retryWithDigest :: "net \<Rightarrow> nat \<Rightarrow> wsman_client \<Rightarrow> wsman_client \<times> bool" where
  "retryWithDigest n rid c =
     (let c1 = onReply rid forgetAnswer (armTimeout rid c);
          c2 = c1\<lparr>wc_nc := wc_nc c1 + 1\<rparr>;
          c3 = say (HeaderMade rid (digestNonce (wc_challenge c2)) (wc_nc c2)) c2
      in openConnection n rid (authHeaderFor n rid c2) c3)"

text \<open>The first attempt carries credentials when a challenge is cached.\<close>

definition startNow :: "net \<Rightarrow> nat \<Rightarrow> wsman_client \<Rightarrow> wsman_client \<times> bool" where
  "startNow n rid c =
     (if haveDigestChallenge (wc_challenge c) \<and> wc_user c \<noteq> [] then retryWithDigest n rid c else startTransport n rid c)"

section \<open>The queue\<close>

text \<open>
  The slot that \<open>sendEnvelope\<close> connects to \<open>finished\<close> in serialized mode: take replies off the queue, skip the
  destroyed ones, start the first one left. A request that fails while it is being started emits \<open>finished\<close> at
  once and so runs the slot again.
\<close>

fun drainQueue :: "net \<Rightarrow> nat list \<Rightarrow> wsman_client \<Rightarrow> wsman_client" where
  "drainQueue n [] c = c\<lparr>wc_pendingQueue := []\<rparr>"
| "drainQueue n (q # qs) c =
     (if wc_replies c q = None then drainQueue n qs c
      else let (c1, ended) = startNow n q (c\<lparr>wc_pendingQueue := qs, wc_currentRequest := Some q\<rparr>)
           in if ended then drainQueue n qs ((say (Finished q) c1)\<lparr>wc_currentRequest := None\<rparr>) else c1)"

definition emitFinished :: "net \<Rightarrow> nat \<Rightarrow> wsman_client \<Rightarrow> wsman_client" where
  "emitFinished n rid c =
     (let c1 = say (Finished rid) c
      in case wc_replies c rid of
           None \<Rightarrow> c1
         | Some r \<Rightarrow> if rp_slot r then drainQueue n (wc_pendingQueue c1) (c1\<lparr>wc_currentRequest := None\<rparr>) else c1)"

definition settle :: "net \<Rightarrow> nat \<Rightarrow> wsman_client \<times> bool \<Rightarrow> wsman_client" where
  "settle n rid p = (if snd p then emitFinished n rid (fst p) else fst p)"

definition finishReply :: "net \<Rightarrow> nat \<Rightarrow> bytes \<Rightarrow> wsman_client \<Rightarrow> wsman_client" where
  "finishReply n rid err c =
     (case wc_replies c rid of
        None \<Rightarrow> c
      | Some r \<Rightarrow> if rp_finished r then c else emitFinished n rid (onReply rid (conclude err) c))"

text \<open>\<open>sendEnvelope\<close>. The log notes when the call returns: only then can the caller connect to \<open>finished\<close>.\<close>

definition replyFor :: "endpoint \<Rightarrow> bytes \<Rightarrow> bytes \<Rightarrow> wsman_reply" where
  "replyFor ep envelope soapAction =
     newReply\<lparr>rp_envelope := envelope, rp_soapAction := soapAction,
       rp_requestPath := (if ep_path ep = [] then [47] else ep_path ep),
       rp_hostHeader := ep_host ep @ [58] @ dec_digits (nat (endpointPort ep))\<rparr>"

definition currentIsNull :: "wsman_client \<Rightarrow> bool" where
  "currentIsNull c \<longleftrightarrow> (case wc_currentRequest c of None \<Rightarrow> True | Some q \<Rightarrow> wc_replies c q = None)"

definition sendSerialized :: "net \<Rightarrow> nat \<Rightarrow> wsman_client \<Rightarrow> wsman_client" where
  "sendSerialized n rid c =
     (let c1 = onReply rid (\<lambda>r. r\<lparr>rp_slot := True\<rparr>) (c\<lparr>wc_pendingQueue := wc_pendingQueue c @ [rid]\<rparr>)
      in if currentIsNull c1
         then settle n rid (startNow n rid (c1\<lparr>wc_currentRequest := Some (hd (wc_pendingQueue c1)),
                                              wc_pendingQueue := tl (wc_pendingQueue c1)\<rparr>))
         else c1)"

definition sendEnvelope :: "net \<Rightarrow> bytes \<Rightarrow> bytes \<Rightarrow> wsman_client \<Rightarrow> wsman_client" where
  "sendEnvelope n envelope soapAction c =
     (let rid = wc_nextReply c;
          c1 = c\<lparr>wc_nextReply := rid + 1, wc_replies := (wc_replies c)(rid \<mapsto> replyFor (wc_endpoint c) envelope soapAction)\<rparr>
      in say (Returned rid)
           (if wc_serializeRequests c then sendSerialized n rid c1 else settle n rid (startNow n rid c1)))"

section \<open>Reading the response\<close>

text \<open>
  What a read pass decides: wait for more bytes, end the reply with an error text (empty on success), or answer a
  challenge.
\<close>

datatype verdict = More | Finish bytes | Challenged

definition bodyLen :: "wsman_reply \<Rightarrow> int" where
  "bodyLen r = int (length (rp_body r))"

definition bufferLen :: "wsman_reply \<Rightarrow> int" where
  "bufferLen r = int (length (rp_responseBuffer r))"

definition bodyCapError :: bytes where
  "bodyCapError = blit ''Reply body exceeds '' @ dec_digits (nat kWsmanMaxBodyBytes) @ blit ''-byte cap''"

text \<open>Moving bytes from the buffer to the body.\<close>

definition takeBody :: "int \<Rightarrow> wsman_reply \<Rightarrow> wsman_reply" where
  "takeBody k r =
     r\<lparr>rp_body := rp_body r @ take (nat k) (rp_responseBuffer r), rp_responseBuffer := drop (nat k) (rp_responseBuffer r)\<rparr>"

definition readToClose :: "bool \<Rightarrow> wsman_reply \<Rightarrow> wsman_reply \<times> verdict" where
  "readToClose connected r =
     (if bodyLen r + bufferLen r > kWsmanMaxBodyBytes then (r, Finish bodyCapError)
      else (takeBody (bufferLen r) r, if connected then More else Finish []))"

definition readSized :: "wsman_reply \<Rightarrow> wsman_reply \<times> verdict" where
  "readSized r =
     (let need = rp_expectedBody r - bodyLen r
      in if need \<le> 0 then (r, Finish [])
         else let r1 = takeBody (min need (bufferLen r)) r
              in (r1, if bodyLen r1 \<ge> rp_expectedBody r then Finish [] else More))"

text \<open>The chunk loop in two halves: the size line, then the data; \<open>Inl\<close> leaves the function.\<close>

definition chunkLine :: "bytes \<Rightarrow> wsman_reply \<Rightarrow> (wsman_reply \<times> verdict) + wsman_reply" where
  "chunkLine line r =
     (let sizeLine = (case indexOf [59] line of None \<Rightarrow> line | Some semi \<Rightarrow> take semi line)
      in case toLongLong 16 sizeLine of
           None \<Rightarrow> Inl (r\<lparr>rp_currentChunkRemaining := 0\<rparr>, Finish (blit ''Bad chunk size''))
         | Some k \<Rightarrow>
             if k < 0 then Inl (r\<lparr>rp_currentChunkRemaining := k\<rparr>, Finish (blit ''Bad chunk size''))
             else if k = 0 then Inl (r\<lparr>rp_currentChunkRemaining := 0\<rparr>, Finish [])
             else Inr (r\<lparr>rp_currentChunkRemaining := k, rp_readingChunkSize := False\<rparr>))"

definition chunkSize :: "wsman_reply \<Rightarrow> (wsman_reply \<times> verdict) + wsman_reply" where
  "chunkSize r =
     (if \<not> rp_readingChunkSize r then Inr r
      else case indexOf crlf (rp_responseBuffer r) of
        None \<Rightarrow> Inl (r, More)
      | Some eol \<Rightarrow>
          chunkLine (take eol (rp_responseBuffer r)) (r\<lparr>rp_responseBuffer := drop (eol + 2) (rp_responseBuffer r)\<rparr>))"

definition chunkData :: "wsman_reply \<Rightarrow> (wsman_reply \<times> verdict) + wsman_reply" where
  "chunkData r =
     (if rp_responseBuffer r = [] then Inl (r, More)
      else let k = min (rp_currentChunkRemaining r) (bufferLen r)
           in if bodyLen r + k > kWsmanMaxBodyBytes then Inl (r, Finish bodyCapError)
              else let r1 = (takeBody k r)\<lparr>rp_currentChunkRemaining := rp_currentChunkRemaining r - k\<rparr>
                   in if rp_currentChunkRemaining r1 = 0
                      then if bufferLen r1 < 2 then Inl (r1, More)
                           else Inr (r1\<lparr>rp_responseBuffer := drop 2 (rp_responseBuffer r1), rp_readingChunkSize := True\<rparr>)
                      else Inl (r1, More))"

lemma chunkSize_shrinks: "chunkSize r = Inr r1 \<Longrightarrow> length (rp_responseBuffer r1) \<le> length (rp_responseBuffer r)"
  by (auto simp: chunkSize_def chunkLine_def Let_def split: if_splits option.splits)

lemma chunkData_shrinks: "chunkData r = Inr r1 \<Longrightarrow> length (rp_responseBuffer r1) < length (rp_responseBuffer r)"
  by (auto simp: chunkData_def Let_def takeBody_def bufferLen_def split: if_splits)

function chunkLoop :: "wsman_reply \<Rightarrow> wsman_reply \<times> verdict" where
  "chunkLoop r =
     (case chunkSize r of
        Inl res \<Rightarrow> res
      | Inr r1 \<Rightarrow> (case chunkData r1 of Inl res \<Rightarrow> res | Inr r2 \<Rightarrow> chunkLoop r2))"
  by pat_completeness auto

termination
  by (relation "measure (\<lambda>r. length (rp_responseBuffer r))")
    (auto dest!: chunkSize_shrinks chunkData_shrinks)

declare chunkLoop.simps [simp del]

definition readBody :: "bool \<Rightarrow> wsman_reply \<Rightarrow> wsman_reply \<times> verdict" where
  "readBody connected r =
     (if rp_state r = R_ReadingBodyContentLength
      then (if rp_expectedBody r = -2 then readToClose connected r else readSized r)
      else if rp_state r = R_ReadingBodyChunked then chunkLoop r
      else (r, More))"

text \<open>How the body is framed.\<close>

definition containsBytes :: "bytes \<Rightarrow> bytes \<Rightarrow> bool" where
  "containsBytes pat xs \<longleftrightarrow> indexOf pat xs \<noteq> None"

definition lengthCapError :: "int \<Rightarrow> bytes" where
  "lengthCapError v =
     blit ''Content-Length '' @ dec_digits (nat v) @ blit '' exceeds '' @ dec_digits (nat kWsmanMaxBodyBytes) @ blit ''-byte cap''"

definition chooseBody :: "wsman_reply \<Rightarrow> wsman_reply \<times> verdict" where
  "chooseBody r =
     (let te = valueOf (rp_responseHeaders r) ''transfer-encoding'';
          cl = valueOf (rp_responseHeaders r) ''content-length''
      in if containsBytes (blit ''chunked'') (bytesToLower te)
         then (r\<lparr>rp_state := R_ReadingBodyChunked, rp_readingChunkSize := True, rp_currentChunkRemaining := 0\<rparr>, More)
         else if cl \<noteq> []
         then let r1 = r\<lparr>rp_state := R_ReadingBodyContentLength, rp_expectedBody := longOrZero cl\<rparr>
              in if longOrZero cl < 0 then (r1, Finish (blit ''Bad Content-Length''))
                 else if longOrZero cl > kWsmanMaxBodyBytes then (r1, Finish (lengthCapError (longOrZero cl)))
                 else (r1, More)
         else (r\<lparr>rp_state := R_ReadingBodyContentLength, rp_expectedBody := -2\<rparr>, More))"

text \<open>The challenge of a 401 replaces the cached one; the counter restarts when the nonce is a new one.\<close>

definition challengeOf :: "(bytes \<rightharpoonup> bytes) \<Rightarrow> challenge" where
  "challengeOf params =
     \<lparr>haveDigestChallenge = (valueOf params ''realm'' \<noteq> [] \<and> valueOf params ''nonce'' \<noteq> []),
      digestRealm = valueOf params ''realm'', digestNonce = valueOf params ''nonce'',
      digestQop = chooseQop (valueOf params ''qop''), digestAlgorithm = valueOf params ''algorithm'',
      digestOpaque = valueOf params ''opaque''\<rparr>"

definition installChallenge :: "(bytes \<rightharpoonup> bytes) \<Rightarrow> wsman_client \<Rightarrow> wsman_client" where
  "installChallenge params c =
     (let ch = challengeOf params; c1 = c\<lparr>wc_challenge := ch\<rparr>
      in if digestNonce ch \<noteq> digestNonce (wc_challenge c) then say (NonceInstalled (digestNonce ch)) (c1\<lparr>wc_nc := 0\<rparr>) else c1)"

definition authFailedText :: bytes where
  "authFailedText = blit ''Authentication failed '' @ [0xE2, 0x80, 0x94] @ blit '' Intel AMT rejected the credentials''"

definition onChallenge :: "net \<Rightarrow> nat \<Rightarrow> wsman_reply \<Rightarrow> wsman_client \<Rightarrow> wsman_client" where
  "onChallenge n rid r c =
     (let wwwAuth = valueOf (rp_responseHeaders r) ''www-authenticate''
      in if wwwAuth = [] then finishReply n rid (blit ''401 without WWW-Authenticate'') c
         else let params = parseDigestChallenge wwwAuth;
                  c1 = installChallenge params c;
                  allowed = (if bytesToLower (valueOf params ''stale'') = blit ''true'' then 2 else 1)
              in if \<not> haveDigestChallenge (wc_challenge c1) then finishReply n rid (blit ''Unsupported auth challenge'') c1
                 else if rp_digestRetries r \<ge> allowed then finishReply n rid authFailedText c1
                 else settle n rid (retryWithDigest n rid (onReply rid (\<lambda>r. r\<lparr>rp_digestRetries := rp_digestRetries r + 1\<rparr>) c1)))"

definition headersEnd :: bytes where
  "headersEnd = crlf @ crlf"

text \<open>The header block, and what is already there of the body; \<open>connected\<close> is the state the socket reports.\<close>

definition readHeaders :: "bool \<Rightarrow> wsman_reply \<Rightarrow> wsman_reply \<times> verdict" where
  "readHeaders connected r =
     (case indexOf headersEnd (rp_responseBuffer r) of
        None \<Rightarrow> (r, More)
      | Some e \<Rightarrow>
          let r1 = r\<lparr>rp_responseBuffer := drop (e + 4) (rp_responseBuffer r)\<rparr>
          in case parseHeaders (take e (rp_responseBuffer r)) of
               Inl err \<Rightarrow> (r1, Finish (blit err))
             | Inr (status, hs) \<Rightarrow>
                 let r2 = r1\<lparr>rp_httpStatus := status, rp_responseHeaders := hs\<rparr>
                 in if status = 401 then (r2, Challenged)
                    else if snd (chooseBody r2) = More then readBody connected (fst (chooseBody r2))
                    else chooseBody r2)"

definition readPass :: "bool \<Rightarrow> bytes \<Rightarrow> wsman_reply \<Rightarrow> wsman_reply \<times> verdict" where
  "readPass connected chunk r =
     (if chunk = [] \<and> \<not> connected \<and> rp_state r = R_ReadingHeaders
      then (r, Finish (blit ''Connection closed before headers''))
      else let r1 = r\<lparr>rp_responseBuffer := rp_responseBuffer r @ chunk\<rparr>
           in if rp_state r = R_ReadingHeaders then readHeaders connected r1 else readBody connected r1)"

definition applyVerdict :: "net \<Rightarrow> nat \<Rightarrow> wsman_reply \<times> verdict \<Rightarrow> wsman_client \<Rightarrow> wsman_client" where
  "applyVerdict n rid p c =
     (let c1 = onReply rid (\<lambda>_. fst p) c
      in case snd p of
           More \<Rightarrow> c1
         | Finish err \<Rightarrow> finishReply n rid err c1
         | Challenged \<Rightarrow> onChallenge n rid (fst p) c1)"

text \<open>\<open>readMore\<close>: one pass over what the socket has.\<close>

definition readMore :: "net \<Rightarrow> nat \<Rightarrow> bytes \<Rightarrow> bool \<Rightarrow> wsman_client \<Rightarrow> wsman_client" where
  "readMore n rid chunk connected c =
     (case wc_replies c rid of
        None \<Rightarrow> c
      | Some r \<Rightarrow>
          if rp_finished r \<or> rp_socket r = None then c else applyVerdict n rid (readPass connected chunk r) c)"

section \<open>The other slots and calls\<close>

definition onSocket :: "nat \<Rightarrow> (wsock \<Rightarrow> wsock) \<Rightarrow> wsman_client \<Rightarrow> wsman_client" where
  "onSocket rid f = onReply rid (\<lambda>r. r\<lparr>rp_socket := map_option f (rp_socket r)\<rparr>)"

definition onConnected :: "nat \<Rightarrow> wsock \<Rightarrow> wsman_client \<Rightarrow> wsman_client" where
  "onConnected rid s c =
     (let c1 = onSocket rid (\<lambda>s. s\<lparr>sk_connected := True\<rparr>) c
      in case wc_replies c rid of
           None \<Rightarrow> c1
         | Some r \<Rightarrow>
             if rp_finished r then c1
             else if sk_tls s then onReply rid (\<lambda>r. r\<lparr>rp_state := R_TlsHandshaking\<rparr>) c1
             else doWrite rid c1)"

text \<open>On a factory socket the first attempt writes through the event queue, every other one at once.\<close>

definition onEncrypted :: "nat \<Rightarrow> wsock \<Rightarrow> wsman_client \<Rightarrow> wsman_client" where
  "onEncrypted rid s c =
     (let c1 = onSocket rid (\<lambda>s. s\<lparr>sk_encrypted := True\<rparr>) c
      in if sk_factory s \<and> sk_auth s = [] then onSocket rid (\<lambda>s. s\<lparr>sk_queued := True\<rparr>) c1 else doWrite rid c1)"

definition onQueuedWrite :: "nat \<Rightarrow> wsman_client \<Rightarrow> wsman_client" where
  "onQueuedWrite rid c = doWrite rid (onSocket rid (\<lambda>s. s\<lparr>sk_queued := False\<rparr>) c)"

definition onFactory :: "net \<Rightarrow> nat \<Rightarrow> bool \<Rightarrow> bytes \<Rightarrow> int \<Rightarrow> bytes \<Rightarrow> wsman_client \<Rightarrow> wsman_client" where
  "onFactory n rid tls auth fd err c =
     settle n rid (factoryDone n rid tls auth fd err (onReply rid (\<lambda>r. r\<lparr>rp_asked := None\<rparr>) c))"

text \<open>An error, a timeout and an abort end the reply where it stands; the timer is not stopped on these paths.\<close>

definition breakOff :: "bytes \<Rightarrow> wsman_reply \<Rightarrow> wsman_reply" where
  "breakOff err r = r\<lparr>rp_errorString := err, rp_state := R_Failed, rp_finished := True\<rparr>"

definition endWith :: "net \<Rightarrow> nat \<Rightarrow> bytes \<Rightarrow> bool \<Rightarrow> wsman_client \<Rightarrow> wsman_client" where
  "endWith n rid err aborts c =
     (case wc_replies c rid of
        None \<Rightarrow> c
      | Some r \<Rightarrow>
          if rp_finished r then c
          else emitFinished n rid
                 (onReply rid (breakOff err) (if aborts \<and> rp_socket r \<noteq> None then say (SockAborted rid) c else c)))"

definition onSockError :: "net \<Rightarrow> nat \<Rightarrow> bytes \<Rightarrow> wsman_client \<Rightarrow> wsman_client" where
  "onSockError n rid msg = endWith n rid msg False"

definition onTimeout :: "net \<Rightarrow> nat \<Rightarrow> wsman_client \<Rightarrow> wsman_client" where
  "onTimeout n rid c = endWith n rid (blit ''Request timed out'') True (onReply rid stopTimer c)"

definition reply_abort :: "net \<Rightarrow> nat \<Rightarrow> wsman_client \<Rightarrow> wsman_client" where
  "reply_abort n rid = endWith n rid (blit ''Aborted'') True"

definition destroyReply :: "nat \<Rightarrow> wsman_client \<Rightarrow> wsman_client" where
  "destroyReply rid c = c\<lparr>wc_replies := (wc_replies c)(rid := None)\<rparr>"

definition wsman_setCredentials :: "bytes \<Rightarrow> bytes \<Rightarrow> wsman_client \<Rightarrow> wsman_client" where
  "wsman_setCredentials user pass c =
     c\<lparr>wc_user := user, wc_pass := pass, wc_challenge := (wc_challenge c)\<lparr>haveDigestChallenge := False\<rparr>\<rparr>"

definition setTrustedFingerprints :: "bytes list \<Rightarrow> wsman_client \<Rightarrow> wsman_client" where
  "setTrustedFingerprints fps c = say (Pinned fps) (c\<lparr>wc_trustedFingerprints := fps\<rparr>)"

section \<open>Events\<close>

text \<open>Everything that can happen to a client: the calls of its owner and the signals of sockets, timers and factories.\<close>

datatype wsev =
    SetEndpoint endpoint | SetCredentials bytes bytes | SetTrusted "bytes list" | SetTimeoutMs int
  | SetFactory bool | SetSerialize bool | TrustPending | Send bytes bytes
  | Connected nat | Encrypted nat | SslErrors nat "certificate list" | SockError nat bytes
  | ReadyRead nat bytes bool | QueuedWrite nat | FactoryAnswer nat int bytes | TimerFires nat | Abort nat | Destroy nat

definition socketOf :: "wsman_client \<Rightarrow> nat \<Rightarrow> wsock option" where
  "socketOf c rid = Option.bind (wc_replies c rid) rp_socket"

definition withSocket :: "wsman_client \<Rightarrow> nat \<Rightarrow> (wsock \<Rightarrow> wsman_client) \<Rightarrow> wsman_client" where
  "withSocket c rid f = (case socketOf c rid of None \<Rightarrow> c | Some s \<Rightarrow> f s)"

fun handle :: "net \<Rightarrow> wsev \<Rightarrow> wsman_client \<Rightarrow> wsman_client" where
  "handle n (SetEndpoint ep) c = c\<lparr>wc_endpoint := ep\<rparr>"
| "handle n (SetCredentials u p) c = wsman_setCredentials u p c"
| "handle n (SetTrusted fps) c = setTrustedFingerprints fps c"
| "handle n (SetTimeoutMs ms) c = c\<lparr>wc_timeoutMs := ms\<rparr>"
| "handle n (SetFactory b) c = c\<lparr>wc_socketFactory := b\<rparr>"
| "handle n (SetSerialize b) c = c\<lparr>wc_serializeRequests := b\<rparr>"
| "handle n TrustPending c = wsman_trustPendingPeerCert c"
| "handle n (Send env act) c = sendEnvelope n env act c"
| "handle n (Connected rid) c = withSocket c rid (\<lambda>s. onConnected rid s c)"
| "handle n (Encrypted rid) c = withSocket c rid (\<lambda>s. onEncrypted rid s c)"
| "handle n (SslErrors rid chain) c = withSocket c rid (\<lambda>s. onSslErrors n rid s chain c)"
| "handle n (SockError rid msg) c = onSockError n rid msg c"
| "handle n (ReadyRead rid chunk connected) c = readMore n rid chunk connected c"
| "handle n (QueuedWrite rid) c = withSocket c rid (\<lambda>s. onQueuedWrite rid c)"
| "handle n (FactoryAnswer rid fd err) c =
     (case wc_replies c rid of
        None \<Rightarrow> closeOrphanFd fd c
      | Some r \<Rightarrow> (case rp_asked r of None \<Rightarrow> c | Some (tls, auth) \<Rightarrow> onFactory n rid tls auth fd err c))"
| "handle n (TimerFires rid) c = onTimeout n rid c"
| "handle n (Abort rid) c = reply_abort n rid c"
| "handle n (Destroy rid) c = destroyReply rid c"

text \<open>
  When Qt delivers a signal: a socket connects once, encrypts once and only when every reported error was ignored,
  reports errors before that, and has data only when it is connected and, with TLS, encrypted. A timer fires while it runs.
\<close>

definition signalled :: "wsev \<Rightarrow> wsman_client \<Rightarrow> bool" where
  "signalled ev c =
     (case ev of
        Connected rid \<Rightarrow> (case socketOf c rid of None \<Rightarrow> False | Some s \<Rightarrow> \<not> sk_connected s)
      | Encrypted rid \<Rightarrow>
          (case socketOf c rid of None \<Rightarrow> False | Some s \<Rightarrow> sk_tls s \<and> sk_connected s \<and> \<not> sk_encrypted s \<and> \<not> sk_refused s)
      | SslErrors rid chain \<Rightarrow>
          (case socketOf c rid of None \<Rightarrow> False
           | Some s \<Rightarrow> sk_tls s \<and> sk_connected s \<and> \<not> sk_encrypted s \<and> \<not> sk_refused s \<and> sk_ignored s = None)
      | ReadyRead rid chunk connected \<Rightarrow>
          (case socketOf c rid of None \<Rightarrow> False | Some s \<Rightarrow> sk_connected s \<and> (sk_tls s \<longrightarrow> sk_encrypted s))
      | QueuedWrite rid \<Rightarrow> (case socketOf c rid of None \<Rightarrow> False | Some s \<Rightarrow> sk_queued s)
      | TimerFires rid \<Rightarrow> (case wc_replies c rid of None \<Rightarrow> False | Some r \<Rightarrow> rp_timer r = Some True)
      | _ \<Rightarrow> True)"

inductive wreach :: "(wsev \<Rightarrow> wsman_client \<Rightarrow> bool) \<Rightarrow> wsman_client \<Rightarrow> bool" for admits where
  wreach_new: "wreach admits newClient"
| wreach_step: "wreach admits c \<Longrightarrow> signalled ev c \<Longrightarrow> admits ev c \<Longrightarrow> wreach admits (handle n ev c)"

section \<open>The invariant of a client\<close>

fun finishOf :: "wsout \<Rightarrow> nat option" where
  "finishOf (Finished rid) = Some rid"
| "finishOf _ = None"

definition finishes :: "wsout list \<Rightarrow> nat list" where
  "finishes = List.map_filter finishOf"

lemma finishes_snoc [simp]: "finishes (l @ [e]) = finishes l @ (case finishOf e of None \<Rightarrow> [] | Some r \<Rightarrow> [r])"
  by (simp add: finishes_def map_filter_def split: option.splits)

lemma finishes_nil [simp]: "finishes [] = []"
  by (simp add: finishes_def)

text \<open>
  A reply is fine when its body is within the cap, its announced length too, it is finished exactly when \<open>finished\<close>
  was emitted for it, and as long as it is started and unfinished its timer runs.
\<close>

definition reply_ok :: "bool \<Rightarrow> wsman_reply \<Rightarrow> bool" where
  "reply_ok told r \<longleftrightarrow>
     bodyLen r \<le> kWsmanMaxBodyBytes \<and>
     (rp_finished r \<or> rp_state r \<noteq> R_ReadingBodyContentLength \<or> rp_expectedBody r \<le> kWsmanMaxBodyBytes) \<and>
     (rp_finished r \<or> rp_timer r = Some True \<or> rp_state r = R_Idle \<and> rp_socket r = None \<and> rp_asked r = None) \<and>
     (rp_finished r \<or> rp_timer r \<noteq> Some False) \<and> rp_finished r = told"

definition client_ok :: "wsman_client \<Rightarrow> bool" where
  "client_ok c \<longleftrightarrow>
     0 < wc_timeoutMs c \<and>
     (\<forall>rid r. wc_replies c rid = Some r \<longrightarrow> rid < wc_nextReply c \<and> reply_ok (rid \<in> set (finishes (wc_log c))) r) \<and>
     (\<forall>rid \<in> set (finishes (wc_log c)). rid < wc_nextReply c) \<and> distinct (finishes (wc_log c))"

lemma say_fields [simp]:
  "wc_replies (say e c) = wc_replies c" "wc_nextReply (say e c) = wc_nextReply c" "wc_timeoutMs (say e c) = wc_timeoutMs c"
  "wc_pendingQueue (say e c) = wc_pendingQueue c" "wc_currentRequest (say e c) = wc_currentRequest c"
  "wc_challenge (say e c) = wc_challenge c" "wc_nc (say e c) = wc_nc c" "wc_log (say e c) = wc_log c @ [e]"
  "wc_endpoint (say e c) = wc_endpoint c" "wc_user (say e c) = wc_user c" "wc_pass (say e c) = wc_pass c"
  "wc_socketFactory (say e c) = wc_socketFactory c" "wc_serializeRequests (say e c) = wc_serializeRequests c"
  "wc_trustedFingerprints (say e c) = wc_trustedFingerprints c"
  by (simp_all add: say_def)

lemma onReply_fields [simp]:
  "wc_replies (onReply rid f c) = (wc_replies c)(rid := map_option f (wc_replies c rid))"
  "wc_nextReply (onReply rid f c) = wc_nextReply c" "wc_timeoutMs (onReply rid f c) = wc_timeoutMs c"
  "wc_pendingQueue (onReply rid f c) = wc_pendingQueue c" "wc_currentRequest (onReply rid f c) = wc_currentRequest c"
  "wc_challenge (onReply rid f c) = wc_challenge c" "wc_nc (onReply rid f c) = wc_nc c" "wc_log (onReply rid f c) = wc_log c"
  "wc_endpoint (onReply rid f c) = wc_endpoint c" "wc_user (onReply rid f c) = wc_user c" "wc_pass (onReply rid f c) = wc_pass c"
  "wc_socketFactory (onReply rid f c) = wc_socketFactory c" "wc_serializeRequests (onReply rid f c) = wc_serializeRequests c"
  "wc_trustedFingerprints (onReply rid f c) = wc_trustedFingerprints c"
  by (simp_all add: onReply_def)

lemma client_ok_fields [simp]:
  "client_ok (c\<lparr>wc_endpoint := a\<rparr>) = client_ok c" "client_ok (c\<lparr>wc_user := b\<rparr>) = client_ok c"
  "client_ok (c\<lparr>wc_pass := b\<rparr>) = client_ok c" "client_ok (c\<lparr>wc_trustedFingerprints := d\<rparr>) = client_ok c"
  "client_ok (c\<lparr>wc_pendingPeerCert := e\<rparr>) = client_ok c" "client_ok (c\<lparr>wc_awaitingTrust := f\<rparr>) = client_ok c"
  "client_ok (c\<lparr>wc_socketFactory := f\<rparr>) = client_ok c" "client_ok (c\<lparr>wc_challenge := g\<rparr>) = client_ok c"
  "client_ok (c\<lparr>wc_nc := h\<rparr>) = client_ok c" "client_ok (c\<lparr>wc_serializeRequests := f\<rparr>) = client_ok c"
  "client_ok (c\<lparr>wc_currentRequest := i\<rparr>) = client_ok c" "client_ok (c\<lparr>wc_pendingQueue := j\<rparr>) = client_ok c"
  by (simp_all add: client_ok_def)

lemma client_ok_say [simp]: "finishOf e = None \<Longrightarrow> client_ok (say e c) = client_ok c"
  by (simp add: client_ok_def)

lemma client_ok_onReply:
  assumes "client_ok c" and "\<And>r told. wc_replies c rid = Some r \<Longrightarrow> reply_ok told r \<Longrightarrow> reply_ok told (f r)"
  shows "client_ok (onReply rid f c)"
  using assms by (auto simp: client_ok_def)

lemma client_ok_reply:
  "client_ok c \<Longrightarrow> wc_replies c rid = Some r \<Longrightarrow> reply_ok (rid \<in> set (finishes (wc_log c))) r"
  by (simp add: client_ok_def)

text \<open>Ending a reply and announcing it go together.\<close>

lemma client_ok_ended:
  assumes "client_ok c" and "wc_replies c rid = Some r" and "\<not> rp_finished r"
    and "rp_finished (f r)" and "bodyLen (f r) \<le> kWsmanMaxBodyBytes"
  shows "client_ok (say (Finished rid) (onReply rid f c))"
proof -
  have "rid \<notin> set (finishes (wc_log c))" "rid < wc_nextReply c"
    using assms by (auto simp: client_ok_def reply_ok_def)
  with assms show ?thesis
    by (auto simp: client_ok_def reply_ok_def)
qed

text \<open>A started request: it may have ended while it was being started.\<close>

definition started_ok :: "nat \<Rightarrow> wsman_client \<times> bool \<Rightarrow> bool" where
  "started_ok rid p \<longleftrightarrow> client_ok (if snd p then say (Finished rid) (fst p) else fst p)"

lemma body_stop [simp]: "bodyLen (conclude e r) = bodyLen r" "bodyLen (breakOff e r) = bodyLen r"
  "rp_finished (conclude e r)" "rp_finished (breakOff e r)"
  by (simp_all add: bodyLen_def conclude_def stopTimer_def breakOff_def)

lemma reply_ok_body: "reply_ok told r \<Longrightarrow> bodyLen r \<le> kWsmanMaxBodyBytes"
  by (simp add: reply_ok_def)

lemma client_ok_body: "client_ok c \<Longrightarrow> wc_replies c rid = Some r \<Longrightarrow> bodyLen r \<le> kWsmanMaxBodyBytes"
  by (auto simp: client_ok_def reply_ok_def)

subsection \<open>Reading keeps the rest of the reply\<close>

definition bodyEdit :: "wsman_reply \<Rightarrow> wsman_reply \<Rightarrow> bool" where
  "bodyEdit r r' \<longleftrightarrow>
     (\<exists>b u k q. r' = r\<lparr>rp_body := b, rp_responseBuffer := u, rp_currentChunkRemaining := k, rp_readingChunkSize := q\<rparr>)"

lemma bodyEdit_refl [simp]: "bodyEdit r r"
  unfolding bodyEdit_def by (cases r) auto

lemma bodyEdit_trans: "bodyEdit r r' \<Longrightarrow> bodyEdit r' r'' \<Longrightarrow> bodyEdit r r''"
  unfolding bodyEdit_def by (cases r) auto

lemma bodyEditI:
  "bodyEdit r (r\<lparr>rp_responseBuffer := u\<rparr>)" "bodyEdit r (r\<lparr>rp_responseBuffer := u, rp_currentChunkRemaining := k\<rparr>)"
  "bodyEdit r (r\<lparr>rp_responseBuffer := u, rp_currentChunkRemaining := k, rp_readingChunkSize := q\<rparr>)"
  "bodyEdit r (r\<lparr>rp_body := b, rp_responseBuffer := u\<rparr>)"
  "bodyEdit r (r\<lparr>rp_body := b, rp_responseBuffer := u, rp_currentChunkRemaining := k\<rparr>)"
  "bodyEdit r (r\<lparr>rp_body := b, rp_responseBuffer := u, rp_currentChunkRemaining := k, rp_readingChunkSize := q\<rparr>)"
  "bodyEdit r (r\<lparr>rp_currentChunkRemaining := k\<rparr>)"
  "bodyEdit r (r\<lparr>rp_body := b, rp_currentChunkRemaining := k, rp_responseBuffer := u, rp_readingChunkSize := q\<rparr>)"
  "bodyEdit r (r\<lparr>rp_currentChunkRemaining := k, rp_responseBuffer := u, rp_readingChunkSize := q\<rparr>)"
  unfolding bodyEdit_def by (cases r; auto)+

lemma bodyEdit_fields:
  assumes "bodyEdit r r'"
  shows "rp_finished r' = rp_finished r" "rp_timer r' = rp_timer r" "rp_state r' = rp_state r"
    "rp_expectedBody r' = rp_expectedBody r" "rp_socket r' = rp_socket r" "rp_slot r' = rp_slot r"
  using assms by (auto simp: bodyEdit_def)

definition capped :: "wsman_reply \<Rightarrow> bool" where
  "capped r \<longleftrightarrow> bodyLen r \<le> kWsmanMaxBodyBytes"

lemma chunkSize_edit:
  "chunkSize r = Inl (r', v) \<Longrightarrow> bodyEdit r r' \<and> rp_body r' = rp_body r"
  "chunkSize r = Inr r' \<Longrightarrow> bodyEdit r r' \<and> rp_body r' = rp_body r"
  by (auto simp: chunkSize_def chunkLine_def Let_def bodyEditI split: if_splits option.splits)

lemma bodyLen_takeBody: "0 \<le> k \<Longrightarrow> k \<le> bufferLen r \<Longrightarrow> bodyLen (takeBody k r) = bodyLen r + k"
  by (simp add: bodyLen_def bufferLen_def takeBody_def)

lemma takeBody_le: "bodyLen (takeBody k r) \<le> bodyLen r + max 0 k"
  by (simp add: bodyLen_def takeBody_def)

lemma chunkData_edit:
  assumes "capped r"
  shows "chunkData r = Inl (r', v) \<Longrightarrow> bodyEdit r r' \<and> capped r'"
    and "chunkData r = Inr r' \<Longrightarrow> bodyEdit r r' \<and> capped r'"
  using assms
  by (auto simp: chunkData_def Let_def takeBody_def bodyLen_def bufferLen_def capped_def bodyEditI kWsmanMaxBodyBytes_def
      split: if_splits)

lemma chunkLoop_edit: "chunkLoop r = (r', v) \<Longrightarrow> capped r \<Longrightarrow> bodyEdit r r' \<and> capped r'"
proof (induction r rule: chunkLoop.induct)
  case (1 r)
  show ?case
  proof (cases "chunkSize r")
    case (Inl res)
    with "1.prems" show ?thesis
      using chunkSize_edit(1) [of r r' v] by (simp add: chunkLoop.simps [of r] capped_def bodyLen_def)
  next
    case (Inr r1)
    then have e1: "bodyEdit r r1" "capped r1"
      using chunkSize_edit(2) [of r r1] "1.prems"(2) by (auto simp: capped_def bodyLen_def)
    show ?thesis
    proof (cases "chunkData r1")
      case (Inl res)
      with \<open>chunkSize r = Inr r1\<close> "1.prems" e1 show ?thesis
        using chunkData_edit(1) [of r1 r' v] by (auto simp: chunkLoop.simps [of r] intro: bodyEdit_trans)
    next
      case (Inr r2)
      then have "bodyEdit r1 r2" "capped r2"
        using chunkData_edit(2) [of r1 r2] e1 by auto
      with Inr \<open>chunkSize r = Inr r1\<close> "1.prems" e1 show ?thesis
        using "1.IH" [of r1 r2] by (auto simp: chunkLoop.simps [of r] intro: bodyEdit_trans)
    qed
  qed
qed

lemma chunkLoop_verdict: "snd (chunkLoop r) \<noteq> Challenged"
proof (induction r rule: chunkLoop.induct)
  case (1 r)
  have "chunkSize r \<noteq> Inl (x, Challenged)" "chunkData q \<noteq> Inl (x, Challenged)" for x q
    by (auto simp: chunkSize_def chunkLine_def chunkData_def Let_def split: if_splits option.splits)
  then show ?case
    using 1 by (auto simp: chunkLoop.simps [of r] split: sum.splits prod.splits)
qed

lemma readSized_edit:
  assumes "readSized r = (r', v)" and "capped r" and "rp_expectedBody r \<le> kWsmanMaxBodyBytes"
  shows "bodyEdit r r' \<and> capped r'"
  using assms
  by (auto simp: readSized_def Let_def takeBody_def bodyLen_def bufferLen_def capped_def bodyEditI split: if_splits)

lemma readToClose_edit:
  assumes "readToClose conn r = (r', v)" and "capped r"
  shows "bodyEdit r r' \<and> capped r'"
  using assms
  by (auto simp: readToClose_def takeBody_def bodyLen_def bufferLen_def capped_def bodyEditI split: if_splits)

lemma readBody_edit:
  assumes "readBody conn r = (r', v)" and "capped r"
    and "rp_state r = R_ReadingBodyContentLength \<Longrightarrow> rp_expectedBody r \<le> kWsmanMaxBodyBytes"
  shows "bodyEdit r r' \<and> capped r'"
  using assms readToClose_edit [of conn r r' v] readSized_edit [of r r' v] chunkLoop_edit [of r r' v]
  by (auto simp: readBody_def split: if_splits)

subsection \<open>Every event keeps the invariant\<close>

text \<open>A reply whose timer runs, or that needs none.\<close>

definition armed :: "wsman_reply \<Rightarrow> bool" where
  "armed r \<longleftrightarrow> rp_finished r \<or> rp_timer r = Some True"

definition armed_in :: "wsman_client \<Rightarrow> nat \<Rightarrow> bool" where
  "armed_in c rid \<longleftrightarrow> (\<forall>r. wc_replies c rid = Some r \<longrightarrow> armed r)"

lemma reply_ok_armed: "reply_ok told r \<Longrightarrow> rp_state r \<noteq> R_Idle \<Longrightarrow> armed r"
  by (auto simp: reply_ok_def armed_def)

lemma armed_in_say [simp]: "armed_in (say e c) rid = armed_in c rid"
  by (simp add: armed_in_def)

lemma armed_in_onReply: "armed_in c rid \<Longrightarrow> (\<And>r. armed r \<Longrightarrow> armed (f r)) \<Longrightarrow> armed_in (onReply rid f c) rid"
  by (auto simp: armed_in_def)

lemma armTimeout_ok:
  assumes "client_ok c"
  shows "client_ok (armTimeout rid c)" and "armed_in (armTimeout rid c) rid"
proof -
  have t: "0 < wc_timeoutMs c"
    using assms by (simp add: client_ok_def)
  show "client_ok (armTimeout rid c)"
    unfolding armTimeout_def using assms t by (rule_tac client_ok_onReply) (auto simp: reply_ok_def bodyLen_def)
  show "armed_in (armTimeout rid c) rid"
    unfolding armed_in_def
  proof (intro allI impI)
    fix r assume "wc_replies (armTimeout rid c) rid = Some r"
    then obtain q where q: "wc_replies c rid = Some q"
        "r = (if rp_timer q \<noteq> None \<or> wc_timeoutMs c \<le> 0 then q else q\<lparr>rp_timer := Some True\<rparr>)"
      by (auto simp: armTimeout_def)
    then have "rp_finished q \<or> rp_timer q \<noteq> Some False"
      using client_ok_reply [OF assms q(1)] by (auto simp: reply_ok_def)
    with q t show "armed r" by (cases "rp_timer q") (auto simp: armed_def)
  qed
qed

text \<open>The edits a transport makes: sockets, the pending factory call, the state of an armed reply.\<close>

lemma reply_ok_edits [simp]:
  "reply_ok t (r\<lparr>rp_slot := b\<rparr>) = reply_ok t r" "reply_ok t (r\<lparr>rp_digestRetries := k\<rparr>) = reply_ok t r"
  "reply_ok t (r\<lparr>rp_responseBuffer := u\<rparr>) = reply_ok t r"
  "armed (r\<lparr>rp_socket := s\<rparr>) = armed r" "armed (r\<lparr>rp_asked := a\<rparr>) = armed r" "armed (r\<lparr>rp_state := st\<rparr>) = armed r"
  "armed (r\<lparr>rp_slot := b\<rparr>) = armed r" "armed (r\<lparr>rp_digestRetries := k\<rparr>) = armed r"
  by (simp_all add: reply_ok_def bodyLen_def armed_def)

lemma reply_ok_transport:
  assumes "reply_ok t r"
  shows "reply_ok t (r\<lparr>rp_socket := map_option f (rp_socket r)\<rparr>)" "reply_ok t (r\<lparr>rp_asked := None\<rparr>)"
    "armed r \<Longrightarrow> reply_ok t (r\<lparr>rp_socket := s\<rparr>)" "armed r \<Longrightarrow> reply_ok t (r\<lparr>rp_asked := a\<rparr>)"
  using assms by (auto simp: reply_ok_def bodyLen_def armed_def)

lemma reply_ok_state:
  "reply_ok t r \<Longrightarrow> armed r \<Longrightarrow> st \<noteq> R_ReadingBodyContentLength \<Longrightarrow> reply_ok t (r\<lparr>rp_state := st\<rparr>)"
  by (auto simp: reply_ok_def armed_def bodyLen_def)

lemma client_ok_state:
  assumes "client_ok c" and "armed_in c rid" and "st \<noteq> R_ReadingBodyContentLength"
  shows "client_ok (onReply rid (\<lambda>r. r\<lparr>rp_state := st\<rparr>) c)"
  using assms by (intro client_ok_onReply) (auto simp: armed_in_def intro: reply_ok_state)

lemma client_ok_socket: "client_ok c \<Longrightarrow> armed_in c rid \<Longrightarrow> client_ok (onReply rid (\<lambda>r. r\<lparr>rp_socket := s\<rparr>) c)"
  by (intro client_ok_onReply) (auto simp: armed_in_def reply_ok_transport)

lemma client_ok_editSocket [simp]:
  "client_ok c \<Longrightarrow> client_ok (onReply rid (\<lambda>r. r\<lparr>rp_socket := map_option f (rp_socket r)\<rparr>) c)"
  by (intro client_ok_onReply) (auto simp: reply_ok_transport)

lemma client_ok_onSocket [simp]: "client_ok c \<Longrightarrow> client_ok (onSocket rid f c)"
  by (simp add: onSocket_def)

lemma client_ok_asked: "client_ok c \<Longrightarrow> armed_in c rid \<Longrightarrow> client_ok (onReply rid (\<lambda>r. r\<lparr>rp_asked := a\<rparr>) c)"
  by (intro client_ok_onReply) (auto simp: armed_in_def reply_ok_transport)

lemma client_ok_answered [simp]: "client_ok c \<Longrightarrow> client_ok (onReply rid (\<lambda>r. r\<lparr>rp_asked := None\<rparr>) c)"
  by (intro client_ok_onReply) (auto simp: reply_ok_transport)

lemma doWrite_ok:
  assumes "client_ok c" and "armed_in c rid"
  shows "client_ok (doWrite rid c)"
  using assms
  by (auto simp: doWrite_def split: option.splits intro!: client_ok_state)

lemma adoptSocket_ok:
  assumes "client_ok c" and "armed_in c rid"
  shows "client_ok (adoptSocket rid s c)"
  using assms
  by (auto simp: adoptSocket_def Let_def armed_in_onReply intro!: client_ok_state doWrite_ok client_ok_socket)

lemma client_ok_closeOrphanFd [simp]: "client_ok (closeOrphanFd fd c) = client_ok c"
  by (simp add: closeOrphanFd_def)

lemma factoryDone_ok:
  assumes "client_ok c" and "armed_in c rid"
  shows "started_ok rid (factoryDone n rid tls auth fd err c)"
proof (cases "wc_replies c rid")
  case None
  with assms show ?thesis by (simp add: factoryDone_def started_ok_def)
next
  case (Some r)
  with assms have "\<not> rp_finished r \<Longrightarrow> client_ok (say (Finished rid) (onReply rid (conclude e) c))" for e
    by (intro client_ok_ended [OF assms(1) Some]) (simp_all add: client_ok_body)
  with Some assms show ?thesis
    by (auto simp: factoryDone_def started_ok_def adoptSocket_ok split: option.splits)
qed

lemma askFactory_ok:
  assumes "client_ok c" and "armed_in c rid"
  shows "started_ok rid (askFactory n rid tls auth c)"
proof -
  let ?c = "say (FactoryAsked rid) (onReply rid (\<lambda>r. r\<lparr>rp_state := R_Connecting\<rparr>) c)"
  have "client_ok ?c" "armed_in ?c rid"
    using assms by (auto intro!: client_ok_state armed_in_onReply)
  then show ?thesis
    by (auto simp: askFactory_def Let_def factoryDone_ok started_ok_def [of rid "(_, False)"] client_ok_asked split: option.splits)
qed

lemma dial_client_ok:
  assumes "client_ok c" and "armed_in c rid"
  shows "client_ok (dial rid auth c)"
proof -
  have "reply_ok t (r\<lparr>rp_socket := s, rp_state := R_Connecting\<rparr>)" if "reply_ok t r" "armed r" for t r s
    using reply_ok_state [of t "r\<lparr>rp_socket := s\<rparr>" R_Connecting] that by (simp add: reply_ok_transport)
  with assms show ?thesis
    by (auto simp: dial_def armed_in_def intro!: client_ok_onReply)
qed

lemma openConnection_ok:
  "client_ok c \<Longrightarrow> armed_in c rid \<Longrightarrow> started_ok rid (openConnection n rid auth c)"
  by (simp add: openConnection_def askFactory_ok started_ok_def [of rid "(_, False)"] dial_client_ok)

lemma forgetAnswer_ok: "reply_ok t r \<Longrightarrow> reply_ok t (forgetAnswer r)" "armed r \<Longrightarrow> armed (forgetAnswer r)"
  by (auto simp: forgetAnswer_def reply_ok_def bodyLen_def kWsmanMaxBodyBytes_def armed_def)

lemma startTransport_ok: "client_ok c \<Longrightarrow> started_ok rid (startTransport n rid c)"
  by (simp add: startTransport_def openConnection_ok armTimeout_ok)

lemma retryWithDigest_ok:
  assumes "client_ok c"
  shows "started_ok rid (retryWithDigest n rid c)"
proof -
  have "client_ok (onReply rid forgetAnswer (armTimeout rid c))" "armed_in (onReply rid forgetAnswer (armTimeout rid c)) rid"
    using armTimeout_ok [OF assms] by (auto intro!: client_ok_onReply armed_in_onReply forgetAnswer_ok)
  then show ?thesis
    by (auto simp: retryWithDigest_def Let_def armed_in_def intro!: openConnection_ok)
qed

lemma startNow_ok: "client_ok c \<Longrightarrow> started_ok rid (startNow n rid c)"
  by (simp add: startNow_def startTransport_ok retryWithDigest_ok)

lemma drainQueue_ok: "client_ok c \<Longrightarrow> client_ok (drainQueue n qs c)"
proof (induction n qs c rule: drainQueue.induct)
  case (2 n q qs c)
  let ?d = "c\<lparr>wc_pendingQueue := qs, wc_currentRequest := Some q\<rparr>"
  obtain c1 ended where s: "startNow n q ?d = (c1, ended)"
    by (cases "startNow n q ?d")
  have "started_ok q (c1, ended)"
    using startNow_ok [of ?d q n] 2 s by simp
  then show ?case
    using 2 s by (auto simp: started_ok_def)
qed simp

lemma drained_ok: "client_ok (say (Finished rid) c) \<Longrightarrow> client_ok (emitFinished n rid c)"
  by (auto simp: emitFinished_def Let_def drainQueue_ok split: option.splits)

lemma settle_ok: "started_ok rid p \<Longrightarrow> client_ok (settle n rid p)"
  by (auto simp: settle_def started_ok_def drained_ok split: if_splits)

lemma ended_ok:
  assumes "client_ok c" and "wc_replies c rid = Some r" and "\<not> rp_finished r"
  shows "client_ok (emitFinished n rid (onReply rid (conclude err) c))" "client_ok (emitFinished n rid (onReply rid (breakOff err) c))"
  using assms by (auto intro!: drained_ok client_ok_ended simp: client_ok_body)

lemma finishReply_ok: "client_ok c \<Longrightarrow> client_ok (finishReply n rid err c)"
  by (simp add: finishReply_def ended_ok split: option.splits)

lemma endWith_ok: "client_ok c \<Longrightarrow> client_ok (endWith n rid err aborts c)"
  by (simp add: endWith_def ended_ok split: option.splits)

lemma chooseBody_shape:
  assumes "chooseBody r = (r', v)"
  shows "rp_body r' = rp_body r" "rp_finished r' = rp_finished r" "rp_timer r' = rp_timer r" "v \<noteq> Challenged"
    and "v = More \<Longrightarrow> rp_state r' = R_ReadingBodyContentLength \<Longrightarrow> rp_expectedBody r' \<le> kWsmanMaxBodyBytes"
  using assms by (auto simp: chooseBody_def Let_def kWsmanMaxBodyBytes_def split: if_splits)

text \<open>A reply that may be stored again: unfinished, its body capped, its timer running.\<close>

definition storable :: "wsman_reply \<Rightarrow> bool" where
  "storable r \<longleftrightarrow> \<not> rp_finished r \<and> capped r \<and> rp_timer r = Some True"

definition bounded :: "wsman_reply \<Rightarrow> bool" where
  "bounded r \<longleftrightarrow> (rp_state r = R_ReadingBodyContentLength \<longrightarrow> rp_expectedBody r \<le> kWsmanMaxBodyBytes)"

lemma readBody_storable:
  assumes "readBody conn r = (r', v)" and "storable r" and "bounded r"
  shows "storable r'" "bounded r'" "v \<noteq> Challenged"
proof -
  have e: "bodyEdit r r'" "capped r'"
    using readBody_edit [OF assms(1)] assms(2,3) by (auto simp: storable_def bounded_def)
  show "storable r'" "bounded r'"
    using e assms bodyEdit_fields [OF e(1)] by (auto simp: storable_def bounded_def)
  show "v \<noteq> Challenged"
    using assms(1) chunkLoop_verdict [of r]
    by (auto simp: readBody_def readToClose_def readSized_def Let_def split: if_splits)
qed

lemma readHeaders_storable:
  assumes "readHeaders conn r = (r', v)" and "storable r" and "rp_state r = R_ReadingHeaders"
  shows "storable r'" "(\<exists>e. v = Finish e) \<or> bounded r'"
proof -
  have edit: "storable (r\<lparr>rp_responseBuffer := u\<rparr>)" "storable (r\<lparr>rp_responseBuffer := u, rp_httpStatus := st, rp_responseHeaders := hs\<rparr>)"
    for u st hs using assms(2) by (simp_all add: storable_def capped_def bodyLen_def)
  have pick: "storable (fst (chooseBody q))" "bounded (fst (chooseBody q)) \<or> snd (chooseBody q) \<noteq> More" "snd (chooseBody q) \<noteq> Challenged"
    if "storable q" for q
    using that chooseBody_shape [OF surjective_pairing, of q]
    by (auto simp: storable_def capped_def bodyLen_def bounded_def)
  have body: "storable (fst (readBody conn q)) \<and> bounded (fst (readBody conn q))" if "storable q" "bounded q" for q
    using readBody_storable [OF surjective_pairing that] by simp
  have "storable (fst (readHeaders conn r)) \<and> ((\<exists>e. snd (readHeaders conn r) = Finish e) \<or> bounded (fst (readHeaders conn r)))"
  proof (cases "indexOf headersEnd (rp_responseBuffer r)")
    case None
    with assms(2,3) show ?thesis by (simp add: readHeaders_def bounded_def)
  next
    case (Some e)
    show ?thesis
    proof (cases "parseHeaders (take e (rp_responseBuffer r))")
      case (Inl err)
      with Some edit(1) show ?thesis by (simp add: readHeaders_def)
    next
      case (Inr sh)
      let ?q = "r\<lparr>rp_responseBuffer := drop (e + 4) (rp_responseBuffer r), rp_httpStatus := fst sh, rp_responseHeaders := snd sh\<rparr>"
      have "storable ?q" "bounded ?q"
        using edit(2) assms(3) by (simp_all add: bounded_def)
      moreover have "readHeaders conn r =
          (if fst sh = 401 then (?q, Challenged)
           else if snd (chooseBody ?q) = More then readBody conn (fst (chooseBody ?q)) else chooseBody ?q)"
        using Some Inr by (simp add: readHeaders_def Let_def split: prod.splits)
      moreover have "snd (chooseBody ?q) \<noteq> More \<Longrightarrow> \<exists>err. snd (chooseBody ?q) = Finish err"
        using pick(3) [OF \<open>storable ?q\<close>] by (cases "snd (chooseBody ?q)") auto
      ultimately show ?thesis
        using pick(1,2) [of ?q] body [of "fst (chooseBody ?q)"] by auto
    qed
  qed
  then show "storable r'" "(\<exists>e. v = Finish e) \<or> bounded r'"
    using assms(1) by simp_all
qed

lemma readPass_storable:
  assumes "readPass conn chunk r = (r', v)" and "storable r" and "bounded r"
  shows "storable r'" "(\<exists>e. v = Finish e) \<or> bounded r'"
proof -
  have "storable (r\<lparr>rp_responseBuffer := u\<rparr>)" "bounded (r\<lparr>rp_responseBuffer := u\<rparr>)" for u
    using assms(2,3) by (simp_all add: storable_def capped_def bodyLen_def bounded_def)
  then show "storable r'" "(\<exists>e. v = Finish e) \<or> bounded r'"
    using assms readHeaders_storable [of conn "r\<lparr>rp_responseBuffer := rp_responseBuffer r @ chunk\<rparr>" r' v]
      readBody_storable [of conn "r\<lparr>rp_responseBuffer := rp_responseBuffer r @ chunk\<rparr>" r' v]
    by (auto simp: readPass_def Let_def split: if_splits)
qed

lemma onReply_twice: "onReply rid f (onReply rid g c) = onReply rid (\<lambda>r. f (g r)) c"
  by (simp add: onReply_def option.map_comp comp_def)

lemma stored_reply:
  assumes "client_ok c" and "wc_replies c rid = Some q" and "\<not> rp_finished q" and "storable r" and "bounded r"
  shows "client_ok (onReply rid (\<lambda>_. r) c)"
  using assms by (intro client_ok_onReply) (auto simp: storable_def bounded_def reply_ok_def capped_def)

lemma installChallenge_ok [simp]: "client_ok (installChallenge ps c) = client_ok c"
  by (simp add: installChallenge_def Let_def)

lemma onChallenge_ok:
  assumes "client_ok c"
  shows "client_ok (onChallenge n rid r c)"
proof -
  have "client_ok (onReply rid (\<lambda>r. r\<lparr>rp_digestRetries := rp_digestRetries r + 1\<rparr>) (installChallenge ps c))" for ps
    using assms by (intro client_ok_onReply) simp_all
  then show ?thesis
    using assms by (simp add: onChallenge_def Let_def finishReply_ok settle_ok retryWithDigest_ok)
qed

lemma applyVerdict_ok:
  assumes "client_ok c" and q: "wc_replies c rid = Some q" "\<not> rp_finished q"
    and "storable r" and "(\<exists>e. v = Finish e) \<or> bounded r"
  shows "client_ok (applyVerdict n rid (r, v) c)"
proof (cases v)
  case (Finish err)
  have "client_ok (say (Finished rid) (onReply rid (\<lambda>_. conclude err r) c))"
    using assms(4) by (intro client_ok_ended [OF assms(1) q]) (simp_all add: storable_def capped_def)
  then show ?thesis
    using Finish q assms(4) by (simp add: applyVerdict_def finishReply_def onReply_twice drained_ok storable_def)
next
  case More
  with assms stored_reply [OF assms(1) q] show ?thesis by (simp add: applyVerdict_def)
next
  case Challenged
  with assms stored_reply [OF assms(1) q] show ?thesis by (simp add: applyVerdict_def onChallenge_ok)
qed

lemma readMore_ok:
  assumes "client_ok c"
  shows "client_ok (readMore n rid chunk conn c)"
proof (cases "\<exists>r. wc_replies c rid = Some r \<and> \<not> rp_finished r \<and> rp_socket r \<noteq> None")
  case True
  then obtain r where r: "wc_replies c rid = Some r" "\<not> rp_finished r" "rp_socket r \<noteq> None" by blast
  then have "storable r" "bounded r"
    using client_ok_reply [OF assms r(1)] by (auto simp: reply_ok_def storable_def bounded_def capped_def)
  then show ?thesis
    using r assms readPass_storable [OF surjective_pairing, of r conn chunk]
      applyVerdict_ok [OF assms r(1,2), of "fst (readPass conn chunk r)" "snd (readPass conn chunk r)" n]
    by (simp add: readMore_def)
qed (use assms in \<open>auto simp: readMore_def split: option.splits\<close>)

lemma refuse_ok [simp]: "client_ok c \<Longrightarrow> client_ok (refuse rid c)"
  by (simp add: refuse_def)

lemma ignoreErrors_ok [simp]: "client_ok c \<Longrightarrow> client_ok (ignoreErrors rid fp c)"
  by (simp add: ignoreErrors_def)

lemma onSslErrors_ok: "client_ok c \<Longrightarrow> client_ok (onSslErrors n rid s chain c)"
  by (simp add: onSslErrors_def Let_def split: list.splits)

text \<open>A reply that has a socket, or waits for one, is armed.\<close>

lemma socket_armed: "client_ok c \<Longrightarrow> socketOf c rid = Some s \<Longrightarrow> armed_in c rid"
  by (auto simp: socketOf_def armed_in_def armed_def bind_eq_Some_conv dest: client_ok_reply simp: reply_ok_def)

lemma asked_armed: "client_ok c \<Longrightarrow> wc_replies c rid = Some r \<Longrightarrow> rp_asked r = Some a \<Longrightarrow> armed_in c rid"
  by (auto simp: armed_in_def armed_def dest: client_ok_reply simp: reply_ok_def)

lemma armed_in_onSocket: "armed_in c rid \<Longrightarrow> armed_in (onSocket rid f c) rid"
  by (simp add: onSocket_def armed_in_onReply)

lemma onConnected_ok: "client_ok c \<Longrightarrow> armed_in c rid \<Longrightarrow> client_ok (onConnected rid s c)"
  by (auto simp: onConnected_def Let_def armed_in_onSocket split: option.splits intro!: client_ok_state doWrite_ok)

lemma onEncrypted_ok: "client_ok c \<Longrightarrow> armed_in c rid \<Longrightarrow> client_ok (onEncrypted rid s c)"
  by (simp add: onEncrypted_def Let_def armed_in_onSocket doWrite_ok)

lemma onQueuedWrite_ok: "client_ok c \<Longrightarrow> armed_in c rid \<Longrightarrow> client_ok (onQueuedWrite rid c)"
  by (simp add: onQueuedWrite_def armed_in_onSocket doWrite_ok)

lemma onFactory_ok: "client_ok c \<Longrightarrow> armed_in c rid \<Longrightarrow> client_ok (onFactory n rid tls auth fd err c)"
  by (simp add: onFactory_def settle_ok factoryDone_ok armed_in_onReply)

lemma onTimeout_ok:
  assumes "client_ok c"
  shows "client_ok (onTimeout n rid c)"
proof (cases "wc_replies c rid")
  case (Some r)
  have "client_ok (emitFinished n rid (onReply rid (\<lambda>r. breakOff e (stopTimer r)) c))" if "\<not> rp_finished r" for e
    using that client_ok_body [OF assms Some]
    by (intro drained_ok client_ok_ended [OF assms Some]) (simp_all add: stopTimer_def bodyLen_def breakOff_def)
  moreover have "client_ok (onReply rid stopTimer c)" if "rp_finished r"
    using that assms Some by (intro client_ok_onReply) (auto simp: reply_ok_def stopTimer_def bodyLen_def)
  moreover have "onReply rid f (say e (onReply rid g c)) = onReply rid (\<lambda>r. f (g r)) (say e c)" for f g e
    by (simp add: onReply_def say_def option.map_comp comp_def)
  moreover have "client_ok (emitFinished n rid (onReply rid (\<lambda>r. breakOff e (stopTimer r)) (say (SockAborted rid) c)))"
    if "\<not> rp_finished r" for e
    using that client_ok_body [OF assms Some] assms Some
    by (intro drained_ok client_ok_ended [where r = r]) (simp_all add: stopTimer_def bodyLen_def breakOff_def)
  ultimately show ?thesis
    using Some by (simp add: onTimeout_def endWith_def onReply_twice stopTimer_def [of r])
next
  case None
  then have "(wc_replies c)(rid := None) = wc_replies c" by auto
  with None assms show ?thesis by (simp add: onTimeout_def endWith_def onReply_def)
qed

lemma new_reply_ok:
  assumes "client_ok c" and "reply_ok False r"
  shows "client_ok (c\<lparr>wc_nextReply := wc_nextReply c + 1, wc_replies := (wc_replies c)(wc_nextReply c \<mapsto> r)\<rparr>)"
proof -
  have "wc_nextReply c \<notin> set (finishes (wc_log c))"
    using assms(1) by (auto simp: client_ok_def)
  with assms show ?thesis
    by (auto simp: client_ok_def less_SucI)
qed

lemma replyFor_ok: "reply_ok False (replyFor ep env act)"
  by (simp add: replyFor_def newReply_def reply_ok_def bodyLen_def kWsmanMaxBodyBytes_def)

lemma sendSerialized_ok:
  assumes "client_ok c"
  shows "client_ok (sendSerialized n rid c)"
proof -
  have "client_ok (onReply rid (\<lambda>r. r\<lparr>rp_slot := True\<rparr>) (c\<lparr>wc_pendingQueue := q\<rparr>))" for q
    using assms by (intro client_ok_onReply) simp_all
  then show ?thesis
    by (simp add: sendSerialized_def Let_def settle_ok startNow_ok)
qed

lemma sendEnvelope_ok: "client_ok c \<Longrightarrow> client_ok (sendEnvelope n env act c)"
  by (simp add: sendEnvelope_def Let_def sendSerialized_ok settle_ok startNow_ok new_reply_ok [OF _ replyFor_ok, simplified])

lemma destroyReply_ok: "client_ok c \<Longrightarrow> client_ok (destroyReply rid c)"
  by (auto simp: client_ok_def destroyReply_def)

text \<open>The timeout stays on.\<close>

definition keepsTimeout :: "wsev \<Rightarrow> wsman_client \<Rightarrow> bool" where
  "keepsTimeout ev c \<longleftrightarrow> (case ev of SetTimeoutMs ms \<Rightarrow> 0 < ms | _ \<Rightarrow> True)"

lemma client_ok_timeout: "client_ok c \<Longrightarrow> 0 < ms \<Longrightarrow> client_ok (c\<lparr>wc_timeoutMs := ms\<rparr>)"
  by (simp add: client_ok_def)

lemma handle_ok:
  assumes "client_ok c" and "keepsTimeout ev c"
  shows "client_ok (handle n ev c)"
  using assms
  by (cases ev)
    (auto simp: wsman_setCredentials_def setTrustedFingerprints_def wsman_trustPendingPeerCert_def Let_def withSocket_def reply_abort_def
      onSockError_def keepsTimeout_def onSslErrors_ok onTimeout_ok sendEnvelope_ok destroyReply_ok endWith_ok readMore_ok
      split: option.splits intro: onConnected_ok onEncrypted_ok onQueuedWrite_ok onFactory_ok socket_armed asked_armed client_ok_timeout)

lemma newClient_ok: "client_ok newClient"
  by (simp add: newClient_def client_ok_def)

lemma wreach_ok: "wreach keepsTimeout c \<Longrightarrow> client_ok c"
  by (induction rule: wreach.induct) (simp_all add: newClient_ok handle_ok)

text \<open>C6: A reply never hangs, its body never exceeds 32 MB, and it never answers twice. In every reachable state of a client
  whose timeout is not switched off, whatever its owner, the sockets, the tunnel and the peer do: a reply that was
  started and has not finished has its timer running, so the request ends at the latest when it fires; no body holds
  more than 32 MB, whatever length or chunks the peer announces; \<open>finished\<close> has been emitted at most once for every
  reply, and exactly for those that are finished. (Only the body is bounded: the bytes buffered while the header block is
  incomplete are not, until the timer ends the request.)
\<close>

theorem wsman_reply_ends:
  assumes "wreach keepsTimeout c" and "wc_replies c rid = Some r"
  shows "(rp_finished r \<or> rp_state r = R_Idle \<or> rp_timer r = Some True) \<and>
    int (length (rp_body r)) \<le> 32 * 1024 * 1024 \<and>
    (rp_finished r \<longleftrightarrow> rid \<in> set (finishes (wc_log c))) \<and> distinct (finishes (wc_log c))"
  using wreach_ok [OF assms(1)] assms(2)
  by (auto simp: client_ok_def reply_ok_def bodyLen_def kWsmanMaxBodyBytes_def)

text \<open>A plain world: hashes that reverse, no random bytes, a factory that answers later, descriptors that can be adopted.\<close>

definition demoNet :: net where
  "demoNet = \<lparr>n_md5 = rev, n_sha256 = rev, n_random = (\<lambda>_. [1]), n_factory = (\<lambda>_. None), n_descriptor = (\<lambda>_. None)\<rparr>"

definition demoEndpoint :: endpoint where
  "demoEndpoint = \<lparr>ep_scheme = blit ''http'', ep_host = blit ''amt'', ep_port = -1, ep_path = blit ''/wsman''\<rparr>"

definition demoSent :: wsman_client where
  "demoSent = handle demoNet (Send (blit ''<e/>'') []) (handle demoNet (SetEndpoint demoEndpoint) newClient)"

lemma demoSent_reach: "wreach keepsTimeout demoSent"
  unfolding demoSent_def by (intro wreach_step wreach_new) (simp_all add: signalled_def keepsTimeout_def)

theorem wsman_reply_ends_witness:
  "wc_replies demoSent 0 \<noteq> None \<and> distinct (finishes (wc_log demoSent)) \<and> rp_timer (the (wc_replies demoSent 0)) = Some True"
proof -
  have r: "\<exists>r. wc_replies demoSent 0 = Some r \<and> \<not> rp_finished r \<and> rp_state r = R_Connecting"
    by (simp add: demoSent_def newClient_def sendEnvelope_def startNow_def noChallenge_def startTransport_def openConnection_def
        settle_def dial_def armTimeout_def replyFor_def newReply_def Let_def)
  then obtain r where "wc_replies demoSent 0 = Some r" "\<not> rp_finished r" "rp_state r = R_Connecting"
    by blast
  then show ?thesis
    using wsman_reply_ends [OF demoSent_reach, of 0 r] by auto
qed

end
