(* ===== verification/Wsman_Body.thy ===== *)
theory Wsman_Body
  imports Wsman_Client
begin

text \<open>
  How \<open>readMore\<close> of \<open>wsman_client.cpp\<close> frames a response. A response is printed as a device sends it, with a length
  or in chunks, and the client reads it back; the way TCP cuts the bytes into reads makes no difference.
\<close>

section \<open>Numbers in text\<close>

definition hexLower :: "byte \<Rightarrow> bool" where
  "hexLower b \<longleftrightarrow> 48 \<le> b \<and> b \<le> 57 \<or> 97 \<le> b \<and> b \<le> 102"

lemma hex_digit_cases:
  assumes "n < 16"
  shows "hexLower (hex_digit n) \<and> digitVal (hex_digit n) = n"
  by (rule hex_digits_all [OF _ assms]) (simp add: upt_rec hex_digit_def hexLower_def digitVal_def)

lemma dec_digit_cases:
  assumes "n < 10"
  shows "hexLower (of_nat (48 + n)) \<and> digitVal (of_nat (48 + n)) = n"
  using hex_digit_cases [of n] assms by (simp add: hex_digit_def)

lemma hexNumber_hexLower: "\<forall>b \<in> set (hexNumber n). hexLower b"
proof (induction n rule: hexNumber.induct)
  case (1 n)
  then show ?case
    by (cases "n < 16") (auto simp: hexNumber.simps [of n] hex_digit_cases)
qed

lemma dec_digits_hexLower: "\<forall>b \<in> set (dec_digits n). hexLower b"
proof (induction n rule: dec_digits.induct)
  case (1 n)
  then show ?case
    using dec_digit_cases [of "n mod 10"] dec_digit_cases [of n]
    by (cases "n < 10") (auto simp: dec_digits.simps [of n])
qed

lemma digitsFrom_append: "digitsFrom base acc (xs @ ys) = Option.bind (digitsFrom base acc xs) (\<lambda>a. digitsFrom base a ys)"
  by (induction xs arbitrary: acc) auto

lemma digitsFrom_hexNumber: "digitsFrom 16 0 (hexNumber n) = Some n"
proof (induction n rule: hexNumber.induct)
  case (1 n)
  then show ?case
    using hex_digit_cases [of n] hex_digit_cases [of "n mod 16"]
    by (cases "n < 16") (simp_all add: hexNumber.simps [of n] digitsFrom_append)
qed

lemma digitsFrom_dec: "digitsFrom 10 0 (dec_digits n) = Some n"
proof (induction n rule: dec_digits.induct)
  case (1 n)
  then show ?case
    using dec_digit_cases [of n] dec_digit_cases [of "n mod 10"]
    by (cases "n < 10") (simp_all add: dec_digits.simps [of n] digitsFrom_append)
qed

lemma number_nonempty: "hexNumber n \<noteq> []" "dec_digits n \<noteq> []"
  by (simp_all add: hexNumber.simps [of n] dec_digits.simps [of n])

lemma hexLower_facts:
  assumes "hexLower b"
  shows "\<not> isAsciiSpace b" "b \<noteq> 13" "b \<noteq> 10" "b \<noteq> 59" "b \<noteq> 45" "b \<noteq> 43" "lowerByte b \<noteq> 120"
  using assms by (auto simp: hexLower_def isAsciiSpace_def lowerByte_def word_le_nat_alt unat_arith_simps)

lemma toLongLong_plain:
  assumes "\<forall>b \<in> set xs. hexLower b" and "xs \<noteq> []" and "digitsFrom base 0 xs = Some v" and "int v < 2 ^ 63"
  shows "toLongLong base xs = Some (int v)"
proof -
  have "bytesTrimmed xs = xs"
    using assms(1) by (simp add: trimmed_plain hexLower_facts)
  moreover have "take 1 xs \<noteq> [45]" "take 1 xs \<noteq> [43]"
    using assms(1,2) hexLower_facts(5,6) by (cases xs; force)+
  moreover have "take 2 (bytesToLower xs) \<noteq> [48, 120]"
  proof
    assume "take 2 (bytesToLower xs) = [48, 120]"
    then have "120 \<in> set (bytesToLower xs)"
      by (metis in_set_takeD list.set_intros(1,2))
    then show False
      using assms(1) hexLower_facts(7) by (auto simp: bytesToLower_def)
  qed
  ultimately show ?thesis
    using assms(2,3,4) by (simp add: toLongLong_def Let_def unsignedVal_def rangeChecked_def)
qed

lemma toLongLong_hexNumber: "int n < 2 ^ 63 \<Longrightarrow> toLongLong 16 (hexNumber n) = Some (int n)"
  by (simp add: toLongLong_plain hexNumber_hexLower number_nonempty digitsFrom_hexNumber)

lemma toLongLong_dec: "int n < 2 ^ 63 \<Longrightarrow> toLongLong 10 (dec_digits n) = Some (int n)"
  by (simp add: toLongLong_plain dec_digits_hexLower number_nonempty digitsFrom_dec)

section \<open>Searching\<close>

lemma indexOf_skip:
  "p \<notin> set xs \<Longrightarrow> indexOf (p # ps) (xs @ zs) = map_option (\<lambda>i. length xs + i) (indexOf (p # ps) zs)"
proof (induction xs)
  case Nil
  then show ?case by (simp add: option.map_ident)
qed (cases "indexOf (p # ps) zs"; auto)

lemma indexOf_hit: "pat \<noteq> [] \<Longrightarrow> indexOf pat (pat @ zs) = Some 0"
  by (cases pat) auto

lemma indexOf_none: "p \<notin> set xs \<Longrightarrow> indexOf (p # ps) xs = None"
  using indexOf_skip [of p xs ps "[]"] by simp

lemma indexOf_bound: "indexOf pat xs = Some i \<Longrightarrow> i + length pat \<le> length xs \<and> take (length pat) (drop i xs) = pat"
proof (induction xs arbitrary: i)
  case (Cons x xs)
  show ?case
  proof (cases "take (length pat) (x # xs) = pat")
    case True
    then have "length pat \<le> length (x # xs)"
      by (metis length_take min_def nat_le_linear)
    with True Cons.prems show ?thesis by auto
  next
    case False
    with Cons show ?thesis by auto
  qed
qed (auto split: if_splits)

lemma indexOf_append: "indexOf pat xs = Some i \<Longrightarrow> indexOf pat (xs @ ys) = Some i"
proof (induction xs arbitrary: i)
  case (Cons x xs)
  show ?case
  proof (cases "take (length pat) (x # xs) = pat")
    case True
    then have "length pat \<le> length (x # xs)"
      by (metis length_take min_def nat_le_linear)
    with True have "take (length pat) ((x # xs) @ ys) = pat"
      by (simp del: append_Cons)
    with True Cons.prems show ?thesis by simp
  next
    case False
    with Cons.prems obtain j where j: "indexOf pat xs = Some j" "i = Suc j" by auto
    have "Suc (length xs) \<ge> length pat"
      using indexOf_bound [OF j(1)] by simp
    with False have "take (length pat) (x # xs @ ys) \<noteq> pat"
      by (simp flip: append_Cons)
    with Cons.IH [OF j(1)] j(2) show ?thesis by simp
  qed
qed (cases ys; auto split: if_splits)

lemma indexOf_crlf: "13 \<notin> set xs \<Longrightarrow> indexOf crlf (xs @ crlf @ ys) = Some (length xs)"
  using indexOf_skip [of 13 xs "[10]" "crlf @ ys"] indexOf_hit [of crlf ys] by (simp add: crlf_def)

section \<open>Chunks\<close>

definition encodeChunk :: "bytes \<Rightarrow> bytes" where
  "encodeChunk d = hexNumber (length d) @ crlf @ d @ crlf"

definition encodeChunks :: "bytes list \<Rightarrow> bytes" where
  "encodeChunks ds = concat (map encodeChunk ds) @ [48] @ crlf @ crlf"

lemma chunkSize_number:
  assumes "rp_readingChunkSize r" and "rp_responseBuffer r = hexNumber k @ crlf @ rest" and "int k < 2 ^ 63"
  shows "chunkSize r =
    (if k = 0 then Inl (r\<lparr>rp_responseBuffer := rest, rp_currentChunkRemaining := 0\<rparr>, Finish [])
     else Inr (r\<lparr>rp_responseBuffer := rest, rp_currentChunkRemaining := int k, rp_readingChunkSize := False\<rparr>))"
proof -
  have h: "13 \<notin> set (hexNumber k)" "59 \<notin> set (hexNumber k)"
    using hexNumber_hexLower [of k] hexLower_facts(2,4) by blast+
  have "indexOf [59] (hexNumber k) = None"
    using h(2) by (rule indexOf_none)
  moreover have "drop (length (hexNumber k) + 2) (hexNumber k @ crlf @ rest) = rest"
    by (simp add: crlf_def)
  ultimately show ?thesis
    using assms h by (simp add: chunkSize_def chunkLine_def Let_def indexOf_crlf toLongLong_hexNumber)
qed

lemma chunkData_whole:
  assumes "rp_responseBuffer r = d @ crlf @ rest" and "rp_currentChunkRemaining r = int (length d)" and "d \<noteq> []"
    and "bodyLen r + int (length d) \<le> kWsmanMaxBodyBytes"
  shows "chunkData r = Inr (r\<lparr>rp_body := rp_body r @ d, rp_responseBuffer := rest, rp_currentChunkRemaining := 0,
           rp_readingChunkSize := True\<rparr>)"
  using assms by (cases r) (simp add: chunkData_def Let_def takeBody_def bufferLen_def bodyLen_def crlf_def)

lemma chunkLoop_encode:
  assumes "rp_readingChunkSize r" and "rp_responseBuffer r = encodeChunks ds @ rest" and "[] \<notin> set ds"
    and "bodyLen r + int (length (concat ds)) \<le> kWsmanMaxBodyBytes"
  shows "\<exists>r'. chunkLoop r = (r', Finish []) \<and> rp_body r' = rp_body r @ concat ds"
  using assms
proof (induction ds arbitrary: r)
  case Nil
  have "hexNumber 0 = [48]"
    by (simp add: hexNumber.simps hex_digit_def)
  with Nil have "chunkSize r = Inl (r\<lparr>rp_responseBuffer := crlf @ rest, rp_currentChunkRemaining := 0\<rparr>, Finish [])"
    using chunkSize_number [of r 0 "crlf @ rest"] by (simp add: encodeChunks_def)
  then show ?case by (simp add: chunkLoop.simps [of r])
next
  case (Cons d ds)
  let ?tail = "d @ crlf @ encodeChunks ds @ rest"
  let ?r1 = "r\<lparr>rp_responseBuffer := ?tail, rp_currentChunkRemaining := int (length d), rp_readingChunkSize := False\<rparr>"
  let ?r2 = "r\<lparr>rp_responseBuffer := encodeChunks ds @ rest, rp_currentChunkRemaining := 0, rp_readingChunkSize := True,
                 rp_body := rp_body r @ d\<rparr>"
  have d: "d \<noteq> []" "bodyLen r + int (length d) \<le> kWsmanMaxBodyBytes" "int (length d) < 2 ^ 63"
    using Cons.prems(3,4) by (auto simp: bodyLen_def kWsmanMaxBodyBytes_def)
  have 1: "chunkSize r = Inr ?r1"
    using chunkSize_number [of r "length d" ?tail] Cons.prems(1,2) d by (simp add: encodeChunks_def encodeChunk_def)
  have 2: "chunkData ?r1 = Inr ?r2"
    using chunkData_whole [of ?r1 d "encodeChunks ds @ rest"] d by (cases r) (simp add: bodyLen_def)
  have "\<exists>r'. chunkLoop ?r2 = (r', Finish []) \<and> rp_body r' = rp_body ?r2 @ concat ds"
    using Cons.prems(3,4) by (intro Cons.IH) (auto simp: bodyLen_def)
  then show ?case
    using 1 2 by (simp add: chunkLoop.simps [of r])
qed

section \<open>More bytes\<close>

text \<open>A reply with more bytes behind its buffer.\<close>

definition feedReply :: "bytes \<Rightarrow> wsman_reply \<Rightarrow> wsman_reply" where
  "feedReply b r = r\<lparr>rp_responseBuffer := rp_responseBuffer r @ b\<rparr>"

definition fits :: "bytes \<Rightarrow> wsman_reply \<Rightarrow> bool" where
  "fits b r \<longleftrightarrow> bodyLen r + bufferLen r + int (length b) \<le> kWsmanMaxBodyBytes"

lemma feedReply_fields [simp]:
  "rp_state (feedReply b r) = rp_state r" "rp_expectedBody (feedReply b r) = rp_expectedBody r"
  "rp_responseBuffer (feedReply b r) = rp_responseBuffer r @ b" "rp_body (feedReply b r) = rp_body r"
  "rp_readingChunkSize (feedReply b r) = rp_readingChunkSize r"
  "rp_currentChunkRemaining (feedReply b r) = rp_currentChunkRemaining r"
  by (simp_all add: feedReply_def)

lemma feedReply_nil [simp]: "feedReply [] r = r"
  by (cases r) (simp add: feedReply_def)

lemma feedReply_append: "feedReply c (feedReply b r) = feedReply (b @ c) r"
  by (simp add: feedReply_def)

text \<open>What a function of the loop decided for the short buffer stands for the long one.\<close>

lemma chunkLine_feed:
  "chunkLine line (feedReply b r) =
     (case chunkLine line r of Inl (q, v) \<Rightarrow> Inl (feedReply b q, v) | Inr q \<Rightarrow> Inr (feedReply b q))"
  by (simp add: chunkLine_def Let_def feedReply_def split: option.splits)

lemma chunkLine_decides: "chunkLine line r \<noteq> Inl (q, More)"
  by (simp add: chunkLine_def Let_def split: option.splits)

lemma chunkSize_line_feed:
  assumes "indexOf crlf (rp_responseBuffer r) = Some k" and "rp_readingChunkSize r"
  shows "chunkSize (feedReply b r) =
    chunkLine (take k (rp_responseBuffer r)) (feedReply b (r\<lparr>rp_responseBuffer := drop (k + 2) (rp_responseBuffer r)\<rparr>))"
proof -
  have "k + 2 \<le> length (rp_responseBuffer r)"
    using indexOf_bound [OF assms(1)] by (simp add: crlf_def)
  moreover have "indexOf crlf (rp_responseBuffer r @ b) = Some k"
    using assms(1) by (rule indexOf_append)
  ultimately show ?thesis
    using assms(2) by (simp add: chunkSize_def) (simp add: feedReply_def)
qed

lemma chunkSize_cases:
  "\<not> rp_readingChunkSize r \<Longrightarrow> chunkSize r = Inr r"
  "rp_readingChunkSize r \<Longrightarrow> indexOf crlf (rp_responseBuffer r) = None \<Longrightarrow> chunkSize r = Inl (r, More)"
  "rp_readingChunkSize r \<Longrightarrow> indexOf crlf (rp_responseBuffer r) = Some k \<Longrightarrow>
     chunkSize r = chunkLine (take k (rp_responseBuffer r)) (r\<lparr>rp_responseBuffer := drop (k + 2) (rp_responseBuffer r)\<rparr>)"
  by (simp_all add: chunkSize_def)

lemma chunkSize_feed:
  shows "chunkSize r = Inr r1 \<Longrightarrow> chunkSize (feedReply b r) = Inr (feedReply b r1)"
    and "chunkSize r = Inl (r1, Finish e) \<Longrightarrow> chunkSize (feedReply b r) = Inl (feedReply b r1, Finish e)"
    and "chunkSize r = Inl (r1, More) \<Longrightarrow> r1 = r"
proof -
  show "chunkSize r = Inr r1 \<Longrightarrow> chunkSize (feedReply b r) = Inr (feedReply b r1)"
    by (cases "rp_readingChunkSize r"; cases "indexOf crlf (rp_responseBuffer r)")
      (simp_all add: chunkSize_line_feed chunkLine_feed chunkSize_cases)
  show "chunkSize r = Inl (r1, Finish e) \<Longrightarrow> chunkSize (feedReply b r) = Inl (feedReply b r1, Finish e)"
    by (cases "rp_readingChunkSize r"; cases "indexOf crlf (rp_responseBuffer r)")
      (simp_all add: chunkSize_line_feed chunkLine_feed chunkSize_cases)
  show "chunkSize r = Inl (r1, More) \<Longrightarrow> r1 = r"
    by (simp add: chunkSize_def chunkLine_decides split: if_splits option.splits)
qed

lemma fits_room: "fits b r \<Longrightarrow> k \<le> bufferLen r + int (length b) \<Longrightarrow> \<not> bodyLen r + k > kWsmanMaxBodyBytes"
  by (simp add: fits_def)

lemma bufferLen_feed [simp]: "bufferLen (feedReply b r) = bufferLen r + int (length b)" "bodyLen (feedReply b r) = bodyLen r"
  by (simp_all add: bufferLen_def bodyLen_def)

lemma takeBody_feed: "k \<le> bufferLen r \<Longrightarrow> takeBody k (feedReply b r) = feedReply b (takeBody k r)"
  by (cases r) (simp add: takeBody_def feedReply_def bufferLen_def nat_le_iff)

lemma chunkData_Inr_feed:
  assumes "chunkData r = Inr r1"
  shows "chunkData (feedReply b r) = Inr (feedReply b r1)"
proof -
  let ?k = "rp_currentChunkRemaining r"
  from assms have ne: "rp_responseBuffer r \<noteq> []" and k: "min ?k (bufferLen r) = ?k" "?k \<le> bufferLen r"
    by (auto simp: chunkData_def Let_def takeBody_def split: if_splits)
  then have min: "min ?k (bufferLen (feedReply b r)) = ?k"
    by simp
  have "\<not> bodyLen r + ?k > kWsmanMaxBodyBytes" "\<not> bufferLen (takeBody ?k r) < 2"
      "r1 = (takeBody ?k r)\<lparr>rp_currentChunkRemaining := 0, rp_responseBuffer := drop 2 (rp_responseBuffer (takeBody ?k r)),
          rp_readingChunkSize := True\<rparr>"
    using assms ne k by (auto simp: chunkData_def Let_def bufferLen_def split: if_splits)
  moreover have "drop 2 (rp_responseBuffer (takeBody ?k r) @ b) = drop 2 (rp_responseBuffer (takeBody ?k r)) @ b"
    using calculation(2) by (simp add: bufferLen_def)
  ultimately show ?thesis
    using ne min k by (simp add: chunkData_def Let_def takeBody_feed) (simp add: feedReply_def bufferLen_def)
qed

text \<open>Taking what is there and then the rest is taking it all.\<close>

lemma takeBody_twice:
  assumes "0 \<le> j"
  shows "takeBody j (feedReply b (takeBody (bufferLen r) r)) = takeBody (bufferLen r + j) (feedReply b r)"
  using assms by (cases r) (simp add: takeBody_def feedReply_def bufferLen_def nat_add_distrib)

text \<open>Two replies that agree after the data is taken go on alike.\<close>

lemma chunkData_cong:
  assumes "rp_responseBuffer r \<noteq> []" and "rp_responseBuffer r' \<noteq> []"
    and "k = min (rp_currentChunkRemaining r) (bufferLen r)" and "k' = min (rp_currentChunkRemaining r') (bufferLen r')"
    and "\<not> bodyLen r + k > kWsmanMaxBodyBytes" and "\<not> bodyLen r' + k' > kWsmanMaxBodyBytes"
    and "(takeBody k r)\<lparr>rp_currentChunkRemaining := rp_currentChunkRemaining r - k\<rparr>
           = (takeBody k' r')\<lparr>rp_currentChunkRemaining := rp_currentChunkRemaining r' - k'\<rparr>"
  shows "chunkData r = chunkData r'"
  using assms(1,2,5,6) by (simp only: chunkData_def Let_def assms(3,4) [symmetric] assms(7) if_False)

lemma readSized_cong:
  assumes "0 < rp_expectedBody r - bodyLen r" and "0 < rp_expectedBody r' - bodyLen r'" and "rp_expectedBody r' = rp_expectedBody r"
    and "takeBody (min (rp_expectedBody r - bodyLen r) (bufferLen r)) r = takeBody (min (rp_expectedBody r' - bodyLen r') (bufferLen r')) r'"
  shows "readSized r = readSized r'"
  using assms by (simp add: readSized_def Let_def)

lemma chunkData_More_feed:
  assumes "chunkData r = Inl (r1, More)" and "fits b r" and "0 \<le> rp_currentChunkRemaining r"
  shows "chunkData (feedReply b r) = chunkData (feedReply b r1)"
proof (cases "rp_responseBuffer r = []")
  case True
  with assms(1) show ?thesis by (simp add: chunkData_def)
next
  case ne: False
  let ?k = "rp_currentChunkRemaining r" and ?l = "int (length b)"
  have room: "\<not> bodyLen r + min ?k (bufferLen r) > kWsmanMaxBodyBytes" "\<not> bodyLen r + min ?k (bufferLen r + ?l) > kWsmanMaxBodyBytes"
    by (rule fits_room [OF assms(2)]; simp)+
  show ?thesis
  proof (cases "?k \<le> bufferLen r")
    case True
    then have r1: "r1 = (takeBody ?k r)\<lparr>rp_currentChunkRemaining := 0\<rparr>" "bufferLen (takeBody ?k r) < 2"
      using assms(1) ne room by (auto simp: chunkData_def Let_def bufferLen_def min_def split: if_splits)
    have body1: "bodyLen (takeBody ?k r) = bodyLen r + ?k"
      using True assms(3) by (simp add: bodyLen_takeBody)
    have "takeBody 0 q = q" for q
      by (cases q) (simp add: takeBody_def)
    moreover have "rp_responseBuffer (takeBody ?k r) @ b = [] \<Longrightarrow> bufferLen (takeBody ?k r) + ?l < 2"
      by (simp add: bufferLen_def)
    moreover have "feedReply b ((takeBody ?k r)\<lparr>rp_currentChunkRemaining := 0\<rparr>) = (feedReply b (takeBody ?k r))\<lparr>rp_currentChunkRemaining := 0\<rparr>"
      by (simp add: feedReply_def)
    ultimately show ?thesis
      using True ne room r1 body1 assms(3)
      by (auto simp: chunkData_def Let_def takeBody_feed bufferLen_def bodyLen_def)
  next
    case False
    let ?j = "min (?k - bufferLen r) ?l"
    have r1: "r1 = (takeBody (bufferLen r) r)\<lparr>rp_currentChunkRemaining := ?k - bufferLen r\<rparr>"
      using assms(1) ne room False by (auto simp: chunkData_def Let_def bufferLen_def split: if_splits)
    have 1: "min ?k (bufferLen r + ?l) = bufferLen r + ?j" "0 \<le> ?j" "?k - (bufferLen r + ?j) = ?k - bufferLen r - ?j"
      using False by auto
    have 2: "feedReply b (q\<lparr>rp_currentChunkRemaining := m\<rparr>) = (feedReply b q)\<lparr>rp_currentChunkRemaining := m\<rparr>" for q m
      by (simp add: feedReply_def)
    have 3: "takeBody j (q\<lparr>rp_currentChunkRemaining := m\<rparr>) = (takeBody j q)\<lparr>rp_currentChunkRemaining := m\<rparr>" for j q m
      by (simp add: takeBody_def)
    have 4: "rp_responseBuffer (takeBody (bufferLen r) r) = []" "bodyLen (takeBody (bufferLen r) r) = bodyLen r + bufferLen r"
      by (simp_all add: takeBody_def bufferLen_def bodyLen_def)
    show ?thesis
    proof (cases "b = []")
      case True
      with assms(1) r1 4 show ?thesis
        by (simp add: chunkData_def [of "(takeBody (bufferLen r) r)\<lparr>rp_currentChunkRemaining := _\<rparr>"])
    next
      case False
      have buf: "bufferLen (takeBody (bufferLen r) r) = 0"
        using 4(1) by (simp add: bufferLen_def)
      show ?thesis
      proof (rule chunkData_cong)
        show "rp_responseBuffer (feedReply b r) \<noteq> []" "rp_responseBuffer (feedReply b r1) \<noteq> []"
          using False by simp_all
        show "bufferLen r + ?j = min (rp_currentChunkRemaining (feedReply b r)) (bufferLen (feedReply b r))"
          using 1(1) by simp
        show "?j = min (rp_currentChunkRemaining (feedReply b r1)) (bufferLen (feedReply b r1))"
          using r1 4(1) by (simp add: bufferLen_def)
        show "\<not> bodyLen (feedReply b r) + (bufferLen r + ?j) > kWsmanMaxBodyBytes"
          using room(2) 1(1) by simp
        show "\<not> bodyLen (feedReply b r1) + ?j > kWsmanMaxBodyBytes"
          using room(2) 1(1) r1 4(2) by (simp add: bodyLen_def)
        show "(takeBody (bufferLen r + ?j) (feedReply b r))\<lparr>rp_currentChunkRemaining := rp_currentChunkRemaining (feedReply b r) - (bufferLen r + ?j)\<rparr>
            = (takeBody ?j (feedReply b r1))\<lparr>rp_currentChunkRemaining := rp_currentChunkRemaining (feedReply b r1) - ?j\<rparr>"
          using 1(3) takeBody_twice [OF 1(2), of b r] by (simp add: 2 3 r1)
      qed
    qed
  qed
qed

text \<open>The loop never sees a negative remainder.\<close>

definition nonneg :: "wsman_reply \<Rightarrow> bool" where
  "nonneg r \<longleftrightarrow> rp_readingChunkSize r \<or> 0 \<le> rp_currentChunkRemaining r"

lemma chunkSize_nonneg: "chunkSize r = Inr r1 \<Longrightarrow> nonneg r \<Longrightarrow> 0 \<le> rp_currentChunkRemaining r1 \<and> \<not> rp_readingChunkSize r1"
  by (auto simp: chunkSize_def chunkLine_def nonneg_def Let_def split: if_splits option.splits)

lemma chunkSize_fits: "chunkSize r = Inr r1 \<Longrightarrow> fits b r \<Longrightarrow> fits b r1"
  using chunkSize_edit(2) [of r r1] chunkSize_shrinks [of r r1] by (simp add: fits_def bodyLen_def bufferLen_def)

lemma chunkData_fits:
  assumes "chunkData r = Inr r1" and "fits b r" and "0 \<le> rp_currentChunkRemaining r"
  shows "fits b r1 \<and> nonneg r1"
  using assms by (auto simp: chunkData_def Let_def takeBody_def fits_def bodyLen_def bufferLen_def nonneg_def split: if_splits)

lemma chunkData_More_shape: "chunkData r = Inl (r1, More) \<Longrightarrow> rp_readingChunkSize r1 = rp_readingChunkSize r"
  by (auto simp: chunkData_def Let_def takeBody_def split: if_splits)

lemma chunkData_no_finish: "fits b r \<Longrightarrow> chunkData r \<noteq> Inl (r1, Finish e)"
  by (auto simp: chunkData_def Let_def fits_def bodyLen_def bufferLen_def)

lemma chunkLoop_feed:
  assumes "fits b r" and "nonneg r"
  shows "chunkLoop r = (r1, More) \<Longrightarrow> chunkLoop (feedReply b r) = chunkLoop (feedReply b r1)"
    and "chunkLoop r = (r1, Finish e) \<Longrightarrow> chunkLoop (feedReply b r) = (feedReply b r1, Finish e)"
  using assms
proof (induction r rule: chunkLoop.induct)
  case (1 r)
  { case 1
    show ?case
    proof (cases "chunkSize r")
      case (Inl p)
      with 1 chunkSize_feed(3) [of r r1] show ?thesis by (simp add: chunkLoop.simps [of r])
    next
      case (Inr q)
      note q = chunkSize_feed(1) [OF Inr, of b] chunkSize_nonneg [OF Inr 1(3)] chunkSize_fits [OF Inr 1(2)]
      show ?thesis
      proof (cases "chunkData q")
        case (Inl p)
        with 1(1) Inr have p: "chunkData q = Inl (r1, More)" by (simp add: chunkLoop.simps [of r])
        then have "chunkSize (feedReply b r1) = Inr (feedReply b r1)"
          using q(2) chunkData_More_shape [OF p] by (simp add: chunkSize_def)
        then show ?thesis
          using q chunkData_More_feed [OF p q(3)]
          by (simp add: chunkLoop.simps [of "feedReply b r"] chunkLoop.simps [of "feedReply b r1"])
      next
        case Inr': (Inr q')
        have "chunkLoop (feedReply b q') = chunkLoop (feedReply b r1)"
          using "1.IH"(1) [OF Inr Inr'] 1(1) Inr Inr' chunkData_fits [OF Inr' q(3)] q(2)
          by (simp add: chunkLoop.simps [of r])
        then show ?thesis
          using q(1) chunkData_Inr_feed [OF Inr', of b] by (simp add: chunkLoop.simps [of "feedReply b r"])
      qed
    qed
  next
    case 2
    show ?case
    proof (cases "chunkSize r")
      case (Inl p)
      with 2 chunkSize_feed(2) [of r r1 e b] show ?thesis
        by (simp add: chunkLoop.simps [of r] chunkLoop.simps [of "feedReply b r"])
    next
      case (Inr q)
      note q = chunkSize_feed(1) [OF Inr, of b] chunkSize_nonneg [OF Inr 2(3)] chunkSize_fits [OF Inr 2(2)]
      show ?thesis
      proof (cases "chunkData q")
        case (Inl p)
        with 2(1) Inr have "chunkData q = Inl (r1, Finish e)" by (simp add: chunkLoop.simps [of r])
        with chunkData_no_finish [OF q(3), of r1 e] show ?thesis by simp
      next
        case Inr': (Inr q')
        have "chunkLoop (feedReply b q') = (feedReply b r1, Finish e)"
          using "1.IH"(2) [OF Inr Inr'] 2(1) Inr Inr' chunkData_fits [OF Inr' q(3)] q(2)
          by (simp add: chunkLoop.simps [of r])
        then show ?thesis
          using q(1) chunkData_Inr_feed [OF Inr', of b] by (simp add: chunkLoop.simps [of "feedReply b r"])
      qed
    qed
  }
qed

lemma readSized_feed:
  shows "readSized r = (r1, More) \<Longrightarrow> readSized (feedReply b r) = readSized (feedReply b r1)"
    and "readSized r = (r1, Finish e) \<Longrightarrow> readSized (feedReply b r) = (feedReply b r1, Finish e)"
proof -
  let ?need = "rp_expectedBody r - bodyLen r"
  assume m: "readSized r = (r1, More)"
  then have need: "bufferLen r < ?need" "r1 = takeBody (bufferLen r) r"
    by (auto simp: readSized_def Let_def takeBody_def bodyLen_def bufferLen_def min_def split: if_splits)
  let ?j = "min (?need - bufferLen r) (int (length b))"
  have 1: "bodyLen r1 = bodyLen r + bufferLen r" "bufferLen r1 = 0" "rp_expectedBody r1 = rp_expectedBody r"
    using need(2) by (simp_all add: takeBody_def bodyLen_def bufferLen_def)
  have 2: "min ?need (bufferLen r + int (length b)) = bufferLen r + ?j" "0 \<le> ?j" "rp_expectedBody r - (bodyLen r + bufferLen r) = ?need - bufferLen r"
    using need(1) by auto
  show "readSized (feedReply b r) = readSized (feedReply b r1)"
  proof (rule readSized_cong)
    have 3: "min (rp_expectedBody (feedReply b r) - bodyLen (feedReply b r)) (bufferLen (feedReply b r)) = bufferLen r + ?j"
      "min (rp_expectedBody (feedReply b r1) - bodyLen (feedReply b r1)) (bufferLen (feedReply b r1)) = ?j"
      using 1 2(1,3) by simp_all
    show "takeBody (min (rp_expectedBody (feedReply b r) - bodyLen (feedReply b r)) (bufferLen (feedReply b r))) (feedReply b r)
        = takeBody (min (rp_expectedBody (feedReply b r1) - bodyLen (feedReply b r1)) (bufferLen (feedReply b r1))) (feedReply b r1)"
      unfolding 3 unfolding need(2) by (rule takeBody_twice [OF 2(2), symmetric])
  qed (use need(1) 1 in \<open>simp_all add: bufferLen_def\<close>)
next
  let ?need = "rp_expectedBody r - bodyLen r"
  assume f: "readSized r = (r1, Finish e)"
  show "readSized (feedReply b r) = (feedReply b r1, Finish e)"
  proof (cases "?need \<le> 0")
    case True
    with f show ?thesis by (simp add: readSized_def)
  next
    case False
    with f have "?need \<le> bufferLen r" "r1 = takeBody ?need r" "e = []" "bodyLen r1 \<ge> rp_expectedBody r"
      by (auto simp: readSized_def Let_def takeBody_def bodyLen_def bufferLen_def min_def split: if_splits)
    with False show ?thesis
      by (simp add: readSized_def [of "feedReply b r"] Let_def takeBody_feed)
  qed
qed

lemma readToClose_feed:
  assumes "fits b r"
  shows "readToClose True r = (r1, More) \<Longrightarrow> readToClose True (feedReply b r) = readToClose True (feedReply b r1)"
    and "readToClose True r \<noteq> (r1, Finish e)"
proof -
  have "\<not> bodyLen r + bufferLen r > kWsmanMaxBodyBytes"
    using assms by (simp add: fits_def)
  then show "readToClose True r \<noteq> (r1, Finish e)"
    by (simp add: readToClose_def)
  have "takeBody (int (length b)) (feedReply b (takeBody (bufferLen r) r)) = takeBody (bufferLen r + int (length b)) (feedReply b r)"
    by (rule takeBody_twice) simp
  moreover have "bodyLen (takeBody (bufferLen r) r) = bodyLen r + bufferLen r" "bufferLen (takeBody (bufferLen r) r) = 0"
    by (simp_all add: takeBody_def bodyLen_def bufferLen_def)
  ultimately show "readToClose True r = (r1, More) \<Longrightarrow> readToClose True (feedReply b r) = readToClose True (feedReply b r1)"
    using assms by (auto simp: readToClose_def fits_def split: if_splits)
qed

lemma read_same:
  "rp_state (fst (readSized r)) = rp_state r" "rp_expectedBody (fst (readSized r)) = rp_expectedBody r"
  "rp_state (fst (readToClose c r)) = rp_state r" "rp_expectedBody (fst (readToClose c r)) = rp_expectedBody r"
  by (simp_all add: readSized_def readToClose_def takeBody_def Let_def)

lemma readBody_same:
  assumes "capped r"
  shows "rp_state (fst (readBody c r)) = rp_state r" "rp_expectedBody (fst (readBody c r)) = rp_expectedBody r"
proof -
  have "bodyEdit r (fst (chunkLoop r))"
    using chunkLoop_edit [OF surjective_pairing assms] by simp
  then show "rp_state (fst (readBody c r)) = rp_state r" "rp_expectedBody (fst (readBody c r)) = rp_expectedBody r"
    by (simp_all add: readBody_def read_same bodyEdit_fields)
qed

lemma readBody_feed:
  assumes "fits b r" and "nonneg r"
  shows "readBody True r = (r1, More) \<Longrightarrow> readBody True (feedReply b r) = readBody True (feedReply b r1)"
    and "readBody True r = (r1, Finish e) \<Longrightarrow> readBody True (feedReply b r) = (feedReply b r1, Finish e)"
proof -
  have cap: "capped r"
    using assms(1) by (simp add: capped_def fits_def bufferLen_def)
  consider (close) "rp_state r = R_ReadingBodyContentLength" "rp_expectedBody r = -2"
    | (sized) "rp_state r = R_ReadingBodyContentLength" "rp_expectedBody r \<noteq> -2"
    | (chunked) "rp_state r = R_ReadingBodyChunked"
    | (other) "rp_state r \<noteq> R_ReadingBodyContentLength" "rp_state r \<noteq> R_ReadingBodyChunked"
    by blast
  note mode = this
  { assume m: "readBody True r = (r1, More)"
    have same: "rp_state r1 = rp_state r" "rp_expectedBody r1 = rp_expectedBody r"
      using m readBody_same [OF cap, of True] by simp_all
    from mode show "readBody True (feedReply b r) = readBody True (feedReply b r1)"
    proof cases
      case close
      with m have "readToClose True r = (r1, More)" by (simp add: readBody_def)
      from readToClose_feed(1) [OF assms(1) this] close same show ?thesis by (simp add: readBody_def)
    next
      case sized
      with m have "readSized r = (r1, More)" by (simp add: readBody_def)
      from readSized_feed(1) [OF this] sized same show ?thesis by (simp add: readBody_def)
    next
      case chunked
      with m have "chunkLoop r = (r1, More)" by (simp add: readBody_def)
      from chunkLoop_feed(1) [OF assms this] chunked same show ?thesis by (simp add: readBody_def)
    qed (use m in \<open>simp add: readBody_def\<close>)
  }
  assume f: "readBody True r = (r1, Finish e)"
  from mode show "readBody True (feedReply b r) = (feedReply b r1, Finish e)"
  proof cases
    case close
    with f readToClose_feed(2) [OF assms(1), of r1 e] show ?thesis by (simp add: readBody_def)
  next
    case sized
    with f have "readSized r = (r1, Finish e)" by (simp add: readBody_def)
    from readSized_feed(2) [OF this] sized show ?thesis by (simp add: readBody_def)
  next
    case chunked
    with f have "chunkLoop r = (r1, Finish e)" by (simp add: readBody_def)
    from chunkLoop_feed(2) [OF assms this] chunked show ?thesis by (simp add: readBody_def)
  qed (use f in \<open>simp add: readBody_def\<close>)
qed

section \<open>Any way of cutting\<close>

lemma chooseBody_feed: "chooseBody (feedReply b r) = (feedReply b (fst (chooseBody r)), snd (chooseBody r))"
  by (simp add: chooseBody_def Let_def feedReply_def)

text \<open>The reply after its header block, with what follows the block in the buffer.\<close>

definition afterHeaders :: "wsman_reply \<Rightarrow> nat \<Rightarrow> int \<Rightarrow> (bytes \<rightharpoonup> bytes) \<Rightarrow> wsman_reply" where
  "afterHeaders r e status hs =
     r\<lparr>rp_responseBuffer := drop (e + 4) (rp_responseBuffer r), rp_httpStatus := status, rp_responseHeaders := hs\<rparr>"

lemma readHeaders_block:
  assumes "indexOf headersEnd (rp_responseBuffer r) = Some e"
  shows "readHeaders conn r =
    (case parseHeaders (take e (rp_responseBuffer r)) of
       Inl err \<Rightarrow> (r\<lparr>rp_responseBuffer := drop (e + 4) (rp_responseBuffer r)\<rparr>, Finish (blit err))
     | Inr (status, hs) \<Rightarrow>
         if status = 401 then (afterHeaders r e status hs, Challenged)
         else if snd (chooseBody (afterHeaders r e status hs)) = More
         then readBody conn (fst (chooseBody (afterHeaders r e status hs))) else chooseBody (afterHeaders r e status hs))"
  using assms by (simp add: readHeaders_def Let_def afterHeaders_def split: sum.splits prod.splits)

lemma headersEnd_feed:
  assumes "indexOf headersEnd (rp_responseBuffer r) = Some e"
  shows "indexOf headersEnd (rp_responseBuffer (feedReply b r)) = Some e"
    "take e (rp_responseBuffer (feedReply b r)) = take e (rp_responseBuffer r)"
    "afterHeaders (feedReply b r) e status hs = feedReply b (afterHeaders r e status hs)"
    "(feedReply b r)\<lparr>rp_responseBuffer := drop (e + 4) (rp_responseBuffer (feedReply b r))\<rparr>
       = feedReply b (r\<lparr>rp_responseBuffer := drop (e + 4) (rp_responseBuffer r)\<rparr>)"
  using indexOf_append [OF assms, of b] indexOf_bound [OF assms]
  by (simp_all add: headersEnd_def crlf_def afterHeaders_def feedReply_def)

lemma readHeaders_block_feed:
  assumes "indexOf headersEnd (rp_responseBuffer r) = Some e"
  shows "readHeaders conn (feedReply b r) =
    (case parseHeaders (take e (rp_responseBuffer r)) of
       Inl err \<Rightarrow> (feedReply b (r\<lparr>rp_responseBuffer := drop (e + 4) (rp_responseBuffer r)\<rparr>), Finish (blit err))
     | Inr (status, hs) \<Rightarrow>
         if status = 401 then (feedReply b (afterHeaders r e status hs), Challenged)
         else if snd (chooseBody (afterHeaders r e status hs)) = More
         then readBody conn (feedReply b (fst (chooseBody (afterHeaders r e status hs))))
         else (feedReply b (fst (chooseBody (afterHeaders r e status hs))), snd (chooseBody (afterHeaders r e status hs))))"
  by (simp only: readHeaders_block [OF headersEnd_feed(1) [OF assms]] headersEnd_feed(2-4) [OF assms] chooseBody_feed
      fst_conv snd_conv)

lemma chosen_fits:
  assumes "indexOf headersEnd (rp_responseBuffer r) = Some e" and "fits b r" and "nonneg r"
  shows "fits b (fst (chooseBody (afterHeaders r e status hs)))" "nonneg (fst (chooseBody (afterHeaders r e status hs)))"
proof -
  have "fits b (afterHeaders r e status hs)" "nonneg (afterHeaders r e status hs)"
    using assms by (auto simp: fits_def afterHeaders_def bodyLen_def bufferLen_def nonneg_def)
  then show "fits b (fst (chooseBody (afterHeaders r e status hs)))" "nonneg (fst (chooseBody (afterHeaders r e status hs)))"
    by (simp_all add: chooseBody_def Let_def fits_def bodyLen_def bufferLen_def nonneg_def)
qed

lemma chooseBody_state: "rp_state (fst (chooseBody r)) \<noteq> R_ReadingHeaders"
  by (simp add: chooseBody_def Let_def)

lemma readBody_state:
  assumes "readBody conn r = (r1, v)" and "capped r"
  shows "rp_state r1 = rp_state r"
  using assms readBody_same(1) [of r conn] by simp

lemma fits_capped: "fits b r \<Longrightarrow> capped r"
  by (simp add: capped_def fits_def bufferLen_def)

lemma readPass_state: "rp_state r \<noteq> R_ReadingHeaders \<Longrightarrow> readPass True b r = readBody True (feedReply b r)"
  by (simp add: readPass_def feedReply_def Let_def)

lemma readPass_headers: "rp_state r = R_ReadingHeaders \<Longrightarrow> readPass True b r = readHeaders True (feedReply b r)"
  by (simp add: readPass_def feedReply_def Let_def)

lemma readHeaders_feed:
  assumes "fits b r" and "nonneg r" and "rp_state r = R_ReadingHeaders"
  shows "readHeaders True r = (r1, More) \<Longrightarrow> readHeaders True (feedReply b r) = readPass True b r1"
    and "readHeaders True r = (r1, v) \<Longrightarrow> v \<noteq> More \<Longrightarrow> readHeaders True (feedReply b r) = (feedReply b r1, v)"
proof -
  have "(readHeaders True r = (r1, More) \<longrightarrow> readHeaders True (feedReply b r) = readPass True b r1) \<and>
    (readHeaders True r = (r1, v) \<longrightarrow> v \<noteq> More \<longrightarrow> readHeaders True (feedReply b r) = (feedReply b r1, v))"
  proof (cases "indexOf headersEnd (rp_responseBuffer r)")
    case None
    then show ?thesis
      using assms(3) by (auto simp: readHeaders_def [of True r] readPass_headers)
  next
    case (Some e)
    note hf = readHeaders_block_feed [OF Some, of True b]
    show ?thesis
    proof (cases "parseHeaders (take e (rp_responseBuffer r))")
      case (Inl err)
      then show ?thesis
        using readHeaders_block [OF Some, of True] hf by auto
    next
      case (Inr sh)
      obtain status hs where sh: "sh = (status, hs)" by (cases sh)
      let ?a = "afterHeaders r e status hs"
      let ?q = "fst (chooseBody ?a)"
      have r: "readHeaders True r = (if status = 401 then (?a, Challenged) else if snd (chooseBody ?a) = More then readBody True ?q else chooseBody ?a)"
        using readHeaders_block [OF Some, of True] Inr sh by simp
      have fr: "readHeaders True (feedReply b r) = (if status = 401 then (feedReply b ?a, Challenged)
          else if snd (chooseBody ?a) = More then readBody True (feedReply b ?q) else (feedReply b ?q, snd (chooseBody ?a)))"
        using Inr sh hf by simp
      note q = chosen_fits [OF Some assms(1,2), of status hs]
      have "rp_state r1 \<noteq> R_ReadingHeaders" if "readBody True ?q = (r1, More)"
        using readBody_state [OF that fits_capped [OF q(1)]] chooseBody_state [of ?a] by simp
      moreover have "v \<noteq> Challenged" if "readBody True ?q = (r1, v)"
        using that chunkLoop_verdict [of ?q] by (auto simp: readBody_def readToClose_def readSized_def Let_def split: if_splits)
      ultimately show ?thesis
        using r fr readBody_feed [OF q, of r1] by (cases v) (auto simp: readPass_state prod_eq_iff)
    qed
  qed
  then show "readHeaders True r = (r1, More) \<Longrightarrow> readHeaders True (feedReply b r) = readPass True b r1"
    and "readHeaders True r = (r1, v) \<Longrightarrow> v \<noteq> More \<Longrightarrow> readHeaders True (feedReply b r) = (feedReply b r1, v)"
    by simp_all
qed

lemma readPass_feed:
  assumes "fits (a @ b) r" and "nonneg r"
  shows "readPass True a r = (r1, More) \<Longrightarrow> readPass True b r1 = readPass True (a @ b) r"
    and "readPass True a r = (r1, v) \<Longrightarrow> v \<noteq> More \<Longrightarrow> readPass True (a @ b) r = (feedReply b r1, v)"
proof -
  have f: "fits b (feedReply a r)" "nonneg (feedReply a r)"
    using assms by (simp_all add: fits_def nonneg_def)
  { assume m: "readPass True a r = (r1, More)"
    show "readPass True b r1 = readPass True (a @ b) r"
    proof (cases "rp_state r = R_ReadingHeaders")
      case True
      with m readHeaders_feed(1) [OF f] show ?thesis
        by (simp add: readPass_headers feedReply_append)
    next
      case False
      then have m': "readBody True (feedReply a r) = (r1, More)" using m by (simp add: readPass_state)
      then have "rp_state r1 \<noteq> R_ReadingHeaders"
        using readBody_state [OF m' fits_capped [OF f(1)]] False by simp
      with False readBody_feed(1) [OF f m'] show ?thesis
        by (simp add: readPass_state feedReply_append)
    qed
  }
  assume m: "readPass True a r = (r1, v)" and v: "v \<noteq> More"
  show "readPass True (a @ b) r = (feedReply b r1, v)"
  proof (cases "rp_state r = R_ReadingHeaders")
    case True
    with m readHeaders_feed(2) [OF f _ _ v] show ?thesis
      by (simp add: readPass_headers feedReply_append)
  next
    case False
    then have m': "readBody True (feedReply a r) = (r1, v)" using m by (simp add: readPass_state)
    moreover have "v \<noteq> Challenged"
      using m' chunkLoop_verdict [of "feedReply a r"]
      by (auto simp: readBody_def readToClose_def readSized_def Let_def split: if_splits)
    ultimately show ?thesis
      using False v readBody_feed(2) [OF f] by (cases v) (simp_all add: readPass_state feedReply_append)
  qed
qed

text \<open>The reads of one connection, until a verdict.\<close>

fun readReads :: "bytes list \<Rightarrow> wsman_reply \<Rightarrow> wsman_reply \<times> verdict" where
  "readReads [] r = (r, More)"
| "readReads (b # bs) r = (case readPass True b r of (r1, More) \<Rightarrow> readReads bs r1 | res \<Rightarrow> res)"

lemma readReads_snoc: "readReads (bs @ [b]) r = (case readReads bs r of (r1, More) \<Rightarrow> readPass True b r1 | res \<Rightarrow> res)"
  by (induction bs arbitrary: r) (auto split: prod.splits verdict.splits)

lemma readReads_whole:
  assumes "fits (concat bs) r" and "nonneg r" and "bs \<noteq> []"
  shows "snd (readReads bs r) = snd (readPass True (concat bs) r) \<and>
    (\<exists>rest. fst (readPass True (concat bs) r) = feedReply rest (fst (readReads bs r)) \<and>
            (snd (readReads bs r) = More \<longrightarrow> rest = []))"
  using assms(1,3)
proof (induction bs rule: rev_induct)
  case (snoc b bs)
  show ?case
  proof (cases "bs = []")
    case True
    then show ?thesis
      by (auto intro!: exI [of _ "[]"] split: prod.splits verdict.splits)
  next
    case False
    have ab: "fits (concat bs @ b) r" "fits (concat bs) r"
      using snoc.prems(1) by (simp_all add: fits_def)
    obtain r1 v where whole: "readPass True (concat bs) r = (r1, v)"
      by (cases "readPass True (concat bs) r")
    obtain q rest where q: "readReads bs r = (q, v)" "r1 = feedReply rest q" "v = More \<Longrightarrow> rest = []"
      using snoc.IH [OF ab(2) False] whole by (cases "readReads bs r") auto
    show ?thesis
    proof (cases "v = More")
      case True
      with q have s: "readReads (bs @ [b]) r = readPass True b r1"
        by (simp add: readReads_snoc)
      have w: "readPass True b r1 = readPass True (concat bs @ b) r"
        using readPass_feed(1) [OF ab(1) assms(2)] whole True by simp
      show ?thesis
        unfolding s w by (simp, rule exI [of _ "[]"], simp)
    next
      case v: False
      then have "readPass True (concat bs @ b) r = (feedReply b r1, v)"
        using readPass_feed(2) [OF ab(1) assms(2) whole] by simp
      moreover have "readReads (bs @ [b]) r = (q, v)"
        using q(1) v by (cases v) (simp_all add: readReads_snoc)
      ultimately show ?thesis
        using v q(2) by (auto simp: feedReply_append)
    qed
  qed
qed simp

text \<open>C28: The way TCP cuts a response into reads makes no difference. Whatever the peer sends, within the size cap, and
  however it arrives: reading it piece by piece comes to the same verdict as reading it in one piece, with the same
  status, headers and body; only bytes behind the response may still be unread.
\<close>

theorem http_segmentation:
  assumes "fits (concat bs) r" and "rp_state r = R_ReadingHeaders" and "rp_readingChunkSize r" and "bs \<noteq> []"
  shows "snd (readReads bs r) = snd (readPass True (concat bs) r) \<and>
    (\<exists>rest. fst (readPass True (concat bs) r) = feedReply rest (fst (readReads bs r)))"
  using readReads_whole [OF assms(1) _ assms(4)] assms(3) by (auto simp: nonneg_def)

section \<open>A response as a device prints it\<close>

definition headerText :: "bytes \<times> bytes \<Rightarrow> bytes" where
  "headerText kv = fst kv @ [58, 32] @ snd kv"

definition statusLine :: "nat \<Rightarrow> bytes" where
  "statusLine code = blit ''HTTP/1.1 '' @ dec_digits code @ blit '' OK''"

definition headerBlock :: "nat \<Rightarrow> (bytes \<times> bytes) list \<Rightarrow> bytes" where
  "headerBlock code hdrs = statusLine code @ concat (map (\<lambda>kv. crlf @ headerText kv) hdrs)"

text \<open>Header names without colon and line end, values without line end, neither with blanks around.\<close>

definition plainHeader :: "bytes \<times> bytes \<Rightarrow> bool" where
  "plainHeader kv \<longleftrightarrow>
     fst kv \<noteq> [] \<and> set (fst kv) \<inter> {10, 13, 58} = {} \<and> bytesTrimmed (fst kv) = fst kv \<and>
     set (snd kv) \<inter> {10, 13} = {} \<and> bytesTrimmed (snd kv) = snd kv"

lemma splitOn_plain: "c \<notin> set xs \<Longrightarrow> splitOn c xs = [xs]"
  by (induction xs) auto

lemma splitOn_Cons: "c \<notin> set xs \<Longrightarrow> splitOn c (xs @ c # ys) = xs # splitOn c ys"
  by (induction xs) auto

text \<open>The lines of a block, with the carriage return that precedes every line feed.\<close>

fun crLines :: "bytes \<Rightarrow> bytes list \<Rightarrow> bytes list" where
  "crLines x [] = [x]"
| "crLines x (y # ys) = (x @ [13]) # crLines y ys"

lemma splitOn_lines:
  "10 \<notin> set x \<Longrightarrow> (\<forall>y \<in> set ys. 10 \<notin> set y) \<Longrightarrow> splitOn 10 (x @ concat (map (\<lambda>y. crlf @ y) ys)) = crLines x ys"
proof (induction ys arbitrary: x)
  case (Cons y ys)
  then have "splitOn 10 ((x @ [13]) @ 10 # (y @ concat (map (\<lambda>y. crlf @ y) ys))) = (x @ [13]) # crLines y ys"
    by (subst splitOn_Cons) auto
  then show ?case by (simp add: crlf_def)
qed (simp add: splitOn_plain)

lemma chopCr_line: "13 \<notin> set x \<Longrightarrow> chopCr x = x" "chopCr (x @ [13]) = x"
  by (metis chopCr_def last_in_set) (simp add: chopCr_def)

lemma map_add_snoc: "m ++ map_of (xs @ [(k, v)]) = m(k \<mapsto> v) ++ map_of xs"
  by (rule ext) (simp add: map_add_def split: option.splits)

lemma trimmed_blank: "bytesTrimmed (32 # xs) = bytesTrimmed xs"
  by (simp add: bytesTrimmed_def isAsciiSpace_def)

lemma headerLine_plain:
  assumes "plainHeader kv" and "chopCr raw = headerText kv"
  shows "headerLine raw m = m(bytesToLower (fst kv) \<mapsto> snd kv)"
proof -
  have "indexOf [58] (headerText kv) = Some (length (fst kv))"
    using assms(1) indexOf_skip [of 58 "fst kv" "[]" "58 # 32 # snd kv"] by (auto simp: headerText_def plainHeader_def)
  then show ?thesis
    using assms by (simp add: headerLine_def headerText_def plainHeader_def trimmed_blank)
qed

lemma fold_headerLine:
  assumes "\<forall>kv \<in> set hdrs. plainHeader kv"
  shows "fold headerLine (tl (crLines x (map headerText hdrs))) m = m ++ map_of (rev (map (\<lambda>kv. (bytesToLower (fst kv), snd kv)) hdrs))"
  using assms
proof (induction hdrs arbitrary: x m)
  case (Cons kv hdrs)
  have cr: "13 \<notin> set (headerText kv)"
    using Cons.prems by (auto simp: headerText_def plainHeader_def)
  have "chopCr (hd (crLines (headerText kv) (map headerText hdrs))) = headerText kv"
    by (cases hdrs) (simp_all add: chopCr_line cr)
  then have "headerLine (hd (crLines (headerText kv) (map headerText hdrs))) m = m(bytesToLower (fst kv) \<mapsto> snd kv)"
    using Cons.prems by (intro headerLine_plain) auto
  moreover have "crLines (headerText kv) (map headerText hdrs) =
      hd (crLines (headerText kv) (map headerText hdrs)) # tl (crLines (headerText kv) (map headerText hdrs))"
    by (cases hdrs) simp_all
  ultimately have "fold headerLine (crLines (headerText kv) (map headerText hdrs)) m =
      fold headerLine (tl (crLines (headerText kv) (map headerText hdrs))) (m(bytesToLower (fst kv) \<mapsto> snd kv))"
    by (metis fold_simps(2))
  also have "... = m(bytesToLower (fst kv) \<mapsto> snd kv) ++ map_of (rev (map (\<lambda>kv. (bytesToLower (fst kv), snd kv)) hdrs))"
    using Cons.prems by (intro Cons.IH) auto
  finally show ?case by (simp add: map_add_snoc)
qed simp

lemma statusLine_plain: "10 \<notin> set (statusLine code)" "13 \<notin> set (statusLine code)"
  using dec_digits_hexLower [of code] hexLower_facts(2,3) by (auto simp: statusLine_def blit_def)

lemma statusLine_status:
  assumes "int code < 2 ^ 31"
  shows "splitOn 32 (statusLine code) = [blit ''HTTP/1.1'', dec_digits code, blit ''OK'']" "intOrZero (dec_digits code) = int code"
proof -
  have d: "32 \<notin> set (dec_digits code)"
    using dec_digits_hexLower [of code] hexLower_facts(1) by (auto simp: isAsciiSpace_def)
  have "statusLine code = blit ''HTTP/1.1'' @ 32 # dec_digits code @ 32 # blit ''OK''"
    by (simp add: statusLine_def blit_def)
  with d show "splitOn 32 (statusLine code) = [blit ''HTTP/1.1'', dec_digits code, blit ''OK'']"
    by (simp add: splitOn_Cons splitOn_plain blit_def)
  show "intOrZero (dec_digits code) = int code"
    using assms by (simp add: intOrZero_def toLongLong_dec)
qed

lemma parse_headerBlock:
  assumes "\<forall>kv \<in> set hdrs. plainHeader kv" and "int code < 2 ^ 31"
  shows "parseHeaders (headerBlock code hdrs) = Inr (int code, map_of (rev (map (\<lambda>kv. (bytesToLower (fst kv), snd kv)) hdrs)))"
proof -
  have plain: "\<forall>y \<in> set (map headerText hdrs). 10 \<notin> set y"
    using assms(1) by (auto simp: headerText_def plainHeader_def)
  have "headerBlock code hdrs = statusLine code @ concat (map (\<lambda>y. crlf @ y) (map headerText hdrs))"
    by (simp add: headerBlock_def comp_def)
  then have split: "splitOn 10 (headerBlock code hdrs) = crLines (statusLine code) (map headerText hdrs)"
    using splitOn_lines [OF statusLine_plain(1) plain, of code] by simp
  obtain l ls where ls: "crLines (statusLine code) (map headerText hdrs) = l # ls"
    by (cases "map headerText hdrs") auto
  have "chopCr l = statusLine code"
    using ls statusLine_plain(2) by (cases hdrs) (auto simp: chopCr_line)
  then show ?thesis
    using split ls statusLine_status [OF assms(2)] fold_headerLine [OF assms(1), of "statusLine code" Map.empty]
    by (simp add: parseHeaders_def Let_def)
qed

lemma indexOf_block:
  assumes "13 \<notin> set x" and "\<forall>y \<in> set ys. y \<noteq> [] \<and> 13 \<notin> set y"
  shows "indexOf headersEnd (x @ concat (map (\<lambda>y. crlf @ y) ys) @ headersEnd @ p) = Some (length (x @ concat (map (\<lambda>y. crlf @ y) ys)))"
  using assms
proof (induction ys arbitrary: x)
  case Nil
  then show ?case
    using indexOf_skip [of 13 x "[10, 13, 10]" "headersEnd @ p"] indexOf_hit [of headersEnd p]
    by (simp add: headersEnd_def crlf_def)
next
  case (Cons y ys)
  obtain y1 y' where y: "y = y1 # y'" "y1 \<noteq> 13"
    using Cons.prems(2) by (cases y) auto
  let ?rest = "y @ concat (map (\<lambda>y. crlf @ y) ys) @ headersEnd @ p"
  have "indexOf headersEnd ?rest = Some (length (y @ concat (map (\<lambda>y. crlf @ y) ys)))"
    using Cons by (intro Cons.IH) auto
  then have "indexOf headersEnd (13 # 10 # ?rest) = Some (2 + length (y @ concat (map (\<lambda>y. crlf @ y) ys)))"
    using y by (simp add: headersEnd_def crlf_def)
  then show ?case
    using Cons.prems(1) indexOf_skip [of 13 x "[10, 13, 10]" "13 # 10 # ?rest"]
    by (simp add: headersEnd_def crlf_def)
qed

lemma headerBlock_found:
  assumes "\<forall>kv \<in> set hdrs. plainHeader kv"
  shows "indexOf headersEnd (headerBlock code hdrs @ headersEnd @ p) = Some (length (headerBlock code hdrs))"
proof -
  have "\<forall>y \<in> set (map headerText hdrs). y \<noteq> [] \<and> 13 \<notin> set y"
    using assms by (auto simp: headerText_def plainHeader_def)
  from indexOf_block [OF statusLine_plain(2) this, of code p] show ?thesis
    by (simp add: headerBlock_def comp_def)
qed

section \<open>Delivery\<close>

text \<open>How a body is put on the wire: with its length, or in chunks.\<close>

datatype framing = Sized bytes | Chunked "bytes list"

fun framedBody :: "framing \<Rightarrow> bytes" where
  "framedBody (Sized d) = d"
| "framedBody (Chunked ds) = concat ds"

fun framedBytes :: "framing \<Rightarrow> bytes" where
  "framedBytes (Sized d) = d"
| "framedBytes (Chunked ds) = encodeChunks ds"

fun framingHeader :: "framing \<Rightarrow> bytes \<times> bytes" where
  "framingHeader (Sized d) = (blit ''Content-Length'', dec_digits (length d))"
| "framingHeader (Chunked ds) = (blit ''Transfer-Encoding'', blit ''chunked'')"

definition response :: "nat \<Rightarrow> (bytes \<times> bytes) list \<Rightarrow> framing \<Rightarrow> bytes" where
  "response code hdrs f = headerBlock code (hdrs @ [framingHeader f]) @ headersEnd @ framedBytes f"

text \<open>The other headers do not speak about the framing.\<close>

definition otherHeader :: "bytes \<times> bytes \<Rightarrow> bool" where
  "otherHeader kv \<longleftrightarrow>
     plainHeader kv \<and> bytesToLower (fst kv) \<noteq> blit ''content-length'' \<and> bytesToLower (fst kv) \<noteq> blit ''transfer-encoding''"

lemma framingHeader_plain: "plainHeader (framingHeader f)"
proof (cases f)
  case (Sized d)
  have "bytesTrimmed (dec_digits (length d)) = dec_digits (length d)"
    using dec_digits_hexLower by (simp add: trimmed_plain hexLower_facts)
  moreover have "set (dec_digits (length d)) \<inter> {10, 13} = {}"
    using dec_digits_hexLower [of "length d"] hexLower_facts(2,3) by blast
  moreover have "bytesTrimmed (blit ''Content-Length'') = blit ''Content-Length''"
    by (simp add: blit_def bytesTrimmed_def isAsciiSpace_def)
  ultimately show ?thesis
    using Sized by (simp add: plainHeader_def) (simp add: blit_def)
next
  case (Chunked ds)
  then show ?thesis by (simp add: plainHeader_def blit_def bytesTrimmed_def isAsciiSpace_def)
qed

lemma valueOf_last: "valueOf (map_of (rev (map g (hdrs @ [h])))) k = (if blit k = fst (g h) then snd (g h) else valueOf (map_of (rev (map g hdrs))) k)"
  by (cases "g h") (simp add: valueOf_def)

lemma valueOf_other:
  assumes "\<forall>kv \<in> set hdrs. bytesToLower (fst kv) \<noteq> blit k"
  shows "valueOf (map_of (rev (map (\<lambda>kv. (bytesToLower (fst kv), snd kv)) hdrs))) k = []"
proof -
  have "blit k \<notin> fst ` set (rev (map (\<lambda>kv. (bytesToLower (fst kv), snd kv)) hdrs))"
    using assms by auto
  then have "map_of (rev (map (\<lambda>kv. (bytesToLower (fst kv), snd kv)) hdrs)) (blit k) = None"
    by (simp only: map_of_eq_None_iff not_False_eq_True)
  then show ?thesis by (simp add: valueOf_def)
qed

text \<open>The two header names the framing looks at, in lower case.\<close>

lemma framing_names:
  "bytesToLower (blit ''Content-Length'') = blit ''content-length''" "bytesToLower (blit ''Transfer-Encoding'') = blit ''transfer-encoding''"
  "blit ''content-length'' \<noteq> blit ''transfer-encoding''" "blit ''transfer-encoding'' \<noteq> blit ''content-length''"
  "containsBytes (blit ''chunked'') (bytesToLower (blit ''chunked''))" "\<not> containsBytes (blit ''chunked'') (bytesToLower [])"
  by (simp_all add: blit_def bytesToLower_def lowerByte_def containsBytes_def)

lemma framing_values:
  assumes "\<forall>kv \<in> set hdrs. otherHeader kv"
  shows "valueOf (map_of (rev (map (\<lambda>kv. (bytesToLower (fst kv), snd kv)) (hdrs @ [framingHeader f])))) ''content-length''
      = (case f of Sized d \<Rightarrow> dec_digits (length d) | Chunked ds \<Rightarrow> [])"
    and "valueOf (map_of (rev (map (\<lambda>kv. (bytesToLower (fst kv), snd kv)) (hdrs @ [framingHeader f])))) ''transfer-encoding''
      = (case f of Sized d \<Rightarrow> [] | Chunked ds \<Rightarrow> blit ''chunked'')"
proof -
  have "valueOf (map_of (rev (map (\<lambda>kv. (bytesToLower (fst kv), snd kv)) hdrs))) k = []"
    if "k = ''content-length'' \<or> k = ''transfer-encoding''" for k
    using assms that by (intro valueOf_other) (auto simp: otherHeader_def)
  note other = this [OF disjI1 [OF refl]] this [OF disjI2 [OF refl]]
  show "valueOf (map_of (rev (map (\<lambda>kv. (bytesToLower (fst kv), snd kv)) (hdrs @ [framingHeader f])))) ''content-length''
      = (case f of Sized d \<Rightarrow> dec_digits (length d) | Chunked ds \<Rightarrow> [])"
    unfolding valueOf_last other by (cases f) (simp_all add: framing_names)
  show "valueOf (map_of (rev (map (\<lambda>kv. (bytesToLower (fst kv), snd kv)) (hdrs @ [framingHeader f])))) ''transfer-encoding''
      = (case f of Sized d \<Rightarrow> [] | Chunked ds \<Rightarrow> blit ''chunked'')"
    unfolding valueOf_last other by (cases f) (simp_all add: framing_names)
qed

definition fresh :: "wsman_reply \<Rightarrow> bool" where
  "fresh r \<longleftrightarrow> rp_state r = R_ReadingHeaders \<and> rp_responseBuffer r = [] \<and> rp_body r = [] \<and> rp_readingChunkSize r"

text \<open>The body, once its framing is known.\<close>

lemma framed_read:
  assumes "rp_body r = []" and "rp_responseBuffer r = framedBytes f" and "int (length (framedBytes f)) \<le> kWsmanMaxBodyBytes"
    and "case f of Sized d \<Rightarrow> rp_state r = R_ReadingBodyContentLength \<and> rp_expectedBody r = int (length d)
         | Chunked ds \<Rightarrow> rp_state r = R_ReadingBodyChunked \<and> rp_readingChunkSize r"
    and "\<And>ds. f = Chunked ds \<Longrightarrow> [] \<notin> set ds"
  shows "\<exists>q. readBody True r = (q, Finish []) \<and> rp_body q = framedBody f \<and> rp_httpStatus q = rp_httpStatus r"
proof (cases f)
  case (Sized d')
  with assms show ?thesis
    by (auto simp: readBody_def readSized_def Let_def takeBody_def bodyLen_def bufferLen_def)
next
  case (Chunked ds')
  have "length (concat ds') \<le> length (encodeChunks ds')" for ds' :: "bytes list"
    by (induction ds') (auto simp: encodeChunks_def encodeChunk_def)
  then have "int (length (concat ds')) \<le> kWsmanMaxBodyBytes"
    using assms(3) Chunked by (metis dual_order.trans framedBytes.simps(2) of_nat_mono)
  then obtain q where q: "chunkLoop r = (q, Finish [])" "rp_body q = rp_body r @ concat ds'"
    using chunkLoop_encode [of r ds' "[]"] assms Chunked by (auto simp: bodyLen_def)
  have "bodyEdit r q"
    using chunkLoop_edit [OF q(1)] assms(1) by (simp add: capped_def bodyLen_def kWsmanMaxBodyBytes_def)
  then have "rp_httpStatus q = rp_httpStatus r"
    by (auto simp: bodyEdit_def)
  with q Chunked assms show ?thesis
    by (auto simp: readBody_def)
qed

lemma response_whole:
  assumes "fresh r" and "\<forall>kv \<in> set hdrs. otherHeader kv" and "int code < 2 ^ 31" and "code \<noteq> 401"
    and "int (length (framedBytes f)) \<le> kWsmanMaxBodyBytes" and "\<And>ds. f = Chunked ds \<Longrightarrow> [] \<notin> set ds"
  shows "\<exists>q. readPass True (response code hdrs f) r = (q, Finish []) \<and> rp_body q = framedBody f \<and> rp_httpStatus q = int code"
proof -
  let ?hs = "map_of (rev (map (\<lambda>kv. (bytesToLower (fst kv), snd kv)) (hdrs @ [framingHeader f])))"
  let ?r1 = "feedReply (response code hdrs f) r"
  let ?e = "length (headerBlock code (hdrs @ [framingHeader f]))"
  have plain: "\<forall>kv \<in> set (hdrs @ [framingHeader f]). plainHeader kv"
    using assms(2) framingHeader_plain by (auto simp: otherHeader_def)
  have buf: "rp_responseBuffer ?r1 = headerBlock code (hdrs @ [framingHeader f]) @ headersEnd @ framedBytes f"
    using assms(1) by (simp add: fresh_def response_def)
  have found: "indexOf headersEnd (rp_responseBuffer ?r1) = Some ?e"
    unfolding buf by (rule headerBlock_found [OF plain])
  have parsed: "parseHeaders (take ?e (rp_responseBuffer ?r1)) = Inr (int code, ?hs)"
    unfolding buf using parse_headerBlock [OF plain assms(3)] by simp
  let ?a = "afterHeaders ?r1 ?e (int code) ?hs"
  have a: "rp_responseBuffer ?a = framedBytes f" "rp_body ?a = []" "rp_httpStatus ?a = int code" "rp_responseHeaders ?a = ?hs"
    using assms(1) by (simp_all only: afterHeaders_def buf fresh_def feedReply_def) (simp_all add: response_def headersEnd_def crlf_def)
  have cl: "valueOf ?hs ''content-length'' = (case f of Sized d \<Rightarrow> dec_digits (length d) | Chunked ds \<Rightarrow> [])"
   and te: "valueOf ?hs ''transfer-encoding'' = (case f of Sized d \<Rightarrow> [] | Chunked ds \<Rightarrow> blit ''chunked'')"
    using framing_values [OF assms(2)] by simp_all
  have "\<exists>q. chooseBody ?a = (q, More) \<and> rp_body q = [] \<and> rp_responseBuffer q = framedBytes f \<and> rp_httpStatus q = int code \<and>
      (case f of Sized d \<Rightarrow> rp_state q = R_ReadingBodyContentLength \<and> rp_expectedBody q = int (length d)
       | Chunked ds \<Rightarrow> rp_state q = R_ReadingBodyChunked \<and> rp_readingChunkSize q)"
    using a cl te assms(5)
    by (cases f) (simp_all add: chooseBody_def Let_def framing_names number_nonempty longOrZero_def toLongLong_dec kWsmanMaxBodyBytes_def)
  then obtain q where q: "chooseBody ?a = (q, More)" "rp_body q = []" "rp_responseBuffer q = framedBytes f" "rp_httpStatus q = int code"
      "case f of Sized d \<Rightarrow> rp_state q = R_ReadingBodyContentLength \<and> rp_expectedBody q = int (length d)
       | Chunked ds \<Rightarrow> rp_state q = R_ReadingBodyChunked \<and> rp_readingChunkSize q"
    by blast
  have "readPass True (response code hdrs f) r = readBody True q"
    using readHeaders_block [OF found, of True] parsed q(1) assms(1,4) by (simp add: readPass_headers fresh_def)
  moreover have "\<exists>q'. readBody True q = (q', Finish []) \<and> rp_body q' = framedBody f \<and> rp_httpStatus q' = rp_httpStatus q"
    using q(2,3,5) assms(5,6) by (intro framed_read)
  ultimately show ?thesis
    using q(4) by simp
qed

lemma response_reads:
  assumes "fresh r" and "\<forall>kv \<in> set hdrs. otherHeader kv" and "int code < 2 ^ 31" and "code \<noteq> 401"
    and "int (length (response code hdrs f)) \<le> kWsmanMaxBodyBytes" and "\<And>ds. f = Chunked ds \<Longrightarrow> [] \<notin> set ds"
    and "concat bs = response code hdrs f"
  shows "\<exists>q. readReads bs r = (q, Finish []) \<and> rp_body q = framedBody f \<and> rp_httpStatus q = int code"
proof -
  have "int (length (framedBytes f)) \<le> kWsmanMaxBodyBytes"
    using assms(5) by (simp add: response_def)
  then obtain p where p: "readPass True (response code hdrs f) r = (p, Finish [])" "rp_body p = framedBody f" "rp_httpStatus p = int code"
    using response_whole [OF assms(1-4) _ assms(6)] by blast
  have "fits (concat bs) r" "nonneg r"
    using assms(1,5,7) by (simp_all add: fits_def fresh_def bodyLen_def bufferLen_def nonneg_def)
  moreover have "bs \<noteq> []"
    using assms(7) by (auto simp: response_def headersEnd_def crlf_def)
  ultimately obtain rest where "snd (readReads bs r) = Finish []" "p = feedReply rest (fst (readReads bs r))"
    using readReads_whole [of bs r] assms(7) p(1) by auto
  with p(2,3) show ?thesis
    by (cases "readReads bs r") (auto simp: feedReply_def)
qed

text \<open>C14: An answer of up to 32 MB arrives. A response whose header block and framed body are together not longer than the
  32 MB the client accepts, with any status but 401, any further headers, and a body sent with its length or cut into
  non-empty chunks in any way, ends the reply without an error, with exactly the body the device sent and
  its status, however TCP cuts the bytes into reads.
\<close>

theorem http_response_delivered:
  assumes "fresh r" and "\<forall>kv \<in> set hdrs. otherHeader kv" and "int code < 2 ^ 31" and "code \<noteq> 401"
    and "int (length (response code hdrs f)) \<le> kWsmanMaxBodyBytes" and "\<And>ds. f = Chunked ds \<Longrightarrow> [] \<notin> set ds"
    and "concat bs = response code hdrs f"
  shows "\<exists>q. readReads bs r = (q, Finish []) \<and> rp_body q = framedBody f \<and> rp_httpStatus q = int code"
  using assms by (rule response_reads)

text \<open>A reply that has just sent its request.\<close>

definition demoReply :: wsman_reply where
  "demoReply = newReply\<lparr>rp_state := R_ReadingHeaders\<rparr>"

definition demoResponse :: bytes where
  "demoResponse = response 200 [(blit ''Server'', blit ''AMT'')] (Chunked [blit ''<a'', blit ''/>''])"

lemma demoResponse_length: "length demoResponse = 79"
  by (simp add: demoResponse_def response_def headerBlock_def statusLine_def headerText_def blit_def crlf_def headersEnd_def
      encodeChunks_def encodeChunk_def hexNumber.simps dec_digits.simps)

theorem http_response_delivered_witness:
  "\<exists>q. readReads [take 30 demoResponse, drop 30 demoResponse] demoReply = (q, Finish []) \<and> rp_body q = blit ''<a/>'' \<and> rp_httpStatus q = 200"
proof -
  have "fresh demoReply"
    by (simp add: fresh_def demoReply_def newReply_def)
  moreover have "\<forall>kv \<in> set [(blit ''Server'', blit ''AMT'')]. otherHeader kv"
    by (simp add: otherHeader_def plainHeader_def blit_def bytesToLower_def lowerByte_def bytesTrimmed_def isAsciiSpace_def)
  moreover have "int (length (response 200 [(blit ''Server'', blit ''AMT'')] (Chunked [blit ''<a'', blit ''/>'']))) \<le> kWsmanMaxBodyBytes"
    using demoResponse_length by (simp add: demoResponse_def kWsmanMaxBodyBytes_def)
  ultimately show ?thesis
    using http_response_delivered [of demoReply "[(blit ''Server'', blit ''AMT'')]" 200 "Chunked [blit ''<a'', blit ''/>'']"
        "[take 30 demoResponse, drop 30 demoResponse]"]
    by (simp add: demoResponse_def) (simp add: blit_def)
qed

theorem http_segmentation_witness:
  "snd (readReads [take 9 demoResponse, drop 9 demoResponse] demoReply) = snd (readPass True demoResponse demoReply)"
  using http_segmentation [of "[take 9 demoResponse, drop 9 demoResponse]" demoReply] demoResponse_length
  by (simp add: fits_def demoReply_def newReply_def bodyLen_def bufferLen_def kWsmanMaxBodyBytes_def)

section \<open>What the caps leave open\<close>

text \<open>
  The cap is on the body only. A peer that never ends its header block makes the client keep every byte: after any
  number of reads without the blank line, all of them are in the buffer, however long it is.
\<close>

theorem headers_not_capped:
  assumes "fresh r" and "13 \<notin> set (concat bs)" and "bs \<noteq> []"
  shows "readReads bs r = (feedReply (concat bs) r, More)"
proof -
  have step: "readPass True b q = (feedReply b q, More)"
    if "rp_state q = R_ReadingHeaders" "13 \<notin> set (rp_responseBuffer q @ b)" for q b
    using that indexOf_none [of 13 "rp_responseBuffer q @ b" "[10, 13, 10]"]
    by (simp add: readPass_headers readHeaders_def headersEnd_def crlf_def)
  have "readReads bs q = (feedReply (concat bs) q, More)"
    if "rp_state q = R_ReadingHeaders" "13 \<notin> set (rp_responseBuffer q @ concat bs)" for q bs
    using that
  proof (induction bs arbitrary: q)
    case (Cons b bs)
    then show ?case
      using step [of q b] Cons.IH [of "feedReply b q"] by (auto simp: feedReply_append)
  qed simp
  with assms show ?thesis by (simp add: fresh_def)
qed

theorem headers_not_capped_witness:
  "readReads [replicate 4 65] demoReply = (feedReply (replicate 4 65) demoReply, More)"
  using headers_not_capped [of demoReply "[replicate 4 65]"] by (simp add: fresh_def demoReply_def newReply_def)

text \<open>
  A \<open>Content-Length\<close> that is no number is taken for 0, and the reply succeeds with an empty body whatever follows.
\<close>

theorem bad_length_succeeds:
  assumes "rp_responseHeaders r (blit ''transfer-encoding'') = None" and "rp_responseHeaders r (blit ''content-length'') = Some v"
    and "v \<noteq> []" and "toLongLong 10 v = None" and "rp_body r = []"
  shows "\<exists>q. chooseBody r = (q, More) \<and> readBody connected q = (q, Finish []) \<and> rp_body q = []"
proof -
  have "chooseBody r = (r\<lparr>rp_state := R_ReadingBodyContentLength, rp_expectedBody := 0\<rparr>, More)"
    using assms by (simp add: chooseBody_def Let_def valueOf_def framing_names longOrZero_def kWsmanMaxBodyBytes_def)
  with assms(5) show ?thesis
    by (simp add: readBody_def readSized_def bodyLen_def)
qed

theorem bad_length_succeeds_witness:
  "\<exists>q. chooseBody (newReply\<lparr>rp_responseHeaders := [blit ''content-length'' \<mapsto> blit ''x'']\<rparr>) = (q, More)
     \<and> readBody True q = (q, Finish []) \<and> rp_body q = []"
  using bad_length_succeeds [of "newReply\<lparr>rp_responseHeaders := [blit ''content-length'' \<mapsto> blit ''x'']\<rparr>" "blit ''x''" True]
  by (simp add: newReply_def framing_names)
    (simp add: blit_def toLongLong_def bytesTrimmed_def isAsciiSpace_def unsignedVal_def digitVal_def bytesToLower_def)

end
