(* ===== verification/Wsman_Auth.thy ===== *)
theory Wsman_Auth
  imports Wsman_Body
begin

text \<open>
  What a WS-Man client reveals, to whom. The locale \<open>client_contract\<close> lists what a property of a client must survive:
  the few elementary changes every slot and call of \<open>wsman_client.cpp\<close> is made of. Inside it the property is shown
  for every event. It is interpreted twice: no request goes to a TLS peer whose certificate was neither valid nor
  pinned, and no counter is used twice with the same nonce.
\<close>

section \<open>What a property of the client must survive\<close>

text \<open>Log entries that reveal nothing: signals, dialling, closing.\<close>

fun quiet_out :: "wsout \<Rightarrow> bool" where
  "quiet_out (Finished _) = True"
| "quiet_out (Returned _) = True"
| "quiet_out (Dialed _ _ _) = True"
| "quiet_out (FactoryAsked _) = True"
| "quiet_out (FdClosed _) = True"
| "quiet_out (TrustPrompt _) = True"
| "quiet_out (VerifiedByPin _) = True"
| "quiet_out (SockAborted _) = True"
| "quiet_out _ = False"

definition newSocket :: "wsock \<Rightarrow> bool" where
  "newSocket s \<longleftrightarrow> \<not> sk_encrypted s \<and> \<not> sk_refused s \<and> sk_ignored s = None \<and> \<not> sk_queued s"

text \<open>The fields a client is judged by here.\<close>

definition same_secrets :: "wsman_client \<Rightarrow> wsman_client \<Rightarrow> bool" where
  "same_secrets c d \<longleftrightarrow>
     wc_challenge d = wc_challenge c \<and> wc_nc d = wc_nc c \<and> wc_log d = wc_log c \<and>
     wc_trustedFingerprints d = wc_trustedFingerprints c \<and> wc_replies d = wc_replies c"

text \<open>Reading touches neither the socket of a reply nor its end.\<close>

definition readKeeps :: "wsman_reply \<Rightarrow> wsman_reply \<Rightarrow> bool" where
  "readKeeps r q \<longleftrightarrow>
     rp_socket q = rp_socket r \<and> rp_finished q = rp_finished r \<and> rp_slot q = rp_slot r \<and> rp_errorString q = rp_errorString r"

lemma readKeeps_refl [simp]: "readKeeps r r"
  by (simp add: readKeeps_def)

lemma readKeeps_trans: "readKeeps r q \<Longrightarrow> readKeeps q p \<Longrightarrow> readKeeps r p"
  by (simp add: readKeeps_def)

lemma chunkLine_keeps: "chunkLine l r = Inl (q, v) \<Longrightarrow> readKeeps r q" "chunkLine l r = Inr q \<Longrightarrow> readKeeps r q"
  by (auto simp: chunkLine_def Let_def readKeeps_def split: option.splits if_splits)

lemma readKeeps_buffer: "readKeeps (r\<lparr>rp_responseBuffer := u\<rparr>) q = readKeeps r q"
  by (simp add: readKeeps_def)

lemma chunkSize_keeps: "chunkSize r = Inl (q, v) \<Longrightarrow> readKeeps r q" "chunkSize r = Inr q \<Longrightarrow> readKeeps r q"
  by (auto simp: chunkSize_def readKeeps_buffer dest!: chunkLine_keeps split: option.splits if_splits)

lemma chunkData_keeps: "chunkData r = Inl (q, v) \<Longrightarrow> readKeeps r q" "chunkData r = Inr q \<Longrightarrow> readKeeps r q"
  by (auto simp: chunkData_def Let_def takeBody_def readKeeps_def split: if_splits)

lemma chunkLoop_keeps: "readKeeps r (fst (chunkLoop r))"
proof (induction r rule: chunkLoop.induct)
  case (1 r)
  show ?case
  proof (cases "chunkSize r")
    case (Inl p)
    then show ?thesis using chunkSize_keeps(1) [of r "fst p" "snd p"] by (simp add: chunkLoop.simps [of r])
  next
    case (Inr q)
    note rq = chunkSize_keeps(2) [OF this]
    show ?thesis
    proof (cases "chunkData q")
      case (Inl p)
      then show ?thesis
        using readKeeps_trans [OF rq chunkData_keeps(1) [of q "fst p" "snd p"]] Inr by (simp add: chunkLoop.simps [of r])
    next
      case Inr': (Inr q')
      then show ?thesis
        using readKeeps_trans [OF readKeeps_trans [OF rq chunkData_keeps(2) [OF Inr']] "1.IH" [OF Inr Inr']] Inr
        by (simp add: chunkLoop.simps [of r])
    qed
  qed
qed

lemma readBody_keeps: "readKeeps r (fst (readBody conn r))"
  by (simp add: readBody_def chunkLoop_keeps) (simp add: readToClose_def readSized_def takeBody_def Let_def readKeeps_def)

lemma readPass_keeps: "readKeeps r (fst (readPass conn chunk r))"
proof -
  have c: "readKeeps q (fst (chooseBody q))" for q
    by (simp add: chooseBody_def Let_def readKeeps_def)
  have e: "readKeeps q p" if "readKeeps (q\<lparr>rp_responseBuffer := u, rp_httpStatus := st, rp_responseHeaders := hs\<rparr>) p" for q p u st hs
    using that by (simp add: readKeeps_def)
  have "readKeeps q (fst (readHeaders conn q))" for q
    by (auto simp: readHeaders_def Let_def split: option.splits sum.splits prod.splits
        intro: e [OF readKeeps_refl] e [OF c] e [OF readKeeps_trans [OF c readBody_keeps]]) (simp add: readKeeps_def)
  then show ?thesis
    using readBody_keeps [of "r\<lparr>rp_responseBuffer := rp_responseBuffer r @ chunk\<rparr>" conn]
    by (auto simp: readPass_def Let_def readKeeps_def)
qed

locale client_contract =
  fixes P :: "wsman_client \<Rightarrow> bool"
  assumes other_fields: "P c \<Longrightarrow> same_secrets c d \<Longrightarrow> P d"
    and saying: "P c \<Longrightarrow> quiet_out e \<Longrightarrow> P (say e c)"
    and editing: "P c \<Longrightarrow> (\<And>r. wc_replies c rid = Some r \<Longrightarrow> rp_socket (f r) = rp_socket r) \<Longrightarrow> P (onReply rid f c)"
    and socket_opened: "P c \<Longrightarrow> newSocket s \<Longrightarrow> P (onReply rid (\<lambda>r. r\<lparr>rp_socket := Some s\<rparr>) c)"
    and dropping: "P c \<Longrightarrow> P (onReply rid (\<lambda>r. r\<lparr>rp_socket := None\<rparr>) c)"
    and forgetting: "P c \<Longrightarrow> P (c\<lparr>wc_replies := (wc_replies c)(rid := None)\<rparr>)"
    and creating: "P c \<Longrightarrow> rp_socket r = None \<Longrightarrow> P (c\<lparr>wc_replies := (wc_replies c)(rid \<mapsto> r)\<rparr>)"
    and connecting: "P c \<Longrightarrow> P (onSocket rid (\<lambda>s. s\<lparr>sk_connected := True\<rparr>) c)"
    and encrypting: "P c \<Longrightarrow> socketOf c rid = Some s \<Longrightarrow> \<not> sk_refused s \<Longrightarrow> P (onSocket rid (\<lambda>s. s\<lparr>sk_encrypted := True\<rparr>) c)"
    and queueing: "P c \<Longrightarrow> socketOf c rid = Some s \<Longrightarrow> sk_encrypted s \<Longrightarrow> P (onSocket rid (\<lambda>s. s\<lparr>sk_queued := True\<rparr>) c)"
    and unqueueing: "P c \<Longrightarrow> P (onSocket rid (\<lambda>s. s\<lparr>sk_queued := False\<rparr>) c)"
    and refusing: "P c \<Longrightarrow> socketOf c rid = Some s \<Longrightarrow> \<not> sk_encrypted s \<Longrightarrow> P (refuse rid c)"
    and ignoring: "P c \<Longrightarrow> socketOf c rid = Some s \<Longrightarrow> fp \<in> set (wc_trustedFingerprints c) \<Longrightarrow> P (ignoreErrors rid fp c)"
    and queued_encrypted: "P c \<Longrightarrow> socketOf c rid = Some s \<Longrightarrow> sk_queued s \<Longrightarrow> sk_encrypted s"
    and writing: "P c \<Longrightarrow> socketOf c rid = Some s \<Longrightarrow> sk_tls s \<longrightarrow> sk_encrypted s \<Longrightarrow> P (say (Wrote rid s b) c)"
    and counting: "P c \<Longrightarrow> haveDigestChallenge (wc_challenge c) \<Longrightarrow>
      P (say (HeaderMade rid (digestNonce (wc_challenge c)) (wc_nc c + 1)) (c\<lparr>wc_nc := wc_nc c + 1\<rparr>))"
    and installing: "P c \<Longrightarrow> P (installChallenge ps c)"
    and forgetting_challenge: "P c \<Longrightarrow> P (c\<lparr>wc_challenge := (wc_challenge c)\<lparr>haveDigestChallenge := False\<rparr>\<rparr>)"
    and pinning: "P c \<Longrightarrow> P (say (Pinned fps) (c\<lparr>wc_trustedFingerprints := fps\<rparr>))"
begin

lemma other_update:
  "P c \<Longrightarrow> P (c\<lparr>wc_endpoint := a\<rparr>)" "P c \<Longrightarrow> P (c\<lparr>wc_user := b\<rparr>)" "P c \<Longrightarrow> P (c\<lparr>wc_pass := b\<rparr>)"
  "P c \<Longrightarrow> P (c\<lparr>wc_pendingPeerCert := d\<rparr>)" "P c \<Longrightarrow> P (c\<lparr>wc_awaitingTrust := e\<rparr>)" "P c \<Longrightarrow> P (c\<lparr>wc_timeoutMs := f\<rparr>)"
  "P c \<Longrightarrow> P (c\<lparr>wc_socketFactory := e\<rparr>)" "P c \<Longrightarrow> P (c\<lparr>wc_serializeRequests := e\<rparr>)" "P c \<Longrightarrow> P (c\<lparr>wc_currentRequest := g\<rparr>)"
  "P c \<Longrightarrow> P (c\<lparr>wc_pendingQueue := h\<rparr>)" "P c \<Longrightarrow> P (c\<lparr>wc_nextReply := i\<rparr>)"
  by (rule other_fields; simp add: same_secrets_def)+

lemma armTimeout_keeps: "P c \<Longrightarrow> P (armTimeout rid c)"
  unfolding armTimeout_def by (rule editing) auto

lemma state_keeps: "P c \<Longrightarrow> P (onReply rid (\<lambda>r. r\<lparr>rp_state := st\<rparr>) c)"
  by (rule editing) auto

lemma conclude_keeps: "P c \<Longrightarrow> P (onReply rid (conclude e) c)"
  by (rule editing) (auto simp: conclude_def stopTimer_def)

lemma doWrite_keeps:
  assumes "P c" and "\<And>s. socketOf c rid = Some s \<Longrightarrow> sk_tls s \<longrightarrow> sk_encrypted s"
  shows "P (doWrite rid c)"
proof (cases "wc_replies c rid")
  case (Some r)
  show ?thesis
  proof (cases "rp_socket r")
    case sock: (Some s)
    then have "socketOf c rid = Some s" using Some by (simp add: socketOf_def)
    then have "P (say (Wrote rid s b) c)" for b
      using assms by (intro writing) auto
    with Some sock assms(1) show ?thesis by (simp add: doWrite_def state_keeps)
  qed (use Some assms(1) in \<open>simp add: doWrite_def\<close>)
qed (use assms(1) in \<open>simp add: doWrite_def\<close>)

lemma adoptSocket_keeps:
  assumes "P c" and "newSocket s"
  shows "P (adoptSocket rid s c)"
proof -
  have o: "P (onReply rid (\<lambda>r. r\<lparr>rp_socket := Some s\<rparr>) c)"
    by (rule socket_opened [OF assms])
  have "socketOf (onReply rid (\<lambda>r. r\<lparr>rp_socket := Some s\<rparr>) c) rid = Some t \<Longrightarrow> t = s" for t
    by (cases "wc_replies c rid") (simp_all add: socketOf_def)
  with o show ?thesis
    by (auto simp: adoptSocket_def Let_def intro!: state_keeps doWrite_keeps)
qed

lemma newSocket_made: "newSocket (factorySocket tls auth c)" "newSocket (directSocket auth c)"
  by (simp_all add: newSocket_def factorySocket_def directSocket_def)

lemma closeOrphanFd_keeps: "P c \<Longrightarrow> P (closeOrphanFd fd c)"
  by (simp add: closeOrphanFd_def saying)

lemma factoryDone_keeps: "P c \<Longrightarrow> P (fst (factoryDone n rid tls auth fd err c))"
  by (simp add: factoryDone_def closeOrphanFd_keeps conclude_keeps adoptSocket_keeps newSocket_made split: option.splits)

lemma asked_keeps: "P c \<Longrightarrow> P (onReply rid (\<lambda>r. r\<lparr>rp_asked := a\<rparr>) c)"
  by (rule editing) auto

lemma openConnection_keeps:
  assumes "P c"
  shows "P (fst (openConnection n rid auth c))"
proof -
  have "P (onReply rid (\<lambda>r. r\<lparr>rp_state := R_Connecting\<rparr>) (onReply rid (\<lambda>r. r\<lparr>rp_socket := Some (directSocket auth c)\<rparr>) c))"
    using assms by (intro state_keeps socket_opened newSocket_made)
  then have "P (dial rid auth c)"
    by (simp add: dial_def saying onReply_twice)
  moreover have "P (say (FactoryAsked rid) (onReply rid (\<lambda>r. r\<lparr>rp_state := R_Connecting\<rparr>) c))"
    using assms by (intro saying state_keeps) auto
  ultimately show ?thesis
    by (auto simp: openConnection_def askFactory_def Let_def factoryDone_keeps asked_keeps split: option.splits)
qed

lemma startTransport_keeps: "P c \<Longrightarrow> P (fst (startTransport n rid c))"
  by (simp add: startTransport_def openConnection_keeps armTimeout_keeps)

lemma retryWithDigest_keeps:
  assumes "P c" and "haveDigestChallenge (wc_challenge c)"
  shows "P (fst (retryWithDigest n rid c))"
proof -
  let ?g = "\<lambda>r. r\<lparr>rp_responseBuffer := [], rp_responseHeaders := Map.empty, rp_body := [], rp_httpStatus := 0,
       rp_expectedBody := -1, rp_currentChunkRemaining := 0, rp_readingChunkSize := True\<rparr>"
  let ?c = "onReply rid forgetAnswer (armTimeout rid c)"
  have "P (onReply rid ?g (onReply rid (\<lambda>r. r\<lparr>rp_socket := None\<rparr>) (armTimeout rid c)))"
    using assms(1) by (intro editing dropping armTimeout_keeps) auto
  moreover have "forgetAnswer = (\<lambda>r. ?g (r\<lparr>rp_socket := None\<rparr>))"
    by (simp add: fun_eq_iff forgetAnswer_def)
  ultimately have c: "P ?c"
    by (simp only: onReply_twice)
  have "wc_challenge ?c = wc_challenge c" by (simp add: armTimeout_def)
  with assms(2) counting [OF c] show ?thesis
    by (simp add: retryWithDigest_def Let_def openConnection_keeps)
qed

lemma startNow_keeps: "P c \<Longrightarrow> P (fst (startNow n rid c))"
  by (simp add: startNow_def startTransport_keeps retryWithDigest_keeps)

lemma drainQueue_keeps: "P c \<Longrightarrow> P (drainQueue n qs c)"
proof (induction n qs c rule: drainQueue.induct)
  case (2 n q qs c)
  let ?d = "c\<lparr>wc_pendingQueue := qs, wc_currentRequest := Some q\<rparr>"
  obtain c1 ended where s: "startNow n q ?d = (c1, ended)"
    by (cases "startNow n q ?d")
  have "P ?d"
    using "2.prems" by (intro other_update)
  then have "P c1"
    using startNow_keeps [of ?d n q] s by simp
  then have "P ((say (Finished q) c1)\<lparr>wc_currentRequest := None\<rparr>)"
    by (intro other_update saying) auto
  with 2 s \<open>P c1\<close> show ?case by auto
qed (simp add: other_update)

lemma emitFinished_keeps: "P c \<Longrightarrow> P (emitFinished n rid c)"
  by (simp add: emitFinished_def Let_def saying drainQueue_keeps other_update split: option.splits)

lemma settle_keeps: "P (fst p) \<Longrightarrow> P (settle n rid p)"
  by (simp add: settle_def emitFinished_keeps)

lemma finishReply_keeps: "P c \<Longrightarrow> P (finishReply n rid err c)"
  by (simp add: finishReply_def emitFinished_keeps conclude_keeps split: option.splits)

lemma endWith_keeps:
  assumes "P c"
  shows "P (endWith n rid err aborts c)"
proof -
  have "P (onReply rid (breakOff err) d)" if "P d" for d
    using that by (rule editing) (simp add: breakOff_def)
  with assms show ?thesis
    by (simp add: endWith_def emitFinished_keeps saying split: option.splits)
qed

lemma retries_keeps: "P c \<Longrightarrow> P (onReply rid (\<lambda>r. r\<lparr>rp_digestRetries := Suc (rp_digestRetries r)\<rparr>) c)"
  by (rule editing) auto

lemma onChallenge_keeps: "P c \<Longrightarrow> P (onChallenge n rid r c)"
  by (simp add: onChallenge_def Let_def finishReply_keeps installing settle_keeps retryWithDigest_keeps retries_keeps)

lemma readMore_keeps:
  assumes "P c"
  shows "P (readMore n rid chunk conn c)"
proof (cases "wc_replies c rid")
  case (Some r)
  have "rp_socket (fst (readPass conn chunk r)) = rp_socket r"
    using readPass_keeps [of r conn chunk] by (simp add: readKeeps_def)
  then have "P (onReply rid (\<lambda>_. fst (readPass conn chunk r)) c)"
    using assms Some by (intro editing) auto
  with Some assms show ?thesis
    by (simp add: readMore_def applyVerdict_def Let_def finishReply_keeps onChallenge_keeps split: verdict.splits)
qed (use assms in \<open>simp add: readMore_def\<close>)

lemma onConnected_keeps:
  assumes "P c" and "socketOf c rid = Some s"
  shows "P (onConnected rid s c)"
proof -
  have "sk_tls t = sk_tls s" if "socketOf (onSocket rid (\<lambda>s. s\<lparr>sk_connected := True\<rparr>) c) rid = Some t" for t
    using that assms(2) by (auto simp: socketOf_def onSocket_def bind_eq_Some_conv)
  with assms(1) show ?thesis
    by (auto simp: onConnected_def Let_def split: option.splits intro!: state_keeps doWrite_keeps connecting)
qed

lemma onEncrypted_keeps:
  assumes "P c" and "socketOf c rid = Some s" and "\<not> sk_refused s"
  shows "P (onEncrypted rid s c)"
proof -
  let ?c = "onSocket rid (\<lambda>s. s\<lparr>sk_encrypted := True\<rparr>) c"
  have "P ?c"
    by (rule encrypting [OF assms])
  moreover have "socketOf ?c rid = Some (s\<lparr>sk_encrypted := True\<rparr>)"
    using assms(2) by (auto simp: socketOf_def onSocket_def bind_eq_Some_conv)
  ultimately show ?thesis
    by (auto simp: onEncrypted_def Let_def intro!: queueing doWrite_keeps)
qed

lemma onQueuedWrite_keeps:
  assumes "P c" and "socketOf c rid = Some s" and "sk_queued s"
  shows "P (onQueuedWrite rid c)"
proof -
  have "sk_encrypted t" if "socketOf (onSocket rid (\<lambda>s. s\<lparr>sk_queued := False\<rparr>) c) rid = Some t" for t
    using that queued_encrypted [OF assms] assms(2) by (auto simp: socketOf_def onSocket_def bind_eq_Some_conv)
  with assms(1) show ?thesis
    by (auto simp: onQueuedWrite_def intro!: doWrite_keeps unqueueing)
qed

lemma socketOf_frame [simp]:
  "socketOf (say e c) rid = socketOf c rid" "socketOf (c\<lparr>wc_pendingPeerCert := p, wc_awaitingTrust := a\<rparr>) rid = socketOf c rid"
  by (simp_all add: socketOf_def)

lemma onSslErrors_keeps:
  assumes "P c" and "socketOf c rid = Some s" and "\<not> sk_encrypted s"
  shows "P (onSslErrors n rid s chain c)"
proof -
  have "P (refuse rid (say (TrustPrompt p) (c\<lparr>wc_pendingPeerCert := p, wc_awaitingTrust := True\<rparr>)))" for p
    using assms by (intro refusing [of _ _ s] saying other_update) auto
  moreover have "P (ignoreErrors rid fp (say (VerifiedByPin fp) c))" if "fp \<in> set (wc_trustedFingerprints c)" for fp
    using assms that by (intro ignoring [of _ _ s] saying) auto
  ultimately show ?thesis
    using assms refusing by (auto simp: onSslErrors_def Let_def split: list.splits)
qed

lemma sendEnvelope_keeps:
  assumes "P c"
  shows "P (sendEnvelope n env act c)"
proof -
  let ?c = "c\<lparr>wc_nextReply := wc_nextReply c + 1, wc_replies := (wc_replies c)(wc_nextReply c \<mapsto> replyFor (wc_endpoint c) env act)\<rparr>"
  have "P (c\<lparr>wc_replies := (wc_replies c)(wc_nextReply c \<mapsto> replyFor (wc_endpoint c) env act)\<rparr>)"
    using assms by (intro creating) (simp_all add: replyFor_def newReply_def)
  then have c: "P ?c"
    by (rule other_fields) (simp add: same_secrets_def)
  have "P (onReply rid (\<lambda>r. r\<lparr>rp_slot := True\<rparr>) (?c\<lparr>wc_pendingQueue := q\<rparr>))" for q rid
    using c by (intro editing other_update) auto
  then have "P (sendSerialized n (wc_nextReply c) ?c)"
    by (simp add: sendSerialized_def Let_def settle_keeps startNow_keeps other_update)
  with c show ?thesis
    by (simp add: sendEnvelope_def Let_def saying settle_keeps startNow_keeps)
qed

lemma onTimeout_keeps:
  assumes "P c"
  shows "P (onTimeout n rid c)"
proof -
  have "P (onReply rid stopTimer c)"
    using assms by (rule editing) (simp add: stopTimer_def)
  then show ?thesis
    by (simp add: onTimeout_def endWith_keeps)
qed

lemma trustPendingPeerCert_keeps: "P c \<Longrightarrow> P (wsman_trustPendingPeerCert c)"
proof -
  assume "P c"
  have "say (Pinned fps) (c\<lparr>wc_trustedFingerprints := fps, wc_pendingPeerCert := p, wc_awaitingTrust := a\<rparr>)
      = (say (Pinned fps) (c\<lparr>wc_trustedFingerprints := fps\<rparr>))\<lparr>wc_pendingPeerCert := p, wc_awaitingTrust := a\<rparr>" for fps p a
    by (simp add: say_def)
  with \<open>P c\<close> show ?thesis
    by (simp add: wsman_trustPendingPeerCert_def Let_def pinning other_update)
qed

lemma setCredentials_keeps:
  assumes "P c"
  shows "P (wsman_setCredentials u p c)"
proof -
  have "P (c\<lparr>wc_challenge := (wc_challenge c)\<lparr>haveDigestChallenge := False\<rparr>\<rparr>)"
    using assms by (rule forgetting_challenge)
  then show ?thesis
    unfolding wsman_setCredentials_def by (rule other_fields) (simp add: same_secrets_def)
qed

lemma onFactory_keeps: "P c \<Longrightarrow> P (onFactory n rid tls auth fd err c)"
  by (simp add: onFactory_def settle_keeps factoryDone_keeps asked_keeps)

text \<open>Every event keeps such a property.\<close>

lemma handle_keeps:
  assumes "P c" and "signalled ev c"
  shows "P (handle n ev c)"
proof (cases ev)
  case (Connected rid)
  with assms show ?thesis by (auto simp: signalled_def withSocket_def onConnected_keeps split: option.splits)
next
  case (Encrypted rid)
  with assms show ?thesis by (auto simp: signalled_def withSocket_def onEncrypted_keeps split: option.splits)
next
  case (SslErrors rid chain)
  with assms show ?thesis by (auto simp: signalled_def withSocket_def onSslErrors_keeps split: option.splits)
next
  case (QueuedWrite rid)
  with assms show ?thesis by (auto simp: signalled_def withSocket_def onQueuedWrite_keeps split: option.splits)
next
  case (SetTrusted fps)
  with assms show ?thesis by (simp add: setTrustedFingerprints_def pinning)
qed (use assms in \<open>auto simp: other_update setCredentials_keeps trustPendingPeerCert_keeps sendEnvelope_keeps onSockError_def
      endWith_keeps readMore_keeps closeOrphanFd_keeps onFactory_keeps onTimeout_keeps reply_abort_def destroyReply_def forgetting
      split: option.splits\<close>)

lemma wreach_keeps: "wreach admits c \<Longrightarrow> P newClient \<Longrightarrow> P c"
  by (induction rule: wreach.induct) (simp_all add: handle_keeps)

end

section \<open>Who sees a request\<close>

text \<open>A fingerprint the owner has trusted at some time.\<close>

definition everPinned :: "wsman_client \<Rightarrow> bytes \<Rightarrow> bool" where
  "everPinned c fp \<longleftrightarrow> (\<exists>fps. Pinned fps \<in> set (wc_log c) \<and> fp \<in> set fps)"

definition sock_ok :: "wsman_client \<Rightarrow> wsock \<Rightarrow> bool" where
  "sock_ok c s \<longleftrightarrow>
     (sk_encrypted s \<longrightarrow> \<not> sk_refused s) \<and> (sk_queued s \<longrightarrow> sk_encrypted s) \<and>
     (\<forall>fp. sk_ignored s = Some fp \<longrightarrow> everPinned c fp)"

definition tls_inv :: "wsman_client \<Rightarrow> bool" where
  "tls_inv c \<longleftrightarrow>
     (\<forall>rid s. socketOf c rid = Some s \<longrightarrow> sock_ok c s) \<and>
     (\<forall>rid s b. Wrote rid s b \<in> set (wc_log c) \<longrightarrow> (sk_tls s \<longrightarrow> sk_encrypted s) \<and> sock_ok c s) \<and>
     (\<forall>fp \<in> set (wc_trustedFingerprints c). everPinned c fp)"

lemma everPinned_mono: "everPinned c fp \<Longrightarrow> set (wc_log c) \<subseteq> set (wc_log d) \<Longrightarrow> everPinned d fp"
  by (auto simp: everPinned_def)

lemma sock_ok_mono: "sock_ok c s \<Longrightarrow> set (wc_log c) \<subseteq> set (wc_log d) \<Longrightarrow> sock_ok d s"
  by (auto simp: sock_ok_def intro: everPinned_mono)

lemma tls_inv_socket: "tls_inv c \<Longrightarrow> socketOf c rid = Some s \<Longrightarrow> sock_ok c s"
  unfolding tls_inv_def by blast

lemma tls_inv_wrote: "tls_inv c \<Longrightarrow> Wrote rid s b \<in> set (wc_log c) \<Longrightarrow> (sk_tls s \<longrightarrow> sk_encrypted s) \<and> sock_ok c s"
  unfolding tls_inv_def by blast

lemma tls_inv_pins: "tls_inv c \<Longrightarrow> fp \<in> set (wc_trustedFingerprints c) \<Longrightarrow> everPinned c fp"
  unfolding tls_inv_def by blast

text \<open>Growing the log by something that is no request, and changing sockets, each alone.\<close>

lemma tls_inv_log:
  assumes "tls_inv c" and "wc_replies d = wc_replies c" and "wc_log d = wc_log c @ [e]"
    and "\<And>rid s b. e = Wrote rid s b \<Longrightarrow> (sk_tls s \<longrightarrow> sk_encrypted s) \<and> sock_ok c s"
    and "\<forall>fp \<in> set (wc_trustedFingerprints d). everPinned d fp"
  shows "tls_inv d"
proof -
  have sub: "set (wc_log c) \<subseteq> set (wc_log d)"
    using assms(3) by auto
  have "socketOf d rid = socketOf c rid" for rid
    using assms(2) by (simp add: socketOf_def)
  then have "socketOf d rid = Some s \<Longrightarrow> sock_ok d s" for rid s
    using sock_ok_mono [OF tls_inv_socket [OF assms(1)] sub] by simp
  moreover have "(sk_tls s \<longrightarrow> sk_encrypted s) \<and> sock_ok d s" if "Wrote rid s b \<in> set (wc_log d)" for rid s b
  proof (cases "Wrote rid s b = e")
    case True
    then show ?thesis using assms(4) [of rid s b] sock_ok_mono [OF _ sub] by auto
  next
    case False
    then have "Wrote rid s b \<in> set (wc_log c)" using that assms(3) by auto
    then show ?thesis using tls_inv_wrote [OF assms(1)] sock_ok_mono [OF _ sub] by blast
  qed
  ultimately show ?thesis
    using assms(5) unfolding tls_inv_def by blast
qed

lemma tls_inv_sockets:
  assumes "tls_inv c" and "wc_log d = wc_log c" and "wc_trustedFingerprints d = wc_trustedFingerprints c"
    and "\<And>rid s. socketOf d rid = Some s \<Longrightarrow> sock_ok c s"
  shows "tls_inv d"
proof -
  have "sock_ok d = sock_ok c" "everPinned d = everPinned c"
    using assms(2) by (simp_all add: fun_eq_iff sock_ok_def everPinned_def)
  with assms show ?thesis by (auto simp: tls_inv_def)
qed

lemma everPinned_say: "everPinned c fp \<Longrightarrow> everPinned (say e c) fp"
  by (auto simp: everPinned_def)

lemma socketOf_onReply: "socketOf (onReply rid f c) q = (if q = rid then Option.bind (map_option f (wc_replies c rid)) rp_socket else socketOf c q)"
  by (simp add: socketOf_def)

lemma socketOf_onSocket: "socketOf (onSocket rid f c) q = (if q = rid then map_option f (socketOf c rid) else socketOf c q)"
  by (cases "wc_replies c rid") (simp_all add: socketOf_def onSocket_def)

lemma onSocket_fields [simp]:
  "wc_log (onSocket rid f c) = wc_log c" "wc_trustedFingerprints (onSocket rid f c) = wc_trustedFingerprints c"
  "wc_challenge (onSocket rid f c) = wc_challenge c" "wc_nc (onSocket rid f c) = wc_nc c"
  by (simp_all add: onSocket_def)

lemma refuse_onSocket: "refuse rid = onSocket rid (\<lambda>s. s\<lparr>sk_refused := True\<rparr>)" "ignoreErrors rid fp = onSocket rid (\<lambda>s. s\<lparr>sk_ignored := Some fp\<rparr>)"
  by (simp_all add: fun_eq_iff refuse_def ignoreErrors_def onSocket_def)

lemma tls_inv_onSocket:
  assumes "tls_inv c" and "\<And>s. socketOf c rid = Some s \<Longrightarrow> sock_ok c s \<Longrightarrow> sock_ok c (f s)"
  shows "tls_inv (onSocket rid f c)"
  using assms(1)
  by (rule tls_inv_sockets) (auto simp: socketOf_onSocket assms(2) tls_inv_socket [OF assms(1)] split: if_splits)

lemma tls_inv_same:
  assumes "tls_inv c" and "wc_log d = wc_log c" and "wc_trustedFingerprints d = wc_trustedFingerprints c" and "wc_replies d = wc_replies c"
  shows "tls_inv d"
proof (rule tls_inv_sockets [OF assms(1-3)])
  fix rid s assume "socketOf d rid = Some s"
  then show "sock_ok c s" using assms(4) tls_inv_socket [OF assms(1), of rid] by (simp add: socketOf_def)
qed

lemma tls_inv_onReply:
  assumes "tls_inv c" and "\<And>r s. wc_replies c rid = Some r \<Longrightarrow> rp_socket (f r) = Some s \<Longrightarrow> sock_ok c s"
  shows "tls_inv (onReply rid f c)"
proof (rule tls_inv_sockets [OF assms(1)])
  fix q s assume "socketOf (onReply rid f c) q = Some s"
  then show "sock_ok c s"
    using assms(2) tls_inv_socket [OF assms(1), of q] by (cases "wc_replies c rid") (auto simp: socketOf_onReply split: if_splits)
qed simp_all

lemma tls_inv_say:
  assumes "tls_inv c" and "\<And>rid s b. e = Wrote rid s b \<Longrightarrow> (sk_tls s \<longrightarrow> sk_encrypted s) \<and> sock_ok c s"
  shows "tls_inv (say e c)"
  using assms(1)
proof (rule tls_inv_log [of c _ e])
  show "\<forall>fp \<in> set (wc_trustedFingerprints (say e c)). everPinned (say e c) fp"
    using tls_inv_pins [OF assms(1)] everPinned_say by simp
qed (use assms(2) in simp_all)

interpretation tls: client_contract tls_inv
proof
  fix c d assume "tls_inv c" and "same_secrets c d"
  then show "tls_inv d"
    by (simp add: same_secrets_def tls_inv_same)
next
  fix c e assume "tls_inv c" and "quiet_out e"
  then show "tls_inv (say e c)"
    by (intro tls_inv_say) auto
next
  fix c rid and f :: "wsman_reply \<Rightarrow> wsman_reply" assume c: "tls_inv c" and f: "\<And>r. wc_replies c rid = Some r \<Longrightarrow> rp_socket (f r) = rp_socket r"
  show "tls_inv (onReply rid f c)"
    using f tls_inv_socket [OF c, of rid] by (intro tls_inv_onReply [OF c]) (simp add: socketOf_def)
next
  fix c rid and s :: wsock assume c: "tls_inv c" and "newSocket s"
  then have "sock_ok c s" by (simp add: newSocket_def sock_ok_def)
  then show "tls_inv (onReply rid (\<lambda>r. r\<lparr>rp_socket := Some s\<rparr>) c)"
    by (intro tls_inv_onReply [OF c]) simp
next
  fix c rid assume c: "tls_inv c"
  then show "tls_inv (onReply rid (\<lambda>r. r\<lparr>rp_socket := None\<rparr>) c)"
    by (intro tls_inv_onReply [OF c]) simp
next
  fix c rid assume c: "tls_inv c"
  show "tls_inv (c\<lparr>wc_replies := (wc_replies c)(rid := None)\<rparr>)"
    using tls_inv_socket [OF c] by (intro tls_inv_sockets [OF c]) (simp_all add: socketOf_def split: if_splits)
next
  fix c rid and r :: wsman_reply assume c: "tls_inv c" and "rp_socket r = None"
  then show "tls_inv (c\<lparr>wc_replies := (wc_replies c)(rid \<mapsto> r)\<rparr>)"
    using tls_inv_socket [OF c] by (intro tls_inv_sockets [OF c]) (simp_all add: socketOf_def split: if_splits)
next
  fix c rid assume "tls_inv c"
  then show "tls_inv (onSocket rid (\<lambda>s. s\<lparr>sk_connected := True\<rparr>) c)" "tls_inv (onSocket rid (\<lambda>s. s\<lparr>sk_queued := False\<rparr>) c)"
    by (intro tls_inv_onSocket; simp add: sock_ok_def)+
next
  fix c rid s assume "tls_inv c" and "socketOf c rid = Some s" and "\<not> sk_refused s"
  then show "tls_inv (onSocket rid (\<lambda>s. s\<lparr>sk_encrypted := True\<rparr>) c)"
    by (intro tls_inv_onSocket) (simp_all add: sock_ok_def)
next
  fix c rid s assume "tls_inv c" and "socketOf c rid = Some s" and "sk_encrypted s"
  then show "tls_inv (onSocket rid (\<lambda>s. s\<lparr>sk_queued := True\<rparr>) c)"
    by (intro tls_inv_onSocket) (simp_all add: sock_ok_def)
next
  fix c rid s assume "tls_inv c" and "socketOf c rid = Some s" and "\<not> sk_encrypted s"
  then show "tls_inv (refuse rid c)"
    unfolding refuse_onSocket by (intro tls_inv_onSocket) (simp_all add: sock_ok_def)
next
  fix c rid s fp assume c: "tls_inv c" and "fp \<in> set (wc_trustedFingerprints c)"
  then have "everPinned c fp" by (rule tls_inv_pins)
  with c show "tls_inv (ignoreErrors rid fp c)"
    unfolding refuse_onSocket by (intro tls_inv_onSocket) (simp_all add: sock_ok_def)
next
  fix c rid s assume "tls_inv c" and "socketOf c rid = Some s" and "sk_queued s"
  then show "sk_encrypted s"
    using tls_inv_socket [of c rid s] by (simp add: sock_ok_def)
next
  fix c rid s b assume c: "tls_inv c" and "socketOf c rid = Some s" and "sk_tls s \<longrightarrow> sk_encrypted s"
  then show "tls_inv (say (Wrote rid s b) c)"
    using tls_inv_socket [of c rid s] by (intro tls_inv_say) auto
next
  fix c rid assume c: "tls_inv c"
  have "tls_inv (c\<lparr>wc_nc := wc_nc c + 1\<rparr>)"
    by (rule tls_inv_same [OF c]) simp_all
  then show "tls_inv (say (HeaderMade rid (digestNonce (wc_challenge c)) (wc_nc c + 1)) (c\<lparr>wc_nc := wc_nc c + 1\<rparr>))"
    by (intro tls_inv_say) auto
next
  fix c ps assume c: "tls_inv c"
  have "tls_inv (c\<lparr>wc_challenge := ch\<rparr>)" "tls_inv (c\<lparr>wc_challenge := ch, wc_nc := 0\<rparr>)" for ch
    by (rule tls_inv_same [OF c]; simp)+
  then show "tls_inv (installChallenge ps c)"
    by (auto simp: installChallenge_def Let_def intro!: tls_inv_say)
next
  fix c assume c: "tls_inv c"
  show "tls_inv (c\<lparr>wc_challenge := (wc_challenge c)\<lparr>haveDigestChallenge := False\<rparr>\<rparr>)"
    by (rule tls_inv_same [OF c]) simp_all
next
  fix c fps assume c: "tls_inv c"
  then show "tls_inv (say (Pinned fps) (c\<lparr>wc_trustedFingerprints := fps\<rparr>))"
    by (rule tls_inv_log [where e = "Pinned fps"]) (auto simp: everPinned_def)
qed

text \<open>C9: No request reaches a TLS peer nobody vouched for. Whatever happens to a client, in whatever order: every request it
  ever wrote on a TLS connection, the digest credentials included, was written after the handshake completed, on a
  connection whose certificate errors were either none or ignored for a fingerprint the owner had pinned.
\<close>

theorem wsman_peer_vouched:
  assumes "wreach admits c" and "Wrote rid s b \<in> set (wc_log c)" and "sk_tls s"
  shows "sk_encrypted s \<and> \<not> sk_refused s \<and>
    (\<forall>fp. sk_ignored s = Some fp \<longrightarrow> (\<exists>fps. Pinned fps \<in> set (wc_log c) \<and> fp \<in> set fps))"
proof -
  have "tls_inv newClient"
    by (simp add: tls_inv_def newClient_def socketOf_def)
  with assms(1) have "tls_inv c"
    by (rule tls.wreach_keeps)
  then show ?thesis
    using tls_inv_wrote [of c rid s b] assms(2,3) by (auto simp: sock_ok_def everPinned_def)
qed

text \<open>A run over TLS against a pinned certificate, one event after the other.\<close>

definition demoCert :: certificate where
  "demoCert = \<lparr>x_subjects = [], x_issuers = [], x_notBefore = [], x_notAfter = [], x_der = [1]\<rparr>"

fun playEvents :: "net \<Rightarrow> wsev list \<Rightarrow> wsman_client \<Rightarrow> wsman_client" where
  "playEvents n [] c = c"
| "playEvents n (e # es) c = playEvents n es (handle n e c)"

fun playable :: "net \<Rightarrow> wsev list \<Rightarrow> wsman_client \<Rightarrow> bool" where
  "playable n [] c = True"
| "playable n (e # es) c = (signalled e c \<and> playable n es (handle n e c))"

lemma playEvents_reach: "wreach (\<lambda>_ _. True) c \<Longrightarrow> playable n es c \<Longrightarrow> wreach (\<lambda>_ _. True) (playEvents n es c)"
  by (induction n es c rule: playEvents.induct) (auto intro: wreach_step)

lemmas client_eval =
  newClient_def demoNet_def demoCert_def sendEnvelope_def sendSerialized_def currentIsNull_def startNow_def noChallenge_def
  startTransport_def retryWithDigest_def openConnection_def askFactory_def factoryDone_def settle_def dial_def armTimeout_def
  replyFor_def newReply_def onConnected_def onEncrypted_def onQueuedWrite_def onSslErrors_def doWrite_def onSocket_def
  refuse_def ignoreErrors_def setTrustedFingerprints_def withSocket_def socketOf_def directSocket_def signalled_def
  emitFinished_def endWith_def breakOff_def conclude_def stopTimer_def Let_def

definition demoTlsEvents :: "wsev list" where
  "demoTlsEvents =
     [SetEndpoint \<lparr>ep_scheme = blit ''https'', ep_host = [], ep_port = -1, ep_path = []\<rparr>, SetTrusted [fingerprintFor demoNet demoCert],
      Send [] [], Connected 0, SslErrors 0 [demoCert], Encrypted 0]"

definition demoTlsSock :: wsock where
  "demoTlsSock = \<lparr>sk_tls = True, sk_wired = True, sk_prompts = True, sk_auth = [], sk_factory = False, sk_connected = True,
     sk_encrypted = True, sk_refused = False, sk_ignored = Some (fingerprintFor demoNet demoCert), sk_queued = False\<rparr>"

lemma demoTls_tls: "isTls \<lparr>ep_scheme = blit ''https'', ep_host = [], ep_port = -1, ep_path = []\<rparr>"
  by (simp add: isTls_def blit_def bytesToLower_def lowerByte_def)

lemma demoTls_playable: "playable demoNet demoTlsEvents newClient"
  by (simp add: demoTlsEvents_def client_eval demoTls_tls)

lemma demoTls_wrote: "\<exists>b. Wrote 0 demoTlsSock b \<in> set (wc_log (playEvents demoNet demoTlsEvents newClient))"
  by (simp add: demoTlsEvents_def demoTlsSock_def client_eval demoTls_tls)

theorem wsman_peer_vouched_witness:
  "\<exists>fps. Pinned fps \<in> set (wc_log (playEvents demoNet demoTlsEvents newClient)) \<and> fingerprintFor demoNet demoCert \<in> set fps"
proof -
  obtain b where "Wrote 0 demoTlsSock b \<in> set (wc_log (playEvents demoNet demoTlsEvents newClient))"
    using demoTls_wrote by blast
  then show ?thesis
    using wsman_peer_vouched [OF playEvents_reach [OF wreach_new demoTls_playable]] by (auto simp: demoTlsSock_def)
qed

section \<open>Counters\<close>

fun headerOf :: "wsout \<Rightarrow> (bytes \<times> u64) option" where
  "headerOf (HeaderMade rid nonce k) = Some (nonce, k)"
| "headerOf _ = None"

fun nonceOf :: "wsout \<Rightarrow> bytes option" where
  "nonceOf (NonceInstalled nonce) = Some nonce"
| "nonceOf _ = None"

definition headers :: "wsout list \<Rightarrow> (bytes \<times> u64) list" where
  "headers = List.map_filter headerOf"

definition nonces :: "wsout list \<Rightarrow> bytes list" where
  "nonces = List.map_filter nonceOf"

lemma headers_snoc [simp]: "headers (l @ [e]) = headers l @ (case headerOf e of None \<Rightarrow> [] | Some x \<Rightarrow> [x])"
  by (simp add: headers_def map_filter_def split: option.splits)

lemma nonces_snoc [simp]: "nonces (l @ [e]) = nonces l @ (case nonceOf e of None \<Rightarrow> [] | Some x \<Rightarrow> [x])"
  by (simp add: nonces_def map_filter_def split: option.splits)

text \<open>
  The cached nonce is the last one installed; every header used a nonce that was installed; and as long as no nonce
  is installed twice, the headers are distinct and those with the cached nonce have counters up to the current one.
\<close>

definition nonce_inv :: "challenge \<Rightarrow> u64 \<Rightarrow> wsout list \<Rightarrow> bool" where
  "nonce_inv ch k l \<longleftrightarrow>
     (haveDigestChallenge ch \<longrightarrow> digestNonce ch \<noteq> []) \<and>
     (digestNonce ch \<noteq> [] \<longrightarrow> digestNonce ch \<in> set (nonces l)) \<and>
     unat k \<le> length (headers l) \<and>
     (\<forall>h \<in> set (headers l). fst h \<in> set (nonces l)) \<and>
     (distinct (nonces l) \<and> length (headers l) < 2 ^ 64 \<longrightarrow>
        distinct (headers l) \<and> (\<forall>h \<in> set (headers l). fst h = digestNonce ch \<longrightarrow> unat (snd h) \<le> unat k))"

definition count_inv :: "wsman_client \<Rightarrow> bool" where
  "count_inv c \<longleftrightarrow> tls_inv c \<and> nonce_inv (wc_challenge c) (wc_nc c) (wc_log c)"

lemma nonce_inv_other: "headerOf e = None \<Longrightarrow> nonceOf e = None \<Longrightarrow> nonce_inv ch k (l @ [e]) = nonce_inv ch k l"
  by (simp add: nonce_inv_def)

lemma unat_inc: "unat (k + 1 :: u64) = (unat k + 1) mod 2 ^ 64"
  by (simp add: unat_word_ariths)

lemma nonce_inv_header:
  assumes "nonce_inv ch k l" and "haveDigestChallenge ch"
  shows "nonce_inv ch (k + 1) (l @ [HeaderMade rid (digestNonce ch) (k + 1)])"
proof -
  have le: "unat (k + 1) \<le> unat k + 1" "unat k \<le> length (headers l)"
    using assms(1) by (simp_all add: unat_inc nonce_inv_def)
  have n: "digestNonce ch \<in> set (nonces l)" "digestNonce ch \<noteq> []"
    using assms by (auto simp: nonce_inv_def)
  have "distinct (headers l @ [(digestNonce ch, k + 1)]) \<and>
      (\<forall>h \<in> set (headers l @ [(digestNonce ch, k + 1)]). fst h = digestNonce ch \<longrightarrow> unat (snd h) \<le> unat (k + 1))"
    if d: "distinct (nonces l)" "length (headers l) + 1 < 2 ^ 64"
  proof -
    have up: "unat (k + 1) = unat k + 1"
      using d(2) le(2) by (simp add: unat_inc)
    have old: "distinct (headers l)" "\<forall>h \<in> set (headers l). fst h = digestNonce ch \<longrightarrow> unat (snd h) \<le> unat k"
      using assms(1) d by (simp_all add: nonce_inv_def)
    then have "(digestNonce ch, k + 1) \<notin> set (headers l)"
      using up by fastforce
    with old up show ?thesis by fastforce
  qed
  with assms n le show ?thesis
    by (auto simp: nonce_inv_def)
qed

lemma nonce_inv_install:
  assumes "nonce_inv ch k l" and "haveDigestChallenge ch' \<longrightarrow> digestNonce ch' \<noteq> []"
  shows "digestNonce ch' = digestNonce ch \<Longrightarrow> nonce_inv ch' k l"
    and "nonce_inv ch' 0 (l @ [NonceInstalled (digestNonce ch')])"
proof -
  show "digestNonce ch' = digestNonce ch \<Longrightarrow> nonce_inv ch' k l"
    using assms by (auto simp: nonce_inv_def)
  have "fst h \<noteq> digestNonce ch'" if "h \<in> set (headers l)" "digestNonce ch' \<notin> set (nonces l)" for h
    using assms(1) that by (auto simp: nonce_inv_def)
  then show "nonce_inv ch' 0 (l @ [NonceInstalled (digestNonce ch')])"
    using assms by (auto simp: nonce_inv_def)
qed

lemma installChallenge_nonce:
  assumes "nonce_inv (wc_challenge c) (wc_nc c) (wc_log c)"
  shows "nonce_inv (wc_challenge (installChallenge ps c)) (wc_nc (installChallenge ps c)) (wc_log (installChallenge ps c))"
proof -
  have "haveDigestChallenge (challengeOf ps) \<longrightarrow> digestNonce (challengeOf ps) \<noteq> []"
    by (simp add: challengeOf_def)
  from nonce_inv_install [OF assms this] show ?thesis
    by (cases "digestNonce (challengeOf ps) = digestNonce (wc_challenge c)") (simp_all add: installChallenge_def Let_def)
qed

text \<open>Changes that touch neither challenge nor counter, and leave the log or add something unrelated.\<close>

lemma count_tls: "count_inv c \<Longrightarrow> tls_inv c"
  by (simp add: count_inv_def)

lemma count_inv_same:
  assumes "count_inv c" and "tls_inv d" and "wc_challenge d = wc_challenge c" and "wc_nc d = wc_nc c" and "wc_log d = wc_log c"
  shows "count_inv d"
  using assms by (simp add: count_inv_def)

lemma count_inv_said:
  assumes "count_inv c" and "tls_inv d" and "wc_challenge d = wc_challenge c" and "wc_nc d = wc_nc c" and "wc_log d = wc_log c @ [e]"
    and "headerOf e = None" and "nonceOf e = None"
  shows "count_inv d"
  using assms by (simp add: count_inv_def nonce_inv_other)

lemma quiet_no_secret: "quiet_out e \<Longrightarrow> headerOf e = None" "quiet_out e \<Longrightarrow> nonceOf e = None"
  by (cases e; simp)+

interpretation counters: client_contract count_inv
proof
  fix c d assume c: "count_inv c" "same_secrets c d"
  show "count_inv d"
    by (rule count_inv_same [OF c(1) tls.other_fields [OF count_tls [OF c(1)] c(2)]]) (use c(2) in \<open>simp_all add: same_secrets_def\<close>)
next
  fix c e assume c: "count_inv c" "quiet_out e"
  show "count_inv (say e c)"
  proof (rule count_inv_said [OF c(1) tls.saying [OF count_tls [OF c(1)] c(2)]])
    show "headerOf e = None" "nonceOf e = None"
      using c(2) by (rule quiet_no_secret)+
  qed simp_all
next
  fix c rid and f :: "wsman_reply \<Rightarrow> wsman_reply"
  assume c: "count_inv c" and f: "\<And>r. wc_replies c rid = Some r \<Longrightarrow> rp_socket (f r) = rp_socket r"
  have "tls_inv (onReply rid f c)" by (rule tls.editing [OF count_tls [OF c] f])
  from c this show "count_inv (onReply rid f c)" by (rule count_inv_same) simp_all
next
  fix c rid and s :: wsock assume c: "count_inv c" "newSocket s"
  show "count_inv (onReply rid (\<lambda>r. r\<lparr>rp_socket := Some s\<rparr>) c)"
    by (rule count_inv_same [OF c(1) tls.socket_opened [OF count_tls [OF c(1)] c(2)]]) simp_all
next
  fix c rid assume c: "count_inv c"
  note t = count_tls [OF c]
  show "count_inv (onReply rid (\<lambda>r. r\<lparr>rp_socket := None\<rparr>) c)"
    by (rule count_inv_same [OF c tls.dropping [OF t]]) simp_all
  show "count_inv (c\<lparr>wc_replies := (wc_replies c)(rid := None)\<rparr>)"
    by (rule count_inv_same [OF c tls.forgetting [OF t]]) simp_all
  show "count_inv (onSocket rid (\<lambda>s. s\<lparr>sk_connected := True\<rparr>) c)"
    by (rule count_inv_same [OF c tls.connecting [OF t]]) simp_all
  show "count_inv (onSocket rid (\<lambda>s. s\<lparr>sk_queued := False\<rparr>) c)"
    by (rule count_inv_same [OF c tls.unqueueing [OF t]]) simp_all
next
  fix c rid and r :: wsman_reply assume c: "count_inv c" "rp_socket r = None"
  show "count_inv (c\<lparr>wc_replies := (wc_replies c)(rid \<mapsto> r)\<rparr>)"
    by (rule count_inv_same [OF c(1) tls.creating [OF count_tls [OF c(1)] c(2)]]) simp_all
next
  fix c rid s assume c: "count_inv c" and s: "socketOf c rid = Some s"
  note t = count_tls [OF c]
  { assume a: "\<not> sk_refused s"
    show "count_inv (onSocket rid (\<lambda>s. s\<lparr>sk_encrypted := True\<rparr>) c)"
      by (rule count_inv_same [OF c tls.encrypting [OF t s a]]) simp_all }
  { assume a: "sk_encrypted s"
    show "count_inv (onSocket rid (\<lambda>s. s\<lparr>sk_queued := True\<rparr>) c)"
      by (rule count_inv_same [OF c tls.queueing [OF t s a]]) simp_all }
  { assume a: "\<not> sk_encrypted s"
    show "count_inv (refuse rid c)"
      by (rule count_inv_same [OF c tls.refusing [OF t s a]]) (simp_all add: refuse_onSocket) }
  { fix fp assume a: "fp \<in> set (wc_trustedFingerprints c)"
    show "count_inv (ignoreErrors rid fp c)"
      by (rule count_inv_same [OF c tls.ignoring [OF t s a]]) (simp_all add: refuse_onSocket) }
  { assume a: "sk_queued s"
    show "sk_encrypted s" by (rule tls.queued_encrypted [OF t s a]) }
  { fix b assume a: "sk_tls s \<longrightarrow> sk_encrypted s"
    show "count_inv (say (Wrote rid s b) c)"
      by (rule count_inv_said [where e = "Wrote rid s b", OF c tls.writing [OF t s a]]) simp_all }
next
  fix c rid assume c: "count_inv c" and h: "haveDigestChallenge (wc_challenge c)"
  show "count_inv (say (HeaderMade rid (digestNonce (wc_challenge c)) (wc_nc c + 1)) (c\<lparr>wc_nc := wc_nc c + 1\<rparr>))"
    using tls.counting [OF count_tls [OF c] h] nonce_inv_header [OF _ h] c by (simp add: count_inv_def)
next
  fix c ps assume c: "count_inv c"
  show "count_inv (installChallenge ps c)"
    using tls.installing [OF count_tls [OF c], of ps] installChallenge_nonce [of c ps] c by (simp add: count_inv_def)
next
  fix c assume c: "count_inv c"
  show "count_inv (c\<lparr>wc_challenge := (wc_challenge c)\<lparr>haveDigestChallenge := False\<rparr>\<rparr>)"
    using tls.forgetting_challenge [OF count_tls [OF c]] c
      nonce_inv_install(1) [of "wc_challenge c" "wc_nc c" "wc_log c" "(wc_challenge c)\<lparr>haveDigestChallenge := False\<rparr>"]
    by (simp add: count_inv_def)
next
  fix c fps assume c: "count_inv c"
  show "count_inv (say (Pinned fps) (c\<lparr>wc_trustedFingerprints := fps\<rparr>))"
    by (rule count_inv_said [where e = "Pinned fps", OF c tls.pinning [OF count_tls [OF c]]]) simp_all
qed

lemma count_inv_new: "count_inv newClient"
  by (simp add: count_inv_def tls_inv_def newClient_def socketOf_def nonce_inv_def noChallenge_def headers_def nonces_def map_filter_def)

text \<open>C29: A counter is never used twice with the same nonce, however many requests race. In every reachable state, as long as
  the device does not hand out a nonce it handed out before, and fewer than \<open>2 ^ 64\<close> headers were made, all the
  \<open>Authorization\<close> headers the client made differ in the nonce or in the counter, so the device's replay check never
  rejects one.
\<close>

theorem digest_counter_unique:
  assumes "wreach admits c" and "distinct (nonces (wc_log c))" and "length (headers (wc_log c)) < 2 ^ 64"
  shows "distinct (headers (wc_log c))"
  using counters.wreach_keeps [OF assms(1) count_inv_new] assms(2,3) by (simp add: count_inv_def nonce_inv_def)

section \<open>A login\<close>

text \<open>
  The answer of a device that wants credentials: a 401 with one \<open>WWW-Authenticate\<close> header among any others, with quoted values and
  bare tokens, and with any page after the header block. Values are printed as they are: a value with a quote, which would have to
  be escaped, is left out.
\<close>

record device_challenge =
  dc_before :: "(bytes \<times> bytes) list"
  dc_directives :: "directive list"
  dc_after :: "(bytes \<times> bytes) list"
  dc_page :: bytes

definition directives :: "device_challenge \<Rightarrow> (bytes \<rightharpoonup> bytes)" where
  "directives ch = directiveMap (dc_directives ch)"

definition challengeHeaders :: "device_challenge \<Rightarrow> (bytes \<times> bytes) list" where
  "challengeHeaders ch = dc_before ch @ [(blit ''WWW-Authenticate'', printChallenge (dc_directives ch))] @ dc_after ch"

definition challenge401 :: "device_challenge \<Rightarrow> bytes" where
  "challenge401 ch = headerBlock 401 (challengeHeaders ch) @ headersEnd @ dc_page ch"

definition printable :: "device_challenge \<Rightarrow> bool" where
  "printable ch \<longleftrightarrow>
     dc_directives ch \<noteq> [] \<and> distinct (map fst (dc_directives ch)) \<and>
     (\<forall>(k, v, q) \<in> set (dc_directives ch). directiveOk (k, v, q) \<and> set v \<inter> {10, 13} = {}) \<and>
     (\<forall>kv \<in> set (dc_before ch @ dc_after ch). plainHeader kv \<and> bytesToLower (fst kv) \<noteq> blit ''www-authenticate'')"

lemma printDirectives_plain:
  assumes "\<forall>(k, v, q) \<in> set kvs. directiveOk (k, v, q) \<and> set v \<inter> {10, 13} = {}"
  shows "set (printDirectives kvs) \<inter> {10, 13} = {}"
  using assms
proof (induction kvs rule: printDirectives.induct)
  case (2 k v q kvs)
  have "10 \<notin> set k" "13 \<notin> set k"
    using "2.prems" by (auto simp: plainKey_def isAsciiSpace_def)
  with 2 show ?case by auto
qed simp

lemma printDirectives_ends:
  "\<forall>d \<in> set kvs. directiveOk d \<Longrightarrow> kvs \<noteq> [] \<Longrightarrow> printDirectives kvs \<noteq> [] \<and> \<not> isAsciiSpace (List.last (printDirectives kvs))"
proof (induction kvs rule: printDirectives.induct)
  case (2 k v q kvs)
  have "v \<noteq> [] \<and> \<not> isAsciiSpace (List.last v)" if "\<not> q" using "2.prems"(1) that by auto
  with 2 show ?case by (cases "kvs = []"; cases q) (auto simp: isAsciiSpace_def)
qed simp

lemma trimmed_ends: "xs \<noteq> [] \<Longrightarrow> \<not> isAsciiSpace (hd xs) \<Longrightarrow> \<not> isAsciiSpace (List.last xs) \<Longrightarrow> bytesTrimmed xs = xs"
proof -
  assume a: "xs \<noteq> []" "\<not> isAsciiSpace (hd xs)" "\<not> isAsciiSpace (List.last xs)"
  then have "dropWhile isAsciiSpace xs = xs" by (cases xs) auto
  moreover have "dropWhile isAsciiSpace (rev xs) = rev xs"
    using a by (cases "rev xs") (auto simp: hd_rev [symmetric])
  ultimately show ?thesis by (simp add: bytesTrimmed_def)
qed

lemma challenge_header_plain:
  assumes "printable ch"
  shows "\<forall>kv \<in> set (challengeHeaders ch). plainHeader kv"
proof -
  let ?v = "printChallenge (dc_directives ch)"
  have ok: "\<forall>d \<in> set (dc_directives ch). directiveOk d" using assms by (auto simp: printable_def)
  have "bytesTrimmed ?v = ?v"
    using assms printDirectives_ends [OF ok]
    by (intro trimmed_ends) (auto simp: printable_def printChallenge_def blit_def isAsciiSpace_def)
  moreover have "set ?v \<inter> {10, 13} = {}"
    using printDirectives_plain [of "dc_directives ch"] assms by (auto simp: printable_def printChallenge_def blit_def)
  moreover have "bytesTrimmed (blit ''WWW-Authenticate'') = blit ''WWW-Authenticate''"
    by (simp add: blit_def bytesTrimmed_def isAsciiSpace_def)
  ultimately have "plainHeader (blit ''WWW-Authenticate'', ?v)"
    by (simp add: plainHeader_def) (simp add: blit_def)
  then show ?thesis using assms by (auto simp: challengeHeaders_def printable_def)
qed

lemma challenge_header_found:
  assumes "printable ch"
  shows "map_of (rev (map (\<lambda>kv. (bytesToLower (fst kv), snd kv)) (challengeHeaders ch))) (blit ''www-authenticate'')
    = Some (printChallenge (dc_directives ch))"
proof -
  let ?low = "\<lambda>kv :: bytes \<times> bytes. (bytesToLower (fst kv), snd kv)"
  have "bytesToLower (blit ''WWW-Authenticate'') = blit ''www-authenticate''"
    by (simp add: blit_def bytesToLower_def lowerByte_def)
  moreover have "\<forall>kv \<in> set (dc_after ch). bytesToLower (fst kv) \<noteq> blit ''www-authenticate''"
    using assms by (simp add: printable_def)
  then have "map_of (rev (map ?low (dc_after ch))) (blit ''www-authenticate'') = None"
    unfolding map_of_eq_None_iff by (auto simp del: not_Some_eq)
  ultimately show ?thesis
    by (simp add: challengeHeaders_def map_add_def)
qed

lemma challenge401_read:
  assumes "fresh r" and "printable ch"
  shows "\<exists>q. readPass True (challenge401 ch) r = (q, Challenged) \<and>
    parseDigestChallenge (valueOf (rp_responseHeaders q) ''www-authenticate'') = directives ch \<and>
    valueOf (rp_responseHeaders q) ''www-authenticate'' \<noteq> [] \<and>
    (\<exists>u st hs. q = r\<lparr>rp_responseBuffer := u, rp_httpStatus := st, rp_responseHeaders := hs\<rparr>)"
proof -
  let ?hdrs = "challengeHeaders ch"
  let ?r1 = "feedReply (challenge401 ch) r"
  note plain = challenge_header_plain [OF assms(2)]
  have buf: "rp_responseBuffer ?r1 = headerBlock 401 ?hdrs @ headersEnd @ dc_page ch"
    using assms(1) by (simp add: fresh_def challenge401_def)
  have found: "indexOf headersEnd (rp_responseBuffer ?r1) = Some (length (headerBlock 401 ?hdrs))"
    unfolding buf by (rule headerBlock_found [OF plain])
  have parsed: "parseHeaders (take (length (headerBlock 401 ?hdrs)) (rp_responseBuffer ?r1)) =
      Inr (401, map_of (rev (map (\<lambda>kv. (bytesToLower (fst kv), snd kv)) ?hdrs)))"
    unfolding buf using parse_headerBlock [OF plain, of 401] by simp
  have "parseDigestChallenge (printChallenge (dc_directives ch)) = directives ch"
    unfolding directives_def using assms(2) by (intro challenge_roundtrip') (auto simp: printable_def)
  moreover have "printChallenge (dc_directives ch) \<noteq> []"
    by (simp add: printChallenge_def blit_def)
  ultimately show ?thesis
    using readHeaders_block [OF found, of True] parsed assms(1) challenge_header_found [OF assms(2)]
    by (auto simp: readPass_headers fresh_def valueOf_def afterHeaders_def feedReply_def)
qed

text \<open>A reply that is alone: nobody queues behind it.\<close>

lemma play_reads:
  assumes "wc_replies c rid = Some r" and "\<not> rp_finished r" and "rp_socket r \<noteq> None" and "\<not> rp_slot r"
    and "readReads bs r = (q, Finish [])"
  shows "\<exists>p. wc_replies (playEvents n (map (\<lambda>b. ReadyRead rid b True) bs) c) rid = Some p \<and> rp_finished p \<and>
    rp_errorString p = rp_errorString r \<and> rp_body p = rp_body q \<and> rp_httpStatus p = rp_httpStatus q \<and>
    set (wc_log c) \<subseteq> set (wc_log (playEvents n (map (\<lambda>b. ReadyRead rid b True) bs) c))"
  using assms
proof (induction bs arbitrary: c r)
  case (Cons b bs)
  obtain r1 v where rp: "readPass True b r = (r1, v)" by (cases "readPass True b r")
  have k: "rp_socket r1 = rp_socket r" "rp_finished r1 = rp_finished r" "rp_slot r1 = rp_slot r" "rp_errorString r1 = rp_errorString r"
    using readPass_keeps [of r True b] rp by (simp_all add: readKeeps_def)
  show ?case
  proof (cases v)
    case More
    have h: "handle n (ReadyRead rid b True) c = onReply rid (\<lambda>_. r1) c"
      using Cons.prems rp More by (auto simp: readMore_def applyVerdict_def)
    have "\<exists>p. wc_replies (playEvents n (map (\<lambda>b. ReadyRead rid b True) bs) (onReply rid (\<lambda>_. r1) c)) rid = Some p \<and> rp_finished p \<and>
        rp_errorString p = rp_errorString r1 \<and> rp_body p = rp_body q \<and> rp_httpStatus p = rp_httpStatus q \<and>
        set (wc_log (onReply rid (\<lambda>_. r1) c)) \<subseteq> set (wc_log (playEvents n (map (\<lambda>b. ReadyRead rid b True) bs) (onReply rid (\<lambda>_. r1) c)))"
      using Cons.prems rp More k by (intro Cons.IH) auto
    with h k(4) show ?thesis by simp
  next
    case (Finish e)
    with Cons.prems(5) rp have q: "q = r1" "e = []" by simp_all
    let ?d = "say (Finished rid) (onReply rid (\<lambda>_. conclude [] r1) c)"
    have h: "handle n (ReadyRead rid b True) c = ?d"
      using Cons.prems rp Finish q k
      by (auto simp: readMore_def applyVerdict_def finishReply_def emitFinished_def Let_def onReply_twice conclude_def stopTimer_def)
    have rest: "playEvents n (map (\<lambda>b. ReadyRead rid b True) xs) ?d = ?d" for xs
      using Cons.prems(1) by (induction xs) (simp_all add: readMore_def)
    show ?thesis
      using Cons.prems(1) h rest [of bs] q k(4) by (auto simp: conclude_def stopTimer_def)
  next
    case Challenged
    with Cons.prems(5) rp show ?thesis by simp
  qed
qed simp

text \<open>The four events up to the second request, each from the state the previous one leaves.\<close>

definition plainClient :: "wsman_client \<Rightarrow> bool" where
  "plainClient c \<longleftrightarrow>
     \<not> wc_serializeRequests c \<and> \<not> wc_socketFactory c \<and> \<not> isTls (wc_endpoint c) \<and>
     \<not> haveDigestChallenge (wc_challenge c) \<and> wc_user c \<noteq> []"

definition waiting :: "wsman_client \<Rightarrow> nat \<Rightarrow> wsman_reply \<Rightarrow> bytes \<Rightarrow> bool" where
  "waiting c rid r auth \<longleftrightarrow>
     wc_replies c rid = Some r \<and> \<not> rp_finished r \<and> \<not> rp_slot r \<and> rp_errorString r = [] \<and> rp_responseBuffer r = [] \<and> rp_body r = [] \<and>
     rp_readingChunkSize r \<and>
     (\<exists>s. rp_socket r = Some s \<and> sk_auth s = auth \<and> \<not> sk_tls s)"

lemma login_send:
  assumes "plainClient c" and "rid = wc_nextReply c" and "r0 = replyFor (wc_endpoint c) env act"
  shows "\<exists>r d. handle n (Send env act) c = d \<and> waiting d rid r [] \<and> rp_digestRetries r = 0 \<and>
    (\<forall>a. requestBytes r a = requestBytes r0 a) \<and> rp_requestPath r = rp_requestPath r0 \<and>
    wc_endpoint d = wc_endpoint c \<and> wc_user d = wc_user c \<and> wc_pass d = wc_pass c \<and> wc_challenge d = wc_challenge c \<and>
    wc_socketFactory d = wc_socketFactory c"
  using assms
  by (simp add: plainClient_def sendEnvelope_def startNow_def startTransport_def openConnection_def dial_def settle_def Let_def
      waiting_def armTimeout_def directSocket_def replyFor_def newReply_def requestBytes_def)

lemma login_connected:
  assumes "waiting c rid r auth"
  shows "\<exists>r' d s. handle n (Connected rid) c = d \<and> waiting d rid r' auth \<and> fresh r' \<and> rp_digestRetries r' = rp_digestRetries r \<and>
    (\<forall>a. requestBytes r' a = requestBytes r a) \<and> rp_requestPath r' = rp_requestPath r \<and>
    wc_log d = wc_log c @ [Wrote rid s (requestBytes r auth)] \<and>
    wc_endpoint d = wc_endpoint c \<and> wc_user d = wc_user c \<and> wc_pass d = wc_pass c \<and> wc_challenge d = wc_challenge c \<and> wc_nc d = wc_nc c \<and>
    wc_socketFactory d = wc_socketFactory c"
proof -
  obtain s where s: "rp_socket r = Some s" "sk_auth s = auth" "\<not> sk_tls s" and r: "wc_replies c rid = Some r" "\<not> rp_finished r"
    using assms by (auto simp: waiting_def)
  let ?r = "r\<lparr>rp_socket := Some (s\<lparr>sk_connected := True\<rparr>), rp_state := R_ReadingHeaders\<rparr>"
  have "wc_replies (handle n (Connected rid) c) rid = Some ?r" and
    "wc_log (handle n (Connected rid) c) = wc_log c @ [Wrote rid (s\<lparr>sk_connected := True\<rparr>) (requestBytes r auth)]"
    using s r by (simp_all add: withSocket_def socketOf_def onConnected_def onSocket_def doWrite_def Let_def requestBytes_def)
  moreover have "wc_endpoint (handle n (Connected rid) c) = wc_endpoint c" "wc_user (handle n (Connected rid) c) = wc_user c"
    "wc_pass (handle n (Connected rid) c) = wc_pass c" "wc_challenge (handle n (Connected rid) c) = wc_challenge c"
    "wc_nc (handle n (Connected rid) c) = wc_nc c" "wc_socketFactory (handle n (Connected rid) c) = wc_socketFactory c"
    using s r by (simp_all add: withSocket_def socketOf_def onConnected_def onSocket_def doWrite_def Let_def)
  moreover have "waiting (handle n (Connected rid) c) rid ?r auth"
    using calculation(1) assms s by (simp add: waiting_def)
  moreover have "fresh ?r"
    using assms by (simp add: fresh_def waiting_def)
  ultimately show ?thesis
    by (intro exI [of _ ?r] exI [of _ "handle n (Connected rid) c"] exI [of _ "s\<lparr>sk_connected := True\<rparr>"])
      (simp add: requestBytes_def)
qed

text \<open>What a 401 with a well-formed challenge leaves behind.\<close>

lemma challenged_step:
  assumes "wc_replies c rid = Some r" and "\<not> rp_finished r" and "rp_socket r \<noteq> None" and "fresh r" and "rp_digestRetries r = 0"
    and "printable ch" and "haveDigestChallenge (challengeOf (directives ch))"
  shows "\<exists>u st hs. handle n (ReadyRead rid (challenge401 ch) True) c =
    settle n rid (retryWithDigest n rid (onReply rid
      (\<lambda>_. r\<lparr>rp_responseBuffer := u, rp_httpStatus := st, rp_responseHeaders := hs, rp_digestRetries := 1\<rparr>)
      (installChallenge (directives ch) c)))"
proof -
  obtain q where q: "readPass True (challenge401 ch) r = (q, Challenged)"
      "parseDigestChallenge (valueOf (rp_responseHeaders q) ''www-authenticate'') = directives ch"
      "valueOf (rp_responseHeaders q) ''www-authenticate'' \<noteq> []"
      "\<exists>u st hs. q = r\<lparr>rp_responseBuffer := u, rp_httpStatus := st, rp_responseHeaders := hs\<rparr>"
    using challenge401_read [OF assms(4,6)] by blast
  have "handle n (ReadyRead rid (challenge401 ch) True) c = onChallenge n rid q (onReply rid (\<lambda>_. q) c)"
    using assms(1-3) q(1) by (auto simp: readMore_def applyVerdict_def)
  also have "... = settle n rid (retryWithDigest n rid (onReply rid (\<lambda>r. r\<lparr>rp_digestRetries := rp_digestRetries r + 1\<rparr>)
      (installChallenge (directives ch) (onReply rid (\<lambda>_. q) c))))"
    using q(2,3,4) assms(5,7) by (auto simp: onChallenge_def Let_def installChallenge_def)
  also have "installChallenge (directives ch) (onReply rid (\<lambda>_. q) c) = onReply rid (\<lambda>_. q) (installChallenge (directives ch) c)"
    by (simp add: installChallenge_def Let_def onReply_def say_def)
  finally have h: "handle n (ReadyRead rid (challenge401 ch) True) c = settle n rid (retryWithDigest n rid (onReply rid
      (\<lambda>_. q\<lparr>rp_digestRetries := rp_digestRetries q + 1\<rparr>) (installChallenge (directives ch) c)))"
    by (simp add: onReply_twice del: handle.simps)
  obtain u st hs where "q = r\<lparr>rp_responseBuffer := u, rp_httpStatus := st, rp_responseHeaders := hs\<rparr>"
    using q(4) by blast
  then show ?thesis
    unfolding h using assms(5) by (intro exI [of _ u] exI [of _ st] exI [of _ hs]) simp
qed

lemma login_challenged:
  assumes "waiting c rid r []" and "fresh r" and "rp_digestRetries r = 0" and "printable ch"
    and "\<not> wc_socketFactory c" and "\<not> isTls (wc_endpoint c)"
    and "haveDigestChallenge (challengeOf (directives ch))" and "digestNonce (challengeOf (directives ch)) \<noteq> digestNonce (wc_challenge c)"
  shows "\<exists>r'. waiting (handle n (ReadyRead rid (challenge401 ch) True) c) rid r'
      (buildDigestHeader (n_md5 n) (n_random n rid) (challengeOf (directives ch)) (blit ''POST'') (rp_requestPath r) (wc_user c) (wc_pass c) 1) \<and>
    (\<forall>a. requestBytes r' a = requestBytes r a)"
proof -
  have r: "wc_replies c rid = Some r" "\<not> rp_finished r" "rp_socket r \<noteq> None" "\<not> rp_slot r"
    using assms(1) by (auto simp: waiting_def)
  from challenged_step [OF r(1-3) assms(2-4,7), of n] obtain u st hs where
    h: "handle n (ReadyRead rid (challenge401 ch) True) c = settle n rid (retryWithDigest n rid (onReply rid
      (\<lambda>_. r\<lparr>rp_responseBuffer := u, rp_httpStatus := st, rp_responseHeaders := hs, rp_digestRetries := 1\<rparr>)
      (installChallenge (directives ch) c)))" by blast
  from assms(1,5,6,7,8) r show ?thesis
    unfolding h
    by (auto simp: retryWithDigest_def settle_def openConnection_def dial_def installChallenge_def Let_def waiting_def forgetAnswer_def
        armTimeout_def directSocket_def authHeaderFor_def requestBytes_def)
qed

lemma playEvents_append: "playEvents n (es @ fs) c = playEvents n fs (playEvents n es c)"
  by (induction n es c rule: playEvents.induct) simp_all

definition loginStart :: "nat \<Rightarrow> bytes \<Rightarrow> bytes \<Rightarrow> device_challenge \<Rightarrow> wsev list" where
  "loginStart rid env act ch = [Send env act, Connected rid, ReadyRead rid (challenge401 ch) True, Connected rid]"

definition loginHeader :: "net \<Rightarrow> wsman_client \<Rightarrow> nat \<Rightarrow> wsman_reply \<Rightarrow> device_challenge \<Rightarrow> bytes" where
  "loginHeader n c rid r ch =
     buildDigestHeader (n_md5 n) (n_random n rid) (challengeOf (directives ch)) (blit ''POST'') (rp_requestPath r) (wc_user c) (wc_pass c) 1"

lemma login_second_request:
  assumes "plainClient c" and "rid = wc_nextReply c" and "r0 = replyFor (wc_endpoint c) env act" and "printable ch"
    and "haveDigestChallenge (challengeOf (directives ch))" and "digestNonce (challengeOf (directives ch)) \<noteq> digestNonce (wc_challenge c)"
  shows "\<exists>r s. waiting (playEvents n (loginStart rid env act ch) c) rid r (loginHeader n c rid r0 ch) \<and> fresh r \<and>
    Wrote rid s (requestBytes r0 (loginHeader n c rid r0 ch)) \<in> set (wc_log (playEvents n (loginStart rid env act ch) c))"
proof -
  define c1 where "c1 = handle n (Send env act) c"
  define c2 where "c2 = handle n (Connected rid) c1"
  define c3 where "c3 = handle n (ReadyRead rid (challenge401 ch) True) c2"
  obtain r1 where r1: "waiting c1 rid r1 []" "rp_digestRetries r1 = 0" "\<forall>a. requestBytes r1 a = requestBytes r0 a"
      "rp_requestPath r1 = rp_requestPath r0" "wc_endpoint c1 = wc_endpoint c" "wc_user c1 = wc_user c" "wc_pass c1 = wc_pass c"
      "wc_challenge c1 = wc_challenge c" "wc_socketFactory c1 = wc_socketFactory c"
    using login_send [OF assms(1,2,3), of n] unfolding c1_def by blast
  obtain r2 where r2: "waiting c2 rid r2 []" "fresh r2" "rp_digestRetries r2 = 0" "\<forall>a. requestBytes r2 a = requestBytes r0 a"
      "rp_requestPath r2 = rp_requestPath r0" "wc_endpoint c2 = wc_endpoint c" "wc_user c2 = wc_user c" "wc_pass c2 = wc_pass c"
      "wc_challenge c2 = wc_challenge c" "wc_socketFactory c2 = wc_socketFactory c"
    using login_connected [OF r1(1), of n] r1 unfolding c2_def by metis
  have "\<not> wc_socketFactory c2" "\<not> isTls (wc_endpoint c2)"
    using assms(1) r2 by (simp_all add: plainClient_def)
  moreover have "digestNonce (challengeOf (directives ch)) \<noteq> digestNonce (wc_challenge c2)"
    using assms(6) r2(9) by simp
  ultimately obtain r3 where r3: "waiting c3 rid r3 (loginHeader n c rid r0 ch)" "\<forall>a. requestBytes r3 a = requestBytes r0 a"
    using login_challenged [OF r2(1-3) assms(4) _ _ assms(5), of n] r2(4,5,7,8) unfolding c3_def loginHeader_def by auto
  have "playEvents n (loginStart rid env act ch) c = handle n (Connected rid) c3"
    by (simp add: loginStart_def c1_def c2_def c3_def del: handle.simps)
  moreover obtain r s where "waiting (handle n (Connected rid) c3) rid r (loginHeader n c rid r0 ch)" "fresh r"
      "wc_log (handle n (Connected rid) c3) = wc_log c3 @ [Wrote rid s (requestBytes r3 (loginHeader n c rid r0 ch))]"
    using login_connected [OF r3(1), of n] by blast
  ultimately show ?thesis
    using r3(2) by (intro exI [of _ r] exI [of _ s]) simp
qed

text \<open>C7: A request gets through the login. A client without credentials in use sends a request over plain HTTP. The device answers
  with a 401, in one read, that has a \<open>WWW-Authenticate: Digest\<close> header with a nonce other than the one the client last knew,
  its directives separated by a comma and a blank, their values quoted (without an escaped character) or bare tokens, among any
  other headers and followed by any page. The client dials again and repeats the request with an \<open>Authorization\<close> header for exactly
  this challenge, the counter 1 and the path of the request. The device answers with any status but 401 and a body, sent with its
  length or in non-empty chunks, not more than 32 MB in all and cut into reads in any way. At the end the reply is finished without
  an error and holds that status and body.
\<close>

theorem wsman_login_completes:
  assumes "plainClient c" and "rid = wc_nextReply c" and "r0 = replyFor (wc_endpoint c) env act" and "printable ch"
    and "haveDigestChallenge (challengeOf (directives ch))" and "digestNonce (challengeOf (directives ch)) \<noteq> digestNonce (wc_challenge c)"
    and "\<forall>kv \<in> set hdrs. otherHeader kv" and "int code < 2 ^ 31" and "code \<noteq> 401"
    and "int (length (response code hdrs f)) \<le> kWsmanMaxBodyBytes" and "\<And>ds. f = Chunked ds \<Longrightarrow> [] \<notin> set ds"
    and "concat bs = response code hdrs f"
    and "d = playEvents n (loginStart rid env act ch @ map (\<lambda>b. ReadyRead rid b True) bs) c"
  shows "\<exists>r s. wc_replies d rid = Some r \<and> rp_finished r \<and> \<not> hasError r \<and> rp_body r = framedBody f \<and> rp_httpStatus r = int code \<and>
    Wrote rid s (requestBytes r0 (loginHeader n c rid r0 ch)) \<in> set (wc_log d)"
proof -
  obtain r s where r: "waiting (playEvents n (loginStart rid env act ch) c) rid r (loginHeader n c rid r0 ch)" "fresh r"
      "Wrote rid s (requestBytes r0 (loginHeader n c rid r0 ch)) \<in> set (wc_log (playEvents n (loginStart rid env act ch) c))"
    using login_second_request [OF assms(1-6), of n] by blast
  obtain q where q: "readReads bs r = (q, Finish [])" "rp_body q = framedBody f" "rp_httpStatus q = int code"
    using response_reads [OF r(2) assms(7-12)] by blast
  show ?thesis
    using play_reads [OF _ _ _ _ q(1), of "playEvents n (loginStart rid env act ch) c" rid n] r q(2,3)
    by (auto simp: assms(13) playEvents_append waiting_def hasError_def)
qed

text \<open>A client with credentials, the challenge of a device, and the response used above.\<close>

definition demoUser :: wsman_client where
  "demoUser = newClient\<lparr>wc_endpoint := demoEndpoint, wc_user := blit ''admin'', wc_pass := blit ''pw''\<rparr>"

definition demoChallenge :: device_challenge where
  "demoChallenge = \<lparr>dc_before = [(blit ''Server'', blit ''AMT'')],
     dc_directives = [(blit ''realm'', blit ''amt'', True), (blit ''nonce'', blit ''n1'', True), (blit ''stale'', blit ''false'', False),
       (blit ''qop'', blit ''auth'', True)],
     dc_after = [(blit ''Content-Length'', blit ''2'')], dc_page = blit ''no''\<rparr>"

lemma demoChallenge_printable: "printable demoChallenge"
  by (simp add: printable_def demoChallenge_def plainHeader_def plainKey_def blit_def isAsciiSpace_def bytesToLower_def lowerByte_def
      bytesTrimmed_def)

lemma demoChallenge_challenge: "haveDigestChallenge (challengeOf (directives demoChallenge))" "digestNonce (challengeOf (directives demoChallenge)) = blit ''n1''"
  by (simp_all add: challengeOf_def demoChallenge_def directives_def directiveMap_def valueOf_def) (simp_all add: blit_def)

lemma demoUser_plain: "plainClient demoUser"
  by (simp add: plainClient_def demoUser_def newClient_def noChallenge_def isTls_def demoEndpoint_def)
    (simp add: blit_def bytesToLower_def lowerByte_def)

theorem wsman_login_completes_witness:
  "\<exists>r. wc_replies (playEvents demoNet (loginStart 0 [] [] demoChallenge @ [ReadyRead 0 demoResponse True]) demoUser) 0 = Some r \<and>
    rp_body r = blit ''<a/>'' \<and> rp_httpStatus r = 200"
proof -
  have "\<forall>kv \<in> set [(blit ''Server'', blit ''AMT'')]. otherHeader kv"
    by (simp add: otherHeader_def plainHeader_def blit_def bytesToLower_def lowerByte_def bytesTrimmed_def isAsciiSpace_def)
  moreover have "int (length (response 200 [(blit ''Server'', blit ''AMT'')] (Chunked [blit ''<a'', blit ''/>'']))) \<le> kWsmanMaxBodyBytes"
    using demoResponse_length by (simp add: demoResponse_def kWsmanMaxBodyBytes_def)
  moreover have "digestNonce (challengeOf (directives demoChallenge)) \<noteq> digestNonce (wc_challenge demoUser)"
    by (simp add: demoChallenge_challenge demoUser_def newClient_def noChallenge_def) (simp add: blit_def)
  moreover have "0 = wc_nextReply demoUser"
    by (simp add: demoUser_def newClient_def)
  ultimately show ?thesis
    using wsman_login_completes [of demoUser 0 "replyFor (wc_endpoint demoUser) [] []" "[]" "[]" demoChallenge "[(blit ''Server'', blit ''AMT'')]" 200
        "Chunked [blit ''<a'', blit ''/>'']" "[demoResponse]" _ demoNet] demoUser_plain demoChallenge_printable demoChallenge_challenge(1)
    by (auto simp: demoResponse_def blit_def simp del: handle.simps playEvents.simps)
qed

text \<open>Two requests of one client: both answered with the same challenge, so they share the nonce and differ in the counter.\<close>

lemma challenged_headers:
  assumes "wc_replies c rid = Some r" and "\<not> rp_finished r" and "rp_socket r \<noteq> None" and "fresh r" and "rp_digestRetries r = 0"
    and "printable ch" and "haveDigestChallenge (challengeOf (directives ch))" and "\<not> wc_socketFactory c"
    and "d = handle n (ReadyRead rid (challenge401 ch) True) c" and "nonce = digestNonce (challengeOf (directives ch))"
  shows "headers (wc_log d) = headers (wc_log c) @ [(nonce, if nonce = digestNonce (wc_challenge c) then wc_nc c + 1 else 1)]"
    and "nonces (wc_log d) = nonces (wc_log c) @ (if nonce = digestNonce (wc_challenge c) then [] else [nonce])"
    and "digestNonce (wc_challenge d) = nonce"
    and "wc_nc d = (if nonce = digestNonce (wc_challenge c) then wc_nc c + 1 else 1)"
    and "wc_socketFactory d = wc_socketFactory c"
    and "rid' \<noteq> rid \<Longrightarrow> wc_replies d rid' = wc_replies c rid'"
proof -
  from challenged_step [OF assms(1-7), of n] obtain u st hs where
    h: "d = settle n rid (retryWithDigest n rid (onReply rid
      (\<lambda>_. r\<lparr>rp_responseBuffer := u, rp_httpStatus := st, rp_responseHeaders := hs, rp_digestRetries := 1\<rparr>)
      (installChallenge (directives ch) c)))" unfolding assms(9) by blast
  note defs = retryWithDigest_def settle_def openConnection_def dial_def installChallenge_def Let_def armTimeout_def
  show "headers (wc_log d) = headers (wc_log c) @ [(nonce, if nonce = digestNonce (wc_challenge c) then wc_nc c + 1 else 1)]"
    and "nonces (wc_log d) = nonces (wc_log c) @ (if nonce = digestNonce (wc_challenge c) then [] else [nonce])"
    and "digestNonce (wc_challenge d) = nonce"
    and "wc_nc d = (if nonce = digestNonce (wc_challenge c) then wc_nc c + 1 else 1)"
    and "wc_socketFactory d = wc_socketFactory c"
    and "rid' \<noteq> rid \<Longrightarrow> wc_replies d rid' = wc_replies c rid'"
    using assms(8) by (simp_all add: h assms(10) defs headers_def nonces_def map_filter_def)
qed

definition demoLogins :: "wsev list" where
  "demoLogins = [SetCredentials [97] [98], Send [] [], Send [] [], Connected 0, Connected 1]"

definition demoChallenged :: wsman_client where
  "demoChallenged =
     playEvents demoNet (demoLogins @ [ReadyRead 0 (challenge401 demoChallenge) True, ReadyRead 1 (challenge401 demoChallenge) True]) newClient"

definition demoReady :: "wsman_client \<Rightarrow> nat \<Rightarrow> bool" where
  "demoReady c rid \<longleftrightarrow>
     (\<exists>r s. wc_replies c rid = Some r \<and> \<not> rp_finished r \<and> rp_socket r = Some s \<and> sk_connected s \<and> \<not> sk_tls s \<and> fresh r \<and> rp_digestRetries r = 0)"

lemma demoLogins_tls: "\<not> isTls \<lparr>ep_scheme = [], ep_host = [], ep_port = - 1, ep_path = []\<rparr>"
  by (simp add: isTls_def bytesToLower_def blit_def)

lemma demoLogins_run:
  "playable demoNet demoLogins newClient" "demoReady (playEvents demoNet demoLogins newClient) 0"
  "demoReady (playEvents demoNet demoLogins newClient) 1" "headers (wc_log (playEvents demoNet demoLogins newClient)) = []"
  "nonces (wc_log (playEvents demoNet demoLogins newClient)) = []" "\<not> wc_socketFactory (playEvents demoNet demoLogins newClient)"
  "digestNonce (wc_challenge (playEvents demoNet demoLogins newClient)) = []"
  by (simp_all add: demoLogins_def client_eval demoLogins_tls demoReady_def fresh_def wsman_setCredentials_def headers_def nonces_def
      map_filter_simps)

lemma playable_append: "playable n (es @ fs) c = (playable n es c \<and> playable n fs (playEvents n es c))"
  by (induction n es c rule: playable.induct) auto

lemma demoChallenged_runs:
  "wreach (\<lambda>_ _. True) demoChallenged" "headers (wc_log demoChallenged) = [(blit ''n1'', 1), (blit ''n1'', 2)]"
  "nonces (wc_log demoChallenged) = [blit ''n1'']"
proof -
  define c where "c = playEvents demoNet demoLogins newClient"
  define d where "d = handle demoNet (ReadyRead 0 (challenge401 demoChallenge) True) c"
  note run = demoLogins_run [folded c_def]
  have n1: "blit ''n1'' \<noteq> []" by (simp add: blit_def)
  obtain r0 s0 where r0: "wc_replies c 0 = Some r0" "\<not> rp_finished r0" "rp_socket r0 = Some s0" "sk_connected s0" "\<not> sk_tls s0" "fresh r0" "rp_digestRetries r0 = 0"
    using run(2) by (auto simp: demoReady_def)
  obtain r1 s1 where r1: "wc_replies c 1 = Some r1" "\<not> rp_finished r1" "rp_socket r1 = Some s1" "sk_connected s1" "\<not> sk_tls s1" "fresh r1" "rp_digestRetries r1 = 0"
    using run(3) by (auto simp: demoReady_def)
  have s: "rp_socket r0 \<noteq> None" "rp_socket r1 \<noteq> None" using r0 r1 by simp_all
  note one = challenged_headers [OF r0(1,2) s(1) r0(6,7) demoChallenge_printable demoChallenge_challenge(1) run(6) d_def refl]
  have r1': "wc_replies d 1 = Some r1" and nf: "\<not> wc_socketFactory d"
    using one(6) [of 1] one(5) r1(1) run(6) by simp_all
  note two = challenged_headers [OF r1' r1(2) s(2) r1(6,7) demoChallenge_printable demoChallenge_challenge(1) nf refl refl, where n = demoNet]
  have e: "demoChallenged = handle demoNet (ReadyRead 1 (challenge401 demoChallenge) True) d"
    by (simp add: demoChallenged_def playEvents_append d_def c_def del: handle.simps)
  show "headers (wc_log demoChallenged) = [(blit ''n1'', 1), (blit ''n1'', 2)]" "nonces (wc_log demoChallenged) = [blit ''n1'']"
    unfolding e two(1,2) using one n1 run by (simp_all add: demoChallenge_challenge(2))
  have "playable demoNet (demoLogins @ [ReadyRead 0 (challenge401 demoChallenge) True, ReadyRead 1 (challenge401 demoChallenge) True]) newClient"
    using run(1) r0 r1 r1' by (simp add: playable_append c_def [symmetric] d_def [symmetric] signalled_def socketOf_def del: handle.simps)
  then show "wreach (\<lambda>_ _. True) demoChallenged"
    unfolding demoChallenged_def by (rule playEvents_reach [OF wreach_new])
qed

theorem digest_counter_unique_witness:
  "distinct (headers (wc_log demoChallenged)) \<and> length (headers (wc_log demoChallenged)) = 2"
  using digest_counter_unique [OF demoChallenged_runs(1)] demoChallenged_runs(2,3) by simp

end
