(* ===== verification/Wsman_Flight.thy ===== *)
theory Wsman_Flight
  imports Wsman_Auth
begin

text \<open>
  The request queue of a serialized WS-Man client: at most one request in flight, requests served in the order they
  were sent, and none left behind while nothing is in flight. The first section says what starting a request may change
  (\<open>touches\<close>), the second states the invariant \<open>flight\<close> and shows that every event of an orderly client keeps it.
  The last one shows what happens to a caller when the socket factory fails before it returns.
\<close>

section \<open>What starting a request changes\<close>

text \<open>
  Between \<open>c\<close> and \<open>d\<close> only the reply \<open>rid\<close> has changed, and it has ended exactly when \<open>e\<close> says so; queue and log of
  ends are the same.
\<close>

definition touches :: "nat \<Rightarrow> bool \<Rightarrow> wsman_client \<Rightarrow> wsman_client \<Rightarrow> bool" where
  "touches rid e c d \<longleftrightarrow>
     wc_pendingQueue d = wc_pendingQueue c \<and> wc_currentRequest d = wc_currentRequest c \<and> wc_nextReply d = wc_nextReply c \<and>
     finishes (wc_log d) = finishes (wc_log c) \<and> (\<forall>i. i \<noteq> rid \<longrightarrow> wc_replies d i = wc_replies c i) \<and>
     (case wc_replies c rid of
        None \<Rightarrow> wc_replies d rid = None
      | Some r \<Rightarrow> \<exists>q. wc_replies d rid = Some q \<and> rp_slot q = rp_slot r \<and> (rp_finished q \<longleftrightarrow> rp_finished r \<or> e))"

lemma touches_refl [simp]: "touches rid False c c"
  by (simp add: touches_def split: option.splits)

lemma touches_trans: "touches rid e c d \<Longrightarrow> touches rid f d b \<Longrightarrow> touches rid (e \<or> f) c b"
  by (fastforce simp: touches_def split: option.splits)

lemma touches_after: "touches rid False c d \<Longrightarrow> touches rid f d b \<Longrightarrow> touches rid f c b"
  using touches_trans [of rid False c d f b] by simp

lemma touches_edit:
  assumes "\<And>r. wc_replies c rid = Some r \<Longrightarrow> rp_slot (f r) = rp_slot r \<and> (rp_finished (f r) \<longleftrightarrow> rp_finished r \<or> e)"
  shows "touches rid e c (onReply rid f c)"
  using assms by (simp add: touches_def split: option.splits)

lemma touches_say: "finishOf x = None \<Longrightarrow> touches rid e c (say x d) = touches rid e c d"
  by (simp add: touches_def split: option.splits)

lemma touches_nc: "touches rid e c (d\<lparr>wc_nc := k\<rparr>) = touches rid e c d"
  by (simp add: touches_def split: option.splits)

lemma doWrite_touches: "touches rid False c (doWrite rid c)"
  by (auto simp: doWrite_def touches_say touches_def split: option.splits)

lemma adoptSocket_touches: "touches rid False c (adoptSocket rid s c)"
  unfolding adoptSocket_def Let_def
  by (auto intro!: touches_after [OF touches_edit doWrite_touches] touches_after [OF touches_edit touches_edit])

lemma factoryDone_touches: "factoryDone n rid tls auth fd err c = (d, e) \<Longrightarrow> touches rid e c d"
  by (auto simp: factoryDone_def closeOrphanFd_def touches_say adoptSocket_touches conclude_def stopTimer_def
      intro!: touches_edit split: option.splits if_splits)

lemma askFactory_touches:
  assumes "askFactory n rid tls auth c = (d, e)"
  shows "touches rid e c d"
proof -
  let ?c = "say (FactoryAsked rid) (onReply rid (\<lambda>r. r\<lparr>rp_state := R_Connecting\<rparr>) c)"
  have a: "touches rid False c ?c"
    by (simp add: touches_say touches_edit)
  show ?thesis
  proof (cases "n_factory n rid")
    case None
    have "touches rid False ?c (onReply rid (\<lambda>r. r\<lparr>rp_asked := Some (tls, auth)\<rparr>) ?c)"
      by (intro touches_edit) simp
    with a assms None show ?thesis by (auto simp: askFactory_def Let_def intro: touches_after)
  next
    case (Some p)
    with assms show ?thesis
      by (cases p) (auto simp: askFactory_def Let_def intro: touches_after [OF a] dest!: factoryDone_touches)
  qed
qed

lemma openConnection_touches: "openConnection n rid auth c = (d, e) \<Longrightarrow> touches rid e c d"
  by (auto simp: openConnection_def dial_def touches_say askFactory_touches intro!: touches_edit split: if_splits)

lemma armTimeout_touches: "touches rid False c (armTimeout rid c)"
  by (simp add: armTimeout_def touches_edit)

lemma retryWithDigest_touches:
  assumes "retryWithDigest n rid c = (d, e)"
  shows "touches rid e c d"
proof -
  let ?c1 = "onReply rid forgetAnswer (armTimeout rid c)"
  let ?c2 = "?c1\<lparr>wc_nc := wc_nc ?c1 + 1\<rparr>"
  let ?c3 = "say (HeaderMade rid (digestNonce (wc_challenge ?c2)) (wc_nc ?c2)) ?c2"
  have "touches rid False (armTimeout rid c) ?c1"
    by (intro touches_edit) (simp add: forgetAnswer_def)
  then have a: "touches rid False c ?c1"
    by (rule touches_after [OF armTimeout_touches])
  have "touches rid False c ?c3"
    using a by (simp only: touches_say touches_nc finishOf.simps)
  moreover have "openConnection n rid (authHeaderFor n rid ?c2) ?c3 = (d, e)"
    using assms unfolding retryWithDigest_def Let_def .
  ultimately show ?thesis
    by (blast intro: touches_after openConnection_touches)
qed

lemma startNow_touches: "startNow n rid c = (d, e) \<Longrightarrow> touches rid e c d"
  by (auto simp: startNow_def startTransport_def retryWithDigest_touches split: if_splits
      intro: touches_after [OF armTimeout_touches openConnection_touches])

section \<open>One request in flight\<close>

text \<open>
  A reply nothing was done for yet; the requests that are under way or wait, in order; the invariant. The queue holds
  \<open>QPointer\<close>s: a reply that was destroyed while it waited is still counted there and is passed over later.
\<close>

definition untouched :: "wsman_reply \<Rightarrow> bool" where
  "untouched r \<longleftrightarrow> rp_socket r = None \<and> rp_asked r = None \<and> rp_timer r = None"

definition lineUp :: "wsman_client \<Rightarrow> nat list" where
  "lineUp c = (case wc_currentRequest c of None \<Rightarrow> [] | Some q \<Rightarrow> [q]) @ wc_pendingQueue c"

definition isOpen :: "wsman_client \<Rightarrow> nat \<Rightarrow> bool" where
  "isOpen c rid \<longleftrightarrow> (\<exists>r. wc_replies c rid = Some r \<and> \<not> rp_finished r)"

definition flight :: "wsman_client \<Rightarrow> bool" where
  "flight c \<longleftrightarrow>
     (\<forall>rid. isOpen c rid \<longleftrightarrow> rid \<in> set (lineUp c) \<and> wc_replies c rid \<noteq> None) \<and>
     (\<forall>rid. wc_currentRequest c = Some rid \<longrightarrow> wc_replies c rid \<noteq> None) \<and>
     (\<forall>rid \<in> set (lineUp c). rid < wc_nextReply c) \<and>
     (\<forall>rid r. wc_replies c rid = Some r \<longrightarrow> \<not> rp_finished r \<longrightarrow> rp_slot r) \<and>
     (\<forall>rid r. rid \<in> set (wc_pendingQueue c) \<longrightarrow> wc_replies c rid = Some r \<longrightarrow> untouched r) \<and>
     (wc_currentRequest c = None \<longrightarrow> wc_pendingQueue c = []) \<and>
     sorted_wrt (<) (finishes (wc_log c) @ lineUp c) \<and>
     (\<forall>rid \<in> set (finishes (wc_log c)). rid < wc_nextReply c) \<and> (\<forall>rid. wc_replies c rid \<noteq> None \<longrightarrow> rid < wc_nextReply c)"

text \<open>What holds when the slot of a finished request takes over: nobody is in flight, \<open>qs\<close> wait.\<close>

definition landing :: "nat list \<Rightarrow> wsman_client \<Rightarrow> bool" where
  "landing qs c \<longleftrightarrow>
     (\<forall>rid. isOpen c rid \<longleftrightarrow> rid \<in> set qs \<and> wc_replies c rid \<noteq> None) \<and> (\<forall>rid \<in> set qs. rid < wc_nextReply c) \<and>
     (\<forall>rid r. wc_replies c rid = Some r \<longrightarrow> \<not> rp_finished r \<longrightarrow> rp_slot r \<and> untouched r) \<and>
     wc_currentRequest c = None \<and> sorted_wrt (<) (finishes (wc_log c) @ qs) \<and>
     (\<forall>rid \<in> set (finishes (wc_log c)). rid < wc_nextReply c) \<and> (\<forall>rid. wc_replies c rid \<noteq> None \<longrightarrow> rid < wc_nextReply c)"

lemma touches_open: "touches rid e c d \<Longrightarrow> isOpen d i \<longleftrightarrow> isOpen c i \<and> \<not> (i = rid \<and> e)"
  by (cases "i = rid"; auto simp: touches_def isOpen_def split: option.splits)

lemma touches_other: "touches rid e c d \<Longrightarrow> i \<noteq> rid \<Longrightarrow> wc_replies d i = wc_replies c i"
  by (simp add: touches_def)

lemma touches_fields:
  assumes "touches rid e c d"
  shows "wc_pendingQueue d = wc_pendingQueue c" "wc_currentRequest d = wc_currentRequest c" "wc_nextReply d = wc_nextReply c"
    "finishes (wc_log d) = finishes (wc_log c)" "lineUp d = lineUp c" "wc_replies d i = None \<longleftrightarrow> wc_replies c i = None"
  using assms by (cases "i = rid"; auto simp: touches_def lineUp_def split: option.splits)+

lemma touches_slot:
  assumes "touches rid e c d" and "wc_replies d i = Some q" and "\<not> rp_finished q"
  shows "\<exists>r. wc_replies c i = Some r \<and> \<not> rp_finished r \<and> rp_slot q = rp_slot r"
  using assms by (cases "i = rid"; auto simp: touches_def split: option.splits)

lemma flight_open:
  assumes "flight c" and "wc_currentRequest c = Some rid"
  shows "\<exists>r. wc_replies c rid = Some r \<and> \<not> rp_finished r \<and> rp_slot r \<and> rid < wc_nextReply c"
proof -
  have "rid \<in> set (lineUp c)" and "wc_replies c rid \<noteq> None" using assms by (simp_all add: flight_def lineUp_def)
  then have "isOpen c rid" using assms(1) unfolding flight_def by blast
  then obtain r where "wc_replies c rid = Some r" "\<not> rp_finished r" unfolding isOpen_def by blast
  with assms(1) show ?thesis by (simp add: flight_def)
qed

text \<open>Working on the request in flight, or on a finished one, keeps the invariant.\<close>

lemma flight_touched:
  assumes "flight c" and "touches rid False c d" and "rid \<notin> set (wc_pendingQueue c)"
  shows "flight d"
proof -
  have "untouched r" if "i \<in> set (wc_pendingQueue d)" "wc_replies d i = Some r" for i r
    using that assms touches_fields(1) [OF assms(2)] touches_other [OF assms(2), of i] by (fastforce simp: flight_def)
  moreover have "rp_slot r" if "wc_replies d i = Some r" "\<not> rp_finished r" for i r
    using touches_slot [OF assms(2) that] assms(1) by (auto simp: flight_def)
  ultimately show ?thesis
    using assms(1) touches_open [OF assms(2)] unfolding flight_def
    by (simp add: touches_fields [OF assms(2)])
qed

text \<open>The request in flight ends.\<close>

lemma flight_ends:
  assumes "flight c" and "touches rid True c d" and "wc_currentRequest c = Some rid"
  shows "landing (wc_pendingQueue d) ((say (Finished rid) d)\<lparr>wc_currentRequest := None\<rparr>)"
proof -
  note f = touches_fields [OF assms(2)]
  have line: "lineUp c = rid # wc_pendingQueue c"
    using assms(3) by (simp add: lineUp_def)
  have r: "rid \<notin> set (wc_pendingQueue c)"
    using assms(1) by (auto simp: flight_def line sorted_wrt_append)
  have op: "isOpen d i \<longleftrightarrow> i \<in> set (wc_pendingQueue d) \<and> wc_replies d i \<noteq> None" for i
    using assms(1) r touches_open [OF assms(2), of i] touches_fields(6) [OF assms(2), of i] by (auto simp: flight_def line f(1))
  have rest: "rp_slot r \<and> untouched r" if "wc_replies d i = Some r" "\<not> rp_finished r" for i r
  proof -
    have i: "i \<in> set (wc_pendingQueue d)" using op that by (auto simp: isOpen_def)
    moreover have "i \<noteq> rid" using i r f(1) by auto
    ultimately show ?thesis
      using touches_other [OF assms(2)] that assms(1) by (auto simp: flight_def f(1))
  qed
  have "rid < wc_nextReply c"
    using flight_open [OF assms(1,3)] by blast
  then show ?thesis
    using assms(1) op rest unfolding landing_def flight_def by (auto simp: f line isOpen_def)
qed

lemma drainQueue_flight: "landing qs c \<Longrightarrow> flight (drainQueue n qs c)"
proof (induction n qs c rule: drainQueue.induct)
  case (1 n c)
  then show ?case by (auto simp: landing_def flight_def lineUp_def isOpen_def)
next
  case (2 n q qs c)
  show ?case
  proof (cases "wc_replies c q")
    case None
    then have "landing qs c" using "2.prems" by (fastforce simp: landing_def sorted_wrt_append)
    with "2.IH"(1) None show ?thesis by simp
  next
    case (Some x)
    let ?c = "c\<lparr>wc_pendingQueue := qs, wc_currentRequest := Some q\<rparr>"
    obtain d e where s: "startNow n q ?c = (d, e)" by (cases "startNow n q ?c")
    have alive: "wc_replies c q \<noteq> None" using Some by simp
    have "untouched r" if "i \<in> set qs" "wc_replies c i = Some r" for i r
    proof -
      have "isOpen c i" using "2.prems" that by (simp add: landing_def)
      with "2.prems" that show ?thesis by (auto simp: landing_def isOpen_def)
    qed
    then have fl: "flight ?c"
      using "2.prems" alive by (simp add: landing_def flight_def lineUp_def isOpen_def)
    have t: "touches q e ?c d" by (rule startNow_touches [OF s])
    have q: "q \<notin> set qs"
      using "2.prems" by (auto simp: landing_def sorted_wrt_append)
    show ?thesis
    proof (cases e)
      case True
      have "landing qs ((say (Finished q) d)\<lparr>wc_currentRequest := None\<rparr>)"
        using flight_ends [OF fl, of q d] t True touches_fields(1) [OF t] by simp
      then show ?thesis
        using "2.IH"(2) [OF alive] s alive True by auto
    next
      case False
      then show ?thesis
        using flight_touched [OF fl, of q d] t q s alive by auto
    qed
  qed
qed

lemma emitFinished_flight:
  assumes "flight c" and "touches rid True c d" and "wc_currentRequest c = Some rid"
  shows "flight (emitFinished n rid d)"
proof -
  obtain r where "wc_replies c rid = Some r" "rp_slot r"
    using flight_open [OF assms(1,3)] by blast
  then obtain q where q: "wc_replies d rid = Some q" "rp_slot q"
    using assms(2) by (auto simp: touches_def)
  show ?thesis
    using q flight_ends [OF assms] drainQueue_flight by (simp add: emitFinished_def Let_def)
qed

text \<open>An unfinished reply that something was done for is the one in flight.\<close>

lemma flight_current:
  assumes "flight c" and "wc_replies c rid = Some r" and "\<not> rp_finished r" and "\<not> untouched r"
  shows "wc_currentRequest c = Some rid" "rid \<notin> set (wc_pendingQueue c)"
proof -
  have "rid \<in> set (lineUp c)"
    using assms by (auto simp: flight_def isOpen_def)
  moreover show "rid \<notin> set (wc_pendingQueue c)"
    using assms by (auto simp: flight_def)
  ultimately show "wc_currentRequest c = Some rid"
    by (simp add: lineUp_def split: option.splits)
qed

lemma flight_queued_untouched: "flight c \<Longrightarrow> rid \<in> set (wc_pendingQueue c) \<Longrightarrow> wc_replies c rid = Some r \<Longrightarrow> untouched r"
  by (simp add: flight_def)

lemma settle_flight:
  assumes "flight c" and "wc_currentRequest c = Some rid" and "\<And>d e. p = (d, e) \<Longrightarrow> touches rid e c d"
  shows "flight (settle n rid p)"
proof -
  obtain d e where p: "p = (d, e)" by (cases p)
  have "rid \<notin> set (wc_pendingQueue c)"
    using assms(1,2) by (auto simp: flight_def lineUp_def sorted_wrt_append)
  then show ?thesis
    using assms(3) [OF p] p flight_touched [OF assms(1), of rid d] emitFinished_flight [OF assms(1), of rid d] assms(2)
    by (cases e) (simp_all add: settle_def)
qed

lemma finishReply_flight:
  assumes "flight c" and "\<And>r. wc_replies c rid = Some r \<Longrightarrow> \<not> rp_finished r \<Longrightarrow> wc_currentRequest c = Some rid"
  shows "flight (finishReply n rid err c)"
proof (cases "\<exists>r. wc_replies c rid = Some r \<and> \<not> rp_finished r")
  case True
  then obtain r where r: "wc_replies c rid = Some r" "\<not> rp_finished r" by blast
  have "touches rid True c (onReply rid (conclude err) c)"
    by (intro touches_edit) (simp add: conclude_def stopTimer_def)
  then show ?thesis
    using r assms emitFinished_flight [OF assms(1)] by (simp add: finishReply_def)
qed (use assms in \<open>auto simp: finishReply_def split: option.splits\<close>)

lemma endWith_flight:
  assumes "flight c" and "\<And>r. wc_replies c rid = Some r \<Longrightarrow> \<not> rp_finished r \<Longrightarrow> wc_currentRequest c = Some rid"
  shows "flight (endWith n rid err aborts c)"
proof (cases "\<exists>r. wc_replies c rid = Some r \<and> \<not> rp_finished r")
  case True
  then obtain r where r: "wc_replies c rid = Some r" "\<not> rp_finished r" by blast
  have t: "touches rid True c (onReply rid (breakOff err) d)" if "d = c \<or> d = say (SockAborted rid) c" for d
    using that r by (auto simp: touches_def breakOff_def)
  show ?thesis
    using r assms emitFinished_flight [OF assms(1) t] by (simp add: endWith_def)
qed (use assms in \<open>auto simp: endWith_def split: option.splits\<close>)

subsection \<open>Every event of an orderly client\<close>

text \<open>
  An orderly owner: it sends in serialized mode, never destroys the reply of the request in flight, and aborts none that
  still waits; a waiting or a finished reply it may destroy. A socket reports errors only when there is one.
\<close>

definition orderly :: "wsev \<Rightarrow> wsman_client \<Rightarrow> bool" where
  "orderly ev c =
     (case ev of
        Send _ _ \<Rightarrow> wc_serializeRequests c
      | Destroy rid \<Rightarrow> wc_currentRequest c \<noteq> Some rid
      | Abort rid \<Rightarrow> rid \<notin> set (wc_pendingQueue c)
      | SockError rid _ \<Rightarrow> socketOf c rid \<noteq> None
      | _ \<Rightarrow> True)"

lemma flight_same:
  assumes "flight c" and "wc_replies d = wc_replies c" and "wc_pendingQueue d = wc_pendingQueue c"
    and "wc_currentRequest d = wc_currentRequest c" and "wc_nextReply d = wc_nextReply c" and "finishes (wc_log d) = finishes (wc_log c)"
  shows "flight d"
  using assms by (simp add: flight_def lineUp_def isOpen_def)

lemma socket_touched: "socketOf c rid = Some s \<Longrightarrow> \<exists>r. wc_replies c rid = Some r \<and> \<not> untouched r"
  by (auto simp: socketOf_def bind_eq_Some_conv untouched_def)

lemma flight_socket_unqueued: "flight c \<Longrightarrow> socketOf c rid = Some s \<Longrightarrow> rid \<notin> set (wc_pendingQueue c)"
  using socket_touched [of c rid s] flight_queued_untouched [of c rid] by auto

lemma onSocket_touches: "touches rid False c (onSocket rid f c)"
  by (simp add: onSocket_def touches_edit)

lemma onConnected_touches: "touches rid False c (onConnected rid s c)"
proof -
  have "touches rid False d (onReply rid (\<lambda>r. r\<lparr>rp_state := R_TlsHandshaking\<rparr>) d)" for d
    by (intro touches_edit) simp
  then show ?thesis
    by (auto simp: onConnected_def Let_def onSocket_touches split: option.splits
        intro: touches_after [OF onSocket_touches] touches_after [OF onSocket_touches doWrite_touches])
qed

lemma onEncrypted_touches: "touches rid False c (onEncrypted rid s c)"
  by (auto simp: onEncrypted_def Let_def
      intro: touches_after [OF onSocket_touches onSocket_touches] touches_after [OF onSocket_touches doWrite_touches])

lemma onQueuedWrite_touches: "touches rid False c (onQueuedWrite rid c)"
  by (auto simp: onQueuedWrite_def intro: touches_after [OF onSocket_touches doWrite_touches])

lemma refuse_touches: "touches rid False c (refuse rid c)"
  by (simp add: refuse_def touches_edit)

lemma ignoreErrors_touches: "touches rid False c (ignoreErrors rid fp c)"
  by (simp add: ignoreErrors_def touches_edit)

lemma touches_cert: "touches rid e c d \<Longrightarrow> touches rid e c (d\<lparr>wc_pendingPeerCert := p, wc_awaitingTrust := a\<rparr>)"
  by (simp add: touches_def split: option.splits)

lemma onSslErrors_touches: "touches rid False c (onSslErrors n rid s chain c)"
proof -
  have "touches rid False c (say (VerifiedByPin fp) c)"
    "touches rid False c (say (TrustPrompt p) (c\<lparr>wc_pendingPeerCert := p, wc_awaitingTrust := True\<rparr>))" for fp p
    by (simp_all add: touches_say touches_cert)
  then show ?thesis
    by (auto simp: onSslErrors_def Let_def refuse_touches split: list.splits
        intro: touches_after [OF _ refuse_touches] touches_after [OF _ ignoreErrors_touches])
qed

lemma onFactory_flight:
  assumes "flight c" and "wc_replies c rid = Some r" and "rp_asked r = Some a"
  shows "flight (onFactory n rid tls auth fd err c)"
proof -
  let ?c = "onReply rid (\<lambda>r. r\<lparr>rp_asked := None\<rparr>) c"
  have t: "touches rid False c ?c" by (intro touches_edit) simp
  have u: "\<not> untouched r" using assms(3) by (simp add: untouched_def)
  have q: "rid \<notin> set (wc_pendingQueue c)" using assms(1,2) u flight_queued_untouched by blast
  show ?thesis
  proof (cases "rp_finished r")
    case True
    then have "factoryDone n rid tls auth fd err ?c = (closeOrphanFd fd ?c, False)"
      using assms(2) by (simp add: factoryDone_def)
    moreover have "flight (closeOrphanFd fd ?c)"
      using flight_touched [OF assms(1) t q] by (auto simp: closeOrphanFd_def intro: flight_same)
    ultimately show ?thesis by (simp add: onFactory_def settle_def)
  next
    case False
    show ?thesis unfolding onFactory_def
      using flight_current [OF assms(1,2) False u]
      by (intro settle_flight [OF assms(1)]) (auto intro: touches_after [OF t] factoryDone_touches)
  qed
qed

lemma installChallenge_touches: "touches rid e c d \<Longrightarrow> touches rid e c (installChallenge ps d)"
  by (simp add: installChallenge_def Let_def touches_def split: option.splits)

lemma onChallenge_flight:
  assumes "flight c" and "wc_currentRequest c = Some rid"
  shows "flight (onChallenge n rid r c)"
proof -
  have i: "touches rid False c (installChallenge ps c)" for ps
    by (simp add: installChallenge_touches)
  have cur: "wc_currentRequest (installChallenge ps c) = Some rid" for ps
    using touches_fields(2) [OF i] assms(2) by simp
  have unq: "rid \<notin> set (wc_pendingQueue c)"
    using assms by (auto simp: flight_def lineUp_def sorted_wrt_append)
  have fl: "flight (installChallenge ps c)" for ps
    by (rule flight_touched [OF assms(1) i unq])
  have t: "touches rid False d (onReply rid (\<lambda>r. r\<lparr>rp_digestRetries := rp_digestRetries r + 1\<rparr>) d)" for d
    by (intro touches_edit) simp
  have "flight (settle n rid (retryWithDigest n rid (onReply rid (\<lambda>r. r\<lparr>rp_digestRetries := rp_digestRetries r + 1\<rparr>) (installChallenge ps c))))" for ps
    by (rule settle_flight [OF fl cur]) (erule touches_after [OF t retryWithDigest_touches])
  then show ?thesis
    using assms fl cur by (simp add: onChallenge_def Let_def finishReply_flight)
qed

lemma readMore_flight:
  assumes "flight c"
  shows "flight (readMore n rid chunk conn c)"
proof (cases "\<exists>r. wc_replies c rid = Some r \<and> \<not> rp_finished r \<and> rp_socket r \<noteq> None")
  case True
  then obtain r where r: "wc_replies c rid = Some r" "\<not> rp_finished r" "rp_socket r \<noteq> None" by blast
  then have "\<not> untouched r" by (simp add: untouched_def)
  note cur = flight_current [OF assms r(1,2) this]
  let ?q = "fst (readPass conn chunk r)"
  let ?c = "onReply rid (\<lambda>_. ?q) c"
  have "touches rid False c ?c"
    using readPass_keeps [of r conn chunk] r by (intro touches_edit) (simp add: readKeeps_def)
  then have "flight ?c" and "wc_currentRequest ?c = Some rid"
    using flight_touched [OF assms _ cur(2)] cur(1) by auto
  then show ?thesis
    using r by (auto simp: readMore_def applyVerdict_def Let_def finishReply_flight onChallenge_flight split: verdict.splits)
qed (use assms in \<open>auto simp: readMore_def split: option.splits\<close>)

lemma onTimeout_flight:
  assumes "flight c" and "wc_replies c rid = Some r" and "rp_timer r = Some True"
  shows "flight (onTimeout n rid c)"
proof -
  have u: "\<not> untouched r" using assms(3) by (simp add: untouched_def)
  have q: "rid \<notin> set (wc_pendingQueue c)" using assms(1,2) u flight_queued_untouched by blast
  have "flight (onReply rid stopTimer c)"
    by (rule flight_touched [OF assms(1) touches_edit q]) (simp add: stopTimer_def)
  then show ?thesis
    unfolding onTimeout_def using assms(2) flight_current(1) [OF assms(1,2) _ u]
    by (intro endWith_flight) (auto simp: stopTimer_def)
qed

lemma replyFor_untouched: "untouched (replyFor ep env act)" "\<not> rp_finished (replyFor ep env act)"
  by (simp_all add: replyFor_def newReply_def untouched_def)

text \<open>The new reply joins the end of the line.\<close>

definition joined :: "wsman_reply \<Rightarrow> wsman_client \<Rightarrow> wsman_client" where
  "joined r c =
     c\<lparr>wc_nextReply := wc_nextReply c + 1, wc_replies := (wc_replies c)(wc_nextReply c \<mapsto> r\<lparr>rp_slot := True\<rparr>),
       wc_pendingQueue := wc_pendingQueue c @ [wc_nextReply c]\<rparr>"

lemma joined_line:
  assumes "flight c" and "\<not> rp_finished r"
  shows "isOpen (joined r c) i \<longleftrightarrow> i \<in> set (lineUp c @ [wc_nextReply c]) \<and> wc_replies (joined r c) i \<noteq> None"
    "i \<in> set (lineUp c @ [wc_nextReply c]) \<Longrightarrow> i < wc_nextReply (joined r c)"
    "sorted_wrt (<) (finishes (wc_log (joined r c)) @ lineUp c @ [wc_nextReply c])"
    "\<forall>i \<in> set (finishes (wc_log (joined r c))). i < wc_nextReply (joined r c)"
    "wc_replies (joined r c) i \<noteq> None \<Longrightarrow> i < wc_nextReply (joined r c)"
    "wc_replies (joined r c) i = Some q \<Longrightarrow> \<not> rp_finished q \<Longrightarrow> rp_slot q"
proof -
  have new: "i < wc_nextReply c" if "i \<in> set (lineUp c)" for i
    using assms(1) that by (simp add: flight_def)
  show "isOpen (joined r c) i \<longleftrightarrow> i \<in> set (lineUp c @ [wc_nextReply c]) \<and> wc_replies (joined r c) i \<noteq> None"
    using assms by (cases "i = wc_nextReply c") (auto simp: flight_def isOpen_def joined_def)
  show "i \<in> set (lineUp c @ [wc_nextReply c]) \<Longrightarrow> i < wc_nextReply (joined r c)"
    using new [of i] by (auto simp: joined_def)
  show "sorted_wrt (<) (finishes (wc_log (joined r c)) @ lineUp c @ [wc_nextReply c])"
    using assms(1) new by (auto simp: flight_def joined_def sorted_wrt_append)
  show "\<forall>i \<in> set (finishes (wc_log (joined r c))). i < wc_nextReply (joined r c)"
    using assms(1) by (auto simp: flight_def joined_def less_SucI)
  show "wc_replies (joined r c) i \<noteq> None \<Longrightarrow> i < wc_nextReply (joined r c)"
    using assms(1) by (cases "i = wc_nextReply c") (auto simp: flight_def joined_def less_SucI)
  show "wc_replies (joined r c) i = Some q \<Longrightarrow> \<not> rp_finished q \<Longrightarrow> rp_slot q"
    using assms(1) by (cases "i = wc_nextReply c") (auto simp: flight_def joined_def)
qed

lemma joined_waits:
  assumes "flight c" and "\<not> rp_finished r" and "untouched r" and "wc_currentRequest c \<noteq> None"
  shows "flight (joined r c)"
proof -
  have "lineUp (joined r c) = lineUp c @ [wc_nextReply c]"
    by (simp add: lineUp_def joined_def split: option.splits)
  moreover have "wc_currentRequest (joined r c) \<noteq> None"
    using assms(4) by (simp add: joined_def)
  moreover have "wc_replies (joined r c) i \<noteq> None" if "wc_currentRequest (joined r c) = Some i" for i
    using flight_open [OF assms(1), of i] that by (auto simp: joined_def)
  moreover have "untouched q" if "i \<in> set (wc_pendingQueue (joined r c))" "wc_replies (joined r c) i = Some q" for i q
    using that assms(1,3) by (cases "i = wc_nextReply c") (auto simp: joined_def flight_def untouched_def)
  ultimately show ?thesis
    using joined_line [OF assms(1,2)] unfolding flight_def by auto
qed

lemma joined_starts:
  assumes "flight c" and "\<not> rp_finished r" and "wc_currentRequest c = None"
  shows "flight ((joined r c)\<lparr>wc_currentRequest := Some (wc_nextReply c), wc_pendingQueue := []\<rparr>)"
proof -
  have "lineUp c = []" "wc_pendingQueue c = []"
    using assms(1,3) by (simp_all add: lineUp_def flight_def)
  moreover have "wc_replies (joined r c) (wc_nextReply c) \<noteq> None" by (simp add: joined_def)
  ultimately show ?thesis
    using joined_line [OF assms(1,2)] unfolding flight_def by (simp add: lineUp_def isOpen_def)
qed

lemma sendEnvelope_flight:
  assumes "flight c" and "wc_serializeRequests c"
  shows "flight (sendEnvelope n env act c)"
proof -
  let ?r = "replyFor (wc_endpoint c) env act"
  let ?rid = "wc_nextReply c"
  let ?j = "joined ?r c"
  let ?c1 = "c\<lparr>wc_nextReply := ?rid + 1, wc_replies := (wc_replies c)(?rid \<mapsto> ?r)\<rparr>"
  have j: "onReply ?rid (\<lambda>r. r\<lparr>rp_slot := True\<rparr>) (?c1\<lparr>wc_pendingQueue := wc_pendingQueue ?c1 @ [?rid]\<rparr>) = ?j"
    by (simp add: joined_def onReply_def)
  have s: "sendSerialized n ?rid ?c1 =
      (if currentIsNull ?j
       then settle n ?rid (startNow n ?rid (?j\<lparr>wc_currentRequest := Some (hd (wc_pendingQueue ?j)), wc_pendingQueue := tl (wc_pendingQueue ?j)\<rparr>))
       else ?j)"
    unfolding sendSerialized_def Let_def j ..
  have null: "currentIsNull ?j \<longleftrightarrow> wc_currentRequest c = None"
  proof (cases "wc_currentRequest c")
    case (Some q)
    then have "\<exists>r. wc_replies c q = Some r" "q < ?rid"
      using flight_open [OF assms(1), of q] by auto
    with Some show ?thesis by (auto simp: currentIsNull_def joined_def)
  qed (simp add: currentIsNull_def joined_def)
  have "flight (sendSerialized n ?rid ?c1)"
  proof (cases "wc_currentRequest c")
    case None
    then have q: "wc_pendingQueue ?j = [?rid]"
      using assms(1) by (simp add: joined_def flight_def)
    have "flight (settle n ?rid (startNow n ?rid (?j\<lparr>wc_currentRequest := Some ?rid, wc_pendingQueue := []\<rparr>)))"
      by (rule settle_flight [OF joined_starts [OF assms(1) replyFor_untouched(2) None]]) (simp, erule startNow_touches)
    then show ?thesis
      using None null unfolding s by (simp add: q)
  next
    case (Some q)
    then show ?thesis
      using joined_waits [OF assms(1) replyFor_untouched(2,1)] null unfolding s by simp
  qed
  then show ?thesis
    using assms(2) by (auto simp: sendEnvelope_def Let_def intro: flight_same)
qed

lemma destroyReply_flight:
  assumes "flight c" and "wc_currentRequest c \<noteq> Some rid"
  shows "flight (destroyReply rid c)"
proof -
  have "isOpen (destroyReply rid c) i \<longleftrightarrow> isOpen c i \<and> i \<noteq> rid" for i
    by (auto simp: isOpen_def destroyReply_def)
  moreover have "lineUp (destroyReply rid c) = lineUp c" "wc_pendingQueue (destroyReply rid c) = wc_pendingQueue c"
    "wc_log (destroyReply rid c) = wc_log c" "wc_nextReply (destroyReply rid c) = wc_nextReply c"
    "wc_currentRequest (destroyReply rid c) = wc_currentRequest c"
    by (simp_all add: destroyReply_def lineUp_def)
  moreover have "wc_replies (destroyReply rid c) i = (if i = rid then None else wc_replies c i)" for i
    by (simp add: destroyReply_def)
  ultimately show ?thesis
    using assms unfolding flight_def by simp
qed

lemma handle_flight:
  assumes "flight c" and "signalled ev c" and "orderly ev c"
  shows "flight (handle n ev c)"
proof -
  note touched = flight_touched [OF assms(1) _ flight_socket_unqueued [OF assms(1)]]
  have cur: "wc_currentRequest c = Some rid" if "wc_replies c rid = Some r" "\<not> rp_finished r" "rid \<notin> set (wc_pendingQueue c)" for rid r
  proof -
    have "rid \<in> set (lineUp c)" using that assms(1) by (auto simp: flight_def isOpen_def)
    with that(3) show ?thesis by (simp add: lineUp_def split: option.splits)
  qed
  show ?thesis
  proof (cases ev)
    case (Abort rid)
    with assms cur show ?thesis by (simp add: reply_abort_def orderly_def endWith_flight)
  next
    case (SockError rid msg)
    then obtain s where "socketOf c rid = Some s" using assms(3) by (auto simp: orderly_def)
    with SockError assms cur flight_socket_unqueued [OF assms(1)] show ?thesis
      by (simp add: onSockError_def endWith_flight)
  next
    case (FactoryAnswer rid fd err)
    have "flight (closeOrphanFd fd c)" using assms(1) by (auto simp: closeOrphanFd_def intro: flight_same)
    with FactoryAnswer assms(1) onFactory_flight show ?thesis by (auto split: option.splits)
  next
    case (TimerFires rid)
    with assms onTimeout_flight show ?thesis by (auto simp: signalled_def split: option.splits)
  next
    case (Connected rid)
    then show ?thesis using assms(1) touched [OF onConnected_touches] by (simp add: withSocket_def split: option.splits)
  next
    case (Encrypted rid)
    then show ?thesis using assms(1) touched [OF onEncrypted_touches] by (simp add: withSocket_def split: option.splits)
  next
    case (SslErrors rid chain)
    then show ?thesis using assms(1) touched [OF onSslErrors_touches] by (simp add: withSocket_def split: option.splits)
  next
    case (QueuedWrite rid)
    then show ?thesis using assms(1) touched [OF onQueuedWrite_touches] by (simp add: withSocket_def split: option.splits)
  qed (use assms in \<open>auto simp: orderly_def readMore_flight sendEnvelope_flight destroyReply_flight wsman_setCredentials_def
      setTrustedFingerprints_def wsman_trustPendingPeerCert_def Let_def intro: flight_same\<close>)
qed

lemma wreach_flight: "wreach orderly c \<Longrightarrow> flight c"
proof (induction rule: wreach.induct)
  case wreach_new
  then show ?case by (simp add: newClient_def flight_def lineUp_def isOpen_def)
qed (simp add: handle_flight)

text \<open>C8: Serialized requests go one at a time, in order, and none is forgotten, as long as the owner keeps two rules: it does
  not destroy the reply of the request in flight, and it does not abort a reply that still waits in the queue. The rules
  are \<open>orderly\<close>, with two more conditions: every send happens in serialized mode, and a socket error comes from a socket
  that exists. Destroying a finished or a waiting reply, and aborting the one in flight, are allowed. In every state such
  a client reaches, whatever the device, the sockets, the tunnel and the timers do: two unfinished requests that were both
  started are the same; replies have finished in the order they were sent; and as long as any reply is unfinished, the
  request the queue waits for is one that has not finished either, so its end moves the queue on. Both rules are needed:
  without the first a waiting request starves for ever (\<open>destroyed_request_starves_next\<close>), without the second two
  requests are in flight at once (\<open>abort_queued_second_flight\<close>).
\<close>

theorem serialized_single_flight:
  assumes "wreach orderly c"
  shows "(\<forall>i r j s. wc_replies c i = Some r \<and> \<not> rp_finished r \<and> \<not> untouched r \<and>
            wc_replies c j = Some s \<and> \<not> rp_finished s \<and> \<not> untouched s \<longrightarrow> i = j) \<and>
    sorted_wrt (<) (finishes (wc_log c)) \<and>
    (\<forall>i r. wc_replies c i = Some r \<and> \<not> rp_finished r \<longrightarrow>
       (\<exists>j s. wc_currentRequest c = Some j \<and> wc_replies c j = Some s \<and> \<not> rp_finished s \<and> j \<le> i))"
proof -
  note f = wreach_flight [OF assms]
  have "i = j" if "wc_replies c i = Some r" "\<not> rp_finished r" "\<not> untouched r" "wc_replies c j = Some s" "\<not> rp_finished s" "\<not> untouched s" for i j r s
    using flight_current(1) [OF f that(1-3)] flight_current(1) [OF f that(4-6)] by simp
  moreover have "sorted_wrt (<) (finishes (wc_log c))"
    using f by (simp add: flight_def sorted_wrt_append)
  moreover have "\<exists>j s. wc_currentRequest c = Some j \<and> wc_replies c j = Some s \<and> \<not> rp_finished s \<and> j \<le> i"
    if "wc_replies c i = Some r" "\<not> rp_finished r" for i r
  proof -
    have i: "i \<in> set (lineUp c)" using f that by (auto simp: flight_def isOpen_def)
    then obtain j where j: "wc_currentRequest c = Some j"
      using f by (cases "wc_currentRequest c") (auto simp: flight_def lineUp_def)
    then have l: "lineUp c = j # wc_pendingQueue c" by (simp add: lineUp_def)
    moreover have "j \<le> i" using f i by (auto simp: flight_def l sorted_wrt_append)
    ultimately show ?thesis using j flight_open [OF f, of j] by auto
  qed
  ultimately show ?thesis by blast
qed

text \<open>A client with two requests: the second waits for the first.\<close>

definition demoQueued :: wsman_client where
  "demoQueued = playEvents demoNet [SetSerialize True, Send [] [], Send [] []] newClient"

text \<open>Three requests; the waiting second one is destroyed and the first aborted: the queue passes on to the third.\<close>

definition demoSkipped :: wsman_client where
  "demoSkipped = playEvents demoNet [SetSerialize True, Send [] [], Send [] [], Send [] [], Destroy 1, Abort 0] newClient"

lemma demoSkipped_reach: "wreach orderly demoSkipped"
  unfolding demoSkipped_def playEvents.simps
  by (intro wreach_step wreach_new) (simp_all add: orderly_def client_eval reply_abort_def destroyReply_def)

theorem serialized_single_flight_witness:
  "\<exists>j s r. wc_currentRequest demoSkipped = Some j \<and> wc_replies demoSkipped j = Some s \<and> \<not> rp_finished s \<and> j \<le> 2 \<and>
    wc_replies demoSkipped 2 = Some r \<and> \<not> untouched r \<and> wc_replies demoSkipped 1 = None"
proof -
  have "\<exists>r. wc_replies demoSkipped 2 = Some r \<and> \<not> rp_finished r \<and> \<not> untouched r" and "wc_replies demoSkipped 1 = None"
    by (simp_all add: demoSkipped_def client_eval untouched_def reply_abort_def destroyReply_def)
  then show ?thesis
    using serialized_single_flight [OF demoSkipped_reach] by blast
qed

section \<open>Where the queue lets a caller down\<close>

text \<open>
  Aborting a request that still waits runs the queue although another request is in flight: the next one is started
  beside it.
\<close>

lemma abort_queued_second_flight:
  assumes "c = playEvents demoNet [SetSerialize True, Send [] [], Send [] [], Send [] [], Abort 2] newClient"
  shows "\<exists>r s. wc_replies c 0 = Some r \<and> \<not> rp_finished r \<and> rp_socket r \<noteq> None \<and>
    wc_replies c 1 = Some s \<and> \<not> rp_finished s \<and> rp_socket s \<noteq> None"
  unfolding assms by (simp add: client_eval reply_abort_def)

text \<open>
  A request is lost. When the reply in flight is destroyed and another request waits, the next call of \<open>sendEnvelope\<close>
  takes the waiting one off the queue, notes it as the current one, and starts the new request instead.
\<close>

definition lost :: "nat \<Rightarrow> wsman_client \<Rightarrow> bool" where
  "lost b c \<longleftrightarrow> b \<notin> set (wc_pendingQueue c) \<and> b < wc_nextReply c \<and>
     (\<exists>r. wc_replies c b = Some r \<and> \<not> rp_finished r \<and> untouched r)"

lemma lost_touched: "lost b c \<Longrightarrow> touches rid e c d \<Longrightarrow> rid \<noteq> b \<Longrightarrow> lost b d"
  by (auto simp: lost_def touches_def)

lemma lost_same:
  "lost b c \<Longrightarrow> wc_replies d b = wc_replies c b \<Longrightarrow> set (wc_pendingQueue d) \<subseteq> set (wc_pendingQueue c) \<Longrightarrow>
    wc_nextReply c \<le> wc_nextReply d \<Longrightarrow> lost b d"
  by (auto simp: lost_def)

lemma drainQueue_lost:
  "b \<notin> set qs \<Longrightarrow> lost b c \<Longrightarrow> lost b (drainQueue n qs c)"
proof (induction n qs c rule: drainQueue.induct)
  case (1 n c)
  then show ?case by (simp add: lost_def)
next
  case (2 n q qs c)
  let ?c = "c\<lparr>wc_pendingQueue := qs, wc_currentRequest := Some q\<rparr>"
  obtain d e where s: "startNow n q ?c = (d, e)" by (cases "startNow n q ?c")
  have "lost b ?c" using "2.prems" by (auto simp: lost_def)
  then have d: "lost b d" using lost_touched startNow_touches [OF s] "2.prems"(1) by auto
  then have "lost b ((say (Finished q) d)\<lparr>wc_currentRequest := None\<rparr>)" by (simp add: lost_def)
  then show ?case using 2 s d by auto
qed

lemma emitFinished_lost: "lost b c \<Longrightarrow> lost b (emitFinished n rid c)"
  by (auto simp: emitFinished_def Let_def lost_def intro!: drainQueue_lost [unfolded lost_def] split: option.splits)

lemma settle_lost: "lost b c \<Longrightarrow> (\<And>d e. p = (d, e) \<Longrightarrow> touches rid e c d) \<Longrightarrow> rid \<noteq> b \<Longrightarrow> lost b (settle n rid p)"
  by (cases p) (auto simp: settle_def intro: lost_touched emitFinished_lost)

lemma onReply_lost: "lost b c \<Longrightarrow> rid \<noteq> b \<Longrightarrow> lost b (onReply rid f c)"
  by (simp add: lost_def)

lemma finishReply_lost: "lost b c \<Longrightarrow> rid \<noteq> b \<Longrightarrow> lost b (finishReply n rid err c)"
  by (simp add: finishReply_def emitFinished_lost onReply_lost split: option.splits)

lemma say_lost [simp]: "lost b (say e c) = lost b c"
  by (simp add: lost_def)

lemma endWith_lost: "lost b c \<Longrightarrow> rid \<noteq> b \<Longrightarrow> lost b (endWith n rid err aborts c)"
  by (simp add: endWith_def emitFinished_lost onReply_lost split: option.splits)

lemma installChallenge_lost: "lost b c \<Longrightarrow> lost b (installChallenge ps c)"
  by (simp add: installChallenge_def Let_def lost_def)

lemma readMore_lost:
  assumes "lost b c"
  shows "lost b (readMore n rid chunk conn c)"
proof (cases "rid = b")
  case True
  with assms show ?thesis by (auto simp: lost_def readMore_def untouched_def)
next
  case False
  have "lost b (onChallenge n rid r d)" if "lost b d" for r d
  proof -
    have i: "lost b (installChallenge ps d)" for ps by (rule installChallenge_lost [OF that])
    have "lost b (settle n rid (retryWithDigest n rid (onReply rid f (installChallenge ps d))))" for ps f
      by (rule settle_lost [OF onReply_lost [OF i False]]) (use False in \<open>auto intro: retryWithDigest_touches\<close>)
    then show ?thesis
      using that i False by (simp add: onChallenge_def Let_def finishReply_lost)
  qed
  then show ?thesis
    using assms False
    by (simp add: readMore_def applyVerdict_def Let_def onReply_lost finishReply_lost split: option.splits verdict.splits)
qed

lemma sendEnvelope_lost:
  assumes "lost b c"
  shows "lost b (sendEnvelope n env act c)"
proof -
  let ?rid = "wc_nextReply c"
  let ?c1 = "c\<lparr>wc_nextReply := ?rid + 1, wc_replies := (wc_replies c)(?rid \<mapsto> replyFor (wc_endpoint c) env act)\<rparr>"
  have b: "?rid \<noteq> b" using assms by (auto simp: lost_def)
  have c1: "lost b ?c1" using assms by (auto simp: lost_def)
  have j: "lost b (onReply ?rid f (?c1\<lparr>wc_pendingQueue := wc_pendingQueue ?c1 @ [?rid]\<rparr>))" for f
    by (rule onReply_lost [OF _ b]) (use c1 b in \<open>auto simp: lost_def\<close>)
  have st: "lost b (settle n ?rid (startNow n ?rid d))" if "lost b d" for d
    by (rule settle_lost [OF that]) (use b in \<open>auto intro: startNow_touches\<close>)
  have k: "lost b (d\<lparr>wc_currentRequest := x, wc_pendingQueue := tl (wc_pendingQueue d)\<rparr>)" if "lost b d" for d x
    using that by (cases "wc_pendingQueue d") (auto simp: lost_def)
  show ?thesis
    using st [OF c1] st [OF k [OF j]] j by (simp add: sendEnvelope_def sendSerialized_def Let_def)
qed

text \<open>Events that concern the lost reply itself.\<close>

definition spares :: "nat \<Rightarrow> wsev \<Rightarrow> bool" where
  "spares b ev = (ev \<noteq> Abort b \<and> ev \<noteq> Destroy b \<and> (\<forall>msg. ev \<noteq> SockError b msg))"

lemma handle_lost:
  assumes "lost b c" and "signalled ev c" and "spares b ev"
  shows "lost b (handle n ev c)"
proof -
  obtain r where r: "wc_replies c b = Some r" "untouched r"
    using assms(1) by (auto simp: lost_def)
  have sock: "rid \<noteq> b" if "socketOf c rid = Some s" for rid s
    using that r by (auto simp: socketOf_def untouched_def)
  note touched = lost_touched [OF assms(1) _ sock]
  show ?thesis
  proof (cases ev)
    case (FactoryAnswer rid fd err)
    have "lost b (onFactory n rid tls auth fd err c)" if "rid \<noteq> b" for tls auth
      unfolding onFactory_def
      by (rule settle_lost [OF onReply_lost [OF assms(1) that]]) (use that in \<open>auto intro: factoryDone_touches\<close>)
    with FactoryAnswer assms(1) r show ?thesis
      by (cases "rid = b") (auto simp: closeOrphanFd_def untouched_def split: option.splits)
  next
    case (TimerFires rid)
    then have "rid \<noteq> b" using assms(2) r by (auto simp: signalled_def untouched_def)
    with TimerFires assms(1) show ?thesis by (simp add: onTimeout_def endWith_lost onReply_lost)
  next
    case (Connected rid)
    then show ?thesis using assms(1) touched [OF onConnected_touches] by (simp add: withSocket_def split: option.splits)
  next
    case (Encrypted rid)
    then show ?thesis using assms(1) touched [OF onEncrypted_touches] by (simp add: withSocket_def split: option.splits)
  next
    case (SslErrors rid chain)
    then show ?thesis using assms(1) touched [OF onSslErrors_touches] by (simp add: withSocket_def split: option.splits)
  next
    case (QueuedWrite rid)
    then show ?thesis using assms(1) touched [OF onQueuedWrite_touches] by (simp add: withSocket_def split: option.splits)
  next
    case (Destroy rid)
    then show ?thesis using assms(1,3) by (auto simp: destroyReply_def spares_def intro: lost_same)
  next
    case (Abort rid)
    then show ?thesis using assms(1,3) by (auto simp: reply_abort_def spares_def endWith_lost)
  next
    case (SockError rid msg)
    then show ?thesis using assms(1,3) by (auto simp: onSockError_def spares_def endWith_lost)
  next
    case (Send env act)
    then show ?thesis by (simp add: sendEnvelope_lost [OF assms(1)])
  next
    case (ReadyRead rid chunk conn)
    then show ?thesis by (simp add: readMore_lost [OF assms(1)])
  qed (use assms(1) in \<open>auto simp: wsman_setCredentials_def setTrustedFingerprints_def wsman_trustPendingPeerCert_def Let_def lost_def\<close>)
qed

lemma playEvents_lost: "lost b c \<Longrightarrow> playable n es c \<Longrightarrow> \<forall>ev \<in> set es. spares b ev \<Longrightarrow> lost b (playEvents n es c)"
  by (induction n es c rule: playEvents.induct) (simp_all add: handle_lost del: handle.simps)

lemma destroyed_loses_head:
  assumes "wc_serializeRequests c" and "wc_currentRequest c = Some a" and "wc_replies c a = None" and "a < wc_nextReply c"
    and "wc_pendingQueue c = b # qs" and "b \<notin> set qs" and "b < wc_nextReply c"
    and "wc_replies c b = Some r" and "\<not> rp_finished r" and "untouched r"
  shows "lost b (sendEnvelope n env act c)"
proof -
  let ?rid = "wc_nextReply c"
  let ?j = "joined (replyFor (wc_endpoint c) env act) c"
  have "lost b (?j\<lparr>wc_currentRequest := Some b, wc_pendingQueue := qs @ [?rid]\<rparr>)"
    using assms by (auto simp: lost_def joined_def)
  then have l: "lost b (settle n ?rid (startNow n ?rid (?j\<lparr>wc_currentRequest := Some b, wc_pendingQueue := qs @ [?rid]\<rparr>)))"
    by (rule settle_lost) (use assms(7) in \<open>auto intro: startNow_touches\<close>)
  have "currentIsNull ?j" using assms(2,3,4) by (simp add: currentIsNull_def joined_def)
  moreover have "onReply ?rid (\<lambda>r. r\<lparr>rp_slot := True\<rparr>) (c\<lparr>wc_nextReply := Suc ?rid,
      wc_replies := (wc_replies c)(?rid \<mapsto> replyFor (wc_endpoint c) env act), wc_pendingQueue := b # qs @ [?rid]\<rparr>) = ?j"
    using assms(5) by (simp add: joined_def onReply_def)
  moreover have "wc_pendingQueue ?j = b # qs @ [?rid]"
    using assms(5) by (simp add: joined_def)
  ultimately show ?thesis
    using l assms(1,5) by (simp add: sendEnvelope_def sendSerialized_def Let_def)
qed

text \<open>
  The lost request never ends: in a serialized client whose reply in flight was destroyed while \<open>b\<close> waits at the
  head of the queue, once another request is sent nothing that happens later, short of the owner aborting or destroying
  it, starts \<open>b\<close> or finishes it. No timer runs for it either.
\<close>

theorem destroyed_request_starves_next:
  assumes "wc_serializeRequests c" and "wc_currentRequest c = Some a" and "wc_replies c a = None" and "a < wc_nextReply c"
    and "wc_pendingQueue c = b # qs" and "b \<notin> set qs" and "b < wc_nextReply c"
    and "wc_replies c b = Some r" and "\<not> rp_finished r" and "untouched r"
    and "playable n es (sendEnvelope n env act c)" and "\<forall>ev \<in> set es. spares b ev"
  shows "\<exists>q. wc_replies (playEvents n es (sendEnvelope n env act c)) b = Some q \<and> \<not> rp_finished q \<and> untouched q"
  using playEvents_lost [OF destroyed_loses_head [OF assms(1-10)] assms(11,12)] by (simp add: lost_def)

theorem destroyed_request_starves_next_witness:
  "\<exists>q. wc_replies (playEvents demoNet [Connected 2] (sendEnvelope demoNet [] [] (destroyReply 0 demoQueued))) 1 = Some q \<and> \<not> rp_finished q"
proof -
  let ?c = "destroyReply 0 demoQueued"
  obtain r where "wc_replies ?c 1 = Some r" "\<not> rp_finished r" "untouched r"
    by (simp add: demoQueued_def client_eval untouched_def destroyReply_def)
  moreover have "wc_serializeRequests ?c" "wc_currentRequest ?c = Some 0" "wc_replies ?c 0 = None" "wc_nextReply ?c = 2" "wc_pendingQueue ?c = [1]"
    "playable demoNet [Connected 2] (sendEnvelope demoNet [] [] ?c)"
    by (simp_all add: demoQueued_def client_eval destroyReply_def)
  ultimately show ?thesis
    using destroyed_request_starves_next [of ?c 0 1 "[]" r demoNet "[Connected 2]" "[]" "[]"] by (auto simp: spares_def)
qed

section \<open>A factory that fails before it returns\<close>

text \<open>\<open>runRequest\<close> connects to \<open>finished\<close> after \<open>sendEnvelope\<close> has returned the reply. When the socket factory reports a
  failure before it returns, as the SSH opener does while its session is down, \<open>finished\<close> has been emitted by
  then: the reply is over when the caller gets it, and the signal came before the call returned, so the caller never hears of it.
\<close>

theorem sync_factory_failure_unheard:
  assumes "\<not> wc_serializeRequests c" and "wc_socketFactory c" and "n_factory n (wc_nextReply c) = Some (fd, err)" and "fd < 0"
  shows "\<exists>pre r. wc_log (sendEnvelope n env act c) = wc_log c @ pre @ [Finished (wc_nextReply c), Returned (wc_nextReply c)] \<and>
    wc_replies (sendEnvelope n env act c) (wc_nextReply c) = Some r \<and> rp_finished r \<and> hasError r"
  using assms
  by (simp add: sendEnvelope_def startNow_def startTransport_def retryWithDigest_def openConnection_def askFactory_def factoryDone_def
      settle_def emitFinished_def armTimeout_def replyFor_def newReply_def conclude_def stopTimer_def hasError_def forgetAnswer_def Let_def blit_def)

theorem sync_factory_failure_unheard_witness:
  "\<exists>r. wc_replies (sendEnvelope (demoNet\<lparr>n_factory := \<lambda>_. Some (- 1, [])\<rparr>) [] [] (newClient\<lparr>wc_socketFactory := True\<rparr>)) 0 = Some r \<and>
    rp_finished r"
  using sync_factory_failure_unheard [of "newClient\<lparr>wc_socketFactory := True\<rparr>" "demoNet\<lparr>n_factory := \<lambda>_. Some (- 1, [])\<rparr>" "- 1" "[]" "[]" "[]"]
  by (auto simp: newClient_def)

end
