(* ===== verification/Soap_Envelope.thy ===== *)
theory Soap_Envelope
  imports Prelude
begin

text \<open>
  \<open>soap_envelope.cpp\<close>: the SOAP envelopes of WS-Management, written with \<open>QXmlStreamWriter\<close> and read with
  \<open>QXmlStreamReader\<close>. The two classes are a parameter, \<open>xmllib\<close>: a document is what the writer makes of a list of tokens, and
  the reader delivers the tokens of a document up to its end or its first error; \<open>x_refuses\<close> are the characters the writer
  reports as an error. Namespace prefixes, which the writer chooses, have no
  token. A hash is the list of its entries in the order the iterator visits them.
\<close>

section \<open>Tokens and the XML library\<close>

text \<open>Attributes are namespace, name and value; \<open>TMisc\<close> stands for comments, instructions and the document markers.\<close>

type_synonym xattr = "qstring \<times> qstring \<times> qstring"

datatype xtok = TStart qstring qstring "xattr list" | TChars qstring | TEnd | TMisc

record 'd xmllib =
  x_read :: "'d \<Rightarrow> xtok list"
  x_write :: "xtok list \<Rightarrow> 'd"
  x_refuses :: "qchar \<Rightarrow> bool"
  x_empty :: 'd

fun attrBad :: "'d xmllib \<Rightarrow> xattr \<Rightarrow> bool" where
  "attrBad x (ns, n, v) = list_ex (x_refuses x) (ns @ n @ v)"

fun tokBad :: "'d xmllib \<Rightarrow> xtok \<Rightarrow> bool" where
  "tokBad x (TStart ns ln attrs) = (list_ex (x_refuses x) (ns @ ln) \<or> list_ex (attrBad x) attrs)"
| "tokBad x (TChars t) = list_ex (x_refuses x) t"
| "tokBad x _ = False"

definition writerHasError :: "'d xmllib \<Rightarrow> xtok list \<Rightarrow> bool" where
  "writerHasError x ts = list_ex (tokBad x) ts"

text \<open>What the writer does per call.\<close>

definition writeTextElement :: "qstring \<Rightarrow> qstring \<Rightarrow> qstring \<Rightarrow> xtok list" where
  "writeTextElement ns ln t = [TStart ns ln [], TChars t, TEnd]"

definition writeEmptyElement :: "qstring \<Rightarrow> qstring \<Rightarrow> xtok list" where
  "writeEmptyElement ns ln = [TStart ns ln [], TEnd]"

text \<open>\<open>writeStartElement\<close>, its content, and the matching \<open>writeEndElement\<close>.\<close>

definition writeElement :: "qstring \<Rightarrow> qstring \<Rightarrow> xattr list \<Rightarrow> xtok list \<Rightarrow> xtok list" where
  "writeElement ns ln attrs content = TStart ns ln attrs # content @ [TEnd]"

definition finalizeWriter :: "'d xmllib \<Rightarrow> xtok list \<Rightarrow> 'd" where
  "finalizeWriter x ts = (if writerHasError x ts then x_empty x else x_write x ts)"

section \<open>Names\<close>

definition kNsSoap :: qstring where "kNsSoap = qlit ''http://www.w3.org/2003/05/soap-envelope''"
definition kNsAddressing :: qstring where "kNsAddressing = qlit ''http://schemas.xmlsoap.org/ws/2004/08/addressing''"
definition kNsWsman :: qstring where "kNsWsman = qlit ''http://schemas.dmtf.org/wbem/wsman/1/wsman.xsd''"
definition kNsIdentify :: qstring where "kNsIdentify = qlit ''http://schemas.dmtf.org/wbem/wsman/identity/1/wsmanidentity.xsd''"
definition kNsEnumeration :: qstring where "kNsEnumeration = qlit ''http://schemas.xmlsoap.org/ws/2004/09/enumeration''"
definition kAnonymousReplyTo :: qstring where
  "kAnonymousReplyTo = qlit ''http://schemas.xmlsoap.org/ws/2004/08/addressing/role/anonymous''"
definition kActionGet :: qstring where "kActionGet = qlit ''http://schemas.xmlsoap.org/ws/2004/09/transfer/Get''"
definition kActionPut :: qstring where "kActionPut = qlit ''http://schemas.xmlsoap.org/ws/2004/09/transfer/Put''"
definition kActionDelete :: qstring where "kActionDelete = qlit ''http://schemas.xmlsoap.org/ws/2004/09/transfer/Delete''"
definition kActionEnumerate :: qstring where
  "kActionEnumerate = qlit ''http://schemas.xmlsoap.org/ws/2004/09/enumeration/Enumerate''"
definition kActionPull :: qstring where "kActionPull = qlit ''http://schemas.xmlsoap.org/ws/2004/09/enumeration/Pull''"
definition kBootConfigResource :: qstring where
  "kBootConfigResource = qlit ''http://schemas.dmtf.org/wbem/wscim/1/cim-schema/2/CIM_BootConfigSetting''"
definition kBootSourceResource :: qstring where
  "kBootSourceResource = qlit ''http://schemas.dmtf.org/wbem/wscim/1/cim-schema/2/CIM_BootSourceSetting''"

section \<open>Building envelopes\<close>

type_synonym qhash = "(qstring \<times> qstring) list"

definition writeSelector :: "qstring \<times> qstring \<Rightarrow> xtok list" where
  "writeSelector kv = writeElement kNsWsman (qlit ''Selector'') [([], qlit ''Name'', fst kv)] [TChars (snd kv)]"

definition writeAddressingHeader :: "qstring \<Rightarrow> qstring \<Rightarrow> qstring \<Rightarrow> qstring \<Rightarrow> qhash \<Rightarrow> xtok list" where
  "writeAddressingHeader action to messageId resourceUri selectors =
     writeElement kNsSoap (qlit ''Header'') []
       (writeTextElement kNsAddressing (qlit ''Action'') action @
        writeTextElement kNsAddressing (qlit ''To'') to @
        (if resourceUri \<noteq> [] then writeTextElement kNsWsman (qlit ''ResourceURI'') resourceUri else []) @
        writeTextElement kNsAddressing (qlit ''MessageID'') messageId @
        writeElement kNsAddressing (qlit ''ReplyTo'') []
          (writeTextElement kNsAddressing (qlit ''Address'') kAnonymousReplyTo) @
        (if selectors \<noteq> []
         then writeElement kNsWsman (qlit ''SelectorSet'') [] (concat (map writeSelector selectors)) else []))"

definition writeEnvelope :: "xtok list \<Rightarrow> xtok list \<Rightarrow> xtok list" where
  "writeEnvelope header body = writeElement kNsSoap (qlit ''Envelope'') [] (header @ body)"

definition writeBody :: "xtok list \<Rightarrow> xtok list" where
  "writeBody content = writeElement kNsSoap (qlit ''Body'') [] content"

definition buildIdentifyEnvelope :: "'d xmllib \<Rightarrow> 'd" where
  "buildIdentifyEnvelope x =
     finalizeWriter x (writeEnvelope (writeEmptyElement kNsSoap (qlit ''Header''))
       (writeBody (writeEmptyElement kNsIdentify (qlit ''Identify''))))"

definition buildGetEnvelope :: "'d xmllib \<Rightarrow> qstring \<Rightarrow> qhash \<Rightarrow> qstring \<Rightarrow> qstring \<Rightarrow> 'd" where
  "buildGetEnvelope x resourceUri selectors to messageId =
     finalizeWriter x (writeEnvelope (writeAddressingHeader kActionGet to messageId resourceUri selectors)
       (writeEmptyElement kNsSoap (qlit ''Body'')))"

definition buildDeleteEnvelope :: "'d xmllib \<Rightarrow> qstring \<Rightarrow> qhash \<Rightarrow> qstring \<Rightarrow> qstring \<Rightarrow> 'd" where
  "buildDeleteEnvelope x resourceUri selectors to messageId =
     finalizeWriter x (writeEnvelope (writeAddressingHeader kActionDelete to messageId resourceUri selectors)
       (writeEmptyElement kNsSoap (qlit ''Body'')))"

definition writeProperties :: "qstring \<Rightarrow> qhash \<Rightarrow> xtok list" where
  "writeProperties resourceUri kvs = concat (map (\<lambda>kv. writeTextElement resourceUri (fst kv) (snd kv)) kvs)"

definition buildPutEnvelope :: "'d xmllib \<Rightarrow> qstring \<Rightarrow> qstring \<Rightarrow> qhash \<Rightarrow> qhash \<Rightarrow> qstring \<Rightarrow> qstring \<Rightarrow> 'd" where
  "buildPutEnvelope x resourceUri className selectors properties to messageId =
     finalizeWriter x (writeEnvelope (writeAddressingHeader kActionPut to messageId resourceUri selectors)
       (writeBody (writeElement resourceUri className [] (writeProperties resourceUri properties))))"

definition bootSourceEpr :: "qstring \<Rightarrow> xtok list" where
  "bootSourceEpr amtBootSourceInstanceId =
     writeElement kBootConfigResource (qlit ''Source'') []
       (writeTextElement kNsAddressing (qlit ''Address'') (qlit ''http://schemas.xmlsoap.org/ws/2004/08/addressing'') @
        writeElement kNsAddressing (qlit ''ReferenceParameters'') []
          (writeTextElement kNsWsman (qlit ''ResourceURI'') kBootSourceResource @
           writeElement kNsWsman (qlit ''SelectorSet'') []
             (writeSelector (qlit ''InstanceID'', qlit ''Intel(r) AMT: '' @ amtBootSourceInstanceId))))"

definition buildChangeBootOrderEnvelope :: "'d xmllib \<Rightarrow> qstring \<Rightarrow> qstring \<Rightarrow> qstring \<Rightarrow> 'd" where
  "buildChangeBootOrderEnvelope x amtBootSourceInstanceId to messageId =
     finalizeWriter x (writeEnvelope
       (writeAddressingHeader (kBootConfigResource @ qlit ''/ChangeBootOrder'') to messageId kBootConfigResource
          [(qlit ''InstanceID'', qlit ''Intel(r) AMT: Boot Configuration 0'')])
       (writeBody (writeElement kBootConfigResource (qlit ''ChangeBootOrder_INPUT'') []
          (if amtBootSourceInstanceId \<noteq> [] then bootSourceEpr amtBootSourceInstanceId else []))))"

definition buildEnumerateEnvelope :: "'d xmllib \<Rightarrow> qstring \<Rightarrow> qstring \<Rightarrow> qstring \<Rightarrow> 'd" where
  "buildEnumerateEnvelope x resourceUri to messageId =
     finalizeWriter x (writeEnvelope (writeAddressingHeader kActionEnumerate to messageId resourceUri [])
       (writeBody (writeEmptyElement kNsEnumeration (qlit ''Enumerate''))))"

text \<open>\<open>QString::number\<close> of a positive int.\<close>

definition numberText :: "nat \<Rightarrow> qstring" where
  "numberText n = fromLatin1 (dec_digits n)"

definition buildPullEnvelope :: "'d xmllib \<Rightarrow> qstring \<Rightarrow> qstring \<Rightarrow> int \<Rightarrow> qstring \<Rightarrow> qstring \<Rightarrow> 'd" where
  "buildPullEnvelope x resourceUri enumerationContext maxElements to messageId =
     finalizeWriter x (writeEnvelope (writeAddressingHeader kActionPull to messageId resourceUri [])
       (writeBody (writeElement kNsEnumeration (qlit ''Pull'') []
          (writeTextElement kNsEnumeration (qlit ''EnumerationContext'') enumerationContext @
           writeTextElement kNsEnumeration (qlit ''MaxElements'')
             (numberText (if maxElements > 0 then nat maxElements else 64))))))"

definition invokeTokens :: "qstring \<Rightarrow> qstring \<Rightarrow> qhash \<Rightarrow> qhash \<Rightarrow> qstring \<Rightarrow> qstring \<Rightarrow> xtok list" where
  "invokeTokens resourceUri methodName selectors parameters to messageId =
     writeEnvelope (writeAddressingHeader (resourceUri @ [0x2F] @ methodName) to messageId resourceUri selectors)
       (writeBody (writeElement resourceUri (methodName @ qlit ''_INPUT'') [] (writeProperties resourceUri parameters)))"

definition buildInvokeEnvelope :: "'d xmllib \<Rightarrow> qstring \<Rightarrow> qstring \<Rightarrow> qhash \<Rightarrow> qhash \<Rightarrow> qstring \<Rightarrow> qstring \<Rightarrow> 'd" where
  "buildInvokeEnvelope x resourceUri methodName selectors parameters to messageId =
     finalizeWriter x (invokeTokens resourceUri methodName selectors parameters to messageId)"

definition buildInvokeEnvelopeOrdered :: "'d xmllib \<Rightarrow> qstring \<Rightarrow> qstring \<Rightarrow> qhash \<Rightarrow> (qstring \<times> qstring) list \<Rightarrow> qstring \<Rightarrow> qstring \<Rightarrow> 'd" where
  "buildInvokeEnvelopeOrdered x resourceUri methodName selectors parameters to messageId =
     finalizeWriter x (invokeTokens resourceUri methodName selectors parameters to messageId)"

section \<open>Reading\<close>

text \<open>
  \<open>readElementText\<close>: the text up to the end tag and what follows it. A child element is an error, after which the reader
  is at its end. With \<open>IncludeChildElements\<close> the text of the children belongs to it; \<open>k\<close> counts the open ones.
\<close>

fun readElementText :: "qstring \<Rightarrow> xtok list \<Rightarrow> qstring \<times> xtok list" where
  "readElementText acc [] = (acc, [])"
| "readElementText acc (TChars t # r) = readElementText (acc @ t) r"
| "readElementText acc (TMisc # r) = readElementText acc r"
| "readElementText acc (TEnd # r) = (acc, r)"
| "readElementText acc (TStart ns ln attrs # r) = (acc, [])"

fun readAllText :: "nat \<Rightarrow> qstring \<Rightarrow> xtok list \<Rightarrow> qstring \<times> xtok list" where
  "readAllText k acc [] = (acc, [])"
| "readAllText k acc (TChars t # r) = readAllText k (acc @ t) r"
| "readAllText k acc (TMisc # r) = readAllText k acc r"
| "readAllText 0 acc (TEnd # r) = (acc, r)"
| "readAllText (Suc k) acc (TEnd # r) = readAllText k acc r"
| "readAllText k acc (TStart ns ln attrs # r) = readAllText (Suc k) acc r"

lemma readElementText_shorter: "length (snd (readElementText acc ts)) \<le> length ts"
  by (induction acc ts rule: readElementText.induct) auto

lemma readAllText_shorter: "length (snd (readAllText k acc ts)) \<le> length ts"
  by (induction k acc ts rule: readAllText.induct) auto

fun findToken :: "qstring \<Rightarrow> xtok list \<Rightarrow> qstring" where
  "findToken localName [] = []"
| "findToken localName (TStart ns ln attrs # r) = (if ln = localName then fst (readElementText [] r) else findToken localName r)"
| "findToken localName (_ # r) = findToken localName r"

definition findScalar :: "'d xmllib \<Rightarrow> 'd \<Rightarrow> qstring \<Rightarrow> qstring" where
  "findScalar x bodyXml localName = findToken localName (x_read x bodyXml)"

definition parseEnumerateContext :: "'d xmllib \<Rightarrow> 'd \<Rightarrow> qstring" where
  "parseEnumerateContext x bodyXml = findScalar x bodyXml (qlit ''EnumerationContext'')"

record 'd SoapResponse =
  bodyXml :: 'd
  fault :: qstring
  headerAction :: qstring
  headerRelatesTo :: qstring

definition isFault :: "'d SoapResponse \<Rightarrow> bool" where
  "isFault s \<longleftrightarrow> fault s \<noteq> []"

text \<open>The locals of \<open>parseResponse\<close>: the depth, the depth of the body, and what the body writer was given.\<close>

record soap_state =
  so_depth :: int
  so_bodyDepth :: int
  so_body :: "xtok list"
  so_fault :: qstring
  so_action :: qstring
  so_relatesTo :: qstring

definition soapStart :: soap_state where
  "soapStart = \<lparr>so_depth = 0, so_bodyDepth = -1, so_body = [], so_fault = [], so_action = [], so_relatesTo = []\<rparr>"

lemma readElementText_rest: "(t, r') = readElementText acc r \<Longrightarrow> length r' \<le> length r"
  using readElementText_shorter [of acc r] by (metis snd_conv)

lemma readAllText_rest: "(t, r') = readAllText k acc r \<Longrightarrow> length r' \<le> length r"
  using readAllText_shorter [of k acc r] by (metis snd_conv)

text \<open>
  The loop all readers share: a start tag, characters and an end tag each change the locals; a start tag may instead
  read the text of its element, with the text of the children (\<open>True\<close>) or without, and go on behind it.
\<close>

function readLoop :: "(qstring \<Rightarrow> qstring \<Rightarrow> xattr list \<Rightarrow> 's \<Rightarrow> 's + bool \<times> (qstring \<Rightarrow> 's)) \<Rightarrow> (qstring \<Rightarrow> 's \<Rightarrow> 's) \<Rightarrow> ('s \<Rightarrow> 's) \<Rightarrow>
    xtok list \<Rightarrow> 's \<Rightarrow> 's" where
  "readLoop st ch en [] s = s"
| "readLoop st ch en (TMisc # r) s = readLoop st ch en r s"
| "readLoop st ch en (TChars t # r) s = readLoop st ch en r (ch t s)"
| "readLoop st ch en (TEnd # r) s = readLoop st ch en r (en s)"
| "readLoop st ch en (TStart ns ln attrs # r) s =
     (case st ns ln attrs s of
        Inl s' \<Rightarrow> readLoop st ch en r s'
      | Inr (deep, k) \<Rightarrow> (let (t, r') = (if deep then readAllText 0 [] r else readElementText [] r) in readLoop st ch en r' (k t)))"
  by pat_completeness auto

termination
  by (relation "measure (\<lambda>(st, ch, en, ts, s). length ts)")
    (auto simp: less_Suc_eq_le dest: readElementText_rest readAllText_rest split: if_splits)

subsection \<open>\<open>parseResponse\<close>\<close>

definition onSoapStart :: "qstring \<Rightarrow> qstring \<Rightarrow> xattr list \<Rightarrow> soap_state \<Rightarrow> soap_state + bool \<times> (qstring \<Rightarrow> soap_state)" where
  "onSoapStart ns ln attrs s =
     (let d = so_depth s + 1
      in if d = 2 \<and> ns = kNsSoap \<and> ln = qlit ''Body'' then Inl (s\<lparr>so_depth := d, so_bodyDepth := d\<rparr>)
         else if d = 3 \<and> so_bodyDepth s = 2 \<and> ns = kNsSoap \<and> ln = qlit ''Fault'' then Inr (True, \<lambda>t. s\<lparr>so_fault := t\<rparr>)
         else if d = 3 \<and> ns = kNsAddressing \<and> ln = qlit ''Action'' then Inr (False, \<lambda>t. s\<lparr>so_action := t\<rparr>)
         else if d = 3 \<and> ns = kNsAddressing \<and> ln = qlit ''RelatesTo'' then Inr (False, \<lambda>t. s\<lparr>so_relatesTo := t\<rparr>)
         else if so_bodyDepth s > 0 \<and> d > so_bodyDepth s
         then Inl (s\<lparr>so_depth := d, so_body := so_body s @ [TStart ns ln attrs]\<rparr>)
         else Inl (s\<lparr>so_depth := d\<rparr>))"

definition onSoapChars :: "qstring \<Rightarrow> soap_state \<Rightarrow> soap_state" where
  "onSoapChars t s =
     (if so_bodyDepth s > 0 \<and> so_depth s > so_bodyDepth s then s\<lparr>so_body := so_body s @ [TChars t]\<rparr> else s)"

definition onSoapEnd :: "soap_state \<Rightarrow> soap_state" where
  "onSoapEnd s =
     s\<lparr>so_body := (if so_bodyDepth s > 0 \<and> so_depth s > so_bodyDepth s then so_body s @ [TEnd] else so_body s),
       so_bodyDepth := (if so_depth s = so_bodyDepth s then -1 else so_bodyDepth s), so_depth := so_depth s - 1\<rparr>"

definition parseTokens :: "xtok list \<Rightarrow> soap_state" where
  "parseTokens ts = readLoop onSoapStart onSoapChars onSoapEnd ts soapStart"

definition parseResponse :: "'d xmllib \<Rightarrow> 'd \<Rightarrow> 'd SoapResponse" where
  "parseResponse x xml =
     (let s = parseTokens (x_read x xml)
      in \<lparr>bodyXml = x_write x (so_body s), fault = so_fault s, headerAction = so_action s, headerRelatesTo = so_relatesTo s\<rparr>)"

subsection \<open>\<open>parsePullResponse\<close>\<close>

record 'd PullChunk =
  items :: "'d list"
  enumerationContext :: qstring
  endOfSequence :: bool

text \<open>\<open>pu_item\<close> is the item writer with what it was given.\<close>

record pull_state =
  pu_depth :: int
  pu_itemsDepth :: int
  pu_itemDepth :: int
  pu_item :: "xtok list option"
  pu_items :: "xtok list list"
  pu_context :: qstring
  pu_end :: bool

definition pullStart :: pull_state where
  "pullStart = \<lparr>pu_depth = 0, pu_itemsDepth = -1, pu_itemDepth = -1, pu_item = None, pu_items = [], pu_context = [], pu_end = False\<rparr>"

definition capture :: "xtok \<Rightarrow> pull_state \<Rightarrow> pull_state" where
  "capture t s = s\<lparr>pu_item := map_option (\<lambda>b. b @ [t]) (pu_item s)\<rparr>"

definition onPullStart :: "qstring \<Rightarrow> qstring \<Rightarrow> xattr list \<Rightarrow> pull_state \<Rightarrow> pull_state + bool \<times> (qstring \<Rightarrow> pull_state)" where
  "onPullStart ns ln attrs s =
     (let d = pu_depth s + 1
      in if pu_itemsDepth s < 0 \<and> ns = kNsEnumeration \<and> ln = qlit ''Items'' then Inl (s\<lparr>pu_depth := d, pu_itemsDepth := d\<rparr>)
         else if ns = kNsEnumeration \<and> ln = qlit ''EnumerationContext'' then Inr (False, \<lambda>t. s\<lparr>pu_context := t\<rparr>)
         else if ns = kNsEnumeration \<and> ln = qlit ''EndOfSequence'' then Inl (s\<lparr>pu_depth := d, pu_end := True\<rparr>)
         else if pu_itemsDepth s > 0 \<and> d = pu_itemsDepth s + 1
         then Inl (s\<lparr>pu_depth := d, pu_itemDepth := d, pu_item := Some [TStart ns ln attrs]\<rparr>)
         else if pu_item s \<noteq> None \<and> pu_itemDepth s > 0 \<and> d > pu_itemDepth s
         then Inl (capture (TStart ns ln attrs) (s\<lparr>pu_depth := d\<rparr>))
         else Inl (s\<lparr>pu_depth := d\<rparr>))"

definition onPullChars :: "qstring \<Rightarrow> pull_state \<Rightarrow> pull_state" where
  "onPullChars t s =
     (if pu_item s \<noteq> None \<and> pu_itemDepth s > 0 \<and> pu_depth s \<ge> pu_itemDepth s then capture (TChars t) s else s)"

definition closeItem :: "pull_state \<Rightarrow> pull_state" where
  "closeItem s =
     (case pu_item s of
        None \<Rightarrow> s
      | Some b \<Rightarrow>
          if pu_itemDepth s > 0 \<and> pu_depth s > pu_itemDepth s then capture TEnd s
          else if pu_itemDepth s > 0 \<and> pu_depth s = pu_itemDepth s
          then s\<lparr>pu_item := None, pu_items := pu_items s @ [b @ [TEnd]], pu_itemDepth := -1\<rparr>
          else s)"

definition onPullEnd :: "pull_state \<Rightarrow> pull_state" where
  "onPullEnd s =
     (let s = closeItem s
      in s\<lparr>pu_itemsDepth := (if pu_itemsDepth s > 0 \<and> pu_depth s = pu_itemsDepth s then -1 else pu_itemsDepth s),
           pu_depth := pu_depth s - 1\<rparr>)"

definition pullTokens :: "xtok list \<Rightarrow> pull_state" where
  "pullTokens ts = readLoop onPullStart onPullChars onPullEnd ts pullStart"

definition parsePullResponse :: "'d xmllib \<Rightarrow> 'd \<Rightarrow> 'd PullChunk" where
  "parsePullResponse x xml =
     (let s = pullTokens (x_read x xml)
      in \<lparr>items = map (x_write x) (pu_items s), enumerationContext = pu_context s, endOfSequence = pu_end s\<rparr>)"

section \<open>Documents up to the way their text is cut\<close>

text \<open>
  A reader may deliver a text in one piece or in several, an empty text not at all, and comments anywhere. \<open>tidy\<close> is the
  form without such differences; what the readers here compute depends on it only.
\<close>

fun glue :: "qstring \<Rightarrow> xtok list \<Rightarrow> xtok list" where
  "glue a (TChars b # r) = TChars (a @ b) # r"
| "glue a r = (if a = [] then r else TChars a # r)"

fun tidy :: "xtok list \<Rightarrow> xtok list" where
  "tidy [] = []"
| "tidy (TMisc # r) = tidy r"
| "tidy (TChars t # r) = glue t (tidy r)"
| "tidy (t # r) = t # tidy r"

lemma glue_nil [simp]: "glue [] r = r"
proof (cases r)
  case (Cons t r')
  then show ?thesis by (cases t) simp_all
qed simp

lemma glue_glue: "glue a (glue b r) = glue (a @ b) r"
  by (induction b r rule: glue.induct) auto

lemma glue_tidy: "tidy (glue a r) = glue a (tidy r)"
  by (induction a r rule: glue.induct) (auto simp: glue_glue)

lemma tidy_idem [simp]: "tidy (tidy ts) = tidy ts"
  by (induction ts rule: tidy.induct) (simp_all add: glue_tidy)

lemma tidy_glue_append: "tidy (glue a r @ us) = glue a (tidy (r @ us))"
  by (induction a r rule: glue.induct) (auto simp: glue_glue)

lemma tidy_append_left: "tidy (tidy ts @ us) = tidy (ts @ us)"
  by (induction ts rule: tidy.induct) (simp_all add: tidy_glue_append)

lemma tidy_append_cong: "tidy ts = tidy us \<Longrightarrow> tidy (ts @ vs) = tidy (us @ vs)"
  by (metis tidy_append_left)

lemma readElementText_glue: "readElementText acc (glue t r) = readElementText (acc @ t) r"
  by (induction t r rule: glue.induct) auto

lemma readElementText_tidy:
  "readElementText acc (tidy ts) = (fst (readElementText acc ts), tidy (snd (readElementText acc ts)))"
  by (induction acc ts rule: readElementText.induct) (simp_all add: readElementText_glue)

lemma readAllText_glue: "readAllText k acc (glue t r) = readAllText k (acc @ t) r"
  by (induction t r rule: glue.induct) auto

lemma readAllText_tidy:
  "readAllText k acc (tidy ts) = (fst (readAllText k acc ts), tidy (snd (readAllText k acc ts)))"
  by (induction k acc ts rule: readAllText.induct) (simp_all add: readAllText_glue)

lemma findToken_glue: "findToken n (glue t r) = findToken n r"
  by (induction t r rule: glue.induct) auto

lemma findToken_tidy: "findToken n (tidy ts) = findToken n ts"
  by (induction n ts rule: findToken.induct) (simp_all add: findToken_glue readElementText_tidy)

lemma findToken_cong: "tidy ts = tidy us \<Longrightarrow> findToken n ts = findToken n us"
  by (metis findToken_tidy)

text \<open>The handlers of a reader whose locals may differ in the way a captured text is cut.\<close>

locale token_handlers =
  fixes st :: "qstring \<Rightarrow> qstring \<Rightarrow> xattr list \<Rightarrow> 's \<Rightarrow> 's + bool \<times> (qstring \<Rightarrow> 's)"
    and ch :: "qstring \<Rightarrow> 's \<Rightarrow> 's" and en :: "'s \<Rightarrow> 's" and eqs :: "'s \<Rightarrow> 's \<Rightarrow> bool"
  assumes eqs_refl: "eqs s s"
    and eqs_trans: "eqs s s' \<Longrightarrow> eqs s' s'' \<Longrightarrow> eqs s s''"
    and start_cong: "eqs s s' \<Longrightarrow> rel_sum eqs (rel_prod (=) (rel_fun (=) eqs)) (st ns ln attrs s) (st ns ln attrs s')"
    and chars_cong: "eqs s s' \<Longrightarrow> eqs (ch t s) (ch t s')"
    and ends_cong: "eqs s s' \<Longrightarrow> eqs (en s) (en s')"
    and chars_nil: "eqs s (ch [] s)"
    and chars_append: "eqs (ch (a @ b) s) (ch b (ch a s))"
begin

lemma start_plain: "eqs s s' \<Longrightarrow> st ns ln attrs s = Inl p \<Longrightarrow> \<exists>p'. st ns ln attrs s' = Inl p' \<and> eqs p p'"
  using start_cong [of s s' ns ln attrs] by (auto elim: rel_sum.cases)

lemma start_text:
  assumes "eqs s s'" and "st ns ln attrs s = Inr (deep, k)"
  shows "\<exists>k'. st ns ln attrs s' = Inr (deep, k') \<and> (\<forall>t. eqs (k t) (k' t))"
  using start_cong [OF assms(1), of ns ln attrs] assms(2) by (cases "st ns ln attrs s'") (auto simp: rel_fun_def)

lemma loop_cong: "eqs s s' \<Longrightarrow> eqs (readLoop st ch en ts s) (readLoop st ch en ts s')"
proof (induction ts arbitrary: s s' rule: measure_induct_rule [where f = length])
  case (less ts)
  show ?case
  proof (cases ts)
    case (Cons t r)
    show ?thesis
    proof (cases t)
      case (TStart ns ln attrs)
      show ?thesis
      proof (cases "st ns ln attrs s")
        case (Inl p)
        then obtain p' where "st ns ln attrs s' = Inl p'" "eqs p p'"
          using start_plain [OF less.prems] by blast
        with Inl show ?thesis using less.IH [of r] Cons TStart by simp
      next
        case (Inr dk)
        obtain deep k where dk: "dk = (deep, k)" by (cases dk)
        then obtain k' where k': "st ns ln attrs s' = Inr (deep, k')" "\<forall>t. eqs (k t) (k' t)"
          using start_text [OF less.prems] Inr by blast
        obtain u r' where u: "(if deep then readAllText 0 [] r else readElementText [] r) = (u, r')" by (meson surj_pair)
        then have "length r' \<le> length r"
          using readElementText_rest [of u r' "[]" r] readAllText_rest [of u r' 0 "[]" r] by (simp split: if_splits)
        then show ?thesis
          using less.IH [of r' "k u" "k' u"] Cons TStart Inr dk k' u by simp
      qed
    qed (use less Cons in \<open>simp_all add: chars_cong ends_cong\<close>)
  qed (use less.prems in simp)
qed

lemma loop_glue: "eqs (readLoop st ch en (glue t us) s) (readLoop st ch en us (ch t s))"
proof -
  have "eqs (readLoop st ch en (glue t us) s) (readLoop st ch en us (ch t s))" if "glue t us = (if t = [] then us else TChars t # us)"
    using that loop_cong [OF chars_nil] by (simp add: eqs_refl)
  moreover have "eqs (readLoop st ch en (glue t us) s) (readLoop st ch en us (ch t s))" if "us = TChars b # r" for b r
    using that loop_cong [OF chars_append] by simp
  ultimately show ?thesis
    by (cases "(t, us)" rule: glue.cases) auto
qed

lemma loop_tidy: "eqs (readLoop st ch en (tidy ts) s) (readLoop st ch en ts s)"
proof (induction ts arbitrary: s rule: measure_induct_rule [where f = length])
  case (less ts)
  show ?case
  proof (cases ts)
    case (Cons t r)
    show ?thesis
    proof (cases t)
      case (TStart ns ln attrs)
      show ?thesis
      proof (cases "st ns ln attrs s")
        case (Inl p)
        then show ?thesis using less.IH [of r] Cons TStart by simp
      next
        case (Inr dk)
        obtain deep k where dk: "dk = (deep, k)" by (cases dk)
        obtain u r' where u: "(if deep then readAllText 0 [] r else readElementText [] r) = (u, r')" by (meson surj_pair)
        then have "length r' \<le> length r"
          using readElementText_rest [of u r' "[]" r] readAllText_rest [of u r' 0 "[]" r] by (simp split: if_splits)
        moreover have "(if deep then readAllText 0 [] (tidy r) else readElementText [] (tidy r)) = (u, tidy r')"
          using u by (simp add: readAllText_tidy readElementText_tidy split: if_splits)
        ultimately show ?thesis
          using less.IH [of r' "k u"] Cons TStart Inr dk u by simp
      qed
    next
      case (TChars a)
      then show ?thesis
        using less.IH [of r "ch a s"] Cons eqs_trans [OF loop_glue [of a "tidy r" s]] by simp
    qed (use less Cons in simp_all)
  qed (simp add: eqs_refl)
qed

end

lemma if_related:
  "rel_sum A B a a' \<Longrightarrow> rel_sum A B b b' \<Longrightarrow> rel_sum A B (if c then a else b) (if c then a' else b')"
  by simp

text \<open>Captured tokens that agree up to their texts.\<close>

definition soap_eqs :: "soap_state \<Rightarrow> soap_state \<Rightarrow> bool" where
  "soap_eqs s s' \<longleftrightarrow> tidy (so_body s) = tidy (so_body s') \<and> s\<lparr>so_body := []\<rparr> = s'\<lparr>so_body := []\<rparr>"

lemma soap_eqsE:
  assumes "soap_eqs s s'"
  obtains b where "s' = s\<lparr>so_body := b\<rparr>" "tidy b = tidy (so_body s)"
proof -
  have "s' = s\<lparr>so_body := so_body s'\<rparr>"
    using assms by (cases s; cases s') (simp add: soap_eqs_def)
  with assms that show thesis by (simp add: soap_eqs_def)
qed

lemma soap_eqsI: "tidy b = tidy (so_body s) \<Longrightarrow> soap_eqs s (s\<lparr>so_body := b\<rparr>)"
  by (simp add: soap_eqs_def)

lemma tidy_chars_snoc: "tidy (ts @ [TChars (a @ b)]) = tidy (ts @ [TChars a, TChars b])" "tidy (ts @ [TChars []]) = tidy ts"
proof -
  have "tidy (ts @ us) = tidy (ts @ vs)" if "tidy us = tidy vs" for us vs
    using that by (induction ts rule: tidy.induct) simp_all
  from this [of "[TChars (a @ b)]" "[TChars a, TChars b]"] this [of "[TChars []]" "[]"]
  show "tidy (ts @ [TChars (a @ b)]) = tidy (ts @ [TChars a, TChars b])" "tidy (ts @ [TChars []]) = tidy ts"
    by (simp_all add: glue_glue)
qed

interpretation soap: token_handlers onSoapStart onSoapChars onSoapEnd soap_eqs
proof
  fix s s' s'' :: soap_state and ns ln attrs p deep k t a b
  show "soap_eqs s s" by (simp add: soap_eqs_def)
  show "soap_eqs s s' \<Longrightarrow> soap_eqs s' s'' \<Longrightarrow> soap_eqs s s''" by (simp add: soap_eqs_def)
  show "soap_eqs s (onSoapChars [] s)"
    by (auto simp: onSoapChars_def soap_eqs_def tidy_chars_snoc)
  show "soap_eqs (onSoapChars (a @ b) s) (onSoapChars b (onSoapChars a s))"
    by (auto simp: onSoapChars_def soap_eqs_def tidy_chars_snoc)
  assume "soap_eqs s s'"
  then obtain v where v: "s' = s\<lparr>so_body := v\<rparr>" "tidy v = tidy (so_body s)" by (rule soap_eqsE)
  have same: "so_depth s' = so_depth s" "so_bodyDepth s' = so_bodyDepth s"
    by (simp_all add: v(1))
  have app: "tidy (so_body s @ [x]) = tidy (v @ [x])" for x
    by (rule tidy_append_cong) (simp add: v(2))
  show "soap_eqs (onSoapChars t s) (onSoapChars t s')" "soap_eqs (onSoapEnd s) (onSoapEnd s')"
    using app by (auto simp: v onSoapChars_def onSoapEnd_def soap_eqs_def)
  show "rel_sum soap_eqs (rel_prod (=) (rel_fun (=) soap_eqs)) (onSoapStart ns ln attrs s) (onSoapStart ns ln attrs s')"
    unfolding onSoapStart_def Let_def same
    by (intro if_related) (simp_all add: v app soap_eqs_def rel_fun_def)
qed

definition pull_eqs :: "pull_state \<Rightarrow> pull_state \<Rightarrow> bool" where
  "pull_eqs s s' \<longleftrightarrow>
     rel_option (\<lambda>b b'. tidy b = tidy b') (pu_item s) (pu_item s') \<and> map tidy (pu_items s) = map tidy (pu_items s') \<and>
     pu_depth s' = pu_depth s \<and> pu_itemsDepth s' = pu_itemsDepth s \<and> pu_itemDepth s' = pu_itemDepth s \<and>
     pu_context s' = pu_context s \<and> pu_end s' = pu_end s"

lemma pull_eqs_refl: "pull_eqs s s"
  by (simp add: pull_eqs_def option.rel_refl)

lemma pull_eqs_trans:
  assumes "pull_eqs s s'" and "pull_eqs s' s''"
  shows "pull_eqs s s''"
proof -
  have "rel_option (\<lambda>b b'. tidy b = tidy b') (pu_item s) (pu_item s'')"
    using assms unfolding pull_eqs_def by (cases "pu_item s"; cases "pu_item s'"; cases "pu_item s''") simp_all
  with assms show ?thesis by (simp add: pull_eqs_def)
qed

lemma capture_eqs:
  assumes "pull_eqs s s'"
  shows "pull_eqs (capture t s) (capture t s')"
proof -
  have "rel_option (\<lambda>b b'. tidy b = tidy b') (map_option (\<lambda>b. b @ [t]) (pu_item s)) (map_option (\<lambda>b. b @ [t]) (pu_item s'))"
    using assms unfolding pull_eqs_def by (cases "pu_item s"; cases "pu_item s'") (auto intro: tidy_append_cong)
  with assms show ?thesis by (simp add: pull_eqs_def capture_def)
qed

lemma pull_eqs_item: "pull_eqs s s' \<Longrightarrow> (pu_item s' = None) = (pu_item s = None)"
  by (cases "pu_item s"; cases "pu_item s'") (simp_all add: pull_eqs_def)

lemma pull_start_eqs:
  assumes "pull_eqs s s'"
  shows "rel_sum pull_eqs (rel_prod (=) (rel_fun (=) pull_eqs)) (onPullStart ns ln attrs s) (onPullStart ns ln attrs s')"
proof -
  have same: "pu_depth s' = pu_depth s" "pu_itemsDepth s' = pu_itemsDepth s" "pu_itemDepth s' = pu_itemDepth s"
    using assms by (simp_all add: pull_eqs_def)
  have d: "pull_eqs (s\<lparr>pu_depth := d\<rparr>) (s'\<lparr>pu_depth := d\<rparr>)" for d
    using assms by (simp add: pull_eqs_def)
  have e: "pull_eqs (s\<lparr>pu_depth := d, pu_itemsDepth := d\<rparr>) (s'\<lparr>pu_depth := d, pu_itemsDepth := d\<rparr>)"
    "pull_eqs (s\<lparr>pu_context := t\<rparr>) (s'\<lparr>pu_context := t\<rparr>)" "pull_eqs (s\<lparr>pu_depth := d, pu_end := True\<rparr>) (s'\<lparr>pu_depth := d, pu_end := True\<rparr>)"
    "pull_eqs (s\<lparr>pu_depth := d, pu_itemDepth := d, pu_item := Some b\<rparr>) (s'\<lparr>pu_depth := d, pu_itemDepth := d, pu_item := Some b\<rparr>)" for d t b
    using assms by (simp_all add: pull_eqs_def)
  show ?thesis
    unfolding onPullStart_def Let_def same pull_eqs_item [OF assms]
    by (intro if_related) (simp_all add: d e capture_eqs rel_fun_def)
qed

lemma closeItem_eqs:
  assumes "pull_eqs s s'"
  shows "pull_eqs (closeItem s) (closeItem s')"
proof (cases "pu_item s")
  case None
  with assms pull_eqs_item [OF assms] show ?thesis by (simp add: closeItem_def)
next
  case (Some b)
  then obtain b' where b': "pu_item s' = Some b'" "tidy b = tidy b'"
    using assms by (cases "pu_item s'") (simp_all add: pull_eqs_def)
  have same: "pu_depth s' = pu_depth s" "pu_itemDepth s' = pu_itemDepth s"
    using assms by (simp_all add: pull_eqs_def)
  have "pull_eqs (s\<lparr>pu_item := None, pu_items := pu_items s @ [b @ [TEnd]], pu_itemDepth := - 1\<rparr>)
      (s'\<lparr>pu_item := None, pu_items := pu_items s' @ [b' @ [TEnd]], pu_itemDepth := - 1\<rparr>)"
    using assms tidy_append_cong [OF b'(2)] by (simp add: pull_eqs_def)
  then show ?thesis
    unfolding closeItem_def same Some b'(1) using assms capture_eqs [OF assms] by simp
qed

interpretation pull: token_handlers onPullStart onPullChars onPullEnd pull_eqs
proof
  fix s s' s'' :: pull_state and ns ln attrs t a b
  show "pull_eqs s s" by (rule pull_eqs_refl)
  show "pull_eqs s s' \<Longrightarrow> pull_eqs s' s'' \<Longrightarrow> pull_eqs s s''" by (rule pull_eqs_trans)
  show "pull_eqs s (onPullChars [] s)"
    by (cases "pu_item s") (simp_all add: onPullChars_def capture_def pull_eqs_def tidy_chars_snoc)
  show "pull_eqs (onPullChars (a @ b) s) (onPullChars b (onPullChars a s))"
    by (cases "pu_item s"; cases "pu_itemDepth s > 0"; cases "pu_depth s \<ge> pu_itemDepth s")
      (simp_all add: onPullChars_def capture_def pull_eqs_def tidy_chars_snoc)
  assume e: "pull_eqs s s'"
  have same: "pu_depth s' = pu_depth s" "pu_itemDepth s' = pu_itemDepth s"
    using e by (simp_all add: pull_eqs_def)
  show "pull_eqs (onPullChars t s) (onPullChars t s')"
    unfolding onPullChars_def same pull_eqs_item [OF e] using e capture_eqs [OF e] by auto
  show "pull_eqs (onPullEnd s) (onPullEnd s')"
    using closeItem_eqs [OF e] by (simp add: onPullEnd_def pull_eqs_def Let_def)
qed (rule pull_start_eqs)

end
