(* ===== verification/Soap_Trees.thy ===== *)
theory Soap_Trees
  imports Soap_Envelope
begin

text \<open>
  What the readers of \<open>soap_envelope.cpp\<close> return, stated on documents as trees. The depth counters of the readers are shown
  to find the parts of the tree they are meant to find; envelopes the program writes are shown to carry what they were
  built from.
\<close>

section \<open>Trees\<close>

datatype xnode = XElem qstring qstring "xattr list" "xnode list" | XText qstring

fun flat :: "xnode \<Rightarrow> xtok list" where
  "flat (XText t) = [TChars t]"
| "flat (XElem ns ln attrs ks) = TStart ns ln attrs # concat (map flat ks) @ [TEnd]"

fun allText :: "xnode \<Rightarrow> qstring" where
  "allText (XText t) = t"
| "allText (XElem ns ln attrs ks) = concat (map allText ks)"

fun isElem :: "xnode \<Rightarrow> bool" where
  "isElem (XText t) = False"
| "isElem (XElem ns ln attrs ks) = True"

fun named :: "qstring \<Rightarrow> qstring \<Rightarrow> xnode \<Rightarrow> bool" where
  "named ns ln (XText t) = False"
| "named ns ln (XElem ns' ln' attrs ks) = (ns = ns' \<and> ln = ln')"

fun kids :: "xnode \<Rightarrow> xnode list" where
  "kids (XText t) = []"
| "kids (XElem ns ln attrs ks) = ks"

definition textOnly :: "xnode \<Rightarrow> bool" where
  "textOnly n \<longleftrightarrow> (\<forall>k \<in> set (kids n). \<not> isElem k)"

text \<open>The text of the last element with a name, as repeated assignments leave it.\<close>

fun lastText :: "qstring \<Rightarrow> qstring \<Rightarrow> qstring \<Rightarrow> xnode list \<Rightarrow> qstring" where
  "lastText ns ln acc [] = acc"
| "lastText ns ln acc (k # ks) = lastText ns ln (if named ns ln k then allText k else acc) ks"

lemma readAllText_flat: "readAllText k acc (flat n @ r) = readAllText k (acc @ allText n) r"
proof (induction n arbitrary: k acc r rule: flat.induct)
  case (2 ns ln attrs ks)
  have "readAllText k acc (concat (map flat us) @ r) = readAllText k (acc @ concat (map allText us)) r"
    if "set us \<subseteq> set ks" for us k acc r
    using that by (induction us arbitrary: acc) (simp_all add: 2)
  then show ?case by simp
qed simp

lemma readAllText_flats: "readAllText 0 acc (concat (map flat ks) @ TEnd # r) = (acc @ concat (map allText ks), r)"
  by (induction ks arbitrary: acc) (simp_all add: readAllText_flat)

lemma readElementText_flats:
  "\<forall>k \<in> set ks. \<not> isElem k \<Longrightarrow> readElementText acc (concat (map flat ks) @ TEnd # r) = (acc @ concat (map allText ks), r)"
proof (induction ks arbitrary: acc)
  case (Cons k ks)
  then show ?case by (cases k) simp_all
qed simp

section \<open>The response of a device\<close>

abbreviation soapRun :: "xtok list \<Rightarrow> soap_state \<Rightarrow> soap_state" where
  "soapRun \<equiv> readLoop onSoapStart onSoapChars onSoapEnd"

text \<open>The handlers below the children of the body, where everything is captured, and elsewhere, where nothing is.\<close>

lemma soap_inside:
  assumes "so_bodyDepth s = 2" and "so_depth s \<ge> 3"
  shows "onSoapStart ns ln attrs s = Inl (s\<lparr>so_depth := so_depth s + 1, so_body := so_body s @ [TStart ns ln attrs]\<rparr>)"
    "onSoapChars t s = s\<lparr>so_body := so_body s @ [TChars t]\<rparr>"
    "onSoapEnd s = s\<lparr>so_depth := so_depth s - 1, so_body := so_body s @ [TEnd]\<rparr>"
  using assms by (simp_all add: onSoapStart_def onSoapChars_def onSoapEnd_def Let_def)

lemma soap_outside:
  assumes "so_bodyDepth s = -1" and "so_depth s \<ge> 3"
  shows "onSoapStart ns ln attrs s = Inl (s\<lparr>so_depth := so_depth s + 1\<rparr>)" "onSoapChars t s = s"
    "onSoapEnd s = s\<lparr>so_depth := so_depth s - 1\<rparr>"
  using assms by (simp_all add: onSoapStart_def onSoapChars_def onSoapEnd_def Let_def)

lemma soap_captures:
  "so_bodyDepth s = 2 \<Longrightarrow> so_depth s \<ge> 3 \<Longrightarrow> soapRun (flat n @ r) s = soapRun r (s\<lparr>so_body := so_body s @ flat n\<rparr>)"
proof (induction n arbitrary: s r rule: flat.induct)
  case (1 t)
  then show ?case by (simp add: soap_inside)
next
  case (2 ns ln attrs ks)
  have "soapRun (concat (map flat us) @ r) s = soapRun r (s\<lparr>so_body := so_body s @ concat (map flat us)\<rparr>)"
    if "set us \<subseteq> set ks" "so_bodyDepth s = 2" "so_depth s \<ge> 3" for us r s
    using that by (induction us arbitrary: s) (simp_all add: "2.IH")
  from this [OF subset_refl, of "s\<lparr>so_depth := so_depth s + 1, so_body := so_body s @ [TStart ns ln attrs]\<rparr>" "TEnd # r"]
  show ?case using "2.prems" by (simp add: soap_inside)
qed

lemma soap_skips: "so_bodyDepth s = -1 \<Longrightarrow> so_depth s \<ge> 3 \<Longrightarrow> soapRun (flat n @ r) s = soapRun r s"
proof (induction n arbitrary: s r rule: flat.induct)
  case (1 t)
  then show ?case by (simp add: soap_outside)
next
  case (2 ns ln attrs ks)
  have "soapRun (concat (map flat us) @ r) s = soapRun r s"
    if "set us \<subseteq> set ks" "so_bodyDepth s = -1" "so_depth s \<ge> 3" for us r s
    using that by (induction us arbitrary: s) (simp_all add: "2.IH")
  from this [OF subset_refl, of "s\<lparr>so_depth := so_depth s + 1\<rparr>" "TEnd # r"]
  show ?case using "2.prems" by (simp add: soap_outside)
qed

lemma soap_captures_all:
  "so_bodyDepth s = 2 \<Longrightarrow> so_depth s \<ge> 3 \<Longrightarrow>
    soapRun (concat (map flat ks) @ r) s = soapRun r (s\<lparr>so_body := so_body s @ concat (map flat ks)\<rparr>)"
  by (induction ks arbitrary: s) (simp_all add: soap_captures)

lemma soap_skips_all: "so_bodyDepth s = -1 \<Longrightarrow> so_depth s \<ge> 3 \<Longrightarrow> soapRun (concat (map flat ks) @ r) s = soapRun r s"
  by (induction ks arbitrary: s) (simp_all add: soap_skips)

text \<open>Names that differ.\<close>

lemma soap_names [simp]:
  "kNsSoap \<noteq> kNsAddressing" "kNsAddressing \<noteq> kNsSoap" "qlit ''Header'' \<noteq> qlit ''Body''" "qlit ''Action'' \<noteq> qlit ''RelatesTo''"
  "qlit ''RelatesTo'' \<noteq> qlit ''Action''" "qlit ''Body'' \<noteq> qlit ''Header''"
  by (simp_all add: kNsSoap_def kNsAddressing_def qlit_def)

text \<open>A child of the header, and a child of the body.\<close>

definition headerPlain :: "xnode \<Rightarrow> bool" where
  "headerPlain n \<longleftrightarrow> (named kNsAddressing (qlit ''Action'') n \<or> named kNsAddressing (qlit ''RelatesTo'') n \<longrightarrow> textOnly n)"

definition bodyPlain :: "xnode \<Rightarrow> bool" where
  "bodyPlain n \<longleftrightarrow> \<not> named kNsAddressing (qlit ''Action'') n \<and> \<not> named kNsAddressing (qlit ''RelatesTo'') n"

definition isFaultNode :: "xnode \<Rightarrow> bool" where
  "isFaultNode n \<longleftrightarrow> named kNsSoap (qlit ''Fault'') n"

lemma soap_header_child:
  assumes "so_bodyDepth s = -1" and "so_depth s = 2" and "headerPlain n"
  shows "soapRun (flat n @ r) s = soapRun r (s\<lparr>
    so_action := (if named kNsAddressing (qlit ''Action'') n then allText n else so_action s),
    so_relatesTo := (if named kNsAddressing (qlit ''RelatesTo'') n then allText n else so_relatesTo s)\<rparr>)"
proof (cases n)
  case (XElem ns ln attrs ks)
  let ?action = "ns = kNsAddressing \<and> ln = qlit ''Action''" and ?relates = "ns = kNsAddressing \<and> ln = qlit ''RelatesTo''"
  have st: "onSoapStart ns ln attrs s =
      (if ?action then Inr (False, \<lambda>t. s\<lparr>so_action := t\<rparr>) else if ?relates then Inr (False, \<lambda>t. s\<lparr>so_relatesTo := t\<rparr>)
       else Inl (s\<lparr>so_depth := 3\<rparr>))"
    using assms(1,2) by (simp add: onSoapStart_def Let_def)
  have t: "readElementText [] (concat (map flat ks) @ TEnd # r) = (concat (map allText ks), r)" if "textOnly n"
    using that readElementText_flats [of ks "[]" r] XElem by (simp add: textOnly_def)
  have "s\<lparr>so_depth := 2\<rparr> = s" using assms(2) by (cases s) simp
  then have k: "soapRun (concat (map flat ks) @ TEnd # r) (s\<lparr>so_depth := 3\<rparr>) = soapRun r s"
    using soap_skips_all [of "s\<lparr>so_depth := 3\<rparr>" ks "TEnd # r"] soap_outside(3) [of "s\<lparr>so_depth := 3\<rparr>"] assms(1) by simp
  show ?thesis
  proof (cases "?action \<or> ?relates")
    case True
    with assms(3) XElem t have "readElementText [] (concat (map flat ks) @ TEnd # r) = (concat (map allText ks), r)"
      by (auto simp: headerPlain_def)
    with True XElem st show ?thesis by auto
  next
    case False
    with XElem st k show ?thesis by auto
  qed
next
  case (XText t)
  with assms show ?thesis by (simp add: onSoapChars_def)
qed

lemma soap_body_child:
  assumes "so_bodyDepth s = 2" and "so_depth s = 2" and "bodyPlain n"
  shows "soapRun (flat n @ r) s = soapRun r (s\<lparr>
    so_body := so_body s @ (if isElem n \<and> \<not> isFaultNode n then flat n else []),
    so_fault := (if isFaultNode n then allText n else so_fault s)\<rparr>)"
proof (cases n)
  case (XElem ns ln attrs ks)
  let ?s = "s\<lparr>so_depth := 3, so_body := so_body s @ [TStart ns ln attrs]\<rparr>"
  have st: "onSoapStart ns ln attrs s = (if isFaultNode n then Inr (True, \<lambda>t. s\<lparr>so_fault := t\<rparr>) else Inl ?s)"
    using assms XElem by (auto simp: onSoapStart_def Let_def isFaultNode_def bodyPlain_def)
  have "s\<lparr>so_depth := 2, so_body := b\<rparr> = s\<lparr>so_body := b\<rparr>" for b
    using assms(2) by (cases s) simp
  then have "soapRun (concat (map flat ks) @ TEnd # r) ?s = soapRun r (s\<lparr>so_body := so_body s @ flat n\<rparr>)"
    using soap_captures_all [of ?s ks "TEnd # r"] assms(1) XElem
      soap_inside(3) [of "?s\<lparr>so_body := so_body ?s @ concat (map flat ks)\<rparr>"] by simp
  then show ?thesis
    using XElem st readAllText_flats [of "[]" ks r] by (cases "isFaultNode n") simp_all
next
  case (XText t)
  with assms show ?thesis by (simp add: onSoapChars_def isFaultNode_def)
qed

definition bodyContent :: "xnode list \<Rightarrow> xtok list" where
  "bodyContent bs = concat (map flat (filter (\<lambda>n. isElem n \<and> \<not> isFaultNode n) bs))"

lemma soap_header_children:
  "so_bodyDepth s = -1 \<Longrightarrow> so_depth s = 2 \<Longrightarrow> \<forall>n \<in> set hs. headerPlain n \<Longrightarrow>
    soapRun (concat (map flat hs) @ r) s = soapRun r (s\<lparr>
      so_action := lastText kNsAddressing (qlit ''Action'') (so_action s) hs,
      so_relatesTo := lastText kNsAddressing (qlit ''RelatesTo'') (so_relatesTo s) hs\<rparr>)"
  by (induction hs arbitrary: s) (simp_all add: soap_header_child)

lemma soap_body_children:
  "so_bodyDepth s = 2 \<Longrightarrow> so_depth s = 2 \<Longrightarrow> \<forall>n \<in> set bs. bodyPlain n \<Longrightarrow>
    soapRun (concat (map flat bs) @ r) s = soapRun r (s\<lparr>
      so_body := so_body s @ bodyContent bs, so_fault := lastText kNsSoap (qlit ''Fault'') (so_fault s) bs\<rparr>)"
proof (induction bs arbitrary: s)
  case (Cons b bs)
  then show ?case by (simp add: soap_body_child bodyContent_def isFaultNode_def [symmetric])
qed (simp add: bodyContent_def)

text \<open>A child of the root: a body, or anything else.\<close>

definition envPlain :: "xnode \<Rightarrow> bool" where
  "envPlain n \<longleftrightarrow> (if named kNsSoap (qlit ''Body'') n then \<forall>k \<in> set (kids n). bodyPlain k else \<forall>k \<in> set (kids n). headerPlain k)"

definition envStep :: "xnode \<Rightarrow> soap_state \<Rightarrow> soap_state" where
  "envStep n s =
     (if named kNsSoap (qlit ''Body'') n
      then s\<lparr>so_body := so_body s @ bodyContent (kids n), so_fault := lastText kNsSoap (qlit ''Fault'') (so_fault s) (kids n)\<rparr>
      else s\<lparr>so_action := lastText kNsAddressing (qlit ''Action'') (so_action s) (kids n),
             so_relatesTo := lastText kNsAddressing (qlit ''RelatesTo'') (so_relatesTo s) (kids n)\<rparr>)"

lemma soap_env_child:
  assumes "so_bodyDepth s = -1" and "so_depth s = 1" and "envPlain n"
  shows "soapRun (flat n @ r) s = soapRun r (envStep n s)"
proof (cases n)
  case (XElem ns ln attrs ks)
  show ?thesis
  proof (cases "named kNsSoap (qlit ''Body'') n")
    case True
    let ?s = "s\<lparr>so_depth := 2, so_bodyDepth := 2\<rparr>"
    have st: "onSoapStart ns ln attrs s = Inl ?s"
      using True XElem assms(2) by (simp add: onSoapStart_def)
    have en: "onSoapEnd (?s\<lparr>so_body := b, so_fault := f\<rparr>) = s\<lparr>so_body := b, so_fault := f\<rparr>" for b f
      using assms(1,2) by (cases s) (simp add: onSoapEnd_def)
    show ?thesis
      using soap_body_children [of ?s ks "TEnd # r"] st en True XElem assms(3) by (simp add: envPlain_def envStep_def)
  next
    case False
    let ?s = "s\<lparr>so_depth := 2\<rparr>"
    have st: "onSoapStart ns ln attrs s = Inl ?s"
      using False XElem assms(1,2) by (auto simp: onSoapStart_def Let_def)
    have en: "onSoapEnd (?s\<lparr>so_action := a, so_relatesTo := f\<rparr>) = s\<lparr>so_action := a, so_relatesTo := f\<rparr>" for a f
      using assms(1,2) by (cases s) (simp add: onSoapEnd_def)
    show ?thesis
      using soap_header_children [of ?s ks "TEnd # r"] st en False XElem assms(1,3) by (auto simp: envPlain_def envStep_def)
  qed
next
  case (XText t)
  then show ?thesis using assms by (simp add: onSoapChars_def envStep_def)
qed

lemma envStep_depth [simp]: "so_depth (envStep n s) = so_depth s" "so_bodyDepth (envStep n s) = so_bodyDepth s"
  by (simp_all add: envStep_def)

lemma soap_env_children:
  "so_bodyDepth s = -1 \<Longrightarrow> so_depth s = 1 \<Longrightarrow> \<forall>n \<in> set ks. envPlain n \<Longrightarrow>
    soapRun (concat (map flat ks) @ r) s = soapRun r (fold envStep ks s)"
  by (induction ks arbitrary: s) (simp_all add: soap_env_child)

lemma envStep_text: "\<not> isElem n \<Longrightarrow> envStep n s = s"
  by (cases n) (simp_all add: envStep_def)

lemma fold_envStep_elems: "fold envStep ks s = fold envStep (filter isElem ks) s"
  by (induction ks arbitrary: s) (simp_all add: envStep_text)

lemma parse_root:
  assumes "\<forall>n \<in> set ks. envPlain n"
  shows "parseTokens (flat (XElem ns ln ea ks)) = (fold envStep (filter isElem ks) (soapStart\<lparr>so_depth := 1\<rparr>))\<lparr>so_depth := 0\<rparr>"
proof -
  let ?s = "soapStart\<lparr>so_depth := 1\<rparr>"
  have d: "so_depth (fold envStep us s) = so_depth s \<and> so_bodyDepth (fold envStep us s) = so_bodyDepth s" for us s
    by (induction us arbitrary: s) simp_all
  have en: "onSoapEnd s = s\<lparr>so_depth := 0\<rparr>" if "so_depth s = 1" "so_bodyDepth s = -1" for s
    using that by (cases s) (simp add: onSoapEnd_def)
  have st: "onSoapStart ns ln ea soapStart = Inl ?s"
    by (simp add: onSoapStart_def soapStart_def Let_def)
  have "soapRun (concat (map flat ks) @ [TEnd]) ?s = soapRun [TEnd] (fold envStep ks ?s)"
    using assms by (intro soap_env_children) (simp_all add: soapStart_def)
  then show ?thesis
    using st en [of "fold envStep ks ?s"] d [of ks ?s] by (simp add: parseTokens_def fold_envStep_elems [of ks] soapStart_def)
qed

section \<open>What the library promises\<close>

text \<open>
  Reading back what was written gives the same document, up to the way its text is cut, when it has one root, the
  writer took every text and no text has a carriage return, which a reader turns into a line feed.
\<close>

fun tokPlain :: "xtok \<Rightarrow> bool" where
  "tokPlain (TChars t) = (13 \<notin> set t)"
| "tokPlain _ = True"

definition faithful :: "'d xmllib \<Rightarrow> bool" where
  "faithful x \<longleftrightarrow>
     (\<forall>ts ns ln attrs ks. tidy ts = tidy (flat (XElem ns ln attrs ks)) \<longrightarrow> \<not> writerHasError x ts \<longrightarrow> list_all tokPlain ts \<longrightarrow>
        tidy (x_read x (x_write x ts)) = tidy ts)"

lemma faithfulD:
  "faithful x \<Longrightarrow> tidy ts = tidy (flat (XElem ns ln attrs ks)) \<Longrightarrow> \<not> writerHasError x ts \<Longrightarrow> list_all tokPlain ts \<Longrightarrow>
    tidy (x_read x (x_write x ts)) = tidy ts"
  by (simp add: faithful_def)

lemma glue_errors: "list_ex (tokBad x) (glue t r) = (list_ex (x_refuses x) t \<or> list_ex (tokBad x) r)"
  by (induction t r rule: glue.induct) auto

lemma tidy_errors: "list_ex (tokBad x) (tidy ts) = list_ex (tokBad x) ts"
  by (induction ts rule: tidy.induct) (simp_all add: glue_errors)

lemma writerHasError_cong: "tidy ts = tidy us \<Longrightarrow> writerHasError x ts = writerHasError x us"
  unfolding writerHasError_def by (metis tidy_errors)

lemma glue_plain: "list_all tokPlain (glue t r) = (13 \<notin> set t \<and> list_all tokPlain r)"
  by (induction t r rule: glue.induct) auto

lemma tidy_plain: "list_all tokPlain (tidy ts) = list_all tokPlain ts"
  by (induction ts rule: tidy.induct) (simp_all add: glue_plain)

lemma tokPlain_cong: "tidy ts = tidy us \<Longrightarrow> list_all tokPlain ts = list_all tokPlain us"
  by (metis tidy_plain)

text \<open>A library on token lists that is faithful: it carries the tokens as they are.\<close>

definition tokenLib :: "xtok list xmllib" where
  "tokenLib = \<lparr>x_read = (\<lambda>ts. TMisc # ts), x_write = (\<lambda>ts. ts), x_refuses = (\<lambda>c. c = 0), x_empty = []\<rparr>"

lemma tokenLib_faithful: "faithful tokenLib"
  by (simp add: faithful_def tokenLib_def)

section \<open>What a response yields\<close>

lemma parseTokens_cong: "tidy ts = tidy us \<Longrightarrow> soap_eqs (parseTokens ts) (parseTokens us)"
proof -
  assume "tidy ts = tidy us"
  then have "soap_eqs (parseTokens (tidy ts)) (parseTokens us)" "soap_eqs (parseTokens (tidy ts)) (parseTokens ts)"
    unfolding parseTokens_def using soap.loop_tidy [of us soapStart] soap.loop_tidy [of ts soapStart] by simp_all
  then show ?thesis by (simp add: soap_eqs_def)
qed

lemma soap_eqs_fields:
  assumes "soap_eqs s s'"
  shows "so_action s = so_action s'" "so_relatesTo s = so_relatesTo s'" "so_fault s = so_fault s'"
    "tidy (so_body s) = tidy (so_body s')"
  using assms by (auto elim!: soap_eqsE)

lemma parse_response:
  assumes "tidy (x_read x xml) = tidy (flat (XElem ns ln ea ks))" and "\<forall>n \<in> set ks. envPlain n"
    and "filter isElem ks = [h, b]" and "\<not> named kNsSoap (qlit ''Body'') h" and "named kNsSoap (qlit ''Body'') b"
  shows "headerAction (parseResponse x xml) = lastText kNsAddressing (qlit ''Action'') [] (kids h)"
    "headerRelatesTo (parseResponse x xml) = lastText kNsAddressing (qlit ''RelatesTo'') [] (kids h)"
    "fault (parseResponse x xml) = lastText kNsSoap (qlit ''Fault'') [] (kids b)"
    "\<exists>ts. bodyXml (parseResponse x xml) = x_write x ts \<and> tidy ts = tidy (bodyContent (kids b))"
proof -
  have "soap_eqs (parseTokens (x_read x xml)) (parseTokens (flat (XElem ns ln ea ks)))"
    by (rule parseTokens_cong [OF assms(1)])
  note e = soap_eqs_fields [OF this, unfolded parse_root [OF assms(2)] assms(3)]
  show "headerAction (parseResponse x xml) = lastText kNsAddressing (qlit ''Action'') [] (kids h)"
    "headerRelatesTo (parseResponse x xml) = lastText kNsAddressing (qlit ''RelatesTo'') [] (kids h)"
    "fault (parseResponse x xml) = lastText kNsSoap (qlit ''Fault'') [] (kids b)"
    "\<exists>ts. bodyXml (parseResponse x xml) = x_write x ts \<and> tidy ts = tidy (bodyContent (kids b))"
    using e assms(4,5) by (auto simp: parseResponse_def Let_def envStep_def soapStart_def)
qed

text \<open>C15: A response is taken apart where it should be. Whatever comments, white space and cuts a device puts into it, the
  response to a request gives: the action and the related message of the header, the text of a fault, all of
  it, when the body holds one, and otherwise the elements of the body with everything below them.
\<close>

theorem response_parsed:
  assumes "tidy (x_read x xml) = tidy (flat (XElem ns ln ea ks))" and "\<forall>n \<in> set ks. envPlain n"
    and "filter isElem ks = [h, b]" and "\<not> named kNsSoap (qlit ''Body'') h" and "named kNsSoap (qlit ''Body'') b"
  shows "headerAction (parseResponse x xml) = lastText kNsAddressing (qlit ''Action'') [] (kids h) \<and>
    headerRelatesTo (parseResponse x xml) = lastText kNsAddressing (qlit ''RelatesTo'') [] (kids h) \<and>
    fault (parseResponse x xml) = lastText kNsSoap (qlit ''Fault'') [] (kids b) \<and>
    (\<exists>ts. bodyXml (parseResponse x xml) = x_write x ts \<and> tidy ts = tidy (bodyContent (kids b)))"
  using parse_response [OF assms] by blast

theorem response_parsed_witness:
  "fault (parseResponse tokenLib
     (flat (XElem kNsSoap (qlit ''Envelope'') [] [XElem kNsSoap (qlit ''Header'') [] [], XText [10],
        XElem kNsSoap (qlit ''Body'') [] [XElem kNsSoap (qlit ''Fault'') [] [XElem [] [97] [] [XText [98]], XText [99]]]]))) = [98, 99]"
proof -
  let ?b = "XElem kNsSoap (qlit ''Body'') [] [XElem kNsSoap (qlit ''Fault'') [] [XElem [] [97] [] [XText [98]], XText [99]]]"
  let ?ks = "[XElem kNsSoap (qlit ''Header'') [] [], XText [10], ?b]"
  show ?thesis
    using response_parsed [of tokenLib "flat (XElem kNsSoap (qlit ''Envelope'') [] ?ks)" kNsSoap "qlit ''Envelope''" "[]" ?ks
        "XElem kNsSoap (qlit ''Header'') [] []" ?b]
    by (simp add: tokenLib_def envPlain_def bodyPlain_def)
qed

section \<open>What an envelope carries\<close>

definition textElem :: "qstring \<Rightarrow> qstring \<Rightarrow> qstring \<Rightarrow> xnode" where
  "textElem ns ln t = XElem ns ln [] [XText t]"

definition paramNodes :: "qstring \<Rightarrow> qhash \<Rightarrow> xnode list" where
  "paramNodes uri kvs = map (\<lambda>kv. textElem uri (fst kv) (snd kv)) kvs"

definition selectorNode :: "qstring \<times> qstring \<Rightarrow> xnode" where
  "selectorNode kv = XElem kNsWsman (qlit ''Selector'') [([], qlit ''Name'', fst kv)] [XText (snd kv)]"

definition headerNode :: "qstring \<Rightarrow> qstring \<Rightarrow> qstring \<Rightarrow> qstring \<Rightarrow> qhash \<Rightarrow> xnode" where
  "headerNode action to messageId uri selectors =
     XElem kNsSoap (qlit ''Header'') []
       ([textElem kNsAddressing (qlit ''Action'') action, textElem kNsAddressing (qlit ''To'') to] @
        (if uri \<noteq> [] then [textElem kNsWsman (qlit ''ResourceURI'') uri] else []) @
        [textElem kNsAddressing (qlit ''MessageID'') messageId,
         XElem kNsAddressing (qlit ''ReplyTo'') [] [textElem kNsAddressing (qlit ''Address'') kAnonymousReplyTo]] @
        (if selectors \<noteq> [] then [XElem kNsWsman (qlit ''SelectorSet'') [] (map selectorNode selectors)] else []))"

lemma writeProperties_flat: "writeProperties uri kvs = concat (map flat (paramNodes uri kvs))"
  by (simp add: writeProperties_def paramNodes_def writeTextElement_def textElem_def comp_def)

lemma writeAddressingHeader_flat: "writeAddressingHeader action to msg uri sel = flat (headerNode action to msg uri sel)"
proof -
  have "writeSelector kv = flat (selectorNode kv)" for kv
    by (simp add: writeSelector_def selectorNode_def writeElement_def)
  then have "writeSelector = flat \<circ> selectorNode" by (rule ext [OF trans]) simp
  then show ?thesis
    by (simp add: writeAddressingHeader_def headerNode_def writeElement_def writeTextElement_def textElem_def)
qed

definition envelopeNode :: "xnode \<Rightarrow> xnode list \<Rightarrow> xnode" where
  "envelopeNode h bs = XElem kNsSoap (qlit ''Envelope'') [] [h, XElem kNsSoap (qlit ''Body'') [] bs]"

lemma writeEnvelope_flat: "writeEnvelope (flat h) (writeBody (concat (map flat bs))) = flat (envelopeNode h bs)"
  by (simp add: writeEnvelope_def writeBody_def writeElement_def envelopeNode_def)

lemma envelope_names [simp]:
  "qlit ''To'' \<noteq> qlit ''Action''" "qlit ''Action'' \<noteq> qlit ''To''" "qlit ''MessageID'' \<noteq> qlit ''Action''" "qlit ''Action'' \<noteq> qlit ''MessageID''"
  "qlit ''ReplyTo'' \<noteq> qlit ''Action''" "qlit ''Action'' \<noteq> qlit ''ReplyTo''" "kNsAddressing \<noteq> kNsWsman" "kNsWsman \<noteq> kNsAddressing"
  "qlit ''To'' \<noteq> qlit ''RelatesTo''" "qlit ''RelatesTo'' \<noteq> qlit ''To''" "qlit ''MessageID'' \<noteq> qlit ''RelatesTo''"
  "qlit ''RelatesTo'' \<noteq> qlit ''MessageID''" "qlit ''ReplyTo'' \<noteq> qlit ''RelatesTo''" "qlit ''RelatesTo'' \<noteq> qlit ''ReplyTo''"
  by (simp_all add: kNsWsman_def kNsAddressing_def qlit_def)

lemma headerNode_facts:
  "lastText kNsAddressing (qlit ''Action'') [] (kids (headerNode action to msg uri sel)) = action"
  "\<forall>k \<in> set (kids (headerNode action to msg uri sel)). headerPlain k"
  "\<not> named kNsSoap (qlit ''Body'') (headerNode action to msg uri sel)" "isElem (headerNode action to msg uri sel)"
  by (auto simp: headerNode_def textElem_def headerPlain_def textOnly_def)

text \<open>What a device, or this program, reads from an envelope of this program.\<close>

lemma envelope_read:
  assumes "faithful x" and "ts = flat (envelopeNode (headerNode action to msg uri sel) [b])"
    and "\<not> writerHasError x ts" and "list_all tokPlain ts" and "isElem b" and "bodyPlain b" and "\<not> isFaultNode b"
  shows "headerAction (parseResponse x (finalizeWriter x ts)) = action" "fault (parseResponse x (finalizeWriter x ts)) = []"
    "tidy (x_read x (bodyXml (parseResponse x (finalizeWriter x ts)))) = tidy (flat b)"
proof -
  let ?h = "headerNode action to msg uri sel" and ?b = "XElem kNsSoap (qlit ''Body'') [] [b]"
  have t: "tidy (x_read x (finalizeWriter x ts)) = tidy (flat (XElem kNsSoap (qlit ''Envelope'') [] [?h, ?b]))"
    using faithfulD [OF assms(1) arg_cong [of _ _ tidy] assms(3,4)] assms(2,3)
    by (simp only: finalizeWriter_def envelopeNode_def if_False)
  have p: "\<forall>n \<in> set [?h, ?b]. envPlain n"
    using headerNode_facts(2,3) [of action to msg uri sel] assms(6) by (simp add: envPlain_def)
  have f: "filter isElem [?h, ?b] = [?h, ?b]"
    using headerNode_facts(4) by simp
  note r = parse_response [OF t p f headerNode_facts(3)]
  show "headerAction (parseResponse x (finalizeWriter x ts)) = action" "fault (parseResponse x (finalizeWriter x ts)) = []"
    using r(1,3) headerNode_facts(1) assms(7) by (simp_all add: isFaultNode_def)
  obtain us where us: "bodyXml (parseResponse x (finalizeWriter x ts)) = x_write x us" "tidy us = tidy (flat b)"
    using r(4) assms(5,7) by (auto simp: bodyContent_def)
  obtain ns ln attrs ks where b: "b = XElem ns ln attrs ks"
    using assms(5) by (cases b) simp_all
  have "\<not> writerHasError x (flat b)" "list_all tokPlain (flat b)"
    using assms(2-4) by (simp_all add: writerHasError_def envelopeNode_def)
  then have "\<not> writerHasError x us" "list_all tokPlain us"
    using writerHasError_cong [OF us(2), of x] tokPlain_cong [OF us(2)] by simp_all
  then show "tidy (x_read x (bodyXml (parseResponse x (finalizeWriter x ts)))) = tidy (flat b)"
    using faithfulD [OF assms(1) us(2) [unfolded b]] us b by simp
qed

lemma findToken_flat_text: "findToken k (flat (textElem ns ln t) @ r) = (if ln = k then t else findToken k r)"
  by (simp add: textElem_def)

lemma findToken_params: "findToken k (concat (map flat (paramNodes uri kvs)) @ [TEnd]) = (case map_of kvs k of None \<Rightarrow> [] | Some v \<Rightarrow> v)"
proof (induction kvs)
  case (Cons kv kvs)
  then show ?case by (cases kv) (simp add: paramNodes_def findToken_flat_text)
qed (simp add: paramNodes_def)

lemma invokeTokens_flat:
  "invokeTokens uri m sel params to msg =
    flat (envelopeNode (headerNode (uri @ [0x2F] @ m) to msg uri sel) [XElem uri (m @ qlit ''_INPUT'') [] (paramNodes uri params)])"
proof -
  have "writeElement uri (m @ qlit ''_INPUT'') [] (writeProperties uri params) =
      concat (map flat [XElem uri (m @ qlit ''_INPUT'') [] (paramNodes uri params)])"
    by (simp add: writeElement_def writeProperties_flat)
  then show ?thesis
    unfolding invokeTokens_def writeAddressingHeader_flat by (simp only: writeEnvelope_flat)
qed

text \<open>
  A method call arrives as it was made. What \<open>buildInvokeEnvelopeOrdered\<close> writes is read back, by the same reader that takes
  responses apart, as the action \<open>uri/method\<close> and a body in which every parameter has the value it was given; of
  repeated parameters the first one is found. This holds over any XML library that reads back what it wrote.
\<close>

theorem invoke_roundtrip:
  assumes "faithful x" and "\<not> writerHasError x (invokeTokens uri m sel params to msg)"
    and "list_all tokPlain (invokeTokens uri m sel params to msg)" and "uri \<noteq> kNsSoap" and "uri \<noteq> kNsAddressing"
    and "k \<noteq> m @ qlit ''_INPUT''"
  shows "headerAction (parseResponse x (buildInvokeEnvelopeOrdered x uri m sel params to msg)) = uri @ [0x2F] @ m \<and>
    \<not> isFault (parseResponse x (buildInvokeEnvelopeOrdered x uri m sel params to msg)) \<and>
    findScalar x (bodyXml (parseResponse x (buildInvokeEnvelopeOrdered x uri m sel params to msg))) k =
      (case map_of params k of None \<Rightarrow> [] | Some v \<Rightarrow> v)"
proof -
  let ?b = "XElem uri (m @ qlit ''_INPUT'') [] (paramNodes uri params)"
  note r = envelope_read [OF assms(1) invokeTokens_flat assms(2,3)]
  have "findToken k (flat ?b) = (case map_of params k of None \<Rightarrow> [] | Some v \<Rightarrow> v)"
    using assms(6) findToken_params by simp
  then show ?thesis
    using r assms(4,5) findToken_cong [of _ "flat ?b" k]
    by (simp add: buildInvokeEnvelopeOrdered_def isFault_def bodyPlain_def isFaultNode_def findScalar_def)
qed

theorem invoke_roundtrip_witness:
  "findScalar tokenLib (bodyXml (parseResponse tokenLib
     (buildInvokeEnvelopeOrdered tokenLib [117] [109] [] [([97], [49]), ([97], [50])] [] []))) [97] = [49]"
  using invoke_roundtrip [OF tokenLib_faithful, of "[117]" "[109]" "[]" "[([97], [49]), ([97], [50])]" "[]" "[]" "[97]"]
  by (simp add: writerHasError_def tokenLib_def invokeTokens_def writeEnvelope_def writeBody_def writeElement_def writeAddressingHeader_def
      writeTextElement_def writeProperties_def kNsSoap_def kNsAddressing_def kNsWsman_def kAnonymousReplyTo_def qlit_def)

section \<open>A page of an enumeration\<close>

abbreviation pullRun :: "xtok list \<Rightarrow> pull_state \<Rightarrow> pull_state" where
  "pullRun \<equiv> readLoop onPullStart onPullChars onPullEnd"

text \<open>No element of the enumeration namespace in or below a node.\<close>

fun noEnum :: "xnode \<Rightarrow> bool" where
  "noEnum (XText t) = True"
| "noEnum (XElem ns ln attrs ks) = (ns \<noteq> kNsEnumeration \<and> list_all noEnum ks)"

lemma pull_inside:
  assumes "pu_item s = Some b" and "pu_itemDepth s > 0" and "pu_depth s \<ge> pu_itemDepth s" and "pu_itemsDepth s = pu_itemDepth s - 1"
  shows "ns \<noteq> kNsEnumeration \<Longrightarrow>
      onPullStart ns ln attrs s = Inl (s\<lparr>pu_depth := pu_depth s + 1, pu_item := Some (b @ [TStart ns ln attrs])\<rparr>)"
    "onPullChars t s = s\<lparr>pu_item := Some (b @ [TChars t])\<rparr>"
    "pu_depth s > pu_itemDepth s \<Longrightarrow> onPullEnd s = s\<lparr>pu_depth := pu_depth s - 1, pu_item := Some (b @ [TEnd])\<rparr>"
proof -
  show "ns \<noteq> kNsEnumeration \<Longrightarrow>
      onPullStart ns ln attrs s = Inl (s\<lparr>pu_depth := pu_depth s + 1, pu_item := Some (b @ [TStart ns ln attrs])\<rparr>)"
    using assms by (simp add: onPullStart_def Let_def capture_def)
  show "onPullChars t s = s\<lparr>pu_item := Some (b @ [TChars t])\<rparr>"
    using assms by (simp add: onPullChars_def capture_def)
  show "pu_depth s > pu_itemDepth s \<Longrightarrow> onPullEnd s = s\<lparr>pu_depth := pu_depth s - 1, pu_item := Some (b @ [TEnd])\<rparr>"
    using assms by (simp add: onPullEnd_def closeItem_def capture_def Let_def)
qed

lemma pull_captures:
  "noEnum n \<Longrightarrow> pu_item s = Some b \<Longrightarrow> pu_itemDepth s > 0 \<Longrightarrow> pu_depth s \<ge> pu_itemDepth s \<Longrightarrow> pu_itemsDepth s = pu_itemDepth s - 1 \<Longrightarrow>
    pullRun (flat n @ r) s = pullRun r (s\<lparr>pu_item := Some (b @ flat n)\<rparr>)"
proof (induction n arbitrary: s b r rule: flat.induct)
  case (1 t)
  then show ?case by (simp add: pull_inside)
next
  case (2 ns ln attrs ks)
  have "pullRun (concat (map flat us) @ r) s = pullRun r (s\<lparr>pu_item := Some (b @ concat (map flat us))\<rparr>)"
    if "set us \<subseteq> set ks" "pu_item s = Some b" "pu_itemDepth s > 0" "pu_depth s \<ge> pu_itemDepth s" "pu_itemsDepth s = pu_itemDepth s - 1" for us r s b
    using that
  proof (induction us arbitrary: s b)
    case Nil
    then show ?case by (cases s) simp
  next
    case (Cons u us)
    then have u: "noEnum u" "u \<in> set ks" using "2.prems"(1) by (auto simp: list_all_iff)
    show ?case using Cons "2.IH" [OF u(2,1), of s b "concat (map flat us) @ r"] by simp
  qed
  from this [OF subset_refl, of "s\<lparr>pu_depth := pu_depth s + 1, pu_item := Some (b @ [TStart ns ln attrs])\<rparr>" "b @ [TStart ns ln attrs]" "TEnd # r"]
  show ?case using "2.prems" by (simp add: pull_inside)
qed

lemma pull_captures_all:
  "list_all noEnum ks \<Longrightarrow> pu_item s = Some b \<Longrightarrow> pu_itemDepth s > 0 \<Longrightarrow> pu_depth s \<ge> pu_itemDepth s \<Longrightarrow> pu_itemsDepth s = pu_itemDepth s - 1 \<Longrightarrow>
    pullRun (concat (map flat ks) @ r) s = pullRun r (s\<lparr>pu_item := Some (b @ concat (map flat ks))\<rparr>)"
proof (induction ks arbitrary: s b)
  case Nil
  then show ?case by (cases s) simp
qed (simp add: pull_captures)

text \<open>Outside the list of items nothing is captured.\<close>

definition pullIdle :: "pull_state \<Rightarrow> bool" where
  "pullIdle s \<longleftrightarrow> pu_item s = None \<and> pu_itemsDepth s = -1 \<and> pu_depth s \<ge> 0"

lemma pull_skips: "noEnum n \<Longrightarrow> pullIdle s \<Longrightarrow> pullRun (flat n @ r) s = pullRun r s"
proof (induction n arbitrary: s r rule: flat.induct)
  case (1 t)
  then show ?case by (simp add: onPullChars_def pullIdle_def)
next
  case (2 ns ln attrs ks)
  have k: "pullRun (concat (map flat us) @ r) s = pullRun r s" if "set us \<subseteq> set ks" "pullIdle s" for us r s
    using that "2.prems"(1) by (induction us arbitrary: s) (auto simp: "2.IH" list_all_iff)
  have st: "onPullStart ns ln attrs s = Inl (s\<lparr>pu_depth := pu_depth s + 1\<rparr>)"
    using "2.prems" by (simp add: onPullStart_def Let_def pullIdle_def)
  have en: "onPullEnd (s\<lparr>pu_depth := pu_depth s + 1\<rparr>) = s"
    using "2.prems" by (cases s) (simp add: onPullEnd_def closeItem_def Let_def pullIdle_def)
  show ?case
    using k [OF subset_refl, of "s\<lparr>pu_depth := pu_depth s + 1\<rparr>" "TEnd # r"] "2.prems"(2) st en by (simp add: pullIdle_def)
qed

text \<open>A child of \<open>Items\<close>.\<close>

definition pullListing :: "pull_state \<Rightarrow> bool" where
  "pullListing s \<longleftrightarrow> pu_item s = None \<and> pu_itemsDepth s > 0 \<and> pu_depth s = pu_itemsDepth s \<and> pu_itemDepth s = -1"

lemma pull_item:
  assumes "noEnum n" and "pullListing s"
  shows "pullRun (flat n @ r) s = pullRun r (s\<lparr>pu_items := pu_items s @ (if isElem n then [flat n] else [])\<rparr>)"
proof (cases n)
  case (XElem ns ln attrs ks)
  let ?s = "s\<lparr>pu_depth := pu_depth s + 1, pu_itemDepth := pu_depth s + 1, pu_item := Some [TStart ns ln attrs]\<rparr>"
  have st: "onPullStart ns ln attrs s = Inl ?s"
    using assms XElem by (simp add: onPullStart_def Let_def pullListing_def)
  have en: "onPullEnd (?s\<lparr>pu_item := Some b\<rparr>) = s\<lparr>pu_items := pu_items s @ [b @ [TEnd]]\<rparr>" for b
    using assms(2) by (cases s) (simp add: onPullEnd_def closeItem_def Let_def pullListing_def)
  have "pullRun (concat (map flat ks) @ TEnd # r) ?s = pullRun (TEnd # r) (?s\<lparr>pu_item := Some ([TStart ns ln attrs] @ concat (map flat ks))\<rparr>)"
    by (rule pull_captures_all) (use assms XElem in \<open>simp_all add: pullListing_def\<close>)
  also have "... = pullRun r (s\<lparr>pu_items := pu_items s @ [flat n]\<rparr>)"
    unfolding readLoop.simps en XElem by simp
  finally show ?thesis
    using XElem st by simp
next
  case (XText t)
  with assms(2) show ?thesis by (simp add: onPullChars_def pullListing_def)
qed

lemma pull_items:
  "list_all noEnum ks \<Longrightarrow> pullListing s \<Longrightarrow>
    pullRun (concat (map flat ks) @ r) s = pullRun r (s\<lparr>pu_items := pu_items s @ map flat (filter isElem ks)\<rparr>)"
proof (induction ks arbitrary: s)
  case (Cons k ks)
  then show ?case by (simp add: pull_item pullListing_def)
qed simp

text \<open>The children of a pull response, one after the other.\<close>

definition pullPlain :: "xnode \<Rightarrow> bool" where
  "pullPlain n \<longleftrightarrow>
     (if named kNsEnumeration (qlit ''Items'') n then list_all noEnum (kids n)
      else if named kNsEnumeration (qlit ''EnumerationContext'') n then textOnly n
      else if named kNsEnumeration (qlit ''EndOfSequence'') n then kids n = []
      else noEnum n)"

definition pullStep :: "xnode \<Rightarrow> pull_state \<Rightarrow> pull_state" where
  "pullStep n s =
     (if named kNsEnumeration (qlit ''Items'') n then s\<lparr>pu_items := pu_items s @ map flat (filter isElem (kids n))\<rparr>
      else if named kNsEnumeration (qlit ''EnumerationContext'') n then s\<lparr>pu_context := allText n\<rparr>
      else if named kNsEnumeration (qlit ''EndOfSequence'') n then s\<lparr>pu_end := True\<rparr>
      else s)"

lemma pull_names [simp]:
  "qlit ''Items'' \<noteq> qlit ''EnumerationContext''" "qlit ''EnumerationContext'' \<noteq> qlit ''Items''"
  "qlit ''Items'' \<noteq> qlit ''EndOfSequence''" "qlit ''EndOfSequence'' \<noteq> qlit ''Items''"
  "qlit ''EnumerationContext'' \<noteq> qlit ''EndOfSequence''" "qlit ''EndOfSequence'' \<noteq> qlit ''EnumerationContext''"
  by (simp_all add: qlit_def)

lemma pull_child:
  assumes "pullPlain n" and "pullIdle s" and "pu_itemDepth s = -1"
  shows "pullRun (flat n @ r) s = pullRun r (pullStep n s)"
proof (cases n)
  case (XElem ns ln attrs ks)
  let ?named = "\<lambda>l. ns = kNsEnumeration \<and> ln = qlit l"
  consider "?named ''Items''" | "?named ''EnumerationContext''" | "?named ''EndOfSequence''"
    | "noEnum n" "\<not> ?named ''Items''" "\<not> ?named ''EnumerationContext''" "\<not> ?named ''EndOfSequence''"
    using assms(1) XElem by (auto simp: pullPlain_def split: if_splits)
  then show ?thesis
  proof cases
    case 1
    let ?s = "s\<lparr>pu_depth := pu_depth s + 1, pu_itemsDepth := pu_depth s + 1\<rparr>"
    have st: "onPullStart ns ln attrs s = Inl ?s"
      using 1 assms(2) by (simp add: onPullStart_def Let_def pullIdle_def)
    have en: "onPullEnd (?s\<lparr>pu_items := l\<rparr>) = s\<lparr>pu_items := l\<rparr>" for l
      using assms(2) by (cases s) (simp add: onPullEnd_def closeItem_def Let_def pullIdle_def)
    have "pullListing ?s" using assms(2,3) by (simp add: pullListing_def pullIdle_def)
    then have "pullRun (concat (map flat ks) @ TEnd # r) ?s = pullRun (TEnd # r) (?s\<lparr>pu_items := pu_items ?s @ map flat (filter isElem ks)\<rparr>)"
      by (rule pull_items [rotated]) (use 1 XElem assms(1) in \<open>simp add: pullPlain_def\<close>)
    also have "... = pullRun r (pullStep n s)"
      unfolding readLoop.simps en using 1 XElem by (simp add: pullStep_def)
    finally show ?thesis
      using XElem st by simp
  next
    case 2
    have "onPullStart ns ln attrs s = Inr (False, \<lambda>t. s\<lparr>pu_context := t\<rparr>)"
      using 2 by (simp add: onPullStart_def Let_def)
    moreover have "readElementText [] (concat (map flat ks) @ TEnd # r) = (concat (map allText ks), r)"
      using 2 XElem assms(1) readElementText_flats [of ks "[]" r] by (simp add: pullPlain_def textOnly_def)
    ultimately show ?thesis using 2 XElem by (simp add: pullStep_def)
  next
    case 3
    then have "onPullStart ns ln attrs s = Inl (s\<lparr>pu_depth := pu_depth s + 1, pu_end := True\<rparr>)"
      by (simp add: onPullStart_def Let_def)
    moreover have "onPullEnd (s\<lparr>pu_depth := pu_depth s + 1, pu_end := True\<rparr>) = s\<lparr>pu_end := True\<rparr>"
      using assms(2) by (cases s) (simp add: onPullEnd_def closeItem_def Let_def pullIdle_def)
    ultimately show ?thesis using 3 XElem assms(1) by (simp add: pullStep_def pullPlain_def)
  next
    case 4
    have "pullStep n s = s" using 4 XElem by (auto simp: pullStep_def)
    then show ?thesis using pull_skips [OF 4(1) assms(2)] by simp
  qed
next
  case (XText t)
  then show ?thesis using assms(2) by (simp add: onPullChars_def pullIdle_def pullStep_def)
qed

definition pageItems :: "xnode list \<Rightarrow> xnode list" where
  "pageItems ks = concat (map (\<lambda>n. filter isElem (kids n)) (filter (named kNsEnumeration (qlit ''Items'')) ks))"

definition pageEnds :: "xnode list \<Rightarrow> bool" where
  "pageEnds ks \<longleftrightarrow> list_ex (named kNsEnumeration (qlit ''EndOfSequence'')) ks"

lemma named_excl:
  "named kNsEnumeration (qlit ''Items'') n \<Longrightarrow> \<not> named kNsEnumeration (qlit ''EnumerationContext'') n \<and> \<not> named kNsEnumeration (qlit ''EndOfSequence'') n"
  "named kNsEnumeration (qlit ''EnumerationContext'') n \<Longrightarrow> \<not> named kNsEnumeration (qlit ''EndOfSequence'') n"
  by (cases n; auto)+

lemma pull_children:
  "\<forall>n \<in> set ks. pullPlain n \<Longrightarrow> pullIdle s \<Longrightarrow> pu_itemDepth s = -1 \<Longrightarrow>
    pullRun (concat (map flat ks) @ r) s = pullRun r (s\<lparr>pu_items := pu_items s @ map flat (pageItems ks),
      pu_context := lastText kNsEnumeration (qlit ''EnumerationContext'') (pu_context s) ks, pu_end := (pu_end s \<or> pageEnds ks)\<rparr>)"
proof (induction ks arbitrary: s)
  case Nil
  then show ?case by (cases s) (simp add: pageItems_def pageEnds_def)
next
  case (Cons k ks)
  have i: "pullIdle (pullStep k s)" "pu_itemDepth (pullStep k s) = -1"
    using Cons.prems(2,3) by (simp_all add: pullStep_def pullIdle_def)
  have "pullRun (concat (map flat (k # ks)) @ r) s = pullRun (concat (map flat ks) @ r) (pullStep k s)"
    using pull_child [of k s "concat (map flat ks) @ r"] Cons.prems by simp
  also note Cons.IH [OF _ i]
  finally show ?case
    using Cons.prems(1) named_excl [of k]
    by (cases "named kNsEnumeration (qlit ''Items'') k"; cases "named kNsEnumeration (qlit ''EnumerationContext'') k";
        cases "named kNsEnumeration (qlit ''EndOfSequence'') k") (simp_all add: pullStep_def pageItems_def pageEnds_def)
qed

definition pageRoot :: "qstring \<Rightarrow> qstring \<Rightarrow> bool" where
  "pageRoot ns ln \<longleftrightarrow>
     ns = kNsEnumeration \<longrightarrow> ln \<noteq> qlit ''Items'' \<and> ln \<noteq> qlit ''EnumerationContext'' \<and> ln \<noteq> qlit ''EndOfSequence''"

lemma pull_root:
  assumes "\<forall>n \<in> set ks. pullPlain n" and "pageRoot ns ln"
  shows "pullTokens (flat (XElem ns ln attrs ks)) = pullStart\<lparr>pu_items := map flat (pageItems ks),
    pu_context := lastText kNsEnumeration (qlit ''EnumerationContext'') [] ks, pu_end := pageEnds ks\<rparr>"
proof -
  let ?s = "pullStart\<lparr>pu_depth := 1\<rparr>"
  let ?t = "?s\<lparr>pu_items := pu_items ?s @ map flat (pageItems ks),
      pu_context := lastText kNsEnumeration (qlit ''EnumerationContext'') (pu_context ?s) ks, pu_end := (pu_end ?s \<or> pageEnds ks)\<rparr>"
  have st: "onPullStart ns ln attrs pullStart = Inl ?s"
    using assms(2) by (auto simp: onPullStart_def pullStart_def Let_def pageRoot_def)
  have "pullRun (concat (map flat ks) @ [TEnd]) ?s = pullRun [TEnd] ?t"
    by (rule pull_children) (use assms in \<open>simp_all add: pullIdle_def pullStart_def\<close>)
  then show ?thesis
    using st by (simp add: pullTokens_def) (simp add: onPullEnd_def closeItem_def pullStart_def Let_def)
qed

lemma pullTokens_cong: "tidy ts = tidy us \<Longrightarrow> pull_eqs (pullTokens ts) (pullTokens us)"
proof -
  assume e: "tidy ts = tidy us"
  have "pull_eqs (pullTokens (tidy ts)) (pullTokens us)" "pull_eqs (pullTokens (tidy ts)) (pullTokens ts)"
    unfolding pullTokens_def using pull.loop_tidy [of us pullStart] pull.loop_tidy [of ts pullStart] e by simp_all
  moreover have "pull_eqs s s' \<Longrightarrow> pull_eqs s' s" for s s'
    unfolding pull_eqs_def by (cases "pu_item s"; cases "pu_item s'") auto
  ultimately show ?thesis by (blast intro: pull_eqs_trans)
qed

lemma parse_page:
  assumes "tidy (x_read x xml) = tidy (flat (XElem ns ln attrs ks))" and "\<forall>n \<in> set ks. pullPlain n" and "pageRoot ns ln"
  shows "enumerationContext (parsePullResponse x xml) = lastText kNsEnumeration (qlit ''EnumerationContext'') [] ks"
    "endOfSequence (parsePullResponse x xml) = pageEnds ks"
    "\<exists>ts. items (parsePullResponse x xml) = map (x_write x) ts \<and> map tidy ts = map (tidy \<circ> flat) (pageItems ks)"
  using pullTokens_cong [OF assms(1)] unfolding pull_root [OF assms(2,3)]
  by (auto simp: parsePullResponse_def Let_def pull_eqs_def pullStart_def)

text \<open>
  A page of an enumeration is read completely. Whatever white space, comments and cuts are in it, a pull response gives its
  continuation context, whether it is the last page, and one document per element of its list of items, each with
  everything below it; nothing else is taken for an item.
\<close>

theorem pull_page_parsed:
  assumes "tidy (x_read x xml) = tidy (flat (XElem ns ln attrs ks))" and "\<forall>n \<in> set ks. pullPlain n" and "pageRoot ns ln"
  shows "enumerationContext (parsePullResponse x xml) = lastText kNsEnumeration (qlit ''EnumerationContext'') [] ks \<and>
    endOfSequence (parsePullResponse x xml) = pageEnds ks \<and>
    (\<exists>ts. items (parsePullResponse x xml) = map (x_write x) ts \<and> map tidy ts = map (tidy \<circ> flat) (pageItems ks))"
  using parse_page [OF assms] by blast

theorem pull_page_parsed_witness:
  "enumerationContext (parsePullResponse tokenLib (flat (XElem kNsEnumeration (qlit ''PullResponse'') []
     [textElem kNsEnumeration (qlit ''EnumerationContext'') [49], XElem kNsEnumeration (qlit ''Items'') [] [XElem [] [97] [] []]]))) = [49]"
proof -
  let ?ks = "[textElem kNsEnumeration (qlit ''EnumerationContext'') [49], XElem kNsEnumeration (qlit ''Items'') [] [XElem [] [97] [] []]]"
  have "pageRoot kNsEnumeration (qlit ''PullResponse'')" by (simp add: pageRoot_def qlit_def)
  moreover have "[] \<noteq> kNsEnumeration" by (simp add: kNsEnumeration_def qlit_def)
  ultimately show ?thesis
    using pull_page_parsed [of tokenLib "flat (XElem kNsEnumeration (qlit ''PullResponse'') [] ?ks)" kNsEnumeration "qlit ''PullResponse''" "[]" ?ks]
    by (simp add: tokenLib_def pullPlain_def textElem_def textOnly_def)
qed

end
