(* ===== verification/Ops_Core.thy ===== *)
theory Ops_Core
  imports Soap_Trees
begin

text \<open>
  The frame of \<open>operations.cpp\<close>: how an operation talks to a device, and the operations that are one request. An operation is
  asynchronous: it sends an envelope and goes on when the reply has arrived. \<open>op\<close> is such a program: it is finished, or it
  has sent an envelope (made with a fresh message id) and waits. \<open>runOp\<close> runs it against a device. Several requests
  under way at a time are in \<open>Ops_Join\<close>.

  What the operations use of Qt is a parameter, \<open>opsenv\<close>: XML, the iteration order of a \<open>QHash\<close>, \<open>QString::arg\<close>, the
  conversions between text, numbers and bytes, dates, and the order in which \<open>std::sort\<close> puts positions with given keys. A client is the text of its endpoint, \<open>None\<close> a null pointer.
\<close>

section \<open>What the operations use\<close>

record 'd opsenv =
  o_xml :: "'d xmllib"
  o_order :: "qhash \<Rightarrow> qhash"
  o_arg :: "qstring \<Rightarrow> qstring \<Rightarrow> qstring"
  o_args :: "qstring \<Rightarrow> qstring list \<Rightarrow> qstring"
  o_toInt :: "qstring \<Rightarrow> int option"
  o_toUInt :: "qstring \<Rightarrow> u32 option"
  o_toLongLong :: "qstring \<Rightarrow> int option"
  o_toULongLong :: "qstring \<Rightarrow> u64 option"
  o_hexUpper :: "int \<Rightarrow> qstring"
  o_sort :: "int list \<Rightarrow> nat list"
  o_toLower :: "qstring \<Rightarrow> qstring"
  o_equalsNoCase :: "qstring \<Rightarrow> qstring \<Rightarrow> bool"
  o_trimmed :: "qstring \<Rightarrow> qstring"
  o_isDigit :: "qchar \<Rightarrow> bool"
  o_toUtf8 :: "qstring \<Rightarrow> bytes"
  o_fromUtf8 :: "bytes \<Rightarrow> qstring"
  o_toLatin1 :: "qstring \<Rightarrow> bytes"
  o_toBase64 :: "bytes \<Rightarrow> bytes"
  o_fromBase64 :: "bytes \<Rightarrow> bytes"
  o_md5 :: "bytes \<Rightarrow> bytes"
  o_ipVersion :: "qstring \<Rightarrow> nat option"
  o_utcText :: "u32 \<Rightarrow> qstring"

type_synonym wsclient = "qstring option"

text \<open>\<open>QString::number\<close> of an int, and \<open>QHash::insert\<close>.\<close>

definition intText :: "int \<Rightarrow> qstring" where
  "intText i = (if i < 0 then 0x2D # fromLatin1 (dec_digits (nat (- i))) else fromLatin1 (dec_digits (nat i)))"

fun hashInsert :: "qstring \<Rightarrow> qstring \<Rightarrow> qhash \<Rightarrow> qhash" where
  "hashInsert k v [] = [(k, v)]"
| "hashInsert k v ((k', v') # h) = (if k = k' then (k, v) # h else (k', v') # hashInsert k v h)"

definition hashOf :: "'d opsenv \<Rightarrow> (string \<times> qstring) list \<Rightarrow> qhash" where
  "hashOf e kvs = o_order e (fold (\<lambda>kv. hashInsert (qlit (fst kv)) (snd kv)) kvs [])"

lemma map_of_hashInsert: "map_of (hashInsert k v h) = (map_of h)(k \<mapsto> v)"
  by (induction k v h rule: hashInsert.induct) auto

lemma keys_hashInsert: "fst ` set (hashInsert k v h) = insert k (fst ` set h)"
  by (induction k v h rule: hashInsert.induct) auto

lemma distinct_hashInsert: "distinct (map fst h) \<Longrightarrow> distinct (map fst (hashInsert k v h))"
proof (induction k v h rule: hashInsert.induct)
  case (2 k v k' v' h)
  then show ?case using keys_hashInsert [of k v h] by auto
qed simp

section \<open>Operations as programs\<close>

datatype 'd answer = ReplyError qstring | ReplyBody 'd

codatatype ('d, 'r) op = Finished 'r | Send "qstring \<Rightarrow> 'd" "'d answer \<Rightarrow> ('d, 'r) op"

text \<open>The continuation of an operation: what its callback does with the result.\<close>

primcorec andThen :: "('d, 'r) op \<Rightarrow> ('r \<Rightarrow> ('d, 'q) op) \<Rightarrow> ('d, 'q) op" where
  "andThen p k =
     (case p of
        Finished r \<Rightarrow> (case k r of Finished q \<Rightarrow> Finished q | Send m c \<Rightarrow> Send m c)
      | Send m c \<Rightarrow> Send m (\<lambda>a. andThen (c a) k))"

lemma andThen_simps [simp]: "andThen (Finished r) k = k r" "andThen (Send m c) k = Send m (\<lambda>a. andThen (c a) k)"
proof -
  show "andThen (Finished r) k = k r"
    by (subst andThen.code) (simp split: op.split)
  show "andThen (Send m c) k = Send m (\<lambda>a. andThen (c a) k)"
    by (subst andThen.code) simp
qed

text \<open>
  A device answers a request and changes its state. \<open>ids\<close> are the unique identifiers drawn for the messages. The fuel bounds the
  number of requests.
\<close>

type_synonym ('s, 'd) device = "'s \<Rightarrow> 'd \<Rightarrow> 'd answer \<times> 's"

definition newMessageId :: "qstring \<Rightarrow> qstring" where
  "newMessageId uuid = qlit ''uuid:'' @ uuid"

fun runOp :: "nat \<Rightarrow> (nat \<Rightarrow> qstring) \<Rightarrow> ('s, 'd) device \<Rightarrow> 's \<Rightarrow> ('d, 'r) op \<Rightarrow> ('r \<times> 's) option" where
  "runOp n ids dev s (Finished r) = Some (r, s)"
| "runOp 0 ids dev s (Send m k) = None"
| "runOp (Suc n) ids dev s (Send m k) = (let (a, s') = dev s (m (newMessageId (ids n))) in runOp n ids dev s' (k a))"

text \<open>The requests a run sends, with the answers they got.\<close>

fun traceOp :: "nat \<Rightarrow> (nat \<Rightarrow> qstring) \<Rightarrow> ('s, 'd) device \<Rightarrow> 's \<Rightarrow> ('d, 'r) op \<Rightarrow> ('d \<times> 'd answer) list" where
  "traceOp n ids dev s (Finished r) = []"
| "traceOp 0 ids dev s (Send m k) = []"
| "traceOp (Suc n) ids dev s (Send m k) =
     (let q = m (newMessageId (ids n)); (a, s') = dev s q in (q, a) # traceOp n ids dev s' (k a))"

section \<open>Requests\<close>

text \<open>What every reply handler does first: an error of the transport, then a fault of the device, then the body.\<close>

definition opReply :: "'d opsenv \<Rightarrow> 'd answer \<Rightarrow> (qstring \<Rightarrow> 'r) \<Rightarrow> ('d \<Rightarrow> 'r) \<Rightarrow> 'r" where
  "opReply e a failed ok =
     (case a of
        ReplyError s \<Rightarrow> failed s
      | ReplyBody b \<Rightarrow> (let soap = parseResponse (o_xml e) b in if isFault soap then failed (fault soap) else ok (bodyXml soap)))"

text \<open>\<open>runRequest\<close>; \<open>failed\<close> is the zero result with an error, \<open>extract\<close> the zero result filled in from the body.\<close>

definition runRequest :: "'d opsenv \<Rightarrow> wsclient \<Rightarrow> (qstring \<Rightarrow> 'd) \<Rightarrow> (qstring \<Rightarrow> 'r) \<Rightarrow> ('d \<Rightarrow> 'r) \<Rightarrow> ('d, 'r) op" where
  "runRequest e client envelope failed extract =
     (case client of
        None \<Rightarrow> Finished (failed (qlit ''client is null''))
      | Some to \<Rightarrow> Send envelope (\<lambda>a. Finished (opReply e a failed extract)))"

definition endpointStr :: "wsclient \<Rightarrow> qstring" where
  "endpointStr client = (case client of None \<Rightarrow> [] | Some to \<Rightarrow> to)"

definition scalar :: "'d opsenv \<Rightarrow> 'd \<Rightarrow> string \<Rightarrow> qstring" where
  "scalar e body name = findScalar (o_xml e) body (qlit name)"

definition truthy :: "'d opsenv \<Rightarrow> 'd \<Rightarrow> string \<Rightarrow> bool" where
  "truthy e body name \<longleftrightarrow> scalar e body name = qlit ''true''"

text \<open>\<open>if (!s.isEmpty()) { v = s.toInt(&conv); if (conv) dst = v; }\<close>\<close>

definition pickInt :: "'d opsenv \<Rightarrow> 'd \<Rightarrow> string \<Rightarrow> int \<Rightarrow> int" where
  "pickInt e body name dst =
     (let s = scalar e body name in if s = [] then dst else case o_toInt e s of Some v \<Rightarrow> v | None \<Rightarrow> dst)"

section \<open>Results of a method call\<close>

record InvokeResult =
  inv_ok :: bool
  inv_error :: qstring
  inv_returnValue :: int

definition invokeFailed :: "qstring \<Rightarrow> InvokeResult" where
  "invokeFailed err = \<lparr>inv_ok = False, inv_error = err, inv_returnValue = -1\<rparr>"

text \<open>
  The extractors the method calls use. \<open>strictReturn\<close> wants a numeric \<open>ReturnValue\<close> among the given ones; \<open>laxReturn\<close> takes what
  \<open>toInt\<close> makes of it, which is 0 for a text that is no number; \<open>noFault\<close> looks at nothing.
\<close>

definition strictReturn :: "'d opsenv \<Rightarrow> int list \<Rightarrow> qstring \<Rightarrow> (qstring \<Rightarrow> qstring) \<Rightarrow> 'd \<Rightarrow> InvokeResult" where
  "strictReturn e good missing describe body =
     (let rv = scalar e body ''ReturnValue''
      in if rv = [] then invokeFailed missing
         else let v = o_toInt e rv; ok = (\<exists>n \<in> set good. v = Some n)
              in \<lparr>inv_ok = ok, inv_error = (if ok then [] else describe rv), inv_returnValue = (case v of Some n \<Rightarrow> n | None \<Rightarrow> 0)\<rparr>)"

definition laxReturn :: "'d opsenv \<Rightarrow> (qstring \<Rightarrow> qstring) \<Rightarrow> 'd \<Rightarrow> InvokeResult" where
  "laxReturn e describe body =
     (let rv = scalar e body ''ReturnValue''; v = (case o_toInt e rv of Some n \<Rightarrow> n | None \<Rightarrow> 0)
      in \<lparr>inv_ok = (v = 0), inv_error = (if v = 0 then [] else describe rv), inv_returnValue = v\<rparr>)"

definition noFault :: "'d \<Rightarrow> InvokeResult" where
  "noFault body = \<lparr>inv_ok = True, inv_error = [], inv_returnValue = 0\<rparr>"

definition boolStr :: "bool \<Rightarrow> qstring" where
  "boolStr v = (if v then qlit ''true'' else qlit ''false'')"

text \<open>The four requests, addressed to the client's endpoint and answered by an \<open>InvokeResult\<close>.\<close>

definition callMethod :: "'d opsenv \<Rightarrow> wsclient \<Rightarrow> qstring \<Rightarrow> string \<Rightarrow> qhash \<Rightarrow> qhash \<Rightarrow> ('d \<Rightarrow> InvokeResult) \<Rightarrow> ('d, InvokeResult) op" where
  "callMethod e c uri m sel params extract =
     runRequest e c (buildInvokeEnvelope (o_xml e) uri (qlit m) sel params (endpointStr c)) invokeFailed extract"

definition callOrdered :: "'d opsenv \<Rightarrow> wsclient \<Rightarrow> qstring \<Rightarrow> string \<Rightarrow> qhash \<Rightarrow> (qstring \<times> qstring) list \<Rightarrow> ('d \<Rightarrow> InvokeResult) \<Rightarrow>
    ('d, InvokeResult) op" where
  "callOrdered e c uri m sel params extract =
     runRequest e c (buildInvokeEnvelopeOrdered (o_xml e) uri (qlit m) sel params (endpointStr c)) invokeFailed extract"

definition putRecord :: "'d opsenv \<Rightarrow> wsclient \<Rightarrow> qstring \<Rightarrow> string \<Rightarrow> qhash \<Rightarrow> qhash \<Rightarrow> ('d, InvokeResult) op" where
  "putRecord e c uri cls sel props =
     runRequest e c (buildPutEnvelope (o_xml e) uri (qlit cls) sel props (endpointStr c)) invokeFailed noFault"

definition deleteRecord :: "'d opsenv \<Rightarrow> wsclient \<Rightarrow> qstring \<Rightarrow> qhash \<Rightarrow> ('d, InvokeResult) op" where
  "deleteRecord e c uri sel = runRequest e c (buildDeleteEnvelope (o_xml e) uri sel (endpointStr c)) invokeFailed noFault"

section \<open>Resources\<close>

definition kPowerMgmtResource :: qstring where "kPowerMgmtResource = qlit ''http://schemas.dmtf.org/wbem/wscim/1/cim-schema/2/CIM_AssociatedPowerManagementService''"
definition kPowerServiceResource :: qstring where "kPowerServiceResource = qlit ''http://schemas.dmtf.org/wbem/wscim/1/cim-schema/2/CIM_PowerManagementService''"
definition kComputerSystemResource :: qstring where "kComputerSystemResource = qlit ''http://schemas.dmtf.org/wbem/wscim/1/cim-schema/2/CIM_ComputerSystem''"
definition kGeneralSettingsResource :: qstring where "kGeneralSettingsResource = qlit ''http://intel.com/wbem/wscim/1/amt-schema/1/AMT_GeneralSettings''"
definition kEthernetSettingsResource :: qstring where "kEthernetSettingsResource = qlit ''http://intel.com/wbem/wscim/1/amt-schema/1/AMT_EthernetPortSettings''"
definition kTimeSyncResource :: qstring where "kTimeSyncResource = qlit ''http://intel.com/wbem/wscim/1/amt-schema/1/AMT_TimeSynchronizationService''"
definition kSystemPowerSchemeResource :: qstring where "kSystemPowerSchemeResource = qlit ''http://intel.com/wbem/wscim/1/amt-schema/1/AMT_SystemPowerScheme''"
definition kElementSettingDataResource :: qstring where "kElementSettingDataResource = qlit ''http://schemas.dmtf.org/wbem/wscim/1/cim-schema/2/CIM_ElementSettingData''"
definition kAgentPresenceCapabilitiesResource :: qstring where "kAgentPresenceCapabilitiesResource = qlit ''http://intel.com/wbem/wscim/1/amt-schema/1/AMT_AgentPresenceCapabilities''"
definition kAgentPresenceWatchdogResource :: qstring where "kAgentPresenceWatchdogResource = qlit ''http://intel.com/wbem/wscim/1/amt-schema/1/AMT_AgentPresenceWatchdog''"
definition kAgentPresenceWatchdogActionResource :: qstring where "kAgentPresenceWatchdogActionResource = qlit ''http://intel.com/wbem/wscim/1/amt-schema/1/AMT_AgentPresenceWatchdogAction''"
definition kFilterCollectionResource :: qstring where "kFilterCollectionResource = qlit ''http://schemas.dmtf.org/wbem/wscim/1/cim-schema/2/CIM_FilterCollection''"
definition kListenerDestinationResource :: qstring where "kListenerDestinationResource = qlit ''http://schemas.dmtf.org/wbem/wscim/1/cim-schema/2/CIM_ListenerDestination''"
definition kFilterCollectionSubscriptionResource :: qstring where "kFilterCollectionSubscriptionResource = qlit ''http://schemas.dmtf.org/wbem/wscim/1/cim-schema/2/CIM_FilterCollectionSubscription''"
definition kAlarmClockOccurrenceResource :: qstring where "kAlarmClockOccurrenceResource = qlit ''http://intel.com/wbem/wscim/1/ips-schema/1/IPS_AlarmClockOccurrence''"
definition kSystemDefensePolicyResource :: qstring where "kSystemDefensePolicyResource = qlit ''http://intel.com/wbem/wscim/1/amt-schema/1/AMT_SystemDefensePolicy''"
definition kHdr8021FilterResource :: qstring where "kHdr8021FilterResource = qlit ''http://intel.com/wbem/wscim/1/amt-schema/1/AMT_Hdr8021Filter''"
definition kIpHeadersFilterResource :: qstring where "kIpHeadersFilterResource = qlit ''http://intel.com/wbem/wscim/1/amt-schema/1/AMT_IPHeadersFilter''"
definition kActiveFilterStatisticsResource :: qstring where "kActiveFilterStatisticsResource = qlit ''http://intel.com/wbem/wscim/1/amt-schema/1/AMT_ActiveFilterStatistics''"
definition kNetworkPortSystemDefensePolicyResource :: qstring where "kNetworkPortSystemDefensePolicyResource = qlit ''http://intel.com/wbem/wscim/1/amt-schema/1/AMT_NetworkPortSystemDefensePolicy''"
definition kBootSettingDataResource :: qstring where "kBootSettingDataResource = qlit ''http://intel.com/wbem/wscim/1/amt-schema/1/AMT_BootSettingData''"
definition kBootServiceResource :: qstring where "kBootServiceResource = qlit ''http://schemas.dmtf.org/wbem/wscim/1/cim-schema/2/CIM_BootService''"
definition kIpsPowerServiceResource :: qstring where "kIpsPowerServiceResource = qlit ''http://intel.com/wbem/wscim/1/ips-schema/1/IPS_PowerManagementService''"
definition kBootCapabilitiesResource :: qstring where "kBootCapabilitiesResource = qlit ''http://intel.com/wbem/wscim/1/amt-schema/1/AMT_BootCapabilities''"
definition kCimBootSourceSettingResource :: qstring where "kCimBootSourceSettingResource = qlit ''http://schemas.dmtf.org/wbem/wscim/1/cim-schema/2/CIM_BootSourceSetting''"
definition kMessageLogResource :: qstring where "kMessageLogResource = qlit ''http://intel.com/wbem/wscim/1/amt-schema/1/AMT_MessageLog''"
definition kOptInServiceResource :: qstring where "kOptInServiceResource = qlit ''http://intel.com/wbem/wscim/1/ips-schema/1/IPS_OptInService''"
definition kKvmRedirectionSettingDataResource :: qstring where "kKvmRedirectionSettingDataResource = qlit ''http://intel.com/wbem/wscim/1/ips-schema/1/IPS_KVMRedirectionSettingData''"
definition kSetupAndConfigurationResource :: qstring where "kSetupAndConfigurationResource = qlit ''http://intel.com/wbem/wscim/1/amt-schema/1/AMT_SetupAndConfigurationService''"
definition kSoftwareIdentityResource :: qstring where "kSoftwareIdentityResource = qlit ''http://schemas.dmtf.org/wbem/wscim/1/cim-schema/2/CIM_SoftwareIdentity''"
definition kRedirectionServiceResource :: qstring where "kRedirectionServiceResource = qlit ''http://intel.com/wbem/wscim/1/amt-schema/1/AMT_RedirectionService''"
definition kKvmRedirectionSapResource :: qstring where "kKvmRedirectionSapResource = qlit ''http://schemas.dmtf.org/wbem/wscim/1/cim-schema/2/CIM_KVMRedirectionSAP''"
definition kChassisResource :: qstring where "kChassisResource = qlit ''http://schemas.dmtf.org/wbem/wscim/1/cim-schema/2/CIM_Chassis''"
definition kCardResource :: qstring where "kCardResource = qlit ''http://schemas.dmtf.org/wbem/wscim/1/cim-schema/2/CIM_Card''"
definition kBiosElementResource :: qstring where "kBiosElementResource = qlit ''http://schemas.dmtf.org/wbem/wscim/1/cim-schema/2/CIM_BIOSElement''"
definition kSystemPackagingResource :: qstring where "kSystemPackagingResource = qlit ''http://schemas.dmtf.org/wbem/wscim/1/cim-schema/2/CIM_SystemPackaging''"
definition kProcessorResource :: qstring where "kProcessorResource = qlit ''http://schemas.dmtf.org/wbem/wscim/1/cim-schema/2/CIM_Processor''"
definition kChipResource :: qstring where "kChipResource = qlit ''http://schemas.dmtf.org/wbem/wscim/1/cim-schema/2/CIM_Chip''"
definition kPhysicalMemoryResource :: qstring where "kPhysicalMemoryResource = qlit ''http://schemas.dmtf.org/wbem/wscim/1/cim-schema/2/CIM_PhysicalMemory''"
definition kMediaAccessDeviceResource :: qstring where "kMediaAccessDeviceResource = qlit ''http://schemas.dmtf.org/wbem/wscim/1/cim-schema/2/CIM_MediaAccessDevice''"
definition kPhysicalPackageResource :: qstring where "kPhysicalPackageResource = qlit ''http://schemas.dmtf.org/wbem/wscim/1/cim-schema/2/CIM_PhysicalPackage''"
definition kBatteryResource :: qstring where "kBatteryResource = qlit ''http://schemas.dmtf.org/wbem/wscim/1/cim-schema/2/CIM_Battery''"
definition kSolSessionUsingPortResource :: qstring where "kSolSessionUsingPortResource = qlit ''http://intel.com/wbem/wscim/1/ips-schema/1/IPS_SolSessionUsingPort''"
definition kKvmSessionUsingPortResource :: qstring where "kKvmSessionUsingPortResource = qlit ''http://intel.com/wbem/wscim/1/ips-schema/1/IPS_KvmSessionUsingPort''"
definition kIderSessionUsingPortResource :: qstring where "kIderSessionUsingPortResource = qlit ''http://intel.com/wbem/wscim/1/ips-schema/1/IPS_IderSessionUsingPort''"
definition kAuditLogResource :: qstring where "kAuditLogResource = qlit ''http://intel.com/wbem/wscim/1/amt-schema/1/AMT_AuditLog''"
definition kAuthorizationServiceResource :: qstring where "kAuthorizationServiceResource = qlit ''http://intel.com/wbem/wscim/1/amt-schema/1/AMT_AuthorizationService''"
definition kIpv6PortSettingsResource :: qstring where "kIpv6PortSettingsResource = qlit ''http://intel.com/wbem/wscim/1/ips-schema/1/IPS_IPv6PortSettings''"
definition kPublicKeyCertificateResource :: qstring where "kPublicKeyCertificateResource = qlit ''http://intel.com/wbem/wscim/1/amt-schema/1/AMT_PublicKeyCertificate''"
definition kPublicPrivateKeyPairResource :: qstring where "kPublicPrivateKeyPairResource = qlit ''http://intel.com/wbem/wscim/1/amt-schema/1/AMT_PublicPrivateKeyPair''"
definition kPublicKeyManagementServiceResource :: qstring where "kPublicKeyManagementServiceResource = qlit ''http://intel.com/wbem/wscim/1/amt-schema/1/AMT_PublicKeyManagementService''"
definition kTlsSettingDataResource :: qstring where "kTlsSettingDataResource = qlit ''http://intel.com/wbem/wscim/1/amt-schema/1/AMT_TLSSettingData''"
definition kTlsCredentialContextResource :: qstring where "kTlsCredentialContextResource = qlit ''http://intel.com/wbem/wscim/1/amt-schema/1/AMT_TLSCredentialContext''"
definition kEnvironmentDetectionResource :: qstring where "kEnvironmentDetectionResource = qlit ''http://intel.com/wbem/wscim/1/amt-schema/1/AMT_EnvironmentDetectionSettingData''"
definition kUserInitiatedConnectionResource :: qstring where "kUserInitiatedConnectionResource = qlit ''http://intel.com/wbem/wscim/1/amt-schema/1/AMT_UserInitiatedConnectionService''"
definition kRemoteAccessPolicyRuleResource :: qstring where "kRemoteAccessPolicyRuleResource = qlit ''http://intel.com/wbem/wscim/1/amt-schema/1/AMT_RemoteAccessPolicyRule''"
definition kRemoteAccessPolicyAppliesToMpsResource :: qstring where "kRemoteAccessPolicyAppliesToMpsResource = qlit ''http://intel.com/wbem/wscim/1/amt-schema/1/AMT_RemoteAccessPolicyAppliesToMPS''"
definition kManagementPresenceRemoteSapResource :: qstring where "kManagementPresenceRemoteSapResource = qlit ''http://intel.com/wbem/wscim/1/amt-schema/1/AMT_ManagementPresenceRemoteSAP''"
definition kRemoteAccessServiceResource :: qstring where "kRemoteAccessServiceResource = qlit ''http://intel.com/wbem/wscim/1/amt-schema/1/AMT_RemoteAccessService''"
definition kMpsUsernamePasswordResource :: qstring where "kMpsUsernamePasswordResource = qlit ''http://intel.com/wbem/wscim/1/amt-schema/1/AMT_MPSUsernamePassword''"
definition kHttpProxyServiceResource :: qstring where "kHttpProxyServiceResource = qlit ''http://intel.com/wbem/wscim/1/ips-schema/1/IPS_HTTPProxyService''"
definition kHttpProxyAccessPointResource :: qstring where "kHttpProxyAccessPointResource = qlit ''http://intel.com/wbem/wscim/1/ips-schema/1/IPS_HTTPProxyAccessPoint''"
definition kWiFiPortResource :: qstring where "kWiFiPortResource = qlit ''http://schemas.dmtf.org/wbem/wscim/1/cim-schema/2/CIM_WiFiPort''"
definition kWiFiEndpointResource :: qstring where "kWiFiEndpointResource = qlit ''http://schemas.dmtf.org/wbem/wscim/1/cim-schema/2/CIM_WiFiEndpoint''"
definition kWiFiPortConfigServiceResource :: qstring where "kWiFiPortConfigServiceResource = qlit ''http://intel.com/wbem/wscim/1/amt-schema/1/AMT_WiFiPortConfigurationService''"
definition kWiFiEndpointSettingsResource :: qstring where "kWiFiEndpointSettingsResource = qlit ''http://schemas.dmtf.org/wbem/wscim/1/cim-schema/2/CIM_WiFiEndpointSettings''"
definition kIEEE8021xSettingsResource :: qstring where "kIEEE8021xSettingsResource = qlit ''http://schemas.dmtf.org/wbem/wscim/1/cim-schema/2/CIM_IEEE8021xSettings''"
definition kWired8021xProfileResource :: qstring where "kWired8021xProfileResource = qlit ''http://intel.com/wbem/wscim/1/amt-schema/1/AMT_8021XProfile''"

section \<open>A concrete environment\<close>

text \<open>An instance of the parameters on which examples are evaluated: documents are token lists, texts are ASCII.\<close>

fun decimal :: "int \<Rightarrow> qstring \<Rightarrow> int option" where
  "decimal acc [] = Some acc"
| "decimal acc (c # t) = (if 48 \<le> c \<and> c \<le> 57 then decimal (10 * acc + int (unat c) - 48) t else None)"

definition exNumber :: "qstring \<Rightarrow> int option" where
  "exNumber t = (if t = [] then None else decimal 0 t)"

definition exOps :: "xtok list opsenv" where
  "exOps = \<lparr>o_xml = tokenLib, o_order = (\<lambda>h. h), o_arg = (\<lambda>p a. p @ a), o_args = (\<lambda>p as. p @ concat as), o_toInt = exNumber,
     o_toUInt = (\<lambda>t. map_option of_int (exNumber t)), o_toLongLong = exNumber,
     o_toULongLong = (\<lambda>t. map_option of_int (exNumber t)), o_hexUpper = intText, o_sort = (\<lambda>ks. map snd (sort_key fst (zip ks [0..<length ks]))), o_toLower = (\<lambda>t. t), o_equalsNoCase = (=), o_trimmed = (\<lambda>t. t),
     o_isDigit = (\<lambda>c. 48 \<le> c \<and> c \<le> 57), o_toUtf8 = map ucast, o_fromUtf8 = map ucast, o_toLatin1 = map ucast, o_toBase64 = (\<lambda>b. b),
     o_fromBase64 = (\<lambda>b. b), o_md5 = (\<lambda>b. take 16 b), o_ipVersion = (\<lambda>t. None), o_utcText = (\<lambda>t. fromLatin1 (dec_digits (unat t)))\<rparr>"

text \<open>A reply with the given children of its output element.\<close>

definition exReply :: "xnode list \<Rightarrow> xtok list" where
  "exReply ks = flat (envelopeNode (XElem kNsSoap (qlit ''Header'') [] []) [XElem [117] (qlit ''OUTPUT'') [] ks])"

lemma exOps_xml [simp]: "o_xml exOps = tokenLib" "o_toInt exOps = exNumber"
  by (simp_all add: exOps_def)

lemma exReply_read [simp]:
  "isFault (parseResponse tokenLib (exReply ks)) = False"
  "findScalar tokenLib (bodyXml (parseResponse tokenLib (exReply ks))) k = findToken k (flat (XElem [117] (qlit ''OUTPUT'') [] ks))"
proof -
  let ?b = "XElem [117] (qlit ''OUTPUT'') [] ks" and ?h = "XElem kNsSoap (qlit ''Header'') [] []"
  have n: "[117] \<noteq> kNsSoap" "[117] \<noteq> kNsAddressing"
    by (simp_all add: kNsSoap_def kNsAddressing_def qlit_def)
  note r = parse_response [of tokenLib "exReply ks" kNsSoap "qlit ''Envelope''" "[]" "[?h, XElem kNsSoap (qlit ''Body'') [] [?b]]" ?h
      "XElem kNsSoap (qlit ''Body'') [] [?b]"]
  show "isFault (parseResponse tokenLib (exReply ks)) = False"
    using r(3) n by (simp add: exReply_def envelopeNode_def tokenLib_def envPlain_def bodyPlain_def isFault_def)
  obtain ts where "bodyXml (parseResponse tokenLib (exReply ks)) = ts" "tidy ts = tidy (flat ?b)"
    using r(4) n by (auto simp: exReply_def envelopeNode_def tokenLib_def envPlain_def bodyPlain_def bodyContent_def isFaultNode_def)
  then show "findScalar tokenLib (bodyXml (parseResponse tokenLib (exReply ks))) k = findToken k (flat ?b)"
    using findToken_cong [of ts "flat ?b" k] by (simp add: findScalar_def tokenLib_def)
qed

lemma runRequest_runs:
  "runOp (Suc n) ids dev s (runRequest e (Some to) envelope failed extract) =
    (let (a, s') = dev s (envelope (newMessageId (ids n))) in Some (opReply e a failed extract, s'))"
  by (simp add: runRequest_def split: prod.split)

end
