(* ===== verification/Ops_Calls.thy ===== *)
theory Ops_Calls
  imports Ops_Core
begin

text \<open>
  The operations of \<open>operations.cpp\<close> that are one request: reading a record, calling a method, writing or deleting a record.
  Each is \<open>runRequest\<close> with its envelope and its way of reading the reply.
\<close>

section \<open>Reading a record\<close>

record IdentifyResult =
  idn_ok :: bool
  idn_error :: qstring
  idn_protocolVersion :: qstring
  idn_productVendor :: qstring
  idn_productVersion :: qstring

definition identifyFailed :: "qstring \<Rightarrow> IdentifyResult" where
  "identifyFailed err =
     \<lparr>idn_ok = False, idn_error = err, idn_protocolVersion = [], idn_productVendor = [], idn_productVersion = []\<rparr>"

definition identify :: "'d opsenv \<Rightarrow> wsclient \<Rightarrow> ('d, IdentifyResult) op" where
  "identify e c =
     (case c of
        None \<Rightarrow> Finished (identifyFailed (qlit ''client is null''))
      | Some to \<Rightarrow> Send (\<lambda>msg. buildIdentifyEnvelope (o_xml e)) (\<lambda>a. Finished (opReply e a identifyFailed (\<lambda>body.
          let version = scalar e body ''ProtocolVersion'' in
          \<lparr>idn_ok = (version \<noteq> []),
           idn_error = (if version \<noteq> [] then [] else qlit ''Identify response had no ProtocolVersion''),
           idn_protocolVersion = version, idn_productVendor = scalar e body ''ProductVendor'',
           idn_productVersion = scalar e body ''ProductVersion''\<rparr>))))"

definition getRecord :: "'d opsenv \<Rightarrow> wsclient \<Rightarrow> qstring \<Rightarrow> qhash \<Rightarrow> (qstring \<Rightarrow> 'r) \<Rightarrow> ('d \<Rightarrow> 'r) \<Rightarrow> ('d, 'r) op" where
  "getRecord e c uri sel failed extract =
     runRequest e c (buildGetEnvelope (o_xml e) uri sel (endpointStr c)) failed extract"

record PowerStateResult =
  pst_ok :: bool
  pst_error :: qstring
  pst_powerState :: int

definition powerStateOf :: "'d opsenv \<Rightarrow> 'd \<Rightarrow> PowerStateResult" where
  "powerStateOf e body =
     (let ps = scalar e body ''PowerState''
      in if ps = [] then \<lparr>pst_ok = False, pst_error = qlit ''response had no PowerState element'', pst_powerState = -1\<rparr>
         else case o_toInt e ps of
           Some v \<Rightarrow> \<lparr>pst_ok = True, pst_error = [], pst_powerState = v\<rparr>
         | None \<Rightarrow> \<lparr>pst_ok = False, pst_error = o_arg e (qlit ''PowerState '%1' was not numeric'') ps, pst_powerState = 0\<rparr>)"

definition getPowerState :: "'d opsenv \<Rightarrow> wsclient \<Rightarrow> ('d, PowerStateResult) op" where
  "getPowerState e c =
     getRecord e c kPowerMgmtResource [] (\<lambda>err. \<lparr>pst_ok = False, pst_error = err, pst_powerState = -1\<rparr>) (powerStateOf e)"

record GeneralSettingsResult =
  gs_ok :: bool
  gs_error :: qstring
  gs_hostName :: qstring
  gs_domainName :: qstring
  gs_amtVersion :: qstring
  gs_digestRealm :: qstring
  gs_networkInterfaceEnabled :: bool
  gs_rmcpPingResponseEnabled :: bool
  gs_powerSource :: int

definition generalSettingsFailed :: "qstring \<Rightarrow> GeneralSettingsResult" where
  "generalSettingsFailed err =
     \<lparr>gs_ok = False, gs_error = err, gs_hostName = [], gs_domainName = [], gs_amtVersion = [], gs_digestRealm = [],
      gs_networkInterfaceEnabled = False, gs_rmcpPingResponseEnabled = False, gs_powerSource = -1\<rparr>"

definition generalSettingsOf :: "'d opsenv \<Rightarrow> 'd \<Rightarrow> GeneralSettingsResult" where
  "generalSettingsOf e body =
     (let host = scalar e body ''HostName''; domain = scalar e body ''DomainName''; realm = scalar e body ''DigestRealm'';
          ok = (host \<noteq> [] \<or> domain \<noteq> [] \<or> realm \<noteq> [])
      in (generalSettingsFailed [])\<lparr>gs_ok := ok,
           gs_error := (if ok then [] else qlit ''AMT_GeneralSettings body had no recognised fields''),
           gs_hostName := host, gs_domainName := domain, gs_digestRealm := realm,
           gs_networkInterfaceEnabled := truthy e body ''NetworkInterfaceEnabled'',
           gs_rmcpPingResponseEnabled := truthy e body ''RmcpPingResponseEnabled'',
           gs_powerSource := pickInt e body ''PowerSource'' (-1)\<rparr>)"

definition getGeneralSettings :: "'d opsenv \<Rightarrow> wsclient \<Rightarrow> ('d, GeneralSettingsResult) op" where
  "getGeneralSettings e c = getRecord e c kGeneralSettingsResource [] generalSettingsFailed (generalSettingsOf e)"

record ComputerSystemResult =
  cs_ok :: bool
  cs_error :: qstring
  cs_name :: qstring
  cs_elementName :: qstring
  cs_creationClassName :: qstring
  cs_systemUuid :: qstring

definition computerSystemOf :: "'d opsenv \<Rightarrow> 'd \<Rightarrow> ComputerSystemResult" where
  "computerSystemOf e body =
     (let nm = scalar e body ''Name''; el = scalar e body ''ElementName''; ok = (nm \<noteq> [] \<or> el \<noteq> [])
      in \<lparr>cs_ok = ok, cs_error = (if ok then [] else qlit ''CIM_ComputerSystem body had no Name/ElementName''),
          cs_name = nm, cs_elementName = el, cs_creationClassName = scalar e body ''CreationClassName'', cs_systemUuid = nm\<rparr>)"

definition getComputerSystem :: "'d opsenv \<Rightarrow> wsclient \<Rightarrow> ('d, ComputerSystemResult) op" where
  "getComputerSystem e c =
     getRecord e c kComputerSystemResource
       (hashOf e [(''Name'', qlit ''Intel(r) AMT''), (''CreationClassName'', qlit ''CIM_ComputerSystem'')])
       (\<lambda>err. \<lparr>cs_ok = False, cs_error = err, cs_name = [], cs_elementName = [], cs_creationClassName = [], cs_systemUuid = []\<rparr>)
       (computerSystemOf e)"

record SetupAndConfigResult =
  sac_ok :: bool
  sac_error :: qstring
  sac_provisioningState :: int
  sac_provisioningMode :: int

definition setupAndConfigOf :: "'d opsenv \<Rightarrow> 'd \<Rightarrow> SetupAndConfigResult" where
  "setupAndConfigOf e body =
     (let ps = pickInt e body ''ProvisioningState'' (-1)
      in \<lparr>sac_ok = (ps \<ge> 0),
          sac_error = (if ps \<ge> 0 then [] else qlit ''AMT_SetupAndConfigurationService body had no ProvisioningState''),
          sac_provisioningState = ps, sac_provisioningMode = pickInt e body ''ProvisioningMode'' (-1)\<rparr>)"

definition getSetupAndConfiguration :: "'d opsenv \<Rightarrow> wsclient \<Rightarrow> ('d, SetupAndConfigResult) op" where
  "getSetupAndConfiguration e c =
     getRecord e c kSetupAndConfigurationResource []
       (\<lambda>err. \<lparr>sac_ok = False, sac_error = err, sac_provisioningState = -1, sac_provisioningMode = -1\<rparr>) (setupAndConfigOf e)"

record TimeSettingsResult =
  ts_ok :: bool
  ts_error :: qstring
  ts_secondsSinceEpoch :: int

definition timeSettingsOf :: "'d opsenv \<Rightarrow> 'd \<Rightarrow> TimeSettingsResult" where
  "timeSettingsOf e body =
     (let ta = scalar e body ''Ta0''
      in if ta = [] then \<lparr>ts_ok = False, ts_error = qlit ''response had no Ta0 timestamp'', ts_secondsSinceEpoch = 0\<rparr>
         else case o_toLongLong e ta of
           Some v \<Rightarrow> \<lparr>ts_ok = True, ts_error = [], ts_secondsSinceEpoch = v\<rparr>
         | None \<Rightarrow> \<lparr>ts_ok = False, ts_error = o_arg e (qlit ''Ta0 '%1' was not numeric'') ta, ts_secondsSinceEpoch = 0\<rparr>)"

definition getTimeSettings :: "'d opsenv \<Rightarrow> wsclient \<Rightarrow> ('d, TimeSettingsResult) op" where
  "getTimeSettings e c =
     runRequest e c (buildInvokeEnvelope (o_xml e) kTimeSyncResource (qlit ''GetLowAccuracyTimeSynch'') [] [] (endpointStr c))
       (\<lambda>err. \<lparr>ts_ok = False, ts_error = err, ts_secondsSinceEpoch = 0\<rparr>) (timeSettingsOf e)"

record AuditLogState =
  als_ok :: bool
  als_error :: qstring
  als_auditState :: int
  als_overwritePolicy :: int
  als_currentNumberOfRecords :: int
  als_percentageFree :: int
  als_maxAllowedAuditors :: int
  als_enabledState :: int

definition auditLogStateOf :: "'d opsenv \<Rightarrow> 'd \<Rightarrow> AuditLogState" where
  "auditLogStateOf e body =
     \<lparr>als_ok = True, als_error = [], als_auditState = pickInt e body ''AuditState'' 0,
      als_overwritePolicy = pickInt e body ''OverwritePolicy'' 0,
      als_currentNumberOfRecords = pickInt e body ''CurrentNumberOfRecords'' 0,
      als_percentageFree = pickInt e body ''PercentageFree'' 0, als_maxAllowedAuditors = pickInt e body ''MaxAllowedAuditors'' 0,
      als_enabledState = pickInt e body ''EnabledState'' 0\<rparr>"

definition getAuditLogState :: "'d opsenv \<Rightarrow> wsclient \<Rightarrow> ('d, AuditLogState) op" where
  "getAuditLogState e c =
     getRecord e c kAuditLogResource []
       (\<lambda>err. \<lparr>als_ok = False, als_error = err, als_auditState = 0, als_overwritePolicy = 0, als_currentNumberOfRecords = 0,
              als_percentageFree = 0, als_maxAllowedAuditors = 0, als_enabledState = 0\<rparr>) (auditLogStateOf e)"

record BootCapabilitiesResult =
  bc_ok :: bool
  bc_error :: qstring
  bc_ider :: bool
  bc_sol :: bool
  bc_biosReflash :: bool
  bc_biosSetup :: bool
  bc_biosPause :: bool
  bc_forcePxeBoot :: bool
  bc_forceHddBoot :: bool
  bc_forceCdOrDvdBoot :: bool
  bc_verbosityScreenBlank :: bool
  bc_powerButtonLock :: bool
  bc_resetButtonLock :: bool
  bc_keyboardLock :: bool
  bc_sleepButtonLock :: bool
  bc_userPasswordBypass :: bool
  bc_forcedProgressEvents :: bool
  bc_verbosityVerbose :: bool
  bc_verbosityQuiet :: bool
  bc_configurationDataReset :: bool
  bc_biosSecureBoot :: bool
  bc_secureErase :: bool
  bc_forceWinReBoot :: bool
  bc_forceUefiLocalPbaBoot :: bool
  bc_forceUefiHttpsBoot :: bool
  bc_amtSecureBootControl :: bool
  bc_platformErase :: bool
  bc_platformEraseMask :: u32

text \<open>The erase mask: all bits for the old boolean form, otherwise the number, 0 when there is none.\<close>

definition platformEraseMaskOf :: "'d opsenv \<Rightarrow> qstring \<Rightarrow> u32" where
  "platformEraseMaskOf e pe = (if pe = qlit ''true'' then NOT 0 else case o_toUInt e pe of Some m \<Rightarrow> m | None \<Rightarrow> 0)"

definition capabilitiesWith :: "bool \<Rightarrow> qstring \<Rightarrow> (string \<Rightarrow> bool) \<Rightarrow> u32 \<Rightarrow> BootCapabilitiesResult" where
  "capabilitiesWith ok err t em =
     \<lparr>bc_ok = ok, bc_error = err, bc_ider = t ''IDER'', bc_sol = t ''SOL'', bc_biosReflash = t ''BIOSReflash'',
      bc_biosSetup = t ''BIOSSetup'', bc_biosPause = t ''BIOSPause'', bc_forcePxeBoot = t ''ForcePXEBoot'',
      bc_forceHddBoot = t ''ForceHDDBoot'', bc_forceCdOrDvdBoot = t ''ForceCDorDVDBoot'',
      bc_verbosityScreenBlank = t ''VerbosityScreenBlank'', bc_powerButtonLock = t ''PowerButtonLock'',
      bc_resetButtonLock = t ''ResetButtonLock'', bc_keyboardLock = t ''KeyboardLock'', bc_sleepButtonLock = t ''SleepButtonLock'',
      bc_userPasswordBypass = t ''UserPasswordBypass'', bc_forcedProgressEvents = t ''ForcedProgressEvents'',
      bc_verbosityVerbose = t ''VerbosityVerbose'', bc_verbosityQuiet = t ''VerbosityQuiet'',
      bc_configurationDataReset = t ''ConfigurationDataReset'', bc_biosSecureBoot = t ''BIOSSecureBoot'',
      bc_secureErase = t ''SecureErase'', bc_forceWinReBoot = t ''ForceWinREBoot'',
      bc_forceUefiLocalPbaBoot = t ''ForceUEFILocalPBABoot'', bc_forceUefiHttpsBoot = t ''ForceUEFIHTTPSBoot'',
      bc_amtSecureBootControl = t ''AMTSecureBootControl'', bc_platformErase = (em \<noteq> 0), bc_platformEraseMask = em\<rparr>"

definition getBootCapabilities :: "'d opsenv \<Rightarrow> wsclient \<Rightarrow> ('d, BootCapabilitiesResult) op" where
  "getBootCapabilities e c =
     getRecord e c kBootCapabilitiesResource [] (\<lambda>err. capabilitiesWith False err (\<lambda>n. False) 0)
       (\<lambda>body. capabilitiesWith True [] (truthy e body) (platformEraseMaskOf e (scalar e body ''PlatformErase'')))"

section \<open>Calling a method\<close>

text \<open>The usual extractor, with its two texts: the method's name is in the second.\<close>

definition returned :: "'d opsenv \<Rightarrow> string \<Rightarrow> 'd \<Rightarrow> InvokeResult" where
  "returned e pattern = strictReturn e [0] (qlit ''response had no ReturnValue'') (o_arg e (qlit pattern))"

definition setPowerScheme :: "'d opsenv \<Rightarrow> wsclient \<Rightarrow> qstring \<Rightarrow> ('d, InvokeResult) op" where
  "setPowerScheme e c instanceId =
     callMethod e c kSystemPowerSchemeResource ''SetPowerScheme'' (hashOf e [(''InstanceID'', instanceId)]) []
       (returned e ''SetPowerScheme returned %1'')"

definition setHighAccuracyTimeSync :: "'d opsenv \<Rightarrow> wsclient \<Rightarrow> int \<Rightarrow> int \<Rightarrow> int \<Rightarrow> ('d, InvokeResult) op" where
  "setHighAccuracyTimeSync e c ta0 tm1 tm2 =
     callOrdered e c kTimeSyncResource ''SetHighAccuracyTimeSynch'' []
       [(qlit ''Ta0'', intText ta0), (qlit ''Tm1'', intText tm1), (qlit ''Tm2'', intText tm2)]
       (returned e ''SetHighAccuracyTimeSynch returned %1'')"

definition serviceSelectors :: "'d opsenv \<Rightarrow> string \<Rightarrow> string \<Rightarrow> qhash" where
  "serviceSelectors e nm cls =
     hashOf e [(''Name'', qlit nm), (''SystemCreationClassName'', qlit ''CIM_ComputerSystem''),
       (''SystemName'', qlit ''Intel(r) AMT''), (''CreationClassName'', qlit cls)]"

definition requestOsPowerStateChange :: "'d opsenv \<Rightarrow> wsclient \<Rightarrow> int \<Rightarrow> ('d, InvokeResult) op" where
  "requestOsPowerStateChange e c osPowerState =
     callMethod e c kIpsPowerServiceResource ''RequestOSPowerSavingStateChange''
       (serviceSelectors e ''Intel(r) AMT Power Management Service'' ''IPS_PowerManagementService'')
       (hashOf e [(''OSPowerSavingState'', intText osPowerState)]) (returned e ''RequestOSPowerSavingStateChange returned %1'')"

definition requestPowerStateChange :: "'d opsenv \<Rightarrow> wsclient \<Rightarrow> int \<Rightarrow> ('d, InvokeResult) op" where
  "requestPowerStateChange e c powerState =
     callMethod e c kPowerServiceResource ''RequestPowerStateChange''
       (serviceSelectors e ''Intel(r) AMT Power Management Service'' ''CIM_PowerManagementService'')
       (hashOf e [(''PowerState'', intText powerState)]) (returned e ''RequestPowerStateChange returned %1'')"

definition setKvmRedirectionEnabled :: "'d opsenv \<Rightarrow> wsclient \<Rightarrow> bool \<Rightarrow> ('d, InvokeResult) op" where
  "setKvmRedirectionEnabled e c enabled =
     callMethod e c kKvmRedirectionSapResource ''RequestStateChange''
       (serviceSelectors e ''Intel(r) KVM Redirection SAP'' ''CIM_KVMRedirectionSAP'')
       (hashOf e [(''RequestedState'', intText (if enabled then 2 else 3))])
       (strictReturn e [0, 4096] (qlit ''response had no ReturnValue'') (o_arg e (qlit ''RequestStateChange returned %1'')))"

definition parseClearLogReply :: "'d opsenv \<Rightarrow> string \<Rightarrow> 'd \<Rightarrow> InvokeResult" where
  "parseClearLogReply e label =
     strictReturn e [0] (qlit ''response had no ReturnValue'') (\<lambda>rv. o_args e (qlit ''%1 returned %2'') [qlit label, rv])"

definition clearAuditLog :: "'d opsenv \<Rightarrow> wsclient \<Rightarrow> ('d, InvokeResult) op" where
  "clearAuditLog e c = callMethod e c kAuditLogResource ''ClearLog'' [] [] (parseClearLogReply e ''AMT_AuditLog.ClearLog'')"

definition clearEventLog :: "'d opsenv \<Rightarrow> wsclient \<Rightarrow> ('d, InvokeResult) op" where
  "clearEventLog e c = callMethod e c kMessageLogResource ''ClearLog'' [] [] (parseClearLogReply e ''AMT_MessageLog.ClearLog'')"

subsection \<open>User consent\<close>

definition optInServiceSelectors :: "'d opsenv \<Rightarrow> qhash" where
  "optInServiceSelectors e = serviceSelectors e ''Intel(r) AMT OptIn Service'' ''IPS_OptInService''"

definition startOptIn :: "'d opsenv \<Rightarrow> wsclient \<Rightarrow> ('d, InvokeResult) op" where
  "startOptIn e c =
     callMethod e c kOptInServiceResource ''StartOptIn'' (optInServiceSelectors e) []
       (laxReturn e (o_arg e (qlit ''StartOptIn returned %1'')))"

definition sendOptInCode :: "'d opsenv \<Rightarrow> wsclient \<Rightarrow> u32 \<Rightarrow> ('d, InvokeResult) op" where
  "sendOptInCode e c code =
     callMethod e c kOptInServiceResource ''SendOptInCode'' (optInServiceSelectors e)
       (hashOf e [(''OptInCode'', numberText (unat code))]) (laxReturn e (o_arg e (qlit ''SendOptInCode returned %1'')))"

definition cancelOptIn :: "'d opsenv \<Rightarrow> wsclient \<Rightarrow> ('d, InvokeResult) op" where
  "cancelOptIn e c =
     callMethod e c kOptInServiceResource ''CancelOptIn'' (optInServiceSelectors e) []
       (laxReturn e (o_arg e (qlit ''CancelOptIn returned %1'')))"

subsection \<open>Accounts\<close>

definition computeDigestPassword :: "'d opsenv \<Rightarrow> qstring \<Rightarrow> qstring \<Rightarrow> qstring \<Rightarrow> qstring" where
  "computeDigestPassword e username realm plaintext =
     fromLatin1 (o_toBase64 e (o_md5 e (o_toUtf8 e username @ blit '':'' @ o_toUtf8 e realm @ blit '':'' @ o_toUtf8 e plaintext)))"

text \<open>\<open>aclReturnValueExtractor\<close> and \<open>deviceCertReturnValueExtractor\<close> are the same function.\<close>

definition aclReturnValueExtractor :: "'d opsenv \<Rightarrow> string \<Rightarrow> 'd \<Rightarrow> InvokeResult" where
  "aclReturnValueExtractor e what =
     laxReturn e (\<lambda>rv. o_args e (qlit ''%1 returned %2'') [qlit what, if rv = [] then qlit ''(no ReturnValue)'' else rv])"

definition deviceCertReturnValueExtractor :: "'d opsenv \<Rightarrow> string \<Rightarrow> 'd \<Rightarrow> InvokeResult" where
  "deviceCertReturnValueExtractor e what =
     laxReturn e (\<lambda>rv. o_args e (qlit ''%1 returned %2'') [qlit what, if rv = [] then qlit ''(no ReturnValue)'' else rv])"

definition realmsAsRepeatedParams :: "int list \<Rightarrow> (qstring \<times> qstring) list" where
  "realmsAsRepeatedParams realms = map (\<lambda>r. (qlit ''Realms'', intText r)) realms"

definition addUserAclEntryEx :: "'d opsenv \<Rightarrow> wsclient \<Rightarrow> qstring \<Rightarrow> qstring \<Rightarrow> int \<Rightarrow> int list \<Rightarrow> ('d, InvokeResult) op" where
  "addUserAclEntryEx e c digestUsername digestPassword accessPermission realms =
     callOrdered e c kAuthorizationServiceResource ''AddUserAclEntryEx'' []
       ([(qlit ''DigestUsername'', digestUsername), (qlit ''DigestPassword'', digestPassword),
         (qlit ''AccessPermission'', intText accessPermission)] @ realmsAsRepeatedParams realms)
       (aclReturnValueExtractor e ''AddUserAclEntryEx'')"

text \<open>A patch: a field that is not to be set is absent.\<close>

record UserAclEntryPatch =
  uap_digestUsername :: "qstring option"
  uap_digestPassword :: "qstring option"
  uap_accessPermission :: "int option"
  uap_realms :: "int list option"

definition patchParam :: "string \<Rightarrow> qstring option \<Rightarrow> (qstring \<times> qstring) list" where
  "patchParam k v = (case v of None \<Rightarrow> [] | Some t \<Rightarrow> [(qlit k, t)])"

definition updateUserAclEntryEx :: "'d opsenv \<Rightarrow> wsclient \<Rightarrow> int \<Rightarrow> UserAclEntryPatch \<Rightarrow> ('d, InvokeResult) op" where
  "updateUserAclEntryEx e c handle p =
     callOrdered e c kAuthorizationServiceResource ''UpdateUserAclEntryEx'' []
       ([(qlit ''Handle'', intText handle)] @ patchParam ''DigestUsername'' (uap_digestUsername p) @
        patchParam ''DigestPassword'' (uap_digestPassword p) @
        patchParam ''AccessPermission'' (map_option intText (uap_accessPermission p)) @
        (case uap_realms p of None \<Rightarrow> [] | Some rs \<Rightarrow> realmsAsRepeatedParams rs))
       (aclReturnValueExtractor e ''UpdateUserAclEntryEx'')"

definition removeUserAclEntry :: "'d opsenv \<Rightarrow> wsclient \<Rightarrow> int \<Rightarrow> ('d, InvokeResult) op" where
  "removeUserAclEntry e c handle =
     callMethod e c kAuthorizationServiceResource ''RemoveUserAclEntry'' [] (hashOf e [(''Handle'', intText handle)])
       (aclReturnValueExtractor e ''RemoveUserAclEntry'')"

definition setAclEnabledState :: "'d opsenv \<Rightarrow> wsclient \<Rightarrow> int \<Rightarrow> bool \<Rightarrow> ('d, InvokeResult) op" where
  "setAclEnabledState e c handle enabled =
     callMethod e c kAuthorizationServiceResource ''SetAclEnabledState'' []
       (hashOf e [(''Handle'', intText handle), (''Enabled'', boolStr enabled)]) (aclReturnValueExtractor e ''SetAclEnabledState'')"

definition setAdminAclEntryEx :: "'d opsenv \<Rightarrow> wsclient \<Rightarrow> qstring \<Rightarrow> qstring \<Rightarrow> ('d, InvokeResult) op" where
  "setAdminAclEntryEx e c username digestPassword =
     callOrdered e c kAuthorizationServiceResource ''SetAdminAclEntryEx'' []
       [(qlit ''Username'', username), (qlit ''DigestPassword'', digestPassword)]
       (aclReturnValueExtractor e ''SetAdminAclEntryEx'')"

subsection \<open>Certificates and keys\<close>

definition addTrustedRootCertificate :: "'d opsenv \<Rightarrow> wsclient \<Rightarrow> qstring \<Rightarrow> ('d, InvokeResult) op" where
  "addTrustedRootCertificate e c certB64 =
     callMethod e c kPublicKeyManagementServiceResource ''AddTrustedRootCertificate'' [] (hashOf e [(''CertificateBlob'', certB64)])
       (deviceCertReturnValueExtractor e ''AddTrustedRootCertificate'')"

definition addCertificate :: "'d opsenv \<Rightarrow> wsclient \<Rightarrow> qstring \<Rightarrow> ('d, InvokeResult) op" where
  "addCertificate e c certB64 =
     callMethod e c kPublicKeyManagementServiceResource ''AddCertificate'' [] (hashOf e [(''CertificateBlob'', certB64)])
       (deviceCertReturnValueExtractor e ''AddCertificate'')"

definition deleteDeviceCertificate :: "'d opsenv \<Rightarrow> wsclient \<Rightarrow> qstring \<Rightarrow> ('d, InvokeResult) op" where
  "deleteDeviceCertificate e c instanceId = deleteRecord e c kPublicKeyCertificateResource (hashOf e [(''InstanceID'', instanceId)])"

definition deleteDeviceKeyPair :: "'d opsenv \<Rightarrow> wsclient \<Rightarrow> qstring \<Rightarrow> ('d, InvokeResult) op" where
  "deleteDeviceKeyPair e c instanceId = deleteRecord e c kPublicPrivateKeyPairResource (hashOf e [(''InstanceID'', instanceId)])"

definition tlsSettingsEnvelope :: "'d opsenv \<Rightarrow> qstring \<Rightarrow> bool \<Rightarrow> bool \<Rightarrow> bool \<Rightarrow> qstring list \<Rightarrow> qstring \<Rightarrow> qstring \<Rightarrow> 'd" where
  "tlsSettingsEnvelope e instanceId enabled mutualAuth acceptNonSecureConnections trustedCn to msgId =
     x_write (o_xml e) (writeEnvelope
       (writeAddressingHeader kActionPut to msgId kTlsSettingDataResource (hashOf e [(''InstanceID'', instanceId)]))
       (writeBody (writeElement kTlsSettingDataResource (qlit ''AMT_TLSSettingData'') []
          (writeProperties kTlsSettingDataResource
             ([(qlit ''InstanceID'', instanceId), (qlit ''Enabled'', boolStr enabled), (qlit ''MutualAuthentication'', boolStr mutualAuth),
               (qlit ''AcceptNonSecureConnections'', boolStr acceptNonSecureConnections)] @
              (if mutualAuth then map (\<lambda>cn. (qlit ''TrustedCN'', cn)) trustedCn else []))))))"

definition setTlsSettings :: "'d opsenv \<Rightarrow> wsclient \<Rightarrow> qstring \<Rightarrow> bool \<Rightarrow> bool \<Rightarrow> bool \<Rightarrow> qstring list \<Rightarrow> ('d, InvokeResult) op" where
  "setTlsSettings e c instanceId enabled mutualAuth acceptNonSecureConnections trustedCn =
     runRequest e c (tlsSettingsEnvelope e instanceId enabled mutualAuth acceptNonSecureConnections trustedCn (endpointStr c))
       invokeFailed noFault"

text \<open>
  \<open>parseGenerateKeyPairInstanceId\<close>: the first non-blank piece of text while the reader is in a \<open>Selector\<close> named \<open>InstanceID\<close>. The
  reader knows the name of an element it leaves; \<open>opened\<close> are the names of the elements that are open.
\<close>

fun keyPairLoop :: "'d opsenv \<Rightarrow> qstring list \<Rightarrow> bool \<Rightarrow> qstring \<Rightarrow> xtok list \<Rightarrow> qstring" where
  "keyPairLoop e opened inSel nm [] = []"
| "keyPairLoop e opened inSel nm (TMisc # r) = keyPairLoop e opened inSel nm r"
| "keyPairLoop e opened inSel nm (TStart ns ln attrs # r) =
     (if ln = qlit ''Selector''
      then keyPairLoop e (ln # opened) True (case map_of (map snd (filter (\<lambda>a. fst a = []) attrs)) (qlit ''Name'') of Some v \<Rightarrow> v | None \<Rightarrow> []) r
      else keyPairLoop e (ln # opened) inSel nm r)"
| "keyPairLoop e opened inSel nm (TChars t # r) =
     (if inSel \<and> nm = qlit ''InstanceID'' \<and> o_trimmed e t \<noteq> [] then t else keyPairLoop e opened inSel nm r)"
| "keyPairLoop e opened inSel nm (TEnd # r) =
     (case opened of
        [] \<Rightarrow> keyPairLoop e [] inSel nm r
      | ln # os \<Rightarrow> if ln = qlit ''Selector'' then keyPairLoop e os False [] r else keyPairLoop e os inSel nm r)"

definition parseGenerateKeyPairInstanceId :: "'d opsenv \<Rightarrow> 'd \<Rightarrow> qstring" where
  "parseGenerateKeyPairInstanceId e body = keyPairLoop e [] False [] (x_read (o_xml e) body)"

record GenerateKeyPairResult =
  gkp_ok :: bool
  gkp_error :: qstring
  gkp_returnValue :: int
  gkp_keyPairInstanceId :: qstring

definition generatedKeyPair :: "'d opsenv \<Rightarrow> 'd \<Rightarrow> GenerateKeyPairResult" where
  "generatedKeyPair e body =
     (let rv = scalar e body ''ReturnValue''; failed = (\<lambda>err v. \<lparr>gkp_ok = False, gkp_error = err, gkp_returnValue = v, gkp_keyPairInstanceId = []\<rparr>)
      in if rv = [] then failed (qlit ''GenerateKeyPair response had no ReturnValue'') (-1)
         else if o_toInt e rv \<noteq> Some 0
         then failed (o_arg e (qlit ''GenerateKeyPair returned %1'') rv) (case o_toInt e rv of Some v \<Rightarrow> v | None \<Rightarrow> 0)
         else let k = parseGenerateKeyPairInstanceId e body
              in if k = [] then failed (qlit ''GenerateKeyPair: missing InstanceID in KeyPair EPR'') 0
                 else \<lparr>gkp_ok = True, gkp_error = [], gkp_returnValue = 0, gkp_keyPairInstanceId = k\<rparr>)"

definition generateKeyPair :: "'d opsenv \<Rightarrow> wsclient \<Rightarrow> int \<Rightarrow> int \<Rightarrow> ('d, GenerateKeyPairResult) op" where
  "generateKeyPair e c keyAlgorithm keyLength =
     runRequest e c
       (buildInvokeEnvelope (o_xml e) kPublicKeyManagementServiceResource (qlit ''GenerateKeyPair'') []
          (hashOf e [(''KeyAlgorithm'', intText keyAlgorithm), (''KeyLength'', intText keyLength)]) (endpointStr c))
       (\<lambda>err. \<lparr>gkp_ok = False, gkp_error = err, gkp_returnValue = -1, gkp_keyPairInstanceId = []\<rparr>) (generatedKeyPair e)"

record PublicPrivateKeyPairGetResult =
  ppk_ok :: bool
  ppk_error :: qstring
  ppk_derKey :: bytes

definition publicKeyOf :: "'d opsenv \<Rightarrow> 'd \<Rightarrow> PublicPrivateKeyPairGetResult" where
  "publicKeyOf e body =
     (let b64 = scalar e body ''DERKey''; der = o_fromBase64 e (o_toLatin1 e b64)
      in if b64 = [] then \<lparr>ppk_ok = False, ppk_error = qlit ''AMT_PublicPrivateKeyPair.DERKey missing'', ppk_derKey = []\<rparr>
         else if der = [] then \<lparr>ppk_ok = False, ppk_error = qlit ''AMT_PublicPrivateKeyPair.DERKey base64 decode failed'', ppk_derKey = []\<rparr>
         else \<lparr>ppk_ok = True, ppk_error = [], ppk_derKey = der\<rparr>)"

definition getPublicPrivateKeyPair :: "'d opsenv \<Rightarrow> wsclient \<Rightarrow> qstring \<Rightarrow> ('d, PublicPrivateKeyPairGetResult) op" where
  "getPublicPrivateKeyPair e c instanceId =
     getRecord e c kPublicPrivateKeyPairResource (hashOf e [(''InstanceID'', instanceId)])
       (\<lambda>err. \<lparr>ppk_ok = False, ppk_error = err, ppk_derKey = []\<rparr>) (publicKeyOf e)"

subsection \<open>Wireless and wired profiles\<close>

definition wifiPortSelectors :: "'d opsenv \<Rightarrow> qhash" where
  "wifiPortSelectors e = serviceSelectors e ''WiFi Port 0'' ''CIM_WiFiPort''"

definition wirelessReturnValueExtractor :: "'d opsenv \<Rightarrow> string \<Rightarrow> 'd \<Rightarrow> InvokeResult" where
  "wirelessReturnValueExtractor e what =
     strictReturn e [0, 4096] (o_arg e (qlit ''%1: no ReturnValue in response'') (qlit what))
       (\<lambda>rv. o_args e (qlit ''%1 returned %2'') [qlit what, rv])"

definition deleteWiFiProfile :: "'d opsenv \<Rightarrow> wsclient \<Rightarrow> qstring \<Rightarrow> ('d, InvokeResult) op" where
  "deleteWiFiProfile e c elementName =
     deleteRecord e c kWiFiEndpointSettingsResource
       (hashOf e [(''InstanceID'', o_arg e (qlit ''Intel(r) AMT:WiFi Endpoint Settings %1'') elementName)])"

definition deleteAllITWiFiProfiles :: "'d opsenv \<Rightarrow> wsclient \<Rightarrow> ('d, InvokeResult) op" where
  "deleteAllITWiFiProfiles e c =
     callMethod e c kWiFiPortConfigServiceResource ''DeleteAllITProfiles'' [] [] (wirelessReturnValueExtractor e ''DeleteAllITProfiles'')"

definition deleteAllUserWiFiProfiles :: "'d opsenv \<Rightarrow> wsclient \<Rightarrow> ('d, InvokeResult) op" where
  "deleteAllUserWiFiProfiles e c =
     callMethod e c kWiFiPortConfigServiceResource ''DeleteAllUserProfiles'' [] [] (wirelessReturnValueExtractor e ''DeleteAllUserProfiles'')"

definition setWiFiPortState :: "'d opsenv \<Rightarrow> wsclient \<Rightarrow> bool \<Rightarrow> ('d, InvokeResult) op" where
  "setWiFiPortState e c enabled =
     callMethod e c kWiFiPortResource ''RequestStateChange'' (wifiPortSelectors e)
       (hashOf e [(''RequestedState'', intText (if enabled then 32768 else 3))])
       (wirelessReturnValueExtractor e ''CIM_WiFiPort.RequestStateChange'')"

definition setWiFiSyncSettings :: "'d opsenv \<Rightarrow> wsclient \<Rightarrow> int \<Rightarrow> int \<Rightarrow> ('d, InvokeResult) op" where
  "setWiFiSyncSettings e c localProfileSynchronization uefiWiFiProfileShare =
     putRecord e c kWiFiPortConfigServiceResource ''AMT_WiFiPortConfigurationService'' []
       (hashOf e [(''LocalProfileSynchronizationEnabled'', intText localProfileSynchronization),
          (''UEFIWiFiProfileShareEnabled'', intText uefiWiFiProfileShare)])"

definition setWired8021xProfile :: "'d opsenv \<Rightarrow> wsclient \<Rightarrow> bool \<Rightarrow> int \<Rightarrow> ('d, InvokeResult) op" where
  "setWired8021xProfile e c enabled authenticationProtocol =
     putRecord e c kWired8021xProfileResource ''AMT_8021XProfile'' []
       (hashOf e [(''Enabled'', boolStr enabled), (''AuthenticationProtocol'', intText authenticationProtocol)])"

subsection \<open>Remote access\<close>

definition environmentEnvelope :: "'d opsenv \<Rightarrow> qstring list \<Rightarrow> qstring \<Rightarrow> qstring \<Rightarrow> 'd" where
  "environmentEnvelope e detectionStrings to msgId =
     x_write (o_xml e) (writeEnvelope (writeAddressingHeader kActionPut to msgId kEnvironmentDetectionResource [])
       (writeBody (writeElement kEnvironmentDetectionResource (qlit ''AMT_EnvironmentDetectionSettingData'') []
          (writeProperties kEnvironmentDetectionResource (map (\<lambda>s. (qlit ''DetectionStrings'', s)) detectionStrings)))))"

definition setEnvironmentDetection :: "'d opsenv \<Rightarrow> wsclient \<Rightarrow> qstring list \<Rightarrow> ('d, InvokeResult) op" where
  "setEnvironmentDetection e c detectionStrings =
     runRequest e c (environmentEnvelope e detectionStrings (endpointStr c)) invokeFailed noFault"

definition setUserInitiatedConnectionState :: "'d opsenv \<Rightarrow> wsclient \<Rightarrow> int \<Rightarrow> ('d, InvokeResult) op" where
  "setUserInitiatedConnectionState e c requestedState =
     callMethod e c kUserInitiatedConnectionResource ''RequestStateChange''
       (serviceSelectors e ''Intel(r) AMT User Initiated Connection Service'' ''AMT_UserInitiatedConnectionService'')
       (hashOf e [(''RequestedState'', intText requestedState)])
       (strictReturn e [0, 4096] (qlit ''AMT_UserInitiatedConnectionService.RequestStateChange: no ReturnValue'')
          (o_arg e (qlit ''RequestStateChange returned %1'')))"

definition classifyAccessInfo :: "'d opsenv \<Rightarrow> qstring \<Rightarrow> int" where
  "classifyAccessInfo e accessInfo =
     (case o_ipVersion e accessInfo of Some v \<Rightarrow> if v = 4 then 3 else if v = 6 then 4 else 201 | None \<Rightarrow> 201)"

definition addHttpProxy :: "'d opsenv \<Rightarrow> wsclient \<Rightarrow> qstring \<Rightarrow> int \<Rightarrow> int \<Rightarrow> qstring \<Rightarrow> ('d, InvokeResult) op" where
  "addHttpProxy e c accessInfo infoFormat port networkDnsSuffix =
     callMethod e c kHttpProxyServiceResource ''AddProxyAccessPoint'' []
       (hashOf e [(''AccessInfo'', accessInfo), (''InfoFormat'', intText infoFormat), (''Port'', intText port),
          (''NetworkDnsSuffix'', networkDnsSuffix)])
       (laxReturn e (o_arg e (qlit ''AddProxyAccessPoint returned %1'')))"

definition deleteHttpProxy :: "'d opsenv \<Rightarrow> wsclient \<Rightarrow> qstring \<Rightarrow> ('d, InvokeResult) op" where
  "deleteHttpProxy e c nm = deleteRecord e c kHttpProxyAccessPointResource (hashOf e [(''Name'', nm)])"

record MpServerInput =
  mps_accessInfo :: qstring
  mps_infoFormat :: int
  mps_port :: int
  mps_authMethod :: int
  mps_username :: qstring
  mps_password :: qstring
  mps_commonName :: qstring
  mps_mpsType :: int

definition noReturnText :: "'d opsenv \<Rightarrow> string \<Rightarrow> qstring \<Rightarrow> qstring" where
  "noReturnText e pattern rv = o_arg e (qlit pattern) (if rv = [] then qlit ''(no ReturnValue)'' else rv)"

definition addMpServer :: "'d opsenv \<Rightarrow> wsclient \<Rightarrow> MpServerInput \<Rightarrow> ('d, InvokeResult) op" where
  "addMpServer e c i =
     callMethod e c kRemoteAccessServiceResource ''AddMpServer'' []
       (hashOf e ([(''AccessInfo'', mps_accessInfo i), (''InfoFormat'', intText (mps_infoFormat i)), (''Port'', intText (mps_port i)),
          (''AuthMethod'', intText (mps_authMethod i))] @
          (if mps_authMethod i \<noteq> 1 then [(''Username'', mps_username i), (''Password'', mps_password i)] else []) @
          [(''CommonName'', mps_commonName i), (''MpsType'', intText (mps_mpsType i))]))
       (laxReturn e (noReturnText e ''AddMpServer returned %1''))"

definition updateMpServer :: "'d opsenv \<Rightarrow> wsclient \<Rightarrow> qstring \<Rightarrow> qstring \<Rightarrow> int \<Rightarrow> int \<Rightarrow> qstring \<Rightarrow> ('d, InvokeResult) op" where
  "updateMpServer e c nm accessInfo infoFormat port commonName =
     putRecord e c kManagementPresenceRemoteSapResource ''AMT_ManagementPresenceRemoteSAP'' (hashOf e [(''Name'', nm)])
       (hashOf e [(''Name'', nm), (''AccessInfo'', accessInfo), (''InfoFormat'', intText infoFormat), (''Port'', intText port),
          (''CN'', commonName)])"

definition removeMpServer :: "'d opsenv \<Rightarrow> wsclient \<Rightarrow> qstring \<Rightarrow> ('d, InvokeResult) op" where
  "removeMpServer e c nm = deleteRecord e c kManagementPresenceRemoteSapResource (hashOf e [(''Name'', nm)])"

definition removeRemoteAccessPolicyRule :: "'d opsenv \<Rightarrow> wsclient \<Rightarrow> qstring \<Rightarrow> ('d, InvokeResult) op" where
  "removeRemoteAccessPolicyRule e c policyRuleName =
     deleteRecord e c kRemoteAccessPolicyRuleResource (hashOf e [(''PolicyRuleName'', policyRuleName)])"

section \<open>What the replies are taken for\<close>

lemma strictReturn_ok: "inv_ok (strictReturn e good missing describe body) \<longleftrightarrow>
    scalar e body ''ReturnValue'' \<noteq> [] \<and> (\<exists>n \<in> set good. o_toInt e (scalar e body ''ReturnValue'') = Some n)"
  by (auto simp: strictReturn_def invokeFailed_def Let_def)

lemma laxReturn_missing:
  "o_toInt e (scalar e body ''ReturnValue'') = None \<Longrightarrow> laxReturn e describe body = \<lparr>inv_ok = True, inv_error = [], inv_returnValue = 0\<rparr>"
  by (simp add: laxReturn_def)

lemma call_lax:
  assumes "dev s (buildInvokeEnvelope (o_xml e) uri (qlit m) sel params to (newMessageId (ids n))) = (ReplyBody d, s')"
    and "\<not> isFault (parseResponse (o_xml e) d)" and "o_toInt e (scalar e (bodyXml (parseResponse (o_xml e) d)) ''ReturnValue'') = None"
  shows "runOp (Suc n) ids dev s (callMethod e (Some to) uri m sel params (laxReturn e describe)) =
    Some (\<lparr>inv_ok = True, inv_error = [], inv_returnValue = 0\<rparr>, s')"
  using assms by (simp add: callMethod_def runRequest_runs endpointStr_def opReply_def laxReturn_missing Let_def)

text \<open>C33: A reply without a return value is taken for success. When the device answers with a body that is no fault and has no
  \<open>ReturnValue\<close>, or one that is not a number, then nine operations report that the call succeeded, with return value 0 and no
  error: sending a consent code, starting and cancelling a consent request, removing and enabling a user account, adding a
  trusted root certificate, a certificate, a remote access server and an HTTP proxy. The wording that the code has for a
  missing return value is therefore never shown.
\<close>

theorem missing_return_value_succeeds:
  assumes "\<And>q. dev s q = (ReplyBody d, s)" and "\<not> isFault (parseResponse (o_xml e) d)"
    and "o_toInt e (scalar e (bodyXml (parseResponse (o_xml e) d)) ''ReturnValue'') = None"
    and "p \<in> {sendOptInCode e (Some to) code, startOptIn e (Some to), cancelOptIn e (Some to), removeUserAclEntry e (Some to) handle,
      setAclEnabledState e (Some to) handle enabled, addTrustedRootCertificate e (Some to) cert, addCertificate e (Some to) cert,
      addMpServer e (Some to) server, addHttpProxy e (Some to) info format port suffix}"
  shows "runOp (Suc n) ids dev s p = Some (\<lparr>inv_ok = True, inv_error = [], inv_returnValue = 0\<rparr>, s)"
proof -
  have "runOp (Suc n) ids dev s (callMethod e (Some to) uri m sel params (laxReturn e describe)) =
      Some (\<lparr>inv_ok = True, inv_error = [], inv_returnValue = 0\<rparr>, s)" for uri m sel params describe
    by (rule call_lax) (use assms in auto)
  with assms(4) show ?thesis
    unfolding sendOptInCode_def startOptIn_def cancelOptIn_def removeUserAclEntry_def setAclEnabledState_def addTrustedRootCertificate_def
      addCertificate_def addMpServer_def addHttpProxy_def aclReturnValueExtractor_def deviceCertReturnValueExtractor_def
    by auto
qed

theorem missing_return_value_succeeds_witness:
  "runOp 1 (\<lambda>i. []) (\<lambda>s q. (ReplyBody (exReply []), s)) () (sendOptInCode exOps (Some []) 123456) =
    Some (\<lparr>inv_ok = True, inv_error = [], inv_returnValue = 0\<rparr>, ())"
  using missing_return_value_succeeds [of "\<lambda>s q. (ReplyBody (exReply []), s)" "()" "exReply []" exOps "sendOptInCode exOps (Some []) 123456"
      "[]" 123456 0 False "[]" "MpServerInput.make [] 201 4433 2 [] [] [] 0" "[]" 0 0 "[]" 0 "\<lambda>i. []"]
  by (simp add: scalar_def exNumber_def qlit_def)

text \<open>
  A power change is believed only when the device says so. \<open>requestPowerStateChange\<close> sends one request and reports success exactly
  when the answer is a body without a fault whose \<open>ReturnValue\<close> is the number 0.
\<close>

theorem power_change_reported:
  "runOp (Suc n) ids dev s (requestPowerStateChange e (Some to) st) = Some (r, s') \<Longrightarrow>
    inv_ok r \<longleftrightarrow>
      (\<exists>d. fst (dev s (buildInvokeEnvelope (o_xml e) kPowerServiceResource (qlit ''RequestPowerStateChange'')
          (serviceSelectors e ''Intel(r) AMT Power Management Service'' ''CIM_PowerManagementService'')
          (hashOf e [(''PowerState'', intText st)]) to (newMessageId (ids n)))) = ReplyBody d \<and>
        \<not> isFault (parseResponse (o_xml e) d) \<and>
        scalar e (bodyXml (parseResponse (o_xml e) d)) ''ReturnValue'' \<noteq> [] \<and>
        o_toInt e (scalar e (bodyXml (parseResponse (o_xml e) d)) ''ReturnValue'') = Some 0)"
  unfolding requestPowerStateChange_def callMethod_def runRequest_runs endpointStr_def
  by (auto simp: opReply_def returned_def strictReturn_ok invokeFailed_def Let_def split: prod.splits answer.splits if_splits)

theorem power_change_reported_witness:
  "\<exists>r. runOp 1 (\<lambda>i. []) (\<lambda>s q. (ReplyBody (exReply [textElem [117] (qlit ''ReturnValue'') [49]]), s)) ()
      (requestPowerStateChange exOps (Some []) 2) = Some (r, ()) \<and> \<not> inv_ok r"
proof -
  let ?dev = "\<lambda>s q. (ReplyBody (exReply [textElem [117] (qlit ''ReturnValue'') [49]]), s)"
  obtain r where r: "runOp (Suc 0) (\<lambda>i. []) ?dev () (requestPowerStateChange exOps (Some []) 2) = Some (r, ())"
    unfolding requestPowerStateChange_def callMethod_def runRequest_runs by simp
  have "scalar exOps (bodyXml (parseResponse tokenLib (exReply [textElem [117] (qlit ''ReturnValue'') [49]]))) ''ReturnValue'' = [49]"
    by (simp add: scalar_def textElem_def qlit_def)
  then show ?thesis
    using power_change_reported [OF r] r by (simp add: exNumber_def)
qed

end
