(* ===== verification/Ops_Boot.thy ===== *)
theory Ops_Boot
  imports Ops_Calls
begin

text \<open>
  The boot actions of \<open>operations.cpp\<close>: the binary parameter blocks for recovery boots and erasing (\<open>buildHttpsBootUrlTlv\<close>,
  \<open>buildOcrPbaBootTlv\<close>, \<open>buildOcrHttpsBootPinnedTlv\<close>, \<open>buildPlatformEraseTlv\<close>) and the chain of requests of \<open>performBootAction\<close>.
\<close>

section \<open>Parameter blocks\<close>

definition appendU16Le :: "bytes \<Rightarrow> u16 \<Rightarrow> bytes" where
  "appendU16Le b v = b @ [ucast (v AND 0xFF), ucast (drop_bit 8 v AND 0xFF)]"

definition appendU32Le :: "bytes \<Rightarrow> u32 \<Rightarrow> bytes" where
  "appendU32Le b v = b @ [ucast (v AND 0xFF), ucast (drop_bit 8 v AND 0xFF), ucast (drop_bit 16 v AND 0xFF), ucast (drop_bit 24 v AND 0xFF)]"

definition appendTlv :: "bytes \<Rightarrow> u16 \<Rightarrow> u16 \<Rightarrow> bytes \<Rightarrow> bytes" where
  "appendTlv b vendor typ payload = appendU32Le (appendU16Le (appendU16Le b vendor) typ) (of_nat (length payload)) @ payload"

definition u32LeBytes :: "u32 \<Rightarrow> bytes" where
  "u32LeBytes v = appendU32Le [] v"

definition kVendorIntel :: u16 where "kVendorIntel = 0x8086"

text \<open>The builders return the block and the number of its entries.\<close>

type_synonym tlvs = "bytes \<times> nat"

definition addTlv :: "u16 \<Rightarrow> bytes \<Rightarrow> tlvs \<Rightarrow> tlvs" where
  "addTlv typ payload t = (appendTlv (fst t) kVendorIntel typ payload, snd t + 1)"

definition buildHttpsBootUrlTlv :: "'d opsenv \<Rightarrow> qstring \<Rightarrow> tlvs" where
  "buildHttpsBootUrlTlv e url = addTlv 30 [0, 0] (addTlv 20 [1] (addTlv 1 (o_toUtf8 e url) ([], 0)))"

definition buildOcrPbaBootTlv :: "'d opsenv \<Rightarrow> qstring \<Rightarrow> tlvs" where
  "buildOcrPbaBootTlv e bootString =
     (let bs = o_toUtf8 e bootString; len16 = (of_nat (length bs) :: u16)
      in addTlv 3 [ucast (len16 AND 0xFF), ucast (drop_bit 8 len16 AND 0xFF)] (addTlv 2 bs ([], 0)))"

definition ocrImageHashType :: "'d opsenv \<Rightarrow> qstring \<Rightarrow> u16" where
  "ocrImageHashType e alg =
     (let a = o_toLower e alg
      in if a = qlit ''sha256'' then 4 else if a = qlit ''sha384'' then 5 else if a = qlit ''sha512'' then 6 else 0)"

definition ocrServerCertHashType :: "'d opsenv \<Rightarrow> qstring \<Rightarrow> u16" where
  "ocrServerCertHashType e alg =
     (let a = o_toLower e alg
      in if a = qlit ''sha256'' then 23 else if a = qlit ''sha384'' then 24 else if a = qlit ''sha512'' then 25 else 0)"

definition addTlvIf :: "bool \<Rightarrow> u16 \<Rightarrow> bytes \<Rightarrow> tlvs \<Rightarrow> tlvs" where
  "addTlvIf b typ payload t = (if b then addTlv typ payload t else t)"

definition buildOcrHttpsBootPinnedTlv :: "'d opsenv \<Rightarrow> qstring \<Rightarrow> qstring \<Rightarrow> bytes \<Rightarrow> qstring \<Rightarrow> bytes \<Rightarrow> qstring \<Rightarrow> qstring \<Rightarrow> tlvs" where
  "buildOcrHttpsBootPinnedTlv e url hashAlg imageHash certHashAlg certHash username password =
     (let t = addTlv 1 (o_toUtf8 e url) ([], 0);
          t = addTlvIf (hashAlg \<noteq> [] \<and> imageHash \<noteq> [] \<and> ocrImageHashType e hashAlg \<noteq> 0) (ocrImageHashType e hashAlg) imageHash t;
          t = addTlv 20 [1] t;
          t = addTlvIf (certHashAlg \<noteq> [] \<and> certHash \<noteq> [] \<and> ocrServerCertHashType e certHashAlg \<noteq> 0)
                (ocrServerCertHashType e certHashAlg) certHash t;
          t = addTlvIf (username \<noteq> []) 40 (o_toUtf8 e username) t
      in addTlvIf (password \<noteq> []) 41 (o_toUtf8 e password) t)"

definition buildPlatformEraseTlv :: "'d opsenv \<Rightarrow> u32 \<Rightarrow> qstring \<Rightarrow> qstring \<Rightarrow> tlvs" where
  "buildPlatformEraseTlv e flags psid ssdPassword =
     (let t = addTlv 1 (u32LeBytes flags) ([], 0);
          t = addTlvIf (flags AND push_bit 1 1 \<noteq> 0 \<and> psid \<noteq> []) 10 (o_toUtf8 e psid) t
      in addTlvIf (flags AND push_bit 2 1 \<noteq> 0 \<and> ssdPassword \<noteq> []) 20 (o_toUtf8 e ssdPassword) t)"

subsection \<open>Reading a block back\<close>

text \<open>The format as documented: vendor, type and length, little endian, then the payload.\<close>

function readTlvs :: "bytes \<Rightarrow> (u16 \<times> u16 \<times> bytes) list option" where
  "readTlvs b =
     (if b = [] then Some []
      else if length b < 8 then None
      else let vendor = ucast (b ! 0) OR push_bit 8 (ucast (b ! 1)); typ = ucast (b ! 2) OR push_bit 8 (ucast (b ! 3));
               len = unat (ucast (b ! 4) OR push_bit 8 (ucast (b ! 5)) OR push_bit 16 (ucast (b ! 6)) OR push_bit 24 (ucast (b ! 7)) :: u32)
           in if length b < 8 + len then None
              else case readTlvs (drop len (drop 8 b)) of None \<Rightarrow> None | Some r \<Rightarrow> Some ((vendor, typ, take len (drop 8 b)) # r))"
  by pat_completeness auto
termination by (relation "measure length") auto

declare readTlvs.simps [simp del]

lemma readTlvs_nil [simp]: "readTlvs [] = Some []"
  by (simp add: readTlvs.simps)

lemma appendTlv_head: "appendTlv [] vendor typ payload @ r =
    [ucast vendor, ucast (drop_bit 8 vendor), ucast typ, ucast (drop_bit 8 typ)] @
    [ucast (of_nat (length payload) :: u32), ucast (drop_bit 8 (of_nat (length payload) :: u32)),
     ucast (drop_bit 16 (of_nat (length payload) :: u32)), ucast (drop_bit 24 (of_nat (length payload) :: u32))] @ payload @ r"
  by (simp add: appendTlv_def appendU16Le_def appendU32Le_def byte_order_simps)

lemma readTlvs_entry:
  assumes "length payload < 2 ^ 32"
  shows "readTlvs (appendTlv [] vendor typ payload @ r) = map_option (\<lambda>ts. (vendor, typ, payload) # ts) (readTlvs r)"
proof -
  have "unat (of_nat (length payload) :: u32) = length payload"
    using assms by (simp add: unat_of_nat take_bit_nat_eq_self_iff)
  then show ?thesis
    unfolding appendTlv_head
    by (subst readTlvs.simps) (simp add: byte_order_simps Let_def del: drop_drop split: option.split)
qed

lemma appendTlv_append: "appendTlv b vendor typ payload = b @ appendTlv [] vendor typ payload"
  by (simp add: appendTlv_def appendU16Le_def appendU32Le_def)

text \<open>A block under construction: what it reads as, and that it counts its entries.\<close>

definition tlvsAre :: "tlvs \<Rightarrow> (u16 \<times> bytes) list \<Rightarrow> bool" where
  "tlvsAre t es \<longleftrightarrow> snd t = length es \<and> (\<forall>r. readTlvs (fst t @ r) = map_option (\<lambda>xs. map (\<lambda>(ty, p). (kVendorIntel, ty, p)) es @ xs) (readTlvs r))"

lemma tlvsAre_nil [simp]: "tlvsAre ([], 0) []"
  by (simp add: tlvsAre_def option.map_ident [unfolded id_def])

lemma tlvsAre_add: "tlvsAre t es \<Longrightarrow> length p < 2 ^ 32 \<Longrightarrow> tlvsAre (addTlv ty p t) (es @ [(ty, p)])"
  unfolding tlvsAre_def addTlv_def
  by (auto simp: appendTlv_append [of "fst t"] readTlvs_entry option.map_comp comp_def intro!: option.map_cong)

lemma tlvsAre_if: "tlvsAre t es \<Longrightarrow> length p < 2 ^ 32 \<Longrightarrow> tlvsAre (addTlvIf b ty p t) (es @ (if b then [(ty, p)] else []))"
  by (simp add: addTlvIf_def tlvsAre_add)

lemma tlvsAre_read: "tlvsAre t es \<Longrightarrow> readTlvs (fst t) = Some (map (\<lambda>(ty, p). (kVendorIntel, ty, p)) es) \<and> snd t = length es"
  unfolding tlvsAre_def by (auto dest: spec [of _ "[]"])

text \<open>C21: A recovery block says what it was asked to say. Read by the documented format, the block for a recovery boot over HTTPS is the URL,
  the pin of the image, the root flag, the pin of the server certificate, and the credentials, in this order, with each
  optional entry there exactly when it was given (a pin needs an algorithm with a type); the number returned with it is
  the number of its entries.
\<close>

theorem pinned_block_reads_back:
  assumes "length (o_toUtf8 e url) < 2 ^ 32" and "length imageHash < 2 ^ 32" and "length certHash < 2 ^ 32"
    and "length (o_toUtf8 e username) < 2 ^ 32" and "length (o_toUtf8 e password) < 2 ^ 32"
  shows "let t = buildOcrHttpsBootPinnedTlv e url hashAlg imageHash certHashAlg certHash username password;
      entries = [(1, o_toUtf8 e url)] @
        (if hashAlg \<noteq> [] \<and> imageHash \<noteq> [] \<and> ocrImageHashType e hashAlg \<noteq> 0 then [(ocrImageHashType e hashAlg, imageHash)] else []) @
        [(20, [1])] @
        (if certHashAlg \<noteq> [] \<and> certHash \<noteq> [] \<and> ocrServerCertHashType e certHashAlg \<noteq> 0
         then [(ocrServerCertHashType e certHashAlg, certHash)] else []) @
        (if username \<noteq> [] then [(40, o_toUtf8 e username)] else []) @ (if password \<noteq> [] then [(41, o_toUtf8 e password)] else [])
    in readTlvs (fst t) = Some (map (\<lambda>(ty, p). (kVendorIntel, ty, p)) entries) \<and> snd t = length entries"
proof -
  note step = tlvsAre_if [OF tlvsAre_if [OF tlvsAre_if [OF tlvsAre_add [OF tlvsAre_if [OF tlvsAre_add [OF tlvsAre_nil assms(1), of 1]
    assms(2)], of "[1]" 20] assms(3)] assms(4)] assms(5)]
  show ?thesis
    using tlvsAre_read [OF step] unfolding buildOcrHttpsBootPinnedTlv_def Let_def append.simps append_assoc by simp
qed

text \<open>The same for the erase block, whose first entry holds the mask.\<close>

lemma erase_block_reads_back:
  assumes "length (o_toUtf8 e psid) < 2 ^ 32" and "length (o_toUtf8 e ssdPassword) < 2 ^ 32"
  shows "readTlvs (fst (buildPlatformEraseTlv e flags psid ssdPassword)) = Some (map (\<lambda>(ty, p). (kVendorIntel, ty, p))
    ([(1, u32LeBytes flags)] @ (if flags AND push_bit 1 1 \<noteq> 0 \<and> psid \<noteq> [] then [(10, o_toUtf8 e psid)] else []) @
     (if flags AND push_bit 2 1 \<noteq> 0 \<and> ssdPassword \<noteq> [] then [(20, o_toUtf8 e ssdPassword)] else [])))"
proof -
  have "length (u32LeBytes flags) < 2 ^ 32" by (simp add: u32LeBytes_def appendU32Le_def)
  note step = tlvsAre_if [OF tlvsAre_if [OF tlvsAre_add [OF tlvsAre_nil this, of 1] assms(1)] assms(2)]
  show ?thesis
    using tlvsAre_read [OF step] unfolding buildPlatformEraseTlv_def Let_def append.simps append_assoc by simp
qed

section \<open>The boot chain\<close>

record BootActionParams =
  ba_targetPowerState :: int
  ba_amtBootSource :: qstring
  ba_biosSetup :: bool
  ba_biosPause :: bool
  ba_useIder :: bool
  ba_iderBootDevice :: int
  ba_useSol :: bool
  ba_secureErase :: bool
  ba_rsePassword :: qstring
  ba_platformErase :: bool
  ba_platformEraseTlvBase64 :: qstring
  ba_platformEraseTlvCount :: int
  ba_httpsBootUrl :: bool
  ba_httpsBootUrlStr :: qstring
  ba_oneClickRecovery :: bool
  ba_ocrTlvBase64 :: qstring
  ba_ocrTlvCount :: int

text \<open>The error of a failed step: the transport, a fault, or a return value; \<open>None\<close> when the chain goes on.\<close>

definition chainError :: "'d opsenv \<Rightarrow> qstring \<Rightarrow> ('d \<Rightarrow> InvokeResult) \<Rightarrow> 'd answer \<Rightarrow> InvokeResult option" where
  "chainError e nm extract a =
     (let named = (\<lambda>t. o_arg e (o_arg e (qlit ''%1: %2'') nm) t)
      in opReply e a (\<lambda>err. Some \<lparr>inv_ok = False, inv_error = named err, inv_returnValue = -1\<rparr>)
           (\<lambda>body. let r = extract body
              in if inv_ok r then None
                 else Some \<lparr>inv_ok = False,
                   inv_error = named (if inv_error r = [] then o_arg e (qlit ''ReturnValue %1'') (intText (inv_returnValue r)) else inv_error r),
                   inv_returnValue = inv_returnValue r\<rparr>))"

definition runChainStep :: "'d opsenv \<Rightarrow> wsclient \<Rightarrow> (qstring \<Rightarrow> 'd) \<Rightarrow> qstring \<Rightarrow> ('d \<Rightarrow> InvokeResult) \<Rightarrow> ('d, InvokeResult) op \<Rightarrow>
    ('d, InvokeResult) op" where
  "runChainStep e c envelope nm extract nxt =
     (case c of
        None \<Rightarrow> Finished (invokeFailed (qlit ''client is null''))
      | Some to \<Rightarrow> Send envelope (\<lambda>a. case chainError e nm extract a of Some r \<Rightarrow> Finished r | None \<Rightarrow> nxt))"

definition readReturnValueOk :: "'d opsenv \<Rightarrow> 'd \<Rightarrow> InvokeResult" where
  "readReturnValueOk e body =
     (let rv = scalar e body ''ReturnValue''
      in if rv = [] then invokeFailed (qlit ''response had no ReturnValue'')
         else \<lparr>inv_ok = (o_toInt e rv = Some 0), inv_error = [], inv_returnValue = (case o_toInt e rv of Some v \<Rightarrow> v | None \<Rightarrow> 0)\<rparr>)"

definition bootProps :: "'d opsenv \<Rightarrow> BootActionParams \<Rightarrow> qhash" where
  "bootProps e p = hashOf e
     ([(''BIOSPause'', boolStr (ba_biosPause p)), (''BIOSSetup'', boolStr (ba_biosSetup p)), (''BootMediaIndex'', qlit ''0''),
       (''ConfigurationDataReset'', boolStr False), (''EnforceSecureBoot'', boolStr False), (''FirmwareVerbosity'', qlit ''0''),
       (''ForcedProgressEvents'', boolStr False), (''IDERBootDevice'', intText (ba_iderBootDevice p)), (''LockKeyboard'', boolStr False),
       (''LockPowerButton'', boolStr False), (''LockResetButton'', boolStr False), (''LockSleepButton'', boolStr False),
       (''ReflashBIOS'', boolStr False), (''UseIDER'', boolStr (ba_useIder p)), (''UseSOL'', boolStr (ba_useSol p)),
       (''UseSafeMode'', boolStr False), (''UserPasswordBypass'', boolStr False)] @
      (if ba_secureErase p
       then (''SecureErase'', qlit ''true'') # (if ba_rsePassword p \<noteq> [] then [(''RSEPassword'', ba_rsePassword p)] else [])
       else [(''SecureErase'', qlit ''false'')]) @
      (if ba_platformErase p
       then (''PlatformErase'', qlit ''true'') #
         (if ba_platformEraseTlvBase64 p \<noteq> []
          then [(''UefiBootParametersArray'', ba_platformEraseTlvBase64 p), (''UefiBootNumberOfParams'', intText (ba_platformEraseTlvCount p))]
          else [])
       else [(''PlatformErase'', qlit ''false'')]) @
      (if ba_httpsBootUrl p \<and> ba_httpsBootUrlStr p \<noteq> []
       then let t = buildHttpsBootUrlTlv e (ba_httpsBootUrlStr p)
            in [(''UefiBootParametersArray'', fromLatin1 (o_toBase64 e (fst t))), (''UefiBootNumberOfParams'', intText (int (snd t))),
                (''BootMediaIndex'', qlit ''0'')]
       else []) @
      (if ba_oneClickRecovery p \<and> ba_ocrTlvBase64 p \<noteq> []
       then [(''UefiBootParametersArray'', ba_ocrTlvBase64 p), (''UefiBootNumberOfParams'', intText (ba_ocrTlvCount p)),
             (''BootMediaIndex'', qlit ''0'')]
       else []))"

definition setBootConfigRoleEnvelope :: "'d opsenv \<Rightarrow> qstring \<Rightarrow> qstring \<Rightarrow> 'd" where
  "setBootConfigRoleEnvelope e to msgId =
     x_write (o_xml e) (writeEnvelope
       (writeAddressingHeader (kBootServiceResource @ qlit ''/SetBootConfigRole'') to msgId kBootServiceResource
          (serviceSelectors e ''Intel(r) AMT Boot Service'' ''CIM_BootService''))
       (writeBody (writeElement kBootServiceResource (qlit ''SetBootConfigRole_INPUT'') []
          (writeElement kBootServiceResource (qlit ''BootConfigSetting'') []
             (writeTextElement kNsAddressing (qlit ''Address'') (qlit ''http://schemas.xmlsoap.org/ws/2004/08/addressing'') @
              writeElement kNsAddressing (qlit ''ReferenceParameters'') []
                (writeTextElement kNsWsman (qlit ''ResourceURI'') kBootConfigResource @
                 writeElement kNsWsman (qlit ''SelectorSet'') []
                   (writeSelector (qlit ''InstanceID'', qlit ''Intel(r) AMT: Boot Configuration 0'')))) @
           writeTextElement kBootServiceResource (qlit ''Role'') (qlit ''1'')))))"

definition doPowerChange :: "'d opsenv \<Rightarrow> wsclient \<Rightarrow> BootActionParams \<Rightarrow> ('d, InvokeResult) op" where
  "doPowerChange e c p = requestPowerStateChange e c (ba_targetPowerState p)"

definition doSetSpecificBootSource :: "'d opsenv \<Rightarrow> wsclient \<Rightarrow> BootActionParams \<Rightarrow> ('d, InvokeResult) op" where
  "doSetSpecificBootSource e c p =
     (if ba_amtBootSource p = [] then doPowerChange e c p
      else runChainStep e c (buildChangeBootOrderEnvelope (o_xml e) (ba_amtBootSource p) (endpointStr c))
             (o_arg e (qlit ''ChangeBootOrder(%1)'') (ba_amtBootSource p)) (readReturnValueOk e) (doPowerChange e c p))"

definition doSetRole :: "'d opsenv \<Rightarrow> wsclient \<Rightarrow> BootActionParams \<Rightarrow> ('d, InvokeResult) op" where
  "doSetRole e c p =
     runChainStep e c (setBootConfigRoleEnvelope e (endpointStr c)) (qlit ''SetBootConfigRole'') (readReturnValueOk e)
       (doSetSpecificBootSource e c p)"

definition doPutBootSettingData :: "'d opsenv \<Rightarrow> wsclient \<Rightarrow> BootActionParams \<Rightarrow> ('d, InvokeResult) op" where
  "doPutBootSettingData e c p =
     runChainStep e c
       (buildPutEnvelope (o_xml e) kBootSettingDataResource (qlit ''AMT_BootSettingData'')
          (hashOf e [(''InstanceID'', qlit ''Intel(r) AMT:BootSettingData 0'')]) (bootProps e p) (endpointStr c))
       (qlit ''Put AMT_BootSettingData'') noFault (doSetRole e c p)"

definition performBootAction :: "'d opsenv \<Rightarrow> wsclient \<Rightarrow> BootActionParams \<Rightarrow> ('d, InvokeResult) op" where
  "performBootAction e c p =
     runChainStep e c (buildChangeBootOrderEnvelope (o_xml e) [] (endpointStr c)) (qlit ''ChangeBootOrder(clear)'') (readReturnValueOk e)
       (doPutBootSettingData e c p)"

subsection \<open>The chain as a list of steps\<close>

type_synonym 'd chain_step = "(qstring \<Rightarrow> 'd) \<times> ('d answer \<Rightarrow> InvokeResult option)"

fun chainOf :: "'d chain_step list \<Rightarrow> ('d, InvokeResult) op \<Rightarrow> ('d, InvokeResult) op" where
  "chainOf [] finish = finish"
| "chainOf (st # r) finish = Send (fst st) (\<lambda>a. case snd st a of Some res \<Rightarrow> Finished res | None \<Rightarrow> chainOf r finish)"

definition bootSteps :: "'d opsenv \<Rightarrow> qstring \<Rightarrow> BootActionParams \<Rightarrow> 'd chain_step list" where
  "bootSteps e to p =
     [(buildChangeBootOrderEnvelope (o_xml e) [] to, chainError e (qlit ''ChangeBootOrder(clear)'') (readReturnValueOk e)),
      (buildPutEnvelope (o_xml e) kBootSettingDataResource (qlit ''AMT_BootSettingData'')
         (hashOf e [(''InstanceID'', qlit ''Intel(r) AMT:BootSettingData 0'')]) (bootProps e p) to,
       chainError e (qlit ''Put AMT_BootSettingData'') noFault),
      (setBootConfigRoleEnvelope e to, chainError e (qlit ''SetBootConfigRole'') (readReturnValueOk e))] @
     (if ba_amtBootSource p = [] then []
      else [(buildChangeBootOrderEnvelope (o_xml e) (ba_amtBootSource p) to,
             chainError e (o_arg e (qlit ''ChangeBootOrder(%1)'') (ba_amtBootSource p)) (readReturnValueOk e))])"

definition powerRequest :: "'d opsenv \<Rightarrow> qstring \<Rightarrow> BootActionParams \<Rightarrow> qstring \<Rightarrow> 'd" where
  "powerRequest e to p =
     buildInvokeEnvelope (o_xml e) kPowerServiceResource (qlit ''RequestPowerStateChange'')
       (serviceSelectors e ''Intel(r) AMT Power Management Service'' ''CIM_PowerManagementService'')
       (hashOf e [(''PowerState'', intText (ba_targetPowerState p))]) to"

lemma powerRequest_op:
  "doPowerChange e (Some to) p = Send (powerRequest e to p) (\<lambda>a. Finished (opReply e a invokeFailed (returned e ''RequestPowerStateChange returned %1'')))"
  by (simp add: doPowerChange_def requestPowerStateChange_def callMethod_def runRequest_def powerRequest_def endpointStr_def)

lemma performBootAction_chain: "performBootAction e (Some to) p = chainOf (bootSteps e to p) (doPowerChange e (Some to) p)"
  by (simp add: performBootAction_def doPutBootSettingData_def doSetRole_def doSetSpecificBootSource_def runChainStep_def bootSteps_def
      endpointStr_def cong: option.case_cong)

text \<open>
  What a run of a chain looks like: every request is the next one of the list, and it was sent because all the
  earlier ones were accepted.
\<close>

definition chainOrderly :: "(nat \<Rightarrow> qstring) \<Rightarrow> nat \<Rightarrow> 'd chain_step list \<Rightarrow> (qstring \<Rightarrow> 'd) \<Rightarrow> ('d \<times> 'd answer) list \<Rightarrow> bool" where
  "chainOrderly ids n steps final tr \<longleftrightarrow>
     length tr \<le> length steps + 1 \<and>
     (\<forall>i < length tr. fst (tr ! i) = ((map fst steps @ [final]) ! i) (newMessageId (ids (n - Suc i)))) \<and>
     (\<forall>i. Suc i < length tr \<longrightarrow> snd (steps ! i) (snd (tr ! i)) = None)"

lemma orderly_nil [simp]: "chainOrderly ids n steps final []"
  by (simp add: chainOrderly_def)

lemma orderly_one: "fst q = final (newMessageId (ids n)) \<Longrightarrow> chainOrderly ids (Suc n) [] final [q]"
  by (simp add: chainOrderly_def)

lemma orderly_stop: "fst q = fst st (newMessageId (ids n)) \<Longrightarrow> chainOrderly ids (Suc n) (st # r) final [q]"
  by (simp add: chainOrderly_def)

lemma orderly_Cons:
  assumes "fst q = fst st (newMessageId (ids n))" and "snd st (snd q) = None" and "chainOrderly ids n r final tr"
  shows "chainOrderly ids (Suc n) (st # r) final (q # tr)"
  using assms unfolding chainOrderly_def by (auto simp: nth_Cons split: nat.splits)

lemma chain_orderly:
  "chainOrderly ids n steps final (traceOp n ids dev s (chainOf steps (Send final (\<lambda>a. Finished (k a)))))"
proof (induction steps arbitrary: n s)
  case Nil
  show ?case by (cases n) (auto simp: Let_def orderly_one split: prod.split)
next
  case (Cons st r)
  show ?case
    using Cons.IH
    by (cases n) (auto simp: Let_def orderly_stop orderly_Cons split: prod.split option.split)
qed

lemma chain_result:
  "length steps < n \<Longrightarrow> \<exists>r s'. runOp n ids dev s (chainOf steps (Send final (\<lambda>a. Finished (k a)))) = Some (r, s') \<and>
    (let tr = traceOp n ids dev s (chainOf steps (Send final (\<lambda>a. Finished (k a)))) in tr \<noteq> [] \<and>
      (if length tr = length steps + 1 then r = k (snd (last tr)) else snd (steps ! (length tr - 1)) (snd (last tr)) = Some r))"
proof (induction steps arbitrary: n s)
  case Nil
  then show ?case by (cases n) (auto simp: Let_def split: prod.split)
next
  case (Cons st r)
  then obtain n' where n: "n = Suc n'" by (cases n) simp_all
  obtain a s' where a: "dev s (fst st (newMessageId (ids n'))) = (a, s')" by (meson surj_pair)
  show ?case
  proof (cases "snd st a")
    case None
    then show ?thesis
      using Cons.IH [of n' s'] Cons.prems n a by (auto simp: Let_def split: if_splits)
  qed (use n a in \<open>simp add: Let_def\<close>)
qed

definition faultFree :: "'d opsenv \<Rightarrow> 'd answer \<Rightarrow> bool" where
  "faultFree e a = (case a of ReplyError err \<Rightarrow> False | ReplyBody d \<Rightarrow> \<not> isFault (parseResponse (o_xml e) d))"

definition acceptedReply :: "'d opsenv \<Rightarrow> 'd answer \<Rightarrow> bool" where
  "acceptedReply e a =
     (case a of
        ReplyError err \<Rightarrow> False
      | ReplyBody d \<Rightarrow>
          let soap = parseResponse (o_xml e) d; rv = scalar e (bodyXml soap) ''ReturnValue''
          in \<not> isFault soap \<and> rv \<noteq> [] \<and> o_toInt e rv = Some 0)"

lemma chainError_none:
  "chainError e nm (readReturnValueOk e) a = None \<longleftrightarrow> acceptedReply e a" "chainError e nm noFault a = None \<longleftrightarrow> faultFree e a"
  by (auto simp: chainError_def opReply_def readReturnValueOk_def acceptedReply_def faultFree_def noFault_def invokeFailed_def Let_def
      split: answer.splits)

lemma chainError_some: "chainError e nm extract a = Some r \<Longrightarrow> \<not> inv_ok r"
  by (auto simp: chainError_def opReply_def Let_def split: answer.splits if_splits)

lemma bootSteps_guard:
  assumes "i < length (bootSteps e to p)"
  shows "snd (bootSteps e to p ! i) a = None \<longleftrightarrow> (if i = 1 then faultFree e a else acceptedReply e a)"
    and "snd (bootSteps e to p ! i) a = Some r \<Longrightarrow> \<not> inv_ok r"
proof -
  have "i = 0 \<or> i = 1 \<or> i = 2 \<or> i = 3 \<and> ba_amtBootSource p \<noteq> []"
    using assms by (auto simp: bootSteps_def split: if_splits)
  then show "snd (bootSteps e to p ! i) a = None \<longleftrightarrow> (if i = 1 then faultFree e a else acceptedReply e a)"
    and "snd (bootSteps e to p ! i) a = Some r \<Longrightarrow> \<not> inv_ok r"
    by (auto simp: bootSteps_def chainError_none dest: chainError_some)
qed

lemma returned_ok: "inv_ok (opReply e a invokeFailed (returned e pattern)) \<longleftrightarrow> acceptedReply e a"
  by (auto simp: opReply_def returned_def strictReturn_ok acceptedReply_def invokeFailed_def Let_def split: answer.splits)

text \<open>C10: A machine is not restarted into a half-prepared boot. A boot action sends, in this order, the request that clears the boot order,
  the boot settings, the role, the boot source if one is asked for, and the power change; each of them only after
  the device has accepted every earlier one (a numeric return value 0; no fault for the settings). The action ends
  after at most five requests and reports success exactly when the power change was sent and accepted.
\<close>

theorem boot_chain_guarded:
  assumes "4 < n"
  shows "\<exists>r s'. runOp n ids dev s (performBootAction e (Some to) p) = Some (r, s') \<and>
    (let tr = traceOp n ids dev s (performBootAction e (Some to) p); steps = bootSteps e to p
     in chainOrderly ids n steps (powerRequest e to p) tr \<and>
        (\<forall>i. Suc i < length tr \<longrightarrow> (if i = 1 then faultFree e (snd (tr ! i)) else acceptedReply e (snd (tr ! i)))) \<and>
        (inv_ok r \<longleftrightarrow> length tr = length steps + 1 \<and> acceptedReply e (snd (last tr))))"
proof -
  let ?steps = "bootSteps e to p" and ?k = "\<lambda>a. opReply e a invokeFailed (returned e ''RequestPowerStateChange returned %1'')"
  define tr where "tr = traceOp n ids dev s (performBootAction e (Some to) p)"
  have p: "performBootAction e (Some to) p = chainOf ?steps (Send (powerRequest e to p) (\<lambda>a. Finished (?k a)))"
    by (simp add: performBootAction_chain powerRequest_op)
  have o: "chainOrderly ids n ?steps (powerRequest e to p) tr"
    unfolding tr_def p by (rule chain_orderly)
  have "length ?steps < n" using assms by (simp add: bootSteps_def)
  from chain_result [OF this, of ids dev s "powerRequest e to p" ?k, folded p, folded tr_def]
  obtain r s' where r: "runOp n ids dev s (performBootAction e (Some to) p) = Some (r, s')" "tr \<noteq> []"
    "if length tr = length ?steps + 1 then r = ?k (snd (last tr)) else snd (?steps ! (length tr - 1)) (snd (last tr)) = Some r"
    by (auto simp: Let_def)
  have g: "if i = 1 then faultFree e (snd (tr ! i)) else acceptedReply e (snd (tr ! i))" if "Suc i < length tr" for i
    using that o bootSteps_guard(1) [of i e to p "snd (tr ! i)"] by (auto simp: chainOrderly_def)
  have "inv_ok r \<longleftrightarrow> length tr = length ?steps + 1 \<and> acceptedReply e (snd (last tr))"
  proof (cases "length tr = length ?steps + 1")
    case False
    then have "length tr - 1 < length ?steps" using o r(2) by (auto simp: chainOrderly_def Suc_le_eq) (cases tr; simp)
    from bootSteps_guard(2) [OF this] show ?thesis using False r(3) by auto
  qed (use r(3) returned_ok in auto)
  with r(1) o g show ?thesis
    unfolding tr_def [symmetric] Let_def by blast
qed

definition exBoot :: BootActionParams where
  "exBoot = \<lparr>ba_targetPowerState = 10, ba_amtBootSource = [], ba_biosSetup = True, ba_biosPause = False, ba_useIder = False,
     ba_iderBootDevice = 0, ba_useSol = False, ba_secureErase = False, ba_rsePassword = [], ba_platformErase = False,
     ba_platformEraseTlvBase64 = [], ba_platformEraseTlvCount = 0, ba_httpsBootUrl = False, ba_httpsBootUrlStr = [],
     ba_oneClickRecovery = False, ba_ocrTlvBase64 = [], ba_ocrTlvCount = 0\<rparr>"

theorem boot_chain_guarded_witness:
  "\<exists>r. runOp 5 (\<lambda>i. []) (\<lambda>s q. (ReplyBody (exReply [textElem [117] (qlit ''ReturnValue'') [48]]), s)) ()
      (performBootAction exOps (Some []) exBoot) = Some (r, ()) \<and> inv_ok r"
proof -
  let ?a = "ReplyBody (exReply [textElem [117] (qlit ''ReturnValue'') [48]])"
  have a: "acceptedReply exOps ?a" "faultFree exOps ?a"
    by (simp_all add: acceptedReply_def faultFree_def scalar_def textElem_def qlit_def exNumber_def)
  then have n: "chainError exOps nm (readReturnValueOk exOps) ?a = None" "chainError exOps nm noFault ?a = None" for nm
    by (simp_all only: chainError_none)
  let ?tr = "traceOp 5 (\<lambda>i. []) (\<lambda>s q. (?a, s)) () (performBootAction exOps (Some []) exBoot)"
  have "length ?tr = 4" "snd (last ?tr) = ?a"
    by (simp_all add: performBootAction_chain bootSteps_def powerRequest_op exBoot_def eval_nat_numeral Let_def n)
  moreover have "length (bootSteps exOps [] exBoot) = 3"
    by (simp add: bootSteps_def exBoot_def)
  ultimately show ?thesis
    using boot_chain_guarded [of 5 "\<lambda>i. []" "\<lambda>s q. (?a, s)" "()" exOps "[]" exBoot] a(1) by (auto simp: Let_def)
qed

theorem pinned_block_reads_back_witness:
  "readTlvs (fst (buildOcrHttpsBootPinnedTlv exOps [104] (qlit ''sha256'') [7] [] [] [] [])) =
    Some [(kVendorIntel, 1, [104]), (kVendorIntel, 4, [7]), (kVendorIntel, 20, [1])]"
  using pinned_block_reads_back [of exOps "[104]" "[7]" "[]" "[]" "[]" "qlit ''sha256''" "[]"]
  by (simp add: exOps_def ocrImageHashType_def Let_def qlit_def)

end
