(* ===== verification/Ops_Enum.thy ===== *)
theory Ops_Enum
  imports Ops_Core
begin

text \<open>
  The enumerations of \<open>operations.cpp\<close>: \<open>enumerateAll\<close>, which pulls page after page, and the operations built on it that
  enumerate one class. \<open>loopOp\<close> is a request that is repeated; the code's recursive lambdas are its bodies. It need not end.
\<close>

section \<open>Repeated requests\<close>

primcorec loopOp :: "('s \<Rightarrow> (qstring \<Rightarrow> 'd) \<times> ('d answer \<Rightarrow> 's + 'r)) \<Rightarrow> 's + 'r \<Rightarrow> ('d, 'r) op" where
  "loopOp body x = (case x of Inr r \<Rightarrow> Finished r | Inl s \<Rightarrow> Send (fst (body s)) (\<lambda>a. loopOp body (snd (body s) a)))"

lemma loopOp_simps [simp]:
  "loopOp body (Inr r) = Finished r" "loopOp body (Inl s) = Send (fst (body s)) (\<lambda>a. loopOp body (snd (body s) a))"
  by (subst loopOp.code, simp)+

text \<open>A loop whose replies are known runs through its states.\<close>

lemma loopOp_chain:
  assumes "\<And>k j. k < N \<Longrightarrow> snd (body (st k)) (dev (fst (body (st k)) (newMessageId (ids j)))) = (if Suc k < N then Inl (st (Suc k)) else Inr r)"
  shows "k < N \<Longrightarrow> N - k \<le> n \<Longrightarrow> runOp n ids (\<lambda>s q. (dev q, s)) s (loopOp body (Inl (st k))) = Some (r, s)"
proof (induction "N - k" arbitrary: k n)
  case (Suc m)
  obtain n' where n: "n = Suc n'" using Suc.prems by (cases n) simp_all
  show ?case
  proof (cases "Suc k < N")
    case True
    have "m = N - Suc k" "N - Suc k \<le> n'" using Suc.hyps(2) Suc.prems n by simp_all
    from Suc.hyps(1) [OF this(1) True this(2)] show ?thesis
      using assms [OF Suc.prems(1)] True n by simp
  qed (use assms [OF Suc.prems(1)] n in simp)
qed simp

section \<open>\<open>enumerateAll\<close>\<close>

type_synonym 'd enumerated = "'d list \<times> qstring"

definition enumPull :: "'d opsenv \<Rightarrow> qstring \<Rightarrow> qstring \<Rightarrow> 'd list \<times> qstring \<Rightarrow> (qstring \<Rightarrow> 'd) \<times> ('d answer \<Rightarrow> ('d list \<times> qstring) + 'd enumerated)" where
  "enumPull e to uri st =
     (buildPullEnvelope (o_xml e) uri (snd st) 64 to,
      \<lambda>a. opReply e a (\<lambda>err. Inr ([], err))
        (\<lambda>body. let chunk = parsePullResponse (o_xml e) body; acc = fst st @ items chunk
           in if endOfSequence chunk \<or> enumerationContext chunk = [] then Inr (acc, []) else Inl (acc, enumerationContext chunk)))"

definition enumerateAll :: "'d opsenv \<Rightarrow> wsclient \<Rightarrow> qstring \<Rightarrow> ('d, 'd enumerated) op" where
  "enumerateAll e c uri =
     (case c of
        None \<Rightarrow> Finished ([], qlit ''client is null'')
      | Some to \<Rightarrow> Send (buildEnumerateEnvelope (o_xml e) uri to)
          (\<lambda>a. opReply e a (\<lambda>err. Finished ([], err))
             (\<lambda>body. let ctx = parseEnumerateContext (o_xml e) body
                in if ctx = [] then Finished ([], []) else loopOp (enumPull e to uri) (Inl ([], ctx)))))"

subsection \<open>A device that pages\<close>

text \<open>A reply that carries an element in its body, as the reader sees it; nothing else of the reply matters.\<close>

definition carries :: "'d xmllib \<Rightarrow> 'd \<Rightarrow> xnode \<Rightarrow> bool" where
  "carries x d b \<longleftrightarrow>
     (\<exists>ns ln ea ks h bs. tidy (x_read x d) = tidy (flat (XElem ns ln ea ks)) \<and> (\<forall>n \<in> set ks. envPlain n) \<and>
        filter isElem ks = [h, XElem kNsSoap (qlit ''Body'') [] bs] \<and> \<not> named kNsSoap (qlit ''Body'') h \<and>
        filter isElem bs = [b] \<and> \<not> isFaultNode b \<and> \<not> writerHasError x (flat b) \<and> list_all tokPlain (flat b))"

lemma lastText_none: "\<forall>k \<in> set ks. \<not> named ns ln k \<Longrightarrow> lastText ns ln acc ks = acc"
  by (induction ks) simp_all

lemma carries_read:
  assumes "faithful x" and "carries x d b"
  shows "\<not> isFault (parseResponse x d)" "tidy (x_read x (bodyXml (parseResponse x d))) = tidy (flat b)"
proof -
  from assms(2) obtain ns ln ea ks h bs where t: "tidy (x_read x d) = tidy (flat (XElem ns ln ea ks))" "\<forall>n \<in> set ks. envPlain n"
    "filter isElem ks = [h, XElem kNsSoap (qlit ''Body'') [] bs]" "\<not> named kNsSoap (qlit ''Body'') h"
    and b: "filter isElem bs = [b]" "\<not> isFaultNode b" "\<not> writerHasError x (flat b)" "list_all tokPlain (flat b)"
    unfolding carries_def by blast
  note r = parse_response [OF t]
  have f: "\<not> isFaultNode k" if "k \<in> set bs" for k
  proof (cases "isElem k")
    case True
    then have "k \<in> set (filter isElem bs)" using that by simp
    then show ?thesis using b(1,2) by simp
  qed (cases k; simp add: isFaultNode_def)
  then have "lastText kNsSoap (qlit ''Fault'') [] bs = []"
    by (intro lastText_none) (auto simp: isFaultNode_def)
  then show "\<not> isFault (parseResponse x d)"
    using r(3) by (simp add: isFault_def)
  have "filter (\<lambda>n. isElem n \<and> \<not> isFaultNode n) bs = filter isElem bs"
    using f by (intro filter_cong) auto
  then obtain us where us: "bodyXml (parseResponse x d) = x_write x us" "tidy us = tidy (flat b)"
    using r(4) b(1) by (auto simp: bodyContent_def)
  have "b \<in> set (filter isElem bs)" unfolding b(1) by simp
  then have "isElem b" by simp
  then obtain ns' ln' attrs ks' where e: "b = XElem ns' ln' attrs ks'"
    by (cases b) simp_all
  have "\<not> writerHasError x us" "list_all tokPlain us"
    using writerHasError_cong [OF us(2), of x] tokPlain_cong [OF us(2)] b(3,4) by simp_all
  then show "tidy (x_read x (bodyXml (parseResponse x d))) = tidy (flat b)"
    using faithfulD [OF assms(1) us(2) [unfolded e]] us e by simp
qed

text \<open>
  A device that answers an enumeration in pages: the first request gets the context of the first page, and a pull with the
  context of a page gets that page, which names the context of the next one; the last one says it is the last, or
  names none.
\<close>

definition servesPages :: "'d opsenv \<Rightarrow> ('d \<Rightarrow> 'd answer) \<Rightarrow> (nat \<Rightarrow> qstring) \<Rightarrow> qstring \<Rightarrow> qstring \<Rightarrow> xnode \<Rightarrow> (qstring \<times> xnode list) list \<Rightarrow> bool" where
  "servesPages e dev ids uri to opened pages \<longleftrightarrow>
     (\<forall>j. \<exists>d. dev (buildEnumerateEnvelope (o_xml e) uri to (newMessageId (ids j))) = ReplyBody d \<and> carries (o_xml e) d opened) \<and>
     findToken (qlit ''EnumerationContext'') (flat opened) = fst (hd pages) \<and>
     (\<forall>i < length pages. fst (pages ! i) \<noteq> [] \<and> (\<forall>n \<in> set (snd (pages ! i)). pullPlain n) \<and>
        (\<forall>j. \<exists>d. dev (buildPullEnvelope (o_xml e) uri (fst (pages ! i)) 64 to (newMessageId (ids j))) = ReplyBody d \<and>
          carries (o_xml e) d (XElem kNsEnumeration (qlit ''PullResponse'') [] (snd (pages ! i)))) \<and>
        (if Suc i < length pages
         then \<not> pageEnds (snd (pages ! i)) \<and> lastText kNsEnumeration (qlit ''EnumerationContext'') [] (snd (pages ! i)) = fst (pages ! Suc i)
         else pageEnds (snd (pages ! i)) \<or> lastText kNsEnumeration (qlit ''EnumerationContext'') [] (snd (pages ! i)) = []))"

lemma pullResponse_root: "pageRoot kNsEnumeration (qlit ''PullResponse'')"
  by (simp add: pageRoot_def qlit_def)

lemma pull_reply:
  assumes "faithful (o_xml e)" and "carries (o_xml e) d (XElem kNsEnumeration (qlit ''PullResponse'') [] ks)" and "\<forall>n \<in> set ks. pullPlain n"
  shows "\<exists>ts. map tidy ts = map (tidy \<circ> flat) (pageItems ks) \<and>
    snd (enumPull e to uri st) (ReplyBody d) =
      (let acc = fst st @ map (x_write (o_xml e)) ts; ctx = lastText kNsEnumeration (qlit ''EnumerationContext'') [] ks
       in if pageEnds ks \<or> ctx = [] then Inr (acc, []) else Inl (acc, ctx))"
proof -
  note c = carries_read [OF assms(1,2)]
  from parse_page [OF c(2) assms(3) pullResponse_root] obtain ts where
    "enumerationContext (parsePullResponse (o_xml e) (bodyXml (parseResponse (o_xml e) d))) = lastText kNsEnumeration (qlit ''EnumerationContext'') [] ks"
    "endOfSequence (parsePullResponse (o_xml e) (bodyXml (parseResponse (o_xml e) d))) = pageEnds ks"
    "items (parsePullResponse (o_xml e) (bodyXml (parseResponse (o_xml e) d))) = map (x_write (o_xml e)) ts"
    "map tidy ts = map (tidy \<circ> flat) (pageItems ks)"
    by blast
  then show ?thesis
    using c(1) by (intro exI [of _ ts]) (simp add: enumPull_def opReply_def Let_def)
qed

lemma pulls_complete:
  assumes "faithful (o_xml e)" and "servesPages e dev ids uri to opened pages"
  shows "k < length pages \<Longrightarrow> length pages - k \<le> n \<Longrightarrow>
    \<exists>ts. map tidy ts = map (tidy \<circ> flat) (concat (map (pageItems \<circ> snd) (drop k pages))) \<and>
      runOp n ids (\<lambda>s q. (dev q, s)) s (loopOp (enumPull e to uri) (Inl (acc, fst (pages ! k)))) = Some ((acc @ map (x_write (o_xml e)) ts, []), s)"
proof (induction "length pages - k" arbitrary: k acc n)
  case (Suc m)
  let ?ks = "snd (pages ! k)"
  obtain n' where n: "n = Suc n'" using Suc.prems by (cases n) simp_all
  obtain d where d: "dev (buildPullEnvelope (o_xml e) uri (fst (pages ! k)) 64 to (newMessageId (ids n'))) = ReplyBody d"
    "carries (o_xml e) d (XElem kNsEnumeration (qlit ''PullResponse'') [] ?ks)" and pl: "\<forall>n \<in> set ?ks. pullPlain n"
    using assms(2) Suc.prems(1) unfolding servesPages_def by blast
  obtain ts where ts: "map tidy ts = map (tidy \<circ> flat) (pageItems ?ks)"
    "snd (enumPull e to uri (acc, fst (pages ! k))) (ReplyBody d) =
      (let acc = acc @ map (x_write (o_xml e)) ts; ctx = lastText kNsEnumeration (qlit ''EnumerationContext'') [] ?ks
       in if pageEnds ?ks \<or> ctx = [] then Inr (acc, []) else Inl (acc, ctx))"
    using pull_reply [OF assms(1) d(2) pl, of to uri "(acc, fst (pages ! k))"] by auto
  have dr: "drop k pages = pages ! k # drop (Suc k) pages" using Suc.prems(1) by (rule Cons_nth_drop_Suc [symmetric])
  have run: "runOp n ids (\<lambda>s q. (dev q, s)) s (loopOp (enumPull e to uri) (Inl (acc, fst (pages ! k)))) =
      runOp n' ids (\<lambda>s q. (dev q, s)) s (loopOp (enumPull e to uri) (snd (enumPull e to uri (acc, fst (pages ! k))) (ReplyBody d)))"
    using d(1) by (simp add: n enumPull_def)
  show ?case
  proof (cases "Suc k < length pages")
    case True
    then have c: "\<not> pageEnds ?ks" "lastText kNsEnumeration (qlit ''EnumerationContext'') [] ?ks = fst (pages ! Suc k)" "fst (pages ! Suc k) \<noteq> []"
      using assms(2) Suc.prems(1) unfolding servesPages_def by auto
    have "m = length pages - Suc k" "length pages - Suc k \<le> n'" using Suc.hyps(2) Suc.prems n by simp_all
    from Suc.hyps(1) [OF this(1) True this(2), of "acc @ map (x_write (o_xml e)) ts"] obtain us where
      "map tidy us = map (tidy \<circ> flat) (concat (map (pageItems \<circ> snd) (drop (Suc k) pages)))"
      "runOp n' ids (\<lambda>s q. (dev q, s)) s (loopOp (enumPull e to uri) (Inl (acc @ map (x_write (o_xml e)) ts, fst (pages ! Suc k)))) =
        Some ((acc @ map (x_write (o_xml e)) ts @ map (x_write (o_xml e)) us, []), s)"
      by auto
    then show ?thesis
      using ts c dr run by (intro exI [of _ "ts @ us"]) (simp add: Let_def)
  next
    case False
    then have "pageEnds ?ks \<or> lastText kNsEnumeration (qlit ''EnumerationContext'') [] ?ks = []" "drop (Suc k) pages = []"
      using assms(2) Suc.prems(1) unfolding servesPages_def by auto
    then show ?thesis
      using ts dr run by (intro exI [of _ ts]) (simp add: Let_def)
  qed
qed simp

text \<open>C12: An enumeration is complete. Against a device that pages its instances, in pages of any sizes, \<open>enumerateAll\<close> sends one request
  to open the enumeration and one per page, ends, and returns the documents of all instances, in order, once each.
\<close>

theorem enumeration_complete:
  assumes "faithful (o_xml e)" and "pages \<noteq> []" and "servesPages e dev ids uri to opened pages" and "length pages < n"
  shows "\<exists>ts. runOp n ids (\<lambda>s q. (dev q, s)) s (enumerateAll e (Some to) uri) = Some ((map (x_write (o_xml e)) ts, []), s) \<and>
    map tidy ts = map (tidy \<circ> flat) (concat (map (pageItems \<circ> snd) pages))"
proof -
  obtain n' where n: "n = Suc n'" "length pages \<le> n'" using assms(4) by (cases n) simp_all
  note sv = assms(3) [unfolded servesPages_def]
  obtain d where d: "dev (buildEnumerateEnvelope (o_xml e) uri to (newMessageId (ids n'))) = ReplyBody d" "carries (o_xml e) d opened"
    using sv by blast
  have o: "findToken (qlit ''EnumerationContext'') (flat opened) = fst (pages ! 0)" "fst (pages ! 0) \<noteq> []"
    using sv assms(2) by (simp_all add: hd_conv_nth)
  note c = carries_read [OF assms(1) d(2)]
  have "parseEnumerateContext (o_xml e) (bodyXml (parseResponse (o_xml e) d)) = fst (pages ! 0)"
    using findToken_cong [OF c(2)] o(1) by (simp add: parseEnumerateContext_def findScalar_def)
  then show ?thesis
    using pulls_complete [OF assms(1,3), of 0 n' s "[]"] assms(2) n d(1) c(1) o(2)
    by (auto simp: enumerateAll_def opReply_def Let_def)
qed

text \<open>A document with one element in its body, and a device with two pages.\<close>

definition exDoc :: "xnode \<Rightarrow> xtok list" where
  "exDoc b = flat (envelopeNode (XElem kNsSoap (qlit ''Header'') [] []) [b])"

lemma exDoc_carries:
  assumes "isElem b" and "bodyPlain b" and "\<not> isFaultNode b" and "\<not> writerHasError tokenLib (flat b)" and "list_all tokPlain (flat b)"
  shows "carries tokenLib (exDoc b) b"
  unfolding carries_def exDoc_def envelopeNode_def
  by (rule exI [of _ kNsSoap], rule exI [of _ "qlit ''Envelope''"], rule exI [of _ "[]"],
      rule exI [of _ "[XElem kNsSoap (qlit ''Header'') [] [], XElem kNsSoap (qlit ''Body'') [] [b]]"],
      rule exI [of _ "XElem kNsSoap (qlit ''Header'') [] []"], rule exI [of _ "[b]"])
    (use assms in \<open>simp add: tokenLib_def envPlain_def\<close>)

definition exOpened :: xnode where
  "exOpened = XElem kNsEnumeration (qlit ''EnumerateResponse'') [] [textElem kNsEnumeration (qlit ''EnumerationContext'') [49]]"

definition exPages :: "(qstring \<times> xnode list) list" where
  "exPages = [([49], [textElem kNsEnumeration (qlit ''EnumerationContext'') [50], XElem kNsEnumeration (qlit ''Items'') [] [XElem [] [97] [] []]]),
    ([50], [XElem kNsEnumeration (qlit ''Items'') [] [XElem [] [98] [] []], XElem kNsEnumeration (qlit ''EndOfSequence'') [] []])]"

definition exDevice :: "xtok list \<Rightarrow> xtok list answer" where
  "exDevice q =
     (let c = findToken (qlit ''EnumerationContext'') q
      in ReplyBody (exDoc (case map_of exPages c of None \<Rightarrow> exOpened | Some ks \<Rightarrow> XElem kNsEnumeration (qlit ''PullResponse'') [] ks)))"

lemmas envelope_words = finalizeWriter_def writerHasError_def tokenLib_def writeEnvelope_def writeBody_def writeElement_def writeAddressingHeader_def
  writeTextElement_def writeEmptyElement_def kNsSoap_def kNsAddressing_def kNsWsman_def kNsEnumeration_def kAnonymousReplyTo_def
  kActionEnumerate_def kActionPull_def qlit_def newMessageId_def numberText_def dec_digits.simps fromLatin1_def

lemma exDevice_opens:
  assumes "0 \<notin> set uri" and "0 \<notin> set u"
  shows "exDevice (buildEnumerateEnvelope tokenLib uri [] (newMessageId u)) = ReplyBody (exDoc exOpened)"
proof -
  have "findToken (qlit ''EnumerationContext'') (buildEnumerateEnvelope tokenLib uri [] (newMessageId u)) = []"
    using assms by (auto simp: buildEnumerateEnvelope_def envelope_words)
  then show ?thesis by (simp add: exDevice_def exPages_def)
qed

lemma exDevice_pulls:
  assumes "ctx = [49] \<or> ctx = [50]" and "0 \<notin> set uri" and "0 \<notin> set u"
  shows "exDevice (buildPullEnvelope tokenLib uri ctx 64 [] (newMessageId u)) =
    ReplyBody (exDoc (XElem kNsEnumeration (qlit ''PullResponse'') [] (the (map_of exPages ctx))))"
proof -
  have "findToken (qlit ''EnumerationContext'') (buildPullEnvelope tokenLib uri ctx 64 [] (newMessageId u)) = ctx"
    using assms by (auto simp: buildPullEnvelope_def envelope_words list_ex_iff)
  then show ?thesis using assms by (auto simp: exDevice_def exPages_def)
qed

lemma ex_names: "[] \<noteq> kNsEnumeration" "kNsEnumeration \<noteq> kNsSoap" "kNsEnumeration \<noteq> kNsAddressing" "kNsEnumeration \<noteq> []"
  by (simp_all add: kNsEnumeration_def kNsSoap_def kNsAddressing_def qlit_def)

lemma exPages_served:
  assumes "0 \<notin> set uri" and "0 \<notin> set u"
  shows "servesPages exOps exDevice (\<lambda>i. u) uri [] exOpened exPages"
proof -
  have b: "carries tokenLib (exDoc exOpened) exOpened"
    by (rule exDoc_carries)
      (simp_all add: exOpened_def textElem_def bodyPlain_def isFaultNode_def ex_names writerHasError_def tokenLib_def kNsEnumeration_def qlit_def)
  have c: "carries tokenLib (exDoc (XElem kNsEnumeration (qlit ''PullResponse'') [] ks)) (XElem kNsEnumeration (qlit ''PullResponse'') [] ks)"
    if "ks = snd (exPages ! 0) \<or> ks = snd (exPages ! 1)" for ks
    by (rule exDoc_carries)
      (use that in \<open>auto simp: exPages_def textElem_def bodyPlain_def isFaultNode_def ex_names writerHasError_def tokenLib_def kNsEnumeration_def qlit_def\<close>)
  have p: "\<forall>n \<in> set (snd (exPages ! 0)). pullPlain n" "\<forall>n \<in> set (snd (exPages ! 1)). pullPlain n"
    by (simp_all add: exPages_def pullPlain_def textElem_def textOnly_def ex_names)
  have v: "fst (exPages ! 0) = [49]" "fst (exPages ! 1) = [50]" "length exPages = 2" "the (map_of exPages [49]) = snd (exPages ! 0)"
    "the (map_of exPages [50]) = snd (exPages ! 1)" "\<not> pageEnds (snd (exPages ! 0))" "pageEnds (snd (exPages ! 1))"
    "lastText kNsEnumeration (qlit ''EnumerationContext'') [] (snd (exPages ! 0)) = [50]"
    by (simp_all add: exPages_def textElem_def pageEnds_def)
  have o: "findToken (qlit ''EnumerationContext'') (flat exOpened) = fst (hd exPages)"
    by (simp add: exOpened_def exPages_def textElem_def qlit_def)
  have "i < length exPages \<Longrightarrow> i = 0 \<or> i = 1" for i by (auto simp: exPages_def)
  moreover have q: "\<forall>j::nat. \<exists>d. exDevice (buildPullEnvelope tokenLib uri ctx 64 [] (newMessageId u)) = ReplyBody d \<and>
      carries tokenLib d (XElem kNsEnumeration (qlit ''PullResponse'') [] (the (map_of exPages ctx)))" if "ctx = [49] \<or> ctx = [50]" for ctx
    using exDevice_pulls [OF that assms] c [of "the (map_of exPages ctx)"] that v(4,5) by auto
  ultimately show ?thesis
    unfolding servesPages_def exOps_xml
    using exDevice_opens [OF assms] b o p v q [of "[49]"] q [of "[50]"] by (metis One_nat_def Suc_1 less_irrefl_nat lessI list.distinct(1))
qed

theorem enumeration_complete_witness:
  "\<exists>ts. runOp 3 (\<lambda>i. []) (\<lambda>s q. (exDevice q, s)) () (enumerateAll exOps (Some []) [117]) = Some ((ts, []), ()) \<and>
    map tidy ts = map (tidy \<circ> flat) [XElem [] [97] [] [], XElem [] [98] [] []]"
proof -
  have "concat (map (pageItems \<circ> snd) exPages) = [XElem [] [97] [] [], XElem [] [98] [] []]"
    by (simp add: exPages_def pageItems_def textElem_def)
  moreover have "faithful (o_xml exOps)" by (simp add: tokenLib_faithful)
  moreover have "exPages \<noteq> []" "length exPages < 3" by (simp_all add: exPages_def)
  moreover have "map (x_write tokenLib) ts = ts" for ts by (simp add: tokenLib_def)
  moreover have "servesPages exOps exDevice (\<lambda>i. []) [117] [] exOpened exPages"
    by (rule exPages_served) simp_all
  ultimately show ?thesis
    using enumeration_complete [where n = 3 and s = "()"] by (metis exOps_xml(1))
qed

section \<open>Readers over a document\<close>

text \<open>The texts of all elements with a name: the loop that collects repeated elements.\<close>

definition onCollect :: "qstring \<Rightarrow> qstring \<Rightarrow> qstring \<Rightarrow> xattr list \<Rightarrow> qstring list \<Rightarrow> qstring list + bool \<times> (qstring \<Rightarrow> qstring list)" where
  "onCollect nm ns ln attrs acc = (if ln = nm then Inr (False, \<lambda>t. acc @ [t]) else Inl acc)"

definition elementTexts :: "'d opsenv \<Rightarrow> string \<Rightarrow> 'd \<Rightarrow> qstring list" where
  "elementTexts e nm body = readLoop (onCollect (qlit nm)) (\<lambda>t s. s) (\<lambda>s. s) (x_read (o_xml e) body) []"

interpretation collect: token_handlers "onCollect nm" "\<lambda>t s. s" "\<lambda>s. s" "(=)"
  by unfold_locales (auto simp: onCollect_def rel_fun_def)

lemma elementTexts_cong:
  "tidy (x_read (o_xml e) d) = tidy ts \<Longrightarrow> elementTexts e nm d = readLoop (onCollect (qlit nm)) (\<lambda>t s. s) (\<lambda>s. s) ts []"
  unfolding elementTexts_def using collect.loop_tidy [of "qlit nm" ts "[]"] collect.loop_tidy [of "qlit nm" "x_read (o_xml e) d" "[]"] by simp

text \<open>On a record of simple fields the collected texts are those of the fields with the name, in order.\<close>

lemma collect_fields:
  "readLoop (onCollect k) (\<lambda>t s. s) (\<lambda>s. s) (concat (map flat (paramNodes uri kvs)) @ r) acc =
    readLoop (onCollect k) (\<lambda>t s. s) (\<lambda>s. s) r (acc @ map snd (filter (\<lambda>kv. fst kv = k) kvs))"
  by (induction kvs arbitrary: acc) (simp_all add: paramNodes_def textElem_def onCollect_def)

text \<open>A reply with the given fields, in the example environment.\<close>

definition exFields :: "(string \<times> qstring) list \<Rightarrow> xtok list" where
  "exFields fs = exReply (paramNodes [117] (map (\<lambda>(k, t). (qlit k, t)) fs))"

lemma exReply_tokens: "tidy (x_read tokenLib (bodyXml (parseResponse tokenLib (exReply ks)))) = tidy (flat (XElem [117] (qlit ''OUTPUT'') [] ks))"
proof -
  let ?b = "XElem [117] (qlit ''OUTPUT'') [] ks" and ?h = "XElem kNsSoap (qlit ''Header'') [] []"
  have n: "[117] \<noteq> kNsSoap" "[117] \<noteq> kNsAddressing"
    by (simp_all add: kNsSoap_def kNsAddressing_def qlit_def)
  show ?thesis
    using parse_response(4) [of tokenLib "exReply ks" kNsSoap "qlit ''Envelope''" "[]" "[?h, XElem kNsSoap (qlit ''Body'') [] [?b]]" ?h
      "XElem kNsSoap (qlit ''Body'') [] [?b]"] n
    by (auto simp: exReply_def envelopeNode_def tokenLib_def envPlain_def bodyPlain_def bodyContent_def isFaultNode_def)
qed

lemma exFields_read:
  "isFault (parseResponse tokenLib (exFields fs)) = False"
  "qlit nm \<noteq> qlit ''OUTPUT'' \<Longrightarrow> scalar exOps (bodyXml (parseResponse tokenLib (exFields fs))) nm =
    (case map_of (map (\<lambda>(k, t). (qlit k, t)) fs) (qlit nm) of None \<Rightarrow> [] | Some v \<Rightarrow> v)"
  "qlit nm \<noteq> qlit ''OUTPUT'' \<Longrightarrow> elementTexts exOps nm (bodyXml (parseResponse tokenLib (exFields fs))) =
    map snd (filter (\<lambda>kv. fst kv = qlit nm) (map (\<lambda>(k, t). (qlit k, t)) fs))"
proof -
  let ?kvs = "map (\<lambda>(k, t). (qlit k, t)) fs"
  show "isFault (parseResponse tokenLib (exFields fs)) = False"
    by (simp add: exFields_def)
  assume n: "qlit nm \<noteq> qlit ''OUTPUT''"
  show "scalar exOps (bodyXml (parseResponse tokenLib (exFields fs))) nm = (case map_of ?kvs (qlit nm) of None \<Rightarrow> [] | Some v \<Rightarrow> v)"
    using n findToken_params [of "qlit nm" "[117]" ?kvs] by (simp add: exFields_def scalar_def)
  show "elementTexts exOps nm (bodyXml (parseResponse tokenLib (exFields fs))) = map snd (filter (\<lambda>kv. fst kv = qlit nm) ?kvs)"
    using elementTexts_cong [of exOps _ "flat (XElem [117] (qlit ''OUTPUT'') [] (paramNodes [117] ?kvs))", unfolded exOps_xml, OF exReply_tokens, of nm]
      collect_fields [of "qlit nm" "[117]" ?kvs "[TEnd]" "[]"] n
    unfolding exFields_def by (simp add: onCollect_def)
qed

text \<open>The value of an attribute without a prefix; empty when there is none.\<close>

definition attrValue :: "string \<Rightarrow> xattr list \<Rightarrow> qstring" where
  "attrValue nm attrs = (case map_of (map snd (filter (\<lambda>a. fst a = []) attrs)) (qlit nm) of Some v \<Rightarrow> v | None \<Rightarrow> [])"

text \<open>
  \<open>extractEprSelector\<close>: inside the named element, the text of the first selector with a name. The reader knows the name of the
  element it leaves; \<open>ep_open\<close> are the names of the open elements.
\<close>

record epr_state =
  ep_open :: "qstring list"
  ep_in :: bool
  ep_found :: "qstring option"

definition onEprStart :: "'d opsenv \<Rightarrow> qstring \<Rightarrow> qstring \<Rightarrow> qstring \<Rightarrow> qstring \<Rightarrow> xattr list \<Rightarrow> epr_state \<Rightarrow> epr_state + bool \<times> (qstring \<Rightarrow> epr_state)" where
  "onEprStart e el key ns ln attrs s =
     (if ep_found s \<noteq> None then Inl s
      else if ln = el then Inl (s\<lparr>ep_open := ln # ep_open s, ep_in := True\<rparr>)
      else if ep_in s \<and> ln = qlit ''Selector''
      then Inr (False, \<lambda>t. if attrValue ''Name'' attrs = key then s\<lparr>ep_found := Some (o_trimmed e t)\<rparr> else s)
      else Inl (s\<lparr>ep_open := ln # ep_open s\<rparr>))"

definition onEprEnd :: "qstring \<Rightarrow> epr_state \<Rightarrow> epr_state" where
  "onEprEnd el s =
     (case ep_open s of
        [] \<Rightarrow> s
      | ln # os \<Rightarrow> s\<lparr>ep_open := os, ep_in := (ep_in s \<and> ln \<noteq> el)\<rparr>)"

definition extractEprSelector :: "'d opsenv \<Rightarrow> 'd \<Rightarrow> string \<Rightarrow> string \<Rightarrow> qstring" where
  "extractEprSelector e itemXml el key =
     (case ep_found (readLoop (onEprStart e (qlit el) (qlit key)) (\<lambda>t s. s) (onEprEnd (qlit el)) (x_read (o_xml e) itemXml)
        \<lparr>ep_open = [], ep_in = False, ep_found = None\<rparr>) of Some v \<Rightarrow> v | None \<Rightarrow> [])"

text \<open>\<open>extractCurrentPowerSchemeInstanceId\<close>.\<close>

record scheme_state =
  sch_open :: "qstring list"
  sch_in :: bool
  sch_uri :: bool
  sch_current :: bool
  sch_instance :: qstring

definition endsWith :: "qstring \<Rightarrow> qstring \<Rightarrow> bool" where
  "endsWith t suffix \<longleftrightarrow> length suffix \<le> length t \<and> drop (length t - length suffix) t = suffix"

definition onSchemeStart :: "'d opsenv \<Rightarrow> qstring \<Rightarrow> qstring \<Rightarrow> xattr list \<Rightarrow> scheme_state \<Rightarrow> scheme_state + bool \<times> (qstring \<Rightarrow> scheme_state)" where
  "onSchemeStart e ns ln attrs s =
     (if ln = qlit ''IsCurrent''
      then Inr (False, \<lambda>t. s\<lparr>sch_current := (o_trimmed e t = qlit ''1'' \<or> o_trimmed e t = qlit ''true'')\<rparr>)
      else if ln = qlit ''SettingData'' then Inl (s\<lparr>sch_open := ln # sch_open s, sch_in := True\<rparr>)
      else if sch_in s \<and> ln = qlit ''ResourceURI''
      then Inr (False, \<lambda>t. s\<lparr>sch_uri := (sch_uri s \<or> endsWith (o_trimmed e t) (qlit ''AMT_SystemPowerScheme''))\<rparr>)
      else if sch_in s \<and> ln = qlit ''Selector''
      then Inr (False, \<lambda>t. if attrValue ''Name'' attrs = qlit ''InstanceID'' then s\<lparr>sch_instance := o_trimmed e t\<rparr> else s)
      else Inl (s\<lparr>sch_open := ln # sch_open s\<rparr>))"

definition onSchemeEnd :: "scheme_state \<Rightarrow> scheme_state" where
  "onSchemeEnd s =
     (case sch_open s of
        [] \<Rightarrow> s
      | ln # os \<Rightarrow> s\<lparr>sch_open := os, sch_in := (sch_in s \<and> ln \<noteq> qlit ''SettingData'')\<rparr>)"

definition extractCurrentPowerSchemeInstanceId :: "'d opsenv \<Rightarrow> 'd \<Rightarrow> qstring" where
  "extractCurrentPowerSchemeInstanceId e itemXml =
     (let s = readLoop (onSchemeStart e) (\<lambda>t s. s) onSchemeEnd (x_read (o_xml e) itemXml)
        \<lparr>sch_open = [], sch_in = False, sch_uri = False, sch_current = False, sch_instance = []\<rparr>
      in if sch_current s \<and> sch_uri s then sch_instance s else [])"

text \<open>\<open>parseWakeAlarm\<close>.\<close>

datatype region = Top | InStartTime | InInterval

record WakeAlarm =
  wk_instanceId :: qstring
  wk_elementName :: qstring
  wk_startTimeIso :: qstring
  wk_intervalIso :: qstring
  wk_deleteOnCompletion :: bool

type_synonym alarm_state = "qstring list \<times> region \<times> WakeAlarm"

definition onAlarmStart :: "'d opsenv \<Rightarrow> qstring \<Rightarrow> qstring \<Rightarrow> xattr list \<Rightarrow> alarm_state \<Rightarrow> alarm_state + bool \<times> (qstring \<Rightarrow> alarm_state)" where
  "onAlarmStart e ns ln attrs st =
     (case st of (os, reg, w) \<Rightarrow>
        (case reg of
           Top \<Rightarrow>
             if ln = qlit ''InstanceID'' then Inr (False, \<lambda>t. (os, Top, w\<lparr>wk_instanceId := o_trimmed e t\<rparr>))
             else if ln = qlit ''ElementName'' then Inr (False, \<lambda>t. (os, Top, w\<lparr>wk_elementName := o_trimmed e t\<rparr>))
             else if ln = qlit ''DeleteOnCompletion''
             then Inr (False, \<lambda>t. (os, Top, w\<lparr>wk_deleteOnCompletion := (o_trimmed e t = qlit ''true'' \<or> o_trimmed e t = qlit ''1'')\<rparr>))
             else if ln = qlit ''StartTime'' then Inl (ln # os, InStartTime, w)
             else if ln = qlit ''Interval'' then Inl (ln # os, InInterval, w)
             else Inl (ln # os, Top, w)
         | InStartTime \<Rightarrow>
             if ln = qlit ''Datetime'' then Inr (False, \<lambda>t. (os, reg, w\<lparr>wk_startTimeIso := o_trimmed e t\<rparr>)) else Inl (ln # os, reg, w)
         | InInterval \<Rightarrow>
             if ln = qlit ''Interval'' then Inr (False, \<lambda>t. (os, reg, w\<lparr>wk_intervalIso := o_trimmed e t\<rparr>)) else Inl (ln # os, reg, w)))"

definition onAlarmEnd :: "alarm_state \<Rightarrow> alarm_state" where
  "onAlarmEnd st =
     (case st of
        ([], reg, w) \<Rightarrow> st
      | (ln # os, reg, w) \<Rightarrow>
          (os, (if ln = qlit ''StartTime'' \<and> reg = InStartTime \<or> ln = qlit ''Interval'' \<and> reg = InInterval then Top else reg), w))"

definition noAlarm :: WakeAlarm where
  "noAlarm = \<lparr>wk_instanceId = [], wk_elementName = [], wk_startTimeIso = [], wk_intervalIso = [], wk_deleteOnCompletion = False\<rparr>"

definition parseWakeAlarm :: "'d opsenv \<Rightarrow> 'd \<Rightarrow> WakeAlarm" where
  "parseWakeAlarm e itemXml =
     snd (snd (readLoop (onAlarmStart e) (\<lambda>t s. s) onAlarmEnd (x_read (o_xml e) itemXml) ([], Top, noAlarm)))"

section \<open>Operations that enumerate one class\<close>

record BootSourceSetting =
  bss_instanceId :: qstring
  bss_elementName :: qstring
  bss_bootString :: qstring
  bss_biosBootString :: qstring
  bss_structuredBootString :: qstring

record BootSourceSettingsResult =
  bsr_ok :: bool
  bsr_error :: qstring
  bsr_sources :: "BootSourceSetting list"

definition bootSourceOf :: "'d opsenv \<Rightarrow> 'd \<Rightarrow> BootSourceSetting" where
  "bootSourceOf e item =
     \<lparr>bss_instanceId = scalar e item ''InstanceID'', bss_elementName = scalar e item ''ElementName'', bss_bootString = scalar e item ''BootString'',
      bss_biosBootString = scalar e item ''BIOSBootString'', bss_structuredBootString = scalar e item ''StructuredBootString''\<rparr>"

definition enumerateBootSourceSettings :: "'d opsenv \<Rightarrow> wsclient \<Rightarrow> ('d, BootSourceSettingsResult) op" where
  "enumerateBootSourceSettings e c =
     (if c = None then Finished \<lparr>bsr_ok = False, bsr_error = qlit ''client is null'', bsr_sources = []\<rparr>
      else andThen (enumerateAll e c kCimBootSourceSettingResource) (\<lambda>(is, err). Finished (
        if err \<noteq> [] then \<lparr>bsr_ok = False, bsr_error = err, bsr_sources = []\<rparr>
        else \<lparr>bsr_ok = True, bsr_error = [], bsr_sources = filter (\<lambda>s. bss_instanceId s \<noteq> []) (map (bootSourceOf e) is)\<rparr>)))"

record WakeAlarmsResult =
  war_ok :: bool
  war_error :: qstring
  war_alarms :: "WakeAlarm list"

definition getWakeAlarms :: "'d opsenv \<Rightarrow> wsclient \<Rightarrow> ('d, WakeAlarmsResult) op" where
  "getWakeAlarms e c =
     andThen (enumerateAll e c kAlarmClockOccurrenceResource) (\<lambda>(is, err). Finished
       \<lparr>war_ok = (err = []), war_error = err,
        war_alarms = filter (\<lambda>w. wk_instanceId w \<noteq> [] \<or> wk_startTimeIso w \<noteq> []) (map (parseWakeAlarm e) is)\<rparr>)"

subsection \<open>\<open>getMeVersion\<close>\<close>

record MeVersionResult =
  mv_ok :: bool
  mv_error :: qstring
  mv_versionString :: qstring
  mv_recoveryVersion :: qstring
  mv_buildNumber :: qstring
  mv_sku :: qstring
  mv_vendorId :: qstring
  mv_flash :: qstring
  mv_identities :: "(qstring \<times> qstring) list"

fun qContains :: "qstring \<Rightarrow> qstring \<Rightarrow> bool" where
  "qContains p [] = (p = [])"
| "qContains p (c # t) = (take (length p) (c # t) = p \<or> qContains p t)"

text \<open>The state is the result and \<open>foundAmt\<close>.\<close>

definition onIdentity :: "'d opsenv \<Rightarrow> 'd \<Rightarrow> MeVersionResult \<times> bool \<Rightarrow> MeVersionResult \<times> bool" where
  "onIdentity e item st =
     (let iid = scalar e item ''InstanceID''; ver = scalar e item ''VersionString''; lower = o_toLower e iid;
          r = (fst st)\<lparr>mv_identities := mv_identities (fst st) @ [(iid, ver)]\<rparr>
      in if iid = [] then st
         else if iid = qlit ''AMT'' then (r\<lparr>mv_versionString := ver\<rparr>, True)
         else (if qContains (qlit ''recovery'') lower then r\<lparr>mv_recoveryVersion := ver\<rparr>
               else if qContains (qlit ''build'') lower then r\<lparr>mv_buildNumber := ver\<rparr>
               else if lower = qlit ''sku'' then r\<lparr>mv_sku := ver\<rparr>
               else if qContains (qlit ''vendor'') lower then r\<lparr>mv_vendorId := ver\<rparr>
               else if lower = qlit ''flash'' then r\<lparr>mv_flash := ver\<rparr>
               else r, snd st))"

definition noVersion :: MeVersionResult where
  "noVersion = \<lparr>mv_ok = False, mv_error = [], mv_versionString = [], mv_recoveryVersion = [], mv_buildNumber = [], mv_sku = [],
     mv_vendorId = [], mv_flash = [], mv_identities = []\<rparr>"

definition versionDone :: "MeVersionResult \<times> bool \<Rightarrow> qstring \<Rightarrow> MeVersionResult" where
  "versionDone st err =
     (fst st)\<lparr>mv_ok := (err = [] \<and> snd st),
       mv_error := (if err = [] \<and> \<not> snd st then qlit ''CIM_SoftwareIdentity enumeration had no InstanceID='AMT'' @ [39] else err)\<rparr>"

definition versionPull :: "'d opsenv \<Rightarrow> qstring \<Rightarrow> (MeVersionResult \<times> bool) \<times> qstring \<Rightarrow>
    (qstring \<Rightarrow> 'd) \<times> ('d answer \<Rightarrow> ((MeVersionResult \<times> bool) \<times> qstring) + MeVersionResult)" where
  "versionPull e to st =
     (buildPullEnvelope (o_xml e) kSoftwareIdentityResource (snd st) 64 to,
      \<lambda>a. opReply e a (\<lambda>err. Inr (versionDone (fst st) err))
        (\<lambda>body. let chunk = parsePullResponse (o_xml e) body; acc = fold (onIdentity e) (items chunk) (fst st)
           in if endOfSequence chunk \<or> enumerationContext chunk = [] then Inr (versionDone acc []) else Inl (acc, enumerationContext chunk)))"

definition getMeVersion :: "'d opsenv \<Rightarrow> wsclient \<Rightarrow> ('d, MeVersionResult) op" where
  "getMeVersion e c =
     (case c of
        None \<Rightarrow> Finished (versionDone (noVersion, False) (qlit ''client is null''))
      | Some to \<Rightarrow> Send (buildEnumerateEnvelope (o_xml e) kSoftwareIdentityResource to)
          (\<lambda>a. opReply e a (\<lambda>err. Finished (versionDone (noVersion, False) err))
             (\<lambda>body. let ctx = parseEnumerateContext (o_xml e) body
                in if ctx = [] then Finished (versionDone (noVersion, False) [])
                   else loopOp (versionPull e to) (Inl ((noVersion, False), ctx)))))"

lemma enumPull_parts:
  "fst (enumPull e to uri st) = buildPullEnvelope (o_xml e) uri (snd st) 64 to"
  "snd (enumPull e to uri st) (ReplyError err) = Inr ([], err)"
  "snd (enumPull e to uri st) (ReplyBody d) =
    (let soap = parseResponse (o_xml e) d; chunk = parsePullResponse (o_xml e) (bodyXml soap); acc = fst st @ items chunk
     in if isFault soap then Inr ([], fault soap)
        else if endOfSequence chunk \<or> enumerationContext chunk = [] then Inr (acc, []) else Inl (acc, enumerationContext chunk))"
  by (simp_all add: enumPull_def opReply_def Let_def)

lemma versionPull_parts:
  "fst (versionPull e to st) = buildPullEnvelope (o_xml e) kSoftwareIdentityResource (snd st) 64 to"
  "snd (versionPull e to st) (ReplyBody d) =
    (let soap = parseResponse (o_xml e) d; chunk = parsePullResponse (o_xml e) (bodyXml soap); acc = fold (onIdentity e) (items chunk) (fst st)
     in if isFault soap then Inr (versionDone (fst st) (fault soap))
        else if endOfSequence chunk \<or> enumerationContext chunk = [] then Inr (versionDone acc []) else Inl (acc, enumerationContext chunk))"
  by (simp_all add: versionPull_def opReply_def Let_def)

lemma version_loop:
  assumes "\<And>s q. fst (dev s q) \<noteq> ReplyError []"
  shows "runOp n ids dev s (loopOp (enumPull e to kSoftwareIdentityResource) (Inl (acc, ctx))) = Some ((is, []), s') \<Longrightarrow>
    runOp n ids dev s (loopOp (versionPull e to) (Inl (fold (onIdentity e) acc z, ctx))) = Some (versionDone (fold (onIdentity e) is z) [], s')"
proof (induction n arbitrary: s acc ctx)
  case (Suc n)
  let ?q = "buildPullEnvelope (o_xml e) kSoftwareIdentityResource ctx 64 to (newMessageId (ids n))"
  obtain a t where a: "dev s ?q = (a, t)" by (meson surj_pair)
  have ne: "a \<noteq> ReplyError []" using assms [of s ?q] a by simp
  show ?case
  proof (cases a)
    case (ReplyError err)
    then show ?thesis using Suc.prems a ne by (simp add: enumPull_parts)
  next
    case (ReplyBody d)
    then show ?thesis
      using Suc.prems a Suc.IH [of t "acc @ items (parsePullResponse (o_xml e) (bodyXml (parseResponse (o_xml e) d)))"]
      by (auto simp: enumPull_parts versionPull_parts isFault_def Let_def split: if_splits)
  qed
qed simp

text \<open>
  The hand-written loop of \<open>getMeVersion\<close> reads what \<open>enumerateAll\<close> would. Whenever an enumeration of the software identities succeeds,
  the version is the fold over all of its items, in order.
\<close>

theorem me_version_of_enumeration:
  assumes "\<And>s q. fst (dev s q) \<noteq> ReplyError []"
    and "runOp n ids dev s (enumerateAll e (Some to) kSoftwareIdentityResource) = Some ((is, []), s')"
  shows "runOp n ids dev s (getMeVersion e (Some to)) = Some (versionDone (fold (onIdentity e) is (noVersion, False)) [], s')"
proof (cases n)
  case (Suc m)
  let ?q = "buildEnumerateEnvelope (o_xml e) kSoftwareIdentityResource to (newMessageId (ids m))"
  obtain a t where a: "dev s ?q = (a, t)" by (meson surj_pair)
  have "a \<noteq> ReplyError []" using assms(1) [of s ?q] a by simp
  then show ?thesis
    using assms(2) a Suc version_loop [OF assms(1), where acc = "[]" and z = "(noVersion, False)", simplified]
    by (cases a) (auto simp: enumerateAll_def getMeVersion_def opReply_def isFault_def Let_def split: if_splits)
qed (use assms(2) in \<open>simp add: enumerateAll_def\<close>)

theorem me_version_of_enumeration_witness:
  "runOp 1 (\<lambda>i. []) (\<lambda>s q. (ReplyBody (exReply []), s)) () (getMeVersion exOps (Some [])) = Some (versionDone (noVersion, False) [], ())"
proof -
  have "runOp 1 (\<lambda>i. []) (\<lambda>s q. (ReplyBody (exReply []), s)) () (enumerateAll exOps (Some []) kSoftwareIdentityResource) = Some (([], []), ())"
    unfolding One_nat_def by (simp add: enumerateAll_def opReply_def Let_def parseEnumerateContext_def qlit_def)
  then show ?thesis
    using me_version_of_enumeration [of "\<lambda>s q. (ReplyBody (exReply []), s)" 1 "\<lambda>i. []" "()" exOps "[]" "[]" "()"] by simp
qed

end
