(* ===== verification/Ops_Log.thy ===== *)
theory Ops_Log
  imports Ops_Enum
begin

text \<open>
  The two logs of a machine in \<open>operations.cpp\<close>: the event log (\<open>enumerateEventLog\<close>, with the decoder of its fixed-size records) and
  the audit log (\<open>enumerateAuditLog\<close>, with \<open>parseAuditRecord\<close>).
\<close>

section \<open>The tables\<close>

definition kSystemEntityTypes :: "string list" where
  "kSystemEntityTypes = [
     ''Unspecified'', ''Other'', ''Unknown'', ''Processor'', ''Disk'', ''Peripheral'', ''System management module'', ''System board'',
     ''Memory module'', ''Processor module'', ''Power supply'', ''Add in card'', ''Front panel board'', ''Back panel board'', ''Power system board'',
     ''Drive backplane'', ''System internal expansion board'', ''Other system board'', ''Processor board'', ''Power unit'', ''Power module'',
     ''Power management board'', ''Chassis back panel board'', ''System chassis'', ''Sub chassis'', ''Other chassis board'', ''Disk drive bay'',
     ''Peripheral bay'', ''Device bay'', ''Fan cooling'', ''Cooling unit'', ''Cable interconnect'', ''Memory device'',
     ''System management software'', ''BIOS'', ''Intel(r) ME'', ''System bus'', ''Group'', ''Intel(r) ME'', ''External environment'', ''Battery'',
     ''Processing blade'', ''Connectivity switch'', ''Processor/memory module'', ''I/O module'', ''Processor I/O module'',
     ''Management controller firmware'', ''IPMI channel'', ''PCI bus'', ''PCI express bus'', ''SCSI bus'', ''SATA/SAS bus'',
     ''Processor front side bus'']"

definition kSystemFirmwareError :: "string list" where
  "kSystemFirmwareError = [
     ''Unspecified.'', ''No system memory is physically installed in the system.'',
     ''No usable system memory, all installed memory has experienced an unrecoverable failure.'',
     ''Unrecoverable hard-disk/ATAPI/IDE device failure.'', ''Unrecoverable system-board failure.'', ''Unrecoverable diskette subsystem failure.'',
     ''Unrecoverable hard-disk controller failure.'', ''Unrecoverable PS/2 or USB keyboard failure.'', ''Removable boot media not found.'',
     ''Unrecoverable video controller failure.'', ''No video device detected.'', ''Firmware (BIOS) ROM corruption detected.'',
     ''CPU voltage mismatch (processors that share same supply have mismatched voltage requirements)'', ''CPU speed matching failure'']"

definition kSystemFirmwareProgress :: "string list" where
  "kSystemFirmwareProgress = [
     ''Unspecified.'', ''Memory initialization.'', ''Starting hard-disk initialization and test'', ''Secondary processor(s) initialization'',
     ''User authentication'', ''Entering BIOS setup'', ''USB resource configuration'', ''PCI resource configuration'', ''Option ROM initialization'',
     ''Video initialization'', ''Cache initialization'', ''SM Bus initialization'', ''Keyboard controller initialization'',
     ''Embedded controller/management controller initialization'', ''Docking station attachment'', ''Enabling docking station'',
     ''Docking station ejection'', ''Disabling docking station'', ''Calling operating system wake-up vector'',
     ''Starting operating system boot process'', ''Baseboard or motherboard initialization'', ''reserved'', ''Floppy initialization'',
     ''Keyboard test'', ''Pointing device test'', ''Primary processor initialization'']"

definition kOcrProgressEvents :: "string list" where
  "kOcrProgressEvents = [
     ''Boot parameters received from CSME'', ''CSME Boot Option % added successfully'', ''HTTPS URI name resolved'',
     ''HTTPS connected successfully'', ''HTTPSBoot download is completed'', ''Attempt to boot'', ''Exit boot services'']"

definition kOcrErrorEvents :: "string list" where
  "kOcrErrorEvents = [
     '''', ''No network connection available'', ''Name resolution of URI failed'', ''Connect to URI failed'', ''OEM app not found at local URI'',
     ''HTTPS TLS Auth failed'', ''HTTPS Digest Auth failed'', ''Verified boot failed (bad image)'', ''HTTPS Boot File not found'']"

definition auditStrings :: "(nat \<times> string) list" where
  "auditStrings = [
     (16, ''Security Admin''), (17, ''RCO''), (18, ''Redirection Manager''), (19, ''Firmware Update Manager''), (20, ''Security Audit Log''),
     (21, ''Network Time''), (22, ''Network Administration''), (23, ''Storage Administration''), (24, ''Event Manager''),
     (25, ''Circuit Breaker Manager''), (26, ''Agent Presence Manager''), (27, ''Wireless Configuration''), (28, ''EAC''), (29, ''KVM''),
     (30, ''User Opt-In Events''), (32, ''Screen Blanking''), (33, ''Watchdog Events''), (1600, ''Provisioning Started''),
     (1601, ''Provisioning Completed''), (1602, ''ACL Entry Added''), (1603, ''ACL Entry Modified''), (1604, ''ACL Entry Removed''),
     (1605, ''ACL Access with Invalid Credentials''), (1606, ''ACL Entry State''), (1607, ''TLS State Changed''),
     (1608, ''TLS Server Certificate Set''), (1609, ''TLS Server Certificate Removed''), (1610, ''TLS Trusted Root Certificate Added''),
     (1611, ''TLS Trusted Root Certificate Removed''), (1612, ''TLS Preshared Key Set''), (1613, ''Kerberos Settings Modified''),
     (1614, ''Kerberos Main Key Modified''), (1615, ''Flash Wear-out Counters Reset''), (1616, ''Power Package Modified''),
     (1617, ''Set Realm Authentication Mode''), (1618, ''Upgrade Client to Admin Control Mode''), (1619, ''Unprovisioning Started''),
     (1700, ''Performed Power Up''), (1701, ''Performed Power Down''), (1702, ''Performed Power Cycle''), (1703, ''Performed Reset''),
     (1704, ''Set Boot Options''), (1705, ''Remote graceful power down initiated''), (1706, ''Remote graceful reset initiated''),
     (1707, ''Remote Standby initiated''), (1708, ''Remote Hibernate initiated''), (1709, ''Remote NMI initiated''), (1800, ''IDER Session Opened''),
     (1801, ''IDER Session Closed''), (1802, ''IDER Enabled''), (1803, ''IDER Disabled''), (1804, ''SoL Session Opened''),
     (1805, ''SoL Session Closed''), (1806, ''SoL Enabled''), (1807, ''SoL Disabled''), (1808, ''KVM Session Started''),
     (1809, ''KVM Session Ended''), (1810, ''KVM Enabled''), (1811, ''KVM Disabled''), (1812, ''VNC Password Failed 3 Times''),
     (1900, ''Firmware Updated''), (1901, ''Firmware Update Failed''), (2000, ''Security Audit Log Cleared''),
     (2001, ''Security Audit Policy Modified''), (2002, ''Security Audit Log Disabled''), (2003, ''Security Audit Log Enabled''),
     (2004, ''Security Audit Log Exported''), (2005, ''Security Audit Log Recovered''), 
     (2200, ''TCPIP Parameters Set''), (2201, ''Host Name Set''), (2202, ''Domain Name Set''), (2203, ''VLAN Parameters Set''),
     (2204, ''Link Policy Set''), (2205, ''IPv6 Parameters Set''), (2300, ''Global Storage Attributes Set''), (2301, ''Storage EACL Modified''),
     (2302, ''Storage FPACL Modified''), (2303, ''Storage Write Operation''), (2400, ''Alert Subscribed''), (2401, ''Alert Unsubscribed''),
     (2402, ''Event Log Cleared''), (2403, ''Event Log Frozen''), (2500, ''CB Filter Added''), (2501, ''CB Filter Removed''),
     (2502, ''CB Policy Added''), (2503, ''CB Policy Removed''), (2504, ''CB Default Policy Set''), (2505, ''CB Heuristics Option Set''),
     (2506, ''CB Heuristics State Cleared''), (2600, ''Agent Watchdog Added''), (2601, ''Agent Watchdog Removed''),
     (2602, ''Agent Watchdog Action Set''), (2700, ''Wireless Profile Added''), (2701, ''Wireless Profile Removed''),
     (2702, ''Wireless Profile Updated''), (2800, ''EAC Posture Signer Set''), (2801, ''EAC Enabled''), (2802, ''EAC Disabled''),
     (2803, ''EAC Posture State''), (2804, ''EAC Set Options''), (2900, ''KVM Opt-in Enabled''), (2901, ''KVM Opt-in Disabled''),
     (2902, ''KVM Password Changed''), (2903, ''KVM Consent Succeeded''), (2904, ''KVM Consent Failed''), (3000, ''Opt-In Policy Change''),
     (3001, ''Send Consent Code Event''), (3002, ''Start Opt-In Blocked Event''), (3301, ''User has modified the Watchdog Action settings'')]"

definition tableText :: "string list \<Rightarrow> nat \<Rightarrow> qstring" where
  "tableText t i = qlit (t ! i)"

text \<open>One label has a letter that is not ASCII.\<close>

definition auditLookup :: "nat \<Rightarrow> qstring" where
  "auditLookup key =
     (if key = 2100 then qlit ''Intel'' @ [0xAE] @ qlit '' ME Time Set''
      else case map_of auditStrings key of Some t \<Rightarrow> qlit t | None \<Rightarrow> [])"

section \<open>Event records\<close>

definition eventWatchdogStateName :: "nat \<Rightarrow> qstring" where
  "eventWatchdogStateName code =
     (if code = 1 then qlit ''Not Started'' else if code = 2 then qlit ''Stopped'' else if code = 4 then qlit ''Running''
      else if code = 8 then qlit ''Expired'' else if code = 16 then qlit ''Suspended'' else numberText code)"

definition ocrSourceName :: "nat \<Rightarrow> qstring" where
  "ocrSourceName code =
     (if code = 2 then qlit ''HTTPS'' else if code = 4 then qlit ''Local PBA'' else if code = 8 then qlit ''WinRE'' else numberText code)"

definition formatHex2 :: "nat \<Rightarrow> qstring" where
  "formatHex2 v = fromLatin1 (toHex [of_nat v])"

text \<open>\<open>formatEventMessage\<close>, one definition per group of sensors. The data bytes are a list of eight numbers.\<close>

definition firmwareErrorMessage :: "'d opsenv \<Rightarrow> nat list \<Rightarrow> qstring" where
  "firmwareErrorMessage e d =
     (if d ! 0 = 170 \<and> d ! 1 = 48 \<and> d ! 2 < length kOcrErrorEvents
      then o_arg e (qlit ''AMT One Click Recovery: %1'') (tableText kOcrErrorEvents (d ! 2))
      else if d ! 0 = 170 \<and> d ! 1 = 64 \<and> d ! 2 = 1 then qlit ''Got an error erasing Device SSD''
      else if d ! 0 = 170 \<and> d ! 1 = 64 \<and> d ! 2 = 2 then qlit ''Erasing Device TPM is not supported''
      else if d ! 0 = 170 \<and> d ! 1 = 64 \<and> d ! 2 = 3 then qlit ''Reached Max Counter''
      else qlit ''OEM Specific Firmware Error event'')"

definition eraseProgressMessage :: "nat \<Rightarrow> nat \<Rightarrow> qstring" where
  "eraseProgressMessage a b =
     (if a = 1 \<and> b = 2 then qlit ''Started erasing Device SSD''
      else if a = 1 \<and> b = 3 then qlit ''Started erasing Device TPM''
      else if a = 1 \<and> b = 5 then qlit ''Started erasing Device BIOS Reload of Golden Config''
      else if a = 2 \<and> b = 2 then qlit ''Erasing Device SSD ended successfully''
      else if a = 2 \<and> b = 3 then qlit ''Erasing Device TPM ended successfully''
      else if a = 2 \<and> b = 5 then qlit ''Erasing Device BIOS Reload of Golden Config ended successfully''
      else if a = 3 then qlit ''Beginning Platform Erase''
      else if a = 4 then qlit ''Clear Reserved Parameters''
      else if a = 5 then qlit ''All setting decremented''
      else qlit ''OEM Specific Firmware Progress event'')"

definition oemProgressMessage :: "'d opsenv \<Rightarrow> nat list \<Rightarrow> qstring" where
  "oemProgressMessage e d =
     (if d ! 0 = 170 \<and> d ! 1 = 48
      then if d ! 2 = 1
           then o_arg e (o_arg e (qlit ''AMT One Click Recovery: CSME Boot Option %1:%2 added successfully'') (numberText (d ! 3))) (ocrSourceName (d ! 3))
           else if d ! 2 < 7 then o_arg e (qlit ''AMT One Click Recovery: %1'') (tableText kOcrProgressEvents (d ! 2))
           else o_arg e (qlit ''AMT One Click Recovery: Unknown progress event %1'') (numberText (d ! 2))
      else if d ! 0 = 170 \<and> d ! 1 = 64 then eraseProgressMessage (d ! 2) (d ! 3)
      else qlit ''OEM Specific Firmware Progress event'')"

definition firmwareMessage :: "'d opsenv \<Rightarrow> nat \<Rightarrow> nat list \<Rightarrow> qstring" where
  "firmwareMessage e offset d =
     (if d ! 0 = 235 then qlit ''Invalid Data''
      else if offset = 0
      then if d ! 1 < length kSystemFirmwareError then tableText kSystemFirmwareError (d ! 1)
           else o_arg e (qlit ''Unknown firmware error %1'') (numberText (d ! 1))
      else if offset = 3 then firmwareErrorMessage e d
      else if offset = 5 then oemProgressMessage e d
      else if d ! 1 < length kSystemFirmwareProgress then tableText kSystemFirmwareProgress (d ! 1)
      else o_arg e (qlit ''Unknown firmware progress %1'') (numberText (d ! 1)))"

definition sessionMessage :: "nat \<Rightarrow> qstring option" where
  "sessionMessage k =
     (if k = 0 then Some (qlit ''A remote Serial Over LAN session was established.'')
      else if k = 1 then Some (qlit ''Remote Serial Over LAN session finished. User control was restored.'')
      else if k = 2 then Some (qlit ''A remote IDE-Redirection session was established.'')
      else if k = 3 then Some (qlit ''Remote IDE-Redirection session finished. User control was restored.'')
      else None)"

definition filterMessage :: "'d opsenv \<Rightarrow> nat list \<Rightarrow> qstring" where
  "filterMessage e d =
     (let handle = push_bit 24 (of_nat (d ! 1)) OR push_bit 16 (of_nat (d ! 2)) OR push_bit 8 (of_nat (d ! 3)) OR (of_nat (d ! 4) :: u32);
          nic = (if d ! 0 = 0xAA then qlit ''wired'' else o_arg e (qlit ''#%1'') (numberText (d ! 0)))
      in if handle = 0xFFFFFFFD then o_arg e (qlit ''All received packet filter was matched on %1 interface.'') nic
         else if handle = 0xFFFFFFFC then o_arg e (qlit ''All outbound packet filter was matched on %1 interface.'') nic
         else if handle = 0xFFFFFFFA then o_arg e (qlit ''Spoofed packet filter was matched on %1 interface.'') nic
         else o_arg e (o_arg e (qlit ''Filter %1 was matched on %2 interface.'') (numberText (unat handle))) nic)"

definition formatEventMessage :: "'d opsenv \<Rightarrow> nat \<Rightarrow> nat \<Rightarrow> nat list \<Rightarrow> qstring" where
  "formatEventMessage e sensorType offset d =
     (if sensorType = 15 then firmwareMessage e offset d
      else if sensorType = 18 \<and> d ! 0 = 170
      then o_args e (qlit ''Agent watchdog %1%2%3%4-%5%6-... changed to %7'')
             [formatHex2 (d ! 4), formatHex2 (d ! 3), formatHex2 (d ! 2), formatHex2 (d ! 1), formatHex2 (d ! 6), formatHex2 (d ! 5),
              eventWatchdogStateName (d ! 7)]
      else if sensorType = 5 \<and> offset = 0 then qlit ''Case intrusion''
      else if sensorType = 192 \<and> offset = 0 \<and> d ! 0 = 170 \<and> d ! 1 = 48 \<and> sessionMessage (d ! 2) \<noteq> None then the (sessionMessage (d ! 2))
      else if sensorType = 36 then filterMessage e d
      else if sensorType = 192
      then if d ! 2 = 0 then qlit ''Security policy invoked. Some or all network traffic (TX) was stopped.''
           else if d ! 2 = 2 then qlit ''Security policy invoked. Some or all network traffic (RX) was stopped.''
           else qlit ''Security policy invoked.''
      else if sensorType = 193 \<and> d ! 0 = 0xAA \<and> d ! 1 = 0x30 \<and> d ! 2 = 0 \<and> d ! 3 = 0 then qlit ''User request for remote connection.''
      else if sensorType = 193 \<and> d ! 0 = 0xAA \<and> d ! 1 = 0x20 \<and> d ! 2 = 3 \<and> d ! 3 = 1
      then qlit ''EAC error: attempt to get posture while NAC in Intel AMT is disabled.''
      else if sensorType = 193 \<and> d ! 0 = 0xAA \<and> d ! 1 = 0x20 \<and> d ! 2 = 4 \<and> d ! 3 = 0 then qlit ''HWA Error: general error''
      else if sensorType = 6
      then o_arg e (qlit ''Authentication failed %1 times. The system may be under attack.'') (numberText (d ! 1 OR push_bit 8 (d ! 2)))
      else if sensorType = 30 then qlit ''No bootable media''
      else if sensorType = 32 then qlit ''Operating system lockup or power interrupt''
      else if sensorType = 35
      then if d ! 0 = 64 then qlit ''BIOS POST (Power On Self-Test) Watchdog Timeout.'' else qlit ''System boot failure''
      else if sensorType = 37 then qlit ''System firmware started (at least one CPU is properly executing).''
      else o_arg e (qlit ''Unknown Sensor Type #%1'') (numberText sensorType))"

definition entityLabel :: "nat \<Rightarrow> qstring" where
  "entityLabel entity = (if entity < length kSystemEntityTypes then tableText kSystemEntityTypes entity else [])"

record EventLogEntry =
  ev_recordId :: qstring
  ev_timestamp :: qstring
  ev_severity :: qstring
  ev_message :: qstring
  ev_entityLabel :: qstring

definition noEvent :: EventLogEntry where
  "noEvent = \<lparr>ev_recordId = [], ev_timestamp = [], ev_severity = [], ev_message = [], ev_entityLabel = []\<rparr>"

definition eventTime :: "bytes \<Rightarrow> u32" where
  "eventTime b = ucast (b ! 0) OR push_bit 8 (ucast (b ! 1)) OR push_bit 16 (ucast (b ! 2)) OR push_bit 24 (ucast (b ! 3))"

definition decodeEventRecord :: "'d opsenv \<Rightarrow> bytes \<Rightarrow> EventLogEntry" where
  "decodeEventRecord e raw =
     (if length raw < 21 then noEvent
      else let ts = eventTime raw
           in if ts = 0 \<or> ts = 0xFFFFFFFF then noEvent
              else \<lparr>ev_recordId = [], ev_timestamp = o_utcText e ts, ev_severity = numberText (unat (raw ! 9)),
                ev_message = formatEventMessage e (unat (raw ! 5)) (unat (raw ! 7)) (map unat (take 8 (drop 13 raw))),
                ev_entityLabel = entityLabel (unat (raw ! 11))\<rparr>)"

section \<open>Reading the event log\<close>

record EventLogResult =
  evr_ok :: bool
  evr_error :: qstring
  evr_entries :: "EventLogEntry list"

definition kMaxRecords :: nat where "kMaxRecords = 8000"
definition kBatchSize :: nat where "kBatchSize = 390"

definition eventsDone :: "EventLogEntry list \<Rightarrow> qstring \<Rightarrow> EventLogResult" where
  "eventsDone acc err = \<lparr>evr_ok = (err = []), evr_error = err, evr_entries = acc\<rparr>"

definition collectRecordArray :: "'d opsenv \<Rightarrow> 'd \<Rightarrow> qstring list" where
  "collectRecordArray e body = elementTexts e ''RecordArray'' body"

text \<open>The loop over the records of a reply; \<open>True\<close> when the cap was reached.\<close>

fun takeRecords :: "'d opsenv \<Rightarrow> EventLogEntry list \<Rightarrow> qstring list \<Rightarrow> EventLogEntry list \<times> bool" where
  "takeRecords e acc [] = (acc, False)"
| "takeRecords e acc (b64 # r) =
     (let ev = decodeEventRecord e (o_fromBase64 e (o_toLatin1 e b64))
      in if ev_timestamp ev = [] then takeRecords e acc r
         else let acc' = acc @ [ev\<lparr>ev_recordId := numberText (length acc + 1)\<rparr>]
              in if length acc' \<ge> kMaxRecords then (acc', True) else takeRecords e acc' r)"

definition getRecordsStep :: "'d opsenv \<Rightarrow> qstring \<Rightarrow> EventLogEntry list \<times> qstring \<Rightarrow>
    (qstring \<Rightarrow> 'd) \<times> ('d answer \<Rightarrow> (EventLogEntry list \<times> qstring) + EventLogResult)" where
  "getRecordsStep e to st =
     (buildInvokeEnvelopeOrdered (o_xml e) kMessageLogResource (qlit ''GetRecords'') []
        [(qlit ''IterationIdentifier'', snd st), (qlit ''MaxReadRecords'', numberText kBatchSize)] to,
      \<lambda>a. opReply e a (\<lambda>err. Inr (eventsDone (fst st) err))
        (\<lambda>body.
           let rv = scalar e body ''ReturnValue''; (acc, full) = takeRecords e (fst st) (collectRecordArray e body);
               nextId = scalar e body ''IterationIdentifier''
           in if rv \<noteq> qlit ''0'' then Inr (eventsDone (fst st) (o_arg e (qlit ''GetRecords returned %1'') rv))
              else if full then Inr (eventsDone acc [])
              else if o_equalsNoCase e (scalar e body ''NoMoreRecords'') (qlit ''true'') then Inr (eventsDone acc [])
              else if nextId = [] then Inr (eventsDone acc [])
              else Inl (acc, nextId)))"

definition enumerateEventLog :: "'d opsenv \<Rightarrow> wsclient \<Rightarrow> ('d, EventLogResult) op" where
  "enumerateEventLog e c =
     (case c of
        None \<Rightarrow> Finished (eventsDone [] (qlit ''client is null''))
      | Some to \<Rightarrow> Send (buildInvokeEnvelope (o_xml e) kMessageLogResource (qlit ''PositionToFirstRecord'') [] [] to)
          (\<lambda>a. opReply e a (\<lambda>err. Finished (eventsDone [] err))
             (\<lambda>body.
                let rv = scalar e body ''ReturnValue''; iterId = scalar e body ''IterationIdentifier''
                in if rv \<noteq> qlit ''0'' then Finished (eventsDone [] (o_arg e (qlit ''PositionToFirstRecord returned %1'') rv))
                   else if iterId = [] then Finished (eventsDone [] (qlit ''PositionToFirstRecord had no IterationIdentifier''))
                   else loopOp (getRecordsStep e to) (Inl ([], iterId)))))"

subsection \<open>The cap and the numbering\<close>

definition numbered :: "EventLogEntry list \<Rightarrow> bool" where
  "numbered es \<longleftrightarrow> (\<forall>i < length es. ev_recordId (es ! i) = numberText (Suc i))"

lemma numbered_nil [simp]: "numbered []"
  by (simp add: numbered_def)

lemma numbered_add: "numbered es \<Longrightarrow> numbered (es @ [ev\<lparr>ev_recordId := numberText (Suc (length es))\<rparr>])"
  by (auto simp: numbered_def nth_append less_Suc_eq)

lemma takeRecords_inv:
  "numbered acc \<Longrightarrow> length acc < kMaxRecords \<Longrightarrow> takeRecords e acc rs = (acc', full) \<Longrightarrow>
    numbered acc' \<and> length acc' \<le> kMaxRecords \<and> (\<not> full \<longrightarrow> length acc' < kMaxRecords)"
proof (induction e acc rs rule: takeRecords.induct)
  case (2 e acc b64 r)
  then show ?case
    using numbered_add [of acc "decodeEventRecord e (o_fromBase64 e (o_toLatin1 e b64))"] by (auto simp: Let_def split: if_splits)
qed auto

lemma getRecordsStep_inv:
  assumes "numbered acc" and "length acc < kMaxRecords"
  shows "case snd (getRecordsStep e to (acc, iterId)) a of
      Inl st \<Rightarrow> numbered (fst st) \<and> length (fst st) < kMaxRecords
    | Inr r \<Rightarrow> numbered (evr_entries r) \<and> length (evr_entries r) \<le> kMaxRecords"
  using assms takeRecords_inv [OF assms]
  by (auto simp: getRecordsStep_def opReply_def eventsDone_def Let_def split: answer.split prod.split)

subsection \<open>A device that reads out its log\<close>

definition numberFrom :: "nat \<Rightarrow> EventLogEntry list \<Rightarrow> EventLogEntry list" where
  "numberFrom k evs = map (\<lambda>(i, ev). ev\<lparr>ev_recordId := numberText (Suc i)\<rparr>) (enumerate k evs)"

definition validEvents :: "'d opsenv \<Rightarrow> qstring list \<Rightarrow> EventLogEntry list" where
  "validEvents e rs = filter (\<lambda>ev. ev_timestamp ev \<noteq> []) (map (\<lambda>b64. decodeEventRecord e (o_fromBase64 e (o_toLatin1 e b64))) rs)"

lemma numberFrom_append: "numberFrom k (xs @ ys) = numberFrom k xs @ numberFrom (k + length xs) ys"
  by (simp add: numberFrom_def enumerate_append_eq)

lemma length_numberFrom [simp]: "length (numberFrom k xs) = length xs"
  by (simp add: numberFrom_def)

lemma numberFrom_simps [simp]:
  "numberFrom k [] = []" "numberFrom k (ev # evs) = ev\<lparr>ev_recordId := numberText (Suc k)\<rparr> # numberFrom (Suc k) evs"
  by (simp_all add: numberFrom_def)

lemma validEvents_simps [simp]:
  "validEvents e [] = []"
  "validEvents e (b64 # r) = (let ev = decodeEventRecord e (o_fromBase64 e (o_toLatin1 e b64))
     in if ev_timestamp ev = [] then validEvents e r else ev # validEvents e r)"
  by (simp_all add: validEvents_def Let_def)

lemma takeRecords_all:
  "length acc + length (validEvents e rs) < kMaxRecords \<Longrightarrow> takeRecords e acc rs = (acc @ numberFrom (length acc) (validEvents e rs), False)"
proof (induction rs arbitrary: acc)
  case (Cons b64 r)
  let ?ev = "decodeEventRecord e (o_fromBase64 e (o_toLatin1 e b64))"
  show ?case
  proof (cases "ev_timestamp ?ev = []")
    case False
    then show ?thesis
      using Cons.prems Cons.IH [of "acc @ [?ev\<lparr>ev_recordId := numberText (Suc (length acc))\<rparr>]"] by (simp add: Let_def)
  qed (use Cons in \<open>simp add: Let_def\<close>)
qed simp

text \<open>
  The batches of a log: the identifier each is asked for with, and its records. Every batch but the last names the next
  identifier; the last says there are no more.
\<close>

definition servesEvents :: "'d opsenv \<Rightarrow> ('d \<Rightarrow> 'd answer) \<Rightarrow> (nat \<Rightarrow> qstring) \<Rightarrow> qstring \<Rightarrow> (qstring \<times> qstring list) list \<Rightarrow> bool" where
  "servesEvents e dev ids to batches \<longleftrightarrow>
     (\<forall>j. \<exists>d. dev (buildInvokeEnvelope (o_xml e) kMessageLogResource (qlit ''PositionToFirstRecord'') [] [] to (newMessageId (ids j))) = ReplyBody d \<and>
        \<not> isFault (parseResponse (o_xml e) d) \<and> scalar e (bodyXml (parseResponse (o_xml e) d)) ''ReturnValue'' = qlit ''0'' \<and>
        scalar e (bodyXml (parseResponse (o_xml e) d)) ''IterationIdentifier'' = fst (hd batches)) \<and>
     (\<forall>i < length batches. fst (batches ! i) \<noteq> [] \<and>
        (\<forall>j. \<exists>d. dev (fst (getRecordsStep e to ([], fst (batches ! i))) (newMessageId (ids j))) = ReplyBody d \<and>
           \<not> isFault (parseResponse (o_xml e) d) \<and> scalar e (bodyXml (parseResponse (o_xml e) d)) ''ReturnValue'' = qlit ''0'' \<and>
           collectRecordArray e (bodyXml (parseResponse (o_xml e) d)) = snd (batches ! i) \<and>
           o_equalsNoCase e (scalar e (bodyXml (parseResponse (o_xml e) d)) ''NoMoreRecords'') (qlit ''true'') = (Suc i = length batches) \<and>
           (Suc i < length batches \<longrightarrow>
              scalar e (bodyXml (parseResponse (o_xml e) d)) ''IterationIdentifier'' = fst (batches ! Suc i))))"

lemma getRecordsStep_request: "fst (getRecordsStep e to st) = fst (getRecordsStep e to ([], snd st))"
  by (simp add: getRecordsStep_def)

lemma validEvents_append: "validEvents e (rs @ us) = validEvents e rs @ validEvents e us"
  by (simp add: validEvents_def)

lemma event_batch:
  assumes "servesEvents e dev ids to batches" and "length (validEvents e (concat (map snd batches))) < kMaxRecords" and "k < length batches"
  defines "st \<equiv> (\<lambda>k. (numberFrom 0 (validEvents e (concat (map snd (take k batches)))), fst (batches ! k)))"
  shows "snd (getRecordsStep e to (st k)) (dev (fst (getRecordsStep e to (st k)) (newMessageId (ids j)))) =
    (if Suc k < length batches then Inl (st (Suc k)) else Inr (eventsDone (numberFrom 0 (validEvents e (concat (map snd batches)))) []))"
proof -
  have rq: "fst (getRecordsStep e to (st k)) = fst (getRecordsStep e to ([], fst (batches ! k)))"
    unfolding getRecordsStep_request [of e to "st k"] by (simp add: st_def)
  obtain d where d: "dev (fst (getRecordsStep e to (st k)) (newMessageId (ids j))) = ReplyBody d"
    "\<not> isFault (parseResponse (o_xml e) d)" "scalar e (bodyXml (parseResponse (o_xml e) d)) ''ReturnValue'' = qlit ''0''"
    "collectRecordArray e (bodyXml (parseResponse (o_xml e) d)) = snd (batches ! k)"
    "o_equalsNoCase e (scalar e (bodyXml (parseResponse (o_xml e) d)) ''NoMoreRecords'') (qlit ''true'') = (Suc k = length batches)"
    "Suc k < length batches \<longrightarrow> scalar e (bodyXml (parseResponse (o_xml e) d)) ''IterationIdentifier'' = fst (batches ! Suc k)"
    using assms(1,3) unfolding servesEvents_def rq by blast
  have ne: "Suc k < length batches \<longrightarrow> fst (batches ! Suc k) \<noteq> []"
    using assms(1) by (simp add: servesEvents_def)
  have "concat (map snd batches) = concat (map snd (take k batches)) @ snd (batches ! k) @ concat (map snd (drop (Suc k) batches))"
    using arg_cong [OF id_take_nth_drop [OF assms(3)], of "\<lambda>b. concat (map snd b)"] by (simp only: map_append concat_append list.map concat.simps)
  then have "length (validEvents e (concat (map snd (take k batches)))) + length (validEvents e (snd (batches ! k))) < kMaxRecords"
    using assms(2) by (simp add: validEvents_append)
  then have t: "takeRecords e (fst (st k)) (snd (batches ! k)) = (fst (st (Suc k)), False)"
    using takeRecords_all [of "fst (st k)" e "snd (batches ! k)"] assms(3)
    by (simp add: st_def take_Suc_conv_app_nth validEvents_append numberFrom_append)
  show ?thesis
    using d ne t assms(3) by (auto simp: getRecordsStep_def opReply_def Let_def st_def not_less_eq)
qed

text \<open>C17: The event log is read completely. When a device reads out its log in batches and the log has fewer than 8000 valid entries, the
  result is all of them, decoded, in order and numbered; invalid records are left out.
\<close>

theorem event_log_complete:
  assumes "servesEvents e dev ids to batches" and "batches \<noteq> []" and "length (validEvents e (concat (map snd batches))) < 8000"
    and "length batches < n"
  shows "runOp n ids (\<lambda>s q. (dev q, s)) s (enumerateEventLog e (Some to)) =
    Some (eventsDone (numberFrom 0 (validEvents e (concat (map snd batches)))) [], s)"
proof -
  obtain n' where n: "n = Suc n'" "length batches \<le> n'" using assms(4) by (cases n) simp_all
  let ?st = "\<lambda>k. (numberFrom 0 (validEvents e (concat (map snd (take k batches)))), fst (batches ! k))"
  have b: "length (validEvents e (concat (map snd batches))) < kMaxRecords" using assms(3) by (simp add: kMaxRecords_def)
  have "runOp n' ids (\<lambda>s q. (dev q, s)) s (loopOp (getRecordsStep e to) (Inl (?st 0))) =
      Some (eventsDone (numberFrom 0 (validEvents e (concat (map snd batches)))) [], s)"
    by (rule loopOp_chain [where N = "length batches"]) (use event_batch [OF assms(1) b] assms(2) n in simp_all)
  moreover obtain d where "dev (buildInvokeEnvelope (o_xml e) kMessageLogResource (qlit ''PositionToFirstRecord'') [] [] to (newMessageId (ids n'))) = ReplyBody d"
    "\<not> isFault (parseResponse (o_xml e) d)" "scalar e (bodyXml (parseResponse (o_xml e) d)) ''ReturnValue'' = qlit ''0''"
    "scalar e (bodyXml (parseResponse (o_xml e) d)) ''IterationIdentifier'' = fst (batches ! 0)"
    using assms(1,2) unfolding servesEvents_def by (metis hd_conv_nth)
  moreover have "fst (batches ! 0) \<noteq> []" using assms(1,2) by (simp add: servesEvents_def)
  ultimately show ?thesis
    using n by (simp add: enumerateEventLog_def opReply_def Let_def validEvents_def numberFrom_def)
qed

text \<open>
  A device that makes progress: it does not keep the reader waiting with replies that hold no event. Each of its replies to
  \<open>GetRecords\<close> has an event, or is one that ends the reading.
\<close>

definition makesProgress :: "'d opsenv \<Rightarrow> ('s, 'd) device \<Rightarrow> qstring \<Rightarrow> bool" where
  "makesProgress e dev to \<longleftrightarrow>
     (\<forall>s i msgId d. fst (dev s (fst (getRecordsStep e to ([], i)) msgId)) = ReplyBody d \<and> \<not> isFault (parseResponse (o_xml e) d) \<longrightarrow>
        (let body = bodyXml (parseResponse (o_xml e) d)
         in validEvents e (collectRecordArray e body) \<noteq> [] \<or> scalar e body ''ReturnValue'' \<noteq> qlit ''0''
            \<or> o_equalsNoCase e (scalar e body ''NoMoreRecords'') (qlit ''true'') \<or> scalar e body ''IterationIdentifier'' = []))"

lemma takeRecords_grows:
  "takeRecords e acc rs = (acc', full) \<Longrightarrow> length acc \<le> length acc' \<and> (validEvents e rs \<noteq> [] \<longrightarrow> length acc < length acc')"
proof (induction e acc rs rule: takeRecords.induct)
  case (2 e acc b64 r)
  then show ?case by (fastforce simp: Let_def split: if_splits)
qed auto

lemma getRecordsStep_grows:
  assumes "makesProgress e dev to" and "a = fst (dev s (fst (getRecordsStep e to (acc, i)) msgId))"
    and "snd (getRecordsStep e to (acc, i)) a = Inl st"
  shows "length acc < length (fst st)"
proof -
  have q: "fst (getRecordsStep e to (acc, i)) = fst (getRecordsStep e to ([], i))" using getRecordsStep_request [of e to "(acc, i)"] by simp
  obtain d where d: "a = ReplyBody d" "\<not> isFault (parseResponse (o_xml e) d)"
    using assms(3) by (cases a) (auto simp: getRecordsStep_def opReply_def Let_def split: if_splits)
  define body where "body = bodyXml (parseResponse (o_xml e) d)"
  obtain acc' full where t: "takeRecords e acc (collectRecordArray e body) = (acc', full)" by (meson surj_pair)
  have st: "fst st = acc'" "scalar e body ''ReturnValue'' = qlit ''0''" "scalar e body ''IterationIdentifier'' \<noteq> []"
      "\<not> o_equalsNoCase e (scalar e body ''NoMoreRecords'') (qlit ''true'')"
    using assms(3) d t by (auto simp: getRecordsStep_def opReply_def Let_def body_def split: if_splits)
  have "validEvents e (collectRecordArray e body) \<noteq> []"
    using assms(1,2) d st q unfolding makesProgress_def Let_def body_def by metis
  then show ?thesis using takeRecords_grows [OF t] st(1) by simp
qed

lemma eventLoop_ends:
  assumes "makesProgress e dev to"
  shows "numbered acc \<Longrightarrow> length acc < kMaxRecords \<Longrightarrow> kMaxRecords - length acc \<le> n \<Longrightarrow>
    \<exists>r s'. runOp n ids dev s (loopOp (getRecordsStep e to) (Inl (acc, iterId))) = Some (r, s')
      \<and> numbered (evr_entries r) \<and> length (evr_entries r) \<le> kMaxRecords"
proof (induction n arbitrary: acc iterId s)
  case (Suc n)
  obtain a t where a: "dev s (fst (getRecordsStep e to (acc, iterId)) (newMessageId (ids n))) = (a, t)" by (meson surj_pair)
  note inv = getRecordsStep_inv [OF Suc.prems(1,2), of e to iterId a]
  show ?case
  proof (cases "snd (getRecordsStep e to (acc, iterId)) a")
    case (Inl st)
    have "length acc < length (fst st)"
      using getRecordsStep_grows [OF assms _ Inl, of s "newMessageId (ids n)"] a by simp
    then have "\<exists>r s'. runOp n ids dev t (loopOp (getRecordsStep e to) (Inl (fst st, snd st))) = Some (r, s')
        \<and> numbered (evr_entries r) \<and> length (evr_entries r) \<le> kMaxRecords"
      using inv Inl Suc.prems(3) by (intro Suc.IH) auto
    then show ?thesis using a Inl by simp
  qed (use a inv in auto)
qed simp

text \<open>C32: The event log ends, is bounded and numbered, as long as the device makes progress. When every reply to \<open>GetRecords\<close> that does not
  end the reading holds at least one event, and also when the device never says that there are no more records, \<open>enumerateEventLog\<close>
  returns after at most 8001 requests with at most 8000 entries, whose record identifiers are 1, 2, 3, \<open>...\<close> in the order of the
  list. (A device that keeps sending replies without an event is asked for ever; the guard of 8000 does not cover it.)
\<close>

theorem event_log_bounded:
  assumes "makesProgress e dev to" and "n > 8000"
  shows "\<exists>r s'. runOp n ids dev s (enumerateEventLog e (Some to)) = Some (r, s') \<and> length (evr_entries r) \<le> 8000
    \<and> (\<forall>i < length (evr_entries r). ev_recordId (evr_entries r ! i) = numberText (Suc i))"
proof -
  obtain m where m: "n = Suc m" "kMaxRecords \<le> m" using assms(2) by (cases n) (simp_all add: kMaxRecords_def)
  obtain a t where a: "dev s (buildInvokeEnvelope (o_xml e) kMessageLogResource (qlit ''PositionToFirstRecord'') [] [] to (newMessageId (ids m))) = (a, t)"
    by (meson surj_pair)
  have loop: "\<exists>r s'. runOp m ids dev t (loopOp (getRecordsStep e to) (Inl ([], i))) = Some (r, s')
      \<and> numbered (evr_entries r) \<and> length (evr_entries r) \<le> kMaxRecords" for i
    by (rule eventLoop_ends [OF assms(1)]) (use m in \<open>simp_all add: kMaxRecords_def\<close>)
  have "\<exists>r s'. runOp n ids dev s (enumerateEventLog e (Some to)) = Some (r, s')
      \<and> numbered (evr_entries r) \<and> length (evr_entries r) \<le> kMaxRecords"
    using loop a m(1) by (auto simp: enumerateEventLog_def opReply_def Let_def eventsDone_def split: answer.split)
  then obtain r s' where "runOp n ids dev s (enumerateEventLog e (Some to)) = Some (r, s')"
    "numbered (evr_entries r)" "length (evr_entries r) \<le> kMaxRecords" by blast
  then show ?thesis by (intro exI [of _ r] exI [of _ s']) (simp add: numbered_def kMaxRecords_def)
qed

text \<open>
  The cap does not stop a device that sends nothing. A device that keeps answering with an identifier and only blank records, or none,
  is asked again for ever: the number of entries, which the cap is compared with, does not grow.
\<close>

theorem event_log_cap_evaded:
  assumes "\<And>q. dev q = ReplyBody d" and "\<not> isFault (parseResponse (o_xml e) d)"
    and "scalar e (bodyXml (parseResponse (o_xml e) d)) ''ReturnValue'' = qlit ''0''"
    and "scalar e (bodyXml (parseResponse (o_xml e) d)) ''IterationIdentifier'' \<noteq> []"
    and "\<not> o_equalsNoCase e (scalar e (bodyXml (parseResponse (o_xml e) d)) ''NoMoreRecords'') (qlit ''true'')"
    and "validEvents e (collectRecordArray e (bodyXml (parseResponse (o_xml e) d))) = []"
  shows "runOp n ids (\<lambda>s q. (dev q, s)) s (enumerateEventLog e (Some to)) = None"
proof -
  let ?i = "scalar e (bodyXml (parseResponse (o_xml e) d)) ''IterationIdentifier''"
  have "takeRecords e [] (collectRecordArray e (bodyXml (parseResponse (o_xml e) d))) = ([], False)"
    using takeRecords_all [of "[]" e "collectRecordArray e (bodyXml (parseResponse (o_xml e) d))"] assms(6)
    by (simp add: kMaxRecords_def numberFrom_def)
  then have s: "snd (getRecordsStep e to ([], i)) (ReplyBody d) = Inl ([], ?i)" for i
    using assms by (simp add: getRecordsStep_def opReply_def Let_def)
  have "runOp n ids (\<lambda>s q. (dev q, s)) s (loopOp (getRecordsStep e to) (Inl ([], i))) = None" for n i s
    by (induction n arbitrary: i) (simp_all add: assms(1) s)
  then show ?thesis
    using assms by (cases n) (simp_all add: enumerateEventLog_def opReply_def Let_def)
qed

subsection \<open>Examples\<close>

text \<open>One record, and a reply that is the whole log.\<close>

definition exEvents :: "xtok list" where
  "exEvents = exFields [(''ReturnValue'', [48]), (''IterationIdentifier'', [49]), (''NoMoreRecords'', qlit ''true''), (''RecordArray'', replicate 21 1)]"

lemma exOps_simps: "o_equalsNoCase exOps = (=)" "o_fromBase64 exOps b = b" "o_toLatin1 exOps t = map ucast t"
  by (simp_all add: exOps_def)

lemma exEvents_served: "servesEvents exOps (\<lambda>q. ReplyBody exEvents) ids to [([49], [replicate 21 1])]"
  unfolding servesEvents_def exEvents_def collectRecordArray_def
  by (simp add: exFields_read exOps_simps qlit_def)

theorem event_log_complete_witness:
  "runOp 2 (\<lambda>i. []) (\<lambda>s q. (ReplyBody exEvents, s)) () (enumerateEventLog exOps (Some [])) =
    Some (eventsDone (numberFrom 0 (validEvents exOps [replicate 21 1])) [], ())"
  using event_log_complete [OF exEvents_served, of 2 "\<lambda>i. []" "()" "[]"] by (simp add: Let_def)

text \<open>A device that sends the same event for ever.\<close>

definition exEndless :: "xtok list" where
  "exEndless = exFields [(''ReturnValue'', [48]), (''IterationIdentifier'', [49]), (''RecordArray'', replicate 21 1)]"

lemma exEndless_reads:
  "\<not> isFault (parseResponse (o_xml exOps) exEndless)" "scalar exOps (bodyXml (parseResponse (o_xml exOps) exEndless)) ''ReturnValue'' = qlit ''0''"
  "scalar exOps (bodyXml (parseResponse (o_xml exOps) exEndless)) ''IterationIdentifier'' = [49]"
  "scalar exOps (bodyXml (parseResponse (o_xml exOps) exEndless)) ''NoMoreRecords'' = []"
  "collectRecordArray exOps (bodyXml (parseResponse (o_xml exOps) exEndless)) = [replicate 21 1]"
  by (simp_all add: exEndless_def exFields_read collectRecordArray_def qlit_def)

lemma exEndless_event: "ev_timestamp (decodeEventRecord exOps (replicate 21 1)) \<noteq> []"
proof -
  have "eventTime (replicate 21 1) = 0x01010101" by (simp add: eventTime_def)
  moreover have "o_utcText exOps t \<noteq> []" for t by (simp add: exOps_def fromLatin1_def dec_digits.simps [of "unat t"])
  ultimately show ?thesis by (simp add: decodeEventRecord_def)
qed

lemma exEndless_full:
  "\<exists>evs. length evs = 8000 \<and> runOp 8001 (\<lambda>i. []) (\<lambda>s q. (ReplyBody exEndless, s)) () (enumerateEventLog exOps (Some [])) =
     Some (eventsDone evs [], ())"
proof -
  define ev where "ev = decodeEventRecord exOps (replicate 21 1)"
  let ?st = "\<lambda>k. (numberFrom 0 (replicate k ev), [49] :: qstring)"
  have "numberFrom 0 (replicate (Suc k) ev) = numberFrom 0 (replicate k ev) @ [ev\<lparr>ev_recordId := numberText (Suc k)\<rparr>]" for k
    using numberFrom_append [of 0 "replicate k ev" "[ev]"] by (simp add: replicate_append_same)
  then have "takeRecords exOps (fst (?st k)) [replicate 21 1] = (fst (?st (Suc k)), Suc k \<ge> 8000)" for k
    using exEndless_event by (simp add: exOps_simps kMaxRecords_def Let_def del: replicate.simps flip: ev_def)
  then have step: "snd (getRecordsStep exOps [] (?st k)) (ReplyBody exEndless)
      = (if Suc k < 8000 then Inl (?st (Suc k)) else Inr (eventsDone (fst (?st (Suc k))) []))" for k
    using exEndless_reads by (auto simp: getRecordsStep_def opReply_def exOps_simps qlit_def Let_def simp del: replicate.simps)
  have "snd (getRecordsStep exOps [] (?st k)) (ReplyBody exEndless)
      = (if Suc k < 8000 then Inl (?st (Suc k)) else Inr (eventsDone (fst (?st 8000)) []))" if "k < 8000" for k
  proof -
    have "Suc k < 8000 \<or> Suc k = 8000" using that by linarith
    then show ?thesis using step [of k] by (elim disjE) (simp_all only: if_True if_False less_irrefl)
  qed
  then have "runOp 8000 (\<lambda>i. []) (\<lambda>s q. (ReplyBody exEndless, s)) () (loopOp (getRecordsStep exOps []) (Inl (?st 0))) = Some (eventsDone (fst (?st 8000)) [], ())"
    by (intro loopOp_chain [where N = 8000]) simp_all
  then have l: "runOp 8000 (\<lambda>i. []) (\<lambda>s q. (ReplyBody exEndless, s)) () (loopOp (getRecordsStep exOps []) (Inl ([], [49])))
      = Some (eventsDone (fst (?st 8000)) [], ())"
    by (simp only: replicate.simps numberFrom_simps)
  have "runOp (Suc n) (\<lambda>i. []) (\<lambda>s q. (ReplyBody exEndless, s)) () (enumerateEventLog exOps (Some [])) = Some r"
    if "runOp n (\<lambda>i. []) (\<lambda>s q. (ReplyBody exEndless, s)) () (loopOp (getRecordsStep exOps []) (Inl ([], [49]))) = Some r" for n r
    using that exEndless_reads by (simp add: enumerateEventLog_def opReply_def Let_def)
  note this [OF l]
  moreover have "Suc 8000 = (8001 :: nat)" by simp
  ultimately show ?thesis
    by (intro exI [of _ "fst (?st 8000)"]) (simp only: length_numberFrom length_replicate fst_conv)
qed

theorem event_log_bounded_witness:
  "\<exists>r. runOp 8001 (\<lambda>i. []) (\<lambda>s q. (ReplyBody exEndless, s)) () (enumerateEventLog exOps (Some [])) = Some (r, ())
     \<and> length (evr_entries r) = 8000 \<and> ev_recordId (evr_entries r ! 7999) = numberText 8000"
proof -
  have "makesProgress exOps (\<lambda>s q. (ReplyBody exEndless, s)) []"
    using exEndless_reads(5) exEndless_event by (simp add: makesProgress_def exOps_simps Let_def)
  from event_log_bounded [OF this, of 8001 "\<lambda>i. []" "()"] obtain r where
    r: "runOp 8001 (\<lambda>i. []) (\<lambda>s q. (ReplyBody exEndless, s)) () (enumerateEventLog exOps (Some [])) = Some (r, ())"
      "\<forall>i < length (evr_entries r). ev_recordId (evr_entries r ! i) = numberText (Suc i)" by auto
  then have "length (evr_entries r) = 8000" using exEndless_full by (auto simp: eventsDone_def)
  then show ?thesis using r by simp
qed

theorem event_log_cap_evaded_witness:
  "runOp 9000 (\<lambda>i. []) (\<lambda>s q. (ReplyBody (exFields [(''ReturnValue'', [48]), (''IterationIdentifier'', [49])]), s)) ()
      (enumerateEventLog exOps (Some [])) = None"
  by (rule event_log_cap_evaded [OF refl]) (simp_all add: exFields_read exOps_simps collectRecordArray_def qlit_def)

section \<open>Audit records\<close>

definition readBeU16 :: "bytes \<Rightarrow> nat \<Rightarrow> u16" where
  "readBeU16 b off = (if off + 1 \<ge> length b then 0 else push_bit 8 (ucast (b ! off)) OR ucast (b ! (off + 1)))"

definition readBeU32 :: "bytes \<Rightarrow> nat \<Rightarrow> u32" where
  "readBeU32 b off =
     (if off + 3 \<ge> length b then 0
      else push_bit 24 (ucast (b ! off)) OR push_bit 16 (ucast (b ! (off + 1))) OR push_bit 8 (ucast (b ! (off + 2))) OR ucast (b ! (off + 3)))"

record AuditLogEntry =
  au_auditAppId :: nat
  au_eventId :: nat
  au_auditAppLabel :: qstring
  au_eventLabel :: qstring
  au_initiatorType :: int
  au_initiator :: qstring
  au_unixSeconds :: nat
  au_mcLocationType :: nat
  au_netAddress :: qstring
  au_ex :: bytes

text \<open>The initiator and the position behind it; \<open>None\<close> when the record ends inside.\<close>

definition auditInitiator :: "'d opsenv \<Rightarrow> bytes \<Rightarrow> byte \<Rightarrow> (qstring \<times> nat) option" where
  "auditInitiator e raw kind =
     (if kind = 0
      then if 5 \<ge> length raw then None
           else let n = unat (raw ! 5) in if 6 + n > length raw then None else Some (o_fromUtf8 e (take n (drop 6 raw)), 6 + n)
      else if kind = 1
      then if 10 > length raw then None
           else let n = unat (raw ! 9) in if 10 + n > length raw then None else Some (fromLatin1 (toHex (take n (drop 10 raw))), 10 + n)
      else if kind = 2 then Some (qlit ''Local'', 5)
      else if kind = 3 then Some (qlit ''KVM Default Port'', 5)
      else Some (o_arg e (qlit ''Unknown initiator %1'') (numberText (unat kind)), 5))"

text \<open>What follows the initiator: each part is read when it is there completely.\<close>

definition auditExtended :: "bytes \<Rightarrow> nat \<Rightarrow> AuditLogEntry \<Rightarrow> AuditLogEntry" where
  "auditExtended raw ptr out =
     (if ptr \<ge> length raw then out
      else let n = unat (raw ! ptr) in if ptr + 1 + n > length raw then out else out\<lparr>au_ex := take n (drop (ptr + 1) raw)\<rparr>)"

definition auditAddress :: "'d opsenv \<Rightarrow> bytes \<Rightarrow> nat \<Rightarrow> AuditLogEntry \<Rightarrow> AuditLogEntry" where
  "auditAddress e raw ptr out =
     (if ptr \<ge> length raw then out
      else let out = out\<lparr>au_mcLocationType := unat (raw ! ptr)\<rparr>
           in if ptr + 1 \<ge> length raw then out
              else let n = unat (raw ! (ptr + 1))
                   in if ptr + 2 + n > length raw then out
                      else auditExtended raw (ptr + 2 + n) (out\<lparr>au_netAddress := o_fromUtf8 e (take n (drop (ptr + 2) raw))\<rparr>))"

definition auditTail :: "'d opsenv \<Rightarrow> bytes \<Rightarrow> nat \<Rightarrow> AuditLogEntry \<Rightarrow> AuditLogEntry" where
  "auditTail e raw ptr out =
     (if ptr + 4 > length raw then out else auditAddress e raw (ptr + 4) (out\<lparr>au_unixSeconds := unat (readBeU32 raw ptr)\<rparr>))"

definition parseAuditRecord :: "'d opsenv \<Rightarrow> bytes \<Rightarrow> AuditLogEntry option" where
  "parseAuditRecord e raw =
     (if length raw < 5 then None
      else let app = unat (readBeU16 raw 0); ev = unat (readBeU16 raw 2); label = auditLookup (app * 100 + ev)
           in case auditInitiator e raw (raw ! 4) of
                None \<Rightarrow> None
              | Some (who, ptr) \<Rightarrow> Some (auditTail e raw ptr
                  \<lparr>au_auditAppId = app, au_eventId = ev, au_auditAppLabel = auditLookup app,
                   au_eventLabel = (if label = [] then o_arg e (qlit ''#%1'') (numberText ev) else label),
                   au_initiatorType = int (unat (raw ! 4)), au_initiator = who, au_unixSeconds = 0, au_mcLocationType = 0,
                   au_netAddress = [], au_ex = []\<rparr>))"

section \<open>Reading the audit log\<close>

record AuditLogResult =
  aur_ok :: bool
  aur_error :: qstring
  aur_entries :: "AuditLogEntry list"

definition auditDone :: "AuditLogEntry list \<Rightarrow> qstring \<Rightarrow> AuditLogResult" where
  "auditDone es err = \<lparr>aur_ok = (err = []), aur_error = err, aur_entries = es\<rparr>"

text \<open>One \<open>EventRecords\<close> text: line breaks and spaces removed, decoded, parsed; an empty record is skipped.\<close>

definition auditRecordOf :: "'d opsenv \<Rightarrow> qstring \<Rightarrow> AuditLogEntry option" where
  "auditRecordOf e t =
     (let raw = o_fromBase64 e (filter (\<lambda>c. c \<noteq> 10 \<and> c \<noteq> 13 \<and> c \<noteq> 32) (o_toLatin1 e t))
      in if raw = [] then None else parseAuditRecord e raw)"

definition auditRecordsOf :: "'d opsenv \<Rightarrow> qstring list \<Rightarrow> AuditLogEntry list" where
  "auditRecordsOf e ts = map the (filter (\<lambda>r. r \<noteq> None) (map (auditRecordOf e) ts))"

record audit_state =
  aus_entries :: "AuditLogEntry list"
  aus_total :: int
  aus_start :: int

definition auditStep :: "'d opsenv \<Rightarrow> qstring \<Rightarrow> audit_state \<Rightarrow> (qstring \<Rightarrow> 'd) \<times> ('d answer \<Rightarrow> audit_state + AuditLogResult)" where
  "auditStep e to st =
     (buildInvokeEnvelope (o_xml e) kAuditLogResource (qlit ''ReadRecords'') [] (hashOf e [(''StartIndex'', intText (aus_start st))]) to,
      \<lambda>a. opReply e a (\<lambda>err. Inr (auditDone (aus_entries st) err))
        (\<lambda>body.
           let total = (case o_toInt e (scalar e body ''TotalRecordCount'') of Some t \<Rightarrow> t | None \<Rightarrow> aus_total st);
               es = aus_entries st @ auditRecordsOf e (elementTexts e ''EventRecords'' body);
               nxt = int (length es) + 1;
               more = (total \<ge> nxt - 1 \<and> total > 0 \<and> int (length es) < total)
           in if more \<and> nxt > aus_start st then Inl \<lparr>aus_entries = es, aus_total = total, aus_start = nxt\<rparr> else Inr (auditDone es [])))"

definition enumerateAuditLog :: "'d opsenv \<Rightarrow> wsclient \<Rightarrow> ('d, AuditLogResult) op" where
  "enumerateAuditLog e c =
     (case c of
        None \<Rightarrow> Finished (auditDone [] (qlit ''client is null''))
      | Some to \<Rightarrow> loopOp (auditStep e to) (Inl \<lparr>aus_entries = [], aus_total = -1, aus_start = 1\<rparr>))"

text \<open>
  A device with a log: asked from a position on, it says how many records there are and returns the next ones, as
  many as it likes.
\<close>

definition servesAudit :: "'d opsenv \<Rightarrow> ('d \<Rightarrow> 'd answer) \<Rightarrow> (nat \<Rightarrow> qstring) \<Rightarrow> qstring \<Rightarrow> qstring list \<Rightarrow> (nat \<Rightarrow> nat) \<Rightarrow> bool" where
  "servesAudit e dev ids to recs sz \<longleftrightarrow>
     (\<forall>k < length recs. \<forall>j. \<exists>d.
        dev (buildInvokeEnvelope (o_xml e) kAuditLogResource (qlit ''ReadRecords'') [] (hashOf e [(''StartIndex'', intText (int k + 1))]) to
          (newMessageId (ids j))) = ReplyBody d \<and>
        \<not> isFault (parseResponse (o_xml e) d) \<and>
        o_toInt e (scalar e (bodyXml (parseResponse (o_xml e) d)) ''TotalRecordCount'') = Some (int (length recs)) \<and>
        elementTexts e ''EventRecords'' (bodyXml (parseResponse (o_xml e) d)) = take (sz k) (drop k recs))"

lemma audit_page:
  assumes "servesAudit e dev ids to recs sz" and "k < length recs" and "aus_start st = int k + 1"
  shows "snd (auditStep e to st) (dev (fst (auditStep e to st) (newMessageId (ids j)))) =
    (let es = aus_entries st @ auditRecordsOf e (take (sz k) (drop k recs))
     in if length es < length recs \<and> k < length es
        then Inl \<lparr>aus_entries = es, aus_total = int (length recs), aus_start = int (length es) + 1\<rparr> else Inr (auditDone es []))"
proof -
  obtain d where d: "dev (fst (auditStep e to st) (newMessageId (ids j))) = ReplyBody d" "\<not> isFault (parseResponse (o_xml e) d)"
    "o_toInt e (scalar e (bodyXml (parseResponse (o_xml e) d)) ''TotalRecordCount'') = Some (int (length recs))"
    "elementTexts e ''EventRecords'' (bodyXml (parseResponse (o_xml e) d)) = take (sz k) (drop k recs)"
    using assms unfolding servesAudit_def auditStep_def fst_conv by metis
  then show ?thesis
    using assms(2,3) by (auto simp: auditStep_def opReply_def Let_def)
qed

lemma auditRecordsOf_good: "\<forall>t \<in> set ts. auditRecordOf e t \<noteq> None \<Longrightarrow> auditRecordsOf e ts = map (\<lambda>t. the (auditRecordOf e t)) ts"
  by (induction ts) (auto simp: auditRecordsOf_def)

lemma auditRecordsOf_append: "auditRecordsOf e (ts @ us) = auditRecordsOf e ts @ auditRecordsOf e us"
  by (simp add: auditRecordsOf_def)

lemma audit_loop:
  assumes "servesAudit e dev ids to recs sz" and "\<And>k. sz k > 0" and "\<forall>t \<in> set recs. auditRecordOf e t \<noteq> None"
  shows "k < length recs \<Longrightarrow> length recs - k \<le> n \<Longrightarrow>
    runOp n ids (\<lambda>s q. (dev q, s)) s (loopOp (auditStep e to)
      (Inl \<lparr>aus_entries = auditRecordsOf e (take k recs), aus_total = t, aus_start = int k + 1\<rparr>)) = Some (auditDone (auditRecordsOf e recs) [], s)"
proof (induction "length recs - k" arbitrary: k n t rule: less_induct)
  case less
  let ?st = "\<lparr>aus_entries = auditRecordsOf e (take k recs), aus_total = t, aus_start = int k + 1\<rparr>"
  obtain n' where n: "n = Suc n'" using less.prems by (cases n) simp_all
  have good: "length (auditRecordsOf e ts) = length ts" if "set ts \<subseteq> set recs" for ts
    using assms(3) that by (subst auditRecordsOf_good) auto
  define m where "m = min (length recs) (k + sz k)"
  have es: "auditRecordsOf e (take k recs) @ auditRecordsOf e (take (sz k) (drop k recs)) = auditRecordsOf e (take m recs)"
    by (simp add: auditRecordsOf_append [symmetric] take_add [symmetric] m_def min_def)
  have l: "length (auditRecordsOf e (take m recs)) = m" using good [of "take m recs"] set_take_subset by (fastforce simp: m_def)
  have m: "k < m" "m \<le> length recs" using assms(2) [of k] less.prems(1) by (simp_all add: m_def)
  have run: "runOp n ids (\<lambda>s q. (dev q, s)) s (loopOp (auditStep e to) (Inl ?st)) =
      runOp n' ids (\<lambda>s q. (dev q, s)) s (loopOp (auditStep e to)
        (if m < length recs then Inl \<lparr>aus_entries = auditRecordsOf e (take m recs), aus_total = int (length recs), aus_start = int m + 1\<rparr>
         else Inr (auditDone (auditRecordsOf e (take m recs)) [])))"
    using audit_page [OF assms(1) less.prems(1), of ?st n'] m by (simp add: n es l Let_def)
  show ?case
  proof (cases "m < length recs")
    case True
    then show ?thesis
      using run less.hyps [of m n' "int (length recs)"] m less.prems n by auto
  next
    case False
    then have "take m recs = recs" using m(2) by simp
    then show ?thesis using run False by simp
  qed
qed

text \<open>C16: The audit log is read completely. When every record can be parsed, the result is all records of the log, in order, once each,
  however many records the device returns per request.
\<close>

theorem audit_log_complete:
  assumes "servesAudit e dev ids to recs sz" and "\<And>k. sz k > 0" and "recs \<noteq> []" and "\<forall>t \<in> set recs. auditRecordOf e t \<noteq> None"
    and "length recs \<le> n"
  shows "runOp n ids (\<lambda>s q. (dev q, s)) s (enumerateAuditLog e (Some to)) = Some (auditDone (map (\<lambda>t. the (auditRecordOf e t)) recs) [], s)"
  using audit_loop [OF assms(1,2,4), of 0 n s "-1"] assms(3,5) auditRecordsOf_good [OF assms(4)]
  by (simp add: enumerateAuditLog_def auditRecordsOf_def [of e "[]"])

text \<open>C34: A record that cannot be parsed makes another one appear twice. The next position is computed from the number of entries kept, not
  from the number of records received; when exactly one record of a log is unreadable, that record is not the
  last one, and the device returns everything from the position asked for, the last record is fetched and listed again. (If the
  unreadable record is the last one, it is asked for once more and nothing is listed twice.)
\<close>

theorem audit_log_repeats:
  assumes "servesAudit e dev ids to (as @ [bad] @ bs @ [z]) (\<lambda>k. length as + length bs + 2)" and "auditRecordOf e bad = None"
    and "\<forall>t \<in> set (as @ bs @ [z]). auditRecordOf e t \<noteq> None"
  shows "runOp 2 ids (\<lambda>s q. (dev q, s)) s (enumerateAuditLog e (Some to)) =
    Some (auditDone (map (\<lambda>t. the (auditRecordOf e t)) (as @ bs @ [z, z])) [], s)"
proof -
  let ?recs = "as @ [bad] @ bs @ [z]" and ?N = "length as + length bs + 1"
  let ?st = "\<lparr>aus_entries = [], aus_total = -1, aus_start = 1\<rparr>"
  let ?good = "map (\<lambda>t. the (auditRecordOf e t)) (as @ bs @ [z])"
  have g: "auditRecordsOf e ?recs = ?good" "auditRecordsOf e [z] = [the (auditRecordOf e z)]"
    using assms(2,3) auditRecordsOf_good [of "as @ bs @ [z]" e] by (simp_all add: auditRecordsOf_def)
  have a: "snd (auditStep e to ?st) (dev (fst (auditStep e to ?st) (newMessageId (ids j)))) =
      Inl \<lparr>aus_entries = ?good, aus_total = int (?N + 1), aus_start = int ?N + 1\<rparr>" for j
    using audit_page [OF assms(1), of 0 ?st j] g(1) by (simp add: Let_def)
  let ?st' = "\<lparr>aus_entries = ?good, aus_total = int (?N + 1), aus_start = int ?N + 1\<rparr>"
  have "drop ?N ?recs = [z]" by simp
  then have b: "snd (auditStep e to ?st') (dev (fst (auditStep e to ?st') (newMessageId (ids j)))) = Inr (auditDone (?good @ [the (auditRecordOf e z)]) [])" for j
    using audit_page [OF assms(1), of ?N ?st' j] g(2) by (simp add: Let_def)
  show ?thesis
    using a b by (simp add: enumerateAuditLog_def eval_nat_numeral)
qed

subsection \<open>Examples\<close>

lemma exAuditRecord: "auditRecordOf exOps [1, 1, 1, 1, 2] \<noteq> None" "auditRecordOf exOps [] = None"
  by (simp_all add: auditRecordOf_def exOps_simps parseAuditRecord_def auditInitiator_def Let_def)

lemma exAuditDevice_served:
  "servesAudit exOps (\<lambda>q. ReplyBody (exFields [(''TotalRecordCount'', [49]), (''EventRecords'', [1, 1, 1, 1, 2])])) ids to [[1, 1, 1, 1, 2]] (\<lambda>k. 1)"
  by (simp add: servesAudit_def exFields_read exNumber_def qlit_def)

theorem audit_log_complete_witness:
  "runOp 1 (\<lambda>i. []) (\<lambda>s q. (ReplyBody (exFields [(''TotalRecordCount'', [49]), (''EventRecords'', [1, 1, 1, 1, 2])]), s)) ()
      (enumerateAuditLog exOps (Some [])) = Some (auditDone [the (auditRecordOf exOps [1, 1, 1, 1, 2])] [], ())"
  using audit_log_complete [OF exAuditDevice_served, of 1 "\<lambda>i. []" "()" "[]"] exAuditRecord(1) by simp

text \<open>A device with an unreadable first record.\<close>

definition exTorn :: "xtok list \<Rightarrow> xtok list answer" where
  "exTorn q = ReplyBody (exFields ((''TotalRecordCount'', [50]) #
     (if findToken (qlit ''StartIndex'') q = [50] then [(''EventRecords'', [1, 1, 1, 1, 2])]
      else [(''EventRecords'', []), (''EventRecords'', [1, 1, 1, 1, 2])])))"

lemma exTorn_request:
  assumes "k = 0 \<or> k = 1"
  shows "findToken (qlit ''StartIndex'') (buildInvokeEnvelope tokenLib kAuditLogResource (qlit ''ReadRecords'') []
    (hashOf exOps [(''StartIndex'', intText (int k + 1))]) [] (newMessageId [])) = [of_nat (49 + k)]"
proof -
  have "hashOf exOps [(''StartIndex'', intText (int k + 1))] = [(qlit ''StartIndex'', [of_nat (49 + k)])]"
    using assms by (auto simp: hashOf_def exOps_def intText_def dec_digits.simps fromLatin1_def)
  then show ?thesis
    using assms by (auto simp: buildInvokeEnvelope_def invokeTokens_def writeProperties_def kAuditLogResource_def envelope_words)
qed

lemma exTorn_served: "servesAudit exOps exTorn (\<lambda>i. []) [] ([] @ [[]] @ [] @ [[1, 1, 1, 1, 2]]) (\<lambda>k. length [] + length [] + 2)"
proof -
  have "\<exists>d. exTorn (buildInvokeEnvelope tokenLib kAuditLogResource (qlit ''ReadRecords'') [] (hashOf exOps [(''StartIndex'', intText (int k + 1))]) []
        (newMessageId [])) = ReplyBody d \<and> \<not> isFault (parseResponse tokenLib d) \<and>
      exNumber (scalar exOps (bodyXml (parseResponse tokenLib d)) ''TotalRecordCount'') = Some 2 \<and>
      elementTexts exOps ''EventRecords'' (bodyXml (parseResponse tokenLib d)) = drop k [[], [1, 1, 1, 1, 2]]" if "k = 0 \<or> k = 1" for k
    using that exTorn_request [OF that] by (auto simp: exTorn_def exFields_read exNumber_def qlit_def)
  then show ?thesis by (simp add: servesAudit_def less_Suc_eq)
qed

theorem audit_log_repeats_witness:
  "runOp 2 (\<lambda>i. []) (\<lambda>s q. (exTorn q, s)) () (enumerateAuditLog exOps (Some [])) =
    Some (auditDone [the (auditRecordOf exOps [1, 1, 1, 1, 2]), the (auditRecordOf exOps [1, 1, 1, 1, 2])] [], ())"
  using audit_log_repeats [OF exTorn_served exAuditRecord(2), of "()"] exAuditRecord(1) by simp

subsection \<open>Reading back a record\<close>

text \<open>The documented layout of a record that a digest user caused.\<close>

definition auditBytes :: "u16 \<Rightarrow> u16 \<Rightarrow> bytes \<Rightarrow> u32 \<Rightarrow> byte \<Rightarrow> bytes \<Rightarrow> bytes \<Rightarrow> bytes" where
  "auditBytes app ev user secs loc net ex =
     [ucast (drop_bit 8 app), ucast app, ucast (drop_bit 8 ev), ucast ev, 0, of_nat (length user)] @ user @
     [ucast (drop_bit 24 secs), ucast (drop_bit 16 secs), ucast (drop_bit 8 secs), ucast secs] @ [loc, of_nat (length net)] @ net @
     [of_nat (length ex)] @ ex"

lemma unat_length_byte: "length b < 256 \<Longrightarrow> unat (of_nat (length b) :: byte) = length b"
  by (simp add: unat_of_nat take_bit_nat_eq_self_iff)

lemma auditBytes_initiator:
  "length user < 256 \<Longrightarrow> auditInitiator e (auditBytes app ev user secs loc net ex) 0 = Some (o_fromUtf8 e user, 6 + length user)"
  by (simp add: auditInitiator_def auditBytes_def unat_length_byte Let_def)

lemma auditBytes_tail:
  assumes "length net < 256" and "length ex < 256"
  shows "auditTail e (auditBytes app ev user secs loc net ex) (6 + length user) out =
    out\<lparr>au_unixSeconds := unat secs, au_mcLocationType := unat loc, au_netAddress := o_fromUtf8 e net, au_ex := ex\<rparr>"
proof -
  let ?raw = "auditBytes app ev user secs loc net ex" and ?p = "6 + length user"
  have at: "?raw ! (?p + i) = ([ucast (drop_bit 24 secs), ucast (drop_bit 16 secs), ucast (drop_bit 8 secs), ucast secs] @
      [loc, of_nat (length net)] @ net @ [of_nat (length ex)] @ ex) ! i" for i
    by (simp add: auditBytes_def)
  have b: "readBeU32 ?raw ?p = secs"
    using at [of 0] at [of 1] at [of 2] at [of 3] by (simp add: readBeU32_def byte_order_simps) (simp add: auditBytes_def)
  have c: "?raw ! (?p + 4) = loc" "?raw ! (?p + 5) = of_nat (length net)" "?raw ! (?p + (6 + length net)) = of_nat (length ex)"
    using at [of 4] at [of 5] at [of "6 + length net"] by (simp_all add: nth_append)
  let ?pre = "[ucast (drop_bit 8 app), ucast app, ucast (drop_bit 8 ev), ucast ev, 0, of_nat (length user)] @ user @
      [ucast (drop_bit 24 secs), ucast (drop_bit 16 secs), ucast (drop_bit 8 secs), ucast secs] @ [loc, of_nat (length net)]"
  have r: "?raw = ?pre @ net @ of_nat (length ex) # ex" "?raw = (?pre @ net @ [of_nat (length ex)]) @ ex @ []"
    by (simp_all add: auditBytes_def)
  have d: "take (length net) (drop (?p + 6) ?raw) = net" "take (length ex) (drop (?p + (7 + length net)) ?raw) = ex"
    using mid_hit [of ?pre "?p + 6" net "length net" "of_nat (length ex) # ex"]
      mid_hit [of "?pre @ net @ [of_nat (length ex)]" "?p + (7 + length net)" ex "length ex" "[]"]
    unfolding r(1) [symmetric] r(2) [symmetric] mid_def by simp_all
  have l: "length ?raw = ?p + 7 + length net + length ex" by (simp add: auditBytes_def)
  show ?thesis
    unfolding auditTail_def auditAddress_def auditExtended_def
    using b c d l assms by (simp add: unat_length_byte Let_def add.assoc)
qed

text \<open>
  An audit record says what happened. A record in the documented layout is read as the application, the event, the user, the time, the
  address and the extra bytes it was made of, whatever their lengths up to the 255 a length byte can say.
\<close>

theorem audit_record_roundtrip:
  assumes "length user < 256" and "length net < 256" and "length ex < 256"
  shows "parseAuditRecord e (auditBytes app ev user secs loc net ex) = Some
    \<lparr>au_auditAppId = unat app, au_eventId = unat ev, au_auditAppLabel = auditLookup (unat app),
     au_eventLabel = (let label = auditLookup (unat app * 100 + unat ev) in if label = [] then o_arg e (qlit ''#%1'') (numberText (unat ev)) else label),
     au_initiatorType = 0, au_initiator = o_fromUtf8 e user, au_unixSeconds = unat secs, au_mcLocationType = unat loc,
     au_netAddress = o_fromUtf8 e net, au_ex = ex\<rparr>"
proof -
  let ?raw = "auditBytes app ev user secs loc net ex"
  have h: "readBeU16 ?raw 0 = app" "readBeU16 ?raw 2 = ev" "?raw ! 4 = 0" "length ?raw \<ge> 5"
    by (simp_all add: readBeU16_def auditBytes_def byte_order_simps)
  then show ?thesis
    using auditBytes_initiator [OF assms(1), of e app ev secs loc net ex]
    by (simp add: parseAuditRecord_def auditBytes_tail [OF assms(2,3)] Let_def)
qed

theorem audit_record_roundtrip_witness:
  "map_option au_initiator (parseAuditRecord exOps (auditBytes 16 0 [97, 98] 1700000000 1 [] [])) = Some [97, 98]"
  using audit_record_roundtrip [of "[97, 98]" "[]" "[]" exOps 16 0 1700000000 1] by (simp add: exOps_def)

end
