(* ===== verification/Ops_Join.thy ===== *)
theory Ops_Join
  imports Ops_Enum Ops_Calls
begin

text \<open>
  The operations of \<open>operations.cpp\<close> that have several requests under way at a time. They send all of them, keep what each one
  returned, and call back when the last one has returned, whatever the order of the replies. A \<open>joined\<close> operation is its
  branches and the function from what they returned to the result; \<open>joinRun\<close> are the states it can be in. The flag a
  branch sets when it has returned is the fact that it is \<open>Finished\<close>.
\<close>

section \<open>Joined requests\<close>

datatype ('d, 'r) joined = Immediate 'r | Joined "('d, 'd enumerated) op list" "'d enumerated list \<Rightarrow> 'r"

record ('d, 'r) join_state =
  js_branches :: "('d, 'd enumerated) op list"
  js_called :: "'r list"

fun outcome :: "('d, 'b) op \<Rightarrow> 'b option" where
  "outcome (Finished b) = Some b"
| "outcome (Send m k) = None"

text \<open>\<open>maybeFire\<close> calls back when every branch has returned. \<open>js_called\<close> are the results the callback was called with.\<close>

definition maybeFire :: "('d enumerated list \<Rightarrow> 'r) \<Rightarrow> ('d, 'r) join_state \<Rightarrow> ('d, 'r) join_state" where
  "maybeFire f s =
     (if list_all (\<lambda>b. outcome b \<noteq> None) (js_branches s)
      then s\<lparr>js_called := js_called s @ [f (map (the \<circ> outcome) (js_branches s))]\<rparr> else s)"

fun joinStart :: "('d, 'r) joined \<Rightarrow> ('d, 'r) join_state" where
  "joinStart (Immediate r) = \<lparr>js_branches = [], js_called = [r]\<rparr>"
| "joinStart (Joined bs f) = maybeFire f \<lparr>js_branches = bs, js_called = []\<rparr>"

text \<open>A reply to the request a branch waits for.\<close>

definition joinReply :: "('d enumerated list \<Rightarrow> 'r) \<Rightarrow> nat \<Rightarrow> 'd answer \<Rightarrow> ('d, 'r) join_state \<Rightarrow> ('d, 'r) join_state" where
  "joinReply f i a s =
     (case js_branches s ! i of
        Finished b \<Rightarrow> s
      | Send m k \<Rightarrow>
          (let s' = s\<lparr>js_branches := (js_branches s)[i := k a]\<rparr> in if outcome (k a) = None then s' else maybeFire f s'))"

text \<open>\<open>QUuid::toString\<close> without braces: hexadecimal digits and dashes.\<close>

definition uuidText :: "qstring \<Rightarrow> bool" where
  "uuidText u \<longleftrightarrow> list_all (\<lambda>c. c = 45 \<or> 48 \<le> c \<and> c \<le> 57 \<or> 97 \<le> c \<and> c \<le> 102) u"

text \<open>\<open>A q a\<close> says that the request \<open>q\<close> may be answered with \<open>a\<close>. Any waiting branch may be the next to get its answer.\<close>

inductive joinStep :: "('d \<Rightarrow> 'd answer \<Rightarrow> bool) \<Rightarrow> ('d, 'r) joined \<Rightarrow> ('d, 'r) join_state \<Rightarrow> ('d, 'r) join_state \<Rightarrow> bool" for A where
  reply: "i < length (js_branches s) \<Longrightarrow> js_branches s ! i = Send m k \<Longrightarrow> uuidText u \<Longrightarrow> A (m (newMessageId u)) a \<Longrightarrow>
    joinStep A (Joined bs f) s (joinReply f i a s)"

inductive_cases joinStepE [elim]: "joinStep A (Joined bs f) s s'"

inductive joinRun :: "('d \<Rightarrow> 'd answer \<Rightarrow> bool) \<Rightarrow> ('d, 'r) joined \<Rightarrow> ('d, 'r) join_state \<Rightarrow> bool" for A j where
  start: "joinRun A j (joinStart j)"
| step: "joinRun A j s \<Longrightarrow> joinStep A j s s' \<Longrightarrow> joinRun A j s'"

text \<open>What a single operation can become under the answers.\<close>

definition opNext :: "('d \<Rightarrow> 'd answer \<Rightarrow> bool) \<Rightarrow> (('d, 'r) op \<times> ('d, 'r) op) set" where
  "opNext A = {(q, p). \<exists>m k u a. p = Send m k \<and> uuidText u \<and> A (m (newMessageId u)) a \<and> q = k a}"

lemma opNext_simps [simp]:
  "(q, Finished r) \<in> opNext A \<longleftrightarrow> False" "(q, Send m k) \<in> opNext A \<longleftrightarrow> (\<exists>u a. uuidText u \<and> A (m (newMessageId u)) a \<and> q = k a)"
  by (auto simp: opNext_def)

lemma acc_Finished: "Finished r \<in> Wellfounded.acc (opNext A)"
  by (rule accI) simp

lemma acc_Send: "(\<And>u a. uuidText u \<Longrightarrow> A (m (newMessageId u)) a \<Longrightarrow> k a \<in> Wellfounded.acc (opNext A)) \<Longrightarrow> Send m k \<in> Wellfounded.acc (opNext A)"
  by (rule accI) auto

inductive follows :: "('d \<Rightarrow> 'd answer \<Rightarrow> bool) \<Rightarrow> ('d, 'r) op \<Rightarrow> ('d, 'r) op \<Rightarrow> bool" for A p where
  here: "follows A p p"
| onward: "follows A p (Send m k) \<Longrightarrow> uuidText u \<Longrightarrow> A (m (newMessageId u)) a \<Longrightarrow> follows A p (k a)"

lemma follows_Finished: "follows A (Finished r) q \<Longrightarrow> q = Finished r"
  by (induction rule: follows.induct) simp_all

lemma follows_Send:
  "follows A (Send m k) q \<Longrightarrow> q = Send m k \<or> (\<exists>u a. uuidText u \<and> A (m (newMessageId u)) a \<and> follows A (k a) q)"
proof (induction rule: follows.induct)
  case (onward m' k' u a)
  then show ?case
    using follows.here [of A] follows.onward [of A] by (metis op.inject(2))
qed simp

subsection \<open>One result, once\<close>

text \<open>
  The invariant: every branch is where its own requests took it, and the callback has been called once when all have returned, and
  not at all before.
\<close>

definition joinInv :: "('d \<Rightarrow> 'd answer \<Rightarrow> bool) \<Rightarrow> ('d, 'd enumerated) op list \<Rightarrow> ('d enumerated list \<Rightarrow> 'r) \<Rightarrow> ('d, 'r) join_state \<Rightarrow> bool" where
  "joinInv A bs f s \<longleftrightarrow>
     list_all2 (follows A) bs (js_branches s) \<and>
     js_called s = (if list_all (\<lambda>b. outcome b \<noteq> None) (js_branches s) then [f (map (the \<circ> outcome) (js_branches s))] else [])"

lemma outcome_Some [simp]: "outcome p = Some r \<longleftrightarrow> p = Finished r"
  by (cases p) simp_all

lemma joinInv_start: "joinInv A bs f (joinStart (Joined bs f))"
  by (auto simp: joinInv_def maybeFire_def list_all2_same follows.here)

lemma joinInv_reply:
  assumes "joinInv A bs f s" and i: "i < length (js_branches s)" "js_branches s ! i = Send m k" and "uuidText u" "A (m (newMessageId u)) a"
  shows "joinInv A bs f (joinReply f i a s)"
proof -
  let ?bs = "(js_branches s)[i := k a]"
  have w: "\<not> list_all (\<lambda>b. outcome b \<noteq> None) (js_branches s)"
    using i by (auto simp: list_all_length)
  then have c: "js_called s = []" using assms(1) by (simp add: joinInv_def)
  have "list_all2 (follows A) bs (js_branches s)" using assms(1) by (simp add: joinInv_def)
  then have "list_all2 (follows A) bs ?bs"
    using follows.onward [of A "bs ! i" m k, OF _ assms(4,5)] i by (auto simp: list_all2_conv_all_nth nth_list_update)
  moreover have "\<not> list_all (\<lambda>b. outcome b \<noteq> None) ?bs" if "outcome (k a) = None"
    using that i by (auto simp: list_all_length intro!: exI [of _ i])
  ultimately show ?thesis
    using i c by (auto simp: joinInv_def joinReply_def maybeFire_def Let_def)
qed

lemma joinRun_inv: "joinRun A (Joined bs f) s \<Longrightarrow> joinInv A bs f s"
proof (induction rule: joinRun.induct)
  case (step s s')
  from step.hyps(2) step.IH show ?case
    by (cases rule: joinStep.cases) (blast intro: joinInv_reply)
qed (rule joinInv_start)

lemma outcomes_follow:
  assumes "list_all2 (follows A) bs ts" and "list_all (\<lambda>b. outcome b \<noteq> None) ts"
  shows "list_all2 (\<lambda>b r. follows A b (Finished r)) bs (map (the \<circ> outcome) ts)"
  using assms by (fastforce simp: list_all2_conv_all_nth list_all_length)

text \<open>A joined operation whose branches all come to an end does so itself, and does not stop before.\<close>

lemma joinStep_listrel1:
  assumes "joinStep A (Joined bs f) s s'"
  shows "(js_branches s', js_branches s) \<in> listrel1 (opNext A)"
  using assms
proof (cases rule: joinStep.cases)
  case (reply i m k u a)
  have "(k a, js_branches s ! i) \<in> opNext A" using reply by auto
  then have "((js_branches s)[i := k a], js_branches s) \<in> listrel1 (opNext A)"
    using reply(2) unfolding listrel1_iff_update by (intro exI [of _ "js_branches s ! i"] exI [of _ i]) simp
  then show ?thesis using reply by (simp add: joinReply_def maybeFire_def Let_def)
qed

lemma join_no_endless:
  assumes "set bs \<subseteq> Wellfounded.acc (opNext A)"
  shows "\<not> (\<exists>\<sigma>. \<sigma> 0 = joinStart (Joined bs f) \<and> (\<forall>n. joinStep A (Joined bs f) (\<sigma> n) (\<sigma> (Suc n))))"
proof
  assume "\<exists>\<sigma>. \<sigma> 0 = joinStart (Joined bs f) \<and> (\<forall>n. joinStep A (Joined bs f) (\<sigma> n) (\<sigma> (Suc n)))"
  then obtain \<sigma> where s: "\<sigma> 0 = joinStart (Joined bs f)" "joinStep A (Joined bs f) (\<sigma> n) (\<sigma> (Suc n))" for n by blast
  have "js_branches (\<sigma> n) = x \<Longrightarrow> False" if "x \<in> Wellfounded.acc (listrel1 (opNext A))" for x n
    using that
  proof (induction arbitrary: n rule: acc.induct)
    case (accI x)
    then show ?case using joinStep_listrel1 [OF s(2) [of n]] by metis
  qed
  moreover have "bs \<in> Wellfounded.acc (listrel1 (opNext A))"
    using assms by (intro lists_accD) auto
  moreover have "js_branches (\<sigma> 0) = bs" using s(1) by (simp add: maybeFire_def)
  ultimately show False by blast
qed

lemma join_progress:
  assumes "joinInv A bs f s" and "js_called s = []" and "\<And>q. \<exists>a. A q a"
  shows "\<exists>s'. joinStep A (Joined bs f) s s'"
proof -
  from assms(1,2) obtain i where i: "i < length (js_branches s)" "outcome (js_branches s ! i) = None"
    by (auto simp: joinInv_def list_all_length simp del: not_None_eq split: if_splits)
  then obtain m k where k: "js_branches s ! i = Send m k" by (cases "js_branches s ! i") simp_all
  obtain a where a: "A (m (newMessageId [])) a" using assms(3) by blast
  have "uuidText []" by (simp add: uuidText_def)
  from joinStep.reply [where A = A, OF i(1) k this a] show ?thesis by blast
qed

section \<open>Branches\<close>

text \<open>The two kinds of branches: \<open>kickEnum\<close> (\<open>kick\<close>) enumerates a class, \<open>kickGet\<close> reads a record, whose body is then its only item.\<close>

definition kickEnum :: "'d opsenv \<Rightarrow> qstring \<Rightarrow> qstring \<Rightarrow> ('d, 'd enumerated) op" where
  "kickEnum e to uri = enumerateAll e (Some to) uri"

definition kickGet :: "'d opsenv \<Rightarrow> qstring \<Rightarrow> qstring \<Rightarrow> ('d, 'd enumerated) op" where
  "kickGet e to uri =
     Send (buildGetEnvelope (o_xml e) uri [] to) (\<lambda>a. Finished (opReply e a (\<lambda>err. ([], err)) (\<lambda>body. ([body], []))))"

lemma kickGet_acc: "kickGet e to uri \<in> Wellfounded.acc (opNext A)"
  unfolding kickGet_def by (intro acc_Send acc_Finished)

lemma kickGet_result:
  "follows (\<lambda>q a. a = dev q) (kickGet e to uri) (Finished r) \<Longrightarrow>
    \<exists>u. uuidText u \<and> r = opReply e (dev (buildGetEnvelope (o_xml e) uri [] to (newMessageId u))) (\<lambda>err. ([], err)) (\<lambda>body. ([body], []))"
  unfolding kickGet_def by (drule follows_Send) (auto dest: follows_Finished)

subsection \<open>Enumerating against a device that pages\<close>

text \<open>Every run of an enumeration ends, with the items of the pages; \<open>dev\<close> is the device's answer to a request.\<close>

definition pagesItems :: "'d opsenv \<Rightarrow> (qstring \<times> xnode list) list \<Rightarrow> 'd list \<Rightarrow> bool" where
  "pagesItems e pages ds \<longleftrightarrow>
     (\<exists>ts. ds = map (x_write (o_xml e)) ts \<and> map tidy ts = map (tidy \<circ> flat) (concat (map (pageItems \<circ> snd) pages)))"

lemma pulls_follow:
  assumes "faithful (o_xml e)" and "\<And>u. uuidText u \<Longrightarrow> servesPages e dev (\<lambda>i. u) uri to opened pages"
  shows "k < length pages \<Longrightarrow>
    loopOp (enumPull e to uri) (Inl (acc, fst (pages ! k))) \<in> Wellfounded.acc (opNext (\<lambda>q a. a = dev q)) \<and>
    (\<forall>r. follows (\<lambda>q a. a = dev q) (loopOp (enumPull e to uri) (Inl (acc, fst (pages ! k)))) (Finished r) \<longrightarrow>
      (\<exists>ds. r = (acc @ ds, []) \<and> pagesItems e (drop k pages) ds))"
proof (induction "length pages - k" arbitrary: k acc)
  case (Suc m)
  let ?ks = "snd (pages ! k)" and ?A = "\<lambda>q a. a = dev q" and ?p = "loopOp (enumPull e to uri) (Inl (acc, fst (pages ! k)))"
  let ?q = "\<lambda>u. buildPullEnvelope (o_xml e) uri (fst (pages ! k)) 64 to (newMessageId u)"
  let ?next = "\<lambda>u. loopOp (enumPull e to uri) (snd (enumPull e to uri (acc, fst (pages ! k))) (dev (?q u)))"
  have dr: "drop k pages = pages ! k # drop (Suc k) pages" using Suc.prems(1) by (rule Cons_nth_drop_Suc [symmetric])
  have n: "?next u \<in> Wellfounded.acc (opNext ?A) \<and>
      (\<forall>r. follows ?A (?next u) (Finished r) \<longrightarrow> (\<exists>ds. r = (acc @ ds, []) \<and> pagesItems e (drop k pages) ds))" if u: "uuidText u" for u
  proof -
    obtain d where d: "dev (?q u) = ReplyBody d" "carries (o_xml e) d (XElem kNsEnumeration (qlit ''PullResponse'') [] ?ks)"
      and pl: "\<forall>n \<in> set ?ks. pullPlain n"
      using assms(2) [OF u] Suc.prems(1) unfolding servesPages_def by blast
    obtain ts where ts: "map tidy ts = map (tidy \<circ> flat) (pageItems ?ks)"
      "snd (enumPull e to uri (acc, fst (pages ! k))) (ReplyBody d) =
        (let acc = acc @ map (x_write (o_xml e)) ts; ctx = lastText kNsEnumeration (qlit ''EnumerationContext'') [] ?ks
         in if pageEnds ?ks \<or> ctx = [] then Inr (acc, []) else Inl (acc, ctx))"
      using pull_reply [OF assms(1) d(2) pl, of to uri "(acc, fst (pages ! k))"] by auto
    show ?thesis
    proof (cases "Suc k < length pages")
      case True
      then have c: "\<not> pageEnds ?ks" "lastText kNsEnumeration (qlit ''EnumerationContext'') [] ?ks = fst (pages ! Suc k)" "fst (pages ! Suc k) \<noteq> []"
        using assms(2) [OF u] Suc.prems(1) unfolding servesPages_def by auto
      have "m = length pages - Suc k" using Suc.hyps(2) by simp
      note ih = Suc.hyps(1) [OF this True, of "acc @ map (x_write (o_xml e)) ts"]
      have nx: "?next u = loopOp (enumPull e to uri) (Inl (acc @ map (x_write (o_xml e)) ts, fst (pages ! Suc k)))"
        using d(1) ts(2) c by (simp add: Let_def del: loopOp_simps)
      have "pagesItems e (drop k pages) (map (x_write (o_xml e)) ts @ ds)" if h: "pagesItems e (drop (Suc k) pages) ds" for ds
      proof -
        obtain us where "ds = map (x_write (o_xml e)) us" "map tidy us = map (tidy \<circ> flat) (concat (map (pageItems \<circ> snd) (drop (Suc k) pages)))"
          using h unfolding pagesItems_def by blast
        then show ?thesis using ts(1) unfolding pagesItems_def dr by (intro exI [of _ "ts @ us"]) simp
      qed
      then show ?thesis unfolding nx using ih by (metis append_assoc)
    next
      case False
      then have "pageEnds ?ks \<or> lastText kNsEnumeration (qlit ''EnumerationContext'') [] ?ks = []" and e: "drop (Suc k) pages = []"
        using assms(2) [OF u] Suc.prems(1) unfolding servesPages_def by auto
      then have "?next u = Finished (acc @ map (x_write (o_xml e)) ts, [])"
        using d(1) ts(2) by (simp add: Let_def)
      moreover have "pagesItems e (drop k pages) (map (x_write (o_xml e)) ts)"
        using ts(1) unfolding pagesItems_def dr e by (intro exI [of _ ts]) simp
      ultimately show ?thesis
        using acc_Finished by (auto dest: follows_Finished)
    qed
  qed
  have p: "?p = Send (buildPullEnvelope (o_xml e) uri (fst (pages ! k)) 64 to) (\<lambda>a. loopOp (enumPull e to uri) (snd (enumPull e to uri (acc, fst (pages ! k))) a))"
    by (simp add: enumPull_def)
  have "?p \<in> Wellfounded.acc (opNext ?A)"
    unfolding p by (rule acc_Send) (use n in simp)
  moreover have "\<exists>ds. r = (acc @ ds, []) \<and> pagesItems e (drop k pages) ds" if "follows ?A ?p (Finished r)" for r
    using follows_Send [OF that [unfolded p]] n by blast
  ultimately show ?case by blast
qed simp

lemma kickEnum_result:
  assumes "faithful (o_xml e)" and "\<And>u. uuidText u \<Longrightarrow> servesPages e dev (\<lambda>i. u) uri to opened pages" and "pages \<noteq> []"
  shows "kickEnum e to uri \<in> Wellfounded.acc (opNext (\<lambda>q a. a = dev q))"
    "follows (\<lambda>q a. a = dev q) (kickEnum e to uri) (Finished r) \<Longrightarrow> \<exists>ds. r = (ds, []) \<and> pagesItems e pages ds"
proof -
  let ?A = "\<lambda>q a. a = dev q" and ?q = "\<lambda>u. buildEnumerateEnvelope (o_xml e) uri to (newMessageId u)"
  let ?k = "\<lambda>a. opReply e a (\<lambda>err. Finished ([], err)) (\<lambda>body. let ctx = parseEnumerateContext (o_xml e) body
    in if ctx = [] then Finished ([], []) else loopOp (enumPull e to uri) (Inl ([], ctx)))"
  have k: "?k (dev (?q u)) = loopOp (enumPull e to uri) (Inl ([], fst (pages ! 0)))" if u: "uuidText u" for u
  proof -
    note sv = assms(2) [OF u, unfolded servesPages_def]
    obtain d where d: "dev (?q u) = ReplyBody d" "carries (o_xml e) d opened" using sv by blast
    have o: "findToken (qlit ''EnumerationContext'') (flat opened) = fst (pages ! 0)" "fst (pages ! 0) \<noteq> []"
      using sv assms(3) by (simp_all add: hd_conv_nth)
    note c = carries_read [OF assms(1) d(2)]
    have "parseEnumerateContext (o_xml e) (bodyXml (parseResponse (o_xml e) d)) = fst (pages ! 0)"
      using findToken_cong [OF c(2)] o(1) by (simp add: parseEnumerateContext_def findScalar_def)
    then show ?thesis using d(1) c(1) o(2) by (simp add: opReply_def Let_def del: loopOp_simps)
  qed
  have p: "kickEnum e to uri = Send (buildEnumerateEnvelope (o_xml e) uri to) ?k"
    by (simp add: kickEnum_def enumerateAll_def)
  have f: "0 < length pages" using assms(3) by simp
  note pf = pulls_follow [OF assms(1,2) f, of "[]"]
  show "kickEnum e to uri \<in> Wellfounded.acc (opNext ?A)"
    unfolding p
  proof (rule acc_Send)
    fix u a
    assume "uuidText u" "a = dev (?q u)"
    then have a: "?k a = loopOp (enumPull e to uri) (Inl ([], fst (pages ! 0)))" using k by simp
    show "?k a \<in> Wellfounded.acc (opNext ?A)" unfolding a by (rule pf [THEN conjunct1])
  qed
  show "\<exists>ds. r = (ds, []) \<and> pagesItems e pages ds" if h: "follows ?A (kickEnum e to uri) (Finished r)"
  proof -
    obtain u where u: "uuidText u" "follows ?A (?k (dev (?q u))) (Finished r)"
      using follows_Send [OF h [unfolded p]] by auto
    from u(2) [unfolded k [OF u(1)]] have "\<exists>ds. r = ([] @ ds, []) \<and> pagesItems e (drop 0 pages) ds" using pf by blast
    then show ?thesis by simp
  qed
qed

section \<open>Readers the operations share\<close>

text \<open>\<open>toInt\<close> with a default when the text is no number, and without one, where it gives 0.\<close>

definition intOr :: "'d opsenv \<Rightarrow> 'd \<Rightarrow> string \<Rightarrow> int \<Rightarrow> int" where
  "intOr e item nm d = (case o_toInt e (scalar e item nm) of Some v \<Rightarrow> v | None \<Rightarrow> d)"

definition longOf :: "'d opsenv \<Rightarrow> 'd \<Rightarrow> string \<Rightarrow> int" where
  "longOf e item nm = (case o_toLongLong e (scalar e item nm) of Some v \<Rightarrow> v | None \<Rightarrow> 0)"

text \<open>A code with its label; both stay at their defaults when the text is no number.\<close>

definition coded :: "'d opsenv \<Rightarrow> 'd \<Rightarrow> string \<Rightarrow> (int \<Rightarrow> qstring) \<Rightarrow> int \<times> qstring" where
  "coded e item nm label = (case o_toInt e (scalar e item nm) of Some v \<Rightarrow> (v, label v) | None \<Rightarrow> (-1, []))"

text \<open>The labels: a table of codes, with a text for the others.\<close>

definition labelOf :: "(int \<times> string) list \<Rightarrow> (int \<Rightarrow> qstring) \<Rightarrow> int \<Rightarrow> qstring" where
  "labelOf table other code = (case map_of table code of Some t \<Rightarrow> qlit t | None \<Rightarrow> other code)"

definition tableLabel :: "string list \<Rightarrow> (int \<Rightarrow> qstring) \<Rightarrow> int \<Rightarrow> qstring" where
  "tableLabel table other code = (if 0 \<le> code \<and> code < int (length table) then qlit (table ! nat code) else other code)"

definition argNumber :: "'d opsenv \<Rightarrow> string \<Rightarrow> int \<Rightarrow> qstring" where
  "argNumber e pattern code = o_arg e (qlit pattern) (intText code)"

definition argHex :: "'d opsenv \<Rightarrow> string \<Rightarrow> int \<Rightarrow> qstring" where
  "argHex e pattern code = o_arg e (qlit pattern) (o_hexUpper e code)"

text \<open>The first error among what the branches returned, and the items of the \<open>i\<close>-th branch.\<close>

definition firstError :: "'d enumerated list \<Rightarrow> qstring" where
  "firstError slots = (case filter (\<lambda>t. t \<noteq> []) (map snd slots) of [] \<Rightarrow> [] | t # r \<Rightarrow> t)"

definition itemsAt :: "'d enumerated list \<Rightarrow> nat \<Rightarrow> 'd list" where
  "itemsAt slots i = fst (slots ! i)"

section \<open>Network interfaces\<close>

definition linkPolicyLabel :: "'d opsenv \<Rightarrow> int \<Rightarrow> qstring" where
  "linkPolicyLabel e = labelOf [(1, ''S0/AC''), (14, ''Sx/AC''), (16, ''S0/DC''), (224, ''Sx/DC'')] (argNumber e ''Code %1'')"

record IPv6PortSettings =
  v6_present :: bool
  v6_instanceId :: qstring
  v6_addresses :: "qstring list"
  v6_defaultRouter :: qstring
  v6_primaryDns :: qstring
  v6_secondaryDns :: qstring

record EthernetInterface =
  eif_instanceId :: qstring
  eif_macAddress :: qstring
  eif_dhcpEnabled :: bool
  eif_ipSyncEnabled :: bool
  eif_ipAddress :: qstring
  eif_subnetMask :: qstring
  eif_defaultGateway :: qstring
  eif_primaryDns :: qstring
  eif_secondaryDns :: qstring
  eif_linkPolicy :: "int list"
  eif_ipv6 :: IPv6PortSettings

record EthernetSettingsResult =
  eth_ok :: bool
  eth_error :: qstring
  eth_interfaces :: "EthernetInterface list"
  eth_macAddress :: qstring
  eth_dhcpEnabled :: bool
  eth_ipv4Enabled :: bool
  eth_ipAddress :: qstring
  eth_subnetMask :: qstring
  eth_defaultGateway :: qstring
  eth_primaryDns :: qstring
  eth_secondaryDns :: qstring

definition noIpv6 :: IPv6PortSettings where
  "noIpv6 = \<lparr>v6_present = False, v6_instanceId = [], v6_addresses = [], v6_defaultRouter = [], v6_primaryDns = [], v6_secondaryDns = []\<rparr>"

definition parseEthernetItem :: "'d opsenv \<Rightarrow> 'd \<Rightarrow> EthernetInterface" where
  "parseEthernetItem e item =
     \<lparr>eif_instanceId = scalar e item ''InstanceID'', eif_macAddress = scalar e item ''MACAddress'', eif_dhcpEnabled = truthy e item ''DHCPEnabled'',
      eif_ipSyncEnabled = truthy e item ''IpSyncEnabled'', eif_ipAddress = scalar e item ''IPAddress'', eif_subnetMask = scalar e item ''SubnetMask'',
      eif_defaultGateway = scalar e item ''DefaultGateway'', eif_primaryDns = scalar e item ''PrimaryDNS'', eif_secondaryDns = scalar e item ''SecondaryDNS'',
      eif_linkPolicy = List.map_filter (o_toInt e) (elementTexts e ''LinkPolicy'' item), eif_ipv6 = noIpv6\<rparr>"

definition parseIpv6Item :: "'d opsenv \<Rightarrow> 'd \<Rightarrow> IPv6PortSettings" where
  "parseIpv6Item e item =
     \<lparr>v6_present = True, v6_instanceId = scalar e item ''InstanceID'',
      v6_addresses = map (takeWhile (\<lambda>c. c \<noteq> 0x2C)) (filter (\<lambda>t. t \<noteq> []) (elementTexts e ''CurrentAddressInfo'' item)),
      v6_defaultRouter = scalar e item ''CurrentDefaultRouter'', v6_primaryDns = scalar e item ''CurrentPrimaryDNS'',
      v6_secondaryDns = scalar e item ''CurrentSecondaryDNS''\<rparr>"

definition instanceIdOrdinal :: "'d opsenv \<Rightarrow> qstring \<Rightarrow> int" where
  "instanceIdOrdinal e ident =
     (let digits = rev (takeWhile (o_isDigit e) (rev ident))
      in if digits = [] then -1 else case o_toInt e digits of Some v \<Rightarrow> v | None \<Rightarrow> -1)"

definition attachIpv6 :: "'d opsenv \<Rightarrow> IPv6PortSettings list \<Rightarrow> EthernetInterface \<Rightarrow> EthernetInterface" where
  "attachIpv6 e ss i =
     (let n = instanceIdOrdinal e (eif_instanceId i); m = filter (\<lambda>s. instanceIdOrdinal e (v6_instanceId s) = n) ss
      in if 0 \<le> n \<and> m \<noteq> [] then i\<lparr>eif_ipv6 := last m\<rparr> else i)"

definition populateBackwardCompatFields :: "EthernetSettingsResult \<Rightarrow> EthernetSettingsResult" where
  "populateBackwardCompatFields r =
     (case eth_interfaces r of
        [] \<Rightarrow> r
      | i # _ \<Rightarrow> r\<lparr>eth_macAddress := eif_macAddress i, eth_dhcpEnabled := eif_dhcpEnabled i,
          eth_ipv4Enabled := (eif_ipSyncEnabled i \<or> eif_ipAddress i \<noteq> []), eth_ipAddress := eif_ipAddress i, eth_subnetMask := eif_subnetMask i,
          eth_defaultGateway := eif_defaultGateway i, eth_primaryDns := eif_primaryDns i, eth_secondaryDns := eif_secondaryDns i\<rparr>)"

definition ethernetWith :: "bool \<Rightarrow> qstring \<Rightarrow> EthernetInterface list \<Rightarrow> EthernetSettingsResult" where
  "ethernetWith ok err is = populateBackwardCompatFields
     \<lparr>eth_ok = ok, eth_error = err, eth_interfaces = is, eth_macAddress = [], eth_dhcpEnabled = False, eth_ipv4Enabled = False, eth_ipAddress = [],
      eth_subnetMask = [], eth_defaultGateway = [], eth_primaryDns = [], eth_secondaryDns = []\<rparr>"

definition ethernetOf :: "'d opsenv \<Rightarrow> 'd enumerated list \<Rightarrow> EthernetSettingsResult" where
  "ethernetOf e slots =
     (let is = map (attachIpv6 e (map (parseIpv6Item e) (itemsAt slots 1)) \<circ> parseEthernetItem e) (itemsAt slots 0);
          ok = (is \<noteq> [] \<and> eif_macAddress (hd is) \<noteq> []);
          err = snd (slots ! 0)
      in ethernetWith ok (if ok then [] else if err = [] then qlit ''AMT_EthernetPortSettings returned no interfaces'' else err) is)"

definition getEthernetSettings :: "'d opsenv \<Rightarrow> wsclient \<Rightarrow> ('d, EthernetSettingsResult) joined" where
  "getEthernetSettings e c =
     (case c of
        None \<Rightarrow> Immediate (ethernetWith False (qlit ''client is null'') [])
      | Some to \<Rightarrow> Joined [kickEnum e to kEthernetSettingsResource, kickEnum e to kIpv6PortSettingsResource] (ethernetOf e))"

section \<open>Redirection and power\<close>

record RedirectionStatusResult =
  rds_ok :: bool
  rds_error :: qstring
  rds_redirectionListenerEnabled :: bool
  rds_solEnabled :: bool
  rds_iderEnabled :: bool
  rds_kvmEnabled :: bool
  rds_kvmAvailable :: bool

text \<open>
  \<open>getRedirectionStatus\<close>: an error of the first record is the error of the call, one of the second means that the machine has no
  such record.
\<close>

definition redirectionOf :: "'d opsenv \<Rightarrow> 'd enumerated list \<Rightarrow> RedirectionStatusResult" where
  "redirectionOf e slots =
     (let err = snd (slots ! 0); svc = itemsAt slots 0; sap = itemsAt slots 1;
          state = (case svc of [] \<Rightarrow> None | b # _ \<Rightarrow> o_toInt e (scalar e b ''EnabledState''));
          kvm = (case sap of [] \<Rightarrow> None | b # _ \<Rightarrow> o_toInt e (scalar e b ''EnabledState''))
      in \<lparr>rds_ok = (err = []), rds_error = err,
          rds_redirectionListenerEnabled = (case svc of [] \<Rightarrow> False | b # _ \<Rightarrow> truthy e b ''ListenerEnabled''),
          rds_solEnabled = (case state of None \<Rightarrow> False | Some v \<Rightarrow> bit v 1), rds_iderEnabled = (case state of None \<Rightarrow> False | Some v \<Rightarrow> bit v 0),
          rds_kvmEnabled = (kvm = Some 2 \<or> kvm = Some 6), rds_kvmAvailable = (sap \<noteq> [])\<rparr>)"

definition getRedirectionStatus :: "'d opsenv \<Rightarrow> wsclient \<Rightarrow> ('d, RedirectionStatusResult) joined" where
  "getRedirectionStatus e c =
     (case c of
        None \<Rightarrow> Immediate (redirectionOf e [([], qlit ''client is null''), ([], [])])
      | Some to \<Rightarrow> Joined [kickGet e to kRedirectionServiceResource, kickGet e to kKvmRedirectionSapResource] (redirectionOf e))"

record PowerScheme =
  psc_instanceId :: qstring
  psc_schemeGuid :: qstring
  psc_description :: qstring

record PowerSchemesResult =
  pss_ok :: bool
  pss_error :: qstring
  pss_schemes :: "PowerScheme list"
  pss_currentInstanceId :: qstring

definition powerSchemeOf :: "'d opsenv \<Rightarrow> 'd \<Rightarrow> PowerScheme" where
  "powerSchemeOf e item =
     \<lparr>psc_instanceId = scalar e item ''InstanceID'', psc_schemeGuid = scalar e item ''SchemeGUID'', psc_description = scalar e item ''Description''\<rparr>"

definition powerSchemesOf :: "'d opsenv \<Rightarrow> 'd enumerated list \<Rightarrow> PowerSchemesResult" where
  "powerSchemesOf e slots =
     (let schemes = filter (\<lambda>p. psc_instanceId p \<noteq> []) (map (powerSchemeOf e) (itemsAt slots 0));
          schemesErr = snd (slots ! 0);
          ok = (schemes \<noteq> [] \<and> schemesErr = []);
          currents = filter (\<lambda>t. t \<noteq> []) (map (extractCurrentPowerSchemeInstanceId e) (itemsAt slots 1))
      in \<lparr>pss_ok = ok,
          pss_error = (if ok then [] else if schemesErr \<noteq> [] then schemesErr else qlit ''AMT_SystemPowerScheme enumeration returned no rows''),
          pss_schemes = schemes, pss_currentInstanceId = (case currents of [] \<Rightarrow> [] | t # _ \<Rightarrow> t)\<rparr>)"

definition getPowerSchemes :: "'d opsenv \<Rightarrow> wsclient \<Rightarrow> ('d, PowerSchemesResult) joined" where
  "getPowerSchemes e c =
     Joined [enumerateAll e c kSystemPowerSchemeResource, enumerateAll e c kElementSettingDataResource] (powerSchemesOf e)"

section \<open>Agents\<close>

definition monitoredEntityName :: "int \<Rightarrow> qstring" where
  "monitoredEntityName = tableLabel [''Unknown'', ''Other'', ''Operating System'', ''OS Boot Process'', ''OS Shutdown Process'', ''Firmware Boot Process'',
     ''BIOS Boot Process'', ''Application'', ''Service Processor''] (\<lambda>code. qlit ''Unknown'')"

definition enabledStateName :: "int \<Rightarrow> qstring" where
  "enabledStateName = tableLabel [''Unknown'', ''Other'', ''Enabled'', ''Disabled'', ''Shutting Down'', ''Not Applicable'', ''Enabled but Offline'', ''In Test'',
     ''Deferred'', ''Quiesce'', ''Starting''] (\<lambda>code. qlit ''Unknown'')"

definition watchdogStateName :: "int \<Rightarrow> qstring" where
  "watchdogStateName = labelOf [(1, ''Not Started''), (2, ''Stopped''), (4, ''Running''), (8, ''Expired''), (16, ''Suspended'')] (\<lambda>code. qlit ''Unknown'')"

definition actionSacName :: "int \<Rightarrow> qstring" where
  "actionSacName = labelOf [(1, ''Send Alert''), (2, ''Log to Event Log''), (16, ''Power Off''), (17, ''Reset''), (18, ''Power Cycle'')] (\<lambda>code. qlit ''Unknown'')"

definition guidText :: "qstring \<Rightarrow> qstring" where
  "guidText hex = take 8 hex @ [0x2D] @ take 4 (drop 8 hex) @ [0x2D] @ take 4 (drop 12 hex) @ [0x2D] @ take 4 (drop 16 hex) @ [0x2D] @ take 12 (drop 20 hex)"

definition decodeWatchdogDeviceId :: "'d opsenv \<Rightarrow> qstring \<Rightarrow> qstring" where
  "decodeWatchdogDeviceId e b64 =
     (if b64 = [] then []
      else let raw = o_fromBase64 e (o_toLatin1 e b64) in if length raw \<noteq> 16 then [] else guidText (fromLatin1 (toHex raw)))"

record AgentPresenceWatchdog =
  apw_deviceIdGuid :: qstring
  apw_description :: qstring
  apw_monitoredEntityCode :: int
  apw_monitoredEntityLabel :: qstring
  apw_currentStateCode :: int
  apw_currentStateLabel :: qstring
  apw_enabledStateCode :: int
  apw_enabledStateLabel :: qstring
  apw_startupIntervalSec :: int
  apw_timeoutIntervalSec :: int

record AgentPresenceWatchdogAction =
  apa_watchdogDeviceIdGuid :: qstring
  apa_oldState :: int
  apa_oldStateLabel :: qstring
  apa_newState :: int
  apa_newStateLabel :: qstring
  apa_eventOnTransition :: bool
  apa_actionSac :: int
  apa_actionSacLabel :: qstring
  apa_actionEac :: int

record AgentPresenceResult =
  apr_ok :: bool
  apr_error :: qstring
  apr_maxTotalAgents :: int
  apr_maxTotalActions :: int
  apr_watchdogs :: "AgentPresenceWatchdog list"
  apr_actions :: "AgentPresenceWatchdogAction list"

definition watchdogOf :: "'d opsenv \<Rightarrow> 'd \<Rightarrow> AgentPresenceWatchdog" where
  "watchdogOf e item =
     (let me = intOr e item ''MonitoredEntity'' (-1); cs = intOr e item ''CurrentState'' (-1); es = intOr e item ''EnabledState'' (-1)
      in \<lparr>apw_deviceIdGuid = decodeWatchdogDeviceId e (scalar e item ''DeviceID''), apw_description = scalar e item ''MonitoredEntityDescription'',
          apw_monitoredEntityCode = me, apw_monitoredEntityLabel = monitoredEntityName me, apw_currentStateCode = cs,
          apw_currentStateLabel = watchdogStateName cs, apw_enabledStateCode = es, apw_enabledStateLabel = enabledStateName es,
          apw_startupIntervalSec = intOr e item ''StartupInterval'' 0, apw_timeoutIntervalSec = intOr e item ''TimeoutInterval'' 0\<rparr>)"

definition watchdogActionOf :: "'d opsenv \<Rightarrow> 'd \<Rightarrow> AgentPresenceWatchdogAction" where
  "watchdogActionOf e item =
     (let old = intOr e item ''OldState'' (-1); new = intOr e item ''NewState'' (-1); sac = intOr e item ''ActionSAC'' (-1);
          eot = o_toLower e (o_trimmed e (scalar e item ''EventOnTransition''))
      in \<lparr>apa_watchdogDeviceIdGuid = decodeWatchdogDeviceId e (scalar e item ''Watchdog''), apa_oldState = old, apa_oldStateLabel = watchdogStateName old,
          apa_newState = new, apa_newStateLabel = watchdogStateName new, apa_eventOnTransition = (eot = qlit ''true'' \<or> eot = qlit ''1''),
          apa_actionSac = sac, apa_actionSacLabel = actionSacName sac, apa_actionEac = intOr e item ''ActionEAC'' (-1)\<rparr>)"

definition agentPresenceOf :: "'d opsenv \<Rightarrow> 'd enumerated list \<Rightarrow> AgentPresenceResult" where
  "agentPresenceOf e slots =
     (let err = snd (slots ! 1); limit = (\<lambda>nm. case itemsAt slots 0 of [] \<Rightarrow> 0 | b # _ \<Rightarrow> intOr e b nm 0)
      in \<lparr>apr_ok = (err = []), apr_error = err, apr_maxTotalAgents = limit ''MaxTotalAgents'', apr_maxTotalActions = limit ''MaxTotalActions'',
          apr_watchdogs = map (watchdogOf e) (itemsAt slots 1), apr_actions = map (watchdogActionOf e) (itemsAt slots 2)\<rparr>)"

definition getAgentPresence :: "'d opsenv \<Rightarrow> wsclient \<Rightarrow> ('d, AgentPresenceResult) joined" where
  "getAgentPresence e c =
     Joined [case c of None \<Rightarrow> Finished ([], []) | Some to \<Rightarrow> kickGet e to kAgentPresenceCapabilitiesResource,
       enumerateAll e c kAgentPresenceWatchdogResource, enumerateAll e c kAgentPresenceWatchdogActionResource] (agentPresenceOf e)"

section \<open>Event subscriptions\<close>

definition listenerDeliveryModeLabel :: "int \<Rightarrow> qstring" where
  "listenerDeliveryModeLabel = labelOf [(2, ''Push''), (3, ''Push with ACK''), (4, ''Events''), (5, ''Pull'')] (\<lambda>code. qlit ''Unknown'')"

record EventFilter =
  evf_instanceId :: qstring
  evf_collectionName :: qstring

record EventListener =
  evl_name :: qstring
  evl_destination :: qstring
  evl_deliveryMode :: int
  evl_deliveryModeLabel :: qstring

record EventSubscription =
  evs_filterInstanceId :: qstring
  evs_listenerName :: qstring

record EventSubscriptionsResult =
  esr_ok :: bool
  esr_error :: qstring
  esr_filters :: "EventFilter list"
  esr_listeners :: "EventListener list"
  esr_subscriptions :: "EventSubscription list"

definition listenerOf :: "'d opsenv \<Rightarrow> 'd \<Rightarrow> EventListener" where
  "listenerOf e item =
     (let m = intOr e item ''DeliveryMode'' (-1)
      in \<lparr>evl_name = scalar e item ''Name'', evl_destination = scalar e item ''Destination'', evl_deliveryMode = m,
          evl_deliveryModeLabel = listenerDeliveryModeLabel m\<rparr>)"

definition subscriptionsOf :: "'d opsenv \<Rightarrow> 'd enumerated list \<Rightarrow> EventSubscriptionsResult" where
  "subscriptionsOf e slots =
     (let allFailed = list_all (\<lambda>s. snd s \<noteq> []) slots
      in \<lparr>esr_ok = (\<not> allFailed), esr_error = (if allFailed then snd (slots ! 2) else []),
          esr_filters = filter (\<lambda>f. evf_instanceId f \<noteq> [])
            (map (\<lambda>it. \<lparr>evf_instanceId = scalar e it ''InstanceID'', evf_collectionName = scalar e it ''CollectionName''\<rparr>) (itemsAt slots 0)),
          esr_listeners = filter (\<lambda>l. evl_destination l \<noteq> []) (map (listenerOf e) (itemsAt slots 1)),
          esr_subscriptions = map (\<lambda>it. \<lparr>evs_filterInstanceId = extractEprSelector e it ''Filter'' ''InstanceID'',
            evs_listenerName = extractEprSelector e it ''Handler'' ''Name''\<rparr>) (itemsAt slots 2)\<rparr>)"

definition getEventSubscriptions :: "'d opsenv \<Rightarrow> wsclient \<Rightarrow> ('d, EventSubscriptionsResult) joined" where
  "getEventSubscriptions e c =
     Joined [enumerateAll e c kFilterCollectionResource, enumerateAll e c kListenerDestinationResource,
       enumerateAll e c kFilterCollectionSubscriptionResource] (subscriptionsOf e)"

section \<open>Sessions under way\<close>

record ActiveRedirectionSession =
  ars_sourceAddress :: qstring
  ars_sourcePort :: int
  ars_sessionInstanceId :: qstring

record ActiveSessionsResult =
  asr_ok :: bool
  asr_error :: qstring
  asr_sol :: "ActiveRedirectionSession list"
  asr_kvm :: "ActiveRedirectionSession list"
  asr_ider :: "ActiveRedirectionSession list"

definition parseActiveSessionRow :: "'d opsenv \<Rightarrow> 'd \<Rightarrow> ActiveRedirectionSession" where
  "parseActiveSessionRow e item =
     \<lparr>ars_sourceAddress = scalar e item ''SourceAddress'', ars_sourcePort = intOr e item ''SourcePort'' 0, ars_sessionInstanceId = scalar e item ''InstanceID''\<rparr>"

definition sessionsOf :: "'d opsenv \<Rightarrow> 'd enumerated list \<Rightarrow> ActiveSessionsResult" where
  "sessionsOf e slots =
     (let err = (\<lambda>i. snd (slots ! i)); rows = (\<lambda>i. map (parseActiveSessionRow e) (itemsAt slots i));
          failed = (err 0 \<noteq> [] \<and> err 1 \<noteq> [] \<and> err 2 \<noteq> [] \<and> err 0 = err 1 \<and> err 1 = err 2)
      in \<lparr>asr_ok = (\<not> failed), asr_error = (if failed then err 0 else []), asr_sol = rows 0, asr_kvm = rows 1, asr_ider = rows 2\<rparr>)"

definition getActiveSessions :: "'d opsenv \<Rightarrow> wsclient \<Rightarrow> ('d, ActiveSessionsResult) joined" where
  "getActiveSessions e c =
     Joined [enumerateAll e c kSolSessionUsingPortResource, enumerateAll e c kKvmSessionUsingPortResource,
       enumerateAll e c kIderSessionUsingPortResource] (sessionsOf e)"

end
