(* ===== verification/Ops_Inventory.thy ===== *)
theory Ops_Inventory
  imports Ops_Join
begin

text \<open>
  The large joined operations of \<open>operations.cpp\<close>: the hardware inventory, the certificate store, remote access, wireless and system
  defense, with the readers of their rows, and what holds of all joined operations.
\<close>

section \<open>Hardware\<close>

definition dmtfCpuStatusLabel :: "'d opsenv \<Rightarrow> int \<Rightarrow> qstring" where
  "dmtfCpuStatusLabel e = tableLabel [''Unknown'', ''Enabled'', ''Disabled by User'', ''Disabled by BIOS (POST error)'', ''Idle'', ''Other'']
     (argNumber e ''CPU status %1'')"

text \<open>The names have the signs for a registered trademark and a trademark.\<close>

definition coreName :: "string \<Rightarrow> qstring" where
  "coreName t = qlit ''Intel'' @ [0xAE] @ qlit '' Core'' @ [0x2122] @ qlit t"

definition dmtfCpuFamilyLabel :: "'d opsenv \<Rightarrow> int \<Rightarrow> qstring" where
  "dmtfCpuFamilyLabel e code =
     (if code = 199 then qlit ''Dual-Core Intel'' @ [0xAE] @ qlit '' Celeron'' @ [0xAE] @ qlit '' Processor''
      else case map_of [(191, '' 2 Duo Processor''), (192, '' 2 Solo Processor''), (193, '' 2 Extreme Processor''), (194, '' 2 Quad Processor''),
          (195, '' 2 Extreme Mobile Processor''), (196, '' 2 Duo Mobile Processor''), (197, '' 2 Solo Mobile Processor''), (198, '' i7 Processor'')] code of
        Some t \<Rightarrow> coreName t
      | None \<Rightarrow> argHex e ''Family 0x%1'' code)"

definition dmtfMemFormFactorLabel :: "'d opsenv \<Rightarrow> int \<Rightarrow> qstring" where
  "dmtfMemFormFactorLabel e = tableLabel ['''', ''Other'', ''Unknown'', ''SIMM'', ''SIP'', ''Chip'', ''DIP'', ''ZIP'', ''Proprietary Card'', ''DIMM'', ''TSOP'',
     ''Row of chips'', ''RIMM'', ''SODIMM'', ''SRIMM'', ''FB-DIMM''] (argHex e ''Form 0x%1'')"

definition dmtfMemTypeLabel :: "'d opsenv \<Rightarrow> int \<Rightarrow> qstring" where
  "dmtfMemTypeLabel e = tableLabel [''Unknown'', ''Other'', ''DRAM'', ''Synchronous DRAM'', ''Cache DRAM'', ''EDO'', ''EDRAM'', ''VRAM'', ''SRAM'', ''RAM'', ''ROM'',
     ''Flash'', ''EEPROM'', ''FEPROM'', ''EPROM'', ''CDRAM'', ''3DRAM'', ''SDRAM'', ''SGRAM'', ''RDRAM'', ''DDR'', ''DDR-2'', ''BRAM'', ''FB-DIMM'', ''DDR3'', ''FBD2'',
     ''DDR4'', ''LPDDR'', ''LPDDR2'', ''LPDDR3'', ''LPDDR4''] (argHex e ''Type 0x%1'')"

definition dmtfBatteryChemistryLabel :: "'d opsenv \<Rightarrow> int \<Rightarrow> qstring" where
  "dmtfBatteryChemistryLabel e = tableLabel [''Other'', ''Unknown'', ''Lead Acid'', ''Nickel Cadmium'', ''Nickel Metal Hydride'', ''Lithium-ion'', ''Zinc air'',
     ''Lithium Polymer''] (argNumber e ''Chemistry %1'')"

definition platformGuidToString :: "'d opsenv \<Rightarrow> qstring \<Rightarrow> qstring" where
  "platformGuidToString e raw =
     (if length raw < 32 then raw
      else let g = o_toLower e raw; two = (\<lambda>i. take 2 (drop i g))
        in two 6 @ two 4 @ two 2 @ two 0 @ [0x2D] @ two 10 @ two 8 @ [0x2D] @ two 14 @ two 12 @ [0x2D] @ take 4 (drop 16 g) @ [0x2D] @ drop 20 g)"

record HardwareCpu =
  cpu_manufacturer :: qstring
  cpu_version :: qstring
  cpu_family :: int
  cpu_familyLabel :: qstring
  cpu_maxClockSpeedMhz :: int
  cpu_cpuStatus :: int
  cpu_cpuStatusLabel :: qstring

record HardwareDimm =
  dim_bankLabel :: qstring
  dim_manufacturer :: qstring
  dim_serialNumber :: qstring
  dim_capacityBytes :: int
  dim_formFactor :: int
  dim_formFactorLabel :: qstring
  dim_memoryType :: int
  dim_memoryTypeLabel :: qstring
  dim_assetTag :: qstring
  dim_partNumber :: qstring

record HardwareStorage =
  sto_model :: qstring
  sto_serialNumber :: qstring
  sto_maxMediaSizeKb :: int

record HardwareBattery =
  bat_present :: bool
  bat_deviceId :: qstring
  bat_manufacturer :: qstring
  bat_manufactureDate :: qstring
  bat_serialNumber :: qstring
  bat_chemistry :: int
  bat_chemistryLabel :: qstring
  bat_designCapacityMwh :: int
  bat_designVoltageMv :: int
  bat_otherIdentifyingInfo :: qstring

record HardwareInventoryResult =
  hwi_ok :: bool
  hwi_error :: qstring
  hwi_platformModel :: qstring
  hwi_platformManufacturer :: qstring
  hwi_platformVersion :: qstring
  hwi_platformSerialNumber :: qstring
  hwi_platformSystemId :: qstring
  hwi_baseboardManufacturer :: qstring
  hwi_baseboardModel :: qstring
  hwi_baseboardVersion :: qstring
  hwi_baseboardSerialNumber :: qstring
  hwi_baseboardAssetTag :: qstring
  hwi_baseboardReplaceable :: bool
  hwi_baseboardCanBeFRUedKnown :: bool
  hwi_biosVendor :: qstring
  hwi_biosVersion :: qstring
  hwi_biosReleaseDate :: qstring
  hwi_processors :: "HardwareCpu list"
  hwi_memoryModules :: "HardwareDimm list"
  hwi_storageDevices :: "HardwareStorage list"
  hwi_battery :: HardwareBattery

text \<open>A processor, with the chip at its position when there is one; a memory module; a disk, with the package behind its position.\<close>

definition cpuOf :: "'d opsenv \<Rightarrow> 'd list \<Rightarrow> nat \<Rightarrow> 'd \<Rightarrow> HardwareCpu" where
  "cpuOf e chips i p =
     (let fam = coded e p ''Family'' (dmtfCpuFamilyLabel e); st = coded e p ''CPUStatus'' (dmtfCpuStatusLabel e);
          chip = (\<lambda>nm. if i < length chips then scalar e (chips ! i) nm else [])
      in \<lparr>cpu_manufacturer = chip ''Manufacturer'', cpu_version = chip ''Version'', cpu_family = fst fam, cpu_familyLabel = snd fam,
          cpu_maxClockSpeedMhz = intOr e p ''MaxClockSpeed'' 0, cpu_cpuStatus = fst st, cpu_cpuStatusLabel = snd st\<rparr>)"

definition dimmOf :: "'d opsenv \<Rightarrow> 'd \<Rightarrow> HardwareDimm" where
  "dimmOf e m =
     (let ff = coded e m ''FormFactor'' (dmtfMemFormFactorLabel e); mt = coded e m ''MemoryType'' (dmtfMemTypeLabel e)
      in \<lparr>dim_bankLabel = scalar e m ''BankLabel'', dim_manufacturer = scalar e m ''Manufacturer'', dim_serialNumber = scalar e m ''SerialNumber'',
          dim_capacityBytes = longOf e m ''Capacity'', dim_formFactor = fst ff, dim_formFactorLabel = snd ff, dim_memoryType = fst mt,
          dim_memoryTypeLabel = snd mt, dim_assetTag = scalar e m ''Tag'', dim_partNumber = scalar e m ''PartNumber''\<rparr>)"

definition storageOf :: "'d opsenv \<Rightarrow> 'd list \<Rightarrow> nat \<Rightarrow> 'd \<Rightarrow> HardwareStorage" where
  "storageOf e pkgs i m =
     (let pkg = (\<lambda>nm. if i + 1 < length pkgs then scalar e (pkgs ! (i + 1)) nm else [])
      in \<lparr>sto_model = pkg ''Model'', sto_serialNumber = pkg ''SerialNumber'', sto_maxMediaSizeKb = longOf e m ''MaxMediaSize''\<rparr>)"

definition noBattery :: HardwareBattery where
  "noBattery = \<lparr>bat_present = False, bat_deviceId = [], bat_manufacturer = [], bat_manufactureDate = [], bat_serialNumber = [], bat_chemistry = -1,
     bat_chemistryLabel = [], bat_designCapacityMwh = 0, bat_designVoltageMv = 0, bat_otherIdentifyingInfo = []\<rparr>"

definition batteryOf :: "'d opsenv \<Rightarrow> 'd list \<Rightarrow> 'd \<Rightarrow> HardwareBattery" where
  "batteryOf e pkgs b =
     (let chem = coded e b ''Chemistry'' (dmtfBatteryChemistryLabel e);
          pkg = (\<lambda>nm. case filter (\<lambda>p. scalar e p ''PackageType'' = qlit ''11'') pkgs of [] \<Rightarrow> [] | p # _ \<Rightarrow> scalar e p nm)
      in \<lparr>bat_present = True, bat_deviceId = scalar e b ''DeviceID'', bat_manufacturer = pkg ''Manufacturer'', bat_manufactureDate = pkg ''Datetime'',
          bat_serialNumber = pkg ''SerialNumber'', bat_chemistry = fst chem, bat_chemistryLabel = snd chem,
          bat_designCapacityMwh = longOf e b ''DesignCapacity'', bat_designVoltageMv = longOf e b ''DesignVoltage'',
          bat_otherIdentifyingInfo = pkg ''OtherIdentifyingInfo''\<rparr>)"

text \<open>The scalars of the first instance of a class; empty when there is none.\<close>

definition firstScalar :: "'d opsenv \<Rightarrow> 'd list \<Rightarrow> string \<Rightarrow> qstring" where
  "firstScalar e is nm = (case is of [] \<Rightarrow> [] | b # _ \<Rightarrow> scalar e b nm)"

text \<open>The branches, in the order of the enumeration \<open>Kind\<close>.\<close>

definition hardwareClasses :: "qstring list" where
  "hardwareClasses = [kChassisResource, kCardResource, kBiosElementResource, kSystemPackagingResource, kProcessorResource, kChipResource,
     kPhysicalMemoryResource, kMediaAccessDeviceResource, kPhysicalPackageResource, kBatteryResource]"

definition inventoryOf :: "'d opsenv \<Rightarrow> 'd enumerated list \<Rightarrow> HardwareInventoryResult" where
  "inventoryOf e slots =
     (let anyOk = list_ex (\<lambda>s. snd s = []) slots; at = itemsAt slots;
          chassis = firstScalar e (at 0); card = firstScalar e (at 1); bios = firstScalar e (at 2); pkgs = at 8;
          date = bios ''Datetime''; frued = card ''CanBeFRUed''
      in \<lparr>hwi_ok = anyOk, hwi_error = (if anyOk then [] else firstError slots),
          hwi_platformModel = chassis ''Model'', hwi_platformManufacturer = chassis ''Manufacturer'', hwi_platformVersion = chassis ''Version'',
          hwi_platformSerialNumber = chassis ''SerialNumber'',
          hwi_platformSystemId = (if at 3 = [] then [] else platformGuidToString e (firstScalar e (at 3) ''PlatformGUID'')),
          hwi_baseboardManufacturer = card ''Manufacturer'', hwi_baseboardModel = card ''Model'', hwi_baseboardVersion = card ''Version'',
          hwi_baseboardSerialNumber = card ''SerialNumber'', hwi_baseboardAssetTag = card ''Tag'', hwi_baseboardReplaceable = (frued = qlit ''true''),
          hwi_baseboardCanBeFRUedKnown = (frued \<noteq> []),
          hwi_biosVendor = bios ''Manufacturer'', hwi_biosVersion = bios ''SoftwareElementID'',
          hwi_biosReleaseDate = (if date = [] then bios ''ReleaseDate'' else date),
          hwi_processors = map (\<lambda>(i, p). cpuOf e (at 5) i p) (enumerate 0 (at 4)),
          hwi_memoryModules = map (dimmOf e) (at 6), hwi_storageDevices = map (\<lambda>(i, m). storageOf e pkgs i m) (enumerate 0 (at 7)),
          hwi_battery = (case at 9 of [] \<Rightarrow> noBattery | b # _ \<Rightarrow> batteryOf e pkgs b)\<rparr>)"

definition getHardwareInventory :: "'d opsenv \<Rightarrow> wsclient \<Rightarrow> ('d, HardwareInventoryResult) joined" where
  "getHardwareInventory e c =
     (case c of
        None \<Rightarrow> Immediate ((inventoryOf e (replicate 10 ([], qlit ''client is null''))))
      | Some to \<Rightarrow> Joined (map (kickEnum e to) hardwareClasses) (inventoryOf e))"

section \<open>Certificates\<close>

fun qSplit :: "qchar \<Rightarrow> qstring \<Rightarrow> qstring list" where
  "qSplit c [] = [[]]"
| "qSplit c (x # xs) = (if x = c then [] # qSplit c xs else case qSplit c xs of [] \<Rightarrow> [[x]] | h # t \<Rightarrow> (x # h) # t)"

definition splitDn :: "'d opsenv \<Rightarrow> qstring \<Rightarrow> qhash" where
  "splitDn e dn =
     fold (\<lambda>raw out.
         if 0x3D \<notin> set raw then out
         else let key = o_trimmed e (takeWhile (\<lambda>c. c \<noteq> 0x3D) raw); v = o_trimmed e (tl (dropWhile (\<lambda>c. c \<noteq> 0x3D) raw))
           in if key = [] then out else hashInsert key v out)
       (qSplit 0x2C dn) []"

definition hashValue :: "qhash \<Rightarrow> qstring \<Rightarrow> qstring" where
  "hashValue h k = (case map_of h k of Some v \<Rightarrow> v | None \<Rightarrow> [])"

record DeviceCertificate =
  dvc_instanceId :: qstring
  dvc_subjectCn :: qstring
  dvc_issuerCn :: qstring
  dvc_subjectRaw :: qstring
  dvc_issuerRaw :: qstring
  dvc_trustedRoot :: bool
  dvc_derSizeBytes :: nat
  dvc_x509Base64 :: qstring

record DeviceKeyPair =
  dvk_instanceId :: qstring
  dvk_derSizeBytes :: nat

record TlsSettingsRow =
  tls_instanceId :: qstring
  tls_enabled :: bool
  tls_mutualAuthentication :: bool
  tls_acceptNonSecureConnections :: bool
  tls_trustedCn :: "qstring list"

record DeviceCertResult =
  dcr_ok :: bool
  dcr_error :: qstring
  dcr_certificates :: "DeviceCertificate list"
  dcr_keyPairs :: "DeviceKeyPair list"
  dcr_tlsSettings :: "TlsSettingsRow list"
  dcr_activeCertInstanceIds :: "qstring list"

definition derSize :: "'d opsenv \<Rightarrow> qstring \<Rightarrow> nat" where
  "derSize e b64 = length (o_fromBase64 e (o_toLatin1 e b64))"

definition parseCertItem :: "'d opsenv \<Rightarrow> 'd \<Rightarrow> DeviceCertificate" where
  "parseCertItem e item =
     (let subject = scalar e item ''Subject''; issuer = scalar e item ''Issuer''; x509 = scalar e item ''X509Certificate''
      in \<lparr>dvc_instanceId = scalar e item ''InstanceID'', dvc_subjectCn = hashValue (splitDn e subject) (qlit ''CN''),
          dvc_issuerCn = hashValue (splitDn e issuer) (qlit ''CN''), dvc_subjectRaw = subject, dvc_issuerRaw = issuer,
          dvc_trustedRoot = (truthy e item ''TrustedRootCertficate'' \<or> truthy e item ''TrustedRootCertificate''),
          dvc_derSizeBytes = derSize e x509, dvc_x509Base64 = x509\<rparr>)"

definition parseKeyPairItem :: "'d opsenv \<Rightarrow> 'd \<Rightarrow> DeviceKeyPair" where
  "parseKeyPairItem e item = \<lparr>dvk_instanceId = scalar e item ''InstanceID'', dvk_derSizeBytes = derSize e (scalar e item ''DERKey'')\<rparr>"

definition parseTlsRow :: "'d opsenv \<Rightarrow> 'd \<Rightarrow> TlsSettingsRow" where
  "parseTlsRow e item =
     \<lparr>tls_instanceId = scalar e item ''InstanceID'', tls_enabled = truthy e item ''Enabled'',
      tls_mutualAuthentication = truthy e item ''MutualAuthentication'', tls_acceptNonSecureConnections = truthy e item ''AcceptNonSecureConnections'',
      tls_trustedCn = filter (\<lambda>t. t \<noteq> []) (elementTexts e ''TrustedCN'' item)\<rparr>"

text \<open>\<open>parseContextCertInstanceId\<close>: as \<open>extractEprSelector\<close>, with the text as it is.\<close>

definition onContextStart :: "qstring \<Rightarrow> qstring \<Rightarrow> xattr list \<Rightarrow> epr_state \<Rightarrow> epr_state + bool \<times> (qstring \<Rightarrow> epr_state)" where
  "onContextStart ns ln attrs s =
     (if ep_found s \<noteq> None then Inl s
      else if ln = qlit ''ElementInContext'' then Inl (s\<lparr>ep_open := ln # ep_open s, ep_in := True\<rparr>)
      else if ep_in s \<and> ln = qlit ''Selector'' \<and> attrValue ''Name'' attrs = qlit ''InstanceID'' then Inr (False, \<lambda>t. s\<lparr>ep_found := Some t\<rparr>)
      else Inl (s\<lparr>ep_open := ln # ep_open s\<rparr>))"

definition parseContextCertInstanceId :: "'d opsenv \<Rightarrow> 'd \<Rightarrow> qstring" where
  "parseContextCertInstanceId e item =
     (case ep_found (readLoop onContextStart (\<lambda>t s. s) (onEprEnd (qlit ''ElementInContext'')) (x_read (o_xml e) item)
        \<lparr>ep_open = [], ep_in = False, ep_found = None\<rparr>) of Some v \<Rightarrow> v | None \<Rightarrow> [])"

definition certStoreOf :: "'d opsenv \<Rightarrow> 'd enumerated list \<Rightarrow> DeviceCertResult" where
  "certStoreOf e slots =
     (let certs = map (parseCertItem e) (itemsAt slots 0); rows = map (parseTlsRow e) (itemsAt slots 2);
          failed = (list_ex (\<lambda>s. snd s \<noteq> []) slots \<and> certs = [] \<and> rows = [])
      in \<lparr>dcr_ok = (\<not> failed), dcr_error = (if failed then firstError slots else []), dcr_certificates = certs,
          dcr_keyPairs = map (parseKeyPairItem e) (itemsAt slots 1), dcr_tlsSettings = rows,
          dcr_activeCertInstanceIds = filter (\<lambda>t. t \<noteq> []) (map (parseContextCertInstanceId e) (itemsAt slots 3))\<rparr>)"

definition getDeviceCertStore :: "'d opsenv \<Rightarrow> wsclient \<Rightarrow> ('d, DeviceCertResult) joined" where
  "getDeviceCertStore e c =
     (case c of
        None \<Rightarrow> Immediate (certStoreOf e (replicate 4 ([], qlit ''client is null'')))
      | Some to \<Rightarrow> Joined (map (kickEnum e to)
          [kPublicKeyCertificateResource, kPublicPrivateKeyPairResource, kTlsSettingDataResource, kTlsCredentialContextResource]) (certStoreOf e))"

section \<open>Remote access\<close>

definition userInitiatedCiraLabel :: "'d opsenv \<Rightarrow> int \<Rightarrow> qstring" where
  "userInitiatedCiraLabel e =
     labelOf [(32768, ''Disabled''), (32769, ''BIOS enabled''), (32770, ''OS enabled''), (32771, ''BIOS + OS enabled'')] (argNumber e ''State %1'')"

definition parseDetectionStrings :: "'d opsenv \<Rightarrow> 'd \<Rightarrow> qstring list" where
  "parseDetectionStrings e body = filter (\<lambda>t. t \<noteq> []) (elementTexts e ''DetectionStrings'' body)"

record MpsServer =
  mps_name :: qstring
  mps_accessInfo :: qstring
  mps_port :: int
  mps_cn :: qstring
  mps_mpsType :: int

record MpsHttpProxy =
  prx_name :: qstring
  prx_accessInfo :: qstring
  prx_port :: int
  prx_networkDnsSuffix :: qstring

record RemoteAccessPolicy =
  pol_name :: qstring
  pol_trigger :: int
  pol_tunnelLifeTime :: int
  pol_periodicInterval :: bool
  pol_periodicSeconds :: int
  pol_periodicTimeOfDay :: bool
  pol_periodicHour :: int
  pol_periodicMinute :: int
  pol_mpsNames :: "qstring list"

record RemoteAccessResult =
  rar_ok :: bool
  rar_error :: qstring
  rar_domains :: "qstring list"
  rar_enabledState :: int
  rar_policies :: "RemoteAccessPolicy list"
  rar_servers :: "MpsServer list"
  rar_httpProxies :: "MpsHttpProxy list"
  rar_httpProxySupported :: bool

subsection \<open>The schedule of a policy\<close>

definition be32 :: "bytes \<Rightarrow> nat \<Rightarrow> u32" where
  "be32 b k =
     (if k + 3 \<ge> length b then 0
      else word_of_int (uint (b ! k) * 2 ^ 24 + uint (b ! (k + 1)) * 2 ^ 16 + uint (b ! (k + 2)) * 2 ^ 8 + uint (b ! (k + 3))))"

definition append32 :: "u32 \<Rightarrow> bytes" where
  "append32 v = [ucast (drop_bit 24 v), ucast (drop_bit 16 v), ucast (drop_bit 8 v), ucast v]"

text \<open>A policy without its schedule is left alone when the data are too short or of another type.\<close>

definition decodeExtendedData :: "'d opsenv \<Rightarrow> qstring \<Rightarrow> RemoteAccessPolicy \<Rightarrow> RemoteAccessPolicy" where
  "decodeExtendedData e b64 p =
     (let raw = o_fromBase64 e (o_toLatin1 e b64); num = (\<lambda>i. sint (be32 raw i))
      in if length raw < 8 then p
         else if be32 raw 0 = 0 then p\<lparr>pol_periodicInterval := True, pol_periodicSeconds := num 4\<rparr>
         else if be32 raw 0 = 1 \<and> length raw \<ge> 12 then p\<lparr>pol_periodicTimeOfDay := True, pol_periodicHour := num 4, pol_periodicMinute := num 8\<rparr>
         else p)"

definition clamp32 :: "int \<Rightarrow> u32" where
  "clamp32 v = (if v < 0 then 0 else of_int v)"

definition buildExtendedData :: "'d opsenv \<Rightarrow> bool \<Rightarrow> int \<Rightarrow> int \<Rightarrow> int \<Rightarrow> qstring" where
  "buildExtendedData e intervalMode intervalSeconds hour minute =
     fromLatin1 (o_toBase64 e
       (if intervalMode then append32 0 @ append32 (clamp32 intervalSeconds)
        else append32 1 @ append32 (clamp32 hour) @ append32 (clamp32 minute)))"

lemma be32_append32: "be32 (append32 v @ rest) 0 = v"
proof -
  have b: "uint (ucast (drop_bit n v) :: byte) = uint v div 2 ^ n mod 256" for n
  proof -
    have "uint (drop_bit n v) = uint v div 2 ^ n"
      using uint_lt2p [of v] by (simp only: unsigned_drop_bit_eq) (simp add: drop_bit_eq_div take_bit_int_eq_self)
    then show ?thesis by (simp add: unsigned_ucast_eq take_bit_eq_mod)
  qed
  let ?x = "uint v"
  have l: "uint (ucast v :: byte) = ?x mod 256" using b [of 0] by simp
  define q r m0 m1 m2 m3 where d: "q = ?x div 256" "r = q div 256" "m0 = ?x mod 256" "m1 = q mod 256" "m2 = r mod 256" "m3 = r div 256"
  have "?x = 256 * q + m0" "q = 256 * r + m1" "r = 256 * m3 + m2"
    by (simp_all add: d)
  then have e: "m3 * 2 ^ 24 + m2 * 2 ^ 16 + m1 * 2 ^ 8 + m0 = ?x" by algebra
  have v: "?x div 2 ^ 16 = r" "?x div 2 ^ 24 = m3" "?x div 2 ^ 8 = q"
    by (simp_all add: d zdiv_zmult2_eq [symmetric])
  have "0 \<le> m3" by (simp add: d pos_imp_zdiv_nonneg_iff)
  moreover have "?x div 2 ^ 24 < 256" using uint_lt2p [of v] by simp
  ultimately have "m3 mod 256 = m3" using v(2) by simp
  then have f: "?x div 2 ^ 24 mod 256 * 2 ^ 24 + ?x div 2 ^ 16 mod 256 * 2 ^ 16 + ?x div 2 ^ 8 mod 256 * 2 ^ 8 + ?x mod 256 = ?x"
    unfolding v by (simp only: d(3-5) [symmetric] e)
  have "append32 v @ rest = ucast (drop_bit 24 v) # ucast (drop_bit 16 v) # ucast (drop_bit 8 v) # ucast v # rest"
    by (simp add: append32_def)
  then have "be32 (append32 v @ rest) 0 = word_of_int (?x div 2 ^ 24 mod 256 * 2 ^ 24 + ?x div 2 ^ 16 mod 256 * 2 ^ 16 + ?x div 2 ^ 8 mod 256 * 2 ^ 8 + ?x mod 256)"
    unfolding be32_def b [symmetric] l [symmetric] by simp
  also have "\<dots> = v" unfolding f by simp
  finally show ?thesis .
qed

lemma be32_skip: "be32 (append32 v @ r) (4 + n) = be32 r n"
  by (simp add: be32_def append32_def nth_append add.commute)

lemma length_append32 [simp]: "length (append32 v) = 4"
  by (simp add: append32_def)

lemma sint_clamp32: "0 \<le> v \<Longrightarrow> v < 2 ^ 31 \<Longrightarrow> sint (clamp32 v) = v"
  by (simp add: clamp32_def sint_sbintrunc' signed_take_bit_int_eq_self)

subsection \<open>Policies and servers\<close>

record link_state =
  lnk_kind :: "bool option"
  lnk_sawUri :: bool
  lnk_policy :: qstring
  lnk_mps :: qstring

text \<open>\<open>lnk_kind\<close> is \<open>Some True\<close> in the reference to a policy and \<open>Some False\<close> in that to a server.\<close>

definition onLinkStart :: "qstring \<Rightarrow> qstring \<Rightarrow> xattr list \<Rightarrow> link_state \<Rightarrow> link_state + bool \<times> (qstring \<Rightarrow> link_state)" where
  "onLinkStart ns ln attrs s =
     (if ln = qlit ''ResourceURI''
      then Inr (False, \<lambda>t. s\<lparr>lnk_sawUri := True, lnk_kind :=
        (if endsWith t (qlit ''AMT_RemoteAccessPolicyRule'') then Some True
         else if endsWith t (qlit ''AMT_ManagementPresenceRemoteSAP'') then Some False else None)\<rparr>)
      else if ln = qlit ''Selector'' \<and> lnk_sawUri s
      then Inr (False, \<lambda>t.
        if lnk_kind s = Some True \<and> attrValue ''Name'' attrs = qlit ''PolicyRuleName'' then s\<lparr>lnk_policy := t\<rparr>
        else if lnk_kind s = Some False \<and> attrValue ''Name'' attrs = qlit ''Name'' then s\<lparr>lnk_mps := t\<rparr> else s)
      else Inl s)"

definition parseLinkRow :: "'d opsenv \<Rightarrow> 'd \<Rightarrow> qstring \<times> qstring" where
  "parseLinkRow e item =
     (let s = readLoop onLinkStart (\<lambda>t s. s) (\<lambda>s. s) (x_read (o_xml e) item) \<lparr>lnk_kind = None, lnk_sawUri = False, lnk_policy = [], lnk_mps = []\<rparr>
      in (lnk_policy s, lnk_mps s))"

definition mpsServerOf :: "'d opsenv \<Rightarrow> 'd \<Rightarrow> MpsServer" where
  "mpsServerOf e item =
     \<lparr>mps_name = scalar e item ''Name'', mps_accessInfo = scalar e item ''AccessInfo'', mps_port = intOr e item ''Port'' 0, mps_cn = scalar e item ''CN'',
      mps_mpsType = intOr e item ''MpsType'' 0\<rparr>"

definition proxyOf :: "'d opsenv \<Rightarrow> 'd \<Rightarrow> MpsHttpProxy" where
  "proxyOf e item =
     \<lparr>prx_name = scalar e item ''Name'', prx_accessInfo = scalar e item ''AccessInfo'', prx_port = intOr e item ''Port'' 0,
      prx_networkDnsSuffix = scalar e item ''NetworkDnsSuffix''\<rparr>"

definition policyOf :: "'d opsenv \<Rightarrow> 'd \<Rightarrow> RemoteAccessPolicy" where
  "policyOf e item =
     (let p = \<lparr>pol_name = scalar e item ''PolicyRuleName'', pol_trigger = intOr e item ''Trigger'' (-1), pol_tunnelLifeTime = intOr e item ''TunnelLifeTime'' 0,
            pol_periodicInterval = False, pol_periodicSeconds = 0, pol_periodicTimeOfDay = False, pol_periodicHour = 0, pol_periodicMinute = 0, pol_mpsNames = []\<rparr>;
          ext = scalar e item ''ExtendedData''
      in if ext = [] then p else decodeExtendedData e ext p)"

text \<open>\<open>policyByName\<close>, as the list of its values: insertion by name, the links, and the order in which the policies are listed.\<close>

fun putPolicy :: "RemoteAccessPolicy \<Rightarrow> RemoteAccessPolicy list \<Rightarrow> RemoteAccessPolicy list" where
  "putPolicy p [] = [p]"
| "putPolicy p (q # qs) = (if pol_name q = pol_name p then p # qs else q # putPolicy p qs)"

definition linkPolicy :: "qstring \<times> qstring \<Rightarrow> RemoteAccessPolicy list \<Rightarrow> RemoteAccessPolicy list" where
  "linkPolicy l ps =
     (if fst l = [] \<or> snd l = [] then ps
      else map (\<lambda>p. if pol_name p = fst l then p\<lparr>pol_mpsNames := pol_mpsNames p @ [snd l]\<rparr> else p) ps)"

definition policyOrder :: "qstring list" where
  "policyOrder = [qlit ''User Initiated'', qlit ''Alert'', qlit ''Periodic'']"

definition listPolicies :: "'d opsenv \<Rightarrow> RemoteAccessPolicy list \<Rightarrow> RemoteAccessPolicy list" where
  "listPolicies e ps =
     (let named = (\<lambda>n. filter (\<lambda>p. pol_name p = n) ps); keys = map fst (o_order e (map (\<lambda>p. (pol_name p, [])) ps))
      in concat (map named policyOrder) @ concat (map named (filter (\<lambda>k. k \<notin> set policyOrder) keys)))"

definition remoteAccessOf :: "'d opsenv \<Rightarrow> 'd enumerated list \<Rightarrow> RemoteAccessResult" where
  "remoteAccessOf e slots =
     (let at = itemsAt slots; ok = (at 0 \<noteq> [] \<or> at 1 \<noteq> []);
          policies = fold linkPolicy (map (parseLinkRow e) (at 3)) (fold putPolicy (map (policyOf e) (at 2)) [])
      in \<lparr>rar_ok = ok, rar_error = (if ok then [] else firstError slots),
          rar_domains = (case at 0 of [] \<Rightarrow> [] | b # _ \<Rightarrow> parseDetectionStrings e b),
          rar_enabledState = (case at 1 of [] \<Rightarrow> 32768 | b # _ \<Rightarrow> intOr e b ''EnabledState'' 32768),
          rar_policies = listPolicies e policies, rar_servers = map (mpsServerOf e) (at 4),
          rar_httpProxies = (if at 6 = [] then [] else map (proxyOf e) (at 7)), rar_httpProxySupported = (at 6 \<noteq> [])\<rparr>)"

definition getRemoteAccess :: "'d opsenv \<Rightarrow> wsclient \<Rightarrow> ('d, RemoteAccessResult) joined" where
  "getRemoteAccess e c =
     (case c of
        None \<Rightarrow> Immediate (remoteAccessOf e (replicate 8 ([], qlit ''client is null'')))
      | Some to \<Rightarrow> Joined
          [kickGet e to kEnvironmentDetectionResource, kickGet e to kUserInitiatedConnectionResource, kickEnum e to kRemoteAccessPolicyRuleResource,
           kickEnum e to kRemoteAccessPolicyAppliesToMpsResource, kickEnum e to kManagementPresenceRemoteSapResource,
           kickEnum e to kMpsUsernamePasswordResource, kickGet e to kHttpProxyServiceResource, kickEnum e to kHttpProxyAccessPointResource]
          (remoteAccessOf e))"

section \<open>Wireless\<close>

definition wifiAuthMethodLabel :: "'d opsenv \<Rightarrow> int \<Rightarrow> qstring" where
  "wifiAuthMethodLabel e = labelOf [(1, ''Other''), (2, ''Open''), (3, ''Shared Key''), (4, ''WPA PSK''), (5, ''WPA 802.1x''), (6, ''WPA2 PSK''), (7, ''WPA2 802.1x''),
     (32768, ''WPA3 SAE 802.1x''), (32769, ''WPA3 OWE 802.1x'')] (argNumber e ''Auth %1'')"

definition wifiEncryptionLabel :: "'d opsenv \<Rightarrow> int \<Rightarrow> qstring" where
  "wifiEncryptionLabel e = labelOf [(1, ''Other''), (2, ''WEP''), (3, ''TKIP-RC4''), (4, ''CCMP-AES''), (5, ''None'')] (argNumber e ''Enc %1'')"

definition wifiPortStateLabel :: "'d opsenv \<Rightarrow> int \<Rightarrow> qstring" where
  "wifiPortStateLabel e = labelOf [(3, ''Disabled''), (32768, ''Enabled in S0''), (32769, ''Enabled in S0, Sx/AC'')] (argNumber e ''State %1'')"

definition wifiRadioStateLabel :: "'d opsenv \<Rightarrow> int \<Rightarrow> qstring" where
  "wifiRadioStateLabel e = labelOf [(2, ''On, Connected''), (3, ''Off''), (6, ''On, Disconnected'')] (argNumber e ''Radio %1'')"

definition eap8021xProtocolLabel :: "'d opsenv \<Rightarrow> int \<Rightarrow> qstring" where
  "eap8021xProtocolLabel e = tableLabel [''EAP-TLS'', ''EAP-TTLS/MSCHAPv2'', ''PEAPv0/EAP-MSCHAPv2'', ''PEAPv1/EAP-GTC'', ''EAP-FAST/MSCHAPv2'', ''EAP-FAST/GTC'', ''EAP-MD5'',
     ''EAP-PSK'', ''EAP-SIM'', ''EAP-AKA'', ''EAP-FAST/TLS''] (argNumber e ''EAP %1'')"

record WirelessPortStatus =
  wps_present :: bool
  wps_portState :: int
  wps_radioState :: int
  wps_currentSsid :: qstring
  wps_localProfileSyncEnabled :: int
  wps_uefiProfileShareEnabled :: int

record WiFiProfile =
  wfp_elementName :: qstring
  wfp_ssid :: qstring
  wfp_authenticationMethod :: int
  wfp_encryptionMethod :: int
  wfp_priority :: int
  wfp_eap8021xProtocol :: int

record Wired8021xProfile =
  wrd_present :: bool
  wrd_enabled :: bool
  wrd_authenticationProtocol :: int

record WirelessResult =
  wlr_ok :: bool
  wlr_error :: qstring
  wlr_port :: WirelessPortStatus
  wlr_profiles :: "WiFiProfile list"
  wlr_wired :: Wired8021xProfile

definition eapByName :: "'d opsenv \<Rightarrow> 'd list \<Rightarrow> qstring \<Rightarrow> int option" where
  "eapByName e is = map_of (rev (List.map_filter (\<lambda>it.
     let en = scalar e it ''ElementName'' in if en = [] then None else map_option (Pair en) (o_toInt e (scalar e it ''AuthenticationProtocol''))) is))"

definition wifiProfileOf :: "'d opsenv \<Rightarrow> (qstring \<Rightarrow> int option) \<Rightarrow> 'd \<Rightarrow> WiFiProfile" where
  "wifiProfileOf e eap item =
     (let en = scalar e item ''ElementName''
      in \<lparr>wfp_elementName = en, wfp_ssid = scalar e item ''SSID'', wfp_authenticationMethod = intOr e item ''AuthenticationMethod'' (-1),
          wfp_encryptionMethod = intOr e item ''EncryptionMethod'' (-1), wfp_priority = intOr e item ''Priority'' (-1),
          wfp_eap8021xProtocol = (case eap en of Some v \<Rightarrow> v | None \<Rightarrow> -1)\<rparr>)"

text \<open>\<open>std::sort\<close> by a key; where it puts equal keys is not specified.\<close>

definition sortOn :: "'d opsenv \<Rightarrow> ('a \<Rightarrow> int) \<Rightarrow> 'a list \<Rightarrow> 'a list" where
  "sortOn e key xs = map ((!) xs) (o_sort e (map key xs))"

definition wirelessOf :: "'d opsenv \<Rightarrow> 'd enumerated list \<Rightarrow> WirelessResult" where
  "wirelessOf e slots =
     (let at = itemsAt slots; firstInt = (\<lambda>is nm. case is of [] \<Rightarrow> -1 | b # _ \<Rightarrow> intOr e b nm (-1));
          firstPick = (\<lambda>is nm. case is of [] \<Rightarrow> -1 | b # _ \<Rightarrow> pickInt e b nm (-1))
      in \<lparr>wlr_ok = True, wlr_error = [],
          wlr_port = \<lparr>wps_present = (at 0 \<noteq> []), wps_portState = firstInt (at 0) ''EnabledState'', wps_radioState = firstInt (at 1) ''EnabledState'',
            wps_currentSsid = firstScalar e (at 1) ''LANID'', wps_localProfileSyncEnabled = firstPick (at 2) ''localProfileSynchronizationEnabled'',
            wps_uefiProfileShareEnabled = firstPick (at 2) ''UEFIWiFiProfileShareEnabled''\<rparr>,
          wlr_profiles = sortOn e wfp_priority (map (wifiProfileOf e (eapByName e (at 4)))
            (filter (\<lambda>it. o_toInt e (scalar e it ''AuthenticationMethod'') \<noteq> Some 1) (at 3))),
          wlr_wired = \<lparr>wrd_present = (at 5 \<noteq> []), wrd_enabled = (case at 5 of [] \<Rightarrow> False | b # _ \<Rightarrow> truthy e b ''Enabled''),
            wrd_authenticationProtocol = firstInt (at 5) ''AuthenticationProtocol''\<rparr>\<rparr>)"

definition getWireless :: "'d opsenv \<Rightarrow> wsclient \<Rightarrow> ('d, WirelessResult) joined" where
  "getWireless e c =
     (case c of
        None \<Rightarrow> Immediate ((wirelessOf e (replicate 6 ([], [])))\<lparr>wlr_ok := False, wlr_error := qlit ''client is null'', wlr_profiles := []\<rparr>)
      | Some to \<Rightarrow> Joined
          [kickGet e to kWiFiPortResource, kickGet e to kWiFiEndpointResource, kickGet e to kWiFiPortConfigServiceResource,
           kickEnum e to kWiFiEndpointSettingsResource, kickEnum e to kIEEE8021xSettingsResource, kickGet e to kWired8021xProfileResource] (wirelessOf e))"

section \<open>System defense\<close>

record SystemDefensePolicy =
  sdp_instanceId :: qstring
  sdp_policyName :: qstring
  sdp_priority :: int
  sdp_txEnabled :: bool
  sdp_rxEnabled :: bool
  sdp_defaultPolicy :: bool
  sdp_txDefaultCount :: bool
  sdp_txDefaultDrop :: bool
  sdp_txDefaultMatchEvent :: bool
  sdp_rxDefaultCount :: bool
  sdp_rxDefaultDrop :: bool
  sdp_rxDefaultMatchEvent :: bool
  sdp_filterCreationHandles :: "int list"

record Hdr8021Filter =
  h8f_instanceId :: qstring
  h8f_name :: qstring
  h8f_filterDirection :: int
  h8f_vlanTag :: int
  h8f_etherType :: int
  h8f_priority :: int
  h8f_filterProfile :: int
  h8f_filterProfileData :: int
  h8f_actionEventOnMatch :: bool

record IpHeadersFilter =
  iph_instanceId :: qstring
  iph_name :: qstring
  iph_filterDirection :: int
  iph_srcAddress :: qstring
  iph_dstAddress :: qstring
  iph_protocol :: int
  iph_srcPort :: int
  iph_dstPort :: int
  iph_ipVersion :: int
  iph_filterProfile :: int
  iph_filterProfileData :: int
  iph_actionEventOnMatch :: bool
  iph_srcPortEnd :: int
  iph_dstPortEnd :: int

record ActiveFilterStatRow =
  afs_filterInstanceId :: qstring
  afs_packetsPassed :: u64
  afs_packetsDropped :: u64

record PortPolicyBinding =
  ppb_portDeviceId :: qstring
  ppb_policyInstanceId :: qstring

record SystemDefenseResult =
  sdr_ok :: bool
  sdr_error :: qstring
  sdr_supported :: bool
  sdr_policies :: "SystemDefensePolicy list"
  sdr_hdrFilters :: "Hdr8021Filter list"
  sdr_ipFilters :: "IpHeadersFilter list"
  sdr_portBindings :: "PortPolicyBinding list"
  sdr_stats :: "ActiveFilterStatRow list"

definition counterOf :: "'d opsenv \<Rightarrow> 'd \<Rightarrow> string \<Rightarrow> u64" where
  "counterOf e item nm = (case o_toULongLong e (scalar e item nm) of Some v \<Rightarrow> v | None \<Rightarrow> 0)"

definition parseActiveFilterStat :: "'d opsenv \<Rightarrow> 'd \<Rightarrow> ActiveFilterStatRow" where
  "parseActiveFilterStat e item =
     \<lparr>afs_filterInstanceId = scalar e item ''InstanceID'', afs_packetsPassed = counterOf e item ''PacketsPassed'',
      afs_packetsDropped = counterOf e item ''PacketsDropped''\<rparr>"

definition defensePolicyOf :: "'d opsenv \<Rightarrow> 'd \<Rightarrow> SystemDefensePolicy" where
  "defensePolicyOf e it =
     \<lparr>sdp_instanceId = scalar e it ''InstanceID'', sdp_policyName = scalar e it ''PolicyName'', sdp_priority = intOr e it ''Priority'' 0,
      sdp_txEnabled = truthy e it ''AntiSpoofingSupport'', sdp_rxEnabled = truthy e it ''PolicyEnabled'', sdp_defaultPolicy = truthy e it ''DefaultPolicy'',
      sdp_txDefaultCount = False, sdp_txDefaultDrop = False, sdp_txDefaultMatchEvent = False, sdp_rxDefaultCount = False, sdp_rxDefaultDrop = False,
      sdp_rxDefaultMatchEvent = False, sdp_filterCreationHandles = []\<rparr>"

definition hdrFilterOf :: "'d opsenv \<Rightarrow> 'd \<Rightarrow> Hdr8021Filter" where
  "hdrFilterOf e it =
     \<lparr>h8f_instanceId = scalar e it ''InstanceID'', h8f_name = scalar e it ''Name'', h8f_filterDirection = intOr e it ''FilterDirection'' (-1),
      h8f_vlanTag = intOr e it ''VLANTag'' (-1), h8f_etherType = intOr e it ''HdrProtocolID8021'' (-1), h8f_priority = intOr e it ''Priority'' (-1),
      h8f_filterProfile = -1, h8f_filterProfileData = 0, h8f_actionEventOnMatch = False\<rparr>"

definition ipFilterOf :: "'d opsenv \<Rightarrow> 'd \<Rightarrow> IpHeadersFilter" where
  "ipFilterOf e it =
     \<lparr>iph_instanceId = scalar e it ''InstanceID'', iph_name = scalar e it ''Name'', iph_filterDirection = intOr e it ''FilterDirection'' (-1),
      iph_srcAddress = scalar e it ''HdrSrcAddress'', iph_dstAddress = scalar e it ''HdrDestAddress'', iph_protocol = intOr e it ''HdrProtocolID8'' (-1),
      iph_srcPort = intOr e it ''HdrSrcPortStart'' (-1), iph_dstPort = intOr e it ''HdrDestPortStart'' (-1), iph_ipVersion = -1, iph_filterProfile = -1,
      iph_filterProfileData = 0, iph_actionEventOnMatch = False, iph_srcPortEnd = -1, iph_dstPortEnd = -1\<rparr>"

definition bindingOf :: "'d opsenv \<Rightarrow> 'd \<Rightarrow> PortPolicyBinding" where
  "bindingOf e it =
     \<lparr>ppb_portDeviceId = extractEprSelector e it ''Antecedent'' ''DeviceID'', ppb_policyInstanceId = extractEprSelector e it ''Dependent'' ''InstanceID''\<rparr>"

definition filterStats :: "'d opsenv \<Rightarrow> 'd list \<Rightarrow> ActiveFilterStatRow list" where
  "filterStats e is = filter (\<lambda>s. afs_filterInstanceId s \<noteq> []) (map (parseActiveFilterStat e) is)"

definition systemDefenseOf :: "'d opsenv \<Rightarrow> 'd enumerated list \<Rightarrow> SystemDefenseResult" where
  "systemDefenseOf e slots =
     (let faulted = length (filter (\<lambda>s. snd s \<noteq> []) (take 3 slots))
      in \<lparr>sdr_ok = True, sdr_error = [], sdr_supported = (faulted \<noteq> 3),
          sdr_policies = filter (\<lambda>p. sdp_instanceId p \<noteq> []) (map (defensePolicyOf e) (itemsAt slots 0)),
          sdr_hdrFilters = filter (\<lambda>f. h8f_instanceId f \<noteq> []) (map (hdrFilterOf e) (itemsAt slots 1)),
          sdr_ipFilters = filter (\<lambda>f. iph_instanceId f \<noteq> []) (map (ipFilterOf e) (itemsAt slots 2)),
          sdr_portBindings = filter (\<lambda>b. ppb_portDeviceId b \<noteq> [] \<and> ppb_policyInstanceId b \<noteq> []) (map (bindingOf e) (itemsAt slots 4)),
          sdr_stats = filterStats e (itemsAt slots 3)\<rparr>)"

definition getSystemDefense :: "'d opsenv \<Rightarrow> wsclient \<Rightarrow> ('d, SystemDefenseResult) joined" where
  "getSystemDefense e c =
     Joined [enumerateAll e c kSystemDefensePolicyResource, enumerateAll e c kHdr8021FilterResource, enumerateAll e c kIpHeadersFilterResource,
       enumerateAll e c kActiveFilterStatisticsResource, enumerateAll e c kNetworkPortSystemDefensePolicyResource] (systemDefenseOf e)"

definition getActiveFilterStatistics :: "'d opsenv \<Rightarrow> wsclient \<Rightarrow> ('d, ActiveFilterStatRow list \<times> qstring) op" where
  "getActiveFilterStatistics e c =
     andThen (enumerateAll e c kActiveFilterStatisticsResource) (\<lambda>(is, err). Finished (filterStats e is, err))"

text \<open>Deleting a record of system defense; an empty identifier is refused without a request.\<close>

definition deleteByInstanceId :: "'d opsenv \<Rightarrow> wsclient \<Rightarrow> qstring \<Rightarrow> string \<Rightarrow> qstring \<Rightarrow> ('d, InvokeResult) op" where
  "deleteByInstanceId e c uri what instanceId =
     (if instanceId = [] then Finished (invokeFailed (o_arg e (qlit ''%1: InstanceID is required'') (qlit what)))
      else deleteRecord e c uri (hashOf e [(''InstanceID'', instanceId)]))"

definition deleteSystemDefensePolicy :: "'d opsenv \<Rightarrow> wsclient \<Rightarrow> qstring \<Rightarrow> ('d, InvokeResult) op" where
  "deleteSystemDefensePolicy e c = deleteByInstanceId e c kSystemDefensePolicyResource ''DeletePolicy''"

definition deleteHdr8021Filter :: "'d opsenv \<Rightarrow> wsclient \<Rightarrow> qstring \<Rightarrow> ('d, InvokeResult) op" where
  "deleteHdr8021Filter e c = deleteByInstanceId e c kHdr8021FilterResource ''DeleteHdr8021Filter''"

definition deleteIpHeadersFilter :: "'d opsenv \<Rightarrow> wsclient \<Rightarrow> qstring \<Rightarrow> ('d, InvokeResult) op" where
  "deleteIpHeadersFilter e c = deleteByInstanceId e c kIpHeadersFilterResource ''DeleteIPHeadersFilter''"

section \<open>What holds of a joined operation\<close>

text \<open>
  The interface of a joined operation: with a client it is its branches and the function that puts their results together. Whatever the
  answers and their order, it calls back at most once, and not before every branch has returned; the result is that function of what
  the branches can return each on its own; and it goes on as long as it has not called back.
\<close>

locale joined_operation =
  fixes oper :: "wsclient \<Rightarrow> ('d, 'r) joined"
    and branches :: "qstring \<Rightarrow> ('d, 'd enumerated) op list"
    and final :: "'d enumerated list \<Rightarrow> 'r"
  assumes with_client: "oper (Some to) = Joined (branches to) final"
begin

lemma called_once:
  assumes "joinRun A (oper (Some to)) s"
  shows "js_called s = [] \<or>
    (\<exists>slots. js_called s = [final slots] \<and> list_all2 (\<lambda>b r. follows A b (Finished r)) (branches to) slots)"
proof -
  from joinRun_inv assms have "joinInv A (branches to) final s" unfolding with_client by blast
  then show ?thesis unfolding joinInv_def using outcomes_follow [of A "branches to" "js_branches s"] by auto
qed

lemma goes_on: "joinRun A (oper (Some to)) s \<Longrightarrow> js_called s = [] \<Longrightarrow> (\<And>q. \<exists>a. A q a) \<Longrightarrow> \<exists>s'. joinStep A (oper (Some to)) s s'"
  unfolding with_client by (blast intro: join_progress joinRun_inv)

lemma not_endless:
  "set (branches to) \<subseteq> Wellfounded.acc (opNext A) \<Longrightarrow>
    \<not> (\<exists>\<sigma>. \<sigma> 0 = joinStart (oper (Some to)) \<and> (\<forall>n. joinStep A (oper (Some to)) (\<sigma> n) (\<sigma> (Suc n))))"
  unfolding with_client by (rule join_no_endless)

end

interpretation inventory: joined_operation "getHardwareInventory e" "\<lambda>to. map (kickEnum e to) hardwareClasses" "inventoryOf e"
  by unfold_locales (simp add: getHardwareInventory_def)

interpretation certStore: joined_operation "getDeviceCertStore e"
  "\<lambda>to. map (kickEnum e to) [kPublicKeyCertificateResource, kPublicPrivateKeyPairResource, kTlsSettingDataResource, kTlsCredentialContextResource]"
  "certStoreOf e"
  by unfold_locales (simp add: getDeviceCertStore_def)

interpretation ethernet: joined_operation "getEthernetSettings e"
  "\<lambda>to. [kickEnum e to kEthernetSettingsResource, kickEnum e to kIpv6PortSettingsResource]" "ethernetOf e"
  by unfold_locales (simp add: getEthernetSettings_def)

interpretation redirection: joined_operation "getRedirectionStatus e"
  "\<lambda>to. [kickGet e to kRedirectionServiceResource, kickGet e to kKvmRedirectionSapResource]" "redirectionOf e"
  by unfold_locales (simp add: getRedirectionStatus_def)

interpretation remoteAccess: joined_operation "getRemoteAccess e"
  "\<lambda>to. [kickGet e to kEnvironmentDetectionResource, kickGet e to kUserInitiatedConnectionResource, kickEnum e to kRemoteAccessPolicyRuleResource,
     kickEnum e to kRemoteAccessPolicyAppliesToMpsResource, kickEnum e to kManagementPresenceRemoteSapResource,
     kickEnum e to kMpsUsernamePasswordResource, kickGet e to kHttpProxyServiceResource, kickEnum e to kHttpProxyAccessPointResource]" "remoteAccessOf e"
  by unfold_locales (simp add: getRemoteAccess_def)

interpretation wireless: joined_operation "getWireless e"
  "\<lambda>to. [kickGet e to kWiFiPortResource, kickGet e to kWiFiEndpointResource, kickGet e to kWiFiPortConfigServiceResource,
     kickEnum e to kWiFiEndpointSettingsResource, kickEnum e to kIEEE8021xSettingsResource, kickGet e to kWired8021xProfileResource]" "wirelessOf e"
  by unfold_locales (simp add: getWireless_def)

interpretation defense: joined_operation "getSystemDefense e"
  "\<lambda>to. map (kickEnum e to) [kSystemDefensePolicyResource, kHdr8021FilterResource, kIpHeadersFilterResource, kActiveFilterStatisticsResource,
     kNetworkPortSystemDefensePolicyResource]" "systemDefenseOf e"
  by unfold_locales (simp add: getSystemDefense_def kickEnum_def)

interpretation subscriptions: joined_operation "getEventSubscriptions e"
  "\<lambda>to. map (kickEnum e to) [kFilterCollectionResource, kListenerDestinationResource, kFilterCollectionSubscriptionResource]" "subscriptionsOf e"
  by unfold_locales (simp add: getEventSubscriptions_def kickEnum_def)

interpretation sessions: joined_operation "getActiveSessions e"
  "\<lambda>to. map (kickEnum e to) [kSolSessionUsingPortResource, kKvmSessionUsingPortResource, kIderSessionUsingPortResource]" "sessionsOf e"
  by unfold_locales (simp add: getActiveSessions_def kickEnum_def)

interpretation powerSchemes: joined_operation "getPowerSchemes e"
  "\<lambda>to. map (kickEnum e to) [kSystemPowerSchemeResource, kElementSettingDataResource]" "powerSchemesOf e"
  by unfold_locales (simp add: getPowerSchemes_def kickEnum_def)

interpretation agents: joined_operation "getAgentPresence e"
  "\<lambda>to. [kickGet e to kAgentPresenceCapabilitiesResource, kickEnum e to kAgentPresenceWatchdogResource, kickEnum e to kAgentPresenceWatchdogActionResource]"
  "agentPresenceOf e"
  by unfold_locales (simp add: getAgentPresence_def kickEnum_def)

text \<open>C11: The hardware inventory is complete and comes once. Against a device that pages each of the ten classes, in whatever order the
  answers to the ten enumerations arrive, the callback is called at most once, with the inventory put together from all instances of
  the ten classes; the operation goes on until then and cannot go on for ever.
\<close>

theorem inventory_complete:
  assumes "faithful (o_xml e)"
    and "\<And>uri u. uri \<in> set hardwareClasses \<Longrightarrow> uuidText u \<Longrightarrow> servesPages e dev (\<lambda>i. u) uri to (opened uri) (pages uri)"
    and "\<And>uri. uri \<in> set hardwareClasses \<Longrightarrow> pages uri \<noteq> []"
    and "joinRun (\<lambda>q a. a = dev q) (getHardwareInventory e (Some to)) s"
  shows "(js_called s = [] \<and> (\<exists>s'. joinStep (\<lambda>q a. a = dev q) (getHardwareInventory e (Some to)) s s') \<or>
      (\<exists>its. js_called s = [inventoryOf e (map (\<lambda>ds. (ds, [])) its)] \<and> list_all2 (\<lambda>uri ds. pagesItems e (pages uri) ds) hardwareClasses its)) \<and>
    \<not> (\<exists>\<sigma>. \<sigma> 0 = joinStart (getHardwareInventory e (Some to)) \<and>
      (\<forall>n. joinStep (\<lambda>q a. a = dev q) (getHardwareInventory e (Some to)) (\<sigma> n) (\<sigma> (Suc n))))"
proof (rule conjI)
  let ?A = "\<lambda>q a. a = dev q"
  have k: "kickEnum e to uri \<in> Wellfounded.acc (opNext ?A)"
    "follows ?A (kickEnum e to uri) (Finished r) \<Longrightarrow> \<exists>ds. r = (ds, []) \<and> pagesItems e (pages uri) ds" if "uri \<in> set hardwareClasses" for uri r
    using kickEnum_result [OF assms(1,2,3)] that by blast+
  show "\<not> (\<exists>\<sigma>. \<sigma> 0 = joinStart (getHardwareInventory e (Some to)) \<and> (\<forall>n. joinStep ?A (getHardwareInventory e (Some to)) (\<sigma> n) (\<sigma> (Suc n))))"
    by (rule inventory.not_endless) (use k(1) in auto)
  show "js_called s = [] \<and> (\<exists>s'. joinStep ?A (getHardwareInventory e (Some to)) s s') \<or>
      (\<exists>its. js_called s = [inventoryOf e (map (\<lambda>ds. (ds, [])) its)] \<and> list_all2 (\<lambda>uri ds. pagesItems e (pages uri) ds) hardwareClasses its)"
  proof (cases "js_called s = []")
    case True
    then show ?thesis using inventory.goes_on [OF assms(4)] by blast
  next
    case False
    then obtain slots where slots: "js_called s = [inventoryOf e slots]"
      "list_all2 (\<lambda>b r. follows ?A b (Finished r)) (map (kickEnum e to) hardwareClasses) slots"
      using inventory.called_once [OF assms(4)] by blast
    then have "list_all2 (\<lambda>uri r. uri \<in> set hardwareClasses \<and> follows ?A (kickEnum e to uri) (Finished r)) hardwareClasses slots"
      by (auto simp: list_all2_conv_all_nth)
    then have a: "list_all2 (\<lambda>uri r. snd r = [] \<and> pagesItems e (pages uri) (fst r)) hardwareClasses slots"
      by (rule list_all2_mono) (use k(2) in fastforce)
    have "snd r = []" if "r \<in> set slots" for r
      using a that by (auto simp: list_all2_conv_all_nth in_set_conv_nth)
    then have "map (\<lambda>ds. (ds, [])) (map fst slots) = slots"
      by (simp, intro map_idI) (metis comp_apply prod.collapse)
    moreover have "list_all2 (\<lambda>uri ds. pagesItems e (pages uri) ds) hardwareClasses (map fst slots)"
      using a by (auto simp: list_all2_map2 elim: list_all2_mono)
    ultimately show ?thesis using slots(1) by metis
  qed
qed

text \<open>
  The schedule of a policy reads back as it was written, for seconds, hours and minutes that are not negative; what a policy had before stays.
\<close>

theorem extended_data_roundtrip:
  assumes "\<And>b. o_fromBase64 e (o_toLatin1 e (fromLatin1 (o_toBase64 e b))) = b"
    and "0 \<le> secs" "secs < 2 ^ 31" "0 \<le> hour" "hour < 2 ^ 31" "0 \<le> minute" "minute < 2 ^ 31"
  shows "decodeExtendedData e (buildExtendedData e True secs hour minute) p = p\<lparr>pol_periodicInterval := True, pol_periodicSeconds := secs\<rparr> \<and>
    decodeExtendedData e (buildExtendedData e False secs hour minute) p =
      p\<lparr>pol_periodicTimeOfDay := True, pol_periodicHour := hour, pol_periodicMinute := minute\<rparr>"
proof (rule conjI)
  have r: "be32 (append32 v) 0 = v" "be32 (append32 a @ append32 v) 4 = v" "be32 (append32 a @ append32 v @ t) 4 = v"
    "be32 (append32 a @ append32 v @ append32 w) 8 = w" for a v w t
    using be32_append32 [of v "[]"] be32_skip [of a "append32 v" 0] be32_skip [of a "append32 v @ t" 0] be32_append32 [of v t]
      be32_skip [of a "append32 v @ append32 w" 4] be32_skip [of v "append32 w" 0] be32_append32 [of w "[]"] by simp_all
  show "decodeExtendedData e (buildExtendedData e True secs hour minute) p = p\<lparr>pol_periodicInterval := True, pol_periodicSeconds := secs\<rparr>"
    by (simp add: decodeExtendedData_def buildExtendedData_def assms(1) r be32_append32 sint_clamp32 [OF assms(2,3)])
  show "decodeExtendedData e (buildExtendedData e False secs hour minute) p =
      p\<lparr>pol_periodicTimeOfDay := True, pol_periodicHour := hour, pol_periodicMinute := minute\<rparr>"
    by (simp add: decodeExtendedData_def buildExtendedData_def assms(1) r be32_append32 sint_clamp32 [OF assms(4,5)] sint_clamp32 [OF assms(6,7)])
qed

text \<open>
  A machine that cannot be reached looks like one without wireless hardware and without system defense: when every request fails in the
  transport, both operations call back with success and no error, and the second one says that the machine does not have the feature.
\<close>

theorem unreachable_looks_unsupported:
  assumes "err \<noteq> []"
    and "joinRun (\<lambda>q a. a = ReplyError err) (getWireless e (Some to)) s" and "js_called s = [w]"
    and "joinRun (\<lambda>q a. a = ReplyError err) (getSystemDefense e (Some to)) s'" and "js_called s' = [d]"
  shows "wlr_ok w \<and> wlr_error w = [] \<and> \<not> wps_present (wlr_port w) \<and> sdr_ok d \<and> sdr_error d = [] \<and> \<not> sdr_supported d"
proof -
  let ?A = "\<lambda>q a. a = ReplyError err"
  have k: "follows ?A (kickEnum e to uri) (Finished r) \<Longrightarrow> r = ([], err)" "follows ?A (kickGet e to uri) (Finished r) \<Longrightarrow> r = ([], err)" for uri r
    by (auto simp: kickEnum_def enumerateAll_def kickGet_def opReply_def dest!: follows_Send follows_Finished)
  from wireless.called_once [OF assms(2)] assms(3) obtain slots where w: "w = wirelessOf e slots"
    "itemsAt slots 0 = []"
    by (auto simp: itemsAt_def list_all2_Cons1 dest!: k)
  from defense.called_once [OF assms(4)] assms(5) obtain slots' where d: "d = systemDefenseOf e slots'" "slots' = replicate 5 ([], err)"
    by (auto simp: list_all2_Cons1 numeral_eq_Suc dest!: k)
  show ?thesis
    using assms(1) w by (simp add: wirelessOf_def d systemDefenseOf_def itemsAt_def numeral_eq_Suc Let_def)
qed

section \<open>Examples\<close>

lemma hardware_names: "uri \<in> set hardwareClasses \<Longrightarrow> 0 \<notin> set uri"
  by (auto simp: hardwareClasses_def kChassisResource_def kCardResource_def kBiosElementResource_def kSystemPackagingResource_def kProcessorResource_def
      kChipResource_def kPhysicalMemoryResource_def kMediaAccessDeviceResource_def kPhysicalPackageResource_def kBatteryResource_def qlit_def)

lemma uuid_no_zero: "uuidText u \<Longrightarrow> 0 \<notin> set u"
  by (auto simp: uuidText_def list_all_iff)

theorem inventory_complete_witness:
  "js_called (joinStart (getHardwareInventory exOps (Some []))) = [] \<and>
   (\<exists>s'. joinStep (\<lambda>q a. a = exDevice q) (getHardwareInventory exOps (Some [])) (joinStart (getHardwareInventory exOps (Some []))) s') \<and>
   \<not> (\<exists>\<sigma>. \<sigma> 0 = joinStart (getHardwareInventory exOps (Some [])) \<and>
      (\<forall>n. joinStep (\<lambda>q a. a = exDevice q) (getHardwareInventory exOps (Some [])) (\<sigma> n) (\<sigma> (Suc n))))"
proof -
  have f: "faithful (o_xml exOps)" by (simp add: tokenLib_faithful)
  have p: "exPages \<noteq> []" by (simp add: exPages_def)
  have r: "joinRun (\<lambda>q a. a = exDevice q) (getHardwareInventory exOps (Some [])) (joinStart (getHardwareInventory exOps (Some [])))"
    by (rule joinRun.start)
  note c = inventory_complete [where pages = "\<lambda>uri. exPages" and opened = "\<lambda>uri. exOpened",
      OF f exPages_served [OF hardware_names uuid_no_zero] p r]
  have "js_called (joinStart (getHardwareInventory exOps (Some []))) = []"
    by (simp add: getHardwareInventory_def hardwareClasses_def maybeFire_def kickEnum_def enumerateAll_def)
  then show ?thesis using c by auto
qed

definition exPolicy :: RemoteAccessPolicy where
  "exPolicy = \<lparr>pol_name = [], pol_trigger = 2, pol_tunnelLifeTime = 0, pol_periodicInterval = False, pol_periodicSeconds = 0, pol_periodicTimeOfDay = False,
     pol_periodicHour = 0, pol_periodicMinute = 0, pol_mpsNames = []\<rparr>"

theorem extended_data_roundtrip_witness:
  "decodeExtendedData exOps (buildExtendedData exOps True 300 8 30) exPolicy = exPolicy\<lparr>pol_periodicInterval := True, pol_periodicSeconds := 300\<rparr> \<and>
   decodeExtendedData exOps (buildExtendedData exOps False 300 8 30) exPolicy =
     exPolicy\<lparr>pol_periodicTimeOfDay := True, pol_periodicHour := 8, pol_periodicMinute := 30\<rparr>"
proof -
  have b: "o_fromBase64 exOps (o_toLatin1 exOps (fromLatin1 (o_toBase64 exOps b))) = b" for b
    by (simp add: exOps_def fromLatin1_def o_def, intro map_idI bit_word_eqI) (simp add: bit_ucast_iff)
  show ?thesis using extended_data_roundtrip [where e = exOps and secs = 300 and hour = 8 and minute = 30 and p = exPolicy, OF b] by simp
qed

text \<open>A run in which every request fails: the replies arrive in the order of the requests.\<close>

definition failsWith :: "qstring \<Rightarrow> ('d, 'd enumerated) op \<Rightarrow> bool" where
  "failsWith err b \<longleftrightarrow> (\<exists>m k. b = Send m k \<and> k (ReplyError err) = Finished ([], err))"

lemma kicks_fail: "failsWith err (kickEnum e to uri)" "failsWith err (kickGet e to uri)"
  by (simp_all add: failsWith_def kickEnum_def enumerateAll_def kickGet_def opReply_def)

lemma failing_run:
  assumes "list_all (failsWith err) bs"
  shows "\<exists>s r. joinRun (\<lambda>q a. a = ReplyError err) (Joined bs f) s \<and> js_called s = [r]"
proof -
  let ?A = "\<lambda>q a. a = ReplyError err"
  have "\<exists>s. joinRun ?A (Joined bs f) s \<and> js_branches s = replicate n (Finished ([], err)) @ drop n bs" if "n \<le> length bs" for n
    using that
  proof (induction n)
    case 0
    have "js_branches (joinStart (Joined bs f)) = bs" by (simp add: maybeFire_def)
    then show ?case using joinRun.start [of ?A "Joined bs f"] by auto
  next
    case (Suc n)
    then obtain s where s: "joinRun ?A (Joined bs f) s" "js_branches s = replicate n (Finished ([], err)) @ drop n bs" by auto
    have n: "n < length bs" using Suc.prems by simp
    then obtain m k where k: "bs ! n = Send m k" "k (ReplyError err) = Finished ([], err)" using assms unfolding list_all_iff failsWith_def by (meson nth_mem)
    have b: "n < length (js_branches s)" "js_branches s ! n = Send m k"
      using s(2) n k(1) by (simp_all add: nth_append)
    have "uuidText []" by (simp add: uuidText_def)
    from joinRun.step [OF s(1) joinStep.reply [where A = ?A, OF b this refl]]
    have "joinRun ?A (Joined bs f) (joinReply f n (ReplyError err) s)" .
    moreover have "js_branches (joinReply f n (ReplyError err) s) = replicate (Suc n) (Finished ([], err)) @ drop (Suc n) bs"
      using b k s(2) Cons_nth_drop_Suc [OF n, symmetric]
      by (simp add: joinReply_def maybeFire_def Let_def list_update_append replicate_app_Cons_same)
    ultimately show ?case by blast
  qed
  then obtain s where "joinRun ?A (Joined bs f) s" "js_branches s = replicate (length bs) (Finished ([], err))" by force
  then show ?thesis using joinRun_inv [of ?A bs f s] by (auto simp: joinInv_def list_all_iff)
qed

theorem unreachable_looks_unsupported_witness:
  "\<exists>s s' w d. joinRun (\<lambda>q a. a = ReplyError [69]) (getWireless exOps (Some [])) s \<and> js_called s = [w] \<and>
    joinRun (\<lambda>q a. a = ReplyError [69]) (getSystemDefense exOps (Some [])) s' \<and> js_called s' = [d] \<and>
    wlr_ok w \<and> wlr_error w = [] \<and> \<not> wps_present (wlr_port w) \<and> sdr_ok d \<and> sdr_error d = [] \<and> \<not> sdr_supported d"
proof -
  obtain s w where w: "joinRun (\<lambda>q a. a = ReplyError [69]) (getWireless exOps (Some [])) s" "js_called s = [w]"
    using failing_run [of "[69]" "[kickGet exOps [] kWiFiPortResource, kickGet exOps [] kWiFiEndpointResource, kickGet exOps [] kWiFiPortConfigServiceResource,
      kickEnum exOps [] kWiFiEndpointSettingsResource, kickEnum exOps [] kIEEE8021xSettingsResource, kickGet exOps [] kWired8021xProfileResource]" "wirelessOf exOps"]
    unfolding wireless.with_client by (auto simp: kicks_fail)
  obtain s' d where d: "joinRun (\<lambda>q a. a = ReplyError [69]) (getSystemDefense exOps (Some [])) s'" "js_called s' = [d]"
    using failing_run [of "[69]" "map (kickEnum exOps []) [kSystemDefensePolicyResource, kHdr8021FilterResource, kIpHeadersFilterResource, kActiveFilterStatisticsResource,
      kNetworkPortSystemDefensePolicyResource]" "systemDefenseOf exOps"]
    unfolding defense.with_client by (auto simp: kicks_fail)
  show ?thesis using unreachable_looks_unsupported [OF list.discI [OF refl] w d] w d by blast
qed

end
