(* ===== verification/Ops_Optin.thy ===== *)
theory Ops_Optin
  imports Ops_Inventory "HOL-Library.Multiset"
begin

text \<open>
  User consent and the settings of the remote screen (\<open>operations.cpp\<close>): reading them with two requests, and changing them by reading
  a record, editing it and writing it back. These operations use the client without a check: \<open>None\<close> is the dereferenced null pointer.
  Also the rule that lets a machine call its management server.
\<close>

section \<open>Consent\<close>

record OptInServiceResult =
  ois_ok :: bool
  ois_error :: qstring
  ois_optInRequired :: bool
  ois_optInRequiredRaw :: u32
  ois_optInState :: int
  ois_canModifyOptInPolicy :: bool
  ois_kvmOptInPolicy :: bool
  ois_optInPolicyTimeoutSec :: int
  ois_is5900PortEnabled :: bool
  ois_sessionTimeoutMinutes :: int
  ois_greyscalePixelFormatRequested :: bool

definition optInFailed :: "qstring \<Rightarrow> OptInServiceResult" where
  "optInFailed err =
     \<lparr>ois_ok = False, ois_error = err, ois_optInRequired = False, ois_optInRequiredRaw = 0, ois_optInState = 0, ois_canModifyOptInPolicy = False,
      ois_kvmOptInPolicy = False, ois_optInPolicyTimeoutSec = 0, ois_is5900PortEnabled = False, ois_sessionTimeoutMinutes = 0,
      ois_greyscalePixelFormatRequested = False\<rparr>"

text \<open>\<open>v.toLower() == "true" || v == "1"\<close>\<close>

definition yesText :: "'d opsenv \<Rightarrow> 'd \<Rightarrow> string \<Rightarrow> bool" where
  "yesText e body nm \<longleftrightarrow> o_toLower e (scalar e body nm) = qlit ''true'' \<or> scalar e body nm = qlit ''1''"

definition optInServiceOf :: "'d opsenv \<Rightarrow> 'd \<Rightarrow> OptInServiceResult" where
  "optInServiceOf e body =
     (let req = scalar e body ''OptInRequired'';
          required = (req \<noteq> [] \<and> req \<noteq> qlit ''0'' \<and> o_toLower e req \<noteq> qlit ''false'')
      in (optInFailed [])\<lparr>ois_optInRequired := required,
          ois_optInRequiredRaw := (if o_toLower e req = qlit ''true'' then 1
            else case o_toUInt e req of Some v \<Rightarrow> v | None \<Rightarrow> if required then 0xFFFFFFFF else 0),
          ois_optInState := intOr e body ''OptInState'' 0, ois_canModifyOptInPolicy := yesText e body ''CanModifyOptInPolicy''\<rparr>)"

definition withKvmSettings :: "'d opsenv \<Rightarrow> 'd \<Rightarrow> OptInServiceResult \<Rightarrow> OptInServiceResult" where
  "withKvmSettings e body r =
     r\<lparr>ois_kvmOptInPolicy := yesText e body ''OptInPolicy'', ois_optInPolicyTimeoutSec := intOr e body ''OptInPolicyTimeout'' (ois_optInPolicyTimeoutSec r),
       ois_is5900PortEnabled := yesText e body ''Is5900PortEnabled'', ois_sessionTimeoutMinutes := intOr e body ''SessionTimeout'' (ois_sessionTimeoutMinutes r),
       ois_greyscalePixelFormatRequested := yesText e body ''GreyscalePixelFormatRequested''\<rparr>"

definition getOptInStatus :: "'d opsenv \<Rightarrow> wsclient \<Rightarrow> ('d, OptInServiceResult) op option" where
  "getOptInStatus e c =
     map_option (\<lambda>to.
       Send (buildGetEnvelope (o_xml e) kOptInServiceResource [] to) (\<lambda>a. opReply e a (\<lambda>err. Finished (optInFailed err)) (\<lambda>body.
         let r = optInServiceOf e body
         in Send (buildGetEnvelope (o_xml e) kKvmRedirectionSettingDataResource [] to) (\<lambda>b. Finished
           ((opReply e b (\<lambda>err. r) (\<lambda>body2. withKvmSettings e body2 r))\<lparr>ois_ok := True\<rparr>))))) c"

section \<open>Read, edit, write\<close>

definition echoed :: "'d opsenv \<Rightarrow> 'd \<Rightarrow> string list \<Rightarrow> (string \<times> qstring) list" where
  "echoed e body keys = filter (\<lambda>kv. snd kv \<noteq> []) (map (\<lambda>k. (k, scalar e body k)) keys)"

text \<open>The second half: the record is written with what was read and what is changed.\<close>

definition editKvmSettings :: "'d opsenv \<Rightarrow> wsclient \<Rightarrow> ('d \<Rightarrow> qhash) \<Rightarrow> ('d, InvokeResult) op option" where
  "editKvmSettings e c props =
     map_option (\<lambda>to.
       Send (buildGetEnvelope (o_xml e) kKvmRedirectionSettingDataResource [] to) (\<lambda>a. opReply e a (\<lambda>err. Finished (invokeFailed err)) (\<lambda>body.
         Send (buildPutEnvelope (o_xml e) kKvmRedirectionSettingDataResource (qlit ''IPS_KVMRedirectionSettingData'')
             (hashOf e [(''InstanceID'', qlit ''Intel(r) KVM Redirection Settings'')]) (props body) to)
           (\<lambda>b. Finished (opReply e b invokeFailed noFault))))) c"

definition policyKeys :: "string list" where
  "policyKeys = [''EnabledByMEBx'', ''Is5900PortEnabled'', ''OptInPolicy'', ''OptInPolicyTimeout'', ''SessionTimeout'', ''RFBPassword'', ''DefaultScreen'',
     ''InitialDecimationModeForLowResScreens'', ''GreyscalePixelFormatSupported'', ''BackToBackFeatureSupported'']"

definition policyProps :: "'d opsenv \<Rightarrow> bool \<Rightarrow> 'd \<Rightarrow> qhash" where
  "policyProps e policyRequired body = hashOf e (echoed e body policyKeys @ [(''OptInPolicy'', boolStr policyRequired)])"

definition setKvmOptInPolicy :: "'d opsenv \<Rightarrow> wsclient \<Rightarrow> bool \<Rightarrow> ('d, InvokeResult) op option" where
  "setKvmOptInPolicy e c policyRequired = editKvmSettings e c (policyProps e policyRequired)"







section \<open>Rules for remote access\<close>

record CiraPolicyInput =
  cpi_trigger :: int
  cpi_tunnelLifeTime :: int
  cpi_periodicInterval :: bool
  cpi_periodicSeconds :: int
  cpi_periodicTimeOfDay :: bool
  cpi_periodicHour :: int
  cpi_periodicMinute :: int
  cpi_ciraMpsNames :: "qstring list"
  cpi_cilaMpsNames :: "qstring list"

definition mpServerEpr :: "string \<Rightarrow> qstring \<Rightarrow> xtok list" where
  "mpServerEpr tag nm =
     writeElement kRemoteAccessServiceResource (qlit tag) []
       (writeTextElement kNsAddressing (qlit ''Address'') kAnonymousReplyTo @
        writeElement kNsAddressing (qlit ''ReferenceParameters'') []
          (writeTextElement kNsWsman (qlit ''ResourceURI'') kManagementPresenceRemoteSapResource @
           writeElement kNsWsman (qlit ''SelectorSet'') [] (writeSelector (qlit ''Name'', nm))))"

definition policyExtendedData :: "'d opsenv \<Rightarrow> CiraPolicyInput \<Rightarrow> qstring" where
  "policyExtendedData e p =
     (if cpi_trigger p \<noteq> 2 then []
      else if cpi_periodicInterval p then buildExtendedData e True (cpi_periodicSeconds p) 0 0
      else if cpi_periodicTimeOfDay p then buildExtendedData e False 0 (cpi_periodicHour p) (cpi_periodicMinute p) else [])"

definition policyRuleEnvelope :: "'d opsenv \<Rightarrow> CiraPolicyInput \<Rightarrow> qstring \<Rightarrow> qstring \<Rightarrow> 'd" where
  "policyRuleEnvelope e p to msgId =
     x_write (o_xml e) (writeEnvelope
       (writeAddressingHeader (kRemoteAccessServiceResource @ qlit ''/AddRemoteAccessPolicyRule'') to msgId kRemoteAccessServiceResource [])
       (writeBody (writeElement kRemoteAccessServiceResource (qlit ''AddRemoteAccessPolicyRule_INPUT'') []
          (writeProperties kRemoteAccessServiceResource
             [(qlit ''Trigger'', intText (cpi_trigger p)), (qlit ''TunnelLifeTime'', intText (cpi_tunnelLifeTime p)),
              (qlit ''ExtendedData'', policyExtendedData e p)] @
           concat (map (mpServerEpr ''MpServer'') (cpi_ciraMpsNames p)) @ concat (map (mpServerEpr ''InternalMpServer'') (cpi_cilaMpsNames p))))))"

definition addRemoteAccessPolicyRule :: "'d opsenv \<Rightarrow> wsclient \<Rightarrow> CiraPolicyInput \<Rightarrow> ('d, InvokeResult) op" where
  "addRemoteAccessPolicyRule e c p =
     runRequest e c (policyRuleEnvelope e p (endpointStr c)) invokeFailed (laxReturn e (noReturnText e ''AddRemoteAccessPolicyRule returned %1''))"

section \<open>What is written back\<close>

lemma fold_hashInsert:
  "map_of (fold (\<lambda>kv. hashInsert (qlit (fst kv)) (snd kv)) kvs h) =
    map_of h ++ map_of (rev (map (\<lambda>(k, v). (qlit k, v)) kvs))"
  by (induction kvs arbitrary: h) (auto simp: map_of_hashInsert map_add_upd_left split: prod.splits)

lemma distinct_fold_hashInsert: "distinct (map fst h) \<Longrightarrow> distinct (map fst (fold (\<lambda>kv. hashInsert (qlit (fst kv)) (snd kv)) kvs h))"
  by (induction kvs arbitrary: h) (simp_all add: distinct_hashInsert)

text \<open>Iterating over a hash gives its entries in some order, each once; a lookup finds the last value inserted.\<close>

lemma lookup_hashOf:
  assumes "\<And>h. mset (o_order e h) = mset h"
  shows "map_of (hashOf e kvs) = map_of (rev (map (\<lambda>(k, v). (qlit k, v)) kvs))"
proof -
  have "map_of (o_order e h) = map_of h" if "distinct (map fst h)" for h
  proof -
    have "mset (map fst (o_order e h)) = mset (map fst h)" by (simp add: assms)
    then have "distinct (map fst (o_order e h))" using that mset_eq_imp_distinct_iff by blast
    moreover have "set (o_order e h) = set h" using assms [of h] by (rule mset_eq_setD)
    ultimately show ?thesis using that map_of_inject_set by blast
  qed
  then show ?thesis
    using fold_hashInsert [of kvs "[]"] distinct_fold_hashInsert [of "[]" kvs] by (simp add: hashOf_def)
qed

lemma qlit_inject [simp]: "qlit a = qlit b \<longleftrightarrow> a = b"
proof -
  have u: "unat (of_char c :: qchar) = (of_char c :: nat)" for c
  proof -
    have "(of_char c :: qchar) = of_nat (of_char c)" by (simp only: of_nat_of_char)
    moreover have "(of_char c :: nat) < 2 ^ 16" using less_trans [OF nat_of_char_less_256 [of c], of "2 ^ 16"] by simp
    ultimately show ?thesis by (simp only: unat_of_nat) simp
  qed
  then have "inj (of_char :: char \<Rightarrow> qchar)" by (metis injI of_char_eq_iff)
  then show ?thesis by (auto simp: qlit_def inj_map_eq_map)
qed

lemma map_of_qlit: "map_of (map (\<lambda>(k, v). (qlit k, v)) kvs) (qlit k) = map_of kvs k"
  by (induction kvs) auto

lemma lookup_hashOf_qlit:
  assumes "\<And>h. mset (o_order e h) = mset h"
  shows "map_of (hashOf e kvs) (qlit k) = map_of (rev kvs) k"
  using lookup_hashOf [OF assms, of kvs] map_of_qlit [of "rev kvs" k] by (simp add: rev_map)

lemma map_of_echoed: "map_of (rev (echoed e body keys)) k = (if k \<in> set keys \<and> scalar e body k \<noteq> [] then Some (scalar e body k) else None)"
  by (induction keys) (auto simp: echoed_def map_add_def split: option.splits)









text \<open>
  Changing the consent policy drops a setting. When the device reports that grey pixels are requested, \<open>setKvmOptInPolicy\<close> reads the
  record, and the record it writes back lacks the field; the same record written by \<open>setKvmSettings\<close> without a change has it.
\<close>

theorem policy_change_drops_greyscale:
  assumes "\<And>h. mset (o_order e h) = mset h"
    and "dev s (buildGetEnvelope (o_xml e) kKvmRedirectionSettingDataResource [] to (newMessageId (ids 1))) = (ReplyBody d, s')"
    and "\<not> isFault (parseResponse (o_xml e) d)" and "body = bodyXml (parseResponse (o_xml e) d)"
    and "scalar e body ''GreyscalePixelFormatRequested'' = qlit ''true''" and "setKvmOptInPolicy e (Some to) required = Some p"
  shows "\<exists>props. map fst (traceOp 2 ids dev s p) =
      [buildGetEnvelope (o_xml e) kKvmRedirectionSettingDataResource [] to (newMessageId (ids 1)),
       buildPutEnvelope (o_xml e) kKvmRedirectionSettingDataResource (qlit ''IPS_KVMRedirectionSettingData'')
         (hashOf e [(''InstanceID'', qlit ''Intel(r) KVM Redirection Settings'')]) props to (newMessageId (ids 0))] \<and>
    map_of props (qlit ''GreyscalePixelFormatRequested'') = None"
proof (intro exI [of _ "policyProps e required body"] conjI)
  show "map fst (traceOp 2 ids dev s p) =
      [buildGetEnvelope (o_xml e) kKvmRedirectionSettingDataResource [] to (newMessageId (ids 1)),
       buildPutEnvelope (o_xml e) kKvmRedirectionSettingDataResource (qlit ''IPS_KVMRedirectionSettingData'')
         (hashOf e [(''InstanceID'', qlit ''Intel(r) KVM Redirection Settings'')]) (policyProps e required body) to (newMessageId (ids 0))]"
    using assms(2-4,6) by (auto simp: setKvmOptInPolicy_def editKvmSettings_def opReply_def numeral_2_eq_2 Let_def split: prod.splits)
  show "map_of (policyProps e required body) (qlit ''GreyscalePixelFormatRequested'') = None"
    unfolding policyProps_def lookup_hashOf_qlit [OF assms(1)] by (simp add: map_of_echoed policyKeys_def map_add_def)
qed

theorem policy_change_drops_greyscale_witness:
  "\<exists>p props. setKvmOptInPolicy exOps (Some []) True = Some p \<and>
    map fst (traceOp 2 (\<lambda>i. []) (\<lambda>s q. (ReplyBody (exFields [(''GreyscalePixelFormatRequested'', qlit ''true'')]), s)) () p) =
      [buildGetEnvelope (o_xml exOps) kKvmRedirectionSettingDataResource [] [] (newMessageId []),
       buildPutEnvelope (o_xml exOps) kKvmRedirectionSettingDataResource (qlit ''IPS_KVMRedirectionSettingData'')
         (hashOf exOps [(''InstanceID'', qlit ''Intel(r) KVM Redirection Settings'')]) props [] (newMessageId [])] \<and>
    map_of props (qlit ''GreyscalePixelFormatRequested'') = None"
proof -
  let ?d = "exFields [(''GreyscalePixelFormatRequested'', qlit ''true'')]"
  have o: "mset (o_order exOps h) = mset h" for h by (simp add: exOps_def)
  have n: "qlit ''GreyscalePixelFormatRequested'' \<noteq> qlit ''OUTPUT''" by simp
  have g: "scalar exOps (bodyXml (parseResponse (o_xml exOps) ?d)) ''GreyscalePixelFormatRequested'' = qlit ''true''"
    using exFields_read(2) [OF n] by simp
  have f: "\<not> isFault (parseResponse (o_xml exOps) ?d)" using exFields_read(1) by simp
  obtain p where p: "setKvmOptInPolicy exOps (Some []) True = Some p" by (simp add: setKvmOptInPolicy_def editKvmSettings_def)
  show ?thesis
    using policy_change_drops_greyscale [OF o, of "\<lambda>s q. (ReplyBody ?d, s)" "()" "[]" "\<lambda>i. []" ?d "()", OF refl f refl g p] p by metis
qed

end
