(* ===== verification/Ops_Accounts.thy ===== *)
theory Ops_Accounts
  imports Ops_Join "HOL-Library.AList"
begin

text \<open>
  The user accounts of a machine (\<open>enumerateUserAccounts\<close> in \<open>operations.cpp\<close>). One request asks for the administrator, another one
  pages through the handles, and every handle that turns up adds two more requests. The answers arrive in any order; the result is
  delivered when none is outstanding. The state is \<open>Acc\<close>, with the requests that wait for an answer.
\<close>

section \<open>Accounts\<close>

definition realmName :: "int \<Rightarrow> qstring" where
  "realmName = tableLabel ['''', '''', ''Redirection'', '''', ''Hardware Asset'', ''Remote Control'', ''Storage'', ''Event Manager'', ''Storage Admin'', ''Agent Presence Local'',
     ''Agent Presence Remote'', ''Circuit Breaker'', ''Network Time'', ''General Information'', ''Firmware Update'', ''EIT'', ''LocalUN'', ''Endpoint Access Control'',
     ''Endpoint Access Control Admin'', ''Event Log Reader'', ''Audit Log'', ''ACL Realm'', '''', '''', ''Local System''] (\<lambda>index. [])"

definition accessPermissionLabel :: "'d opsenv \<Rightarrow> int \<Rightarrow> qstring" where
  "accessPermissionLabel e = labelOf [(0, ''Local only''), (1, ''Network only''), (2, ''All (Local & Network)''), (999, ''Administrator'')] (argNumber e ''Permission %1'')"

record UserAccount =
  usr_handle :: int
  usr_digestUsername :: qstring
  usr_kerberosUserSidB64 :: qstring
  usr_name :: qstring
  usr_accessPermission :: int
  usr_realms :: "int list"
  usr_enabled :: bool
  usr_hidden :: bool

record UserAccountsResult =
  uar_ok :: bool
  uar_error :: qstring
  uar_accounts :: "UserAccount list"

definition accountStub :: "int \<Rightarrow> UserAccount" where
  "accountStub h = \<lparr>usr_handle = h, usr_digestUsername = [], usr_kerberosUserSidB64 = [], usr_name = [], usr_accessPermission = -1, usr_realms = [],
     usr_enabled = True, usr_hidden = False\<rparr>"

definition parseAclHandles :: "'d opsenv \<Rightarrow> 'd \<Rightarrow> int list" where
  "parseAclHandles e body = List.map_filter (o_toInt e) (elementTexts e ''Handles'' body)"

definition parseUserRealms :: "'d opsenv \<Rightarrow> 'd \<Rightarrow> int list" where
  "parseUserRealms e body = List.map_filter (o_toInt e) (elementTexts e ''Realms'' body)"

definition hiddenName :: "qstring \<Rightarrow> bool" where
  "hiddenName u \<longleftrightarrow> take 2 u = qlit ''$$''"

definition adminAccount :: "qstring \<Rightarrow> UserAccount" where
  "adminAccount u = (accountStub (-1))\<lparr>usr_digestUsername := u, usr_name := u, usr_accessPermission := 999, usr_hidden := hiddenName u\<rparr>"

definition withEntry :: "'d opsenv \<Rightarrow> 'd \<Rightarrow> UserAccount \<Rightarrow> UserAccount" where
  "withEntry e body u =
     (let dn = scalar e body ''DigestUsername''
      in u\<lparr>usr_digestUsername := dn, usr_kerberosUserSidB64 := scalar e body ''KerberosUserSid'',
          usr_accessPermission := intOr e body ''AccessPermission'' (usr_accessPermission u), usr_realms := parseUserRealms e body,
          usr_name := (if dn \<noteq> [] then dn else qlit ''(Kerberos)''), usr_hidden := (if dn \<noteq> [] then hiddenName dn else usr_hidden u)\<rparr>)"

section \<open>The requests\<close>

datatype acct_request = AdminEntry | HandlePage int | UserEntry int | EnabledState int

fun perHandle :: "acct_request \<Rightarrow> bool" where
  "perHandle (UserEntry h) = True"
| "perHandle (EnabledState h) = True"
| "perHandle r = False"

definition acctEnvelope :: "'d opsenv \<Rightarrow> qstring \<Rightarrow> acct_request \<Rightarrow> qstring \<Rightarrow> 'd" where
  "acctEnvelope e to r =
     (let call = (\<lambda>m params. buildInvokeEnvelope (o_xml e) kAuthorizationServiceResource (qlit m) [] (hashOf e params) to)
      in case r of
        AdminEntry \<Rightarrow> call ''GetAdminAclEntry'' []
      | HandlePage start \<Rightarrow> call ''EnumerateUserAclEntries'' [(''StartIndex'', intText start)]
      | UserEntry h \<Rightarrow> call ''GetUserAclEntryEx'' [(''Handle'', intText h)]
      | EnabledState h \<Rightarrow> call ''GetAclEnabledState'' [(''Handle'', intText h)])"

record acct_state =
  ac_byHandle :: "(int \<times> UserAccount) list"
  ac_pending :: int
  ac_adminDone :: bool
  ac_enumDone :: bool
  ac_fired :: bool
  ac_error :: qstring
  ac_waiting :: "acct_request list"
  ac_called :: "UserAccountsResult list"

definition acctFire :: "acct_state \<Rightarrow> acct_state" where
  "acctFire s =
     (if ac_fired s \<or> \<not> ac_adminDone s \<or> \<not> ac_enumDone s \<or> ac_pending s > 0 then s
      else s\<lparr>ac_fired := True, ac_called := ac_called s @
        [\<lparr>uar_ok = (ac_error s = []), uar_error = ac_error s,
          uar_accounts = map (\<lambda>h. the (map_of (ac_byHandle s) h)) (sort (map fst (ac_byHandle s)))\<rparr>]\<rparr>)"

definition putAccount :: "int \<Rightarrow> UserAccount \<Rightarrow> (int \<times> UserAccount) list \<Rightarrow> (int \<times> UserAccount) list" where
  "putAccount h u us = AList.update h u us"

text \<open>The handle of an account that is known is updated; an unknown one is ignored.\<close>

definition editAccount :: "int \<Rightarrow> (UserAccount \<Rightarrow> UserAccount) \<Rightarrow> acct_state \<Rightarrow> acct_state" where
  "editAccount h f s =
     (case map_of (ac_byHandle s) h of None \<Rightarrow> s | Some u \<Rightarrow> s\<lparr>ac_byHandle := putAccount h (f u) (ac_byHandle s)\<rparr>)"

definition kickHandle :: "int \<Rightarrow> acct_state \<Rightarrow> acct_state" where
  "kickHandle h s =
     s\<lparr>ac_pending := ac_pending s + 2, ac_byHandle := putAccount h (accountStub h) (ac_byHandle s),
       ac_waiting := ac_waiting s @ [UserEntry h, EnabledState h]\<rparr>"

definition acctFailed :: "qstring \<Rightarrow> acct_state \<Rightarrow> acct_state" where
  "acctFailed err s = s\<lparr>ac_error := (if ac_error s = [] then err else ac_error s), ac_enumDone := True\<rparr>"

definition onAdminEntry :: "'d opsenv \<Rightarrow> 'd answer \<Rightarrow> acct_state \<Rightarrow> acct_state" where
  "onAdminEntry e a s =
     acctFire ((opReply e a (\<lambda>err. s) (\<lambda>body.
         let u = scalar e body ''Username'' in if u = [] then s else s\<lparr>ac_byHandle := putAccount (-1) (adminAccount u) (ac_byHandle s)\<rparr>))
       \<lparr>ac_adminDone := True\<rparr>)"

definition onHandlePage :: "'d opsenv \<Rightarrow> int \<Rightarrow> 'd answer \<Rightarrow> acct_state \<Rightarrow> acct_state" where
  "onHandlePage e start a s =
     opReply e a (\<lambda>err. acctFire (acctFailed err s)) (\<lambda>body.
       let handles = parseAclHandles e body; s' = fold kickHandle handles s
       in if length handles \<ge> 50 then s'\<lparr>ac_waiting := ac_waiting s' @ [HandlePage (start + int (length handles))]\<rparr>
          else acctFire (s'\<lparr>ac_enumDone := True\<rparr>))"

definition onUserEntry :: "'d opsenv \<Rightarrow> int \<Rightarrow> 'd answer \<Rightarrow> acct_state \<Rightarrow> acct_state" where
  "onUserEntry e h a s =
     (let s' = opReply e a (\<lambda>err. s) (\<lambda>body. editAccount h (withEntry e body) s) in acctFire (s'\<lparr>ac_pending := ac_pending s' - 1\<rparr>))"

definition onEnabledState :: "'d opsenv \<Rightarrow> int \<Rightarrow> 'd answer \<Rightarrow> acct_state \<Rightarrow> acct_state" where
  "onEnabledState e h a s =
     (let s' = opReply e a (\<lambda>err. s) (\<lambda>body. editAccount h (\<lambda>u. u\<lparr>usr_enabled := truthy e body ''Enabled''\<rparr>) s)
      in acctFire (s'\<lparr>ac_pending := ac_pending s' - 1\<rparr>))"

text \<open>The answer to the \<open>i\<close>-th outstanding request.\<close>

definition acctReply :: "'d opsenv \<Rightarrow> nat \<Rightarrow> 'd answer \<Rightarrow> acct_state \<Rightarrow> acct_state" where
  "acctReply e i a s =
     (let s' = s\<lparr>ac_waiting := take i (ac_waiting s) @ drop (Suc i) (ac_waiting s)\<rparr>
      in case ac_waiting s ! i of
        AdminEntry \<Rightarrow> onAdminEntry e a s'
      | HandlePage start \<Rightarrow> onHandlePage e start a s'
      | UserEntry h \<Rightarrow> onUserEntry e h a s'
      | EnabledState h \<Rightarrow> onEnabledState e h a s')"

definition enumerateUserAccounts :: "wsclient \<Rightarrow> acct_state" where
  "enumerateUserAccounts c =
     (let s = \<lparr>ac_byHandle = [], ac_pending = 0, ac_adminDone = False, ac_enumDone = False, ac_fired = False, ac_error = [], ac_waiting = [], ac_called = []\<rparr>
      in case c of
        None \<Rightarrow> acctFire (s\<lparr>ac_error := qlit ''client is null'', ac_adminDone := True, ac_enumDone := True\<rparr>)
      | Some to \<Rightarrow> s\<lparr>ac_waiting := [AdminEntry, HandlePage 1]\<rparr>)"

inductive acctRun :: "'d opsenv \<Rightarrow> wsclient \<Rightarrow> acct_state \<Rightarrow> bool" for e c where
  start: "acctRun e c (enumerateUserAccounts c)"
| reply: "acctRun e c s \<Longrightarrow> i < length (ac_waiting s) \<Longrightarrow> acctRun e c (acctReply e i a s)"

section \<open>The result comes once\<close>

text \<open>
  The counters count the outstanding requests, the callback has been called exactly when none is outstanding, and every account is
  filed under its handle, once. \<open>acctPre\<close> is what holds inside a handler, before the callback is considered.
\<close>

definition acctCounts :: "acct_state \<Rightarrow> bool" where
  "acctCounts s \<longleftrightarrow>
     ac_pending s = int (length (filter perHandle (ac_waiting s))) \<and>
     length (filter (\<lambda>r. r = AdminEntry) (ac_waiting s)) = (if ac_adminDone s then 0 else 1) \<and>
     length (filter (\<lambda>r. \<not> perHandle r \<and> r \<noteq> AdminEntry) (ac_waiting s)) = (if ac_enumDone s then 0 else 1) \<and>
     distinct (map fst (ac_byHandle s)) \<and> (\<forall>(h, u) \<in> set (ac_byHandle s). usr_handle u = h)"

definition inOrder :: "UserAccountsResult \<Rightarrow> bool" where
  "inOrder r \<longleftrightarrow> sorted_wrt (<) (map usr_handle (uar_accounts r))"

definition acctInv :: "acct_state \<Rightarrow> bool" where
  "acctInv s \<longleftrightarrow> acctCounts s \<and> ac_fired s = (ac_waiting s = []) \<and> (if ac_waiting s = [] then \<exists>r. ac_called s = [r] \<and> inOrder r else ac_called s = [])"

definition acctPre :: "acct_state \<Rightarrow> bool" where
  "acctPre s \<longleftrightarrow> acctCounts s \<and> \<not> ac_fired s \<and> ac_called s = []"

abbreviation adminsOut :: "acct_state \<Rightarrow> nat" where
  "adminsOut s \<equiv> length (filter (\<lambda>r. r = AdminEntry) (ac_waiting s))"

abbreviation pagesOut :: "acct_state \<Rightarrow> nat" where
  "pagesOut s \<equiv> length (filter (\<lambda>r. \<not> perHandle r \<and> r \<noteq> AdminEntry) (ac_waiting s))"

abbreviation entriesOut :: "acct_state \<Rightarrow> nat" where
  "entriesOut s \<equiv> length (filter perHandle (ac_waiting s))"

abbreviation filed :: "acct_state \<Rightarrow> bool" where
  "filed s \<equiv> distinct (map fst (ac_byHandle s)) \<and> (\<forall>(h, u) \<in> set (ac_byHandle s). usr_handle u = h)"

lemma none_out: "ac_waiting s = [] \<longleftrightarrow> adminsOut s = 0 \<and> pagesOut s = 0 \<and> entriesOut s = 0"
  by (cases "ac_waiting s") (auto simp: filter_empty_conv)

lemma acctFire_inv:
  assumes "acctPre s"
  shows "acctInv (acctFire s)"
proof (cases "ac_waiting s = []")
  case True
  let ?us = "ac_byHandle s" and ?ks = "sort (map fst (ac_byHandle s))"
  have f: "filed s" "ac_pending s = 0" "ac_adminDone s" "ac_enumDone s"
    using assms True by (auto simp: acctPre_def acctCounts_def split: if_splits)
  have "usr_handle (the (map_of ?us h)) = h" if "h \<in> set ?ks" for h
    using that f(1) by (auto simp: map_of_eq_Some_iff dest: map_of_SomeD)
  then have "map (\<lambda>h. usr_handle (the (map_of ?us h))) ?ks = ?ks" by (intro map_idI) blast
  moreover have "sorted_wrt (<) ?ks" using f(1) by (simp add: strict_sorted_iff)
  ultimately show ?thesis
    using assms True f by (auto simp: acctInv_def acctPre_def acctFire_def acctCounts_def inOrder_def comp_def)
next
  case False
  then have "\<not> ac_adminDone s \<or> \<not> ac_enumDone s \<or> ac_pending s > 0"
    using assms none_out [of s] by (auto simp: acctPre_def acctCounts_def split: if_splits)
  then have "acctFire s = s" by (auto simp: acctFire_def)
  then show ?thesis using assms False by (simp add: acctInv_def acctPre_def)
qed

text \<open>An answer takes one request away.\<close>

lemma length_filter_remove:
  "i < length xs \<Longrightarrow> length (filter P xs) = length (filter P (take i xs @ drop (Suc i) xs)) + (if P (xs ! i) then 1 else 0)"
  using arg_cong [OF id_take_nth_drop [of i xs], of "\<lambda>ys. length (filter P ys)"] by simp

lemma update_in: "(a, b) \<in> set (AList.update k v al) \<Longrightarrow> a = k \<and> b = v \<or> (a, b) \<in> set al"
  by (induction al) (auto split: if_splits)

lemma filed_put: "filed s \<Longrightarrow> usr_handle u = h \<Longrightarrow> filed (s\<lparr>ac_byHandle := putAccount h u (ac_byHandle s)\<rparr>)"
  by (auto simp: putAccount_def distinct_update dest!: update_in)

lemma filed_edit:
  assumes "filed s" and "\<And>u. usr_handle (f u) = usr_handle u"
  shows "filed (editAccount h f s)"
proof (cases "map_of (ac_byHandle s) h")
  case (Some u)
  then have "usr_handle (f u) = h" using assms by (auto dest!: map_of_SomeD)
  then show ?thesis using filed_put [OF assms(1), of "f u" h] Some by (simp add: editAccount_def)
qed (use assms in \<open>simp add: editAccount_def\<close>)

lemma editAccount_same [simp]:
  "ac_pending (editAccount h f s) = ac_pending s" "ac_adminDone (editAccount h f s) = ac_adminDone s" "ac_enumDone (editAccount h f s) = ac_enumDone s"
  "ac_fired (editAccount h f s) = ac_fired s" "ac_waiting (editAccount h f s) = ac_waiting s" "ac_called (editAccount h f s) = ac_called s"
  by (simp_all add: editAccount_def split: option.split)

text \<open>What adding the requests for handles keeps.\<close>

lemma kick_same:
  "ac_pending (fold kickHandle hs s) - int (entriesOut (fold kickHandle hs s)) = ac_pending s - int (entriesOut s)"
  "adminsOut (fold kickHandle hs s) = adminsOut s" "pagesOut (fold kickHandle hs s) = pagesOut s"
  "ac_adminDone (fold kickHandle hs s) = ac_adminDone s" "ac_enumDone (fold kickHandle hs s) = ac_enumDone s"
  "ac_fired (fold kickHandle hs s) = ac_fired s" "ac_called (fold kickHandle hs s) = ac_called s"
  by (induction hs arbitrary: s) (simp_all add: kickHandle_def)

lemma kick_filed: "filed s \<Longrightarrow> filed (fold kickHandle hs s)"
proof (induction hs arbitrary: s)
  case (Cons h hs)
  have "filed (s\<lparr>ac_byHandle := putAccount h (accountStub h) (ac_byHandle s)\<rparr>)"
    by (rule filed_put [OF Cons.prems]) (simp add: accountStub_def)
  then have "filed (kickHandle h s)" by (simp add: kickHandle_def)
  from Cons.IH [OF this] show ?case by simp
qed simp

lemma acctReply_inv:
  assumes "acctInv s" and i: "i < length (ac_waiting s)"
  shows "acctInv (acctReply e i a s)"
proof -
  let ?s = "s\<lparr>ac_waiting := take i (ac_waiting s) @ drop (Suc i) (ac_waiting s)\<rparr>" and ?r = "ac_waiting s ! i"
  have s: "acctCounts s" "\<not> ac_fired s" "ac_called s = []" using assms by (auto simp: acctInv_def split: if_splits)
  have n: "entriesOut s = entriesOut ?s + (if perHandle ?r then 1 else 0)" "adminsOut s = adminsOut ?s + (if ?r = AdminEntry then 1 else 0)"
    "pagesOut s = pagesOut ?s + (if \<not> perHandle ?r \<and> ?r \<noteq> AdminEntry then 1 else 0)"
    using length_filter_remove [OF i] by simp_all
  have f: "filed ?s" "ac_pending ?s = ac_pending s" "ac_adminDone ?s = ac_adminDone s" "ac_enumDone ?s = ac_enumDone s" "ac_error ?s = ac_error s"
    "\<not> ac_fired ?s" "ac_called ?s = []" using s by (simp_all add: acctCounts_def)
  define t where "t = ?s"
  note c = n s(1) [unfolded acctCounts_def] f
  note c' = c [folded t_def]
  show ?thesis
  proof (cases ?r)
    case AdminEntry
    have "filed (t\<lparr>ac_byHandle := putAccount (-1) (adminAccount u) (ac_byHandle t)\<rparr>)" for u
      by (rule filed_put) (use c' in \<open>simp_all add: adminAccount_def accountStub_def\<close>)
    then have "acctPre ((opReply e a (\<lambda>err. t) (\<lambda>body. let u = scalar e body ''Username''
        in if u = [] then t else t\<lparr>ac_byHandle := putAccount (-1) (adminAccount u) (ac_byHandle t)\<rparr>))\<lparr>ac_adminDone := True\<rparr>)"
      using c' AdminEntry by (auto simp: acctPre_def acctCounts_def opReply_def Let_def split: answer.splits if_splits)
    then have "acctInv (onAdminEntry e a t)" unfolding onAdminEntry_def by (rule acctFire_inv)
    then show ?thesis using AdminEntry by (simp add: acctReply_def t_def Let_def)
  next
    case (HandlePage start)
    have e1: "acctInv (acctFire (acctFailed err t))" for err
      by (rule acctFire_inv) (use c' HandlePage in \<open>auto simp: acctPre_def acctCounts_def acctFailed_def split: if_splits\<close>)
    have e2: "acctInv (acctFire ((fold kickHandle hs t)\<lparr>ac_enumDone := True\<rparr>))" for hs
      by (rule acctFire_inv)
        (use c' HandlePage kick_same [of hs t] kick_filed [of t hs] in \<open>auto simp: acctPre_def acctCounts_def split: if_splits\<close>)
    have e3: "acctInv (s'\<lparr>ac_waiting := ac_waiting s' @ [HandlePage k]\<rparr>)" if "s' = fold kickHandle hs t" for hs s' k
      using that c' HandlePage kick_same [of hs t] kick_filed [of t hs] by (auto simp: acctInv_def acctCounts_def split: if_splits)
    show ?thesis
      using HandlePage e1 e2 e3 by (auto simp: acctReply_def onHandlePage_def opReply_def t_def [symmetric] Let_def split: answer.splits)
  next
    case (UserEntry h)
    have "filed (editAccount h (withEntry e body) t)" for body
      by (rule filed_edit) (use c' in \<open>simp_all add: withEntry_def Let_def\<close>)
    then have "acctInv (onUserEntry e h a t)" unfolding onUserEntry_def Let_def
      by (intro acctFire_inv) (use c' UserEntry in \<open>auto simp: acctPre_def acctCounts_def opReply_def Let_def split: answer.splits if_splits\<close>)
    then show ?thesis using UserEntry by (simp add: acctReply_def t_def Let_def)
  next
    case (EnabledState h)
    have "filed (editAccount h (\<lambda>u. u\<lparr>usr_enabled := truthy e body ''Enabled''\<rparr>) t)" for body
      by (rule filed_edit) (use c' in simp_all)
    then have "acctInv (onEnabledState e h a t)" unfolding onEnabledState_def Let_def
      by (intro acctFire_inv) (use c' EnabledState in \<open>auto simp: acctPre_def acctCounts_def opReply_def Let_def split: answer.splits if_splits\<close>)
    then show ?thesis using EnabledState by (simp add: acctReply_def t_def Let_def)
  qed
qed

lemma acctRun_inv: "acctRun e (Some to) s \<Longrightarrow> acctInv s"
proof (induction rule: acctRun.induct)
  case start
  show ?case by (simp add: enumerateUserAccounts_def acctInv_def acctCounts_def)
qed (rule acctReply_inv)

text \<open>C13: The accounts are delivered exactly once. However the answers interleave and whatever they are, the callback has been called once if no
  request is outstanding and not at all otherwise; the accounts it gets are in the strict order of their handles, so that none appears
  twice. (The administrator has the handle -1 and comes first only as long as the device reports no handle below that; nothing checks
  the handles it reports.)
\<close>

theorem accounts_called_once:
  "acctRun e (Some to) s \<Longrightarrow>
    (if ac_waiting s = [] then \<exists>r. ac_called s = [r] \<and> sorted_wrt (<) (map usr_handle (uar_accounts r)) else ac_called s = [])"
  using acctRun_inv [of e to s] by (auto simp: acctInv_def inOrder_def)

text \<open>A run: the page of handles arrives before the administrator, and the details of the account are not readable.\<close>

definition exAcctRun :: "qstring \<Rightarrow> acct_state" where
  "exAcctRun handle =
     acctReply exOps 0 (ReplyBody (exFields [(''Username'', qlit ''admin'')])) (acctReply exOps 1 (ReplyError [69]) (acctReply exOps 1 (ReplyError [69])
       (acctReply exOps 1 (ReplyBody (exFields [(''Handles'', handle)])) (enumerateUserAccounts (Some [])))))"

lemmas acct_eval = enumerateUserAccounts_def acctReply_def onAdminEntry_def onHandlePage_def onUserEntry_def onEnabledState_def acctFailed_def
  acctFire_def opReply_def parseAclHandles_def List.map_filter_def kickHandle_def putAccount_def adminAccount_def accountStub_def exFields_read
  exNumber_def qlit_def Let_def

lemma exAcctRun_run: "exNumber handle = Some h \<Longrightarrow> acctRun exOps (Some []) (exAcctRun handle)"
  unfolding exAcctRun_def
  by (intro acctRun.reply acctRun.start) (simp_all add: acct_eval)

lemma exAcctRun_result:
  assumes "exNumber handle = Some h" and "h \<noteq> -1"
  shows "ac_waiting (exAcctRun handle) = [] \<and> map usr_handle (uar_accounts (hd (ac_called (exAcctRun handle)))) = sort [h, -1]"
  using assms unfolding exAcctRun_def by (simp add: acct_eval)

theorem accounts_called_once_witness:
  "\<exists>r. ac_called (exAcctRun [55]) = [r] \<and> map usr_handle (uar_accounts r) = [-1, 7] \<and> sorted_wrt (<) (map usr_handle (uar_accounts r))"
proof -
  have "exNumber [55] = Some 7" by (simp add: exNumber_def)
  note r = exAcctRun_run [OF this] exAcctRun_result [OF this]
  from accounts_called_once [OF r(1)] r(2) show ?thesis by auto
qed

end
