(* ===== verification/Spec2Isabelle.thy ===== *)
theory Spec2Isabelle
  imports Sol_Controller Kvm_Controller Ider_Session Setup_Bin Rmcp Batch_Runner Wsman_Flight Ops_Boot Ops_Log Ops_Optin Ops_Accounts
begin

text \<open>
  \<^bold>\<open>A verification library for QuMesh\<close>, a C++/Qt console for Intel AMT machines.

  \<^bold>\<open>The program.\<close> QuMesh discovers AMT machines on the network (\<open>src/rmcp\<close>), writes the provisioning file
  that enables AMT on a machine (\<open>src/wsman\<close>, setup.bin), and opens three kinds of sessions over the AMT
  redirection port (\<open>src/redir\<close>): a serial console, a redirected disk (\<open>src/ider\<close>) and a remote screen
  (\<open>src/kvm\<close>). All three share one client, which connects, checks the certificate, authenticates by digest
  and then hands the raw bytes to the session. The serial console feeds a terminal emulator (\<open>src/terminal\<close>).
  Everything else goes over WS-Man: SOAP requests over an HTTP client of the program's own (\<open>src/wsman\<close>).
  An SSH tunnel may carry the connection (\<open>src/ssh\<close>). The application (\<open>src/app\<close>) owns these objects, shows
  them, records sessions to disk and runs one action on many machines.

  \<^bold>\<open>The theories\<close>, from the bottom:

  \<^item> \<open>Prelude\<close>: bytes, words and text; the interfaces \<open>int_codec\<close> (an integer packer and its reader),
    \<open>stream_parser\<close> (a parser that consumes a prefix), \<open>frame_loop\<close> and \<open>stream_loop\<close> (a receive loop over such
    parsers, whose result does not depend on how the stream is cut into reads).
  \<^item> \<open>Redir_Codec\<close>, \<open>Redir_Client\<close>, \<open>Sol_Session\<close>: \<open>redir_codec.cpp\<close>, \<open>redir_client.cpp\<close>, \<open>sol_session.cpp\<close>. The client
    is a record with its socket, state and inbox; every signal and socket call is appended to \<open>outs\<close>. Shown: an
    authenticated client has answered a challenge of this connection; reads may be cut anywhere; a conforming
    device is authenticated with exactly the expected frames; console bytes arrive complete and in order;
    keystrokes reach the host.
  \<^item> \<open>Ider_Codec\<close>, \<open>Ider_Session\<close>: \<open>ider_codec.cpp\<close>, \<open>scsi.cpp\<close>, \<open>ider_session.cpp\<close>. Shown: a read command is
    answered with exactly the bytes of the image, in pieces within the announced buffer, and one completion, at most one
    read is under way, and a read outside the medium is refused.
  \<^item> \<open>Kvm_Codec\<close>, \<open>Kvm_Session\<close>: \<open>kvm_codec.cpp\<close>, \<open>kvm_session.cpp\<close>. Shown: the run-length decoder inverts an
    encoder, is defined on every block the palette allows, and gives the same answer when more bytes follow; the
    negotiated format never needs more than the firmware's display buffer; the bounded receive loop never forgets
    to reschedule itself; the handshake completes; an update re-arms the next request.
  \<^item> \<open>Terminal_Screen\<close>, \<open>Vt100_Parser\<close>: \<open>terminalscreen.cpp\<close>, \<open>vt100parser.cpp\<close>. The interface \<open>screen_contract\<close> lists what
    a property of the screen must survive; it is interpreted for the grid invariant and for the form of the
    answers. Shown: no byte stream breaks the grid, resizes it or makes the terminal answer anything but the
    window reports; the rendered HTML reads back as the characters of the cells in their styles, every span closed;
    cursor addressing, scrolling, erasing, printing.
  \<^item> \<open>Setup_Bin\<close>: \<open>setupbin.cpp\<close>. Shown: decoding inverts encoding on validated files that fit; the validator accepts
    exactly the files that follow the rules, stated apart from the validator (\<open>valueOk\<close> for the sizes of the values).
  \<^item> \<open>Rmcp\<close>: \<open>pong.cpp\<close>, \<open>target_range.cpp\<close>, \<open>scanner.cpp\<close>. Shown: the hosts of a block, the bound on targets, that a scan
    probes every target once, however its timers, datagrams and lookups interleave, and always has exactly one timer armed.
  \<^item> \<open>Batch_Runner\<close>: \<open>batchrunner.cpp\<close>. The queue re-enters itself from a reply; \<open>pumpFrom\<close> and \<open>replyTo\<close> take fuel, and
    \<open>pump_total\<close> shows that \<open>pumpFuel\<close>, which grows with the number of pending jobs, always suffices. Shown: a
    batch never stalls and every reply moves it on.
  \<^item> \<open>Recorders\<close>: \<open>asciicast_recorder.cpp\<close>, \<open>mjpeg_mov_recorder.cpp\<close>, \<open>filename_formatter.cpp\<close>. Shown: the text recording
    never cuts a character; a player that follows the tables in the bytes of the film file finds every picture.
  \<^item> \<open>Ssh_Session\<close>: \<open>ssh_session.cpp\<close>, \<open>sshtunnelhost.cpp\<close>. Two threads, as queues of commands and signals. The key
    that the server proves in the key exchange is a parameter, read by \<open>serverKey\<close>; the model notes it when the session
    connects. Shown: credentials go to a server only after the fingerprint of its key was pinned or accepted.
  \<^item> \<open>Sol_Controller\<close>: \<open>solcontroller.cpp\<close>, the composition of client, session, terminal, recorder and tunnel. Shown: the
    wired console implements the specification \<open>console_spec\<close>, which knows nothing of the wiring; every reachable
    console is well formed, with the resizes by the view (\<open>sc_retileGrid\<close>, from \<open>Terminal.qml\<close>) among its steps.

  \<^item> \<open>Kvm_Controller\<close>: \<open>kvmframebuffer.cpp\<close>, \<open>kvmcontroller.cpp\<close>, the same for the remote screen. Shown: the picture has one
    pixel per position and the size of the desktop the session knows, in every reachable state.

  \<^item> \<open>Wsman_Http\<close>, \<open>Wsman_Client\<close>, \<open>Wsman_Body\<close>, \<open>Wsman_Auth\<close>, \<open>Wsman_Flight\<close>: \<open>wsman_client.cpp\<close>. The client is a record with the heap
    of its replies; \<open>handle\<close> takes one call or signal; \<open>net\<close> is the world (hashes, random bytes, the socket factory).
    Shown: a started request always has its timer running, its body is bounded and it finishes once; a response arrives
    as sent, in any framing and however it is cut into reads; the \<open>Authorization\<close> header reads back as what was hashed;
    a request gets through a Digest login; no counter is used twice with a nonce; no request goes to a TLS peer whose
    certificate was neither valid nor pinned; serialized requests go one at a time, in order, for an owner that neither
    destroys the request in flight nor aborts a waiting one. The interface
    \<open>client_contract\<close> lists the elementary changes a property of the client must survive; it is interpreted for the
    certificates and for the counters.

  \<^item> \<open>Soap_Envelope\<close>, \<open>Soap_Trees\<close>: \<open>soap_envelope.cpp\<close>. Documents are token streams; Qt's reader and writer are the parameter
    \<open>xmllib\<close>. The interface \<open>token_handlers\<close> relates a reading loop over tokens to a fold over trees, once for every
    reader. Shown: a well-formed response parses to its fault or body, an invocation reads back as its method, selectors and
    parameters, and a page of an enumeration gives its items, its context and its end mark.
  \<^item> \<open>Ops_Core\<close>, \<open>Ops_Calls\<close>, \<open>Ops_Enum\<close>, \<open>Ops_Log\<close>, \<open>Ops_Boot\<close>, \<open>Ops_Join\<close>, \<open>Ops_Inventory\<close>, \<open>Ops_Optin\<close>, \<open>Ops_Accounts\<close>: \<open>operations.cpp\<close>. An operation is a program \<open>op\<close> that sends an envelope
    and goes on with the reply; \<open>runOp\<close> runs it against a device, with fuel for the number of requests. \<open>Ops_Core\<close> has
    \<open>runRequest\<close> and what the requests share, \<open>Ops_Calls\<close> the operations that are one request, \<open>Ops_Enum\<close> the enumerations and the
    readers of their items, \<open>Ops_Log\<close> the event log and the audit log, \<open>Ops_Boot\<close> the boot parameters and the boot chain. \<open>Ops_Join\<close>
    has the operations with several requests under way, as a step relation in which any of them may be answered next; the interface
    \<open>joined_operation\<close> says once for all of them that they call back once, and is interpreted for the eleven in \<open>Ops_Join\<close> and
    \<open>Ops_Inventory\<close>. \<open>Ops_Optin\<close> has consent and the settings that are read, edited and written back, \<open>Ops_Accounts\<close> the user accounts,
    a state machine whose requests beget requests. Shown: an
    enumeration returns the items of all pages; the two logs are read completely, and the event log ends within its bound against every device that makes
    progress; records and parameter blocks read back; a boot chain sends its requests in order, stops at the first that fails and changes the power state
    only when all have been accepted; an inventory is complete, comes once and ends; the accounts are delivered
    once, when no request is outstanding; settings that are not changed are written back as they were read.

  \<^bold>\<open>Findings.\<close> Where the code does not do what it means to, a theorem states what it does: the digest, and
  with it the whole console, is open to a peer whose certificate waits for approval (\<open>untrusted_console_opens\<close>); an
  accepted host key is not tied to a fingerprint (\<open>ssh_trust_not_bound\<close>); a console closed while its tunnel
  negotiates opens anyway (\<open>close_keeps_deferred_open\<close>); a failure is overwritten by the next state
  (\<open>trust_failure_forgotten\<close>, \<open>kvm_failure_forgotten\<close>, \<open>kvm_failure_hidden\<close>); a reopened console keeps the parser's state
  (\<open>reopen_swallows_output\<close>); a palette index is not bounded (\<open>packed_palette_overread\<close>); a run length can overflow
  (\<open>run_length_overflow\<close>); a record that does not fit is cut (\<open>setupbin_overflow_lost\<close>); a short write misaligns a film
  (\<open>mov_short_write_misaligned\<close>); a request over a tunnel that is down ends before its caller can listen
  (\<open>sync_factory_failure_unheard\<close>); a request queued behind a destroyed one may never start
  (\<open>destroyed_request_starves_next\<close>), and aborting a waiting one starts a second beside the one in flight
  (\<open>abort_queued_second_flight\<close>); the header block of a response is not capped (\<open>headers_not_capped\<close>), and a length that is
  not a number counts as zero (\<open>bad_length_succeeds\<close>); a reply without a return value is a success
  (\<open>missing_return_value_succeeds\<close>); the cap on the event log does not stop a device whose records are all unreadable
  (\<open>event_log_cap_evaded\<close>); an unreadable audit record makes the next request ask for records already read
  (\<open>audit_log_repeats\<close>); a machine that cannot be reached looks like one without the feature (\<open>unreachable_looks_unsupported\<close>);
  a change of the consent policy drops a setting (\<open>policy_change_drops_greyscale\<close>).

  \<^bold>\<open>Conventions.\<close> An object is a record, an operation a function from state to state; signals and calls of
  Qt are appended to a log in the state. What is not in the repository is a parameter: sockets (how many bytes
  a write takes), MD5 and SHA-256, random numbers, UTF-8 decoding, zlib, files, the JPEG encoder, the dispatcher
  of a batch, libssh. Sizes that the code keeps in machine words are words here, with their wrap-around.
  Receive loops terminate because every step consumes its inbox; the KVM loop is bounded per call as in the code.

  \<^bold>\<open>Not modelled.\<close> Of the WS-Man operations, those that register agents and subscriptions, create alarms and
  filters, request and bind certificates, add wireless profiles or browse classes (envelopes of their own around
  \<open>runRequest\<close>); certificate parsing and storage, migration of old settings, backup encryption, SSH forward channels, the controllers
  other than those of the serial console and the remote screen, and platform services; these are XML, JSON, OpenSSL and user-interface glue
  or are still to be modelled. Logging has no effect on the state and is left out throughout.
\<close>

end
